(* ===== verification/Prelude.thy ===== *)
theory Prelude
  imports Main "HOL-Library.Word"
begin

unbundle bit_operations_syntax

text \<open>
  Shared vocabulary of the development: the machine types of the Go sources, byte
  sequences in big-endian order (\<open>encoding/binary\<close>), slicing, and the lemma
  collections that the component proofs draw on.

  Go's \<open>byte\<close>, \<open>uint32\<close>, \<open>int32\<close> and \<open>uint64\<close> are words of their width; a signed value
  uses the same word and is compared with the signed orders. A Go \<open>[]byte\<close> is a list of
  bytes. Lengths, offsets and counters of Go's 64-bit \<open>int\<close> that only grow with data held
  in memory are natural numbers.
\<close>

type_synonym byte = "8 word"
type_synonym u16 = "16 word"
type_synonym u32 = "32 word"
type_synonym i32 = "32 word"
type_synonym u64 = "64 word"
type_synonym bytes = "byte list"

named_theorems framing "how a byte sequence splits into frames"
named_theorems bits "bit patterns of assembled and disassembled words"
named_theorems inv_intro "introduction rules of component invariants"

section \<open>Slices\<close>

text \<open>\<open>b[i:j]\<close> of a Go gslice; every use below is within bounds.\<close>

definition gslice :: "nat \<Rightarrow> nat \<Rightarrow> 'a list \<Rightarrow> 'a list" where
  "gslice i j xs = take (j - i) (drop i xs)"

lemma length_gslice [simp]: "length (gslice i j xs) = min (j - i) (length xs - i)"
  by (simp add: gslice_def min.commute)

lemma gslice_0 [simp]: "gslice 0 n xs = take n xs"
  by (simp add: gslice_def)

lemma gslice_append_left: "j \<le> length xs \<Longrightarrow> gslice i j (xs @ ys) = gslice i j xs"
  by (cases "i \<le> j") (simp_all add: gslice_def)

lemma gslice_nth: "i + k < j \<Longrightarrow> j \<le> length xs \<Longrightarrow> gslice i j xs ! k = xs ! (i + k)"
  by (simp add: gslice_def)

section \<open>Words and their bytes\<close>

text \<open>The 24-bit big-endian field of an FLV tag header, read as the code reads it:
  \<open>uint32(a)<<16 | uint32(b)<<8 | uint32(c)\<close>.\<close>

definition be24 :: "byte \<Rightarrow> byte \<Rightarrow> byte \<Rightarrow> u32" where
  "be24 a b c = push_bit 16 (ucast a) OR push_bit 8 (ucast b) OR ucast c"

text \<open>\<open>binary.BigEndian.Uint32\<close> and \<open>Uint64\<close> of the first bytes of a gslice.\<close>

definition be32 :: "bytes \<Rightarrow> u32" where
  "be32 bs = push_bit 24 (ucast (bs ! 0)) OR push_bit 16 (ucast (bs ! 1))
     OR push_bit 8 (ucast (bs ! 2)) OR ucast (bs ! 3)"

definition be64 :: "bytes \<Rightarrow> u64" where
  "be64 bs = push_bit 32 (ucast (be32 (take 4 bs))) OR ucast (be32 (drop 4 bs))"

text \<open>\<open>binary.BigEndian.PutUint32\<close> and \<open>PutUint64\<close>.\<close>

definition put32 :: "u32 \<Rightarrow> bytes" where
  "put32 v = [ucast (drop_bit 24 v), ucast (drop_bit 16 v), ucast (drop_bit 8 v), ucast v]"

definition put64 :: "u64 \<Rightarrow> bytes" where
  "put64 v = put32 (ucast (drop_bit 32 v)) @ put32 (ucast v)"

text \<open>\<open>binary.LittleEndian.PutUint32\<close> and \<open>PutUint64\<close>.\<close>

definition put32_le :: "u32 \<Rightarrow> bytes" where
  "put32_le v = rev (put32 v)"

definition put64_le :: "u64 \<Rightarrow> bytes" where
  "put64_le v = rev (put64 v)"

lemma length_put32 [simp]: "length (put32 v) = 4"
  by (simp add: put32_def)

lemma length_put64 [simp]: "length (put64 v) = 8"
  by (simp add: put64_def)

lemma length_put_le [simp]: "length (put32_le v) = 4" "length (put64_le w) = 8"
  by (simp_all add: put32_le_def put64_le_def)

lemma byte_high_bit: "8 \<le> n \<Longrightarrow> \<not> bit (a :: byte) n"
  using bit_imp_le_length by fastforce

lemma u32_24_high_bit: "drop_bit 24 (v :: u32) = 0 \<Longrightarrow> 24 \<le> n \<Longrightarrow> \<not> bit v n"
proof -
  have eq: "bit (drop_bit 24 v) (n - 24) = bit v (24 + (n - 24))"
    by (simp only: bit_drop_bit_eq comp_apply)
  assume "drop_bit 24 v = 0" and "24 \<le> n"
  then show ?thesis
    using eq by simp
qed

lemma unat_drop_bit_24: "unat (drop_bit 24 (v :: u32)) = unat v div 2 ^ 24"
  by (simp only: unat_drop_bit_eq drop_bit_eq_div [of 24 "unat v"])

lemma byte_index_cases:
  fixes n :: nat
  obtains "n < 8" | "8 \<le> n" "n < 16" | "16 \<le> n" "n < 24" | "24 \<le> n"
  by linarith

lemma be24_put [bits]:
  assumes "drop_bit 24 (v :: u32) = 0"
  shows "be24 (ucast (drop_bit 16 v)) (ucast (drop_bit 8 v)) (ucast v) = v"
proof (rule bit_word_eqI)
  fix n assume "n < LENGTH(32)"
  then show "bit (be24 (ucast (drop_bit 16 v)) (ucast (drop_bit 8 v)) (ucast v)) n = bit v n"
    by (cases n rule: byte_index_cases)
       (auto simp: be24_def bit_simps u32_24_high_bit [OF assms])
qed

lemma be32_put32 [simp, bits]: "be32 (put32 v @ rest) = v"
proof (rule bit_word_eqI)
  fix n assume "n < LENGTH(32)"
  then show "bit (be32 (put32 v @ rest)) n = bit v n"
    by (cases n rule: byte_index_cases) (auto simp: be32_def put32_def bit_simps)
qed

lemma be32_put32' [simp, bits]: "be32 (put32 v) = v"
  using be32_put32 [of v "[]"] by simp

lemma be64_put64 [simp, bits]: "be64 (put64 v) = v"
proof (rule bit_word_eqI)
  fix n assume "n < LENGTH(64)"
  then show "bit (be64 (put64 v)) n = bit v n"
    by (cases "n < 32") (auto simp: be64_def put64_def bit_simps)
qed

lemma be24_less: "unat (be24 a b c) < 2 ^ 24"
proof -
  have "drop_bit 24 (be24 a b c) = 0"
    by (rule bit_word_eqI) (simp add: be24_def bit_simps byte_high_bit)
  then have "unat (be24 a b c) div 2 ^ 24 = 0"
    by (simp only: unat_drop_bit_24 [symmetric]) simp
  then show ?thesis
    by (simp add: div_eq_0_iff)
qed

lemma drop_bit_24_small: "n < 2 ^ 24 \<Longrightarrow> drop_bit 24 (of_nat n :: u32) = 0"
  by (rule word_unat_eq_iff [THEN iffD2])
     (simp only: unat_drop_bit_24 unat_of_nat unat_0, simp)

lemma list_4_eq: "length xs = 4 \<Longrightarrow> xs = [xs ! 0, xs ! 1, xs ! 2, xs ! 3]"
  by (simp add: numeral_eq_Suc length_Suc_conv) auto

section \<open>Signed 32-bit differences\<close>

text \<open>\<open>d := a - b; if d < 0 { d = -d }\<close> on \<open>int32\<close>: both operations wrap.\<close>

definition abs32 :: "i32 \<Rightarrow> i32" where
  "abs32 d = (if d <s 0 then - d else d)"

lemma abs32_0 [simp]: "abs32 0 = 0"
  by (simp add: abs32_def)

lemma sint_add_bound:
  "- (2 ^ 31) \<le> sint (a :: i32) + sint (b :: i32) \<Longrightarrow> sint a + sint b < 2 ^ 31 \<Longrightarrow>
    sint (a + b) = sint a + sint b"
  by (simp add: sint_word_ariths(1) signed_take_bit_int_eq_self)

lemma sint_sub_bound:
  "- (2 ^ 31) \<le> sint (a :: i32) - sint (b :: i32) \<Longrightarrow> sint a - sint b < 2 ^ 31 \<Longrightarrow>
    sint (a - b) = sint a - sint b"
  by (simp add: sint_word_ariths(2) signed_take_bit_int_eq_self)

end
