(* ===== verification/FlvTag.thy ===== *)
theory FlvTag
  imports Prelude
begin

text \<open>
  FLV tags (\<open>pkg/flv\<close>): the tag record and its constants (\<open>fixer.go\<close>), classification of
  video payloads (\<open>video_tag.go\<close>), the file preamble and tag bytes (\<open>header_bytes.go\<close>),
  serialisation of a tag (\<open>writeTagOptimized\<close>), the framing step that the realtime and the
  accumulating fixer share, and the segment preamble (\<open>header_writer.go\<close>).

  The lemmas show that a serialised tag is read back unchanged, that framing does not
  depend on where the stream is cut into chunks, and what \<open>ClassifyVideoTag\<close> decides.
\<close>

section \<open>Constants\<close>

definition TagTypeAudio :: byte where "TagTypeAudio = 0x08"
definition TagTypeVideo :: byte where "TagTypeVideo = 0x09"
definition TagTypeScript :: byte where "TagTypeScript = 0x12"

definition TagHeaderSize :: nat where "TagHeaderSize = 11"
definition FlvHeaderSize :: nat where "FlvHeaderSize = 9"
definition PrevTagSizeBytes :: nat where "PrevTagSizeBytes = 4"
definition MaxTagDataSize :: nat where "MaxTagDataSize = 12 * 1024 * 1024"

lemmas flv_sizes [simp] = TagHeaderSize_def FlvHeaderSize_def PrevTagSizeBytes_def

text \<open>The three magic bytes \<open>FLV\<close> and the nine-byte file header.\<close>

definition flv_magic :: bytes where
  "flv_magic = [0x46, 0x4C, 0x56]"

definition FlvHeader :: bytes where
  "FlvHeader = [0x46, 0x4C, 0x56, 0x01, 0x05, 0x00, 0x00, 0x00, 0x09]"

section \<open>Video payloads\<close>

datatype VideoKind = VideoKindNone | VideoKindAVC | VideoKindHEVCLegacy | VideoKindHEVCEnhanced

definition fourCCHvc1 :: bytes where "fourCCHvc1 = [0x68, 0x76, 0x63, 0x31]"
definition fourCCHev1 :: bytes where "fourCCHev1 = [0x68, 0x65, 0x76, 0x31]"

text \<open>\<open>ClassifyVideoTag\<close> returns kind, isHeader and isKeyframe.\<close>

definition ClassifyVideoTag :: "bytes \<Rightarrow> VideoKind \<times> bool \<times> bool" where
  "ClassifyVideoTag d =
    (if length d = 0 then (VideoKindNone, False, False)
     else let b = d ! 0 in
       if b AND 0x80 \<noteq> 0 then
         (if length d < 5 then (VideoKindNone, False, False)
          else let key = (b AND 0x70 = 0x10); cc = gslice 1 5 d in
            if cc \<noteq> fourCCHvc1 \<and> cc \<noteq> fourCCHev1 then (VideoKindNone, False, key)
            else (VideoKindHEVCEnhanced, b AND 0x0F = 0, key))
       else if length d < 2 then (VideoKindNone, False, False)
       else let key = (b AND 0xF0 = 0x10); codec = b AND 0x0F in
         if codec = 7 then (VideoKindAVC, d ! 1 = 0, key)
         else if codec = 12 then (VideoKindHEVCLegacy, d ! 1 = 0, key)
         else (VideoKindNone, False, key))"

definition video_is_header :: "bytes \<Rightarrow> bool" where
  "video_is_header d = fst (snd (ClassifyVideoTag d))"

lemma ClassifyVideoTag_header_kind:
  "ClassifyVideoTag d = (k, True, key) \<Longrightarrow> k \<noteq> VideoKindNone \<and> 2 \<le> length d"
  by (auto simp: ClassifyVideoTag_def Let_def split: if_splits)

section \<open>Tags\<close>

record tag =
  tg_type :: byte
  tg_dataSize :: u32
  tg_timestamp :: i32
  tg_streamID :: bytes
  tg_data :: bytes
  tg_isHeader :: bool
  tg_isKeyframe :: bool

text \<open>\<open>binary.BigEndian.Uint24\<close> as the sources spell it, at offset 1 of a tag header, and the
  timestamp, whose extension byte comes last.\<close>

definition hdr_data_size :: "bytes \<Rightarrow> u32" where
  "hdr_data_size h = be24 (h ! 1) (h ! 2) (h ! 3)"

definition hdr_timestamp :: "bytes \<Rightarrow> i32" where
  "hdr_timestamp h = push_bit 24 (ucast (h ! 7)) OR push_bit 16 (ucast (h ! 4))
     OR push_bit 8 (ucast (h ! 5)) OR ucast (h ! 6)"

definition audio_is_header :: "bytes \<Rightarrow> bool" where
  "audio_is_header d = (length d \<ge> 2 \<and> drop_bit 4 (d ! 0) = 10 \<and> d ! 1 = 0)"

text \<open>The tag built from an eleven-byte header and its payload, flags included.\<close>

definition make_tag :: "bytes \<Rightarrow> bytes \<Rightarrow> tag" where
  "make_tag h d = \<lparr>
     tg_type = h ! 0,
     tg_dataSize = hdr_data_size h,
     tg_timestamp = hdr_timestamp h,
     tg_streamID = gslice 8 11 h,
     tg_data = d,
     tg_isHeader =
       (if h ! 0 = TagTypeVideo then video_is_header d
        else if h ! 0 = TagTypeAudio then audio_is_header d else False),
     tg_isKeyframe =
       (if h ! 0 = TagTypeVideo then snd (snd (ClassifyVideoTag d)) else False) \<rparr>"

text \<open>\<open>writeTagOptimized\<close>: header, payload and the trailing tag size.\<close>

definition tag_header_bytes :: "tag \<Rightarrow> bytes" where
  "tag_header_bytes t =
     [tg_type t,
      ucast (drop_bit 16 (tg_dataSize t)), ucast (drop_bit 8 (tg_dataSize t)), ucast (tg_dataSize t),
      ucast (drop_bit 16 (tg_timestamp t)), ucast (drop_bit 8 (tg_timestamp t)),
      ucast (tg_timestamp t), ucast (drop_bit 24 (tg_timestamp t))]
     @ take 3 (tg_streamID t)"

definition WriteTag :: "tag \<Rightarrow> bytes" where
  "WriteTag t = tag_header_bytes t @ tg_data t @ put32 (of_nat (11 + length (tg_data t)))"

text \<open>\<open>NewTagBytes\<close> and \<open>NewFileHeaderBytes\<close>.\<close>

definition NewTagBytes :: "byte \<Rightarrow> bytes \<Rightarrow> bytes" where
  "NewTagBytes ty d =
     [ty, ucast (drop_bit 16 (of_nat (length d) :: u64)), ucast (drop_bit 8 (of_nat (length d) :: u64)),
      ucast (of_nat (length d) :: u64)]
     @ replicate 7 0 @ d @ put32 (of_nat (TagHeaderSize + length d))"

definition NewFileHeaderBytes :: bytes where
  "NewFileHeaderBytes = FlvHeader @ replicate PrevTagSizeBytes 0"

section \<open>Framing\<close>

text \<open>
  One iteration of the parse loop over a buffer that starts at a previous-tag-size field:
  the tag and the rest of the buffer, or nothing while the tag is incomplete.
\<close>

definition next_tag :: "bytes \<Rightarrow> (tag \<times> bytes) option" where
  "next_tag buf =
    (if length buf < PrevTagSizeBytes + TagHeaderSize then None
     else let h = gslice PrevTagSizeBytes (PrevTagSizeBytes + TagHeaderSize) buf;
              total = PrevTagSizeBytes + TagHeaderSize + unat (hdr_data_size h) in
       if length buf < total then None
       else Some (make_tag h (gslice (PrevTagSizeBytes + TagHeaderSize) total buf), drop total buf))"

lemma next_tag_shorter: "next_tag buf = Some (t, rest) \<Longrightarrow> length rest < length buf"
  by (auto simp: next_tag_def Let_def split: if_splits)

text \<open>\<open>isWaitingForPartialTag\<close>.\<close>

definition isWaitingForPartialTag :: "bytes \<Rightarrow> bool" where
  "isWaitingForPartialTag a =
    (if length a < PrevTagSizeBytes + TagHeaderSize then False
     else let dataSize = unat (be24 (a ! (PrevTagSizeBytes + 1)) (a ! (PrevTagSizeBytes + 2))
                               (a ! (PrevTagSizeBytes + 3))) in
       if dataSize > MaxTagDataSize then False
       else length a < PrevTagSizeBytes + TagHeaderSize + dataSize)"

text \<open>All complete tags of a buffer and the unconsumed rest.\<close>

function parse_tags :: "bytes \<Rightarrow> tag list \<times> bytes" where
  "parse_tags buf = (case next_tag buf of None \<Rightarrow> ([], buf)
     | Some (t, rest) \<Rightarrow> (let (ts, r) = parse_tags rest in (t # ts, r)))"
  by pat_completeness auto
termination
  by (relation "measure length") (auto dest: next_tag_shorter)

declare parse_tags.simps [simp del]

lemma parse_tags_None: "next_tag buf = None \<Longrightarrow> parse_tags buf = ([], buf)"
  by (simp add: parse_tags.simps)

lemma parse_tags_Some:
  "next_tag buf = Some (t, rest) \<Longrightarrow>
    parse_tags buf = (t # fst (parse_tags rest), snd (parse_tags rest))"
  by (simp add: parse_tags.simps [of buf] case_prod_beta Let_def)

text \<open>A complete tag stays complete, with the same contents, when more bytes arrive.\<close>

lemma next_tag_append [framing]:
  assumes "next_tag buf = Some (t, rest)"
  shows "next_tag (buf @ extra) = Some (t, rest @ extra)"
  using assms
  by (auto simp: next_tag_def Let_def gslice_append_left split: if_splits)

lemma parse_tags_chunks:
  "parse_tags (a @ b) =
     (fst (parse_tags a) @ fst (parse_tags (snd (parse_tags a) @ b)),
      snd (parse_tags (snd (parse_tags a) @ b)))"
proof (induction a rule: parse_tags.induct)
  case (1 a)
  show ?case
  proof (cases "next_tag a")
    case None
    then show ?thesis by (simp add: parse_tags_None)
  next
    case (Some p)
    obtain t rest where p: "p = (t, rest)" by (cases p)
    from Some p have "next_tag a = Some (t, rest)" by simp
    then show ?thesis
      using "1.IH" [OF Some p [symmetric]] next_tag_append [of a t rest b]
      by (simp add: parse_tags_Some)
  qed
qed

lemma parse_tags_rest_incomplete: "next_tag (snd (parse_tags a)) = None"
proof (induction a rule: parse_tags.induct)
  case (1 a)
  show ?case
    by (cases "next_tag a") (use "1.IH" in \<open>auto simp: parse_tags_None parse_tags_Some\<close>)
qed

section \<open>Round trip\<close>

text \<open>A tag that can be serialised without loss: its size field is its payload's length and
  fits 24 bits, and its stream id has three bytes.\<close>

definition tag_ok :: "tag \<Rightarrow> bool" where
  "tag_ok t = (length (tg_data t) < 2 ^ 24 \<and> tg_dataSize t = of_nat (length (tg_data t))
     \<and> length (tg_streamID t) = 3)"

lemma length_tag_header_bytes: "length (tg_streamID t) = 3 \<Longrightarrow> length (tag_header_bytes t) = 11"
  by (simp add: tag_header_bytes_def)

lemma hdr_data_size_header: "tag_ok t \<Longrightarrow> hdr_data_size (tag_header_bytes t) = tg_dataSize t"
  by (simp add: hdr_data_size_def tag_header_bytes_def tag_ok_def be24_put drop_bit_24_small)

lemma hdr_timestamp_header: "hdr_timestamp (tag_header_bytes t) = tg_timestamp t"
proof (rule bit_word_eqI)
  fix n assume "n < LENGTH(32)"
  then show "bit (hdr_timestamp (tag_header_bytes t)) n = bit (tg_timestamp t) n"
    by (cases n rule: byte_index_cases)
       (auto simp: hdr_timestamp_def tag_header_bytes_def bit_simps)
qed

lemma unat_tag_size: "tag_ok t \<Longrightarrow> unat (tg_dataSize t) = length (tg_data t)"
  by (simp add: tag_ok_def unat_of_nat)

text \<open>The header, payload and trailing size of a tag, framed after any previous-tag-size.\<close>

lemma make_tag_header_bytes:
  assumes "tag_ok t"
  shows "make_tag (tag_header_bytes t) (tg_data t) =
    t\<lparr>tg_isHeader := tg_isHeader (make_tag (tag_header_bytes t) (tg_data t)),
      tg_isKeyframe := tg_isKeyframe (make_tag (tag_header_bytes t) (tg_data t))\<rparr>"
proof -
  have "gslice 8 11 (tag_header_bytes t) = tg_streamID t"
    using assms by (simp add: gslice_def tag_header_bytes_def tag_ok_def)
  moreover have "tag_header_bytes t ! 0 = tg_type t"
    by (simp add: tag_header_bytes_def)
  ultimately show ?thesis
    using assms by (simp add: make_tag_def hdr_data_size_header hdr_timestamp_header)
qed

lemma next_tag_WriteTag:
  assumes "tag_ok t" and "length pts = 4"
  shows "next_tag (pts @ WriteTag t @ extra) =
    Some (make_tag (tag_header_bytes t) (tg_data t),
      put32 (of_nat (11 + length (tg_data t))) @ extra)"
proof -
  have h: "length (tag_header_bytes t) = 11"
    using assms(1) by (simp add: length_tag_header_bytes tag_ok_def)
  have "gslice 4 15 (pts @ WriteTag t @ extra) = tag_header_bytes t"
    using assms(2) h by (simp add: gslice_def WriteTag_def)
  moreover have "gslice 15 (15 + length (tg_data t)) (pts @ WriteTag t @ extra) = tg_data t"
    using assms(2) h by (simp add: gslice_def WriteTag_def)
  moreover have "drop (15 + length (tg_data t)) (pts @ WriteTag t @ extra)
      = put32 (of_nat (11 + length (tg_data t))) @ extra"
    using assms(2) h by (simp add: WriteTag_def)
  ultimately show ?thesis
    using assms h
    by (simp add: next_tag_def Let_def hdr_data_size_header unat_tag_size WriteTag_def)
qed

text \<open>A tag whose flags are the ones the parser computes from its type and payload.\<close>

definition tag_flags_ok :: "tag \<Rightarrow> bool" where
  "tag_flags_ok t =
    (tg_isHeader t = (if tg_type t = TagTypeVideo then video_is_header (tg_data t)
       else if tg_type t = TagTypeAudio then audio_is_header (tg_data t) else False)
     \<and> tg_isKeyframe t = (if tg_type t = TagTypeVideo then snd (snd (ClassifyVideoTag (tg_data t)))
       else False))"

definition tag_wf :: "tag \<Rightarrow> bool" where
  "tag_wf t = (tag_ok t \<and> tag_flags_ok t)"

lemma make_tag_wf: "tag_wf t \<Longrightarrow> make_tag (tag_header_bytes t) (tg_data t) = t"
proof -
  assume wf: "tag_wf t"
  have "tag_header_bytes t ! 0 = tg_type t"
    by (simp add: tag_header_bytes_def)
  with wf show ?thesis
    by (subst make_tag_header_bytes) (simp_all add: tag_wf_def tag_flags_ok_def make_tag_def)
qed

lemma tag_wf_timestamp [simp]: "tag_wf (t\<lparr>tg_timestamp := x\<rparr>) = tag_wf t"
  by (simp add: tag_wf_def tag_ok_def tag_flags_ok_def)

lemma make_tag_is_wf:
  assumes "length h = 11" and "length d = unat (hdr_data_size h)"
  shows "tag_wf (make_tag h d)"
proof -
  have "unat (hdr_data_size h) < 2 ^ 24"
    unfolding hdr_data_size_def by (rule be24_less)
  then show ?thesis
    using assms by (simp add: tag_wf_def tag_ok_def tag_flags_ok_def make_tag_def)
qed

lemma next_tag_wf: "next_tag buf = Some (t, rest) \<Longrightarrow> tag_wf t"
  by (auto simp: next_tag_def Let_def split: if_splits intro!: make_tag_is_wf)

lemma parse_tags_wf: "t \<in> set (fst (parse_tags buf)) \<Longrightarrow> tag_wf t"
proof (induction buf rule: parse_tags.induct)
  case (1 buf)
  show ?case
  proof (cases "next_tag buf")
    case None
    with "1.prems" show ?thesis by (simp add: parse_tags_None)
  next
    case (Some p)
    obtain u rest where p: "p = (u, rest)" by (cases p)
    from Some p have "next_tag buf = Some (u, rest)" by simp
    with "1.prems" "1.IH" [OF Some p [symmetric]] show ?thesis
      by (auto simp: parse_tags_Some dest: next_tag_wf)
  qed
qed

text \<open>Serialised tags, each followed by its own size, are framed back one by one; the size
  of the last one is left for the next chunk.\<close>

lemma parse_tags_WriteTag:
  assumes "\<forall>t \<in> set ts. tag_wf t" and "length pts = 4"
  shows "\<exists>r. length r = 4 \<and>
    parse_tags (pts @ concat (map WriteTag ts)) = (ts, r)"
  using assms
proof (induction ts arbitrary: pts)
  case Nil
  then have "next_tag pts = None" by (simp add: next_tag_def)
  with Nil show ?case by (auto simp: parse_tags_None)
next
  case (Cons t ts)
  let ?sz = "put32 (of_nat (11 + length (tg_data t)))"
  from Cons.prems have wf: "tag_wf t" by simp
  then have "next_tag (pts @ WriteTag t @ concat (map WriteTag ts)) =
      Some (t, ?sz @ concat (map WriteTag ts))"
    using next_tag_WriteTag [of t pts] Cons.prems(2) make_tag_wf [OF wf]
    by (simp add: tag_wf_def)
  moreover obtain r where "length r = 4" "parse_tags (?sz @ concat (map WriteTag ts)) = (ts, r)"
    using Cons.IH [of ?sz] Cons.prems by auto
  ultimately show ?case
    by (auto simp: parse_tags_Some)
qed

text \<open>C1. Round trip of the FLV tag stream: any sequence of well-formed tags written by
  \<open>WriteTag\<close>, preceded by any four-byte previous-tag-size, is parsed back into exactly the
  same tags, with nothing left over but the size field of the last tag.\<close>

theorem flv_tags_roundtrip:
  assumes "\<forall>t \<in> set ts. tag_wf t" and "length pts = 4"
  shows "fst (parse_tags (pts @ concat (map WriteTag ts))) = ts \<and>
    length (snd (parse_tags (pts @ concat (map WriteTag ts)))) = 4"
proof -
  obtain r where "length r = 4" "parse_tags (pts @ concat (map WriteTag ts)) = (ts, r)"
    using parse_tags_WriteTag [OF assms] by blast
  then show ?thesis by simp
qed

definition sample_video :: tag where
  "sample_video = \<lparr>tg_type = 9, tg_dataSize = 3, tg_timestamp = 40, tg_streamID = [0, 0, 0],
     tg_data = [0x17, 0x00, 0x2A], tg_isHeader = True, tg_isKeyframe = True\<rparr>"

definition sample_audio :: tag where
  "sample_audio = \<lparr>tg_type = 8, tg_dataSize = 2, tg_timestamp = 63, tg_streamID = [0, 0, 0],
     tg_data = [0xAF, 0x00], tg_isHeader = True, tg_isKeyframe = False\<rparr>"

lemmas sample_tags = sample_video_def sample_audio_def
lemmas tag_wf_code = tag_wf_def tag_ok_def tag_flags_ok_def video_is_header_def
  audio_is_header_def ClassifyVideoTag_def TagTypeVideo_def TagTypeAudio_def

lemma sample_wf: "tag_wf sample_video" "tag_wf sample_audio"
  by (simp_all add: sample_tags tag_wf_code)

theorem flv_tags_roundtrip_witness:
  "fst (parse_tags ([0, 0, 0, 0] @ concat (map WriteTag [sample_video, sample_audio]))) =
    [sample_video, sample_audio]"
  using flv_tags_roundtrip [of "[sample_video, sample_audio]" "[0, 0, 0, 0]"] sample_wf by simp

section \<open>Segment preamble\<close>

record FlvHeaderWriter =
  VideoHeaderTag :: bytes
  AudioHeaderTag :: bytes

definition normalizeTagTimestamp :: "bytes \<Rightarrow> bytes" where
  "normalizeTagTimestamp t =
    (if length t = 0 then []
     else if length t \<ge> TagHeaderSize then t[4 := 0, 5 := 0, 6 := 0, 7 := 0] else t)"

definition Prepend :: "FlvHeaderWriter \<Rightarrow> bytes \<Rightarrow> bytes" where
  "Prepend w d =
    (let vTag = normalizeTagTimestamp (VideoHeaderTag w);
         aTag = normalizeTagTimestamp (AudioHeaderTag w) in
     NewFileHeaderBytes @ (if length vTag > 0 then vTag else [])
       @ (if length aTag > 0 then aTag else []) @ d)"

lemma normalizeTagTimestamp_WriteTag:
  assumes "tag_wf t"
  shows "normalizeTagTimestamp (WriteTag t) = WriteTag (t\<lparr>tg_timestamp := 0\<rparr>)"
proof -
  have "length (tg_streamID t) = 3"
    using assms by (simp add: tag_wf_def tag_ok_def)
  then show ?thesis
    by (simp add: normalizeTagTimestamp_def WriteTag_def tag_header_bytes_def)
qed

text \<open>A rotated segment is a well-formed FLV file: the preamble that \<open>Prepend\<close> writes is
  the nine-byte file header, and what follows it parses into the video and the audio
  sequence-header tags with their timestamps set to 0 and then the tags of the first chunk.\<close>

lemma flv_segment_preamble:
  assumes "tag_wf v" and "tag_wf a" and "\<forall>t \<in> set ts. tag_wf t"
  shows "take 9 (Prepend \<lparr>VideoHeaderTag = WriteTag v, AudioHeaderTag = WriteTag a\<rparr>
            (concat (map WriteTag ts))) = FlvHeader \<and>
    fst (parse_tags (drop 9 (Prepend \<lparr>VideoHeaderTag = WriteTag v, AudioHeaderTag = WriteTag a\<rparr>
            (concat (map WriteTag ts))))) = v\<lparr>tg_timestamp := 0\<rparr> # a\<lparr>tg_timestamp := 0\<rparr> # ts"
proof -
  let ?v = "v\<lparr>tg_timestamp := 0\<rparr>" and ?a = "a\<lparr>tg_timestamp := 0\<rparr>"
  have ne: "WriteTag u \<noteq> []" for u by (simp add: WriteTag_def tag_header_bytes_def)
  have "Prepend \<lparr>VideoHeaderTag = WriteTag v, AudioHeaderTag = WriteTag a\<rparr>
      (concat (map WriteTag ts)) =
      FlvHeader @ replicate 4 0 @ concat (map WriteTag (?v # ?a # ts))"
    using assms ne by (simp add: Prepend_def NewFileHeaderBytes_def normalizeTagTimestamp_WriteTag)
  moreover have "length FlvHeader = 9" by (simp add: FlvHeader_def)
  moreover have "\<exists>r. length r = 4 \<and>
      parse_tags (replicate 4 0 @ concat (map WriteTag (?v # ?a # ts))) = (?v # ?a # ts, r)"
    using assms by (intro parse_tags_WriteTag) auto
  ultimately show ?thesis by auto
qed

lemma flv_segment_preamble_witness:
  "fst (parse_tags (drop 9 (Prepend
      \<lparr>VideoHeaderTag = WriteTag sample_video, AudioHeaderTag = WriteTag sample_audio\<rparr>
      (concat (map WriteTag [])))))
    = [sample_video\<lparr>tg_timestamp := 0\<rparr>, sample_audio\<lparr>tg_timestamp := 0\<rparr>]"
  using flv_segment_preamble [of sample_video sample_audio "[]"] sample_wf by simp

text \<open>A video payload is recognised as a sequence header exactly when it is an Enhanced FLV
  payload (top bit set) with an HEVC fourCC and packet type 0, or a legacy AVC or HEVC payload
  whose second byte is 0; no other layout makes the pipeline rotate.\<close>

lemma video_header_iff:
  "video_is_header d \<longleftrightarrow>
    (5 \<le> length d \<and> d ! 0 AND 0x80 \<noteq> 0 \<and> d ! 0 AND 0x0F = 0 \<and>
       (take 4 (drop 1 d) = fourCCHvc1 \<or> take 4 (drop 1 d) = fourCCHev1)) \<or>
    (2 \<le> length d \<and> d ! 0 AND 0x80 = 0 \<and> (d ! 0 AND 0x0F = 7 \<or> d ! 0 AND 0x0F = 12) \<and>
       d ! 1 = 0)"
  by (auto simp: video_is_header_def ClassifyVideoTag_def gslice_def Let_def)

end
