(* ===== verification/GoMap.thy ===== *)
theory GoMap
  imports Prelude "HOL-Library.AList"
begin

text \<open>
  Go's built-in \<open>map[K]V\<close> where the sources use its length or its key set: an association
  list with distinct keys. The interface locale \<open>go_map\<close> states what the components rely
  on (lookup after insert and delete, \<open>len\<close> counts the keys); their proofs use only its
  lemmas, through the interpretation \<open>gm\<close> at the end.
\<close>

type_synonym ('k, 'v) gomap = "('k \<times> 'v) list"

definition gm_empty :: "('k, 'v) gomap" where
  "gm_empty = []"

definition gm_get :: "('k, 'v) gomap \<Rightarrow> 'k \<Rightarrow> 'v option" where
  "gm_get m k = map_of m k"

definition gm_put :: "'k \<Rightarrow> 'v \<Rightarrow> ('k, 'v) gomap \<Rightarrow> ('k, 'v) gomap" where
  "gm_put k v m = AList.update k v m"

definition gm_del :: "'k \<Rightarrow> ('k, 'v) gomap \<Rightarrow> ('k, 'v) gomap" where
  "gm_del k m = AList.delete k m"

definition gm_len :: "('k, 'v) gomap \<Rightarrow> nat" where
  "gm_len m = length m"

definition gm_ok :: "('k, 'v) gomap \<Rightarrow> bool" where
  "gm_ok m = distinct (map fst m)"

locale go_map =
  fixes emp :: "'m"
    and get :: "'m \<Rightarrow> 'k \<Rightarrow> 'v option"
    and put :: "'k \<Rightarrow> 'v \<Rightarrow> 'm \<Rightarrow> 'm"
    and del :: "'k \<Rightarrow> 'm \<Rightarrow> 'm"
    and len :: "'m \<Rightarrow> nat"
    and ok :: "'m \<Rightarrow> bool"
  assumes get_emp: "get emp k = None"
    and get_put: "get (put k v m) k' = (if k' = k then Some v else get m k')"
    and get_del: "get (del k m) k' = (if k' = k then None else get m k')"
    and fin: "finite (dom (get m))"
    and len_card: "ok m \<Longrightarrow> len m = card (dom (get m))"
    and ok_emp: "ok emp"
    and ok_put: "ok m \<Longrightarrow> ok (put k v m)"
    and ok_del: "ok m \<Longrightarrow> ok (del k m)"
begin

lemma dom_put: "dom (get (put k v m)) = insert k (dom (get m))"
  by (auto simp: get_put)

lemma dom_del: "dom (get (del k m)) = dom (get m) - {k}"
  by (auto simp: get_del split: if_splits)

lemma len_emp: "len emp = 0"
  using get_emp by (simp add: len_card [OF ok_emp] dom_def)

lemma len_put_old: "ok m \<Longrightarrow> get m k = Some u \<Longrightarrow> len (put k v m) = len m"
  by (simp add: len_card ok_put dom_put insert_absorb domI)

lemma len_put_new: "ok m \<Longrightarrow> get m k = None \<Longrightarrow> len (put k v m) = Suc (len m)"
  by (simp add: len_card ok_put dom_put fin domIff)

lemma len_put_le: "ok m \<Longrightarrow> len (put k v m) \<le> Suc (len m)"
  by (cases "get m k") (simp_all add: len_put_new len_put_old)

lemma len_del_le: "ok m \<Longrightarrow> len (del k m) \<le> len m"
  by (simp add: len_card ok_del dom_del fin card_mono)

lemma ok_fold_del: "ok m \<Longrightarrow> ok (fold del ks m)"
  by (induction ks arbitrary: m) (simp_all add: ok_del)

lemma get_fold_del: "get (fold del ks m) k = (if k \<in> set ks then None else get m k)"
  by (induction ks arbitrary: m) (auto simp: get_del)

lemma dom_fold_del: "dom (get (fold del ks m)) = dom (get m) - set ks"
  by (auto simp: get_fold_del split: if_splits)

text \<open>A map whose keys are listed without repetition in a list has that list's length.\<close>

lemma len_order: "ok m \<Longrightarrow> distinct xs \<Longrightarrow> dom (get m) = set xs \<Longrightarrow> len m = length xs"
  by (simp add: len_card distinct_card)

end

interpretation gm: go_map gm_empty gm_get gm_put gm_del gm_len gm_ok
proof unfold_locales
  fix m :: "('a, 'b) gomap" and k k' :: 'a and v :: 'b
  show "gm_get (gm_put k v m) k' = (if k' = k then Some v else gm_get m k')"
    by (simp add: gm_get_def gm_put_def update_conv)
  show "gm_get (gm_del k m) k' = (if k' = k then None else gm_get m k')"
    by (simp add: gm_get_def gm_del_def delete_conv)
  show "finite (dom (gm_get m))"
    by (simp add: gm_get_def [abs_def] finite_dom_map_of)
  show "gm_ok m \<Longrightarrow> gm_len m = card (dom (gm_get m))"
    by (simp add: gm_ok_def gm_len_def gm_get_def [abs_def] dom_map_of_conv_image_fst
        flip: set_map) (metis distinct_card length_map)
qed (simp_all add: gm_get_def gm_empty_def gm_ok_def gm_put_def gm_del_def
      distinct_update distinct_delete)

lemmas gm_get_simps [simp] = gm.get_emp gm.get_put gm.get_del
lemmas gm_ok_simps [simp, intro] = gm.ok_emp gm.ok_put gm.ok_del gm.ok_fold_del
lemmas gm_code = gm_get_def gm_put_def gm_del_def gm_len_def gm_empty_def

end
