(* ===== verification/FlvDedup.thy ===== *)
theory FlvDedup
  imports FlvTag GoMap
begin

text \<open>
  The tag deduplication cache of \<open>pkg/flv/fixer.go\<close>: a map from a 64-bit FNV-1a signature
  to the last tag seen with it, and the order in which the signatures were added. The code
  relies on the two agreeing: \<open>cleanOldLocked\<close> dereferences the map's entry for every hash
  of the order. The lemmas show that every operation keeps them in agreement and the cache
  within its capacity, so that this dereference never fails.
\<close>

record TagSignature =
  sg_hash :: u64
  sg_timestamp :: i32
  sg_type :: byte
  sg_dataSize :: u32

record DedupCache =
  dc_sigs :: "(u64, TagSignature) gomap"
  dc_order :: "u64 list"
  dc_maxSize :: nat
  dc_windowMs :: i32

definition MaxDedupCacheSize :: nat where "MaxDedupCacheSize = 1000"
definition DedupWindowMs :: i32 where "DedupWindowMs = 5000"

definition NewDedupCache :: "nat \<Rightarrow> i32 \<Rightarrow> DedupCache" where
  "NewDedupCache maxSize windowMs =
    \<lparr>dc_sigs = gm_empty, dc_order = [], dc_maxSize = maxSize, dc_windowMs = windowMs\<rparr>"

section \<open>Operations\<close>

definition fnv_step :: "u64 \<Rightarrow> u64 \<Rightarrow> u64" where
  "fnv_step h x = (h XOR x) * 1099511628211"

definition computeSignature :: "tag \<Rightarrow> u64" where
  "computeSignature t =
    (let h = fnv_step 1469598103934665603 (ucast (tg_type t));
         h = fnv_step h (ucast (tg_timestamp t));
         h = fnv_step h (ucast (tg_dataSize t))
     in fold (\<lambda>b h. fnv_step h (ucast b)) (take 32 (tg_data t)) h)"

definition evictOldestLocked :: "nat \<Rightarrow> DedupCache \<Rightarrow> DedupCache" where
  "evictOldestLocked removeCount c =
    (if removeCount < 1 \<or> length (dc_order c) = 0 then c
     else let n = (if removeCount > length (dc_order c) then length (dc_order c) else removeCount) in
       c\<lparr>dc_sigs := fold gm_del (take n (dc_order c)) (dc_sigs c),
         dc_order := drop n (dc_order c)\<rparr>)"

definition dc_add :: "u64 \<Rightarrow> TagSignature \<Rightarrow> DedupCache \<Rightarrow> DedupCache" where
  "dc_add h sg c =
    (case gm_get (dc_sigs c) h of
       Some _ \<Rightarrow> c\<lparr>dc_sigs := gm_put h sg (dc_sigs c)\<rparr>
     | None \<Rightarrow>
        let c' = (if gm_len (dc_sigs c) \<ge> dc_maxSize c then
            let removeCount = dc_maxSize c div 5 in
            evictOldestLocked (if removeCount < 1 then 1 else removeCount) c
          else c)
        in c'\<lparr>dc_sigs := gm_put h sg (dc_sigs c'), dc_order := dc_order c' @ [h]\<rparr>)"

definition isDuplicateLocked :: "tag \<Rightarrow> DedupCache \<Rightarrow> bool \<times> DedupCache" where
  "isDuplicateLocked t c =
    (let h = computeSignature t;
         sg = \<lparr>sg_hash = h, sg_timestamp = tg_timestamp t, sg_type = tg_type t,
               sg_dataSize = tg_dataSize t\<rparr> in
     case gm_get (dc_sigs c) h of
       Some e \<Rightarrow>
        (if abs32 (tg_timestamp t - sg_timestamp e) \<le>s dc_windowMs c
             \<and> sg_type e = tg_type t \<and> sg_dataSize e = tg_dataSize t
         then (True, c) else (False, dc_add h sg c))
     | None \<Rightarrow> (False, dc_add h sg c))"

text \<open>The sweep over the order; \<open>None\<close> is the nil dereference of a hash without an entry.\<close>

fun clean_loop :: "i32 \<Rightarrow> i32 \<Rightarrow> u64 list \<Rightarrow> (u64, TagSignature) gomap \<Rightarrow>
    (u64 list \<times> (u64, TagSignature) gomap) option" where
  "clean_loop now w [] m = Some ([], m)"
| "clean_loop now w (h # hs) m =
    (case gm_get m h of
       None \<Rightarrow> None
     | Some sg \<Rightarrow>
        if abs32 (now - sg_timestamp sg) \<le>s w * 2 then
          map_option (\<lambda>(kept, m'). (h # kept, m')) (clean_loop now w hs m)
        else clean_loop now w hs (gm_del h m))"

definition cleanOldLocked :: "i32 \<Rightarrow> DedupCache \<Rightarrow> DedupCache option" where
  "cleanOldLocked now c =
    map_option (\<lambda>(kept, m). c\<lparr>dc_sigs := m, dc_order := kept\<rparr>)
      (clean_loop now (dc_windowMs c) (dc_order c) (dc_sigs c))"

definition highWaterSize :: "DedupCache \<Rightarrow> nat" where
  "highWaterSize c = dc_maxSize c * 4 div 5"

definition IsAboveHighWater :: "DedupCache \<Rightarrow> bool" where
  "IsAboveHighWater c = (gm_len (dc_sigs c) \<ge> highWaterSize c)"

definition cleanHighWaterLocked :: "i32 \<Rightarrow> DedupCache \<Rightarrow> DedupCache option" where
  "cleanHighWaterLocked now c =
    (if gm_len (dc_sigs c) < highWaterSize c then Some c
     else case cleanOldLocked now c of
       None \<Rightarrow> None
     | Some c' \<Rightarrow>
        if gm_len (dc_sigs c') < highWaterSize c' then Some c'
        else let removeCount = dc_maxSize c' div 10 in
          Some (evictOldestLocked (if removeCount < 1 then 1 else removeCount) c'))"

definition dc_reset :: "DedupCache \<Rightarrow> DedupCache" where
  "dc_reset c = c\<lparr>dc_sigs := gm_empty, dc_order := []\<rparr>"

definition dc_stats :: "DedupCache \<Rightarrow> nat \<times> nat" where
  "dc_stats c = (gm_len (dc_sigs c), dc_maxSize c)"

section \<open>The invariant\<close>

definition dedup_inv :: "DedupCache \<Rightarrow> bool" where
  "dedup_inv c = (gm_ok (dc_sigs c) \<and> distinct (dc_order c)
     \<and> set (dc_order c) = dom (gm_get (dc_sigs c))
     \<and> length (dc_order c) \<le> dc_maxSize c \<and> 0 < dc_maxSize c)"

lemma dedup_inv_len: "dedup_inv c \<Longrightarrow> gm_len (dc_sigs c) = length (dc_order c)"
  unfolding dedup_inv_def by (intro gm.len_order) auto

lemma dedup_inv_new [inv_intro]: "0 < n \<Longrightarrow> dedup_inv (NewDedupCache n w)"
  by (simp add: dedup_inv_def NewDedupCache_def dom_def)

lemma dedup_inv_reset [inv_intro]: "dedup_inv c \<Longrightarrow> dedup_inv (dc_reset c)"
  by (simp add: dedup_inv_def dc_reset_def dom_def)

lemma dedup_inv_evict [inv_intro]:
  assumes "dedup_inv c"
  shows "dedup_inv (evictOldestLocked n c)"
proof -
  have "set (drop k xs) = set xs - set (take k xs)" if "distinct xs" for k and xs :: "u64 list"
    using that by (metis append_take_drop_id distinct_append set_append Un_Diff
        Diff_cancel Diff_triv Un_empty_left inf_commute)
  then show ?thesis
    using assms
    by (auto simp: dedup_inv_def evictOldestLocked_def Let_def gm.dom_fold_del)
qed

lemma evict_fields [simp]:
  "dc_maxSize (evictOldestLocked n c) = dc_maxSize c"
  "dc_windowMs (evictOldestLocked n c) = dc_windowMs c"
  by (simp_all add: evictOldestLocked_def Let_def)

lemma evict_order: "0 < n \<Longrightarrow> dc_order (evictOldestLocked n c) = drop n (dc_order c)"
  by (simp add: evictOldestLocked_def Let_def)

lemma add_fields [simp]:
  "dc_maxSize (dc_add h sg c) = dc_maxSize c" "dc_windowMs (dc_add h sg c) = dc_windowMs c"
  by (simp_all add: dc_add_def Let_def split: option.splits)

lemma dedup_inv_add [inv_intro]:
  assumes inv: "dedup_inv c"
  shows "dedup_inv (dc_add h sg c)"
proof (cases "gm_get (dc_sigs c) h")
  case (Some e)
  then show ?thesis
    using inv by (auto simp: dc_add_def dedup_inv_def gm.dom_put)
next
  case None
  let ?n = "if dc_maxSize c div 5 < 1 then 1 else dc_maxSize c div 5"
  let ?c = "if gm_len (dc_sigs c) \<ge> dc_maxSize c then evictOldestLocked ?n c else c"
  have pos: "0 < ?n" by simp
  have inv': "dedup_inv ?c"
    using inv by (simp add: dedup_inv_evict)
  have room: "length (dc_order ?c) < dc_maxSize ?c"
  proof (cases "gm_len (dc_sigs c) \<ge> dc_maxSize c")
    case True
    then show ?thesis
      using inv pos by (simp add: evict_order dedup_inv_def) linarith
  next
    case False
    then show ?thesis
      using dedup_inv_len [OF inv] by simp
  qed
  have sub: "h \<notin> set (dc_order ?c)"
  proof -
    have "set (dc_order ?c) \<subseteq> set (dc_order c)"
      using pos by (auto simp: evict_order dest: in_set_dropD)
    moreover have "h \<notin> set (dc_order c)"
      using inv None by (auto simp: dedup_inv_def)
    ultimately show ?thesis by blast
  qed
  have "dc_add h sg c = ?c\<lparr>dc_sigs := gm_put h sg (dc_sigs ?c), dc_order := dc_order ?c @ [h]\<rparr>"
    using None by (simp add: dc_add_def Let_def)
  then show ?thesis
    using inv' room sub unfolding dedup_inv_def by (simp only:) (auto simp: gm.dom_put)
qed

lemma dedup_inv_isDuplicate [inv_intro]:
  "dedup_inv c \<Longrightarrow> dedup_inv (snd (isDuplicateLocked t c))"
  by (auto simp: isDuplicateLocked_def Let_def dedup_inv_add split: option.splits)

lemma isDuplicate_fields [simp]:
  "dc_maxSize (snd (isDuplicateLocked t c)) = dc_maxSize c"
  "dc_windowMs (snd (isDuplicateLocked t c)) = dc_windowMs c"
  by (simp_all add: isDuplicateLocked_def Let_def split: option.splits)

text \<open>The sweep: it succeeds when every hash of the order has an entry, and it keeps exactly
  the entries within twice the window.\<close>

definition sig_fresh :: "i32 \<Rightarrow> i32 \<Rightarrow> TagSignature option \<Rightarrow> bool" where
  "sig_fresh now w s = (case s of None \<Rightarrow> False
     | Some sg \<Rightarrow> abs32 (now - sg_timestamp sg) \<le>s w * 2)"

lemma clean_loop_result:
  assumes "distinct hs" and "set hs \<subseteq> dom (gm_get m)" and "gm_ok m"
  shows "\<exists>m'. clean_loop now w hs m = Some (filter (\<lambda>h. sig_fresh now w (gm_get m h)) hs, m')
    \<and> gm_ok m'
    \<and> (\<forall>h. gm_get m' h = (if h \<in> set hs \<and> \<not> sig_fresh now w (gm_get m h) then None else gm_get m h))"
  using assms
proof (induction hs arbitrary: m)
  case Nil
  then show ?case by simp
next
  case (Cons h hs)
  then obtain sg where sg: "gm_get m h = Some sg" by auto
  show ?case
  proof (cases "abs32 (now - sg_timestamp sg) \<le>s w * 2")
    case True
    then show ?thesis
      using Cons.IH [of m] Cons.prems sg by (auto simp: sig_fresh_def)
  next
    case False
    have "filter (\<lambda>x. sig_fresh now w (gm_get (gm_del h m) x)) hs =
        filter (\<lambda>x. sig_fresh now w (gm_get m x)) hs"
      using Cons.prems(1) by (intro filter_cong) auto
    moreover have "set hs \<subseteq> dom (gm_get (gm_del h m))"
      using Cons.prems by (auto simp: gm.dom_del)
    ultimately obtain m' where
      m': "clean_loop now w hs (gm_del h m) = Some (filter (\<lambda>x. sig_fresh now w (gm_get m x)) hs, m')"
        "gm_ok m'"
      and get: "\<And>k. gm_get m' k = (if k \<in> set hs \<and> \<not> sig_fresh now w (gm_get (gm_del h m) k)
          then None else gm_get (gm_del h m) k)"
      using Cons.IH [of "gm_del h m"] Cons.prems(1,3) by (metis distinct.simps(2) gm.ok_del)
    have nf: "\<not> sig_fresh now w (gm_get m h)"
      using False sg by (simp add: sig_fresh_def)
    have "gm_get m' k = (if k \<in> set (h # hs) \<and> \<not> sig_fresh now w (gm_get m k)
        then None else gm_get m k)" for k
      using get [of k] nf Cons.prems(1) by (cases "k = h") auto
    then show ?thesis
      using m' nf False sg by auto
  qed
qed

lemma cleanOld_result:
  assumes "dedup_inv c"
  shows "\<exists>c'. cleanOldLocked now c = Some c' \<and> dedup_inv c'
    \<and> dc_maxSize c' = dc_maxSize c \<and> dc_windowMs c' = dc_windowMs c
    \<and> dc_order c' = filter (\<lambda>h. sig_fresh now (dc_windowMs c) (gm_get (dc_sigs c) h)) (dc_order c)"
proof -
  let ?f = "\<lambda>h. sig_fresh now (dc_windowMs c) (gm_get (dc_sigs c) h)"
  obtain m' where m': "clean_loop now (dc_windowMs c) (dc_order c) (dc_sigs c) =
        Some (filter ?f (dc_order c), m')" "gm_ok m'"
      "\<And>h. gm_get m' h = (if h \<in> set (dc_order c) \<and> \<not> ?f h then None else gm_get (dc_sigs c) h)"
    using clean_loop_result [of "dc_order c" "dc_sigs c" now "dc_windowMs c"] assms
    by (auto simp: dedup_inv_def)
  have "dom (gm_get m') = set (filter ?f (dc_order c))"
    using assms m'(3) by (auto simp: dedup_inv_def split: if_splits)
  moreover have "length (filter ?f (dc_order c)) \<le> dc_maxSize c"
    using assms length_filter_le order_trans unfolding dedup_inv_def by blast
  ultimately show ?thesis
    using assms m'(1,2) by (auto simp: cleanOldLocked_def dedup_inv_def)
qed

lemma cleanHighWater_result:
  assumes "dedup_inv c"
  shows "\<exists>c'. cleanHighWaterLocked now c = Some c' \<and> dedup_inv c'
    \<and> dc_maxSize c' = dc_maxSize c \<and> dc_windowMs c' = dc_windowMs c"
proof (cases "gm_len (dc_sigs c) < highWaterSize c")
  case True
  then show ?thesis using assms by (simp add: cleanHighWaterLocked_def)
next
  case False
  obtain c' where "cleanOldLocked now c = Some c'" "dedup_inv c'"
      "dc_maxSize c' = dc_maxSize c" "dc_windowMs c' = dc_windowMs c"
    using cleanOld_result [OF assms] by blast
  then show ?thesis
    using False by (auto simp: cleanHighWaterLocked_def Let_def intro: dedup_inv_evict)
qed

section \<open>Properties\<close>

text \<open>The deduplication cache stays consistent and within its capacity: checking a tag,
  the periodic sweep and the high-water sweep all keep the map's keys equal to the order
  list (without repetitions) and at most \<open>maxSize\<close> of them, and neither sweep ever meets a
  hash without an entry, which would be a nil dereference.\<close>

lemma dedup_cache_invariant:
  assumes "dedup_inv c"
  shows "dedup_inv (snd (isDuplicateLocked t c)) \<and>
    (\<exists>c'. cleanOldLocked now c = Some c' \<and> dedup_inv c') \<and>
    (\<exists>c'. cleanHighWaterLocked now c = Some c' \<and> dedup_inv c')"
  using dedup_inv_isDuplicate [OF assms] cleanOld_result [OF assms, of now]
    cleanHighWater_result [OF assms, of now] by blast

lemma dedup_cache_invariant_witness:
  "dedup_inv (snd (isDuplicateLocked sample_video (NewDedupCache 1000 5000)))"
  using dedup_cache_invariant [of "NewDedupCache 1000 5000" sample_video] dedup_inv_new [of 1000 5000]
  by simp

text \<open>A tag that was just accepted is recognised when it is sent again at once, and it is
  accepted in the first place whenever its signature is not in the cache: a reconnect that
  replays the last tag writes it once.\<close>

lemma dedup_immediate_repeat:
  assumes "gm_get (dc_sigs c) (computeSignature t) = None" and "0 \<le>s dc_windowMs c"
  shows "fst (isDuplicateLocked t c) = False \<and>
    fst (isDuplicateLocked t (snd (isDuplicateLocked t c))) = True"
proof -
  have "isDuplicateLocked t c = (False, dc_add (computeSignature t)
      \<lparr>sg_hash = computeSignature t, sg_timestamp = tg_timestamp t, sg_type = tg_type t,
       sg_dataSize = tg_dataSize t\<rparr> c)"
    using assms(1) by (simp add: isDuplicateLocked_def Let_def)
  then show ?thesis
    using assms by (simp add: isDuplicateLocked_def dc_add_def Let_def)
qed

lemma dedup_immediate_repeat_witness:
  "fst (isDuplicateLocked sample_audio
     (snd (isDuplicateLocked sample_audio (NewDedupCache 1000 5000)))) = True"
  using dedup_immediate_repeat [of "NewDedupCache 1000 5000" sample_audio]
  by (simp add: NewDedupCache_def word_sle_eq)

text \<open>At capacity, adding a new signature evicts exactly the oldest fifth of the entries
  (at least one), first in first out, and appends the new one: no younger entry is lost.\<close>

lemma dedup_fifo_eviction:
  assumes "dedup_inv c" and "gm_get (dc_sigs c) h = None"
    and "gm_len (dc_sigs c) = dc_maxSize c"
  shows "dc_order (dc_add h sg c) = drop (max 1 (dc_maxSize c div 5)) (dc_order c) @ [h] \<and>
    (\<forall>k \<in> set (drop (max 1 (dc_maxSize c div 5)) (dc_order c)).
       gm_get (dc_sigs (dc_add h sg c)) k = gm_get (dc_sigs c) k)"
proof -
  let ?n = "max 1 (dc_maxSize c div 5)"
  have n: "(if dc_maxSize c div 5 < 1 then 1 else dc_maxSize c div 5) = ?n" by auto
  have add: "dc_add h sg c = (evictOldestLocked ?n c)
      \<lparr>dc_sigs := gm_put h sg (dc_sigs (evictOldestLocked ?n c)),
       dc_order := dc_order (evictOldestLocked ?n c) @ [h]\<rparr>"
    using assms n by (simp add: dc_add_def Let_def)
  have ks: "k \<notin> set (take m (dc_order c)) \<and> k \<noteq> h"
    if "k \<in> set (drop ?n (dc_order c))" "m \<le> ?n" for k m
  proof -
    have "set (take ?n (dc_order c)) \<inter> set (drop ?n (dc_order c)) = {}"
      using assms(1) by (simp add: dedup_inv_def set_take_disj_set_drop_if_distinct)
    moreover have "set (take m (dc_order c)) \<subseteq> set (take ?n (dc_order c))"
      using that(2) by (rule set_take_subset_set_take)
    moreover have "h \<notin> set (dc_order c)"
      using assms(1,2) by (auto simp: dedup_inv_def)
    ultimately show ?thesis
      using that(1) in_set_dropD by fastforce
  qed
  have "gm_get (dc_sigs (dc_add h sg c)) k = gm_get (dc_sigs c) k"
    if k: "k \<in> set (drop ?n (dc_order c))" for k
    using ks [OF k, of ?n] ks [OF k, of "length (dc_order c)"] add
    by (auto simp: evictOldestLocked_def Let_def gm.get_fold_del)
  moreover have "dc_order (dc_add h sg c) = drop ?n (dc_order c) @ [h]"
    using add by (simp add: evict_order)
  ultimately show ?thesis by blast
qed

lemma dedup_fifo_eviction_witness:
  "dc_order (dc_add 7 \<lparr>sg_hash = 7, sg_timestamp = 0, sg_type = 8, sg_dataSize = 1\<rparr>
     (dc_add 5 \<lparr>sg_hash = 5, sg_timestamp = 0, sg_type = 8, sg_dataSize = 1\<rparr> (NewDedupCache 1 5000)))
   = [7]"
proof -
  let ?s = "\<lparr>sg_hash = 5, sg_timestamp = 0, sg_type = 8, sg_dataSize = 1\<rparr> :: TagSignature"
  have inv: "dedup_inv (dc_add 5 ?s (NewDedupCache 1 5000))"
    by (intro inv_intro) simp
  show ?thesis
    using dedup_fifo_eviction [OF inv, of 7]
    by (simp add: NewDedupCache_def dc_add_def gm_code)
qed

end
