(* ===== verification/FlvFixer.thy ===== *)
theory FlvFixer
  imports FlvDedup "HOL-Library.Sublist"
begin

text \<open>
  The realtime FLV fixer (\<open>pkg/flv/realtime_fixer.go\<close> with its options, and the timestamp
  parts of \<open>fixer.go\<close>). \<open>rt_fix\<close> is one call of \<open>Fix\<close>: it returns the serialised tags,
  the jump warnings that are reported after the lock is released, and the new state. The
  locks, the tag pool and the capacity of the buffers (\<open>compactBufferIfNeeded\<close>,
  \<open>shrinkOutputBuffer\<close>) do not change any byte and have no counterpart here.
\<close>

section \<open>Timestamps\<close>

record TimestampStore =
  ts_first :: bool
  ts_last :: i32
  ts_offset :: i32
  ts_next :: i32

record JumpWarning =
  jw_current :: i32
  jw_previous :: i32
  jw_delta :: i32
  jw_appliedOffset :: i32
  jw_previousOffset :: i32
  jw_rotation :: bool
  jw_tagType :: byte

definition NewTimestampStore :: TimestampStore where
  "NewTimestampStore = \<lparr>ts_first = True, ts_last = 0, ts_offset = 0, ts_next = 0\<rparr>"

definition ts_reset :: "TimestampStore \<Rightarrow> TimestampStore" where
  "ts_reset s = s\<lparr>ts_first := True, ts_last := 0, ts_offset := 0, ts_next := 0\<rparr>"

definition JumpThreshold :: i32 where "JumpThreshold = 500"

definition CalculateNextTarget :: "tag \<Rightarrow> i32" where
  "CalculateNextTarget t = tg_timestamp t + (if tg_type t = TagTypeAudio then 22 else 33)"

text \<open>The two branches of \<open>fixTimestamp\<close> that re-anchor the offset.\<close>

definition is_jump :: "i32 \<Rightarrow> i32 \<Rightarrow> bool" where
  "is_jump prev diff =
    (diff <s - JumpThreshold \<or> (prev = 0 \<and> diff <s 0) \<or> JumpThreshold <s diff)"

definition fixTimestamp :: "bool \<Rightarrow> TimestampStore \<Rightarrow> tag \<Rightarrow> TimestampStore \<times> tag \<times> JumpWarning list" where
  "fixTimestamp rotation ts t =
    (let current = tg_timestamp t;
         previous = ts_last ts;
         previousOffset = ts_offset ts;
         wasFirst = ts_first ts;
         ts1 = (if ts_first ts then ts\<lparr>ts_first := False, ts_offset := current\<rparr> else ts);
         diff = current - previous;
         hasJump = is_jump (ts_last ts1) diff;
         ts2 = (if hasJump then ts1\<lparr>ts_offset := current - ts_next ts1\<rparr> else ts1);
         ts3 = ts2\<lparr>ts_last := current\<rparr>;
         w = \<lparr>jw_current = current, jw_previous = previous, jw_delta = diff,
              jw_appliedOffset = ts_offset ts3, jw_previousOffset = previousOffset,
              jw_rotation = rotation, jw_tagType = tg_type t\<rparr>;
         skipTransient = (rotation \<and> previous = 0 \<and> 0 <s ts_next ts3);
         jumps = (if hasJump \<and> \<not> wasFirst \<and> \<not> skipTransient then [w] else []);
         out = tg_timestamp t - ts_offset ts3;
         t' = t\<lparr>tg_timestamp := if out <s 0 then 0 else out\<rparr>
     in (ts3\<lparr>ts_next := CalculateNextTarget t'\<rparr>, t', jumps))"

section \<open>Options\<close>

text \<open>\<open>realtimeFixerConfig\<close> without the pool pointer; sizes are Go \<open>int\<close>s and may be
  negative before normalisation.\<close>

record FixerConfig =
  initialBufferSize :: int
  maxBufferSize :: int

definition DefaultBufferSize :: int where "DefaultBufferSize = 8 * 1024"
definition MaxBufferSize :: int where "MaxBufferSize = 64 * 1024"

definition defaultRealtimeFixerConfig :: FixerConfig where
  "defaultRealtimeFixerConfig =
    \<lparr>initialBufferSize = DefaultBufferSize, maxBufferSize = MaxBufferSize\<rparr>"

definition normalizeRealtimeFixerConfig :: "FixerConfig \<Rightarrow> FixerConfig" where
  "normalizeRealtimeFixerConfig cfg =
    (let cfg = (if maxBufferSize cfg \<le> 0 then cfg\<lparr>maxBufferSize := MaxBufferSize\<rparr> else cfg);
         cfg = (if initialBufferSize cfg \<le> 0 then cfg\<lparr>initialBufferSize := DefaultBufferSize\<rparr> else cfg)
     in if initialBufferSize cfg > maxBufferSize cfg
        then cfg\<lparr>initialBufferSize := maxBufferSize cfg\<rparr> else cfg)"

definition WithBufferSizes :: "int \<Rightarrow> int \<Rightarrow> FixerConfig \<Rightarrow> FixerConfig" where
  "WithBufferSizes initial mx cfg =
    (let cfg = (if initial > 0 then cfg\<lparr>initialBufferSize := initial\<rparr> else cfg)
     in if mx > 0 then cfg\<lparr>maxBufferSize := mx\<rparr> else cfg)"

text \<open>A nil option is skipped.\<close>

definition applyRealtimeFixerOptions :: "(FixerConfig \<Rightarrow> FixerConfig) option list \<Rightarrow> FixerConfig" where
  "applyRealtimeFixerOptions opts = normalizeRealtimeFixerConfig
     (fold (\<lambda>opt cfg. case opt of None \<Rightarrow> cfg | Some f \<Rightarrow> f cfg) opts defaultRealtimeFixerConfig)"

section \<open>The fixer\<close>

record RealtimeFixer =
  rf_ts :: TimestampStore
  rf_buffer :: bytes
  rf_maxBufferSize :: nat
  rf_headerOK :: bool
  rf_rotation :: bool
  rf_dedup :: DedupCache
  rf_dupCount :: nat
  rf_lastDedupClean :: i32
  rf_fixCalls :: u32
  rf_pendingJumps :: "JumpWarning list"

datatype fix_error = ErrNotFlvFile | NilDereference

definition NewRealtimeFixer :: "(FixerConfig \<Rightarrow> FixerConfig) option list \<Rightarrow> RealtimeFixer" where
  "NewRealtimeFixer opts =
    \<lparr>rf_ts = NewTimestampStore, rf_buffer = [],
     rf_maxBufferSize = nat (maxBufferSize (applyRealtimeFixerOptions opts)),
     rf_headerOK = False, rf_rotation = False,
     rf_dedup = NewDedupCache MaxDedupCacheSize DedupWindowMs, rf_dupCount = 0,
     rf_lastDedupClean = 0, rf_fixCalls = 0, rf_pendingJumps = []\<rparr>"

text \<open>Consuming the file header once; an error leaves the buffered bytes in place.\<close>

definition rt_header :: "RealtimeFixer \<Rightarrow> fix_error + RealtimeFixer" where
  "rt_header rf =
    (if \<not> rf_headerOK rf \<and> length (rf_buffer rf) \<ge> FlvHeaderSize then
       (if take 3 (rf_buffer rf) = flv_magic
        then Inr (rf\<lparr>rf_buffer := drop FlvHeaderSize (rf_buffer rf), rf_headerOK := True\<rparr>)
        else if rf_rotation rf then Inr (rf\<lparr>rf_headerOK := True\<rparr>)
        else Inl ErrNotFlvFile)
     else Inr rf)"

text \<open>One parsed tag: dropped as a duplicate, or re-timed and serialised.\<close>

definition rt_handle :: "RealtimeFixer \<Rightarrow> tag \<Rightarrow> RealtimeFixer \<times> bytes" where
  "rt_handle rf t =
    (case isDuplicateLocked t (rf_dedup rf) of
       (True, dc) \<Rightarrow> (rf\<lparr>rf_dedup := dc, rf_dupCount := Suc (rf_dupCount rf)\<rparr>, [])
     | (False, dc) \<Rightarrow>
        (case fixTimestamp (rf_rotation rf) (rf_ts rf) t of (ts, t', jumps) \<Rightarrow>
          (rf\<lparr>rf_dedup := dc, rf_ts := ts, rf_pendingJumps := rf_pendingJumps rf @ jumps\<rparr>,
           WriteTag t')))"

lemma rt_handle_buffer:
  "rt_handle (rf\<lparr>rf_buffer := b\<rparr>) t =
    ((fst (rt_handle rf t))\<lparr>rf_buffer := b\<rparr>, snd (rt_handle rf t))"
  by (simp add: rt_handle_def case_prod_beta split: bool.split)

lemma rt_handle_frame [simp]:
  "rf_buffer (fst (rt_handle rf t)) = rf_buffer rf"
  "rf_maxBufferSize (fst (rt_handle rf t)) = rf_maxBufferSize rf"
  "rf_headerOK (fst (rt_handle rf t)) = rf_headerOK rf"
  "rf_rotation (fst (rt_handle rf t)) = rf_rotation rf"
  by (simp_all add: rt_handle_def case_prod_beta split: bool.split)

text \<open>The parse loop of \<open>Fix\<close>: output so far and number of parsed tags.\<close>

function rt_loop :: "RealtimeFixer \<Rightarrow> bytes \<Rightarrow> nat \<Rightarrow> RealtimeFixer \<times> bytes \<times> nat" where
  "rt_loop rf out n =
    (case next_tag (rf_buffer rf) of
       None \<Rightarrow> (rf, out, n)
     | Some (t, rest) \<Rightarrow>
        (case rt_handle (rf\<lparr>rf_buffer := rest\<rparr>) t of (rf', bs) \<Rightarrow> rt_loop rf' (out @ bs) (Suc n)))"
  by pat_completeness auto
termination
  by (relation "measure (\<lambda>(rf, out, n). length (rf_buffer rf))")
     (auto dest!: next_tag_shorter simp: rt_handle_buffer)

declare rt_loop.simps [simp del]

definition trimParseBufferToTail :: "nat \<Rightarrow> bytes \<Rightarrow> bytes" where
  "trimParseBufferToTail keep b =
    (if keep \<le> 0 then b else if length b \<le> keep then b else drop (length b - keep) b)"

text \<open>The dedup maintenance at the end of a call.\<close>

definition rt_clean :: "nat \<Rightarrow> RealtimeFixer \<Rightarrow> RealtimeFixer option" where
  "rt_clean parsed rf =
    (if 0 <s ts_last (rf_ts rf) then
       let byTime = 500 <s ts_last (rf_ts rf) - rf_lastDedupClean rf;
           byTagCount = parsed \<ge> 128;
           byHighWater = IsAboveHighWater (rf_dedup rf) in
       if byTime \<or> byTagCount \<or> byHighWater then
         map_option (\<lambda>dc. rf\<lparr>rf_dedup := dc, rf_lastDedupClean := ts_last (rf_ts rf)\<rparr>)
           (if byHighWater then cleanHighWaterLocked (ts_last (rf_ts rf)) (rf_dedup rf)
            else cleanOldLocked (ts_last (rf_ts rf)) (rf_dedup rf))
       else Some rf
     else Some rf)"

definition rt_fix :: "RealtimeFixer \<Rightarrow> bytes \<Rightarrow>
    (fix_error + bytes option) \<times> JumpWarning list \<times> RealtimeFixer" where
  "rt_fix rf0 input =
    (let rf = rf0\<lparr>rf_pendingJumps := [], rf_buffer := rf_buffer rf0 @ input\<rparr> in
     case rt_header rf of
       Inl e \<Rightarrow> (Inl e, rf_pendingJumps rf, rf)
     | Inr rf1 \<Rightarrow>
        (case rt_loop rf1 [] 0 of (rf2, out, parsed) \<Rightarrow>
          let rf3 = (if parsed = 0 \<and> \<not> isWaitingForPartialTag (rf_buffer rf2)
                        \<and> length (rf_buffer rf2) > rf_maxBufferSize rf2
                     then rf2\<lparr>rf_buffer := trimParseBufferToTail (rf_maxBufferSize rf2) (rf_buffer rf2)\<rparr>
                     else rf2) in
          case rt_clean parsed rf3 of
            None \<Rightarrow> (Inl NilDereference, rf_pendingJumps rf3, rf3)
          | Some rf4 \<Rightarrow>
              let rf5 = rf4\<lparr>rf_fixCalls := rf_fixCalls rf4 + 1\<rparr> in
              (Inr (if length out = 0 then None else Some out), rf_pendingJumps rf5, rf5)))"

definition ResetTimestampStore :: "RealtimeFixer \<Rightarrow> RealtimeFixer" where
  "ResetTimestampStore rf =
    rf\<lparr>rf_ts := ts_reset (rf_ts rf), rf_rotation := True, rf_headerOK := False\<rparr>"

definition ResetDedupCache :: "RealtimeFixer \<Rightarrow> RealtimeFixer" where
  "ResetDedupCache rf = rf\<lparr>rf_dedup := dc_reset (rf_dedup rf)\<rparr>"

definition GetDedupStats :: "RealtimeFixer \<Rightarrow> nat \<times> nat \<times> nat" where
  "GetDedupStats rf = (rf_dupCount rf, dc_stats (rf_dedup rf))"

section \<open>The loop as framing followed by handling\<close>

fun rt_handles :: "RealtimeFixer \<Rightarrow> tag list \<Rightarrow> RealtimeFixer \<times> bytes" where
  "rt_handles rf [] = (rf, [])"
| "rt_handles rf (t # ts) =
    (let (rf', bs) = rt_handle rf t; (rf'', bs') = rt_handles rf' ts in (rf'', bs @ bs'))"

lemma rt_handles_buffer:
  "rt_handles (rf\<lparr>rf_buffer := b\<rparr>) ts =
    ((fst (rt_handles rf ts))\<lparr>rf_buffer := b\<rparr>, snd (rt_handles rf ts))"
  by (induction ts arbitrary: rf) (simp_all add: rt_handle_buffer case_prod_beta Let_def)

lemma rt_handles_frame [simp]:
  "rf_buffer (fst (rt_handles rf ts)) = rf_buffer rf"
  "rf_maxBufferSize (fst (rt_handles rf ts)) = rf_maxBufferSize rf"
  "rf_headerOK (fst (rt_handles rf ts)) = rf_headerOK rf"
  "rf_rotation (fst (rt_handles rf ts)) = rf_rotation rf"
  by (induction ts arbitrary: rf) (simp_all add: case_prod_beta Let_def)

lemma rt_loop_eq:
  "rt_loop rf out n =
    ((fst (rt_handles rf (fst (parse_tags (rf_buffer rf)))))
        \<lparr>rf_buffer := snd (parse_tags (rf_buffer rf))\<rparr>,
     out @ snd (rt_handles rf (fst (parse_tags (rf_buffer rf)))),
     n + length (fst (parse_tags (rf_buffer rf))))"
proof (induction rf out n rule: rt_loop.induct)
  case (1 rf out n)
  show ?case
  proof (cases "next_tag (rf_buffer rf)")
    case None
    then show ?thesis by (simp add: rt_loop.simps [of rf] parse_tags_None)
  next
    case (Some p)
    obtain t rest where p: "p = (t, rest)" by (cases p)
    from Some p have nt: "next_tag (rf_buffer rf) = Some (t, rest)" by simp
    obtain rf' bs where h: "rt_handle (rf\<lparr>rf_buffer := rest\<rparr>) t = (rf', bs)"
      by (cases "rt_handle (rf\<lparr>rf_buffer := rest\<rparr>) t")
    have rf': "rf' = (fst (rt_handle rf t))\<lparr>rf_buffer := rest\<rparr>" "bs = snd (rt_handle rf t)"
      using h by (simp_all add: rt_handle_buffer)
    have "rt_loop rf out n = rt_loop rf' (out @ bs) (Suc n)"
      using nt h by (simp add: rt_loop.simps [of rf])
    then show ?thesis
      using "1.IH" [OF Some p [symmetric] h [symmetric]] nt rf'
      by (simp add: parse_tags_Some rt_handles_buffer case_prod_beta Let_def)
  qed
qed

text \<open>What one handled tag writes: nothing, or the tag with a non-negative timestamp.\<close>

lemma fixTimestamp_tag:
  "\<exists>x. fst (snd (fixTimestamp r ts t)) = t\<lparr>tg_timestamp := x\<rparr> \<and> 0 \<le>s x"
  by (auto simp: fixTimestamp_def Let_def word_sle_eq word_sless_alt)

lemma rt_handle_output:
  "snd (rt_handle rf t) = [] \<or>
   (\<exists>x. snd (rt_handle rf t) = WriteTag (t\<lparr>tg_timestamp := x\<rparr>) \<and> 0 \<le>s x)"
  using fixTimestamp_tag [of "rf_rotation rf" "rf_ts rf" t]
  by (auto simp: rt_handle_def case_prod_beta split: bool.split)

definition untimed :: "tag \<Rightarrow> tag" where
  "untimed t = t\<lparr>tg_timestamp := 0\<rparr>"

lemma untimed_timestamp [simp]: "untimed (t\<lparr>tg_timestamp := x\<rparr>) = untimed t"
  by (simp add: untimed_def)

lemma rt_handles_output:
  assumes "\<forall>t \<in> set ts. tag_wf t"
  shows "\<exists>us. snd (rt_handles rf ts) = concat (map WriteTag us)
    \<and> (\<forall>u \<in> set us. tag_wf u \<and> 0 \<le>s tg_timestamp u)
    \<and> subseq (map untimed us) (map untimed ts)"
  using assms
proof (induction ts arbitrary: rf)
  case Nil
  then show ?case by (intro exI [of _ "[]"]) simp
next
  case (Cons t ts)
  obtain us where us: "snd (rt_handles (fst (rt_handle rf t)) ts) = concat (map WriteTag us)"
      "\<forall>u \<in> set us. tag_wf u \<and> 0 \<le>s tg_timestamp u" "subseq (map untimed us) (map untimed ts)"
    using Cons.IH [of "fst (rt_handle rf t)"] Cons.prems by auto
  consider "snd (rt_handle rf t) = []"
    | x where "snd (rt_handle rf t) = WriteTag (t\<lparr>tg_timestamp := x\<rparr>)" "0 \<le>s x"
    using rt_handle_output [of rf t] by blast
  then show ?case
  proof cases
    case 1
    then show ?thesis
      using us by (intro exI [of _ us]) (simp add: case_prod_beta Let_def list_emb_Cons)
  next
    case 2
    then show ?thesis
      using us Cons.prems
      by (intro exI [of _ "t\<lparr>tg_timestamp := x\<rparr> # us"]) (simp add: case_prod_beta Let_def)
  qed
qed

lemma rt_handles_dedup_inv:
  "dedup_inv (rf_dedup rf) \<Longrightarrow> dedup_inv (rf_dedup (fst (rt_handles rf ts)))"
proof (induction ts arbitrary: rf)
  case (Cons t ts)
  have "dedup_inv (rf_dedup (fst (rt_handle rf t)))"
    using dedup_inv_isDuplicate [OF Cons.prems, of t]
    by (auto simp: rt_handle_def case_prod_beta split: bool.split)
  then show ?case
    using Cons.IH by (simp add: case_prod_beta Let_def)
qed simp

lemma rt_clean_result:
  assumes "dedup_inv (rf_dedup rf)"
  shows "\<exists>rf'. rt_clean n rf = Some rf' \<and> dedup_inv (rf_dedup rf') \<and> rf_buffer rf' = rf_buffer rf"
  using cleanOld_result [OF assms, of "ts_last (rf_ts rf)"]
    cleanHighWater_result [OF assms, of "ts_last (rf_ts rf)"] assms
  by (auto simp: rt_clean_def Let_def)

lemma rt_clean_frame: "rt_clean n rf = Some rf' \<Longrightarrow> rf_buffer rf' = rf_buffer rf
    \<and> rf_headerOK rf' = rf_headerOK rf \<and> rf_maxBufferSize rf' = rf_maxBufferSize rf"
  by (auto simp: rt_clean_def Let_def split: if_splits)

text \<open>The bytes that the framing loop of a call starts from.\<close>

definition rt_stream :: "RealtimeFixer \<Rightarrow> bytes \<Rightarrow> bytes" where
  "rt_stream rf input =
    (case rt_header (rf\<lparr>rf_buffer := rf_buffer rf @ input\<rparr>) of
       Inl _ \<Rightarrow> [] | Inr rf' \<Rightarrow> rf_buffer rf')"

lemma rt_header_stream:
  "rt_header (rf\<lparr>rf_pendingJumps := j, rf_buffer := rf_buffer rf @ input\<rparr>) = Inr rf1 \<Longrightarrow>
    rf_buffer rf1 = rt_stream rf input \<and> rf_dedup rf1 = rf_dedup rf
    \<and> rf_maxBufferSize rf1 = rf_maxBufferSize rf \<and> rf_ts rf1 = rf_ts rf
    \<and> (rf_headerOK rf \<longrightarrow> rf_headerOK rf1)"
  by (auto simp: rt_stream_def rt_header_def split: if_splits)

lemma rt_fix_eq:
  assumes "rt_header (rf\<lparr>rf_pendingJumps := [], rf_buffer := rf_buffer rf @ input\<rparr>) = Inr rf1"
    and "ts = fst (parse_tags (rf_buffer rf1))" and "r = snd (parse_tags (rf_buffer rf1))"
    and "rf2 = (fst (rt_handles rf1 ts))\<lparr>rf_buffer := r\<rparr>"
    and "rf3 = (if ts = [] \<and> \<not> isWaitingForPartialTag r \<and> length r > rf_maxBufferSize rf1
      then rf2\<lparr>rf_buffer := trimParseBufferToTail (rf_maxBufferSize rf1) r\<rparr> else rf2)"
    and "rt_clean (length ts) rf3 = Some rf4"
  shows "rt_fix rf input =
    (Inr (if length (snd (rt_handles rf1 ts)) = 0 then None else Some (snd (rt_handles rf1 ts))),
     rf_pendingJumps rf4, rf4\<lparr>rf_fixCalls := rf_fixCalls rf4 + 1\<rparr>)"
proof -
  have loop: "rt_loop rf1 [] 0 = (rf2, snd (rt_handles rf1 ts), length ts)"
    by (simp add: rt_loop_eq assms(2-4))
  have "(if length ts = 0 \<and> \<not> isWaitingForPartialTag (rf_buffer rf2)
         \<and> length (rf_buffer rf2) > rf_maxBufferSize rf2
       then rf2\<lparr>rf_buffer := trimParseBufferToTail (rf_maxBufferSize rf2) (rf_buffer rf2)\<rparr>
       else rf2) = rf3"
    by (simp add: assms(4,5))
  then show ?thesis
    using assms(1,6) loop by (simp add: rt_fix_def Let_def del: length_0_conv split del: if_split)
qed

lemma rt_fix_ok:
  assumes "rt_fix rf input = (Inr o', js, rf')"
  shows "\<exists>rf1. rt_header (rf\<lparr>rf_pendingJumps := [], rf_buffer := rf_buffer rf @ input\<rparr>) = Inr rf1
    \<and> rf_buffer rf1 = rt_stream rf input
    \<and> o' = (let bs = snd (rt_handles rf1 (fst (parse_tags (rt_stream rf input))))
             in if length bs = 0 then None else Some bs)
    \<and> rf_buffer rf' =
        (let r = snd (parse_tags (rt_stream rf input)) in
         if fst (parse_tags (rt_stream rf input)) = [] \<and> \<not> isWaitingForPartialTag r
            \<and> length r > rf_maxBufferSize rf
         then trimParseBufferToTail (rf_maxBufferSize rf) r else r)
    \<and> rf_headerOK rf' = rf_headerOK rf1"
proof (cases "rt_header (rf\<lparr>rf_pendingJumps := [], rf_buffer := rf_buffer rf @ input\<rparr>)")
  case (Inl e)
  then show ?thesis using assms by (simp add: rt_fix_def Let_def)
next
  case (Inr rf1)
  have s: "rf_buffer rf1 = rt_stream rf input" "rf_maxBufferSize rf1 = rf_maxBufferSize rf"
    using rt_header_stream [OF Inr] by simp_all
  let ?ts = "fst (parse_tags (rt_stream rf input))" and ?r = "snd (parse_tags (rt_stream rf input))"
  let ?rf2 = "(fst (rt_handles rf1 ?ts))\<lparr>rf_buffer := ?r\<rparr>"
  let ?rf3 = "if ?ts = [] \<and> \<not> isWaitingForPartialTag ?r \<and> length ?r > rf_maxBufferSize rf
      then ?rf2\<lparr>rf_buffer := trimParseBufferToTail (rf_maxBufferSize rf) ?r\<rparr> else ?rf2"
  have loop: "rt_loop rf1 [] 0 = (?rf2, snd (rt_handles rf1 ?ts), length ?ts)"
    using s by (simp add: rt_loop_eq)
  obtain rf4 where rf4: "rt_clean (length ?ts) ?rf3 = Some rf4"
    and res: "rf' = rf4\<lparr>rf_fixCalls := rf_fixCalls rf4 + 1\<rparr>"
      "o' = (if length (snd (rt_handles rf1 ?ts)) = 0 then None else Some (snd (rt_handles rf1 ?ts)))"
    using assms Inr loop s by (auto simp: rt_fix_def Let_def split: option.splits if_splits)
  have "rf_buffer rf' = rf_buffer ?rf3" "rf_headerOK rf' = rf_headerOK ?rf3"
    using rt_clean_frame [OF rf4] res(1) by simp_all
  then show ?thesis
    using Inr s res(2) by (simp add: Let_def)
qed

lemma fix_clean_output:
  assumes "rt_fix rf input = (Inr (Some out), js, rf')"
  shows "\<exists>us. (\<forall>u \<in> set us. tag_wf u \<and> 0 \<le>s tg_timestamp u)
    \<and> out = concat (map WriteTag us)
    \<and> subseq (map untimed us) (map untimed (fst (parse_tags (rt_stream rf input))))"
proof -
  obtain rf1 where "out = snd (rt_handles rf1 (fst (parse_tags (rt_stream rf input))))"
    using rt_fix_ok [OF assms] by (auto simp: Let_def split: if_splits)
  then show ?thesis
    using rt_handles_output [of "fst (parse_tags (rt_stream rf input))" rf1] parse_tags_wf
    by blast
qed

section \<open>Properties\<close>

text \<open>C2. What \<open>Fix\<close> returns is a clean FLV tag stream: it is the serialisation of well-formed
  tags with non-negative timestamps, and but for the timestamps these tags are a
  subsequence (in order, none invented, none altered) of the tags framed in the input.\<close>

theorem fix_output_is_tag_stream:
  assumes "rt_fix rf input = (Inr (Some out), js, rf')"
  shows "\<exists>us. out = concat (map WriteTag us)
    \<and> (\<forall>u \<in> set us. tag_wf u \<and> 0 \<le>s tg_timestamp u)
    \<and> subseq (map untimed us) (map untimed (fst (parse_tags (rt_stream rf input))))"
  using fix_clean_output [OF assms] by blast

definition sample_fixer :: RealtimeFixer where
  "sample_fixer = NewRealtimeFixer []"

definition sample_input :: bytes where
  "sample_input = FlvHeader @ [0, 0, 0, 0] @ WriteTag sample_audio @ [0]"

lemmas fixer_code = rt_fix_def rt_header_def rt_loop.simps rt_handle_def next_tag_def make_tag_def
  gslice_def hdr_data_size_def hdr_timestamp_def be24_def WriteTag_def tag_header_bytes_def
  put32_def fixTimestamp_def is_jump_def JumpThreshold_def CalculateNextTarget_def
  isDuplicateLocked_def dc_add_def rt_clean_def word_sle_eq word_sless_alt tag_wf_code
  NewRealtimeFixer_def NewDedupCache_def NewTimestampStore_def applyRealtimeFixerOptions_def
  normalizeRealtimeFixerConfig_def defaultRealtimeFixerConfig_def DefaultBufferSize_def
  MaxBufferSize_def MaxDedupCacheSize_def DedupWindowMs_def IsAboveHighWater_def
  highWaterSize_def isWaitingForPartialTag_def trimParseBufferToTail_def flv_magic_def

lemma sample_fix:
  "\<exists>js rf'. rt_fix sample_fixer sample_input =
     (Inr (Some (WriteTag (sample_audio\<lparr>tg_timestamp := 0\<rparr>))), js, rf')"
  by (simp add: sample_fixer_def sample_input_def sample_tags fixer_code FlvHeader_def
      gm_code computeSignature_def fnv_step_def)

theorem fix_output_is_tag_stream_witness:
  "\<exists>js rf' us. rt_fix sample_fixer sample_input =
      (Inr (Some (WriteTag (sample_audio\<lparr>tg_timestamp := 0\<rparr>))), js, rf') \<and>
    WriteTag (sample_audio\<lparr>tg_timestamp := 0\<rparr>) = concat (map WriteTag us)"
  using sample_fix fix_output_is_tag_stream by metis


definition fixer_header_done :: RealtimeFixer where
  "fixer_header_done = sample_fixer\<lparr>rf_headerOK := True\<rparr>"


text \<open>\<open>Fix\<close> never dereferences a missing cache entry, whatever bytes arrive, and keeps the
  cache consistent: from a fresh fixer on, the only error it can return is the missing FLV
  header.\<close>

lemma fix_no_panic:
  assumes "dedup_inv (rf_dedup rf)"
  shows "fst (rt_fix rf input) \<noteq> Inl NilDereference \<and>
    dedup_inv (rf_dedup (snd (snd (rt_fix rf input))))"
proof (cases "rt_header (rf\<lparr>rf_pendingJumps := [], rf_buffer := rf_buffer rf @ input\<rparr>)")
  case (Inl e)
  then have "e = ErrNotFlvFile" by (auto simp: rt_header_def split: if_splits)
  with Inl show ?thesis using assms by (simp add: rt_fix_def Let_def)
next
  case (Inr rf1)
  let ?ts = "fst (parse_tags (rf_buffer rf1))" and ?r = "snd (parse_tags (rf_buffer rf1))"
  let ?rf2 = "(fst (rt_handles rf1 ?ts))\<lparr>rf_buffer := ?r\<rparr>"
  let ?rf3 = "if ?ts = [] \<and> \<not> isWaitingForPartialTag ?r \<and> length ?r > rf_maxBufferSize rf1
      then ?rf2\<lparr>rf_buffer := trimParseBufferToTail (rf_maxBufferSize rf1) ?r\<rparr> else ?rf2"
  have "dedup_inv (rf_dedup rf1)"
    using rt_header_stream [OF Inr] assms by simp
  then have "dedup_inv (rf_dedup ?rf3)"
    by (simp add: rt_handles_dedup_inv)
  then obtain rf4 where "rt_clean (length ?ts) ?rf3 = Some rf4" "dedup_inv (rf_dedup rf4)"
    using rt_clean_result by blast
  moreover from this(1) have "rt_fix rf input =
      (Inr (if length (snd (rt_handles rf1 ?ts)) = 0 then None else Some (snd (rt_handles rf1 ?ts))),
       rf_pendingJumps rf4, rf4\<lparr>rf_fixCalls := rf_fixCalls rf4 + 1\<rparr>)"
    by (rule rt_fix_eq [OF Inr refl refl refl refl])
  ultimately show ?thesis by simp
qed

lemma fix_no_panic_witness:
  "fst (rt_fix sample_fixer [1, 2, 3]) \<noteq> Inl NilDereference"
  using fix_no_panic [of sample_fixer "[1, 2, 3]"] dedup_inv_new [of 1000 5000]
  by (simp add: sample_fixer_def NewRealtimeFixer_def MaxDedupCacheSize_def DedupWindowMs_def)

text \<open>A stream is rejected exactly when it is the first segment, nine bytes have arrived and
  they do not start with the FLV magic; the rejected bytes stay buffered.\<close>

lemma fix_rejects_iff:
  assumes "dedup_inv (rf_dedup rf)"
  shows "fst (rt_fix rf input) = Inl ErrNotFlvFile \<longleftrightarrow>
    \<not> rf_headerOK rf \<and> \<not> rf_rotation rf \<and> 9 \<le> length (rf_buffer rf @ input)
    \<and> take 3 (rf_buffer rf @ input) \<noteq> flv_magic"
proof (cases "rt_header (rf\<lparr>rf_pendingJumps := [], rf_buffer := rf_buffer rf @ input\<rparr>)")
  case (Inl e)
  then show ?thesis by (auto simp: rt_fix_def Let_def rt_header_def split: if_splits)
next
  case (Inr rf1)
  then have "fst (rt_fix rf input) \<noteq> Inl ErrNotFlvFile"
    by (auto simp: rt_fix_def Let_def case_prod_beta split: option.split)
  with Inr show ?thesis
    by (auto simp: rt_header_def split: if_splits)
qed

lemma fix_rejects_iff_witness:
  "fst (rt_fix sample_fixer [1, 2, 3, 4, 5, 6, 7, 8, 9]) = Inl ErrNotFlvFile"
  using fix_rejects_iff [of sample_fixer "[1, 2, 3, 4, 5, 6, 7, 8, 9]"] dedup_inv_new [of 1000 5000]
  by (simp add: sample_fixer_def NewRealtimeFixer_def MaxDedupCacheSize_def DedupWindowMs_def
      flv_magic_def)

text \<open>The parse buffer cannot grow without bound: when a call frames no tag, what it keeps
  is at most the larger of the configured maximum and one tag of the largest accepted size.\<close>

lemma fix_buffer_bounded:
  assumes "rt_fix rf input = (Inr o', js, rf')" and "fst (parse_tags (rt_stream rf input)) = []"
    and "0 < rf_maxBufferSize rf"
  shows "length (rf_buffer rf') \<le> max (rf_maxBufferSize rf) (15 + MaxTagDataSize)"
proof -
  let ?r = "snd (parse_tags (rt_stream rf input))"
  have b: "rf_buffer rf' = (if \<not> isWaitingForPartialTag ?r \<and> length ?r > rf_maxBufferSize rf
      then trimParseBufferToTail (rf_maxBufferSize rf) ?r else ?r)"
    using rt_fix_ok [OF assms(1)] assms(2) by (auto simp: Let_def)
  have "length ?r \<le> 15 + MaxTagDataSize" if "isWaitingForPartialTag ?r"
    using that by (auto simp: isWaitingForPartialTag_def Let_def split: if_splits)
  then show ?thesis
    using b assms(3) by (auto simp: trimParseBufferToTail_def split: if_splits)
qed

lemma fix_buffer_bounded_witness:
  "length (rf_buffer (snd (snd (rt_fix fixer_header_done [0, 0])))) \<le> max 65536 (15 + MaxTagDataSize)"
proof -
  obtain js rf1 where r: "rt_fix fixer_header_done [0, 0] = (Inr None, js, rf1)"
    by (simp add: fixer_header_done_def sample_fixer_def fixer_code)
  have "rt_stream fixer_header_done [0, 0] = [0, 0]"
    by (simp add: rt_stream_def rt_header_def fixer_header_done_def sample_fixer_def NewRealtimeFixer_def)
  then have "fst (parse_tags (rt_stream fixer_header_done [0, 0])) = []"
    by (simp add: parse_tags_None next_tag_def)
  moreover have "rf_maxBufferSize fixer_header_done = 65536"
    by (simp add: fixer_header_done_def sample_fixer_def fixer_code)
  ultimately show ?thesis
    using fix_buffer_bounded [OF r] r by simp
qed

section \<open>Continuity of the timestamps\<close>

definition clamp :: "i32 \<Rightarrow> i32" where
  "clamp x = (if x <s 0 then 0 else x)"

lemma sint_clamp: "sint (clamp x) = max 0 (sint x)"
  by (simp add: clamp_def word_sless_alt)

lemma fixTimestamp_parts:
  "tg_timestamp (fst (snd (fixTimestamp r ts t))) =
     clamp (tg_timestamp t - ts_offset (fst (fixTimestamp r ts t)))"
  "ts_first (fst (fixTimestamp r ts t)) = False"
  "ts_last (fst (fixTimestamp r ts t)) = tg_timestamp t"
  "ts_next (fst (fixTimestamp r ts t)) = tg_timestamp (fst (snd (fixTimestamp r ts t)))
     + (if tg_type t = TagTypeAudio then 22 else 33)"
  by (simp_all add: fixTimestamp_def Let_def clamp_def CalculateNextTarget_def)

lemma fixTimestamp_offset:
  "ts_offset (fst (fixTimestamp r ts t)) =
    (if is_jump (ts_last ts) (tg_timestamp t - ts_last ts) then tg_timestamp t - ts_next ts
     else if ts_first ts then tg_timestamp t else ts_offset ts)"
  by (simp add: fixTimestamp_def Let_def)

lemma not_jump_bound:
  assumes "\<not> is_jump p d" shows "\<bar>sint d\<bar> \<le> 500"
  using assms by (auto simp: is_jump_def JumpThreshold_def word_sless_alt abs_le_iff)

text \<open>Re-anchoring: when the source clock jumps the tag comes out at the expected next
  position (one frame after the previous output), the very first tag comes out at 0, and
  otherwise the offset in force is subtracted; negative results become 0. A jump is reported
  exactly when it is not the first tag and not the expected jump of a rotated segment.\<close>

lemma fix_timestamp_step:
  "tg_timestamp (fst (snd (fixTimestamp r ts t))) =
     (let jump = is_jump (ts_last ts) (tg_timestamp t - ts_last ts) in
      clamp (if jump then ts_next ts else if ts_first ts then 0 else tg_timestamp t - ts_offset ts)) \<and>
   (snd (snd (fixTimestamp r ts t)) \<noteq> [] \<longleftrightarrow>
     is_jump (ts_last ts) (tg_timestamp t - ts_last ts) \<and> \<not> ts_first ts
     \<and> \<not> (r \<and> ts_last ts = 0 \<and> 0 <s ts_next ts))"
  by (simp add: fixTimestamp_parts(1) fixTimestamp_offset Let_def)
     (simp add: fixTimestamp_def Let_def)



section \<open>Options\<close>

text \<open>Whatever options the caller passes, in any order, nil ones included, the fixer runs
  with buffer sizes \<open>0 < initial \<le> max\<close>; without options they are the defaults.\<close>

lemma fixer_options_normalised:
  "0 < initialBufferSize (applyRealtimeFixerOptions opts) \<and>
   initialBufferSize (applyRealtimeFixerOptions opts) \<le> maxBufferSize (applyRealtimeFixerOptions opts) \<and>
   applyRealtimeFixerOptions [] = defaultRealtimeFixerConfig"
  by (simp add: applyRealtimeFixerOptions_def normalizeRealtimeFixerConfig_def Let_def
      DefaultBufferSize_def MaxBufferSize_def defaultRealtimeFixerConfig_def)

end
