(* ===== verification/FlvDetector.thy ===== *)
theory FlvDetector
  imports FlvTag
begin

text \<open>
  The sequence-header change detector (\<open>pkg/flv/header_change_detector.go\<close>) and its pipeline
  wrapper (\<open>internal/processors/flv_header_split_detector.go\<close>). A nil slice that the code
  tests with \<open>== nil\<close> is an option; \<open>pending\<close> is only tested by its length and is a list.
  The scratch buffers carry nothing from one call to the next and are left out.
\<close>

section \<open>The detector\<close>

record FlvHeaderChangedError =
  hc_VideoHeaderTag :: bytes
  hc_AudioHeaderTag :: "bytes option"
  hc_TagOffset :: int
  hc_TagEnd :: int

record HeaderChangeDetector =
  lastVideoHeader :: "bytes option"
  lastVideoTag :: "bytes option"
  lastAudioHeader :: "bytes option"
  lastAudioTag :: "bytes option"
  det_pending :: bytes

definition NewHeaderChangeDetector :: HeaderChangeDetector where
  "NewHeaderChangeDetector =
    \<lparr>lastVideoHeader = None, lastVideoTag = None, lastAudioHeader = None, lastAudioTag = None,
     det_pending = []\<rparr>"

definition det_Reset :: "HeaderChangeDetector \<Rightarrow> HeaderChangeDetector" where
  "det_Reset d = d\<lparr>lastVideoHeader := None, lastVideoTag := None, lastAudioHeader := None,
     lastAudioTag := None, det_pending := []\<rparr>"

definition SeedVideoHeader :: "bytes \<Rightarrow> HeaderChangeDetector \<Rightarrow> HeaderChangeDetector" where
  "SeedVideoHeader full d =
    (if length full \<le> TagHeaderSize + PrevTagSizeBytes then d
     else let tagData = gslice TagHeaderSize (length full - PrevTagSizeBytes) full in
       if \<not> video_is_header tagData then d
       else d\<lparr>lastVideoHeader := Some tagData, lastVideoTag := Some full\<rparr>)"

definition tagWithPrevSize :: "bytes \<Rightarrow> bytes" where
  "tagWithPrevSize src = src @ put32 (of_nat (length src))"

definition checkVideoHeader :: "HeaderChangeDetector \<Rightarrow> bytes \<Rightarrow> bytes \<Rightarrow> nat \<Rightarrow> nat \<Rightarrow>
    FlvHeaderChangedError option \<times> HeaderChangeDetector" where
  "checkVideoHeader d tagData tagBytes tagOffset tagEnd =
    (if \<not> video_is_header tagData then (None, d)
     else case lastVideoHeader d of
       None \<Rightarrow> (None, d\<lparr>lastVideoHeader := Some tagData, lastVideoTag := Some tagBytes\<rparr>)
     | Some h \<Rightarrow>
        if h \<noteq> tagData then
          (Some \<lparr>hc_VideoHeaderTag = tagBytes, hc_AudioHeaderTag = lastAudioTag d,
                 hc_TagOffset = int tagOffset, hc_TagEnd = int (tagEnd + PrevTagSizeBytes)\<rparr>,
           d\<lparr>lastVideoHeader := Some tagData, lastVideoTag := Some tagBytes\<rparr>)
        else (None, d))"

definition checkAudioHeader :: "HeaderChangeDetector \<Rightarrow> bytes \<Rightarrow> bytes \<Rightarrow> HeaderChangeDetector" where
  "checkAudioHeader d tagData tagBytes =
    (if length tagData < 2 then d
     else if drop_bit 4 (tagData ! 0) \<noteq> 10 \<or> tagData ! 1 \<noteq> 0 then d
     else d\<lparr>lastAudioHeader := Some tagData, lastAudioTag := Some tagBytes\<rparr>)"

text \<open>The switch on the type of one complete tag.\<close>

definition checkTag :: "HeaderChangeDetector \<Rightarrow> byte \<Rightarrow> bytes \<Rightarrow> bytes \<Rightarrow> nat \<Rightarrow> nat \<Rightarrow>
    FlvHeaderChangedError option \<times> HeaderChangeDetector" where
  "checkTag d tagType tagData tagBytes tagOffset tagEnd =
    (if tagType = TagTypeVideo then checkVideoHeader d tagData tagBytes tagOffset tagEnd
     else if tagType = TagTypeAudio then (None, checkAudioHeader d tagData tagBytes)
     else (None, d))"

text \<open>The scan of the joined buffer from an offset; without a change it stops at the offset of
  the first incomplete tag.\<close>

function detect_loop :: "HeaderChangeDetector \<Rightarrow> bytes \<Rightarrow> nat \<Rightarrow>
    (FlvHeaderChangedError + nat) \<times> HeaderChangeDetector" where
  "detect_loop d buf offset =
    (if offset + TagHeaderSize < length buf then
       let tagType = buf ! offset;
           dataSize = unat (be24 (buf ! (offset + 1)) (buf ! (offset + 2)) (buf ! (offset + 3)));
           tagEnd = offset + TagHeaderSize + dataSize;
           tagBoundaryEnd = tagEnd + PrevTagSizeBytes in
       if tagBoundaryEnd > length buf then (Inr offset, d)
       else case checkTag d tagType (gslice (offset + TagHeaderSize) tagEnd buf)
                   (tagWithPrevSize (gslice offset tagEnd buf)) offset tagEnd of
              (Some e, d') \<Rightarrow> (Inl e, d')
            | (None, d') \<Rightarrow> detect_loop d' buf tagBoundaryEnd
     else (Inr offset, d))"
  by pat_completeness auto
termination
  by (relation "measure (\<lambda>(d, buf, offset). length buf - offset)") (auto simp: Let_def)

declare detect_loop.simps [simp del]

definition detect_start :: "HeaderChangeDetector \<Rightarrow> bytes \<Rightarrow> nat" where
  "detect_start d buf =
    (if length (det_pending d) = 0 \<and> length buf \<ge> FlvHeaderSize \<and> take 3 buf = flv_magic
     then FlvHeaderSize + PrevTagSizeBytes else 0)"

definition DetectChange :: "HeaderChangeDetector \<Rightarrow> bytes \<Rightarrow>
    FlvHeaderChangedError option \<times> HeaderChangeDetector" where
  "DetectChange d input =
    (let carryLen = length (det_pending d); buf = det_pending d @ input in
     case detect_loop d buf (detect_start d buf) of
       (Inl e, d') \<Rightarrow>
         (Some (if carryLen > 0
            then e\<lparr>hc_TagOffset := max 0 (hc_TagOffset e - int carryLen),
                   hc_TagEnd := max 0 (hc_TagEnd e - int carryLen)\<rparr> else e),
          d'\<lparr>det_pending := []\<rparr>)
     | (Inr offset, d') \<Rightarrow> (None, d'\<lparr>det_pending := drop offset buf\<rparr>))"

text \<open>One step of the scan, with the tag at an offset named.\<close>

definition size_at :: "bytes \<Rightarrow> nat \<Rightarrow> nat" where
  "size_at buf off = unat (be24 (buf ! (off + 1)) (buf ! (off + 2)) (buf ! (off + 3)))"

definition check_at :: "HeaderChangeDetector \<Rightarrow> bytes \<Rightarrow> nat \<Rightarrow>
    FlvHeaderChangedError option \<times> HeaderChangeDetector" where
  "check_at d buf off = checkTag d (buf ! off) (gslice (off + 11) (off + 11 + size_at buf off) buf)
     (tagWithPrevSize (gslice off (off + 11 + size_at buf off) buf)) off (off + 11 + size_at buf off)"

definition complete_at :: "bytes \<Rightarrow> nat \<Rightarrow> bool" where
  "complete_at buf off \<longleftrightarrow> off + 11 < length buf \<and> off + 15 + size_at buf off \<le> length buf"

lemma detect_loop_stop: "\<not> complete_at buf off \<Longrightarrow> detect_loop d buf off = (Inr off, d)"
  by (subst detect_loop.simps) (auto simp: complete_at_def size_at_def Let_def)

lemma detect_loop_error:
  "complete_at buf off \<Longrightarrow> fst (check_at d buf off) = Some e \<Longrightarrow>
    detect_loop d buf off = (Inl e, snd (check_at d buf off))"
  by (subst detect_loop.simps)
    (auto simp: complete_at_def size_at_def check_at_def Let_def split: prod.split)

lemma detect_loop_next:
  "complete_at buf off \<Longrightarrow> fst (check_at d buf off) = None \<Longrightarrow>
    detect_loop d buf off = detect_loop (snd (check_at d buf off)) buf (off + 15 + size_at buf off)"
  by (subst detect_loop.simps)
    (auto simp: complete_at_def size_at_def check_at_def Let_def ac_simps split: prod.split)

lemma complete_less: "complete_at buf off \<Longrightarrow> off < length buf"
  by (simp add: complete_at_def)

text \<open>Induction over a scan: it stops, reports, or goes on behind the tag.\<close>

lemma detect_induct [case_names stop error step]:
  assumes stop: "\<And>d off. \<not> complete_at buf off \<Longrightarrow> P d off"
    and error: "\<And>d off e. complete_at buf off \<Longrightarrow> fst (check_at d buf off) = Some e \<Longrightarrow> P d off"
    and step: "\<And>d off. complete_at buf off \<Longrightarrow> fst (check_at d buf off) = None \<Longrightarrow>
      P (snd (check_at d buf off)) (off + 15 + size_at buf off) \<Longrightarrow> P d off"
  shows "P d off"
proof (induction "length buf - off" arbitrary: d off rule: less_induct)
  case less
  show ?case
  proof (cases "complete_at buf off")
    case True
    then have "length buf - (off + 15 + size_at buf off) < length buf - off"
      unfolding complete_at_def by linarith
    from less [OF this] True error step show ?thesis
      by (cases "fst (check_at d buf off)") auto
  qed (rule stop)
qed

section \<open>Scanning serialised tags\<close>

text \<open>What the detector is meant to do, on the tags themselves: remember the first video
  header and every audio header, stop at the first video header that differs.\<close>

fun scan_tags :: "HeaderChangeDetector \<Rightarrow> nat \<Rightarrow> tag list \<Rightarrow>
    (FlvHeaderChangedError + nat) \<times> HeaderChangeDetector" where
  "scan_tags d off [] = (Inr off, d)"
| "scan_tags d off (t # ts) =
    (let tagEnd = off + 11 + length (tg_data t) in
     case checkTag d (tg_type t) (tg_data t) (WriteTag t) off tagEnd of
       (Some e, d') \<Rightarrow> (Inl e, d')
     | (None, d') \<Rightarrow> scan_tags d' (tagEnd + 4) ts)"

lemma length_WriteTag: "tag_ok t \<Longrightarrow> length (WriteTag t) = 15 + length (tg_data t)"
  by (simp add: WriteTag_def length_tag_header_bytes tag_ok_def)

lemma WriteTag_parts:
  assumes "tag_ok t"
  shows "(pre @ WriteTag t @ post) ! length pre = tg_type t"
    and "be24 ((pre @ WriteTag t @ post) ! (length pre + 1)) ((pre @ WriteTag t @ post) ! (length pre + 2))
          ((pre @ WriteTag t @ post) ! (length pre + 3)) = tg_dataSize t"
    and "gslice (length pre + 11) (length pre + 11 + length (tg_data t)) (pre @ WriteTag t @ post)
          = tg_data t"
    and "tagWithPrevSize (gslice (length pre) (length pre + 11 + length (tg_data t))
          (pre @ WriteTag t @ post)) = WriteTag t"
proof -
  have h: "length (tag_header_bytes t) = 11" "length (tg_streamID t) = 3"
    using assms by (simp_all add: length_tag_header_bytes tag_ok_def)
  show "(pre @ WriteTag t @ post) ! length pre = tg_type t"
    by (simp add: nth_append WriteTag_def tag_header_bytes_def)
  show "be24 ((pre @ WriteTag t @ post) ! (length pre + 1)) ((pre @ WriteTag t @ post) ! (length pre + 2))
          ((pre @ WriteTag t @ post) ! (length pre + 3)) = tg_dataSize t"
    using hdr_data_size_header [OF assms]
    by (simp add: hdr_data_size_def nth_append WriteTag_def tag_header_bytes_def)
  show "gslice (length pre + 11) (length pre + 11 + length (tg_data t)) (pre @ WriteTag t @ post)
          = tg_data t"
    using h by (simp add: gslice_def WriteTag_def)
  have "gslice (length pre) (length pre + 11 + length (tg_data t)) (pre @ WriteTag t @ post)
      = tag_header_bytes t @ tg_data t"
    using h by (simp add: gslice_def WriteTag_def)
  then show "tagWithPrevSize (gslice (length pre) (length pre + 11 + length (tg_data t))
          (pre @ WriteTag t @ post)) = WriteTag t"
    using h by (simp add: tagWithPrevSize_def WriteTag_def)
qed

lemma detect_loop_tag:
  assumes "tag_ok t"
  shows "detect_loop d (pre @ WriteTag t @ post) (length pre) =
    (case checkTag d (tg_type t) (tg_data t) (WriteTag t) (length pre)
            (length pre + 11 + length (tg_data t)) of
       (Some e, d') \<Rightarrow> (Inl e, d')
     | (None, d') \<Rightarrow> detect_loop d' (pre @ WriteTag t @ post)
          (length pre + 11 + length (tg_data t) + 4))"
  using WriteTag_parts [OF assms, of pre post] unat_tag_size [OF assms] length_WriteTag [OF assms]
  by (subst detect_loop.simps) (simp add: Let_def ac_simps split: prod.split option.split)

lemma detect_loop_scan:
  assumes "\<forall>t \<in> set ts. tag_ok t"
  shows "detect_loop d (pre @ concat (map WriteTag ts)) (length pre) = scan_tags d (length pre) ts"
  using assms
proof (induction ts arbitrary: d pre)
  case Nil
  then show ?case by (simp add: detect_loop.simps)
next
  case (Cons t ts)
  have ih: "detect_loop d' (pre @ WriteTag t @ concat (map WriteTag ts))
      (length pre + 11 + length (tg_data t) + 4) =
      scan_tags d' (length pre + 11 + length (tg_data t) + 4) ts" for d'
    using Cons.IH [of d' "pre @ WriteTag t"] Cons.prems length_WriteTag [of t]
    by (simp add: algebra_simps)
  show ?case
    using detect_loop_tag [of t d pre "concat (map WriteTag ts)"] Cons.prems ih
    by (simp add: Let_def split: prod.split option.split)
qed

text \<open>Where the scan stops when nothing has changed: at the end of the tags.\<close>

lemma scan_tags_end:
  "\<forall>t \<in> set ts. tag_ok t \<Longrightarrow> scan_tags d off ts = (Inr n, d') \<Longrightarrow>
    n = off + length (concat (map WriteTag ts))"
proof (induction ts arbitrary: d off)
  case (Cons t ts)
  from Cons.prems(2) obtain d1 where "scan_tags d1 (off + 11 + length (tg_data t) + 4) ts = (Inr n, d')"
    by (auto simp: Let_def split: prod.splits option.splits)
  with Cons.IH [OF _ this] Cons.prems(1) length_WriteTag [of t] show ?case
    by simp
qed simp

text \<open>Where it stops otherwise: at a video sequence header that differs from the one in force,
  the first such tag.\<close>

definition same_header :: "HeaderChangeDetector \<Rightarrow> tag \<Rightarrow> bool" where
  "same_header d t = (tg_type t = TagTypeVideo \<and> video_is_header (tg_data t) \<longrightarrow>
     (case lastVideoHeader d of None \<Rightarrow> True | Some h \<Rightarrow> h = tg_data t))"

lemma checkTag_None_iff: "fst (checkTag d (tg_type t) (tg_data t) b o' e) = None \<longleftrightarrow> same_header d t"
  by (simp add: checkTag_def checkVideoHeader_def same_header_def split: option.split)

lemma checkTag_keeps_header:
  assumes "fst (checkTag d (tg_type t) (tg_data t) b o' e) = None" and "lastVideoHeader d = Some h"
  shows "lastVideoHeader (snd (checkTag d (tg_type t) (tg_data t) b o' e)) = Some h"
  using assms by (auto simp: checkTag_def checkVideoHeader_def checkAudioHeader_def
      split: option.splits if_splits)

lemma checkTag_change:
  assumes "fst (checkTag d (tg_type t) (tg_data t) b off e) = Some ce"
  shows "hc_VideoHeaderTag ce = b \<and> hc_AudioHeaderTag ce = lastAudioTag d \<and>
    hc_TagOffset ce = int off \<and> hc_TagEnd ce = int (e + 4) \<and>
    lastVideoHeader (snd (checkTag d (tg_type t) (tg_data t) b off e)) = Some (tg_data t)"
  using assms by (auto simp: checkTag_def checkVideoHeader_def split: option.splits if_splits)

lemma scan_tags_change:
  assumes "scan_tags d off ts = (Inl e, d')" and "lastVideoHeader d = Some h"
    and "\<forall>t \<in> set ts. tag_ok t"
  shows "\<exists>pre t post. ts = pre @ t # post \<and> tg_type t = TagTypeVideo
    \<and> video_is_header (tg_data t) \<and> tg_data t \<noteq> h
    \<and> (\<forall>u \<in> set pre. tg_type u = TagTypeVideo \<and> video_is_header (tg_data u) \<longrightarrow> tg_data u = h)
    \<and> hc_VideoHeaderTag e = WriteTag t \<and> hc_TagOffset e = int (off + length (concat (map WriteTag pre)))
    \<and> hc_TagEnd e = hc_TagOffset e + int (length (WriteTag t))
    \<and> lastVideoHeader d' = Some (tg_data t)"
  using assms
proof (induction ts arbitrary: d off)
  case (Cons t ts)
  let ?c = "checkTag d (tg_type t) (tg_data t) (WriteTag t) off (off + 11 + length (tg_data t))"
  have len: "length (WriteTag t) = 15 + length (tg_data t)"
    using Cons.prems(3) length_WriteTag by simp
  show ?case
  proof (cases "fst ?c")
    case (Some ce)
    with Cons.prems(1) have "e = ce" "d' = snd ?c"
      by (auto simp: Let_def split: prod.splits)
    moreover have "\<not> same_header d t"
      using Some checkTag_None_iff by (metis option.distinct(1))
    ultimately show ?thesis
      using checkTag_change [OF Some] len Cons.prems(2)
      by (intro exI [of _ "[]"] exI [of _ t] exI [of _ ts]) (auto simp: same_header_def)
  next
    case None
    then have "same_header d t" and h: "lastVideoHeader (snd ?c) = Some h"
      using checkTag_None_iff checkTag_keeps_header [OF None Cons.prems(2)] by blast+
    moreover have "scan_tags (snd ?c) (off + 11 + length (tg_data t) + 4) ts = (Inl e, d')"
      using Cons.prems(1) None by (auto simp: Let_def split: prod.splits)
    from Cons.IH [OF this h] Cons.prems(3) obtain pre u post where
      "ts = pre @ u # post" "tg_type u = TagTypeVideo" "video_is_header (tg_data u)" "tg_data u \<noteq> h"
      "\<forall>u \<in> set pre. tg_type u = TagTypeVideo \<and> video_is_header (tg_data u) \<longrightarrow> tg_data u = h"
      "hc_VideoHeaderTag e = WriteTag u" "lastVideoHeader d' = Some (tg_data u)"
      "hc_TagOffset e = int (off + 11 + length (tg_data t) + 4 + length (concat (map WriteTag pre)))"
      "hc_TagEnd e = hc_TagOffset e + int (length (WriteTag u))"
      by auto
    ultimately show ?thesis
      using Cons.prems(2) len
      by (intro exI [of _ "t # pre"] exI [of _ u] exI [of _ post]) (auto simp: same_header_def)
  qed
qed simp

section \<open>Scanning in chunks\<close>

definition err_shift :: "nat \<Rightarrow> FlvHeaderChangedError \<Rightarrow> FlvHeaderChangedError" where
  "err_shift n e = e\<lparr>hc_TagOffset := hc_TagOffset e + int n, hc_TagEnd := hc_TagEnd e + int n\<rparr>"

definition res_shift :: "nat \<Rightarrow> FlvHeaderChangedError + nat \<Rightarrow> FlvHeaderChangedError + nat" where
  "res_shift n r = (case r of Inl e \<Rightarrow> Inl (err_shift n e) | Inr m \<Rightarrow> Inr (n + m))"

lemma checkTag_shift:
  "checkTag d ty td tb (n + o') (n + e) =
    (map_option (err_shift n) (fst (checkTag d ty td tb o' e)), snd (checkTag d ty td tb o' e))"
  by (simp add: checkTag_def checkVideoHeader_def err_shift_def split: option.split)

lemma at_drop:
  assumes "n \<le> length buf"
  shows "size_at (drop n buf) k = size_at buf (n + k)"
    "complete_at (drop n buf) k = complete_at buf (n + k)"
    "check_at d buf (n + k) =
      (map_option (err_shift n) (fst (check_at d (drop n buf) k)), snd (check_at d (drop n buf) k))"
proof -
  show sz: "size_at (drop n buf) k = size_at buf (n + k)"
    using assms by (simp add: size_at_def ac_simps)
  show "complete_at (drop n buf) k = complete_at buf (n + k)"
    using assms sz by (auto simp: complete_at_def)
  have g: "gslice i j (drop n buf) = gslice (n + i) (n + j) buf" for i j
    by (simp add: gslice_def add.commute)
  show "check_at d buf (n + k) =
      (map_option (err_shift n) (fst (check_at d (drop n buf) k)), snd (check_at d (drop n buf) k))"
    using assms sz checkTag_shift [of d "buf ! (n + k)" "gslice (n + k + 11) (n + k + 11 + size_at buf (n + k)) buf"
        "tagWithPrevSize (gslice (n + k) (n + k + 11 + size_at buf (n + k)) buf)" n k "k + 11 + size_at buf (n + k)"]
    by (simp add: check_at_def g add.assoc)
qed

lemma detect_loop_shift:
  assumes "n \<le> length buf"
  shows "detect_loop d buf (n + k) =
    (res_shift n (fst (detect_loop d (drop n buf) k)), snd (detect_loop d (drop n buf) k))"
proof (induction d k rule: detect_induct [of "drop n buf"])
  case (stop d k)
  then show ?case
    using assms by (simp add: detect_loop_stop at_drop res_shift_def)
next
  case (error d k e)
  then show ?case
    using assms detect_loop_error [of buf "n + k" d "err_shift n e"]
    by (simp add: detect_loop_error at_drop res_shift_def)
next
  case (step d k)
  then show ?case
    using assms detect_loop_next [of buf "n + k" d]
    by (simp add: detect_loop_next at_drop add.assoc)
qed

lemma at_append:
  assumes "complete_at a off"
  shows "size_at (a @ b) off = size_at a off" "complete_at (a @ b) off"
    "check_at d (a @ b) off = check_at d a off"
  using assms
  by (auto simp: complete_at_def size_at_def check_at_def nth_append gslice_append_left)

lemma detect_loop_append:
  "detect_loop d a off = (Inr n, d1) \<Longrightarrow> off \<le> length a \<Longrightarrow>
    n \<le> length a \<and> detect_loop d (a @ b) off = detect_loop d1 (a @ b) n"
proof (induction d off rule: detect_induct [of a])
  case (stop d off)
  then show ?case by (simp add: detect_loop_stop)
next
  case (error d off e)
  then show ?case by (simp add: detect_loop_error)
next
  case (step d off)
  then have "off + 15 + size_at a off \<le> length a"
    by (simp add: complete_at_def)
  with step detect_loop_next [of "a @ b" off d] at_append [OF step(1)] show ?case
    by (simp add: detect_loop_next)
qed

text \<open>The carried bytes are not looked at by the scan itself.\<close>

lemma check_at_pending:
  "check_at (d\<lparr>det_pending := p\<rparr>) buf off =
    (fst (check_at d buf off), (snd (check_at d buf off))\<lparr>det_pending := p\<rparr>)"
  by (simp add: check_at_def checkTag_def checkVideoHeader_def checkAudioHeader_def split: option.split)

lemma detect_loop_pending:
  "detect_loop (d\<lparr>det_pending := p\<rparr>) buf off =
    (fst (detect_loop d buf off), (snd (detect_loop d buf off))\<lparr>det_pending := p\<rparr>)"
proof (induction d off rule: detect_induct [of buf])
  case (stop d off)
  then show ?case by (simp add: detect_loop_stop)
next
  case (error d off e)
  then show ?case
    using detect_loop_error [of buf off "d\<lparr>det_pending := p\<rparr>" e]
    by (simp add: detect_loop_error check_at_pending)
next
  case (step d off)
  then show ?case
    using detect_loop_next [of buf off "d\<lparr>det_pending := p\<rparr>"]
    by (simp add: detect_loop_next check_at_pending)
qed

lemma detect_loop_offset_nonneg:
  "detect_loop d buf off = (Inl e, d') \<Longrightarrow> 0 \<le> hc_TagOffset e \<and> 0 \<le> hc_TagEnd e"
proof (induction d off rule: detect_induct [of buf])
  case (error d off e0)
  then show ?case
    by (auto simp: detect_loop_error check_at_def checkTag_def checkVideoHeader_def
        split: if_splits option.splits)
qed (auto simp: detect_loop_stop detect_loop_next)

text \<open>\<open>DetectChange\<close> on a stream that carries no file header.\<close>

definition no_file_header :: "HeaderChangeDetector \<Rightarrow> bytes \<Rightarrow> bool" where
  "no_file_header d x \<longleftrightarrow> detect_start d (det_pending d @ x) = 0"

lemma DetectChange_eq:
  assumes "no_file_header d x"
  shows "DetectChange d x =
    (case detect_loop d (det_pending d @ x) 0 of
       (Inl e, d') \<Rightarrow>
         (Some (e\<lparr>hc_TagOffset := max 0 (hc_TagOffset e - int (length (det_pending d))),
                  hc_TagEnd := max 0 (hc_TagEnd e - int (length (det_pending d)))\<rparr>),
          d'\<lparr>det_pending := []\<rparr>)
     | (Inr n, d') \<Rightarrow> (None, d'\<lparr>det_pending := drop n (det_pending d @ x)\<rparr>))"
proof -
  have "e\<lparr>hc_TagOffset := max 0 (hc_TagOffset e - int (length (det_pending d))),
           hc_TagEnd := max 0 (hc_TagEnd e - int (length (det_pending d)))\<rparr> = e"
    if "detect_loop d (det_pending d @ x) 0 = (Inl e, d')" "det_pending d = []" for e d'
    using detect_loop_offset_nonneg [OF that(1)] that(2) by simp
  then show ?thesis
    using assms
    by (auto simp: DetectChange_def no_file_header_def Let_def split: prod.split sum.split)
qed

section \<open>The split detector processor\<close>

record SplitDetector =
  sd_detector :: HeaderChangeDetector
  sd_seedVideoHeader :: bytes

definition NewFlvHeaderSplitDetectorSeeded :: "bytes \<Rightarrow> SplitDetector" where
  "NewFlvHeaderSplitDetectorSeeded seed =
    \<lparr>sd_detector = NewHeaderChangeDetector, sd_seedVideoHeader = seed\<rparr>"

definition sd_Open :: "SplitDetector \<Rightarrow> SplitDetector" where
  "sd_Open p = p\<lparr>sd_detector :=
    (if length (sd_seedVideoHeader p) > 0
     then SeedVideoHeader (sd_seedVideoHeader p) (det_Reset (sd_detector p))
     else det_Reset (sd_detector p))\<rparr>"

definition sd_Process :: "SplitDetector \<Rightarrow> bytes \<Rightarrow>
    bytes \<times> FlvHeaderChangedError option \<times> SplitDetector" where
  "sd_Process p input =
    (if length input = 0 then (input, None, p)
     else case DetectChange (sd_detector p) input of
       (None, d') \<Rightarrow> (input, None, p\<lparr>sd_detector := d'\<rparr>)
     | (Some e, d') \<Rightarrow>
        ((if hc_TagEnd e \<ge> 0 \<and> hc_TagEnd e \<le> int (length input) then
            let after = drop (nat (hc_TagEnd e)) input in
            if length after = 0 then [] else [0, 0, 0, 0] @ after
          else []),
         Some e, p\<lparr>sd_detector := d'\<rparr>))"

section \<open>Properties\<close>

lemma WriteTag_start:
  assumes "ts \<noteq> [] \<Longrightarrow> tg_type (hd ts) \<noteq> 0x46" and "det_pending d = []"
  shows "no_file_header d (concat (map WriteTag ts))"
  using assms
  by (cases ts) (auto simp: no_file_header_def detect_start_def WriteTag_def tag_header_bytes_def flv_magic_def)

lemma DetectChange_tags:
  assumes "\<forall>t \<in> set ts. tag_wf t" and "ts \<noteq> [] \<Longrightarrow> tg_type (hd ts) \<noteq> 0x46"
    and "det_pending d = []"
  shows "DetectChange d (concat (map WriteTag ts)) =
    (case scan_tags d 0 ts of
       (Inl e, d') \<Rightarrow> (Some e, d'\<lparr>det_pending := []\<rparr>)
     | (Inr n, d') \<Rightarrow> (None, d'\<lparr>det_pending := []\<rparr>))"
proof -
  have ok: "\<forall>t \<in> set ts. tag_ok t"
    using assms(1) by (simp add: tag_wf_def)
  have l: "detect_loop d (concat (map WriteTag ts)) 0 = scan_tags d 0 ts"
    using detect_loop_scan [OF ok, of d "[]"] by simp
  have "n = length (concat (map WriteTag ts))" if "scan_tags d 0 ts = (Inr n, d')" for n d'
    using scan_tags_end [OF ok that] by simp
  moreover have "0 \<le> hc_TagOffset e \<and> 0 \<le> hc_TagEnd e" if "scan_tags d 0 ts = (Inl e, d')" for e d'
    using detect_loop_offset_nonneg [of d "concat (map WriteTag ts)" 0 e d'] l that by simp
  ultimately show ?thesis
    using DetectChange_eq [OF WriteTag_start [OF assms(2,3)]] assms(3) l
    by (auto split: prod.split sum.split)
qed

lemma scan_tags_same:
  "scan_tags d off ts = (Inr n, d') \<Longrightarrow> lastVideoHeader d = Some h \<Longrightarrow>
    lastVideoHeader d' = Some h \<and>
    (\<forall>t \<in> set ts. tg_type t = TagTypeVideo \<and> video_is_header (tg_data t) \<longrightarrow> tg_data t = h)"
proof (induction ts arbitrary: d off)
  case (Cons t ts)
  let ?c = "checkTag d (tg_type t) (tg_data t) (WriteTag t) off (off + 11 + length (tg_data t))"
  have c: "fst ?c = None" "scan_tags (snd ?c) (off + 11 + length (tg_data t) + 4) ts = (Inr n, d')"
    using Cons.prems(1) by (auto simp: Let_def split: prod.splits option.splits)
  then have "same_header d t" "lastVideoHeader (snd ?c) = Some h"
    using checkTag_None_iff checkTag_keeps_header [OF c(1) Cons.prems(2)] by blast+
  with Cons.IH [OF c(2)] Cons.prems(2) show ?case
    by (auto simp: same_header_def)
qed simp

text \<open>C5. Rotation happens at the right tag: fed with serialised tags, a seeded detector stays
  silent exactly while every video sequence header equals the one in force, and otherwise
  reports the first one that differs, with its bytes and its exact position.\<close>

theorem detector_finds_first_change:
  assumes "\<forall>t \<in> set ts. tag_wf t" and "ts \<noteq> [] \<Longrightarrow> tg_type (hd ts) \<noteq> 0x46"
    and "det_pending d = []" and "lastVideoHeader d = Some h"
  shows "case DetectChange d (concat (map WriteTag ts)) of
    (None, d') \<Rightarrow> lastVideoHeader d' = Some h \<and> det_pending d' = [] \<and>
      (\<forall>t \<in> set ts. tg_type t = TagTypeVideo \<and> video_is_header (tg_data t) \<longrightarrow> tg_data t = h)
  | (Some e, d') \<Rightarrow> \<exists>pre t post. ts = pre @ t # post
      \<and> tg_type t = TagTypeVideo \<and> video_is_header (tg_data t) \<and> tg_data t \<noteq> h
      \<and> (\<forall>u \<in> set pre. tg_type u = TagTypeVideo \<and> video_is_header (tg_data u) \<longrightarrow> tg_data u = h)
      \<and> hc_VideoHeaderTag e = WriteTag t \<and> hc_TagOffset e = int (length (concat (map WriteTag pre)))
      \<and> hc_TagEnd e = int (length (concat (map WriteTag (pre @ [t]))))
      \<and> lastVideoHeader d' = Some (tg_data t)"
proof -
  have ok: "\<forall>t \<in> set ts. tag_ok t"
    using assms(1) by (simp add: tag_wf_def)
  obtain r d' where r: "scan_tags d 0 ts = (r, d')"
    by (cases "scan_tags d 0 ts")
  show ?thesis
  proof (cases r)
    case (Inl e)
    with r have "scan_tags d 0 ts = (Inl e, d')" by simp
    from scan_tags_change [OF this assms(4) ok] r Inl show ?thesis
      by (simp add: DetectChange_tags [OF assms(1-3)]) fastforce
  next
    case (Inr n)
    with r scan_tags_same [of d 0 ts n d' h] assms(4) show ?thesis
      by (simp add: DetectChange_tags [OF assms(1-3)])
  qed
qed

definition sample_video2 :: tag where
  "sample_video2 = sample_video\<lparr>tg_data := [0x17, 0x00, 0x2B]\<rparr>"

lemma sample_video2_wf: "tag_wf sample_video2"
  by (simp add: sample_video2_def sample_tags tag_wf_code)

definition seeded_detector :: HeaderChangeDetector where
  "seeded_detector = SeedVideoHeader (WriteTag sample_video) NewHeaderChangeDetector"

lemma seeded_detector_code:
  "lastVideoHeader seeded_detector = Some [0x17, 0x00, 0x2A]" "det_pending seeded_detector = []"
  by (simp_all add: seeded_detector_def SeedVideoHeader_def WriteTag_def tag_header_bytes_def
      sample_video_def gslice_def video_is_header_def ClassifyVideoTag_def put32_def
      NewHeaderChangeDetector_def)

theorem detector_finds_first_change_witness:
  "\<exists>e d'. DetectChange seeded_detector (concat (map WriteTag [sample_audio, sample_video2])) = (Some e, d')
    \<and> hc_TagOffset e = 17"
proof -
  have "case DetectChange seeded_detector (concat (map WriteTag [sample_audio, sample_video2])) of
      (None, d') \<Rightarrow> False | (Some e, d') \<Rightarrow> hc_TagOffset e = 17"
    using detector_finds_first_change [of "[sample_audio, sample_video2]" seeded_detector "[0x17, 0x00, 0x2A]"]
      sample_wf sample_video2_wf seeded_detector_code
    by (auto simp: sample_video2_def sample_tags TagTypeVideo_def video_is_header_def
        ClassifyVideoTag_def WriteTag_def tag_header_bytes_def Cons_eq_append_conv
        split: prod.splits option.splits)
  then show ?thesis by (auto split: prod.splits option.splits)
qed

text \<open>Detection does not depend on how the stream is cut: after a chunk without a change,
  the next chunk is reported exactly when the joined chunk would be, with the same header tags
  and the position counted from the start of the new chunk; the state left is the same.\<close>

lemma detector_chunk_independent:
  assumes "DetectChange d a = (None, d1)"
    and "no_file_header d a" and "no_file_header d (a @ b)" and "no_file_header d1 b"
  shows "case DetectChange d (a @ b) of
    (None, d2) \<Rightarrow> DetectChange d1 b = (None, d2)
  | (Some e, d2) \<Rightarrow> DetectChange d1 b =
      (Some (e\<lparr>hc_TagOffset := max 0 (hc_TagOffset e - int (length a)),
               hc_TagEnd := max 0 (hc_TagEnd e - int (length a))\<rparr>), d2)"
proof -
  let ?p = "det_pending d"
  obtain n d' where l: "detect_loop d (?p @ a) 0 = (Inr n, d')" "d1 = d'\<lparr>det_pending := drop n (?p @ a)\<rparr>"
    using assms(1) DetectChange_eq [OF assms(2)] by (auto split: prod.splits sum.splits)
  have n: "n \<le> length (?p @ a)" "detect_loop d (?p @ a @ b) 0 = detect_loop d' (?p @ a @ b) n"
    using detect_loop_append [OF l(1), of b] by simp_all
  have b: "det_pending d1 @ b = drop n (?p @ a @ b)"
    using n(1) l(2) by simp
  obtain r d2 where r: "detect_loop d' (drop n (?p @ a @ b)) 0 = (r, d2)"
    by (cases "detect_loop d' (drop n (?p @ a @ b)) 0")
  have whole: "detect_loop d (?p @ a @ b) 0 = (res_shift n r, d2)"
    using detect_loop_shift [of n "?p @ a @ b" d' 0] n r by simp
  have second: "detect_loop d1 (det_pending d1 @ b) 0 = (r, d2\<lparr>det_pending := drop n (?p @ a)\<rparr>)"
    using detect_loop_pending [of "drop n (?p @ a)" d' "drop n (?p @ a @ b)" 0] r b l(2) by simp
  have len: "int (length (det_pending d1)) = int (length ?p) + int (length a) - int n"
    using n(1) l(2) by simp
  show ?thesis
  proof (cases r)
    case (Inl e)
    then show ?thesis
      using whole second DetectChange_eq [OF assms(3)] DetectChange_eq [OF assms(4)] len
      by (auto simp: res_shift_def err_shift_def)
  next
    case (Inr m)
    then show ?thesis
      using whole second DetectChange_eq [OF assms(3)] DetectChange_eq [OF assms(4)] b
      by (simp add: res_shift_def add.commute del: drop_append)
  qed
qed

lemma detector_chunk_independent_witness:
  "case DetectChange seeded_detector ([9, 0] @ [0, 3]) of
    (None, d2) \<Rightarrow> DetectChange (snd (DetectChange seeded_detector [9, 0])) [0, 3] = (None, d2)
  | (Some e, d2) \<Rightarrow> False"
proof -
  have h: "no_file_header seeded_detector x" if "length x < 9" for x
    using that seeded_detector_code by (simp add: no_file_header_def detect_start_def)
  obtain d1 where d1: "DetectChange seeded_detector [9, 0] = (None, d1)" "det_pending d1 = [9, 0]"
    using DetectChange_eq [OF h, of "[9, 0]"] seeded_detector_code
    by (simp add: detect_loop.simps)
  moreover have "no_file_header d1 [0, 3]"
    using d1(2) by (simp add: no_file_header_def detect_start_def)
  ultimately show ?thesis
    using detector_chunk_independent [OF d1(1) h h, of "[0, 3]"] DetectChange_eq [OF h, of "[9, 0, 0, 3]"]
      seeded_detector_code by (simp add: detect_loop.simps)
qed

lemma sd_Process_change:
  assumes "DetectChange (sd_detector p) x = (Some e, d')" and "sd_Process p x = (out, Some e', p')"
    and "x \<noteq> []" and "0 \<le> hc_TagEnd e" and "hc_TagEnd e \<le> int (length x)"
  shows "e' = e \<and> out = (let after = drop (nat (hc_TagEnd e)) x in
    if after = [] then [] else [0, 0, 0, 0] @ after)"
  using assms by (auto simp: sd_Process_def Let_def)

text \<open>What the split detector hands back on a change is aligned: with the synthetic
  previous-tag-size it parses into exactly the tags behind the new video header.\<close>

lemma split_carries_following_tags:
  assumes "\<forall>t \<in> set ts. tag_wf t" and "ts \<noteq> [] \<Longrightarrow> tg_type (hd ts) \<noteq> 0x46"
    and "det_pending (sd_detector p) = []" and "lastVideoHeader (sd_detector p) = Some h"
    and "sd_Process p (concat (map WriteTag ts)) = (out, Some e, p')"
  shows "\<exists>pre t. ts = pre @ t # fst (parse_tags out) \<and> hc_VideoHeaderTag e = WriteTag t
    \<and> tg_data t \<noteq> h"
proof -
  obtain d' where d': "DetectChange (sd_detector p) (concat (map WriteTag ts)) = (Some e, d')"
    using assms(5) by (auto simp: sd_Process_def split: if_splits prod.splits option.splits)
  obtain pre t post where s: "ts = pre @ t # post" "hc_VideoHeaderTag e = WriteTag t" "tg_data t \<noteq> h"
      "hc_TagEnd e = int (length (concat (map WriteTag (pre @ [t]))))"
    using detector_finds_first_change [OF assms(1-4)] d' by auto
  let ?x = "concat (map WriteTag ts)"
  have x: "?x = concat (map WriteTag (pre @ [t])) @ concat (map WriteTag post)"
    using s(1) by simp
  then have after: "drop (nat (hc_TagEnd e)) ?x = concat (map WriteTag post)"
    using s(4) by (metis append_eq_conv_conj nat_int)
  have ne: "?x \<noteq> []"
    using s(1) by (simp add: WriteTag_def tag_header_bytes_def)
  have range: "0 \<le> hc_TagEnd e" "hc_TagEnd e \<le> int (length ?x)"
    using s(4) x by simp_all
  have out: "out = (if concat (map WriteTag post) = [] then []
      else [0, 0, 0, 0] @ concat (map WriteTag post))"
    using sd_Process_change [OF d' assms(5) ne range] after by (simp only: Let_def)
  obtain r where "parse_tags ([0, 0, 0, 0] @ concat (map WriteTag post)) = (post, r)"
    using parse_tags_WriteTag [of post "[0, 0, 0, 0]"] assms(1) s(1) by auto
  moreover have "post = []" if "concat (map WriteTag post) = []"
    using that by (cases post) (simp_all add: WriteTag_def tag_header_bytes_def)
  moreover have "parse_tags [] = ([], [])"
    by (simp add: parse_tags_None next_tag_def)
  ultimately have "fst (parse_tags out) = post"
    using out by (cases "concat (map WriteTag post) = []") (simp_all split: if_splits, metis)
  with s show ?thesis by blast
qed

lemma split_carries_following_tags_witness:
  "\<exists>e p'. sd_Process \<lparr>sd_detector = seeded_detector, sd_seedVideoHeader = []\<rparr>
      (concat (map WriteTag [sample_video2, sample_audio])) =
      ([0, 0, 0, 0] @ WriteTag sample_audio, Some e, p') \<and>
    hc_VideoHeaderTag e = WriteTag sample_video2"
proof -
  let ?p = "\<lparr>sd_detector = seeded_detector, sd_seedVideoHeader = []\<rparr>"
  let ?x = "concat (map WriteTag [sample_video2, sample_audio])"
  have "\<exists>e d'. DetectChange seeded_detector ?x = (Some e, d') \<and> hc_TagEnd e = 18"
    using DetectChange_tags [of "[sample_video2, sample_audio]" seeded_detector] sample_wf
      sample_video2_wf seeded_detector_code
    by (simp add: sample_video2_def sample_tags checkTag_def checkVideoHeader_def TagTypeVideo_def
        video_is_header_def ClassifyVideoTag_def)
  then obtain e d' where d: "DetectChange seeded_detector ?x = (Some e, d')" "hc_TagEnd e = 18"
    by blast
  have len: "length (WriteTag sample_video2) = 18" "length (WriteTag sample_audio) = 17"
    using sample_wf sample_video2_wf
    by (simp_all add: length_WriteTag tag_wf_def) (simp_all add: sample_video2_def sample_tags)
  then have "?x \<noteq> []" by auto
  then have r: "sd_Process ?p ?x = ([0, 0, 0, 0] @ WriteTag sample_audio, Some e, ?p\<lparr>sd_detector := d'\<rparr>)"
    using d len by (auto simp: sd_Process_def Let_def)
  from split_carries_following_tags [OF _ _ _ _ r, of "[0x17, 0x00, 0x2A]"]
  obtain pre t where "[sample_video2, sample_audio] = pre @ t # fst (parse_tags ([0, 0, 0, 0] @ WriteTag sample_audio))"
      "hc_VideoHeaderTag e = WriteTag t"
    using sample_wf sample_video2_wf seeded_detector_code by (auto simp: sample_video2_def sample_tags)
  moreover have "fst (parse_tags ([0, 0, 0, 0] @ WriteTag sample_audio)) = [sample_audio]"
    using parse_tags_WriteTag [of "[sample_audio]" "[0, 0, 0, 0]"] sample_wf by auto
  ultimately show ?thesis
    using r by (auto simp: Cons_eq_append_conv)
qed

end
