(* ===== verification/Pipeline.thy ===== *)
theory Pipeline
  imports Prelude
begin

text \<open>
  The processing pipeline (\<open>pkg/pipeline\<close>). A processor is three functions on a world \<open>'w\<close>
  that holds the state of all processors, the files and the clock; whether the context is done
  is a predicate of the world. \<open>callWithTimeout\<close> only hands the processor another context, which
  is part of what its \<open>pi_process\<close> is, and the timing and logging around a call have no
  effect on the result.

  The locale \<open>staged_pipe\<close> is the contract a strategy relies on when it composes processors:
  if every processor takes an item of its stage to one of the next stage and fails only with
  errors of a known kind, so does the pipe.
\<close>

datatype ErrorStrategy = StopOnError | ReturnNextOnError | ContinueOnError | RetryOnError

datatype 'e pipe_error = ProcErr 'e | CtxErr | ErrClosedPipe

record ('w, 'a, 'e) Processor =
  pr_Open :: "'w \<Rightarrow> 'e option \<times> 'w"
  pr_Process :: "'w \<Rightarrow> 'a \<Rightarrow> 'a \<times> 'e option \<times> 'w"
  pr_Close :: "'w \<Rightarrow> 'e option \<times> 'w"

text \<open>Durations are milliseconds.\<close>

record ('w, 'a, 'e) ProcessorInfo =
  pi_processor :: "('w, 'a, 'e) Processor"
  pi_errorStrategy :: ErrorStrategy
  pi_maxRetries :: int
  pi_retryInterval :: int
  pi_timeout :: int
  pi_closed :: bool

type_synonym ('w, 'a, 'e) ProcessorOption = "('w, 'a, 'e) ProcessorInfo \<Rightarrow> ('w, 'a, 'e) ProcessorInfo"

definition NewProcessorInfo :: "('w, 'a, 'e) Processor \<Rightarrow> ('w, 'a, 'e) ProcessorOption list \<Rightarrow>
    ('w, 'a, 'e) ProcessorInfo" where
  "NewProcessorInfo pr opts = fold (\<lambda>opt. opt) opts
    \<lparr>pi_processor = pr, pi_errorStrategy = StopOnError, pi_maxRetries = 3, pi_retryInterval = 1000,
     pi_timeout = 10000, pi_closed = False\<rparr>"

definition WithErrorStrategy :: "ErrorStrategy \<Rightarrow> ('w, 'a, 'e) ProcessorOption" where
  "WithErrorStrategy s i = i\<lparr>pi_errorStrategy := s\<rparr>"

definition WithRetryOptions :: "int \<Rightarrow> int \<Rightarrow> ('w, 'a, 'e) ProcessorOption" where
  "WithRetryOptions n interval i =
    (let i = i\<lparr>pi_maxRetries := n\<rparr> in if interval > 0 then i\<lparr>pi_retryInterval := interval\<rparr> else i)"

definition WithTimeout :: "int \<Rightarrow> ('w, 'a, 'e) ProcessorOption" where
  "WithTimeout timeout i = (if timeout > 0 then i\<lparr>pi_timeout := timeout\<rparr> else i)"

section \<open>Calling one processor\<close>

definition pi_process :: "('w, 'a, 'e) ProcessorInfo \<Rightarrow> 'w \<Rightarrow> 'a \<Rightarrow> 'a \<times> 'e pipe_error option \<times> 'w" where
  "pi_process i w item =
    (if pi_closed i then (item, Some ErrClosedPipe, w)
     else case pr_Process (pi_processor i) w item of (b, e, w') \<Rightarrow> (b, map_option ProcErr e, w'))"

definition pi_close :: "('w, 'a, 'e) ProcessorInfo \<Rightarrow> 'w \<Rightarrow> ('w, 'a, 'e) ProcessorInfo \<times> 'e option \<times> 'w" where
  "pi_close i w =
    (if pi_closed i then (i, None, w)
     else case pr_Close (pi_processor i) w of (e, w') \<Rightarrow> (i\<lparr>pi_closed := True\<rparr>, e, w'))"

text \<open>The retry loop: \<open>n\<close> attempts left and the error of the last one. \<open>wait\<close> is the passing of
  the retry interval; it ends early when the context is done.\<close>

fun retry_loop :: "('w \<Rightarrow> bool) \<Rightarrow> (int \<Rightarrow> 'w \<Rightarrow> 'w) \<Rightarrow> ('w, 'a, 'e) ProcessorInfo \<Rightarrow> 'a \<Rightarrow> nat \<Rightarrow>
    'e pipe_error \<Rightarrow> 'w \<Rightarrow> 'a \<times> 'e pipe_error option \<times> 'w" where
  "retry_loop ctx wait i item 0 err w = (item, Some err, w)"
| "retry_loop ctx wait i item (Suc n) err w =
    (let w = wait (pi_retryInterval i) w in
     if ctx w then (item, Some CtxErr, w)
     else case pi_process i w item of
       (next', None, w') \<Rightarrow> (next', None, w')
     | (next', Some err', w') \<Rightarrow> retry_loop ctx wait i item n err' w')"

definition pipe_step :: "('w \<Rightarrow> bool) \<Rightarrow> (int \<Rightarrow> 'w \<Rightarrow> 'w) \<Rightarrow> ('w, 'a, 'e) ProcessorInfo \<Rightarrow> 'w \<Rightarrow> 'a \<Rightarrow>
    'a \<times> 'e pipe_error option \<times> 'w" where
  "pipe_step ctx wait i w item =
    (case pi_process i w item of
       (next', None, w') \<Rightarrow> (next', None, w')
     | (next', Some err, w') \<Rightarrow>
        (case pi_errorStrategy i of
           StopOnError \<Rightarrow> (item, Some err, w')
         | ReturnNextOnError \<Rightarrow> (next', Some err, w')
         | ContinueOnError \<Rightarrow> (item, None, w')
         | RetryOnError \<Rightarrow> retry_loop ctx wait i item (nat (pi_maxRetries i)) err w'))"

section \<open>The pipe\<close>

record ('w, 'a, 'e) Pipe =
  pp_closable :: bool
  pp_opened :: nat
  pp_processors :: "('w, 'a, 'e) ProcessorInfo list"

definition New :: "('w, 'a, 'e) ProcessorInfo list \<Rightarrow> ('w, 'a, 'e) Pipe" where
  "New ps = \<lparr>pp_closable = False, pp_opened = 0, pp_processors = ps\<rparr>"

definition AddProcessors :: "('w, 'a, 'e) ProcessorInfo list \<Rightarrow> ('w, 'a, 'e) Pipe \<Rightarrow> ('w, 'a, 'e) Pipe" where
  "AddProcessors ps p = p\<lparr>pp_processors := pp_processors p @ ps\<rparr>"

fun process_all :: "('w \<Rightarrow> bool) \<Rightarrow> (int \<Rightarrow> 'w \<Rightarrow> 'w) \<Rightarrow> ('w, 'a, 'e) ProcessorInfo list \<Rightarrow> 'w \<Rightarrow> 'a \<Rightarrow>
    'a \<times> 'e pipe_error option \<times> 'w" where
  "process_all ctx wait [] w item = (item, None, w)"
| "process_all ctx wait (i # is) w item =
    (if ctx w then (item, Some CtxErr, w)
     else case pipe_step ctx wait i w item of
       (item', Some err, w') \<Rightarrow> (item', Some err, w')
     | (item', None, w') \<Rightarrow> process_all ctx wait is w' item')"

definition pipe_Process :: "('w \<Rightarrow> bool) \<Rightarrow> (int \<Rightarrow> 'w \<Rightarrow> 'w) \<Rightarrow> ('w, 'a, 'e) Pipe \<Rightarrow> 'w \<Rightarrow> 'a \<Rightarrow>
    'a \<times> 'e pipe_error option \<times> 'w" where
  "pipe_Process ctx wait p w item = process_all ctx wait (pp_processors p) w item"

text \<open>Closing the first \<open>n\<close> processors, the last one first; errors are only logged.\<close>

fun close_down :: "nat \<Rightarrow> ('w, 'a, 'e) ProcessorInfo list \<Rightarrow> 'w \<Rightarrow> ('w, 'a, 'e) ProcessorInfo list \<times> 'w" where
  "close_down 0 ps w = (ps, w)"
| "close_down (Suc k) ps w =
    (case pi_close (ps ! k) w of (i, e, w') \<Rightarrow> close_down k (ps[k := i]) w')"

definition closeOpened :: "nat \<Rightarrow> ('w, 'a, 'e) Pipe \<Rightarrow> 'w \<Rightarrow> ('w, 'a, 'e) Pipe \<times> 'w" where
  "closeOpened count p w =
    (if count \<le> 0 then (p\<lparr>pp_opened := 0, pp_closable := False\<rparr>, w)
     else let count = (if count > length (pp_processors p) then length (pp_processors p) else count) in
       case close_down count (pp_processors p) w of
         (ps, w') \<Rightarrow> (p\<lparr>pp_processors := ps, pp_opened := 0, pp_closable := False\<rparr>, w'))"

definition pipe_Close :: "('w, 'a, 'e) Pipe \<Rightarrow> 'w \<Rightarrow> ('w, 'a, 'e) Pipe \<times> 'w" where
  "pipe_Close p w = (if \<not> pp_closable p then (p, w) else closeOpened (pp_opened p) p w)"

fun open_loop :: "('w, 'a, 'e) ProcessorInfo list \<Rightarrow> nat \<Rightarrow> 'w \<Rightarrow> 'e option \<times> nat \<times> 'w" where
  "open_loop [] opened w = (None, opened, w)"
| "open_loop (i # is) opened w =
    (case pr_Open (pi_processor i) w of
       (Some err, w') \<Rightarrow> (Some err, opened, w')
     | (None, w') \<Rightarrow> open_loop is (Suc opened) w')"

definition pipe_Open :: "('w, 'a, 'e) Pipe \<Rightarrow> 'w \<Rightarrow> 'e option \<times> ('w, 'a, 'e) Pipe \<times> 'w" where
  "pipe_Open p w =
    (case open_loop (pp_processors p) 0 w of
       (Some err, opened, w') \<Rightarrow>
         (if opened > 0 then
            case closeOpened opened (p\<lparr>pp_closable := True, pp_opened := opened\<rparr>) w' of
              (p', w'') \<Rightarrow> (Some err, p', w'')
          else (Some err, p, w'))
     | (None, opened, w') \<Rightarrow>
         (None, (if opened > 0 then p\<lparr>pp_opened := opened, pp_closable := True\<rparr> else p), w'))"

section \<open>Stages\<close>

locale staged_pipe =
  fixes ctx :: "'w \<Rightarrow> bool" and wait :: "int \<Rightarrow> 'w \<Rightarrow> 'w"
    and procs :: "('w, 'a, 'e) ProcessorInfo list"
    and stage :: "nat \<Rightarrow> 'w \<Rightarrow> 'a \<Rightarrow> bool" and error_ok :: "'e \<Rightarrow> bool"
  assumes strategy: "i \<in> set procs \<Longrightarrow> pi_errorStrategy i = StopOnError \<or> pi_errorStrategy i = ReturnNextOnError"
    and step: "k < length procs \<Longrightarrow> stage k w a \<Longrightarrow>
      pr_Process (pi_processor (procs ! k)) w a = (b, None, w') \<Longrightarrow> stage (Suc k) w' b"
    and fail: "k < length procs \<Longrightarrow> stage k w a \<Longrightarrow>
      pr_Process (pi_processor (procs ! k)) w a = (b, Some e, w') \<Longrightarrow> error_ok e"
begin

lemma pipe_step_stage:
  assumes "k < length procs" "stage k w a" "pipe_step ctx wait (procs ! k) w a = (b, None, w')"
  shows "stage (Suc k) w' b"
proof -
  have "pi_errorStrategy (procs ! k) = StopOnError \<or> pi_errorStrategy (procs ! k) = ReturnNextOnError"
    using assms(1) by (simp add: strategy)
  then have "pr_Process (pi_processor (procs ! k)) w a = (b, None, w')"
    using assms(3)
    by (auto simp: pipe_step_def pi_process_def split: prod.splits option.splits if_splits)
  with assms(1-2) show ?thesis by (rule step)
qed

lemma process_drop_stage:
  "k \<le> length procs \<Longrightarrow> stage k w a \<Longrightarrow>
    process_all ctx wait (drop k procs) w a = (b, None, w') \<Longrightarrow> stage (length procs) w' b"
proof (induction "length procs - k" arbitrary: k w a)
  case 0
  then show ?case by simp
next
  case (Suc n)
  then have k: "k < length procs" by simp
  then have d: "drop k procs = procs ! k # drop (Suc k) procs"
    by (simp add: Cons_nth_drop_Suc)
  obtain a' w1 where s: "pipe_step ctx wait (procs ! k) w a = (a', None, w1)"
      "process_all ctx wait (drop (Suc k) procs) w1 a' = (b, None, w')"
    using Suc.prems(3) d by (auto split: if_splits prod.splits option.splits)
  have "n = length procs - Suc k"
    using Suc.hyps(2) by simp
  from Suc.hyps(1) [OF this _ _ s(2)] pipe_step_stage [OF k Suc.prems(2) s(1)] k show ?case
    by simp
qed

lemma pipe_step_fail:
  assumes "k < length procs" "stage k w a" "pipe_step ctx wait (procs ! k) w a = (b, Some (ProcErr e), w')"
  shows "error_ok e"
proof -
  have "pi_errorStrategy (procs ! k) = StopOnError \<or> pi_errorStrategy (procs ! k) = ReturnNextOnError"
    using assms(1) by (simp add: strategy)
  then have "\<exists>b. pr_Process (pi_processor (procs ! k)) w a = (b, Some e, w')"
    using assms(3)
    by (auto simp: pipe_step_def pi_process_def split: prod.splits option.splits if_splits)
  with assms(1-2) fail show ?thesis by blast
qed

lemma process_drop_fail:
  "k \<le> length procs \<Longrightarrow> stage k w a \<Longrightarrow>
    process_all ctx wait (drop k procs) w a = (b, Some (ProcErr e), w') \<Longrightarrow> error_ok e"
proof (induction "length procs - k" arbitrary: k w a)
  case 0
  then show ?case by simp
next
  case (Suc n)
  then have k: "k < length procs" by simp
  then have d: "drop k procs = procs ! k # drop (Suc k) procs"
    by (simp add: Cons_nth_drop_Suc)
  obtain a' r w1 where s: "pipe_step ctx wait (procs ! k) w a = (a', r, w1)"
    by (metis prod_cases3)
  show ?case
  proof (cases r)
    case None
    have "n = length procs - Suc k"
      using Suc.hyps(2) by simp
    moreover have "process_all ctx wait (drop (Suc k) procs) w1 a' = (b, Some (ProcErr e), w')"
      using Suc.prems(3) s None d by (auto split: if_splits)
    ultimately show ?thesis
      using Suc.hyps(1) [of "Suc k" w1 a'] pipe_step_stage [OF k Suc.prems(2)] s None k by simp
  next
    case (Some err)
    then show ?thesis
      using Suc.prems(3) s d pipe_step_fail [OF k Suc.prems(2)] by (auto split: if_splits)
  qed
qed

lemma process_fail:
  "stage 0 w a \<Longrightarrow> process_all ctx wait procs w a = (b, Some (ProcErr e), w') \<Longrightarrow> error_ok e"
  using process_drop_fail [of 0] by simp

lemma process_stage:
  "stage 0 w a \<Longrightarrow> process_all ctx wait procs w a = (b, None, w') \<Longrightarrow> stage (length procs) w' b"
  using process_drop_stage [of 0] by simp

end

section \<open>Opening and closing\<close>

lemma open_loop_prefix:
  "open_loop ps n w = (r, opened, w') \<Longrightarrow> n \<le> opened \<and> opened \<le> n + length ps
    \<and> (r = None \<longrightarrow> opened = n + length ps)"
proof (induction ps arbitrary: n w)
  case (Cons i ps)
  then show ?case
    by (fastforce split: prod.splits option.splits)
qed simp

text \<open>The processors that a shutdown of the first \<open>n\<close> closes, in the order it closes them.\<close>

fun close_world :: "('w, 'a, 'e) ProcessorInfo list \<Rightarrow> 'w \<Rightarrow> 'w" where
  "close_world [] w = w"
| "close_world (i # is) w = close_world is (if pi_closed i then w else snd (pr_Close (pi_processor i) w))"

lemma close_down_result:
  "n \<le> length ps \<Longrightarrow> close_down n ps w =
    (map (\<lambda>i. i\<lparr>pi_closed := True\<rparr>) (take n ps) @ drop n ps, close_world (rev (take n ps)) w)"
proof (induction n arbitrary: ps w)
  case (Suc n)
  have c: "pi_close (ps ! n) w = ((ps ! n)\<lparr>pi_closed := True\<rparr>, fst (snd (pi_close (ps ! n) w)),
      (if pi_closed (ps ! n) then w else snd (pr_Close (pi_processor (ps ! n)) w)))"
    by (auto simp: pi_close_def split: prod.split)
  have t: "take (Suc n) ps = take n ps @ [ps ! n]"
    using Suc.prems by (simp add: take_Suc_conv_app_nth)
  have "drop n (ps[n := (ps ! n)\<lparr>pi_closed := True\<rparr>]) = (ps ! n)\<lparr>pi_closed := True\<rparr> # drop (Suc n) ps"
    using Suc.prems by (simp add: list_eq_iff_nth_eq nth_Cons split: nat.split)
  then show ?case
    using Suc.IH [of "ps[n := (ps ! n)\<lparr>pi_closed := True\<rparr>]"] Suc.prems t
    by (subst close_down.simps, subst c) simp
qed simp

text \<open>A pipe whose opening fails leaves nothing open: if processor \<open>k\<close> cannot be opened,
  exactly the processors before it are closed, the last opened first, the error is returned and
  the pipe is not closable any more; a later \<open>Close\<close> does nothing.\<close>

lemma failed_open_closes_opened:
  assumes "open_loop (pp_processors p) 0 w = (Some err, k, w1)" and "pipe_Open p w = (r, p', w')"
    and "\<not> pp_closable p"
  shows "r = Some err \<and> w' = close_world (rev (take k (pp_processors p))) w1 \<and> pipe_Close p' v = (p', v)"
proof -
  have "k \<le> length (pp_processors p)"
    using open_loop_prefix [OF assms(1)] by simp
  then show ?thesis
    using assms close_down_result [of k "pp_processors p" w1]
    by (auto simp: pipe_Open_def closeOpened_def pipe_Close_def split: if_splits)
qed

text \<open>A pipe over a world that logs the names of the processors closed.\<close>

definition logging_processor :: "bool \<Rightarrow> nat \<Rightarrow> (nat list, nat, bool) ProcessorInfo" where
  "logging_processor fails k = NewProcessorInfo
    \<lparr>pr_Open = \<lambda>w. (if fails then Some True else None, w), pr_Process = \<lambda>w a. (a + k, None, w),
     pr_Close = \<lambda>w. (None, w @ [k])\<rparr> []"

lemma failed_open_closes_opened_witness:
  "\<exists>p'. pipe_Open (New [logging_processor False 1, logging_processor False 2, logging_processor True 3]) []
     = (Some True, p', [2, 1])"
proof -
  let ?p = "New [logging_processor False 1, logging_processor False 2, logging_processor True 3]"
  obtain r p' w' where o': "pipe_Open ?p [] = (r, p', w')"
    by (metis prod_cases3)
  have "open_loop (pp_processors ?p) 0 [] = (Some True, 2, [])"
    by (simp add: New_def logging_processor_def NewProcessorInfo_def)
  from failed_open_closes_opened [OF this o'] show ?thesis
    using o' by (simp add: New_def logging_processor_def NewProcessorInfo_def)
qed

section \<open>Retries\<close>

text \<open>The world after \<open>k\<close> failed attempts, each preceded by the waiting.\<close>

lemma retry_loop_success:
  assumes "retry_loop ctx wait i item n err w = (b, None, w')"
  shows "\<exists>v. pi_process i v item = (b, None, w')"
  using assms
proof (induction n arbitrary: err w)
  case (Suc n)
  then show ?case
    by (fastforce simp: Let_def split: if_splits prod.splits option.splits)
qed simp

text \<open>The error strategies: a call reports success only if some attempt of the processor
  succeeded with that result or the strategy ignores errors, in which case the item passes
  unchanged; on failure only \<open>ReturnNextOnError\<close> hands on anything else than the item.\<close>

lemma pipe_step_outcome:
  "case pipe_step ctx wait i w item of
     (b, None, w') \<Rightarrow> (\<exists>v. pi_process i v item = (b, None, w')) \<or>
        (pi_errorStrategy i = ContinueOnError \<and> b = item)
   | (b, Some e, w') \<Rightarrow> b = item \<or>
        (pi_errorStrategy i = ReturnNextOnError \<and> pi_process i w item = (b, Some e, w'))"
proof -
  have "fst (retry_loop ctx wait i item n err v) = item"
    if "fst (snd (retry_loop ctx wait i item n err v)) \<noteq> None" for n err v
    using that
  proof (induction n arbitrary: err v)
    case (Suc n)
    then show ?case
      by (fastforce simp: Let_def split: if_splits prod.splits option.splits)
  qed simp
  then show ?thesis
    by (auto simp: pipe_step_def dest!: retry_loop_success split: prod.splits option.splits ErrorStrategy.splits)
       (metis fst_conv option.distinct(1) snd_conv)+
qed

end
