(* ===== verification/FlvSegment.thy ===== *)
theory FlvSegment
  imports FlvFixer FlvDetector Pipeline
begin

text \<open>
  A recorded FLV session: the three processors of \<open>FlvStrategy.BuildPipeline\<close> in front of the
  file writer (\<open>internal/processors/flv_stream_fixer.go\<close>, \<open>flv_header_split_detector.go\<close>,
  \<open>flv_header_writer.go\<close>), \<open>FlvStrategy.HandleErr\<close> (\<open>internal/record_strategies/flv.go\<close>) and
  the rotation loop of the recorder (\<open>rotate\<close> and \<open>rev\<close> in
  \<open>internal/services/recorder/recorder.go\<close>), which opens a new file whenever the video
  sequence header changes. The bytes that the pipe returns for each chunk are the bytes of the
  file; the buffered writer behind them is a component of its own.
\<close>

section \<open>Bytes of a detected tag\<close>

lemma be24_bytes:
  "ucast (drop_bit 16 (be24 a b c)) = a" "ucast (drop_bit 8 (be24 a b c)) = b" "ucast (be24 a b c) = c"
proof -
  show "ucast (drop_bit 16 (be24 a b c)) = a"
    by (rule bit_word_eqI) (auto simp: be24_def bit_simps byte_high_bit)
  show "ucast (drop_bit 8 (be24 a b c)) = b"
    by (rule bit_word_eqI) (auto simp: be24_def bit_simps byte_high_bit)
  show "ucast (be24 a b c) = c"
    by (rule bit_word_eqI) (auto simp: be24_def bit_simps byte_high_bit)
qed

lemma hdr_timestamp_bytes:
  "ucast (drop_bit 24 (hdr_timestamp h)) = h ! 7" "ucast (drop_bit 16 (hdr_timestamp h)) = h ! 4"
  "ucast (drop_bit 8 (hdr_timestamp h)) = h ! 5" "ucast (hdr_timestamp h) = h ! 6"
proof -
  show "ucast (drop_bit 24 (hdr_timestamp h)) = h ! 7"
    by (rule bit_word_eqI) (auto simp: hdr_timestamp_def bit_simps byte_high_bit)
  show "ucast (drop_bit 16 (hdr_timestamp h)) = h ! 4"
    by (rule bit_word_eqI) (auto simp: hdr_timestamp_def bit_simps byte_high_bit)
  show "ucast (drop_bit 8 (hdr_timestamp h)) = h ! 5"
    by (rule bit_word_eqI) (auto simp: hdr_timestamp_def bit_simps byte_high_bit)
  show "ucast (hdr_timestamp h) = h ! 6"
    by (rule bit_word_eqI) (auto simp: hdr_timestamp_def bit_simps byte_high_bit)
qed

lemma list_11_eq: "length h = 11 \<Longrightarrow> h = [h ! 0, h ! 1, h ! 2, h ! 3, h ! 4, h ! 5, h ! 6, h ! 7] @ drop 8 h"
  by (rule nth_equalityI) (auto simp: less_Suc_eq nth_append numeral_eq_Suc)

lemma tag_header_make_tag:
  assumes "length h = 11"
  shows "tag_header_bytes (make_tag h d) = h"
proof -
  have "tag_header_bytes (make_tag h d) = [h ! 0, h ! 1, h ! 2, h ! 3, h ! 4, h ! 5, h ! 6, h ! 7] @ gslice 8 11 h"
    by (simp add: tag_header_bytes_def make_tag_def hdr_data_size_def be24_bytes hdr_timestamp_bytes)
  also have "gslice 8 11 h = drop 8 h"
    using assms by (simp add: gslice_def)
  finally show ?thesis
    using list_11_eq [OF assms] by simp
qed

text \<open>Whatever the detector cuts out as a complete tag is the serialisation of a tag.\<close>

lemma tagWithPrevSize_is_tag:
  assumes "complete_at buf off"
  shows "\<exists>t. tag_wf t \<and> tagWithPrevSize (gslice off (off + 11 + size_at buf off) buf) = WriteTag t"
proof -
  let ?h = "gslice off (off + 11) buf" and ?d = "gslice (off + 11) (off + 11 + size_at buf off) buf"
  have l: "off + 11 + size_at buf off \<le> length buf"
    using assms by (simp add: complete_at_def)
  then have h: "length ?h = 11" "length ?d = size_at buf off"
    by simp_all
  have "hdr_data_size ?h = be24 (buf ! (off + 1)) (buf ! (off + 2)) (buf ! (off + 3))"
    using l by (simp add: hdr_data_size_def gslice_nth)
  then have "tag_wf (make_tag ?h ?d)"
    using h by (intro make_tag_is_wf) (simp_all add: size_at_def)
  moreover have "gslice off (off + 11 + size_at buf off) buf = ?h @ ?d"
    using take_add [of 11 "size_at buf off" "drop off buf"] by (simp add: gslice_def add.commute)
  then have "tagWithPrevSize (gslice off (off + 11 + size_at buf off) buf) = WriteTag (make_tag ?h ?d)"
    using h by (simp add: tagWithPrevSize_def WriteTag_def tag_header_make_tag)
       (simp add: make_tag_def)
  ultimately show ?thesis by blast
qed

definition is_tag_bytes :: "bytes option \<Rightarrow> bool" where
  "is_tag_bytes b = (case b of None \<Rightarrow> True | Some x \<Rightarrow> \<exists>t. tag_wf t \<and> x = WriteTag t)"

definition det_inv :: "HeaderChangeDetector \<Rightarrow> bool" where
  "det_inv d = is_tag_bytes (lastAudioTag d)"

definition change_ok :: "FlvHeaderChangedError \<Rightarrow> bool" where
  "change_ok e = (is_tag_bytes (Some (hc_VideoHeaderTag e)) \<and> is_tag_bytes (hc_AudioHeaderTag e))"

lemma check_at_ok:
  assumes "complete_at buf off" and "det_inv d"
  shows "det_inv (snd (check_at d buf off))"
    and "fst (check_at d buf off) = Some e \<Longrightarrow> change_ok e"
  using tagWithPrevSize_is_tag [OF assms(1)] assms(2)
  by (auto simp: check_at_def checkTag_def checkVideoHeader_def checkAudioHeader_def det_inv_def
      change_ok_def is_tag_bytes_def split: option.splits if_splits)

lemma detect_loop_ok:
  "det_inv d \<Longrightarrow> det_inv (snd (detect_loop d buf off)) \<and>
    (\<forall>e. fst (detect_loop d buf off) = Inl e \<longrightarrow> change_ok e)"
proof (induction d off rule: detect_induct [of buf])
  case (stop d off)
  then show ?case by (simp add: detect_loop_stop)
next
  case (error d off e)
  then show ?case
    using check_at_ok [OF error(1,3)] by (simp add: detect_loop_error)
next
  case (step d off)
  then show ?case
    using check_at_ok(1) [OF step(1,4)] by (simp add: detect_loop_next)
qed

lemma DetectChange_ok:
  assumes "det_inv d" and "DetectChange d x = (r, d')"
  shows "det_inv d' \<and> (\<forall>e. r = Some e \<longrightarrow> change_ok e)"
proof -
  let ?l = "detect_loop d (det_pending d @ x) (detect_start d (det_pending d @ x))"
  have "det_inv (snd ?l) \<and> (\<forall>e. fst ?l = Inl e \<longrightarrow> change_ok e)"
    by (rule detect_loop_ok [OF assms(1)])
  then show ?thesis
    using assms(2)
    by (auto simp: DetectChange_def Let_def det_inv_def change_ok_def split: prod.splits sum.splits if_splits)
qed

section \<open>The processors of a segment\<close>

record FlvWorld =
  fw_fixer :: RealtimeFixer
  fw_jumps :: "JumpWarning list"
  fw_detector :: SplitDetector
  fw_writer :: FlvHeaderWriter
  fw_written :: bool

datatype flv_error = FixError fix_error | HeaderChanged FlvHeaderChangedError

text \<open>A nil result of \<open>Fix\<close> is the empty item; the jumps go to the reporter.\<close>

definition flv_fix_Process :: "FlvWorld \<Rightarrow> bytes \<Rightarrow> bytes \<times> flv_error option \<times> FlvWorld" where
  "flv_fix_Process w input =
    (if length input = 0 then (input, None, w)
     else case rt_fix (fw_fixer w) input of (r, jumps, rf) \<Rightarrow>
       let w' = w\<lparr>fw_fixer := rf, fw_jumps := fw_jumps w @ jumps\<rparr> in
       (case r of Inl e \<Rightarrow> ([], Some (FixError e), w')
        | Inr None \<Rightarrow> ([], None, w') | Inr (Some out) \<Rightarrow> (out, None, w')))"

definition flv_detect_Process :: "FlvWorld \<Rightarrow> bytes \<Rightarrow> bytes \<times> flv_error option \<times> FlvWorld" where
  "flv_detect_Process w input =
    (case sd_Process (fw_detector w) input of (out, e, sd) \<Rightarrow>
       (out, map_option HeaderChanged e, w\<lparr>fw_detector := sd\<rparr>))"

definition flv_header_Process :: "FlvWorld \<Rightarrow> bytes \<Rightarrow> bytes \<times> flv_error option \<times> FlvWorld" where
  "flv_header_Process w input =
    (if length input = 0 then (input, None, w)
     else if fw_written w then (input, None, w)
     else (Prepend (fw_writer w) input, None, w\<lparr>fw_written := True\<rparr>))"

definition flv_detect_Open :: "FlvWorld \<Rightarrow> flv_error option \<times> FlvWorld" where
  "flv_detect_Open w = (None, w\<lparr>fw_detector := sd_Open (fw_detector w)\<rparr>)"

definition flv_header_Open :: "FlvWorld \<Rightarrow> flv_error option \<times> FlvWorld" where
  "flv_header_Open w = (None, w\<lparr>fw_written := False\<rparr>)"

definition flv_processors :: "(FlvWorld, bytes, flv_error) ProcessorInfo list" where
  "flv_processors =
    [NewProcessorInfo \<lparr>pr_Open = \<lambda>w. (None, w), pr_Process = flv_fix_Process, pr_Close = \<lambda>w. (None, w)\<rparr> [],
     NewProcessorInfo \<lparr>pr_Open = flv_detect_Open, pr_Process = flv_detect_Process, pr_Close = \<lambda>w. (None, w)\<rparr>
       [WithErrorStrategy ReturnNextOnError],
     NewProcessorInfo \<lparr>pr_Open = flv_header_Open, pr_Process = flv_header_Process, pr_Close = \<lambda>w. (None, w)\<rparr> []]"

text \<open>\<open>BuildPipeline\<close> followed by \<open>Open\<close>: the shared fixer stays, detector and header writer are
  new and seeded with the headers of the rotation state (none for the first segment).\<close>

definition BuildPipeline :: "bytes \<Rightarrow> bytes \<Rightarrow> FlvWorld \<Rightarrow> FlvWorld" where
  "BuildPipeline videoHdr audioHdr w =
    w\<lparr>fw_detector := sd_Open (NewFlvHeaderSplitDetectorSeeded videoHdr),
      fw_writer := \<lparr>VideoHeaderTag = videoHdr, AudioHeaderTag = audioHdr\<rparr>, fw_written := False\<rparr>"

text \<open>\<open>HandleErr\<close>: rotate with the new headers and a reset fixer, or abort after a delay in
  milliseconds.\<close>

datatype ErrHandleResult = ErrActionRotate bytes bytes | ErrActionAbort nat

definition HandleErr :: "flv_error pipe_error \<Rightarrow> FlvWorld \<Rightarrow> ErrHandleResult \<times> FlvWorld" where
  "HandleErr err w =
    (case err of
       ProcErr (HeaderChanged e) \<Rightarrow>
         (ErrActionRotate (hc_VideoHeaderTag e) (case hc_AudioHeaderTag e of None \<Rightarrow> [] | Some a \<Rightarrow> a),
          w\<lparr>fw_fixer := ResetDedupCache (ResetTimestampStore (fw_fixer w))\<rparr>)
     | ProcErr (FixError ErrNotFlvFile) \<Rightarrow> (ErrActionAbort 5000, w)
     | _ \<Rightarrow> (ErrActionAbort 0, w))"

text \<open>\<open>rev\<close>: chunks go through the pipe until one fails; the remaining ones are returned.\<close>

fun rev_chunks :: "(FlvWorld \<Rightarrow> bool) \<Rightarrow> (int \<Rightarrow> FlvWorld \<Rightarrow> FlvWorld) \<Rightarrow> FlvWorld \<Rightarrow> bytes list \<Rightarrow>
    bytes \<times> (flv_error pipe_error \<times> bytes list) option \<times> FlvWorld" where
  "rev_chunks ctx wait w [] = ([], None, w)"
| "rev_chunks ctx wait w (c # cs) =
    (case process_all ctx wait flv_processors w c of
       (b, Some err, w') \<Rightarrow> ([], Some (err, cs), w')
     | (b, None, w') \<Rightarrow> (case rev_chunks ctx wait w' cs of (bs, r, w'') \<Rightarrow> (b @ bs, r, w'')))"

lemma rev_chunks_shorter:
  "rev_chunks ctx wait w cs = (out, Some (err, cs'), w') \<Longrightarrow> length cs' < length cs"
proof (induction cs arbitrary: w out w')
  case (Cons c cs)
  from Cons.prems show ?case
    by (fastforce dest: Cons.IH split: prod.splits option.splits)
qed simp

text \<open>\<open>rotate\<close>: the contents of the files of a session, in order.\<close>

function rotate :: "(FlvWorld \<Rightarrow> bool) \<Rightarrow> (int \<Rightarrow> FlvWorld \<Rightarrow> FlvWorld) \<Rightarrow> bytes \<Rightarrow> bytes \<Rightarrow> FlvWorld \<Rightarrow>
    bytes list \<Rightarrow> bytes list" where
  "rotate ctx wait videoHdr audioHdr w cs =
    (case rev_chunks ctx wait (BuildPipeline videoHdr audioHdr w) cs of
       (out, None, w') \<Rightarrow> [out]
     | (out, Some (err, cs'), w') \<Rightarrow>
        (case HandleErr err w' of
           (ErrActionAbort delay, w'') \<Rightarrow> [out]
         | (ErrActionRotate v a, w'') \<Rightarrow> out # rotate ctx wait v a w'' cs'))"
  by pat_completeness auto
termination
  by (relation "measure (\<lambda>(ctx, wait, v, a, w, cs). length cs)")
     (auto dest!: rev_chunks_shorter [OF sym])

declare rotate.simps [simp del]

section \<open>What a segment writes\<close>

definition clean_tags :: "tag list \<Rightarrow> bool" where
  "clean_tags us = (\<forall>u \<in> set us. tag_wf u \<and> 0 \<le>s tg_timestamp u)"

definition tag_stream :: "bytes \<Rightarrow> bool" where
  "tag_stream b = (\<exists>us. clean_tags us \<and> b = concat (map WriteTag us))"

lemma tag_stream_Nil [simp]: "tag_stream []"
  by (auto simp: tag_stream_def clean_tags_def intro!: exI [of _ "[]"])

lemma tag_stream_append: "tag_stream a \<Longrightarrow> tag_stream b \<Longrightarrow> tag_stream (a @ b)"
  by (auto simp: tag_stream_def clean_tags_def) (metis Un_iff concat_append map_append set_append)

text \<open>The stages: raw bytes, a tag stream, the tag stream again, file bytes. \<open>wr\<close> says whether
  the preamble had been written and \<open>h\<close> is the preamble's header writer.\<close>

definition flv_stage :: "FlvHeaderWriter \<Rightarrow> bool \<Rightarrow> nat \<Rightarrow> FlvWorld \<Rightarrow> bytes \<Rightarrow> bool" where
  "flv_stage h wr k w b =
    (fw_writer w = h \<and> det_inv (sd_detector (fw_detector w)) \<and>
     (if k < 3 then fw_written w = wr \<and> (0 < k \<longrightarrow> tag_stream b)
      else if wr then fw_written w \<and> tag_stream b
      else if fw_written w then \<exists>s. tag_stream s \<and> b = Prepend h s else b = []))"

lemma flv_fix_stage:
  assumes "flv_stage h wr 0 w a" and "flv_fix_Process w a = (b, None, w')"
  shows "flv_stage h wr 1 w' b"
proof -
  have "tag_stream b"
  proof (cases "a = []")
    case True
    then show ?thesis using assms(2) by (simp add: flv_fix_Process_def)
  next
    case False
    obtain r js rf where f: "rt_fix (fw_fixer w) a = (r, js, rf)"
      by (metis prod_cases3)
    then consider "b = []" | "r = Inr (Some b)"
      using assms(2) False by (auto simp: flv_fix_Process_def Let_def split: sum.splits option.splits)
    then show ?thesis
    proof cases
      case 2
      then show ?thesis
        using fix_clean_output [of "fw_fixer w" a b js rf] f
        by (auto simp: tag_stream_def clean_tags_def)
    qed simp
  qed
  moreover have "fw_writer w' = fw_writer w" "fw_detector w' = fw_detector w" "fw_written w' = fw_written w"
    using assms(2) by (auto simp: flv_fix_Process_def Let_def split: if_splits prod.splits sum.splits option.splits)
  ultimately show ?thesis
    using assms(1) by (simp add: flv_stage_def)
qed

lemma sd_Process_ok:
  assumes "det_inv (sd_detector p)" and "sd_Process p x = (out, r, p')"
  shows "det_inv (sd_detector p') \<and> (r = None \<longrightarrow> out = x) \<and> (\<forall>e. r = Some e \<longrightarrow> change_ok e)"
proof (cases "x = []")
  case True
  then show ?thesis using assms by (simp add: sd_Process_def)
next
  case False
  obtain r' d' where "DetectChange (sd_detector p) x = (r', d')"
    by (metis surj_pair)
  with DetectChange_ok [OF assms(1) this] False assms(2) show ?thesis
    by (auto simp: sd_Process_def Let_def split: option.splits)
qed

lemma flv_detect_stage:
  assumes "flv_stage h wr 1 w a" and "flv_detect_Process w a = (b, None, w')"
  shows "flv_stage h wr 2 w' b"
  using assms sd_Process_ok [of "fw_detector w" a]
  by (auto simp: flv_stage_def flv_detect_Process_def split: prod.splits)

lemma flv_header_stage:
  assumes "flv_stage h wr 2 w a" and "flv_header_Process w a = (b, None, w')"
  shows "flv_stage h wr 3 w' b"
  using assms by (auto simp: flv_stage_def flv_header_Process_def split: if_splits)

definition flv_error_ok :: "flv_error \<Rightarrow> bool" where
  "flv_error_ok err = (case err of FixError _ \<Rightarrow> True | HeaderChanged e \<Rightarrow> change_ok e)"

lemma flv_fail_ok:
  assumes "det_inv (sd_detector (fw_detector w))"
  shows "flv_fix_Process w a = (b, Some e, w') \<Longrightarrow> flv_error_ok e"
    and "flv_detect_Process w a = (b, Some e, w') \<Longrightarrow> flv_error_ok e"
    and "flv_header_Process w a = (b, Some e, w') \<Longrightarrow> flv_error_ok e"
proof -
  show "flv_fix_Process w a = (b, Some e, w') \<Longrightarrow> flv_error_ok e"
    by (auto simp: flv_fix_Process_def flv_error_ok_def Let_def
        split: if_splits prod.splits sum.splits option.splits)
  show "flv_detect_Process w a = (b, Some e, w') \<Longrightarrow> flv_error_ok e"
    using sd_Process_ok [OF assms] by (auto simp: flv_detect_Process_def flv_error_ok_def split: prod.splits)
  show "flv_header_Process w a = (b, Some e, w') \<Longrightarrow> flv_error_ok e"
    by (auto simp: flv_header_Process_def split: if_splits)
qed

lemma flv_processor_cases:
  assumes "k < length flv_processors"
  obtains "k = 0" "pr_Process (pi_processor (flv_processors ! k)) = flv_fix_Process"
    | "k = 1" "pr_Process (pi_processor (flv_processors ! k)) = flv_detect_Process"
    | "k = 2" "pr_Process (pi_processor (flv_processors ! k)) = flv_header_Process"
proof -
  from assms consider "k = 0" | "k = 1" | "k = 2"
    by (fastforce simp: flv_processors_def)
  then show thesis
    by cases (use that in \<open>simp_all add: flv_processors_def NewProcessorInfo_def WithErrorStrategy_def\<close>)
qed

interpretation flv_pipe: staged_pipe ctx wait flv_processors "flv_stage h wr" flv_error_ok for ctx wait h wr
proof unfold_locales
  fix i assume "i \<in> set flv_processors"
  then show "pi_errorStrategy i = StopOnError \<or> pi_errorStrategy i = ReturnNextOnError"
    by (auto simp: flv_processors_def NewProcessorInfo_def WithErrorStrategy_def)
next
  fix k w a b w'
  assume k: "k < length flv_processors" and a: "flv_stage h wr k w a"
    and p: "pr_Process (pi_processor (flv_processors ! k)) w a = (b, None, w')"
  from k show "flv_stage h wr (Suc k) w' b"
    by (cases rule: flv_processor_cases)
      (use a p flv_fix_stage flv_detect_stage flv_header_stage in \<open>simp_all add: numeral_eq_Suc\<close>)
next
  fix k w a b e w'
  assume k: "k < length flv_processors" and "flv_stage h wr k w a"
    and p: "pr_Process (pi_processor (flv_processors ! k)) w a = (b, Some e, w')"
  then have "det_inv (sd_detector (fw_detector w))"
    by (simp add: flv_stage_def)
  with k show "flv_error_ok e"
    by (cases rule: flv_processor_cases) (use p flv_fail_ok in \<open>simp_all\<close>)
qed

lemma flv_process_ok:
  assumes "det_inv (sd_detector (fw_detector w))" and "process_all ctx wait flv_processors w c = (b, None, w')"
  shows "fw_writer w' = fw_writer w \<and> det_inv (sd_detector (fw_detector w')) \<and>
    (if fw_written w then fw_written w' \<and> tag_stream b
     else if fw_written w' then \<exists>s. tag_stream s \<and> b = Prepend (fw_writer w) s else b = [])"
proof -
  have "flv_stage (fw_writer w) (fw_written w) 0 w c"
    using assms(1) by (simp add: flv_stage_def)
  from flv_pipe.process_stage [OF this assms(2)] show ?thesis
    by (simp add: flv_stage_def flv_processors_def)
qed

lemma flv_process_change_ok:
  assumes "det_inv (sd_detector (fw_detector w))"
    and "process_all ctx wait flv_processors w c = (b, Some (ProcErr (HeaderChanged e)), w')"
  shows "change_ok e"
proof -
  have "flv_stage (fw_writer w) (fw_written w) 0 w c"
    using assms(1) by (simp add: flv_stage_def)
  from flv_pipe.process_fail [OF this assms(2)] show ?thesis
    by (simp add: flv_error_ok_def)
qed

lemma Prepend_append: "Prepend h s @ t = Prepend h (s @ t)"
  by (simp add: Prepend_def Let_def)

definition segment_bytes :: "FlvWorld \<Rightarrow> bytes \<Rightarrow> bool" where
  "segment_bytes w out =
    (if fw_written w then tag_stream out
     else out = [] \<or> (\<exists>s. tag_stream s \<and> out = Prepend (fw_writer w) s))"

lemma rev_chunks_ok:
  "det_inv (sd_detector (fw_detector w)) \<Longrightarrow> rev_chunks ctx wait w cs = (out, r, w') \<Longrightarrow>
    segment_bytes w out \<and>
    (\<forall>e cs'. r = Some (ProcErr (HeaderChanged e), cs') \<longrightarrow> change_ok e)"
proof (induction cs arbitrary: w out)
  case Nil
  then show ?case by (simp add: segment_bytes_def)
next
  case (Cons c cs)
  obtain b e w1 where p: "process_all ctx wait flv_processors w c = (b, e, w1)"
    by (metis prod_cases3)
  show ?case
  proof (cases e)
    case (Some err)
    then show ?thesis
      using Cons.prems p flv_process_change_ok [OF Cons.prems(1), of ctx wait c b _ w1]
      by (auto simp: segment_bytes_def)
  next
    case None
    obtain bs where bs: "rev_chunks ctx wait w1 cs = (bs, r, w')" "out = b @ bs"
      using Cons.prems(2) p None by (auto split: prod.splits)
    have s: "fw_writer w1 = fw_writer w \<and> det_inv (sd_detector (fw_detector w1)) \<and>
      (if fw_written w then fw_written w1 \<and> tag_stream b
       else if fw_written w1 then \<exists>s. tag_stream s \<and> b = Prepend (fw_writer w) s else b = [])"
      using flv_process_ok [OF Cons.prems(1)] p None by blast
    from Cons.IH [OF _ bs(1)] s have "segment_bytes w1 bs"
        "\<forall>e cs'. r = Some (ProcErr (HeaderChanged e), cs') \<longrightarrow> change_ok e"
      by blast+
    with s bs(2) show ?thesis
      by (auto simp: segment_bytes_def Prepend_append tag_stream_append split: if_splits
          intro: tag_stream_append)
  qed
qed

section \<open>Properties\<close>

text \<open>A complete FLV file: file header, a zero previous-tag-size, and serialised tags with
  non-negative timestamps.\<close>

definition valid_flv_file :: "bytes \<Rightarrow> bool" where
  "valid_flv_file f = (take 9 f = FlvHeader \<and> take 4 (drop 9 f) = [0, 0, 0, 0] \<and>
    (\<exists>us. clean_tags us \<and> drop 13 f = concat (map WriteTag us)))"

definition header_bytes_ok :: "bytes \<Rightarrow> bool" where
  "header_bytes_ok v = (v = [] \<or> (\<exists>t. tag_wf t \<and> v = WriteTag t))"

lemma normalize_header_ok: "header_bytes_ok v \<Longrightarrow> tag_stream (normalizeTagTimestamp v)"
proof -
  have "tag_stream (WriteTag (t\<lparr>tg_timestamp := 0\<rparr>))" if "tag_wf t" for t
    using that by (auto simp: tag_stream_def clean_tags_def intro!: exI [of _ "[t\<lparr>tg_timestamp := 0\<rparr>]"])
  then show "header_bytes_ok v \<Longrightarrow> tag_stream (normalizeTagTimestamp v)"
    by (auto simp: header_bytes_ok_def normalizeTagTimestamp_WriteTag) (simp add: normalizeTagTimestamp_def)
qed

lemma Prepend_valid:
  assumes "header_bytes_ok (VideoHeaderTag h)" "header_bytes_ok (AudioHeaderTag h)" "tag_stream s"
  shows "valid_flv_file (Prepend h s)"
proof -
  have "Prepend h s = FlvHeader @ [0, 0, 0, 0] @
      (normalizeTagTimestamp (VideoHeaderTag h) @ normalizeTagTimestamp (AudioHeaderTag h) @ s)"
    by (simp add: Prepend_def Let_def NewFileHeaderBytes_def numeral_eq_Suc)
  moreover have "tag_stream (normalizeTagTimestamp (VideoHeaderTag h) @ normalizeTagTimestamp (AudioHeaderTag h) @ s)"
    using assms by (intro tag_stream_append normalize_header_ok)
  moreover have "length FlvHeader = 9"
    by (simp add: FlvHeader_def)
  ultimately show ?thesis
    by (simp add: valid_flv_file_def tag_stream_def)
qed

lemma rotate_files_valid:
  "header_bytes_ok v \<Longrightarrow> header_bytes_ok a \<Longrightarrow>
    list_all (\<lambda>f. f = [] \<or> valid_flv_file f) (rotate ctx wait v a w cs)"
proof (induction ctx wait v a w cs rule: rotate.induct)
  case (1 ctx wait v a w cs)
  let ?w = "BuildPipeline v a w"
  have inv: "det_inv (sd_detector (fw_detector ?w))"
    by (simp add: BuildPipeline_def sd_Open_def NewFlvHeaderSplitDetectorSeeded_def det_Reset_def
        SeedVideoHeader_def NewHeaderChangeDetector_def det_inv_def is_tag_bytes_def Let_def)
  obtain out r w' where rev: "rev_chunks ctx wait ?w cs = (out, r, w')"
    by (metis prod_cases3)
  have "segment_bytes ?w out" and ch: "\<forall>e cs'. r = Some (ProcErr (HeaderChanged e), cs') \<longrightarrow> change_ok e"
    using rev_chunks_ok [OF inv rev] by blast+
  then have out: "out = [] \<or> valid_flv_file out"
    using "1.prems" by (auto simp: segment_bytes_def BuildPipeline_def intro!: Prepend_valid)
  show ?case
  proof (cases r)
    case None
    then show ?thesis using out rev by (simp add: rotate.simps)
  next
    case (Some p)
    obtain err cs' where r: "r = Some (err, cs')"
      using Some by (cases p) simp
    obtain st w'' where h: "HandleErr err w' = (st, w'')"
      by (metis surj_pair)
    show ?thesis
    proof (cases st)
      case (ErrActionAbort delay)
      then show ?thesis using out rev r h by (simp add: rotate.simps)
    next
      case (ErrActionRotate v' a')
      obtain e where e: "err = ProcErr (HeaderChanged e)" "v' = hc_VideoHeaderTag e"
          "a' = (case hc_AudioHeaderTag e of None \<Rightarrow> [] | Some a \<Rightarrow> a)"
        using h ErrActionRotate
        by (auto simp: HandleErr_def split: pipe_error.splits flv_error.splits fix_error.splits)
      with ch r have "change_ok e" by blast
      then have "header_bytes_ok v'" "header_bytes_ok a'"
        using e by (auto simp: change_ok_def is_tag_bytes_def header_bytes_ok_def split: option.splits)
      from "1.IH" [OF rev [symmetric] refl r refl h [symmetric] ErrActionRotate this]
      show ?thesis
        using out rev r h ErrActionRotate by (simp add: rotate.simps [of ctx wait v])
    qed
  qed
qed

text \<open>C6. Every file of an FLV recording is a valid FLV file, whatever bytes the network
  delivers, however they are cut into chunks, however often the stream changes its video header
  and wherever the recording is interrupted: it is empty or consists of the file header and
  complete, well-formed tags with non-negative timestamps.\<close>

theorem recorded_files_are_valid_flv:
  "list_all (\<lambda>f. f = [] \<or> valid_flv_file f) (rotate ctx wait [] [] w chunks)"
  by (rule rotate_files_valid) (simp_all add: header_bytes_ok_def)

end
