(* ===== verification/FlvAccumulate.thy ===== *)
theory FlvAccumulate
  imports FlvFixer
begin

text \<open>
  The accumulating FLV fixer (\<open>pkg/flv/accumulate_fixer.go\<close>): it collects bytes, and one
  \<open>Flush\<close> parses, deduplicates and re-times a whole batch of tags. Jump warnings are the
  second component of a flush. The tag slice and the pools are left out.
\<close>

section \<open>The next expected timestamp\<close>

definition AudioDurationMin :: i32 where "AudioDurationMin = 20"
definition AudioDurationMax :: i32 where "AudioDurationMax = 24"
definition AudioDurationFallback :: i32 where "AudioDurationFallback = 22"
definition VideoDurationMin :: i32 where "VideoDurationMin = 15"
definition VideoDurationMax :: i32 where "VideoDurationMax = 50"
definition VideoDurationFallback :: i32 where "VideoDurationFallback = 33"

text \<open>The part of \<open>CalculateNextTargetAdvanced\<close> for the timestamps of one tag type: the last
  one plus the first distance if it is plausible, or plus a fallback.\<close>

definition group_target :: "i32 \<Rightarrow> i32 \<Rightarrow> i32 \<Rightarrow> i32 list \<Rightarrow> i32" where
  "group_target mn mx fallback ts =
    (if length ts \<ge> 2 then
       let duration = ts ! 1 - ts ! 0 in
       if mn \<le>s duration \<and> duration \<le>s mx then ts ! (length ts - 1) + duration
       else ts ! (length ts - 1) + fallback
     else if length ts = 1 then ts ! 0 + fallback else 0)"

text \<open>The maximum is taken on \<open>float64\<close>, which holds every \<open>int32\<close> exactly.\<close>

definition CalculateNextTargetAdvanced :: "tag list \<Rightarrow> i32" where
  "CalculateNextTargetAdvanced tags =
    (let v = group_target VideoDurationMin VideoDurationMax VideoDurationFallback
               (map tg_timestamp (filter (\<lambda>t. tg_type t = TagTypeVideo) tags));
         a = group_target AudioDurationMin AudioDurationMax AudioDurationFallback
               (map tg_timestamp (filter (\<lambda>t. tg_type t = TagTypeAudio) tags))
     in if v <s a then a else v)"

section \<open>The fixer\<close>

record AccumulateFixer =
  af_ts :: TimestampStore
  af_buffer :: bytes
  af_chunkSizeBytes :: int
  af_headerWritten :: bool
  af_totalProcessed :: nat
  af_dedup :: DedupCache
  af_dupCount :: nat

datatype acc_error = AccNotFlvFile | AccBufferCorrupted | AccNilDereference

definition NewAccumulateFixer :: "int \<Rightarrow> AccumulateFixer" where
  "NewAccumulateFixer chunkSizeMB =
    \<lparr>af_ts = NewTimestampStore, af_buffer = [], af_chunkSizeBytes = chunkSizeMB * 1024 * 1024,
     af_headerWritten = False, af_totalProcessed = 0,
     af_dedup = NewDedupCache MaxDedupCacheSize DedupWindowMs, af_dupCount = 0\<rparr>"

definition Accumulate :: "AccumulateFixer \<Rightarrow> bytes \<Rightarrow> bool \<times> AccumulateFixer" where
  "Accumulate af input =
    (let af = af\<lparr>af_buffer := af_buffer af @ input\<rparr> in
     (int (length (af_buffer af)) \<ge> af_chunkSizeBytes af, af))"

definition acc_stats :: "AccumulateFixer \<Rightarrow> nat \<times> nat" where
  "acc_stats af = (length (af_buffer af), af_totalProcessed af)"

definition acc_dedup_stats :: "AccumulateFixer \<Rightarrow> nat \<times> nat \<times> nat" where
  "acc_dedup_stats af = (af_dupCount af, dc_stats (af_dedup af))"

text \<open>Reading one tag field by field; what was read is put back while the tag is incomplete.\<close>

definition acc_read_tag :: "bytes \<Rightarrow> (tag \<times> bytes) option" where
  "acc_read_tag buf =
    (if length buf \<ge> 15 then
       let b1 = drop 4 buf in
       if length b1 < TagHeaderSize then None
       else let h = take TagHeaderSize b1; b2 = drop TagHeaderSize b1;
                dataSize = unat (be24 (h ! 1) (h ! 2) (h ! 3)) in
         if length b2 < dataSize then None
         else Some (make_tag h (take dataSize b2), drop dataSize b2)
     else None)"

lemma acc_read_tag_next: "acc_read_tag buf = next_tag buf"
proof (cases "length buf \<ge> 15")
  case True
  have h: "gslice 4 15 buf = take 11 (drop 4 buf)"
    by (simp add: gslice_def)
  have d: "gslice 15 (15 + n) buf = take n (drop 15 buf)" for n
    by (simp add: gslice_def)
  show ?thesis
    using True by (auto simp: acc_read_tag_def next_tag_def Let_def h d hdr_data_size_def add.commute)
qed (simp add: acc_read_tag_def next_tag_def)

text \<open>The parse loop: duplicates are dropped; the corruption check compares with the length at
  the start of the iteration.\<close>

function acc_loop :: "AccumulateFixer \<Rightarrow> tag list \<Rightarrow> acc_error + (AccumulateFixer \<times> tag list)" where
  "acc_loop af tags =
    (case acc_read_tag (af_buffer af) of
       None \<Rightarrow> Inr (af, tags)
     | Some (t, rest) \<Rightarrow>
        (let startLen = length (af_buffer af); af1 = af\<lparr>af_buffer := rest\<rparr> in
         case isDuplicateLocked t (af_dedup af1) of
           (True, dc) \<Rightarrow> acc_loop (af1\<lparr>af_dedup := dc, af_dupCount := Suc (af_dupCount af1)\<rparr>) tags
         | (False, dc) \<Rightarrow>
             if length (af_buffer af1) > startLen then Inl AccBufferCorrupted
             else acc_loop (af1\<lparr>af_dedup := dc\<rparr>) (tags @ [t])))"
  by pat_completeness auto
termination
  by (relation "measure (\<lambda>(af, tags). length (af_buffer af))")
     (auto simp: acc_read_tag_next dest!: next_tag_shorter)

declare acc_loop.simps [simp del]

fun min_timestamp :: "i32 \<Rightarrow> tag list \<Rightarrow> i32" where
  "min_timestamp m [] = m"
| "min_timestamp m (t # ts) = min_timestamp (if tg_timestamp t <s m then tg_timestamp t else m) ts"

text \<open>One tag of \<open>fixTimestamps\<close>.\<close>

definition acc_fix_one :: "TimestampStore \<Rightarrow> tag \<Rightarrow> TimestampStore \<times> tag \<times> JumpWarning list" where
  "acc_fix_one ts t =
    (let current = tg_timestamp t; diff = current - ts_last ts;
         jump = is_jump (ts_last ts) diff;
         ts' = (if jump then ts\<lparr>ts_offset := current - ts_next ts\<rparr> else ts)\<lparr>ts_last := current\<rparr>;
         w = \<lparr>jw_current = current, jw_previous = ts_last ts, jw_delta = diff,
              jw_appliedOffset = ts_offset ts', jw_previousOffset = ts_offset ts,
              jw_rotation = False, jw_tagType = tg_type t\<rparr>
     in (ts', t\<lparr>tg_timestamp := current - ts_offset ts'\<rparr>, if jump then [w] else []))"

fun acc_fix_loop :: "TimestampStore \<Rightarrow> tag list \<Rightarrow> TimestampStore \<times> tag list \<times> JumpWarning list" where
  "acc_fix_loop ts [] = (ts, [], [])"
| "acc_fix_loop ts (t # tags) =
    (case acc_fix_one ts t of (ts', t', j) \<Rightarrow>
     case acc_fix_loop ts' tags of (ts'', tags', js) \<Rightarrow> (ts'', t' # tags', j @ js))"

definition acc_fixTimestamps :: "TimestampStore \<Rightarrow> tag list \<Rightarrow> TimestampStore \<times> tag list \<times> JumpWarning list" where
  "acc_fixTimestamps ts tags =
    (if length tags = 0 then (ts, tags, [])
     else let ts1 = (if ts_first ts
            then ts\<lparr>ts_first := False, ts_offset := min_timestamp (tg_timestamp (hd tags)) tags\<rparr> else ts)
       in case acc_fix_loop ts1 tags of (ts2, tags', js) \<Rightarrow>
         (ts2\<lparr>ts_next := CalculateNextTargetAdvanced tags'\<rparr>, tags', js))"

definition acc_header :: "AccumulateFixer \<Rightarrow> acc_error + (bytes \<times> AccumulateFixer) option" where
  "acc_header af =
    (if \<not> af_headerWritten af then
       if length (af_buffer af) < 9 then Inr None
       else let header = take 9 (af_buffer af) in
         if take 3 header \<noteq> flv_magic then Inl AccNotFlvFile
         else Inr (Some (header @ [0, 0, 0, 0],
                af\<lparr>af_headerWritten := True, af_buffer := drop 9 (af_buffer af)\<rparr>))
     else Inr (Some ([], af)))"

definition flushInternal :: "AccumulateFixer \<Rightarrow>
    (acc_error + bytes option) \<times> JumpWarning list \<times> AccumulateFixer" where
  "flushInternal af =
    (if length (af_buffer af) = 0 then (Inr None, [], af)
     else case acc_header af of
       Inl e \<Rightarrow> (Inl e, [], af)
     | Inr None \<Rightarrow> (Inr None, [], af)
     | Inr (Some (header, af1)) \<Rightarrow>
        (case acc_loop af1 [] of
           Inl e \<Rightarrow> (Inl e, [], af1)
         | Inr (af2, tags) \<Rightarrow>
            (case acc_fixTimestamps (af_ts af2) tags of (ts, tags', js) \<Rightarrow>
              let output = header @ concat (map WriteTag tags');
                  af3 = af2\<lparr>af_ts := ts, af_totalProcessed := af_totalProcessed af2 + length output\<rparr> in
              if length tags' > 0 then
                (case cleanOldLocked (tg_timestamp (tags' ! (length tags' - 1))) (af_dedup af3) of
                   None \<Rightarrow> (Inl AccNilDereference, js, af3)
                 | Some dc \<Rightarrow> (Inr (Some output), js, af3\<lparr>af_dedup := dc\<rparr>))
              else (Inr (Some output), js, af3))))"

section \<open>What a flush does\<close>

text \<open>The dedup filter over framed tags.\<close>

fun dedup_tags :: "DedupCache \<Rightarrow> tag list \<Rightarrow> DedupCache \<times> tag list \<times> nat" where
  "dedup_tags dc [] = (dc, [], 0)"
| "dedup_tags dc (t # ts) =
    (case isDuplicateLocked t dc of
       (True, dc') \<Rightarrow> (case dedup_tags dc' ts of (d, us, n) \<Rightarrow> (d, us, Suc n))
     | (False, dc') \<Rightarrow> (case dedup_tags dc' ts of (d, us, n) \<Rightarrow> (d, t # us, n)))"

lemma acc_loop_eq:
  "acc_loop af tags =
    (case dedup_tags (af_dedup af) (fst (parse_tags (af_buffer af))) of (dc, us, n) \<Rightarrow>
      Inr (af\<lparr>af_buffer := snd (parse_tags (af_buffer af)), af_dedup := dc,
              af_dupCount := af_dupCount af + n\<rparr>, tags @ us))"
proof (induction af tags rule: acc_loop.induct)
  case (1 af tags)
  show ?case
  proof (cases "next_tag (af_buffer af)")
    case None
    then show ?thesis by (simp add: acc_loop.simps [of af] acc_read_tag_next parse_tags_None)
  next
    case (Some p)
    obtain t rest where nt: "next_tag (af_buffer af) = Some (t, rest)"
      using Some by (cases p) simp
    obtain b dc where d: "isDuplicateLocked t (af_dedup af) = (b, dc)"
      by (metis surj_pair)
    have len: "\<not> length (af_buffer af) < length rest"
      using next_tag_shorter [OF nt] by simp
    have rd: "acc_read_tag (af_buffer af) = Some (t, rest)"
      using nt by (simp add: acc_read_tag_next)
    show ?thesis
    proof (cases b)
      case True
      with "1.IH"(1) [OF rd refl refl refl] d nt rd show ?thesis
        by (simp add: acc_loop.simps [of af] parse_tags_Some split: prod.splits)
    next
      case False
      with "1.IH"(2) [OF rd refl refl refl] d nt rd len show ?thesis
        by (simp add: acc_loop.simps [of af] parse_tags_Some split: prod.splits)
    qed
  qed
qed

lemma dedup_tags_subseq: "subseq (fst (snd (dedup_tags dc ts))) ts"
  by (induction ts arbitrary: dc)
    (auto simp: case_prod_beta split: bool.splits)

lemma dedup_tags_inv: "dedup_inv dc \<Longrightarrow> dedup_inv (fst (dedup_tags dc ts))"
proof (induction ts arbitrary: dc)
  case (Cons t ts)
  have "dedup_inv (snd (isDuplicateLocked t dc))"
    using dedup_inv_isDuplicate [OF Cons.prems] by simp
  then show ?case
    using Cons.IH by (auto simp: case_prod_beta split: bool.splits)
qed simp

lemma acc_fix_one_untimed: "untimed (fst (snd (acc_fix_one ts t))) = untimed t"
  by (simp add: acc_fix_one_def Let_def)

lemma acc_fix_one_wf: "tag_wf t \<Longrightarrow> tag_wf (fst (snd (acc_fix_one ts t)))"
  by (simp add: acc_fix_one_def Let_def)

lemma acc_fix_loop_tags:
  "map untimed (fst (snd (acc_fix_loop ts tags))) = map untimed tags \<and>
    ((\<forall>t \<in> set tags. tag_wf t) \<longrightarrow> (\<forall>t \<in> set (fst (snd (acc_fix_loop ts tags))). tag_wf t))"
proof (induction tags arbitrary: ts)
  case (Cons t tags)
  show ?case
    using Cons.IH [of "fst (acc_fix_one ts t)"] acc_fix_one_untimed [of ts t] acc_fix_one_wf [of t ts]
    by (auto simp: case_prod_beta)
qed simp

lemma acc_fixTimestamps_tags:
  "map untimed (fst (snd (acc_fixTimestamps ts tags))) = map untimed tags \<and>
    ((\<forall>t \<in> set tags. tag_wf t) \<longrightarrow> (\<forall>t \<in> set (fst (snd (acc_fixTimestamps ts tags))). tag_wf t))"
  using acc_fix_loop_tags [of "if ts_first ts
      then ts\<lparr>ts_first := False, ts_offset := min_timestamp (tg_timestamp (hd tags)) tags\<rparr> else ts" tags]
  by (simp add: acc_fixTimestamps_def Let_def case_prod_beta del: fun_upd_apply)

lemma acc_fixTimestamps_Nil: "fst (snd (acc_fixTimestamps ts tags)) = [] \<longleftrightarrow> tags = []"
  using acc_fixTimestamps_tags [of ts tags] by (metis map_is_Nil_conv)

text \<open>The tags one flush works on.\<close>

definition flush_tags :: "AccumulateFixer \<Rightarrow> tag list" where
  "flush_tags af = fst (parse_tags (if af_headerWritten af then af_buffer af else drop 9 (af_buffer af)))"

section \<open>Properties\<close>

text \<open>A flush never fails but for a missing FLV magic, and what it returns is the file
  header (once) followed by the serialisation of well-formed tags that are, but for their
  timestamps, a subsequence of the complete tags collected; incomplete bytes stay buffered.\<close>

lemma flush_output:
  assumes "dedup_inv (af_dedup af)" and "flushInternal af = (r, js, af')"
  shows "case r of
    Inl e \<Rightarrow> e = AccNotFlvFile \<and> \<not> af_headerWritten af \<and> take 3 (af_buffer af) \<noteq> flv_magic \<and> af' = af
  | Inr None \<Rightarrow> af' = af \<and> (af_buffer af = [] \<or> \<not> af_headerWritten af \<and> length (af_buffer af) < 9)
  | Inr (Some out) \<Rightarrow> \<exists>us. out = (if af_headerWritten af then [] else take 9 (af_buffer af) @ [0, 0, 0, 0])
        @ concat (map WriteTag us)
      \<and> (\<forall>u \<in> set us. tag_wf u) \<and> subseq (map untimed us) (map untimed (flush_tags af))
      \<and> af_headerWritten af' \<and> dedup_inv (af_dedup af')
      \<and> next_tag (af_buffer af') = None"
proof (cases "af_buffer af = [] \<or> (\<not> af_headerWritten af \<and>
    (length (af_buffer af) < 9 \<or> take 3 (af_buffer af) \<noteq> flv_magic))")
  case True
  have "acc_header af = (if length (af_buffer af) < 9 then Inr None else Inl AccNotFlvFile)"
    if "af_buffer af \<noteq> []"
    using True that by (auto simp: acc_header_def Let_def)
  with True assms(2) show ?thesis
    by (cases "af_buffer af = []"; cases "length (af_buffer af) < 9")
      (auto simp: flushInternal_def)
next
  case False
  define af1 where "af1 = (if af_headerWritten af then af
    else af\<lparr>af_headerWritten := True, af_buffer := drop 9 (af_buffer af)\<rparr>)"
  define hd1 where "hd1 = (if af_headerWritten af then [] else take 9 (af_buffer af) @ [0, 0, 0, 0])"
  have h: "acc_header af = Inr (Some (hd1, af1))"
    using False by (auto simp: acc_header_def af1_def hd1_def Let_def)
  have a1: "fst (parse_tags (af_buffer af1)) = flush_tags af" "af_dedup af1 = af_dedup af" "af_headerWritten af1"
    by (simp_all add: af1_def flush_tags_def)
  obtain dc us n where d: "dedup_tags (af_dedup af) (flush_tags af) = (dc, us, n)"
    by (metis prod_cases3)
  have dc: "dedup_inv dc" and sub: "subseq us (flush_tags af)"
    using dedup_tags_inv [OF assms(1), of "flush_tags af"] dedup_tags_subseq [of "af_dedup af" "flush_tags af"] d
    by simp_all
  let ?rest = "snd (parse_tags (af_buffer af1))"
  define af2 where "af2 = af1\<lparr>af_buffer := ?rest, af_dedup := dc, af_dupCount := af_dupCount af1 + n\<rparr>"
  have l: "acc_loop af1 [] = Inr (af2, us)"
    using acc_loop_eq [of af1 "[]"] a1 d by (simp add: af2_def)
  obtain ts tags' js' where f: "acc_fixTimestamps (af_ts af2) us = (ts, tags', js')"
    by (metis prod_cases3)
  have m: "map untimed tags' = map untimed us" "\<forall>u \<in> set tags'. tag_wf u"
    using acc_fixTimestamps_tags [of "af_ts af2" us] f parse_tags_wf [of _ "af_buffer af1"] a1(1) sub
      list_emb_set [of "(=)" us "flush_tags af"] by auto
  have c: "\<exists>dc'. cleanOldLocked x dc = Some dc' \<and> dedup_inv dc'" for x
    using cleanOld_result [OF dc] by blast
  have fin: "r = Inr (Some (hd1 @ concat (map WriteTag tags')))" "af_headerWritten af'"
      "dedup_inv (af_dedup af')" "af_buffer af' = ?rest"
    using assms(2) False h l f c [of "tg_timestamp (tags' ! (length tags' - 1))"] dc a1(3)
    by (auto simp: flushInternal_def Let_def af2_def split: if_splits)
  then show ?thesis
    using m sub parse_tags_rest_incomplete [of "af_buffer af1"]
    by (auto simp: hd1_def subseq_map intro!: exI [of _ tags'])
qed

lemma flush_output_witness:
  "\<exists>js af'. flushInternal (NewAccumulateFixer 1) = (Inr None, js, af') \<and> af' = NewAccumulateFixer 1"
proof -
  have "dedup_inv (af_dedup (NewAccumulateFixer 1))"
    using dedup_inv_new [of 1000 5000] by (simp add: NewAccumulateFixer_def MaxDedupCacheSize_def DedupWindowMs_def)
  moreover have "flushInternal (NewAccumulateFixer 1) = (Inr None, [], NewAccumulateFixer 1)"
    by (simp add: flushInternal_def NewAccumulateFixer_def)
  ultimately show ?thesis
    using flush_output [of "NewAccumulateFixer 1" "Inr None" "[]" "NewAccumulateFixer 1"] by simp
qed

text \<open>The cleaning at the end of a flush compares original timestamps in the cache with the
  re-timed timestamp of the last tag written: for a live stream whose clock is more than ten
  seconds in, the signature just recorded is thrown away and the tag is not recognised when it
  is sent again in the next batch.\<close>

lemma flush_forgets_signatures:
  assumes "tag_wf t" and "10000 <s tg_timestamp t"
  shows "acc_dedup_stats (snd (snd (flushInternal
    (snd (Accumulate (NewAccumulateFixer n) (FlvHeader @ [0, 0, 0, 0] @ WriteTag t)))))) = (0, 0, 1000)"
proof -
  let ?b = "[0, 0, 0, 0] @ WriteTag t"
  define af where "af = snd (Accumulate (NewAccumulateFixer n) (FlvHeader @ ?b))"
  have len: "length FlvHeader = 9" "take 3 FlvHeader = flv_magic"
    by (simp_all add: FlvHeader_def flv_magic_def)
  have af: "af_buffer af = FlvHeader @ ?b" "\<not> af_headerWritten af" "af_dupCount af = 0"
      "af_dedup af = NewDedupCache 1000 5000" "af_ts af = NewTimestampStore"
    by (simp_all add: af_def Accumulate_def NewAccumulateFixer_def MaxDedupCacheSize_def DedupWindowMs_def)
  define af1 where "af1 = af\<lparr>af_headerWritten := True, af_buffer := ?b\<rparr>"
  have h: "acc_header af = Inr (Some (FlvHeader @ [0, 0, 0, 0], af1))"
    using af len by (simp add: acc_header_def af1_def)
  obtain r where p: "parse_tags ?b = ([t], r)"
    using parse_tags_WriteTag [of "[t]" "[0, 0, 0, 0]"] assms(1) by auto
  let ?sg = "\<lparr>sg_hash = computeSignature t, sg_timestamp = tg_timestamp t, sg_type = tg_type t,
      sg_dataSize = tg_dataSize t\<rparr>"
  define dc where "dc = dc_add (computeSignature t) ?sg (NewDedupCache 1000 5000)"
  have dc: "dc_sigs dc = [(computeSignature t, ?sg)]" "dc_order dc = [computeSignature t]"
      "dc_windowMs dc = 5000" "dc_maxSize dc = 1000"
    by (simp_all add: dc_def dc_add_def NewDedupCache_def gm_code)
  have "dedup_tags (NewDedupCache 1000 5000) [t] = (dc, [t], 0)"
    by (simp add: isDuplicateLocked_def dc_def NewDedupCache_def Let_def)
  then have l: "acc_loop af1 [] = Inr (af1\<lparr>af_buffer := r, af_dedup := dc\<rparr>, [t])"
    using acc_loop_eq [of af1 "[]"] p af by (simp add: af1_def)
  have j: "is_jump 0 (tg_timestamp t)"
    using assms(2) by (simp add: is_jump_def JumpThreshold_def word_sless_alt)
  have f: "\<exists>ts js. acc_fixTimestamps NewTimestampStore [t] = (ts, [t\<lparr>tg_timestamp := 0\<rparr>], js)"
    using j by (simp add: acc_fixTimestamps_def NewTimestampStore_def acc_fix_one_def Let_def)
  have "abs32 (- tg_timestamp t) = tg_timestamp t"
    using assms(2) sint_sub_bound [of 0 "tg_timestamp t"] sint_less [of "tg_timestamp t"]
    by (auto simp: abs32_def word_sless_alt)
  then have "cleanOldLocked 0 dc = Some (dc\<lparr>dc_sigs := [], dc_order := []\<rparr>)"
    using assms(2) dc by (simp add: cleanOldLocked_def gm_code word_sless_alt word_sle_eq)
  then have "acc_dedup_stats (snd (snd (flushInternal af))) = (0, 0, 1000)"
    using f af h l len dc
    by (auto simp: flushInternal_def af1_def acc_dedup_stats_def dc_stats_def gm_len_def Let_def FlvHeader_def)
  then show ?thesis
    by (simp only: af_def append.assoc)
qed

lemma flush_forgets_signatures_witness:
  "acc_dedup_stats (snd (snd (flushInternal (snd (Accumulate (NewAccumulateFixer 1)
     (FlvHeader @ [0, 0, 0, 0] @ WriteTag (sample_audio\<lparr>tg_timestamp := 20000\<rparr>))))))) = (0, 0, 1000)"
  using flush_forgets_signatures [of "sample_audio\<lparr>tg_timestamp := 20000\<rparr>" 1] sample_wf
  by (simp add: word_sless_alt)

end
