(* ===== verification/Mp4.thy ===== *)
theory Mp4
  imports GoStrings
begin

text \<open>
  ISO BMFF boxes: the walk over the top-level boxes of a file (\<open>pkg/mp4/box.go\<close>) and the
  in-place rebasing of the decode times of fragmented MP4 (\<open>pkg/hls/fmp4_fragment.go\<close>).
  Offsets and sizes of a file are Go \<open>int64\<close>s; files are far below their limit, so they are
  integers here. A buffer that is changed in place is returned. The map from track to base
  time is a HOL map.
\<close>

section \<open>Walking the boxes of a file\<close>

definition boxTypeMoov :: u32 where "boxTypeMoov = 0x6d6f6f76"

datatype io_error = EOF | ErrUnexpectedEOF | OtherIOError

text \<open>\<open>io.ReaderAt\<close>: number of bytes and offset to the bytes or an error.\<close>

type_synonym reader_at = "nat \<Rightarrow> int \<Rightarrow> io_error + bytes"

definition readBoxHeader :: "reader_at \<Rightarrow> int \<Rightarrow> int \<Rightarrow> io_error + (int \<times> u32)" where
  "readBoxHeader r offset fileSize =
    (if offset < 0 \<or> offset + 8 > fileSize then Inl ErrUnexpectedEOF
     else case r 8 offset of
       Inl e \<Rightarrow> Inl e
     | Inr hdr \<Rightarrow>
        (let size32 = be32 (take 4 hdr); ty = be32 (drop 4 hdr);
             fin = (\<lambda>sz headerLen. if sz < headerLen then Inr (0, 0)
               else if sz > fileSize - offset then Inr (0, 0) else Inr (sz, ty)) in
         if size32 = 0 then fin (fileSize - offset) 8
         else if size32 = 1 then
           (if offset + 16 > fileSize then Inl ErrUnexpectedEOF
            else case r 8 (offset + 8) of
              Inl e \<Rightarrow> Inl e
            | Inr ext \<Rightarrow> fin (int (unat (be64 ext))) 16)
         else fin (int (unat size32)) 8))"

function box_walk :: "reader_at \<Rightarrow> int \<Rightarrow> int \<Rightarrow> u32 \<Rightarrow> io_error + bool" where
  "box_walk r sz offset boxType =
    (if offset < sz then
       (case readBoxHeader r offset sz of
          Inl e \<Rightarrow> if e = EOF \<or> e = ErrUnexpectedEOF then Inr False else Inl e
        | Inr (boxSize, ty) \<Rightarrow>
            if boxSize = 0 then Inr False
            else if ty = boxType then Inr True
            else if offset + boxSize \<le> offset then Inr False
            else box_walk r sz (offset + boxSize) boxType)
     else Inr False)"
  by pat_completeness auto
termination
  by (relation "measure (\<lambda>(r, sz, offset, boxType). nat (sz - offset))") auto

declare box_walk.simps [simp del]

definition HasTopLevelBox :: "reader_at \<Rightarrow> int \<Rightarrow> u32 \<Rightarrow> io_error + bool" where
  "HasTopLevelBox r sz boxType = (if sz < 8 then Inr False else box_walk r sz 0 boxType)"

definition IsISOBMFF :: "string \<Rightarrow> bool" where
  "IsISOBMFF format = (ToLower (TrimPrefix format ''.'') \<in> {''mp4'', ''m4v'', ''mov''})"

section \<open>Boxes of a fragment\<close>

definition boxTypeMoof :: u32 where "boxTypeMoof = 0x6d6f6f66"
definition boxTypeTraf :: u32 where "boxTypeTraf = 0x74726166"
definition boxTypeTfhd :: u32 where "boxTypeTfhd = 0x74666864"
definition boxTypeTfdt :: u32 where "boxTypeTfdt = 0x74666474"

lemmas box_types = boxTypeMoof_def boxTypeTraf_def boxTypeTfhd_def boxTypeTfdt_def

lemma box_types_distinct:
  "boxTypeTfhd \<noteq> boxTypeTfdt" "0x7472756e \<noteq> boxTypeTfdt" "0x6d666864 \<noteq> boxTypeTraf"
  "0x6d646174 \<noteq> boxTypeMoof"
  by (simp_all add: box_types)

definition readBoxHeaderCode :: "bytes \<Rightarrow> nat \<Rightarrow> (nat \<times> u32 \<times> nat) option" where
  "readBoxHeaderCode d offset =
    (if offset + 8 > length d then None
     else let size32 = be32 (gslice offset (offset + 4) d);
              boxType = be32 (gslice (offset + 4) (offset + 8) d);
              fin = (\<lambda>sz headerLen. if sz < headerLen \<or> offset + sz > length d then None
                else Some (sz, boxType, headerLen)) in
       if size32 = 0 then fin (length d - offset) 8
       else if size32 = 1 then
         (if offset + 16 > length d then None
          else let size64 = be64 (gslice (offset + 8) (offset + 16) d) in
            if unat size64 > length d - offset then None else fin (unat size64) 16)
       else fin (unat size32) 8)"

lemma readBoxHeaderCode_bounds:
  "readBoxHeaderCode d off = Some (sz, ty, hl) \<Longrightarrow> 8 \<le> sz \<and> off + sz \<le> length d"
  by (auto simp: readBoxHeaderCode_def Let_def split: if_splits)

definition ReadBoxHeader :: "bytes \<Rightarrow> nat \<Rightarrow> (nat \<times> bytes \<times> nat) option" where
  "ReadBoxHeader d offset =
    map_option (\<lambda>(sz, ty, hl). (sz, put32 ty, hl)) (readBoxHeaderCode d offset)"

definition TfhdTrackID :: "bytes \<Rightarrow> nat \<Rightarrow> nat \<Rightarrow> u32 option" where
  "TfhdTrackID d start end' =
    (if int end' - int start < 16 then None
     else let trackID = be32 (gslice (start + 12) (start + 16) d) in
       if trackID = 0 then None else Some trackID)"

definition put_at :: "nat \<Rightarrow> bytes \<Rightarrow> bytes \<Rightarrow> bytes" where
  "put_at i bs d = take i d @ bs @ drop (i + length bs) d"

lemma length_put_at: "i + length bs \<le> length d \<Longrightarrow> length (put_at i bs d) = length d"
  by (simp add: put_at_def)

text \<open>The base of a track: the first value seen, or any smaller one seen later.\<close>

definition rebase :: "(u32 \<rightharpoonup> u64) \<Rightarrow> u32 \<Rightarrow> u64 \<Rightarrow> u64 \<times> (u32 \<rightharpoonup> u64)" where
  "rebase bases trackID value =
    (case bases trackID of
       Some base \<Rightarrow> if value < base then (value, bases(trackID \<mapsto> value)) else (base, bases)
     | None \<Rightarrow> (value, bases(trackID \<mapsto> value)))"

definition NormalizeTfdtBox :: "bytes \<Rightarrow> nat \<Rightarrow> nat \<Rightarrow> u32 \<Rightarrow> (u32 \<rightharpoonup> u64) \<Rightarrow>
    bool \<times> bytes \<times> (u32 \<rightharpoonup> u64)" where
  "NormalizeTfdtBox d start end' trackID bases =
    (if trackID = 0 \<or> int end' - int start < 16 then (False, d, bases)
     else if d ! (start + 8) = 1 then
       (if int end' - int start < 20 then (False, d, bases)
        else let value = be64 (gslice (start + 12) (start + 20) d) in
          case rebase bases trackID value of (base, bases') \<Rightarrow>
            (True, put_at (start + 12) (put64 (value - base)) d, bases'))
     else let value = ucast (be32 (gslice (start + 12) (start + 16) d)) in
       case rebase bases trackID value of (base, bases') \<Rightarrow>
         (True, put_at (start + 12) (put32 (ucast (value - base))) d, bases'))"

lemma NormalizeTfdtBox_length:
  "end' \<le> length d \<Longrightarrow> length (fst (snd (NormalizeTfdtBox d start end' trackID bases))) = length d"
  by (auto simp: NormalizeTfdtBox_def Let_def case_prod_beta length_put_at)

text \<open>The two loops of \<open>NormalizeTrafTfdt\<close>.\<close>

function traf_track :: "bytes \<Rightarrow> nat \<Rightarrow> nat \<Rightarrow> u32" where
  "traf_track d off trafEnd =
    (if off < trafEnd then
       (case readBoxHeaderCode d off of
          None \<Rightarrow> 0
        | Some (sz, ty, _) \<Rightarrow>
            (case (if ty = boxTypeTfhd then TfhdTrackID d off (off + sz) else None) of
               Some tid \<Rightarrow> tid
             | None \<Rightarrow> traf_track d (off + sz) trafEnd))
     else 0)"
  by pat_completeness auto
termination
  by (relation "measure (\<lambda>(d, off, trafEnd). trafEnd - off)")
     (auto dest: readBoxHeaderCode_bounds)

function traf_loop :: "bytes \<Rightarrow> nat \<Rightarrow> nat \<Rightarrow> u32 \<Rightarrow> (u32 \<rightharpoonup> u64) \<Rightarrow> nat \<Rightarrow>
    nat \<times> bytes \<times> (u32 \<rightharpoonup> u64)" where
  "traf_loop d off trafEnd trackID bases n =
    (if off < trafEnd then
       (case readBoxHeaderCode d off of
          None \<Rightarrow> (n, d, bases)
        | Some (sz, ty, _) \<Rightarrow>
            (case (if ty = boxTypeTfdt then NormalizeTfdtBox d off (off + sz) trackID bases
                   else (False, d, bases)) of
               (changed, d', bases') \<Rightarrow>
                 traf_loop d' (off + sz) trafEnd trackID bases' (if changed then Suc n else n)))
     else (n, d, bases))"
  by pat_completeness auto
termination
  by (relation "measure (\<lambda>(d, off, trafEnd, trackID, bases, n). trafEnd - off)")
     (auto dest: readBoxHeaderCode_bounds)

declare traf_track.simps [simp del] traf_loop.simps [simp del]

definition NormalizeTrafTfdt :: "bytes \<Rightarrow> nat \<Rightarrow> nat \<Rightarrow> (u32 \<rightharpoonup> u64) \<Rightarrow> nat \<times> bytes \<times> (u32 \<rightharpoonup> u64)" where
  "NormalizeTrafTfdt d trafStart trafEnd bases =
    (let trackID = traf_track d (trafStart + 8) trafEnd in
     if trackID = 0 then (0, d, bases) else traf_loop d (trafStart + 8) trafEnd trackID bases 0)"

lemma traf_loop_length:
  "length (fst (snd (traf_loop d off trafEnd trackID bases n))) = length d"
proof (induction d off trafEnd trackID bases n rule: traf_loop.induct)
  case (1 d off trafEnd trackID bases n)
  show ?case
  proof (cases "off < trafEnd \<and> readBoxHeaderCode d off \<noteq> None")
    case False
    then show ?thesis by (auto simp: traf_loop.simps [of d] split: option.split)
  next
    case True
    then obtain sz ty hl where h: "readBoxHeaderCode d off = Some (sz, ty, hl)"
      by (metis not_Some_eq prod_cases3)
    obtain ch d' b' where n: "(if ty = boxTypeTfdt then NormalizeTfdtBox d off (off + sz) trackID bases
        else (False, d, bases)) = (ch, d', b')"
      by (metis prod_cases3)
    have "length d' = length d"
      using n readBoxHeaderCode_bounds [OF h] NormalizeTfdtBox_length [of "off + sz" d off trackID bases]
      by (auto split: if_splits)
    with True h n "1.IH" [OF _ h refl refl n [symmetric] refl] show ?thesis
      by (simp add: traf_loop.simps [of d])
  qed
qed

lemma NormalizeTrafTfdt_length:
  "length (fst (snd (NormalizeTrafTfdt d s e bases))) = length d"
  by (simp add: NormalizeTrafTfdt_def Let_def traf_loop_length)

function moof_loop :: "bytes \<Rightarrow> nat \<Rightarrow> nat \<Rightarrow> (u32 \<rightharpoonup> u64) \<Rightarrow> nat \<Rightarrow> nat \<times> bytes \<times> (u32 \<rightharpoonup> u64)" where
  "moof_loop d child boxEnd bases tot =
    (if child < boxEnd then
       (case readBoxHeaderCode d child of
          None \<Rightarrow> (tot, d, bases)
        | Some (childSize, childType, _) \<Rightarrow>
            (case (if childType = boxTypeTraf then NormalizeTrafTfdt d child (child + childSize) bases
                   else (0, d, bases)) of
               (k, d', bases') \<Rightarrow> moof_loop d' (child + childSize) boxEnd bases' (tot + k)))
     else (tot, d, bases))"
  by pat_completeness auto
termination
  by (relation "measure (\<lambda>(d, child, boxEnd, bases, tot). boxEnd - child)")
     (auto dest: readBoxHeaderCode_bounds)

declare moof_loop.simps [simp del]

lemma moof_loop_length: "length (fst (snd (moof_loop d child boxEnd bases tot))) = length d"
proof (induction d child boxEnd bases tot rule: moof_loop.induct)
  case (1 d child boxEnd bases tot)
  show ?case
  proof (cases "child < boxEnd \<and> readBoxHeaderCode d child \<noteq> None")
    case False
    then show ?thesis by (auto simp: moof_loop.simps [of d] split: option.split)
  next
    case True
    then obtain sz ty hl where h: "readBoxHeaderCode d child = Some (sz, ty, hl)"
      by (metis not_Some_eq prod_cases3)
    obtain k d' b' where n: "(if ty = boxTypeTraf then NormalizeTrafTfdt d child (child + sz) bases
        else (0, d, bases)) = (k, d', b')"
      by (metis prod_cases3)
    have "length d' = length d"
      using n NormalizeTrafTfdt_length [of d child "child + sz" bases]
      by (auto split: if_splits)
    with True h n "1.IH" [OF _ h refl refl n [symmetric] refl] show ?thesis
      by (simp add: moof_loop.simps [of d])
  qed
qed

lemma fragment_step_length:
  assumes "(tot', d', b') = (if ty = boxTypeMoof then moof_loop d child boxEnd bases tot else (tot, d, bases))"
  shows "length d' = length d"
proof -
  have "length (fst (snd (if ty = boxTypeMoof then moof_loop d child boxEnd bases tot else (tot, d, bases))))
      = length d"
    by (simp add: moof_loop_length)
  then show ?thesis
    unfolding assms [symmetric] by simp
qed

function fragment_loop :: "bytes \<Rightarrow> nat \<Rightarrow> (u32 \<rightharpoonup> u64) \<Rightarrow> nat \<Rightarrow> nat \<times> bytes \<times> (u32 \<rightharpoonup> u64)" where
  "fragment_loop d off bases tot =
    (if off < length d then
       (case readBoxHeaderCode d off of
          None \<Rightarrow> (tot, d, bases)
        | Some (sz, ty, _) \<Rightarrow>
            (case (if ty = boxTypeMoof then moof_loop d (off + 8) (off + sz) bases tot
                   else (tot, d, bases)) of
               (tot', d', bases') \<Rightarrow> fragment_loop d' (off + sz) bases' tot'))
     else (tot, d, bases))"
  by pat_completeness auto
termination
  by (relation "measure (\<lambda>(d, off, bases, tot). length d - off)")
     (simp, clarsimp, frule readBoxHeaderCode_bounds, drule fragment_step_length, auto)

declare fragment_loop.simps [simp del]

definition NormalizeFragmentTimestamps :: "bytes \<Rightarrow> (u32 \<rightharpoonup> u64) \<Rightarrow> nat \<times> bytes \<times> (u32 \<rightharpoonup> u64)" where
  "NormalizeFragmentTimestamps d bases = fragment_loop d 0 bases 0"

lemma fragment_loop_length: "length (fst (snd (fragment_loop d off bases tot))) = length d"
proof (induction d off bases tot rule: fragment_loop.induct)
  case (1 d off bases tot)
  show ?case
  proof (cases "off < length d \<and> readBoxHeaderCode d off \<noteq> None")
    case False
    then show ?thesis by (auto simp: fragment_loop.simps [of d] split: option.split)
  next
    case True
    then obtain sz ty hl where h: "readBoxHeaderCode d off = Some (sz, ty, hl)"
      by (metis not_Some_eq prod_cases3)
    obtain tot' d' b' where n: "(if ty = boxTypeMoof then moof_loop d (off + 8) (off + sz) bases tot
        else (tot, d, bases)) = (tot', d', b')"
      by (metis prod_cases3)
    have "length d' = length d"
      using fragment_step_length [OF n [symmetric]] .
    with True h n "1.IH" [OF _ h refl refl n [symmetric] refl] show ?thesis
      by (simp add: fragment_loop.simps [of d])
  qed
qed

lemma NormalizeFragmentTimestamps_length:
  "length (fst (snd (NormalizeFragmentTimestamps d bases))) = length d"
  by (simp add: NormalizeFragmentTimestamps_def fragment_loop_length)

section \<open>Boxes as they are written\<close>

definition mk_box :: "u32 \<Rightarrow> bytes \<Rightarrow> bytes" where
  "mk_box ty payload = put32 (of_nat (8 + length payload)) @ put32 ty @ payload"

definition box_fits :: "bytes \<Rightarrow> bool" where
  "box_fits payload = (8 + length payload < 2 ^ 32)"

lemma length_mk_box [simp]: "length (mk_box ty p) = 8 + length p"
  by (simp add: mk_box_def)

lemma box_size_word:
  assumes "box_fits p"
  shows "unat (of_nat (8 + length p) :: u32) = 8 + length p"
    "(of_nat (8 + length p) :: u32) \<noteq> 0" "(of_nat (8 + length p) :: u32) \<noteq> 1"
proof -
  show u: "unat (of_nat (8 + length p) :: u32) = 8 + length p"
    using assms unfolding box_fits_def by (subst unat_of_nat) simp
  show "(of_nat (8 + length p) :: u32) \<noteq> 0"
    by (rule notI, drule arg_cong [of _ _ unat]) (simp only: u, simp)
  show "(of_nat (8 + length p) :: u32) \<noteq> 1"
    by (rule notI, drule arg_cong [of _ _ unat]) (simp only: u, simp)
qed

lemma mk_box_header:
  "gslice (length pre) (length pre + 4) (pre @ mk_box ty p @ post) = put32 (of_nat (8 + length p))"
  "gslice (length pre + 4) (length pre + 8) (pre @ mk_box ty p @ post) = put32 ty"
  by (simp_all add: gslice_def mk_box_def)

lemma readBoxHeaderCode_mk:
  assumes "box_fits p"
  shows "readBoxHeaderCode (pre @ mk_box ty p @ post) (length pre) = Some (8 + length p, ty, 8)"
proof -
  note w = box_size_word [OF assms]
  show ?thesis
    unfolding readBoxHeaderCode_def mk_box_header be32_put32' Let_def
    by (simp only: w if_False) (simp add: w)
qed

section \<open>Finding a box\<close>

definition file_reader :: "bytes \<Rightarrow> reader_at" where
  "file_reader f n off = (if nat off + n \<le> length f then Inr (take n (drop (nat off) f)) else Inl EOF)"

lemma file_reader_error: "file_reader f n off = Inl e \<Longrightarrow> e = EOF"
  by (auto simp: file_reader_def split: if_splits)

lemma readBoxHeader_error:
  "readBoxHeader (file_reader f) off n = Inl e \<Longrightarrow> e = EOF \<or> e = ErrUnexpectedEOF"
  by (auto simp: readBoxHeader_def Let_def dest: file_reader_error split: if_splits sum.splits)

lemma box_walk_no_error: "\<exists>b. box_walk (file_reader f) n off ty = Inr b"
proof (induction "nat (n - off)" arbitrary: off rule: less_induct)
  case less
  show ?case
  proof (cases "off < n")
    case True
    then show ?thesis
      using less readBoxHeader_error [of f off n]
      by (auto simp: box_walk.simps [of _ n off] split: sum.split)
  qed (simp add: box_walk.simps, blast)
qed

lemma readBoxHeader_mk:
  assumes "box_fits p"
  shows "readBoxHeader (file_reader (pre @ mk_box ty p @ post)) (int (length pre))
    (int (length (pre @ mk_box ty p @ post))) = Inr (int (8 + length p), ty)"
proof -
  note w = box_size_word [OF assms]
  have r: "file_reader (pre @ mk_box ty p @ post) 8 (int (length pre)) =
      Inr (put32 (of_nat (8 + length p)) @ put32 ty)"
    by (simp add: file_reader_def mk_box_def)
  show ?thesis
    unfolding readBoxHeader_def r Let_def sum.case
    by (simp only: take_append drop_append length_put32 diff_self_eq_0 take_all drop_all order_refl
        append_Nil take_0 drop_0 append_Nil2 be32_put32' w if_False)
       (simp add: w)
qed

lemma box_walk_boxes:
  assumes "\<forall>(t, p) \<in> set bs. box_fits p" and "f = pre @ concat (map (\<lambda>(t, p). mk_box t p) bs)"
  shows "box_walk (file_reader f) (int (length f)) (int (length pre)) ty = Inr (ty \<in> fst ` set bs)"
  using assms
proof (induction bs arbitrary: pre)
  case Nil
  then show ?case by (simp add: box_walk.simps)
next
  case (Cons b bs)
  obtain t p where b: "b = (t, p)" by (cases b)
  let ?post = "concat (map (\<lambda>(t, p). mk_box t p) bs)"
  have f: "f = pre @ mk_box t p @ ?post"
    using Cons.prems(2) b by simp
  have "box_fits p"
    using Cons.prems(1) b by simp
  from readBoxHeader_mk [OF this, of pre t ?post]
  have r: "readBoxHeader (file_reader f) (int (length pre)) (int (length f)) = Inr (int (8 + length p), t)"
    by (simp only: f)
  have f': "f = (pre @ mk_box t p) @ ?post"
    using f by simp
  have ih: "box_walk (file_reader f) (int (length f)) (int (length pre) + int (8 + length p)) ty
      = Inr (ty \<in> fst ` set bs)"
    using Cons.IH [OF _ f'] Cons.prems(1) by (simp add: algebra_simps)
  have "int (length pre) < int (length f)"
    by (simp add: f)
  then show ?case
    using r ih b by (simp add: box_walk.simps [of _ "int (length f)" "int (length pre)"])
qed

text \<open>The check for a \<open>moov\<close> box is exact on every file that consists of boxes, and a
  truncated or malformed file never gives an error, whatever it contains.\<close>

lemma has_top_level_box_exact:
  assumes "\<forall>(t, p) \<in> set bs. box_fits p"
  shows "HasTopLevelBox (file_reader (concat (map (\<lambda>(t, p). mk_box t p) bs)))
      (int (length (concat (map (\<lambda>(t, p). mk_box t p) bs)))) ty = Inr (ty \<in> fst ` set bs)
    \<and> (\<exists>b. HasTopLevelBox (file_reader f) n ty = Inr b)"
proof -
  have "length (concat (map (\<lambda>(t, p). mk_box t p) bs)) \<ge> 8" if "bs \<noteq> []"
    using that by (cases bs) (auto split: prod.split)
  then show ?thesis
    using box_walk_boxes [OF assms, of _ "[]" ty] box_walk_no_error [of f n 0 ty]
    by (cases "bs = []") (auto simp: HasTopLevelBox_def)
qed

lemma has_top_level_box_exact_witness:
  "HasTopLevelBox (file_reader (concat (map (\<lambda>(t, p). mk_box t p) [(0x66747970, [1, 2]), (boxTypeMoov, [])])))
     (int (length (concat (map (\<lambda>(t, p). mk_box t p) [(0x66747970, [1, 2]), (boxTypeMoov, [])])))) boxTypeMoov
   = Inr True"
  using has_top_level_box_exact [of "[(0x66747970, [1, 2]), (boxTypeMoov, [])]" boxTypeMoov]
  by (simp add: box_fits_def)

section \<open>Rebasing a fragment\<close>

text \<open>A media fragment as encoders write it: a \<open>moof\<close> with its sequence header and one \<open>traf\<close>
  per track (track header, 64-bit decode time, sample table), then the media data.\<close>

record track_fragment =
  tf_track :: u32
  tf_extra :: bytes
  tf_time :: u64
  tf_trun :: bytes

definition tfhd_box :: "track_fragment \<Rightarrow> bytes" where
  "tfhd_box t = mk_box boxTypeTfhd (put32 0 @ put32 (tf_track t) @ tf_extra t)"

definition tfdt_box :: "u64 \<Rightarrow> bytes" where
  "tfdt_box v = mk_box boxTypeTfdt ([1, 0, 0, 0] @ put64 v)"

definition traf_payload :: "track_fragment \<Rightarrow> bytes" where
  "traf_payload t = tfhd_box t @ tfdt_box (tf_time t) @ mk_box 0x7472756e (tf_trun t)"

definition traf_box :: "track_fragment \<Rightarrow> bytes" where
  "traf_box t = mk_box boxTypeTraf (traf_payload t)"

definition moof_payload :: "bytes \<Rightarrow> track_fragment list \<Rightarrow> bytes" where
  "moof_payload hdr ts = mk_box 0x6d666864 hdr @ concat (map traf_box ts)"

definition fragment :: "bytes \<Rightarrow> track_fragment list \<Rightarrow> bytes \<Rightarrow> bytes" where
  "fragment hdr ts media = mk_box boxTypeMoof (moof_payload hdr ts) @ mk_box 0x6d646174 media"

definition track_ok :: "track_fragment \<Rightarrow> bool" where
  "track_ok t = (tf_track t \<noteq> 0 \<and> box_fits (traf_payload t))"

text \<open>What rebasing does to the tracks, in order.\<close>

fun rebase_all :: "(u32 \<rightharpoonup> u64) \<Rightarrow> track_fragment list \<Rightarrow> track_fragment list \<times> (u32 \<rightharpoonup> u64)" where
  "rebase_all bases [] = ([], bases)"
| "rebase_all bases (t # ts) =
    (case rebase bases (tf_track t) (tf_time t) of (base, bases') \<Rightarrow>
     case rebase_all bases' ts of (ts', bases'') \<Rightarrow> (t\<lparr>tf_time := tf_time t - base\<rparr> # ts', bases''))"

lemma tfdt_box_length [simp]: "length (tfdt_box v) = 20"
  by (simp add: tfdt_box_def)

lemma tfhd_box_length [simp]: "length (tfhd_box t) = 16 + length (tf_extra t)"
  by (simp add: tfhd_box_def)

lemma track_ok_fits:
  assumes "track_ok t"
  shows "box_fits (put32 0 @ put32 (tf_track t) @ tf_extra t)" "box_fits (tf_trun t)" "box_fits ([1, 0, 0, 0] @ put64 v)"
  using assms by (simp_all add: track_ok_def box_fits_def traf_payload_def)

lemma tfdt_normalize:
  assumes "rebase bases tid v = (base, bases')" and "tid \<noteq> 0"
  shows "NormalizeTfdtBox (pre @ tfdt_box v @ post) (length pre) (length pre + 20) tid bases =
    (True, pre @ tfdt_box (v - base) @ post, bases')"
proof -
  let ?h = "put32 (of_nat 20 :: u32) @ put32 boxTypeTfdt @ [1, 0, 0, 0]"
  have b: "tfdt_box x = ?h @ put64 x" for x
    by (simp add: tfdt_box_def mk_box_def)
  have "(pre @ tfdt_box v @ post) ! (length pre + 8) = 1"
    by (simp add: b nth_append)
  moreover have "gslice (length pre + 12) (length pre + 20) (pre @ tfdt_box v @ post) = put64 v"
    by (simp add: b gslice_def)
  moreover have "put_at (length pre + 12) (put64 (v - base)) (pre @ tfdt_box v @ post) = pre @ tfdt_box (v - base) @ post"
    by (simp add: b put_at_def)
  ultimately show ?thesis
    using assms by (simp add: NormalizeTfdtBox_def Let_def)
qed

lemma tfhd_track:
  assumes "tf_track t \<noteq> 0"
  shows "TfhdTrackID (pre @ tfhd_box t @ post) (length pre) (length pre + (16 + length (tf_extra t))) = Some (tf_track t)"
proof -
  have "gslice (length pre + 12) (length pre + 16) (pre @ tfhd_box t @ post) = put32 (tf_track t)"
    by (simp add: tfhd_box_def mk_box_def gslice_def)
  then show ?thesis
    using assms by (simp add: TfhdTrackID_def)
qed

lemma traf_track_found:
  assumes "track_ok t" and "trafEnd > length pre"
  shows "traf_track (pre @ tfhd_box t @ post) (length pre) trafEnd = tf_track t"
proof -
  have "readBoxHeaderCode (pre @ tfhd_box t @ post) (length pre) =
      Some (16 + length (tf_extra t), boxTypeTfhd, 8)"
    using readBoxHeaderCode_mk [OF track_ok_fits(1) [OF assms(1)], of pre boxTypeTfhd post]
    by (simp add: tfhd_box_def)
  moreover have "tf_track t \<noteq> 0"
    using assms(1) by (simp add: track_ok_def)
  ultimately show ?thesis
    using tfhd_track [of t pre post] assms(2) by (simp add: traf_track.simps [of _ "length pre"])
qed

lemma traf_loop_skip:
  assumes "box_fits p" and "ty \<noteq> boxTypeTfdt" and "length pre < trafEnd"
  shows "traf_loop (pre @ mk_box ty p @ post) (length pre) trafEnd tid bases n =
    traf_loop (pre @ mk_box ty p @ post) (length pre + (8 + length p)) trafEnd tid bases n"
  using readBoxHeaderCode_mk [OF assms(1), of pre ty post] assms(2,3)
  by (simp add: traf_loop.simps [of _ "length pre"])

lemma traf_loop_tfdt:
  assumes "rebase bases tid v = (base, bases')" and "tid \<noteq> 0" and "length pre < trafEnd"
  shows "traf_loop (pre @ tfdt_box v @ post) (length pre) trafEnd tid bases n =
    traf_loop (pre @ tfdt_box (v - base) @ post) (length pre + 20) trafEnd tid bases' (Suc n)"
proof -
  have "readBoxHeaderCode (pre @ tfdt_box v @ post) (length pre) = Some (20, boxTypeTfdt, 8)"
    using readBoxHeaderCode_mk [of "[1, 0, 0, 0] @ put64 v" pre boxTypeTfdt post]
    by (simp add: tfdt_box_def box_fits_def)
  then show ?thesis
    using tfdt_normalize [OF assms(1,2), of pre post] assms(3)
    by (simp add: traf_loop.simps [of _ "length pre"])
qed

lemma traf_normalize:
  assumes "track_ok t" and r: "rebase bases (tf_track t) (tf_time t) = (base, bases')"
  shows "NormalizeTrafTfdt (pre @ traf_box t @ post) (length pre) (length pre + length (traf_box t)) bases =
    (1, pre @ traf_box (t\<lparr>tf_time := tf_time t - base\<rparr>) @ post, bases')"
proof -
  let ?t' = "t\<lparr>tf_time := tf_time t - base\<rparr>"
  define trun where "trun = mk_box 0x7472756e (tf_trun t)"
  define p where "p = pre @ put32 (of_nat (8 + length (traf_payload t)) :: u32) @ put32 boxTypeTraf"
  define q where "q = p @ tfhd_box t"
  define e where "e = length pre + length (traf_box t)"
  have len: "length (traf_payload ?t') = length (traf_payload t)"
    by (simp add: traf_payload_def tfhd_box_def)
  have b: "pre @ traf_box t @ post = p @ tfhd_box t @ tfdt_box (tf_time t) @ trun @ post"
    by (simp add: traf_box_def mk_box_def [of boxTypeTraf] traf_payload_def p_def trun_def)
  have b': "pre @ traf_box ?t' @ post = q @ tfdt_box (tf_time ?t') @ trun @ post"
    using len by (simp add: traf_box_def mk_box_def [of boxTypeTraf] p_def q_def trun_def)
      (simp add: traf_payload_def tfhd_box_def)
  have lp: "length p = length pre + 8" and lq: "length q = length p + (16 + length (tf_extra t))"
    by (simp_all add: p_def q_def)
  have lt: "length trun = 8 + length (tf_trun t)"
    by (simp add: trun_def)
  have e: "e = length q + 20 + length trun"
    by (simp add: e_def traf_box_def traf_payload_def lq lp lt)
  have tid: "tf_track t \<noteq> 0"
    using assms(1) by (simp add: track_ok_def)
  have 1: "traf_track (p @ tfhd_box t @ tfdt_box (tf_time t) @ trun @ post) (length p) e = tf_track t"
    by (rule traf_track_found [OF assms(1)]) (simp add: e lq)
  have 2: "traf_loop (p @ tfhd_box t @ tfdt_box (tf_time t) @ trun @ post) (length p) e (tf_track t) bases 0 =
      traf_loop (q @ tfdt_box (tf_time t) @ trun @ post) (length q) e (tf_track t) bases 0"
    using traf_loop_skip [OF track_ok_fits(1) [OF assms(1)], of boxTypeTfhd p e]
    by (simp add: tfhd_box_def box_types_distinct e lq q_def)
  have 3: "traf_loop (q @ tfdt_box (tf_time t) @ trun @ post) (length q) e (tf_track t) bases 0 =
      traf_loop (q @ tfdt_box (tf_time ?t') @ trun @ post) (length q + 20) e (tf_track t) bases' 1"
    using traf_loop_tfdt [OF r tid, of q e "trun @ post" 0] by (simp add: e)
  let ?s = "q @ tfdt_box (tf_time ?t')"
  have 4: "traf_loop (?s @ trun @ post) (length ?s) e (tf_track t) bases' 1 =
      traf_loop (?s @ trun @ post) e e (tf_track t) bases' 1"
    using traf_loop_skip [OF track_ok_fits(2) [OF assms(1)], of "0x7472756e" ?s e] lt
    by (simp add: box_types e trun_def add.assoc)
  have "traf_loop (p @ tfhd_box t @ tfdt_box (tf_time t) @ trun @ post) (length p) e (tf_track t) bases 0
      = (1, ?s @ trun @ post, bases')"
    using 2 3 4 by (simp add: traf_loop.simps [of _ e e])
  then show ?thesis
    unfolding NormalizeTrafTfdt_def Let_def b b' e_def [symmetric] lp [symmetric] using 1 tid by simp
qed

lemma traf_box_fits: "track_ok t \<Longrightarrow> box_fits (traf_payload t)"
  by (simp add: track_ok_def)

lemma traf_box_length: "length (traf_box (t\<lparr>tf_time := v\<rparr>)) = length (traf_box t)"
  by (simp add: traf_box_def traf_payload_def tfhd_box_def)

lemma moof_loop_tracks:
  assumes "\<forall>t \<in> set ts. track_ok t"
  shows "moof_loop (pre @ concat (map traf_box ts) @ post) (length pre)
      (length pre + length (concat (map traf_box ts))) bases n =
    (n + length ts, pre @ concat (map traf_box (fst (rebase_all bases ts))) @ post, snd (rebase_all bases ts))"
  using assms
proof (induction ts arbitrary: pre bases n)
  case Nil
  then show ?case by (simp add: moof_loop.simps)
next
  case (Cons t ts)
  obtain base bases' where r: "rebase bases (tf_track t) (tf_time t) = (base, bases')"
    by (metis surj_pair)
  let ?t' = "t\<lparr>tf_time := tf_time t - base\<rparr>" and ?rest = "concat (map traf_box ts) @ post"
  have ok: "track_ok t" using Cons.prems by simp
  have h: "readBoxHeaderCode (pre @ traf_box t @ ?rest) (length pre) =
      Some (length (traf_box t), boxTypeTraf, 8)"
    using readBoxHeaderCode_mk [OF traf_box_fits [OF ok], of pre boxTypeTraf ?rest]
    by (simp add: traf_box_def)
  have pos: "0 < length (traf_box t)"
    by (simp add: traf_box_def)
  have l: "length (traf_box ?t') = length (traf_box t)"
    by (rule traf_box_length)
  have ih: "moof_loop ((pre @ traf_box ?t') @ concat (map traf_box ts) @ post) (length (pre @ traf_box ?t'))
      (length (pre @ traf_box ?t') + length (concat (map traf_box ts))) bases' (n + 1) =
      (n + 1 + length ts, (pre @ traf_box ?t') @ concat (map traf_box (fst (rebase_all bases' ts))) @ post,
       snd (rebase_all bases' ts))"
    using Cons.prems by (intro Cons.IH) simp
  show ?case
    using h pos l traf_normalize [OF ok r, of pre ?rest] ih r
    by (simp add: moof_loop.simps [of _ "length pre"] case_prod_beta add.assoc)
qed

lemma moof_loop_skip:
  assumes "box_fits p" and "ty \<noteq> boxTypeTraf" and "length pre < e"
  shows "moof_loop (pre @ mk_box ty p @ post) (length pre) e bases n =
    moof_loop (pre @ mk_box ty p @ post) (length pre + (8 + length p)) e bases n"
  using readBoxHeaderCode_mk [OF assms(1), of pre ty post] assms(2,3)
  by (simp add: moof_loop.simps [of _ "length pre"])

lemma moof_payload_length:
  "length (moof_payload hdr (fst (rebase_all bases ts))) = length (moof_payload hdr ts)"
proof -
  have "length (concat (map traf_box (fst (rebase_all bases ts)))) = length (concat (map traf_box ts))"
    by (induction ts arbitrary: bases) (simp_all add: case_prod_beta traf_box_length)
  then show ?thesis by (simp add: moof_payload_def)
qed


definition sample_track :: "u64 \<Rightarrow> track_fragment" where
  "sample_track v = \<lparr>tf_track = 1, tf_extra = [], tf_time = v, tf_trun = [7]\<rparr>"


text \<open>Concatenated fragments keep their distances: after the first fragment of a track the
  decode times written grow exactly as the source's do, as long as the source never falls
  behind the base; the first one written is 0.\<close>

lemma rebase_keeps_distances:
  assumes "bases tid = None" and "v1 \<le> v2"
  shows "fst (rebase bases tid v1) = v1 \<and>
    v2 - fst (rebase (snd (rebase bases tid v1)) tid v2) = v2 - v1 \<and>
    snd (rebase (snd (rebase bases tid v1)) tid v2) tid = Some v1"
  using assms by (auto simp: rebase_def)

end
