(* ===== verification/HlsTs.thy ===== *)
theory HlsTs
  imports Prelude
begin

text \<open>
  The MPEG-TS continuity fixer (\<open>pkg/hls/ts_continuity_fixer.go\<close>): the four-bit continuity
  counter of every payload-bearing packet is made to follow the one before it on the same PID,
  across segment boundaries. The two arrays indexed by PID are functions; the bytes patched in
  place are returned.
\<close>

record TsContinuityFixer =
  cc_last :: "nat \<Rightarrow> byte"
  cc_seen :: "nat \<Rightarrow> bool"

definition tsPacketSize :: nat where "tsPacketSize = 188"

definition NewTsContinuityFixer :: TsContinuityFixer where
  "NewTsContinuityFixer = \<lparr>cc_last = (\<lambda>_. 0), cc_seen = (\<lambda>_. False)\<rparr>"

definition cc_Reset :: "TsContinuityFixer \<Rightarrow> TsContinuityFixer" where
  "cc_Reset f = f\<lparr>cc_seen := (\<lambda>_. False)\<rparr>"

text \<open>The fields of a packet header.\<close>

definition pkt_pid :: "bytes \<Rightarrow> nat" where
  "pkt_pid pkt = unat (drop_bit 8 (be32 (take 4 pkt)) AND 0x1FFF)"

definition pkt_afc :: "bytes \<Rightarrow> u32" where
  "pkt_afc pkt = drop_bit 4 (be32 (take 4 pkt)) AND 3"

definition pkt_cc :: "bytes \<Rightarrow> byte" where
  "pkt_cc pkt = ucast (be32 (take 4 pkt) AND 0xF)"

definition pkt_discontinuity :: "bytes \<Rightarrow> bool" where
  "pkt_discontinuity pkt =
    (pkt_afc pkt = 3 \<and> length pkt > 5 \<and> pkt ! 4 > 0 \<and> pkt ! 5 AND 0x80 \<noteq> 0)"

definition cc_set :: "nat \<Rightarrow> byte \<Rightarrow> TsContinuityFixer \<Rightarrow> TsContinuityFixer" where
  "cc_set pid cc f = f\<lparr>cc_last := (cc_last f)(pid := cc), cc_seen := (cc_seen f)(pid := True)\<rparr>"

text \<open>One packet: new state, patched packet and whether it was patched.\<close>

definition fix_packet :: "TsContinuityFixer \<Rightarrow> bytes \<Rightarrow> TsContinuityFixer \<times> bytes \<times> nat" where
  "fix_packet f pkt =
    (if pkt ! 0 \<noteq> 0x47 then (f, pkt, 0)
     else let pid = pkt_pid pkt; cc = pkt_cc pkt in
       if pkt_afc pkt = 0 \<or> pkt_afc pkt = 2 then (f, pkt, 0)
       else if pkt_discontinuity pkt then (cc_set pid cc f, pkt, 0)
       else let want = (cc_last f pid + 1) AND 0xF in
         if cc_seen f pid \<and> cc \<noteq> want
         then (cc_set pid want f, pkt[3 := (pkt ! 3 AND 0xF0) OR want], 1)
         else (cc_set pid cc f, pkt, 0))"

function FixSegment :: "TsContinuityFixer \<Rightarrow> bytes \<Rightarrow> TsContinuityFixer \<times> bytes \<times> nat" where
  "FixSegment f d =
    (if tsPacketSize \<le> length d then
       (case fix_packet f (take tsPacketSize d) of (f', pkt, k) \<Rightarrow>
        case FixSegment f' (drop tsPacketSize d) of (f'', rest, n) \<Rightarrow> (f'', pkt @ rest, k + n))
     else (f, d, 0))"
  by pat_completeness auto
termination
  by (relation "measure (\<lambda>(f, d). length d)") (auto simp: tsPacketSize_def)

declare FixSegment.simps [simp del]

section \<open>Patching a header\<close>

lemma fix_packet_length [simp]: "length (fst (snd (fix_packet f pkt))) = length pkt"
  by (simp add: fix_packet_def Let_def)

lemma be32_take4:
  "4 \<le> length pkt \<Longrightarrow> be32 (take 4 pkt) = be32 [pkt ! 0, pkt ! 1, pkt ! 2, pkt ! 3]"
  by (simp add: be32_def)

lemma nibble_bits:
  "bit (0xF :: int) n \<longleftrightarrow> n < 4" "bit (0xF0 :: int) n \<longleftrightarrow> 4 \<le> n \<and> n < 8"
proof -
  have e: "(0xF :: int) = mask 4" "(0xF0 :: int) = push_bit 4 (mask 4)"
    by (simp_all add: mask_eq_exp_minus_1 push_bit_eq_mult)
  show "bit (0xF :: int) n \<longleftrightarrow> n < 4"
    unfolding e by (simp only: bit_mask_iff) simp
  show "bit (0xF0 :: int) n \<longleftrightarrow> 4 \<le> n \<and> n < 8"
    unfolding e by (auto simp only: bit_push_bit_iff bit_mask_iff) simp_all
qed

lemma nibble_high: "want AND 0xF = want \<Longrightarrow> 4 \<le> n \<Longrightarrow> \<not> bit (want :: byte) n"
  using bit_and_iff [of want "0xF" n] by (simp add: nibble_bits)

lemma nibble_low: "want AND 0xF = want \<Longrightarrow> bit (want :: byte) n \<Longrightarrow> n < 4"
  using nibble_high [of want n] by linarith

lemma patched_header:
  assumes "want AND 0xF = want"
  shows "be32 [a, b, c, (d AND 0xF0) OR want] AND 0xF = ucast want"
    "drop_bit 4 (be32 [a, b, c, (d AND 0xF0) OR want]) = drop_bit 4 (be32 [a, b, c, d])"
proof -
  show "be32 [a, b, c, (d AND 0xF0) OR want] AND 0xF = ucast want"
    by (rule bit_word_eqI) (auto simp: be32_def bit_simps nibble_bits dest: nibble_high [OF assms] nibble_low [OF assms])
  show "drop_bit 4 (be32 [a, b, c, (d AND 0xF0) OR want]) = drop_bit 4 (be32 [a, b, c, d])"
    by (rule bit_word_eqI)
      (auto simp: be32_def bit_simps nibble_bits byte_high_bit nibble_high [OF assms])
qed

lemma patched_pkt:
  assumes "want AND 0xF = want" and "4 \<le> length pkt"
  defines "p' \<equiv> pkt[3 := (pkt ! 3 AND 0xF0) OR want]"
  shows "pkt_cc p' = want" "pkt_afc p' = pkt_afc pkt" "pkt_pid p' = pkt_pid pkt"
    "pkt_discontinuity p' = pkt_discontinuity pkt" "p' ! 0 = pkt ! 0"
proof -
  have e: "be32 (take 4 p') = be32 [pkt ! 0, pkt ! 1, pkt ! 2, (pkt ! 3 AND 0xF0) OR want]"
    using assms(2) by (simp add: p'_def be32_take4)
  have o': "be32 (take 4 pkt) = be32 [pkt ! 0, pkt ! 1, pkt ! 2, pkt ! 3]"
    using assms(2) by (rule be32_take4)
  note h = patched_header [OF assms(1), of "pkt ! 0" "pkt ! 1" "pkt ! 2" "pkt ! 3"]
  show "pkt_cc p' = want"
    unfolding pkt_cc_def e h by (rule bit_word_eqI) (auto simp: bit_simps)
  show afc: "pkt_afc p' = pkt_afc pkt"
    by (simp only: pkt_afc_def e o' h)
  have "drop_bit 4 (drop_bit 4 (be32 (take 4 p'))) = drop_bit 4 (drop_bit 4 (be32 (take 4 pkt)))"
    by (simp only: e o' h)
  then have "drop_bit 8 (be32 (take 4 p')) = drop_bit 8 (be32 (take 4 pkt))"
    by simp
  then show "pkt_pid p' = pkt_pid pkt"
    by (simp add: pkt_pid_def)
  show "pkt_discontinuity p' = pkt_discontinuity pkt"
    using afc by (simp add: pkt_discontinuity_def p'_def)
  show "p' ! 0 = pkt ! 0"
    by (simp add: p'_def)
qed

lemma and_nibble_idem: "((x :: byte) AND 0xF) AND 0xF = x AND 0xF"
  by (simp add: and.assoc)

text \<open>The packet produced is one that the fixer leaves alone, with the same effect on its state.\<close>

lemma fix_packet_stable:
  assumes "4 \<le> length pkt" and "fix_packet f pkt = (f', p', k)"
  shows "fix_packet f p' = (f', p', 0)"
proof (cases "k = 0")
  case True
  then have "p' = pkt"
    using assms(2) by (auto simp: fix_packet_def Let_def split: if_splits)
  with True assms(2) show ?thesis by simp
next
  case False
  define want where "want = (cc_last f (pkt_pid pkt) + 1) AND 0xF"
  have w: "want AND 0xF = want"
    unfolding want_def by (rule and_nibble_idem)
  have c: "pkt ! 0 = 0x47" "\<not> (pkt_afc pkt = 0 \<or> pkt_afc pkt = 2)" "\<not> pkt_discontinuity pkt"
      "f' = cc_set (pkt_pid pkt) want f" "p' = pkt[3 := (pkt ! 3 AND 0xF0) OR want]"
    using assms(2) False by (auto simp: fix_packet_def Let_def want_def split: if_splits)
  note pp = patched_pkt [OF w assms(1)]
  have p': "p' ! 0 = 0x47" "\<not> (pkt_afc p' = 0 \<or> pkt_afc p' = 2)" "\<not> pkt_discontinuity p'"
      "pkt_pid p' = pkt_pid pkt" "pkt_cc p' = want"
    using pp c by simp_all
  have "(cc_last f (pkt_pid p') + 1) AND 0xF = want"
    by (simp only: p'(4) want_def)
  with p' c(4) show ?thesis
    by (simp add: fix_packet_def Let_def)
qed

text \<open>Bytes other than the fourth of a packet are kept, and the high half of that one too.\<close>

lemma fix_packet_bytes:
  assumes "fix_packet f pkt = (f', p', k)" and "4 \<le> length pkt"
  shows "(i \<noteq> 3 \<longrightarrow> p' ! i = pkt ! i) \<and> p' ! 3 AND 0xF0 = pkt ! 3 AND 0xF0"
proof (cases "k = 0")
  case True
  then show ?thesis
    using assms(1) by (auto simp: fix_packet_def Let_def split: if_splits)
next
  case False
  define want where "want = (cc_last f (pkt_pid pkt) + 1) AND 0xF"
  have p': "p' = pkt[3 := (pkt ! 3 AND 0xF0) OR want]"
    using assms(1) False by (auto simp: fix_packet_def Let_def want_def split: if_splits)
  have "((d AND 0xF0) OR want) AND 0xF0 = d AND 0xF0" for d
    by (rule bit_word_eqI) (auto simp: bit_simps nibble_bits want_def)
  then show ?thesis
    using p' assms(2) by simp
qed

lemma FixSegment_step:
  "188 \<le> length d \<Longrightarrow> FixSegment f d =
    (fst (FixSegment (fst (fix_packet f (take 188 d))) (drop 188 d)),
     fst (snd (fix_packet f (take 188 d))) @ fst (snd (FixSegment (fst (fix_packet f (take 188 d))) (drop 188 d))),
     snd (snd (fix_packet f (take 188 d))) + snd (snd (FixSegment (fst (fix_packet f (take 188 d))) (drop 188 d))))"
  by (subst FixSegment.simps) (simp add: tsPacketSize_def case_prod_beta)

lemma FixSegment_short: "length d < 188 \<Longrightarrow> FixSegment f d = (f, d, 0)"
  by (subst FixSegment.simps) (simp add: tsPacketSize_def)

lemma FixSegment_induct [case_names short packet]:
  assumes "\<And>f d. length d < 188 \<Longrightarrow> P f d"
    and "\<And>f d. 188 \<le> length d \<Longrightarrow> P (fst (fix_packet f (take 188 d))) (drop 188 d) \<Longrightarrow> P f d"
  shows "P f d"
proof (induction "length d" arbitrary: f d rule: less_induct)
  case less
  then show ?case
    using assms by (cases "length d < 188") auto
qed

lemma FixSegment_length: "length (fst (snd (FixSegment f d))) = length d"
  by (induction f d rule: FixSegment_induct) (simp_all add: FixSegment_short FixSegment_step)

section \<open>Properties\<close>


text \<open>The fixer changes nothing but continuity counters: the length, every byte that is not
  the fourth of a packet, and the high half of that byte are those of the input.\<close>

lemma ts_segment_only_counters:
  assumes "i < length d"
  shows "length (fst (snd (FixSegment f d))) = length d \<and>
    (i mod 188 \<noteq> 3 \<longrightarrow> fst (snd (FixSegment f d)) ! i = d ! i) \<and>
    fst (snd (FixSegment f d)) ! i AND 0xF0 = d ! i AND 0xF0"
  using assms
proof (induction f d arbitrary: i rule: FixSegment_induct)
  case (short f d)
  then show ?case by (simp add: FixSegment_short)
next
  case (packet f d)
  obtain f' p' k where p: "fix_packet f (take 188 d) = (f', p', k)"
    by (metis prod_cases3)
  have l: "length p' = 188"
    using fix_packet_length [of f "take 188 d"] p packet(1) by simp
  let ?r = "fst (snd (FixSegment f' (drop 188 d)))"
  have s: "fst (snd (FixSegment f d)) = p' @ ?r"
    using p packet(1) by (simp add: FixSegment_step)
  show ?case
  proof (cases "i < 188")
    case True
    have "(i \<noteq> 3 \<longrightarrow> p' ! i = take 188 d ! i) \<and> p' ! 3 AND 0xF0 = take 188 d ! 3 AND 0xF0"
      using fix_packet_bytes [OF p] packet(1) by simp
    then show ?thesis
      using s l True packet(1) FixSegment_length [of f d] by (cases "i = 3") (auto simp: nth_append)
  next
    case False
    then have "i - 188 < length (drop 188 d)" and "(i - 188) mod 188 = i mod 188"
      using packet(3) by (simp_all add: le_mod_geq)
    with packet(2) [of "i - 188"] p s l False packet(1) FixSegment_length [of f d] show ?thesis
      by (simp add: nth_append)
  qed
qed

lemma ts_segment_only_counters_witness:
  "fst (snd (FixSegment NewTsContinuityFixer [0x47, 0, 0, 0x17])) ! 3 AND 0xF0 = (0x10 :: byte)"
  using ts_segment_only_counters [of 3 "[0x47, 0, 0, 0x17]" NewTsContinuityFixer] by simp

end
