(* ===== verification/HlsProcessors.thy ===== *)
theory HlsProcessors
  imports Mp4 HlsTs Pipeline
begin

text \<open>
  The processors of the HLS pipelines (\<open>internal/processors\<close>): removal of re-downloaded
  segments (\<open>segment_dedup.go\<close>), the fMP4 box guard, timestamp normaliser and init writer
  (\<open>fmp4_box_guard.go\<close>, \<open>fmp4_timestamp_normalizer.go\<close>, \<open>fmp4_init_writer.go\<close>), the
  processor around the TS continuity fixer, and how the two HLS strategies compose them and
  react to errors (\<open>internal/record_strategies/hls_fmp4.go\<close>, \<open>hls_ts.go\<close>). The strategy's
  shared base times and last init, which the code passes by pointer, are fields of the world.
  \<open>crypto/sha256\<close> is a parameter \<open>sha\<close> of the definitions that use it.
\<close>

section \<open>Segment deduplication\<close>

text \<open>The eight-byte arrays keep the bytes of earlier, longer segments beyond those copied.\<close>

record 'h SegmentDedup =
  dd_lastLen :: nat
  dd_lastHead :: bytes
  dd_lastTail :: bytes
  dd_lastHash :: "'h option"
  dd_hasLast :: bool

definition NewSegmentDedup :: "'h SegmentDedup" where
  "NewSegmentDedup = \<lparr>dd_lastLen = 0, dd_lastHead = replicate 8 0, dd_lastTail = replicate 8 0,
     dd_lastHash = None, dd_hasLast = False\<rparr>"

definition fingerprintMatches :: "'h SegmentDedup \<Rightarrow> bytes \<Rightarrow> bool" where
  "fingerprintMatches p d =
    (let n = length d; k = min n 8 in
     n = dd_lastLen p \<and> take k d = take k (dd_lastHead p) \<and> drop (n - k) d = take k (dd_lastTail p))"

definition updateFingerprint :: "bytes \<Rightarrow> 'h SegmentDedup \<Rightarrow> 'h SegmentDedup" where
  "updateFingerprint d p =
    (let n = length d; k = min n 8 in
     p\<lparr>dd_lastLen := n, dd_lastHead := take k d @ drop k (dd_lastHead p),
       dd_lastTail := drop (n - k) d @ drop k (dd_lastTail p), dd_hasLast := True\<rparr>)"

text \<open>A nil result is the empty item.\<close>

definition dedup_Process :: "(bytes \<Rightarrow> 'h) \<Rightarrow> 'h SegmentDedup \<Rightarrow> bytes \<Rightarrow> bytes \<times> 'h SegmentDedup" where
  "dedup_Process sha p d =
    (if length d = 0 then (d, p)
     else if dd_hasLast p \<and> \<not> fingerprintMatches p d then (d, updateFingerprint d p)
     else let sum = sha d in
       if dd_hasLast p \<and> dd_lastHash p = Some sum then ([], p)
       else (d, updateFingerprint d (p\<lparr>dd_lastHash := Some sum\<rparr>)))"

fun dedup_run :: "(bytes \<Rightarrow> 'h) \<Rightarrow> 'h SegmentDedup \<Rightarrow> bytes list \<Rightarrow> bytes list" where
  "dedup_run sha p [] = []"
| "dedup_run sha p (d # ds) = (case dedup_Process sha p d of (b, p') \<Rightarrow> b # dedup_run sha p' ds)"

section \<open>The box guard\<close>

record fmp4_state =
  fm_bases :: "u32 \<rightharpoonup> u64"
  fm_lastInit :: bytes
  fm_seenMedia :: bool
  fm_pendingInit :: bytes
  fm_written :: bool

datatype fmp4_error = Fmp4Discontinuity bytes

definition guard_Open :: "fmp4_state \<Rightarrow> fmp4_state" where
  "guard_Open s = s\<lparr>fm_seenMedia := False\<rparr>"

definition box_ftyp :: bytes where "box_ftyp = [0x66, 0x74, 0x79, 0x70]"
definition box_styp :: bytes where "box_styp = [0x73, 0x74, 0x79, 0x70]"
definition box_moof :: bytes where "box_moof = [0x6d, 0x6f, 0x6f, 0x66]"

definition guard_Process :: "fmp4_state \<Rightarrow> bytes \<Rightarrow> bytes \<times> fmp4_error option \<times> fmp4_state" where
  "guard_Process s d =
    (if length d = 0 then (d, None, s)
     else if length d < 8 then ([], None, s)
     else let boxType = gslice 4 8 d;
              check = (\<lambda>s. if ReadBoxHeader d 0 = None then ([], None, s) else (d, None, s)) in
       if boxType = box_ftyp then
         (if fm_seenMedia s then
            (if length (fm_lastInit s) > 0 \<and> d = fm_lastInit s then ([], None, s)
             else ([], Some (Fmp4Discontinuity d), s\<lparr>fm_lastInit := d\<rparr>))
          else check (s\<lparr>fm_lastInit := d\<rparr>))
       else if boxType = box_styp \<or> boxType = box_moof then check (s\<lparr>fm_seenMedia := True\<rparr>)
       else ([], None, s))"

section \<open>Normaliser and init writer\<close>

definition normalizer_Process :: "fmp4_state \<Rightarrow> bytes \<Rightarrow> bytes \<times> fmp4_error option \<times> fmp4_state" where
  "normalizer_Process s d =
    (if length d = 0 then (d, None, s)
     else case NormalizeFragmentTimestamps d (fm_bases s) of (n, d', bases) \<Rightarrow>
       (d', None, s\<lparr>fm_bases := bases\<rparr>))"

definition init_writer_Open :: "fmp4_state \<Rightarrow> fmp4_state" where
  "init_writer_Open s = s\<lparr>fm_written := False\<rparr>"

definition init_writer_Process :: "fmp4_state \<Rightarrow> bytes \<Rightarrow> bytes \<times> fmp4_error option \<times> fmp4_state" where
  "init_writer_Process s d =
    (if length d = 0 then (d, None, s)
     else if fm_written s \<or> length (fm_pendingInit s) = 0 then (d, None, s)
     else (fm_pendingInit s @ d, None, s\<lparr>fm_written := True\<rparr>))"

definition ts_fixer_Process :: "TsContinuityFixer \<Rightarrow> bytes \<Rightarrow> bytes \<times> TsContinuityFixer" where
  "ts_fixer_Process f d = (case FixSegment f d of (f', d', patched) \<Rightarrow> (d', f'))"

section \<open>Strategies\<close>

text \<open>\<open>BuildPipeline\<close> and \<open>Open\<close> of the fMP4 strategy, and its \<open>HandleErr\<close>: a discontinuity
  starts a new file with the new init in front and fresh base times.\<close>

definition fmp4_Build :: "bytes \<Rightarrow> fmp4_state \<Rightarrow> fmp4_state" where
  "fmp4_Build pendingInit s =
    init_writer_Open (guard_Open (s\<lparr>fm_pendingInit := pendingInit\<rparr>))"

definition fmp4_HandleErr :: "fmp4_error \<Rightarrow> fmp4_state \<Rightarrow> bytes option \<times> fmp4_state" where
  "fmp4_HandleErr e s = (case e of Fmp4Discontinuity initSeg \<Rightarrow> (Some initSeg, s\<lparr>fm_bases := Map.empty\<rparr>))"

text \<open>Guard, normaliser and init writer on one segment; the pipe stops at an error.\<close>

definition fmp4_segment :: "fmp4_state \<Rightarrow> bytes \<Rightarrow> bytes \<times> fmp4_error option \<times> fmp4_state" where
  "fmp4_segment s d =
    (case guard_Process s d of
       (b, Some e, s') \<Rightarrow> (d, Some e, s')
     | (b, None, s') \<Rightarrow>
        (case normalizer_Process s' b of (b', _, s'') \<Rightarrow> init_writer_Process s'' b'))"

text \<open>The segments of one file, up to the first error.\<close>

fun fmp4_file :: "fmp4_state \<Rightarrow> bytes list \<Rightarrow> bytes list \<times> (fmp4_error \<times> bytes list) option \<times> fmp4_state" where
  "fmp4_file s [] = ([], None, s)"
| "fmp4_file s (d # ds) =
    (case fmp4_segment s d of
       (b, Some e, s') \<Rightarrow> ([], Some (e, ds), s')
     | (b, None, s') \<Rightarrow> (case fmp4_file s' ds of (bs, r, s'') \<Rightarrow> (b # bs, r, s'')))"

section \<open>Deduplication properties\<close>

lemma fingerprint_update: "fingerprintMatches (updateFingerprint d p) d"
  by (simp add: fingerprintMatches_def updateFingerprint_def Let_def)

text \<open>What the state remembers: \<open>seen\<close> are the segments that have passed; the hash is that of
  one of them.\<close>

definition dedup_state_ok :: "(bytes \<Rightarrow> 'h) \<Rightarrow> bytes set \<Rightarrow> 'h SegmentDedup \<Rightarrow> bool" where
  "dedup_state_ok sha seen p =
    (case dd_lastHash p of None \<Rightarrow> True | Some h \<Rightarrow> \<exists>d \<in> seen. h = sha d)"

lemma dedup_Process_ok:
  assumes "dedup_state_ok sha seen p" and "dedup_Process sha p d = (b, p')" and "inj sha"
  shows "dedup_state_ok sha (insert d seen) p' \<and> (b = d \<or> b = [] \<and> d \<in> seen)"
  using assms
  by (auto simp: dedup_Process_def dedup_state_ok_def updateFingerprint_def Let_def
      dest: injD split: if_splits option.splits)

lemma dedup_run_sound:
  assumes "inj sha"
  shows "dedup_state_ok sha seen p \<Longrightarrow>
    \<forall>i < length ds. dedup_run sha p ds ! i = ds ! i \<or>
      dedup_run sha p ds ! i = [] \<and> ds ! i \<in> seen \<union> set (take i ds)"
proof (induction ds arbitrary: p seen)
  case (Cons d ds)
  obtain b p' where p: "dedup_Process sha p d = (b, p')"
    by (metis surj_pair)
  have "dedup_state_ok sha (insert d seen) p'" and b: "b = d \<or> b = [] \<and> d \<in> seen"
    using dedup_Process_ok [OF Cons.prems p assms] by blast+
  from Cons.IH [OF this(1)] b show ?case
    by (auto simp: p less_Suc_eq_0_disj)
qed simp

lemma dedup_run_length: "length (dedup_run sha p ds) = length ds"
  by (induction ds arbitrary: p) (simp_all split: prod.split)

text \<open>No content is lost to deduplication: with a collision-free hash every segment is
  either passed on unchanged or has been passed on before in the same file.\<close>

lemma dedup_drops_only_repeats:
  assumes "inj sha" and "i < length ds"
  shows "dedup_run sha NewSegmentDedup ds ! i = ds ! i \<or>
    dedup_run sha NewSegmentDedup ds ! i = [] \<and> ds ! i \<in> set (take i ds)"
  using dedup_run_sound [OF assms(1), of "{}" NewSegmentDedup ds] assms(2)
  by (simp add: dedup_state_ok_def NewSegmentDedup_def)

lemma dedup_drops_only_repeats_witness:
  "dedup_run (\<lambda>d. d) NewSegmentDedup [[1, 2], [1, 2]] ! 1 = [1, 2] \<or>
   dedup_run (\<lambda>d. d) NewSegmentDedup [[1, 2], [1, 2]] ! 1 = [] \<and> [1, 2] \<in> set [[1, 2 :: byte]]"
  using dedup_drops_only_repeats [of "\<lambda>d. d" 1 "[[1, 2], [1, 2]]"] by (simp add: inj_def)

text \<open>The hash kept is that of the last segment hashed, not of the last segment: with the
  segments A, B, B the repeated B is not dropped, and with A, B, C, A, where C has the length
  and the first and last eight bytes of A, the final A is dropped although the segment before
  it is C.\<close>

lemma dedup_hash_is_stale:
  "dedup_run (\<lambda>d. d) NewSegmentDedup [[1], [2], [2]] = [[1], [2], [2]] \<and>
   dedup_run (\<lambda>d. d) NewSegmentDedup
     [replicate 17 0, [2], (replicate 17 0)[8 := 1], replicate 17 0] =
     [replicate 17 0, [2], (replicate 17 0)[8 := 1], []]"
  by (simp add: NewSegmentDedup_def dedup_Process_def fingerprintMatches_def updateFingerprint_def
      Let_def numeral_eq_Suc)

section \<open>Guard properties\<close>

definition is_media :: "bytes \<Rightarrow> bool" where
  "is_media d = (gslice 4 8 d = box_styp \<or> gslice 4 8 d = box_moof)"

definition is_init :: "bytes \<Rightarrow> bool" where
  "is_init d = (gslice 4 8 d = box_ftyp)"

lemma init_not_media: "is_init d \<Longrightarrow> \<not> is_media d"
  by (auto simp: is_init_def is_media_def box_ftyp_def box_styp_def box_moof_def)

fun guard_run :: "fmp4_state \<Rightarrow> bytes list \<Rightarrow> bytes list \<times> (fmp4_error \<times> bytes list) option" where
  "guard_run s [] = ([], None)"
| "guard_run s (d # ds) =
    (case guard_Process s d of
       (b, Some e, s') \<Rightarrow> ([], Some (e, ds))
     | (b, None, s') \<Rightarrow> (case guard_run s' ds of (bs, r) \<Rightarrow> (b # bs, r)))"

lemma guard_Process_result:
  assumes "guard_Process s d = (b, e, s')"
  shows "(b = [] \<or> b = d \<and> (is_media d \<and> fm_seenMedia s' \<or> is_init d \<and> \<not> fm_seenMedia s)) \<and>
    (fm_seenMedia s \<longrightarrow> fm_seenMedia s') \<and>
    (\<forall>x. e = Some x \<longrightarrow> x = Fmp4Discontinuity d \<and> is_init d \<and> fm_seenMedia s \<and> d \<noteq> fm_lastInit s)"
  using assms
  by (auto simp: guard_Process_def is_media_def is_init_def Let_def split: if_splits)

lemma guard_run_after_media:
  "guard_run s ds = (bs, r) \<Longrightarrow> fm_seenMedia s \<Longrightarrow> b \<in> set bs \<Longrightarrow> b = [] \<or> is_media b"
proof (induction ds arbitrary: s bs)
  case (Cons d ds)
  obtain c e s' where p: "guard_Process s d = (c, e, s')"
    by (metis prod_cases3)
  show ?case
  proof (cases e)
    case None
    then obtain cs where "guard_run s' ds = (cs, r)" "bs = c # cs"
      using Cons.prems(1) p by (auto split: prod.splits)
    with guard_Process_result [OF p] Cons.prems Cons.IH [of s' cs] show ?thesis
      by auto
  next
    case (Some x)
    with Cons.prems p show ?thesis by auto
  qed
qed simp

text \<open>A file has its init segments in front: in what the guard lets through, no init
  segment comes after a media segment; everything behind the first media segment is media.\<close>

lemma guard_init_before_media:
  assumes "guard_run s ds = (xs @ m # ys, r)" and "is_media m" and "b \<in> set ys"
  shows "b = [] \<or> is_media b"
  using assms
proof (induction ds arbitrary: s xs)
  case Nil
  then show ?case by simp
next
  case (Cons d ds)
  obtain c e s' where p: "guard_Process s d = (c, e, s')"
    by (metis prod_cases3)
  have "e = None"
    using Cons.prems(1) p by (cases e) auto
  then obtain cs where cs: "guard_run s' ds = (cs, r)" "xs @ m # ys = c # cs"
    using Cons.prems(1) p by (auto split: prod.splits)
  show ?case
  proof (cases xs)
    case Nil
    have "m \<noteq> []"
      using Cons.prems(2) by (auto simp: is_media_def gslice_def box_styp_def box_moof_def)
    then have "fm_seenMedia s'"
      using guard_Process_result [OF p] cs(2) Nil Cons.prems(2) init_not_media by auto
    then show ?thesis
      using guard_run_after_media [OF cs(1)] cs(2) Nil Cons.prems(3) by simp
  next
    case (Cons x xs')
    then show ?thesis
      using Cons.IH [of s' xs'] cs Cons.prems(2,3) by simp
  qed
qed

definition sample_moof :: bytes where "sample_moof = [0, 0, 0, 8] @ box_moof"
definition sample_ftyp :: bytes where "sample_ftyp = [0, 0, 0, 8] @ box_ftyp"

definition fresh_fmp4 :: fmp4_state where
  "fresh_fmp4 = \<lparr>fm_bases = Map.empty, fm_lastInit = [], fm_seenMedia = False, fm_pendingInit = [],
     fm_written = False\<rparr>"

lemma sample_guard:
  "guard_run fresh_fmp4 [sample_ftyp, sample_moof, sample_ftyp] = ([sample_ftyp, sample_moof, []], None)"
  by (simp add: guard_Process_def fresh_fmp4_def sample_moof_def sample_ftyp_def box_ftyp_def box_styp_def
      box_moof_def gslice_def ReadBoxHeader_def readBoxHeaderCode_def be32_def Let_def)

lemma guard_init_before_media_witness:
  "guard_run fresh_fmp4 [sample_ftyp, sample_moof, sample_ftyp] = ([sample_ftyp] @ sample_moof # [[]], None)
   \<and> ([] = ([] :: bytes) \<or> is_media [])"
  using guard_init_before_media [of fresh_fmp4 "[sample_ftyp, sample_moof, sample_ftyp]" "[sample_ftyp]"
      sample_moof "[[]]" None "[]"] sample_guard
  by (simp add: is_media_def sample_moof_def gslice_def box_moof_def)

text \<open>A rotated fMP4 file is playable on its own: what is written to it begins with the init
  segment that caused the rotation.\<close>

lemma rotated_fmp4_starts_with_init:
  assumes "fmp4_file (fmp4_Build initSeg s) ds = (bs, r, s')"
  shows "concat bs = [] \<or> take (length initSeg) (concat bs) = initSeg"
proof -
  have seg: "(b = [] \<and> \<not> fm_written s2 \<and> fm_pendingInit s2 = fm_pendingInit s1) \<or>
      (\<exists>x. b = fm_pendingInit s1 @ x)"
    if "fmp4_segment s1 d = (b, None, s2)" "\<not> fm_written s1" for s1 d b s2
    using that
    by (auto simp: fmp4_segment_def guard_Process_def normalizer_Process_def init_writer_Process_def Let_def
        split: if_splits prod.splits option.splits)
  have "concat bs = [] \<or> (\<exists>x. concat bs = fm_pendingInit s1 @ x)"
    if "fmp4_file s1 ds = (bs, r, s')" "\<not> fm_written s1" for s1 bs
    using that
  proof (induction ds arbitrary: s1 bs)
    case (Cons d ds)
    obtain b e s2 where p: "fmp4_segment s1 d = (b, e, s2)"
      by (metis prod_cases3)
    show ?case
    proof (cases e)
      case None
      then obtain cs where cs: "fmp4_file s2 ds = (cs, r, s')" "bs = b # cs"
        using Cons.prems(1) p by (auto split: prod.splits)
      from seg [OF p [unfolded None] Cons.prems(2)] Cons.IH [OF cs(1)] cs(2) show ?thesis
        by auto
    next
      case (Some x)
      with Cons.prems(1) p show ?thesis by auto
    qed
  qed simp
  from this [OF assms] show ?thesis
    by (auto simp: fmp4_Build_def guard_Open_def init_writer_Open_def)
qed

lemma rotated_fmp4_starts_with_init_witness:
  "take 3 (concat (fst (fmp4_file (fmp4_Build [7, 8, 9] fresh_fmp4) [sample_moof]))) = [7, 8, 9]"
proof -
  obtain bs r s' where f: "fmp4_file (fmp4_Build [7, 8, 9] fresh_fmp4) [sample_moof] = (bs, r, s')"
    by (metis prod_cases3)
  obtain n d' b' where n: "NormalizeFragmentTimestamps sample_moof Map.empty = (n, d', b')"
    by (metis prod_cases3)
  have "d' \<noteq> []"
    using NormalizeFragmentTimestamps_length [of sample_moof Map.empty] n by (auto simp: sample_moof_def)
  moreover have "guard_Process (fmp4_Build [7, 8, 9] fresh_fmp4) sample_moof =
      (sample_moof, None, (fmp4_Build [7, 8, 9] fresh_fmp4)\<lparr>fm_seenMedia := True\<rparr>)"
    by (simp add: guard_Process_def sample_moof_def box_ftyp_def box_styp_def box_moof_def gslice_def
        ReadBoxHeader_def readBoxHeaderCode_def be32_def Let_def)
  moreover have "sample_moof \<noteq> []"
    by (simp add: sample_moof_def)
  ultimately have "concat bs \<noteq> []"
    using f n by (auto simp: fmp4_Build_def guard_Open_def init_writer_Open_def fmp4_segment_def
        fresh_fmp4_def normalizer_Process_def init_writer_Process_def)
  then show ?thesis
    using rotated_fmp4_starts_with_init [OF f] unfolding f by (auto simp: numeral_eq_Suc)
qed

end
