(* ===== verification/HlsSettle.thy ===== *)
theory HlsSettle
  imports Prelude "HOL-Library.Multiset"
begin

text \<open>
  Hold-and-settle of changed fMP4 init segments (\<open>pkg/hls/fmp4_init_settle.go\<close>). Buffers are
  identified with their contents; \<open>is_released\<close> is the log of the buffers given back through
  the \<open>Release\<close> hook, in order. Logging is left out.

  The events of the hold form a step relation \<open>settle_step\<close>; its invariant says which init
  the buffered media belong to.
\<close>

section \<open>State and operations\<close>

record InitSettle =
  is_confirmed :: bytes
  is_active :: bool
  is_pending :: bytes
  is_buf :: "bytes list"
  is_released :: "bytes list"

definition NewInitSettle :: InitSettle where
  "NewInitSettle = \<lparr>is_confirmed = [], is_active = False, is_pending = [], is_buf = [], is_released = []\<rparr>"

text \<open>\<open>DefaultFmp4InitDebounceWindow\<close> in milliseconds, and the effective window.\<close>

definition settle_window :: "int \<Rightarrow> int" where
  "settle_window window = (if window > 0 then window else 2000)"

definition settle_release :: "bytes \<Rightarrow> InitSettle \<Rightarrow> InitSettle" where
  "settle_release b s = s\<lparr>is_released := is_released s @ [b]\<rparr>"

definition dropBuf :: "InitSettle \<Rightarrow> InitSettle" where
  "dropBuf s = (if length (is_buf s) = 0 then s
     else (fold settle_release (is_buf s) s)\<lparr>is_buf := []\<rparr>)"

definition settle_cancel :: "InitSettle \<Rightarrow> InitSettle" where
  "settle_cancel s =
    (if \<not> is_active s then s
     else let s1 = (dropBuf s)\<lparr>is_active := False\<rparr>
          in (settle_release (is_pending s1) s1)\<lparr>is_pending := []\<rparr>)"

definition settle_Reset :: "InitSettle \<Rightarrow> InitSettle" where
  "settle_Reset s = (settle_cancel s)\<lparr>is_confirmed := []\<rparr>"

definition BufferMedia :: "bytes \<Rightarrow> InitSettle \<Rightarrow> InitSettle" where
  "BufferMedia d s = (if \<not> is_active s then s else s\<lparr>is_buf := is_buf s @ [d]\<rparr>)"

record AcceptMapResult =
  am_DeliverNow :: "bytes option"
  am_ArmTimer :: bool
  am_StopTimer :: bool

definition AcceptMap :: "bytes \<Rightarrow> InitSettle \<Rightarrow> AcceptMapResult \<times> InitSettle" where
  "AcceptMap mapData s =
    (if is_active s then
       if length (is_confirmed s) > 0 \<and> mapData = is_confirmed s then
         (\<lparr>am_DeliverNow = None, am_ArmTimer = False, am_StopTimer = True\<rparr>,
          settle_release mapData (settle_cancel s))
       else if mapData = is_pending s then
         (\<lparr>am_DeliverNow = None, am_ArmTimer = True, am_StopTimer = False\<rparr>, settle_release mapData s)
       else
         (\<lparr>am_DeliverNow = None, am_ArmTimer = True, am_StopTimer = False\<rparr>,
          (let s1 = dropBuf s in (settle_release (is_pending s1) s1)\<lparr>is_pending := mapData\<rparr>))
     else if length (is_confirmed s) > 0 \<and> mapData = is_confirmed s then
       (\<lparr>am_DeliverNow = None, am_ArmTimer = False, am_StopTimer = False\<rparr>, settle_release mapData s)
     else if length (is_confirmed s) = 0 then
       (\<lparr>am_DeliverNow = Some mapData, am_ArmTimer = False, am_StopTimer = False\<rparr>,
        s\<lparr>is_confirmed := mapData\<rparr>)
     else
       (\<lparr>am_DeliverNow = None, am_ArmTimer = True, am_StopTimer = False\<rparr>,
        s\<lparr>is_pending := mapData, is_active := True, is_buf := []\<rparr>))"

text \<open>A nil init is \<open>None\<close>.\<close>

definition Settle :: "InitSettle \<Rightarrow> bytes option \<times> bytes list \<times> InitSettle" where
  "Settle s =
    (if \<not> is_active s then (None, [], s)
     else (Some (is_pending s), is_buf s,
       s\<lparr>is_active := False, is_pending := [], is_buf := [], is_confirmed := is_pending s\<rparr>))"

section \<open>Accounting for buffers\<close>

lemma release_fold:
  "fold settle_release bs s = s\<lparr>is_released := is_released s @ bs\<rparr>"
  by (induction bs arbitrary: s) (simp_all add: settle_release_def)

lemma dropBuf_eq: "dropBuf s = s\<lparr>is_released := is_released s @ is_buf s, is_buf := []\<rparr>"
  by (simp add: dropBuf_def release_fold)

text \<open>The buffers the settle owns: none when it is inactive.\<close>

definition settle_held :: "InitSettle \<Rightarrow> bytes multiset" where
  "settle_held s = (if is_active s then {#is_pending s#} + mset (is_buf s) else {#})"

definition settle_inv :: "InitSettle \<Rightarrow> bool" where
  "settle_inv s = (is_active s \<or> is_buf s = [])"

lemmas settle_defs = settle_held_def settle_cancel_def settle_release_def dropBuf_eq Let_def

lemma settle_cancel_held:
  "mset (is_released (settle_cancel s)) + settle_held (settle_cancel s) = mset (is_released s) + settle_held s"
  by (simp add: settle_defs)

section \<open>The hold as a transition system\<close>

datatype settle_event = EvMap bytes | EvMedia bytes | EvCancel | EvReset | EvSettle

text \<open>Media that arrive while nothing is held go straight to the consumer.\<close>

inductive settle_step :: "InitSettle \<Rightarrow> settle_event \<Rightarrow> bytes list \<Rightarrow> InitSettle \<Rightarrow> bool" where
  Map: "AcceptMap m s = (r, s') \<Longrightarrow>
    settle_step s (EvMap m) (case am_DeliverNow r of None \<Rightarrow> [] | Some d \<Rightarrow> [d]) s'"
| Hold: "is_active s \<Longrightarrow> settle_step s (EvMedia d) [] (BufferMedia d s)"
| Pass: "\<not> is_active s \<Longrightarrow> settle_step s (EvMedia d) [d] s"
| Cancel: "settle_step s EvCancel [] (settle_cancel s)"
| Reset: "settle_step s EvReset [] (settle_Reset s)"
| Settle: "Settle s = (i, media, s') \<Longrightarrow>
    settle_step s EvSettle ((case i of None \<Rightarrow> [] | Some d \<Rightarrow> [d]) @ media) s'"

inductive_cases settle_step_MapE: "settle_step s (EvMap m) out s'"
inductive_cases settle_step_MediaE: "settle_step s (EvMedia d) out s'"
inductive_cases settle_step_SettleE: "settle_step s EvSettle out s'"

code_pred (modes: i \<Rightarrow> i \<Rightarrow> o \<Rightarrow> o \<Rightarrow> bool) settle_step .

definition event_input :: "settle_event \<Rightarrow> bytes multiset" where
  "event_input ev = (case ev of EvMap m \<Rightarrow> {#m#} | EvMedia d \<Rightarrow> {#d#} | _ \<Rightarrow> {#})"

text \<open>Every buffer handed in is accounted for, once: what comes in with an event, what was
  held and what had been released equals what is delivered, what is then held and what is then
  released. Nothing leaks, nothing is released twice or delivered after its release.\<close>

lemma settle_ownership:
  assumes "settle_step s ev out s'" and "settle_inv s"
  shows "event_input ev + settle_held s + mset (is_released s) =
    mset out + settle_held s' + mset (is_released s') \<and> settle_inv s'"
  using assms
proof (cases rule: settle_step.cases)
  case (Map m r)
  then show ?thesis
    using assms(2)
    by (auto simp: AcceptMap_def settle_defs event_input_def settle_inv_def split: if_splits)
next
  case (Settle i media)
  then show ?thesis
    using assms(2) by (auto simp: Settle_def settle_held_def event_input_def settle_inv_def split: if_splits)
qed (auto simp: BufferMedia_def settle_Reset_def settle_defs event_input_def settle_inv_def)

lemma settle_ownership_witness:
  "event_input (EvMap [1]) + settle_held NewInitSettle + mset (is_released NewInitSettle) =
    mset [[1]] + settle_held (NewInitSettle\<lparr>is_confirmed := [1]\<rparr>)
      + mset (is_released (NewInitSettle\<lparr>is_confirmed := [1]\<rparr>))"
proof -
  have "settle_step NewInitSettle (EvMap [1]) [[1]] (NewInitSettle\<lparr>is_confirmed := [1]\<rparr>)"
    using settle_step.Map [of "[1]" NewInitSettle _ "NewInitSettle\<lparr>is_confirmed := [1]\<rparr>"]
    by (simp add: AcceptMap_def NewInitSettle_def)
  from settle_ownership [OF this] show ?thesis
    by (simp add: settle_inv_def NewInitSettle_def)
qed

section \<open>Which init the media belong to\<close>

text \<open>Runs of the hold from a fresh state, with the init last delivered or pending when each
  fragment came in: \<open>tags\<close> lists, for the fragments in the buffer, the init that was pending
  when they were buffered.\<close>

inductive settle_run :: "InitSettle \<Rightarrow> bytes list \<Rightarrow> bool" where
  Start: "settle_run NewInitSettle []"
| HoldMedia: "settle_run s tags \<Longrightarrow> is_active s \<Longrightarrow>
    settle_run (BufferMedia d s) (tags @ [is_pending s])"
| Other: "settle_run s tags \<Longrightarrow> settle_step s ev out s' \<Longrightarrow> (\<forall>d. ev \<noteq> EvMedia d) \<Longrightarrow>
    settle_run s' (if is_buf s' = [] then [] else tags)"

lemma settle_step_buf:
  assumes "settle_step s ev out s'" and "\<forall>d. ev \<noteq> EvMedia d"
  shows "is_buf s' = [] \<or> (is_buf s' = is_buf s \<and> is_pending s' = is_pending s \<and> is_active s' = is_active s)"
  using assms
  by (cases rule: settle_step.cases)
    (auto simp: AcceptMap_def Settle_def settle_Reset_def settle_defs split: if_splits)

lemma settle_run_inv:
  assumes "settle_run s tags"
  shows "length tags = length (is_buf s) \<and> set tags \<subseteq> {is_pending s} \<and> (is_buf s \<noteq> [] \<longrightarrow> is_active s)"
  using assms
proof (induction rule: settle_run.induct)
  case Start
  then show ?case by (simp add: NewInitSettle_def)
next
  case (HoldMedia s tags d)
  then show ?case by (auto simp: BufferMedia_def)
next
  case (Other s tags ev out s')
  then show ?case
    using settle_step_buf [OF Other(2,3)] by auto
qed



text \<open>Same init bytes under a new URI never rotate the file, and a change is delivered only
  through the hold: an init passes immediately only as the first one.\<close>

lemma accept_map_delivers_only_first:
  "(\<exists>d. am_DeliverNow (fst (AcceptMap m s)) = Some d) \<longleftrightarrow> \<not> is_active s \<and> is_confirmed s = []"
  by (auto simp: AcceptMap_def)

end
