(* ===== verification/HlsSession.thy ===== *)
theory HlsSession
  imports GoStrings
begin

text \<open>
  Fetching playlists and segments (\<open>pkg/hls/hls.go\<close>, \<open>playlist_session.go\<close>). The network, the
  clock, the playlist parser (\<open>grafov/m3u8\<close>), URL parsing, the prefetcher and the hooks are
  functions on a world \<open>'w\<close>, gathered in the record \<open>hls_env\<close>; the retry and refresh logic
  around them is the code's. An error that wraps another is identified with it.
\<close>

section \<open>Errors and playlists\<close>

datatype hls_error =
    Canceled
  | DeadlineExceeded
  | NetError bool bool
  | StatusError int
  | ErrM3u8Expired int
  | PlaylistStatusError int
  | ErrNoM3u8URL
  | OtherError string

text \<open>Durations are milliseconds; the floating-point durations of segments are left out.\<close>

record Playlist =
  pl_MediaSeq :: int
  pl_Segments :: "string list"
  pl_MapURI :: string

definition IsM3u8URLExpiredStatus :: "int \<Rightarrow> bool" where
  "IsM3u8URLExpiredStatus status = (status \<in> {401, 403, 404, 410})"

definition IsRetryableSegmentStatus :: "int \<Rightarrow> bool" where
  "IsRetryableSegmentStatus status = (status \<in> {404, 410})"

definition ShouldResetSequenceOnRollback :: "int \<Rightarrow> int \<Rightarrow> int \<Rightarrow> int \<Rightarrow> bool" where
  "ShouldResetSequenceOnRollback prevBaseSeq baseSeq segCount nextSeq =
    (if segCount \<le> 0 then False
     else if baseSeq \<ge> nextSeq then False
     else if nextSeq < baseSeq + segCount then False
     else baseSeq < prevBaseSeq)"

definition ShouldApplyManifestSyncWait :: "int \<Rightarrow> int \<Rightarrow> int \<Rightarrow> bool" where
  "ShouldApplyManifestSyncWait baseSeq nextSeq lastWaitBaseSeq =
    (if nextSeq \<noteq> baseSeq then False else if baseSeq \<le> lastWaitBaseSeq then False else True)"

definition CountPendingSegments :: "int \<Rightarrow> string list \<Rightarrow> int \<Rightarrow> nat" where
  "CountPendingSegments baseSeq segs nextSeq =
    length (filter (\<lambda>i. baseSeq + int i \<ge> nextSeq) [0..<length segs])"

definition IsRetryableFetchErr :: "hls_error option \<Rightarrow> bool" where
  "IsRetryableFetchErr err = (case err of
     None \<Rightarrow> False
   | Some Canceled \<Rightarrow> False
   | Some DeadlineExceeded \<Rightarrow> True
   | Some (NetError timeout temporary) \<Rightarrow> timeout \<or> temporary
   | Some (OtherError text) \<Rightarrow>
       (let errText = ToLower text in
        list_ex (Contains errText) [''timeout'', ''deadline exceeded'', ''connection reset'',
          ''broken pipe'', ''goaway'', ''eof''])
   | Some _ \<Rightarrow> False)"

definition isM3u8URLExpiredErr :: "hls_error \<Rightarrow> bool" where
  "isM3u8URLExpiredErr e = (case e of ErrM3u8Expired _ \<Rightarrow> True | _ \<Rightarrow> False)"

definition isRetryablePlaylistStatusErr :: "hls_error \<Rightarrow> bool" where
  "isRetryablePlaylistStatusErr e =
    (case e of PlaylistStatusError s \<Rightarrow> s \<ge> 500 \<and> s < 600 | _ \<Rightarrow> False)"

section \<open>The environment\<close>

record ('w, 'r) hls_env =
  he_get :: "string \<Rightarrow> 'w \<Rightarrow> (hls_error + 'r) \<times> 'w"
  he_status :: "'r \<Rightarrow> int"
  he_read :: "'r \<Rightarrow> 'w \<Rightarrow> (hls_error + bytes) \<times> 'w"
  he_close :: "'r \<Rightarrow> 'w \<Rightarrow> 'w"
  he_canceled :: "'w \<Rightarrow> bool"
  he_wait :: "int \<Rightarrow> 'w \<Rightarrow> hls_error option \<times> 'w"
  he_get_playlist :: "string \<Rightarrow> string \<Rightarrow> string \<Rightarrow> 'w \<Rightarrow> (hls_error + 'r) \<times> 'w"
  he_parse :: "'r \<Rightarrow> string + Playlist"
  he_etag :: "'r \<Rightarrow> string"
  he_modified :: "'r \<Rightarrow> string"
  he_fetchURL :: "'w \<Rightarrow> (string + string) \<times> 'w"
  he_url_ok :: "string \<Rightarrow> bool"
  he_new_prefetcher :: "string \<Rightarrow> 'w \<Rightarrow> 'w"
  he_on_refresh :: "'w \<Rightarrow> 'w"

definition isCanceled :: "('w, 'r) hls_env \<Rightarrow> hls_error \<Rightarrow> 'w \<Rightarrow> bool" where
  "isCanceled env err w = (err = Canceled \<or> he_canceled env w)"

section \<open>Segments\<close>

text \<open>One pass of the retry loop with \<open>left\<close> further attempts allowed.\<close>

fun segment_attempts :: "('w, 'r) hls_env \<Rightarrow> string \<Rightarrow> int \<Rightarrow> nat \<Rightarrow> 'w \<Rightarrow> (hls_error + bytes) \<times> 'w" where
  "segment_attempts env url delay left w =
    (let retry = (\<lambda>err w. case left of
           0 \<Rightarrow> (Inl err, w)
         | Suc left' \<Rightarrow> (case he_wait env delay w of
             (Some e, w) \<Rightarrow> (Inl e, w)
           | (None, w) \<Rightarrow> segment_attempts env url delay left' w)) in
     case he_get env url w of
       (Inl err, w) \<Rightarrow>
         if err = Canceled \<or> he_canceled env w then (Inl err, w)
         else if left > 0 \<and> IsRetryableFetchErr (Some err) then retry err w
         else (Inl err, w)
     | (Inr resp, w) \<Rightarrow>
         if he_status env resp = 200 then
           (case he_read env resp w of
              (Inr d, w) \<Rightarrow> (Inr d, w)
            | (Inl err, w) \<Rightarrow>
                if err = Canceled \<or> he_canceled env w then (Inl err, w)
                else if left > 0 \<and> IsRetryableFetchErr (Some err) then retry err w
                else (Inl err, w))
         else
           (let w = he_close env resp w; status = he_status env resp in
            if \<not> IsRetryableSegmentStatus status \<or> left = 0 then (Inl (StatusError status), w)
            else retry (StatusError status) w))"

declare segment_attempts.simps [simp del]

definition FetchSegmentWithRetryReader :: "('w, 'r) hls_env \<Rightarrow> string \<Rightarrow> int \<Rightarrow> int \<Rightarrow> 'w \<Rightarrow>
    (hls_error + bytes) \<times> 'w" where
  "FetchSegmentWithRetryReader env url attempts delay w =
    (let attempts = (if attempts \<le> 0 then 1 else attempts) in
     segment_attempts env url delay (nat (attempts - 1)) w)"

section \<open>The playlist session\<close>

record PlaylistSession =
  ps_m3u8URL :: string
  ps_lastEtag :: string
  ps_lastModified :: string
  ps_cached :: "Playlist option"

definition NewPlaylistSession :: PlaylistSession where
  "NewPlaylistSession = \<lparr>ps_m3u8URL = [], ps_lastEtag = [], ps_lastModified = [], ps_cached = None\<rparr>"

definition PlaylistRetryAttempts :: nat where "PlaylistRetryAttempts = 2"
definition PlaylistRetryDelay :: int where "PlaylistRetryDelay = 250"
definition SegmentRetryAttempts :: int where "SegmentRetryAttempts = 3"
definition SegmentRetryDelay :: int where "SegmentRetryDelay = 500"
definition SegmentPrefetchAhead :: int where "SegmentPrefetchAhead = 2"
definition SegmentFailureRefreshEvery :: nat where "SegmentFailureRefreshEvery = 3"

definition RefreshURL :: "('w, 'r) hls_env \<Rightarrow> PlaylistSession \<Rightarrow> 'w \<Rightarrow>
    hls_error option \<times> PlaylistSession \<times> 'w" where
  "RefreshURL env s w =
    (case he_fetchURL env w of
       (Inl text, w) \<Rightarrow> (Some (OtherError text), s, w)
     | (Inr url, w) \<Rightarrow>
        (let nextURL = TrimSpace url in
         if nextURL = [] then (Some ErrNoM3u8URL, s, w)
         else if \<not> he_url_ok env nextURL then (Some (OtherError ''parse''), s, w)
         else (None,
           s\<lparr>ps_m3u8URL := nextURL, ps_lastEtag := [], ps_lastModified := [], ps_cached := None\<rparr>,
           he_on_refresh env (he_new_prefetcher env nextURL w))))"

fun playlist_attempts :: "('w, 'r) hls_env \<Rightarrow> nat \<Rightarrow> PlaylistSession \<Rightarrow> 'w \<Rightarrow>
    (hls_error + Playlist) \<times> PlaylistSession \<times> 'w" where
  "playlist_attempts env left s w =
    (case he_get_playlist env (ps_m3u8URL s) (ps_lastEtag s) (ps_lastModified s) w of
       (Inl err, w) \<Rightarrow>
         (case left of
            0 \<Rightarrow> (Inl err, s, w)
          | Suc left' \<Rightarrow>
              if IsRetryableFetchErr (Some err) \<and> \<not> isCanceled env err w then
                (case he_wait env PlaylistRetryDelay w of
                   (Some e, w) \<Rightarrow> (Inl e, s, w)
                 | (None, w) \<Rightarrow> playlist_attempts env left' s w)
              else (Inl err, s, w))
     | (Inr resp, w) \<Rightarrow>
         (let status = he_status env resp in
          if IsM3u8URLExpiredStatus status then (Inl (ErrM3u8Expired status), s, w)
          else if status = 304 then
            (case ps_cached s of Some pl \<Rightarrow> (Inr pl, s, w) | None \<Rightarrow> (Inl (StatusError status), s, w))
          else if status \<noteq> 200 then
            (if status \<ge> 500 \<and> status < 600 then (Inl (PlaylistStatusError status), s, w)
             else (Inl (StatusError status), s, w))
          else case he_parse env resp of
            Inl text \<Rightarrow> (Inl (OtherError text), s, w)
          | Inr pl \<Rightarrow>
              (Inr pl, s\<lparr>ps_lastEtag := he_etag env resp, ps_lastModified := he_modified env resp,
                        ps_cached := Some pl\<rparr>, w)))"

declare playlist_attempts.simps [simp del]

definition Fetch :: "('w, 'r) hls_env \<Rightarrow> PlaylistSession \<Rightarrow> 'w \<Rightarrow>
    (hls_error + Playlist) \<times> PlaylistSession \<times> 'w" where
  "Fetch env s w = playlist_attempts env (PlaylistRetryAttempts - 1) s w"

text \<open>\<open>FetchWithRefresh\<close> with the number of refreshes still allowed.\<close>

fun fetch_refresh :: "('w, 'r) hls_env \<Rightarrow> nat \<Rightarrow> PlaylistSession \<Rightarrow> 'w \<Rightarrow>
    (hls_error + Playlist) \<times> PlaylistSession \<times> 'w" where
  "fetch_refresh env left s w =
    (case Fetch env s w of
       (Inr pl, s, w) \<Rightarrow> (Inr pl, s, w)
     | (Inl err, s, w) \<Rightarrow>
        if isCanceled env err w \<or> he_canceled env w then (Inl err, s, w)
        else if \<not> isM3u8URLExpiredErr err \<and> \<not> isRetryablePlaylistStatusErr err then (Inl err, s, w)
        else (case left of
           0 \<Rightarrow> (Inl err, s, w)
         | Suc left' \<Rightarrow>
            (case RefreshURL env s w of
               (Some e, s, w) \<Rightarrow> (Inl e, s, w)
             | (None, s, w) \<Rightarrow> fetch_refresh env left' s w)))"

declare fetch_refresh.simps [simp del]

definition FetchWithRefresh :: "('w, 'r) hls_env \<Rightarrow> PlaylistSession \<Rightarrow> 'w \<Rightarrow>
    (hls_error + Playlist) \<times> PlaylistSession \<times> 'w" where
  "FetchWithRefresh env s w = fetch_refresh env 1 s w"

section \<open>The cached playlist\<close>

text \<open>\<open>of_url u pl\<close>: the playlist was served under the URL. The environment only serves, under a
  URL, playlists of that URL.\<close>

definition serves :: "('w, 'r) hls_env \<Rightarrow> (string \<Rightarrow> Playlist \<Rightarrow> bool) \<Rightarrow> bool" where
  "serves env of_url =
    (\<forall>url etag modified w resp w' pl. he_get_playlist env url etag modified w = (Inr resp, w') \<longrightarrow>
       he_parse env resp = Inr pl \<longrightarrow> of_url url pl)"

definition cache_ok :: "(string \<Rightarrow> Playlist \<Rightarrow> bool) \<Rightarrow> PlaylistSession \<Rightarrow> bool" where
  "cache_ok of_url s = (case ps_cached s of None \<Rightarrow> True | Some pl \<Rightarrow> of_url (ps_m3u8URL s) pl)"

lemma RefreshURL_cache:
  "RefreshURL env s w = (r, s', w') \<Longrightarrow> cache_ok of_url s \<Longrightarrow> cache_ok of_url s'"
  by (auto simp: RefreshURL_def cache_ok_def Let_def split: sum.splits prod.splits if_splits)

lemma servesD:
  "serves env of_url \<Longrightarrow> he_get_playlist env url etag modified w = (Inr resp, w') \<Longrightarrow>
     he_parse env resp = Inr pl \<Longrightarrow> of_url url pl"
  unfolding serves_def by metis

text \<open>What one answer leads to, the same on every attempt.\<close>

lemma playlist_attempts_answer:
  "he_get_playlist env (ps_m3u8URL s) (ps_lastEtag s) (ps_lastModified s) w = (Inr resp, w1) \<Longrightarrow>
    playlist_attempts env left s w = playlist_attempts env 0 s w"
  by (simp add: playlist_attempts.simps [of _ left] playlist_attempts.simps [of _ 0])

lemma playlist_attempts_cache:
  assumes "serves env of_url"
  shows "playlist_attempts env left s w = (r, s', w') \<Longrightarrow> cache_ok of_url s \<Longrightarrow>
    cache_ok of_url s' \<and> ps_m3u8URL s' = ps_m3u8URL s \<and> (\<forall>pl. r = Inr pl \<longrightarrow> of_url (ps_m3u8URL s) pl)"
proof (induction left arbitrary: w)
  case 0
  then show ?case
    using servesD [OF assms, of "ps_m3u8URL s" "ps_lastEtag s" "ps_lastModified s" w]
    by (auto simp: playlist_attempts.simps [of _ 0] cache_ok_def Let_def
        split: sum.splits prod.splits if_splits option.splits)
next
  case (Suc left)
  obtain g w1 where g: "he_get_playlist env (ps_m3u8URL s) (ps_lastEtag s) (ps_lastModified s) w = (g, w1)"
    by (metis surj_pair)
  show ?case
  proof (cases g)
    case (Inl err)
    then show ?thesis
      using Suc g by (auto simp: playlist_attempts.simps [of _ "Suc left"]
          split: if_splits prod.splits option.splits)
  next
    case (Inr resp)
    then show ?thesis
      using Suc.prems g servesD [OF assms, of "ps_m3u8URL s" "ps_lastEtag s" "ps_lastModified s" w]
      by (auto simp: playlist_attempts.simps [of _ "Suc left"] cache_ok_def Let_def
          split: sum.splits if_splits option.splits)
  qed
qed

lemma Fetch_cache:
  assumes "serves env of_url" and "Fetch env s w = (r, s', w')" and "cache_ok of_url s"
  shows "cache_ok of_url s' \<and> (\<forall>pl. r = Inr pl \<longrightarrow> of_url (ps_m3u8URL s') pl)"
  using playlist_attempts_cache [OF assms(1) assms(2) [unfolded Fetch_def] assms(3)] by auto

lemma fetch_refresh_cases:
  assumes "fetch_refresh env left s w = (r, s', w')"
  obtains (stop) "Fetch env s w = (r, s', w')"
  | (no_url) s1 w1 err e left' where "Fetch env s w = (Inl err, s1, w1)" "left = Suc left'"
      "RefreshURL env s1 w1 = (Some e, s', w')" "r = Inl e"
  | (again) s1 w1 err s2 w2 left' where "Fetch env s w = (Inl err, s1, w1)" "left = Suc left'"
      "RefreshURL env s1 w1 = (None, s2, w2)" "fetch_refresh env left' s2 w2 = (r, s', w')"
  using assms
  by (subst (asm) fetch_refresh.simps) (auto split: prod.splits sum.splits if_splits nat.splits option.splits)

lemma fetch_refresh_cache:
  assumes "serves env of_url"
  shows "fetch_refresh env left s w = (r, s', w') \<Longrightarrow> cache_ok of_url s \<Longrightarrow>
    cache_ok of_url s' \<and> (\<forall>pl. r = Inr pl \<longrightarrow> of_url (ps_m3u8URL s') pl)"
proof (induction left arbitrary: s w rule: less_induct)
  case (less left)
  show ?case
    using less.prems(1)
  proof (cases rule: fetch_refresh_cases)
    case stop
    then show ?thesis
      using Fetch_cache [OF assms _ less.prems(2)] by blast
  next
    case (no_url s1 w1 err e left')
    then have "cache_ok of_url s'"
      using Fetch_cache [OF assms no_url(1) less.prems(2)] RefreshURL_cache [OF no_url(3)] by simp
    then show ?thesis
      using no_url(4) by simp
  next
    case (again s1 w1 err s2 w2 left')
    then have "cache_ok of_url s2"
      using Fetch_cache [OF assms again(1) less.prems(2)] RefreshURL_cache [OF again(3)] by simp
    then show ?thesis
      using less.IH [OF _ again(4)] again(2) by simp
  qed
qed

text \<open>Never a stale window: whatever mixture of refreshes, retries and 304 answers happens,
  the playlist that \<open>FetchWithRefresh\<close> returns belongs to the URL the session then uses, so
  its relative segment URIs are resolved against their own base.\<close>

lemma fetched_playlist_of_current_url:
  assumes "serves env of_url" and "cache_ok of_url s" and "FetchWithRefresh env s w = (Inr pl, s', w')"
  shows "of_url (ps_m3u8URL s') pl \<and> cache_ok of_url s'"
  using fetch_refresh_cache [OF assms(1) assms(3) [unfolded FetchWithRefresh_def] assms(2)] by simp

text \<open>A server whose first URL has expired (403) and that answers the refreshed one.\<close>

definition demo_env :: "(nat, string) hls_env" where
  "demo_env = \<lparr>
     he_get = (\<lambda>url w. (Inr url, Suc w)),
     he_status = (\<lambda>url. if url = ''new'' then 200 else 403),
     he_read = (\<lambda>url w. (Inr [], w)),
     he_close = (\<lambda>url w. w),
     he_canceled = (\<lambda>w. False),
     he_wait = (\<lambda>d w. (None, w)),
     he_get_playlist = (\<lambda>url etag modified w. (Inr url, Suc w)),
     he_parse = (\<lambda>url. Inr \<lparr>pl_MediaSeq = 7, pl_Segments = [url], pl_MapURI = []\<rparr>),
     he_etag = (\<lambda>url. ''e''),
     he_modified = (\<lambda>url. []),
     he_fetchURL = (\<lambda>w. (Inr '' new '', Suc w)),
     he_url_ok = (\<lambda>url. True),
     he_new_prefetcher = (\<lambda>url w. w),
     he_on_refresh = (\<lambda>w. w)\<rparr>"

lemma fetched_playlist_of_current_url_witness:
  "ps_m3u8URL (fst (snd (FetchWithRefresh demo_env (NewPlaylistSession\<lparr>ps_m3u8URL := ''old''\<rparr>) 0))) = ''new''
   \<and> pl_Segments \<lparr>pl_MediaSeq = 7, pl_Segments = [''new''], pl_MapURI = []\<rparr> = [''new'']"
proof -
  define s where "s = NewPlaylistSession\<lparr>ps_m3u8URL := ''old''\<rparr>"
  define pl where "pl = \<lparr>pl_MediaSeq = 7, pl_Segments = [''new''], pl_MapURI = []\<rparr>"
  define s' where "s' = \<lparr>ps_m3u8URL = ''new'', ps_lastEtag = ''e'', ps_lastModified = [], ps_cached = Some pl\<rparr>"
  have run: "FetchWithRefresh demo_env s 0 = (Inr pl, s', 3)"
    unfolding s_def pl_def s'_def by code_simp
  have "pl_Segments pl = [ps_m3u8URL s']"
    using fetched_playlist_of_current_url [of demo_env "\<lambda>url pl. pl_Segments pl = [url]" s 0 pl s' 3]
      run
    by (simp add: serves_def demo_env_def cache_ok_def s_def NewPlaylistSession_def)
  then show ?thesis
    using run by (simp add: s_def pl_def s'_def)
qed

end
