(* ===== verification/Backoff.thy ===== *)
theory Backoff
  imports Prelude
begin

text \<open>
  Backoff policies (\<open>pkg/backoff\<close>). Durations are integers (nanoseconds). The Go interface
  \<open>Backoff\<close> is the locale \<open>backoff\<close>: what every caller relies on is that a reset policy starts
  at its base delay, that delays never exceed a bound and never shrink without a reset; the
  linear, exponential and sequence policies are its instances. The truncated floating-point
  multiplication of the exponential policy is the function \<open>ex_scale\<close>.
\<close>

section \<open>Policies\<close>

record Linear =
  ln_base :: int
  ln_step :: int
  ln_maxDelay :: int
  ln_current :: int

definition NewLinear :: "int \<Rightarrow> int \<Rightarrow> int \<Rightarrow> Linear" where
  "NewLinear base step maxDelay =
    \<lparr>ln_base = base, ln_step = step, ln_maxDelay = maxDelay, ln_current = base\<rparr>"

definition linear_Next :: "Linear \<Rightarrow> int \<times> Linear" where
  "linear_Next l =
    (ln_current l,
     if ln_current l < ln_maxDelay l then
       (let c = ln_current l + ln_step l
        in l\<lparr>ln_current := if c > ln_maxDelay l then ln_maxDelay l else c\<rparr>)
     else l)"

definition linear_Reset :: "Linear \<Rightarrow> Linear" where
  "linear_Reset l = l\<lparr>ln_current := ln_base l\<rparr>"

record Expotential =
  ex_base :: int
  ex_scale :: "int \<Rightarrow> int"
  ex_maxDelay :: int
  ex_current :: int

definition NewExpotential :: "int \<Rightarrow> (int \<Rightarrow> int) \<Rightarrow> int \<Rightarrow> Expotential" where
  "NewExpotential base scale maxDelay =
    \<lparr>ex_base = base, ex_scale = scale, ex_maxDelay = maxDelay, ex_current = base\<rparr>"

definition exp_Next :: "Expotential \<Rightarrow> int \<times> Expotential" where
  "exp_Next e =
    (let next' = ex_scale e (ex_current e) in
     (ex_current e, e\<lparr>ex_current := if next' > ex_maxDelay e then ex_maxDelay e else next'\<rparr>))"

definition exp_Reset :: "Expotential \<Rightarrow> Expotential" where
  "exp_Reset e = e\<lparr>ex_current := ex_base e\<rparr>"

text \<open>An empty sequence makes \<open>Next\<close> index out of range: \<open>None\<close>.\<close>

record Sequence =
  sq_delays :: "int list"
  sq_index :: nat

definition NewSequence :: "int list \<Rightarrow> Sequence" where
  "NewSequence delays = \<lparr>sq_delays = delays, sq_index = 0\<rparr>"

definition seq_Next :: "Sequence \<Rightarrow> (int \<times> Sequence) option" where
  "seq_Next s =
    (if sq_index s \<ge> length (sq_delays s) then
       (if sq_delays s = [] then None else Some (sq_delays s ! (length (sq_delays s) - 1), s))
     else Some (sq_delays s ! sq_index s, s\<lparr>sq_index := sq_index s + 1\<rparr>))"

definition seq_Reset :: "Sequence \<Rightarrow> Sequence" where
  "seq_Reset s = s\<lparr>sq_index := 0\<rparr>"

record Custom =
  cu_base :: int
  cu_next :: "int \<Rightarrow> int"
  cu_current :: int

definition NewCustom :: "int \<Rightarrow> (int \<Rightarrow> int) \<Rightarrow> Custom" where
  "NewCustom base f = \<lparr>cu_base = base, cu_next = f, cu_current = base\<rparr>"

definition custom_Next :: "Custom \<Rightarrow> int \<times> Custom" where
  "custom_Next c = (cu_current c, c\<lparr>cu_current := cu_next c (cu_current c)\<rparr>)"

definition custom_Reset :: "Custom \<Rightarrow> Custom" where
  "custom_Reset c = c\<lparr>cu_current := cu_base c\<rparr>"

section \<open>The interface\<close>

locale backoff =
  fixes step :: "'b \<Rightarrow> int \<times> 'b" and reset :: "'b \<Rightarrow> 'b"
    and ok :: "'b \<Rightarrow> bool" and base :: "'b \<Rightarrow> int" and bound :: "'b \<Rightarrow> int"
  assumes ok_step: "ok b \<Longrightarrow> ok (snd (step b))"
    and ok_reset: "ok b \<Longrightarrow> ok (reset b)"
    and reset_step: "ok b \<Longrightarrow> fst (step (reset b)) = base b"
    and bound_step: "ok b \<Longrightarrow> fst (step b) \<le> bound b"
    and bound_kept: "ok b \<Longrightarrow> bound (snd (step b)) = bound b \<and> base (snd (step b)) = base b"
    and mono_step: "ok b \<Longrightarrow> fst (step b) \<le> fst (step (snd (step b)))"
begin

fun delays :: "nat \<Rightarrow> 'b \<Rightarrow> int list" where
  "delays 0 b = []"
| "delays (Suc n) b = fst (step b) # delays n (snd (step b))"

lemma delays_bounded: "ok b \<Longrightarrow> d \<in> set (delays n b) \<Longrightarrow> d \<le> bound b"
proof (induction n arbitrary: b)
  case (Suc n)
  then show ?case
    using bound_step [of b] bound_kept [of b] ok_step [of b] Suc.IH [of "snd (step b)"] by auto
qed simp

lemma delays_ge: "ok b \<Longrightarrow> d \<in> set (delays n b) \<Longrightarrow> fst (step b) \<le> d"
proof (induction n arbitrary: b)
  case (Suc n)
  then show ?case
    using mono_step [of b] ok_step [of b] by force
qed simp

lemma delays_sorted: "ok b \<Longrightarrow> sorted (delays n b)"
proof (induction n arbitrary: b)
  case (Suc n)
  have "fst (step b) \<le> d" if "d \<in> set (delays n (snd (step b)))" for d
    using delays_ge [OF ok_step [OF Suc.prems] that] mono_step [OF Suc.prems] by simp
  then show ?case
    using Suc.IH [OF ok_step [OF Suc.prems]] by simp
qed simp

lemma delays_from_base: "ok b \<Longrightarrow> d \<in> set (delays n (reset b)) \<Longrightarrow> base b \<le> d"
  using delays_ge [OF ok_reset, of b d n] reset_step [of b] by simp

lemma delays_profile:
  assumes "ok b"
  shows "sorted (delays n b) \<and> (\<forall>d \<in> set (delays n b). fst (step b) \<le> d \<and> d \<le> bound b)"
  using delays_sorted delays_bounded delays_ge assms by blast

end

definition linear_ok :: "Linear \<Rightarrow> bool" where
  "linear_ok l = (0 \<le> ln_step l \<and> ln_base l \<le> ln_maxDelay l \<and> ln_current l \<le> ln_maxDelay l)"

definition exp_ok :: "Expotential \<Rightarrow> bool" where
  "exp_ok e = ((\<forall>x \<in> {ex_base e..ex_maxDelay e}. x \<le> ex_scale e x) \<and> ex_base e \<le> ex_maxDelay e
     \<and> ex_base e \<le> ex_current e \<and> ex_current e \<le> ex_maxDelay e)"

interpretation linear_backoff: backoff linear_Next linear_Reset linear_ok ln_base ln_maxDelay
  by unfold_locales (auto simp: linear_Next_def linear_Reset_def linear_ok_def Let_def)

interpretation exp_backoff: backoff exp_Next exp_Reset exp_ok ex_base ex_maxDelay
proof unfold_locales
  fix e assume ok: "exp_ok e"
  then have 1: "ex_current e \<le> ex_scale e (ex_current e)" and 2: "ex_base e \<le> ex_current e"
    by (simp_all add: exp_ok_def)
  have 3: "ex_base e \<le> ex_scale e (ex_current e)"
    using 1 2 by (rule order_trans [rotated])
  show "exp_ok (snd (exp_Next e))"
    using ok 3 unfolding exp_ok_def by (simp add: exp_Next_def Let_def)
  show "fst (exp_Next e) \<le> fst (exp_Next (snd (exp_Next e)))"
    using ok 1 unfolding exp_ok_def by (simp add: exp_Next_def Let_def)
  show "exp_ok (exp_Reset e)" "fst (exp_Next (exp_Reset e)) = ex_base e"
    "fst (exp_Next e) \<le> ex_maxDelay e"
    "ex_maxDelay (snd (exp_Next e)) = ex_maxDelay e \<and> ex_base (snd (exp_Next e)) = ex_base e"
    using ok by (auto simp: exp_Next_def exp_Reset_def exp_ok_def Let_def)
qed

text \<open>A sequence is a policy of the interface when it is non-empty and sorted.\<close>

definition seq_ok :: "Sequence \<Rightarrow> bool" where
  "seq_ok s = (sq_delays s \<noteq> [] \<and> sorted (sq_delays s))"

definition seq_step :: "Sequence \<Rightarrow> int \<times> Sequence" where
  "seq_step s = (case seq_Next s of Some r \<Rightarrow> r | None \<Rightarrow> (0, s))"

interpretation seq_backoff: backoff seq_step seq_Reset seq_ok "\<lambda>s. hd (sq_delays s)" "\<lambda>s. last (sq_delays s)"
proof unfold_locales
  fix s assume ok: "seq_ok s"
  let ?d = "sq_delays s" and ?i = "sq_index s"
  have ne: "?d \<noteq> []" and srt: "sorted ?d"
    using ok by (simp_all add: seq_ok_def)
  have last_nth: "last ?d = ?d ! (length ?d - 1)"
    using ne by (simp add: last_conv_nth)
  have mono: "i \<le> j \<Longrightarrow> j < length ?d \<Longrightarrow> ?d ! i \<le> ?d ! j" for i j
    using srt by (simp add: sorted_nth_mono)
  show "seq_ok (snd (seq_step s))"
    using ok by (simp add: seq_step_def seq_Next_def seq_ok_def)
  show "seq_ok (seq_Reset s)"
    using ok by (simp add: seq_Reset_def seq_ok_def)
  show "fst (seq_step (seq_Reset s)) = hd ?d"
    using ne by (simp add: seq_step_def seq_Next_def seq_Reset_def hd_conv_nth)
  show "fst (seq_step s) \<le> last ?d"
    using ne mono by (simp add: seq_step_def seq_Next_def last_nth)
  show "last (sq_delays (snd (seq_step s))) = last ?d \<and> hd (sq_delays (snd (seq_step s))) = hd ?d"
    by (simp add: seq_step_def seq_Next_def)
  show "fst (seq_step s) \<le> fst (seq_step (snd (seq_step s)))"
    using ne mono by (simp add: seq_step_def seq_Next_def)
qed

text \<open>Reconnects back off and never stall: however many failures there are in a row, the waits
  between segment retries grow from two to at most five seconds, and those between danmaku
  reconnects from two to at most fifteen, without ever shrinking before a reset.\<close>

lemma reconnect_delays:
  "sorted (exp_backoff.delays n (NewExpotential 2000 (\<lambda>x. 2 * x) 5000)) \<and>
   set (exp_backoff.delays n (NewExpotential 2000 (\<lambda>x. 2 * x) 5000)) \<subseteq> {2000..5000} \<and>
   sorted (seq_backoff.delays n (NewSequence [2000, 2000, 2000, 5000, 10000, 15000])) \<and>
   set (seq_backoff.delays n (NewSequence [2000, 2000, 2000, 5000, 10000, 15000])) \<subseteq> {2000..15000}"
proof -
  let ?e = "NewExpotential 2000 (\<lambda>x. 2 * x) 5000"
  let ?s = "NewSequence [2000, 2000, 2000, 5000, 10000, 15000]"
  have "exp_ok ?e" "seq_ok ?s"
    by (simp_all add: exp_ok_def NewExpotential_def seq_ok_def NewSequence_def)
  from exp_backoff.delays_profile [OF this(1), of n] seq_backoff.delays_profile [OF this(2), of n]
  show ?thesis
    by (auto simp: NewExpotential_def exp_Next_def NewSequence_def seq_step_def seq_Next_def)
qed

end
