(* ===== verification/HlsStream.thy ===== *)
theory HlsStream
  imports HlsSession HlsSettle Backoff
begin

text \<open>
  The poll and delivery loop of an HLS recording (\<open>pkg/hls/stream_loop.go\<close>, with the wiring of
  \<open>internal/services/stream/hls.go\<close> and the resolver). The network, the timers, the prefetcher and
  the channel's readiness are functions on a world \<open>'x\<close>, gathered in \<open>runner_env\<close>; the state
  of the loop, the playlist session and the init settling are the code's. \<open>sr_sent\<close> logs what was
  sent on the output channel, \<open>sr_taken\<close> the segments taken from the prefetcher with their sequence
  numbers, \<open>sr_dropped\<close> what the loop itself gave back to the buffer pool. The adaptation of the
  poll interval only re-times the ticker and is left out, as is logging.
\<close>

section \<open>Environment and state\<close>

record ('x, 'r) runner_env =
  re_hls :: "('x, 'r) hls_env"
  re_resolve :: "string \<Rightarrow> string \<Rightarrow> string option"
  re_prefetch :: "int \<Rightarrow> string \<Rightarrow> 'x \<Rightarrow> 'x"
  re_await :: "int \<Rightarrow> string \<Rightarrow> 'x \<Rightarrow> (hls_error + bytes) \<times> 'x"
  re_sleep :: "int \<Rightarrow> 'x \<Rightarrow> bool \<times> 'x"
  re_sync :: "Playlist \<Rightarrow> 'x \<Rightarrow> bool \<times> 'x"
  re_send :: "'x \<Rightarrow> bool \<times> 'x"
  re_fired :: "'x \<Rightarrow> bool \<times> 'x"

text \<open>\<open>re_sleep\<close>, \<open>re_sync\<close> and \<open>re_send\<close> answer whether the timer or the channel was chosen,
  and not \<open>ctx.Done()\<close>.\<close>

record 'x StreamRunner =
  sr_session :: PlaylistSession
  sr_settle :: InitSettle
  sr_world :: 'x
  sr_nextSeq :: int
  sr_prevBaseSeq :: int
  sr_currentMapURI :: string
  sr_mapSent :: bool
  sr_armed :: bool
  sr_playlistFailures :: nat
  sr_segmentFailures :: nat
  sr_backoff :: Expotential
  sr_lastSyncWait :: int
  sr_sent :: "bytes list"
  sr_taken :: "(int \<times> bytes) list"
  sr_dropped :: "bytes list"

text \<open>\<open>Resolve\<close> of an URL: absolute ones are kept, others go through the URL library.\<close>

definition Resolve :: "(string \<Rightarrow> string \<Rightarrow> string option) \<Rightarrow> string \<Rightarrow> string \<Rightarrow> string option" where
  "Resolve reference base segmentURI =
    (if HasPrefix segmentURI ''http://'' \<or> HasPrefix segmentURI ''https://'' then Some segmentURI
     else reference base segmentURI)"

text \<open>The session runs on the world paired with the settling, because \<open>ReadHlsStream\<close> registers
  \<open>settle.Reset\<close> as the hook of an URL refresh; nothing else of the session touches it.\<close>

definition on_world :: "('x \<Rightarrow> 'a \<times> 'x) \<Rightarrow> InitSettle \<times> 'x \<Rightarrow> 'a \<times> (InitSettle \<times> 'x)" where
  "on_world f = (\<lambda>(st, x). case f x of (r, x') \<Rightarrow> (r, (st, x')))"

definition wire_env :: "('x, 'r) hls_env \<Rightarrow> (InitSettle \<times> 'x, 'r) hls_env" where
  "wire_env env = \<lparr>
     he_get = (\<lambda>url. on_world (he_get env url)),
     he_status = he_status env,
     he_read = (\<lambda>resp. on_world (he_read env resp)),
     he_close = (\<lambda>resp (st, x). (st, he_close env resp x)),
     he_canceled = (\<lambda>(st, x). he_canceled env x),
     he_wait = (\<lambda>d. on_world (he_wait env d)),
     he_get_playlist = (\<lambda>url etag modified. on_world (he_get_playlist env url etag modified)),
     he_parse = he_parse env,
     he_etag = he_etag env,
     he_modified = he_modified env,
     he_fetchURL = on_world (he_fetchURL env),
     he_url_ok = he_url_ok env,
     he_new_prefetcher = (\<lambda>url (st, x). (st, he_new_prefetcher env url x)),
     he_on_refresh = (\<lambda>(st, x). (settle_Reset st, x))\<rparr>"

definition with_session :: "(PlaylistSession \<Rightarrow> InitSettle \<times> 'x \<Rightarrow> 'a \<times> PlaylistSession \<times> (InitSettle \<times> 'x)) \<Rightarrow>
    'x StreamRunner \<Rightarrow> 'a \<times> 'x StreamRunner" where
  "with_session f s =
    (case f (sr_session s) (sr_settle s, sr_world s) of
       (r, ss, st, x) \<Rightarrow> (r, s\<lparr>sr_session := ss, sr_settle := st, sr_world := x\<rparr>))"

definition fetch_playlist :: "('x, 'r) runner_env \<Rightarrow> 'x StreamRunner \<Rightarrow> (hls_error + Playlist) \<times> 'x StreamRunner" where
  "fetch_playlist env = with_session (FetchWithRefresh (wire_env (re_hls env)))"

definition refresh_url :: "('x, 'r) runner_env \<Rightarrow> 'x StreamRunner \<Rightarrow> hls_error option \<times> 'x StreamRunner" where
  "refresh_url env = with_session (RefreshURL (wire_env (re_hls env)))"

definition sr_cancel :: "('x, 'r) runner_env \<Rightarrow> hls_error \<Rightarrow> 'x StreamRunner \<Rightarrow> bool" where
  "sr_cancel env err s = isCanceled (re_hls env) err (sr_world s)"

section \<open>Sending\<close>

definition send_chunk :: "('x, 'r) runner_env \<Rightarrow> bytes \<Rightarrow> 'x StreamRunner \<Rightarrow> bool \<times> 'x StreamRunner" where
  "send_chunk env d s =
    (case re_send env (sr_world s) of
       (True, x) \<Rightarrow> (True, s\<lparr>sr_world := x, sr_sent := sr_sent s @ [d]\<rparr>)
     | (False, x) \<Rightarrow> (False, s\<lparr>sr_world := x\<rparr>))"

fun send_media :: "('x, 'r) runner_env \<Rightarrow> bytes list \<Rightarrow> 'x StreamRunner \<Rightarrow> bool \<times> 'x StreamRunner" where
  "send_media env [] s = (True, s)"
| "send_media env (frag # media) s =
    (case send_chunk env frag s of
       (True, s) \<Rightarrow> send_media env media s
     | (False, s) \<Rightarrow> (False, s\<lparr>sr_dropped := sr_dropped s @ frag # media\<rparr>))"

definition sendSettle :: "('x, 'r) runner_env \<Rightarrow> 'x StreamRunner \<Rightarrow> bool \<times> 'x StreamRunner" where
  "sendSettle env s =
    (case Settle (sr_settle s) of
       (None, media, st) \<Rightarrow> (True, s\<lparr>sr_settle := st\<rparr>)
     | (Some initSeg, media, st) \<Rightarrow>
         (case send_chunk env initSeg (s\<lparr>sr_settle := st, sr_armed := False\<rparr>) of
            (False, s) \<Rightarrow> (False, s\<lparr>sr_dropped := sr_dropped s @ media\<rparr>)
          | (True, s) \<Rightarrow> send_media env media s))"

definition acceptMap :: "('x, 'r) runner_env \<Rightarrow> bytes \<Rightarrow> 'x StreamRunner \<Rightarrow> bool \<times> 'x StreamRunner" where
  "acceptMap env mapData s =
    (case AcceptMap mapData (sr_settle s) of
       (res, st) \<Rightarrow>
         let s = s\<lparr>sr_settle := st, sr_mapSent := True\<rparr>;
             s = (if am_StopTimer res then s\<lparr>sr_armed := False\<rparr> else s);
             s = (if am_ArmTimer res then s\<lparr>sr_armed := True\<rparr> else s) in
         case am_DeliverNow res of
           None \<Rightarrow> (True, s)
         | Some d \<Rightarrow>
             (case send_chunk env d s of
                (True, s) \<Rightarrow> (True, s)
              | (False, s) \<Rightarrow> (False, s\<lparr>sr_dropped := sr_dropped s @ [d]\<rparr>)))"

section \<open>Delivering a playlist window\<close>

text \<open>The non-blocking look at the debounce timer while a hold is active.\<close>

definition poll_debounce :: "('x, 'r) runner_env \<Rightarrow> 'x StreamRunner \<Rightarrow> bool \<times> 'x StreamRunner" where
  "poll_debounce env s =
    (if is_active (sr_settle s) \<and> sr_armed s then
       (case re_fired env (sr_world s) of
          (True, x) \<Rightarrow> sendSettle env (s\<lparr>sr_world := x, sr_armed := False\<rparr>)
        | (False, x) \<Rightarrow> (True, s\<lparr>sr_world := x\<rparr>))
     else (True, s))"

text \<open>\<open>return false\<close>, \<open>break\<close>, or going on with the segment.\<close>

datatype map_outcome = MapReturn | MapBreak | MapGo

definition fetch_map :: "('x, 'r) runner_env \<Rightarrow> 'x StreamRunner \<Rightarrow> map_outcome \<times> 'x StreamRunner" where
  "fetch_map env s =
    (if sr_currentMapURI s \<noteq> [] \<and> \<not> sr_mapSent s then
       (case Resolve (re_resolve env) (ps_m3u8URL (sr_session s)) (sr_currentMapURI s) of
          None \<Rightarrow> (MapBreak, s)
        | Some mapURL \<Rightarrow>
           (case he_get (re_hls env) mapURL (sr_world s) of
              (Inl err, x) \<Rightarrow>
                (let s = s\<lparr>sr_world := x\<rparr> in (if sr_cancel env err s then MapReturn else MapBreak, s))
            | (Inr resp, x) \<Rightarrow>
                if he_status (re_hls env) resp \<noteq> 200 then
                  (MapBreak, s\<lparr>sr_world := he_close (re_hls env) resp x\<rparr>)
                else
                  (case he_read (re_hls env) resp x of
                     (Inl err, x) \<Rightarrow>
                       (let s = s\<lparr>sr_world := x\<rparr> in (if sr_cancel env err s then MapReturn else MapBreak, s))
                   | (Inr mapData, x) \<Rightarrow>
                       (case acceptMap env mapData (s\<lparr>sr_world := x\<rparr>) of
                          (True, s) \<Rightarrow> (MapGo, s)
                        | (False, s) \<Rightarrow> (MapReturn, s)))))
     else (MapGo, s))"

definition prefetch :: "('x, 'r) runner_env \<Rightarrow> int \<Rightarrow> string list \<Rightarrow> int \<Rightarrow> 'x StreamRunner \<Rightarrow> 'x StreamRunner" where
  "prefetch env baseSeq segs q s =
    s\<lparr>sr_world := re_prefetch env q (segs ! nat (q - baseSeq)) (sr_world s)\<rparr>"

definition prefetch_next :: "('x, 'r) runner_env \<Rightarrow> int \<Rightarrow> string list \<Rightarrow> int \<Rightarrow> 'x StreamRunner \<Rightarrow>
    int \<times> 'x StreamRunner" where
  "prefetch_next env baseSeq segs nextPrefetch s =
    (if nextPrefetch \<le> baseSeq + int (length segs) - 1
     then (nextPrefetch + 1, prefetch env baseSeq segs nextPrefetch s) else (nextPrefetch, s))"

definition take_segment :: "('x, 'r) runner_env \<Rightarrow> int \<Rightarrow> string \<Rightarrow> 'x StreamRunner \<Rightarrow>
    (hls_error + bytes) \<times> 'x StreamRunner" where
  "take_segment env q uri s =
    (case re_await env q uri (sr_world s) of (r, x) \<Rightarrow> (r, s\<lparr>sr_world := x\<rparr>))"

text \<open>Bookkeeping of a segment that arrived.\<close>

definition took :: "int \<Rightarrow> bytes \<Rightarrow> 'x StreamRunner \<Rightarrow> 'x StreamRunner" where
  "took q d s = s\<lparr>sr_nextSeq := q + 1, sr_taken := sr_taken s @ [(q, d)]\<rparr>"

text \<open>The loop over the segments of the window from index \<open>i\<close> on: whether the loop ends without
  \<open>return false\<close>, whether a segment was delivered, and the state.\<close>

fun window_loop :: "('x, 'r) runner_env \<Rightarrow> int \<Rightarrow> string list \<Rightarrow> nat \<Rightarrow> string list \<Rightarrow> int \<Rightarrow> bool \<Rightarrow>
    'x StreamRunner \<Rightarrow> bool \<times> bool \<times> 'x StreamRunner" where
  "window_loop env baseSeq segs i [] nextPrefetch delivered s = (True, delivered, s)"
| "window_loop env baseSeq segs i (seg # rest) nextPrefetch delivered s =
    (case poll_debounce env s of
       (False, s) \<Rightarrow> (False, delivered, s)
     | (True, s) \<Rightarrow>
        (let segSeq = baseSeq + int i in
         if segSeq < sr_nextSeq s then window_loop env baseSeq segs (i + 1) rest nextPrefetch delivered s
         else case fetch_map env s of
           (MapReturn, s) \<Rightarrow> (False, delivered, s)
         | (MapBreak, s) \<Rightarrow> (True, delivered, s)
         | (MapGo, s) \<Rightarrow>
            (case prefetch_next env baseSeq segs nextPrefetch s of (np, s) \<Rightarrow>
             case take_segment env segSeq seg s of
               (Inl err, s) \<Rightarrow>
                 if sr_cancel env err s then (False, delivered, s)
                 else (True, delivered, s\<lparr>sr_segmentFailures := sr_segmentFailures s + 1\<rparr>)
             | (Inr d, s) \<Rightarrow>
                 if is_active (sr_settle s) then
                   window_loop env baseSeq segs (i + 1) rest np True
                     ((took segSeq d s)\<lparr>sr_settle := BufferMedia d (sr_settle s)\<rparr>)
                 else case send_chunk env d (took segSeq d s) of
                   (True, s) \<Rightarrow> window_loop env baseSeq segs (i + 1) rest np True s
                 | (False, s) \<Rightarrow> (False, True, s\<lparr>sr_dropped := sr_dropped s @ [d]\<rparr>))))"

definition deliverWindow :: "('x, 'r) runner_env \<Rightarrow> int \<Rightarrow> string list \<Rightarrow> 'x StreamRunner \<Rightarrow> bool \<times> 'x StreamRunner" where
  "deliverWindow env baseSeq segs s =
    (let maxSeq = baseSeq + int (length segs) - 1;
         ahead = (if sr_segmentFailures s > 0 then 0 else SegmentPrefetchAhead);
         primeEnd = (if sr_nextSeq s + ahead > maxSeq then maxSeq else sr_nextSeq s + ahead);
         s = (if sr_nextSeq s \<le> maxSeq then fold (prefetch env baseSeq segs) [sr_nextSeq s .. primeEnd] s else s) in
     case window_loop env baseSeq segs 0 segs (sr_nextSeq s + ahead + 1) False s of
       (False, delivered, s) \<Rightarrow> (False, s)
     | (True, delivered, s) \<Rightarrow>
         (True, if delivered then s\<lparr>sr_segmentFailures := 0, sr_backoff := exp_Reset (sr_backoff s)\<rparr> else s))"

section \<open>One poll\<close>

text \<open>A phase of \<open>onTick\<close> goes on with a playlist or leaves the function with its result.\<close>

datatype 'a flow = Return bool | Go 'a

definition tick_fetch :: "('x, 'r) runner_env \<Rightarrow> 'x StreamRunner \<Rightarrow> Playlist flow \<times> 'x StreamRunner" where
  "tick_fetch env s =
    (case fetch_playlist env s of
       (Inr pl, s) \<Rightarrow> (Go pl, s\<lparr>sr_playlistFailures := 0\<rparr>)
     | (Inl err, s) \<Rightarrow>
        if err = ErrNoM3u8URL then (Return False, s)
        else if sr_cancel env err s then (Return False, s)
        else
          (case fetch_playlist env (s\<lparr>sr_playlistFailures := sr_playlistFailures s + 1\<rparr>) of
             (Inr pl, s) \<Rightarrow> (Go pl, s\<lparr>sr_playlistFailures := 0\<rparr>)
           | (Inl err, s) \<Rightarrow>
              if err = ErrNoM3u8URL then (Return False, s)
              else if sr_cancel env err s then (Return False, s)
              else
                (let s = s\<lparr>sr_playlistFailures := sr_playlistFailures s + 1\<rparr> in
                 (Return (sr_playlistFailures s < 3), s))))"

definition tick_backoff :: "('x, 'r) runner_env \<Rightarrow> Playlist \<Rightarrow> 'x StreamRunner \<Rightarrow> Playlist flow \<times> 'x StreamRunner" where
  "tick_backoff env pl s =
    (if sr_segmentFailures s > 0 then
       (let (waitFor, b) = exp_Next (sr_backoff s);
            (fired, x) = re_sleep env waitFor (sr_world s);
            s = s\<lparr>sr_backoff := b, sr_world := x\<rparr> in
        if \<not> fired then (Return False, s)
        else if sr_segmentFailures s mod SegmentFailureRefreshEvery = 0 then
          (case refresh_url env s of
             (Some e, s) \<Rightarrow> (Go pl, s)
           | (None, s) \<Rightarrow>
              (case fetch_playlist env (s\<lparr>sr_currentMapURI := [], sr_mapSent := False\<rparr>) of
                 (Inr refreshed, s) \<Rightarrow> (Go refreshed, s)
               | (Inl err, s) \<Rightarrow>
                  if err = ErrNoM3u8URL then (Return False, s)
                  else if sr_cancel env err s then (Return False, s)
                  else (Return True, s)))
        else (Go pl, s))
     else (Go pl, s))"

definition tick_sequence :: "Playlist \<Rightarrow> 'x StreamRunner \<Rightarrow> 'x StreamRunner" where
  "tick_sequence pl s =
    (let baseSeq = pl_MediaSeq pl;
         s = (if baseSeq > sr_nextSeq s then s\<lparr>sr_nextSeq := baseSeq\<rparr> else s) in
     if ShouldResetSequenceOnRollback (sr_prevBaseSeq s) baseSeq (int (length (pl_Segments pl))) (sr_nextSeq s)
     then s\<lparr>sr_nextSeq := baseSeq, sr_mapSent := False\<rparr> else s)"

definition tick_map :: "Playlist \<Rightarrow> 'x StreamRunner \<Rightarrow> 'x StreamRunner" where
  "tick_map pl s =
    (if pl_MapURI pl \<noteq> sr_currentMapURI s then
       (let s = (if pl_MapURI pl = [] \<and> is_active (sr_settle s)
                 then s\<lparr>sr_settle := settle_cancel (sr_settle s), sr_armed := False\<rparr> else s)
        in s\<lparr>sr_currentMapURI := pl_MapURI pl, sr_mapSent := False\<rparr>)
     else s)"

definition tick_sync :: "('x, 'r) runner_env \<Rightarrow> Playlist \<Rightarrow> 'x StreamRunner \<Rightarrow> bool \<times> 'x StreamRunner" where
  "tick_sync env pl s =
    (if pl_Segments pl \<noteq> [] \<and> ShouldApplyManifestSyncWait (pl_MediaSeq pl) (sr_nextSeq s) (sr_lastSyncWait s) then
       (case re_sync env pl (sr_world s) of
          (True, x) \<Rightarrow> (True, s\<lparr>sr_world := x, sr_lastSyncWait := pl_MediaSeq pl\<rparr>)
        | (False, x) \<Rightarrow> (False, s\<lparr>sr_world := x\<rparr>))
     else (True, s))"

definition tick_deliver :: "('x, 'r) runner_env \<Rightarrow> Playlist \<Rightarrow> 'x StreamRunner \<Rightarrow> bool \<times> 'x StreamRunner" where
  "tick_deliver env pl s =
    (case tick_sync env pl (tick_map pl (tick_sequence pl s)) of
       (False, s) \<Rightarrow> (False, s)
     | (True, s) \<Rightarrow>
        (case deliverWindow env (pl_MediaSeq pl) (pl_Segments pl) s of
           (False, s) \<Rightarrow> (False, s)
         | (True, s) \<Rightarrow> (True, s\<lparr>sr_prevBaseSeq := pl_MediaSeq pl\<rparr>)))"

definition onTick :: "('x, 'r) runner_env \<Rightarrow> 'x StreamRunner \<Rightarrow> bool \<times> 'x StreamRunner" where
  "onTick env s =
    (case tick_fetch env s of
       (Return b, s) \<Rightarrow> (b, s)
     | (Go pl, s) \<Rightarrow>
        (case tick_backoff env pl s of
           (Return b, s) \<Rightarrow> (b, s)
         | (Go pl, s) \<Rightarrow> tick_deliver env pl s))"

section \<open>Starting and running\<close>

definition Start :: "int \<Rightarrow> Playlist \<Rightarrow> int \<Rightarrow> PlaylistSession \<Rightarrow> InitSettle \<Rightarrow> 'x \<Rightarrow> 'x StreamRunner" where
  "Start nextSeq pl prevBaseSeq ss st x =
    \<lparr>sr_session = ss, sr_settle = st, sr_world = x, sr_nextSeq = nextSeq, sr_prevBaseSeq = prevBaseSeq,
     sr_currentMapURI = pl_MapURI pl, sr_mapSent = False, sr_armed = False, sr_playlistFailures = 0,
     sr_segmentFailures = 0, sr_backoff = NewExpotential 2000 (\<lambda>d. d * 2) 5000, sr_lastSyncWait = -1,
     sr_sent = [], sr_taken = [], sr_dropped = []\<rparr>"

definition ReadHlsStream :: "('x, 'r) runner_env \<Rightarrow> 'x \<Rightarrow> hls_error + 'x StreamRunner" where
  "ReadHlsStream env x =
    (case RefreshURL (wire_env (re_hls env)) NewPlaylistSession (NewInitSettle, x) of
       (Some err, _) \<Rightarrow> Inl err
     | (None, ss, w) \<Rightarrow>
        (case FetchWithRefresh (wire_env (re_hls env)) ss w of
           (Inl err, _) \<Rightarrow> Inl err
         | (Inr pl, ss, st, x) \<Rightarrow>
            (let nextSeq = pl_MediaSeq pl + int (length (pl_Segments pl));
                 nextSeq = (if pl_MapURI pl \<noteq> [] then pl_MediaSeq pl else nextSeq)
             in Inr (Start nextSeq pl (pl_MediaSeq pl) ss st x))))"

text \<open>The select of the run loop: a debounce or a tick, while the loop goes on.\<close>

inductive runner_step :: "('x, 'r) runner_env \<Rightarrow> 'x StreamRunner \<Rightarrow> 'x StreamRunner \<Rightarrow> bool" for env where
  Debounce: "sr_armed s \<Longrightarrow> sendSettle env (s\<lparr>sr_armed := False\<rparr>) = (True, s') \<Longrightarrow> runner_step env s s'"
| Tick: "onTick env s = (True, s') \<Longrightarrow> runner_step env s s'"

inductive_cases runner_stepE: "runner_step env s s'"

text \<open>The deferred calls when the loop is left.\<close>

definition runner_exit :: "('x, 'r) runner_env \<Rightarrow> 'x StreamRunner \<Rightarrow> 'x StreamRunner" where
  "runner_exit env s = (if is_active (sr_settle s) then snd (sendSettle env s) else s)"

section \<open>What the helpers leave alone\<close>

definition position :: "'x StreamRunner \<Rightarrow> int \<times> (int \<times> bytes) list \<times> int" where
  "position s = (sr_nextSeq s, sr_taken s, sr_prevBaseSeq s)"

lemma send_chunk_position: "send_chunk env d s = (b, s') \<Longrightarrow> position s' = position s"
  by (auto simp: send_chunk_def position_def split: prod.splits bool.splits)

lemma send_media_position: "send_media env media s = (b, s') \<Longrightarrow> position s' = position s"
proof (induction media arbitrary: s)
  case (Cons frag media)
  then show ?case
    using send_chunk_position [of env frag s]
    by (auto split: prod.splits bool.splits) (auto simp: position_def)
qed simp

lemma sendSettle_position:
  assumes "sendSettle env s = (b, s')"
  shows "position s' = position s"
proof -
  obtain i media st where S: "Settle (sr_settle s) = (i, media, st)"
    by (metis prod_cases3)
  show ?thesis
  proof (cases i)
    case None
    then show ?thesis
      using assms S by (auto simp: sendSettle_def position_def)
  next
    case (Some d)
    obtain ok s1 where c: "send_chunk env d (s\<lparr>sr_settle := st, sr_armed := False\<rparr>) = (ok, s1)"
      by (metis surj_pair)
    have "position s1 = position s"
      using send_chunk_position [OF c] by (simp add: position_def)
    then show ?thesis
      using assms S Some c send_media_position [of env media s1]
      by (cases ok) (auto simp: sendSettle_def position_def)
  qed
qed

lemma acceptMap_position: "acceptMap env m s = (b, s') \<Longrightarrow> position s' = position s"
  by (auto simp: acceptMap_def send_chunk_def position_def Let_def
      split: prod.splits option.splits bool.splits if_splits)

lemma poll_debounce_position:
  assumes "poll_debounce env s = (b, s')"
  shows "position s' = position s"
proof (cases "is_active (sr_settle s) \<and> sr_armed s")
  case True
  obtain f x where f: "re_fired env (sr_world s) = (f, x)"
    by (metis surj_pair)
  show ?thesis
    using assms True f sendSettle_position [of env "s\<lparr>sr_world := x, sr_armed := False\<rparr>" b s']
    by (cases f) (auto simp: poll_debounce_def position_def)
next
  case False
  then show ?thesis
    using assms by (auto simp: poll_debounce_def)
qed

lemma fetch_map_cases:
  assumes "fetch_map env s = (r, s')"
  obtains (stay) x where "s' = s\<lparr>sr_world := x\<rparr>"
  | (map) x m b where "acceptMap env m (s\<lparr>sr_world := x\<rparr>) = (b, s')" "r = (if b then MapGo else MapReturn)"
proof (cases "sr_currentMapURI s \<noteq> [] \<and> \<not> sr_mapSent s")
  case False
  then show ?thesis
    using assms stay [of "sr_world s"] by (auto simp: fetch_map_def)
next
  case need: True
  show ?thesis
  proof (cases "Resolve (re_resolve env) (ps_m3u8URL (sr_session s)) (sr_currentMapURI s)")
    case None
    then show ?thesis
      using assms need stay [of "sr_world s"] by (auto simp: fetch_map_def)
  next
    case (Some mapURL)
    then show ?thesis
      using assms need stay map
      by (auto simp: fetch_map_def Let_def split: prod.splits sum.splits if_splits bool.splits)
  qed
qed

lemma fetch_map_position:
  assumes "fetch_map env s = (r, s')"
  shows "position s' = position s"
  using assms
proof (cases rule: fetch_map_cases)
  case (stay x)
  then show ?thesis by (simp add: position_def)
next
  case (map x m b)
  then show ?thesis
    using acceptMap_position [OF map(1)] by (simp add: position_def)
qed

lemma prefetch_position [simp]: "position (prefetch env base segs q s) = position s"
  by (simp add: prefetch_def position_def)

lemma take_segment_position: "take_segment env q uri s = (r, s') \<Longrightarrow> position s' = position s"
  by (auto simp: take_segment_def position_def split: prod.splits)

lemma prefetch_fold_position [simp]: "position (fold (prefetch env base segs) qs s) = position s"
  by (induction qs arbitrary: s) simp_all

lemma with_session_position: "with_session f s = (r, s') \<Longrightarrow> position s' = position s"
  by (auto simp: with_session_def position_def split: prod.splits)

lemma session_position:
  "fetch_playlist env s = (r, s') \<Longrightarrow> position s' = position s"
  "refresh_url env s = (e, s') \<Longrightarrow> position s' = position s"
  by (auto simp: fetch_playlist_def refresh_url_def intro: with_session_position)

section \<open>The segments taken\<close>

lemma window_loop_cases:
  assumes "window_loop env base segs i (seg # rest) np dl s = res"
  obtains
    (poll_fail) s1 where "poll_debounce env s = (False, s1)" "res = (False, dl, s1)"
  | (skip) s1 where "poll_debounce env s = (True, s1)" "base + int i < sr_nextSeq s1"
      "window_loop env base segs (i + 1) rest np dl s1 = res"
  | (map_fail) s1 s2 where "poll_debounce env s = (True, s1)" "fetch_map env s1 = (MapReturn, s2)"
      "res = (False, dl, s2)"
  | (map_break) s1 s2 where "poll_debounce env s = (True, s1)" "fetch_map env s1 = (MapBreak, s2)"
      "res = (True, dl, s2)"
  | (await_fail) s1 s2 np' s3 err s4 n b where "poll_debounce env s = (True, s1)" "fetch_map env s1 = (MapGo, s2)"
      "prefetch_next env base segs np s2 = (np', s3)" "take_segment env (base + int i) seg s3 = (Inl err, s4)"
      "res = (b, dl, s4\<lparr>sr_segmentFailures := n\<rparr>)"
  | (hold) s1 s2 np' s3 d s4 where "poll_debounce env s = (True, s1)" "base + int i \<ge> sr_nextSeq s1"
      "fetch_map env s1 = (MapGo, s2)"
      "prefetch_next env base segs np s2 = (np', s3)" "take_segment env (base + int i) seg s3 = (Inr d, s4)"
      "is_active (sr_settle s4)" 
      "window_loop env base segs (i + 1) rest np' True
        ((took (base + int i) d s4)\<lparr>sr_settle := BufferMedia d (sr_settle s4)\<rparr>) = res"
  | (send) s1 s2 np' s3 d s4 s5 where "poll_debounce env s = (True, s1)" "base + int i \<ge> sr_nextSeq s1"
      "fetch_map env s1 = (MapGo, s2)"
      "prefetch_next env base segs np s2 = (np', s3)" "take_segment env (base + int i) seg s3 = (Inr d, s4)"
      "\<not> is_active (sr_settle s4)" "send_chunk env d (took (base + int i) d s4) = (True, s5)"
      "window_loop env base segs (i + 1) rest np' True s5 = res"
  | (send_fail) s1 s2 np' s3 d s4 s5 where "poll_debounce env s = (True, s1)" "base + int i \<ge> sr_nextSeq s1"
      "fetch_map env s1 = (MapGo, s2)"
      "prefetch_next env base segs np s2 = (np', s3)" "take_segment env (base + int i) seg s3 = (Inr d, s4)"
      "send_chunk env d (took (base + int i) d s4) = (False, s5)"
      "res = (False, True, s5\<lparr>sr_dropped := sr_dropped s5 @ [d]\<rparr>)"
proof -
  obtain p s1 where p: "poll_debounce env s = (p, s1)" by (metis surj_pair)
  obtain m s2 where m: "fetch_map env s1 = (m, s2)" by (metis surj_pair)
  obtain np' s3 where s3: "prefetch_next env base segs np s2 = (np', s3)" by (metis surj_pair)
  obtain t s4 where t: "take_segment env (base + int i) seg s3 = (t, s4)" by (metis surj_pair)
  consider "\<not> p" | "p" "base + int i < sr_nextSeq s1" | "p" "base + int i \<ge> sr_nextSeq s1" by linarith
  then show ?thesis
  proof cases
    case 1
    then show ?thesis using assms p poll_fail by simp
  next
    case 2
    then show ?thesis using assms p skip by simp
  next
    case 3
    show ?thesis
    proof (cases m)
      case MapReturn
      then show ?thesis using assms p m 3 map_fail by simp
    next
      case MapBreak
      then show ?thesis using assms p m 3 map_break by simp
    next
      case MapGo
      have p1: "poll_debounce env s = (True, s1)" and m1: "fetch_map env s1 = (MapGo, s2)"
        using p m 3 MapGo by simp_all
      note eqs = p1 m1 3 s3 t
      show ?thesis
      proof (cases t)
        case (Inl err)
        then have "res = (if sr_cancel env err s4 then (False, dl, s4)
             else (True, dl, s4\<lparr>sr_segmentFailures := sr_segmentFailures s4 + 1\<rparr>))"
          using eqs unfolding assms [symmetric] by simp
        moreover have "s4 = s4\<lparr>sr_segmentFailures := sr_segmentFailures s4\<rparr>" by simp
        ultimately obtain b n where "res = (b, dl, s4\<lparr>sr_segmentFailures := n\<rparr>)"
          by metis
        then show ?thesis
          using await_fail [of s1 s2 np' s3 err s4 b n] eqs t [unfolded Inl] by blast
      next
        case (Inr d)
        obtain c s5 where c: "send_chunk env d (took (base + int i) d s4) = (c, s5)" by (metis surj_pair)
        show ?thesis
        proof (cases "is_active (sr_settle s4)")
          case True
          then have "window_loop env base segs (i + 1) rest np' True
              ((took (base + int i) d s4)\<lparr>sr_settle := BufferMedia d (sr_settle s4)\<rparr>) = res"
            using eqs Inr unfolding assms [symmetric] by simp
          then show ?thesis
            using hold [of s1 s2 np' s3 d s4] eqs t [unfolded Inr] True by blast
        next
          case False
          show ?thesis
          proof (cases c)
            case True
            then have "window_loop env base segs (i + 1) rest np' True s5 = res"
              using eqs Inr \<open>\<not> is_active (sr_settle s4)\<close> c unfolding assms [symmetric] by simp
            then show ?thesis
              using send [of s1 s2 np' s3 d s4 s5] eqs t [unfolded Inr] \<open>\<not> is_active (sr_settle s4)\<close> c True by (metis (full_types))
          next
            case False
            then have "res = (False, True, s5\<lparr>sr_dropped := sr_dropped s5 @ [d]\<rparr>)"
              using eqs Inr \<open>\<not> is_active (sr_settle s4)\<close> c unfolding assms [symmetric] by simp
            then show ?thesis
              using send_fail [of s1 s2 np' s3 d s4 s5] eqs t [unfolded Inr] c False by (metis (full_types))
          qed
        qed
      qed
    qed
  qed
qed

lemma position_took:
  "position s4 = position s \<Longrightarrow> position (took q d s4) = (q + 1, sr_taken s @ [(q, d)], sr_prevBaseSeq s)"
  by (simp add: position_def took_def)

lemma position_unfold:
  "position s' = (n, t, p) \<longleftrightarrow> sr_nextSeq s' = n \<and> sr_taken s' = t \<and> sr_prevBaseSeq s' = p"
  by (simp add: position_def)

text \<open>The state handed to \<open>took\<close> is at the position where the step began.\<close>

lemma taking_position:
  assumes "poll_debounce env s = (True, s1)" "fetch_map env s1 = (MapGo, s2)"
    "prefetch_next env base segs np s2 = (np', s3)" "take_segment env q seg s3 = (t, s4)"
  shows "position s4 = position s"
  using poll_debounce_position [OF assms(1)] fetch_map_position [OF assms(2)]
    take_segment_position [OF assms(4)] assms(3)
  by (auto simp: prefetch_next_def split: if_splits)

lemma took_upto:
  "map fst new = [q + 1 .. m - 1] \<Longrightarrow> q + 1 \<le> m \<Longrightarrow> map fst ((q, d) # new) = [q .. m - 1]"
  using upto_rec1 [of q "m - 1"] by simp

lemma window_taken:
  "window_loop env base segs i rest np dl s = (b, dl', s') \<Longrightarrow> base + int i \<le> sr_nextSeq s \<Longrightarrow>
    \<exists>new. sr_taken s' = sr_taken s @ new \<and> map fst new = [sr_nextSeq s .. sr_nextSeq s' - 1] \<and>
      sr_nextSeq s \<le> sr_nextSeq s' \<and> sr_prevBaseSeq s' = sr_prevBaseSeq s"
proof (induction rest arbitrary: i np dl s)
  case Nil
  then show ?case by auto
next
  case (Cons seg rest)
  have stay: ?case if "position s' = position s"
    using that by (auto simp: position_def)
  have after: ?case
    if q: "base + int i \<ge> sr_nextSeq s" and p5: "position s5 = (base + int i + 1, sr_taken s @ [(base + int i, d)], sr_prevBaseSeq s)"
      and new: "\<exists>new. sr_taken s' = sr_taken s5 @ new \<and> map fst new = [sr_nextSeq s5 .. sr_nextSeq s' - 1] \<and>
      sr_nextSeq s5 \<le> sr_nextSeq s' \<and> sr_prevBaseSeq s' = sr_prevBaseSeq s5" for s5 d
  proof -
    have q: "base + int i = sr_nextSeq s" using q Cons.prems(2) by simp
    obtain new where n: "sr_taken s' = sr_taken s5 @ new" "map fst new = [sr_nextSeq s5 .. sr_nextSeq s' - 1]"
      "sr_nextSeq s5 \<le> sr_nextSeq s'" "sr_prevBaseSeq s' = sr_prevBaseSeq s5"
      using new by blast
    have "map fst ((sr_nextSeq s, d) # new) = [sr_nextSeq s .. sr_nextSeq s' - 1]"
      using n p5 by (intro took_upto) (simp_all add: position_def q)
    then show ?thesis
      using n p5 by (intro exI [of _ "(sr_nextSeq s, d) # new"]) (simp add: position_def q)
  qed
  show ?case
    using Cons.prems(1)
  proof (cases rule: window_loop_cases)
    case (poll_fail s1)
    then show ?thesis using poll_debounce_position stay by blast
  next
    case (skip s1)
    have pos: "position s1 = position s" using poll_debounce_position [OF skip(1)] .
    then have "base + int (i + 1) \<le> sr_nextSeq s1"
      using skip(2) by simp
    then show ?thesis
      using Cons.IH [OF skip(3)] pos by (simp add: position_def)
  next
    case (map_fail s1 s2)
    then show ?thesis
      using poll_debounce_position [OF map_fail(1)] fetch_map_position [OF map_fail(2)] stay by simp
  next
    case (map_break s1 s2)
    then show ?thesis
      using poll_debounce_position [OF map_break(1)] fetch_map_position [OF map_break(2)] stay by simp
  next
    case (await_fail s1 s2 np' s3 err s4 n b')
    then show ?thesis
      using taking_position [OF await_fail(1-4)] by (intro stay) (simp add: position_def)
  next
    case (hold s1 s2 np' s3 d s4)
    define s5 where "s5 = (took (base + int i) d s4)\<lparr>sr_settle := BufferMedia d (sr_settle s4)\<rparr>"
    have p5: "position s5 = (base + int i + 1, sr_taken s @ [(base + int i, d)], sr_prevBaseSeq s)"
      using taking_position [OF hold(1,3,4,5)] by (simp add: s5_def took_def position_def)
    have "sr_nextSeq s \<le> base + int i"
      using hold(2) poll_debounce_position [OF hold(1)] by (simp add: position_def)
    then show ?thesis
      using after [OF _ p5] Cons.IH [OF hold(7) [folded s5_def]] p5 by (simp add: position_def)
  next
    case (send s1 s2 np' s3 d s4 s5)
    have p5: "position s5 = (base + int i + 1, sr_taken s @ [(base + int i, d)], sr_prevBaseSeq s)"
      using position_took [OF taking_position [OF send(1,3,4,5)]] send_chunk_position [OF send(7)] by simp
    have "sr_nextSeq s \<le> base + int i"
      using send(2) poll_debounce_position [OF send(1)] by (simp add: position_def)
    then show ?thesis
      using after [OF _ p5] Cons.IH [OF send(8)] p5 by (simp add: position_def)
  next
    case (send_fail s1 s2 np' s3 d s4 s5)
    have p5: "position s5 = (base + int i + 1, sr_taken s @ [(base + int i, d)], sr_prevBaseSeq s)"
      using position_took [OF taking_position [OF send_fail(1,3,4,5)]] send_chunk_position [OF send_fail(6)] by simp
    have "sr_nextSeq s \<le> base + int i"
      using send_fail(2) poll_debounce_position [OF send_fail(1)] by (simp add: position_def)
    then show ?thesis
      using after [OF _ p5] p5 send_fail(7) by (simp add: position_def)
  qed
qed

lemma deliverWindow_taken:
  assumes "deliverWindow env base segs s = (b, s')" and "base \<le> sr_nextSeq s"
  shows "\<exists>new. sr_taken s' = sr_taken s @ new \<and> map fst new = [sr_nextSeq s .. sr_nextSeq s' - 1] \<and>
      sr_nextSeq s \<le> sr_nextSeq s' \<and> sr_prevBaseSeq s' = sr_prevBaseSeq s"
proof -
  define ahead :: int where "ahead = (if sr_segmentFailures s > 0 then 0 else SegmentPrefetchAhead)"
  define s1 where "s1 = (let maxSeq = base + int (length segs) - 1;
      primeEnd = (if sr_nextSeq s + ahead > maxSeq then maxSeq else sr_nextSeq s + ahead) in
      if sr_nextSeq s \<le> maxSeq then fold (prefetch env base segs) [sr_nextSeq s .. primeEnd] s else s)"
  have p1: "position s1 = position s"
    by (simp add: s1_def Let_def)
  obtain b2 dl s2 where w: "window_loop env base segs 0 segs (sr_nextSeq s1 + ahead + 1) False s1 = (b2, dl, s2)"
    by (metis prod_cases3)
  have "deliverWindow env base segs s = (case (b2, dl, s2) of
       (False, delivered, s) \<Rightarrow> (False, s)
     | (True, delivered, s) \<Rightarrow>
         (True, if delivered then s\<lparr>sr_segmentFailures := 0, sr_backoff := exp_Reset (sr_backoff s)\<rparr> else s))"
    unfolding w [symmetric] deliverWindow_def s1_def ahead_def Let_def by (rule refl)
  then have "position s' = position s2"
    using assms(1) by (cases b2) (auto simp: position_def)
  then show ?thesis
    using window_taken [OF w] assms(2) p1 by (simp add: position_def)
qed

lemma tick_fetch_position:
  assumes "tick_fetch env s = (r, s')"
  shows "position s' = position s"
proof -
  obtain f1 s1 where f1: "fetch_playlist env s = (f1, s1)" by (metis surj_pair)
  obtain f2 s2 where f2: "fetch_playlist env (s1\<lparr>sr_playlistFailures := sr_playlistFailures s1 + 1\<rparr>) = (f2, s2)"
    by (metis surj_pair)
  have "position s1 = position s" "position s2 = position s"
    using session_position(1) [OF f1] session_position(1) [OF f2] by (simp_all add: position_def)
  then show ?thesis
    using assms f1 f2
    by (cases f1; cases f2) (auto simp: tick_fetch_def position_def Let_def split: if_splits)
qed

lemma tick_backoff_position:
  assumes "tick_backoff env pl s = (r, s')"
  shows "position s' = position s"
proof -
  obtain waitFor b where n: "exp_Next (sr_backoff s) = (waitFor, b)" by (metis surj_pair)
  obtain fired x where w: "re_sleep env waitFor (sr_world s) = (fired, x)" by (metis surj_pair)
  define s0 where "s0 = s\<lparr>sr_backoff := b, sr_world := x\<rparr>"
  obtain e s1 where r: "refresh_url env s0 = (e, s1)" by (metis surj_pair)
  obtain f s2 where f: "fetch_playlist env (s1\<lparr>sr_currentMapURI := [], sr_mapSent := False\<rparr>) = (f, s2)"
    by (metis surj_pair)
  have "position s0 = position s" by (simp add: s0_def position_def)
  moreover have "position s1 = position s0" "position s2 = position s0"
    using session_position(2) [OF r] session_position(1) [OF f] by (simp_all add: position_def)
  ultimately show ?thesis
    using assms n w r f
    by (cases f; cases e)
      (auto simp: tick_backoff_def s0_def [symmetric] Let_def split: if_splits)
qed

lemma tick_sequence_start:
  "pl_MediaSeq pl \<le> sr_nextSeq (tick_sequence pl s) \<and>
   (sr_nextSeq s \<le> sr_nextSeq (tick_sequence pl s) \<or> sr_nextSeq (tick_sequence pl s) < sr_prevBaseSeq s) \<and>
   sr_taken (tick_sequence pl s) = sr_taken s \<and> sr_prevBaseSeq (tick_sequence pl s) = sr_prevBaseSeq s"
  by (auto simp: tick_sequence_def Let_def ShouldResetSequenceOnRollback_def)

lemma tick_map_position [simp]: "position (tick_map pl s) = position s"
  by (simp add: tick_map_def position_def Let_def)

lemma tick_sync_position: "tick_sync env pl s = (b, s') \<Longrightarrow> position s' = position s"
  by (auto simp: tick_sync_def position_def split: if_splits prod.splits bool.splits)

lemma onTick_taken:
  assumes "onTick env s = (b, s')"
  shows "\<exists>start new. sr_taken s' = sr_taken s @ new \<and> map fst new = [start .. sr_nextSeq s' - 1] \<and>
    start \<le> sr_nextSeq s' \<and> (sr_nextSeq s \<le> start \<or> start < sr_prevBaseSeq s)"
proof -
  have stay: ?thesis if "position s' = position s"
    using that by (intro exI [of _ "sr_nextSeq s"] exI [of _ "[]"]) (simp add: position_def)
  obtain f s1 where f: "tick_fetch env s = (f, s1)" by (metis surj_pair)
  note p1 = tick_fetch_position [OF f]
  show ?thesis
  proof (cases f)
    case (Return r)
    then show ?thesis using assms f p1 stay by (simp add: onTick_def)
  next
    case (Go pl)
    obtain g s2 where g: "tick_backoff env pl s1 = (g, s2)" by (metis surj_pair)
    have p2: "position s2 = position s" using tick_backoff_position [OF g] p1 by simp
    show ?thesis
    proof (cases g)
      case (Return r)
      then show ?thesis using assms f Go g p2 stay by (simp add: onTick_def)
    next
      case (Go pl')
      then have d: "tick_deliver env pl' s2 = (b, s')"
        using assms f \<open>f = flow.Go pl\<close> g by (simp add: onTick_def)
      define s3 where "s3 = tick_sequence pl' s2"
      obtain w s4 where w: "tick_sync env pl' (tick_map pl' s3) = (w, s4)" by (metis surj_pair)
      obtain v s5 where v: "deliverWindow env (pl_MediaSeq pl') (pl_Segments pl') s4 = (v, s5)"
        by (metis surj_pair)
      have s3: "pl_MediaSeq pl' \<le> sr_nextSeq s3" "sr_nextSeq s \<le> sr_nextSeq s3 \<or> sr_nextSeq s3 < sr_prevBaseSeq s"
          "sr_taken s3 = sr_taken s"
        using tick_sequence_start [of pl' s2] p2 by (simp_all add: s3_def position_def)
      have p4: "sr_nextSeq s4 = sr_nextSeq s3" "sr_taken s4 = sr_taken s"
        using tick_sync_position [OF w] tick_map_position [of pl' s3] s3
        by (simp_all add: position_def del: tick_map_position)
      show ?thesis
      proof (cases w)
        case False
        then have "s' = s4" using d w by (simp add: tick_deliver_def s3_def)
        then show ?thesis
          using s3 p4 by (intro exI [of _ "sr_nextSeq s3"] exI [of _ "[]"]) auto
      next
        case True
        then have "sr_taken s' = sr_taken s5 \<and> sr_nextSeq s' = sr_nextSeq s5"
          using d w v by (cases v) (auto simp: tick_deliver_def s3_def)
        then show ?thesis
          using deliverWindow_taken [OF v] s3 p4 by (intro exI [of _ "sr_nextSeq s3"]) auto
      qed
    qed
  qed
qed

text \<open>C10. Segments are taken in order and without gaps: the segments one poll takes carry
  consecutive sequence numbers that end right before the next one expected, and start at or
  after the one expected before, unless the playlist rolled back behind its previous window.\<close>

theorem stream_takes_in_order:
  "\<exists>start new. sr_taken (snd (onTick env s)) = sr_taken s @ new \<and>
    map fst new = [start .. sr_nextSeq (snd (onTick env s)) - 1] \<and>
    start \<le> sr_nextSeq (snd (onTick env s)) \<and> (sr_nextSeq s \<le> start \<or> start < sr_prevBaseSeq s)"
  using onTick_taken by (metis prod.collapse)

section \<open>The loop implements the settling machine\<close>

text \<open>Sequences of settling events with what they deliver, and the media among the events.\<close>

inductive settle_trace :: "InitSettle \<Rightarrow> settle_event list \<Rightarrow> bytes list \<Rightarrow> InitSettle \<Rightarrow> bool" where
  Done: "settle_trace s [] [] s"
| Step: "settle_step s ev out s1 \<Longrightarrow> settle_trace s1 evs outs s2 \<Longrightarrow> settle_trace s (ev # evs) (out @ outs) s2"

fun event_media :: "settle_event list \<Rightarrow> bytes list" where
  "event_media [] = []"
| "event_media (EvMedia d # evs) = d # event_media evs"
| "event_media (_ # evs) = event_media evs"

lemma event_media_append [simp]: "event_media (e1 @ e2) = event_media e1 @ event_media e2"
  by (induction e1 rule: event_media.induct) simp_all

lemma settle_trace_append:
  "settle_trace s e1 o1 s1 \<Longrightarrow> settle_trace s1 e2 o2 s2 \<Longrightarrow> settle_trace s (e1 @ e2) (o1 @ o2) s2"
  by (induction rule: settle_trace.induct) (auto intro: settle_trace.intros)

text \<open>From \<open>s\<close> to \<open>s'\<close> the loop sent what the settling delivers on the events, in that order.\<close>

definition delivers :: "'x StreamRunner \<Rightarrow> settle_event list \<Rightarrow> 'x StreamRunner \<Rightarrow> bool" where
  "delivers s evs s' = (\<exists>outs. settle_trace (sr_settle s) evs outs (sr_settle s') \<and> sr_sent s' = sr_sent s @ outs)"

lemma delivers_same: "sr_settle s' = sr_settle s \<Longrightarrow> sr_sent s' = sr_sent s \<Longrightarrow> delivers s [] s'"
  by (simp add: delivers_def settle_trace.Done)

lemma delivers_trans: "delivers s e1 s1 \<Longrightarrow> delivers s1 e2 s2 \<Longrightarrow> delivers s (e1 @ e2) s2"
  unfolding delivers_def by (metis append.assoc settle_trace_append)

lemma delivers_step:
  "settle_step (sr_settle s) ev out (sr_settle s') \<Longrightarrow> sr_sent s' = sr_sent s @ out \<Longrightarrow> delivers s [ev] s'"
  unfolding delivers_def by (metis append_Nil2 settle_trace.Done settle_trace.Step)

lemma send_chunk_sent: "send_chunk env d s = (True, s') \<Longrightarrow> sr_sent s' = sr_sent s @ [d] \<and> sr_settle s' = sr_settle s"
  by (auto simp: send_chunk_def split: prod.splits bool.splits)

lemma send_media_sent:
  "send_media env media s = (True, s') \<Longrightarrow> sr_sent s' = sr_sent s @ media \<and> sr_settle s' = sr_settle s"
proof (induction media arbitrary: s)
  case (Cons frag media)
  obtain ok s1 where c: "send_chunk env frag s = (ok, s1)" by (metis surj_pair)
  then show ?case
    using Cons send_chunk_sent [of env frag s s1] by (cases ok) auto
qed simp

lemma sendSettle_delivers:
  assumes "sendSettle env s = (True, s')"
  shows "delivers s [EvSettle] s'"
proof -
  obtain i media st where S: "Settle (sr_settle s) = (i, media, st)" by (metis prod_cases3)
  show ?thesis
  proof (cases i)
    case None
    then have "media = []" using S by (auto simp: Settle_def split: if_splits)
    then show ?thesis
      using assms S None settle_step.Settle [OF S] by (intro delivers_step) (auto simp: sendSettle_def)
  next
    case (Some d)
    obtain ok s1 where c: "send_chunk env d (s\<lparr>sr_settle := st, sr_armed := False\<rparr>) = (ok, s1)"
      by (metis surj_pair)
    then have "ok" "send_media env media s1 = (True, s')"
      using assms S Some by (cases ok; simp add: sendSettle_def)+
    then show ?thesis
      using settle_step.Settle [OF S] Some send_chunk_sent [of env d _ s1] send_media_sent [of env media s1 s'] c
      by (intro delivers_step [where out = "d # media"]) auto
  qed
qed

lemma acceptMap_delivers:
  assumes "acceptMap env m s = (True, s')"
  shows "delivers s [EvMap m] s'"
proof -
  obtain res st where A: "AcceptMap m (sr_settle s) = (res, st)" by (metis surj_pair)
  note step = settle_step.Map [OF A]
  define s0 where "s0 = (let s = s\<lparr>sr_settle := st, sr_mapSent := True\<rparr>;
      s = (if am_StopTimer res then s\<lparr>sr_armed := False\<rparr> else s)
    in (if am_ArmTimer res then s\<lparr>sr_armed := True\<rparr> else s))"
  have s0: "sr_settle s0 = st" "sr_sent s0 = sr_sent s" by (simp_all add: s0_def Let_def)
  show ?thesis
  proof (cases "am_DeliverNow res")
    case None
    then have "s' = s0" using assms A by (simp add: acceptMap_def s0_def Let_def)
    then show ?thesis using step None s0 by (intro delivers_step) auto
  next
    case (Some d)
    obtain ok s1 where c: "send_chunk env d s0 = (ok, s1)" by (metis surj_pair)
    have "ok \<and> s' = s1"
      using assms A Some c by (cases ok) (simp_all add: acceptMap_def s0_def Let_def)
    then show ?thesis using step Some s0 send_chunk_sent [of env d s0 s1] c by (intro delivers_step) auto
  qed
qed

lemma poll_debounce_delivers:
  assumes "poll_debounce env s = (True, s')"
  shows "\<exists>evs. delivers s evs s' \<and> event_media evs = []"
proof (cases "is_active (sr_settle s) \<and> sr_armed s")
  case True
  obtain f x where f: "re_fired env (sr_world s) = (f, x)" by (metis surj_pair)
  show ?thesis
  proof (cases f)
    case True
    then have "sendSettle env (s\<lparr>sr_world := x, sr_armed := False\<rparr>) = (True, s')"
      using assms \<open>is_active (sr_settle s) \<and> sr_armed s\<close> f by (simp add: poll_debounce_def)
    from sendSettle_delivers [OF this] show ?thesis
      by (intro exI [of _ "[EvSettle]"]) (simp add: delivers_def)
  next
    case False
    then show ?thesis
      using assms \<open>is_active (sr_settle s) \<and> sr_armed s\<close> f
      by (intro exI [of _ "[]"]) (auto simp: poll_debounce_def intro: delivers_same)
  qed
next
  case False
  then show ?thesis
    using assms by (intro exI [of _ "[]"]) (auto simp: poll_debounce_def intro: delivers_same)
qed

lemma fetch_map_delivers:
  assumes "fetch_map env s = (r, s')" and "r \<noteq> MapReturn"
  shows "\<exists>evs. delivers s evs s' \<and> event_media evs = []"
  using assms(1)
proof (cases rule: fetch_map_cases)
  case (stay x)
  then show ?thesis by (intro exI [of _ "[]"]) (auto intro: delivers_same)
next
  case (map x m b)
  then have "acceptMap env m (s\<lparr>sr_world := x\<rparr>) = (True, s')"
    using assms(2) by (cases b) simp_all
  from acceptMap_delivers [OF this] show ?thesis
    by (intro exI [of _ "[EvMap m]"]) (simp add: delivers_def)
qed

lemma taking_delivers:
  assumes "poll_debounce env s = (True, s1)" "fetch_map env s1 = (MapGo, s2)"
    "prefetch_next env base segs np s2 = (np', s3)" "take_segment env q seg s3 = (t, s4)"
  shows "\<exists>evs. delivers s evs s4 \<and> event_media evs = []"
proof -
  obtain e1 e2 where e: "delivers s e1 s1" "event_media e1 = []" "delivers s1 e2 s2" "event_media e2 = []"
    using poll_debounce_delivers [OF assms(1)] fetch_map_delivers [OF assms(2)] by auto
  have "delivers s2 [] s4"
    using assms(3,4) by (intro delivers_same)
      (auto simp: prefetch_next_def prefetch_def take_segment_def split: if_splits prod.splits)
  then have "delivers s (e1 @ e2 @ []) s4"
    using e delivers_trans by blast
  then show ?thesis
    using e by (intro exI [of _ "e1 @ e2 @ []"]) simp
qed

lemma window_delivers:
  "window_loop env base segs i rest np dl s = (True, dl', s') \<Longrightarrow>
    \<exists>evs. delivers s evs s' \<and> map snd (sr_taken s') = map snd (sr_taken s) @ event_media evs"
proof (induction rest arbitrary: i np dl s)
  case Nil
  then show ?case by (intro exI [of _ "[]"]) (auto intro: delivers_same)
next
  case (Cons seg rest)
  have chain: ?case
    if "delivers s e1 s5" "map snd (sr_taken s5) = map snd (sr_taken s) @ event_media e1"
      and "\<exists>evs. delivers s5 evs s' \<and> map snd (sr_taken s') = map snd (sr_taken s5) @ event_media evs" for e1 s5
    using that delivers_trans by fastforce
  show ?case
    using Cons.prems
  proof (cases rule: window_loop_cases)
    case (skip s1)
    then show ?thesis
      using poll_debounce_delivers [OF skip(1)] poll_debounce_position [OF skip(1)] Cons.IH [OF skip(3)] chain
      by (fastforce simp: position_def)
  next
    case (map_break s1 s2)
    obtain e1 where e1: "delivers s e1 s1" "event_media e1 = []"
      using poll_debounce_delivers [OF map_break(1)] by auto
    obtain e2 where e2: "delivers s1 e2 s2" "event_media e2 = []"
      using fetch_map_delivers [OF map_break(2)] by auto
    have "delivers s (e1 @ e2) s2 \<and> event_media (e1 @ e2) = []"
      using delivers_trans [OF e1(1) e2(1)] e1 e2 by simp
    then show ?thesis
      using map_break poll_debounce_position [OF map_break(1)] fetch_map_position [OF map_break(2)]
      by (intro exI [of _ "e1 @ e2"]) (simp add: position_def)
  next
    case (await_fail s1 s2 np' s3 err s4 n b)
    obtain evs where "delivers s evs s4" "event_media evs = []"
      using taking_delivers [OF await_fail(1-4)] by auto
    then show ?thesis
      using await_fail(5) taking_position [OF await_fail(1-4)]
      by (intro exI [of _ evs]) (simp add: delivers_def position_def)
  next
    case (hold s1 s2 np' s3 d s4)
    define s5 where "s5 = (took (base + int i) d s4)\<lparr>sr_settle := BufferMedia d (sr_settle s4)\<rparr>"
    obtain evs where e: "delivers s evs s4" "event_media evs = []"
      using taking_delivers [OF hold(1,3,4,5)] by auto
    have "delivers s4 [EvMedia d] s5"
      using settle_step.Hold [OF hold(6)] by (intro delivers_step) (simp_all add: s5_def took_def)
    then have "delivers s (evs @ [EvMedia d]) s5"
      using e(1) delivers_trans by blast
    then show ?thesis
      using chain Cons.IH [OF hold(7) [folded s5_def]] e(2) taking_position [OF hold(1,3,4,5)]
      by (fastforce simp: s5_def took_def position_def)
  next
    case (send s1 s2 np' s3 d s4 s5)
    obtain evs where e: "delivers s evs s4" "event_media evs = []"
      using taking_delivers [OF send(1,3,4,5)] by auto
    have "delivers s4 [EvMedia d] s5"
      using settle_step.Pass [OF send(6)] send_chunk_sent [OF send(7)]
      by (intro delivers_step) (simp_all add: took_def)
    then have "delivers s (evs @ [EvMedia d]) s5"
      using e(1) delivers_trans by blast
    moreover have "map snd (sr_taken s5) = map snd (sr_taken s) @ event_media (evs @ [EvMedia d])"
      using e(2) position_took [OF taking_position [OF send(1,3,4,5)]] send_chunk_position [OF send(7)]
      by (simp add: position_def)
    ultimately show ?thesis
      using chain Cons.IH [OF send(8)] by blast
  qed simp_all
qed


section \<open>A URL refresh during a hold\<close>

text \<open>A stream whose init changes in the second poll and whose playlist URL has expired at the
  third; the world counts the playlist requests.\<close>

definition demo_hls :: "(nat, string \<times> nat) hls_env" where
  "demo_hls = \<lparr>
     he_get = (\<lambda>url w. (Inr (url, 0), w)),
     he_status = (\<lambda>(url, n). if url = ''old'' \<and> n \<ge> 3 then 403 else 200),
     he_read = (\<lambda>(url, n) w. (Inr [if url = ''a.mp4'' then 1 else 2], w)),
     he_close = (\<lambda>resp w. w),
     he_canceled = (\<lambda>w. False),
     he_wait = (\<lambda>d w. (None, w)),
     he_get_playlist = (\<lambda>url etag modified w. (Inr (url, w), Suc w)),
     he_parse = (\<lambda>(url, n). Inr \<lparr>pl_MediaSeq = (if n \<le> 1 then 1 else if n = 2 then 2 else 3),
       pl_Segments = [''s''], pl_MapURI = (if n \<le> 1 then ''a.mp4'' else ''b.mp4'')\<rparr>),
     he_etag = (\<lambda>resp. []),
     he_modified = (\<lambda>resp. []),
     he_fetchURL = (\<lambda>w. (Inr (if w = 0 then ''old'' else ''new''), w)),
     he_url_ok = (\<lambda>url. True),
     he_new_prefetcher = (\<lambda>url w. w),
     he_on_refresh = (\<lambda>w. w)\<rparr>"

definition demo_runner :: "(nat, string \<times> nat) runner_env" where
  "demo_runner = \<lparr>
     re_hls = demo_hls,
     re_resolve = (\<lambda>base uri. Some uri),
     re_prefetch = (\<lambda>q uri w. w),
     re_await = (\<lambda>q uri w. (Inr [word_of_int (10 + q)], w)),
     re_sleep = (\<lambda>d w. (True, w)),
     re_sync = (\<lambda>pl w. (True, w)),
     re_send = (\<lambda>w. (True, w)),
     re_fired = (\<lambda>w. (False, w))\<rparr>"

definition demo_start :: "nat StreamRunner" where
  "demo_start = (case ReadHlsStream demo_runner 0 of Inr s \<Rightarrow> s | Inl _ \<Rightarrow> undefined)"

definition demo_ticks :: "nat \<Rightarrow> nat StreamRunner" where
  "demo_ticks n = ((\<lambda>s. snd (onTick demo_runner s)) ^^ n) demo_start"

text \<open>The states after each poll, evaluated.\<close>

lemmas demo_defs = onTick_def tick_fetch_def fetch_playlist_def with_session_def FetchWithRefresh_def fetch_refresh.simps
  Fetch_def playlist_attempts.simps wire_env_def demo_runner_def demo_hls_def on_world_def tick_backoff_def tick_deliver_def tick_sync_def
  tick_map_def tick_sequence_def deliverWindow_def fetch_map_def acceptMap_def poll_debounce_def AcceptMap_def
  send_chunk_def took_def prefetch_next_def prefetch_def take_segment_def Resolve_def HasPrefix_def exp_Reset_def NewExpotential_def
  ShouldResetSequenceOnRollback_def ShouldApplyManifestSyncWait_def IsM3u8URLExpiredStatus_def
  SegmentPrefetchAhead_def PlaylistRetryAttempts_def sr_cancel_def isCanceled_def settle_release_def Let_def
  RefreshURL_def TrimSpace_def is_space_def settle_Reset_def settle_cancel_def dropBuf_def BufferMedia_def isM3u8URLExpiredErr_def
lemma demo_start_eq: "demo_start =
   \<lparr>sr_session = \<lparr>ps_m3u8URL = ''old'', ps_lastEtag = [], ps_lastModified = [],
      ps_cached = Some \<lparr>pl_MediaSeq = 1, pl_Segments = [''s''], pl_MapURI = ''a.mp4''\<rparr>\<rparr>,
    sr_settle = NewInitSettle, sr_world = 1, sr_nextSeq = 1, sr_prevBaseSeq = 1,
    sr_currentMapURI = ''a.mp4'', sr_mapSent = False, sr_armed = False,
    sr_playlistFailures = 0, sr_segmentFailures = 0, sr_backoff = NewExpotential 2000 (\<lambda>d. d * 2) 5000,
    sr_lastSyncWait = -1, sr_sent = [], sr_taken = [], sr_dropped = []\<rparr>"
  by (simp add: demo_start_def ReadHlsStream_def Start_def NewPlaylistSession_def NewInitSettle_def demo_defs)

definition demo_first :: "nat StreamRunner" where
  "demo_first = demo_start\<lparr>sr_settle := NewInitSettle\<lparr>is_confirmed := [1]\<rparr>, sr_world := 2, sr_nextSeq := 2,
     sr_mapSent := True, sr_lastSyncWait := 1, sr_sent := [[1], [11]], sr_taken := [(1, [11])]\<rparr>"

definition demo_second :: "nat StreamRunner" where
  "demo_second = demo_first\<lparr>sr_session := (sr_session demo_first)\<lparr>ps_cached :=
       Some \<lparr>pl_MediaSeq = 2, pl_Segments = [''s''], pl_MapURI = ''b.mp4''\<rparr>\<rparr>,
     sr_settle := \<lparr>is_confirmed = [1], is_active = True, is_pending = [2], is_buf = [[12]], is_released = []\<rparr>,
     sr_world := 3, sr_nextSeq := 3, sr_prevBaseSeq := 2, sr_currentMapURI := ''b.mp4'', sr_armed := True,
     sr_lastSyncWait := 2, sr_taken := [(1, [11]), (2, [12])]\<rparr>"

lemma demo_first: "snd (onTick demo_runner demo_start) = demo_first"
  by (simp add: demo_start_eq demo_first_def NewInitSettle_def demo_defs)

lemma demo_second: "snd (onTick demo_runner demo_first) = demo_second"
  by (simp add: demo_start_eq demo_first_def demo_second_def NewInitSettle_def demo_defs)

lemma demo_third:
  "sr_sent (snd (onTick demo_runner demo_second)) = [[1], [11], [13]]"
  "is_released (sr_settle (snd (onTick demo_runner demo_second))) = [[12], [2]]"
  "\<not> is_active (sr_settle (snd (onTick demo_runner demo_second)))"
  "sr_mapSent (snd (onTick demo_runner demo_second))"
  by (simp_all add: demo_start_eq demo_first_def demo_second_def NewInitSettle_def demo_defs)

lemma demo_ticks_simps:
  "demo_ticks (Suc 0) = demo_first" "demo_ticks (Suc (Suc 0)) = demo_second"
  "demo_ticks (Suc (Suc (Suc 0))) = snd (onTick demo_runner demo_second)"
  by (simp_all add: demo_ticks_def demo_first demo_second)

text \<open>A refresh of the playlist URL while a changed init is held loses the init: the hook
  empties the hold, but the loop still counts the init as sent because its URI is the same under
  the new URL, so the next segment goes out at once behind the old init and the new one never does.\<close>

lemma refresh_during_hold_loses_init:
  "sr_sent (demo_ticks 2) = [[1], [11]] \<and> is_pending (sr_settle (demo_ticks 2)) = [2] \<and>
   is_active (sr_settle (demo_ticks 2)) \<and> \<not> is_active (sr_settle (demo_ticks 3)) \<and>
   sr_sent (demo_ticks 3) = [[1], [11], [13]] \<and> is_released (sr_settle (demo_ticks 3)) = [[12], [2]] \<and>
   sr_mapSent (demo_ticks 3)"
  using demo_third by (simp add: numeral_eq_Suc demo_ticks_simps) (simp add: demo_second_def demo_first_def)


end
