(* ===== verification/Prefetcher.thy ===== *)
theory Prefetcher
  imports HlsSession GoMap "HOL-Library.Multiset"
begin

text \<open>
  The segment prefetcher (\<open>pkg/hls/prefetcher.go\<close>) as a transition system. A fetch goroutine is
  a job; its result channel (capacity one) is the job's state. The steps are the consumer's
  \<open>Start\<close>, \<open>Wait\<close> and \<open>Abandon\<close> and what the goroutines do between them: a job takes a slot
  of the semaphore, finishes with a result or is cancelled, and a goroutine left behind by
  \<open>Wait\<close> or \<open>Abandon\<close> drains a channel and gives its body back.
\<close>

section \<open>State and operations\<close>

datatype fetch_result = Body bytes | FetchErr hls_error

datatype job = Waiting string | Running string | Ready fetch_result | Consumed

record Prefetcher =
  pf_max :: nat
  pf_started :: "(int, nat) gomap"
  pf_jobs :: "job list"
  pf_drains :: "nat list"
  pf_released :: "bytes list"

definition NewSegmentPrefetcher :: "int \<Rightarrow> Prefetcher" where
  "NewSegmentPrefetcher maxConcurrent =
    \<lparr>pf_max = nat (if maxConcurrent < 1 then 1 else maxConcurrent), pf_started = gm_empty, pf_jobs = [],
     pf_drains = [], pf_released = []\<rparr>"

definition prefetch_Start :: "int \<Rightarrow> string \<Rightarrow> Prefetcher \<Rightarrow> Prefetcher" where
  "prefetch_Start q uri p =
    (case gm_get (pf_started p) q of
       Some _ \<Rightarrow> p
     | None \<Rightarrow> p\<lparr>pf_started := gm_put q (length (pf_jobs p)) (pf_started p),
                pf_jobs := pf_jobs p @ [Waiting uri]\<rparr>)"

text \<open>The channel \<open>Wait\<close> then selects on, taken out of the table.\<close>

definition prefetch_claim :: "int \<Rightarrow> string \<Rightarrow> Prefetcher \<Rightarrow> nat option \<times> Prefetcher" where
  "prefetch_claim q uri p =
    (let p = prefetch_Start q uri p in
     case gm_get (pf_started p) q of
       None \<Rightarrow> (None, p)
     | Some c \<Rightarrow> (Some c, p\<lparr>pf_started := gm_del q (pf_started p)\<rparr>))"

text \<open>Receiving a result from its channel.\<close>

definition receive :: "nat \<Rightarrow> Prefetcher \<Rightarrow> (fetch_result \<times> Prefetcher) option" where
  "receive c p =
    (if c < length (pf_jobs p) then
       (case pf_jobs p ! c of Ready r \<Rightarrow> Some (r, p\<lparr>pf_jobs := (pf_jobs p)[c := Consumed]\<rparr>) | _ \<Rightarrow> None)
     else None)"

definition releaseData :: "fetch_result \<Rightarrow> Prefetcher \<Rightarrow> Prefetcher" where
  "releaseData r p = (case r of Body d \<Rightarrow> p\<lparr>pf_released := pf_released p @ [d]\<rparr> | FetchErr _ \<Rightarrow> p)"

definition prefetch_Abandon :: "Prefetcher \<Rightarrow> Prefetcher" where
  "prefetch_Abandon p = p\<lparr>pf_started := gm_empty, pf_drains := pf_drains p @ map snd (pf_started p)\<rparr>"

definition running :: "Prefetcher \<Rightarrow> nat" where
  "running p = length (filter (\<lambda>j. case j of Running _ \<Rightarrow> True | _ \<Rightarrow> False) (pf_jobs p))"

section \<open>Steps\<close>

datatype pf_event = EvStart int | EvDeliver int bytes | EvFail int | EvCancelled int | EvFetched bytes | EvInternal | EvAbandon

inductive pf_step :: "Prefetcher \<Rightarrow> pf_event \<Rightarrow> Prefetcher \<Rightarrow> bool" where
  Start: "pf_step p (EvStart q) (prefetch_Start q uri p)"
| Slot: "c < length (pf_jobs p) \<Longrightarrow> pf_jobs p ! c = Waiting uri \<Longrightarrow> running p < pf_max p \<Longrightarrow>
    pf_step p EvInternal (p\<lparr>pf_jobs := (pf_jobs p)[c := Running uri]\<rparr>)"
| NoSlot: "c < length (pf_jobs p) \<Longrightarrow> pf_jobs p ! c = Waiting uri \<Longrightarrow>
    pf_step p EvInternal (p\<lparr>pf_jobs := (pf_jobs p)[c := Ready (FetchErr e)]\<rparr>)"
| Fetched: "c < length (pf_jobs p) \<Longrightarrow> pf_jobs p ! c = Running uri \<Longrightarrow>
    pf_step p (EvFetched d) (p\<lparr>pf_jobs := (pf_jobs p)[c := Ready (Body d)]\<rparr>)"
| FetchFailed: "c < length (pf_jobs p) \<Longrightarrow> pf_jobs p ! c = Running uri \<Longrightarrow>
    pf_step p EvInternal (p\<lparr>pf_jobs := (pf_jobs p)[c := Ready (FetchErr e)]\<rparr>)"
| Wait: "prefetch_claim q uri p = (Some c, p1) \<Longrightarrow> receive c p1 = Some (Body d, p2) \<Longrightarrow>
    pf_step p (EvDeliver q d) p2"
| WaitFail: "prefetch_claim q uri p = (Some c, p1) \<Longrightarrow> receive c p1 = Some (FetchErr e, p2) \<Longrightarrow>
    pf_step p (EvFail q) p2"
| WaitCancel: "prefetch_claim q uri p = (Some c, p1) \<Longrightarrow>
    pf_step p (EvCancelled q) (p1\<lparr>pf_drains := pf_drains p1 @ [c]\<rparr>)"
| Abandon: "pf_step p EvAbandon (prefetch_Abandon p)"
| Drain: "c \<in> set (pf_drains p) \<Longrightarrow> receive c p = Some (r, p1) \<Longrightarrow>
    pf_step p EvInternal (releaseData r (p1\<lparr>pf_drains := remove1 c (pf_drains p1)\<rparr>))"

inductive_cases pf_stepE: "pf_step p ev p'"

text \<open>In \<open>Wait\<close> the consumer blocks between claiming the channel and receiving; nobody else
  uses the claimed channel meanwhile, and the claim only removes a table entry that no goroutine
  reads, so both are one step.\<close>

inductive pf_run :: "Prefetcher \<Rightarrow> pf_event list \<Rightarrow> Prefetcher \<Rightarrow> bool" where
  Empty: "pf_run p [] p"
| Snoc: "pf_run p evs p1 \<Longrightarrow> pf_step p1 ev p2 \<Longrightarrow> pf_run p (evs @ [ev]) p2"

section \<open>Ownership of channels\<close>

text \<open>Every channel not yet received from is owned exactly once: by the table or by a draining
  goroutine.\<close>

definition owners :: "Prefetcher \<Rightarrow> nat multiset" where
  "owners p = mset (map snd (pf_started p)) + mset (pf_drains p)"

definition live :: "job list \<Rightarrow> nat multiset" where
  "live jobs = mset (filter (\<lambda>c. jobs ! c \<noteq> Consumed) [0..<length jobs])"

definition pf_inv :: "Prefetcher \<Rightarrow> bool" where
  "pf_inv p \<longleftrightarrow> gm_ok (pf_started p) \<and> owners p = live (pf_jobs p) \<and> 0 < pf_max p \<and> running p \<le> pf_max p"

text \<open>The bodies waiting in channels.\<close>

definition bodies :: "job list \<Rightarrow> bytes multiset" where
  "bodies jobs = mset (concat (map (\<lambda>j. case j of Ready (Body d) \<Rightarrow> [d] | _ \<Rightarrow> []) jobs))"

definition fetched :: "pf_event list \<Rightarrow> bytes multiset" where
  "fetched evs = mset (concat (map (\<lambda>ev. case ev of EvFetched d \<Rightarrow> [d] | _ \<Rightarrow> []) evs))"

definition delivered :: "pf_event list \<Rightarrow> bytes multiset" where
  "delivered evs = mset (concat (map (\<lambda>ev. case ev of EvDeliver q d \<Rightarrow> [d] | _ \<Rightarrow> []) evs))"

lemma gm_put_new: "gm_get m k = None \<Longrightarrow> gm_put k v m = m @ [(k, v)]"
  unfolding gm_get_def gm_put_def by (induction m) (auto split: if_splits)

lemma gm_del_values:
  "gm_get m k = Some c \<Longrightarrow> gm_ok m \<Longrightarrow> mset (map snd m) = add_mset c (mset (map snd (gm_del k m)))"
  unfolding gm_get_def gm_del_def gm_ok_def
proof (induction m)
  case (Cons x m)
  show ?case
  proof (cases "fst x = k")
    case True
    then have "AList.delete k m = m"
      using Cons.prems(2) by (simp add: delete_id)
    then show ?thesis using True Cons.prems by simp
  qed (use Cons in auto)
qed simp

lemma live_append: "job \<noteq> Consumed \<Longrightarrow> live (jobs @ [job]) = add_mset (length jobs) (live jobs)"
proof -
  assume "job \<noteq> Consumed"
  moreover have "filter (\<lambda>c. (jobs @ [job]) ! c \<noteq> Consumed) [0..<length jobs] =
      filter (\<lambda>c. jobs ! c \<noteq> Consumed) [0..<length jobs]"
    by (intro filter_cong) (auto simp: nth_append)
  ultimately show ?thesis by (simp add: live_def)
qed

lemma live_update:
  "c < length jobs \<Longrightarrow> jobs ! c \<noteq> Consumed \<Longrightarrow> job \<noteq> Consumed \<Longrightarrow> live (jobs[c := job]) = live jobs"
  unfolding live_def by (rule arg_cong [of _ _ mset]) (auto intro!: filter_cong simp: nth_list_update)

lemma mset_filter_drop:
  "distinct xs \<Longrightarrow> c \<in> set xs \<Longrightarrow> P c \<Longrightarrow>
    mset (filter P xs) = add_mset c (mset (filter (\<lambda>x. P x \<and> x \<noteq> c) xs))"
proof (induction xs)
  case (Cons x xs)
  then show ?case
  proof (cases "x = c")
    case True
    then have "filter (\<lambda>x. P x \<and> x \<noteq> c) xs = filter P xs"
      using Cons.prems by (intro filter_cong) auto
    then show ?thesis using True Cons.prems by simp
  qed auto
qed simp

lemma live_consume:
  assumes "c < length jobs" and "jobs ! c \<noteq> Consumed"
  shows "live jobs = add_mset c (live (jobs[c := Consumed]))"
proof -
  have "filter (\<lambda>x. jobs[c := Consumed] ! x \<noteq> Consumed) [0..<length jobs] =
      filter (\<lambda>x. jobs ! x \<noteq> Consumed \<and> x \<noteq> c) [0..<length jobs]"
    using assms(1) by (intro filter_cong) (auto simp: nth_list_update)
  then show ?thesis
    unfolding live_def using assms mset_filter_drop [of "[0..<length jobs]" c "\<lambda>x. jobs ! x \<noteq> Consumed"] by simp
qed

text \<open>Counting over the jobs when one of them changes.\<close>

lemma concat_update:
  "c < length xs \<Longrightarrow> mset (concat (map f (xs[c := x]))) + mset (f (xs ! c)) = mset (concat (map f xs)) + mset (f x)"
  by (induction xs arbitrary: c) (auto split: nat.splits simp: ac_simps)

lemma filter_update_length:
  "c < length xs \<Longrightarrow> length (filter P (xs[c := x])) + (if P (xs ! c) then 1 else 0) =
    length (filter P xs) + (if P x then 1 else 0)"
proof (induction xs arbitrary: c)
  case (Cons a xs)
  then show ?case by (cases c) (simp, use Cons.IH [of "c - 1"] in auto)
qed simp

lemma bodies_update:
  "c < length jobs \<Longrightarrow> bodies (jobs[c := job]) + mset (case jobs ! c of Ready (Body d) \<Rightarrow> [d] | _ \<Rightarrow> []) =
    bodies jobs + mset (case job of Ready (Body d) \<Rightarrow> [d] | _ \<Rightarrow> [])"
  unfolding bodies_def by (rule concat_update)

lemma running_update:
  "c < length (pf_jobs p) \<Longrightarrow> running (p\<lparr>pf_jobs := (pf_jobs p)[c := job]\<rparr>) +
      (case pf_jobs p ! c of Running _ \<Rightarrow> 1 | _ \<Rightarrow> 0) = running p + (case job of Running _ \<Rightarrow> 1 | _ \<Rightarrow> 0)"
  unfolding running_def
  using filter_update_length [of c "pf_jobs p" "\<lambda>j. case j of Running _ \<Rightarrow> True | _ \<Rightarrow> False" job]
  by (auto split: job.splits)

section \<open>The invariant\<close>

text \<open>What the operations keep of the accounting.\<close>

definition account :: "Prefetcher \<Rightarrow> bytes multiset \<times> nat \<times> nat" where
  "account p = (bodies (pf_jobs p) + mset (pf_released p), running p, pf_max p)"

lemma bodies_append: "bodies (jobs @ [Waiting uri]) = bodies jobs"
  by (simp add: bodies_def)

lemma Start_inv:
  assumes "pf_inv p"
  shows "pf_inv (prefetch_Start q uri p) \<and> account (prefetch_Start q uri p) = account p"
proof (cases "gm_get (pf_started p) q")
  case None
  then show ?thesis
    using assms
    by (simp add: prefetch_Start_def pf_inv_def account_def gm_put_new owners_def live_append bodies_append running_def)
       (metis gm_ok_simps(2) gm_put_new)
next
  case (Some c)
  then show ?thesis using assms by (simp add: prefetch_Start_def)
qed

lemma Start_get: "gm_get (pf_started (prefetch_Start q uri p)) q \<noteq> None"
  by (auto simp: prefetch_Start_def split: option.splits)

lemma claim_inv:
  assumes "pf_inv p" and "prefetch_claim q uri p = (r, p1)"
  obtains c where "r = Some c" "gm_ok (pf_started p1)" "add_mset c (owners p1) = live (pf_jobs p1)"
    "account p1 = account p" "pf_inv p"
proof -
  define p0 where "p0 = prefetch_Start q uri p"
  obtain c where c: "gm_get (pf_started p0) q = Some c"
    using Start_get [of q uri p] by (auto simp: p0_def)
  have i: "pf_inv p0" "account p0 = account p"
    using Start_inv [OF assms(1)] by (simp_all add: p0_def)
  have r: "r = Some c" and p1: "p1 = p0\<lparr>pf_started := gm_del q (pf_started p0)\<rparr>"
    using assms(2) c by (simp_all add: prefetch_claim_def p0_def Let_def)
  show ?thesis
  proof (rule that [OF r])
    show "gm_ok (pf_started p1)" using i(1) by (simp add: p1 pf_inv_def)
    show "add_mset c (owners p1) = live (pf_jobs p1)"
      using i(1) gm_del_values [OF c] by (simp add: p1 pf_inv_def owners_def)
    show "account p1 = account p" using i(2) by (simp add: p1 account_def running_def)
  qed (rule assms(1))
qed

lemma receive_cases:
  assumes "receive c p = Some (r, p1)"
  obtains "c < length (pf_jobs p)" "pf_jobs p ! c = Ready r" "p1 = p\<lparr>pf_jobs := (pf_jobs p)[c := Consumed]\<rparr>"
  using assms by (auto simp: receive_def split: if_splits job.splits)

text \<open>Receiving takes the body out of the accounting and the channel out of the live ones.\<close>

lemma receive_account:
  assumes "receive c p = Some (r, p1)"
  shows "account p = (mset (case r of Body d \<Rightarrow> [d] | _ \<Rightarrow> []) + fst (account p1), snd (account p1)) \<and>
    live (pf_jobs p) = add_mset c (live (pf_jobs p1)) \<and> pf_started p1 = pf_started p \<and> pf_drains p1 = pf_drains p"
  using assms
proof (cases rule: receive_cases)
  case 1
  then show ?thesis
    using bodies_update [of c "pf_jobs p" Consumed] running_update [of c p Consumed] live_consume [of c "pf_jobs p"]
    by (auto simp: account_def split: fetch_result.splits)
qed

lemma job_update_account:
  assumes "c < length (pf_jobs p)" and "pf_jobs p ! c = Waiting uri \<or> pf_jobs p ! c = Running uri"
    and "job \<noteq> Consumed" and "pf_inv p" and "\<And>u. job = Running u \<Longrightarrow> running p < pf_max p"
  shows "pf_inv (p\<lparr>pf_jobs := (pf_jobs p)[c := job]\<rparr>) \<and>
    bodies ((pf_jobs p)[c := job]) = bodies (pf_jobs p) + mset (case job of Ready (Body d) \<Rightarrow> [d] | _ \<Rightarrow> [])"
proof -
  have "running (p\<lparr>pf_jobs := (pf_jobs p)[c := job]\<rparr>) \<le> pf_max p"
    using running_update [OF assms(1), of job] assms(2,4,5)
    by (cases job) (auto simp: pf_inv_def split: job.splits)
  moreover have "live ((pf_jobs p)[c := job]) = live (pf_jobs p)"
    using assms(1-3) by (intro live_update) auto
  ultimately show ?thesis
    using assms(2,4) bodies_update [OF assms(1), of job] by (auto simp: pf_inv_def owners_def)
qed

definition body_of :: "fetch_result \<Rightarrow> bytes multiset" where
  "body_of r = (case r of Body d \<Rightarrow> {#d#} | FetchErr _ \<Rightarrow> {#})"

lemma wait_inv:
  assumes "pf_inv p" "prefetch_claim q uri p = (Some c, p1)" "receive c p1 = Some (r, p2)"
  shows "pf_inv p2 \<and> bodies (pf_jobs p2) + mset (pf_released p2) + body_of r = bodies (pf_jobs p) + mset (pf_released p)"
proof -
  have c: "gm_ok (pf_started p1)" "add_mset c (owners p1) = live (pf_jobs p1)" "account p1 = account p"
    using claim_inv [OF assms(1,2)] by auto
  note r = receive_account [OF assms(3)]
  have "owners p2 = owners p1" using r by (simp add: owners_def)
  then have "owners p2 = live (pf_jobs p2)" using c(2) r by simp
  moreover have "account p = (body_of r + fst (account p2), snd (account p2))"
    using r c(3) by (simp add: body_of_def split: fetch_result.splits)
  ultimately show ?thesis
    using assms(1) c(1) r by (simp add: pf_inv_def account_def add.commute add.left_commute)
qed

lemma drain_inv:
  assumes "pf_inv p" "c \<in> set (pf_drains p)" "receive c p = Some (r, p1)"
    and "p2 = releaseData r (p1\<lparr>pf_drains := remove1 c (pf_drains p1)\<rparr>)"
  shows "pf_inv p2 \<and> bodies (pf_jobs p2) + mset (pf_released p2) = bodies (pf_jobs p) + mset (pf_released p)"
proof -
  note r = receive_account [OF assms(3)]
  have f: "pf_jobs p2 = pf_jobs p1" "pf_started p2 = pf_started p1" "pf_drains p2 = remove1 c (pf_drains p1)"
      "pf_max p2 = pf_max p1" "mset (pf_released p2) = mset (pf_released p1) + body_of r" "running p2 = running p1"
    by (simp_all add: assms(4) releaseData_def body_of_def running_def split: fetch_result.splits)
  have d: "mset (pf_drains p) = add_mset c (mset (remove1 c (pf_drains p)))"
    using assms(2) by simp
  have "add_mset c (owners p2) = owners p"
    using r d by (simp add: owners_def f)
  then have "owners p2 = live (pf_jobs p2)"
    using r assms(1) by (simp add: pf_inv_def f)
  moreover have "account p = (body_of r + fst (account p1), snd (account p1))"
    using r by (simp add: body_of_def split: fetch_result.splits)
  ultimately show ?thesis
    using assms(1) r by (simp add: pf_inv_def account_def f add.commute add.left_commute)
qed

lemma pf_step_inv:
  assumes "pf_step p ev p'" and "pf_inv p"
  shows "pf_inv p' \<and> bodies (pf_jobs p') + mset (pf_released p') + delivered [ev] =
    bodies (pf_jobs p) + mset (pf_released p) + fetched [ev]"
  using assms(1)
proof (cases rule: pf_step.cases)
  case (Start q uri)
  then show ?thesis
    using Start_inv [OF assms(2), of q uri] by (simp add: account_def delivered_def fetched_def)
next
  case (Slot c uri)
  then show ?thesis
    using job_update_account [of c p uri "Running uri"] assms(2) by (simp add: delivered_def fetched_def)
next
  case (NoSlot c uri e)
  then show ?thesis
    using job_update_account [of c p uri "Ready (FetchErr e)"] assms(2) by (simp add: delivered_def fetched_def)
next
  case (Fetched c uri d)
  then show ?thesis
    using job_update_account [of c p uri "Ready (Body d)"] assms(2) by (simp add: delivered_def fetched_def)
next
  case (FetchFailed c uri e)
  then show ?thesis
    using job_update_account [of c p uri "Ready (FetchErr e)"] assms(2) by (simp add: delivered_def fetched_def)
next
  case (Wait q uri c p1 d)
  then show ?thesis
    using wait_inv [OF assms(2) Wait(2,3)] by (simp add: delivered_def fetched_def body_of_def)
next
  case (WaitFail q uri c p1 e)
  then show ?thesis
    using wait_inv [OF assms(2) WaitFail(2,3)] by (simp add: delivered_def fetched_def body_of_def)
next
  case (WaitCancel q uri c p1)
  obtain c' where c: "Some c = Some c'" "gm_ok (pf_started p1)" "add_mset c' (owners p1) = live (pf_jobs p1)"
      "account p1 = account p"
    using claim_inv [OF assms(2) WaitCancel(3)] by metis
  have "owners p' = add_mset c (owners p1)" by (simp add: WaitCancel(2) owners_def)
  moreover have "account p' = account p1" "pf_started p' = pf_started p1" "pf_jobs p' = pf_jobs p1"
    by (simp_all add: WaitCancel(2) account_def running_def)
  ultimately show ?thesis
    using c assms(2) by (simp add: pf_inv_def account_def WaitCancel(1) delivered_def fetched_def)
next
  case Abandon
  then show ?thesis
    using assms(2)
    by (auto simp: pf_inv_def owners_def prefetch_Abandon_def gm_ok_def gm_empty_def delivered_def fetched_def running_def
        add.commute)
next
  case (Drain c r p1)
  then show ?thesis
    using drain_inv [OF assms(2) Drain(3,4)] by (simp add: delivered_def fetched_def)
qed

lemma New_inv: "pf_inv (NewSegmentPrefetcher n)"
  by (simp add: pf_inv_def NewSegmentPrefetcher_def owners_def live_def gm_empty_def gm_ok_def running_def)

lemma account_chain:
  fixes a0 :: "'a multiset"
  assumes "a1 + d1 = a0 + f1" and "a2 + d2 = a1 + f2"
  shows "a2 + (d1 + d2) = a0 + (f1 + f2)"
proof -
  have "a2 + (d1 + d2) = (a2 + d2) + d1" by (simp only: ac_simps)
  also have "\<dots> = (a1 + d1) + f2" unfolding assms(2) by (simp only: ac_simps)
  finally show ?thesis unfolding assms(1) by (simp only: ac_simps)
qed

lemma pf_run_inv:
  "pf_run p evs p' \<Longrightarrow> pf_inv p \<Longrightarrow>
    pf_inv p' \<and> bodies (pf_jobs p') + mset (pf_released p') + delivered evs =
      bodies (pf_jobs p) + mset (pf_released p) + fetched evs"
proof (induction rule: pf_run.induct)
  case (Empty p)
  then show ?case by (simp add: delivered_def fetched_def)
next
  case (Snoc p evs p1 ev p2)
  have "delivered (evs @ [ev]) = delivered evs + delivered [ev]" "fetched (evs @ [ev]) = fetched evs + fetched [ev]"
    by (simp_all add: delivered_def fetched_def)
  moreover have "pf_inv p1" using Snoc by blast
  ultimately show ?case
    using account_chain [OF Snoc.IH [OF Snoc.prems, THEN conjunct2]] pf_step_inv [OF Snoc.hyps(2)] by metis
qed

text \<open>No segment body is lost or returned twice: along every run of the prefetcher, every
  body fetched was delivered by \<open>Wait\<close>, or given back to the pool, or still waits in a channel that
  the table or a draining goroutine owns; and never more fetches run than the semaphore allows.\<close>

lemma prefetched_bodies_accounted:
  assumes "pf_run (NewSegmentPrefetcher n) evs p"
  shows "fetched evs = delivered evs + mset (pf_released p) + bodies (pf_jobs p) \<and>
    owners p = live (pf_jobs p) \<and> running p \<le> nat (max 1 n)"
proof -
  have "pf_max p = nat (max 1 n)"
    using assms
  proof (induction "NewSegmentPrefetcher n" evs p rule: pf_run.induct)
    case Empty
    then show ?case by (simp add: NewSegmentPrefetcher_def)
  next
    case (Snoc evs p1 ev p2)
    then show ?case
      by (auto elim!: pf_step.cases simp: prefetch_Start_def prefetch_claim_def Let_def receive_def
          prefetch_Abandon_def releaseData_def split: option.splits if_splits job.splits fetch_result.splits)
  qed
  then show ?thesis
    using pf_run_inv [OF assms New_inv] by (simp add: pf_inv_def NewSegmentPrefetcher_def bodies_def ac_simps)
qed

text \<open>What is left to do for the goroutines.\<close>

definition job_work :: "job \<Rightarrow> nat" where
  "job_work j = (case j of Waiting _ \<Rightarrow> 3 | Running _ \<Rightarrow> 2 | Ready _ \<Rightarrow> 1 | Consumed \<Rightarrow> 0)"

definition pf_work :: "Prefetcher \<Rightarrow> nat" where
  "pf_work p = sum_list (map job_work (pf_jobs p))"

lemma work_update: "c < length (pf_jobs p) \<Longrightarrow> job_work j < job_work (pf_jobs p ! c) \<Longrightarrow>
    sum_list (map job_work ((pf_jobs p)[c := j])) < pf_work p"
  unfolding pf_work_def
proof (induction "pf_jobs p" arbitrary: p c)
  case (Cons a xs)
  show ?case
  proof (cases c)
    case 0
    then show ?thesis using Cons.prems Cons.hyps(2) [symmetric] by simp
  next
    case (Suc k)
    then show ?thesis
      using Cons.hyps(1) [of "p\<lparr>pf_jobs := xs\<rparr>" k] Cons.prems Cons.hyps(2) [symmetric] by simp
  qed
qed simp

text \<open>The events of the goroutines, as opposed to those of the consumer.\<close>

definition goroutine :: "pf_event \<Rightarrow> bool" where
  "goroutine ev \<longleftrightarrow> (case ev of EvInternal \<Rightarrow> True | EvFetched _ \<Rightarrow> True | _ \<Rightarrow> False)"

lemma drain_progress:
  assumes "pf_inv p" and "pf_started p = []" and "\<exists>j \<in> set (pf_jobs p). j \<noteq> Consumed"
  shows "\<exists>ev p'. pf_step p ev p' \<and> pf_work p' < pf_work p \<and> pf_started p' = [] \<and> pf_inv p' \<and>
    goroutine ev"
proof -
  obtain c where c: "c < length (pf_jobs p)" "pf_jobs p ! c \<noteq> Consumed"
    using assms(3) by (auto simp: in_set_conv_nth)
  have "c \<in># live (pf_jobs p)" using c by (simp add: live_def)
  then have drain: "c \<in> set (pf_drains p)"
    using assms(1,2) by (simp add: pf_inv_def owners_def flip: set_mset_mset)
  have progress: ?thesis if "pf_step p ev p'" "pf_work p' < pf_work p" "pf_started p' = []" "goroutine ev" for ev p'
    using that pf_step_inv [OF that(1) assms(1)] by blast
  show ?thesis
  proof (cases "pf_jobs p ! c")
    case (Waiting uri)
    then show ?thesis
      using progress [OF pf_step.NoSlot [OF c(1) Waiting, of Canceled]]
        work_update [OF c(1), of "Ready (FetchErr Canceled)"] assms(2)
      by (simp add: pf_work_def job_work_def goroutine_def)
  next
    case (Running uri)
    then show ?thesis
      using progress [OF pf_step.FetchFailed [OF c(1) Running, of Canceled]]
        work_update [OF c(1), of "Ready (FetchErr Canceled)"] assms(2)
      by (simp add: pf_work_def job_work_def goroutine_def)
  next
    case (Ready r)
    then have "receive c p = Some (r, p\<lparr>pf_jobs := (pf_jobs p)[c := Consumed]\<rparr>)"
      using c by (simp add: receive_def)
    from progress [OF pf_step.Drain [OF drain this]] show ?thesis
      using work_update [OF c(1), of Consumed] Ready assms(2)
      by (simp add: pf_work_def job_work_def goroutine_def releaseData_def split: fetch_result.splits)
  qed (use c in simp)
qed

lemma goroutine_step_work:
  assumes "pf_step p ev p'" and "goroutine ev"
  shows "pf_work p' < pf_work p"
  using assms(1)
proof (cases rule: pf_step.cases)
  case (Drain c r p1)
  then obtain "c < length (pf_jobs p)" "pf_jobs p ! c = Ready r" "p1 = p\<lparr>pf_jobs := (pf_jobs p)[c := Consumed]\<rparr>"
    using receive_cases by metis
  then show ?thesis
    using work_update [of c p Consumed] Drain(1,2)
    by (simp add: pf_work_def job_work_def releaseData_def split: fetch_result.splits)
qed (use assms(2) in \<open>simp_all add: goroutine_def pf_work_def [of "_\<lparr>pf_jobs := _\<rparr>"] work_update job_work_def\<close>)

lemma goroutine_run:
  "pf_run p evs p' \<Longrightarrow> list_all goroutine evs \<Longrightarrow> pf_started p = [] \<Longrightarrow>
    length evs + pf_work p' \<le> pf_work p \<and> pf_started p' = [] \<and> delivered evs = {#}"
proof (induction rule: pf_run.induct)
  case (Snoc p evs p1 ev p2)
  have g: "goroutine ev" using Snoc.prems by simp
  have "pf_started p2 = pf_started p1"
    using Snoc.hyps(2) g
    by cases (auto simp: goroutine_def receive_def releaseData_def split: if_splits job.splits fetch_result.splits)
  moreover have "delivered (evs @ [ev]) = delivered evs"
    using g by (simp add: delivered_def goroutine_def split: pf_event.splits)
  ultimately show ?case
    using Snoc goroutine_step_work [OF Snoc.hyps(2) g] by simp
qed (simp add: delivered_def)

lemma consumed_bodies: "\<forall>j \<in> set jobs. j = Consumed \<Longrightarrow> bodies jobs = {#}"
  unfolding bodies_def by (induction jobs) auto


text \<open>One segment started, fetched and waited for.\<close>

lemma prefetched_bodies_accounted_witness:
  "\<exists>p. pf_run (NewSegmentPrefetcher 1) [EvStart 5, EvInternal, EvFetched [7], EvDeliver 5 [7]] p \<and>
    bodies (pf_jobs p) = {#} \<and> pf_released p = []"
proof -
  define p0 where "p0 = NewSegmentPrefetcher 1"
  define p1 where "p1 = prefetch_Start 5 ''u'' p0"
  define p2 where "p2 = p1\<lparr>pf_jobs := [Running ''u'']\<rparr>"
  define p3 where "p3 = p1\<lparr>pf_jobs := [Ready (Body [7])]\<rparr>"
  define p4 where "p4 = p1\<lparr>pf_started := [], pf_jobs := [Consumed]\<rparr>"
  note defs = p0_def p1_def p2_def p3_def p4_def NewSegmentPrefetcher_def prefetch_Start_def
    gm_empty_def gm_get_def gm_put_def gm_del_def running_def
  have r1: "pf_run p0 [EvStart 5] p1"
    using pf_run.Snoc [OF pf_run.Empty pf_step.Start [of p0 5 "''u''"]] by (simp add: p1_def)
  have "pf_step p1 EvInternal p2"
    using pf_step.Slot [of 0 p1 "''u''"] by (simp add: defs)
  then have r2: "pf_run p0 [EvStart 5, EvInternal] p2"
    using pf_run.Snoc [OF r1] by simp
  have "pf_step p2 (EvFetched [7]) p3"
    using pf_step.Fetched [of 0 p2 "''u''" "[7]"] by (simp add: defs)
  then have r3: "pf_run p0 [EvStart 5, EvInternal, EvFetched [7]] p3"
    using pf_run.Snoc [OF r2] by simp
  have "pf_step p3 (EvDeliver 5 [7]) p4"
    using pf_step.Wait [of 5 "''u''" p3 0 "p3\<lparr>pf_started := []\<rparr>" "[7]" p4]
    by (simp add: defs prefetch_claim_def receive_def)
  then have r4: "pf_run p0 [EvStart 5, EvInternal, EvFetched [7], EvDeliver 5 [7]] p4"
    using pf_run.Snoc [OF r3] by simp
  have "bodies (pf_jobs p4) = {#} \<and> pf_released p4 = []"
    using prefetched_bodies_accounted [OF r4 [unfolded p0_def]]
    by (simp add: fetched_def delivered_def add.commute)
  then show ?thesis using r4 unfolding p0_def by blast
qed


end
