(* ===== verification/BufWriter.thy ===== *)
theory BufWriter
  imports Prelude
begin

text \<open>
  The buffer in front of a recording file (\<open>pkg/rw/flush_locked_buffered_writer.go\<close>) over an
  arbitrary \<open>io.Writer\<close>, which is a function \<open>wr\<close> that takes the bytes and the writer's state and
  answers how many bytes it took, whether it failed, and its new state. The flush lock only
  serialises writers of different files and is left out.

  The locale \<open>io_writer\<close> is the documented contract of \<open>io.Writer\<close>; \<open>os_file\<close> is a file on a disk
  whose writes may fail, and provides it. \<open>Write\<close> is a loop that would not end on a writer
  that takes nothing and reports no error, so it is a partial function, and its termination is a
  consequence of the contract.
\<close>

section \<open>The buffered writer\<close>

record 'f BufferedWriter =
  bw_w :: 'f
  bw_buf :: bytes
  bw_size :: nat

definition NewFlushLockedBufferedWriter :: "'f \<Rightarrow> int \<Rightarrow> 'f BufferedWriter" where
  "NewFlushLockedBufferedWriter w n =
    \<lparr>bw_w = w, bw_buf = [], bw_size = nat (if n \<le> 0 then 4096 else n)\<rparr>"

definition Buffered :: "'f BufferedWriter \<Rightarrow> nat" where
  "Buffered b = length (bw_buf b)"

definition Available :: "'f BufferedWriter \<Rightarrow> nat" where
  "Available b = bw_size b - length (bw_buf b)"

text \<open>The loop of \<open>Flush\<close>: whether it failed, and the writer.\<close>

function bw_Flush :: "(bytes \<Rightarrow> 'f \<Rightarrow> nat \<times> bool \<times> 'f) \<Rightarrow> 'f BufferedWriter \<Rightarrow> bool \<times> 'f BufferedWriter" where
  "bw_Flush wr b =
    (if bw_buf b = [] then (False, b)
     else case wr (bw_buf b) (bw_w b) of
       (n, err, f) \<Rightarrow>
         (let b = b\<lparr>bw_w := f, bw_buf := drop n (bw_buf b)\<rparr> in
          if err then (True, b)
          else if n = 0 then (True, b)
          else bw_Flush wr b))"
  by pat_completeness auto
termination
  by (relation "measure (\<lambda>(wr, b). length (bw_buf b))") auto

declare bw_Flush.simps [simp del]

text \<open>The loop of \<open>Write\<close>: how many bytes were taken, whether it failed, and the writer.\<close>

partial_function (option) bw_Write :: "(bytes \<Rightarrow> 'f \<Rightarrow> nat \<times> bool \<times> 'f) \<Rightarrow> bytes \<Rightarrow> nat \<Rightarrow> 'f BufferedWriter \<Rightarrow>
    (nat \<times> bool \<times> 'f BufferedWriter) option" where
  "bw_Write wr p written b =
    (if p = [] then Some (written, False, b)
     else
       let (err, b) = (if length (bw_buf b) = bw_size b then bw_Flush wr b else (False, b)) in
       if err then Some (written, True, b)
       else if bw_buf b = [] \<and> length p \<ge> bw_size b then
         (let (n, err, f) = wr p (bw_w b); b = b\<lparr>bw_w := f\<rparr> in
          if err then Some (written + n, True, b)
          else bw_Write wr (drop n p) (written + n) b)
       else
         (let n = min (bw_size b - length (bw_buf b)) (length p) in
          bw_Write wr (drop n p) (written + n) (b\<lparr>bw_buf := bw_buf b @ take n p\<rparr>)))"

section \<open>The contract of an \<open>io.Writer\<close>\<close>

locale io_writer =
  fixes wr :: "bytes \<Rightarrow> 'f \<Rightarrow> nat \<times> bool \<times> 'f" and contents :: "'f \<Rightarrow> bytes" and reliable :: "'f \<Rightarrow> bool"
  assumes takes_prefix: "wr p f = (n, err, f') \<Longrightarrow> n \<le> length p \<and> contents f' = contents f @ take n p"
    and short_is_error: "wr p f = (n, err, f') \<Longrightarrow> n < length p \<Longrightarrow> err"
    and reliable_writes: "wr p f = (n, err, f') \<Longrightarrow> reliable f \<Longrightarrow> \<not> err \<and> reliable f'"
begin

lemma flush_keeps:
  "bw_Flush wr b = (err, b') \<Longrightarrow>
    contents (bw_w b') @ bw_buf b' = contents (bw_w b) @ bw_buf b \<and> bw_size b' = bw_size b \<and>
    length (bw_buf b') \<le> length (bw_buf b) \<and> (\<not> err \<longrightarrow> bw_buf b' = []) \<and>
    length (contents (bw_w b)) \<le> length (contents (bw_w b')) \<and>
    (reliable (bw_w b) \<longrightarrow> \<not> err \<and> reliable (bw_w b'))"
proof (induction "length (bw_buf b)" arbitrary: b rule: less_induct)
  case less
  show ?case
  proof (cases "bw_buf b = []")
    case True
    then show ?thesis using less.prems by (simp add: bw_Flush.simps [of wr b])
  next
    case False
    obtain n e f where w: "wr (bw_buf b) (bw_w b) = (n, e, f)" by (metis prod_cases3)
    define b1 where "b1 = b\<lparr>bw_w := f, bw_buf := drop n (bw_buf b)\<rparr>"
    have k: "contents (bw_w b1) @ bw_buf b1 = contents (bw_w b) @ bw_buf b" "bw_size b1 = bw_size b"
        "length (bw_buf b1) \<le> length (bw_buf b)" "length (contents (bw_w b)) \<le> length (contents (bw_w b1))"
        "reliable (bw_w b) \<Longrightarrow> \<not> e \<and> 0 < n \<and> reliable (bw_w b1)"
      using takes_prefix [OF w] reliable_writes [OF w] short_is_error [OF w] False
      by (auto simp: b1_def) (metis gr0I length_greater_0_conv)
    show ?thesis
    proof (cases "e \<or> n = 0")
      case True
      then have "err" "b' = b1"
        using less.prems False w by (auto simp: bw_Flush.simps [of wr b] b1_def Let_def split: if_splits)
      then show ?thesis using k True by auto
    next
      case goes: False
      then have rec: "bw_Flush wr b1 = (err, b')"
        using less.prems False w by (simp add: bw_Flush.simps [of wr b] b1_def Let_def)
      have "length (bw_buf b1) < length (bw_buf b)" using False goes by (simp add: b1_def)
      then show ?thesis using less.hyps [OF _ rec] k by auto
    qed
  qed
qed

text \<open>What one pass of \<open>Write\<close> achieves.\<close>

definition wrote :: "bytes \<Rightarrow> 'f BufferedWriter \<Rightarrow> nat \<Rightarrow> bool \<Rightarrow> 'f BufferedWriter \<Rightarrow> bool" where
  "wrote p b n err b' \<longleftrightarrow> n \<le> length p \<and> contents (bw_w b') @ bw_buf b' = contents (bw_w b) @ bw_buf b @ take n p \<and>
     bw_size b' = bw_size b \<and> length (bw_buf b') \<le> bw_size b \<and> (\<not> err \<longrightarrow> n = length p) \<and>
     length (contents (bw_w b)) \<le> length (contents (bw_w b')) \<and>
     (reliable (bw_w b) \<longrightarrow> \<not> err \<and> reliable (bw_w b'))"

lemma wrote_more:
  assumes "contents (bw_w b1) @ bw_buf b1 = contents (bw_w b) @ bw_buf b @ take m p" and "m \<le> length p"
    and "bw_size b1 = bw_size b" and "length (contents (bw_w b)) \<le> length (contents (bw_w b1))"
    and "reliable (bw_w b) \<Longrightarrow> reliable (bw_w b1)" and "wrote (drop m p) b1 n err b'"
  shows "wrote p b (m + n) err b'"
  using assms unfolding wrote_def by (auto simp: take_add)

lemma write_terminates:
  "0 < bw_size b \<Longrightarrow> length (bw_buf b) \<le> bw_size b \<Longrightarrow>
    \<exists>n err b'. bw_Write wr p written b = Some (written + n, err, b') \<and> wrote p b n err b'"
proof (induction "length p" arbitrary: p written b rule: less_induct)
  case less
  show ?case
  proof (cases "p = []")
    case True
    then show ?thesis
      using less.prems by (intro exI [of _ 0] exI [of _ False] exI [of _ b]) (simp add: bw_Write.simps wrote_def)
  next
    case False
    define pre where "pre = (if length (bw_buf b) = bw_size b then bw_Flush wr b else (False, b))"
    obtain e b1 where pre: "pre = (e, b1)" by (metis surj_pair)
    have k: "contents (bw_w b1) @ bw_buf b1 = contents (bw_w b) @ bw_buf b" "bw_size b1 = bw_size b"
        "length (bw_buf b1) \<le> bw_size b" "length (contents (bw_w b)) \<le> length (contents (bw_w b1))"
        "reliable (bw_w b) \<Longrightarrow> \<not> e \<and> reliable (bw_w b1)" and room: "\<not> e \<Longrightarrow> length (bw_buf b1) < bw_size b"
      using pre less.prems flush_keeps [of b e b1] by (auto simp: pre_def split: if_splits)
    note step = bw_Write.simps [of wr p written b] pre [unfolded pre_def]
    consider (fail) e | (direct) "\<not> e" "bw_buf b1 = []" "length p \<ge> bw_size b1"
      | (copy) "\<not> e" "\<not> (bw_buf b1 = [] \<and> length p \<ge> bw_size b1)" by blast
    then show ?thesis
    proof cases
      case fail
      then have "bw_Write wr p written b = Some (written + 0, True, b1)" using False step by simp
      then show ?thesis using k fail by (intro exI [of _ 0] exI [of _ True] exI [of _ b1]) (auto simp: wrote_def)
    next
      case direct
      obtain n err f where w: "wr p (bw_w b1) = (n, err, f)" by (metis prod_cases3)
      note t = takes_prefix [OF w]
      define b2 where "b2 = b1\<lparr>bw_w := f\<rparr>"
      have k2: "contents (bw_w b2) @ bw_buf b2 = contents (bw_w b) @ bw_buf b @ take n p" "bw_size b2 = bw_size b"
          "length (contents (bw_w b)) \<le> length (contents (bw_w b2))" "reliable (bw_w b) \<Longrightarrow> \<not> err \<and> reliable (bw_w b2)"
        using t k direct reliable_writes [OF w] by (auto simp: b2_def)
      show ?thesis
      proof (cases err)
        case True
        then have "bw_Write wr p written b = Some (written + n, True, b2)"
          using False step direct w by (simp add: b2_def)
        then show ?thesis using k2 t direct by (intro exI [of _ n] exI [of _ True] exI [of _ b2]) (use True in \<open>auto simp: wrote_def b2_def\<close>)
      next
        case ok: False
        then have n: "n = length p" using short_is_error [OF w] t by force
        have "bw_Write wr p written b = bw_Write wr (drop n p) (written + n) b2"
          using False step direct w ok by (simp add: b2_def)
        then have "bw_Write wr p written b = Some (written + n, False, b2)"
          using n by (simp add: bw_Write.simps [of wr "[]"])
        then show ?thesis using k2 n direct by (intro exI [of _ n] exI [of _ False] exI [of _ b2]) (auto simp: wrote_def b2_def)
      qed
    next
      case copy
      define n where "n = min (bw_size b1 - length (bw_buf b1)) (length p)"
      define b2 where "b2 = b1\<lparr>bw_buf := bw_buf b1 @ take n p\<rparr>"
      have n: "0 < n" "n \<le> length p" using room [OF copy(1)] k(2) False by (simp_all add: n_def)
      have "length (drop n p) < length p" using n by simp
      moreover have "0 < bw_size b2" "length (bw_buf b2) \<le> bw_size b2"
        using less.prems k by (simp_all add: b2_def n_def)
      ultimately obtain m err b' where IH: "bw_Write wr (drop n p) (written + n) b2 = Some (written + n + m, err, b')"
          "wrote (drop n p) b2 m err b'"
        using less.hyps [of "drop n p" b2 "written + n"] by blast
      have "bw_Write wr p written b = bw_Write wr (drop n p) (written + n) b2"
        using False step copy by (simp add: b2_def n_def Let_def)
      moreover have "wrote p b (n + m) err b'"
        by (rule wrote_more [OF _ n(2) _ _ _ IH(2)]) (use k in \<open>simp_all add: b2_def\<close>)
      ultimately show ?thesis using IH(1) by (metis add.assoc)
    qed
  qed
qed

end

section \<open>A file\<close>

text \<open>A file on disk: what it holds and, per coming write, how much of it succeeds (everything once
  the list is used up).\<close>

record os_file =
  of_data :: bytes
  of_faults :: "nat list"

definition file_Write :: "bytes \<Rightarrow> os_file \<Rightarrow> nat \<times> bool \<times> os_file" where
  "file_Write p f =
    (case of_faults f of
       [] \<Rightarrow> (length p, False, f\<lparr>of_data := of_data f @ p\<rparr>)
     | k # faults \<Rightarrow>
         (let n = min k (length p) in
          (n, n < length p, f\<lparr>of_data := of_data f @ take n p, of_faults := faults\<rparr>)))"

interpretation fw: io_writer file_Write of_data "\<lambda>f. of_faults f = []"
  by unfold_locales (auto simp: file_Write_def Let_def split: list.splits)

end
