(* ===== verification/StreamWriter.thy ===== *)
theory StreamWriter
  imports BufWriter Pipeline
begin

text \<open>
  The last processor of every recording pipeline, which writes the stream to its file
  (\<open>internal/processors/buffered_stream_writer.go\<close> and its cold-cache planning, with the page
  alignment of \<open>pkg/filecache\<close>). The channel between \<open>Process\<close> and the writer goroutine is the
  list \<open>sw_dataCh\<close>; what the goroutines do is a sequence of events, each run to its end, which
  the single writer goroutine and the lock give for chunks, flushes and \<open>Close\<close>. The files that
  \<open>os.Create\<close> will hand out, or its failures, are the list \<open>sw_creates\<close>. Logging, metrics
  hooks, timers and the pooled buffers are left out.
\<close>

section \<open>Cold cache release\<close>

definition coldReleaseHotWindow :: "int \<Rightarrow> int" where
  "coldReleaseHotWindow bufferSize =
    (let hot = 4 * bufferSize in if hot < 64 * 1024 * 1024 then 64 * 1024 * 1024 else hot)"

record coldReleasePlan =
  cr_Offset :: int
  cr_Length :: int
  cr_NewEnd :: int

definition planColdRelease :: "int \<Rightarrow> int \<Rightarrow> int \<Rightarrow> coldReleasePlan option" where
  "planColdRelease onDisk releasedThrough bufferSize =
    (if onDisk \<le> 0 then None
     else let coldEnd = onDisk - coldReleaseHotWindow bufferSize in
       if coldEnd \<le> releasedThrough then None
       else let len = coldEnd - releasedThrough in
         if len < 32 * 1024 * 1024 then None
         else Some \<lparr>cr_Offset = releasedThrough, cr_Length = len, cr_NewEnd = coldEnd\<rparr>)"

text \<open>\<open>offset &^ (pageSize - 1)\<close> on a positive offset.\<close>

definition alignDown :: "int \<Rightarrow> int" where
  "alignDown offset = (if offset \<le> 0 then 0 else offset - offset mod 4096)"

definition alignedColdRange :: "int \<Rightarrow> int \<Rightarrow> (int \<times> int) option" where
  "alignedColdRange offset len =
    (if len \<le> 0 then None
     else let off = alignDown offset; alignedEnd = alignDown (offset + len) in
       if alignedEnd \<le> off then None else Some (off, alignedEnd - off))"

section \<open>The writer\<close>

record 'f StreamWriter =
  sw_bufferSize :: int
  sw_skipSmallFlushThreshold :: int
  sw_skipSmallFlushThresholdSet :: bool
  sw_minPeriodicFlushBytes :: int
  sw_syncPeriod :: int
  sw_coldCacheReleasePeriod :: int
  sw_flushPeriod :: int
  sw_chanBufferSize :: int
  sw_creates :: "'f option list"
  sw_writer :: "'f BufferedWriter option"
  sw_dataCh :: "bytes list"
  sw_pendingChunks :: "bytes list"
  sw_pendingBytes :: int
  sw_bytesWritten :: int
  sw_bufferedBytes :: int
  sw_releasedThrough :: int
  sw_released :: "(int \<times> int) list"

type_synonym 'f StreamWriterOption = "'f StreamWriter \<Rightarrow> 'f StreamWriter"

definition NewBufferedStreamWriter :: "'f option list \<Rightarrow> 'f StreamWriterOption list \<Rightarrow> 'f StreamWriter" where
  "NewBufferedStreamWriter creates opts =
    (let w = fold (\<lambda>opt. opt) opts
       \<lparr>sw_bufferSize = 1048576, sw_skipSmallFlushThreshold = 1048576, sw_skipSmallFlushThresholdSet = False,
        sw_minPeriodicFlushBytes = 0, sw_syncPeriod = 45000, sw_coldCacheReleasePeriod = 0, sw_flushPeriod = 15000,
        sw_chanBufferSize = 256, sw_creates = creates, sw_writer = None, sw_dataCh = [], sw_pendingChunks = [],
        sw_pendingBytes = 0, sw_bytesWritten = 0, sw_bufferedBytes = 0, sw_releasedThrough = 0, sw_released = []\<rparr>;
       w = (if \<not> sw_skipSmallFlushThresholdSet w \<and> sw_skipSmallFlushThreshold w \<le> 0
            then w\<lparr>sw_skipSmallFlushThreshold := 1048576\<rparr> else w)
     in if sw_minPeriodicFlushBytes w \<le> 0
        then w\<lparr>sw_minPeriodicFlushBytes := max (sw_bufferSize w div 4) 65536\<rparr> else w)"

definition WithSkipSmallFlushThreshold :: "int \<Rightarrow> 'f StreamWriterOption" where
  "WithSkipSmallFlushThreshold n w = w\<lparr>sw_skipSmallFlushThreshold := n, sw_skipSmallFlushThresholdSet := True\<rparr>"

definition WithBufferSize :: "int \<Rightarrow> 'f StreamWriterOption" where
  "WithBufferSize n w = w\<lparr>sw_bufferSize := n\<rparr>"

definition WithSyncPeriod :: "int \<Rightarrow> 'f StreamWriterOption" where
  "WithSyncPeriod d w = w\<lparr>sw_syncPeriod := d\<rparr>"

definition WithColdCacheReleasePeriod :: "int \<Rightarrow> 'f StreamWriterOption" where
  "WithColdCacheReleasePeriod d w = w\<lparr>sw_coldCacheReleasePeriod := d\<rparr>"

definition WithFlushPeriod :: "int \<Rightarrow> 'f StreamWriterOption" where
  "WithFlushPeriod d w = (if d > 0 then w\<lparr>sw_flushPeriod := d\<rparr> else w)"

definition WithChanBufferSize :: "int \<Rightarrow> 'f StreamWriterOption" where
  "WithChanBufferSize n w = (if n > 0 then w\<lparr>sw_chanBufferSize := n\<rparr> else w)"

definition WithMinPeriodicFlushBytes :: "int \<Rightarrow> 'f StreamWriterOption" where
  "WithMinPeriodicFlushBytes n w = (if n > 0 then w\<lparr>sw_minPeriodicFlushBytes := n\<rparr> else w)"

datatype periodicIOMode = PeriodicIODisabled | PeriodicIOFsync | PeriodicIOColdRelease

definition periodicIOConfig :: "'f StreamWriter \<Rightarrow> periodicIOMode \<times> int" where
  "periodicIOConfig w =
    (if sw_syncPeriod w > 0 then (PeriodicIOFsync, sw_syncPeriod w)
     else if sw_coldCacheReleasePeriod w > 0 then (PeriodicIOColdRelease, sw_coldCacheReleasePeriod w)
     else (PeriodicIODisabled, 0))"

text \<open>The phase of the flush timer from the FNV hash of the path.\<close>

definition flushJitter :: "u64 \<Rightarrow> int \<Rightarrow> int" where
  "flushJitter pathHash flushPeriod =
    (if flushPeriod \<le> 1000000000 then 0
     else let maxJitter = flushPeriod div 2 in
       if maxJitter \<le> 0 then 0 else uint pathHash mod maxJitter)"

definition deferredFileCreation :: "'f StreamWriter \<Rightarrow> bool" where
  "deferredFileCreation w = (sw_skipSmallFlushThreshold w > 0)"

text \<open>The processor has a file exactly when it has a writer.\<close>

definition createFileAndWriter :: "'f StreamWriter \<Rightarrow> bool \<times> 'f StreamWriter" where
  "createFileAndWriter w =
    (case sw_writer w of
       Some _ \<Rightarrow> (True, w)
     | None \<Rightarrow>
        (case sw_creates w of
           Some f # rest \<Rightarrow>
             (True, w\<lparr>sw_creates := rest, sw_writer := Some (NewFlushLockedBufferedWriter f (sw_bufferSize w))\<rparr>)
         | None # rest \<Rightarrow> (False, w\<lparr>sw_creates := rest\<rparr>)
         | [] \<Rightarrow> (False, w)))"

definition sw_Open :: "'f StreamWriter \<Rightarrow> bool \<times> 'f StreamWriter" where
  "sw_Open w =
    (if deferredFileCreation w then (True, w\<lparr>sw_pendingChunks := [], sw_pendingBytes := 0, sw_dataCh := []\<rparr>)
     else case createFileAndWriter w of
       (False, w) \<Rightarrow> (False, w)
     | (True, w) \<Rightarrow> (True, w\<lparr>sw_dataCh := []\<rparr>))"

text \<open>\<open>Process\<close> when the channel accepts the chunk.\<close>

definition sw_Process :: "bytes \<Rightarrow> 'f StreamWriter \<Rightarrow> 'f StreamWriter" where
  "sw_Process d w = (if d = [] then w else w\<lparr>sw_dataCh := sw_dataCh w @ [d]\<rparr>)"

definition releasePendingChunks :: "'f StreamWriter \<Rightarrow> 'f StreamWriter" where
  "releasePendingChunks w = w\<lparr>sw_pendingChunks := [], sw_pendingBytes := 0\<rparr>"

definition syncBufferedBytes :: "'f StreamWriter \<Rightarrow> 'f StreamWriter" where
  "syncBufferedBytes w =
    (case sw_writer w of
       None \<Rightarrow> w\<lparr>sw_bufferedBytes := 0\<rparr>
     | Some b \<Rightarrow> w\<lparr>sw_bufferedBytes := int (Buffered b)\<rparr>)"

text \<open>A write whose loop does not end is \<open>None\<close>. Bytes a failed write does not take are lost.\<close>

definition write_chunk :: "(bytes \<Rightarrow> 'f \<Rightarrow> nat \<times> bool \<times> 'f) \<Rightarrow> bytes \<Rightarrow> 'f StreamWriter \<Rightarrow> 'f StreamWriter option" where
  "write_chunk wr d w =
    (case sw_writer w of
       None \<Rightarrow> Some w
     | Some b \<Rightarrow>
        (case bw_Write wr d 0 b of
           None \<Rightarrow> None
         | Some (n, err, b) \<Rightarrow>
             Some (w\<lparr>sw_writer := Some b,
                     sw_bytesWritten := sw_bytesWritten w + (if n \<le> 0 then 0 else int n)\<rparr>)))"

fun write_chunks :: "(bytes \<Rightarrow> 'f \<Rightarrow> nat \<times> bool \<times> 'f) \<Rightarrow> bytes list \<Rightarrow> 'f StreamWriter \<Rightarrow> 'f StreamWriter option" where
  "write_chunks wr [] w = Some w"
| "write_chunks wr (d # ds) w =
    (case write_chunk wr d w of None \<Rightarrow> None | Some w \<Rightarrow> write_chunks wr ds w)"

definition writePendingChunksToWriter :: "(bytes \<Rightarrow> 'f \<Rightarrow> nat \<times> bool \<times> 'f) \<Rightarrow> 'f StreamWriter \<Rightarrow> 'f StreamWriter option" where
  "writePendingChunksToWriter wr w =
    map_option (\<lambda>w. syncBufferedBytes (w\<lparr>sw_pendingChunks := [], sw_pendingBytes := 0\<rparr>))
      (write_chunks wr (sw_pendingChunks w) w)"

definition maxPendingBytesBeforeDrop :: int where
  "maxPendingBytesBeforeDrop = 100 * 1024 * 1024"

definition handleDataChunk :: "(bytes \<Rightarrow> 'f \<Rightarrow> nat \<times> bool \<times> 'f) \<Rightarrow> bytes \<Rightarrow> 'f StreamWriter \<Rightarrow> 'f StreamWriter option" where
  "handleDataChunk wr d w =
    (if deferredFileCreation w \<and> sw_writer w = None then
       (let w = w\<lparr>sw_pendingChunks := sw_pendingChunks w @ [d], sw_pendingBytes := sw_pendingBytes w + int (length d)\<rparr> in
        if sw_pendingBytes w < sw_skipSmallFlushThreshold w then Some w
        else case createFileAndWriter w of
          (False, w) \<Rightarrow>
            if sw_pendingBytes w \<le> maxPendingBytesBeforeDrop then Some w else Some (releasePendingChunks w)
        | (True, w) \<Rightarrow> writePendingChunksToWriter wr w)
     else map_option syncBufferedBytes (write_chunk wr d w))"

definition doPeriodicFlush :: "(bytes \<Rightarrow> 'f \<Rightarrow> nat \<times> bool \<times> 'f) \<Rightarrow> 'f StreamWriter \<Rightarrow> 'f StreamWriter" where
  "doPeriodicFlush wr w =
    (case sw_writer w of
       None \<Rightarrow> w
     | Some b \<Rightarrow>
        if int (Buffered b) < sw_minPeriodicFlushBytes w then w
        else (case bw_Flush wr b of
           (True, b) \<Rightarrow> w\<lparr>sw_writer := Some b\<rparr>
         | (False, b) \<Rightarrow> syncBufferedBytes (w\<lparr>sw_writer := Some b\<rparr>)))"

text \<open>The cold prefix of the file; \<open>dropped\<close> tells whether the kernel call succeeded. The ranges
  handed to the kernel are logged.\<close>

definition releaseColdPrefix :: "bool \<Rightarrow> 'f StreamWriter \<Rightarrow> 'f StreamWriter" where
  "releaseColdPrefix dropped w =
    (case sw_writer w of
       None \<Rightarrow> w
     | Some b \<Rightarrow>
        (case planColdRelease (sw_bytesWritten w - int (Buffered b)) (sw_releasedThrough w) (sw_bufferSize w) of
           None \<Rightarrow> w
         | Some plan \<Rightarrow>
            (case alignedColdRange (cr_Offset plan) (cr_Length plan) of
               None \<Rightarrow> w\<lparr>sw_releasedThrough := cr_NewEnd plan\<rparr>
             | Some r \<Rightarrow>
                 (let w = w\<lparr>sw_released := sw_released w @ [r]\<rparr> in
                  if \<not> dropped then w else w\<lparr>sw_releasedThrough := cr_NewEnd plan\<rparr>))))"

text \<open>What the goroutines do while the processor is open.\<close>

datatype writer_event = EvProcess bytes | EvTake | EvFlush | EvCold bool

definition writer_step :: "(bytes \<Rightarrow> 'f \<Rightarrow> nat \<times> bool \<times> 'f) \<Rightarrow> writer_event \<Rightarrow> 'f StreamWriter \<Rightarrow> 'f StreamWriter option" where
  "writer_step wr ev w =
    (case ev of
       EvProcess d \<Rightarrow> Some (sw_Process d w)
     | EvTake \<Rightarrow> (case sw_dataCh w of [] \<Rightarrow> Some w | d # ds \<Rightarrow> handleDataChunk wr d (w\<lparr>sw_dataCh := ds\<rparr>))
     | EvFlush \<Rightarrow> Some (doPeriodicFlush wr w)
     | EvCold dropped \<Rightarrow> Some (releaseColdPrefix dropped w))"

fun writer_steps :: "(bytes \<Rightarrow> 'f \<Rightarrow> nat \<times> bool \<times> 'f) \<Rightarrow> writer_event list \<Rightarrow> 'f StreamWriter \<Rightarrow> 'f StreamWriter option" where
  "writer_steps wr [] w = Some w"
| "writer_steps wr (ev # evs) w =
    (case writer_step wr ev w of None \<Rightarrow> None | Some w \<Rightarrow> writer_steps wr evs w)"

text \<open>The goroutine drains the channel after it is closed.\<close>

fun drain :: "(bytes \<Rightarrow> 'f \<Rightarrow> nat \<times> bool \<times> 'f) \<Rightarrow> bytes list \<Rightarrow> 'f StreamWriter \<Rightarrow> 'f StreamWriter option" where
  "drain wr [] w = Some w"
| "drain wr (d # ds) w = (case handleDataChunk wr d w of None \<Rightarrow> None | Some w \<Rightarrow> drain wr ds w)"

text \<open>The final flush; its failure is only logged. The file that is closed is the result.\<close>

definition close_writer :: "(bytes \<Rightarrow> 'f \<Rightarrow> nat \<times> bool \<times> 'f) \<Rightarrow> 'f StreamWriter \<Rightarrow> 'f option \<times> 'f StreamWriter" where
  "close_writer wr w =
    (case sw_writer w of
       None \<Rightarrow> (None, w)
     | Some b \<Rightarrow>
        (case bw_Flush wr b of
           (err, b) \<Rightarrow>
             (let w = (if err then w else syncBufferedBytes (w\<lparr>sw_writer := Some b\<rparr>))
              in (Some (bw_w b), w\<lparr>sw_writer := None\<rparr>))))"

definition sw_Close :: "(bytes \<Rightarrow> 'f \<Rightarrow> nat \<times> bool \<times> 'f) \<Rightarrow> 'f StreamWriter \<Rightarrow> ('f option \<times> 'f StreamWriter) option" where
  "sw_Close wr w =
    (case drain wr (sw_dataCh w) (w\<lparr>sw_dataCh := []\<rparr>) of
       None \<Rightarrow> None
     | Some w \<Rightarrow>
        if deferredFileCreation w \<and> sw_writer w = None then
          (if sw_pendingBytes w = 0 then Some (None, w)
           else if sw_pendingBytes w < sw_skipSmallFlushThreshold w then Some (None, releasePendingChunks w)
           else case createFileAndWriter w of
             (False, w) \<Rightarrow> Some (None, releasePendingChunks w)
           | (True, w) \<Rightarrow> map_option (close_writer wr) (writePendingChunksToWriter wr w))
        else Some (close_writer wr w))"

section \<open>Accounting\<close>

text \<open>What a writer has accepted, in order, and how much of it is in the file.\<close>

definition accepted :: "('f \<Rightarrow> bytes) \<Rightarrow> 'f StreamWriter \<Rightarrow> bytes" where
  "accepted contents w =
    (case sw_writer w of None \<Rightarrow> concat (sw_pendingChunks w) | Some b \<Rightarrow> contents (bw_w b) @ bw_buf b)"

definition on_disk :: "('f \<Rightarrow> bytes) \<Rightarrow> 'f StreamWriter \<Rightarrow> int" where
  "on_disk contents w = (case sw_writer w of None \<Rightarrow> 0 | Some b \<Rightarrow> int (length (contents (bw_w b))))"

text \<open>The counter of written bytes is what is in the file and in the buffer.\<close>

definition counted :: "('f \<Rightarrow> bytes) \<Rightarrow> 'f BufferedWriter \<Rightarrow> int \<Rightarrow> bool" where
  "counted contents b n \<longleftrightarrow> 0 < bw_size b \<and> length (bw_buf b) \<le> bw_size b \<and>
     n = int (length (contents (bw_w b)) + length (bw_buf b))"

definition writer_ok :: "('f \<Rightarrow> bytes) \<Rightarrow> 'f StreamWriter \<Rightarrow> bool" where
  "writer_ok contents w \<longleftrightarrow>
     sw_pendingBytes w = int (length (concat (sw_pendingChunks w))) \<and>
     (\<forall>f. Some f \<in> set (sw_creates w) \<longrightarrow> contents f = []) \<and>
     (case sw_writer w of
        None \<Rightarrow> sw_bytesWritten w = 0
      | Some b \<Rightarrow> sw_pendingChunks w = [] \<and> counted contents b (sw_bytesWritten w))"

text \<open>Nothing goes wrong from here on: the file exists and takes everything, or its creation is
  still deferred and will succeed.\<close>

definition steady :: "('f \<Rightarrow> bool) \<Rightarrow> 'f StreamWriter \<Rightarrow> bool" where
  "steady reliable w =
    (case sw_writer w of
       Some b \<Rightarrow> reliable (bw_w b)
     | None \<Rightarrow> deferredFileCreation w \<and> int (length (concat (sw_pendingChunks w))) < sw_skipSmallFlushThreshold w \<and>
         (case sw_creates w of Some f # _ \<Rightarrow> reliable f | _ \<Rightarrow> False))"

text \<open>What the steps on data leave alone.\<close>

definition settings :: "'f StreamWriter \<Rightarrow> int \<times> int \<times> int \<times> (int \<times> int) list \<times> bytes list" where
  "settings w = (sw_skipSmallFlushThreshold w, sw_bufferSize w, sw_releasedThrough w, sw_released w, sw_dataCh w)"

lemma syncBufferedBytes_same [simp]:
  "sw_writer (syncBufferedBytes w) = sw_writer w" "sw_pendingChunks (syncBufferedBytes w) = sw_pendingChunks w"
  "sw_pendingBytes (syncBufferedBytes w) = sw_pendingBytes w" "sw_bytesWritten (syncBufferedBytes w) = sw_bytesWritten w"
  "sw_creates (syncBufferedBytes w) = sw_creates w" "settings (syncBufferedBytes w) = settings w"
  "deferredFileCreation (syncBufferedBytes w) = deferredFileCreation w"
  "accepted contents (syncBufferedBytes w) = accepted contents w"
  "on_disk contents (syncBufferedBytes w) = on_disk contents w"
  "sw_skipSmallFlushThreshold (syncBufferedBytes w) = sw_skipSmallFlushThreshold w"
  by (simp_all add: syncBufferedBytes_def accepted_def on_disk_def settings_def deferredFileCreation_def split: option.split)

lemma syncBufferedBytes_ok [simp]:
  "writer_ok contents (syncBufferedBytes w) = writer_ok contents w"
  "steady reliable (syncBufferedBytes w) = steady reliable w"
  by (cases "sw_writer w"; simp add: writer_ok_def steady_def)+

lemma counted_new: "contents f = [] \<Longrightarrow> counted contents (NewFlushLockedBufferedWriter f n) 0"
  by (simp add: counted_def NewFlushLockedBufferedWriter_def)

context io_writer
begin

lemma counted_wrote:
  "counted contents b k \<Longrightarrow> wrote d b n err b' \<Longrightarrow> counted contents b' (k + int n)"
proof -
  assume c: "counted contents b k" and w: "wrote d b n err b'"
  have "length (contents (bw_w b') @ bw_buf b') = length (contents (bw_w b) @ bw_buf b @ take n d)"
    using w by (simp add: wrote_def)
  then show ?thesis using c w by (simp add: counted_def wrote_def)
qed

lemma write_chunks_ok:
  "counted contents b (sw_bytesWritten w) \<Longrightarrow> sw_writer w = Some b \<Longrightarrow>
    \<exists>b' n. write_chunks wr ds w = Some (w\<lparr>sw_writer := Some b', sw_bytesWritten := n\<rparr>) \<and> counted contents b' n \<and>
      length (contents (bw_w b)) \<le> length (contents (bw_w b')) \<and>
      (reliable (bw_w b) \<longrightarrow> reliable (bw_w b') \<and>
        contents (bw_w b') @ bw_buf b' = contents (bw_w b) @ bw_buf b @ concat ds)"
proof (induction ds arbitrary: b w)
  case Nil
  then have "w = w\<lparr>sw_writer := Some b, sw_bytesWritten := sw_bytesWritten w\<rparr>" by simp
  then show ?case
    using Nil by (metis append_Nil2 concat.simps(1) order_refl write_chunks.simps(1))
next
  case (Cons d ds)
  obtain n err b1 where w1: "bw_Write wr d 0 b = Some (n, err, b1)" "wrote d b n err b1"
    using write_terminates [of b d 0] Cons.prems(1) by (auto simp: counted_def)
  define w' where "w' = w\<lparr>sw_writer := Some b1, sw_bytesWritten := sw_bytesWritten w + int n\<rparr>"
  have c: "write_chunk wr d w = Some w'"
    using w1 Cons.prems(2) by (simp add: write_chunk_def w'_def)
  obtain b' m where IH: "write_chunks wr ds w' = Some (w'\<lparr>sw_writer := Some b', sw_bytesWritten := m\<rparr>)"
      "counted contents b' m" "length (contents (bw_w b1)) \<le> length (contents (bw_w b'))"
      "reliable (bw_w b1) \<longrightarrow> reliable (bw_w b') \<and>
        contents (bw_w b') @ bw_buf b' = contents (bw_w b1) @ bw_buf b1 @ concat ds"
    using Cons.IH [of b1 w'] counted_wrote [OF Cons.prems(1) w1(2)] by (auto simp: w'_def)
  have "write_chunks wr (d # ds) w = Some (w\<lparr>sw_writer := Some b', sw_bytesWritten := m\<rparr>)"
    using c IH(1) by (simp add: w'_def)
  moreover have "length (contents (bw_w b)) \<le> length (contents (bw_w b'))"
    using IH(3) w1(2) by (simp add: wrote_def)
  moreover have "reliable (bw_w b) \<longrightarrow> reliable (bw_w b') \<and>
        contents (bw_w b') @ bw_buf b' = contents (bw_w b) @ bw_buf b @ concat (d # ds)"
    using IH(4) w1(2) by (simp add: wrote_def)
  ultimately show ?case using IH(2) by blast
qed

text \<open>The step of the writer goroutine on a chunk.\<close>

definition progresses :: "'f StreamWriter \<Rightarrow> bytes \<Rightarrow> 'f StreamWriter \<Rightarrow> bool" where
  "progresses w d w' \<longleftrightarrow> writer_ok contents w' \<and> settings w' = settings w \<and> on_disk contents w \<le> on_disk contents w' \<and>
     (steady reliable w \<longrightarrow> steady reliable w' \<and> accepted contents w' = accepted contents w @ d)"

lemma flush_pending_ok:
  assumes "writer_ok contents w0" and "sw_writer w0 = None" and "createFileAndWriter w0 = (True, w1)"
  obtains w' where "writePendingChunksToWriter wr w1 = Some w'" "writer_ok contents w'" "settings w' = settings w0"
    "sw_writer w' \<noteq> None"
    "(case sw_creates w0 of Some f # _ \<Rightarrow> reliable f | _ \<Rightarrow> False) \<Longrightarrow>
      steady reliable w' \<and> accepted contents w' = concat (sw_pendingChunks w0)"
proof -
  obtain f rest where f: "sw_creates w0 = Some f # rest"
      and w1: "w1 = w0\<lparr>sw_creates := rest, sw_writer := Some (NewFlushLockedBufferedWriter f (sw_bufferSize w0))\<rparr>"
    using assms(2,3) by (auto simp: createFileAndWriter_def split: list.splits option.splits)
  define b where "b = NewFlushLockedBufferedWriter f (sw_bufferSize w0)"
  have e: "contents f = []" using assms(1) f by (simp add: writer_ok_def)
  have "counted contents b (sw_bytesWritten w1)"
    using counted_new [of contents f, OF e] assms(1,2) by (simp add: b_def w1 writer_ok_def)
  then obtain b' n where r: "write_chunks wr (sw_pendingChunks w1) w1 = Some (w1\<lparr>sw_writer := Some b', sw_bytesWritten := n\<rparr>)"
      "counted contents b' n"
      "reliable (bw_w b) \<longrightarrow> reliable (bw_w b') \<and>
        contents (bw_w b') @ bw_buf b' = contents (bw_w b) @ bw_buf b @ concat (sw_pendingChunks w1)"
    using write_chunks_ok [of b w1 "sw_pendingChunks w1"] by (auto simp: w1 b_def)
  define w' where "w' = syncBufferedBytes (w1\<lparr>sw_writer := Some b', sw_bytesWritten := n, sw_pendingChunks := [], sw_pendingBytes := 0\<rparr>)"
  show ?thesis
  proof (rule that [of w'])
    show "writePendingChunksToWriter wr w1 = Some w'"
      using r(1) by (simp add: writePendingChunksToWriter_def w'_def)
    show "writer_ok contents w'" using r(2) assms(1) f by (simp add: w'_def writer_ok_def w1)
    show "settings w' = settings w0"
      unfolding w'_def syncBufferedBytes_same by (simp add: w1 settings_def)
    show "sw_writer w' \<noteq> None" by (simp add: w'_def)
    show "steady reliable w' \<and> accepted contents w' = concat (sw_pendingChunks w0)"
      if "case sw_creates w0 of Some f # _ \<Rightarrow> reliable f | _ \<Rightarrow> False"
      using that r(3) f e
      by (simp add: w'_def steady_def accepted_def b_def w1 NewFlushLockedBufferedWriter_def)
  qed
qed

lemma writer_ok_chunk:
  assumes "writer_ok contents w" and "sw_writer w = Some b"
  obtains w' where "map_option syncBufferedBytes (write_chunk wr d w) = Some w'" "progresses w d w'"
proof -
  obtain n err b' where c: "bw_Write wr d 0 b = Some (n, err, b')" "wrote d b n err b'"
    using write_terminates [of b d 0] assms by (auto simp: writer_ok_def counted_def)
  define w' where "w' = syncBufferedBytes (w\<lparr>sw_writer := Some b', sw_bytesWritten := sw_bytesWritten w + int n\<rparr>)"
  have k: "counted contents b' (sw_bytesWritten w + int n)"
    using counted_wrote [OF _ c(2)] assms by (simp add: writer_ok_def)
  show ?thesis
  proof (rule that [of w'])
    show "map_option syncBufferedBytes (write_chunk wr d w) = Some w'"
      using c(1) assms(2) by (simp add: write_chunk_def w'_def)
    have "settings w' = settings w"
      unfolding w'_def syncBufferedBytes_same by (simp add: settings_def)
    then show "progresses w d w'"
      using k c(2) assms by (simp add: progresses_def w'_def writer_ok_def on_disk_def steady_def accepted_def wrote_def)
  qed
qed

lemma create_failed:
  assumes "createFileAndWriter w = (False, w')" and "writer_ok contents w"
  shows "writer_ok contents w' \<and> settings w' = settings w \<and> sw_writer w = None \<and> sw_writer w' = None \<and>
    sw_pendingChunks w' = sw_pendingChunks w \<and> sw_pendingBytes w' = sw_pendingBytes w \<and>
    \<not> (case sw_creates w of Some f # _ \<Rightarrow> reliable f | _ \<Rightarrow> False)"
  using assms by (auto simp: createFileAndWriter_def writer_ok_def settings_def split: option.splits list.splits)

lemma handle_progresses:
  assumes "writer_ok contents w"
  obtains w' where "handleDataChunk wr d w = Some w'" "progresses w d w'"
proof (cases "deferredFileCreation w \<and> sw_writer w = None")
  case False
  show ?thesis
  proof (cases "sw_writer w")
    case None
    then have "\<not> deferredFileCreation w" using False by simp
    then show ?thesis
      using that [of "syncBufferedBytes w"] None assms
      by (simp add: handleDataChunk_def write_chunk_def progresses_def steady_def)
  next
    case (Some b)
    then show ?thesis
      using writer_ok_chunk [OF assms Some, of d] that False by (auto simp: handleDataChunk_def)
  qed
next
  case unborn: True
  define w0 where "w0 = w\<lparr>sw_pendingChunks := sw_pendingChunks w @ [d], sw_pendingBytes := sw_pendingBytes w + int (length d)\<rparr>"
  have ok0: "writer_ok contents w0" and s0: "settings w0 = settings w" "sw_writer w0 = None" "on_disk contents w = 0"
      "sw_creates w0 = sw_creates w" "sw_pendingChunks w0 = sw_pendingChunks w @ [d]"
    using assms unborn by (simp_all add: w0_def writer_ok_def settings_def on_disk_def)
  have pb: "sw_pendingBytes w0 = int (length (concat (sw_pendingChunks w)) + length d)"
    using ok0 by (simp add: writer_ok_def s0)
  have th: "sw_skipSmallFlushThreshold w0 = sw_skipSmallFlushThreshold w" by (simp add: w0_def)
  have step: "handleDataChunk wr d w =
      (if sw_pendingBytes w0 < sw_skipSmallFlushThreshold w0 then Some w0
        else case createFileAndWriter w0 of
          (False, w) \<Rightarrow>
            if sw_pendingBytes w \<le> maxPendingBytesBeforeDrop then Some w else Some (releasePendingChunks w)
        | (True, w) \<Rightarrow> writePendingChunksToWriter wr w)"
    using unborn by (simp add: handleDataChunk_def w0_def Let_def)
  show ?thesis
  proof (cases "sw_pendingBytes w0 < sw_skipSmallFlushThreshold w0")
    case True
    have "progresses w d w0"
      using ok0 s0 True pb th unborn
      by (simp add: progresses_def on_disk_def steady_def accepted_def deferredFileCreation_def)
    then show ?thesis using that [of w0] step True by simp
  next
    case big: False
    obtain created w1 where c: "createFileAndWriter w0 = (created, w1)" by (metis surj_pair)
    show ?thesis
    proof (cases created)
      case True
      then have c': "createFileAndWriter w0 = (True, w1)" using c by simp
      obtain w' where w': "writePendingChunksToWriter wr w1 = Some w'" "writer_ok contents w'" "settings w' = settings w0"
          "sw_writer w' \<noteq> None"
          "(case sw_creates w0 of Some f # _ \<Rightarrow> reliable f | _ \<Rightarrow> False) \<Longrightarrow>
            steady reliable w' \<and> accepted contents w' = concat (sw_pendingChunks w0)"
        using flush_pending_ok [OF ok0 s0(2) c'] by blast
      have "steady reliable w \<Longrightarrow> (case sw_creates w0 of Some f # _ \<Rightarrow> reliable f | _ \<Rightarrow> False)"
        using unborn by (simp add: steady_def s0)
      then have "progresses w d w'"
        using w' s0 unborn by (auto simp: progresses_def on_disk_def accepted_def split: option.split)
      then show ?thesis using that [of w'] step big c' w'(1) by simp
    next
      case False
      then have c': "createFileAndWriter w0 = (False, w1)" using c by simp
      note f = create_failed [OF c' ok0]
      have ns: "\<not> steady reliable w" using f unborn by (auto simp: steady_def s0)
      then have p: "progresses w d w1" using f s0 by (simp add: progresses_def on_disk_def)
      then have "progresses w d (releasePendingChunks w1)"
        using f ns by (simp add: progresses_def releasePendingChunks_def writer_ok_def settings_def on_disk_def)
      then show ?thesis
        using that p step big c' by (cases "sw_pendingBytes w1 \<le> maxPendingBytesBeforeDrop") auto
    qed
  qed
qed

lemma flush_progresses:
  assumes "writer_ok contents w"
  shows "progresses w [] (doPeriodicFlush wr w)"
proof (cases "sw_writer w")
  case None
  then show ?thesis using assms by (simp add: doPeriodicFlush_def progresses_def)
next
  case (Some b)
  obtain err b' where f: "bw_Flush wr b = (err, b')" by (metis surj_pair)
  note k = flush_keeps [OF f]
  have len: "length (contents (bw_w b')) + length (bw_buf b') = length (contents (bw_w b)) + length (bw_buf b)"
    using k by (metis length_append)
  define w1 where "w1 = w\<lparr>sw_writer := Some b'\<rparr>"
  have p: "progresses w [] w1"
    using assms Some k len
    by (auto simp: progresses_def w1_def writer_ok_def settings_def on_disk_def steady_def accepted_def counted_def)
  have sync: "settings (syncBufferedBytes w1) = settings w1" by simp
  show ?thesis
  proof (cases "int (Buffered b) < sw_minPeriodicFlushBytes w")
    case True
    then show ?thesis using Some assms by (simp add: doPeriodicFlush_def progresses_def)
  next
    case False
    then have "doPeriodicFlush wr w = (if err then w1 else syncBufferedBytes w1)"
      using Some f by (simp add: doPeriodicFlush_def w1_def)
    then show ?thesis using p by (simp add: progresses_def)
  qed
qed

text \<open>Every event keeps the accounting; when nothing goes wrong, what was accepted and what is
  queued is what was handed in.\<close>

definition queued :: "'f StreamWriter \<Rightarrow> bytes" where
  "queued w = accepted contents w @ concat (sw_dataCh w)"

lemma progresses_queued:
  "progresses w d w' \<Longrightarrow> steady reliable w \<Longrightarrow> queued w' = accepted contents w @ d @ concat (sw_dataCh w)"
  by (simp add: progresses_def queued_def settings_def)

end

section \<open>Cold ranges\<close>

definition cold_ok :: "('f \<Rightarrow> bytes) \<Rightarrow> 'f StreamWriter \<Rightarrow> bool" where
  "cold_ok contents w \<longleftrightarrow> 0 \<le> sw_releasedThrough w \<and>
     (\<forall>(off, len) \<in> set (sw_released w). 0 \<le> off \<and> off mod 4096 = 0 \<and> 0 < len \<and>
        off + len \<le> on_disk contents w - coldReleaseHotWindow (sw_bufferSize w))"

lemma cold_ok_grows:
  "settings w' = settings w \<Longrightarrow> on_disk contents w \<le> on_disk contents w' \<Longrightarrow> cold_ok contents w \<Longrightarrow> cold_ok contents w'"
  unfolding cold_ok_def settings_def by fastforce

lemma alignDown_bounds: "0 \<le> off \<Longrightarrow> 0 \<le> alignDown off \<and> alignDown off \<le> off \<and> alignDown off mod 4096 = 0"
  using pos_mod_bound [of 4096 off] pos_mod_sign [of 4096 off]
  by (auto simp: alignDown_def minus_mod_eq_mult_div mult_div_mod_eq [symmetric] intro: zdiv_mono1)

lemma alignedColdRange_bounds:
  assumes "alignedColdRange off len = Some (o', l)" and "0 \<le> off"
  shows "0 \<le> o' \<and> o' mod 4096 = 0 \<and> 0 < l \<and> o' + l \<le> off + len"
proof -
  have "o' = alignDown off" "l = alignDown (off + len) - alignDown off" "alignDown off < alignDown (off + len)" "0 < len"
    using assms(1) by (auto simp: alignedColdRange_def Let_def split: if_splits)
  then show ?thesis
    using alignDown_bounds [OF assms(2)] alignDown_bounds [of "off + len"] assms(2) by simp
qed

lemma planColdRelease_bounds:
  assumes "planColdRelease onDisk from bufferSize = Some plan"
  shows "cr_Offset plan = from \<and> from + cr_Length plan = cr_NewEnd plan \<and> from < cr_NewEnd plan \<and>
    cr_NewEnd plan = onDisk - coldReleaseHotWindow bufferSize \<and> 33554432 \<le> cr_Length plan"
  using assms by (auto simp: planColdRelease_def Let_def split: if_splits)

lemma released_frame [simp]:
  "writer_ok contents (w\<lparr>sw_releasedThrough := t, sw_released := r\<rparr>) = writer_ok contents w"
  "steady reliable (w\<lparr>sw_releasedThrough := t, sw_released := r\<rparr>) = steady reliable w"
  "accepted contents (w\<lparr>sw_releasedThrough := t, sw_released := r\<rparr>) = accepted contents w"
  by (cases "sw_writer w"; simp add: writer_ok_def steady_def accepted_def deferredFileCreation_def)+

lemma releaseColdPrefix_ok:
  assumes "writer_ok contents w" and "cold_ok contents w"
  shows "cold_ok contents (releaseColdPrefix dropped w) \<and> writer_ok contents (releaseColdPrefix dropped w) \<and>
    (\<exists>t r. releaseColdPrefix dropped w = w\<lparr>sw_releasedThrough := t, sw_released := r\<rparr>)"
proof (cases "sw_writer w")
  case None
  have "w = w\<lparr>sw_releasedThrough := sw_releasedThrough w, sw_released := sw_released w\<rparr>" by simp
  then show ?thesis using None assms unfolding releaseColdPrefix_def by (metis option.simps(4))
next
  case (Some b)
  have disk: "sw_bytesWritten w - int (Buffered b) = on_disk contents w"
    using assms(1) Some by (simp add: writer_ok_def counted_def Buffered_def on_disk_def)
  show ?thesis
  proof (cases "planColdRelease (on_disk contents w) (sw_releasedThrough w) (sw_bufferSize w)")
    case None
    have "w = w\<lparr>sw_releasedThrough := sw_releasedThrough w, sw_released := sw_released w\<rparr>" by simp
    moreover have "releaseColdPrefix dropped w = w"
      using None Some disk by (simp add: releaseColdPrefix_def)
    ultimately show ?thesis using assms by metis
  next
    case plan: (Some p)
    note b = planColdRelease_bounds [OF plan]
    define t where "t = (if alignedColdRange (cr_Offset p) (cr_Length p) = None \<or> dropped then cr_NewEnd p else sw_releasedThrough w)"
    define r where "r = (case alignedColdRange (cr_Offset p) (cr_Length p) of
        None \<Rightarrow> sw_released w | Some r \<Rightarrow> sw_released w @ [r])"
    have eq: "releaseColdPrefix dropped w = w\<lparr>sw_releasedThrough := t, sw_released := r\<rparr>"
      using Some plan disk by (auto simp: releaseColdPrefix_def t_def r_def Let_def split: option.split)
    have "0 \<le> t" using b assms(2) by (auto simp: t_def cold_ok_def)
    moreover have "\<forall>(off, len) \<in> set r. 0 \<le> off \<and> off mod 4096 = 0 \<and> 0 < len \<and>
        off + len \<le> on_disk contents w - coldReleaseHotWindow (sw_bufferSize w)"
      using assms(2) b alignedColdRange_bounds [of "cr_Offset p" "cr_Length p"]
      by (auto simp: r_def cold_ok_def split: option.splits) 
    ultimately have "cold_ok contents (w\<lparr>sw_releasedThrough := t, sw_released := r\<rparr>)"
      by (simp add: cold_ok_def on_disk_def)
    moreover have "writer_ok contents (w\<lparr>sw_releasedThrough := t, sw_released := r\<rparr>)"
      using assms(1) by simp
    ultimately show ?thesis unfolding eq by blast
  qed
qed

lemma dataCh_frame [simp]:
  "writer_ok contents (w\<lparr>sw_dataCh := q\<rparr>) = writer_ok contents w"
  "steady reliable (w\<lparr>sw_dataCh := q\<rparr>) = steady reliable w"
  "accepted contents (w\<lparr>sw_dataCh := q\<rparr>) = accepted contents w"
  "cold_ok contents (w\<lparr>sw_dataCh := q\<rparr>) = cold_ok contents w"
  by (cases "sw_writer w"; simp add: writer_ok_def steady_def accepted_def cold_ok_def on_disk_def deferredFileCreation_def)+

section \<open>Runs\<close>

fun handed_in :: "writer_event list \<Rightarrow> bytes" where
  "handed_in [] = []"
| "handed_in (EvProcess d # evs) = d @ handed_in evs"
| "handed_in (_ # evs) = handed_in evs"

context io_writer
begin

lemma progresses_cold: "progresses w d w' \<Longrightarrow> cold_ok contents w \<Longrightarrow> cold_ok contents w'"
  using cold_ok_grows [of w' w] by (simp add: progresses_def)

lemma progresses_threshold: "progresses w d w' \<Longrightarrow> sw_skipSmallFlushThreshold w' = sw_skipSmallFlushThreshold w"
  by (simp add: progresses_def settings_def)

lemma step_ok:
  assumes "writer_ok contents w" and "cold_ok contents w"
  obtains w' where "writer_step wr ev w = Some w'" "writer_ok contents w'" "cold_ok contents w'"
    "steady reliable w \<Longrightarrow> steady reliable w' \<and> queued w' = queued w @ handed_in [ev]"
    "sw_skipSmallFlushThreshold w' = sw_skipSmallFlushThreshold w"
proof (cases ev)
  case (EvProcess d)
  define w' where "w' = sw_Process d w"
  show ?thesis
  proof (rule that [of w'])
    show "writer_step wr ev w = Some w'" using EvProcess by (simp add: writer_step_def w'_def)
    show "writer_ok contents w'" "cold_ok contents w'" "sw_skipSmallFlushThreshold w' = sw_skipSmallFlushThreshold w"
      using assms by (simp_all add: w'_def sw_Process_def)
    show "steady reliable w' \<and> queued w' = queued w @ handed_in [ev]" if "steady reliable w"
      using that EvProcess
      by (simp add: w'_def sw_Process_def queued_def)
  qed
next
  case EvTake
  show ?thesis
  proof (cases "sw_dataCh w")
    case Nil
    then show ?thesis using that [of w] assms EvTake by (simp add: writer_step_def)
  next
    case (Cons d ds)
    define w0 where "w0 = w\<lparr>sw_dataCh := ds\<rparr>"
    have w0: "writer_ok contents w0" "cold_ok contents w0" "steady reliable w0 = steady reliable w"
        "accepted contents w0 = accepted contents w" "sw_dataCh w0 = ds"
        "sw_skipSmallFlushThreshold w0 = sw_skipSmallFlushThreshold w"
      using assms by (simp_all add: w0_def)
    obtain w' where w': "handleDataChunk wr d w0 = Some w'" "progresses w0 d w'"
      using handle_progresses [OF w0(1)] by blast
    show ?thesis
    proof (rule that [of w'])
      show "writer_step wr ev w = Some w'" using w'(1) EvTake Cons by (simp add: writer_step_def w0_def)
      show "writer_ok contents w'" "cold_ok contents w'" "sw_skipSmallFlushThreshold w' = sw_skipSmallFlushThreshold w"
        using w'(2) w0 progresses_cold [OF w'(2)] progresses_threshold [OF w'(2)] by (simp_all add: progresses_def)
      show "steady reliable w' \<and> queued w' = queued w @ handed_in [ev]" if "steady reliable w"
        using that w'(2) w0 progresses_queued [OF w'(2)] EvTake Cons by (simp add: progresses_def queued_def)
    qed
  qed
next
  case EvFlush
  note p = flush_progresses [OF assms(1)]
  show ?thesis
  proof (rule that [of "doPeriodicFlush wr w"])
    show "writer_step wr ev w = Some (doPeriodicFlush wr w)" using EvFlush by (simp add: writer_step_def)
    show "writer_ok contents (doPeriodicFlush wr w)" "cold_ok contents (doPeriodicFlush wr w)"
      "sw_skipSmallFlushThreshold (doPeriodicFlush wr w) = sw_skipSmallFlushThreshold w"
      using p assms(2) progresses_cold [OF p] progresses_threshold [OF p] by (simp_all add: progresses_def)
    show "steady reliable (doPeriodicFlush wr w) \<and> queued (doPeriodicFlush wr w) = queued w @ handed_in [ev]"
      if "steady reliable w"
      using that p progresses_queued [OF p] EvFlush by (simp add: progresses_def queued_def)
  qed
next
  case (EvCold dropped)
  obtain t r where eq: "releaseColdPrefix dropped w = w\<lparr>sw_releasedThrough := t, sw_released := r\<rparr>"
    using releaseColdPrefix_ok [OF assms] by blast
  show ?thesis
    using that [of "releaseColdPrefix dropped w"] releaseColdPrefix_ok [OF assms, of dropped] EvCold
    by (simp add: writer_step_def eq queued_def)
qed

lemma steps_ok:
  "writer_ok contents w \<Longrightarrow> cold_ok contents w \<Longrightarrow>
    \<exists>w'. writer_steps wr evs w = Some w' \<and> writer_ok contents w' \<and> cold_ok contents w' \<and>
      sw_skipSmallFlushThreshold w' = sw_skipSmallFlushThreshold w \<and>
      (steady reliable w \<longrightarrow> steady reliable w' \<and> queued w' = queued w @ handed_in evs)"
proof (induction evs arbitrary: w)
  case Nil
  then show ?case by simp
next
  case (Cons ev evs)
  obtain w1 where w1: "writer_step wr ev w = Some w1" "writer_ok contents w1" "cold_ok contents w1"
    "steady reliable w \<Longrightarrow> steady reliable w1 \<and> queued w1 = queued w @ handed_in [ev]"
    "sw_skipSmallFlushThreshold w1 = sw_skipSmallFlushThreshold w"
    using step_ok [OF Cons.prems] by blast
  have "handed_in (ev # evs) = handed_in [ev] @ handed_in evs" by (cases ev) simp_all
  then show ?case using Cons.IH [OF w1(2,3)] w1 by auto
qed

lemma drain_ok:
  "writer_ok contents w \<Longrightarrow> sw_dataCh w = [] \<Longrightarrow>
    \<exists>w'. drain wr ds w = Some w' \<and> writer_ok contents w' \<and> sw_dataCh w' = [] \<and>
      sw_skipSmallFlushThreshold w' = sw_skipSmallFlushThreshold w \<and>
      (steady reliable w \<longrightarrow> steady reliable w' \<and> accepted contents w' = accepted contents w @ concat ds)"
proof (induction ds arbitrary: w)
  case Nil
  then show ?case by simp
next
  case (Cons d ds)
  obtain w1 where w1: "handleDataChunk wr d w = Some w1" "progresses w d w1"
    using handle_progresses [OF Cons.prems(1)] by blast
  then have "writer_ok contents w1" "sw_dataCh w1 = []"
    using Cons.prems(2) by (simp_all add: progresses_def settings_def)
  then show ?case using Cons.IH [of w1] w1 by (auto simp: progresses_def settings_def)
qed

lemma close_writer_ok:
  assumes "sw_writer w = Some b"
  obtains f w' where "close_writer wr w = (Some f, w')" "reliable (bw_w b) \<Longrightarrow> contents f = accepted contents w"
proof -
  obtain err b' where f: "bw_Flush wr b = (err, b')" by (metis surj_pair)
  show ?thesis
    using that [of "bw_w b'"] flush_keeps [OF f] f assms by (auto simp: close_writer_def accepted_def Let_def)
qed

lemma close_ok:
  assumes "writer_ok contents w"
  obtains r w' where "sw_Close wr w = Some (r, w')"
    "steady reliable w \<Longrightarrow> (case r of
        Some f \<Rightarrow> contents f = queued w
      | None \<Rightarrow> deferredFileCreation w \<and> int (length (queued w)) < sw_skipSmallFlushThreshold w)"
proof -
  define w0 where "w0 = w\<lparr>sw_dataCh := []\<rparr>"
  have w0: "writer_ok contents w0" "sw_dataCh w0 = []" "steady reliable w0 = steady reliable w"
      "accepted contents w0 = accepted contents w" "sw_skipSmallFlushThreshold w0 = sw_skipSmallFlushThreshold w"
    using assms by (simp_all add: w0_def)
  obtain w1 where d: "drain wr (sw_dataCh w) w0 = Some w1" "writer_ok contents w1"
      "sw_skipSmallFlushThreshold w1 = sw_skipSmallFlushThreshold w"
      "steady reliable w \<Longrightarrow> steady reliable w1 \<and> accepted contents w1 = queued w"
    using drain_ok [OF w0(1,2)] w0 by (auto simp: queued_def)
  have thr: "deferredFileCreation w1 = deferredFileCreation w" using d(3) by (simp add: deferredFileCreation_def)
  have close: "sw_Close wr w = (if deferredFileCreation w1 \<and> sw_writer w1 = None then
          (if sw_pendingBytes w1 = 0 then Some (None, w1)
           else if sw_pendingBytes w1 < sw_skipSmallFlushThreshold w1 then Some (None, releasePendingChunks w1)
           else case createFileAndWriter w1 of
             (False, w) \<Rightarrow> Some (None, releasePendingChunks w)
           | (True, w) \<Rightarrow> map_option (close_writer wr) (writePendingChunksToWriter wr w))
        else Some (close_writer wr w1))"
    using d(1) by (simp add: sw_Close_def w0_def)
  show ?thesis
  proof (cases "sw_writer w1")
    case (Some b)
    then obtain f w' where "close_writer wr w1 = (Some f, w')" "reliable (bw_w b) \<Longrightarrow> contents f = accepted contents w1"
      using close_writer_ok by blast
    then show ?thesis using that [of "Some f" w'] close Some d(4) by (simp add: steady_def)
  next
    case None
    have small: "deferredFileCreation w \<and> int (length (queued w)) < sw_skipSmallFlushThreshold w \<and>
        sw_pendingBytes w1 < sw_skipSmallFlushThreshold w1" if "steady reliable w"
      using d(2,3) d(4) [OF that] None thr by (auto simp: steady_def accepted_def writer_ok_def)
    show ?thesis
    proof (cases "deferredFileCreation w1")
      case False
      then have "sw_Close wr w = Some (None, w1)" using close None by (simp add: close_writer_def)
      then show ?thesis using that [of None w1] small by simp
    next
      case deferred: True
      show ?thesis
      proof (cases "sw_pendingBytes w1 = 0 \<or> sw_pendingBytes w1 < sw_skipSmallFlushThreshold w1")
        case True
        then obtain w' where "sw_Close wr w = Some (None, w')"
          using close None deferred by (cases "sw_pendingBytes w1 = 0") auto
        then show ?thesis using that [of None w'] small by simp
      next
        case big: False
        then have ns: "\<not> steady reliable w" using small by blast
        obtain created w2 where c: "createFileAndWriter w1 = (created, w2)" by (metis surj_pair)
        show ?thesis
        proof (cases created)
          case False
          then have "sw_Close wr w = Some (None, releasePendingChunks w2)"
            using close None deferred big c by simp
          then show ?thesis using that [of None "releasePendingChunks w2"] ns by simp
        next
          case True
          then have c': "createFileAndWriter w1 = (True, w2)" using c by simp
          obtain w3 where w3: "writePendingChunksToWriter wr w2 = Some w3" "sw_writer w3 \<noteq> None"
            using flush_pending_ok [OF d(2) None c'] by metis
          obtain r w' where "close_writer wr w3 = (r, w')" by (metis surj_pair)
          then have "sw_Close wr w = Some (r, w')"
            using close None deferred big c' w3(1) by simp
          then show ?thesis using that [of r w'] ns by simp
        qed
      qed
    qed
  qed
qed

end

section \<open>The recording file\<close>

text \<open>A processor just built, whatever options were given.\<close>

definition fresh_writer :: "os_file option list \<Rightarrow> os_file StreamWriter \<Rightarrow> bool" where
  "fresh_writer creates w \<longleftrightarrow> sw_creates w = creates \<and> sw_writer w = None \<and> sw_dataCh w = [] \<and>
     sw_pendingChunks w = [] \<and> sw_pendingBytes w = 0 \<and> sw_bytesWritten w = 0 \<and>
     sw_releasedThrough w = 0 \<and> sw_released w = []"

definition empty_file :: os_file where
  "empty_file = \<lparr>of_data = [], of_faults = []\<rparr>"

lemma fresh_options:
  "\<forall>opt \<in> set opts. (\<exists>n. opt = WithSkipSmallFlushThreshold n \<or> opt = WithBufferSize n \<or> opt = WithSyncPeriod n \<or>
      opt = WithColdCacheReleasePeriod n \<or> opt = WithFlushPeriod n \<or> opt = WithChanBufferSize n \<or>
      opt = WithMinPeriodicFlushBytes n) \<Longrightarrow>
    fresh_writer creates (NewBufferedStreamWriter creates opts)"
proof -
  have step: "fresh_writer creates (opt w)" if "fresh_writer creates w" and
    "\<exists>n. opt = WithSkipSmallFlushThreshold n \<or> opt = WithBufferSize n \<or> opt = WithSyncPeriod n \<or>
      opt = WithColdCacheReleasePeriod n \<or> opt = WithFlushPeriod n \<or> opt = WithChanBufferSize n \<or>
      opt = WithMinPeriodicFlushBytes n" for opt and w :: "os_file StreamWriter"
    using that by (elim exE disjE)
      (simp_all add: fresh_writer_def WithSkipSmallFlushThreshold_def WithBufferSize_def WithSyncPeriod_def
        WithColdCacheReleasePeriod_def WithFlushPeriod_def WithChanBufferSize_def WithMinPeriodicFlushBytes_def)
  assume opts: "\<forall>opt \<in> set opts. (\<exists>n. opt = WithSkipSmallFlushThreshold n \<or> opt = WithBufferSize n \<or> opt = WithSyncPeriod n \<or>
      opt = WithColdCacheReleasePeriod n \<or> opt = WithFlushPeriod n \<or> opt = WithChanBufferSize n \<or>
      opt = WithMinPeriodicFlushBytes n)"
  have "fresh_writer creates w \<Longrightarrow> fresh_writer creates (fold (\<lambda>opt. opt) opts w)" for w :: "os_file StreamWriter"
    using opts step by (induction opts arbitrary: w) auto
  then show ?thesis
    by (simp add: NewBufferedStreamWriter_def Let_def fresh_writer_def)
qed

lemma opened_ok:
  assumes "fresh_writer creates w0" and "\<forall>f. Some f \<in> set creates \<longrightarrow> of_data f = []"
  shows "writer_ok of_data (snd (sw_Open w0)) \<and> cold_ok of_data (snd (sw_Open w0))"
  using assms
  by (auto simp: sw_Open_def createFileAndWriter_def fresh_writer_def writer_ok_def cold_ok_def counted_new
      split: list.splits option.splits)



text \<open>C14. On a healthy disk the recording is complete: whatever the interleaving of the producer,
  the writer goroutine, the flush timer and the cache worker, after \<open>Close\<close> the file holds every
  byte handed to \<open>Process\<close>, in order and once; no file is made only if the whole stream was smaller
  than the threshold for small files.\<close>

theorem stream_written_completely:
  assumes "fresh_writer [Some empty_file] w0"
  shows "\<exists>w1 w2 r w3. sw_Open w0 = (True, w1) \<and> writer_steps file_Write evs w1 = Some w2 \<and>
    sw_Close file_Write w2 = Some (r, w3) \<and>
    (case r of Some f \<Rightarrow> of_data f = handed_in evs
     | None \<Rightarrow> int (length (handed_in evs)) < sw_skipSmallFlushThreshold w0)"
proof -
  obtain w1 where w1: "sw_Open w0 = (True, w1)" "steady (\<lambda>f. of_faults f = []) w1" "fw.queued w1 = []"
      "sw_skipSmallFlushThreshold w1 = sw_skipSmallFlushThreshold w0"
  proof (cases "deferredFileCreation w0")
    case True
    then show ?thesis
      using assms that [of "w0\<lparr>sw_pendingChunks := [], sw_pendingBytes := 0, sw_dataCh := []\<rparr>"]
      by (simp add: sw_Open_def fresh_writer_def steady_def fw.queued_def accepted_def deferredFileCreation_def
          empty_file_def)
  next
    case False
    then show ?thesis
      using assms that [of "w0\<lparr>sw_creates := [], sw_dataCh := [],
          sw_writer := Some (NewFlushLockedBufferedWriter empty_file (sw_bufferSize w0))\<rparr>"]
      by (simp add: sw_Open_def createFileAndWriter_def fresh_writer_def steady_def fw.queued_def accepted_def
          deferredFileCreation_def empty_file_def NewFlushLockedBufferedWriter_def)
  qed
  have ok: "writer_ok of_data w1" "cold_ok of_data w1"
    using opened_ok [OF assms] w1(1) by (simp_all add: empty_file_def)
  obtain w2 where w2: "writer_steps file_Write evs w1 = Some w2" "writer_ok of_data w2" "steady (\<lambda>f. of_faults f = []) w2"
      "fw.queued w2 = handed_in evs" "sw_skipSmallFlushThreshold w2 = sw_skipSmallFlushThreshold w0"
    using fw.steps_ok [OF ok, of evs] w1 by auto
  obtain r w3 where "sw_Close file_Write w2 = Some (r, w3)"
      "case r of Some f \<Rightarrow> of_data f = fw.queued w2
       | None \<Rightarrow> deferredFileCreation w2 \<and> int (length (fw.queued w2)) < sw_skipSmallFlushThreshold w2"
    using fw.close_ok [OF w2(2)] w2(3) by metis
  then show ?thesis
    using w1(1) w2 by (auto split: option.splits)
qed

theorem stream_written_completely_witness:
  "\<exists>w1 w2 f w3. sw_Open (NewBufferedStreamWriter [Some empty_file] [WithSkipSmallFlushThreshold 2]) = (True, w1) \<and>
    writer_steps file_Write [EvProcess [1, 2], EvTake, EvFlush, EvProcess [3]] w1 = Some w2 \<and>
    sw_Close file_Write w2 = Some (Some f, w3) \<and> of_data f = [1, 2, 3]"
proof -
  let ?w0 = "NewBufferedStreamWriter [Some empty_file] [WithSkipSmallFlushThreshold 2]"
  have fresh: "fresh_writer [Some empty_file] ?w0" and t: "sw_skipSmallFlushThreshold ?w0 = 2"
    by (rule fresh_options) (simp_all add: NewBufferedStreamWriter_def WithSkipSmallFlushThreshold_def, blast)
  define evs :: "writer_event list" where "evs = [EvProcess [1, 2], EvTake, EvFlush, EvProcess [3]]"
  have h: "handed_in evs = [1, 2, 3]" by (simp add: evs_def)
  obtain w1 w2 r w3 where r: "sw_Open ?w0 = (True, w1)" "writer_steps file_Write evs w1 = Some w2"
      "sw_Close file_Write w2 = Some (r, w3)"
      "case r of Some f \<Rightarrow> of_data f = handed_in evs | None \<Rightarrow> int (length (handed_in evs)) < sw_skipSmallFlushThreshold ?w0"
    using stream_written_completely [OF fresh, of evs] by blast
  then obtain f where "r = Some f" "of_data f = [1, 2, 3]"
    using h t by (cases r) auto
  then show ?thesis using r unfolding evs_def by blast
qed

end
