(* ===== verification/GoPath.thy ===== *)
theory GoPath
  imports GoStrings "HOL-Library.Char_ord" "HOL-Library.List_Lexorder"
begin

text \<open>
  Decimal numbers (\<open>strconv\<close>) and file names (\<open>path/filepath\<close>, \<open>strings.TrimSuffix\<close>) of the Go
  standard library, and the name helpers of \<open>utils/file.go\<close> and \<open>utils/string.go\<close>. Slash is the
  separator.
\<close>

section \<open>Decimal numbers\<close>

definition digit :: "nat \<Rightarrow> char" where
  "digit d = char_of (48 + d)"

definition is_digit :: "char \<Rightarrow> bool" where
  "is_digit c \<longleftrightarrow> 48 \<le> (of_char c :: nat) \<and> (of_char c :: nat) \<le> 57"

fun itoa :: "nat \<Rightarrow> string" where
  "itoa n = (if n < 10 then [digit n] else itoa (n div 10) @ [digit (n mod 10)])"

declare itoa.simps [simp del]

definition digits_value :: "string \<Rightarrow> nat" where
  "digits_value s = foldl (\<lambda>v c. 10 * v + (of_char c - 48)) 0 s"

text \<open>\<open>Atoi\<close> on a string of digits: out of range it yields the largest \<open>int\<close> with an error, which
  the callers below ignore.\<close>

definition atoi_digits :: "string \<Rightarrow> nat" where
  "atoi_digits s = min (digits_value s) (2 ^ 63 - 1)"

lemma is_digit_digit [simp]: "d < 10 \<Longrightarrow> is_digit (digit d)"
  by (simp add: digit_def is_digit_def)

lemma of_char_digit [simp]: "d < 10 \<Longrightarrow> of_char (digit d) = (48 + d :: nat)"
  by (simp add: digit_def)

lemma itoa_digits: "list_all is_digit (itoa n)"
  by (induction n rule: itoa.induct) (subst itoa.simps, simp)

lemma itoa_nonempty [simp]: "itoa n \<noteq> []"
  by (subst itoa.simps) simp

lemma digits_value_itoa [simp]: "digits_value (itoa n) = n"
proof (induction n rule: itoa.induct)
  case (1 n)
  show ?case
  proof (cases "n < 10")
    case True
    then show ?thesis by (subst itoa.simps) (simp add: digits_value_def)
  next
    case False
    then have "digits_value (itoa n) = 10 * digits_value (itoa (n div 10)) + n mod 10"
      by (subst itoa.simps) (simp add: digits_value_def)
    then show ?thesis using 1 [OF False] by simp
  qed
qed

lemma atoi_itoa: "n < 2 ^ 63 \<Longrightarrow> atoi_digits (itoa n) = n"
  by (simp add: atoi_digits_def)

lemma itoa_inject [simp]: "itoa m = itoa n \<longleftrightarrow> m = n"
  by (metis digits_value_itoa)

lemma not_digit [simp]:
  "\<not> is_digit CHR ''-''" "\<not> is_digit CHR ''_''" "\<not> is_digit CHR ''.''" "\<not> is_digit CHR ''/''"
  by (simp_all add: is_digit_def)

lemma digits_notin: "list_all is_digit s \<Longrightarrow> \<not> is_digit c \<Longrightarrow> c \<notin> set s"
  by (auto simp: list_all_iff)

section \<open>Splitting at the last occurrence of a character\<close>

text \<open>What follows the last \<open>c\<close>, if there is one: \<open>s[strings.LastIndex(s, c)+1:]\<close>.\<close>

definition after_last :: "char \<Rightarrow> string \<Rightarrow> string option" where
  "after_last c s = (if c \<in> set s then Some (rev (takeWhile (\<lambda>x. x \<noteq> c) (rev s))) else None)"

lemma after_last_append: "c \<notin> set b \<Longrightarrow> after_last c (a @ c # b) = Some b"
  by (simp add: after_last_def takeWhile_append)

lemma last_split_unique:
  fixes c :: char
  assumes "c \<notin> set b" and "c \<notin> set b'" and eq: "a @ c # b = a' @ c # b'"
  shows "a = a' \<and> b = b'"
proof -
  have "Some b = Some b'"
    using after_last_append [OF assms(1), of a] after_last_append [OF assms(2), of a'] eq by simp
  then show ?thesis using eq by simp
qed

section \<open>File names\<close>

text \<open>\<open>filepath.Ext\<close>: from the last dot on, looking no further than the last slash.\<close>

definition Ext :: "string \<Rightarrow> string" where
  "Ext p = (let r = takeWhile (\<lambda>c. c \<noteq> CHR ''.'' \<and> c \<noteq> CHR ''/'') (rev p); k = length p - length r in
     if k > 0 \<and> p ! (k - 1) = CHR ''.'' then drop (k - 1) p else [])"

text \<open>\<open>filepath.Base\<close>: trailing slashes do not count.\<close>

definition Base :: "string \<Rightarrow> string" where
  "Base p =
    (if p = [] then ''.''
     else let q = rev (dropWhile (\<lambda>c. c = CHR ''/'') (rev p)) in
       if q = [] then ''/'' else case after_last CHR ''/'' q of None \<Rightarrow> q | Some b \<Rightarrow> b)"

definition HasSuffix :: "string \<Rightarrow> string \<Rightarrow> bool" where
  "HasSuffix s t \<longleftrightarrow> length t \<le> length s \<and> drop (length s - length t) s = t"

definition TrimSuffix :: "string \<Rightarrow> string \<Rightarrow> string" where
  "TrimSuffix s t = (if HasSuffix s t then take (length s - length t) s else s)"

definition Join :: "string \<Rightarrow> string \<Rightarrow> string" where
  "Join d n = d @ ''/'' @ n"

lemma Ext_append [simp]:
  "CHR ''.'' \<notin> set e \<Longrightarrow> CHR ''/'' \<notin> set e \<Longrightarrow> Ext (p @ CHR ''.'' # e) = CHR ''.'' # e"
proof -
  assume "CHR ''.'' \<notin> set e" and "CHR ''/'' \<notin> set e"
  then have "takeWhile (\<lambda>c. c \<noteq> CHR ''.'' \<and> c \<noteq> CHR ''/'') (rev (p @ CHR ''.'' # e)) = rev e"
    by (auto simp: takeWhile_append takeWhile_eq_all_conv)
  then show ?thesis by (simp add: Ext_def Let_def nth_append)
qed

lemma Ext_cases:
  obtains (none) "Ext p = []"
  | (some) q e where "p = q @ CHR ''.'' # e" "CHR ''.'' \<notin> set e" "CHR ''/'' \<notin> set e" "Ext p = CHR ''.'' # e"
proof (cases "Ext p = []")
  case False
  let ?P = "\<lambda>c. c \<noteq> CHR ''.'' \<and> c \<noteq> CHR ''/''"
  define r where "r = takeWhile ?P (rev p)"
  define k where "k = length p - length r"
  have k: "k > 0" "p ! (k - 1) = CHR ''.''" "Ext p = drop (k - 1) p"
    using False by (auto simp: Ext_def Let_def r_def k_def split: if_splits)
  have "length r \<le> length p" unfolding r_def using length_takeWhile_le [of ?P "rev p"] by simp
  moreover have "r = take (length r) (rev p)" unfolding r_def by (rule takeWhile_eq_take)
  ultimately have "r = rev (drop k p)" by (simp add: k_def take_rev)
  then have "set (drop k p) = set r" by simp
  moreover have "?P c" if "c \<in> set r" for c using set_takeWhileD [of c ?P "rev p"] that by (simp add: r_def)
  ultimately have dk: "\<forall>c \<in> set (drop k p). ?P c" by blast
  have "k \<le> length p" by (simp add: k_def)
  then have dk1: "drop (k - 1) p = CHR ''.'' # drop k p"
    using k(1,2) Cons_nth_drop_Suc [of "k - 1" p] by simp
  have "take (k - 1) p @ CHR ''.'' # drop k p = p" by (simp flip: dk1)
  moreover have "CHR ''.'' \<notin> set (drop k p)" "CHR ''/'' \<notin> set (drop k p)" using dk by blast+
  ultimately show ?thesis using k(3) [unfolded dk1] by (rule some [OF sym])
qed (rule none)

lemma TrimSuffix_append [simp]: "TrimSuffix (p @ e) e = p"
  by (simp add: TrimSuffix_def HasSuffix_def)

lemma Base_Join [simp]: "CHR ''/'' \<notin> set n \<Longrightarrow> n \<noteq> [] \<Longrightarrow> Base (Join d n) = n"
proof -
  assume n: "CHR ''/'' \<notin> set n" "n \<noteq> []"
  then have "List.last n \<noteq> CHR ''/''" by (metis last_in_set)
  then have "dropWhile (\<lambda>c. c = CHR ''/'') (rev (Join d n)) = rev (Join d n)"
    using n(2) by (cases n rule: rev_cases) (simp_all add: Join_def)
  then show ?thesis using n by (simp add: Base_def Join_def after_last_append)
qed

text \<open>\<open>SanitizeFilename\<close> and \<open>TruncateString\<close>.\<close>

definition invalid_chars :: string where
  "invalid_chars = [CHR ''/'', CHR 0x5C, CHR '':'', CHR ''*'', CHR ''?'', CHR 0x22, CHR ''<'', CHR ''>'', CHR ''|'', CHR ''.'']"

definition SanitizeFilename :: "string \<Rightarrow> string" where
  "SanitizeFilename name = map (\<lambda>c. if c \<in> set invalid_chars then CHR ''_'' else c) name"

definition TruncateString :: "string \<Rightarrow> int \<Rightarrow> string" where
  "TruncateString s maxLen = (if maxLen \<le> 0 then [] else if int (length s) > maxLen then take (nat maxLen) s else s)"

text \<open>Without an extension the slice \<open>[1:]\<close> of the empty string panics: \<open>None\<close>.\<close>

definition GetPathFormat :: "string \<Rightarrow> string option" where
  "GetPathFormat p = (if Ext p = [] then None else Some (drop 1 (Ext p)))"

definition ChangePathFormat :: "string \<Rightarrow> string \<Rightarrow> string" where
  "ChangePathFormat p f =
    (let ext = Ext p in
     if ext = [] then p @ ''.'' @ f else take (length p - length ext) p @ ''.'' @ f)"

definition StagingPath :: "string \<Rightarrow> string" where
  "StagingPath output = output @ ''.tmp''"

lemma sanitized: "CHR ''/'' \<notin> set (SanitizeFilename s)" "CHR ''.'' \<notin> set (SanitizeFilename s)"
  by (auto simp: SanitizeFilename_def invalid_chars_def)

lemma set_TruncateString: "set (TruncateString s n) \<subseteq> set s"
  by (auto simp: TruncateString_def dest: in_set_takeD)

lemma ChangePathFormat_twice:
  assumes "CHR ''.'' \<notin> set f" and "CHR ''/'' \<notin> set f"
  shows "ChangePathFormat (ChangePathFormat p f) g = ChangePathFormat p g"
proof -
  obtain q where q: "ChangePathFormat p f = q @ CHR ''.'' # f" "\<And>h. ChangePathFormat p h = q @ CHR ''.'' # h"
  proof (cases "Ext p = []")
    case True
    then show ?thesis using that [of p] by (simp add: ChangePathFormat_def)
  next
    case False
    then show ?thesis using that [of "take (length p - length (Ext p)) p"] by (simp add: ChangePathFormat_def Let_def)
  qed
  have "ChangePathFormat (q @ CHR ''.'' # f) g = q @ CHR ''.'' # g"
    unfolding ChangePathFormat_def Ext_append [OF assms] by simp
  then show ?thesis using q by simp
qed

end
