(* ===== verification/GoSort.thy ===== *)
theory GoSort
  imports Main
begin

text \<open>
  \<open>sort.SliceStable\<close> of Go's standard library: a stable sort by a comparison. When the comparison is that
  of a key in a linear order, it is the library's \<open>sort_key\<close>.
\<close>

fun insert_stable :: "('a \<Rightarrow> 'a \<Rightarrow> bool) \<Rightarrow> 'a \<Rightarrow> 'a list \<Rightarrow> 'a list" where
  "insert_stable lt x [] = [x]"
| "insert_stable lt x (y # ys) = (if lt y x then y # insert_stable lt x ys else x # y # ys)"

definition SliceStable :: "('a \<Rightarrow> 'a \<Rightarrow> bool) \<Rightarrow> 'a list \<Rightarrow> 'a list" where
  "SliceStable lt xs = foldr (insert_stable lt) xs []"

lemma SliceStable_sort_key:
  assumes "\<And>x y. lt x y \<longleftrightarrow> key x < (key y :: 'k :: linorder)"
  shows "SliceStable lt xs = sort_key key xs"
proof -
  have "insert_stable lt = insort_key key"
  proof (intro ext)
    show "insert_stable lt x ys = insort_key key x ys" for x ys
      by (induction ys) (auto simp: assms not_less)
  qed
  then show ?thesis by (simp add: SliceStable_def sort_key_def)
qed

text \<open>Elements with the same key keep their order.\<close>

lemma sort_key_keeps_order:
  assumes "\<And>x y. P x \<Longrightarrow> P y \<Longrightarrow> f x = (f y :: 'k :: linorder)"
  shows "filter P (sort_key f xs) = filter P xs"
proof -
  have "sorted (map f (filter P xs))"
    by (induction xs) (auto intro: eq_refl assms)
  then show ?thesis by (simp add: filter_sort sort_key_id_if_sorted)
qed

end
