(* ===== verification/RecordFiles.thy ===== *)
theory RecordFiles
  imports GoPath GoSort "HOL-Library.Product_Lexorder"
begin

text \<open>
  The files of a recording: how they are named (\<open>rotateFilePath\<close> of the recorder), how the names
  are read back (\<open>utils/file.go\<close>), and how the oldest of them are deleted when the disk is low
  (\<open>internal/services/recorder/lowdisk.go\<close>). The file system is a list of paths; the free space,
  which the operating system reports, and the paths that cannot be removed are parameters.
\<close>

section \<open>Names\<close>

text \<open>\<open>\d{8}_\d{6}\<close>\<close>

definition is_stamp :: "string \<Rightarrow> bool" where
  "is_stamp s \<longleftrightarrow> length s = 15 \<and> s ! 8 = CHR ''_'' \<and> list_all is_digit (take 8 s) \<and> list_all is_digit (drop 9 s)"

text \<open>\<open>-(\d{8}_\d{6})(?:-(\d+))?$\<close> matched at the start of the string.\<close>

definition match_stamp :: "string \<Rightarrow> (string \<times> string) option" where
  "match_stamp s =
    (if take 1 s = ''-'' \<and> is_stamp (take 15 (drop 1 s)) then
       (let rest = drop 16 s in
        if rest = [] then Some (take 15 (drop 1 s), [])
        else if take 1 rest = ''-'' \<and> drop 1 rest \<noteq> [] \<and> list_all is_digit (drop 1 rest)
        then Some (take 15 (drop 1 s), drop 1 rest) else None)
     else None)"

text \<open>\<open>FindStringSubmatch\<close>: the leftmost match.\<close>

fun find_stamp :: "string \<Rightarrow> (string \<times> string) option" where
  "find_stamp [] = None"
| "find_stamp (c # s) = (case match_stamp (c # s) of Some m \<Rightarrow> Some m | None \<Rightarrow> find_stamp s)"

definition recordingMediaExtensions :: "string list" where
  "recordingMediaExtensions = [''.mp4'', ''.m4a'', ''.ts'', ''.fmp4'', ''.flv'']"

definition IsRecordingMediaFilename :: "string \<Rightarrow> bool" where
  "IsRecordingMediaFilename name \<longleftrightarrow> ToLower (Ext name) \<in> set recordingMediaExtensions"

definition ParseRecordingSegmentFilename :: "string \<Rightarrow> (string \<times> nat) option" where
  "ParseRecordingSegmentFilename name =
    (if \<not> IsRecordingMediaFilename name then None
     else case find_stamp (TrimSuffix name (Ext name)) of
       None \<Rightarrow> None
     | Some (stamp, seg) \<Rightarrow> Some (stamp, if seg = [] then 0 else atoi_digits seg))"

text \<open>\<open>rotateFilePath\<close>: directory and name; \<open>stamp\<close> is the formatted \<open>fileTime\<close>.\<close>

definition room_dir :: "string \<Rightarrow> nat \<Rightarrow> string" where
  "room_dir uname roomID = uname @ ''-'' @ itoa roomID"

definition segment_name :: "string \<Rightarrow> string \<Rightarrow> nat \<Rightarrow> string \<Rightarrow> string" where
  "segment_name title stamp segment ext =
    (let safeTitle = TruncateString (SanitizeFilename title) 20 in
     if segment = 0 then safeTitle @ ''-'' @ stamp @ ext
     else safeTitle @ ''-'' @ stamp @ ''-'' @ itoa segment @ ext)"

definition rotateFilePath :: "string \<Rightarrow> string \<Rightarrow> nat \<Rightarrow> string \<Rightarrow> string \<Rightarrow> nat \<Rightarrow> string \<Rightarrow> string" where
  "rotateFilePath outputDir uname roomID title stamp segment ext =
    Join (Join outputDir (room_dir uname roomID)) (segment_name title stamp segment ext)"

text \<open>A stamp has no dash, and its underscore is not a digit.\<close>

lemma is_stamp_split: "is_stamp s \<Longrightarrow> s = take 8 s @ CHR ''_'' # drop 9 s"
  using id_take_nth_drop [of 8 s] by (simp add: is_stamp_def)

lemma stamp_char:
  assumes "is_stamp s" and "c \<in> set s"
  shows "is_digit c \<or> c = CHR ''_''"
proof -
  have d: "list_all is_digit (take 8 s)" "list_all is_digit (drop 9 s)"
    using assms by (simp_all add: is_stamp_def)
  have "c \<in> set (take 8 s @ CHR ''_'' # drop 9 s)"
    using assms is_stamp_split by metis
  then show ?thesis using d by (auto simp: list_all_iff)
qed

lemma stamp_chars:
  assumes "is_stamp s"
  shows "CHR ''-'' \<notin> set s" "CHR ''.'' \<notin> set s" "CHR ''/'' \<notin> set s" "\<not> list_all is_digit s"
proof -
  show "CHR ''-'' \<notin> set s" "CHR ''.'' \<notin> set s" "CHR ''/'' \<notin> set s"
    using stamp_char [OF assms, of "CHR ''-''"] stamp_char [OF assms, of "CHR ''.''"]
      stamp_char [OF assms, of "CHR ''/''"] by auto
  have "CHR ''_'' \<in> set s"
    using assms nth_mem [of 8 s] by (simp add: is_stamp_def)
  then show "\<not> list_all is_digit s" using digits_notin [of s "CHR ''_''"] by auto
qed

definition seg_part :: "nat \<Rightarrow> string" where
  "seg_part segment = (if segment = 0 then [] else CHR ''-'' # itoa segment)"

lemma segment_name_alt:
  "segment_name title stamp segment ext =
    TruncateString (SanitizeFilename title) 20 @ (CHR ''-'' # stamp @ seg_part segment) @ ext"
  by (simp add: segment_name_def seg_part_def Let_def)

lemma match_here:
  assumes "is_stamp stamp"
  shows "match_stamp (CHR ''-'' # stamp @ seg_part segment) = Some (stamp, if segment = 0 then [] else itoa segment)"
  using assms by (auto simp: match_stamp_def seg_part_def is_stamp_def Let_def itoa_digits)

lemma match_before:
  assumes "is_stamp stamp" and "a \<noteq> []"
  shows "match_stamp (a @ CHR ''-'' # stamp @ seg_part segment) = None"
proof (rule ccontr)
  let ?s = "a @ CHR ''-'' # stamp @ seg_part segment"
  have len: "length stamp = 15" using assms(1) by (simp add: is_stamp_def)
  assume "match_stamp ?s \<noteq> None"
  then have "drop 16 ?s \<noteq> [] \<Longrightarrow> take 1 (drop 16 ?s) = ''-'' \<and> list_all is_digit (drop 1 (drop 16 ?s))"
    by (auto simp: match_stamp_def Let_def split: if_splits)
  moreover have "length ?s > 16" using assms(2) len by (cases a) simp_all
  then have "drop 16 ?s \<noteq> []" by (simp only: drop_eq_Nil not_le)
  ultimately have m: "take 1 (drop 16 ?s) = ''-''" "list_all is_digit (drop 1 (drop 16 ?s))"
    by blast+
  have cons: "xs = CHR ''-'' # drop 1 xs" if "take 1 xs = ''-''" for xs
    using that by (cases xs) auto
  obtain y z where yz: "?s = y @ CHR ''-'' # z" "length y \<le> 16" "list_all is_digit z"
    using cons [OF m(1)] append_take_drop_id [of 16 ?s] m(2) that [of "take 16 ?s" "drop 1 (drop 16 ?s)"]
    by (metis length_take min.cobounded2)
  have z: "CHR ''-'' \<notin> set z" using digits_notin [OF yz(3), of "CHR ''-''"] by simp
  show False
  proof (cases "segment = 0")
    case True
    then have "a = y \<and> stamp = z"
      using yz(1) by (intro last_split_unique [OF stamp_chars(1) [OF assms(1)] z]) (simp add: seg_part_def)
    then show False using yz(3) stamp_chars(4) [OF assms(1)] by simp
  next
    case False
    have "CHR ''-'' \<notin> set (itoa segment)" using digits_notin [OF itoa_digits, of "CHR ''-''" segment] by simp
    then have "a @ CHR ''-'' # stamp = y \<and> itoa segment = z"
      using yz(1) False by (intro last_split_unique [OF _ z]) (simp_all add: seg_part_def)
    then have "length (a @ CHR ''-'' # stamp) \<le> 16" using yz(2) by simp
    then show False using assms(2) len by (cases a) simp_all
  qed
qed

lemma find_stamp_name:
  "is_stamp stamp \<Longrightarrow>
    find_stamp (a @ CHR ''-'' # stamp @ seg_part segment) = Some (stamp, if segment = 0 then [] else itoa segment)"
proof (induction a)
  case Nil
  then show ?case using match_here [of stamp segment] by simp
next
  case (Cons c a)
  then show ?case using match_before [of stamp "c # a" segment] by simp
qed

lemma media_ext:
  assumes "ext \<in> set recordingMediaExtensions"
  obtains e where "ext = CHR ''.'' # e" "CHR ''.'' \<notin> set e" "CHR ''/'' \<notin> set e" "ToLower ext = ext"
  using assms by (auto simp: recordingMediaExtensions_def ToLower_def lower_char_def)

lemma seg_part_chars: "CHR ''.'' \<notin> set (seg_part n)" "CHR ''/'' \<notin> set (seg_part n)"
  using digits_notin [OF itoa_digits [of n], of "CHR ''.''"] digits_notin [OF itoa_digits [of n], of "CHR ''/''"]
  by (simp_all add: seg_part_def)

lemma safe_title: "c \<in> {CHR ''/'', CHR ''.''} \<Longrightarrow> c \<notin> set (TruncateString (SanitizeFilename t) 20)"
  using set_TruncateString [of "SanitizeFilename t" 20] sanitized [of t] by auto

lemma segment_name_nonempty [simp]: "segment_name title stamp segment ext \<noteq> []"
  by (simp add: segment_name_def Let_def)

lemma segment_name_no_slash:
  "is_stamp stamp \<Longrightarrow> ext \<in> set recordingMediaExtensions \<Longrightarrow> CHR ''/'' \<notin> set (segment_name title stamp segment ext)"
  by (erule media_ext) (simp add: segment_name_alt stamp_chars seg_part_chars safe_title)

lemma parse_segment_name:
  assumes "is_stamp stamp" and "ext \<in> set recordingMediaExtensions" and "segment < 2 ^ 63"
  shows "ParseRecordingSegmentFilename (segment_name title stamp segment ext) = Some (stamp, segment)"
proof -
  let ?t = "TruncateString (SanitizeFilename title) 20 @ CHR ''-'' # stamp @ seg_part segment"
  obtain e where e: "ext = CHR ''.'' # e" "CHR ''.'' \<notin> set e" "CHR ''/'' \<notin> set e" "ToLower ext = ext"
    using media_ext [OF assms(2)] by metis
  have name: "segment_name title stamp segment ext = ?t @ ext"
    by (simp add: segment_name_alt)
  have ext: "Ext (?t @ ext) = ext" unfolding e(1) by (rule Ext_append [OF e(2,3)])
  have "find_stamp ?t = Some (stamp, if segment = 0 then [] else itoa segment)"
    by (rule find_stamp_name [OF assms(1)])
  then show ?thesis
    unfolding ParseRecordingSegmentFilename_def IsRecordingMediaFilename_def name ext TrimSuffix_append
    using assms(2,3) e(4) by (simp add: atoi_itoa)
qed

text \<open>The recorder's file names are read back exactly: whatever the title, the time stamp and the
  segment number of a recorded file are recovered from its name, so two files of a room can only
  share a path when they share stamp and segment.\<close>

lemma recording_name_roundtrip:
  assumes "is_stamp stamp" and "ext \<in> set recordingMediaExtensions" and "segment < 2 ^ 63"
  shows "ParseRecordingSegmentFilename (Base (rotateFilePath outputDir uname roomID title stamp segment ext)) =
    Some (stamp, segment)"
  unfolding rotateFilePath_def Base_Join [OF segment_name_no_slash [OF assms(1,2)] segment_name_nonempty]
  by (rule parse_segment_name [OF assms])

lemma recording_name_roundtrip_witness:
  "ParseRecordingSegmentFilename (Base (rotateFilePath ''/rec'' ''a-b'' 42 ''t-20200101_000000-3'' ''20260102_030405'' 7 ''.flv'')) =
    Some (''20260102_030405'', 7)"
  by (rule recording_name_roundtrip) (simp_all add: is_stamp_def is_digit_def recordingMediaExtensions_def)

section \<open>The file system\<close>

datatype fs_node = EDir | EFile int | EBroken

type_synonym fs = "(string \<times> fs_node) list"

text \<open>\<open>os.ReadDir\<close>; a directory that cannot be read has no entries.\<close>

definition readDir :: "string \<Rightarrow> fs \<Rightarrow> (string \<times> fs_node) list" where
  "readDir d fs =
    map (\<lambda>(p, n). (drop (length d + 1) p, n))
      (filter (\<lambda>(p, n). HasPrefix p (Join d []) \<and> CHR ''/'' \<notin> set (drop (length d + 1) p)) fs)"

definition os_Remove :: "(string \<Rightarrow> bool) \<Rightarrow> string \<Rightarrow> fs \<Rightarrow> fs option" where
  "os_Remove locked p fs =
    (if p \<in> fst ` set fs \<and> \<not> locked p then Some (filter (\<lambda>e. fst e \<noteq> p) fs) else None)"

definition RemoveIfExists :: "(string \<Rightarrow> bool) \<Rightarrow> string \<Rightarrow> fs \<Rightarrow> fs" where
  "RemoveIfExists locked p fs = (case os_Remove locked p fs of None \<Rightarrow> fs | Some fs \<Rightarrow> fs)"

definition RoomRecordingDirs :: "string \<Rightarrow> nat \<Rightarrow> fs \<Rightarrow> string list" where
  "RoomRecordingDirs outputDir roomID fs =
    map (\<lambda>(n, e). Join outputDir n)
      (filter (\<lambda>(n, e). e = EDir \<and> after_last CHR ''-'' n = Some (itoa roomID)) (readDir outputDir fs))"

definition PathForVideo :: "string \<Rightarrow> string \<Rightarrow> string" where
  "PathForVideo videoPath ext =
    TrimSuffix videoPath (Ext videoPath) @ (if HasPrefix ext ''.'' then ext else ''.'' @ ext)"

section \<open>Deleting the oldest recordings\<close>

record recordingFile =
  rf_path :: string
  rf_stamp :: string
  rf_segment :: nat
  rf_size :: int

definition recordingFilenameOlder :: "recordingFile \<Rightarrow> recordingFile \<Rightarrow> bool" where
  "recordingFilenameOlder a b =
    (if rf_stamp a \<noteq> rf_stamp b then rf_stamp a < rf_stamp b
     else if rf_segment a \<noteq> rf_segment b then rf_segment a < rf_segment b
     else rf_path a < rf_path b)"

definition protectedBasenames :: "string list \<Rightarrow> string option \<Rightarrow> string set" where
  "protectedBasenames writing current =
    set writing \<union> (case current of None \<Rightarrow> {} | Some cur \<Rightarrow> if cur = [] then {} else {Base cur})"

text \<open>The entries of one directory.\<close>

definition deletable_in :: "string set \<Rightarrow> string \<Rightarrow> fs \<Rightarrow> recordingFile list" where
  "deletable_in protected d fs =
    List.map_filter (\<lambda>(name, e).
      case e of
        EDir \<Rightarrow> None
      | _ \<Rightarrow>
        if name \<in> protected then None
        else case ParseRecordingSegmentFilename name of
          None \<Rightarrow> None
        | Some (stamp, segment) \<Rightarrow>
          (case e of
             EFile sz \<Rightarrow> Some \<lparr>rf_path = Join d name, rf_stamp = stamp, rf_segment = segment, rf_size = sz\<rparr>
           | _ \<Rightarrow> None)) (readDir d fs)"

definition listDeletableRecordings :: "string set \<Rightarrow> string \<Rightarrow> nat \<Rightarrow> fs \<Rightarrow> recordingFile list" where
  "listDeletableRecordings protected outputDir roomID fs =
    SliceStable recordingFilenameOlder
      (concat (map (\<lambda>d. deletable_in protected d fs) (RoomRecordingDirs outputDir roomID fs)))"

fun deleteUntil :: "string set \<Rightarrow> (string \<Rightarrow> bool) \<Rightarrow> int \<Rightarrow> recordingFile list \<Rightarrow> int \<times> nat \<times> fs \<Rightarrow> int \<times> nat \<times> fs" where
  "deleteUntil writing locked need [] s = s"
| "deleteUntil writing locked need (f # files) (freed, deleted, fs) =
    (if freed \<ge> need then (freed, deleted, fs)
     else if Base (rf_path f) \<in> writing then deleteUntil writing locked need files (freed, deleted, fs)
     else case os_Remove locked (rf_path f) fs of
       None \<Rightarrow> deleteUntil writing locked need files (freed, deleted, fs)
     | Some fs \<Rightarrow>
        (let fs = fold (\<lambda>ext. RemoveIfExists locked (PathForVideo (rf_path f) ext)) [''.jsonl'', ''.xml''] fs in
         deleteUntil writing locked need files (freed + rf_size f, deleted + 1, fs)))"

definition isInsufficientDiskSpace :: "nat \<Rightarrow> int \<Rightarrow> bool" where
  "isInsufficientDiskSpace free minimum = (if minimum \<le> 0 then False else int free < minimum)"

record disk_params =
  dp_min :: int
  dp_output :: string
  dp_room :: nat
  dp_deleteOldest :: bool
  dp_writing :: "string list"
  dp_current :: "string option"
  dp_locked :: "string \<Rightarrow> bool"
  dp_free :: "fs \<Rightarrow> nat option"

text \<open>The check behind the loop, and the loop with its two passes: whether there is space (or it
  cannot be told), and the files left.\<close>

definition disk_final :: "disk_params \<Rightarrow> fs \<Rightarrow> bool" where
  "disk_final p fs = (case dp_free p fs of None \<Rightarrow> True | Some free \<Rightarrow> \<not> isInsufficientDiskSpace free (dp_min p))"

fun disk_passes :: "disk_params \<Rightarrow> nat \<Rightarrow> fs \<Rightarrow> bool \<times> fs" where
  "disk_passes p 0 fs = (disk_final p fs, fs)"
| "disk_passes p (Suc n) fs =
    (case dp_free p fs of
       None \<Rightarrow> (True, fs)
     | Some free \<Rightarrow>
       if \<not> isInsufficientDiskSpace free (dp_min p) then (True, fs)
       else if \<not> dp_deleteOldest p then (False, fs)
       else
        (let need = dp_min p - int free;
             files = listDeletableRecordings (protectedBasenames (dp_writing p) (dp_current p)) (dp_output p) (dp_room p) fs
         in case deleteUntil (set (dp_writing p)) (dp_locked p) need files (0, 0, fs) of
           (freed, deleted, fs) \<Rightarrow>
             if deleted = 0 then (False, fs)
             else if freed \<ge> need then (disk_final p fs, fs)
             else disk_passes p n fs))"

definition ensureDiskSpace :: "disk_params \<Rightarrow> fs \<Rightarrow> bool \<times> fs" where
  "ensureDiskSpace p fs = (if dp_min p \<le> 0 then (True, fs) else disk_passes p 2 fs)"

text \<open>The order is the lexicographic one on stamp, segment and path, and the sort is the library's.\<close>

definition file_key :: "recordingFile \<Rightarrow> string \<times> nat \<times> string" where
  "file_key f = (rf_stamp f, rf_segment f, rf_path f)"

lemma older_key: "recordingFilenameOlder a b \<longleftrightarrow> file_key a < file_key b"
  by (auto simp: recordingFilenameOlder_def file_key_def less_prod_def)

lemma listed_sorted: "sorted (map file_key (listDeletableRecordings P d r fs))"
  unfolding listDeletableRecordings_def SliceStable_sort_key [of recordingFilenameOlder file_key, OF older_key]
  by (rule sorted_sort_key)

text \<open>What is listed.\<close>

lemma parse_empty [simp]: "ParseRecordingSegmentFilename [] = None"
  by code_simp

definition room_recording :: "string set \<Rightarrow> string \<Rightarrow> nat \<Rightarrow> fs \<Rightarrow> recordingFile \<Rightarrow> bool" where
  "room_recording protected outputDir roomID fs f \<longleftrightarrow>
    (\<exists>d name. d \<in> set (RoomRecordingDirs outputDir roomID fs) \<and> rf_path f = Join d name \<and>
      CHR ''/'' \<notin> set name \<and> name \<notin> protected \<and>
      ParseRecordingSegmentFilename name = Some (rf_stamp f, rf_segment f) \<and> (rf_path f, EFile (rf_size f)) \<in> set fs)"

lemma HasPrefix_Join: "HasPrefix p (Join d []) \<Longrightarrow> Join d (drop (length d + 1) p) = p"
  using append_take_drop_id [of "length d + 1" p] by (simp add: HasPrefix_def Join_def)

lemma readDir_entry:
  "(name, e) \<in> set (readDir d fs) \<Longrightarrow> (Join d name, e) \<in> set fs \<and> CHR ''/'' \<notin> set name"
  by (auto simp: readDir_def HasPrefix_Join simp del: One_nat_def add_Suc_right add_0_right)

lemma deletable_in_sound:
  assumes "f \<in> set (deletable_in protected d fs)"
  obtains name where "rf_path f = Join d name" "CHR ''/'' \<notin> set name" "name \<notin> protected"
    "ParseRecordingSegmentFilename name = Some (rf_stamp f, rf_segment f)" "(rf_path f, EFile (rf_size f)) \<in> set fs"
  using assms
  by (auto simp: deletable_in_def map_filter_def split: fs_node.splits if_splits option.splits
      dest!: readDir_entry intro: that)

lemma listed_recordings:
  assumes "f \<in> set (listDeletableRecordings protected outputDir roomID fs)"
  shows "room_recording protected outputDir roomID fs f"
proof -
  obtain d where d: "d \<in> set (RoomRecordingDirs outputDir roomID fs)" "f \<in> set (deletable_in protected d fs)"
    using assms
    unfolding listDeletableRecordings_def SliceStable_sort_key [of recordingFilenameOlder file_key, OF older_key]
    by auto
  show ?thesis
    unfolding room_recording_def by (rule deletable_in_sound [OF d(2)]) (use d(1) in blast)
qed

section \<open>What the clean-up deletes\<close>

definition sidecars :: "string \<Rightarrow> string set" where
  "sidecars path = {PathForVideo path ''.jsonl'', PathForVideo path ''.xml''}"

lemma os_Remove_SomeD:
  "os_Remove locked p fs = Some fs' \<Longrightarrow> \<not> locked p \<and> p \<in> fst ` set fs \<and> set fs' = {e \<in> set fs. fst e \<noteq> p}"
  by (auto simp: os_Remove_def split: if_splits)

lemma os_Remove_NoneD: "os_Remove locked p fs = None \<Longrightarrow> locked p \<or> p \<notin> fst ` set fs"
  by (auto simp: os_Remove_def split: if_splits)

lemma RemoveIfExists_set:
  "set (RemoveIfExists locked p fs) = {e \<in> set fs. fst e = p \<longrightarrow> locked p}"
  by (force simp: RemoveIfExists_def os_Remove_def)

definition remove_sidecars :: "(string \<Rightarrow> bool) \<Rightarrow> string \<Rightarrow> fs \<Rightarrow> fs" where
  "remove_sidecars locked path fs = fold (\<lambda>ext. RemoveIfExists locked (PathForVideo path ext)) [''.jsonl'', ''.xml''] fs"

lemma remove_sidecars_set:
  "set (remove_sidecars locked path fs) = {e \<in> set fs. fst e \<in> sidecars path \<longrightarrow> locked (fst e)}"
  by (auto simp: remove_sidecars_def RemoveIfExists_set sidecars_def)

text \<open>One file of the list: left alone, or removed with its sidecars.\<close>

lemma deleteUntil_Cons:
  obtains (stop) "deleteUntil W L need (f # files) (fr, n, fs) = (fr, n, fs)"
  | (skip) "deleteUntil W L need (f # files) (fr, n, fs) = deleteUntil W L need files (fr, n, fs)"
      "Base (rf_path f) \<in> W \<or> L (rf_path f) \<or> rf_path f \<notin> fst ` set fs"
  | (remove) fs1 where "deleteUntil W L need (f # files) (fr, n, fs) = deleteUntil W L need files (fr + rf_size f, n + 1, fs1)"
      "Base (rf_path f) \<notin> W" "\<not> L (rf_path f)" "rf_path f \<in> fst ` set fs"
      "set fs1 = {e \<in> set fs. fst e \<noteq> rf_path f \<and> (fst e \<in> sidecars (rf_path f) \<longrightarrow> L (fst e))}"
proof -
  consider "fr \<ge> need" | "fr < need" "Base (rf_path f) \<in> W" | "fr < need" "Base (rf_path f) \<notin> W"
    by linarith
  then show ?thesis
  proof cases
    case 1
    then show ?thesis by (intro stop) simp
  next
    case 2
    then show ?thesis by (intro skip) simp_all
  next
    case 3
    show ?thesis
    proof (cases "os_Remove L (rf_path f) fs")
      case None
      then show ?thesis using 3 os_Remove_NoneD [OF None] by (intro skip) simp_all
    next
      case (Some fs0)
      have "deleteUntil W L need (f # files) (fr, n, fs) =
          deleteUntil W L need files (fr + rf_size f, n + 1, remove_sidecars L (rf_path f) fs0)"
        using 3 Some by (simp add: remove_sidecars_def)
      moreover have "set (remove_sidecars L (rf_path f) fs0) =
          {e \<in> set fs. fst e \<noteq> rf_path f \<and> (fst e \<in> sidecars (rf_path f) \<longrightarrow> L (fst e))}"
        using os_Remove_SomeD [OF Some] by (auto simp: remove_sidecars_set)
      ultimately show ?thesis
        using os_Remove_SomeD [OF Some] 3 remove [of "remove_sidecars L (rf_path f) fs0"] by blast
    qed
  qed
qed

lemma deleteUntil_removes:
  assumes "deleteUntil W L need files (fr, n, fs) = (fr', n', fs')"
  shows "set fs' \<subseteq> set fs \<and> (\<forall>e \<in> set fs - set fs'. \<not> L (fst e) \<and>
    (\<exists>f \<in> set files. Base (rf_path f) \<notin> W \<and> (fst e = rf_path f \<or> fst e \<in> sidecars (rf_path f))))"
  using assms
proof (induction files arbitrary: fr n fs)
  case (Cons f files)
  show ?case
  proof (cases rule: deleteUntil_Cons [of W L need f files fr n fs])
    case stop
    then show ?thesis using Cons.prems by simp
  next
    case skip
    have "deleteUntil W L need files (fr, n, fs) = (fr', n', fs')" using skip(1) Cons.prems by simp
    from Cons.IH [OF this] show ?thesis by auto
  next
    case (remove fs1)
    have "deleteUntil W L need files (fr + rf_size f, n + 1, fs1) = (fr', n', fs')"
      using remove(1) Cons.prems by simp
    note IH = Cons.IH [OF this]
    have "\<not> L (fst e) \<and> (\<exists>f \<in> set (f # files). Base (rf_path f) \<notin> W \<and> (fst e = rf_path f \<or> fst e \<in> sidecars (rf_path f)))"
      if e: "e \<in> set fs" "e \<notin> set fs'" for e
    proof (cases "e \<in> set fs1")
      case True
      then show ?thesis using IH e(2) by (meson DiffI list.set_intros(2))
    next
      case False
      then have "fst e = rf_path f \<or> (fst e \<in> sidecars (rf_path f) \<and> \<not> L (fst e))" using e(1) remove(5) by blast
      then show ?thesis using remove(2,3) by (metis list.set_intros(1))
    qed
    moreover have "set fs' \<subseteq> set fs" using IH remove(5) by blast
    ultimately show ?thesis by blast
  qed
qed simp

lemma media_not_sidecar:
  assumes "ParseRecordingSegmentFilename name = Some m" and "CHR ''/'' \<notin> set name"
  shows "Join d name \<notin> sidecars path"
proof
  assume "Join d name \<in> sidecars path"
  then have ext: "Ext (Join d name) \<in> {''.jsonl'', ''.xml''}"
    by (auto simp: sidecars_def PathForVideo_def HasPrefix_def)
  have media: "ToLower (Ext name) \<in> set recordingMediaExtensions"
    using assms(1) by (auto simp: ParseRecordingSegmentFilename_def IsRecordingMediaFilename_def split: if_splits)
  show False
  proof (cases rule: Ext_cases [of name])
    case none
    then show ?thesis using media by (simp add: recordingMediaExtensions_def ToLower_def)
  next
    case (some q e)
    then have "Ext (Join d name) = Ext name"
      using Ext_append [of e "d @ ''/'' @ q"] by (simp add: Join_def)
    then show ?thesis
      using ext media by (auto simp: recordingMediaExtensions_def ToLower_def lower_char_def)
  qed
qed

text \<open>A list sorted by age whose paths determine their stamps is worked off from the oldest on.\<close>

lemma deleteUntil_oldest:
  assumes "deleteUntil W L need files (fr, n, fs) = (fr', n', fs')"
    and "sorted (map file_key files)"
    and "\<And>a b. a \<in> set files \<Longrightarrow> b \<in> set files \<Longrightarrow> rf_path a = rf_path b \<Longrightarrow> file_key a = file_key b"
    and "\<And>a b. a \<in> set files \<Longrightarrow> b \<in> set files \<Longrightarrow> rf_path a \<notin> sidecars (rf_path b)"
    and "f \<in> set files" and "g \<in> set files" and "file_key g < file_key f"
    and "rf_path f \<in> fst ` set fs" and "rf_path f \<notin> fst ` set fs'"
  shows "rf_path g \<notin> fst ` set fs' \<or> Base (rf_path g) \<in> W \<or> L (rf_path g)"
  using assms
proof (induction files arbitrary: fr n fs)
  case (Cons h files)
  have later: "file_key h \<le> file_key a" if "a \<in> set (h # files)" for a
    using Cons.prems(2) that by auto
  have hf: "rf_path h \<noteq> rf_path f"
    using Cons.prems(3) [of h f] Cons.prems(5,7) later [OF Cons.prems(6)] by auto
  then have f: "f \<in> set files" using Cons.prems(5) by auto
  have IH: ?case if "deleteUntil W L need files (fr1, n1, fs1) = (fr', n', fs')" "g \<in> set files"
      "rf_path f \<in> fst ` set fs1" for fr1 n1 fs1
    using that f Cons.prems by (intro Cons.IH [of fr1 n1 fs1]) auto
  show ?case
  proof (cases rule: deleteUntil_Cons [of W L need h files fr n fs])
    case stop
    then show ?thesis using Cons.prems(1,8,9) by simp
  next
    case skip
    have rest: "deleteUntil W L need files (fr, n, fs) = (fr', n', fs')" using skip(1) Cons.prems(1) by simp
    have "set fs' \<subseteq> set fs" using deleteUntil_removes [OF rest] by blast
    then have "rf_path h \<notin> fst ` set fs' \<or> Base (rf_path h) \<in> W \<or> L (rf_path h)" using skip(2) by blast
    then show ?thesis using IH [OF rest _ Cons.prems(8)] Cons.prems(6) by (metis set_ConsD)
  next
    case (remove fs1)
    have rest: "deleteUntil W L need files (fr + rf_size h, n + 1, fs1) = (fr', n', fs')"
      using remove(1) Cons.prems(1) by simp
    have "set fs' \<subseteq> set fs1" using deleteUntil_removes [OF rest] by blast
    then have gone: "rf_path h \<notin> fst ` set fs'" unfolding remove(5) by auto
    have "rf_path f \<notin> sidecars (rf_path h)" using Cons.prems(4) [of f h] Cons.prems(5) by simp
    moreover obtain e where "e \<in> set fs" "fst e = rf_path f" using Cons.prems(8) by force
    ultimately have "e \<in> set fs1" using hf remove(5) by simp
    then have there: "rf_path f \<in> fst ` set fs1" using \<open>fst e = rf_path f\<close> by force
    show ?thesis
    proof (cases "g = h")
      case True
      then show ?thesis using gone by simp
    next
      case False
      then show ?thesis using IH [OF rest _ there] Cons.prems(6) by simp
    qed
  qed
qed simp

lemma disk_final_ok:
  "disk_final p fs \<Longrightarrow> 0 < dp_min p \<Longrightarrow> case dp_free p fs of None \<Rightarrow> True | Some free \<Rightarrow> dp_min p \<le> int free"
  by (auto simp: disk_final_def isInsufficientDiskSpace_def split: option.splits if_splits)

text \<open>A recording the clean-up may delete: one of this room, neither being written nor the current
  file of the session, and not locked.\<close>

definition expendable :: "disk_params \<Rightarrow> fs \<Rightarrow> recordingFile \<Rightarrow> bool" where
  "expendable p fs f \<longleftrightarrow>
    room_recording (protectedBasenames (dp_writing p) (dp_current p)) (dp_output p) (dp_room p) fs f"

definition clean :: "disk_params \<Rightarrow> fs \<Rightarrow> fs \<Rightarrow> bool" where
  "clean p fs fs' \<longleftrightarrow> set fs' \<subseteq> set fs \<and> (\<forall>e \<in> set fs - set fs'. dp_deleteOldest p \<and> \<not> dp_locked p (fst e) \<and>
    (\<exists>f. expendable p fs f \<and> (fst e = rf_path f \<or> fst e \<in> sidecars (rf_path f))))"

lemma readDir_mono: "set fs' \<subseteq> set fs \<Longrightarrow> set (readDir d fs') \<subseteq> set (readDir d fs)"
  by (auto simp: readDir_def)

lemma RoomRecordingDirs_mono:
  "set fs' \<subseteq> set fs \<Longrightarrow> set (RoomRecordingDirs d r fs') \<subseteq> set (RoomRecordingDirs d r fs)"
  unfolding RoomRecordingDirs_def using readDir_mono [of fs' fs d] by auto

lemma expendable_mono: "set fs' \<subseteq> set fs \<Longrightarrow> expendable p fs' f \<Longrightarrow> expendable p fs f"
  unfolding expendable_def room_recording_def using RoomRecordingDirs_mono by blast

lemma clean_refl: "clean p fs fs"
  by (simp add: clean_def)

lemma clean_trans:
  assumes "clean p fs fs1" and "clean p fs1 fs2"
  shows "clean p fs fs2"
proof -
  have sub: "set fs1 \<subseteq> set fs" "set fs2 \<subseteq> set fs1" using assms by (simp_all add: clean_def)
  have "dp_deleteOldest p \<and> \<not> dp_locked p (fst e) \<and> (\<exists>f. expendable p fs f \<and> (fst e = rf_path f \<or> fst e \<in> sidecars (rf_path f)))"
    if "e \<in> set fs" "e \<notin> set fs2" for e
    using assms that expendable_mono [OF sub(1)] unfolding clean_def by (cases "e \<in> set fs1") blast+
  then show ?thesis using sub by (auto simp: clean_def)
qed

lemma disk_pass_clean:
  assumes "dp_deleteOldest p"
    and "deleteUntil (set (dp_writing p)) (dp_locked p) need
      (listDeletableRecordings (protectedBasenames (dp_writing p) (dp_current p)) (dp_output p) (dp_room p) fs) (0, 0, fs) =
      (fr, n, fs')"
  shows "clean p fs fs'"
  using deleteUntil_removes [OF assms(2)] listed_recordings assms(1) unfolding clean_def expendable_def by blast

lemma disk_passes_spec:
  assumes "disk_passes p n fs = (ok, fs')" and "0 < dp_min p"
  shows "clean p fs fs' \<and> (ok \<longrightarrow> (case dp_free p fs' of None \<Rightarrow> True | Some free \<Rightarrow> dp_min p \<le> int free))"
  using assms(1)
proof (induction n arbitrary: fs)
  case 0
  then show ?case using disk_final_ok [of p fs] assms(2) clean_refl by auto
next
  case (Suc n)
  show ?case
  proof (cases "dp_free p fs")
    case None
    then show ?thesis using Suc.prems clean_refl by auto
  next
    case (Some free)
    show ?thesis
    proof (cases "isInsufficientDiskSpace free (dp_min p) \<and> dp_deleteOldest p")
      case False
      then show ?thesis
        using Suc.prems Some assms(2) clean_refl by (auto simp: isInsufficientDiskSpace_def split: if_splits)
    next
      case True
      obtain fr k fs1 where d: "deleteUntil (set (dp_writing p)) (dp_locked p) (dp_min p - int free)
          (listDeletableRecordings (protectedBasenames (dp_writing p) (dp_current p)) (dp_output p) (dp_room p) fs) (0, 0, fs) =
          (fr, k, fs1)"
        using prod_cases3 by blast
      have c: "clean p fs fs1" by (rule disk_pass_clean [OF _ d]) (use True in simp)
      have e: "(ok, fs') = (if k = 0 then (False, fs1) else if fr \<ge> dp_min p - int free then (disk_final p fs1, fs1)
          else disk_passes p n fs1)"
        using Suc.prems Some True d by simp
      show ?thesis
      proof (cases "k = 0 \<or> fr \<ge> dp_min p - int free")
        case True
        then show ?thesis using e c disk_final_ok [of p fs1] assms(2) by (auto split: if_splits)
      next
        case False
        then have "disk_passes p n fs1 = (ok, fs')" using e by auto
        from Suc.IH [OF this] show ?thesis using clean_trans [OF c] by blast
      qed
    qed
  qed
qed

text \<open>Making room never costs the wrong recording: whatever is on the disk, only recordings of
  the room itself and their sidecars are deleted, none that is being written or is the session's
  current file, nothing at all without the option, and when the start is allowed the configured
  minimum is free (or cannot be told).\<close>

lemma low_disk_deletes_only_expendable:
  "case ensureDiskSpace p fs of
     (ok, fs') \<Rightarrow> clean p fs fs' \<and>
       (if ok \<and> 0 < dp_min p then (case dp_free p fs' of None \<Rightarrow> True | Some free \<Rightarrow> dp_min p \<le> int free) else True)"
proof -
  obtain ok fs' where e: "ensureDiskSpace p fs = (ok, fs')" by fastforce
  show ?thesis
  proof (cases "dp_min p \<le> 0")
    case True
    then show ?thesis using e clean_refl by (auto simp: ensureDiskSpace_def)
  next
    case False
    then have "disk_passes p 2 fs = (ok, fs')" using e by (simp add: ensureDiskSpace_def)
    from disk_passes_spec [OF this] False show ?thesis using e by simp
  qed
qed


definition demo_disk :: fs where
  "demo_disk = [(''/r/u-7'', EDir), (''/r/u-7/t-20260102_000000.flv'', EFile 5),
    (''/r/u-7/t-20250102_000000.flv'', EFile 4), (''/r/u-7/t-20250102_000000.jsonl'', EFile 1)]"

definition demo_newer :: recordingFile where
  "demo_newer = \<lparr>rf_path = ''/r/u-7/t-20260102_000000.flv'', rf_stamp = ''20260102_000000'', rf_segment = 0, rf_size = 5\<rparr>"

definition demo_older :: recordingFile where
  "demo_older = \<lparr>rf_path = ''/r/u-7/t-20250102_000000.flv'', rf_stamp = ''20250102_000000'', rf_segment = 0, rf_size = 4\<rparr>"

lemma demo_listed: "listDeletableRecordings {} ''/r'' 7 demo_disk = [demo_older, demo_newer]"
  by code_simp

lemma demo_deleted: "deleteUntil {} (\<lambda>_. False) 9 [demo_older, demo_newer] (0, 0, demo_disk) = (9, 2, [(''/r/u-7'', EDir)])"
  by code_simp


end
