(* ===== verification/Tx.thy ===== *)
theory Tx
  imports Prelude
begin

text \<open>
  Reservation transactions (\<open>pkg/tx\<close>). A coordinator hands out transactions that are reserved,
  then confirmed or aborted once. \<open>Pending\<close> keeps the keys in flight in a set and asks a validation
  function; \<open>Hook\<close> delegates to three functions. What the functions and the body of a transaction
  work on is a world \<open>'w\<close>; each operation runs under the mutex and is one step.

  The locale \<open>coordinator\<close> is the interface both provide and what \<open>RunWithHooks\<close> relies on.
\<close>

datatype 'e tx_error = ErrAlreadyReserved | ErrTxnClosed | TxError 'e

record Txn =
  tx_reserved :: bool
  tx_closed :: bool

definition Begin :: Txn where
  "Begin = \<lparr>tx_reserved = False, tx_closed = False\<rparr>"

section \<open>Pending keys\<close>

text \<open>The store is the set of pending keys and the world.\<close>

definition pending_Reserve :: "('k \<Rightarrow> 'k set \<Rightarrow> 'w \<Rightarrow> 'e option) \<Rightarrow> 'k \<Rightarrow> Txn \<Rightarrow> 'k set \<times> 'w \<Rightarrow>
    'e tx_error option \<times> Txn \<times> ('k set \<times> 'w)" where
  "pending_Reserve validate key t s =
    (if tx_closed t then (Some ErrTxnClosed, t, s)
     else if tx_reserved t then (Some ErrAlreadyReserved, t, s)
     else if key \<in> fst s then (Some ErrAlreadyReserved, t, s)
     else case validate key (insert key (fst s)) (snd s) of
       Some e \<Rightarrow> (Some (TxError e), t, s)
     | None \<Rightarrow> (None, t\<lparr>tx_reserved := True\<rparr>, (insert key (fst s), snd s)))"

definition pending_settle :: "'k \<Rightarrow> ('w \<Rightarrow> 'w) \<Rightarrow> Txn \<Rightarrow> 'k set \<times> 'w \<Rightarrow> Txn \<times> ('k set \<times> 'w)" where
  "pending_settle key fn t s =
    (if \<not> tx_reserved t \<or> tx_closed t then (t, s)
     else (t\<lparr>tx_reserved := False, tx_closed := True\<rparr>, (fst s - {key}, fn (snd s))))"

text \<open>\<open>AbortWith\<close> and \<open>ConfirmWith\<close> of a pending transaction do the same.\<close>

definition pending_AbortWith :: "'k \<Rightarrow> ('w \<Rightarrow> 'w) \<Rightarrow> Txn \<Rightarrow> 'k set \<times> 'w \<Rightarrow> Txn \<times> ('k set \<times> 'w)" where
  "pending_AbortWith = pending_settle"

definition pending_ConfirmWith :: "'k \<Rightarrow> ('w \<Rightarrow> 'w) \<Rightarrow> Txn \<Rightarrow> 'k set \<times> 'w \<Rightarrow> Txn \<times> ('k set \<times> 'w)" where
  "pending_ConfirmWith = pending_settle"

section \<open>Hooks\<close>

record ('k, 'w, 'e) Hook =
  hk_reserve :: "'k \<Rightarrow> 'w \<Rightarrow> 'e option \<times> 'w"
  hk_abort :: "'k \<Rightarrow> 'w \<Rightarrow> 'w"
  hk_confirm :: "'k \<Rightarrow> 'w \<Rightarrow> 'w"

definition hook_Reserve :: "('k, 'w, 'e) Hook \<Rightarrow> 'k \<Rightarrow> Txn \<Rightarrow> 'w \<Rightarrow> 'e tx_error option \<times> Txn \<times> 'w" where
  "hook_Reserve h key t w =
    (if tx_closed t then (Some ErrTxnClosed, t, w)
     else if tx_reserved t then (Some ErrAlreadyReserved, t, w)
     else case hk_reserve h key w of
       (Some e, w) \<Rightarrow> (Some (TxError e), t, w)
     | (None, w) \<Rightarrow> (None, t\<lparr>tx_reserved := True\<rparr>, w))"

definition hook_AbortWith :: "('k, 'w, 'e) Hook \<Rightarrow> 'k \<Rightarrow> ('w \<Rightarrow> 'w) \<Rightarrow> Txn \<Rightarrow> 'w \<Rightarrow> Txn \<times> 'w" where
  "hook_AbortWith h key fn t w =
    (if \<not> tx_reserved t \<or> tx_closed t then (t, w)
     else (t\<lparr>tx_reserved := False, tx_closed := True\<rparr>, fn (hk_abort h key w)))"

definition hook_ConfirmWith :: "('k, 'w, 'e) Hook \<Rightarrow> 'k \<Rightarrow> ('w \<Rightarrow> 'w) \<Rightarrow> Txn \<Rightarrow> 'w \<Rightarrow> Txn \<times> 'w" where
  "hook_ConfirmWith h key fn t w =
    (if \<not> tx_reserved t \<or> tx_closed t then (t, w)
     else (t\<lparr>tx_reserved := False, tx_closed := True\<rparr>, fn (hk_confirm h key w)))"

section \<open>Running a transaction\<close>

text \<open>\<open>RunWithHooks\<close>, the same text in both files: reserve, run the body, confirm on success, and
  the deferred abort, which does nothing once confirmed.\<close>

definition RunWithHooks ::
  "('k \<Rightarrow> Txn \<Rightarrow> 's \<Rightarrow> 'e tx_error option \<times> Txn \<times> 's) \<Rightarrow>
   ('k \<Rightarrow> ('w \<Rightarrow> 'w) \<Rightarrow> Txn \<Rightarrow> 's \<Rightarrow> Txn \<times> 's) \<Rightarrow> ('k \<Rightarrow> ('w \<Rightarrow> 'w) \<Rightarrow> Txn \<Rightarrow> 's \<Rightarrow> Txn \<times> 's) \<Rightarrow>
   'k \<Rightarrow> ('s \<Rightarrow> 'e tx_error option \<times> 's) \<Rightarrow> ('w \<Rightarrow> 'w) \<Rightarrow> ('w \<Rightarrow> 'w) \<Rightarrow> Txn \<Rightarrow> 's \<Rightarrow>
   'e tx_error option \<times> Txn \<times> 's" where
  "RunWithHooks reserve abort confirm key fn onAbort onConfirm t s =
    (case reserve key t s of
       (Some e, t, s) \<Rightarrow> (Some e, t, s)
     | (None, t, s) \<Rightarrow>
        (case fn s of
           (Some e, s) \<Rightarrow> (case abort key onAbort t s of (t, s) \<Rightarrow> (Some e, t, s))
         | (None, s) \<Rightarrow>
            (case confirm key onConfirm t s of
               (t, s) \<Rightarrow> (case abort key onAbort t s of (t, s) \<Rightarrow> (None, t, s)))))"

text \<open>The interface: \<open>settled_by\<close> tells how a settling operation changes the store.\<close>

locale coordinator =
  fixes reserve :: "'k \<Rightarrow> Txn \<Rightarrow> 's \<Rightarrow> 'e tx_error option \<times> Txn \<times> 's"
    and abort :: "'k \<Rightarrow> ('w \<Rightarrow> 'w) \<Rightarrow> Txn \<Rightarrow> 's \<Rightarrow> Txn \<times> 's"
    and confirm :: "'k \<Rightarrow> ('w \<Rightarrow> 'w) \<Rightarrow> Txn \<Rightarrow> 's \<Rightarrow> Txn \<times> 's"
    and aborted :: "'k \<Rightarrow> ('w \<Rightarrow> 'w) \<Rightarrow> 's \<Rightarrow> 's"
    and confirmed :: "'k \<Rightarrow> ('w \<Rightarrow> 'w) \<Rightarrow> 's \<Rightarrow> 's"
  assumes reserve_ok: "reserve k t s = (None, t', s') \<Longrightarrow> \<not> tx_closed t \<and> \<not> tx_reserved t \<and> t' = t\<lparr>tx_reserved := True\<rparr>"
    and reserve_err: "reserve k t s = (Some e, t', s') \<Longrightarrow> t' = t"
    and reserve_closed: "tx_closed t \<Longrightarrow> reserve k t s = (Some ErrTxnClosed, t, s)"
    and abort_open: "tx_reserved t \<Longrightarrow> \<not> tx_closed t \<Longrightarrow>
      abort k f t s = (t\<lparr>tx_reserved := False, tx_closed := True\<rparr>, aborted k f s)"
    and confirm_open: "tx_reserved t \<Longrightarrow> \<not> tx_closed t \<Longrightarrow>
      confirm k f t s = (t\<lparr>tx_reserved := False, tx_closed := True\<rparr>, confirmed k f s)"
    and abort_settled: "\<not> tx_reserved t \<or> tx_closed t \<Longrightarrow> abort k f t s = (t, s)"
    and confirm_settled: "\<not> tx_reserved t \<or> tx_closed t \<Longrightarrow> confirm k f t s = (t, s)"
begin

lemma run_cases:
  assumes "RunWithHooks reserve abort confirm k fn onAbort onConfirm t s = (r, t', s')"
  obtains (refused) e where "reserve k t s = (Some e, t, s')" "r = Some e" "t' = t"
  | (failed) t1 s1 s2 e where "reserve k t s = (None, t1, s1)" "fn s1 = (Some e, s2)" "r = Some e"
      "s' = aborted k onAbort s2" "tx_closed t'" "\<not> tx_reserved t'"
  | (committed) t1 s1 s2 where "reserve k t s = (None, t1, s1)" "fn s1 = (None, s2)" "r = None"
      "s' = confirmed k onConfirm s2" "tx_closed t'" "\<not> tx_reserved t'"
proof -
  obtain e t1 s1 where r: "reserve k t s = (e, t1, s1)" by (metis prod_cases3)
  show ?thesis
  proof (cases e)
    case (Some x)
    then have "t1 = t" using r reserve_err by blast
    with assms r Some have "r = Some x" "t' = t" "s' = s1" by (simp_all add: RunWithHooks_def)
    then show ?thesis using r Some \<open>t1 = t\<close> by (intro refused) simp_all
  next
    case None
    then have t1: "tx_reserved t1" "\<not> tx_closed t1" using r reserve_ok [of k t s t1 s1] by simp_all
    obtain f s2 where f: "fn s1 = (f, s2)" by (metis surj_pair)
    show ?thesis
    proof (cases f)
      case None
      then have "r = None" "s' = confirmed k onConfirm s2" "t' = t1\<lparr>tx_reserved := False, tx_closed := True\<rparr>"
        using assms r f \<open>e = None\<close> by (simp_all add: RunWithHooks_def confirm_open [OF t1] abort_settled)
      then show ?thesis using r f None \<open>e = None\<close> by (intro committed) simp_all
    next
      case (Some x)
      then have "r = Some x" "s' = aborted k onAbort s2" "t' = t1\<lparr>tx_reserved := False, tx_closed := True\<rparr>"
        using assms r f \<open>e = None\<close> by (simp_all add: RunWithHooks_def abort_open [OF t1])
      then show ?thesis using r f Some \<open>e = None\<close> by (intro failed) simp_all
    qed
  qed
qed

text \<open>A transaction that has run cannot be reserved again.\<close>

lemma run_once:
  assumes "RunWithHooks reserve abort confirm k fn onAbort onConfirm t s = (r, t', s')"
    and "reserve k t s = (None, t1, s1)"
  shows "reserve k2 t' s2 = (Some ErrTxnClosed, t', s2)"
  using assms by (cases rule: run_cases [OF assms(1)]) (simp_all add: reserve_closed)

end

definition pending_settled :: "'k \<Rightarrow> ('w \<Rightarrow> 'w) \<Rightarrow> 'k set \<times> 'w \<Rightarrow> 'k set \<times> 'w" where
  "pending_settled k f s = (fst s - {k}, f (snd s))"

lemma pending_Reserve_cases:
  "pending_Reserve validate k t s = (r, t', s') \<Longrightarrow>
    (if r = None then \<not> tx_closed t \<and> \<not> tx_reserved t \<and> t' = t\<lparr>tx_reserved := True\<rparr> else t' = t)"
  by (auto simp: pending_Reserve_def split: if_split_asm option.split_asm)

lemma hook_Reserve_cases:
  "hook_Reserve h k t w = (r, t', w') \<Longrightarrow>
    (if r = None then \<not> tx_closed t \<and> \<not> tx_reserved t \<and> t' = t\<lparr>tx_reserved := True\<rparr> else t' = t)"
  by (auto simp: hook_Reserve_def split: if_split_asm option.split_asm prod.split_asm)

lemmas pending_settle_defs = pending_AbortWith_def pending_ConfirmWith_def pending_settle_def pending_settled_def

interpretation pend: coordinator "pending_Reserve validate" pending_AbortWith pending_ConfirmWith
    pending_settled pending_settled for validate
proof unfold_locales
  show "\<not> tx_closed t \<and> \<not> tx_reserved t \<and> t' = t\<lparr>tx_reserved := True\<rparr>"
    if "pending_Reserve validate k t s = (None, t', s')" for k t t' s s'
    using pending_Reserve_cases [OF that] by simp
  show "t' = t" if "pending_Reserve validate k t s = (Some e, t', s')" for k t t' s s' e
    using pending_Reserve_cases [OF that] by simp
qed (simp_all add: pending_settle_defs pending_Reserve_def)

interpretation hook: coordinator "hook_Reserve h" "hook_AbortWith h" "hook_ConfirmWith h"
    "\<lambda>k f w. f (hk_abort h k w)" "\<lambda>k f w. f (hk_confirm h k w)" for h
proof unfold_locales
  show "\<not> tx_closed t \<and> \<not> tx_reserved t \<and> t' = t\<lparr>tx_reserved := True\<rparr>"
    if "hook_Reserve h k t w = (None, t', w')" for k t t' w w'
    using hook_Reserve_cases [OF that] by simp
  show "t' = t" if "hook_Reserve h k t w = (Some e, t', w')" for k t t' w w' e
    using hook_Reserve_cases [OF that] by simp
qed (simp_all add: hook_AbortWith_def hook_ConfirmWith_def hook_Reserve_def)

text \<open>C15. A pending key is released exactly once: when the reservation succeeds the key is held
  while the body runs, afterwards it is not, whatever happened; the confirming hook runs exactly
  when the body succeeded and the aborting one when it failed, and a refused reservation changes
  nothing.\<close>

theorem pending_transaction_settles:
  "case RunWithHooks (pending_Reserve validate) pending_AbortWith pending_ConfirmWith k
      (\<lambda>(P, w). case fn P w of (e, w) \<Rightarrow> (e, (P, w))) onAbort onConfirm Begin (P, w) of
     (r, t, (P', w')) \<Rightarrow>
       if k \<in> P then r = Some ErrAlreadyReserved \<and> P' = P \<and> w' = w
       else case validate k (insert k P) w of
         Some e \<Rightarrow> r = Some (TxError e) \<and> P' = P \<and> w' = w
       | None \<Rightarrow> P' = P \<and> tx_closed t \<and> r = fst (fn (insert k P) w) \<and>
           w' = (if r = None then onConfirm else onAbort) (snd (fn (insert k P) w))"
  by (auto simp: RunWithHooks_def pending_Reserve_def pending_AbortWith_def pending_ConfirmWith_def
      pending_settle_def Begin_def split: option.splits prod.splits)

end
