(* ===== verification/Recorder.thy ===== *)
theory Recorder
  imports RecordFiles Tx GoMap Backoff
begin

text \<open>
  The recorder service (\<open>internal/services/recorder\<close>): which rooms are recorded, how a recording is
  started by the user or by a recovery, stopped and recovered. \<open>Service\<close> holds the maps shared by the
  goroutines; a session (\<open>Info\<close>) is named by its index in \<open>sv_infos\<close>, so that the identity of
  pointers is the equality of indices. The functions are the critical sections of the code; the
  step relation at the end interleaves them as the goroutines do.
\<close>

section \<open>Data\<close>

datatype RecordStatus = Recording | Recovering | Idle

datatype rec_error =
    ErrMaxConcurrentRecordingsReached | ErrRecordingStarted | ErrRecordRecovering | ErrRecordingPending
  | ErrStreamNotLive | ErrEmptyStreamURLs | ErrStreamURLsUnreachable | ErrRoomBanned | ErrRoomEncrypted
  | ErrInsufficientDiskSpace | ErrLiveAPI | ErrContextCanceled | ErrRecTxnClosed | ErrUnsupportedFormat | ErrSessionID

record Info =
  inf_status :: "RecordStatus option"
  inf_cancelled :: bool
  inf_startTime :: int
  inf_fileTime :: int
  inf_maxDuration :: int

record Service =
  sv_max :: int
  sv_resetDuration :: bool
  sv_recording :: "(nat, nat) gomap"
  sv_infos :: "Info list"

datatype startMode = startModeUser | startModeRecovery nat

definition GetStatus :: "Service \<Rightarrow> nat \<Rightarrow> RecordStatus" where
  "GetStatus w room =
    (case gm_get (sv_recording w) room of
       None \<Rightarrow> Idle
     | Some i \<Rightarrow> (case inf_status (sv_infos w ! i) of None \<Rightarrow> Idle | Some st \<Rightarrow> st))"

text \<open>The validation function of the reservations (\<open>NewService\<close>).\<close>

definition validateStart :: "nat \<Rightarrow> nat set \<Rightarrow> Service \<Rightarrow> rec_error option" where
  "validateStart room pendingStart w =
    (if GetStatus w room = Recording then Some ErrRecordingStarted
     else if int (gm_len (sv_recording w) + card pendingStart) > sv_max w then
       (case gm_get (sv_recording w) room of
          None \<Rightarrow> Some ErrMaxConcurrentRecordingsReached
        | Some i \<Rightarrow>
            if inf_status (sv_infos w ! i) \<noteq> Some Recovering then Some ErrMaxConcurrentRecordingsReached else None)
     else None)"

text \<open>The check at the head of \<open>Start\<close>.\<close>

definition start_precheck :: "nat \<Rightarrow> Service \<Rightarrow> rec_error option" where
  "start_precheck room w =
    (case GetStatus w room of Recording \<Rightarrow> Some ErrRecordingStarted | Recovering \<Rightarrow> Some ErrRecordRecovering | Idle \<Rightarrow> None)"

text \<open>Reserving in \<open>internalStart\<close>.\<close>

definition start_reserve :: "nat \<Rightarrow> Txn \<Rightarrow> nat set \<times> Service \<Rightarrow> rec_error option \<times> Txn \<times> (nat set \<times> Service)" where
  "start_reserve room t s =
    (case pending_Reserve validateStart room t s of
       (Some ErrAlreadyReserved, t, s) \<Rightarrow> (Some ErrRecordingPending, t, s)
     | (Some ErrTxnClosed, t, s) \<Rightarrow> (Some ErrRecTxnClosed, t, s)
     | (Some (TxError e), t, s) \<Rightarrow> (Some e, t, s)
     | (None, t, s) \<Rightarrow> (None, t, s))"

section \<open>Connecting\<close>

text \<open>What the requests of one stream URL answer.\<close>

datatype connect_answer = StreamOpened | OpenCanceled | OpenFailed | HttpStatus int | ReadFailed

text \<open>\<open>connectStream\<close>: whether the stream is connected; the chunk pool is released when it is not.\<close>

definition connectStream :: "string \<Rightarrow> connect_answer \<Rightarrow> (rec_error + bool) \<times> bool" where
  "connectStream fmt ans =
    (let r = (if fmt = ''ts'' \<or> fmt = ''fmp4'' then
                (case ans of StreamOpened \<Rightarrow> Inr True | OpenCanceled \<Rightarrow> Inl ErrContextCanceled | _ \<Rightarrow> Inr False)
              else if fmt = ''flv'' then
                (case ans of
                   StreamOpened \<Rightarrow> Inr True
                 | OpenCanceled \<Rightarrow> Inl ErrContextCanceled
                 | OpenFailed \<Rightarrow> Inr False
                 | HttpStatus c \<Rightarrow> Inr False
                 | ReadFailed \<Rightarrow> Inr False)
              else Inl ErrUnsupportedFormat)
     in (r, r \<noteq> Inr True))"

text \<open>A URL list worked off in order: for each URL whether the context was cancelled before, its
  format and the answer.\<close>

fun try_streams :: "(bool \<times> string \<times> connect_answer) list \<Rightarrow> nat \<Rightarrow> rec_error + nat" where
  "try_streams [] idx = Inl ErrStreamURLsUnreachable"
| "try_streams ((cancelled, fmt, ans) # rest) idx =
    (if cancelled then Inl ErrContextCanceled
     else case fst (connectStream fmt ans) of
       Inl e \<Rightarrow> Inl e
     | Inr connected \<Rightarrow> if connected then Inr idx else try_streams rest (Suc idx))"

record LiveRoomInfo =
  lr_IsEncrypted :: bool
  lr_LockStatus :: int
  lr_LiveStatus :: int

record start_answers =
  sa_cancelled :: bool
  sa_disk :: bool
  sa_room :: "rec_error + LiveRoomInfo"
  sa_streams :: "rec_error + (bool \<times> string \<times> connect_answer) list"

definition api_error :: "rec_error \<Rightarrow> rec_error" where
  "api_error e = (if e = ErrContextCanceled then ErrContextCanceled else ErrLiveAPI)"

text \<open>\<open>internalStart\<close> from the reservation to a connected stream.\<close>

definition start_connect :: "start_answers \<Rightarrow> rec_error + nat" where
  "start_connect a =
    (if sa_cancelled a then Inl ErrContextCanceled
     else if \<not> sa_disk a then Inl ErrInsufficientDiskSpace
     else case sa_room a of
       Inl e \<Rightarrow> Inl (api_error e)
     | Inr room \<Rightarrow>
        if lr_IsEncrypted room then Inl ErrRoomEncrypted
        else if lr_LockStatus room \<noteq> 0 then Inl ErrRoomBanned
        else if lr_LiveStatus room \<noteq> 1 then Inl ErrStreamNotLive
        else case sa_streams a of
          Inl e \<Rightarrow> Inl (api_error e)
        | Inr streams \<Rightarrow> if streams = [] then Inl ErrEmptyStreamURLs else try_streams streams 0)"

section \<open>Committing, stopping\<close>

definition sessionReadyForConfirm :: "startMode \<Rightarrow> bool \<Rightarrow> nat \<Rightarrow> Service \<Rightarrow> bool" where
  "sessionReadyForConfirm mode cancelled room w =
    (if cancelled then False
     else case mode of
       startModeUser \<Rightarrow> True
     | startModeRecovery i \<Rightarrow> gm_get (sv_recording w) room = Some i)"

text \<open>\<open>t.Truncate(time.Second)\<close> in nanoseconds.\<close>

definition truncate_second :: "int \<Rightarrow> int" where
  "truncate_second t = t - t mod 1000000000"

definition nextFileTime :: "int \<Rightarrow> int \<Rightarrow> int" where
  "nextFileTime prev now =
    (let stamp = truncate_second now; prevStamp = truncate_second prev in
     if \<not> stamp > prevStamp then prevStamp + 1000000000 else stamp)"

text \<open>\<open>commitSession\<close>: the new session of a user start, or the session being recovered; the part
  under the lock is what \<open>ConfirmWith\<close> runs.\<close>

definition commit_confirm :: "startMode \<Rightarrow> nat \<Rightarrow> int \<Rightarrow> int \<Rightarrow> Service \<Rightarrow> Service" where
  "commit_confirm mode room now maxDuration w =
    (case mode of
       startModeUser \<Rightarrow>
         w\<lparr>sv_infos := sv_infos w @ [\<lparr>inf_status = Some Recording, inf_cancelled = False, inf_startTime = now,
                                      inf_fileTime = now, inf_maxDuration = maxDuration\<rparr>],
           sv_recording := gm_put room (length (sv_infos w)) (sv_recording w)\<rparr>
     | startModeRecovery i \<Rightarrow>
         (let inf = sv_infos w ! i in
          w\<lparr>sv_infos := (sv_infos w)[i := inf\<lparr>inf_fileTime := nextFileTime (inf_fileTime inf) now,
              inf_startTime := (if sv_resetDuration w then now else inf_startTime inf),
              inf_status := Some Recording\<rparr>]\<rparr>))"

text \<open>The session that a committed start hands to \<open>prepare\<close>, or the error behind the commit.\<close>

definition commit_result :: "startMode \<Rightarrow> nat \<Rightarrow> Service \<Rightarrow> rec_error + nat" where
  "commit_result mode room w =
    (case mode of
       startModeUser \<Rightarrow> Inr (the (gm_get (sv_recording w) room))
     | startModeRecovery i \<Rightarrow>
         if inf_cancelled (sv_infos w ! i) then Inl ErrContextCanceled
         else if gm_get (sv_recording w) room \<noteq> Some i then Inl ErrContextCanceled
         else Inr i)"

definition rec_Stop :: "nat \<Rightarrow> Service \<Rightarrow> bool \<times> Service" where
  "rec_Stop room w =
    (case gm_get (sv_recording w) room of
       None \<Rightarrow> (False, w)
     | Some i \<Rightarrow> (True, w\<lparr>sv_recording := gm_del room (sv_recording w),
                       sv_infos := (sv_infos w)[i := (sv_infos w ! i)\<lparr>inf_cancelled := True\<rparr>]\<rparr>))"

section \<open>Recovering\<close>

text \<open>The head of \<open>recover\<close>: the session it looks up by the room, unless there is none or it is
  already recovering.\<close>

definition recover_enter :: "nat \<Rightarrow> Service \<Rightarrow> nat option \<times> Service" where
  "recover_enter room w =
    (case gm_get (sv_recording w) room of
       None \<Rightarrow> (None, w)
     | Some i \<Rightarrow>
        if inf_status (sv_infos w ! i) = Some Recovering then (None, w)
        else (Some i, w\<lparr>sv_infos := (sv_infos w)[i := (sv_infos w ! i)\<lparr>inf_status := Some Recovering\<rparr>]\<rparr>))"

datatype give_up_reason = ReasonConcurrent | ReasonEncrypted | ReasonBanned | ReasonNotLiveTimeout | ReasonMaxAttempts

datatype recover_action = Recovered | GiveUp give_up_reason | Exit | Sleep

record recover_config =
  rc_MaxRetryMinutes :: int
  rc_MaxRecoveryAttempts :: int

text \<open>What \<open>recover\<close> does with the result of one \<open>internalStart\<close>; \<open>gone\<close> tells that the room
  is no longer recorded, \<open>elapsed\<close> is the time since the loop began.\<close>

definition recover_decide :: "recover_config \<Rightarrow> int \<Rightarrow> int \<Rightarrow> bool \<Rightarrow> rec_error option \<Rightarrow> recover_action" where
  "recover_decide cfg attempt elapsed gone err =
    (case err of
       None \<Rightarrow> Recovered
     | Some ErrMaxConcurrentRecordingsReached \<Rightarrow> GiveUp ReasonConcurrent
     | Some ErrRoomEncrypted \<Rightarrow> GiveUp ReasonEncrypted
     | Some ErrRoomBanned \<Rightarrow> GiveUp ReasonBanned
     | Some e \<Rightarrow>
        if gone \<or> e = ErrContextCanceled then Exit
        else if e = ErrStreamNotLive then
          (if elapsed \<ge> rc_MaxRetryMinutes cfg * 60000000000 then GiveUp ReasonNotLiveTimeout else Sleep)
        else if attempt \<ge> rc_MaxRecoveryAttempts cfg then GiveUp ReasonMaxAttempts
        else Sleep)"

text \<open>The loop over the results of the attempts: for each whether the session was cancelled before,
  the time elapsed, whether the room is gone, the result, and whether the sleep was interrupted.
  The result is what ended the loop, the number of attempts made and the delays slept.\<close>

type_synonym attempt = "bool \<times> int \<times> bool \<times> rec_error option \<times> bool"

fun recover_loop :: "recover_config \<Rightarrow> int \<Rightarrow> Sequence \<Rightarrow> attempt list \<Rightarrow> (recover_action \<times> int \<times> int list) option" where
  "recover_loop cfg attempt bo [] = Some (Sleep, attempt, [])"
| "recover_loop cfg attempt bo ((cancelled, elapsed, gone, err, interrupted) # rest) =
    (if cancelled then Some (Exit, attempt, [])
     else case recover_decide cfg attempt elapsed gone err of
       Sleep \<Rightarrow>
         (case seq_Next bo of
            None \<Rightarrow> None
          | Some (delay, bo) \<Rightarrow>
              if interrupted then Some (Exit, attempt, [delay])
              else map_option (\<lambda>(a, n, ds). (a, n, delay # ds)) (recover_loop cfg (attempt + 1) bo rest))
     | act \<Rightarrow> Some (act, attempt, []))"

text \<open>The delays of a session.\<close>

definition session_backoff :: Sequence where
  "session_backoff = NewSequence (map (\<lambda>s. s * 1000000000) [2, 2, 2, 5, 10, 15])"

text \<open>The label of a failed start in the metrics.\<close>

definition startFailureReason :: "rec_error option \<Rightarrow> string option" where
  "startFailureReason err =
    (case err of
       None \<Rightarrow> None
     | Some ErrRecordingStarted \<Rightarrow> None
     | Some ErrRecordRecovering \<Rightarrow> None
     | Some ErrRecordingPending \<Rightarrow> None
     | Some ErrContextCanceled \<Rightarrow> None
     | Some ErrRecTxnClosed \<Rightarrow> None
     | Some ErrStreamNotLive \<Rightarrow> Some ''not_live''
     | Some ErrEmptyStreamURLs \<Rightarrow> Some ''empty_urls''
     | Some ErrStreamURLsUnreachable \<Rightarrow> Some ''unreachable''
     | Some ErrInsufficientDiskSpace \<Rightarrow> Some ''disk''
     | Some ErrMaxConcurrentRecordingsReached \<Rightarrow> Some ''concurrent''
     | Some ErrRoomBanned \<Rightarrow> Some ''banned''
     | Some ErrRoomEncrypted \<Rightarrow> Some ''encrypted''
     | Some ErrLiveAPI \<Rightarrow> Some ''api''
     | Some _ \<Rightarrow> Some ''other'')"

section \<open>The goroutines\<close>

text \<open>A call of \<open>internalStart\<close> and how far it has got. \<open>Asked\<close>: about to reserve (the check at the
  head of \<open>Start\<close> or of the recovery loop is behind it); \<open>Connecting\<close>: reserved; \<open>Connected\<close>: a stream
  is open and the session found ready; \<open>Confirmed\<close>: the transaction is confirmed; \<open>Ended\<close>: returned.\<close>

datatype start_phase = Asked | Connecting | Connected | Confirmed | Ended

record start_call =
  sc_room :: nat
  sc_mode :: startMode
  sc_phase :: start_phase
  sc_txn :: Txn

text \<open>Workers are the goroutines that run \<open>rotate\<close>, with their room and session; recoverers are those in
  the loop of \<open>recover\<close>, with room, session and the call of \<open>internalStart\<close> they wait for.\<close>

record rec_state =
  rs_store :: "nat set \<times> Service"
  rs_starts :: "start_call list"
  rs_workers :: "(nat \<times> nat) list"
  rs_recoverers :: "(nat \<times> nat \<times> nat option) list"

abbreviation rs_pending :: "rec_state \<Rightarrow> nat set" where "rs_pending s \<equiv> fst (rs_store s)"
abbreviation rs_service :: "rec_state \<Rightarrow> Service" where "rs_service s \<equiv> snd (rs_store s)"

definition NewService :: "int \<Rightarrow> bool \<Rightarrow> rec_state" where
  "NewService maxConcurrent reset =
    \<lparr>rs_store = ({}, \<lparr>sv_max = maxConcurrent, sv_resetDuration = reset, sv_recording = gm_empty, sv_infos = []\<rparr>),
     rs_starts = [], rs_workers = [], rs_recoverers = []\<rparr>"

definition set_start :: "nat \<Rightarrow> start_call \<Rightarrow> rec_state \<Rightarrow> rec_state" where
  "set_start k c s = s\<lparr>rs_starts := (rs_starts s)[k := c]\<rparr>"

definition new_start :: "nat \<Rightarrow> startMode \<Rightarrow> rec_state \<Rightarrow> rec_state" where
  "new_start room mode s =
    s\<lparr>rs_starts := rs_starts s @ [\<lparr>sc_room = room, sc_mode = mode, sc_phase = Asked, sc_txn = Begin\<rparr>]\<rparr>"

definition call_returned :: "rec_state \<Rightarrow> nat option \<Rightarrow> bool" where
  "call_returned s cur = (case cur of None \<Rightarrow> True | Some k \<Rightarrow> sc_phase (rs_starts s ! k) = Ended)"

text \<open>A step is a critical section or what a goroutine does between two of them. When an attempt has
  returned an error, the loop of \<open>recover\<close> tries again, leaves or gives up (\<open>recover_decide\<close>).\<close>

inductive rec_step :: "rec_state \<Rightarrow> rec_state \<Rightarrow> bool" where
  Ask: "start_precheck room (rs_service s) = None \<Longrightarrow> rec_step s (new_start room startModeUser s)"
| Reserve: "k < length (rs_starts s) \<Longrightarrow> c = rs_starts s ! k \<Longrightarrow> sc_phase c = Asked \<Longrightarrow>
    start_reserve (sc_room c) (sc_txn c) (rs_store s) = (err, t, store) \<Longrightarrow>
    rec_step s (set_start k (c\<lparr>sc_phase := (if err = None then Connecting else Ended), sc_txn := t\<rparr>)
      (s\<lparr>rs_store := store\<rparr>))"
| ConnectFailed: "k < length (rs_starts s) \<Longrightarrow> c = rs_starts s ! k \<Longrightarrow> sc_phase c = Connecting \<Longrightarrow>
    start_connect ans = Inl e \<Longrightarrow>
    pending_AbortWith (sc_room c) (\<lambda>w. w) (sc_txn c) (rs_store s) = (t, store) \<Longrightarrow>
    rec_step s (set_start k (c\<lparr>sc_phase := Ended, sc_txn := t\<rparr>) (s\<lparr>rs_store := store\<rparr>))"
| NotReady: "k < length (rs_starts s) \<Longrightarrow> c = rs_starts s ! k \<Longrightarrow> sc_phase c = Connecting \<Longrightarrow>
    \<not> sessionReadyForConfirm (sc_mode c) cancelled (sc_room c) (rs_service s) \<Longrightarrow>
    pending_AbortWith (sc_room c) (\<lambda>w. w) (sc_txn c) (rs_store s) = (t, store) \<Longrightarrow>
    rec_step s (set_start k (c\<lparr>sc_phase := Ended, sc_txn := t\<rparr>) (s\<lparr>rs_store := store\<rparr>))"
| Ready: "k < length (rs_starts s) \<Longrightarrow> c = rs_starts s ! k \<Longrightarrow> sc_phase c = Connecting \<Longrightarrow>
    start_connect ans = Inr idx \<Longrightarrow>
    sessionReadyForConfirm (sc_mode c) False (sc_room c) (rs_service s) \<Longrightarrow>
    rec_step s (set_start k (c\<lparr>sc_phase := Connected\<rparr>) s)"
| Confirm: "k < length (rs_starts s) \<Longrightarrow> c = rs_starts s ! k \<Longrightarrow> sc_phase c = Connected \<Longrightarrow>
    pending_ConfirmWith (sc_room c) (commit_confirm (sc_mode c) (sc_room c) now maxDuration) (sc_txn c) (rs_store s) = (t, store) \<Longrightarrow>
    rec_step s (set_start k (c\<lparr>sc_phase := Confirmed, sc_txn := t\<rparr>) (s\<lparr>rs_store := store\<rparr>))"
| Prepare: "k < length (rs_starts s) \<Longrightarrow> c = rs_starts s ! k \<Longrightarrow> sc_phase c = Confirmed \<Longrightarrow>
    commit_result (sc_mode c) (sc_room c) (rs_service s) = Inr i \<Longrightarrow>
    rec_step s ((set_start k (c\<lparr>sc_phase := Ended\<rparr>) s)
      \<lparr>rs_workers := rs_workers s @ [(sc_room c, i)], rs_recoverers := filter (\<lambda>(_, _, cur). cur \<noteq> Some k) (rs_recoverers s)\<rparr>)"
| PrepareFailed: "k < length (rs_starts s) \<Longrightarrow> c = rs_starts s ! k \<Longrightarrow> sc_phase c = Confirmed \<Longrightarrow>
    commit_result (sc_mode c) (sc_room c) (rs_service s) = Inl e \<Longrightarrow>
    rec_step s (set_start k (c\<lparr>sc_phase := Ended\<rparr>) s)"
| WorkerEnds: "(room, i) \<in> set (rs_workers s) \<Longrightarrow> recover_enter room (rs_service s) = (found, w) \<Longrightarrow>
    rec_step s (s\<lparr>rs_store := (rs_pending s, w), rs_workers := remove1 (room, i) (rs_workers s),
      rs_recoverers := rs_recoverers s @ (case found of None \<Rightarrow> [] | Some j \<Rightarrow> [(room, j, None)])\<rparr>)"
| Retry: "(room, i, cur) \<in> set (rs_recoverers s) \<Longrightarrow> call_returned s cur \<Longrightarrow>
    \<not> inf_cancelled (sv_infos (rs_service s) ! i) \<Longrightarrow>
    rec_step s ((new_start room (startModeRecovery i) s)
      \<lparr>rs_recoverers := remove1 (room, i, cur) (rs_recoverers s) @ [(room, i, Some (length (rs_starts s)))]\<rparr>)"
| LeaveLoop: "(room, i, cur) \<in> set (rs_recoverers s) \<Longrightarrow> call_returned s cur \<Longrightarrow>
    rec_step s (s\<lparr>rs_recoverers := remove1 (room, i, cur) (rs_recoverers s)\<rparr>)"
| GiveUpLoop: "(room, i, cur) \<in> set (rs_recoverers s) \<Longrightarrow> call_returned s cur \<Longrightarrow> rec_Stop room (rs_service s) = (b, w) \<Longrightarrow>
    rec_step s (s\<lparr>rs_store := (rs_pending s, w), rs_recoverers := remove1 (room, i, cur) (rs_recoverers s)\<rparr>)"
| StopRoom: "rec_Stop room (rs_service s) = (b, w) \<Longrightarrow> rec_step s (s\<lparr>rs_store := (rs_pending s, w)\<rparr>)"

inductive_cases rec_stepE: "rec_step s s'"

inductive rec_reachable :: "int \<Rightarrow> bool \<Rightarrow> rec_state \<Rightarrow> bool" for maxConcurrent :: int and reset :: bool where
  Init: "rec_reachable maxConcurrent reset (NewService maxConcurrent reset)"
| Step: "rec_reachable maxConcurrent reset s \<Longrightarrow> rec_step s s' \<Longrightarrow> rec_reachable maxConcurrent reset s'"

section \<open>The number of recordings\<close>

definition active :: "start_call \<Rightarrow> bool" where
  "active c \<longleftrightarrow> sc_phase c = Connecting \<or> sc_phase c = Connected"

text \<open>The calls in flight hold their rooms in the pending set, each its own.\<close>

definition call_ok :: "nat set \<Rightarrow> start_call \<Rightarrow> bool" where
  "call_ok P c \<longleftrightarrow> (sc_phase c = Asked \<longrightarrow> sc_txn c = Begin) \<and>
    (active c \<longrightarrow> sc_room c \<in> P \<and> tx_reserved (sc_txn c) \<and> \<not> tx_closed (sc_txn c))"

definition calls_ok :: "nat set \<Rightarrow> start_call list \<Rightarrow> bool" where
  "calls_ok P cs \<longleftrightarrow> (\<forall>c \<in> set cs. call_ok P c) \<and> distinct (map sc_room (filter active cs))"

definition occupied :: "rec_state \<Rightarrow> nat set" where
  "occupied s = dom (gm_get (sv_recording (rs_service s))) \<union> rs_pending s"

definition cap_inv :: "int \<Rightarrow> rec_state \<Rightarrow> bool" where
  "cap_inv m s \<longleftrightarrow> sv_max (rs_service s) = m \<and> gm_ok (sv_recording (rs_service s)) \<and> finite (rs_pending s) \<and>
    card (occupied s) \<le> nat m \<and> calls_ok (rs_pending s) (rs_starts s)"

lemma distinct_filter_update:
  assumes "k < length cs" and "distinct (map f (filter P cs))" and "P c \<Longrightarrow> P (cs ! k) \<and> f c = f (cs ! k)"
  shows "distinct (map f (filter P (cs[k := c])))"
proof -
  have split: "cs = take k cs @ cs ! k # drop (Suc k) cs"
    using assms(1) by (rule id_take_nth_drop)
  have "filter P (cs[k := c]) = filter P (take k cs) @ (if P c then [c] else []) @ filter P (drop (Suc k) cs)"
    using assms(1) by (simp add: upd_conv_take_nth_drop)
  moreover have "filter P cs = filter P (take k cs) @ (if P (cs ! k) then [cs ! k] else []) @ filter P (drop (Suc k) cs)"
    by (subst split) simp
  ultimately show ?thesis using assms(2,3) by (auto split: if_splits)
qed

lemma distinct_filter_others:
  assumes "k < length cs" and "distinct (map f (filter P cs))" and "P (cs ! k)" and "\<not> P c"
  shows "f (cs ! k) \<notin> f ` set (filter P (cs[k := c]))"
proof -
  have split: "cs = take k cs @ cs ! k # drop (Suc k) cs"
    using assms(1) by (rule id_take_nth_drop)
  have "filter P (cs[k := c]) = filter P (take k cs) @ filter P (drop (Suc k) cs)"
    using assms(1,4) by (simp add: upd_conv_take_nth_drop)
  moreover have "filter P cs = filter P (take k cs) @ cs ! k # filter P (drop (Suc k) cs)"
    using assms(3) by (subst split) simp
  ultimately show ?thesis using assms(2) by auto
qed

text \<open>A call moves on within its phase, or leaves and gives its room back.\<close>

lemma calls_ok_move:
  assumes "calls_ok P cs" and "k < length cs" and "call_ok P c" and "active c \<Longrightarrow> active (cs ! k) \<and> sc_room c = sc_room (cs ! k)"
  shows "calls_ok P (cs[k := c])"
  using assms distinct_filter_update [of k cs sc_room active c]
  unfolding calls_ok_def by (auto dest: set_update_subset_insert [THEN subsetD])

lemma calls_ok_leave:
  assumes "calls_ok P cs" and "k < length cs" and "active (cs ! k)" and "sc_phase c \<in> {Confirmed, Ended}"
  shows "calls_ok (P - {sc_room (cs ! k)}) (cs[k := c])"
proof -
  have na: "\<not> active c" using assms(4) by (auto simp: active_def)
  have "call_ok (P - {sc_room (cs ! k)}) d" if "d \<in> set (cs[k := c])" for d
  proof (cases "d = c")
    case True
    then show ?thesis using assms(4) by (auto simp: call_ok_def active_def)
  next
    case False
    then have d: "d \<in> set cs" using that set_update_subset_insert [of cs k c] by auto
    have "sc_room (cs ! k) \<notin> sc_room ` {x \<in> set (cs[k := c]). active x}"
      using distinct_filter_others [of k cs sc_room active c] assms na by (auto simp: calls_ok_def)
    then have "active d \<Longrightarrow> sc_room d \<noteq> sc_room (cs ! k)" using that by (metis (mono_tags, lifting) image_eqI mem_Collect_eq)
    then show ?thesis using d assms(1) by (auto simp: calls_ok_def call_ok_def)
  qed
  then show ?thesis
    using distinct_filter_update [of k cs sc_room active c] assms(1,2) na by (auto simp: calls_ok_def)
qed

lemma calls_ok_reserve:
  assumes "calls_ok P cs" and "k < length cs" and "sc_phase (cs ! k) = Asked" and "sc_room c \<notin> P"
    and "sc_phase c = Connecting" and "tx_reserved (sc_txn c)" and "\<not> tx_closed (sc_txn c)"
  shows "calls_ok (insert (sc_room c) P) (cs[k := c])"
proof -
  have split: "cs = take k cs @ cs ! k # drop (Suc k) cs"
    using assms(2) by (rule id_take_nth_drop)
  have a: "active c" "\<not> active (cs ! k)" using assms(3,5) by (simp_all add: active_def)
  have "filter active cs = filter active (take k cs) @ filter active (drop (Suc k) cs)"
    using a(2) by (subst split) simp
  moreover have "filter active (cs[k := c]) = filter active (take k cs) @ c # filter active (drop (Suc k) cs)"
    using assms(2) a(1) by (simp add: upd_conv_take_nth_drop)
  moreover have "\<forall>d \<in> set cs. active d \<longrightarrow> sc_room d \<noteq> sc_room c"
    using assms(1,4) by (auto simp: calls_ok_def call_ok_def)
  then have "sc_room c \<notin> sc_room ` set (filter active (take k cs))" "sc_room c \<notin> sc_room ` set (filter active (drop (Suc k) cs))"
    using in_set_takeD in_set_dropD by fastforce+
  ultimately have "distinct (map sc_room (filter active (cs[k := c])))"
    using assms(1) by (auto simp: calls_ok_def)
  moreover have "call_ok (insert (sc_room c) P) d" if "d \<in> set (cs[k := c])" for d
    using set_update_subset_insert [of cs k c] that assms by (auto simp: calls_ok_def call_ok_def)
  ultimately show ?thesis by (simp add: calls_ok_def)
qed

lemma calls_ok_new: "calls_ok P cs \<Longrightarrow> sc_phase c = Asked \<Longrightarrow> sc_txn c = Begin \<Longrightarrow> calls_ok P (cs @ [c])"
  by (auto simp: calls_ok_def call_ok_def active_def)

text \<open>What the critical sections do to the store.\<close>

lemma start_reserve_cases:
  assumes "start_reserve room t (P, w) = (err, t', (P', w'))"
  obtains (refused) "err \<noteq> None" "P' = P" "w' = w" "t' = t"
  | (reserved) "err = None" "P' = insert room P" "w' = w" "room \<notin> P" "t' = t\<lparr>tx_reserved := True\<rparr>" "\<not> tx_closed t"
      "validateStart room (insert room P) w = None"
  using assms
  by (auto simp: start_reserve_def pending_Reserve_def split: if_split_asm option.split_asm tx_error.split_asm) metis

lemma validate_room:
  assumes "validateStart room (insert room P) w = None" and "gm_ok (sv_recording w)" and "finite P" and "room \<notin> P"
    and "card (dom (gm_get (sv_recording w)) \<union> P) \<le> nat (sv_max w)"
  shows "card (dom (gm_get (sv_recording w)) \<union> insert room P) \<le> nat (sv_max w)"
proof (cases "room \<in> dom (gm_get (sv_recording w))")
  case True
  then show ?thesis using assms(5) by (simp add: insert_absorb)
next
  case False
  then have n: "gm_get (sv_recording w) room = None" by blast
  have "int (gm_len (sv_recording w) + card (insert room P)) \<le> sv_max w"
  proof (rule ccontr)
    assume "\<not> ?thesis"
    then show False using assms(1) n by (simp add: validateStart_def GetStatus_def split: if_splits)
  qed
  moreover have "card (dom (gm_get (sv_recording w)) \<union> insert room P) \<le> gm_len (sv_recording w) + card (insert room P)"
    using card_Un_le [of "dom (gm_get (sv_recording w))" "insert room P"] by (simp add: gm.len_card [OF assms(2)])
  ultimately show ?thesis by linarith
qed

lemma commit_confirm_service:
  "sv_max (commit_confirm mode room now d w) = sv_max w"
  "gm_ok (sv_recording w) \<Longrightarrow> gm_ok (sv_recording (commit_confirm mode room now d w))"
  "dom (gm_get (sv_recording (commit_confirm mode room now d w))) \<subseteq> insert room (dom (gm_get (sv_recording w)))"
  by (auto simp: commit_confirm_def Let_def split: startMode.splits if_splits)

lemma rec_Stop_service:
  assumes "rec_Stop room w = (b, w')"
  shows "sv_max w' = sv_max w" "gm_ok (sv_recording w) \<Longrightarrow> gm_ok (sv_recording w')"
    "dom (gm_get (sv_recording w')) \<subseteq> dom (gm_get (sv_recording w))"
  using assms by (auto simp: rec_Stop_def split: option.splits if_splits)

lemma recover_enter_service:
  "recover_enter room w = (r, w') \<Longrightarrow> sv_max w' = sv_max w \<and> sv_recording w' = sv_recording w"
  by (auto simp: recover_enter_def split: option.splits if_splits)

lemma cap_inv_service:
  assumes "cap_inv m s" and "sv_max w = sv_max (rs_service s)" and "gm_ok (sv_recording w)"
    and "dom (gm_get (sv_recording w)) \<subseteq> dom (gm_get (sv_recording (rs_service s)))"
    and "rs_store s' = (rs_pending s, w)" and "rs_starts s' = rs_starts s"
  shows "cap_inv m s'"
proof -
  have "occupied s' \<subseteq> occupied s" using assms(4,5) by (auto simp: occupied_def)
  moreover have "finite (occupied s)" using assms(1) gm.fin by (auto simp: occupied_def cap_inv_def)
  ultimately have "card (occupied s') \<le> card (occupied s)" by (rule card_mono [rotated])
  then show ?thesis using assms by (simp add: cap_inv_def)
qed

text \<open>Leaving: the room goes back, and after a confirmation it is recorded.\<close>

lemma cap_inv_leave:
  assumes inv: "cap_inv m s" and k: "k < length (rs_starts s)" "active (rs_starts s ! k)"
    and c: "sc_phase c \<in> {Confirmed, Ended}"
    and w: "sv_max w = sv_max (rs_service s)" "gm_ok (sv_recording w)"
      "dom (gm_get (sv_recording w)) \<subseteq> insert (sc_room (rs_starts s ! k)) (dom (gm_get (sv_recording (rs_service s))))"
    and s': "rs_store s' = (rs_pending s - {sc_room (rs_starts s ! k)}, w)" "rs_starts s' = (rs_starts s)[k := c]"
  shows "cap_inv m s'"
proof -
  have "rs_starts s ! k \<in> set (rs_starts s)" using k(1) by simp
  then have "sc_room (rs_starts s ! k) \<in> rs_pending s"
    using inv k(2) unfolding cap_inv_def calls_ok_def call_ok_def by blast
  then have "occupied s' \<subseteq> occupied s" using w(3) s'(1) by (auto simp: occupied_def)
  moreover have "finite (occupied s)" using inv gm.fin by (auto simp: occupied_def cap_inv_def)
  ultimately have "card (occupied s') \<le> card (occupied s)" by (rule card_mono [rotated])
  then show ?thesis
    using inv w s' calls_ok_leave [of "rs_pending s" "rs_starts s" k c] k c by (simp add: cap_inv_def)
qed

lemma active_txn:
  assumes "cap_inv m s" and "k < length (rs_starts s)" and "active (rs_starts s ! k)"
  shows "tx_reserved (sc_txn (rs_starts s ! k))" "\<not> tx_closed (sc_txn (rs_starts s ! k))"
  using assms nth_mem [OF assms(2)] unfolding cap_inv_def calls_ok_def call_ok_def by blast+

lemma settle_active:
  assumes "cap_inv m s" and "k < length (rs_starts s)" and "active (rs_starts s ! k)"
  shows "pending_settle (sc_room (rs_starts s ! k)) f (sc_txn (rs_starts s ! k)) (rs_store s) =
    ((sc_txn (rs_starts s ! k))\<lparr>tx_reserved := False, tx_closed := True\<rparr>,
     (rs_pending s - {sc_room (rs_starts s ! k)}, f (rs_service s)))"
  using active_txn [OF assms] by (simp add: pending_settle_def)

lemma cap_inv_starts:
  "cap_inv m s \<Longrightarrow> rs_store s' = rs_store s \<Longrightarrow> calls_ok (rs_pending s) (rs_starts s') \<Longrightarrow> cap_inv m s'"
  by (simp add: cap_inv_def occupied_def)

lemma rec_step_cap:
  assumes "rec_step s s'" and inv: "cap_inv m s"
  shows "cap_inv m s'"
  using assms(1)
proof (cases rule: rec_step.cases)
  case (Ask room)
  then show ?thesis
    using inv by (intro cap_inv_starts [OF inv]) (simp_all add: new_start_def cap_inv_def calls_ok_new)
next
  case (Reserve k c err t store)
  obtain P w where st: "rs_store s = (P, w)" by (cases "rs_store s")
  obtain P' w' where store: "store = (P', w')" by (cases store)
  let ?c = "c\<lparr>sc_phase := (if err = None then Connecting else Ended), sc_txn := t\<rparr>"
  have co: "calls_ok P (rs_starts s)" using inv st by (simp add: cap_inv_def)
  have tb: "sc_txn c = Begin"
    using co Reserve(2,3,4) nth_mem [OF Reserve(2)] unfolding calls_ok_def call_ok_def by blast
  show ?thesis
  proof (cases rule: start_reserve_cases [OF Reserve(5) [unfolded st store]])
    case 1
    have "calls_ok P ((rs_starts s)[k := ?c])"
      by (rule calls_ok_move [OF co Reserve(2)]) (use 1 in \<open>auto simp: call_ok_def active_def\<close>)
    then show ?thesis
      using 1 st store by (intro cap_inv_starts [OF inv]) (auto simp: Reserve(1) set_start_def)
  next
    case 2
    have card: "card (dom (gm_get (sv_recording w)) \<union> insert (sc_room c) P) \<le> nat (sv_max w)"
      using validate_room [OF 2(7) _ _ 2(4)] inv st by (simp add: cap_inv_def occupied_def)
    have "calls_ok (insert (sc_room ?c) P) ((rs_starts s)[k := ?c])"
      by (rule calls_ok_reserve [OF co Reserve(2)]) (use 2 Reserve(3,4) tb in \<open>simp_all add: Begin_def\<close>)
    then show ?thesis
      using inv card 2 st store by (simp add: Reserve(1) set_start_def cap_inv_def occupied_def)
  qed
next
  case (ConnectFailed k c ans e t store)
  then have a: "active (rs_starts s ! k)" by (simp add: active_def)
  show ?thesis
    using ConnectFailed settle_active [OF inv ConnectFailed(2) a, of "\<lambda>w. w"] inv
    by (intro cap_inv_leave [OF inv ConnectFailed(2) a, of "c\<lparr>sc_phase := Ended, sc_txn := t\<rparr>" "rs_service s"])
       (auto simp: set_start_def pending_AbortWith_def cap_inv_def)
next
  case (NotReady k c cancelled t store)
  then have a: "active (rs_starts s ! k)" by (simp add: active_def)
  show ?thesis
    using NotReady settle_active [OF inv NotReady(2) a, of "\<lambda>w. w"] inv
    by (intro cap_inv_leave [OF inv NotReady(2) a, of "c\<lparr>sc_phase := Ended, sc_txn := t\<rparr>" "rs_service s"])
       (auto simp: set_start_def pending_AbortWith_def cap_inv_def)
next
  case (Ready k c ans idx)
  then have a: "active (rs_starts s ! k)" by (simp add: active_def)
  have co: "calls_ok (rs_pending s) (rs_starts s)" using inv by (simp add: cap_inv_def)
  have "call_ok (rs_pending s) (rs_starts s ! k)" using co nth_mem [OF Ready(2)] by (simp add: calls_ok_def)
  then have "calls_ok (rs_pending s) ((rs_starts s)[k := c\<lparr>sc_phase := Connected\<rparr>])"
    using a Ready(3,4) by (intro calls_ok_move [OF co Ready(2)]) (simp_all add: call_ok_def active_def)
  then show ?thesis by (intro cap_inv_starts [OF inv]) (simp_all add: Ready(1) set_start_def)
next
  case (Confirm k c now d t store)
  then have a: "active (rs_starts s ! k)" by (simp add: active_def)
  let ?w = "commit_confirm (sc_mode c) (sc_room c) now d (rs_service s)"
  have ok: "gm_ok (sv_recording (rs_service s))" using inv by (simp add: cap_inv_def)
  have e: "t = (sc_txn c)\<lparr>tx_reserved := False, tx_closed := True\<rparr>" "store = (rs_pending s - {sc_room c}, ?w)"
    using Confirm(5) settle_active [OF inv Confirm(2) a] unfolding pending_ConfirmWith_def Confirm(3) by simp_all
  show ?thesis
    by (rule cap_inv_leave [OF inv Confirm(2) a, of "c\<lparr>sc_phase := Confirmed, sc_txn := t\<rparr>" ?w])
       (use commit_confirm_service(2) [OF ok] commit_confirm_service(3) in
        \<open>simp_all add: Confirm(1) set_start_def e commit_confirm_service(1) Confirm(3) [symmetric]\<close>)
next
  case (Prepare k c i)
  have co: "calls_ok (rs_pending s) (rs_starts s)" using inv by (simp add: cap_inv_def)
  have "calls_ok (rs_pending s) ((rs_starts s)[k := c\<lparr>sc_phase := Ended\<rparr>])"
    by (rule calls_ok_move [OF co Prepare(2)]) (simp_all add: call_ok_def active_def)
  then show ?thesis by (intro cap_inv_starts [OF inv]) (simp_all add: Prepare(1) set_start_def)
next
  case (PrepareFailed k c e)
  have co: "calls_ok (rs_pending s) (rs_starts s)" using inv by (simp add: cap_inv_def)
  have "calls_ok (rs_pending s) ((rs_starts s)[k := c\<lparr>sc_phase := Ended\<rparr>])"
    by (rule calls_ok_move [OF co PrepareFailed(2)]) (simp_all add: call_ok_def active_def)
  then show ?thesis by (intro cap_inv_starts [OF inv]) (simp_all add: PrepareFailed(1) set_start_def)
next
  case (WorkerEnds room i found w)
  have "sv_max w = sv_max (rs_service s)" "sv_recording w = sv_recording (rs_service s)"
    using recover_enter_service [OF WorkerEnds(3)] by simp_all
  then show ?thesis
    using inv by (intro cap_inv_service [OF inv, of w]) (simp_all add: WorkerEnds(1) cap_inv_def)
next
  case (Retry room i cur)
  then show ?thesis
    using inv by (intro cap_inv_starts [OF inv]) (simp_all add: new_start_def cap_inv_def calls_ok_new)
next
  case (LeaveLoop room i cur)
  then show ?thesis using inv by (intro cap_inv_starts [OF inv]) (simp_all add: cap_inv_def)
next
  case (GiveUpLoop room i cur b w)
  have ok: "gm_ok (sv_recording (rs_service s))" using inv by (simp add: cap_inv_def)
  show ?thesis
    using rec_Stop_service [OF GiveUpLoop(4)] ok by (intro cap_inv_service [OF inv, of w]) (simp_all add: GiveUpLoop(1))
next
  case (StopRoom room b w)
  have ok: "gm_ok (sv_recording (rs_service s))" using inv by (simp add: cap_inv_def)
  show ?thesis
    using rec_Stop_service [OF StopRoom(2)] ok by (intro cap_inv_service [OF inv, of w]) (simp_all add: StopRoom(1))
qed

text \<open>C17. The configured limit holds whatever the interleaving: at any time the rooms recorded,
  recovering or being started are at most \<open>MaxConcurrentRecordings\<close>, and every start in flight holds
  its own room.\<close>

theorem recordings_within_limit:
  assumes "rec_reachable m reset s"
  shows "card (dom (gm_get (sv_recording (rs_service s))) \<union> rs_pending s) \<le> nat m \<and>
    calls_ok (rs_pending s) (rs_starts s)"
proof -
  have "cap_inv m s"
    using assms
  proof induction
    case Init
    then show ?case by (simp add: cap_inv_def NewService_def occupied_def calls_ok_def dom_def)
  next
    case (Step s s')
    then show ?case using rec_step_cap by blast
  qed
  then show ?thesis by (simp add: cap_inv_def occupied_def)
qed

section \<open>A run of a whole start\<close>

definition live_answers :: start_answers where
  "live_answers = \<lparr>sa_cancelled = False, sa_disk = True, sa_room = Inr \<lparr>lr_IsEncrypted = False, lr_LockStatus = 0, lr_LiveStatus = 1\<rparr>,
     sa_streams = Inr [(False, ''flv'', StreamOpened)]\<rparr>"

lemma live_connects: "start_connect live_answers = Inr 0"
  by code_simp

text \<open>A call that nobody disturbs goes through.\<close>

lemma whole_call:
  assumes reach: "rec_reachable m b s" and cs: "rs_starts s = cs @ [\<lparr>sc_room = room, sc_mode = mode, sc_phase = Asked, sc_txn = Begin\<rparr>]"
    and store: "rs_store s = ({}, w)"
    and valid: "validateStart room {room} w = None"
    and ready: "sessionReadyForConfirm mode False room w"
    and res: "commit_result mode room (commit_confirm mode room now d w) = Inr i"
  shows "\<exists>c. rec_reachable m b
    (s\<lparr>rs_store := ({}, commit_confirm mode room now d w), rs_starts := cs @ [c],
      rs_workers := rs_workers s @ [(room, i)],
      rs_recoverers := filter (\<lambda>(_, _, cur). cur \<noteq> Some (length cs)) (rs_recoverers s)\<rparr>) \<and> sc_phase c = Ended"
proof -
  define c0 where "c0 = \<lparr>sc_room = room, sc_mode = mode, sc_phase = Asked, sc_txn = Begin\<rparr>"
  define c1 where "c1 = c0\<lparr>sc_phase := Connecting, sc_txn := Begin\<lparr>tx_reserved := True\<rparr>\<rparr>"
  define c2 where "c2 = c1\<lparr>sc_phase := Connected\<rparr>"
  define c3 where "c3 = c2\<lparr>sc_phase := Confirmed, sc_txn := \<lparr>tx_reserved = False, tx_closed = True\<rparr>\<rparr>"
  define s1 where "s1 = s\<lparr>rs_store := ({room}, w), rs_starts := cs @ [c1]\<rparr>"
  define s2 where "s2 = s\<lparr>rs_store := ({room}, w), rs_starts := cs @ [c2]\<rparr>"
  define s3 where "s3 = s\<lparr>rs_store := ({}, commit_confirm mode room now d w), rs_starts := cs @ [c3]\<rparr>"
  note cdefs = c0_def c1_def c2_def c3_def Begin_def
  have "rec_step s s1"
    using rec_step.Reserve [of "length cs" s c0 None "Begin\<lparr>tx_reserved := True\<rparr>" "({room}, w)"] valid
    by (simp add: cs store cdefs s1_def set_start_def start_reserve_def pending_Reserve_def)
  then have r1: "rec_reachable m b s1" by (rule rec_reachable.Step [OF reach])
  have "rec_step s1 s2"
    using rec_step.Ready [of "length cs" s1 c1 live_answers 0] ready
    by (simp add: cdefs s1_def s2_def set_start_def live_connects)
  then have r2: "rec_reachable m b s2" by (rule rec_reachable.Step [OF r1])
  have "rec_step s2 s3"
    using rec_step.Confirm [of "length cs" s2 c2 now d "\<lparr>tx_reserved = False, tx_closed = True\<rparr>" "({}, commit_confirm mode room now d w)"]
    by (simp add: cdefs s2_def s3_def set_start_def pending_ConfirmWith_def pending_settle_def)
  then have r3: "rec_reachable m b s3" by (rule rec_reachable.Step [OF r2])
  show ?thesis
    using rec_reachable.Step [OF r3 rec_step.Prepare [of "length cs" s3 c3 i]] res
    by (intro exI [of _ "c3\<lparr>sc_phase := Ended\<rparr>"]) (simp add: cdefs s3_def set_start_def)
qed

lemma user_start:
  assumes "rec_reachable m b s" and "rs_store s = ({}, w)" and "gm_get (sv_recording w) room = None"
    and "int (gm_len (sv_recording w)) < sv_max w" and "rs_recoverers s = []"
  shows "\<exists>cs. rec_reachable m b
    (s\<lparr>rs_store := ({}, commit_confirm startModeUser room now d w), rs_starts := cs,
      rs_workers := rs_workers s @ [(room, length (sv_infos w))]\<rparr>)"
proof -
  have "rec_step s (new_start room startModeUser s)"
    using assms by (intro rec_step.Ask) (simp add: start_precheck_def GetStatus_def)
  then have r: "rec_reachable m b (new_start room startModeUser s)" by (rule rec_reachable.Step [OF assms(1)])
  obtain c where c: "rec_reachable m b
      ((new_start room startModeUser s)\<lparr>rs_store := ({}, commit_confirm startModeUser room now d w), rs_starts := rs_starts s @ [c],
        rs_workers := rs_workers (new_start room startModeUser s) @ [(room, length (sv_infos w))],
        rs_recoverers := filter (\<lambda>(_, _, cur). cur \<noteq> Some (length (rs_starts s))) (rs_recoverers (new_start room startModeUser s))\<rparr>)"
    using whole_call [OF r, of "rs_starts s" room startModeUser w now d "length (sv_infos w)"] assms
    by (auto simp: new_start_def validateStart_def GetStatus_def sessionReadyForConfirm_def commit_result_def commit_confirm_def)
  show ?thesis
    by (rule exI [of _ "rs_starts s @ [c]"]) (use c assms(5) in \<open>cases s; simp add: new_start_def\<close>)
qed


theorem recordings_within_limit_witness:
  "card (dom (gm_get (sv_recording (rs_service (new_start 5 startModeUser (NewService 1 False))))) \<union>
    rs_pending (new_start 5 startModeUser (NewService 1 False))) \<le> nat 1"
proof -
  have "rec_step (NewService 1 False) (new_start 5 startModeUser (NewService 1 False))"
    by (rule rec_step.Ask) (simp add: start_precheck_def GetStatus_def NewService_def)
  from recordings_within_limit [OF rec_reachable.Step [OF rec_reachable.Init this]] show ?thesis by blast
qed

section \<open>The recovery loop\<close>

text \<open>The errors that are neither final nor a stream that is not live.\<close>

definition transient :: "rec_error \<Rightarrow> bool" where
  "transient e \<longleftrightarrow> e \<notin> {ErrMaxConcurrentRecordingsReached, ErrRoomEncrypted, ErrRoomBanned, ErrContextCanceled, ErrStreamNotLive}"

lemma decide_transient:
  "transient e \<Longrightarrow> recover_decide cfg n el False (Some e) =
    (if n \<ge> rc_MaxRecoveryAttempts cfg then GiveUp ReasonMaxAttempts else Sleep)"
  by (cases e) (simp_all add: recover_decide_def transient_def)

lemma decide_offline:
  "recover_decide cfg n el False (Some ErrStreamNotLive) =
    (if el \<ge> rc_MaxRetryMinutes cfg * 60000000000 then GiveUp ReasonNotLiveTimeout else Sleep)"
  by (simp add: recover_decide_def)

lemma seq_Next_some:
  assumes "sq_delays bo \<noteq> []"
  obtains d bo' where "seq_Next bo = Some (d, bo')" "sq_delays bo' = sq_delays bo" "d \<in> set (sq_delays bo)"
proof (cases "sq_index bo \<ge> length (sq_delays bo)")
  case True
  then show ?thesis
    using assms by (intro that [of "sq_delays bo ! (length (sq_delays bo) - 1)" bo]) (simp_all add: seq_Next_def)
next
  case False
  then show ?thesis
    by (intro that [of "sq_delays bo ! sq_index bo" "bo\<lparr>sq_index := sq_index bo + 1\<rparr>"]) (simp_all add: seq_Next_def)
qed

lemma loop_transient:
  assumes "sq_delays bo \<noteq> []" and "n \<le> rc_MaxRecoveryAttempts cfg"
    and "rc_MaxRecoveryAttempts cfg - n < int (length atts)"
    and "list_all (\<lambda>(cancelled, el, gone, err, stopped). \<not> cancelled \<and> \<not> gone \<and> \<not> stopped \<and> (\<exists>e. err = Some e \<and> transient e)) atts"
  shows "\<exists>ds. recover_loop cfg n bo atts = Some (GiveUp ReasonMaxAttempts, rc_MaxRecoveryAttempts cfg, ds) \<and>
    int (length ds) = rc_MaxRecoveryAttempts cfg - n \<and> set ds \<subseteq> set (sq_delays bo)"
  using assms
proof (induction atts arbitrary: n bo)
  case (Cons a atts)
  obtain el e where a: "a = (False, el, False, Some e, False)" "transient e"
    using Cons.prems(4) by auto
  show ?case
  proof (cases "n = rc_MaxRecoveryAttempts cfg")
    case True
    then show ?thesis by (simp add: a decide_transient)
  next
    case False
    obtain d bo' where d: "seq_Next bo = Some (d, bo')" "sq_delays bo' = sq_delays bo" "d \<in> set (sq_delays bo)"
      using seq_Next_some [OF Cons.prems(1)] .
    obtain ds where "recover_loop cfg (n + 1) bo' atts = Some (GiveUp ReasonMaxAttempts, rc_MaxRecoveryAttempts cfg, ds)"
        "int (length ds) = rc_MaxRecoveryAttempts cfg - (n + 1)" "set ds \<subseteq> set (sq_delays bo')"
      using Cons.IH [of bo' "n + 1"] Cons.prems False d by auto
    then show ?thesis using False Cons.prems(2) a d by (simp add: decide_transient)
  qed
qed simp



lemma loop_offline:
  assumes "sq_delays bo \<noteq> []" and "el < rc_MaxRetryMinutes cfg * 60000000000" and "transient e"
    and "rc_MaxRecoveryAttempts cfg \<le> n + int k"
  shows "\<exists>ds. recover_loop cfg n bo (replicate k (False, el, False, Some ErrStreamNotLive, False) @ [(False, el', False, Some e, False)]) =
    Some (GiveUp ReasonMaxAttempts, n + int k, ds)"
  using assms
proof (induction k arbitrary: n bo)
  case 0
  then show ?case by (simp add: decide_transient)
next
  case (Suc k)
  obtain d bo' where d: "seq_Next bo = Some (d, bo')" "sq_delays bo' = sq_delays bo"
    using seq_Next_some [OF Suc.prems(1)] .
  obtain ds where "recover_loop cfg (n + 1) bo' (replicate k (False, el, False, Some ErrStreamNotLive, False) @ [(False, el', False, Some e, False)]) =
      Some (GiveUp ReasonMaxAttempts, n + 1 + int k, ds)"
    using Suc.IH [of bo' "n + 1"] Suc.prems d by auto
  then show ?case using Suc.prems(2) d by (simp add: decide_offline add.assoc)
qed

text \<open>Waiting for a stream that is offline uses up the attempts: once the room was found offline
  \<open>MaxRecoveryAttempts\<close> - 1 times, well within the retry minutes, the first error of any other kind
  ends the recording.\<close>

lemma offline_retries_use_up_attempts:
  assumes "rc_MaxRecoveryAttempts cfg \<le> int k + 1" and "el < rc_MaxRetryMinutes cfg * 60000000000" and "transient e"
  shows "\<exists>ds. recover_loop cfg 1 session_backoff
      (replicate k (False, el, False, Some ErrStreamNotLive, False) @ [(False, el', False, Some e, False)]) =
    Some (GiveUp ReasonMaxAttempts, int k + 1, ds)"
  using loop_offline [of session_backoff el cfg e 1 k el'] assms
  by (simp add: session_backoff_def NewSequence_def add.commute)

lemma offline_retries_use_up_attempts_witness:
  "\<exists>ds. recover_loop \<lparr>rc_MaxRetryMinutes = 30, rc_MaxRecoveryAttempts = 5\<rparr> 1 session_backoff
      (replicate 9 (False, 0, False, Some ErrStreamNotLive, False) @ [(False, 0, False, Some ErrLiveAPI, False)]) =
    Some (GiveUp ReasonMaxAttempts, int 9 + 1, ds)"
  by (rule offline_retries_use_up_attempts) (simp_all add: transient_def)

section \<open>The files of a session\<close>

text \<open>The file times of a session that is recovered at the given moments.\<close>

fun file_times :: "int \<Rightarrow> int list \<Rightarrow> int list" where
  "file_times t [] = [t]"
| "file_times t (now # nows) = t # file_times (nextFileTime t now) nows"

lemma truncate_truncate [simp]: "truncate_second (truncate_second t) = truncate_second t"
  by (simp add: truncate_second_def mod_diff_eq)

lemma truncate_add_second: "truncate_second (truncate_second t + 1000000000) = truncate_second t + 1000000000"
  by (simp add: truncate_second_def mod_diff_eq [symmetric] algebra_simps)

lemma nextFileTime_later: "truncate_second prev < truncate_second (nextFileTime prev now)"
  by (auto simp: nextFileTime_def Let_def truncate_add_second)

lemma file_times_later: "u \<in> set (file_times t nows) \<Longrightarrow> truncate_second t \<le> truncate_second u"
proof (induction nows arbitrary: t)
  case (Cons now nows)
  then show ?case using nextFileTime_later [of t now] by force
qed simp

lemma file_times_sorted: "sorted_wrt (\<lambda>t u. truncate_second t < truncate_second u) (file_times t nows)"
proof (induction nows arbitrary: t)
  case (Cons now nows)
  have "truncate_second t < truncate_second u" if "u \<in> set (file_times (nextFileTime t now) nows)" for u
    using nextFileTime_later [of t now] file_times_later [OF that] by linarith
  then show ?case using Cons.IH by simp
qed simp

text \<open>A session never writes over its own files: whatever the moments of its recoveries, the clock
  going backwards included, and whatever the titles, two files of one session share a path only when
  they are the same segment of the same recovery, as long as the formatted time tells seconds apart.\<close>

lemma session_files_distinct:
  fixes stamp :: "int \<Rightarrow> string" and t :: int and nows :: "int list"
  defines "ts \<equiv> file_times t nows"
  assumes "\<And>u. u \<in> set ts \<Longrightarrow> is_stamp (stamp u)"
    and "\<And>u v. u \<in> set ts \<Longrightarrow> v \<in> set ts \<Longrightarrow> stamp u = stamp v \<Longrightarrow> truncate_second u = truncate_second v"
    and "i < length ts" and "j < length ts" and "m < 2 ^ 63" and "n < 2 ^ 63"
    and "ext \<in> set recordingMediaExtensions" and "ext' \<in> set recordingMediaExtensions"
    and "rotateFilePath out uname room title (stamp (ts ! i)) m ext = rotateFilePath out uname' room title' (stamp (ts ! j)) n ext'"
  shows "i = j \<and> m = n"
proof -
  note parse = recording_name_roundtrip
  have "ts ! i \<in> set ts" "ts ! j \<in> set ts" using assms(4,5) by simp_all
  then have e: "stamp (ts ! i) = stamp (ts ! j)" "m = n"
    using parse [OF assms(2) assms(8,6), of "ts ! i" out uname room title]
      parse [OF assms(2) assms(9,7), of "ts ! j" out uname' room title'] assms(10) by simp_all
  then have eq: "truncate_second (ts ! i) = truncate_second (ts ! j)"
    using assms(3) \<open>ts ! i \<in> set ts\<close> \<open>ts ! j \<in> set ts\<close> by blast
  have lt: "truncate_second (ts ! a) < truncate_second (ts ! b)" if "a < b" "b < length ts" for a b
    using file_times_sorted [of t nows] that unfolding ts_def sorted_wrt_iff_nth_less by simp
  have "i = j" using lt [of i j] lt [of j i] eq assms(4,5) by (cases i j rule: linorder_cases) auto
  then show ?thesis using e by simp
qed

definition demo_stamp :: "int \<Rightarrow> string" where
  "demo_stamp u = (if u = 0 then ''20260101_000000'' else ''20260101_000001'')"

lemma session_files_distinct_witness:
  "rotateFilePath ''/r'' ''u'' 7 ''a'' (demo_stamp (file_times 0 [0] ! 0)) 0 ''.flv'' \<noteq>
   rotateFilePath ''/r'' ''u'' 7 ''a'' (demo_stamp (file_times 0 [0] ! 1)) 0 ''.flv''"
proof
  assume e: "rotateFilePath ''/r'' ''u'' 7 ''a'' (demo_stamp (file_times 0 [0] ! 0)) 0 ''.flv'' =
    rotateFilePath ''/r'' ''u'' 7 ''a'' (demo_stamp (file_times 0 [0] ! 1)) 0 ''.flv''"
  have n: "nextFileTime 0 0 = 1000000000" by code_simp
  have "(0::nat) = 1 \<and> (0::nat) = 0"
  proof (rule session_files_distinct [OF _ _ _ _ _ _ _ _ e])
    show "is_stamp (demo_stamp u)" for u by (simp add: demo_stamp_def is_stamp_def is_digit_def)
    show "truncate_second u = truncate_second v"
      if "u \<in> set (file_times 0 [0])" "v \<in> set (file_times 0 [0])" "demo_stamp u = demo_stamp v" for u v
      using that by (auto simp: n demo_stamp_def)
  qed (simp_all add: n recordingMediaExtensions_def)
  then show False by simp
qed

end
