(* ===== verification/RecorderQueries.thy ===== *)
theory RecorderQueries
  imports Recorder
begin

text \<open>
  The rest of the recorder: the playlist URL that a HLS recording refreshes
  (\<open>start_internal.go\<close>), the limit on the duration and the finishing of a file (\<open>recorder.go\<close>), and
  the queries about files being written (\<open>stats.go\<close>).
\<close>

section \<open>Refreshing the playlist URL\<close>

record StreamURLInfo =
  su_URL :: string
  su_Protocol :: string
  su_Format :: string
  su_Codec :: string

text \<open>Working off the candidates that satisfy a condition, until one resolves.\<close>

fun first_resolved :: "(StreamURLInfo \<Rightarrow> string option) \<Rightarrow> (StreamURLInfo \<Rightarrow> bool) \<Rightarrow> StreamURLInfo list \<Rightarrow> string option" where
  "first_resolved resolve P [] = None"
| "first_resolved resolve P (c # cs) =
    (if \<not> P c then first_resolved resolve P cs
     else case resolve c of Some u \<Rightarrow> Some u | None \<Rightarrow> first_resolved resolve P cs)"

definition same_variant :: "StreamURLInfo \<Rightarrow> StreamURLInfo \<Rightarrow> bool" where
  "same_variant si c \<longleftrightarrow> su_Format c = su_Format si \<and> su_Protocol c = su_Protocol si \<and> su_Codec c = su_Codec si"

text \<open>\<open>fetchM3u8URL\<close> with the URL of the start still to be used, the answer of the API and the outcome
  of the request for each candidate; the empty string is no URL.\<close>

definition fetchM3u8URL :: "StreamURLInfo \<Rightarrow> rec_error + StreamURLInfo list \<Rightarrow> (StreamURLInfo \<Rightarrow> string option) \<Rightarrow> string \<Rightarrow>
    (rec_error + string) \<times> string" where
  "fetchM3u8URL streamInfo latest resolve initialURL =
    (if initialURL \<noteq> [] then (Inr initialURL, [])
     else case latest of
       Inl e \<Rightarrow> (Inl e, initialURL)
     | Inr cs \<Rightarrow>
        (case first_resolved resolve (same_variant streamInfo) cs of
           Some u \<Rightarrow> (Inr u, initialURL)
         | None \<Rightarrow>
            (case first_resolved resolve (\<lambda>c. su_Format c = su_Format streamInfo) cs of
               Some u \<Rightarrow> (Inr u, initialURL)
             | None \<Rightarrow> (Inr [], initialURL))))"

lemma first_resolved_Some:
  "first_resolved resolve P cs = Some u \<Longrightarrow> \<exists>c \<in> set cs. P c \<and> resolve c = Some u"
  by (induction cs) (auto split: if_splits option.splits)

lemma first_resolved_None: "first_resolved resolve P cs = None \<longleftrightarrow> (\<forall>c \<in> set cs. P c \<longrightarrow> resolve c = None)"
  by (induction cs) (auto split: option.splits)

text \<open>A refreshed playlist keeps the container of the recording: after the first call, which returns
  the URL the recording was started with, the URL is one of a candidate with the same format, with
  the same protocol and codec too if any such candidate answers, and it is empty only if none does.\<close>

lemma refreshed_url_same_format:
  "fetchM3u8URL si latest resolve (ch # url) = (Inr (ch # url), []) \<and>
   (case fetchM3u8URL si (Inr cs) resolve [] of
      (Inl e, rest) \<Rightarrow> False
    | (Inr u, rest) \<Rightarrow> rest = [] \<and>
       (if \<exists>c \<in> set cs. same_variant si c \<and> resolve c \<noteq> None
        then \<exists>c \<in> set cs. same_variant si c \<and> resolve c = Some u
        else if \<exists>c \<in> set cs. su_Format c = su_Format si \<and> resolve c \<noteq> None
        then \<exists>c \<in> set cs. su_Format c = su_Format si \<and> resolve c = Some u
        else u = []))"
proof (intro conjI)
  let ?P = "same_variant si"
  let ?Q = "\<lambda>c. su_Format c = su_Format si"
  show "fetchM3u8URL si latest resolve (ch # url) = (Inr (ch # url), [])" by (simp add: fetchM3u8URL_def)
  show "case fetchM3u8URL si (Inr cs) resolve [] of
      (Inl e, rest) \<Rightarrow> False
    | (Inr u, rest) \<Rightarrow> rest = [] \<and>
       (if \<exists>c \<in> set cs. ?P c \<and> resolve c \<noteq> None then \<exists>c \<in> set cs. ?P c \<and> resolve c = Some u
        else if \<exists>c \<in> set cs. ?Q c \<and> resolve c \<noteq> None then \<exists>c \<in> set cs. ?Q c \<and> resolve c = Some u
        else u = [])"
  proof (cases "first_resolved resolve ?P cs")
    case (Some u)
    then have r: "fetchM3u8URL si (Inr cs) resolve [] = (Inr u, [])" by (simp add: fetchM3u8URL_def)
    show ?thesis using first_resolved_Some [OF Some] unfolding r by auto
  next
    case P: None
    show ?thesis
    proof (cases "first_resolved resolve ?Q cs")
      case (Some u)
      then have r: "fetchM3u8URL si (Inr cs) resolve [] = (Inr u, [])" using P by (simp add: fetchM3u8URL_def)
      show ?thesis using first_resolved_Some [OF Some] P unfolding r first_resolved_None by auto
    next
      case None
      then have r: "fetchM3u8URL si (Inr cs) resolve [] = (Inr [], [])" using P by (simp add: fetchM3u8URL_def)
      show ?thesis using P None unfolding r first_resolved_None by auto
    qed
  qed
qed

section \<open>The limit on the duration\<close>

text \<open>One tick of \<open>checkRecordingDurationPeriodically\<close>: whether the check goes on, and the service;
  a limit of 0 means none.\<close>

definition duration_limit :: "bool \<Rightarrow> int \<Rightarrow> int \<Rightarrow> int" where
  "duration_limit hasDuration duration maxHours = (if hasDuration then duration else maxHours * 3600000000000)"

definition duration_tick :: "nat \<Rightarrow> int \<Rightarrow> int \<Rightarrow> Service \<Rightarrow> bool \<times> Service" where
  "duration_tick room now maxDuration w =
    (if maxDuration = 0 then (False, w)
     else case gm_get (sv_recording w) room of
       None \<Rightarrow> (False, w)
     | Some i \<Rightarrow>
        if now - inf_startTime (sv_infos w ! i) \<ge> maxDuration then (False, snd (rec_Stop room w)) else (True, w))"

lemma duration_tick_stops:
  "gm_get (sv_recording w) room = Some i \<Longrightarrow> maxDuration \<noteq> 0 \<Longrightarrow>
    maxDuration \<le> now - inf_startTime (sv_infos w ! i) \<Longrightarrow> GetStatus (snd (duration_tick room now maxDuration w)) room = Idle"
  by (simp add: duration_tick_def rec_Stop_def GetStatus_def)

section \<open>Finishing a file\<close>

datatype file_stat = StatOk | StatMissing | StatFailed

datatype finalized = SegmentDiscarded | SegmentStatError | FileClosed | LeftUnconverted | EnqueueFor string

record finalize_config =
  fc_ConvertToMp4 :: bool
  fc_stopping :: bool

text \<open>\<open>finalize\<close>: what becomes of the file, and the files being written. The path is taken from the
  set when the function returns.\<close>

definition finalize :: "finalize_config \<Rightarrow> string \<Rightarrow> file_stat \<Rightarrow> bool \<Rightarrow> string set \<Rightarrow> finalized option \<times> string set" where
  "finalize cfg outputPath stat audioOnly writing =
    (if outputPath = [] then (None, writing)
     else
       (Some (case stat of
          StatMissing \<Rightarrow> SegmentDiscarded
        | StatFailed \<Rightarrow> SegmentStatError
        | StatOk \<Rightarrow>
           if \<not> fc_ConvertToMp4 cfg then FileClosed
           else if Ext outputPath = ''.mp4'' then FileClosed
           else if fc_stopping cfg then LeftUnconverted
           else EnqueueFor (if audioOnly then ''m4a'' else ''mp4'')),
        writing - {Base outputPath}))"

section \<open>Which files are being written\<close>

definition isDanmakuSidecarExt :: "string \<Rightarrow> bool" where
  "isDanmakuSidecarExt ext \<longleftrightarrow> ToLower ext = ''.jsonl'' \<or> ToLower ext = ''.xml''"

definition recordingFileStem :: "string \<Rightarrow> string" where
  "recordingFileStem name = (let ext = Ext name in if ext = [] then [] else TrimSuffix name ext)"

definition IsRecording :: "string set \<Rightarrow> string \<Rightarrow> bool" where
  "IsRecording writing path =
    (let base = Base path in
     if base \<in> writing then True
     else if \<not> isDanmakuSidecarExt (Ext base) then False
     else
       (let queryStem = recordingFileStem base in
        if queryStem = [] then False else \<exists>active \<in> writing. recordingFileStem active = queryStem))"

lemma Ext_Join:
  assumes "CHR ''/'' \<notin> set n"
  shows "Ext (Join d n) = Ext n"
proof (cases rule: Ext_cases [of n])
  case none
  show ?thesis
  proof (cases "CHR ''.'' \<in> set n")
    case True
    then obtain q e where "n = q @ CHR ''.'' # e" "CHR ''.'' \<notin> set e" by (meson split_list_last)
    then have "Ext n = CHR ''.'' # e" using assms Ext_append [of e q] by simp
    then show ?thesis using none by simp
  next
    case False
    have "takeWhile (\<lambda>c. c \<noteq> CHR ''.'' \<and> c \<noteq> CHR ''/'') (rev (Join d n)) = rev n"
      using False assms by (auto simp: Join_def takeWhile_append takeWhile_eq_all_conv)
    then have "Ext (Join d n) = []" by (simp add: Ext_def Let_def Join_def nth_append)
    then show ?thesis using none by simp
  qed
next
  case (some q e)
  then show ?thesis using Ext_append [of e "d @ ''/'' @ q"] by (simp add: Join_def)
qed

text \<open>The danmaku sidecar of a file being written counts as being written.\<close>

lemma sidecar_is_recording:
  assumes "Base path \<in> writing" and "path = Join d n" and "CHR ''/'' \<notin> set n" and "Ext n \<noteq> []" and "Ext n \<noteq> n"
  shows "IsRecording writing (PathForVideo path ''.jsonl'')"
proof (cases rule: Ext_cases [of n])
  case (some q e)
  have q: "q \<noteq> []" "CHR ''/'' \<notin> set q" using assms(3,5) some by auto
  have ext: "Ext path = CHR ''.'' # e" using Ext_Join [OF assms(3), of d] some assms(2) by simp
  have "path = Join d q @ CHR ''.'' # e" using assms(2) some(1) by (simp add: Join_def)
  then have "TrimSuffix path (CHR ''.'' # e) = Join d q" by simp
  then have "PathForVideo path ''.jsonl'' = Join d (q @ ''.jsonl'')"
    unfolding PathForVideo_def ext by (simp add: HasPrefix_def Join_def)
  moreover have b: "Base (Join d (q @ ''.jsonl'')) = q @ ''.jsonl''" using q(2) by (intro Base_Join) simp_all
  moreover have e1: "Ext (q @ ''.jsonl'') = ''.jsonl''" using Ext_append [of "''jsonl''" q] by simp
  moreover have "recordingFileStem (q @ ''.jsonl'') = q" unfolding recordingFileStem_def e1 by simp
  moreover have "recordingFileStem n = q" unfolding recordingFileStem_def some(4) using some(1) by simp
  moreover have "n \<in> writing" using assms(1-3) some(1) by simp
  moreover have "isDanmakuSidecarExt ''.jsonl''" by code_simp
  ultimately show ?thesis using q(1) by (auto simp: IsRecording_def Let_def)
qed (use assms(4) in simp)

text \<open>The files being written are known by their base names only: when two rooms record streams of
  the same title from the same second on, finishing the file of the one ends the protection of the
  other's, which is still being written.\<close>

lemma finalize_unprotects_namesake:
  assumes "is_stamp stamp" and "ext \<in> set recordingMediaExtensions" and "r1 \<noteq> r2"
    and "p1 = rotateFilePath out uname r1 title stamp seg ext" and "p2 = rotateFilePath out uname r2 title stamp seg ext"
  shows "p1 \<noteq> p2 \<and> Base p2 \<notin> snd (finalize cfg p1 stat audioOnly ({Base p1} \<union> {Base p2}))"
proof -
  have b: "Base (rotateFilePath out uname r title stamp seg ext) = segment_name title stamp seg ext" for r
    unfolding rotateFilePath_def by (rule Base_Join [OF segment_name_no_slash [OF assms(1,2)] segment_name_nonempty])
  have "p1 \<noteq> p2" "p1 \<noteq> []" using assms(3) by (simp_all add: assms(4,5) rotateFilePath_def Join_def room_dir_def)
  moreover have "Base p1 = Base p2" by (simp add: assms(4,5) b)
  ultimately show ?thesis by (simp add: finalize_def)
qed

end
