(* ===== verification/Webhook.thy ===== *)
theory Webhook
  imports GoMap
begin

text \<open>
  The delivery queues of the webhook service (\<open>internal/services/webhook/room_queue.go\<close>). Each room
  has a queue; a flag \<open>scheduled\<close> hands the queue to the worker goroutine, then to the goroutine of
  the delivery, and back. Queues are named by their index in \<open>wh_queues\<close>, so that a room whose queue
  was evicted gets another one. One event of \<open>wh_event\<close> is what a goroutine does under a lock or
  between two of them; an event that is not possible yields \<open>None\<close>. The accepted, begun and finished
  events of a queue are logged in it. Stopping the service is left out.
\<close>

section \<open>Queues\<close>

record 'e roomQueue =
  rq_ch :: "'e list"
  rq_closed :: bool
  rq_scheduled :: bool
  rq_emptySince :: "int option"
  rq_accepted :: "'e list"
  rq_begun :: "'e list"
  rq_done :: "'e list"

definition perRoomQueueCap :: nat where "perRoomQueueCap = 32"
definition pendingWorkCap :: nat where "pendingWorkCap = 64"
definition maxConcurrentDelivers :: nat where "maxConcurrentDelivers = 8"
definition roomIdleEvict :: int where "roomIdleEvict = 30"

definition newRoomQueue :: "'e roomQueue" where
  "newRoomQueue = \<lparr>rq_ch = [], rq_closed = False, rq_scheduled = False, rq_emptySince = None,
     rq_accepted = [], rq_begun = [], rq_done = []\<rparr>"

text \<open>Whether the event was queued, whether to retry, and the queue.\<close>

definition trySend :: "'e \<Rightarrow> 'e roomQueue \<Rightarrow> bool \<times> bool \<times> 'e roomQueue" where
  "trySend body q =
    (if rq_closed q then (False, True, q)
     else if length (rq_ch q) < perRoomQueueCap then
       (True, False, q\<lparr>rq_ch := rq_ch q @ [body], rq_emptySince := None, rq_accepted := rq_accepted q @ [body]\<rparr>)
     else (False, False, q))"

text \<open>The worker: idle, holding a room it took from the pending ones, or holding an event until one of
  the delivery slots is free.\<close>

datatype 'e worker = WIdle | WWork nat nat | WHolds nat nat 'e

record 'e delivery =
  dv_room :: nat
  dv_queue :: nat
  dv_body :: 'e
  dv_released :: bool

record 'e Webhook =
  wh_rooms :: "(nat, nat) gomap"
  wh_queues :: "'e roomQueue list"
  wh_pending :: "(nat \<times> nat) list"
  wh_worker :: "'e worker"
  wh_deliveries :: "'e delivery list"
  wh_now :: int

definition new_webhook :: "'e Webhook" where
  "new_webhook = \<lparr>wh_rooms = gm_empty, wh_queues = [], wh_pending = [], wh_worker = WIdle, wh_deliveries = [], wh_now = 0\<rparr>"

definition set_queue :: "nat \<Rightarrow> 'e roomQueue \<Rightarrow> 'e Webhook \<Rightarrow> 'e Webhook" where
  "set_queue i q s = s\<lparr>wh_queues := (wh_queues s)[i := q]\<rparr>"

definition getOrCreateQueue :: "nat \<Rightarrow> 'e Webhook \<Rightarrow> nat \<times> 'e Webhook" where
  "getOrCreateQueue room s =
    (case gm_get (wh_rooms s) room of
       Some i \<Rightarrow> (i, s)
     | None \<Rightarrow> (length (wh_queues s),
         s\<lparr>wh_rooms := gm_put room (length (wh_queues s)) (wh_rooms s), wh_queues := wh_queues s @ [newRoomQueue]\<rparr>))"

text \<open>Claiming the schedule and sending to the pending rooms; the claim is given back when they are full.\<close>

definition maybeSchedule :: "nat \<Rightarrow> nat \<Rightarrow> 'e Webhook \<Rightarrow> 'e Webhook" where
  "maybeSchedule room i s =
    (let q = wh_queues s ! i in
     if rq_closed q \<or> rq_scheduled q then s
     else if length (wh_pending s) < pendingWorkCap
     then (set_queue i (q\<lparr>rq_scheduled := True\<rparr>) s)\<lparr>wh_pending := wh_pending s @ [(room, i)]\<rparr>
     else s)"

definition releaseSchedule :: "nat \<Rightarrow> 'e Webhook \<Rightarrow> 'e Webhook" where
  "releaseSchedule i s = set_queue i ((wh_queues s ! i)\<lparr>rq_scheduled := False\<rparr>) s"

fun enqueue_attempts :: "nat \<Rightarrow> nat \<Rightarrow> 'e \<Rightarrow> 'e Webhook \<Rightarrow> 'e Webhook" where
  "enqueue_attempts 0 room body s = s"
| "enqueue_attempts (Suc n) room body s =
    (case getOrCreateQueue room s of
       (i, s) \<Rightarrow>
         (case trySend body (wh_queues s ! i) of
            (queued, retry, q) \<Rightarrow>
              if retry then enqueue_attempts n room body s
              else if queued then maybeSchedule room i (set_queue i q s)
              else s))"

definition wh_enqueue :: "nat \<Rightarrow> 'e \<Rightarrow> 'e Webhook \<Rightarrow> 'e Webhook" where
  "wh_enqueue room body s = enqueue_attempts (Suc (Suc 0)) room body s"

section \<open>The worker and the deliveries\<close>

definition takePending :: "'e Webhook \<Rightarrow> 'e Webhook option" where
  "takePending s =
    (case (wh_worker s, wh_pending s) of
       (WIdle, (room, i) # rest) \<Rightarrow> Some (s\<lparr>wh_worker := WWork room i, wh_pending := rest\<rparr>)
     | _ \<Rightarrow> None)"

definition processRoomWork :: "'e Webhook \<Rightarrow> 'e Webhook option" where
  "processRoomWork s =
    (case wh_worker s of
       WWork room i \<Rightarrow>
         (let q = wh_queues s ! i in
          if rq_closed q then Some (releaseSchedule i (s\<lparr>wh_worker := WIdle\<rparr>))
          else case rq_ch q of
            [] \<Rightarrow> Some (releaseSchedule i (s\<lparr>wh_worker := WIdle\<rparr>))
          | body # rest \<Rightarrow> Some (set_queue i (q\<lparr>rq_ch := rest\<rparr>) (s\<lparr>wh_worker := WHolds room i body\<rparr>)))
     | _ \<Rightarrow> None)"

definition startDeliver :: "'e Webhook \<Rightarrow> 'e Webhook option" where
  "startDeliver s =
    (case wh_worker s of
       WHolds room i body \<Rightarrow>
         if length (wh_deliveries s) < maxConcurrentDelivers then
           Some (set_queue i ((wh_queues s ! i)\<lparr>rq_begun := rq_begun (wh_queues s ! i) @ [body]\<rparr>)
             (s\<lparr>wh_worker := WIdle,
                wh_deliveries := wh_deliveries s @ [\<lparr>dv_room = room, dv_queue = i, dv_body = body, dv_released = False\<rparr>]\<rparr>))
         else None
     | _ \<Rightarrow> None)"

text \<open>A delivery ends: the schedule is released first, the rest is done under the lock of the queue.\<close>

definition deliveryDone :: "nat \<Rightarrow> 'e Webhook \<Rightarrow> 'e Webhook option" where
  "deliveryDone k s =
    (if k < length (wh_deliveries s) \<and> \<not> dv_released (wh_deliveries s ! k) then
       (let d = wh_deliveries s ! k; i = dv_queue d; q = wh_queues s ! i in
        Some (releaseSchedule i (set_queue i (q\<lparr>rq_done := rq_done q @ [dv_body d]\<rparr>)
          (s\<lparr>wh_deliveries := (wh_deliveries s)[k := d\<lparr>dv_released := True\<rparr>]\<rparr>))))
     else None)"

definition deliveryEpilogue :: "nat \<Rightarrow> 'e Webhook \<Rightarrow> 'e Webhook option" where
  "deliveryEpilogue k s =
    (if k < length (wh_deliveries s) \<and> dv_released (wh_deliveries s ! k) then
       (let d = wh_deliveries s ! k; i = dv_queue d; q = wh_queues s ! i;
            hasMore = (\<not> rq_closed q \<and> rq_ch q \<noteq> []);
            q' = (if \<not> rq_closed q \<and> rq_ch q = [] then q\<lparr>rq_emptySince := Some (wh_now s)\<rparr> else q);
            s' = set_queue i q' (s\<lparr>wh_deliveries := take k (wh_deliveries s) @ drop (Suc k) (wh_deliveries s)\<rparr>)
        in Some (if hasMore then maybeSchedule (dv_room d) i s' else s'))
     else None)"

section \<open>The ticker\<close>

definition rescheduleRoom :: "nat \<Rightarrow> 'e Webhook \<Rightarrow> 'e Webhook" where
  "rescheduleRoom room s =
    (case gm_get (wh_rooms s) room of
       None \<Rightarrow> s
     | Some i \<Rightarrow> if \<not> rq_closed (wh_queues s ! i) \<and> rq_ch (wh_queues s ! i) \<noteq> [] then maybeSchedule room i s else s)"

definition evictable :: "int \<Rightarrow> 'e roomQueue \<Rightarrow> bool" where
  "evictable now q \<longleftrightarrow> \<not> rq_closed q \<and> rq_ch q = [] \<and>
    (case rq_emptySince q of None \<Rightarrow> False | Some t \<Rightarrow> t \<le> now - roomIdleEvict)"

definition evictClose :: "nat \<Rightarrow> 'e Webhook \<Rightarrow> 'e Webhook option" where
  "evictClose room s =
    (case gm_get (wh_rooms s) room of
       None \<Rightarrow> None
     | Some i \<Rightarrow>
        if evictable (wh_now s) (wh_queues s ! i)
        then Some (set_queue i ((wh_queues s ! i)\<lparr>rq_closed := True\<rparr>) s) else None)"

definition compareAndDeleteRoom :: "nat \<Rightarrow> nat \<Rightarrow> 'e Webhook \<Rightarrow> 'e Webhook" where
  "compareAndDeleteRoom room i s =
    (if gm_get (wh_rooms s) room = Some i then s\<lparr>wh_rooms := gm_del room (wh_rooms s)\<rparr> else s)"

text \<open>Only a queue that was closed is deleted.\<close>

datatype 'e wh_event =
    Enqueue nat 'e | Take | Process | StartDeliver | DeliveryDone nat | DeliveryEpilogue nat
  | Reschedule nat | EvictClose nat | EvictDelete nat nat | Tick int

definition wh_step :: "'e wh_event \<Rightarrow> 'e Webhook \<Rightarrow> 'e Webhook option" where
  "wh_step ev s =
    (case ev of
       Enqueue room body \<Rightarrow> Some (wh_enqueue room body s)
     | Take \<Rightarrow> takePending s
     | Process \<Rightarrow> processRoomWork s
     | StartDeliver \<Rightarrow> startDeliver s
     | DeliveryDone k \<Rightarrow> deliveryDone k s
     | DeliveryEpilogue k \<Rightarrow> deliveryEpilogue k s
     | Reschedule room \<Rightarrow> Some (rescheduleRoom room s)
     | EvictClose room \<Rightarrow> evictClose room s
     | EvictDelete room i \<Rightarrow>
         if i < length (wh_queues s) \<and> rq_closed (wh_queues s ! i) then Some (compareAndDeleteRoom room i s) else None
     | Tick d \<Rightarrow> if d \<ge> 0 then Some (s\<lparr>wh_now := wh_now s + d\<rparr>) else None)"

fun wh_run :: "'e wh_event list \<Rightarrow> 'e Webhook \<Rightarrow> 'e Webhook option" where
  "wh_run [] s = Some s"
| "wh_run (ev # evs) s = (case wh_step ev s of None \<Rightarrow> None | Some s \<Rightarrow> wh_run evs s)"

section \<open>Who has a queue\<close>

text \<open>How often a queue is handed out: among the pending rooms, at the worker, in a delivery.\<close>

definition at_worker :: "nat \<Rightarrow> 'e worker \<Rightarrow> bool" where
  "at_worker i w = (case w of WIdle \<Rightarrow> False | WWork _ j \<Rightarrow> j = i | WHolds _ j _ \<Rightarrow> j = i)"

definition held :: "nat \<Rightarrow> 'e worker \<Rightarrow> 'e list" where
  "held i w = (case w of WHolds _ j e \<Rightarrow> if j = i then [e] else [] | _ \<Rightarrow> [])"

definition in_flight :: "nat \<Rightarrow> 'e delivery list \<Rightarrow> 'e list" where
  "in_flight i ds = map dv_body (filter (\<lambda>d. dv_queue d = i \<and> \<not> dv_released d) ds)"

definition tokens :: "nat \<Rightarrow> (nat \<times> nat) list \<Rightarrow> 'e worker \<Rightarrow> 'e delivery list \<Rightarrow> nat" where
  "tokens i pend w ds =
    length (filter (\<lambda>p. snd p = i) pend) + (if at_worker i w then 1 else 0) + length (in_flight i ds)"

definition queue_ok :: "nat \<Rightarrow> 'e roomQueue \<Rightarrow> (nat \<times> nat) list \<Rightarrow> 'e worker \<Rightarrow> 'e delivery list \<Rightarrow> bool" where
  "queue_ok i q pend w ds \<longleftrightarrow>
    tokens i pend w ds = (if rq_scheduled q then 1 else 0) \<and>
    rq_accepted q = rq_begun q @ held i w @ rq_ch q \<and>
    rq_begun q = rq_done q @ in_flight i ds \<and>
    length (rq_ch q) \<le> perRoomQueueCap"

definition wh_inv :: "'e Webhook \<Rightarrow> bool" where
  "wh_inv s \<longleftrightarrow>
    (\<forall>i < length (wh_queues s). queue_ok i (wh_queues s ! i) (wh_pending s) (wh_worker s) (wh_deliveries s)) \<and>
    (\<forall>i \<ge> length (wh_queues s). tokens i (wh_pending s) (wh_worker s) (wh_deliveries s) = 0) \<and>
    (\<forall>d \<in> set (wh_deliveries s). dv_queue d < length (wh_queues s)) \<and>
    (\<forall>room i. gm_get (wh_rooms s) room = Some i \<longrightarrow> i < length (wh_queues s))"

lemma wh_inv_queue: "wh_inv s \<Longrightarrow> i < length (wh_queues s) \<Longrightarrow>
    queue_ok i (wh_queues s ! i) (wh_pending s) (wh_worker s) (wh_deliveries s)"
  by (simp add: wh_inv_def)

text \<open>A step that touches one queue.\<close>

lemma wh_inv_one:
  assumes "wh_inv s" and "i < length (wh_queues s)" and "wh_queues s' = (wh_queues s)[i := q]"
    and "queue_ok i q (wh_pending s') (wh_worker s') (wh_deliveries s')"
    and "\<And>j. j \<noteq> i \<Longrightarrow> tokens j (wh_pending s') (wh_worker s') (wh_deliveries s') =
           tokens j (wh_pending s) (wh_worker s) (wh_deliveries s) \<and>
         held j (wh_worker s') = held j (wh_worker s) \<and> in_flight j (wh_deliveries s') = in_flight j (wh_deliveries s)"
    and "\<And>d. d \<in> set (wh_deliveries s') \<Longrightarrow> dv_queue d < length (wh_queues s)"
    and "\<And>room j. gm_get (wh_rooms s') room = Some j \<Longrightarrow> j < length (wh_queues s)"
  shows "wh_inv s'"
  unfolding wh_inv_def
proof (intro conjI allI impI ballI)
  fix j assume j: "j < length (wh_queues s')"
  show "queue_ok j (wh_queues s' ! j) (wh_pending s') (wh_worker s') (wh_deliveries s')"
  proof (cases "j = i")
    case True
    then show ?thesis using assms(2,3,4) by simp
  next
    case False
    then show ?thesis
      using wh_inv_queue [OF assms(1), of j] j assms(3) assms(5) [OF False] by (simp add: queue_ok_def)
  qed
next
  fix j assume "length (wh_queues s') \<le> j"
  then have "j \<noteq> i" "length (wh_queues s) \<le> j" using assms(2,3) by auto
  then show "tokens j (wh_pending s') (wh_worker s') (wh_deliveries s') = 0"
    using assms(1) assms(5) [of j] by (simp add: wh_inv_def)
qed (use assms(3,6,7) in auto)

lemma in_flight_simps [simp]:
  "in_flight i [] = []"
  "in_flight i (ds @ es) = in_flight i ds @ in_flight i es"
  "in_flight i (d # ds) = (if dv_queue d = i \<and> \<not> dv_released d then [dv_body d] else []) @ in_flight i ds"
  by (simp_all add: in_flight_def)

lemma worker_simps [simp]:
  "at_worker i WIdle = False" "at_worker i (WWork r j) = (j = i)" "at_worker i (WHolds r j e) = (j = i)"
  "held i WIdle = []" "held i (WWork r j) = []" "held i (WHolds r j e) = (if j = i then [e] else [])"
  by (simp_all add: at_worker_def held_def)

lemma new_queue_inv:
  assumes "wh_inv s"
  shows "wh_inv (snd (getOrCreateQueue room s)) \<and>
    fst (getOrCreateQueue room s) < length (wh_queues (snd (getOrCreateQueue room s)))"
proof (cases "gm_get (wh_rooms s) room")
  case None
  let ?n = "length (wh_queues s)"
  have t: "tokens ?n (wh_pending s) (wh_worker s) (wh_deliveries s) = 0" using assms by (simp add: wh_inv_def)
  have h: "held ?n (wh_worker s) = []" "in_flight ?n (wh_deliveries s) = []"
    using t by (auto simp: tokens_def held_def at_worker_def split: worker.splits if_splits)
  have "queue_ok ?n newRoomQueue (wh_pending s) (wh_worker s) (wh_deliveries s)"
    using t h by (simp add: queue_ok_def newRoomQueue_def)
  then show ?thesis
    using assms None unfolding wh_inv_def getOrCreateQueue_def
    by (auto simp: nth_append less_Suc_eq split: if_splits)
next
  case (Some i)
  then show ?thesis using assms by (auto simp: getOrCreateQueue_def wh_inv_def)
qed

lemma maybeSchedule_inv:
  assumes "wh_inv s" and "i < length (wh_queues s)"
  shows "wh_inv (maybeSchedule room i s) \<and> length (wh_queues (maybeSchedule room i s)) = length (wh_queues s)"
proof (cases "rq_closed (wh_queues s ! i) \<or> rq_scheduled (wh_queues s ! i) \<or> length (wh_pending s) \<ge> pendingWorkCap")
  case True
  then show ?thesis using assms by (auto simp: maybeSchedule_def Let_def)
next
  case False
  then have m: "maybeSchedule room i s =
      (set_queue i ((wh_queues s ! i)\<lparr>rq_scheduled := True\<rparr>) s)\<lparr>wh_pending := wh_pending s @ [(room, i)]\<rparr>"
    by (simp add: maybeSchedule_def Let_def not_le)
  have "wh_inv (maybeSchedule room i s)"
  proof (rule wh_inv_one [OF assms])
    show "wh_queues (maybeSchedule room i s) = (wh_queues s)[i := (wh_queues s ! i)\<lparr>rq_scheduled := True\<rparr>]"
      by (simp add: m set_queue_def)
    show "queue_ok i ((wh_queues s ! i)\<lparr>rq_scheduled := True\<rparr>) (wh_pending (maybeSchedule room i s))
        (wh_worker (maybeSchedule room i s)) (wh_deliveries (maybeSchedule room i s))"
      using wh_inv_queue [OF assms] False by (simp add: m set_queue_def queue_ok_def tokens_def)
  qed (use assms(1) in \<open>auto simp: m set_queue_def tokens_def wh_inv_def\<close>)
  then show ?thesis by (simp add: m set_queue_def)
qed

lemma enqueue_inv: "wh_inv s \<Longrightarrow> wh_inv (enqueue_attempts n room body s)"
proof (induction n arbitrary: s)
  case (Suc n)
  obtain i s1 where g: "getOrCreateQueue room s = (i, s1)" by fastforce
  have i: "wh_inv s1" "i < length (wh_queues s1)" using new_queue_inv [OF Suc.prems, of room] g by auto
  obtain queued retry q where t: "trySend body (wh_queues s1 ! i) = (queued, retry, q)" by (metis prod_cases3)
  show ?case
  proof (cases "queued \<and> \<not> retry")
    case True
    then have q: "q = (wh_queues s1 ! i)\<lparr>rq_ch := rq_ch (wh_queues s1 ! i) @ [body], rq_emptySince := None,
        rq_accepted := rq_accepted (wh_queues s1 ! i) @ [body]\<rparr>" "length (rq_ch (wh_queues s1 ! i)) < perRoomQueueCap"
      using t by (auto simp: trySend_def split: if_splits)
    have "wh_inv (set_queue i q s1)"
    proof (rule wh_inv_one [OF i])
      show "wh_queues (set_queue i q s1) = (wh_queues s1)[i := q]" by (simp add: set_queue_def)
      show "queue_ok i q (wh_pending (set_queue i q s1)) (wh_worker (set_queue i q s1)) (wh_deliveries (set_queue i q s1))"
        using wh_inv_queue [OF i] q by (simp add: queue_ok_def set_queue_def)
    qed (use i(1) in \<open>auto simp: set_queue_def wh_inv_def\<close>)
    from maybeSchedule_inv [OF this, of i room] show ?thesis
      using True g t i(2) by (simp add: set_queue_def)
  next
    case False
    then show ?thesis using Suc.IH [OF i(1)] i(1) g t by auto
  qed
qed simp

lemma token_in_range:
  "wh_inv s \<Longrightarrow> 0 < tokens i (wh_pending s) (wh_worker s) (wh_deliveries s) \<Longrightarrow> i < length (wh_queues s)"
  unfolding wh_inv_def by (metis less_numeral_extra(3) not_le)

lemma inv_frame:
  assumes "wh_inv s"
  shows "\<And>d. d \<in> set (wh_deliveries s) \<Longrightarrow> dv_queue d < length (wh_queues s)"
    "\<And>room j. gm_get (wh_rooms s) room = Some j \<Longrightarrow> j < length (wh_queues s)"
  using assms by (auto simp: wh_inv_def)

lemma takePending_inv:
  assumes "wh_inv s" and "takePending s = Some s'"
  shows "wh_inv s'"
proof -
  obtain room i rest where e: "wh_worker s = WIdle" "wh_pending s = (room, i) # rest"
      "s' = s\<lparr>wh_worker := WWork room i, wh_pending := rest\<rparr>"
    using assms(2) by (auto simp: takePending_def split: worker.splits list.splits)
  have i: "i < length (wh_queues s)" by (rule token_in_range [OF assms(1)]) (simp add: e tokens_def)
  show ?thesis
    by (rule wh_inv_one [OF assms(1) i, of _ "wh_queues s ! i"])
       (use wh_inv_queue [OF assms(1) i] inv_frame [OF assms(1)] in \<open>auto simp: e queue_ok_def tokens_def\<close>)
qed

lemma processRoomWork_inv:
  assumes "wh_inv s" and "processRoomWork s = Some s'"
  shows "wh_inv s'"
proof -
  obtain room i where w: "wh_worker s = WWork room i"
    using assms(2) by (auto simp: processRoomWork_def split: worker.splits)
  have i: "i < length (wh_queues s)" by (rule token_in_range [OF assms(1)]) (simp add: w tokens_def)
  note q = wh_inv_queue [OF assms(1) i]
  note f = inv_frame [OF assms(1)]
  show ?thesis
  proof (cases "rq_closed (wh_queues s ! i) \<or> rq_ch (wh_queues s ! i) = []")
    case True
    then have s': "s' = releaseSchedule i (s\<lparr>wh_worker := WIdle\<rparr>)"
      using assms(2) by (auto simp: processRoomWork_def w Let_def split: if_splits)
    show ?thesis
      by (rule wh_inv_one [OF assms(1) i, of _ "(wh_queues s ! i)\<lparr>rq_scheduled := False\<rparr>"])
         (use q f in \<open>auto simp: s' w releaseSchedule_def set_queue_def queue_ok_def tokens_def split: if_splits\<close>)
  next
    case False
    then obtain body rest where ch: "rq_ch (wh_queues s ! i) = body # rest" by (auto simp: neq_Nil_conv)
    have s': "s' = set_queue i ((wh_queues s ! i)\<lparr>rq_ch := rest\<rparr>) (s\<lparr>wh_worker := WHolds room i body\<rparr>)"
      using assms(2) False by (simp add: processRoomWork_def w Let_def ch)
    show ?thesis
      by (rule wh_inv_one [OF assms(1) i, of _ "(wh_queues s ! i)\<lparr>rq_ch := rest\<rparr>"])
         (use q f ch in \<open>auto simp: s' w set_queue_def queue_ok_def tokens_def split: if_splits\<close>)
  qed
qed

lemma startDeliver_inv:
  assumes "wh_inv s" and "startDeliver s = Some s'"
  shows "wh_inv s'"
proof -
  obtain room i body where w: "wh_worker s = WHolds room i body"
    using assms(2) by (auto simp: startDeliver_def split: worker.splits)
  have i: "i < length (wh_queues s)" by (rule token_in_range [OF assms(1)]) (simp add: w tokens_def)
  have s': "s' = set_queue i ((wh_queues s ! i)\<lparr>rq_begun := rq_begun (wh_queues s ! i) @ [body]\<rparr>)
      (s\<lparr>wh_worker := WIdle, wh_deliveries := wh_deliveries s @ [\<lparr>dv_room = room, dv_queue = i, dv_body = body, dv_released = False\<rparr>]\<rparr>)"
    using assms(2) by (simp add: startDeliver_def w split: if_splits)
  show ?thesis
    by (rule wh_inv_one [OF assms(1) i, of _ "(wh_queues s ! i)\<lparr>rq_begun := rq_begun (wh_queues s ! i) @ [body]\<rparr>"])
       (use wh_inv_queue [OF assms(1) i] inv_frame [OF assms(1)] i in
         \<open>auto simp: s' w set_queue_def queue_ok_def tokens_def split: if_splits\<close>)
qed

lemma deliveryDone_inv:
  assumes "wh_inv s" and "deliveryDone k s = Some s'"
  shows "wh_inv s'"
proof -
  define d where "d = wh_deliveries s ! k"
  define i where "i = dv_queue d"
  define q where "q = wh_queues s ! i"
  have k: "k < length (wh_deliveries s)" "\<not> dv_released d"
    using assms(2) by (auto simp: deliveryDone_def d_def split: if_splits)
  define xs where "xs = take k (wh_deliveries s)"
  define ys where "ys = drop (Suc k) (wh_deliveries s)"
  have ds: "wh_deliveries s = xs @ d # ys" unfolding xs_def ys_def d_def by (rule id_take_nth_drop [OF k(1)])
  have upd: "(wh_deliveries s)[k := e] = xs @ e # ys" for e
    unfolding xs_def ys_def by (rule upd_conv_take_nth_drop [OF k(1)])
  have i: "i < length (wh_queues s)" by (rule token_in_range [OF assms(1)]) (simp add: tokens_def ds i_def k(2))
  let ?q = "q\<lparr>rq_done := rq_done q @ [dv_body d], rq_scheduled := False\<rparr>"
  have s': "wh_queues s' = (wh_queues s)[i := ?q]" "wh_deliveries s' = xs @ d\<lparr>dv_released := True\<rparr> # ys"
      "wh_pending s' = wh_pending s" "wh_worker s' = wh_worker s" "wh_rooms s' = wh_rooms s"
    using assms(2) k i upd
    by (auto simp: deliveryDone_def Let_def releaseSchedule_def set_queue_def d_def [symmetric] i_def [symmetric] q_def [symmetric])
  note ok = wh_inv_queue [OF assms(1) i, folded q_def]
  have one: "in_flight i xs = []" "in_flight i ys = []" "\<not> at_worker i (wh_worker s)" "filter (\<lambda>p. snd p = i) (wh_pending s) = []"
    using ok k(2) by (auto simp: queue_ok_def tokens_def ds i_def split: if_splits)
  show ?thesis
    by (rule wh_inv_one [OF assms(1) i s'(1)])
       (use ok one k(2) inv_frame [OF assms(1)] in \<open>auto simp: s' ds queue_ok_def tokens_def i_def split: if_splits\<close>)
qed

lemma deliveryEpilogue_inv:
  assumes "wh_inv s" and "deliveryEpilogue k s = Some s'"
  shows "wh_inv s'"
proof -
  define d where "d = wh_deliveries s ! k"
  define i where "i = dv_queue d"
  define q where "q = wh_queues s ! i"
  have k: "k < length (wh_deliveries s)" "dv_released d"
    using assms(2) by (auto simp: deliveryEpilogue_def d_def split: if_splits)
  define xs where "xs = take k (wh_deliveries s)"
  define ys where "ys = drop (Suc k) (wh_deliveries s)"
  have ds: "wh_deliveries s = xs @ d # ys" unfolding xs_def ys_def d_def by (rule id_take_nth_drop [OF k(1)])
  have i: "i < length (wh_queues s)" using inv_frame(1) [OF assms(1), of d] by (simp add: ds i_def)
  define q' where "q' = (if \<not> rq_closed q \<and> rq_ch q = [] then q\<lparr>rq_emptySince := Some (wh_now s)\<rparr> else q)"
  define s1 where "s1 = set_queue i q' (s\<lparr>wh_deliveries := xs @ ys\<rparr>)"
  have s': "s' = (if \<not> rq_closed q \<and> rq_ch q \<noteq> [] then maybeSchedule (dv_room d) i s1 else s1)"
    using assms(2) k by (auto simp: deliveryEpilogue_def Let_def d_def [symmetric] i_def [symmetric] q_def [symmetric]
        xs_def [symmetric] ys_def [symmetric] s1_def q'_def)
  have inv1: "wh_inv s1"
    by (rule wh_inv_one [OF assms(1) i, of _ q'])
       (use wh_inv_queue [OF assms(1) i, folded q_def] k(2) inv_frame [OF assms(1)] in
         \<open>auto simp: s1_def set_queue_def q'_def ds queue_ok_def tokens_def\<close>)
  have "i < length (wh_queues s1)" using i by (simp add: s1_def set_queue_def)
  then show ?thesis using maybeSchedule_inv [OF inv1] inv1 by (simp add: s')
qed

lemma wh_step_inv:
  assumes "wh_step ev s = Some s'" and "wh_inv s"
  shows "wh_inv s'"
proof (cases ev)
  case (Enqueue room body)
  then have "s' = enqueue_attempts (Suc (Suc 0)) room body s"
    using assms(1) by (simp add: wh_step_def wh_enqueue_def del: enqueue_attempts.simps)
  then show ?thesis using enqueue_inv [OF assms(2)] by blast
next
  case (Reschedule room)
  then show ?thesis
    using assms maybeSchedule_inv [OF assms(2)] inv_frame(2) [OF assms(2)]
    by (auto simp: wh_step_def rescheduleRoom_def split: option.splits)
next
  case (EvictClose room)
  then obtain i where e: "gm_get (wh_rooms s) room = Some i" "s' = set_queue i ((wh_queues s ! i)\<lparr>rq_closed := True\<rparr>) s"
    using assms(1) by (auto simp: wh_step_def evictClose_def split: option.splits if_splits)
  have i: "i < length (wh_queues s)" using inv_frame(2) [OF assms(2) e(1)] .
  show ?thesis
    by (rule wh_inv_one [OF assms(2) i, of _ "(wh_queues s ! i)\<lparr>rq_closed := True\<rparr>"])
       (use wh_inv_queue [OF assms(2) i] inv_frame [OF assms(2)] in \<open>auto simp: e set_queue_def queue_ok_def\<close>)
next
  case (EvictDelete room i)
  then have "s' = compareAndDeleteRoom room i s" using assms(1) by (simp add: wh_step_def split: if_splits)
  then show ?thesis using assms(2) by (auto simp: compareAndDeleteRoom_def wh_inv_def)
next
  case (Tick d)
  then show ?thesis using assms by (auto simp: wh_step_def wh_inv_def split: if_splits)
qed (use assms takePending_inv processRoomWork_inv startDeliver_inv deliveryDone_inv deliveryEpilogue_inv in
      \<open>auto simp: wh_step_def\<close>)

lemma wh_run_append: "wh_run (evs @ evs') s = (case wh_run evs s of None \<Rightarrow> None | Some s1 \<Rightarrow> wh_run evs' s1)"
  by (induction evs arbitrary: s) (auto split: option.splits)

lemma wh_run_inv: "wh_run evs s = Some s' \<Longrightarrow> wh_inv s \<Longrightarrow> wh_inv s'"
  by (induction evs arbitrary: s) (auto split: option.splits dest: wh_step_inv)

lemma new_webhook_inv: "wh_inv new_webhook"
  by (simp add: wh_inv_def new_webhook_def tokens_def)

lemmas wh_defs = wh_step_def wh_enqueue_def getOrCreateQueue_def trySend_def maybeSchedule_def
  releaseSchedule_def set_queue_def takePending_def processRoomWork_def startDeliver_def deliveryDone_def
  deliveryEpilogue_def evictClose_def evictable_def compareAndDeleteRoom_def new_webhook_def newRoomQueue_def
  perRoomQueueCap_def pendingWorkCap_def maxConcurrentDelivers_def roomIdleEvict_def gm_code Let_def

text \<open>C20. Every queue delivers its events one at a time and in order, none twice and none skipped:
  whatever the goroutines do, the events delivered are the first of those accepted, at most one more
  is being delivered, at most one is in the hands of the worker, and the rest waits in the channel,
  at most 32 of them.\<close>

theorem room_queue_delivers_in_order:
  assumes "wh_run evs new_webhook = Some s" and "i < length (wh_queues s)"
  shows "rq_accepted (wh_queues s ! i) =
      rq_done (wh_queues s ! i) @ in_flight i (wh_deliveries s) @ held i (wh_worker s) @ rq_ch (wh_queues s ! i) \<and>
    length (in_flight i (wh_deliveries s)) + length (held i (wh_worker s)) \<le> 1 \<and> length (rq_ch (wh_queues s ! i)) \<le> 32"
proof -
  have "queue_ok i (wh_queues s ! i) (wh_pending s) (wh_worker s) (wh_deliveries s)"
    using wh_run_inv [OF assms(1) new_webhook_inv] assms(2) by (rule wh_inv_queue)
  moreover have "length (held i (wh_worker s)) \<le> (if at_worker i (wh_worker s) then 1 else 0)"
    by (cases "wh_worker s") simp_all
  ultimately show ?thesis by (auto simp: queue_ok_def tokens_def perRoomQueueCap_def split: if_splits)
qed

text \<open>The order does not hold across an eviction: the time since which a queue is empty is noted after
  the schedule was released, so it can be noted while the next event is being delivered; when that
  delivery takes longer than the eviction time, the queue is evicted and the room's next event is
  delivered at the same time, before the earlier one has arrived.\<close>

lemma eviction_overtakes_delivery:
  "\<exists>evs s. wh_run evs new_webhook = Some s \<and>
    wh_deliveries s = [\<lparr>dv_room = 7, dv_queue = 0, dv_body = (2::nat), dv_released = False\<rparr>,
                       \<lparr>dv_room = 7, dv_queue = 1, dv_body = 3, dv_released = False\<rparr>]"
proof -
  let ?q = "\<lparr>rq_ch = [], rq_closed = False, rq_scheduled = True, rq_emptySince = None,
    rq_accepted = [1], rq_begun = [1], rq_done = []\<rparr>"
  let ?q1 = "\<lparr>rq_ch = [], rq_closed = False, rq_scheduled = True, rq_emptySince = None,
    rq_accepted = [1, 2], rq_begun = [1, 2], rq_done = [1]\<rparr>"
  let ?d = "\<lambda>i e b. \<lparr>dv_room = 7, dv_queue = i, dv_body = e, dv_released = b\<rparr>"
  let ?s0 = "\<lparr>wh_rooms = [(7, 0)], wh_queues = [?q], wh_pending = [], wh_worker = WIdle,
    wh_deliveries = [?d 0 (1::nat) False], wh_now = 0\<rparr>"
  let ?s1 = "\<lparr>wh_rooms = [(7, 0)], wh_queues = [?q1], wh_pending = [], wh_worker = WIdle,
    wh_deliveries = [?d 0 (1::nat) True, ?d 0 2 False], wh_now = 0\<rparr>"
  let ?s2 = "\<lparr>wh_rooms = [], wh_queues = [?q1\<lparr>rq_emptySince := Some 0, rq_closed := True\<rparr>], wh_pending = [],
    wh_worker = WIdle, wh_deliveries = [?d 0 (2::nat) False], wh_now = 30\<rparr>"
  have r0: "wh_run [Enqueue 7 1, Take, Process, StartDeliver] new_webhook = Some ?s0"
    by (simp add: wh_defs)
  have r1: "wh_run [DeliveryDone 0, Enqueue 7 2, Take, Process, StartDeliver] ?s0 = Some ?s1"
    by (simp add: wh_defs)
  have r2: "wh_run [DeliveryEpilogue 0, Tick 30, EvictClose 7, EvictDelete 7 0] ?s1 = Some ?s2"
    by (simp add: wh_defs)
  obtain s3 where r3: "wh_run [Enqueue 7 3, Take, Process, StartDeliver] ?s2 = Some s3"
      "wh_deliveries s3 = [?d 0 2 False, ?d 1 3 False]"
    by (simp add: wh_defs)
  have "wh_run ([Enqueue 7 1, Take, Process, StartDeliver] @ [DeliveryDone 0, Enqueue 7 2, Take, Process, StartDeliver] @
      [DeliveryEpilogue 0, Tick 30, EvictClose 7, EvictDelete 7 0] @ [Enqueue 7 3, Take, Process, StartDeliver]) new_webhook = Some s3"
    by (simp only: wh_run_append r0 r1 r2 r3(1) option.case)
  then show ?thesis using r3(2) by blast
qed

theorem room_queue_delivers_in_order_witness:
  "\<exists>s. wh_run [Enqueue 7 (1::nat), Take] new_webhook = Some s \<and> rq_accepted (wh_queues s ! 0) = [1] \<and>
    rq_done (wh_queues s ! 0) @ in_flight 0 (wh_deliveries s) @ held 0 (wh_worker s) @ rq_ch (wh_queues s ! 0) = [1]"
proof -
  have e: "map_option (\<lambda>s. (rq_accepted (wh_queues s ! 0), length (wh_queues s))) (wh_run [Enqueue 7 (1::nat), Take] new_webhook) = Some ([1], 1)"
    by (simp add: wh_defs)
  then obtain s where s: "wh_run [Enqueue 7 (1::nat), Take] new_webhook = Some s" "rq_accepted (wh_queues s ! 0) = [1]" "length (wh_queues s) = 1"
    by auto
  then show ?thesis using room_queue_delivers_in_order [OF s(1), of 0] by simp
qed

section \<open>Delivering one event\<close>

text \<open>\<open>deliverURL\<close>: for each attempt the context, the status of the answer (none on an error) and whether
  the sleep behind it was interrupted. The result is the number of requests made, the seconds slept
  and whether the event was taken.\<close>

definition maxAttempts :: nat where "maxAttempts = 3"

fun deliver_attempts :: "nat \<Rightarrow> nat \<Rightarrow> (bool \<times> int option \<times> bool) list \<Rightarrow> nat \<times> nat list \<times> bool" where
  "deliver_attempts 0 attempt answers = (0, [], False)"
| "deliver_attempts (Suc n) attempt [] = (0, [], False)"
| "deliver_attempts (Suc n) attempt ((cancelled, status, interrupted) # answers) =
    (if cancelled then (0, [], False)
     else case status of
       Some c \<Rightarrow>
         if 200 \<le> c \<and> c < 300 then (1, [], True)
         else if n = 0 then (1, [], False)
         else if interrupted then (1, [attempt], False)
         else (case deliver_attempts n (Suc attempt) answers of (k, ss, ok) \<Rightarrow> (Suc k, attempt # ss, ok))
     | None \<Rightarrow>
         if n = 0 then (1, [], False)
         else if interrupted then (1, [attempt], False)
         else (case deliver_attempts n (Suc attempt) answers of (k, ss, ok) \<Rightarrow> (Suc k, attempt # ss, ok)))"

definition deliverURL :: "(bool \<times> int option \<times> bool) list \<Rightarrow> nat \<times> nat list \<times> bool" where
  "deliverURL answers = deliver_attempts maxAttempts 1 answers"

lemma deliver_attempts_bounds:
  "deliver_attempts n a answers = (k, ss, ok) \<Longrightarrow> k \<le> n \<and> length ss \<le> n - 1 \<and> (\<forall>x \<in> set ss. x < a + n) \<and> (ok \<longrightarrow> 0 < k)"
proof (induction n a answers arbitrary: k ss ok rule: deliver_attempts.induct)
  case (3 n attempt cancelled status interrupted answers)
  show ?case
  proof (cases "\<not> cancelled \<and> \<not> (\<exists>c. status = Some c \<and> 200 \<le> c \<and> c < 300) \<and> n \<noteq> 0 \<and> \<not> interrupted")
    case True
    obtain k' ss' ok' where r: "deliver_attempts n (Suc attempt) answers = (k', ss', ok')" by (metis prod_cases3)
    have "k = Suc k' \<and> ss = attempt # ss' \<and> ok = ok'"
      using 3(3) True r by (auto split: option.splits if_splits)
    moreover have "k' \<le> n \<and> length ss' \<le> n - 1 \<and> (\<forall>x \<in> set ss'. x < Suc attempt + n) \<and> (ok' \<longrightarrow> 0 < k')"
      using 3(1,2) True r by (cases status) auto
    ultimately show ?thesis using True by auto
  next
    case False
    then show ?thesis using 3(3) by (auto split: option.splits if_splits)
  qed
qed simp_all

text \<open>A delivery ends: at most three requests, with at most two pauses of one and two seconds.\<close>

lemma delivery_bounded:
  "case deliverURL answers of (k, ss, ok) \<Rightarrow> k \<le> 3 \<and> length ss \<le> 2 \<and> (if ok then 0 < k else True)"
  using deliver_attempts_bounds [of 3 1 answers] by (auto simp: deliverURL_def maxAttempts_def split: prod.splits)

section \<open>Segments waiting for their conversion\<close>

text \<open>\<open>RegisterConvertSegmentMeta\<close> and \<open>PopConvertSegmentMeta\<close> under the absolute path of the input.\<close>

definition RegisterConvertSegmentMeta :: "(string \<Rightarrow> string option) \<Rightarrow> string \<Rightarrow> 'm option \<Rightarrow> (string, 'm) gomap \<Rightarrow> (string, 'm) gomap" where
  "RegisterConvertSegmentMeta convertInputKey inputPath meta m =
    (case meta of
       None \<Rightarrow> m
     | Some v \<Rightarrow>
        if inputPath = [] then m
        else (case convertInputKey inputPath of None \<Rightarrow> m | Some key \<Rightarrow> gm_put key v m))"

definition PopConvertSegmentMeta :: "(string \<Rightarrow> string option) \<Rightarrow> string \<Rightarrow> (string, 'm) gomap \<Rightarrow> 'm option \<times> (string, 'm) gomap" where
  "PopConvertSegmentMeta convertInputKey inputPath m =
    (if inputPath = [] then (None, m)
     else case convertInputKey inputPath of None \<Rightarrow> (None, m) | Some key \<Rightarrow> (gm_get m key, gm_del key m))"

lemma convert_meta_once:
  assumes "p \<noteq> []" and "key p = Some k" and "q \<noteq> []" and "key q = Some k"
    and "PopConvertSegmentMeta key q (RegisterConvertSegmentMeta key p (Some v) m) = (r, m')"
  shows "r = Some v \<and> fst (PopConvertSegmentMeta key p m') = None"
  using assms by (auto simp: PopConvertSegmentMeta_def RegisterConvertSegmentMeta_def)

end
