(* ===== verification/Protowire.thy ===== *)
theory Protowire
  imports Prelude
begin

text \<open>
  The protobuf wire format (\<open>pkg/protowire\<close>): a reader that walks the fields of a message and the
  writer. A reader is a position in its data; a failed read leaves it where the code leaves it. Go
  strings are byte sequences.
\<close>

section \<open>Reader\<close>

record Reader =
  rd_data :: bytes
  rd_pos :: nat

definition NewReader :: "bytes \<Rightarrow> Reader" where
  "NewReader data = \<lparr>rd_data = data, rd_pos = 0\<rparr>"

definition Remaining :: "Reader \<Rightarrow> int" where
  "Remaining r = int (length (rd_data r)) - int (rd_pos r)"

definition rd_EOF :: "Reader \<Rightarrow> bool" where
  "rd_EOF r \<longleftrightarrow> rd_pos r \<ge> length (rd_data r)"

text \<open>The loop of \<open>ReadVarint\<close> with the iterations left, the shift and the result so far.\<close>

fun varint_loop :: "nat \<Rightarrow> nat \<Rightarrow> u64 \<Rightarrow> Reader \<Rightarrow> u64 option \<times> Reader" where
  "varint_loop 0 shift result r = (None, r)"
| "varint_loop (Suc n) shift result r =
    (if rd_EOF r then (None, r)
     else
       (let b = rd_data r ! rd_pos r; r = r\<lparr>rd_pos := rd_pos r + 1\<rparr>;
            result = result OR push_bit shift (ucast (b AND 0x7f)) in
        if b AND 0x80 = 0 then (Some result, r) else varint_loop n (shift + 7) result r))"

definition ReadVarint :: "Reader \<Rightarrow> u64 option \<times> Reader" where
  "ReadVarint r = varint_loop 10 0 0 r"

definition TryReadTag :: "Reader \<Rightarrow> (nat \<times> nat) option \<times> Reader" where
  "TryReadTag r =
    (if rd_EOF r then (None, r)
     else case ReadVarint r of
       (None, r) \<Rightarrow> (None, r)
     | (Some tag, r) \<Rightarrow> (Some (unat (drop_bit 3 tag), unat (tag AND 7)), r))"

definition ReadInt64 :: "Reader \<Rightarrow> u64 option \<times> Reader" where
  "ReadInt64 r = ReadVarint r"

definition ReadBool :: "Reader \<Rightarrow> bool option \<times> Reader" where
  "ReadBool r = (case ReadVarint r of (v, r) \<Rightarrow> (map_option (\<lambda>v. v \<noteq> 0) v, r))"

definition ReadBytes :: "Reader \<Rightarrow> bytes option \<times> Reader" where
  "ReadBytes r =
    (case ReadVarint r of
       (None, r) \<Rightarrow> (None, r)
     | (Some len, r) \<Rightarrow>
        if int (unat len) > Remaining r then (None, r)
        else (Some (gslice (rd_pos r) (rd_pos r + unat len) (rd_data r)), r\<lparr>rd_pos := rd_pos r + unat len\<rparr>))"

definition ReadString :: "Reader \<Rightarrow> bytes option \<times> Reader" where
  "ReadString r = ReadBytes r"

definition WireVarint :: nat where "WireVarint = 0"
definition WireFixed64 :: nat where "WireFixed64 = 1"
definition WireBytes :: nat where "WireBytes = 2"
definition WireFixed32 :: nat where "WireFixed32 = 5"

definition SkipField :: "nat \<Rightarrow> Reader \<Rightarrow> bool \<times> Reader" where
  "SkipField wireType r =
    (if wireType = WireVarint then (case ReadVarint r of (v, r) \<Rightarrow> (v \<noteq> None, r))
     else if wireType = WireFixed64 then (if Remaining r < 8 then (False, r) else (True, r\<lparr>rd_pos := rd_pos r + 8\<rparr>))
     else if wireType = WireBytes then (case ReadBytes r of (v, r) \<Rightarrow> (v \<noteq> None, r))
     else if wireType = WireFixed32 then (if Remaining r < 4 then (False, r) else (True, r\<lparr>rd_pos := rd_pos r + 4\<rparr>))
     else (False, r))"

section \<open>Writer\<close>

lemma drop_7_less: "128 \<le> v \<Longrightarrow> unat (drop_bit 7 (v :: u64)) < unat v"
proof -
  assume "128 \<le> v"
  then have "128 \<le> unat v" by (simp add: word_le_nat_alt)
  then show ?thesis by (simp add: drop_bit_eq_div unat_div)
qed

function writeVarint :: "u64 \<Rightarrow> bytes" where
  "writeVarint v = (if v \<ge> 0x80 then (ucast v OR 0x80) # writeVarint (drop_bit 7 v) else [ucast v])"
  by pat_completeness auto
termination by (relation "measure unat") (simp_all add: drop_7_less)

declare writeVarint.simps [simp del]

definition writeTag :: "nat \<Rightarrow> nat \<Rightarrow> bytes" where
  "writeTag fieldNum wireType = writeVarint (push_bit 3 (of_nat fieldNum) OR of_nat wireType)"

definition WriteVarintField :: "nat \<Rightarrow> u64 \<Rightarrow> bytes" where
  "WriteVarintField fieldNum v = writeTag fieldNum WireVarint @ writeVarint v"

definition WriteBytesField :: "nat \<Rightarrow> bytes \<Rightarrow> bytes" where
  "WriteBytesField fieldNum b = writeTag fieldNum WireBytes @ writeVarint (of_nat (length b)) @ b"

definition WriteBoolField :: "nat \<Rightarrow> bool \<Rightarrow> bytes" where
  "WriteBoolField fieldNum v = (if v then WriteVarintField fieldNum 1 else WriteVarintField fieldNum 0)"

definition WriteFixed64Field :: "nat \<Rightarrow> u64 \<Rightarrow> bytes" where
  "WriteFixed64Field fieldNum v = writeTag fieldNum WireFixed64 @ put64_le v"

definition WriteFixed32Field :: "nat \<Rightarrow> u32 \<Rightarrow> bytes" where
  "WriteFixed32Field fieldNum v = writeTag fieldNum WireFixed32 @ put32_le v"

section \<open>Varints\<close>

text \<open>A reader with the given bytes before it.\<close>

definition ahead :: "bytes \<Rightarrow> Reader \<Rightarrow> bool" where
  "ahead bs r \<longleftrightarrow> rd_pos r \<le> length (rd_data r) \<and> take (length bs) (drop (rd_pos r) (rd_data r)) = bs"

definition advance :: "nat \<Rightarrow> Reader \<Rightarrow> Reader" where
  "advance n r = r\<lparr>rd_pos := rd_pos r + n\<rparr>"

lemma advance_simps [simp]:
  "rd_data (advance n r) = rd_data r" "rd_pos (advance n r) = rd_pos r + n"
  "advance m (advance n r) = advance (n + m) r" "advance 0 r = r"
  by (simp_all add: advance_def add.assoc)

lemma ahead_length: "ahead bs r \<Longrightarrow> rd_pos r + length bs \<le> length (rd_data r)"
proof -
  assume a: "ahead bs r"
  then have "length (take (length bs) (drop (rd_pos r) (rd_data r))) = length bs" by (simp add: ahead_def)
  then show ?thesis using a by (simp add: ahead_def min_def split: if_splits)
qed

lemma ahead_append: "ahead (bs @ cs) r \<longleftrightarrow> ahead bs r \<and> ahead cs (advance (length bs) r)"
proof
  assume a: "ahead (bs @ cs) r"
  have l: "rd_pos r + length (bs @ cs) \<le> length (rd_data r)" by (rule ahead_length [OF a])
  have "take (length bs + length cs) (drop (rd_pos r) (rd_data r)) = bs @ cs" using a by (simp add: ahead_def)
  then have "take (length bs) (drop (rd_pos r) (rd_data r)) @
      take (length cs) (drop (length bs) (drop (rd_pos r) (rd_data r))) = bs @ cs" by (simp only: take_add)
  then show "ahead bs r \<and> ahead cs (advance (length bs) r)"
    using a l by (simp add: ahead_def add.commute append_eq_append_conv)
next
  assume "ahead bs r \<and> ahead cs (advance (length bs) r)"
  then show "ahead (bs @ cs) r" by (simp add: ahead_def take_add add.commute)
qed

lemma ahead_Cons:
  assumes "ahead (b # cs) r"
  shows "rd_pos r < length (rd_data r)" "rd_data r ! rd_pos r = b" "ahead cs (advance 1 r)"
proof -
  show l: "rd_pos r < length (rd_data r)" using ahead_length [OF assms] by simp
  have "drop (rd_pos r) (rd_data r) = rd_data r ! rd_pos r # drop (Suc (rd_pos r)) (rd_data r)"
    by (rule Cons_nth_drop_Suc [OF l, symmetric])
  then show "rd_data r ! rd_pos r = b" "ahead cs (advance 1 r)" using assms l by (simp_all add: ahead_def)
qed

lemma mask7: "(0x7f :: 'a::len word) = mask 7"
  by (simp add: mask_eq_exp_minus_1)

lemma bit7: "bit (0x80 :: byte) n \<longleftrightarrow> n = 7" "bit (0x80 :: u64) n \<longleftrightarrow> n = 7" "bit (0x80 :: int) n \<longleftrightarrow> n = 7"
  using bit_exp_iff [of 7 n, where 'a = byte] bit_exp_iff [of 7 n, where 'a = u64] bit_exp_iff [of 7 n, where 'a = int]
  by auto

lemma small_high_bits: "v < 0x80 \<Longrightarrow> 7 \<le> n \<Longrightarrow> \<not> bit (v :: u64) n"
proof -
  assume "v < 0x80" and n: "7 \<le> n"
  then have "unat v < 2 ^ 7" by (simp add: word_less_nat_alt)
  then have "drop_bit 7 v = 0" by (simp add: word_unat_eq_iff drop_bit_eq_div unat_div)
  then have "bit (drop_bit 7 v) (n - 7) = False" by simp
  then show ?thesis using n by (simp add: bit_drop_bit_eq)
qed

lemma last_byte:
  assumes "v < 0x80"
  shows "(ucast (v :: u64) :: byte) AND 0x80 = 0" "ucast ((ucast v :: byte) AND 0x7f) = v"
proof -
  have h: "n < 7" if "bit v n" for n using small_high_bits [OF assms, of n] that by linarith
  show "(ucast v :: byte) AND 0x80 = 0"
    by (rule bit_word_eqI) (auto simp: bit_simps bit7 dest: h)
  show "ucast ((ucast v :: byte) AND 0x7f) = v"
    unfolding mask7 by (rule bit_word_eqI) (use h in \<open>fastforce simp: bit_simps\<close>)
qed

lemma more_byte:
  "((ucast (v :: u64) OR 0x80) :: byte) AND 0x80 \<noteq> 0"
  "ucast (((ucast (v :: u64) OR 0x80) :: byte) AND 0x7f) = v AND mask 7"
proof -
  have "bit (((ucast v OR 0x80) :: byte) AND 0x80) 7" by (simp add: bit_simps bit7)
  then show "((ucast v OR 0x80) :: byte) AND 0x80 \<noteq> 0" by (metis bit_0_eq bot_apply bot_bool_def)
  show "ucast (((ucast v OR 0x80) :: byte) AND 0x7f) = v AND mask 7"
    unfolding mask7 by (rule bit_word_eqI) (auto simp: bit_simps bit7)
qed

lemma varint_step:
  "(res OR push_bit s (v AND mask 7)) OR push_bit (s + 7) (drop_bit 7 (v :: u64)) = res OR push_bit s v"
proof (rule bit_word_eqI)
  fix n assume "n < LENGTH(64)"
  have "bit v (n - s) = (bit v (n - s) \<and> n - s < 7) \<or> (bit v (n - s) \<and> 7 \<le> n - s)" by linarith
  then show "bit ((res OR push_bit s (v AND mask 7)) OR push_bit (s + 7) (drop_bit 7 v)) n = bit (res OR push_bit s v) n"
    by (cases "s + 7 \<le> n") (auto simp: bit_simps)
qed

lemma varint_loop_write:
  assumes "ahead (writeVarint v) r" and "0 < n" and "n = 10 \<or> unat v < 2 ^ (7 * n)" and "n \<le> 10"
  shows "varint_loop n s res r = (Some (res OR push_bit s v), advance (length (writeVarint v)) r)"
  using assms
proof (induction v arbitrary: n s res r rule: writeVarint.induct)
  case (1 v)
  obtain k where n: "n = Suc k" using 1(3) by (cases n) auto
  show ?case
  proof (cases "v \<ge> 0x80")
    case False
    then have w: "writeVarint v = [ucast v]" by (subst writeVarint.simps) simp
    show ?thesis
      using ahead_Cons [OF 1(2) [unfolded w]] last_byte [of v] False
      by (simp add: n w rd_EOF_def Let_def not_le advance_def)
  next
    case True
    then have w: "writeVarint v = (ucast v OR 0x80) # writeVarint (drop_bit 7 v)" by (subst writeVarint.simps) simp
    note a = ahead_Cons [OF 1(2) [unfolded w]]
    have u: "unat (drop_bit 7 v) = unat v div 128" by (simp add: drop_bit_eq_div unat_div)
    have lt: "unat v < 2 ^ 64" using unsigned_less [of v] by simp
    have big: "128 \<le> unat v" using True by (simp add: word_le_nat_alt)
    have "0 < k"
    proof (rule ccontr)
      assume "\<not> 0 < k"
      then have "unat v < 2 ^ 7" using 1(4) n by simp
      then show False using big by simp
    qed
    moreover have "unat v div 128 < 2 ^ (7 * k)"
    proof (cases "n = 10")
      case True
      then have "unat v < 2 ^ (7 * k) * 128" using lt n by simp
      then show ?thesis by (rule less_mult_imp_div_less)
    next
      case False
      then have "unat v < 2 ^ (7 * k) * 128" using 1(4) n by (simp add: power_add)
      then show ?thesis by (rule less_mult_imp_div_less)
    qed
    ultimately have k: "0 < k" "k \<le> 10" "unat (drop_bit 7 v) < 2 ^ (7 * k)"
      using 1(5) n unfolding u by simp_all
    show ?thesis
      using 1(1) [OF True a(3), of k "s + 7" "res OR push_bit s (v AND mask 7)"] k a(1,2) more_byte [of v] varint_step [of res s v]
      by (simp add: n w rd_EOF_def Let_def not_le advance_def)
  qed
qed

lemma ReadVarint_write:
  "ahead (writeVarint v) r \<Longrightarrow> ReadVarint r = (Some v, advance (length (writeVarint v)) r)"
  unfolding ReadVarint_def using varint_loop_write [of v r 10 0 0] by simp

section \<open>Fields\<close>

text \<open>What a message consists of.\<close>

datatype pb_field = PbVarint nat u64 | PbFixed64 nat u64 | PbBytes nat bytes | PbFixed32 nat u32

fun write_field :: "pb_field \<Rightarrow> bytes" where
  "write_field (PbVarint n v) = WriteVarintField n v"
| "write_field (PbFixed64 n v) = WriteFixed64Field n v"
| "write_field (PbBytes n b) = WriteBytesField n b"
| "write_field (PbFixed32 n v) = WriteFixed32Field n v"

fun field_num :: "pb_field \<Rightarrow> nat" where
  "field_num (PbVarint n v) = n" | "field_num (PbFixed64 n v) = n"
| "field_num (PbBytes n b) = n" | "field_num (PbFixed32 n v) = n"

fun field_wire :: "pb_field \<Rightarrow> nat" where
  "field_wire (PbVarint n v) = WireVarint" | "field_wire (PbFixed64 n v) = WireFixed64"
| "field_wire (PbBytes n b) = WireBytes" | "field_wire (PbFixed32 n v) = WireFixed32"

text \<open>The bytes behind the tag.\<close>

fun field_body :: "pb_field \<Rightarrow> bytes" where
  "field_body (PbVarint n v) = writeVarint v" | "field_body (PbFixed64 n v) = put64_le v"
| "field_body (PbBytes n b) = writeVarint (of_nat (length b)) @ b" | "field_body (PbFixed32 n v) = put32_le v"

definition field_ok :: "pb_field \<Rightarrow> bool" where
  "field_ok f \<longleftrightarrow> field_num f < 2 ^ 61 \<and> (case f of PbBytes n b \<Rightarrow> length b < 2 ^ 63 | _ \<Rightarrow> True)"

lemma write_field_split: "write_field f = writeTag (field_num f) (field_wire f) @ field_body f"
  by (cases f) (simp_all add: WriteVarintField_def WriteFixed64Field_def WriteBytesField_def WriteFixed32Field_def)

lemma writeVarint_nonempty: "writeVarint v \<noteq> []"
  by (subst writeVarint.simps) simp

lemma tag_value:
  assumes "n < 2 ^ 61" and "w < 8"
  defines "t \<equiv> push_bit 3 (of_nat n) OR of_nat w :: u64"
  shows "unat (drop_bit 3 t) = n" "unat (t AND 7) = w"
proof -
  have w3: "k < 3" if "bit w k" for k
  proof (rule ccontr)
    assume "\<not> k < 3"
    then have "w < 2 ^ k" using assms(2) power_increasing [of 3 k "2::nat"] by simp
    then show False using that by (simp add: bit_nat_def)
  qed
  have n61: "k < 61" if "bit n k" for k
  proof (rule ccontr)
    assume "\<not> k < 61"
    then have "n < 2 ^ k" using assms(1) power_increasing [of 61 k "2::nat"] by linarith
    then show False using that by (simp add: bit_nat_def)
  qed
  have "drop_bit 3 t = of_nat n"
    unfolding t_def by (rule bit_word_eqI) (auto simp: bit_simps dest: w3 n61)
  then show "unat (drop_bit 3 t) = n" using assms(1) by (simp add: unat_of_nat)
  have "t AND 7 = t AND mask 3" by (simp add: mask_eq_exp_minus_1)
  also have "\<dots> = of_nat w"
    unfolding t_def by (rule bit_word_eqI) (auto simp: bit_simps dest: w3)
  finally show "unat (t AND 7) = w" using assms(2) by (simp add: unat_of_nat)
qed

lemma TryReadTag_write:
  assumes "ahead (writeTag n w) r" and "n < 2 ^ 61" and "w < 8"
  shows "TryReadTag r = (Some (n, w), advance (length (writeTag n w)) r)"
proof -
  have "\<not> rd_EOF r"
    using ahead_length [OF assms(1)] writeVarint_nonempty by (simp add: rd_EOF_def writeTag_def not_le)
       (metis add_less_same_cancel1 length_greater_0_conv less_add_same_cancel1 order_less_le_trans)
  then show ?thesis
    using ReadVarint_write [OF assms(1) [unfolded writeTag_def]] tag_value [OF assms(2,3)]
    by (simp add: TryReadTag_def writeTag_def)
qed

lemma field_wire_less: "field_wire f < 8"
  by (cases f) (simp_all add: WireVarint_def WireFixed64_def WireBytes_def WireFixed32_def)

lemma ReadBytes_write:
  assumes "ahead (writeVarint (of_nat (length b)) @ b) r" and "length b < 2 ^ 63"
  shows "ReadBytes r = (Some b, advance (length (writeVarint (of_nat (length b)) @ b)) r)"
proof -
  let ?v = "writeVarint (of_nat (length b))"
  have a: "ahead ?v r" "ahead b (advance (length ?v) r)" using assms(1) by (simp_all add: ahead_append)
  have u: "unat (of_nat (length b) :: u64) = length b" using assms(2) by (simp add: unat_of_nat)
  show ?thesis
    using ReadVarint_write [OF a(1)] ahead_length [OF a(2)] a(2)
    by (auto simp: ReadBytes_def u Remaining_def gslice_def ahead_def advance_def add.assoc)
qed

lemma SkipField_write:
  assumes "ahead (field_body f) r" and "field_ok f"
  shows "SkipField (field_wire f) r = (True, advance (length (field_body f)) r)"
proof (cases f)
  case (PbVarint n v)
  then show ?thesis using assms(1) ReadVarint_write [of v r] by (simp add: SkipField_def WireVarint_def)
next
  case (PbFixed64 n v)
  then show ?thesis
    using ahead_length [OF assms(1)] by (simp add: SkipField_def WireVarint_def WireFixed64_def Remaining_def advance_def)
next
  case (PbBytes n b)
  then show ?thesis
    using assms ReadBytes_write [of b r] by (simp add: SkipField_def WireVarint_def WireFixed64_def WireBytes_def field_ok_def)
next
  case (PbFixed32 n v)
  then show ?thesis
    using ahead_length [OF assms(1)]
    by (simp add: SkipField_def WireVarint_def WireFixed64_def WireBytes_def WireFixed32_def Remaining_def advance_def)
qed

section \<open>Reading a message\<close>

text \<open>The loop over the fields of a message: \<open>rd\<close> reads the body of a field into the value. Each round
  reads at least one byte, so one round more than there are bytes is enough; running out of rounds
  is \<open>None\<close>.\<close>

fun read_message :: "('a \<Rightarrow> nat \<Rightarrow> nat \<Rightarrow> Reader \<Rightarrow> 'a option \<times> Reader) \<Rightarrow> nat \<Rightarrow> 'a \<Rightarrow> Reader \<Rightarrow> 'a option option" where
  "read_message rd 0 out r = None"
| "read_message rd (Suc n) out r =
    (case TryReadTag r of
       (None, r) \<Rightarrow> Some (Some out)
     | (Some (fieldNum, wireType), r) \<Rightarrow>
        (case rd out fieldNum wireType r of
           (None, r) \<Rightarrow> Some None
         | (Some out, r) \<Rightarrow> read_message rd n out r))"

text \<open>Readers only move forward.\<close>

lemma varint_loop_pos: "varint_loop n s res r = (v, r') \<Longrightarrow> rd_pos r \<le> rd_pos r' \<and> rd_data r' = rd_data r \<and>
    (rd_pos r' \<le> length (rd_data r) \<or> rd_pos r' = rd_pos r) \<and> (0 < n \<longrightarrow> \<not> rd_EOF r \<longrightarrow> rd_pos r < rd_pos r')"
proof (induction n arbitrary: s res r)
  case (Suc n)
  show ?case
  proof (cases "rd_EOF r")
    case False
    show ?thesis
    proof (cases "(rd_data r ! rd_pos r) AND 0x80 = 0")
      case True
      then show ?thesis using Suc.prems False by (auto simp: Let_def rd_EOF_def)
    next
      case b: False
      then have "varint_loop n (s + 7) (res OR push_bit s (ucast ((rd_data r ! rd_pos r) AND 0x7f))) (r\<lparr>rd_pos := rd_pos r + 1\<rparr>) = (v, r')"
        using Suc.prems False by (simp add: Let_def)
      from Suc.IH [OF this] show ?thesis using False by (auto simp: rd_EOF_def)
    qed
  qed (use Suc.prems in auto)
qed auto

lemma ReadVarint_pos: "ReadVarint r = (v, r') \<Longrightarrow> rd_pos r \<le> rd_pos r' \<and> rd_data r' = rd_data r \<and>
    (rd_pos r \<le> length (rd_data r) \<longrightarrow> rd_pos r' \<le> length (rd_data r)) \<and> (\<not> rd_EOF r \<longrightarrow> rd_pos r < rd_pos r')"
  unfolding ReadVarint_def by (drule varint_loop_pos) auto

lemma TryReadTag_pos:
  assumes "TryReadTag r = (Some t, r')"
  shows "rd_pos r < rd_pos r' \<and> rd_data r' = rd_data r \<and> rd_pos r < length (rd_data r)"
proof -
  have "\<not> rd_EOF r" using assms by (auto simp: TryReadTag_def)
  moreover obtain v where "ReadVarint r = (v, r')"
    using assms by (auto simp: TryReadTag_def split: if_splits prod.splits option.splits)
  ultimately show ?thesis using ReadVarint_pos by (fastforce simp: rd_EOF_def)
qed

lemma ReadBytes_pos: "ReadBytes r = (v, r') \<Longrightarrow> rd_pos r \<le> rd_pos r' \<and> rd_data r' = rd_data r"
  using ReadVarint_pos [of r] by (auto simp: ReadBytes_def split: prod.splits option.splits if_splits)

lemma SkipField_pos: "SkipField w r = (ok, r') \<Longrightarrow> rd_pos r \<le> rd_pos r' \<and> rd_data r' = rd_data r"
  using ReadVarint_pos [of r] ReadBytes_pos [of r]
  by (auto simp: SkipField_def split: prod.splits if_splits)

text \<open>The meaning of the fields of a message, in their order.\<close>

fun meanings :: "(pb_field \<Rightarrow> 'a \<Rightarrow> 'a option) \<Rightarrow> pb_field list \<Rightarrow> 'a \<Rightarrow> 'a option" where
  "meanings meaning [] out = Some out"
| "meanings meaning (f # fs) out = (case meaning f out of None \<Rightarrow> None | Some out \<Rightarrow> meanings meaning fs out)"

text \<open>What the loop relies on: reading the body of a field never moves the reader back.\<close>

locale field_reader =
  fixes rd :: "'a \<Rightarrow> nat \<Rightarrow> nat \<Rightarrow> Reader \<Rightarrow> 'a option \<times> Reader"
    and meaning :: "pb_field \<Rightarrow> 'a \<Rightarrow> 'a option"
    and wanted :: "pb_field \<Rightarrow> bool"
  assumes forward: "rd out n w r = (v, r') \<Longrightarrow> rd_pos r \<le> rd_pos r' \<and> rd_data r' = rd_data r"
    and reads: "wanted f \<Longrightarrow> ahead (field_body f) r \<Longrightarrow>
      (case meaning f out of
         None \<Rightarrow> \<exists>r'. rd out (field_num f) (field_wire f) r = (None, r')
       | Some out' \<Rightarrow> rd out (field_num f) (field_wire f) r = (Some out', advance (length (field_body f)) r))"
    and wanted_ok: "wanted f \<Longrightarrow> field_ok f"
begin

lemma enough_rounds: "length (rd_data r) - rd_pos r < n \<Longrightarrow> read_message rd n out r \<noteq> None"
proof (induction n arbitrary: out r)
  case (Suc n)
  obtain t r1 where t: "TryReadTag r = (t, r1)" by fastforce
  show ?case
  proof (cases t)
    case (Some tag)
    obtain m w where tag: "tag = (m, w)" by fastforce
    obtain v r2 where v: "rd out m w r1 = (v, r2)" by fastforce
    have p: "rd_pos r < rd_pos r1" "rd_data r1 = rd_data r" "rd_pos r < length (rd_data r)"
      using TryReadTag_pos t Some by blast+
    have "length (rd_data r2) - rd_pos r2 < n"
      using p forward [OF v] Suc.prems by auto
    then show ?thesis using Suc.IH t Some tag v by (cases v) auto
  qed (use t in simp)
qed simp

lemma read_written:
  assumes "list_all wanted fs" and "ahead (concat (map write_field fs)) r"
    and "rd_pos r + length (concat (map write_field fs)) = length (rd_data r)" and "length (concat (map write_field fs)) < n"
  shows "read_message rd n out r = Some (meanings meaning fs out)"
  using assms
proof (induction fs arbitrary: n out r)
  case Nil
  then obtain k where "n = Suc k" by (cases n) auto
  then show ?case using Nil.prems(3) by (simp add: TryReadTag_def rd_EOF_def)
next
  case (Cons f fs)
  let ?t = "writeTag (field_num f) (field_wire f)"
  have ok: "wanted f" "field_ok f" using Cons.prems(1) wanted_ok by simp_all
  have a: "ahead ?t r" "ahead (field_body f) (advance (length ?t) r)"
      "ahead (concat (map write_field fs)) (advance (length (field_body f)) (advance (length ?t) r))"
    using Cons.prems(2) by (simp_all add: write_field_split [of f] ahead_append del: advance_simps(3))
  have t: "TryReadTag r = (Some (field_num f, field_wire f), advance (length ?t) r)"
    using TryReadTag_write [OF a(1)] ok(2) field_wire_less by (simp add: field_ok_def)
  obtain k where n: "n = Suc k" using Cons.prems(4) by (cases n) auto
  have "?t \<noteq> []" by (simp add: writeTag_def writeVarint_nonempty)
  then have k: "length (concat (map write_field fs)) < k"
    using Cons.prems(4) n by (cases ?t) (simp_all add: write_field_split [of f])
  show ?case
  proof (cases "meaning f out")
    case None
    then show ?thesis using reads [OF ok(1) a(2), of out] t n by auto
  next
    case (Some out')
    have "read_message rd k out' (advance (length (field_body f)) (advance (length ?t) r)) = Some (meanings meaning fs out')"
      using Cons.prems(1,3) k a(3) by (intro Cons.IH) (simp_all add: write_field_split [of f])
    then show ?thesis using reads [OF ok(1) a(2), of out] t n Some by simp
  qed
qed

end

end
