(* ===== verification/GiftPb.thy ===== *)
theory GiftPb
  imports Protowire
begin

text \<open>
  The gift broadcast of the danmaku recorder (\<open>internal/services/danmaku/parse_pb.go\<close>): a protobuf
  message with a repeated message of gifts. The JSON path to the message and the base64 decoding are
  done before; their result is the argument.
\<close>

record sendGiftV2Item =
  gi_giftID :: u64
  gi_giftName :: bytes
  gi_num :: u64
  gi_giftType :: u64
  gi_price :: u64
  gi_totalCoin :: u64
  gi_coinType :: bytes
  gi_tid :: bytes
  gi_timestamp :: u64
  gi_action :: bytes

record sendGiftBroadcast =
  gb_uid :: u64
  gb_uname :: bytes
  gb_face :: bytes
  gb_nameColor :: bytes
  gb_guardLevel :: u64
  gb_giftList :: "sendGiftV2Item list"
  gb_switchPresent :: bool
  gb_switchOn :: bool

definition empty_item :: sendGiftV2Item where
  "empty_item = \<lparr>gi_giftID = 0, gi_giftName = [], gi_num = 0, gi_giftType = 0, gi_price = 0, gi_totalCoin = 0,
     gi_coinType = [], gi_tid = [], gi_timestamp = 0, gi_action = []\<rparr>"

definition empty_broadcast :: sendGiftBroadcast where
  "empty_broadcast = \<lparr>gb_uid = 0, gb_uname = [], gb_face = [], gb_nameColor = [], gb_guardLevel = 0, gb_giftList = [],
     gb_switchPresent = False, gb_switchOn = False\<rparr>"

text \<open>Reading a value into a field of the message; on failure the message is given up.\<close>

definition wireInt64 :: "Reader \<Rightarrow> (u64 \<Rightarrow> 'a) \<Rightarrow> 'a option \<times> Reader" where
  "wireInt64 r set_field = (case ReadInt64 r of (v, r) \<Rightarrow> (map_option set_field v, r))"

definition wireString :: "Reader \<Rightarrow> (bytes \<Rightarrow> 'a) \<Rightarrow> 'a option \<times> Reader" where
  "wireString r set_field = (case ReadString r of (v, r) \<Rightarrow> (map_option set_field v, r))"

definition skip_field :: "'a \<Rightarrow> nat \<Rightarrow> Reader \<Rightarrow> 'a option \<times> Reader" where
  "skip_field out wireType r = (case SkipField wireType r of (ok, r) \<Rightarrow> (if ok then Some out else None, r))"

definition applySendGiftV2ItemField :: "sendGiftV2Item \<Rightarrow> nat \<Rightarrow> nat \<Rightarrow> Reader \<Rightarrow> sendGiftV2Item option \<times> Reader" where
  "applySendGiftV2ItemField out fieldNum wireType r =
    (if fieldNum = 1 then wireInt64 r (\<lambda>v. out\<lparr>gi_giftID := v\<rparr>)
     else if fieldNum = 2 then wireString r (\<lambda>v. out\<lparr>gi_giftName := v\<rparr>)
     else if fieldNum = 3 then wireInt64 r (\<lambda>v. out\<lparr>gi_num := v\<rparr>)
     else if fieldNum = 4 then wireInt64 r (\<lambda>v. out\<lparr>gi_giftType := v\<rparr>)
     else if fieldNum = 5 then wireInt64 r (\<lambda>v. out\<lparr>gi_price := v\<rparr>)
     else if fieldNum = 7 then wireInt64 r (\<lambda>v. out\<lparr>gi_totalCoin := v\<rparr>)
     else if fieldNum = 8 then wireString r (\<lambda>v. out\<lparr>gi_coinType := v\<rparr>)
     else if fieldNum = 9 then wireString r (\<lambda>v. out\<lparr>gi_tid := v\<rparr>)
     else if fieldNum = 10 then wireInt64 r (\<lambda>v. out\<lparr>gi_timestamp := v\<rparr>)
     else if fieldNum = 18 then wireString r (\<lambda>v. out\<lparr>gi_action := v\<rparr>)
     else skip_field out wireType r)"

definition parseSendGiftV2Item :: "bytes \<Rightarrow> sendGiftV2Item option option" where
  "parseSendGiftV2Item data = read_message applySendGiftV2ItemField (length data + 1) empty_item (NewReader data)"

text \<open>An item is always parsed within its rounds (\<open>parse_item_total\<close>), so that the missing result does
  not occur.\<close>

definition applySendGiftBroadcastField :: "sendGiftBroadcast \<Rightarrow> nat \<Rightarrow> nat \<Rightarrow> Reader \<Rightarrow> sendGiftBroadcast option \<times> Reader" where
  "applySendGiftBroadcastField out fieldNum wireType r =
    (if fieldNum = 1 then wireInt64 r (\<lambda>v. out\<lparr>gb_uid := v\<rparr>)
     else if fieldNum = 2 then wireString r (\<lambda>v. out\<lparr>gb_uname := v\<rparr>)
     else if fieldNum = 3 then wireString r (\<lambda>v. out\<lparr>gb_face := v\<rparr>)
     else if fieldNum = 4 then wireString r (\<lambda>v. out\<lparr>gb_nameColor := v\<rparr>)
     else if fieldNum = 5 then wireInt64 r (\<lambda>v. out\<lparr>gb_guardLevel := v\<rparr>)
     else if fieldNum = 10 then
       (case ReadBytes r of
          (None, r) \<Rightarrow> (None, r)
        | (Some msg, r) \<Rightarrow>
           (case parseSendGiftV2Item msg of
              Some (Some item) \<Rightarrow> (Some (out\<lparr>gb_giftList := gb_giftList out @ [item]\<rparr>), r)
            | _ \<Rightarrow> (None, r)))
     else if fieldNum = 11 then
       (case ReadBool r of
          (None, r) \<Rightarrow> (None, r)
        | (Some v, r) \<Rightarrow> (Some (out\<lparr>gb_switchPresent := True, gb_switchOn := v\<rparr>), r))
     else skip_field out wireType r)"

definition parseSendGiftBroadcast :: "bytes \<Rightarrow> sendGiftBroadcast option option" where
  "parseSendGiftBroadcast data =
    read_message applySendGiftBroadcastField (length data + 1) empty_broadcast (NewReader data)"

text \<open>The gifts of a broadcast: an error, none, or one for each item with the sender of the broadcast.\<close>

record Gift =
  gf_sender :: "u64 \<times> bytes \<times> bytes \<times> bytes \<times> u64"
  gf_item :: sendGiftV2Item

definition parseGiftV2 :: "bytes option option \<Rightarrow> Gift list option" where
  "parseGiftV2 pb =
    (case pb of
       None \<Rightarrow> Some []
     | Some None \<Rightarrow> None
     | Some (Some pbData) \<Rightarrow>
        (case parseSendGiftBroadcast pbData of
           Some (Some broadcast) \<Rightarrow>
             if gb_switchPresent broadcast \<and> \<not> gb_switchOn broadcast then Some []
             else Some (map (\<lambda>item. \<lparr>gf_sender = (gb_uid broadcast, gb_uname broadcast, gb_face broadcast, gb_nameColor broadcast,
                 gb_guardLevel broadcast), gf_item = item\<rparr>) (gb_giftList broadcast))
         | _ \<Rightarrow> None))"

section \<open>The meaning of the fields\<close>

definition item_meaning :: "pb_field \<Rightarrow> sendGiftV2Item \<Rightarrow> sendGiftV2Item option" where
  "item_meaning f out = Some
    (case f of
       PbVarint n v \<Rightarrow>
         if n = 1 then out\<lparr>gi_giftID := v\<rparr> else if n = 3 then out\<lparr>gi_num := v\<rparr> else if n = 4 then out\<lparr>gi_giftType := v\<rparr>
         else if n = 5 then out\<lparr>gi_price := v\<rparr> else if n = 7 then out\<lparr>gi_totalCoin := v\<rparr>
         else if n = 10 then out\<lparr>gi_timestamp := v\<rparr> else out
     | PbBytes n b \<Rightarrow>
         if n = 2 then out\<lparr>gi_giftName := b\<rparr> else if n = 8 then out\<lparr>gi_coinType := b\<rparr> else if n = 9 then out\<lparr>gi_tid := b\<rparr>
         else if n = 18 then out\<lparr>gi_action := b\<rparr> else out
     | _ \<Rightarrow> out)"

text \<open>Fields of the message come with their type, others with any.\<close>

definition item_wanted :: "pb_field \<Rightarrow> bool" where
  "item_wanted f \<longleftrightarrow> field_ok f \<and>
    (field_num f \<in> {1, 3, 4, 5, 7, 10} \<longrightarrow> field_wire f = WireVarint) \<and>
    (field_num f \<in> {2, 8, 9, 18} \<longrightarrow> field_wire f = WireBytes)"

definition broadcast_meaning :: "pb_field \<Rightarrow> sendGiftBroadcast \<Rightarrow> sendGiftBroadcast option" where
  "broadcast_meaning f out =
    (case f of
       PbVarint n v \<Rightarrow> Some
         (if n = 1 then out\<lparr>gb_uid := v\<rparr> else if n = 5 then out\<lparr>gb_guardLevel := v\<rparr>
          else if n = 11 then out\<lparr>gb_switchPresent := True, gb_switchOn := v \<noteq> 0\<rparr> else out)
     | PbBytes n b \<Rightarrow>
         if n = 10 then
           (case parseSendGiftV2Item b of Some (Some item) \<Rightarrow> Some (out\<lparr>gb_giftList := gb_giftList out @ [item]\<rparr>) | _ \<Rightarrow> None)
         else Some (if n = 2 then out\<lparr>gb_uname := b\<rparr> else if n = 3 then out\<lparr>gb_face := b\<rparr>
           else if n = 4 then out\<lparr>gb_nameColor := b\<rparr> else out)
     | _ \<Rightarrow> Some out)"

definition broadcast_wanted :: "pb_field \<Rightarrow> bool" where
  "broadcast_wanted f \<longleftrightarrow> field_ok f \<and>
    (field_num f \<in> {1, 5, 11} \<longrightarrow> field_wire f = WireVarint) \<and>
    (field_num f \<in> {2, 3, 4, 10} \<longrightarrow> field_wire f = WireBytes)"

lemma wireInt64_forward: "wireInt64 r g = (v, r') \<Longrightarrow> rd_pos r \<le> rd_pos r' \<and> rd_data r' = rd_data r"
  by (cases "ReadVarint r") (auto simp: wireInt64_def ReadInt64_def dest: ReadVarint_pos)

lemma wireString_forward: "wireString r h = (w, r') \<Longrightarrow> rd_pos r \<le> rd_pos r' \<and> rd_data r' = rd_data r"
  by (cases "ReadBytes r") (auto simp: wireString_def ReadString_def dest: ReadBytes_pos)

lemma skip_field_forward: "skip_field out t r = (x, r') \<Longrightarrow> rd_pos r \<le> rd_pos r' \<and> rd_data r' = rd_data r"
  by (cases "SkipField t r") (auto simp: skip_field_def dest: SkipField_pos)

lemmas wire_forward = wireInt64_forward wireString_forward skip_field_forward

lemma wire_written:
  "ahead (field_body (PbVarint n v)) r \<Longrightarrow> wireInt64 r g = (Some (g v), advance (length (field_body (PbVarint n v))) r)"
  "ahead (field_body (PbVarint n v)) r \<Longrightarrow> ReadBool r = (Some (v \<noteq> 0), advance (length (field_body (PbVarint n v))) r)"
  "ahead (field_body (PbBytes n b)) r \<Longrightarrow> field_ok (PbBytes n b) \<Longrightarrow>
    wireString r h = (Some (h b), advance (length (field_body (PbBytes n b))) r)"
  "ahead (field_body (PbBytes n b)) r \<Longrightarrow> field_ok (PbBytes n b) \<Longrightarrow>
    ReadBytes r = (Some b, advance (length (field_body (PbBytes n b))) r)"
  "ahead (field_body f) r \<Longrightarrow> field_ok f \<Longrightarrow> skip_field out (field_wire f) r = (Some out, advance (length (field_body f)) r)"
  using ReadVarint_write [of v r] ReadBytes_write [of b r] SkipField_write [of f r]
  by (simp_all add: wireInt64_def ReadInt64_def ReadBool_def wireString_def ReadString_def skip_field_def field_ok_def)

lemma wire_numbers: "WireVarint \<noteq> WireBytes" "WireVarint \<noteq> WireFixed64" "WireVarint \<noteq> WireFixed32"
  "WireBytes \<noteq> WireFixed64" "WireBytes \<noteq> WireFixed32"
  by (simp_all add: WireVarint_def WireBytes_def WireFixed64_def WireFixed32_def)

lemma item_reads:
  assumes "item_wanted f" and a: "ahead (field_body f) r"
  shows "applySendGiftV2ItemField out (field_num f) (field_wire f) r =
    (item_meaning f out, advance (length (field_body f)) r)"
proof -
  have ok: "field_ok f" using assms(1) by (simp add: item_wanted_def)
  show ?thesis
  proof (cases f)
    case (PbVarint n v)
    then have "n \<notin> {2, 8, 9, 18}" using assms(1) wire_numbers by (auto simp: item_wanted_def)
    then show ?thesis
      using a PbVarint wire_written(5) [OF a ok, where out = out]
      by (simp add: applySendGiftV2ItemField_def item_meaning_def wire_written(1) [of n v r, simplified])
  next
    case (PbBytes n b)
    then have "n \<notin> {1, 3, 4, 5, 7, 10}" using assms(1) wire_numbers by (auto simp: item_wanted_def)
    then show ?thesis
      using wire_written(4) [of n b r] a ok PbBytes wire_written(5) [OF a ok, where out = out]
      by (simp add: applySendGiftV2ItemField_def item_meaning_def wireString_def ReadString_def)
  next
    case (PbFixed64 n v)
    then have "n \<notin> {1, 3, 4, 5, 7, 10, 2, 8, 9, 18}" using assms(1) wire_numbers by (auto simp: item_wanted_def)
    then show ?thesis
      using wire_written(5) [OF a ok, where out = out] PbFixed64 by (simp add: applySendGiftV2ItemField_def item_meaning_def)
  next
    case (PbFixed32 n v)
    then have "n \<notin> {1, 3, 4, 5, 7, 10, 2, 8, 9, 18}" using assms(1) wire_numbers by (auto simp: item_wanted_def)
    then show ?thesis
      using wire_written(5) [OF a ok, where out = out] PbFixed32 by (simp add: applySendGiftV2ItemField_def item_meaning_def)
  qed
qed

interpretation item: field_reader applySendGiftV2ItemField item_meaning item_wanted
proof unfold_locales
  show "rd_pos r \<le> rd_pos r' \<and> rd_data r' = rd_data r" if "applySendGiftV2ItemField out n w r = (v, r')" for out n w r v r'
    using that wire_forward unfolding applySendGiftV2ItemField_def by (simp split: if_splits)
  show "case item_meaning f out of
      None \<Rightarrow> \<exists>r'. applySendGiftV2ItemField out (field_num f) (field_wire f) r = (None, r')
    | Some out' \<Rightarrow> applySendGiftV2ItemField out (field_num f) (field_wire f) r = (Some out', advance (length (field_body f)) r)"
    if "item_wanted f" "ahead (field_body f) r" for f r out
    using item_reads [OF that, of out] by (simp split: option.splits)
qed (simp add: item_wanted_def)

lemma parse_item_total: "parseSendGiftV2Item data \<noteq> None"
  unfolding parseSendGiftV2Item_def by (rule item.enough_rounds) (simp add: NewReader_def)

lemma broadcast_reads:
  assumes "broadcast_wanted f" and a: "ahead (field_body f) r"
  shows "applySendGiftBroadcastField out (field_num f) (field_wire f) r =
    (broadcast_meaning f out, advance (length (field_body f)) r)"
proof -
  have ok: "field_ok f" using assms(1) by (simp add: broadcast_wanted_def)
  show ?thesis
  proof (cases f)
    case (PbVarint n v)
    then have "n \<notin> {2, 3, 4, 10}" using assms(1) wire_numbers by (auto simp: broadcast_wanted_def)
    then show ?thesis
      using a PbVarint wire_written(5) [OF a ok, where out = out]
      by (simp add: applySendGiftBroadcastField_def broadcast_meaning_def wire_written(1,2) [of n v r, simplified])
  next
    case (PbBytes n b)
    then have "n \<notin> {1, 5, 11}" using assms(1) wire_numbers by (auto simp: broadcast_wanted_def)
    then show ?thesis
      using wire_written(4) [of n b r] a ok PbBytes wire_written(5) [OF a ok, where out = out]
      by (simp add: applySendGiftBroadcastField_def broadcast_meaning_def wireString_def ReadString_def split: option.split)
  next
    case (PbFixed64 n v)
    then have "n \<notin> {1, 5, 11, 2, 3, 4, 10}" using assms(1) wire_numbers by (auto simp: broadcast_wanted_def)
    then show ?thesis
      using wire_written(5) [OF a ok, where out = out] PbFixed64 by (simp add: applySendGiftBroadcastField_def broadcast_meaning_def)
  next
    case (PbFixed32 n v)
    then have "n \<notin> {1, 5, 11, 2, 3, 4, 10}" using assms(1) wire_numbers by (auto simp: broadcast_wanted_def)
    then show ?thesis
      using wire_written(5) [OF a ok, where out = out] PbFixed32 by (simp add: applySendGiftBroadcastField_def broadcast_meaning_def)
  qed
qed

interpretation broadcast: field_reader applySendGiftBroadcastField broadcast_meaning broadcast_wanted
proof unfold_locales
  show "rd_pos r \<le> rd_pos r' \<and> rd_data r' = rd_data r" if "applySendGiftBroadcastField out n w r = (v, r')" for out n w r v r'
  proof -
    have "rd_pos r \<le> rd_pos r' \<and> rd_data r' = rd_data r" if "n = 10"
      using that \<open>applySendGiftBroadcastField out n w r = (v, r')\<close> ReadBytes_pos [of r]
      by (simp add: applySendGiftBroadcastField_def split: prod.splits option.splits)
    moreover have "rd_pos r \<le> rd_pos r' \<and> rd_data r' = rd_data r" if "n = 11"
      using that \<open>applySendGiftBroadcastField out n w r = (v, r')\<close> ReadVarint_pos [of r]
      by (simp add: applySendGiftBroadcastField_def ReadBool_def split: prod.splits option.splits)
    ultimately show ?thesis
      using that wire_forward unfolding applySendGiftBroadcastField_def by (simp split: if_splits)
  qed
  show "case broadcast_meaning f out of
      None \<Rightarrow> \<exists>r'. applySendGiftBroadcastField out (field_num f) (field_wire f) r = (None, r')
    | Some out' \<Rightarrow> applySendGiftBroadcastField out (field_num f) (field_wire f) r = (Some out', advance (length (field_body f)) r)"
    if "broadcast_wanted f" "ahead (field_body f) r" for f r out
    using broadcast_reads [OF that, of out] by (simp split: option.splits)
qed (simp add: broadcast_wanted_def)

text \<open>C21. A gift broadcast written field by field is read back: whatever the order, repetitions and
  unknown fields, the parsed message is the meaning of its fields, the last one winning and the gifts
  in their order; and on any bytes at all the parser comes to an end with a message or a failure.\<close>

theorem gift_broadcast_roundtrip:
  assumes "list_all broadcast_wanted fs" and "list_all item_wanted gs"
  shows "parseSendGiftBroadcast (concat (map write_field fs)) = Some (meanings broadcast_meaning fs empty_broadcast) \<and>
    parseSendGiftV2Item (concat (map write_field gs)) = Some (meanings item_meaning gs empty_item) \<and>
    parseSendGiftBroadcast data \<noteq> None"
proof (intro conjI)
  show "parseSendGiftBroadcast (concat (map write_field fs)) = Some (meanings broadcast_meaning fs empty_broadcast)"
    using broadcast.read_written [OF assms(1), of "NewReader (concat (map write_field fs))"]
    by (simp add: parseSendGiftBroadcast_def NewReader_def ahead_def del: read_message.simps)
  show "parseSendGiftV2Item (concat (map write_field gs)) = Some (meanings item_meaning gs empty_item)"
    using item.read_written [OF assms(2), of "NewReader (concat (map write_field gs))"]
    by (simp add: parseSendGiftV2Item_def NewReader_def ahead_def del: read_message.simps)
  show "parseSendGiftBroadcast data \<noteq> None"
    unfolding parseSendGiftBroadcast_def by (rule broadcast.enough_rounds) (simp add: NewReader_def)
qed

theorem gift_broadcast_roundtrip_witness:
  "parseSendGiftBroadcast (concat (map write_field [PbVarint 1 5, PbFixed32 99 7, PbBytes 10 (concat (map write_field [PbVarint 3 2]))])) =
    Some (Some (empty_broadcast\<lparr>gb_uid := 5, gb_giftList := [empty_item\<lparr>gi_num := 2\<rparr>]\<rparr>))"
proof -
  have body: "concat (map write_field [PbVarint 3 2]) = [24, 2]" by code_simp
  have i: "parseSendGiftV2Item [24, 2] = Some (Some (empty_item\<lparr>gi_num := 2\<rparr>))"
    using gift_broadcast_roundtrip [of "[]" "[PbVarint 3 2]"] unfolding body
    by (simp add: item_wanted_def field_ok_def item_meaning_def)
  show ?thesis
    unfolding body
    using gift_broadcast_roundtrip [of "[PbVarint 1 5, PbFixed32 99 7, PbBytes 10 [24, 2]]" "[]"] i
    by (simp add: broadcast_wanted_def field_ok_def broadcast_meaning_def empty_broadcast_def
        del: write_field.simps map_eq_Cons_conv list.map concat.simps)
qed

end
