(* ===== verification/RoundRobin.thy ===== *)
theory RoundRobin
  imports Main
begin

text \<open>
  The round-robin scheduler of \<open>pkg/coordinator/round_robin.go\<close>: participants with a mailbox of one
  signal, the cursor \<open>rr\<close>, and the goroutines that run \<open>loop\<close>. What a call or one round of a loop does
  under the mutex is one event. A loop evaluates the field \<open>stop\<close> anew for each \<open>select\<close>, so the state
  keeps for each loop the channel it waits on. The answers of the ready functions are a parameter of
  the tick; durations are integers of nanoseconds.
\<close>

section \<open>State and registration\<close>

record participant =
  pt_id :: nat
  pt_signal :: bool

datatype loop_state = LoopStarting | LoopWaiting nat | LoopTicking

record RoundRobin =
  rr_cyclePeriod :: int
  rr_minTick :: int
  rr_participants :: "participant list"
  rr_nextID :: nat
  rr_rr :: nat
  rr_stop :: nat
  rr_closed :: "nat list"
  rr_running :: bool
  rr_loops :: "loop_state list"

definition DefaultMinTick :: int where "DefaultMinTick = 2000000000"

definition NewRoundRobin :: "int \<Rightarrow> RoundRobin" where
  "NewRoundRobin cyclePeriod =
    \<lparr>rr_cyclePeriod = (if cyclePeriod \<le> 0 then 10000000000 else cyclePeriod), rr_minTick = DefaultMinTick,
     rr_participants = [], rr_nextID = 0, rr_rr = 0, rr_stop = 0, rr_closed = [], rr_running = False, rr_loops = []\<rparr>"

definition SetCyclePeriod :: "int \<Rightarrow> RoundRobin \<Rightarrow> RoundRobin" where
  "SetCyclePeriod d r = (if d \<le> 0 then r else r\<lparr>rr_cyclePeriod := d\<rparr>)"

definition SetMinTick :: "int \<Rightarrow> RoundRobin \<Rightarrow> RoundRobin" where
  "SetMinTick d r = (if d > 0 then r\<lparr>rr_minTick := d\<rparr> else r)"

text \<open>A new stop channel gets the next name; the loop is started as a goroutine of its own.\<close>

definition ensureLoopLocked :: "RoundRobin \<Rightarrow> RoundRobin" where
  "ensureLoopLocked r =
    (if rr_running r then r
     else r\<lparr>rr_stop := Suc (rr_stop r), rr_running := True, rr_loops := rr_loops r @ [LoopStarting]\<rparr>)"

definition rr_Register :: "RoundRobin \<Rightarrow> nat \<times> RoundRobin" where
  "rr_Register r =
    (let r = r\<lparr>rr_nextID := Suc (rr_nextID r)\<rparr>;
         r = r\<lparr>rr_participants := rr_participants r @ [\<lparr>pt_id = rr_nextID r, pt_signal = False\<rparr>]\<rparr>
     in (rr_nextID r, ensureLoopLocked r))"

text \<open>The participant is overwritten by the last one and the last one cut off.\<close>

fun swap_remove :: "nat \<Rightarrow> participant list \<Rightarrow> participant list \<Rightarrow> participant list" where
  "swap_remove i [] ps = ps"
| "swap_remove i (p # rest) ps =
    (if pt_id p = i then butlast (ps[length ps - length (p # rest) := List.last ps]) else swap_remove i rest ps)"

definition rr_unregister :: "nat \<Rightarrow> RoundRobin \<Rightarrow> RoundRobin option" where
  "rr_unregister i r =
    (let r = r\<lparr>rr_participants := swap_remove i (rr_participants r) (rr_participants r)\<rparr>;
         n = length (rr_participants r);
         r = (if n > 0 \<and> rr_rr r \<ge> n then r\<lparr>rr_rr := rr_rr r mod n\<rparr> else r) in
     if n = 0 \<and> rr_running r then
       (if rr_stop r \<in> set (rr_closed r) then None
        else Some (r\<lparr>rr_closed := rr_stop r # rr_closed r, rr_running := False\<rparr>))
     else Some r)"

section \<open>One tick\<close>

definition tickIntervalLocked :: "RoundRobin \<Rightarrow> int" where
  "tickIntervalLocked r =
    (let n = length (rr_participants r) in
     if n \<le> 1 then rr_cyclePeriod r
     else (let d = rr_cyclePeriod r div int n in if d < rr_minTick r then rr_minTick r else d))"

text \<open>The scan for a ready participant from the cursor on: the index of the target and the new cursor.\<close>

fun rr_scan :: "(nat \<Rightarrow> bool) \<Rightarrow> participant list \<Rightarrow> nat \<Rightarrow> nat \<Rightarrow> nat \<Rightarrow> nat option \<times> nat" where
  "rr_scan ready ps start 0 rr = (None, rr)"
| "rr_scan ready ps start (Suc i) rr =
    (let rr' = (rr + 1) mod length ps in
     if ready (pt_id (ps ! rr)) then (Some rr, rr')
     else if rr' = start then (None, rr')
     else rr_scan ready ps start i rr')"

definition rr_tick :: "(nat \<Rightarrow> bool) \<Rightarrow> RoundRobin \<Rightarrow> nat option \<times> RoundRobin" where
  "rr_tick ready r =
    (let n = length (rr_participants r) in
     if n = 0 then (None, r)
     else
       (let start = (if rr_rr r \<ge> n then rr_rr r mod n else rr_rr r) in
        case rr_scan ready (rr_participants r) start n start of
          (None, rr) \<Rightarrow> (None, r\<lparr>rr_rr := rr\<rparr>)
        | (Some k, rr) \<Rightarrow>
            (Some k, r\<lparr>rr_rr := rr, rr_participants := (rr_participants r)[k := (rr_participants r ! k)\<lparr>pt_signal := True\<rparr>]\<rparr>)))"

text \<open>A participant takes the signal out of its mailbox.\<close>

definition rr_receive :: "nat \<Rightarrow> RoundRobin \<Rightarrow> RoundRobin option" where
  "rr_receive k r =
    (if k < length (rr_participants r) \<and> pt_signal (rr_participants r ! k)
     then Some (r\<lparr>rr_participants := (rr_participants r)[k := (rr_participants r ! k)\<lparr>pt_signal := False\<rparr>]\<rparr>)
     else None)"

section \<open>The loops\<close>

datatype rr_event =
    Register | Unregister nat | CyclePeriod int | MinTick int | Receive nat
  | LoopStart nat | LoopStop nat | LoopFire nat | LoopBody nat "nat list"

text \<open>\<open>LoopFire\<close> is the ticker's case of the \<open>select\<close>, \<open>LoopBody\<close> its body up to the next \<open>select\<close>, with
  the ids that are ready then.\<close>

definition rr_step :: "rr_event \<Rightarrow> RoundRobin \<Rightarrow> RoundRobin option" where
  "rr_step ev r =
    (case ev of
       Register \<Rightarrow> Some (snd (rr_Register r))
     | Unregister i \<Rightarrow> rr_unregister i r
     | CyclePeriod d \<Rightarrow> Some (SetCyclePeriod d r)
     | MinTick d \<Rightarrow> Some (SetMinTick d r)
     | Receive k \<Rightarrow> rr_receive k r
     | LoopStart k \<Rightarrow>
         if k < length (rr_loops r) \<and> rr_loops r ! k = LoopStarting
         then Some (r\<lparr>rr_loops := (rr_loops r)[k := LoopWaiting (rr_stop r)]\<rparr>) else None
     | LoopStop k \<Rightarrow>
         (if k < length (rr_loops r) then
            (case rr_loops r ! k of
               LoopWaiting ch \<Rightarrow>
                 if ch \<in> set (rr_closed r)
                 then Some (r\<lparr>rr_loops := take k (rr_loops r) @ drop (Suc k) (rr_loops r)\<rparr>) else None
             | _ \<Rightarrow> None)
          else None)
     | LoopFire k \<Rightarrow>
         (if k < length (rr_loops r) then
            (case rr_loops r ! k of
               LoopWaiting ch \<Rightarrow> Some (r\<lparr>rr_loops := (rr_loops r)[k := LoopTicking]\<rparr>)
             | _ \<Rightarrow> None)
          else None)
     | LoopBody k ids \<Rightarrow>
         if k < length (rr_loops r) \<and> rr_loops r ! k = LoopTicking
         then (let r = snd (rr_tick (\<lambda>i. i \<in> set ids) r)
               in Some (r\<lparr>rr_loops := (rr_loops r)[k := LoopWaiting (rr_stop r)]\<rparr>))
         else None)"

fun rr_run :: "rr_event list \<Rightarrow> RoundRobin \<Rightarrow> RoundRobin option" where
  "rr_run [] r = Some r"
| "rr_run (ev # evs) r = (case rr_step ev r of None \<Rightarrow> None | Some r \<Rightarrow> rr_run evs r)"

section \<open>What a scan finds\<close>

lemma scan_spec:
  assumes "start < length ps" and "c + i = length ps"
  shows "rr_scan ready ps start i ((start + c) mod length ps) =
    (case find (\<lambda>d. ready (pt_id (ps ! ((start + d) mod length ps)))) [c ..< length ps] of
       Some d \<Rightarrow> (Some ((start + d) mod length ps), (start + d + 1) mod length ps)
     | None \<Rightarrow> (None, start))"
  using assms(2)
proof (induction i arbitrary: c)
  case 0
  then show ?case using assms(1) by simp
next
  case (Suc i)
  have c: "c < length ps" and upt: "[c ..< length ps] = c # [Suc c ..< length ps]"
    using Suc.prems by (simp_all add: upt_conv_Cons)
  have step: "((start + c) mod length ps + 1) mod length ps = (start + Suc c) mod length ps"
    by (simp add: mod_Suc_eq)
  show ?case
  proof (cases "ready (pt_id (ps ! ((start + c) mod length ps)))")
    case True
    then show ?thesis using upt step by simp
  next
    case False
    show ?thesis
    proof (cases "(start + Suc c) mod length ps = start")
      case True
      have "Suc c = length ps"
      proof (rule ccontr)
        assume "Suc c \<noteq> length ps"
        then have "0 < Suc c" "Suc c < length ps" using c by simp_all
        then show False using True assms(1) by (simp add: mod_if split: if_splits)
      qed
      then show ?thesis using False True upt step by simp
    next
      case False': False
      then show ?thesis using False upt step Suc.IH [of "Suc c"] Suc.prems by simp
    qed
  qed
qed

definition cursor :: "RoundRobin \<Rightarrow> nat" where
  "cursor r = rr_rr r mod length (rr_participants r)"

lemma tick_spec:
  assumes "rr_participants r \<noteq> []"
  shows "rr_tick ready r =
    (case find (\<lambda>d. ready (pt_id (rr_participants r ! ((cursor r + d) mod length (rr_participants r)))))
       [0 ..< length (rr_participants r)] of
       Some d \<Rightarrow> (let n = length (rr_participants r); k = (cursor r + d) mod n in
         (Some k, r\<lparr>rr_rr := (cursor r + d + 1) mod n, rr_participants := (rr_participants r)[k := (rr_participants r ! k)\<lparr>pt_signal := True\<rparr>]\<rparr>))
     | None \<Rightarrow> (None, r\<lparr>rr_rr := cursor r\<rparr>))"
proof -
  have "(if rr_rr r \<ge> length (rr_participants r) then rr_rr r mod length (rr_participants r) else rr_rr r) = cursor r"
    by (simp add: cursor_def)
  moreover have "cursor r < length (rr_participants r)" using assms by (simp add: cursor_def)
  ultimately show ?thesis
    using assms scan_spec [of "cursor r" "rr_participants r" 0 "length (rr_participants r)" ready]
    by (simp add: rr_tick_def Let_def split: option.split)
qed

section \<open>Fairness\<close>

text \<open>The ids signalled in the course of a run.\<close>

fun rr_signals :: "rr_event list \<Rightarrow> RoundRobin \<Rightarrow> nat list" where
  "rr_signals [] r = []"
| "rr_signals (ev # evs) r =
    (case rr_step ev r of
       None \<Rightarrow> []
     | Some r' \<Rightarrow>
        (case ev of
           LoopBody _ ids \<Rightarrow>
             (case fst (rr_tick (\<lambda>i. i \<in> set ids) r) of
                Some k \<Rightarrow> [pt_id (rr_participants r ! k)] | None \<Rightarrow> [])
         | _ \<Rightarrow> []) @ rr_signals evs r')"

definition is_body :: "rr_event \<Rightarrow> bool" where
  "is_body ev = (case ev of LoopBody _ _ \<Rightarrow> True | _ \<Rightarrow> False)"

definition keeps_participants :: "rr_event \<Rightarrow> bool" where
  "keeps_participants ev = (case ev of Register \<Rightarrow> False | Unregister _ \<Rightarrow> False | _ \<Rightarrow> True)"

definition ids :: "RoundRobin \<Rightarrow> nat list" where
  "ids r = map pt_id (rr_participants r)"

lemma map_id_signal [simp]: "map pt_id (ps[k := (ps ! k)\<lparr>pt_signal := b\<rparr>]) = map pt_id ps"
  by (metis list_update_beyond list_update_id map_update not_le participant.select_convs(1) participant.surjective
      participant.update_convs(2))

lemma tick_ids [simp]: "ids (snd (rr_tick ready r)) = ids r"
  by (simp add: rr_tick_def ids_def Let_def split: prod.split option.split)

lemma step_keeps:
  assumes "rr_step ev r = Some r'" and "keeps_participants ev"
  shows "ids r' = ids r" and "\<not> is_body ev \<Longrightarrow> rr_rr r' = rr_rr r"
  using assms
  by (auto simp: rr_step_def keeps_participants_def is_body_def ids_def [symmetric] SetCyclePeriod_def SetMinTick_def
      rr_receive_def Let_def split: rr_event.splits if_splits loop_state.splits)
    (auto simp: tick_ids [unfolded ids_def] ids_def simp del: map_update)

text \<open>How many places the cursor is away from a participant.\<close>

definition places :: "nat \<Rightarrow> RoundRobin \<Rightarrow> nat" where
  "places k r = (k + length (rr_participants r) - cursor r) mod length (rr_participants r)"

lemma cursor_less: "rr_participants r \<noteq> [] \<Longrightarrow> cursor r < length (rr_participants r)"
  by (simp add: cursor_def)

lemma add_mod_cancel: "(c + x) mod n = (c + y) mod n \<Longrightarrow> c < n \<Longrightarrow> x < n \<Longrightarrow> y < n \<Longrightarrow> x = (y :: nat)"
  by (cases "c + x < n"; cases "c + y < n") (simp_all add: le_mod_geq)

lemma places_less: "rr_participants r \<noteq> [] \<Longrightarrow> places k r < length (rr_participants r)"
  by (simp add: places_def)

lemma cursor_places:
  assumes "k < length (rr_participants r)"
  shows "(cursor r + places k r) mod length (rr_participants r) = k"
proof -
  have "cursor r < length (rr_participants r)" using assms by (intro cursor_less) auto
  then show ?thesis using assms by (simp add: places_def mod_add_right_eq)
qed

lemma places_unique:
  assumes "k < length (rr_participants r)" and "x < length (rr_participants r)"
    and "(cursor r + x) mod length (rr_participants r) = k"
  shows "places k r = x"
proof -
  have ne: "rr_participants r \<noteq> []" using assms(1) by auto
  show ?thesis
    using add_mod_cancel [of "cursor r" "places k r" "length (rr_participants r)" x]
      cursor_places [OF assms(1)] assms(2,3) cursor_less [OF ne] places_less [OF ne] by simp
qed

text \<open>A tick signals a ready participant or brings the cursor nearer to it.\<close>

lemma tick_approaches:
  assumes k: "k < length (rr_participants r)" and ready: "ready (pt_id (rr_participants r ! k))"
  shows "\<exists>j. fst (rr_tick ready r) = Some j \<and> (j = k \<or> places k (snd (rr_tick ready r)) < places k r)"
proof -
  define n where "n = length (rr_participants r)"
  have ne: "rr_participants r \<noteq> []" and n: "0 < n" using k by (auto simp: n_def)
  define P where "P d \<longleftrightarrow> ready (pt_id (rr_participants r ! ((cursor r + d) mod n)))" for d
  have here: "P (places k r)" "places k r < n"
    using cursor_places [OF k] ready places_less [OF ne] by (simp_all add: P_def n_def)
  then obtain d where d: "find P [0 ..< n] = Some d"
    by (cases "find P [0 ..< n]") (auto simp: find_None_iff)
  have d_le: "d \<le> places k r" and d_n: "d < n"
    using d here by (auto simp: find_Some_iff intro: leI)
  have tick: "fst (rr_tick ready r) = Some ((cursor r + d) mod n)"
      "rr_rr (snd (rr_tick ready r)) = (cursor r + d + 1) mod n"
      "length (rr_participants (snd (rr_tick ready r))) = n"
    using tick_spec [OF ne, of ready] d unfolding P_def n_def by (simp_all add: Let_def)
  show ?thesis
  proof (cases "d = places k r")
    case True
    then show ?thesis using tick(1) cursor_places [OF k] by (simp add: n_def)
  next
    case False
    let ?x = "places k r - d - 1"
    have "cursor (snd (rr_tick ready r)) = (cursor r + d + 1) mod n"
      using tick(2,3) by (simp add: cursor_def)
    moreover have "(cursor r + d + 1 + ?x) mod n = k"
      using cursor_places [OF k] False d_le by (simp add: n_def)
    ultimately have "places k (snd (rr_tick ready r)) = ?x"
      using k here(2) tick(3) n by (intro places_unique) (simp_all add: n_def mod_add_left_eq)
    then show ?thesis using tick(1) False d_le by auto
  qed
qed

lemma step_body:
  "rr_step (LoopBody j l) r = Some r' \<Longrightarrow> rr_rr r' = rr_rr (snd (rr_tick (\<lambda>i. i \<in> set l) r)) \<and> ids r' = ids r"
  using step_keeps(1) [of "LoopBody j l" r r']
  by (auto simp: rr_step_def keeps_participants_def Let_def split: if_splits)

lemma places_cong: "rr_rr r = rr_rr s \<Longrightarrow> ids r = ids s \<Longrightarrow> places k r = places k s"
  unfolding places_def cursor_def ids_def by (drule arg_cong [of _ _ length]) simp

lemma ids_nth: "k < length (rr_participants r) \<longleftrightarrow> k < length (ids r)"
    "k < length (ids r) \<Longrightarrow> pt_id (rr_participants r ! k) = ids r ! k"
  by (simp_all add: ids_def)

lemma signalled_in_time:
  assumes "rr_run evs r = Some r'" and "\<forall>ev \<in> set evs. keeps_participants ev"
    and "\<forall>j l. LoopBody j l \<in> set evs \<longrightarrow> ids r ! k \<in> set l"
    and "k < length (ids r)" and "places k r < length (filter is_body evs)"
  shows "ids r ! k \<in> set (rr_signals evs r)"
  using assms
proof (induction evs arbitrary: r)
  case (Cons ev evs)
  obtain s where s: "rr_step ev r = Some s" "rr_run evs s = Some r'"
    using Cons.prems(1) by (auto split: option.splits)
  have same: "ids s = ids r" using step_keeps(1) [OF s(1)] Cons.prems(2) by simp
  have rest: "ids r ! k \<in> set (rr_signals evs s)" if "places k s < length (filter is_body evs)"
    using Cons.IH [OF s(2)] Cons.prems(2-4) that same by auto
  show ?case
  proof (cases "is_body ev")
    case False
    have "places k s = places k r" using step_keeps(2) [OF s(1) _ False] Cons.prems(2) same by (intro places_cong) auto
    then show ?thesis using rest Cons.prems(5) False s(1) by simp
  next
    case body: True
    then obtain j l where ev: "ev = LoopBody j l" by (cases ev) (auto simp: is_body_def)
    let ?t = "rr_tick (\<lambda>i. i \<in> set l) r"
    have "ids r ! k \<in> set l" using Cons.prems(3) ev by auto
    then obtain q where q: "fst ?t = Some q" "q = k \<or> places k (snd ?t) < places k r"
      using tick_approaches [of k r "\<lambda>i. i \<in> set l"] Cons.prems(4) by (auto simp: ids_nth)
    show ?thesis
    proof (cases "q = k")
      case True
      then show ?thesis using q(1) s(1) ev Cons.prems(4) by (simp add: ids_nth)
    next
      case False
      have "places k s = places k (snd ?t)"
        using step_body [OF s(1) [unfolded ev]] same by (intro places_cong) simp_all
      then have "places k s < length (filter is_body evs)"
        using q(2) False Cons.prems(5) body by simp
      then show ?thesis using rest s(1) by simp
    qed
  qed
qed simp

text \<open>What a client of a scheduler relies on: in every calm stretch with as many ticks as there are
  participants, each of them gets a turn.\<close>

locale fair_turns =
  fixes parties :: "'s \<Rightarrow> 'p list"
    and ticks :: "'e list \<Rightarrow> nat"
    and turns :: "'e list \<Rightarrow> 's \<Rightarrow> 'p list"
    and calm :: "'e list \<Rightarrow> 's \<Rightarrow> bool"
  assumes all_turns: "calm evs s \<Longrightarrow> length (parties s) \<le> ticks evs \<Longrightarrow> set (parties s) \<subseteq> set (turns evs s)"
begin

lemma work_covered:
  assumes "calm evs s" and "length (parties s) \<le> ticks evs" and "\<And>x. x \<in> W \<Longrightarrow> \<exists>p \<in> set (parties s). x \<in> work p"
  shows "W \<subseteq> (\<Union>p \<in> set (turns evs s). work p)"
  using assms(3) all_turns [OF assms(1,2)] by blast

end

definition rr_ticks :: "rr_event list \<Rightarrow> nat" where
  "rr_ticks evs = length (filter is_body evs)"

text \<open>A possible run in which nobody registers or leaves and everybody is ready at every tick.\<close>

definition rr_calm :: "rr_event list \<Rightarrow> RoundRobin \<Rightarrow> bool" where
  "rr_calm evs r \<longleftrightarrow> rr_run evs r \<noteq> None \<and> (\<forall>ev \<in> set evs. keeps_participants ev) \<and>
     (\<forall>j l. LoopBody j l \<in> set evs \<longrightarrow> set (ids r) \<subseteq> set l)"

interpretation rr: fair_turns ids rr_ticks rr_signals rr_calm
proof
  fix evs s assume calm: "rr_calm evs s" and n: "length (ids s) \<le> rr_ticks evs"
  obtain s' where s': "rr_run evs s = Some s'" using calm by (auto simp: rr_calm_def)
  show "set (ids s) \<subseteq> set (rr_signals evs s)"
  proof
    fix i assume "i \<in> set (ids s)"
    then obtain k where k: "k < length (ids s)" "i = ids s ! k" by (auto simp: in_set_conv_nth)
    have "rr_participants s \<noteq> []" using k(1) by (auto simp: ids_def)
    then have "places k s < length (ids s)" using places_less by (simp add: ids_def)
    then show "i \<in> set (rr_signals evs s)"
      using signalled_in_time [OF s', of k] calm k n
      by (auto simp: rr_calm_def rr_ticks_def subset_iff simp del: set_map)
  qed
qed

text \<open>A participant that is ready at every tick gets its signal within one round: whatever else goes
  on, as many ticks as there are participants are enough as long as nobody registers or leaves.\<close>

lemma ready_participant_signalled:
  assumes "rr_run evs r = Some r'" and "\<forall>ev \<in> set evs. keeps_participants ev"
    and "i \<in> set (ids r)" and "\<forall>j l. LoopBody j l \<in> set evs \<longrightarrow> i \<in> set l"
    and "length (rr_participants r) \<le> rr_ticks evs"
  shows "i \<in> set (rr_signals evs r) \<and> ids r' = ids r"
proof
  obtain k where k: "k < length (ids r)" "i = ids r ! k" using assms(3) by (auto simp: in_set_conv_nth)
  have "places k r < length (rr_participants r)" using k(1) by (intro places_less) (auto simp: ids_def)
  then show "i \<in> set (rr_signals evs r)"
    using signalled_in_time [OF assms(1,2), of k] assms(4,5) k by (simp add: rr_ticks_def)
  show "ids r' = ids r"
    using assms(1,2)
  proof (induction evs arbitrary: r)
    case (Cons ev evs)
    obtain s where s: "rr_step ev r = Some s" "rr_run evs s = Some r'"
      using Cons.prems(1) by (auto split: option.splits)
    have "ids s = ids r" using step_keeps(1) [OF s(1)] Cons.prems(2) by simp
    moreover have "ids r' = ids s" using Cons.IH [OF s(2)] Cons.prems(2) by simp
    ultimately show ?case by simp
  qed simp
qed

definition demo_rr :: RoundRobin where
  "demo_rr = the (rr_run [Register, Register, Register, LoopStart 0, LoopFire 0] (NewRoundRobin 0))"

definition demo_ticks :: "rr_event list" where
  "demo_ticks = [LoopBody 0 [1, 2, 3], LoopFire 0, Receive 0, LoopBody 0 [2, 3], LoopFire 0, LoopBody 0 [3]]"

lemma ready_participant_signalled_witness: "3 \<in> set (rr_signals demo_ticks demo_rr)"
proof -
  obtain r' where r': "rr_run demo_ticks demo_rr = Some r'"
    by (cases "rr_run demo_ticks demo_rr") (simp, code_simp)
  have "\<forall>j l. LoopBody j l \<in> set demo_ticks \<longrightarrow> 3 \<in> set l" by (simp add: demo_ticks_def)
  moreover have "\<forall>ev \<in> set demo_ticks. keeps_participants ev" by code_simp
  moreover have "3 \<in> set (ids demo_rr)" by code_simp
  moreover have "length (rr_participants demo_rr) \<le> rr_ticks demo_ticks" by code_simp
  ultimately show ?thesis using ready_participant_signalled [OF r'] by blast
qed

section \<open>Loops and channels\<close>

definition rr_inv :: "RoundRobin \<Rightarrow> bool" where
  "rr_inv r \<longleftrightarrow> distinct (ids r) \<and> (\<forall>i \<in> set (ids r). i \<le> rr_nextID r) \<and>
    rr_running r = (rr_participants r \<noteq> []) \<and> (rr_running r \<longrightarrow> rr_stop r \<notin> set (rr_closed r)) \<and>
    (\<forall>ch \<in> set (rr_closed r). ch \<le> rr_stop r) \<and>
    (rr_running r \<longrightarrow> (\<exists>l \<in> set (rr_loops r). \<forall>ch. l = LoopWaiting ch \<longrightarrow> ch \<notin> set (rr_closed r))) \<and>
    rr_rr r < max 1 (length (rr_participants r)) \<and> 0 < rr_cyclePeriod r \<and> 0 < rr_minTick r"

lemma rr_inv_new: "rr_inv (NewRoundRobin d)"
  by (simp add: rr_inv_def NewRoundRobin_def ids_def DefaultMinTick_def)

lemma swap_remove_absent: "i \<notin> pt_id ` set qs \<Longrightarrow> swap_remove i qs ps = ps"
  by (induction qs) auto

lemma swap_remove_present:
  "i \<notin> pt_id ` set qs \<Longrightarrow> pt_id p = i \<Longrightarrow>
    swap_remove i (qs @ p # rest) ps = butlast (ps[length ps - length (p # rest) := List.last ps])"
  by (induction qs) auto

lemma swap_removed:
  assumes "i \<notin> pt_id ` set qs" and "pt_id p = i"
  shows "swap_remove i (qs @ p # rest) (qs @ p # rest) =
    (if rest = [] then qs else qs @ List.last rest # butlast rest)"
  by (simp add: swap_remove_present [OF assms] butlast_append)

lemma swap_remove_ids:
  assumes "distinct (map pt_id ps)"
  shows "distinct (map pt_id (swap_remove i ps ps))"
    and "set (map pt_id (swap_remove i ps ps)) = set (map pt_id ps) - {i}"
proof -
  have "distinct (map pt_id (swap_remove i ps ps)) \<and> set (map pt_id (swap_remove i ps ps)) = set (map pt_id ps) - {i}"
  proof (cases "i \<in> pt_id ` set ps")
    case False
    then show ?thesis using assms by (simp add: swap_remove_absent)
  next
    case True
    then have "\<exists>p \<in> set ps. pt_id p = i" by auto
    then obtain qs p rest where ps: "ps = qs @ p # rest" and p: "pt_id p = i" and "i \<notin> pt_id ` set qs"
      using split_list_first_prop [of ps "\<lambda>p. pt_id p = i"] by (metis image_iff)
    then have eq: "swap_remove i ps ps = (if rest = [] then qs else qs @ List.last rest # butlast rest)"
      by (simp add: swap_removed)
    show ?thesis
    proof (cases "rest = []")
      case False
      then obtain bs b where "rest = bs @ [b]" by (metis rev_exhaust)
      then show ?thesis using assms eq ps p by auto
    qed (use assms eq ps p in auto)
  qed
  then show "distinct (map pt_id (swap_remove i ps ps))"
    and "set (map pt_id (swap_remove i ps ps)) = set (map pt_id ps) - {i}" by simp_all
qed

lemma rr_inv_Register:
  assumes "rr_inv r" shows "rr_inv (snd (rr_Register r))"
  using assms by (auto simp: rr_inv_def rr_Register_def ensureLoopLocked_def ids_def Let_def)

lemma rr_inv_unregister:
  assumes "rr_inv r"
  shows "\<exists>r'. rr_unregister i r = Some r' \<and> rr_inv r' \<and> set (ids r') = set (ids r) - {i}"
proof -
  let ?ps = "swap_remove i (rr_participants r) (rr_participants r)"
  have d: "distinct (map pt_id ?ps)" "set (map pt_id ?ps) = set (ids r) - {i}"
    using assms swap_remove_ids [of "rr_participants r" i] by (simp_all add: rr_inv_def ids_def)
  have le: "set (ids r) - {i} \<subseteq> set (ids r)" by blast
  show ?thesis
  proof (cases "?ps = []")
    case True
    then have "rr_unregister i r = Some (if rr_running r
        then r\<lparr>rr_participants := [], rr_closed := rr_stop r # rr_closed r, rr_running := False\<rparr>
        else r\<lparr>rr_participants := []\<rparr>)"
      using assms by (simp add: rr_unregister_def rr_inv_def Let_def)
    moreover have "length (rr_participants r) \<le> 1"
      using d(2) True distinct_card [of "ids r"] card_mono [of "{i}" "set (ids r)"] assms by (simp add: rr_inv_def ids_def)
    moreover from this have "rr_rr r = 0" using assms by (simp add: rr_inv_def)
    ultimately show ?thesis using assms d True by (auto simp: rr_inv_def ids_def)
  next
    case False
    let ?r = "r\<lparr>rr_participants := ?ps, rr_rr := (if rr_rr r \<ge> length ?ps then rr_rr r mod length ?ps else rr_rr r)\<rparr>"
    have "rr_unregister i r = Some ?r"
      using False by (simp add: rr_unregister_def Let_def)
    moreover have ids: "ids ?r = map pt_id ?ps" by (simp add: ids_def)
    moreover have "rr_participants r \<noteq> []" using False by auto
    moreover have "rr_inv ?r"
      using assms d False le \<open>rr_participants r \<noteq> []\<close> unfolding rr_inv_def ids by (simp add: subset_iff less_max_iff_disj)
    ultimately show ?thesis using d(2) by auto
  qed
qed

lemma rr_inv_cong:
  assumes "rr_inv r" and "ids r' = ids r" and "rr_rr r' < max 1 (length (ids r))" and "rr_nextID r' = rr_nextID r"
    and "rr_running r' = rr_running r" and "rr_stop r' = rr_stop r" and "rr_closed r' = rr_closed r"
    and "0 < rr_cyclePeriod r'" and "0 < rr_minTick r'"
    and "rr_running r \<Longrightarrow> \<exists>l \<in> set (rr_loops r'). \<forall>ch. l = LoopWaiting ch \<longrightarrow> ch \<notin> set (rr_closed r)"
  shows "rr_inv r'"
proof -
  have len: "length (rr_participants r') = length (rr_participants r)"
    using arg_cong [OF assms(2), of length] by (simp add: ids_def)
  then have "rr_participants r' = [] \<longleftrightarrow> rr_participants r = []" by auto
  then show ?thesis using assms len unfolding rr_inv_def by (simp add: ids_def [of r])
qed

lemma tick_fields:
  "rr_nextID (snd (rr_tick ready r)) = rr_nextID r" "rr_running (snd (rr_tick ready r)) = rr_running r"
  "rr_stop (snd (rr_tick ready r)) = rr_stop r" "rr_closed (snd (rr_tick ready r)) = rr_closed r"
  "rr_loops (snd (rr_tick ready r)) = rr_loops r" "rr_cyclePeriod (snd (rr_tick ready r)) = rr_cyclePeriod r"
  "rr_minTick (snd (rr_tick ready r)) = rr_minTick r"
  by (simp_all add: rr_tick_def Let_def split: prod.split option.split)

lemma tick_rr: "rr_rr r < max 1 (length (ids r)) \<Longrightarrow> rr_rr (snd (rr_tick ready r)) < max 1 (length (ids r))"
proof (cases "rr_participants r = []")
  case False
  then show ?thesis
    using cursor_less [OF False] by (simp add: tick_spec Let_def ids_def less_max_iff_disj split: option.split)
qed (simp add: rr_tick_def)

text \<open>Every event can only happen in a way that keeps the invariant; a panic is not possible.\<close>

lemma live_loop_update:
  assumes "\<exists>l \<in> set ls. \<forall>ch. l = LoopWaiting ch \<longrightarrow> ch \<notin> set cl" and "\<forall>ch. l' = LoopWaiting ch \<longrightarrow> ch \<notin> set cl"
    and "k < length ls"
  shows "\<exists>l \<in> set (ls[k := l']). \<forall>ch. l = LoopWaiting ch \<longrightarrow> ch \<notin> set cl"
  using assms set_update_memI by metis

lemma rr_inv_step:
  assumes "rr_inv r" and "rr_step ev r = Some r'"
  shows "rr_inv r'"
proof (cases ev)
  case Register
  then show ?thesis using rr_inv_Register [OF assms(1)] assms(2) by (simp add: rr_step_def)
next
  case (Unregister i)
  then show ?thesis using assms rr_inv_unregister [of r i] by (auto simp: rr_step_def)
next
  case (CyclePeriod d)
  then have "r' = SetCyclePeriod d r" using assms(2) by (simp add: rr_step_def)
  then show ?thesis
    using assms(1) by (intro rr_inv_cong [OF assms(1)]) (simp_all add: SetCyclePeriod_def rr_inv_def ids_def)
next
  case (MinTick d)
  then have "r' = SetMinTick d r" using assms(2) by (simp add: rr_step_def)
  then show ?thesis
    using assms(1) by (intro rr_inv_cong [OF assms(1)]) (simp_all add: SetMinTick_def rr_inv_def ids_def)
next
  case (Receive k)
  then show ?thesis using assms
    by (intro rr_inv_cong [OF assms(1)]) (auto simp: rr_step_def rr_receive_def rr_inv_def ids_def simp del: map_update split: if_splits)
next
  case (LoopStart k)
  then have k: "k < length (rr_loops r)" "r' = r\<lparr>rr_loops := (rr_loops r)[k := LoopWaiting (rr_stop r)]\<rparr>"
    using assms(2) by (auto simp: rr_step_def split: if_splits)
  show ?thesis
    using assms(1) k by (intro rr_inv_cong [OF assms(1)]) (auto simp: rr_inv_def ids_def intro!: live_loop_update)
next
  case (LoopFire k)
  then have k: "k < length (rr_loops r)" "r' = r\<lparr>rr_loops := (rr_loops r)[k := LoopTicking]\<rparr>"
    using assms(2) by (auto simp: rr_step_def split: if_splits loop_state.splits)
  then show ?thesis
    using assms(1) by (intro rr_inv_cong [OF assms(1)]) (auto simp: rr_inv_def ids_def intro!: live_loop_update)
next
  case (LoopStop k)
  then obtain ch where k: "k < length (rr_loops r)" "rr_loops r ! k = LoopWaiting ch" "ch \<in> set (rr_closed r)"
      "r' = r\<lparr>rr_loops := take k (rr_loops r) @ drop (Suc k) (rr_loops r)\<rparr>"
    using assms(2) by (auto simp: rr_step_def split: if_splits loop_state.splits)
  have "set (rr_loops r) = insert (LoopWaiting ch) (set (take k (rr_loops r) @ drop (Suc k) (rr_loops r)))"
    using id_take_nth_drop [OF k(1)] k(2) by (metis Un_insert_right list.set(2) set_append)
  then show ?thesis
    using assms(1) k(3,4) by (intro rr_inv_cong [OF assms(1)]) (auto simp: rr_inv_def ids_def)
next
  case (LoopBody k l)
  let ?t = "snd (rr_tick (\<lambda>i. i \<in> set l) r)"
  have k: "k < length (rr_loops r)" "r' = ?t\<lparr>rr_loops := (rr_loops r)[k := LoopWaiting (rr_stop r)]\<rparr>"
    using assms(2) LoopBody by (auto simp: rr_step_def Let_def tick_fields split: if_splits)
  have "ids r' = ids r" using k(2) tick_ids [of "\<lambda>i. i \<in> set l" r] by (simp add: ids_def)
  then show ?thesis
    using assms(1) k tick_rr [of r]
    by (intro rr_inv_cong [OF assms(1)]) (auto simp: rr_inv_def tick_fields ids_def intro!: live_loop_update)
qed

lemma rr_inv_run: "rr_inv r \<Longrightarrow> rr_run evs r = Some r' \<Longrightarrow> rr_inv r'"
proof (induction evs arbitrary: r)
  case (Cons ev evs)
  then obtain s where "rr_step ev r = Some s" "rr_run evs s = Some r'" by (auto split: option.splits)
  then show ?case using Cons.IH rr_inv_step [OF Cons.prems(1)] by blast
qed simp

text \<open>Whatever the callers and the loops did: while anybody is registered some loop still serves the
  participants, an unregistration does not panic and removes its participant, the names of the
  participants are all different.\<close>

lemma scheduler_serves:
  assumes "rr_run evs (NewRoundRobin d) = Some r"
  shows "distinct (ids r) \<and> (\<exists>r'. rr_unregister i r = Some r' \<and> set (ids r') = set (ids r) - {i}) \<and>
    (rr_participants r = [] \<or> (\<exists>l \<in> set (rr_loops r). \<forall>ch. l = LoopWaiting ch \<longrightarrow> ch \<notin> set (rr_closed r)))"
proof -
  have "rr_inv r" using assms rr_inv_run rr_inv_new by blast
  then show ?thesis using rr_inv_unregister [of r i] by (auto simp: rr_inv_def)
qed

text \<open>A tick of the loop: a full round takes at most the cycle period, and misses it by less than one
  nanosecond per participant, as long as the minimum tick does not stretch it.\<close>

lemma round_time:
  assumes "rr_inv r" and "rr_participants r \<noteq> []"
  defines "n \<equiv> int (length (rr_participants r))"
  shows "if rr_cyclePeriod r div n < rr_minTick r \<and> n > 1 then n * tickIntervalLocked r > rr_cyclePeriod r - n
    else n * tickIntervalLocked r \<le> rr_cyclePeriod r \<and> rr_cyclePeriod r < n * tickIntervalLocked r + n"
proof -
  have n: "1 \<le> n" using assms(2) by (cases "rr_participants r") (simp_all add: n_def)
  have div: "n * (rr_cyclePeriod r div n) \<le> rr_cyclePeriod r" "rr_cyclePeriod r < n * (rr_cyclePeriod r div n) + n"
    using n mult_div_mod_eq [of n "rr_cyclePeriod r"] pos_mod_bound [of n "rr_cyclePeriod r"] pos_mod_sign [of n "rr_cyclePeriod r"]
    by linarith+
  show ?thesis
  proof (cases "n = 1")
    case True
    then show ?thesis by (simp add: tickIntervalLocked_def n_def)
  next
    case False
    then have "\<not> length (rr_participants r) \<le> 1" using n by (simp add: n_def)
    then have t: "tickIntervalLocked r = max (rr_minTick r) (rr_cyclePeriod r div n)"
      by (simp add: tickIntervalLocked_def n_def Let_def max_def)
    show ?thesis
    proof (cases "rr_cyclePeriod r div n < rr_minTick r")
      case True
      then have m: "n * (rr_cyclePeriod r div n) \<le> n * rr_minTick r" using n by (intro mult_left_mono) simp_all
      have "tickIntervalLocked r = rr_minTick r" using t True by simp
      moreover have "rr_cyclePeriod r - n < n * rr_minTick r" using m div(2) by linarith
      ultimately show ?thesis using True False n by simp
    qed (use t div in \<open>simp add: max_def\<close>)
  qed
qed

text \<open>The field \<open>stop\<close> is read again for every \<open>select\<close>: a loop that is in its body while the last
  participant leaves and another one registers waits for the new channel, beside the new loop.\<close>

definition stale_loop_run :: "rr_event list" where
  "stale_loop_run = [Register, LoopStart 0, LoopFire 0, Unregister 1, Register, LoopBody 0 [2], LoopStart 1]"

lemma two_loops_one_participant:
  "map_option (\<lambda>r. (ids r, rr_loops r, rr_closed r)) (rr_run stale_loop_run (NewRoundRobin 0)) =
    Some ([2], [LoopWaiting 2, LoopWaiting 2], [1])"
  by code_simp

end
