(* ===== verification/Subscribe.thy ===== *)
theory Subscribe
  imports GoPath GoMap
begin

text \<open>
  The subscribed rooms with their settings (\<open>internal/services/subscribe\<close>): a bucket of the database, from
  the decimal room id to the serialised settings, and a cache in memory that is loaded at the start and
  changed with the bucket. The serialiser is a parameter; whether a transaction commits is an input of the
  operation. Each operation runs under the service's mutex.
\<close>

section \<open>State and operations\<close>

record RoomConfig =
  rc_AutoRecord :: bool
  rc_Notify :: bool
  rc_RecordDurationMinutes :: int
  rc_Qn :: int
  rc_OnlyAudio :: bool
  rc_RecordDanmaku :: bool
  rc_StreamProfiles :: "string list"
  rc_DeleteOldestOnLowDisk :: bool

definition defaultRoomConfig :: RoomConfig where
  "defaultRoomConfig = \<lparr>rc_AutoRecord = False, rc_Notify = False, rc_RecordDurationMinutes = 0, rc_Qn = 0,
     rc_OnlyAudio = False, rc_RecordDanmaku = False, rc_StreamProfiles = [], rc_DeleteOldestOnLowDisk = False\<rparr>"

datatype sub_error = ErrRoomNotSubscribed | ErrRoomAlreadySubscribed | RoomLookupFailed | TransactionFailed | SerializeFailed

record Subscriptions =
  sb_bucket :: "(string, bytes) gomap"
  sb_rooms :: "(nat, RoomConfig) gomap"

text \<open>\<open>strconv.Atoi\<close> on unsigned decimals; keys are only ever written by \<open>itoa\<close>.\<close>

definition Atoi :: "string \<Rightarrow> nat option" where
  "Atoi s = (if s \<noteq> [] \<and> list_all is_digit s \<and> digits_value s < 2 ^ 63 then Some (digits_value s) else None)"

definition parseRoomConfig :: "(bytes \<Rightarrow> RoomConfig option) \<Rightarrow> bytes \<Rightarrow> RoomConfig option" where
  "parseRoomConfig des raw = (if raw = [] then Some defaultRoomConfig else des raw)"

fun load_entries :: "(bytes \<Rightarrow> RoomConfig option) \<Rightarrow> (string, bytes) gomap \<Rightarrow> (nat, RoomConfig) gomap \<Rightarrow> (nat, RoomConfig) gomap" where
  "load_entries des [] rooms = rooms"
| "load_entries des ((k, v) # rest) rooms =
    (case Atoi k of
       None \<Rightarrow> load_entries des rest rooms
     | Some room \<Rightarrow>
        (case parseRoomConfig des v of
           None \<Rightarrow> load_entries des rest (gm_put room defaultRoomConfig rooms)
         | Some cfg \<Rightarrow> load_entries des rest (gm_put room cfg rooms)))"

definition loadRooms :: "(bytes \<Rightarrow> RoomConfig option) \<Rightarrow> Subscriptions \<Rightarrow> Subscriptions" where
  "loadRooms des s = s\<lparr>sb_rooms := load_entries des (sb_bucket s) gm_empty\<rparr>"

text \<open>\<open>exists\<close> is the outcome of the lookup of the room at the API.\<close>

definition sub_Subscribe :: "(RoomConfig \<Rightarrow> bytes) \<Rightarrow> bool \<Rightarrow> bool \<Rightarrow> nat \<Rightarrow> Subscriptions \<Rightarrow> sub_error option \<times> Subscriptions" where
  "sub_Subscribe ser exists' commits room s =
    (if \<not> exists' then (Some RoomLookupFailed, s)
     else if gm_get (sb_bucket s) (itoa room) \<noteq> None then (Some ErrRoomAlreadySubscribed, s)
     else if \<not> commits then (Some TransactionFailed, s)
     else (None, s\<lparr>sb_bucket := gm_put (itoa room) (ser defaultRoomConfig) (sb_bucket s),
                    sb_rooms := gm_put room defaultRoomConfig (sb_rooms s)\<rparr>))"

definition sub_Unsubscribe :: "bool \<Rightarrow> nat \<Rightarrow> Subscriptions \<Rightarrow> sub_error option \<times> Subscriptions" where
  "sub_Unsubscribe commits room s =
    (if gm_get (sb_bucket s) (itoa room) = None then (Some ErrRoomNotSubscribed, s)
     else if \<not> commits then (Some TransactionFailed, s)
     else (None, s\<lparr>sb_bucket := gm_del (itoa room) (sb_bucket s), sb_rooms := gm_del room (sb_rooms s)\<rparr>))"

text \<open>A missing configuration stands for the default one, in the bucket and in the cache.\<close>

definition cloneRoomConfig :: "RoomConfig option \<Rightarrow> RoomConfig" where
  "cloneRoomConfig cfg = (case cfg of None \<Rightarrow> defaultRoomConfig | Some c \<Rightarrow> c)"

definition UpdateConfig :: "(RoomConfig \<Rightarrow> bytes option) \<Rightarrow> bool \<Rightarrow> nat \<Rightarrow> RoomConfig option \<Rightarrow> Subscriptions \<Rightarrow> sub_error option \<times> Subscriptions" where
  "UpdateConfig ser commits room cfg s =
    (case ser (cloneRoomConfig cfg) of
       None \<Rightarrow> (Some SerializeFailed, s)
     | Some data \<Rightarrow>
        if gm_get (sb_bucket s) (itoa room) = None then (Some ErrRoomNotSubscribed, s)
        else if \<not> commits then (Some TransactionFailed, s)
        else (None, s\<lparr>sb_bucket := gm_put (itoa room) data (sb_bucket s),
                       sb_rooms := gm_put room (cloneRoomConfig cfg) (sb_rooms s)\<rparr>))"

definition sub_GetConfig :: "nat \<Rightarrow> Subscriptions \<Rightarrow> sub_error + RoomConfig" where
  "sub_GetConfig room s = (case gm_get (sb_rooms s) room of None \<Rightarrow> Inl ErrRoomNotSubscribed | Some cfg \<Rightarrow> Inr cfg)"

definition IsSubscribed :: "nat \<Rightarrow> Subscriptions \<Rightarrow> bool" where
  "IsSubscribed room s = (gm_get (sb_rooms s) room \<noteq> None)"

definition ListSubscribedRooms :: "Subscriptions \<Rightarrow> nat list" where
  "ListSubscribedRooms s = sort (map fst (sb_rooms s))"

definition ListAutoRecordRoomIDs :: "Subscriptions \<Rightarrow> nat list" where
  "ListAutoRecordRoomIDs s = sort (map fst (filter (\<lambda>(room, cfg). rc_AutoRecord cfg) (sb_rooms s)))"

section \<open>The subscriptions as a map\<close>

text \<open>What a client sees: the settings of each subscribed room, read from what is stored.\<close>

definition stored :: "(bytes \<Rightarrow> RoomConfig option) \<Rightarrow> Subscriptions \<Rightarrow> nat \<rightharpoonup> RoomConfig" where
  "stored des s = (\<lambda>room. map_option (\<lambda>v. cloneRoomConfig (parseRoomConfig des v)) (gm_get (sb_bucket s) (itoa room)))"

datatype sub_op = Sub bool bool nat | Unsub bool nat | Config bool nat "RoomConfig option"

definition sub_step :: "(RoomConfig \<Rightarrow> bytes) \<Rightarrow> sub_op \<Rightarrow> Subscriptions \<Rightarrow> sub_error option \<times> Subscriptions" where
  "sub_step ser op s =
    (case op of
       Sub found commits room \<Rightarrow> sub_Subscribe ser found commits room s
     | Unsub commits room \<Rightarrow> sub_Unsubscribe commits room s
     | Config commits room cfg \<Rightarrow> UpdateConfig (\<lambda>c. Some (ser c)) commits room cfg s)"

text \<open>The same operations on the map.\<close>

definition sub_spec :: "sub_op \<Rightarrow> (nat \<rightharpoonup> RoomConfig) \<Rightarrow> sub_error option \<times> (nat \<rightharpoonup> RoomConfig)" where
  "sub_spec op m =
    (case op of
       Sub found commits room \<Rightarrow>
         if \<not> found then (Some RoomLookupFailed, m)
         else if room \<in> dom m then (Some ErrRoomAlreadySubscribed, m)
         else if \<not> commits then (Some TransactionFailed, m)
         else (None, m(room \<mapsto> defaultRoomConfig))
     | Unsub commits room \<Rightarrow>
         if room \<notin> dom m then (Some ErrRoomNotSubscribed, m)
         else if \<not> commits then (Some TransactionFailed, m)
         else (None, m(room := None))
     | Config commits room cfg \<Rightarrow>
         if room \<notin> dom m then (Some ErrRoomNotSubscribed, m)
         else if \<not> commits then (Some TransactionFailed, m)
         else (None, m(room \<mapsto> cloneRoomConfig cfg)))"

text \<open>The bucket holds the keys that were written, the cache is what the bucket stores.\<close>

definition sub_inv :: "(bytes \<Rightarrow> RoomConfig option) \<Rightarrow> Subscriptions \<Rightarrow> bool" where
  "sub_inv des s \<longleftrightarrow> gm_ok (sb_bucket s) \<and> gm_ok (sb_rooms s) \<and> gm_get (sb_rooms s) = stored des s \<and>
    (\<forall>k \<in> dom (gm_get (sb_bucket s)). \<exists>room < 2 ^ 63. k = itoa room)"

lemma Atoi_itoa: "room < 2 ^ 63 \<Longrightarrow> Atoi (itoa room) = Some room"
  by (simp add: Atoi_def itoa_digits)

text \<open>Loading an entry list whose keys are decimals.\<close>

lemma load_entries_get:
  assumes "distinct (map fst es)" and "\<forall>k \<in> fst ` set es. \<exists>room < 2 ^ 63. k = itoa room"
  shows "gm_get (load_entries des es rooms) room =
    (if room < 2 ^ 63 \<and> itoa room \<in> fst ` set es
     then map_option (\<lambda>v. cloneRoomConfig (parseRoomConfig des v)) (map_of es (itoa room))
     else gm_get rooms room)"
  using assms
proof (induction des es rooms rule: load_entries.induct)
  case (2 des k v rest rooms)
  from 2(5) obtain r where r: "k = itoa r" "r < 2 ^ 63" by auto
  have k: "k \<notin> fst ` set rest" using 2(4) by simp
  have upd: "load_entries des ((k, v) # rest) rooms =
      load_entries des rest (gm_put r (cloneRoomConfig (parseRoomConfig des v)) rooms)"
    using r Atoi_itoa [OF r(2)] by (simp add: cloneRoomConfig_def split: option.split)
  have "gm_get (load_entries des rest rooms') room =
    (if room < 2 ^ 63 \<and> itoa room \<in> fst ` set rest
     then map_option (\<lambda>v. cloneRoomConfig (parseRoomConfig des v)) (map_of rest (itoa room))
     else gm_get rooms' room)" if "rooms' = gm_put r (cloneRoomConfig (parseRoomConfig des v)) rooms" for rooms'
    using 2(1-3) 2(4,5) r Atoi_itoa [OF r(2)] that
    by (cases "parseRoomConfig des v") (simp_all add: cloneRoomConfig_def)
  then show ?case using k r unfolding upd by auto
qed simp

lemma loaded_cache:
  assumes "sub_inv des s"
  shows "gm_get (sb_rooms (loadRooms des s)) = gm_get (sb_rooms s)"
proof
  fix room
  have keys: "\<forall>k \<in> fst ` set (sb_bucket s). \<exists>room < 2 ^ 63. k = itoa room"
    using assms by (simp add: sub_inv_def gm_get_def [abs_def] dom_map_of_conv_image_fst)
  have "distinct (map fst (sb_bucket s))" using assms by (simp add: sub_inv_def gm_ok_def)
  then have "gm_get (sb_rooms (loadRooms des s)) room =
    (if room < 2 ^ 63 \<and> itoa room \<in> fst ` set (sb_bucket s) then stored des s room else None)"
    using load_entries_get [OF _ keys, of des gm_empty room] by (simp add: loadRooms_def stored_def gm_get_def gm_empty_def)
  also have "\<dots> = stored des s room"
    using keys itoa_inject by (fastforce simp: stored_def gm_get_def dom_map_of_conv_image_fst map_of_eq_None_iff)
  finally show "gm_get (sb_rooms (loadRooms des s)) room = gm_get (sb_rooms s) room"
    using assms by (simp add: sub_inv_def)
qed

section \<open>Refinement\<close>

definition op_room :: "sub_op \<Rightarrow> nat" where
  "op_room op = (case op of Sub _ _ room \<Rightarrow> room | Unsub _ room \<Rightarrow> room | Config _ room _ \<Rightarrow> room)"

definition op_config :: "sub_op \<Rightarrow> RoomConfig" where
  "op_config op = (case op of Config _ _ cfg \<Rightarrow> cloneRoomConfig cfg | _ \<Rightarrow> defaultRoomConfig)"

lemma stored_dom: "room \<in> dom (stored des s) \<longleftrightarrow> gm_get (sb_bucket s) (itoa room) \<noteq> None"
  by (auto simp: stored_def)

lemma stored_put:
  assumes "des data = Some c" and "data \<noteq> []"
  shows "stored des (s\<lparr>sb_bucket := gm_put (itoa room) data (sb_bucket s), sb_rooms := R\<rparr>) = (stored des s)(room \<mapsto> c)"
  using assms by (auto simp: stored_def parseRoomConfig_def cloneRoomConfig_def)

lemma stored_del:
  "stored des (s\<lparr>sb_bucket := gm_del (itoa room) (sb_bucket s), sb_rooms := R\<rparr>) = (stored des s)(room := None)"
  by (auto simp: stored_def)

lemma gm_get_put_map: "gm_get (gm_put k v m) = (gm_get m)(k \<mapsto> v)" "gm_get (gm_del k m) = (gm_get m)(k := None)"
  by (rule ext, simp)+

lemma sub_inv_put:
  assumes "sub_inv des s" and "des data = Some c" and "data \<noteq> []" and "room < 2 ^ 63"
  shows "sub_inv des (s\<lparr>sb_bucket := gm_put (itoa room) data (sb_bucket s), sb_rooms := gm_put room c (sb_rooms s)\<rparr>)"
  using assms unfolding sub_inv_def stored_put [where des = des and data = data and c = c, OF assms(2,3)]
  by (auto simp: gm_get_put_map gm.dom_put simp del: gm_get_simps)

lemma sub_inv_del:
  assumes "sub_inv des s"
  shows "sub_inv des (s\<lparr>sb_bucket := gm_del (itoa room) (sb_bucket s), sb_rooms := gm_del room (sb_rooms s)\<rparr>)"
  using assms unfolding sub_inv_def stored_del
  by (auto simp: gm_get_put_map gm.dom_del simp del: gm_get_simps)

lemma sub_step_refines:
  assumes "sub_inv des s" and "des (ser (op_config op)) = Some (op_config op)" and "ser (op_config op) \<noteq> []"
    and "op_room op < 2 ^ 63"
  shows "sub_inv des (snd (sub_step ser op s)) \<and>
    (fst (sub_step ser op s), stored des (snd (sub_step ser op s))) = sub_spec op (stored des s)"
  using assms sub_inv_put [OF assms(1-3)] sub_inv_del [OF assms(1)]
  by (cases op)
    (simp_all add: sub_step_def sub_Subscribe_def sub_Unsubscribe_def UpdateConfig_def sub_spec_def op_config_def
      op_room_def stored_dom stored_put stored_del)

fun sub_run :: "(RoomConfig \<Rightarrow> bytes) \<Rightarrow> sub_op list \<Rightarrow> Subscriptions \<Rightarrow> sub_error option list \<times> Subscriptions" where
  "sub_run ser [] s = ([], s)"
| "sub_run ser (op # ops) s =
    (case sub_step ser op s of (e, s) \<Rightarrow> (case sub_run ser ops s of (es, s) \<Rightarrow> (e # es, s)))"

fun spec_run :: "sub_op list \<Rightarrow> (nat \<rightharpoonup> RoomConfig) \<Rightarrow> sub_error option list \<times> (nat \<rightharpoonup> RoomConfig)" where
  "spec_run [] m = ([], m)"
| "spec_run (op # ops) m =
    (case sub_spec op m of (e, m) \<Rightarrow> (case spec_run ops m of (es, m) \<Rightarrow> (e # es, m)))"

definition no_subscriptions :: Subscriptions where
  "no_subscriptions = \<lparr>sb_bucket = gm_empty, sb_rooms = gm_empty\<rparr>"

lemma sub_inv_empty: "sub_inv des no_subscriptions"
  by (auto simp: sub_inv_def no_subscriptions_def stored_def)

lemma sub_run_refines:
  assumes "sub_inv des s"
    and "\<forall>op \<in> set ops. op_room op < 2 ^ 63 \<and> des (ser (op_config op)) = Some (op_config op) \<and> ser (op_config op) \<noteq> []"
  shows "sub_inv des (snd (sub_run ser ops s)) \<and>
    spec_run ops (stored des s) = (fst (sub_run ser ops s), stored des (snd (sub_run ser ops s)))"
  using assms
proof (induction ops arbitrary: s)
  case (Cons op ops)
  have step: "sub_inv des (snd (sub_step ser op s))"
    "sub_spec op (stored des s) = (fst (sub_step ser op s), stored des (snd (sub_step ser op s)))"
    using sub_step_refines [OF Cons.prems(1), of ser op] Cons.prems(2) by auto
  show ?case
    using Cons.IH [OF step(1)] Cons.prems(2) step(2) by (simp add: case_prod_beta)
qed simp

text \<open>C23. The service behaves as a map from rooms to settings: every operation gives the error and has the
  effect it has on the map, a transaction that does not commit changes nothing, and a restart that loads
  the bucket finds the very same subscriptions.\<close>

theorem subscriptions_survive_restart:
  assumes "sub_run ser ops no_subscriptions = (es, s)"
    and "\<forall>op \<in> set ops. op_room op < 2 ^ 63 \<and> des (ser (op_config op)) = Some (op_config op) \<and> ser (op_config op) \<noteq> []"
  shows "spec_run ops Map.empty = (es, gm_get (sb_rooms s)) \<and>
    gm_get (sb_rooms (loadRooms des s)) = gm_get (sb_rooms s)"
proof -
  have empty: "stored des no_subscriptions = Map.empty" by (auto simp: stored_def no_subscriptions_def)
  have inv: "sub_inv des s" and run: "spec_run ops Map.empty = (es, stored des s)"
    using sub_run_refines [OF sub_inv_empty assms(2)] assms(1) empty by simp_all
  have "gm_get (sb_rooms s) = stored des s" using inv by (simp add: sub_inv_def)
  then show ?thesis using run loaded_cache [OF inv] by simp
qed

definition demo_config :: RoomConfig where
  "demo_config = defaultRoomConfig\<lparr>rc_Notify := True\<rparr>"

definition demo_ser :: "RoomConfig \<Rightarrow> bytes" where
  "demo_ser c = (if rc_Notify c then [1] else [2])"

definition demo_des :: "bytes \<Rightarrow> RoomConfig option" where
  "demo_des v = (if v = [1] then Some demo_config else if v = [2] then Some defaultRoomConfig else None)"

definition demo_ops :: "sub_op list" where
  "demo_ops = [Sub True True 7, Sub True True 7, Config True 7 (Some demo_config), Sub True False 8, Unsub True 9]"

theorem subscriptions_survive_restart_witness:
  "\<exists>s. fst (sub_run demo_ser demo_ops no_subscriptions) =
      [None, Some ErrRoomAlreadySubscribed, None, Some TransactionFailed, Some ErrRoomNotSubscribed] \<and>
    s = snd (sub_run demo_ser demo_ops no_subscriptions) \<and>
    gm_get (sb_rooms (loadRooms demo_des s)) = gm_get (sb_rooms s)"
proof -
  let ?r = "sub_run demo_ser demo_ops no_subscriptions"
  have hyp: "\<forall>op \<in> set demo_ops. op_room op < 2 ^ 63 \<and> demo_des (demo_ser (op_config op)) = Some (op_config op) \<and>
      demo_ser (op_config op) \<noteq> []"
    by (simp add: demo_ops_def op_room_def op_config_def demo_ser_def demo_des_def demo_config_def defaultRoomConfig_def
        cloneRoomConfig_def)
  have "fst ?r = [None, Some ErrRoomAlreadySubscribed, None, Some TransactionFailed, Some ErrRoomNotSubscribed]"
    by code_simp
  then show ?thesis
    using subscriptions_survive_restart [of demo_ser demo_ops "fst ?r" "snd ?r" demo_des, OF prod.collapse [symmetric] hyp]
    by blast
qed

end
