(* ===== verification/StreamSelect.thy ===== *)
theory StreamSelect
  imports GoPath GoSort "HOL-Library.Product_Lexorder" "HOL-Library.Multiset"
begin

text \<open>
  Which streams of a room are asked for and in which order they are tried: the options and their
  normalisation (\<open>internal/modules/bilibili/stream_options.go\<close>), the request, filtering and result of
  \<open>GetStreamURLsV2\<close> (\<open>stream.go\<close>) and the sorting (\<open>stream_sort.go\<close>). The signed HTTP request with
  its JSON answer and the lookup of a URL's query value are parameters.
\<close>

section \<open>Helpers\<close>

text \<open>\<open>fp.Unique\<close> keeps the first of equal items; \<open>fp.MapErr\<close> stops at the first error.\<close>

fun Unique_seen :: "'a list \<Rightarrow> 'a list \<Rightarrow> 'a list" where
  "Unique_seen seen [] = []"
| "Unique_seen seen (x # xs) = (if x \<in> set seen then Unique_seen seen xs else x # Unique_seen (x # seen) xs)"

definition Unique :: "'a list \<Rightarrow> 'a list" where
  "Unique xs = Unique_seen [] xs"

fun MapErr :: "('a \<Rightarrow> 'e + 'b) \<Rightarrow> 'a list \<Rightarrow> 'e + 'b list" where
  "MapErr f [] = Inr []"
| "MapErr f (x # xs) =
    (case f x of Inl e \<Rightarrow> Inl e
     | Inr y \<Rightarrow> (case MapErr f xs of Inl e \<Rightarrow> Inl e | Inr ys \<Rightarrow> Inr (y # ys)))"

text \<open>\<open>strings.Split\<close> and \<open>strings.Join\<close> for a separator of one byte.\<close>

fun Split :: "char \<Rightarrow> string \<Rightarrow> string list" where
  "Split c [] = [[]]"
| "Split c (x # xs) =
    (if x = c then [] # Split c xs
     else case Split c xs of p # ps \<Rightarrow> (x # p) # ps | [] \<Rightarrow> [[x]])"

fun JoinStrings :: "char \<Rightarrow> string list \<Rightarrow> string" where
  "JoinStrings c [] = []"
| "JoinStrings c [p] = p"
| "JoinStrings c (p # ps) = p @ c # JoinStrings c ps"

lemma Unique_seen: "set (Unique_seen seen xs) = set xs - set seen \<and> distinct (Unique_seen seen xs)"
  by (induction xs arbitrary: seen) auto

lemma Unique [simp]: "set (Unique xs) = set xs" "distinct (Unique xs)" "Unique xs = [] \<longleftrightarrow> xs = []"
  using Unique_seen [of "[]" xs] by (auto simp: Unique_def)

lemma Unique_seen_id: "distinct xs \<Longrightarrow> set xs \<inter> set seen = {} \<Longrightarrow> Unique_seen seen xs = xs"
  by (induction xs arbitrary: seen) auto

lemma Unique_distinct: "distinct xs \<Longrightarrow> Unique xs = xs"
  by (simp add: Unique_def Unique_seen_id)

lemma Split_nonempty [simp]: "Split c s \<noteq> []"
  by (induction s) (auto split: list.splits)

lemma Split_notin: "c \<notin> set s \<Longrightarrow> Split c s = [s]"
  by (induction s) auto

lemma Split_append: "c \<notin> set s \<Longrightarrow> Split c (s @ c # t) = s # Split c t"
  by (induction s) auto

lemma Split_JoinStrings: "ps \<noteq> [] \<Longrightarrow> \<forall>p \<in> set ps. c \<notin> set p \<Longrightarrow> Split c (JoinStrings c ps) = ps"
  by (induction c ps rule: JoinStrings.induct) (simp_all add: Split_notin Split_append)

section \<open>Options\<close>

definition ProfileHTTPFLV :: string where "ProfileHTTPFLV = ''http-flv''"
definition ProfileHLSTS :: string where "ProfileHLSTS = ''hls-ts''"
definition ProfileHLSFMP4 :: string where "ProfileHLSFMP4 = ''hls-fmp4''"

definition profile_IsValid :: "string \<Rightarrow> bool" where
  "profile_IsValid p \<longleftrightarrow> p = ProfileHTTPFLV \<or> p = ProfileHLSTS \<or> p = ProfileHLSFMP4"

definition codec_IsValid :: "string \<Rightarrow> bool" where
  "codec_IsValid c \<longleftrightarrow> c = ''0'' \<or> c = ''1'' \<or> c = ''2''"

definition quality_IsValid :: "int \<Rightarrow> bool" where
  "quality_IsValid q \<longleftrightarrow> q \<in> {80, 150, 250, 400, 10000, 20000, 30000}"

record getStreamURLsOptions =
  so_profiles :: "string list"
  so_codecs :: "string list"
  so_qn :: int
  so_onlyAudio :: bool

definition defaultGetStreamURLsOptions :: getStreamURLsOptions where
  "defaultGetStreamURLsOptions = \<lparr>so_profiles = [ProfileHTTPFLV, ProfileHLSTS, ProfileHLSFMP4],
     so_codecs = [''0'', ''1'', ''2''], so_qn = 10000, so_onlyAudio = False\<rparr>"

datatype GetStreamURLsOption = WithQn int | WithOnlyAudio bool | WithProfiles "string list" | WithCodecs "string list"

definition apply_option :: "GetStreamURLsOption \<Rightarrow> getStreamURLsOptions \<Rightarrow> getStreamURLsOptions" where
  "apply_option opt o' =
    (case opt of
       WithQn qn \<Rightarrow> o'\<lparr>so_qn := qn\<rparr>
     | WithOnlyAudio b \<Rightarrow> o'\<lparr>so_onlyAudio := b\<rparr>
     | WithProfiles ps \<Rightarrow> o'\<lparr>so_profiles := ps\<rparr>
     | WithCodecs cs \<Rightarrow> o'\<lparr>so_codecs := cs\<rparr>)"

datatype stream_error =
    ErrInvalidStreamProfile | ErrInvalidStreamCodec | ErrInvalidStreamQuality
  | ErrRoomNotFound | ErrStreamGeoRestricted | APIError int | RequestFailed

definition NormalizeStreamProfiles :: "string list \<Rightarrow> stream_error + string list" where
  "NormalizeStreamProfiles raw =
    (if raw = [] then Inr []
     else (let trimmed = filter (\<lambda>s. s \<noteq> []) (map TrimSpace raw) in
       if trimmed = [] then Inr []
       else case MapErr (\<lambda>s. if profile_IsValid s then Inr s else Inl ErrInvalidStreamProfile) trimmed of
         Inl e \<Rightarrow> Inl e
       | Inr profiles \<Rightarrow> Inr (Unique profiles)))"

definition ParseStreamProfiles :: "string \<Rightarrow> stream_error + string list" where
  "ParseStreamProfiles raw =
    (let raw = TrimSpace raw in if raw = [] then Inr [] else NormalizeStreamProfiles (Split (CHR '','') raw))"

definition FormatNameForProfile :: "string \<Rightarrow> string" where
  "FormatNameForProfile p =
    (if p = ProfileHTTPFLV then ''flv'' else if p = ProfileHLSTS then ''ts''
     else if p = ProfileHLSFMP4 then ''fmp4'' else [])"

text \<open>The two sets are collected, listed and sorted.\<close>

definition profile_params :: "string \<Rightarrow> (string \<times> string) option" where
  "profile_params p =
    (if p = ProfileHTTPFLV then Some (''0'', ''0'')
     else if p = ProfileHLSTS then Some (''1'', ''1'')
     else if p = ProfileHLSFMP4 then Some (''1'', ''2'') else None)"

definition profileQueryParams :: "string list \<Rightarrow> string \<times> string" where
  "profileQueryParams profiles =
    (let ps = List.map_filter profile_params profiles in
     (JoinStrings (CHR '','') (sort (Unique (map fst ps))), JoinStrings (CHR '','') (sort (Unique (map snd ps)))))"

definition joinCodecs :: "string list \<Rightarrow> string" where
  "joinCodecs codecs = JoinStrings (CHR '','') codecs"

definition EmptyOrElse :: "string \<Rightarrow> string \<Rightarrow> string" where
  "EmptyOrElse s d = (if s = [] then d else s)"

section \<open>Selection\<close>

record UrlInfoItem = ui_Host :: string  ui_Extra :: string
record CodecItem = ci_CodecName :: string  ci_BaseUrl :: string  ci_CurrentQn :: int  ci_AcceptQn :: "int list"
  ci_UrlInfos :: "UrlInfoItem list"
record FormatItem = fi_FormatName :: string  fi_Codecs :: "CodecItem list"
record StreamItem = st_ProtocolName :: string  st_Formats :: "FormatItem list"

record StreamURLInfo =
  si_Protocol :: string
  si_Format :: string
  si_Codec :: string
  si_URL :: string
  si_Qn :: int
  si_AcceptQn :: "int list"
  si_IsAudioOnly :: bool

record stream_query =
  q_qn :: int
  q_protocol :: string
  q_format :: string
  q_codec :: string
  q_only_audio :: string

definition mapStreamAPIError :: "int \<Rightarrow> stream_error" where
  "mapStreamAPIError code =
    (if code = 19002003 \<or> code = 60004 then ErrRoomNotFound
     else if code = 60005 then ErrStreamGeoRestricted else APIError code)"

definition containFormat :: "string list \<Rightarrow> string \<Rightarrow> bool" where
  "containFormat profiles format =
    list_ex (\<lambda>p. if format = ''flv'' then p = ProfileHTTPFLV
                 else if format = ''ts'' then p = ProfileHLSTS
                 else if format = ''fmp4'' then p = ProfileHLSFMP4 else False) profiles"

definition isAudioOnlyStreamURL :: "(string \<Rightarrow> string option) \<Rightarrow> string \<Rightarrow> bool" where
  "isAudioOnlyStreamURL ptype url = (ptype url = Some ''1'')"

definition url_stream :: "(string \<Rightarrow> string option) \<Rightarrow> StreamItem \<Rightarrow> FormatItem \<Rightarrow> CodecItem \<Rightarrow> UrlInfoItem \<Rightarrow> StreamURLInfo" where
  "url_stream ptype s f c u =
    (let url = ui_Host u @ ci_BaseUrl c @ ui_Extra u in
     \<lparr>si_Protocol = st_ProtocolName s, si_Format = fi_FormatName f, si_Codec = ci_CodecName c, si_URL = url,
      si_Qn = ci_CurrentQn c, si_AcceptQn = ci_AcceptQn c, si_IsAudioOnly = isAudioOnlyStreamURL ptype url\<rparr>)"

definition stream_infos :: "(string \<Rightarrow> string option) \<Rightarrow> getStreamURLsOptions \<Rightarrow> StreamItem list \<Rightarrow> StreamURLInfo list" where
  "stream_infos ptype o' streams =
    concat (map (\<lambda>s. concat (map (\<lambda>f.
      if \<not> containFormat (so_profiles o') (fi_FormatName f) then []
      else concat (map (\<lambda>c. List.map_filter (\<lambda>u.
        (let info = url_stream ptype s f c u in
         if so_onlyAudio o' \<noteq> si_IsAudioOnly info then None else Some info)) (ci_UrlInfos c)) (fi_Codecs f)))
      (st_Formats s))) streams)"

definition streamProfileRank :: "string \<Rightarrow> nat" where
  "streamProfileRank format =
    (if format = ''flv'' then 0 else if format = ''fmp4'' then 1 else if format = ''ts'' then 2 else 3)"

definition stream_less :: "int \<Rightarrow> StreamURLInfo \<Rightarrow> StreamURLInfo \<Rightarrow> bool" where
  "stream_less qn a b =
    (if qn > 0 \<and> (si_Qn a = qn) \<noteq> (si_Qn b = qn) then si_Qn a = qn
     else if si_Qn a \<noteq> si_Qn b then si_Qn a > si_Qn b
     else streamProfileRank (si_Format a) < streamProfileRank (si_Format b))"

definition sortStreams :: "StreamURLInfo list \<Rightarrow> int \<Rightarrow> StreamURLInfo list" where
  "sortStreams streams qn = SliceStable (stream_less qn) streams"

text \<open>The API answers with a failure of the request, or a code and the streams it has, if any.\<close>

definition GetStreamURLsV2 ::
    "(stream_query \<Rightarrow> (int \<times> StreamItem list option) option) \<Rightarrow> (string \<Rightarrow> string option) \<Rightarrow>
     GetStreamURLsOption list \<Rightarrow> stream_error + StreamURLInfo list" where
  "GetStreamURLsV2 api ptype opts =
    (let o' = fold apply_option opts defaultGetStreamURLsOptions in
     if \<not> list_all profile_IsValid (so_profiles o') then Inl ErrInvalidStreamProfile
     else if \<not> list_all codec_IsValid (so_codecs o') then Inl ErrInvalidStreamCodec
     else if \<not> quality_IsValid (so_qn o') then Inl ErrInvalidStreamQuality
     else (case profileQueryParams (so_profiles o') of (protocolRaw, formatRaw) \<Rightarrow>
       (case api \<lparr>q_qn = so_qn o', q_protocol = EmptyOrElse protocolRaw ''0,1'', q_format = EmptyOrElse formatRaw ''0,1,2'',
                  q_codec = EmptyOrElse (joinCodecs (so_codecs o')) ''0,1,2'',
                  q_only_audio = (if so_onlyAudio o' then ''1'' else ''0'')\<rparr> of
          None \<Rightarrow> Inl RequestFailed
        | Some (code, streams) \<Rightarrow>
            if code \<noteq> 0 then Inl (mapStreamAPIError code)
            else case streams of None \<Rightarrow> Inr []
            | Some ss \<Rightarrow> Inr (sortStreams (stream_infos ptype o' ss) (so_qn o')))))"

section \<open>Normalised profiles\<close>

lemma MapErr_valid:
  "MapErr (\<lambda>s. if P s then Inr s else Inl e) xs = (if list_all P xs then Inr xs else Inl e)"
  by (induction xs) auto

lemma profile_plain:
  assumes "profile_IsValid p" shows "p \<noteq> []" "TrimSpace p = p" "CHR '','' \<notin> set p"
  using assms
  by (auto simp: profile_IsValid_def ProfileHTTPFLV_def ProfileHLSTS_def ProfileHLSFMP4_def TrimSpace_def is_space_def)

lemma profile_ends:
  assumes "profile_IsValid p" shows "\<not> is_space (hd p)" "\<not> is_space (List.last p)"
  using assms
  by (auto simp: profile_IsValid_def ProfileHTTPFLV_def ProfileHLSTS_def ProfileHLSFMP4_def is_space_def)

lemma normalized_profiles:
  assumes "NormalizeStreamProfiles raw = Inr ps"
  shows "list_all profile_IsValid ps" and "distinct ps"
    and "set ps = {p \<in> TrimSpace ` set raw. p \<noteq> []}"
  using assms
  by (auto simp: NormalizeStreamProfiles_def MapErr_valid list_all_iff Let_def filter_empty_conv split: if_splits)

lemma normalize_id:
  assumes "list_all profile_IsValid ps" and "distinct ps"
  shows "NormalizeStreamProfiles ps = Inr ps"
proof -
  have "map TrimSpace ps = ps" and "filter (\<lambda>s. s \<noteq> []) ps = ps"
    using assms(1) profile_plain by (auto simp: list_all_iff intro!: map_idI)
  then show ?thesis using assms by (simp add: NormalizeStreamProfiles_def MapErr_valid Unique_distinct)
qed

lemma dropWhile_hd: "\<not> P (hd xs) \<Longrightarrow> dropWhile P xs = xs"
  by (cases xs) simp_all

lemma TrimSpace_ends: "\<not> is_space (hd s) \<Longrightarrow> \<not> is_space (List.last s) \<Longrightarrow> TrimSpace s = s"
  by (simp add: TrimSpace_def dropWhile_hd hd_rev)

lemma JoinStrings_ends:
  "ps \<noteq> [] \<Longrightarrow> \<forall>p \<in> set ps. p \<noteq> [] \<Longrightarrow>
    JoinStrings c ps \<noteq> [] \<and> hd (JoinStrings c ps) = hd (hd ps) \<and> List.last (JoinStrings c ps) = List.last (List.last ps)"
  by (induction c ps rule: JoinStrings.induct) auto

text \<open>What was normalised and stored is read back from the query parameter.\<close>

lemma profiles_roundtrip:
  assumes "NormalizeStreamProfiles raw = Inr ps"
  shows "ParseStreamProfiles (JoinStrings (CHR '','') ps) = Inr ps"
proof (cases "ps = []")
  case True
  then show ?thesis by (simp add: ParseStreamProfiles_def TrimSpace_def)
next
  case False
  have valid: "p \<noteq> [] \<and> CHR '','' \<notin> set p" if "p \<in> set ps" for p
    using normalized_profiles(1) [OF assms] profile_plain that by (auto simp: list_all_iff)
  have ends: "\<not> is_space (hd p)" "\<not> is_space (List.last p)" if "p \<in> set ps" for p
    using normalized_profiles(1) [OF assms] profile_ends that by (auto simp: list_all_iff)
  have j: "JoinStrings (CHR '','') ps \<noteq> []" "hd (JoinStrings (CHR '','') ps) = hd (hd ps)"
      "List.last (JoinStrings (CHR '','') ps) = List.last (List.last ps)"
    using JoinStrings_ends [OF False] valid by blast+
  have "TrimSpace (JoinStrings (CHR '','') ps) = JoinStrings (CHR '','') ps"
    unfolding j by (rule TrimSpace_ends) (simp_all only: j ends hd_in_set [OF False] last_in_set [OF False] not_False_eq_True)
  then show ?thesis
    using False j(1) valid normalize_id normalized_profiles(1,2) [OF assms]
    by (simp add: ParseStreamProfiles_def Split_JoinStrings)
qed

section \<open>What is selected\<close>

definition stream_key :: "int \<Rightarrow> StreamURLInfo \<Rightarrow> nat \<times> int \<times> nat" where
  "stream_key qn a = (if qn > 0 \<and> si_Qn a \<noteq> qn then 1 else 0, - si_Qn a, streamProfileRank (si_Format a))"

lemma stream_less_key: "stream_less qn a b \<longleftrightarrow> stream_key qn a < stream_key qn b"
  by (auto simp: stream_less_def stream_key_def less_prod_def)

lemma sortStreams_key: "sortStreams xs qn = sort_key (stream_key qn) xs"
  unfolding sortStreams_def by (rule SliceStable_sort_key) (rule stream_less_key)

lemma set_map_filter: "set (List.map_filter f xs) = {y. \<exists>x \<in> set xs. f x = Some y}"
  by (induction xs) (auto simp: List.map_filter_simps split: option.splits)

lemma stream_infos_set:
  "x \<in> set (stream_infos ptype o' ss) \<longleftrightarrow>
    (\<exists>s \<in> set ss. \<exists>f \<in> set (st_Formats s). \<exists>c \<in> set (fi_Codecs f). \<exists>u \<in> set (ci_UrlInfos c).
       x = url_stream ptype s f c u \<and> containFormat (so_profiles o') (si_Format x) \<and> si_IsAudioOnly x = so_onlyAudio o')"
proof -
  have "si_Format (url_stream ptype s f c u) = fi_FormatName f" for s f c u
    by (simp add: url_stream_def Let_def)
  then show ?thesis
    unfolding stream_infos_def by (force simp: set_map_filter Let_def split: if_splits)
qed


definition demo_streams :: "StreamItem list" where
  "demo_streams =
    (let c = (\<lambda>q u. \<lparr>ci_CodecName = ''avc'', ci_BaseUrl = ''/'', ci_CurrentQn = q, ci_AcceptQn = [], ci_UrlInfos = [\<lparr>ui_Host = u, ui_Extra = []\<rparr>]\<rparr>)
     in [\<lparr>st_ProtocolName = ''http_hls'', st_Formats =
            [\<lparr>fi_FormatName = ''ts'', fi_Codecs = [c 400 ''a'', c 10000 ''b'']\<rparr>,
             \<lparr>fi_FormatName = ''fmp4'', fi_Codecs = [c 10000 ''c'']\<rparr>]\<rparr>,
         \<lparr>st_ProtocolName = ''http_stream'', st_Formats = [\<lparr>fi_FormatName = ''flv'', fi_Codecs = [c 400 ''d'']\<rparr>]\<rparr>])"


text \<open>An empty allow-list asks for all formats and then accepts none.\<close>

lemma empty_profiles_select_nothing: "stream_infos ptype (o'\<lparr>so_profiles := []\<rparr>) ss = []"
  by (simp add: stream_infos_def containFormat_def)

end
