(* ===== verification/SubCheck.thy ===== *)
theory SubCheck
  imports RoundRobin Subscribe Recorder StreamSelect
begin

text \<open>
  The periodic check of the subscribed rooms (\<open>internal/services/subcheck\<close>): the schedule of shards, the
  decision for each room, the automatic start with its retries, and the sessions kept in the database. The
  answers of the room service and of the recorder, the clock and the outcome of a database write are given
  with each check. Rooms are processed in the order of the list, as Go's map iteration is any order. One
  check of a shard or one round of retries is one step; \<open>process_room\<close> is what is done for one room.
\<close>

section \<open>Schedule\<close>

record scheduleParams =
  sp_roomsPerShard :: int
  sp_tickSecs :: int
  sp_minInterval :: int
  sp_maxInterval :: int
  sp_maxShards :: int

text \<open>The defaults for values that are not positive, with intervals in seconds.\<close>

definition sp_defaults :: "scheduleParams \<Rightarrow> scheduleParams" where
  "sp_defaults p =
    \<lparr>sp_roomsPerShard = (if sp_roomsPerShard p \<le> 0 then 50 else sp_roomsPerShard p),
     sp_tickSecs = (if sp_tickSecs p \<le> 0 then 10 else sp_tickSecs p),
     sp_minInterval = (if sp_minInterval p \<le> 0 then 60 else sp_minInterval p),
     sp_maxInterval = (if sp_maxInterval p \<le> 0 then 300 else sp_maxInterval p),
     sp_maxShards = (if sp_maxShards p \<le> 0 then 32 else sp_maxShards p)\<rparr>"

definition scheduleParamsFromConfig :: "int \<Rightarrow> int \<Rightarrow> int \<Rightarrow> int \<Rightarrow> int \<Rightarrow> scheduleParams" where
  "scheduleParamsFromConfig roomsPerShard tickSecs minIntervalSecs maxIntervalSecs maxShards =
    sp_defaults \<lparr>sp_roomsPerShard = roomsPerShard, sp_tickSecs = tickSecs, sp_minInterval = minIntervalSecs,
      sp_maxInterval = maxIntervalSecs, sp_maxShards = maxShards\<rparr>"

text \<open>The quotient is computed in floating point and rounded up, which is exact for counts below \<open>2 ^ 53\<close>.\<close>

definition ceil_div :: "int \<Rightarrow> int \<Rightarrow> int" where
  "ceil_div a b = (a + b - 1) div b"

definition computeSchedule :: "int \<Rightarrow> scheduleParams \<Rightarrow> int \<times> int" where
  "computeSchedule roomCount p0 =
    (let p = sp_defaults p0;
         shards = (if roomCount > 0 then ceil_div roomCount (sp_roomsPerShard p) else 1);
         shards = (if shards > sp_maxShards p then sp_maxShards p else shards);
         interval = shards * sp_tickSecs p;
         interval = (if interval < sp_minInterval p then sp_minInterval p else interval);
         interval = (if interval > sp_maxInterval p then sp_maxInterval p else interval)
     in (shards, interval))"

definition needsLiveAction :: "RoomConfig \<Rightarrow> bool" where
  "needsLiveAction cfg \<longleftrightarrow> rc_Notify cfg \<or> rc_AutoRecord cfg"

definition countLiveCheckRooms :: "(nat, RoomConfig) gomap \<Rightarrow> int" where
  "countLiveCheckRooms rooms = int (length (filter (needsLiveAction \<circ> snd) rooms))"

text \<open>Shards, interval, time of the last change and the round robin behind them.\<close>

record schedule_state =
  ss_shards :: int
  ss_interval :: int
  ss_lastRescale :: "int option"
  ss_coordinator :: RoundRobin

definition maybeRescale :: "scheduleParams \<Rightarrow> (nat, RoomConfig) gomap option \<Rightarrow> int \<Rightarrow> schedule_state \<Rightarrow> schedule_state" where
  "maybeRescale p rooms now s =
    (case rooms of
       None \<Rightarrow> s
     | Some rooms \<Rightarrow>
        (case computeSchedule (countLiveCheckRooms rooms) p of (shards, interval) \<Rightarrow>
          if shards = ss_shards s \<and> interval = ss_interval s then s
          else if (case ss_lastRescale s of None \<Rightarrow> False | Some t \<Rightarrow> now - t < 30000000000) then s
          else s\<lparr>ss_coordinator := SetCyclePeriod (interval * 1000000000) (ss_coordinator s),
                 ss_shards := shards, ss_interval := interval, ss_lastRescale := Some now\<rparr>))"

definition partitionShardRooms :: "(nat, RoomConfig) gomap \<Rightarrow> nat \<Rightarrow> nat \<Rightarrow> nat list \<times> nat list \<times> (nat, RoomConfig) gomap" where
  "partitionShardRooms rooms shardIndex shardCount =
    (let shardRooms = (if shardCount > 1 then filter (\<lambda>(room, cfg). room mod shardCount = shardIndex) rooms else rooms)
     in (map fst (filter (needsLiveAction \<circ> snd) shardRooms),
         map fst (filter (\<lambda>r. \<not> needsLiveAction (snd r)) shardRooms), shardRooms))"

section \<open>State\<close>

record autoStartRetry =
  ar_sessionKey :: string
  ar_attempts :: nat
  ar_dueAt :: int
  ar_delays :: Sequence

datatype LiveState =
    LiveStateLiveDetected | LiveStateAutoRecordStarted | LiveStateAutoRecordRetryStarted | LiveStateAutoRecordFailed
  | LiveStateLiveEnded | LiveStateRecordStopped

datatype start_option = SoDuration int | SoStreamOptions "GetStreamURLsOption list" | SoRecordDanmaku | SoDeleteOldest

datatype sc_effect =
    LiveStatusSet nat bool | LiveSessionDetected nat | EmitStreamStarted nat | EmitStreamEnded nat
  | StartCalled nat "start_option list" | PublishLiveState nat LiveState | UnregisterLiveRoom nat

record SubCheck =
  sc_sessionKeys :: "(nat, string) gomap"
  sc_autoStartRetry :: "(nat, autoStartRetry) gomap"
  sc_bucket :: "(string, string) gomap"
  sc_log :: "sc_effect list"

definition sc_emit :: "sc_effect \<Rightarrow> SubCheck \<Rightarrow> SubCheck" where
  "sc_emit e s = s\<lparr>sc_log := sc_log s @ [e]\<rparr>"

record LiveRoomInfoDetail =
  li_LiveStatus :: int
  li_LiveIDStr :: string
  li_LiveID :: int
  li_LiveTime :: string

text \<open>What a check gets from the other services.\<close>

record check_env =
  ce_webhookOn :: bool
  ce_now :: int
  ce_status :: "nat \<Rightarrow> RecordStatus"
  ce_start :: "nat \<Rightarrow> rec_error option"
  ce_commits :: bool

definition maxAutoStartAttempts :: nat where "maxAutoStartAttempts = 6"

definition autoStartRetryDelays :: "int list" where
  "autoStartRetryDelays = [1000000000, 1000000000, 2000000000, 3000000000, 5000000000]"

definition resolveLiveSessionKey :: "LiveRoomInfoDetail \<Rightarrow> string" where
  "resolveLiveSessionKey info =
    (if li_LiveIDStr info \<noteq> [] \<and> li_LiveIDStr info \<noteq> ''0'' then ''live_id_str:'' @ li_LiveIDStr info
     else if li_LiveID info > 0 then ''live_id:'' @ itoa (nat (li_LiveID info))
     else if li_LiveTime info \<noteq> [] \<and> li_LiveTime info \<noteq> ''0000-00-00 00:00:00'' then ''live_time:'' @ li_LiveTime info
     else [])"

definition startErrCompletesAutoStart :: "rec_error option \<Rightarrow> bool" where
  "startErrCompletesAutoStart err \<longleftrightarrow>
    err = None \<or> err = Some ErrRecordingStarted \<or> err = Some ErrRecordRecovering"

definition isTransientAutoStartError :: "rec_error option \<Rightarrow> bool" where
  "isTransientAutoStartError err \<longleftrightarrow>
    \<not> (err = None \<or> err \<in> Some ` {ErrRecordingStarted, ErrRecordRecovering, ErrRecordingPending, ErrContextCanceled,
        ErrRoomBanned, ErrRoomEncrypted, ErrInsufficientDiskSpace})"

definition streamOptionsFromRoomConfig :: "RoomConfig \<Rightarrow> GetStreamURLsOption list" where
  "streamOptionsFromRoomConfig cfg =
    (if rc_Qn cfg > 0 \<and> quality_IsValid (rc_Qn cfg) then [WithQn (rc_Qn cfg)] else []) @
    (if rc_OnlyAudio cfg then [WithOnlyAudio True] else []) @
    (case NormalizeStreamProfiles (rc_StreamProfiles cfg) of
       Inr ps \<Rightarrow> if ps \<noteq> [] then [WithProfiles ps] else []
     | Inl _ \<Rightarrow> [])"

definition autoRecordArgs :: "RoomConfig \<Rightarrow> start_option list" where
  "autoRecordArgs cfg =
    (if rc_RecordDurationMinutes cfg = -1 then [SoDuration 0]
     else if rc_RecordDurationMinutes cfg > 0 then [SoDuration (rc_RecordDurationMinutes cfg * 60000000000)] else []) @
    (let opts = streamOptionsFromRoomConfig cfg in if opts \<noteq> [] then [SoStreamOptions opts] else []) @
    (if rc_RecordDanmaku cfg then [SoRecordDanmaku] else []) @
    (if rc_DeleteOldestOnLowDisk cfg then [SoDeleteOldest] else [])"

section \<open>One room\<close>

definition markSessionState :: "bool \<Rightarrow> nat \<Rightarrow> string \<Rightarrow> SubCheck \<Rightarrow> SubCheck" where
  "markSessionState commits room key s =
    s\<lparr>sc_sessionKeys := gm_put room key (sc_sessionKeys s),
      sc_bucket := (if commits then gm_put (itoa room) key (sc_bucket s) else sc_bucket s)\<rparr>"

definition clearSessionState :: "bool \<Rightarrow> nat \<Rightarrow> SubCheck \<Rightarrow> bool \<times> SubCheck" where
  "clearSessionState commits room s =
    (let s = s\<lparr>sc_autoStartRetry := gm_del room (sc_autoStartRetry s)\<rparr> in
     if gm_get (sc_sessionKeys s) room = None then (False, s)
     else (True, s\<lparr>sc_sessionKeys := gm_del room (sc_sessionKeys s),
                    sc_bucket := (if commits then gm_del (itoa room) (sc_bucket s) else sc_bucket s)\<rparr>))"

text \<open>The automatic start: the state to publish, whether the session is marked, and the service. The
  delays are never empty, so that \<open>None\<close> (an index out of range) does not arise, see below.\<close>

definition auto_start :: "check_env \<Rightarrow> nat \<Rightarrow> RoomConfig \<Rightarrow> string \<Rightarrow> autoStartRetry option \<Rightarrow> SubCheck \<Rightarrow>
    (LiveState \<times> bool \<times> SubCheck) option" where
  "auto_start env room cfg key retry s =
    (if rc_AutoRecord cfg \<and> ce_status env room \<noteq> Recording \<and> ce_status env room \<noteq> Recovering then
       (let s = sc_emit (StartCalled room (autoRecordArgs cfg)) s; err = ce_start env room in
        if startErrCompletesAutoStart err then
          Some (if retry \<noteq> None then LiveStateAutoRecordRetryStarted else LiveStateAutoRecordStarted, True, s)
        else if err = Some ErrRecordingPending then Some (LiveStateLiveDetected, False, s)
        else
          (let attempts = (case retry of None \<Rightarrow> 1 | Some r \<Rightarrow> ar_attempts r + 1);
               state = (if retry = None then LiveStateAutoRecordFailed else LiveStateLiveDetected) in
           if isTransientAutoStartError err \<and> attempts < maxAutoStartAttempts then
             (let r = (case retry of
                         None \<Rightarrow> \<lparr>ar_sessionKey = key, ar_attempts = 0, ar_dueAt = 0, ar_delays = NewSequence autoStartRetryDelays\<rparr>
                       | Some r \<Rightarrow> r) in
              case seq_Next (ar_delays r) of
                None \<Rightarrow> None
              | Some (delay, delays) \<Rightarrow>
                  Some (state, False,
                    s\<lparr>sc_autoStartRetry := gm_put room
                       (r\<lparr>ar_attempts := attempts, ar_dueAt := ce_now env + delay, ar_delays := delays\<rparr>) (sc_autoStartRetry s)\<rparr>))
           else Some (state, True, s)))
     else Some (LiveStateLiveDetected, True, s))"

definition room_live :: "check_env \<Rightarrow> nat \<Rightarrow> RoomConfig \<Rightarrow> string \<Rightarrow> SubCheck \<Rightarrow> SubCheck option" where
  "room_live env room cfg key s =
    (let retry = (case gm_get (sc_autoStartRetry s) room of
                    Some r \<Rightarrow> if ar_sessionKey r = key then Some r else None | None \<Rightarrow> None) in
     if (case retry of Some r \<Rightarrow> ce_now env < ar_dueAt r | None \<Rightarrow> False) then Some s
     else
       (let s = (if retry = None then
                   (let s = sc_emit (LiveSessionDetected room) s
                    in if ce_webhookOn env then sc_emit (EmitStreamStarted room) s else s)
                 else s) in
        case auto_start env room cfg key retry s of
          None \<Rightarrow> None
        | Some (state, markNow, s) \<Rightarrow>
            (let s = (if rc_Notify cfg \<and> (retry = None \<or> state = LiveStateAutoRecordRetryStarted)
                      then sc_emit (PublishLiveState room state) s else s)
             in Some (if markNow
                      then markSessionState (ce_commits env) room key (s\<lparr>sc_autoStartRetry := gm_del room (sc_autoStartRetry s)\<rparr>)
                      else s))))"

definition process_room :: "check_env \<Rightarrow> nat \<Rightarrow> RoomConfig \<Rightarrow> LiveRoomInfoDetail option \<Rightarrow> SubCheck \<Rightarrow> SubCheck option" where
  "process_room env room cfg info s =
    (case info of
       None \<Rightarrow> Some s
     | Some info \<Rightarrow>
        (let isLive = (li_LiveStatus info = 1); key = resolveLiveSessionKey info;
             s = sc_emit (LiveStatusSet room isLive) s in
         if \<not> isLive \<or> key = [] then
           (case clearSessionState (ce_commits env) room s of
              (cleared, s) \<Rightarrow> Some (if cleared \<and> ce_webhookOn env then sc_emit (EmitStreamEnded room) s else s))
         else if gm_get (sc_sessionKeys s) room = Some key then Some s
         else room_live env room cfg key s))"

section \<open>Checks\<close>

fun processRooms :: "check_env \<Rightarrow> (nat, RoomConfig) gomap \<Rightarrow> (nat \<Rightarrow> LiveRoomInfoDetail option) \<Rightarrow> SubCheck \<Rightarrow> SubCheck option" where
  "processRooms env [] infos s = Some s"
| "processRooms env ((room, cfg) # rest) infos s =
    (case process_room env room cfg (infos room) s of
       None \<Rightarrow> None
     | Some s \<Rightarrow> processRooms env rest infos s)"

text \<open>The answers of the room service: to one refresh of all rooms or else to one for each room, and from
  the cache. A refresh that fails has no answer.\<close>

record info_answers =
  ia_batch :: "(nat \<Rightarrow> LiveRoomInfoDetail option) option"
  ia_single :: "nat \<Rightarrow> LiveRoomInfoDetail option"
  ia_cached :: "(nat \<Rightarrow> LiveRoomInfoDetail option) option"

definition getNotifyRoomInfos :: "info_answers \<Rightarrow> nat list \<Rightarrow> nat \<Rightarrow> LiveRoomInfoDetail option" where
  "getNotifyRoomInfos ia roomIDs room =
    (if room \<in> set roomIDs
     then (case ia_batch ia of None \<Rightarrow> ia_single ia room | Some infos \<Rightarrow> infos room) else None)"

definition getCachedRoomInfos :: "info_answers \<Rightarrow> nat list \<Rightarrow> nat \<Rightarrow> LiveRoomInfoDetail option" where
  "getCachedRoomInfos ia roomIDs room =
    (if room \<in> set roomIDs then (case ia_cached ia of None \<Rightarrow> None | Some infos \<Rightarrow> infos room) else None)"

definition invalidateStaleRooms :: "bool \<Rightarrow> (nat, RoomConfig) gomap \<Rightarrow> SubCheck \<Rightarrow> SubCheck" where
  "invalidateStaleRooms commits rooms s =
    fold (\<lambda>room s. sc_emit (UnregisterLiveRoom room) (snd (clearSessionState commits room s)))
      (filter (\<lambda>room. gm_get rooms room = None) (map fst (sc_sessionKeys s))) s"

definition tryStartShardAutoRecordRooms ::
    "check_env \<Rightarrow> nat \<Rightarrow> nat \<Rightarrow> (nat, RoomConfig) gomap option \<Rightarrow> info_answers \<Rightarrow> SubCheck \<Rightarrow> SubCheck option" where
  "tryStartShardAutoRecordRooms env shardIndex shardCount rooms ia s =
    (case rooms of
       None \<Rightarrow> Some s
     | Some rooms \<Rightarrow>
        (case partitionShardRooms rooms shardIndex (if shardCount = 0 then 1 else shardCount) of
           (flagged, cached, shardRooms) \<Rightarrow>
             (let infos = (\<lambda>room. case getCachedRoomInfos ia cached room of
                             Some i \<Rightarrow> Some i | None \<Rightarrow> getNotifyRoomInfos ia flagged room);
                  s = (if shardIndex = 0 then invalidateStaleRooms (ce_commits env) rooms s else s)
              in processRooms env shardRooms infos s)))"

text \<open>A round of retries: rooms that are due, without those that were unsubscribed; a room without an answer
  waits for the longest delay.\<close>

definition postponeDue :: "int \<Rightarrow> nat \<Rightarrow> SubCheck \<Rightarrow> SubCheck" where
  "postponeDue now room s =
    (case gm_get (sc_autoStartRetry s) room of
       Some r \<Rightarrow>
         if \<not> ar_dueAt r > now
         then s\<lparr>sc_autoStartRetry := gm_put room (r\<lparr>ar_dueAt := now + List.last autoStartRetryDelays\<rparr>) (sc_autoStartRetry s)\<rparr>
         else s
     | None \<Rightarrow> s)"

definition retryDueRooms :: "check_env \<Rightarrow> (nat, RoomConfig) gomap \<Rightarrow> info_answers \<Rightarrow> SubCheck \<Rightarrow> SubCheck option" where
  "retryDueRooms env rooms ia s =
    (let due = filter (\<lambda>(room, r). \<not> ar_dueAt r > ce_now env) (sc_autoStartRetry s);
         gone = filter (\<lambda>room. gm_get rooms room = None) (map fst due);
         dueRooms = List.map_filter (\<lambda>room. map_option (Pair room) (gm_get rooms room)) (map fst due);
         s = s\<lparr>sc_autoStartRetry := fold gm_del gone (sc_autoStartRetry s)\<rparr> in
     if dueRooms = [] then Some s
     else map_option (fold (\<lambda>(room, cfg). postponeDue (ce_now env) room) dueRooms)
       (processRooms env dueRooms (getNotifyRoomInfos ia (map fst dueRooms)) s))"

text \<open>What the bucket gives back at the next start of the program; one byte 0 or 1 is the old format.\<close>

fun load_sessions :: "(string, string) gomap \<Rightarrow> (nat, string) gomap \<Rightarrow> (nat, string) gomap" where
  "load_sessions [] keys = keys"
| "load_sessions ((k, v) # rest) keys =
    (case Atoi k of
       None \<Rightarrow> load_sessions rest keys
     | Some room \<Rightarrow>
        if v = [] \<or> v = [char_of (0 :: nat)] \<or> v = [char_of (1 :: nat)] then load_sessions rest keys
        else load_sessions rest (gm_put room v keys))"

datatype sc_event =
    ShardCheck check_env nat nat "(nat, RoomConfig) gomap option" info_answers
  | RetryRound check_env "(nat, RoomConfig) gomap" info_answers

definition sc_step :: "sc_event \<Rightarrow> SubCheck \<Rightarrow> SubCheck option" where
  "sc_step ev s =
    (case ev of
       ShardCheck env i n rooms ia \<Rightarrow> tryStartShardAutoRecordRooms env i n rooms ia s
     | RetryRound env rooms ia \<Rightarrow> retryDueRooms env rooms ia s)"

fun sc_run :: "sc_event list \<Rightarrow> SubCheck \<Rightarrow> SubCheck option" where
  "sc_run [] s = Some s"
| "sc_run (ev # evs) s = (case sc_step ev s of None \<Rightarrow> None | Some s \<Rightarrow> sc_run evs s)"

section \<open>The session of one room\<close>

definition detections :: "nat \<Rightarrow> sc_effect list \<Rightarrow> nat" where
  "detections room es = length (filter (\<lambda>e. e = LiveSessionDetected room) es)"

definition announcements :: "nat \<Rightarrow> sc_effect list \<Rightarrow> nat" where
  "announcements room es = length (filter (\<lambda>e. e = EmitStreamStarted room) es)"

definition starts :: "nat \<Rightarrow> sc_effect list \<Rightarrow> nat" where
  "starts room es = length (filter (\<lambda>e. case e of StartCalled r _ \<Rightarrow> r = room | _ \<Rightarrow> False) es)"

lemma counts_append [simp]:
  "detections room (es @ [e]) = detections room es + (if e = LiveSessionDetected room then 1 else 0)"
  "announcements room (es @ [e]) = announcements room es + (if e = EmitStreamStarted room then 1 else 0)"
  "starts room (es @ [e]) = starts room es + (case e of StartCalled r _ \<Rightarrow> if r = room then 1 else 0 | _ \<Rightarrow> 0)"
  by (simp_all add: detections_def announcements_def starts_def split: sc_effect.split)

text \<open>What a room's entries and the counted effects are; other rooms do not matter.\<close>

definition view :: "nat \<Rightarrow> SubCheck \<Rightarrow> string option \<times> autoStartRetry option \<times> nat \<times> nat \<times> nat" where
  "view room s = (gm_get (sc_sessionKeys s) room, gm_get (sc_autoStartRetry s) room,
     detections room (sc_log s), announcements room (sc_log s), starts room (sc_log s))"

lemma view_emit:
  "view room (sc_emit e s) = (case view room s of (k, r, d, a, c) \<Rightarrow>
     (k, r, d + (if e = LiveSessionDetected room then 1 else 0), a + (if e = EmitStreamStarted room then 1 else 0),
      c + (case e of StartCalled r _ \<Rightarrow> if r = room then 1 else 0 | _ \<Rightarrow> 0)))"
  by (simp add: view_def sc_emit_def)

lemma view_mark [simp]: "r' \<noteq> room \<Longrightarrow> view room (markSessionState b r' key s) = view room s"
  by (simp add: view_def markSessionState_def)

lemma view_clear [simp]: "r' \<noteq> room \<Longrightarrow> view room (snd (clearSessionState b r' s)) = view room s"
  by (simp add: view_def clearSessionState_def Let_def)

lemma view_emit_other [simp]:
  "view room (sc_emit (LiveStatusSet r' b) s) = view room s"
  "view room (sc_emit (EmitStreamEnded r') s) = view room s"
  "view room (sc_emit (PublishLiveState r' st) s) = view room s"
  "view room (sc_emit (UnregisterLiveRoom r') s) = view room s"
  "r' \<noteq> room \<Longrightarrow> view room (sc_emit (LiveSessionDetected r') s) = view room s"
  "r' \<noteq> room \<Longrightarrow> view room (sc_emit (EmitStreamStarted r') s) = view room s"
  "r' \<noteq> room \<Longrightarrow> view room (sc_emit (StartCalled r' args) s) = view room s"
  by (simp_all add: view_emit split: prod.split)

lemma view_retry [simp]:
  "r' \<noteq> room \<Longrightarrow> view room (s\<lparr>sc_autoStartRetry := gm_put r' r (sc_autoStartRetry s)\<rparr>) = view room s"
  "r' \<noteq> room \<Longrightarrow> view room (s\<lparr>sc_autoStartRetry := gm_del r' (sc_autoStartRetry s)\<rparr>) = view room s"
  by (simp_all add: view_def)

lemma auto_start_other:
  "auto_start env r' cfg key retry s = Some (state, mark, s') \<Longrightarrow> r' \<noteq> room \<Longrightarrow> view room s' = view room s"
  by (auto simp: auto_start_def Let_def split: if_splits option.splits prod.splits)

lemma room_live_other:
  assumes "room_live env r' cfg key s = Some s'" and "r' \<noteq> room"
  shows "view room s' = view room s"
  using assms by (auto simp: room_live_def Let_def dest!: auto_start_other split: if_splits option.splits prod.splits)

lemma process_room_other:
  assumes "process_room env r' cfg info s = Some s'" and "r' \<noteq> room"
  shows "view room s' = view room s"
proof -
  have "view room (snd (clearSessionState b r' s)) = view room s" for b s using assms(2) by simp
  then have clear: "clearSessionState b r' s = (x, t) \<Longrightarrow> view room t = view room s" for b s x t by (metis snd_conv)
  show ?thesis
    using assms by (auto simp: process_room_def Let_def dest!: room_live_other clear split: if_splits option.splits prod.splits)
qed

text \<open>The invariant of a session: not seen yet, being retried with a known number of starts, or finished.\<close>

definition session_inv :: "string \<Rightarrow> nat \<Rightarrow> SubCheck \<Rightarrow> bool" where
  "session_inv K room s =
    (case view room s of (k, r, d, a, c) \<Rightarrow>
       a \<le> d \<and>
       (if k = Some K then d \<le> 1 \<and> c \<le> maxAutoStartAttempts
        else case r of
          Some x \<Rightarrow> if ar_sessionKey x = K then d = 1 \<and> c = ar_attempts x \<and> 0 < c \<and> c < maxAutoStartAttempts else d = 0 \<and> c = 0
        | None \<Rightarrow> d = 0 \<and> c = 0))"

lemma session_inv_view: "view room s' = view room s \<Longrightarrow> session_inv K room s' = session_inv K room s"
  by (simp add: session_inv_def)

lemma auto_start_view:
  assumes "auto_start env room cfg key retry s = Some (state, mark, s')" and "ce_start env room \<noteq> Some ErrRecordingPending"
    and "view room s = (k, r, d, a, c)"
  shows "\<exists>r' c'. view room s' = (k, r', d, a, c') \<and> c' \<le> Suc c \<and>
    (\<not> mark \<longrightarrow> (\<exists>x. r' = Some x \<and> c' = Suc c \<and>
       ar_attempts x = (case retry of None \<Rightarrow> 1 | Some y \<Rightarrow> ar_attempts y + 1) \<and>
       ar_sessionKey x = (case retry of None \<Rightarrow> key | Some y \<Rightarrow> ar_sessionKey y) \<and> ar_attempts x < maxAutoStartAttempts))"
  using assms
  by (auto simp: auto_start_def view_def sc_emit_def Let_def split: if_splits option.splits prod.splits)

lemma room_live_inv:
  assumes "room_live env room cfg K s = Some s'" and "ce_start env room \<noteq> Some ErrRecordingPending"
    and "session_inv K room s" and "gm_get (sc_sessionKeys s) room \<noteq> Some K"
  shows "session_inv K room s'"
proof -
  obtain k r d a c where v: "view room s = (k, r, d, a, c)" by (cases "view room s")
  have kr: "k = gm_get (sc_sessionKeys s) room" "r = gm_get (sc_autoStartRetry s) room"
    using v by (simp_all add: view_def)
  define retry where "retry = (case r of Some x \<Rightarrow> if ar_sessionKey x = K then Some x else None | None \<Rightarrow> None)"
  have inv: "a \<le> d" "if retry = None then d = 0 \<and> c = 0
      else d = 1 \<and> c = ar_attempts (the retry) \<and> 0 < c \<and> c < maxAutoStartAttempts"
    using assms(3,4) v kr by (auto simp: session_inv_def retry_def split: option.splits if_splits)
  have rt: "(case gm_get (sc_autoStartRetry s) room of Some r \<Rightarrow> if ar_sessionKey r = K then Some r else None | None \<Rightarrow> None) = retry"
    by (simp add: retry_def kr(2))
  define s1 where "s1 = (if retry = None then
      (if ce_webhookOn env then sc_emit (EmitStreamStarted room) (sc_emit (LiveSessionDetected room) s)
       else sc_emit (LiveSessionDetected room) s) else s)"
  obtain d1 a1 where v1: "view room s1 = (k, r, d1, a1, c)" "a1 \<le> d1" "d1 = 1"
    using v inv by (cases "ce_webhookOn env") (auto simp: s1_def view_emit Let_def split: if_splits)
  show ?thesis
  proof (cases "case retry of Some x \<Rightarrow> ce_now env < ar_dueAt x | None \<Rightarrow> False")
    case True
    then have "s' = s" using assms(1) unfolding room_live_def rt Let_def by simp
    then show ?thesis using assms(3) by simp
  next
    case False
    then obtain state mark s2 where start: "auto_start env room cfg K retry s1 = Some (state, mark, s2)"
      and s': "s' = (let s = (if rc_Notify cfg \<and> (retry = None \<or> state = LiveStateAutoRecordRetryStarted)
                      then sc_emit (PublishLiveState room state) s2 else s2)
             in if mark then markSessionState (ce_commits env) room K (s\<lparr>sc_autoStartRetry := gm_del room (sc_autoStartRetry s)\<rparr>) else s)"
      using assms(1) False unfolding room_live_def rt Let_def s1_def [symmetric]
      by (auto split: option.splits prod.splits)
    obtain r2 c2 where v2: "view room s2 = (k, r2, d1, a1, c2)" "c2 \<le> Suc c"
      and nomark: "\<not> mark \<longrightarrow> (\<exists>x. r2 = Some x \<and> c2 = Suc c \<and>
         ar_attempts x = (case retry of None \<Rightarrow> 1 | Some y \<Rightarrow> ar_attempts y + 1) \<and>
         ar_sessionKey x = (case retry of None \<Rightarrow> K | Some y \<Rightarrow> ar_sessionKey y) \<and> ar_attempts x < maxAutoStartAttempts)"
      using auto_start_view [OF start assms(2) v1(1)] by blast
    define s3 where "s3 = (if rc_Notify cfg \<and> (retry = None \<or> state = LiveStateAutoRecordRetryStarted)
                      then sc_emit (PublishLiveState room state) s2 else s2)"
    have v3: "view room s3 = (k, r2, d1, a1, c2)" using v2 by (simp add: s3_def)
    have c2: "c2 \<le> maxAutoStartAttempts" using v2(2) inv(2) by (auto simp: maxAutoStartAttempts_def split: if_splits)
    show ?thesis
    proof (cases mark)
      case True
      have "view room s' = (Some K, None, d1, a1, c2)"
        using v3 True s' by (simp add: s3_def [symmetric] Let_def) (simp add: view_def markSessionState_def)
      then show ?thesis using v1 c2 by (simp add: session_inv_def)
    next
      case False
      then have "s' = s3" using s' by (simp add: s3_def [symmetric] Let_def)
      moreover obtain x where x: "r2 = Some x" "c2 = Suc c" "ar_sessionKey x = K" "ar_attempts x = c2" "c2 < maxAutoStartAttempts"
        using nomark False inv(2) by (cases retry) (auto simp: retry_def split: option.splits if_splits)
      ultimately show ?thesis using v3 v1 assms(4) kr by (simp add: session_inv_def)
    qed
  qed
qed

definition live_with :: "string \<Rightarrow> LiveRoomInfoDetail option \<Rightarrow> bool" where
  "live_with K info \<longleftrightarrow> (\<forall>i. info = Some i \<longrightarrow> li_LiveStatus i = 1 \<and> resolveLiveSessionKey i = K)"

lemma process_room_inv:
  assumes "process_room env r' cfg info s = Some s'" and "session_inv K room s" and "K \<noteq> []"
    and "r' = room \<Longrightarrow> live_with K info" and "ce_start env room \<noteq> Some ErrRecordingPending"
  shows "session_inv K room s'"
proof (cases "r' = room")
  case False
  then show ?thesis using process_room_other [OF assms(1)] assms(2) session_inv_view by blast
next
  case True
  show ?thesis
  proof (cases info)
    case None
    then show ?thesis using assms(1,2) by (simp add: process_room_def)
  next
    case (Some i)
    let ?s = "sc_emit (LiveStatusSet room True) s"
    have i: "li_LiveStatus i = 1" "resolveLiveSessionKey i = K" using assms(4) True Some by (auto simp: live_with_def)
    have inv: "session_inv K room ?s" using assms(2) session_inv_view view_emit_other(1) by blast
    have s': "if gm_get (sc_sessionKeys ?s) room = Some K then s' = ?s else room_live env room cfg K ?s = Some s'"
      using assms(1,3) Some True i by (simp add: process_room_def Let_def split: if_splits)
    then show ?thesis
      using inv room_live_inv [OF _ assms(5) inv, of cfg s'] by (simp split: if_splits)
  qed
qed

lemma processRooms_inv:
  assumes "processRooms env rooms infos s = Some s'" and "session_inv K room s" and "K \<noteq> []"
    and "live_with K (infos room)" and "ce_start env room \<noteq> Some ErrRecordingPending"
  shows "session_inv K room s'"
  using assms(1,2)
proof (induction rooms arbitrary: s)
  case (Cons rc rest)
  obtain r' cfg where rc: "rc = (r', cfg)" by (cases rc)
  then obtain s1 where s1: "process_room env r' cfg (infos r') s = Some s1" "processRooms env rest infos s1 = Some s'"
    using Cons.prems(1) by (auto split: option.splits)
  have "session_inv K room s1"
    using process_room_inv [OF s1(1) Cons.prems(2) assms(3) _ assms(5)] assms(4) by simp
  then show ?case by (rule Cons.IH [OF s1(2)])
qed simp

lemma clear_other: "r' \<noteq> room \<Longrightarrow> session_inv K room (snd (clearSessionState b r' s)) = session_inv K room s"
  by (rule session_inv_view) simp

lemma invalidate_inv:
  assumes "gm_get rooms room \<noteq> None"
  shows "session_inv K room (invalidateStaleRooms b rooms s) = session_inv K room s"
proof -
  have "view room (fold (\<lambda>room s. sc_emit (UnregisterLiveRoom room) (snd (clearSessionState b room s))) rs s) = view room s"
    if "room \<notin> set rs" for rs s
    using that by (induction rs arbitrary: s) auto
  then show ?thesis using assms unfolding invalidateStaleRooms_def by (intro session_inv_view) auto
qed

text \<open>In every answer the room is live with the session \<open>K\<close>, or missing.\<close>

definition answers_live :: "string \<Rightarrow> nat \<Rightarrow> info_answers \<Rightarrow> bool" where
  "answers_live K room ia \<longleftrightarrow>
    live_with K (ia_single ia room) \<and> (\<forall>f. ia_batch ia = Some f \<or> ia_cached ia = Some f \<longrightarrow> live_with K (f room))"

lemma answers_live_infos:
  assumes "answers_live K room ia"
  shows "live_with K (getNotifyRoomInfos ia rs room)" and "live_with K (getCachedRoomInfos ia rs room)"
  using assms by (auto simp: answers_live_def getNotifyRoomInfos_def getCachedRoomInfos_def live_with_def split: option.splits)

text \<open>Checks while the session \<open>K\<close> goes on: the room stays subscribed and no start is in flight elsewhere.\<close>

definition during_session :: "string \<Rightarrow> nat \<Rightarrow> sc_event \<Rightarrow> bool" where
  "during_session K room ev =
    (case ev of
       ShardCheck env i n rooms ia \<Rightarrow>
         (\<forall>rs. rooms = Some rs \<longrightarrow> gm_get rs room \<noteq> None) \<and> answers_live K room ia \<and> ce_start env room \<noteq> Some ErrRecordingPending
     | RetryRound env rooms ia \<Rightarrow>
         gm_get rooms room \<noteq> None \<and> answers_live K room ia \<and> ce_start env room \<noteq> Some ErrRecordingPending)"

lemma shard_check_inv:
  assumes "tryStartShardAutoRecordRooms env i n rooms ia s = Some s'" and "session_inv K room s" and "K \<noteq> []"
    and "during_session K room (ShardCheck env i n rooms ia)"
  shows "session_inv K room s'"
proof (cases rooms)
  case None
  then show ?thesis using assms(1,2) by (simp add: tryStartShardAutoRecordRooms_def)
next
  case (Some rs)
  obtain flagged cached shardRooms where part: "partitionShardRooms rs i (if n = 0 then 1 else n) = (flagged, cached, shardRooms)"
    by (cases "partitionShardRooms rs i (if n = 0 then 1 else n)")
  let ?infos = "\<lambda>room. case getCachedRoomInfos ia cached room of Some i \<Rightarrow> Some i | None \<Rightarrow> getNotifyRoomInfos ia flagged room"
  let ?s = "if i = 0 then invalidateStaleRooms (ce_commits env) rs s else s"
  have "live_with K (getCachedRoomInfos ia cached room)" "live_with K (getNotifyRoomInfos ia flagged room)"
    using assms(4) answers_live_infos by (auto simp: during_session_def)
  then have "live_with K (?infos room)" by (cases "getCachedRoomInfos ia cached room") simp_all
  moreover have "session_inv K room ?s" using assms(2,4) Some by (simp add: during_session_def invalidate_inv)
  moreover have "processRooms env shardRooms ?infos ?s = Some s'"
    using assms(1) Some part by (simp add: tryStartShardAutoRecordRooms_def Let_def)
  ultimately show ?thesis
    using processRooms_inv [of env shardRooms ?infos ?s s' K room] assms(3,4) by (simp add: during_session_def)
qed

lemma postpone_inv:
  assumes "session_inv K room s" shows "session_inv K room (postponeDue now r' s)"
proof (cases "r' = room")
  case False
  then have "view room (postponeDue now r' s) = view room s"
    by (simp add: postponeDue_def split: option.split)
  then show ?thesis using assms session_inv_view by blast
next
  case True
  then show ?thesis using assms by (auto simp: postponeDue_def session_inv_def view_def split: option.splits)
qed

lemma retry_round_inv:
  assumes "retryDueRooms env rooms ia s = Some s'" and "session_inv K room s" and "K \<noteq> []"
    and "during_session K room (RetryRound env rooms ia)"
  shows "session_inv K room s'"
proof -
  define due where "due = filter (\<lambda>(room, r). \<not> ar_dueAt r > ce_now env) (sc_autoStartRetry s)"
  define gone where "gone = filter (\<lambda>room. gm_get rooms room = None) (map fst due)"
  define dueRooms where "dueRooms = List.map_filter (\<lambda>room. map_option (Pair room) (gm_get rooms room)) (map fst due)"
  define s1 where "s1 = s\<lparr>sc_autoStartRetry := fold gm_del gone (sc_autoStartRetry s)\<rparr>"
  let ?infos = "getNotifyRoomInfos ia (map fst dueRooms)"
  have "room \<notin> set gone" using assms(4) by (auto simp: gone_def during_session_def)
  then have s1: "session_inv K room s1"
    using assms(2) by (subst session_inv_view [of room s1 s]) (simp_all add: s1_def view_def gm.get_fold_del)
  have retry: "(if dueRooms = [] then Some s1 else
      map_option (fold (\<lambda>(room, cfg). postponeDue (ce_now env) room) dueRooms) (processRooms env dueRooms ?infos s1)) = Some s'"
    using assms(1) by (simp only: retryDueRooms_def due_def gone_def dueRooms_def s1_def Let_def)
  show ?thesis
  proof (cases "dueRooms = []")
    case True
    then show ?thesis using retry s1 by simp
  next
    case False
    then obtain s2 where s2: "processRooms env dueRooms ?infos s1 = Some s2"
      and s': "s' = fold (\<lambda>(room, cfg). postponeDue (ce_now env) room) dueRooms s2"
      using retry by auto
    have "live_with K (?infos room)" using assms(4) answers_live_infos(1) by (simp add: during_session_def)
    then have "session_inv K room s2"
      using processRooms_inv [OF s2 s1 assms(3)] assms(4) by (simp add: during_session_def)
    then have "session_inv K room (fold (\<lambda>(room, cfg). postponeDue (ce_now env) room) rs s2)" for rs :: "(nat, RoomConfig) gomap"
      by (induction rs arbitrary: s2) (auto intro: postpone_inv)
    then show ?thesis unfolding s' .
  qed
qed

lemma sc_run_inv:
  assumes "sc_run evs s = Some s'" and "\<forall>ev \<in> set evs. during_session K room ev" and "session_inv K room s" and "K \<noteq> []"
  shows "session_inv K room s'"
  using assms(1-3)
proof (induction evs arbitrary: s)
  case (Cons ev evs)
  then obtain s1 where s1: "sc_step ev s = Some s1" "sc_run evs s1 = Some s'" by (auto split: option.splits)
  have "session_inv K room s1"
  proof (cases ev)
    case (ShardCheck env i n rooms ia)
    then show ?thesis using s1(1) Cons.prems shard_check_inv [OF _ Cons.prems(3) assms(4)] by (simp add: sc_step_def)
  next
    case (RetryRound env rooms ia)
    then show ?thesis using s1(1) Cons.prems retry_round_inv [OF _ Cons.prems(3) assms(4)] by (simp add: sc_step_def)
  qed
  then show ?case using Cons.IH [OF s1(2)] Cons.prems(2) by simp
qed simp

text \<open>Nothing panics: the delays of every retry are the configured ones.\<close>

definition delays_ok :: "SubCheck \<Rightarrow> bool" where
  "delays_ok s \<longleftrightarrow> (\<forall>room r. gm_get (sc_autoStartRetry s) room = Some r \<longrightarrow> sq_delays (ar_delays r) = autoStartRetryDelays)"

lemma delays_ok_simps [simp]:
  "delays_ok (sc_emit e s) = delays_ok s"
  "delays_ok (markSessionState b room key s) = delays_ok s"
  by (simp_all add: delays_ok_def sc_emit_def markSessionState_def)

lemma delays_ok_del: "delays_ok s \<Longrightarrow> delays_ok (s\<lparr>sc_autoStartRetry := gm_del room (sc_autoStartRetry s)\<rparr>)"
  by (simp add: delays_ok_def)

lemma delays_ok_clear: "delays_ok s \<Longrightarrow> delays_ok (snd (clearSessionState b room s))"
  by (simp add: delays_ok_def clearSessionState_def Let_def)

lemma seq_Next_delays: "sq_delays b \<noteq> [] \<Longrightarrow> \<exists>d b'. seq_Next b = Some (d, b') \<and> sq_delays b' = sq_delays b"
  by (simp add: seq_Next_def)

lemma auto_start_total:
  assumes "delays_ok s" and "\<And>r. retry = Some r \<Longrightarrow> sq_delays (ar_delays r) = autoStartRetryDelays"
  shows "\<exists>state mark s'. auto_start env room cfg key retry s = Some (state, mark, s') \<and> delays_ok s'"
proof -
  define r where "r = (case retry of
      None \<Rightarrow> \<lparr>ar_sessionKey = key, ar_attempts = 0, ar_dueAt = 0, ar_delays = NewSequence autoStartRetryDelays\<rparr> | Some r \<Rightarrow> r)"
  have "sq_delays (ar_delays r) = autoStartRetryDelays"
    using assms(2) by (auto simp: r_def NewSequence_def split: option.split)
  then obtain d b where next': "seq_Next (ar_delays r) = Some (d, b)" "sq_delays b = autoStartRetryDelays"
    using seq_Next_delays [of "ar_delays r"] by (auto simp: autoStartRetryDelays_def)
  then show ?thesis
    using assms(1) unfolding auto_start_def Let_def r_def [symmetric] next'(1)
    by (auto simp: delays_ok_def sc_emit_def split: option.split)
qed

lemma room_live_total:
  assumes "delays_ok s"
  shows "\<exists>s'. room_live env room cfg key s = Some s' \<and> delays_ok s'"
proof -
  define retry where "retry = (case gm_get (sc_autoStartRetry s) room of Some r \<Rightarrow> if ar_sessionKey r = key then Some r else None | None \<Rightarrow> None)"
  define s1 where "s1 = (if retry = None then
      (if ce_webhookOn env then sc_emit (EmitStreamStarted room) (sc_emit (LiveSessionDetected room) s)
       else sc_emit (LiveSessionDetected room) s) else s)"
  have "delays_ok s1" using assms by (simp add: s1_def)
  moreover have "sq_delays (ar_delays r) = autoStartRetryDelays" if "retry = Some r" for r
    using that assms by (auto simp: retry_def delays_ok_def split: option.splits if_splits)
  ultimately obtain state mark s2 where s2: "auto_start env room cfg key retry s1 = Some (state, mark, s2)" "delays_ok s2"
    using auto_start_total by blast
  then show ?thesis
    using assms unfolding room_live_def Let_def retry_def [symmetric] s1_def [symmetric] s2(1)
    by (auto intro: delays_ok_del)
qed

lemma process_room_total:
  assumes "delays_ok s" shows "\<exists>s'. process_room env room cfg info s = Some s' \<and> delays_ok s'"
proof (cases info)
  case (Some i)
  have "delays_ok (snd (clearSessionState b room s'))" if "delays_ok s'" for b s' using that by (rule delays_ok_clear)
  then have clear: "delays_ok t" if "clearSessionState b room s' = (x, t)" "delays_ok s'" for b s' x t using that by (metis snd_conv)
  show ?thesis
    using assms Some room_live_total [of "sc_emit (LiveStatusSet room True) s" env room cfg "resolveLiveSessionKey i"] clear
    by (auto simp: process_room_def Let_def split: prod.split)
qed (use assms in \<open>simp add: process_room_def\<close>)

lemma processRooms_total: "delays_ok s \<Longrightarrow> \<exists>s'. processRooms env rooms infos s = Some s' \<and> delays_ok s'"
proof (induction rooms arbitrary: s)
  case (Cons rc rest)
  obtain room cfg where rc: "rc = (room, cfg)" by (cases rc)
  obtain s1 where s1: "process_room env room cfg (infos room) s = Some s1" "delays_ok s1"
    using process_room_total [OF Cons.prems] by blast
  then show ?case using Cons.IH [OF s1(2)] rc by simp
qed simp

lemma sc_step_total:
  assumes "delays_ok s" shows "\<exists>s'. sc_step ev s = Some s' \<and> delays_ok s'"
proof (cases ev)
  case (ShardCheck env i n rooms ia)
  have "delays_ok (invalidateStaleRooms b rs s)" for b rs
  proof -
    have "delays_ok s \<Longrightarrow> delays_ok (fold (\<lambda>room s. sc_emit (UnregisterLiveRoom room) (snd (clearSessionState b room s))) xs s)" for xs s
      by (induction xs arbitrary: s) (simp_all add: delays_ok_clear)
    then show ?thesis using assms by (simp add: invalidateStaleRooms_def)
  qed
  then show ?thesis
    using ShardCheck assms processRooms_total
    by (auto simp: sc_step_def tryStartShardAutoRecordRooms_def Let_def split: option.split prod.split)
next
  case (RetryRound env rooms ia)
  have del: "delays_ok (s\<lparr>sc_autoStartRetry := fold gm_del gone (sc_autoStartRetry s)\<rparr>)" for gone
    using assms by (simp add: delays_ok_def gm.get_fold_del)
  have "delays_ok t \<Longrightarrow> delays_ok (postponeDue now room t)" for now room t
    by (auto simp: postponeDue_def delays_ok_def split: option.split)
  then have fold: "delays_ok t \<Longrightarrow> delays_ok (fold (\<lambda>(room, cfg). postponeDue now room) rs t)"
    for rs :: "(nat, RoomConfig) gomap" and now t
    by (induction rs arbitrary: t) auto
  define due where "due = filter (\<lambda>(room, r). \<not> ar_dueAt r > ce_now env) (sc_autoStartRetry s)"
  define gone where "gone = filter (\<lambda>room. gm_get rooms room = None) (map fst due)"
  define dueRooms where "dueRooms = List.map_filter (\<lambda>room. map_option (Pair room) (gm_get rooms room)) (map fst due)"
  obtain s2 where s2: "processRooms env dueRooms (getNotifyRoomInfos ia (map fst dueRooms))
      (s\<lparr>sc_autoStartRetry := fold gm_del gone (sc_autoStartRetry s)\<rparr>) = Some s2" "delays_ok s2"
    using processRooms_total [OF del] by blast
  have "sc_step ev s = (if dueRooms = [] then Some (s\<lparr>sc_autoStartRetry := fold gm_del gone (sc_autoStartRetry s)\<rparr>)
      else Some (fold (\<lambda>(room, cfg). postponeDue (ce_now env) room) dueRooms s2))"
    unfolding RetryRound sc_step_def sc_event.case retryDueRooms_def Let_def due_def [symmetric] gone_def [symmetric]
      dueRooms_def [symmetric] s2(1) by simp
  then show ?thesis using del fold [OF s2(2)] by simp
qed

lemma sc_run_total: "delays_ok s \<Longrightarrow> \<exists>s'. sc_run evs s = Some s'"
proof (induction evs arbitrary: s)
  case (Cons ev evs)
  obtain s1 where "sc_step ev s = Some s1" "delays_ok s1" using sc_step_total [OF Cons.prems] by blast
  then show ?case using Cons.IH by simp
qed simp


definition demo_room :: RoomConfig where
  "demo_room = defaultRoomConfig\<lparr>rc_AutoRecord := True, rc_Notify := True\<rparr>"

definition demo_rooms :: "(nat, RoomConfig) gomap" where
  "demo_rooms = [(7, demo_room)]"

definition demo_info :: "int \<Rightarrow> LiveRoomInfoDetail" where
  "demo_info status = \<lparr>li_LiveStatus = status, li_LiveIDStr = ''5'', li_LiveID = 5, li_LiveTime = []\<rparr>"

definition demo_answers :: "int \<Rightarrow> info_answers" where
  "demo_answers status = \<lparr>ia_batch = Some (\<lambda>room. Some (demo_info status)), ia_single = (\<lambda>room. None), ia_cached = None\<rparr>"

definition demo_env :: "int \<Rightarrow> rec_error option \<Rightarrow> check_env" where
  "demo_env now err = \<lparr>ce_webhookOn = True, ce_now = now, ce_status = (\<lambda>room. Idle), ce_start = (\<lambda>room. err), ce_commits = True\<rparr>"

definition new_subcheck :: SubCheck where
  "new_subcheck = \<lparr>sc_sessionKeys = gm_empty, sc_autoStartRetry = gm_empty, sc_bucket = gm_empty, sc_log = []\<rparr>"

definition demo_check :: "int \<Rightarrow> rec_error option \<Rightarrow> int \<Rightarrow> sc_event" where
  "demo_check now err status = ShardCheck (demo_env now err) 0 1 (Some demo_rooms) (demo_answers status)"

definition demo_checks :: "sc_event list" where
  "demo_checks = [demo_check 0 (Some ErrStreamNotLive) 1, RetryRound (demo_env 2000000000 (Some ErrLiveAPI)) demo_rooms (demo_answers 1),
     demo_check 60000000000 None 1]"

lemma demo_during: "\<forall>ev \<in> set demo_checks. during_session ''live_id_str:5'' 7 ev"
  by (simp add: demo_checks_def demo_check_def during_session_def demo_rooms_def gm_get_def demo_env_def answers_live_def
      demo_answers_def live_with_def demo_info_def resolveLiveSessionKey_def)

lemma demo_checked: "map_option (\<lambda>s. sc_log s) (sc_run demo_checks new_subcheck) =
    Some [LiveStatusSet 7 True, LiveSessionDetected 7, EmitStreamStarted 7, StartCalled 7 [], PublishLiveState 7 LiveStateAutoRecordFailed,
      LiveStatusSet 7 True, StartCalled 7 [], LiveStatusSet 7 True, StartCalled 7 [], PublishLiveState 7 LiveStateAutoRecordRetryStarted]"
  by code_simp


text \<open>A start that is in flight elsewhere leaves the session unmarked without a retry: the next check
  announces the same session a second time. And a session whose starts only failed so far is forgotten
  without the announced stream ever being reported as ended.\<close>

lemma announcements_not_paired:
  "map_option (\<lambda>s. announcements 7 (sc_log s))
     (sc_run [demo_check 0 (Some ErrRecordingPending) 1, demo_check 10000000000 (Some ErrRecordingPending) 1] new_subcheck) = Some 2 \<and>
   map_option (\<lambda>s. (announcements 7 (sc_log s), EmitStreamEnded 7 \<in> set (sc_log s)))
     (sc_run [demo_check 0 (Some ErrStreamNotLive) 1, demo_check 500000000 (Some ErrStreamNotLive) 0,
        demo_check 1000000000 (Some ErrStreamNotLive) 0] new_subcheck) = Some (1, False)"
  by (intro conjI; code_simp)

section \<open>Shards\<close>

text \<open>The coordinator as the service starts it, with one participant per possible shard; and the turn of a
  shard, which does nothing beyond the active ones.\<close>

definition start_coordinator :: "scheduleParams \<Rightarrow> int \<Rightarrow> RoundRobin" where
  "start_coordinator p interval =
    fold (\<lambda>_ r. snd (rr_Register r)) [0 ..< nat (sp_maxShards p)] (SetMinTick 1000000000 (NewRoundRobin (interval * 1000000000)))"

definition shard_turn :: "check_env \<Rightarrow> nat \<Rightarrow> nat \<Rightarrow> (nat, RoomConfig) gomap option \<Rightarrow> info_answers \<Rightarrow> SubCheck \<Rightarrow> SubCheck option" where
  "shard_turn env shard activeShards rooms ia s =
    (if shard \<ge> activeShards then Some s else tryStartShardAutoRecordRooms env shard activeShards rooms ia s)"

definition shard_rooms :: "nat \<Rightarrow> nat \<Rightarrow> (nat, RoomConfig) gomap \<Rightarrow> nat set" where
  "shard_rooms shard activeShards rooms =
    (if shard \<ge> activeShards then {} else fst ` set (snd (snd (partitionShardRooms rooms shard activeShards))))"

lemma ids_Register: "ids (snd (rr_Register r)) = ids r @ [Suc (rr_nextID r)]" "rr_nextID (snd (rr_Register r)) = Suc (rr_nextID r)"
  by (simp_all add: rr_Register_def ensureLoopLocked_def ids_def Let_def)

lemma ids_start_coordinator: "ids (start_coordinator p interval) = [1 ..< Suc (nat (sp_maxShards p))]"
proof -
  have "ids (fold (\<lambda>_ r. snd (rr_Register r)) [0 ..< n] r) = ids r @ [Suc (rr_nextID r) ..< Suc (rr_nextID r + n)] \<and>
    rr_nextID (fold (\<lambda>_ r. snd (rr_Register r)) [0 ..< n] r) = rr_nextID r + n" for n r
    by (induction n) (simp_all add: ids_Register)
  then show ?thesis by (simp add: start_coordinator_def SetMinTick_def NewRoundRobin_def ids_def)
qed

lemma shard_rooms_mod:
  "shard < activeShards \<Longrightarrow> shard_rooms shard activeShards rooms = {room \<in> fst ` set rooms. room mod activeShards = shard}"
  by (cases "activeShards = 1") (auto simp: shard_rooms_def partitionShardRooms_def Let_def image_iff)

lemma ceil_div_bounds:
  assumes "0 < a" and "0 < b" shows "1 \<le> ceil_div a b" "a \<le> ceil_div a b * b" "(ceil_div a b - 1) * b < a"
proof -
  have e: "ceil_div a b * b = a + b - 1 - (a + b - 1) mod b"
    unfolding ceil_div_def by (metis div_mult_mod_eq add_diff_cancel_right')
  have m: "0 \<le> (a + b - 1) mod b" "(a + b - 1) mod b < b" using assms(2) by simp_all
  show le: "a \<le> ceil_div a b * b" using e m by linarith
  show "(ceil_div a b - 1) * b < a" using e m by (simp add: left_diff_distrib)
  show "1 \<le> ceil_div a b"
  proof (rule ccontr)
    assume "\<not> 1 \<le> ceil_div a b"
    then have "ceil_div a b * b \<le> 0" using assms(2) by (simp add: mult_nonpos_nonneg)
    then show False using le assms(1) by linarith
  qed
qed

text \<open>As many shards as needed, at most the configured number, and an interval within its limits.\<close>

lemma schedule_bounds:
  assumes "computeSchedule n p = (shards, interval)"
  shows "1 \<le> shards" "shards \<le> sp_maxShards (sp_defaults p)"
    "shards = sp_maxShards (sp_defaults p) \<or> n \<le> shards * sp_roomsPerShard (sp_defaults p)"
    "interval \<le> sp_maxInterval (sp_defaults p)"
    "min (sp_minInterval (sp_defaults p)) (sp_maxInterval (sp_defaults p)) \<le> interval"
proof -
  have pos: "0 < sp_roomsPerShard (sp_defaults p)" "0 < sp_maxShards (sp_defaults p)" by (simp_all add: sp_defaults_def)
  define c where "c = (if n > 0 then ceil_div n (sp_roomsPerShard (sp_defaults p)) else 1)"
  have c: "1 \<le> c" "n \<le> c * sp_roomsPerShard (sp_defaults p)"
    using ceil_div_bounds [of n "sp_roomsPerShard (sp_defaults p)"] pos by (auto simp: c_def)
  have sh: "shards = (if c > sp_maxShards (sp_defaults p) then sp_maxShards (sp_defaults p) else c)"
  proof -
    have "fst (computeSchedule n p) = (if c > sp_maxShards (sp_defaults p) then sp_maxShards (sp_defaults p) else c)"
      by (simp only: computeSchedule_def Let_def fst_conv c_def)
    then show ?thesis using assms by simp
  qed
  have iv: "interval = (let i = (if shards * sp_tickSecs (sp_defaults p) < sp_minInterval (sp_defaults p)
      then sp_minInterval (sp_defaults p) else shards * sp_tickSecs (sp_defaults p)) in
      if i > sp_maxInterval (sp_defaults p) then sp_maxInterval (sp_defaults p) else i)"
  proof -
    have "snd (computeSchedule n p) = (let i = (if fst (computeSchedule n p) * sp_tickSecs (sp_defaults p) < sp_minInterval (sp_defaults p)
      then sp_minInterval (sp_defaults p) else fst (computeSchedule n p) * sp_tickSecs (sp_defaults p)) in
      if i > sp_maxInterval (sp_defaults p) then sp_maxInterval (sp_defaults p) else i)"
      by (simp only: computeSchedule_def Let_def fst_conv snd_conv)
    moreover have "fst (computeSchedule n p) = shards" "snd (computeSchedule n p) = interval" using assms by simp_all
    ultimately show ?thesis by (simp only:)
  qed
  show "1 \<le> shards" "shards \<le> sp_maxShards (sp_defaults p)"
    "shards = sp_maxShards (sp_defaults p) \<or> n \<le> shards * sp_roomsPerShard (sp_defaults p)"
    using sh c pos by auto
  show "interval \<le> sp_maxInterval (sp_defaults p)"
    "min (sp_minInterval (sp_defaults p)) (sp_maxInterval (sp_defaults p)) \<le> interval"
    using iv by (auto simp: Let_def)
qed

text \<open>Whatever the number of subscribed rooms, every one of them is checked in each round of the
  coordinator, by exactly one of the active shards: as many ticks as there are participants cover them all,
  while every shard takes its signals and nobody registers or leaves.\<close>

lemma every_room_checked_each_round:
  assumes "computeSchedule n p = (shards, interval)"
    and "ids r = ids (start_coordinator (sp_defaults p) cycle)" and "rr_calm evs r"
    and "nat (sp_maxShards (sp_defaults p)) \<le> rr_ticks evs"
  shows "fst ` set rooms \<subseteq> (\<Union>i \<in> set (rr_signals evs r). shard_rooms (i - 1) (nat shards) rooms) \<and>
    (\<forall>room \<in> fst ` set rooms. \<exists>!shard. room \<in> shard_rooms shard (nat shards) rooms)"
proof
  have sh: "0 < nat shards" "nat shards \<le> nat (sp_maxShards (sp_defaults p))"
    using schedule_bounds(1,2) [OF assms(1)] by simp_all
  have one: "room \<in> shard_rooms shard (nat shards) rooms \<longleftrightarrow> shard = room mod nat shards" if "room \<in> fst ` set rooms" for room shard
  proof (cases "shard < nat shards")
    case True
    then show ?thesis using that shard_rooms_mod [OF True] by auto
  next
    case False
    then have "shard \<noteq> room mod nat shards" using mod_less_divisor [OF sh(1)] by metis
    then show ?thesis using False by (simp add: shard_rooms_def)
  qed
  show "fst ` set rooms \<subseteq> (\<Union>i \<in> set (rr_signals evs r). shard_rooms (i - 1) (nat shards) rooms)"
  proof (rule rr.work_covered [OF assms(3)])
    show "length (ids r) \<le> rr_ticks evs" using assms(2,4) by (simp add: ids_start_coordinator)
    show "\<exists>i \<in> set (ids r). room \<in> shard_rooms (i - 1) (nat shards) rooms" if room: "room \<in> fst ` set rooms" for room
    proof
      have "room mod nat shards < nat (sp_maxShards (sp_defaults p))" using sh mod_less_divisor le_less_trans less_le_trans by blast
      then show "Suc (room mod nat shards) \<in> set (ids r)" using assms(2) by (simp add: ids_start_coordinator) linarith
      show "room \<in> shard_rooms (Suc (room mod nat shards) - 1) (nat shards) rooms" using one [OF room] by simp
    qed
  qed
  show "\<forall>room \<in> fst ` set rooms. \<exists>!shard. room \<in> shard_rooms shard (nat shards) rooms" using one by simp
qed

definition demo_schedule :: scheduleParams where
  "demo_schedule = \<lparr>sp_roomsPerShard = 1, sp_tickSecs = 0, sp_minInterval = 0, sp_maxInterval = 0, sp_maxShards = 2\<rparr>"

definition demo_round :: "rr_event list" where
  "demo_round = [LoopStart 0, LoopFire 0, LoopBody 0 [1, 2], Receive 0, LoopFire 0, LoopBody 0 [1, 2]]"

lemma every_room_checked_each_round_witness:
  "{5, 6} \<subseteq> (\<Union>i \<in> set (rr_signals demo_round (start_coordinator (sp_defaults demo_schedule) 60)).
    shard_rooms (i - 1) 2 [(5, demo_room), (6, demo_room)])"
proof -
  let ?r = "start_coordinator (sp_defaults demo_schedule) 60"
  have sched: "computeSchedule 2 demo_schedule = (2, 60)" by code_simp
  have run: "rr_run demo_round ?r \<noteq> None" by code_simp
  have ids: "ids ?r = [1, 2]" by code_simp
  have "\<forall>j l. LoopBody j l \<in> set demo_round \<longrightarrow> {1, 2} \<subseteq> set l" by (simp add: demo_round_def)
  moreover have "\<forall>ev \<in> set demo_round. keeps_participants ev" by (simp add: demo_round_def keeps_participants_def)
  ultimately have "rr_calm demo_round ?r" using run unfolding rr_calm_def ids by simp
  moreover have "nat (sp_maxShards (sp_defaults demo_schedule)) \<le> rr_ticks demo_round" by code_simp
  ultimately show ?thesis
    using every_room_checked_each_round [OF sched refl, where evs = demo_round and rooms = "[(5, demo_room), (6, demo_room)]"] by simp
qed

section \<open>Restart\<close>

text \<open>Session keys and bucket agree while writes commit; no session key looks like a value of the old format.\<close>

definition persisted :: "SubCheck \<Rightarrow> bool" where
  "persisted s \<longleftrightarrow> gm_ok (sc_bucket s) \<and> (\<forall>room. gm_get (sc_bucket s) (itoa room) = gm_get (sc_sessionKeys s) room) \<and>
    (\<forall>k v. gm_get (sc_bucket s) k = Some v \<longrightarrow> 8 < length v \<and> (\<exists>room < 2 ^ 63. k = itoa room))"

lemma session_key_length: "resolveLiveSessionKey info = [] \<or> 8 < length (resolveLiveSessionKey info)"
  by (cases "itoa (nat (li_LiveID info))") (auto simp: resolveLiveSessionKey_def)

lemma persisted_simps [simp]:
  "persisted (sc_emit e s) = persisted s" "persisted (s\<lparr>sc_autoStartRetry := m\<rparr>) = persisted s"
  by (simp_all add: persisted_def sc_emit_def)

lemma persisted_mark: "persisted s \<Longrightarrow> room < 2 ^ 63 \<Longrightarrow> 8 < length key \<Longrightarrow> persisted (markSessionState True room key s)"
  by (auto simp: persisted_def markSessionState_def split: if_splits)

lemma persisted_clear: "persisted s \<Longrightarrow> clearSessionState True room s = (b, s') \<Longrightarrow> persisted s'"
  by (auto simp: persisted_def clearSessionState_def Let_def split: if_splits)

lemma persisted_start: "persisted s \<Longrightarrow> auto_start env room cfg key retry s = Some (st, mark, s') \<Longrightarrow> persisted s'"
  by (auto simp: auto_start_def Let_def split: if_splits option.splits prod.splits)

lemma persisted_live:
  assumes "persisted s" and "room_live env room cfg key s = Some s'" and "ce_commits env" and "room < 2 ^ 63" and "8 < length key"
  shows "persisted s'"
  using assms by (auto simp: room_live_def Let_def intro!: persisted_mark dest!: persisted_start [rotated]
      split: if_splits option.splits prod.splits)

lemma persisted_process:
  assumes "persisted s" and "process_room env room cfg info s = Some s'" and "ce_commits env" and "room < 2 ^ 63"
  shows "persisted s'"
proof -
  have "?thesis" if info: "info = Some i" for i
  proof (cases "li_LiveStatus i \<noteq> 1 \<or> resolveLiveSessionKey i = []")
    case True
    let ?s = "sc_emit (LiveStatusSet room (li_LiveStatus i = 1)) s"
    obtain b s1 where c: "clearSessionState (ce_commits env) room ?s = (b, s1)"
      by (cases "clearSessionState (ce_commits env) room ?s")
    have "persisted s1" using persisted_clear [of ?s room b s1] assms(1,3) c by simp
    moreover have "s' = s1 \<or> s' = sc_emit (EmitStreamEnded room) s1"
      using assms(2) info True c by (auto simp: process_room_def Let_def split: if_splits)
    ultimately show ?thesis by auto
  next
    case False
    let ?s = "sc_emit (LiveStatusSet room True) s"
    have "s' = ?s \<or> room_live env room cfg (resolveLiveSessionKey i) ?s = Some s'"
      using assms(2) info False by (auto simp: process_room_def Let_def split: if_splits)
    moreover have "8 < length (resolveLiveSessionKey i)" using session_key_length False by blast
    ultimately show ?thesis using persisted_live [of ?s, OF _ _ assms(3,4)] assms(1) by auto
  qed
  then show ?thesis using assms(1,2) by (cases info) (simp_all add: process_room_def)
qed

lemma persisted_rooms:
  "processRooms env rooms infos s = Some s' \<Longrightarrow> persisted s \<Longrightarrow> ce_commits env \<Longrightarrow> \<forall>room \<in> fst ` set rooms. room < 2 ^ 63 \<Longrightarrow> persisted s'"
proof (induction rooms arbitrary: s)
  case (Cons rc rest)
  obtain room cfg where rc: "rc = (room, cfg)" by (cases rc)
  then obtain s1 where s1: "process_room env room cfg (infos room) s = Some s1" "processRooms env rest infos s1 = Some s'"
    using Cons.prems(1) by (auto split: option.splits)
  show ?case
    using Cons.IH [OF s1(2) persisted_process [OF Cons.prems(2) s1(1) Cons.prems(3)]] Cons.prems(3,4) rc by simp
qed simp

lemma persisted_shard_check:
  assumes "tryStartShardAutoRecordRooms env i n rooms ia s = Some s'" and "persisted s" and "ce_commits env"
    and "\<forall>rs. rooms = Some rs \<longrightarrow> (\<forall>room \<in> fst ` set rs. room < 2 ^ 63)"
  shows "persisted s'"
proof -
  have "persisted (snd (clearSessionState True room t))" if "persisted t" for room t
    using persisted_clear [OF that] by (metis prod.collapse)
  then have "persisted (fold (\<lambda>room s. sc_emit (UnregisterLiveRoom room) (snd (clearSessionState True room s))) xs t)" if "persisted t" for xs t
    using that by (induction xs arbitrary: t) simp_all
  then have "persisted (invalidateStaleRooms True rs s)" for rs using assms(2) by (simp add: invalidateStaleRooms_def)
  show ?thesis
  proof (cases rooms)
    case None
    then show ?thesis using assms(1,2) by (simp add: tryStartShardAutoRecordRooms_def)
  next
    case (Some rs)
    obtain flagged cached shardRooms where part: "partitionShardRooms rs i (if n = 0 then 1 else n) = (flagged, cached, shardRooms)"
      by (cases "partitionShardRooms rs i (if n = 0 then 1 else n)")
    let ?s = "if i = 0 then invalidateStaleRooms (ce_commits env) rs s else s"
    let ?infos = "\<lambda>room. case getCachedRoomInfos ia cached room of Some i \<Rightarrow> Some i | None \<Rightarrow> getNotifyRoomInfos ia flagged room"
    have "set shardRooms \<subseteq> set rs" using part by (auto simp: partitionShardRooms_def Let_def split: if_splits)
    then have "\<forall>room \<in> fst ` set shardRooms. room < 2 ^ 63" using assms(4) Some by auto
    moreover have "persisted ?s" using assms(2,3) \<open>\<And>rs. persisted (invalidateStaleRooms True rs s)\<close> by simp
    moreover have "processRooms env shardRooms ?infos ?s = Some s'"
      using assms(1) Some part by (simp add: tryStartShardAutoRecordRooms_def Let_def)
    ultimately show ?thesis using persisted_rooms [OF _ _ assms(3)] by blast
  qed
qed

lemma load_sessions_get:
  assumes "distinct (map fst es)" and "\<forall>(k, v) \<in> set es. 8 < length v \<and> (\<exists>room < 2 ^ 63. k = itoa room)"
  shows "gm_get (load_sessions es keys) room = (case map_of es (itoa room) of Some v \<Rightarrow> Some v | None \<Rightarrow> gm_get keys room)"
  using assms
proof (induction es arbitrary: keys)
  case (Cons e rest)
  obtain k v where e: "e = (k, v)" by (cases e)
  then obtain r where r: "k = itoa r" "r < 2 ^ 63" and v: "8 < length v" using Cons.prems(2) by auto
  have load: "load_sessions (e # rest) keys = load_sessions rest (gm_put r v keys)"
    using e r v Atoi_itoa [OF r(2)] by auto
  have "gm_get (load_sessions rest (gm_put r v keys)) room =
      (case map_of rest (itoa room) of Some v \<Rightarrow> Some v | None \<Rightarrow> gm_get (gm_put r v keys) room)"
    using Cons.IH [of "gm_put r v keys"] Cons.prems by simp
  moreover have "map_of rest k = None" using Cons.prems(1) e by (simp add: map_of_eq_None_iff)
  ultimately show ?case using e r unfolding load by (auto split: option.split)
qed simp

lemma restart_finds_sessions:
  assumes "persisted s" shows "gm_get (load_sessions (sc_bucket s) gm_empty) = gm_get (sc_sessionKeys s)"
proof
  fix room
  have "\<forall>(k, v) \<in> set (sc_bucket s). 8 < length v \<and> (\<exists>room < 2 ^ 63. k = itoa room)"
    using assms by (auto simp: persisted_def gm_get_def gm_ok_def dest!: map_of_is_SomeI [rotated])
  then show "gm_get (load_sessions (sc_bucket s) gm_empty) room = gm_get (sc_sessionKeys s) room"
    using assms load_sessions_get [of "sc_bucket s" gm_empty room]
    by (auto simp: persisted_def gm_ok_def gm_get_def gm_empty_def split: option.splits)
qed

end
