(* ===== verification/ConvertFiles.thy ===== *)
theory ConvertFiles
  imports GoPath GoMap Mp4 Backoff
begin

text \<open>
  The files a conversion works on (\<open>internal/services/convert/file_guard.go\<close>, \<open>source_delete.go\<close>, and
  \<open>IsFileExists\<close>, \<open>ReplaceFile\<close> of \<open>utils/file.go\<close>): the checks of an output, and the deletion of a
  source with its attempts and the marking when they fail. A file is its size, what ffprobe says of it and
  what the scan for a \<open>moov\<close> box finds; the outcome of each removal is an input.
\<close>

section \<open>Files\<close>

datatype probe_answer = ProbeOk | ProbeUnavailable | ProbeFailed

record mfile =
  mf_size :: int
  mf_probe :: probe_answer
  mf_moov :: "io_error + bool"

type_synonym files = "(string, mfile) gomap"

definition IsFileExists :: "string \<Rightarrow> files \<Rightarrow> bool" where
  "IsFileExists p fs = (case gm_get fs p of None \<Rightarrow> False | Some f \<Rightarrow> mf_size f > 0)"

text \<open>\<open>os.Rename\<close>: the target is replaced; the source has to exist.\<close>

definition os_Rename :: "string \<Rightarrow> string \<Rightarrow> files \<Rightarrow> files option" where
  "os_Rename p q fs = (case gm_get fs p of None \<Rightarrow> None | Some f \<Rightarrow> Some (gm_put q f (gm_del p fs)))"

text \<open>Both file system calls may fail, for a reason of their own; the renaming also when there is no
  temporary file, and then the old file is already gone.\<close>

definition ReplaceFile :: "bool \<Rightarrow> bool \<Rightarrow> string \<Rightarrow> string \<Rightarrow> files \<Rightarrow> bool \<times> files" where
  "ReplaceFile removable renamable tmp final fs =
    (if gm_get fs final \<noteq> None \<and> \<not> removable then (False, fs)
     else let fs = gm_del final fs in
       case (if renamable then os_Rename tmp final fs else None) of
         None \<Rightarrow> (False, fs)
       | Some fs \<Rightarrow> (True, fs))"

definition isConvertedFileInvalid :: "int \<Rightarrow> int \<Rightarrow> bool" where
  "isConvertedFileInvalid outputBytes inputBytes \<longleftrightarrow>
    outputBytes < 1024 * 1024 \<or> (inputBytes > 0 \<and> outputBytes * 2 < inputBytes)"

text \<open>An input that is gone counts as empty.\<close>

definition validateOutputFileSize :: "string \<Rightarrow> string \<Rightarrow> files \<Rightarrow> bool" where
  "validateOutputFileSize input output fs =
    (case gm_get fs output of
       None \<Rightarrow> False
     | Some f \<Rightarrow> \<not> isConvertedFileInvalid (mf_size f) (case gm_get fs input of None \<Rightarrow> 0 | Some g \<Rightarrow> mf_size g))"

definition validateOutputContainer :: "string \<Rightarrow> mfile option \<Rightarrow> bool" where
  "validateOutputContainer format f =
    (case f of
       None \<Rightarrow> False
     | Some f \<Rightarrow>
        (case mf_probe f of
           ProbeOk \<Rightarrow> True
         | ProbeFailed \<Rightarrow> False
         | ProbeUnavailable \<Rightarrow> IsISOBMFF format \<and> mf_moov f = Inr True))"

section \<open>Deleting a source\<close>

definition sourceDeleteMaxAttempts :: nat where "sourceDeleteMaxAttempts = 5"

definition newSourceDeleteBackoff :: Expotential where
  "newSourceDeleteBackoff = NewExpotential 1000000000 (\<lambda>d. d * 2) 30000000000"

text \<open>One attempt: whether the service has been stopped, and whether the removal succeeds.\<close>

definition removeSourceFile :: "bool \<Rightarrow> string \<Rightarrow> files \<Rightarrow> files option" where
  "removeSourceFile removable p fs =
    (if \<not> IsFileExists p fs then Some fs else if removable then Some (gm_del p fs) else None)"

datatype delete_outcome = Aborted | Deleted | AttemptsExhausted

fun delete_attempts :: "nat \<Rightarrow> Expotential \<Rightarrow> (bool \<times> bool \<times> bool) list \<Rightarrow> string \<Rightarrow> files \<Rightarrow> delete_outcome \<times> int list \<times> files" where
  "delete_attempts n bo [] p fs = (Aborted, [], fs)"
| "delete_attempts n bo ((stopped, removable, stopped_waiting) # rest) p fs =
    (if stopped then (Aborted, [], fs)
     else case removeSourceFile removable p fs of
       Some fs \<Rightarrow> (Deleted, [], fs)
     | None \<Rightarrow>
        if n = sourceDeleteMaxAttempts then (AttemptsExhausted, [], fs)
        else (case exp_Next bo of (delay, bo) \<Rightarrow>
          if stopped_waiting then (Aborted, [delay], fs)
          else (case delete_attempts (n + 1) bo rest p fs of (r, ds, fs) \<Rightarrow> (r, delay # ds, fs))))"

text \<open>The names tried for a source that could not be deleted: with the mark, then with a number from 2 on.
  The mark of the program is a text that is not ASCII.\<close>

definition mark_name :: "string \<Rightarrow> string \<Rightarrow> nat \<Rightarrow> string" where
  "mark_name mark p i =
    (let base = Base p; ext = Ext base; stem = take (length base - length ext) base; d = take (length p - length base) p in
     if i < 2 then d @ stem @ mark @ ext else d @ stem @ mark @ ''-'' @ itoa i @ ext)"

fun mark_search :: "nat \<Rightarrow> string \<Rightarrow> string \<Rightarrow> nat \<Rightarrow> files \<Rightarrow> string option" where
  "mark_search 0 mark p i fs = None"
| "mark_search (Suc fuel) mark p i fs =
    (if \<not> IsFileExists (mark_name mark p i) fs then Some (mark_name mark p i) else mark_search fuel mark p (i + 1) fs)"

text \<open>More names than files are enough.\<close>

definition markSourceForManualDelete :: "string \<Rightarrow> string \<Rightarrow> files \<Rightarrow> (string \<times> files) option" where
  "markSourceForManualDelete mark p fs =
    (case mark_search (Suc (length fs)) mark p 1 fs of
       None \<Rightarrow> None
     | Some target \<Rightarrow> map_option (Pair target) (os_Rename p target fs))"

definition deleteSource :: "string \<Rightarrow> (bool \<times> bool \<times> bool) list \<Rightarrow> string \<Rightarrow> files \<Rightarrow> delete_outcome \<times> files" where
  "deleteSource mark answers p fs =
    (case delete_attempts 1 newSourceDeleteBackoff answers p fs of
       (AttemptsExhausted, _, fs) \<Rightarrow>
         (AttemptsExhausted, case markSourceForManualDelete mark p fs of None \<Rightarrow> fs | Some (_, fs) \<Rightarrow> fs)
     | (r, _, fs) \<Rightarrow> (r, fs))"

section \<open>Lemmas\<close>

lemma exists_get: "IsFileExists p fs \<Longrightarrow> gm_get fs p \<noteq> None"
  by (auto simp: IsFileExists_def split: option.splits)

lemma delete_attempts_files:
  "delete_attempts n bo answers p fs = (r, ds, fs') \<Longrightarrow>
    (r = Deleted \<longrightarrow> (fs' = fs \<or> fs' = gm_del p fs) \<and> \<not> IsFileExists p fs') \<and> (r \<noteq> Deleted \<longrightarrow> fs' = fs)"
proof (induction n bo answers p fs arbitrary: ds rule: delete_attempts.induct)
  case (2 n bo stopped removable stopped_waiting rest p fs)
  show ?case
  proof (cases "stopped")
    case False
    show ?thesis
    proof (cases "removeSourceFile removable p fs")
      case None
      obtain delay bo' where next': "exp_Next bo = (delay, bo')" by (cases "exp_Next bo")
      obtain r1 ds1 fs1 where rec: "delete_attempts (n + 1) bo' rest p fs = (r1, ds1, fs1)"
        by (cases "delete_attempts (n + 1) bo' rest p fs") auto
      show ?thesis
        using 2(2) False None next' rec 2(1) [OF False None _ next' [symmetric], of ds1]
        by (auto split: if_splits)
    next
      case (Some fs1)
      then show ?thesis
        using 2(2) False by (auto simp: removeSourceFile_def IsFileExists_def split: if_splits)
    qed
  qed (use 2(2) in simp)
qed simp

lemma mark_name_inj: "mark_name mark p i = mark_name mark p j \<Longrightarrow> 1 \<le> i \<Longrightarrow> 1 \<le> j \<Longrightarrow> i = j"
proof -
  assume eq: "mark_name mark p i = mark_name mark p j" and ij: "1 \<le> i" "1 \<le> j"
  have "i < 2 \<longleftrightarrow> j < 2"
    using arg_cong [OF eq, of length] ij by (auto simp: mark_name_def Let_def split: if_splits)
  then show ?thesis
    using eq ij by (auto simp: mark_name_def Let_def split: if_splits)
qed

lemma mark_search_free: "mark_search n mark p i fs = Some t \<Longrightarrow> \<not> IsFileExists t fs"
  by (induction n arbitrary: i) (auto split: if_splits)

lemma mark_search_none:
  "mark_search n mark p i fs = None \<Longrightarrow> k < n \<Longrightarrow> IsFileExists (mark_name mark p (i + k)) fs"
proof (induction n arbitrary: i k)
  case (Suc n)
  from Suc.prems(1) have "IsFileExists (mark_name mark p i) fs" "mark_search n mark p (i + 1) fs = None"
    by (auto split: if_splits)
  then show ?case using Suc.IH [of "i + 1" "k - 1"] Suc.prems(2) by (cases k) simp_all
qed simp

lemma mark_search_found: "\<exists>t. mark_search (Suc (length fs)) mark p 1 fs = Some t"
proof (rule ccontr)
  assume "\<nexists>t. mark_search (Suc (length fs)) mark p 1 fs = Some t"
  then have none: "mark_search (Suc (length fs)) mark p 1 fs = None" by auto
  have "(\<lambda>k. mark_name mark p (1 + k)) ` {..< Suc (length fs)} \<subseteq> fst ` set fs"
  proof (rule image_subsetI)
    fix k assume "k \<in> {..< Suc (length fs)}"
    then have "IsFileExists (mark_name mark p (1 + k)) fs" using mark_search_none [OF none] by blast
    then show "mark_name mark p (1 + k) \<in> fst ` set fs"
      using exists_get by (fastforce simp: gm_get_def map_of_eq_None_iff)
  qed
  then have "card ((\<lambda>k. mark_name mark p (1 + k)) ` {..< Suc (length fs)}) \<le> card (fst ` set fs)"
    by (intro card_mono) simp_all
  moreover have "inj_on (\<lambda>k. mark_name mark p (1 + k)) {..< Suc (length fs)}"
  proof (rule inj_onI)
    show "k = l" if "mark_name mark p (1 + k) = mark_name mark p (1 + l)" for k l
      using mark_name_inj [OF that] by simp
  qed
  then have "card ((\<lambda>k. mark_name mark p (1 + k)) ` {..< Suc (length fs)}) = Suc (length fs)"
    by (simp only: card_image card_lessThan)
  moreover have "card (fst ` set fs) \<le> length fs" by (metis card_length length_map set_map)
  ultimately show False by linarith
qed

text \<open>However the removals go: the source is gone, or untouched, or still there under a name that no other
  file of any size had; no other file is touched, and there are at most five attempts.\<close>

lemma delete_source_spec:
  assumes "deleteSource mark answers p fs = (r, fs')" and "gm_get fs p = Some f"
  shows "case r of
      Deleted \<Rightarrow> gm_get fs' p = None \<and> (\<forall>q. q \<noteq> p \<longrightarrow> gm_get fs' q = gm_get fs q) \<or> fs' = fs \<and> mf_size f \<le> 0
    | Aborted \<Rightarrow> fs' = fs
    | AttemptsExhausted \<Rightarrow>
        \<exists>t. \<not> IsFileExists t fs \<and> gm_get fs' t = Some f \<and> (\<forall>q. q \<noteq> p \<and> q \<noteq> t \<longrightarrow> gm_get fs' q = gm_get fs q)"
proof -
  obtain r1 ds fs1 where a: "delete_attempts 1 newSourceDeleteBackoff answers p fs = (r1, ds, fs1)"
    by (cases "delete_attempts 1 newSourceDeleteBackoff answers p fs") auto
  have r: "r = r1" using assms(1) a by (auto simp: deleteSource_def split: delete_outcome.splits)
  note spec = delete_attempts_files [OF a]
  show ?thesis
  proof (cases r)
    case Deleted
    then have "fs' = fs1" using assms(1) a r by (simp add: deleteSource_def)
    then show ?thesis using Deleted spec r assms(2) by (auto simp: IsFileExists_def)
  next
    case Aborted
    then show ?thesis using assms(1) a r spec by (simp add: deleteSource_def)
  next
    case AttemptsExhausted
    then have fs1: "fs1 = fs" using spec r by simp
    obtain t where t: "mark_search (Suc (length fs)) mark p 1 fs = Some t" using mark_search_found by blast
    then have "fs' = gm_put t f (gm_del p fs)"
      using assms a r AttemptsExhausted fs1
      by (simp add: deleteSource_def markSourceForManualDelete_def os_Rename_def del: mark_search.simps)
    then show ?thesis using AttemptsExhausted mark_search_free [OF t] by auto
  qed
qed

lemma delete_attempts_bounded:
  "n \<le> sourceDeleteMaxAttempts \<Longrightarrow> length (fst (snd (delete_attempts n bo answers p fs))) \<le> sourceDeleteMaxAttempts - n"
proof (induction n bo answers p fs rule: delete_attempts.induct)
  case (2 n bo stopped removable stopped_waiting rest p fs)
  show ?case
  proof (cases "stopped \<or> removeSourceFile removable p fs \<noteq> None \<or> n = sourceDeleteMaxAttempts")
    case True
    then show ?thesis by (auto split: option.split)
  next
    case False
    obtain delay bo' where next': "exp_Next bo = (delay, bo')" by (cases "exp_Next bo")
    have "n < sourceDeleteMaxAttempts" using False 2(2) by simp
    then show ?thesis
      using 2(1) [of delay bo'] False next' by (auto simp: case_prod_beta)
  qed
qed simp

end
