(* ===== verification/Db.thy ===== *)
theory Db
  imports GoMap GoStrings "HOL-Library.Char_ord" "HOL-Library.List_Lexorder"
begin

text \<open>
  The key-value store (\<open>pkg/db\<close>): a client over bbolt and its buckets, and \<open>WithRetry\<close> of \<open>utils/fp.go\<close>.
  A bucket is a map from keys to values; whether the commits to come succeed is an input (\<open>bk_commits\<close>,
  an exhausted list means success). What the managers rely on is the locale \<open>bucket_ops\<close>: a successful
  write has its effect on its key alone, a failed one has none.
\<close>

section \<open>The client and its buckets\<close>

datatype db_error = DatabaseClosed | KeyRequired | CommitFailed | Aborted_by string

record 'v Bucket =
  bk_closed :: bool
  bk_data :: "(string, 'v) gomap"
  bk_commits :: "bool list"

definition OpenBucket :: "(string, 'v) gomap \<Rightarrow> bool list \<Rightarrow> 'v Bucket" where
  "OpenBucket stored commits = \<lparr>bk_closed = False, bk_data = stored, bk_commits = commits\<rparr>"

definition db_Close :: "'v Bucket \<Rightarrow> 'v Bucket" where
  "db_Close b = b\<lparr>bk_closed := True\<rparr>"

text \<open>A transaction: an error of the function rolls back, so does a commit that fails.\<close>

definition db_Update :: "((string, 'v) gomap \<Rightarrow> db_error + (string, 'v) gomap) \<Rightarrow> 'v Bucket \<Rightarrow>
    db_error option \<times> 'v Bucket" where
  "db_Update fn b =
    (if bk_closed b then (Some DatabaseClosed, b)
     else case fn (bk_data b) of
       Inl e \<Rightarrow> (Some e, b)
     | Inr m \<Rightarrow>
        (case bk_commits b of
           False # rest \<Rightarrow> (Some CommitFailed, b\<lparr>bk_commits := rest\<rparr>)
         | _ \<Rightarrow> (None, b\<lparr>bk_data := m, bk_commits := tl (bk_commits b)\<rparr>)))"

definition db_View :: "((string, 'v) gomap \<Rightarrow> 'a) \<Rightarrow> 'v Bucket \<Rightarrow> db_error + 'a" where
  "db_View fn b = (if bk_closed b then Inl DatabaseClosed else Inr (fn (bk_data b)))"

definition bbolt_Put :: "string \<Rightarrow> 'v \<Rightarrow> (string, 'v) gomap \<Rightarrow> db_error + (string, 'v) gomap" where
  "bbolt_Put k v m = (if k = [] then Inl KeyRequired else Inr (gm_put k v m))"

definition db_Put :: "string \<Rightarrow> 'v \<Rightarrow> 'v Bucket \<Rightarrow> db_error option \<times> 'v Bucket" where
  "db_Put k v = db_Update (bbolt_Put k v)"

text \<open>Deleting a key that is not there is no error.\<close>

definition db_Delete :: "string \<Rightarrow> 'v Bucket \<Rightarrow> db_error option \<times> 'v Bucket" where
  "db_Delete k = db_Update (\<lambda>m. Inr (gm_del k m))"

definition db_Get :: "string \<Rightarrow> 'v Bucket \<Rightarrow> db_error + 'v option" where
  "db_Get k = db_View (\<lambda>m. gm_get m k)"

definition db_Exists :: "string \<Rightarrow> 'v Bucket \<Rightarrow> db_error + bool" where
  "db_Exists k = db_View (\<lambda>m. gm_get m k \<noteq> None)"

definition db_Count :: "'v Bucket \<Rightarrow> db_error + nat" where
  "db_Count = db_View gm_len"

text \<open>The entries in the order of their keys.\<close>

definition db_ForEach :: "'v Bucket \<Rightarrow> db_error + (string \<times> 'v) list" where
  "db_ForEach = db_View (sort_key fst)"

section \<open>Retrying\<close>

text \<open>\<open>WithRetry\<close>: the error of the last attempt and the seconds slept between the attempts.\<close>

fun retry_from :: "nat \<Rightarrow> nat \<Rightarrow> ('s \<Rightarrow> 'e option \<times> 's) \<Rightarrow> 's \<Rightarrow> ('e option \<times> nat list) \<times> 's" where
  "retry_from i 0 fn s = ((None, []), s)"
| "retry_from i (Suc n) fn s =
    (case fn s of
       (None, s) \<Rightarrow> ((None, []), s)
     | (Some e, s) \<Rightarrow>
        if n = 0 then ((Some e, []), s)
        else (case retry_from (i + 1) n fn s of ((r, sleeps), s) \<Rightarrow> ((r, 2 ^ i # sleeps), s)))"

definition WithRetry :: "nat \<Rightarrow> ('s \<Rightarrow> 'e option \<times> 's) \<Rightarrow> 's \<Rightarrow> ('e option \<times> nat list) \<times> 's" where
  "WithRetry attempts = retry_from 0 attempts"

section \<open>What the users of a bucket rely on\<close>

locale bucket_ops =
  fixes put :: "'k \<Rightarrow> 'v \<Rightarrow> 'b \<Rightarrow> 'e option \<times> 'b"
    and del :: "'k \<Rightarrow> 'b \<Rightarrow> 'e option \<times> 'b"
    and get :: "'b \<Rightarrow> 'k \<Rightarrow> 'v option"
  assumes put_done: "put k v b = (None, b') \<Longrightarrow> get b' = (get b)(k \<mapsto> v)"
    and put_failed: "put k v b = (Some e, b') \<Longrightarrow> get b' = get b"
    and del_done: "del k b = (None, b') \<Longrightarrow> get b' = (get b)(k := None)"
    and del_failed: "del k b = (Some e, b') \<Longrightarrow> get b' = get b"
begin

lemma retry_del:
  "retry_from i n (del k) b = ((r, sleeps), b') \<Longrightarrow> 0 < n \<Longrightarrow>
    get b' = (if r = None then (get b)(k := None) else get b)"
proof (induction n arbitrary: i b sleeps r b')
  case (Suc n)
  obtain d b1 where d: "del k b = (d, b1)" by (cases "del k b")
  show ?case
  proof (cases d)
    case None
    then show ?thesis using Suc.prems d del_done [of k b b1] by auto
  next
    case (Some e)
    note keep = del_failed [of k b e b1] d Some
    show ?thesis
    proof (cases "n = 0")
      case True
      then show ?thesis using Suc.prems keep by (auto simp: Some)
    next
      case False
      obtain r2 s2 b2 where rec: "retry_from (i + 1) n (del k) b1 = ((r2, s2), b2)"
        by (cases "retry_from (i + 1) n (del k) b1") auto
      have "r = r2" "b' = b2" using Suc.prems(1) d Some False rec by auto
      then show ?thesis using Suc.IH [OF rec] False keep by simp
    qed
  qed
qed simp

lemma delete_with_retry:
  "WithRetry n (del k) b = ((r, sleeps), b') \<Longrightarrow> 0 < n \<Longrightarrow>
    get b' = (if r = None then (get b)(k := None) else get b)"
  unfolding WithRetry_def by (rule retry_del)

text \<open>A key is replaced by another without a moment at which neither is there, and if the old one cannot be
  deleted nothing but the new one has been added.\<close>

lemma replaced:
  assumes "put k' v b = (None, b1)" and "WithRetry n (del k) b1 = ((r, sleeps), b2)" and "0 < n" and "k \<noteq> k'"
  shows "get b2 = (if r = None then (get b)(k' \<mapsto> v, k := None) else (get b)(k' \<mapsto> v))"
  using put_done [OF assms(1)] delete_with_retry [OF assms(2,3)] by simp

end

lemma db_Update_cases:
  assumes "db_Update fn b = (r, b')"
  obtains (done') m where "r = None" "fn (bk_data b) = Inr m" "bk_data b' = m" "bk_closed b' = bk_closed b"
  | (failed) e where "r = Some e" "bk_data b' = bk_data b" "bk_closed b' = bk_closed b"
  using assms by (auto simp: db_Update_def split: if_splits sum.splits list.splits bool.splits)

abbreviation stored_in :: "'v Bucket \<Rightarrow> string \<Rightarrow> 'v option" where
  "stored_in b \<equiv> gm_get (bk_data b)"

interpretation bk: bucket_ops db_Put db_Delete stored_in
proof unfold_locales
  fix k :: string and v :: 'a and b b' :: "'a Bucket" and e
  show "db_Put k v b = (None, b') \<Longrightarrow> stored_in b' = (stored_in b)(k \<mapsto> v)"
    unfolding db_Put_def
    by (erule db_Update_cases) (auto simp: bbolt_Put_def fun_eq_iff simp flip: gm.get_put split: if_splits)
  show "db_Put k v b = (Some e, b') \<Longrightarrow> stored_in b' = stored_in b"
    unfolding db_Put_def by (erule db_Update_cases) auto
  show "db_Delete k b = (None, b') \<Longrightarrow> stored_in b' = (stored_in b)(k := None)"
    unfolding db_Delete_def by (erule db_Update_cases) (auto simp: fun_eq_iff)
  show "db_Delete k b = (Some e, b') \<Longrightarrow> stored_in b' = stored_in b"
    unfolding db_Delete_def by (erule db_Update_cases) auto
qed

lemma bucket_ok_kept:
  "gm_ok (bk_data b) \<Longrightarrow> gm_ok (bk_data (snd (db_Put k v b)))"
  "gm_ok (bk_data b) \<Longrightarrow> gm_ok (bk_data (snd (db_Delete k b)))"
  unfolding db_Put_def db_Delete_def db_Update_def bbolt_Put_def
  by (auto split: sum.split list.split bool.split)

text \<open>Retries sleep one, two, four and so on seconds, and never after the last attempt.\<close>

lemma retry_sleeps:
  "retry_from i n fn s = ((r, sleeps), s') \<Longrightarrow> length sleeps \<le> n - 1 \<and> sleeps = map (\<lambda>j. 2 ^ (i + j)) [0..<length sleeps]"
proof (induction n arbitrary: i s sleeps r s')
  case (Suc n)
  obtain d s1 where d: "fn s = (d, s1)" by (cases "fn s")
  show ?case
  proof (cases "d = None \<or> n = 0")
    case True
    then show ?thesis using Suc.prems d by (auto split: option.splits)
  next
    case False
    obtain r2 s2 s3 where rec: "retry_from (i + 1) n fn s1 = ((r2, s2), s3)"
      by (cases "retry_from (i + 1) n fn s1") auto
    have sl: "sleeps = 2 ^ i # s2" using Suc.prems d False rec by auto
    from Suc.IH [OF rec] have IH: "length s2 \<le> n - 1" "s2 = map (\<lambda>j. 2 ^ (i + 1 + j)) [0..<length s2]" by simp_all
    have "map (\<lambda>j. (2::nat) ^ (i + j)) [0..<Suc (length s2)] = 2 ^ i # map (\<lambda>j. 2 ^ (i + 1 + j)) [0..<length s2]"
      by (simp add: upt_conv_Cons map_Suc_upt [symmetric] del: upt_Suc)
    then have "sleeps = map (\<lambda>j. 2 ^ (i + j)) [0..<length sleeps]" unfolding sl using IH(2) by simp
    moreover have "length sleeps \<le> n" using IH(1) sl False by (cases n) simp_all
    ultimately show ?thesis by simp
  qed
qed simp

lemma retry_keeps: "(\<And>s. P s \<Longrightarrow> P (snd (fn s))) \<Longrightarrow> P s \<Longrightarrow> P (snd (retry_from i n fn s))"
proof (induction n arbitrary: i s)
  case (Suc n)
  obtain d s1 where d: "fn s = (d, s1)" by (cases "fn s")
  have "P s1" using Suc.prems d by (metis snd_conv)
  then show ?case using Suc.IH [OF Suc.prems(1), of s1 "i + 1"] d by (auto split: option.split prod.split)
qed simp

end
