(* ===== verification/Convert.thy ===== *)
theory Convert
  imports ConvertFiles Db StreamSelect
begin

text \<open>
  The state of the conversion service (\<open>internal/services/convert\<close>) and the manager that converts through
  cloudconvert (\<open>cloud.go\<close>): the queue in its bucket, submission, status checks, download and failure
  handling, and the deletions of sources (\<open>source_delete.go\<close>). Goroutines are jobs in the state that run in
  steps of their own; calls to metrics, webhook and cloudconvert are entries of a log. The stored values are the
  tasks themselves (the serialiser is left out). \<open>None\<close> as the result of an operation is a panic.
\<close>

section \<open>State\<close>

record TaskQueue =
  tq_Provider :: string
  tq_TaskID :: string
  tq_ConvertTaskID :: string
  tq_InputPath :: string
  tq_InputFileSize :: "int option"
  tq_OutputPath :: string
  tq_InputFormat :: string
  tq_OutputFormat :: string
  tq_DeleteSource :: bool

definition ProviderCloudConvert :: string where "ProviderCloudConvert = ''cloudconvert''"
definition ProviderFFmpeg :: string where "ProviderFFmpeg = ''ffmpeg''"

datatype conv_error =
    ErrTaskNotFound | ErrNoConvertManager | ErrInvalidPublicBaseURL
  | UuidError | PathError | StatError | InvalidSource | Db db_error | PresignError | SubmitError
  | RemoteCancelError | NoResultFile | DownloadError

datatype conv_effect =
    TaskQueued string | TaskFinished string | TaskFailed string | TaskCancelled string
  | TaskGauges string int int | ConvertSucceeded string string | RemoteCancelled string

record result_file = rf_Filename :: string  rf_URL :: string

text \<open>What a goroutine of a manager has been started for.\<close>

datatype cloud_job = FinishedJob TaskQueue "result_file list" | FailedJob TaskQueue

record conv_config =
  cc_exporter :: bool
  cc_webhook :: bool
  cc_threshold :: int
  cc_cloud :: bool
  cc_ffmpeg :: bool
  cc_noConvertIfInvalid :: bool
  cc_allow :: bool
  cc_maxActives :: int
  cc_ffAllow :: bool
  cc_ffMaxActives :: int
  cc_ffInterval :: int

record conv =
  cv_files :: files
  cv_cloud :: "TaskQueue Bucket"
  cv_ffmpeg :: "TaskQueue Bucket"
  cv_handling :: "(string, unit) gomap"
  cv_jobs :: "cloud_job list"
  cv_urls :: "(string, string) gomap"
  cv_running :: "(string, unit) gomap"
  cv_ffjobs :: "TaskQueue list"
  cv_slots :: nat
  cv_cooldowns :: "(string, int) gomap"
  cv_pending :: "(string, unit) gomap"
  cv_deletions :: "TaskQueue list"
  cv_log :: "conv_effect list"

section \<open>Metrics and webhook\<close>

definition metric :: "conv_config \<Rightarrow> conv_effect \<Rightarrow> conv \<Rightarrow> conv" where
  "metric cfg e s = (if cc_exporter cfg then s\<lparr>cv_log := cv_log s @ [e]\<rparr> else s)"

definition webhookConvertSucceeded :: "conv_config \<Rightarrow> TaskQueue \<Rightarrow> conv \<Rightarrow> conv" where
  "webhookConvertSucceeded cfg q s =
    (if cc_webhook cfg then s\<lparr>cv_log := cv_log s @ [ConvertSucceeded (tq_InputPath q) (tq_OutputPath q)]\<rparr> else s)"

definition cloud_ListInProgress :: "conv \<Rightarrow> conv_error + TaskQueue list" where
  "cloud_ListInProgress s =
    (case db_ForEach (cv_cloud s) of Inl e \<Rightarrow> Inl (Db e) | Inr kvs \<Rightarrow> Inr (map snd kvs))"

definition cloud_updateGaugeMetrics :: "conv_config \<Rightarrow> TaskQueue list \<Rightarrow> conv \<Rightarrow> conv" where
  "cloud_updateGaugeMetrics cfg qs s =
    metric cfg (TaskGauges ProviderCloudConvert
      (int (length (filter (\<lambda>q. tq_ConvertTaskID q = []) qs)))
      (int (length (filter (\<lambda>q. tq_ConvertTaskID q \<noteq> []) qs)))) s"

definition cloud_refreshGaugeMetrics :: "conv_config \<Rightarrow> conv \<Rightarrow> conv" where
  "cloud_refreshGaugeMetrics cfg s =
    (if \<not> cc_exporter cfg then s
     else case cloud_ListInProgress s of Inl _ \<Rightarrow> s | Inr qs \<Rightarrow> cloud_updateGaugeMetrics cfg qs s)"

section \<open>Deleting sources\<close>

definition Schedule :: "TaskQueue \<Rightarrow> conv \<Rightarrow> conv" where
  "Schedule q s =
    (if \<not> tq_DeleteSource q \<or> tq_InputPath q = tq_OutputPath q then s
     else if gm_get (cv_pending s) (tq_InputPath q) \<noteq> None then s
     else s\<lparr>cv_pending := gm_put (tq_InputPath q) () (cv_pending s), cv_deletions := cv_deletions s @ [q]\<rparr>)"

text \<open>The goroutine of a scheduled deletion.\<close>

definition run_deletion :: "string \<Rightarrow> (bool \<times> bool \<times> bool) list \<Rightarrow> TaskQueue \<Rightarrow> conv \<Rightarrow> conv" where
  "run_deletion mark answers q s =
    s\<lparr>cv_files := snd (deleteSource mark answers (tq_InputPath q) (cv_files s)),
      cv_pending := gm_del (tq_InputPath q) (cv_pending s),
      cv_deletions := remove1 q (cv_deletions s)\<rparr>"

section \<open>Queueing and cancelling\<close>

definition stat_size :: "string \<Rightarrow> files \<Rightarrow> int option" where
  "stat_size p fs = map_option mf_size (gm_get fs p)"

definition new_task :: "string \<Rightarrow> string \<Rightarrow> string \<Rightarrow> string \<Rightarrow> string \<Rightarrow> string \<Rightarrow> bool \<Rightarrow> files \<Rightarrow> TaskQueue" where
  "new_task provider uuid input inputFormat output format del fs =
    \<lparr>tq_Provider = provider, tq_TaskID = uuid, tq_ConvertTaskID = [], tq_InputPath = input,
     tq_InputFileSize = stat_size input fs, tq_OutputPath = output, tq_InputFormat = inputFormat,
     tq_OutputFormat = format, tq_DeleteSource = del\<rparr>"

definition cloud_Enqueue :: "conv_config \<Rightarrow> string option \<Rightarrow> string \<Rightarrow> string \<Rightarrow> string \<Rightarrow> bool \<Rightarrow> conv \<Rightarrow>
    ((conv_error + TaskQueue) \<times> conv) option" where
  "cloud_Enqueue cfg uuid input output format del s =
    (case uuid of
       None \<Rightarrow> Some (Inl UuidError, s)
     | Some uuid \<Rightarrow>
        (case GetPathFormat input of
           None \<Rightarrow> None
         | Some inputFormat \<Rightarrow>
            let q = new_task ProviderCloudConvert uuid input inputFormat output format del (cv_files s)
            in case db_Put uuid q (cv_cloud s) of
                 (Some e, b) \<Rightarrow> Some (Inl (Db e), s\<lparr>cv_cloud := b\<rparr>)
               | (None, b) \<Rightarrow>
                   Some (Inr q, cloud_refreshGaugeMetrics cfg
                     (metric cfg (TaskQueued ProviderCloudConvert) (s\<lparr>cv_cloud := b\<rparr>)))))"

text \<open>A running conversion is cancelled at cloudconvert first; a refusal there keeps the task.\<close>

definition cloud_Cancel :: "conv_config \<Rightarrow> (string \<Rightarrow> bool) \<Rightarrow> string \<Rightarrow> conv \<Rightarrow> conv_error option \<times> conv" where
  "cloud_Cancel cfg remote tid s =
    (case db_Get tid (cv_cloud s) of
       Inl e \<Rightarrow> (Some (Db e), s)
     | Inr None \<Rightarrow> (Some ErrTaskNotFound, s)
     | Inr (Some q) \<Rightarrow>
        if tq_ConvertTaskID q \<noteq> [] \<and> \<not> remote (EmptyOrElse (tq_ConvertTaskID q) tid) then (Some RemoteCancelError, s)
        else
          let s = (if tq_ConvertTaskID q \<noteq> []
                   then s\<lparr>cv_log := cv_log s @ [RemoteCancelled (EmptyOrElse (tq_ConvertTaskID q) tid)]\<rparr> else s)
          in case db_Delete tid (cv_cloud s) of
               (Some e, b) \<Rightarrow> (Some (Db e), s\<lparr>cv_cloud := b\<rparr>)
             | (None, b) \<Rightarrow>
                 (None, cloud_refreshGaugeMetrics cfg
                   (metric cfg (TaskCancelled ProviderCloudConvert) (s\<lparr>cv_cloud := b\<rparr>))))"

section \<open>Submission\<close>

text \<open>The link cloudconvert reads the source from: the pooled one while it can still be parsed, else a new
  one, which has to be an absolute URL.\<close>

definition getOrCreatePresignedURL :: "(string \<Rightarrow> bool) \<Rightarrow> (string \<Rightarrow> string option) \<Rightarrow> (string \<Rightarrow> bool) \<Rightarrow>
    string \<Rightarrow> conv \<Rightarrow> (conv_error + string) \<times> conv" where
  "getOrCreatePresignedURL parses generate absolute input s =
    (case gm_get (cv_urls s) input of
       Some u \<Rightarrow>
         if parses u then (Inr u, s)
         else (case generate input of
             None \<Rightarrow> (Inl PresignError, s\<lparr>cv_urls := gm_del input (cv_urls s)\<rparr>)
           | Some u \<Rightarrow>
              if \<not> absolute u then (Inl ErrInvalidPublicBaseURL, s\<lparr>cv_urls := gm_del input (cv_urls s)\<rparr>)
              else (Inr u, s\<lparr>cv_urls := gm_put input u (gm_del input (cv_urls s))\<rparr>))
     | None \<Rightarrow>
         (case generate input of
             None \<Rightarrow> (Inl PresignError, s)
           | Some u \<Rightarrow>
              if \<not> absolute u then (Inl ErrInvalidPublicBaseURL, s)
              else (Inr u, s\<lparr>cv_urls := gm_put input u (cv_urls s)\<rparr>)))"

text \<open>After the job has been accepted with the ids of its conversion and export task: the entry is stored
  under the id of the export task instead of its own, in one transaction.\<close>

definition submit_commit :: "conv_config \<Rightarrow> (string \<Rightarrow> bool) \<Rightarrow> TaskQueue \<Rightarrow> string \<Rightarrow> string \<Rightarrow> conv \<Rightarrow>
    conv_error option \<times> conv" where
  "submit_commit cfg remote q convertID exportID s =
    (case db_Update (\<lambda>m. bbolt_Put exportID (q\<lparr>tq_TaskID := exportID, tq_ConvertTaskID := convertID\<rparr>)
             (gm_del (tq_TaskID q) m)) (cv_cloud s) of
       (Some e, b) \<Rightarrow>
         (Some (Db e),
          (let s = s\<lparr>cv_cloud := b\<rparr> in
           if remote (EmptyOrElse convertID exportID)
           then s\<lparr>cv_log := cv_log s @ [RemoteCancelled (EmptyOrElse convertID exportID)]\<rparr> else s))
     | (None, b) \<Rightarrow> (None, cloud_refreshGaugeMetrics cfg (s\<lparr>cv_cloud := b\<rparr>)))"

record cloud_env =
  ce_parses :: "string \<Rightarrow> bool"
  ce_generate :: "string \<Rightarrow> string option"
  ce_absolute :: "string \<Rightarrow> bool"
  ce_job :: "string \<Rightarrow> string \<Rightarrow> string \<Rightarrow> (string \<times> string) option"
  ce_remote :: "string \<Rightarrow> bool"

definition submitTask :: "conv_config \<Rightarrow> cloud_env \<Rightarrow> TaskQueue \<Rightarrow> conv \<Rightarrow> conv_error option \<times> conv" where
  "submitTask cfg env q s =
    (case getOrCreatePresignedURL (ce_parses env) (ce_generate env) (ce_absolute env) (tq_InputPath q) s of
       (Inl e, s) \<Rightarrow> (Some e, s)
     | (Inr url, s) \<Rightarrow>
        (case ce_job env url (Base (tq_InputPath q)) (Base (tq_OutputPath q)) of
           None \<Rightarrow> (Some SubmitError, s)
         | Some (convertID, exportID) \<Rightarrow> submit_commit cfg (ce_remote env) q convertID exportID s))"

section \<open>Failure and success of a task\<close>

text \<open>A failed task is put into the queue again as a new one, unless its source is gone, and only then taken out;
  when that fails for good the new one is cancelled again.\<close>

definition cloud_delete :: "string \<Rightarrow> conv \<Rightarrow> conv_error option \<times> conv" where
  "cloud_delete tid s =
    (case WithRetry 3 (db_Delete tid) (cv_cloud s) of
       ((r, _), b) \<Rightarrow> (map_option Db r, s\<lparr>cv_cloud := b\<rparr>))"

definition handleFailed :: "conv_config \<Rightarrow> (string \<Rightarrow> bool) \<Rightarrow> string option \<Rightarrow> TaskQueue \<Rightarrow> conv \<Rightarrow>
    (conv_error option \<times> conv) option" where
  "handleFailed cfg remote uuid q s =
    (if \<not> IsFileExists (tq_InputPath q) (cv_files s) then Some (cloud_delete (tq_TaskID q) s)
     else case cloud_Enqueue cfg uuid (tq_InputPath q) (tq_OutputPath q) (tq_OutputFormat q) (tq_DeleteSource q) s of
       None \<Rightarrow> None
     | Some (Inl e, s) \<Rightarrow> Some (Some e, s)
     | Some (Inr newInfo, s) \<Rightarrow>
        (case cloud_delete (tq_TaskID q) s of
           (None, s) \<Rightarrow> Some (None, s)
         | (Some e, s) \<Rightarrow> Some (Some e, snd (cloud_Cancel cfg remote (tq_TaskID newInfo) s))))"

definition asyncOnFailed :: "conv_config \<Rightarrow> (string \<Rightarrow> bool) \<Rightarrow> string option \<Rightarrow> TaskQueue \<Rightarrow> conv \<Rightarrow> conv option" where
  "asyncOnFailed cfg remote uuid q s =
    (case handleFailed cfg remote uuid q (metric cfg (TaskFailed ProviderCloudConvert) s) of
       None \<Rightarrow> None
     | Some (_, s) \<Rightarrow>
         Some ((cloud_refreshGaugeMetrics cfg s)\<lparr>cv_handling := gm_del (tq_TaskID q) (cv_handling s)\<rparr>))"

text \<open>Which of several result files is downloaded: the first that has the name of the output or its format,
  else the first one. A name without extension panics.\<close>

fun matching_file :: "TaskQueue \<Rightarrow> result_file list \<Rightarrow> result_file option option" where
  "matching_file q [] = Some None"
| "matching_file q (f # fs) =
    (case GetPathFormat (rf_Filename f) of
       None \<Rightarrow> None
     | Some format \<Rightarrow>
        if Base (tq_OutputPath q) = rf_Filename f \<or> format = tq_OutputFormat q then Some (Some f)
        else matching_file q fs)"

definition choose_file :: "TaskQueue \<Rightarrow> result_file list \<Rightarrow> (conv_error + result_file) option" where
  "choose_file q files =
    (case files of
       [] \<Rightarrow> Some (Inl NoResultFile)
     | [f] \<Rightarrow> Some (Inr f)
     | f # _ \<Rightarrow>
        (case matching_file q files of
           None \<Rightarrow> None
         | Some None \<Rightarrow> Some (Inr f)
         | Some (Some g) \<Rightarrow> Some (Inr g)))"

text \<open>What happens outside while a finished task is handled: the download leaves a file at the output path, or
  nothing new, and succeeds or not; whether an invalid output can be removed; the identifier drawn for a new
  task; the answers of cloudconvert to cancellations.\<close>

record finish_env =
  fe_download :: "string \<Rightarrow> mfile option \<times> bool"
  fe_removable :: bool
  fe_uuid :: "string option"
  fe_remote :: "string \<Rightarrow> bool"

definition downloadExportedFile :: "finish_env \<Rightarrow> string \<Rightarrow> string \<Rightarrow> conv \<Rightarrow> bool \<times> conv" where
  "downloadExportedFile env url output s =
    (case fe_download env url of
       (None, ok) \<Rightarrow> (ok, s)
     | (Some f, ok) \<Rightarrow> (ok, s\<lparr>cv_files := gm_put output f (cv_files s)\<rparr>))"

text \<open>An output that is too small is removed.\<close>

definition validateDownloadedOutputSize :: "finish_env \<Rightarrow> TaskQueue \<Rightarrow> conv \<Rightarrow> bool \<times> conv" where
  "validateDownloadedOutputSize env q s =
    (if validateOutputFileSize (tq_InputPath q) (tq_OutputPath q) (cv_files s) then (True, s)
     else (False, if fe_removable env then s\<lparr>cv_files := gm_del (tq_OutputPath q) (cv_files s)\<rparr> else s))"

definition handleFinished :: "conv_config \<Rightarrow> finish_env \<Rightarrow> TaskQueue \<Rightarrow> result_file list \<Rightarrow> conv \<Rightarrow>
    (conv_error option \<times> conv) option" where
  "handleFinished cfg env q files s =
    (case choose_file q files of
       None \<Rightarrow> None
     | Some (Inl e) \<Rightarrow> Some (Some e, s)
     | Some (Inr f) \<Rightarrow>
        (case downloadExportedFile env (rf_URL f) (tq_OutputPath q) s of
           (False, s) \<Rightarrow> Some (Some DownloadError, s)
         | (True, s) \<Rightarrow>
            (case validateDownloadedOutputSize env q s of
               (False, s) \<Rightarrow> handleFailed cfg (fe_remote env) (fe_uuid env) q s
             | (True, s) \<Rightarrow> Some (cloud_delete (tq_TaskID q) (s\<lparr>cv_urls := gm_del (tq_InputPath q) (cv_urls s)\<rparr>)))))"

definition asyncOnFinished :: "conv_config \<Rightarrow> finish_env \<Rightarrow> TaskQueue \<Rightarrow> result_file list \<Rightarrow> conv \<Rightarrow> conv option" where
  "asyncOnFinished cfg env q files s =
    (case handleFinished cfg env q files s of
       None \<Rightarrow> None
     | Some (r, s) \<Rightarrow>
        let s = (case r of
            Some _ \<Rightarrow> cloud_refreshGaugeMetrics cfg (metric cfg (TaskFailed ProviderCloudConvert) s)
          | None \<Rightarrow> cloud_refreshGaugeMetrics cfg (Schedule q (webhookConvertSucceeded cfg q
                (metric cfg (TaskFinished ProviderCloudConvert) s))))
        in Some (s\<lparr>cv_handling := gm_del (tq_TaskID q) (cv_handling s)\<rparr>))"

section \<open>The check loop\<close>

definition allowConvertDuringRecording :: "int \<Rightarrow> bool \<Rightarrow> int \<Rightarrow> bool" where
  "allowConvertDuringRecording actives allow maxActives =
    (if actives \<le> 0 then True else if \<not> allow then False else maxActives < 1 \<or> actives \<le> maxActives)"

text \<open>The answer of cloudconvert to the question for a task.\<close>

datatype task_answer =
  TaskMissing | TaskRequestFailed | TaskIsFinished "result_file list" | TaskIsError | TaskOther

text \<open>One entry of the list read at the beginning of the round.\<close>

definition cloud_visit :: "conv_config \<Rightarrow> cloud_env \<Rightarrow> (string \<Rightarrow> task_answer) \<Rightarrow> int \<Rightarrow> TaskQueue \<Rightarrow> conv \<Rightarrow> conv" where
  "cloud_visit cfg env answer actives q s =
    (let allowed = \<not> (actives > 0 \<and> \<not> allowConvertDuringRecording actives (cc_allow cfg) (cc_maxActives cfg)) in
     if tq_ConvertTaskID q = [] then
       (if \<not> allowed then s
        else case submitTask cfg env q s of
          (None, s) \<Rightarrow> s
        | (Some _, s) \<Rightarrow> metric cfg (TaskFailed ProviderCloudConvert) s)
     else let tid = tq_TaskID q in
       if gm_get (cv_handling s) tid \<noteq> None then s
       else let s' = s\<lparr>cv_handling := gm_put tid () (cv_handling s)\<rparr> in
         (case answer tid of
            TaskMissing \<Rightarrow> s'\<lparr>cv_jobs := cv_jobs s' @ [FailedJob q]\<rparr>
          | TaskRequestFailed \<Rightarrow> s'\<lparr>cv_handling := gm_del tid (cv_handling s')\<rparr>
          | TaskIsFinished files \<Rightarrow>
              if \<not> allowed then s'\<lparr>cv_handling := gm_del tid (cv_handling s')\<rparr>
              else s'\<lparr>cv_jobs := cv_jobs s' @ [FinishedJob q files]\<rparr>
          | TaskIsError \<Rightarrow> s'\<lparr>cv_jobs := cv_jobs s' @ [FailedJob q]\<rparr>
          | TaskOther \<Rightarrow> s'\<lparr>cv_handling := gm_del tid (cv_handling s')\<rparr>))"

definition cloud_tick :: "conv_config \<Rightarrow> cloud_env \<Rightarrow> (string \<Rightarrow> task_answer) \<Rightarrow> int \<Rightarrow> conv \<Rightarrow> conv" where
  "cloud_tick cfg env answer actives s =
    (case cloud_ListInProgress s of
       Inl _ \<Rightarrow> s
     | Inr qs \<Rightarrow> fold (cloud_visit cfg env answer actives) qs (cloud_updateGaugeMetrics cfg qs s))"

text \<open>A goroutine started by the loop.\<close>

fun run_job :: "conv_config \<Rightarrow> finish_env \<Rightarrow> cloud_job \<Rightarrow> conv \<Rightarrow> conv option" where
  "run_job cfg env (FinishedJob q files) s =
    asyncOnFinished cfg env q files (s\<lparr>cv_jobs := remove1 (FinishedJob q files) (cv_jobs s)\<rparr>)"
| "run_job cfg env (FailedJob q) s =
    asyncOnFailed cfg (fe_remote env) (fe_uuid env) q (s\<lparr>cv_jobs := remove1 (FailedJob q) (cv_jobs s)\<rparr>)"

section \<open>Lemmas\<close>

text \<open>Metrics and webhook only add to the log.\<close>

lemma metric_keeps [simp]:
  "cv_files (metric cfg e s) = cv_files s"
  "cv_cloud (metric cfg e s) = cv_cloud s"
  "cv_ffmpeg (metric cfg e s) = cv_ffmpeg s"
  "cv_handling (metric cfg e s) = cv_handling s"
  "cv_jobs (metric cfg e s) = cv_jobs s"
  "cv_urls (metric cfg e s) = cv_urls s"
  "cv_running (metric cfg e s) = cv_running s"
  "cv_ffjobs (metric cfg e s) = cv_ffjobs s"
  "cv_slots (metric cfg e s) = cv_slots s"
  "cv_cooldowns (metric cfg e s) = cv_cooldowns s"
  "cv_pending (metric cfg e s) = cv_pending s"
  "cv_deletions (metric cfg e s) = cv_deletions s"
  by (simp_all add: metric_def)

lemma webhook_keeps [simp]:
  "cv_files (webhookConvertSucceeded cfg q s) = cv_files s"
  "cv_cloud (webhookConvertSucceeded cfg q s) = cv_cloud s"
  "cv_ffmpeg (webhookConvertSucceeded cfg q s) = cv_ffmpeg s"
  "cv_handling (webhookConvertSucceeded cfg q s) = cv_handling s"
  "cv_jobs (webhookConvertSucceeded cfg q s) = cv_jobs s"
  "cv_urls (webhookConvertSucceeded cfg q s) = cv_urls s"
  "cv_running (webhookConvertSucceeded cfg q s) = cv_running s"
  "cv_ffjobs (webhookConvertSucceeded cfg q s) = cv_ffjobs s"
  "cv_slots (webhookConvertSucceeded cfg q s) = cv_slots s"
  "cv_cooldowns (webhookConvertSucceeded cfg q s) = cv_cooldowns s"
  "cv_pending (webhookConvertSucceeded cfg q s) = cv_pending s"
  "cv_deletions (webhookConvertSucceeded cfg q s) = cv_deletions s"
  by (simp_all add: webhookConvertSucceeded_def)

lemma refresh_keeps [simp]:
  "cv_files (cloud_refreshGaugeMetrics cfg s) = cv_files s"
  "cv_cloud (cloud_refreshGaugeMetrics cfg s) = cv_cloud s"
  "cv_ffmpeg (cloud_refreshGaugeMetrics cfg s) = cv_ffmpeg s"
  "cv_handling (cloud_refreshGaugeMetrics cfg s) = cv_handling s"
  "cv_jobs (cloud_refreshGaugeMetrics cfg s) = cv_jobs s"
  "cv_urls (cloud_refreshGaugeMetrics cfg s) = cv_urls s"
  "cv_running (cloud_refreshGaugeMetrics cfg s) = cv_running s"
  "cv_ffjobs (cloud_refreshGaugeMetrics cfg s) = cv_ffjobs s"
  "cv_slots (cloud_refreshGaugeMetrics cfg s) = cv_slots s"
  "cv_cooldowns (cloud_refreshGaugeMetrics cfg s) = cv_cooldowns s"
  "cv_pending (cloud_refreshGaugeMetrics cfg s) = cv_pending s"
  "cv_deletions (cloud_refreshGaugeMetrics cfg s) = cv_deletions s"
  by (simp_all add: cloud_refreshGaugeMetrics_def cloud_updateGaugeMetrics_def split: sum.split)

lemma gauges_keep [simp]:
  "cv_files (cloud_updateGaugeMetrics cfg qs s) = cv_files s"
  "cv_cloud (cloud_updateGaugeMetrics cfg qs s) = cv_cloud s"
  "cv_ffmpeg (cloud_updateGaugeMetrics cfg qs s) = cv_ffmpeg s"
  "cv_handling (cloud_updateGaugeMetrics cfg qs s) = cv_handling s"
  "cv_jobs (cloud_updateGaugeMetrics cfg qs s) = cv_jobs s"
  "cv_urls (cloud_updateGaugeMetrics cfg qs s) = cv_urls s"
  "cv_running (cloud_updateGaugeMetrics cfg qs s) = cv_running s"
  "cv_ffjobs (cloud_updateGaugeMetrics cfg qs s) = cv_ffjobs s"
  "cv_slots (cloud_updateGaugeMetrics cfg qs s) = cv_slots s"
  "cv_cooldowns (cloud_updateGaugeMetrics cfg qs s) = cv_cooldowns s"
  "cv_pending (cloud_updateGaugeMetrics cfg qs s) = cv_pending s"
  "cv_deletions (cloud_updateGaugeMetrics cfg qs s) = cv_deletions s"
  by (simp_all add: cloud_updateGaugeMetrics_def)

lemma log_grows [simp]:
  "set (cv_log s) \<subseteq> set (cv_log (metric cfg e s))"
  "set (cv_log s) \<subseteq> set (cv_log (cloud_refreshGaugeMetrics cfg s))"
  "cv_log (Schedule q s) = cv_log s"
  by (auto simp: metric_def cloud_refreshGaugeMetrics_def cloud_updateGaugeMetrics_def Schedule_def split: sum.split)

lemma schedule_keeps [simp]:
  "cv_files (Schedule q s) = cv_files s"
  "cv_cloud (Schedule q s) = cv_cloud s"
  "cv_ffmpeg (Schedule q s) = cv_ffmpeg s"
  "cv_handling (Schedule q s) = cv_handling s"
  "cv_jobs (Schedule q s) = cv_jobs s"
  "cv_urls (Schedule q s) = cv_urls s"
  "cv_running (Schedule q s) = cv_running s"
  "cv_ffjobs (Schedule q s) = cv_ffjobs s"
  "cv_slots (Schedule q s) = cv_slots s"
  "cv_cooldowns (Schedule q s) = cv_cooldowns s"
  by (simp_all add: Schedule_def)

text \<open>What queueing, cancelling and taking out do to the stored tasks.\<close>

lemma cloud_Enqueue_cases:
  assumes "cloud_Enqueue cfg uuid i out f d s = Some (r, s')"
  obtains (refused) e where "r = Inl e" "stored_in (cv_cloud s') = stored_in (cv_cloud s)"
  | (queued) u fmt q where "uuid = Some u" "GetPathFormat i = Some fmt" "r = Inr q"
      "q = new_task ProviderCloudConvert u i fmt out f d (cv_files s)"
      "stored_in (cv_cloud s') = (stored_in (cv_cloud s))(u \<mapsto> q)"
proof (cases uuid)
  case None
  then show thesis using assms refused [of UuidError] by (auto simp: cloud_Enqueue_def)
next
  case (Some u)
  show thesis
  proof (cases "GetPathFormat i")
    case None
    then show thesis using assms Some by (simp add: cloud_Enqueue_def)
  next
    case fmt: (Some fmt)
    let ?q = "new_task ProviderCloudConvert u i fmt out f d (cv_files s)"
    obtain r' b where put: "db_Put u ?q (cv_cloud s) = (r', b)" by (cases "db_Put u ?q (cv_cloud s)")
    show thesis
    proof (cases r')
      case None
      then show thesis
        using assms Some fmt put bk.put_done [of u ?q "cv_cloud s" b] by (intro queued) (auto simp: cloud_Enqueue_def)
    next
      case (Some e)
      then show thesis
        using assms \<open>uuid = Some u\<close> fmt put bk.put_failed [of u ?q "cv_cloud s" e b]
        by (intro refused) (auto simp: cloud_Enqueue_def)
    qed
  qed
qed

lemma cloud_delete_queue:
  "cloud_delete tid s = (r, s') \<Longrightarrow>
    stored_in (cv_cloud s') = (if r = None then (stored_in (cv_cloud s))(tid := None) else stored_in (cv_cloud s))"
  using bk.delete_with_retry [of 3 tid "cv_cloud s"]
  by (auto simp: cloud_delete_def split: prod.splits)

lemma cloud_Cancel_queue:
  "cloud_Cancel cfg remote tid s = (r, s') \<Longrightarrow>
    stored_in (cv_cloud s') = (if r = None then (stored_in (cv_cloud s))(tid := None) else stored_in (cv_cloud s))"
  using bk.del_done [of tid "cv_cloud s"] bk.del_failed [of tid "cv_cloud s"]
  by (auto simp: cloud_Cancel_def Let_def split: sum.splits option.splits if_splits prod.splits)

lemma handleFailed_queue:
  assumes run: "handleFailed cfg remote uuid q s = Some (r, s')"
    and input: "IsFileExists (tq_InputPath q) (cv_files s)"
    and fresh: "\<And>u. uuid = Some u \<Longrightarrow> stored_in (cv_cloud s) u = None \<and> u \<noteq> tq_TaskID q"
  obtains (kept) "r \<noteq> None" "stored_in (cv_cloud s') = stored_in (cv_cloud s)"
  | (requeued) u fmt new where "uuid = Some u"
      "new = new_task ProviderCloudConvert u (tq_InputPath q) fmt (tq_OutputPath q) (tq_OutputFormat q) (tq_DeleteSource q) (cv_files s)"
      "stored_in (cv_cloud s') = (if r = None then (stored_in (cv_cloud s))(u \<mapsto> new, tq_TaskID q := None)
         else (stored_in (cv_cloud s))(u \<mapsto> new))"
proof -
  obtain r1 s1 where enq: "cloud_Enqueue cfg uuid (tq_InputPath q) (tq_OutputPath q) (tq_OutputFormat q) (tq_DeleteSource q) s = Some (r1, s1)"
    using run input by (auto simp: handleFailed_def split: option.splits)
  from enq show thesis
  proof (cases rule: cloud_Enqueue_cases)
    case (refused e)
    then show thesis using run input enq kept by (auto simp: handleFailed_def)
  next
    case (queued u fmt new)
    obtain r2 s2 where del: "cloud_delete (tq_TaskID q) s1 = (r2, s2)" by (cases "cloud_delete (tq_TaskID q) s1")
    note q2 = cloud_delete_queue [OF del]
    show thesis
    proof (cases r2)
      case None
      then have "r = None" "s' = s2" using run input enq queued del by (simp_all add: handleFailed_def)
      then show thesis using queued q2 None by (intro requeued) auto
    next
      case (Some e)
      obtain r3 s3 where can: "cloud_Cancel cfg remote (tq_TaskID new) s2 = (r3, s3)"
        by (cases "cloud_Cancel cfg remote (tq_TaskID new) s2")
      have rs: "r = Some e" "s' = s3" using run input enq queued del Some can by (simp_all add: handleFailed_def)
      note q3 = cloud_Cancel_queue [OF can]
      have tid: "tq_TaskID new = u" using queued by (simp add: new_task_def)
      show thesis
      proof (cases r3)
        case None
        have "(stored_in (cv_cloud s))(u := None) = stored_in (cv_cloud s)" using fresh queued by auto
        then show thesis using kept rs q3 None q2 Some queued tid by (auto simp: fun_upd_idem)
      next
        case (Some e3)
        then show thesis using requeued queued rs q3 q2 \<open>r2 = Some e\<close> by auto
      qed
    qed
  qed
qed

text \<open>Two tasks ask for the same conversion.\<close>

definition same_request :: "TaskQueue \<Rightarrow> TaskQueue \<Rightarrow> bool" where
  "same_request p q \<longleftrightarrow> tq_InputPath p = tq_InputPath q \<and> tq_OutputPath p = tq_OutputPath q \<and>
    tq_OutputFormat p = tq_OutputFormat q \<and> tq_DeleteSource p = tq_DeleteSource q"

text \<open>A task cancelled while it is being submitted comes back under the id of its export task.\<close>

lemma cancel_during_submit_undone:
  assumes "\<not> bk_closed (cv_cloud s)" and "bk_commits (cv_cloud s) = []" and "stored_in (cv_cloud s) (tq_TaskID q) = Some q"
    and "tq_ConvertTaskID q = []" and "x \<noteq> []"
  shows "\<exists>s1 s2. cloud_Cancel cfg remote (tq_TaskID q) s = (None, s1) \<and> submit_commit cfg remote' q c x s1 = (None, s2) \<and>
    stored_in (cv_cloud s2) x = Some (q\<lparr>tq_TaskID := x, tq_ConvertTaskID := c\<rparr>)"
  using assms
  by (simp add: cloud_Cancel_def db_Get_def db_View_def db_Delete_def db_Update_def submit_commit_def bbolt_Put_def Let_def)

text \<open>C26. A task that has failed is not lost: whatever fails in the database or at cloudconvert while it is put
  into the queue again, as long as its source exists the queue holds a task for the same conversion
  afterwards, and when the handling reports success it is a new task that has not been submitted, in place of
  the old one. The tasks of other conversions are untouched.\<close>

theorem failed_task_stays_queued:
  assumes "handleFailed cfg remote uuid q s = Some (r, s')"
    and "IsFileExists (tq_InputPath q) (cv_files s)"
    and "stored_in (cv_cloud s) (tq_TaskID q) = Some q"
    and "\<And>u. uuid = Some u \<Longrightarrow> stored_in (cv_cloud s) u = None"
  shows "(case r of
        None \<Rightarrow> \<exists>t p. t \<noteq> tq_TaskID q \<and> stored_in (cv_cloud s') t = Some p \<and> tq_TaskID p = t \<and>
          tq_ConvertTaskID p = [] \<and> same_request p q \<and> stored_in (cv_cloud s') (tq_TaskID q) = None
      | Some _ \<Rightarrow> stored_in (cv_cloud s') (tq_TaskID q) = Some q)
    \<and> (\<forall>t p. t \<noteq> tq_TaskID q \<and> stored_in (cv_cloud s) t = Some p \<longrightarrow> stored_in (cv_cloud s') t = Some p)"
proof -
  have fresh: "stored_in (cv_cloud s) u = None \<and> u \<noteq> tq_TaskID q" if "uuid = Some u" for u
    using assms(3,4) that by auto
  show ?thesis
  proof (rule handleFailed_queue [OF assms(1,2) fresh], assumption)
    assume "r \<noteq> None" and "stored_in (cv_cloud s') = stored_in (cv_cloud s)"
    then show ?thesis using assms(3) by auto
  next
    fix u fmt new
    assume u: "uuid = Some u"
      and new: "new = new_task ProviderCloudConvert u (tq_InputPath q) fmt (tq_OutputPath q) (tq_OutputFormat q) (tq_DeleteSource q) (cv_files s)"
      and queue: "stored_in (cv_cloud s') = (if r = None then (stored_in (cv_cloud s))(u \<mapsto> new, tq_TaskID q := None)
         else (stored_in (cv_cloud s))(u \<mapsto> new))"
    have "tq_TaskID new = u" "tq_ConvertTaskID new = []" "same_request new q"
      using new by (simp_all add: new_task_def same_request_def)
    then show ?thesis using queue fresh [OF u] assms(3) by (cases r) auto
  qed
qed

text \<open>A queue with one submitted task, and its source.\<close>

definition demo_task :: TaskQueue where
  "demo_task = \<lparr>tq_Provider = ProviderCloudConvert, tq_TaskID = ''e1'', tq_ConvertTaskID = ''c1'', tq_InputPath = ''/r/a.flv'',
    tq_InputFileSize = Some 3000000, tq_OutputPath = ''/r/a.mp4'', tq_InputFormat = ''flv'', tq_OutputFormat = ''mp4'',
    tq_DeleteSource = True\<rparr>"

definition demo_conv :: "bool list \<Rightarrow> conv" where
  "demo_conv commits =
    \<lparr>cv_files = [(''/r/a.flv'', \<lparr>mf_size = 3000000, mf_probe = ProbeOk, mf_moov = Inr False\<rparr>)],
     cv_cloud = OpenBucket [(''e1'', demo_task)] commits, cv_ffmpeg = OpenBucket [] [], cv_handling = [], cv_jobs = [],
     cv_urls = [], cv_running = [], cv_ffjobs = [], cv_slots = 1, cv_cooldowns = [], cv_pending = [], cv_deletions = [], cv_log = []\<rparr>"

definition demo_conv_config :: conv_config where
  "demo_conv_config = \<lparr>cc_exporter = False, cc_webhook = True, cc_threshold = 0, cc_cloud = True, cc_ffmpeg = True,
    cc_noConvertIfInvalid = False, cc_allow = True, cc_maxActives = 0, cc_ffAllow = True, cc_ffMaxActives = 0, cc_ffInterval = 30\<rparr>"

theorem failed_task_stays_queued_witness:
  "stored_in (cv_cloud (snd (the (handleFailed demo_conv_config (\<lambda>_. True) (Some ''u2'') demo_task (demo_conv [True, False, False, False])))))
      ''e1'' = Some demo_task
    \<and> fst (the (handleFailed demo_conv_config (\<lambda>_. True) (Some ''u2'') demo_task (demo_conv [True, False, False, False]))) = Some (Db CommitFailed)"
proof -
  let ?s = "demo_conv [True, False, False, False]"
  have r: "fst (the (handleFailed demo_conv_config (\<lambda>_. True) (Some ''u2'') demo_task ?s)) = Some (Db CommitFailed)"
    by code_simp
  have some: "handleFailed demo_conv_config (\<lambda>_. True) (Some ''u2'') demo_task ?s \<noteq> None" by code_simp
  have "handleFailed demo_conv_config (\<lambda>_. True) (Some ''u2'') demo_task ?s =
      Some (Some (Db CommitFailed), snd (the (handleFailed demo_conv_config (\<lambda>_. True) (Some ''u2'') demo_task ?s)))"
    using r some by (metis option.collapse prod.collapse)
  moreover have "IsFileExists (tq_InputPath demo_task) (cv_files ?s)" by code_simp
  moreover have "stored_in (cv_cloud ?s) (tq_TaskID demo_task) = Some demo_task"
    by (simp add: demo_conv_def demo_task_def OpenBucket_def gm_get_def)
  moreover have "stored_in (cv_cloud ?s) ''u2'' = None" by (simp add: demo_conv_def OpenBucket_def gm_get_def)
  ultimately have "stored_in (cv_cloud (snd (the (handleFailed demo_conv_config (\<lambda>_. True) (Some ''u2'') demo_task ?s))))
      (tq_TaskID demo_task) = Some demo_task"
    using failed_task_stays_queued [of demo_conv_config "\<lambda>_. True" "Some ''u2''" demo_task ?s "Some (Db CommitFailed)"] by simp
  moreover have "tq_TaskID demo_task = ''e1''" by (simp add: demo_task_def)
  ultimately show ?thesis using r by simp
qed



end
