(* ===== verification/ConvertFfmpeg.thy ===== *)
theory ConvertFfmpeg
  imports Convert
begin

text \<open>
  The manager that converts with a local ffmpeg (\<open>internal/services/convert/ffmpeg.go\<close>): the queue, the round of
  the worker with its cooldowns and its limit on conversions at a time, and the conversion of one file through a
  staging file that takes the place of the output only when it has passed the check.
\<close>

section \<open>Queueing and cancelling\<close>

definition ff_updateGaugeMetrics :: "conv_config \<Rightarrow> conv \<Rightarrow> conv" where
  "ff_updateGaugeMetrics cfg s =
    (case db_Count (cv_ffmpeg s) of
       Inl _ \<Rightarrow> s
     | Inr n \<Rightarrow>
        (let processing = int (gm_len (cv_running s))
         in metric cfg (TaskGauges ProviderFFmpeg (max 0 (int n - processing)) processing) s))"

definition ff_Enqueue :: "conv_config \<Rightarrow> string option \<Rightarrow> string \<Rightarrow> string \<Rightarrow> string \<Rightarrow> bool \<Rightarrow> conv \<Rightarrow>
    ((conv_error + TaskQueue) \<times> conv) option" where
  "ff_Enqueue cfg uuid input output format del s =
    (case uuid of
       None \<Rightarrow> Some (Inl UuidError, s)
     | Some uuid \<Rightarrow>
        (case GetPathFormat input of
           None \<Rightarrow> None
         | Some inputFormat \<Rightarrow>
            let q = new_task ProviderFFmpeg uuid input inputFormat output format del (cv_files s)
            in case db_Put uuid q (cv_ffmpeg s) of
                 (Some e, b) \<Rightarrow> Some (Inl (Db e), s\<lparr>cv_ffmpeg := b\<rparr>)
               | (None, b) \<Rightarrow>
                   Some (Inr q, ff_updateGaugeMetrics cfg
                     (metric cfg (TaskQueued ProviderFFmpeg) (s\<lparr>cv_ffmpeg := b\<rparr>)))))"

text \<open>Whether the task was in the queue is not looked at.\<close>

definition ff_Cancel :: "conv_config \<Rightarrow> string \<Rightarrow> conv \<Rightarrow> conv_error option \<times> conv" where
  "ff_Cancel cfg tid s =
    (let s = s\<lparr>cv_running := gm_del tid (cv_running s)\<rparr> in
     case db_Delete tid (cv_ffmpeg s) of
       (Some e, b) \<Rightarrow> (Some (Db e), s\<lparr>cv_ffmpeg := b\<rparr>)
     | (None, b) \<Rightarrow>
         (None, ff_updateGaugeMetrics cfg (metric cfg (TaskCancelled ProviderFFmpeg) (s\<lparr>cv_ffmpeg := b\<rparr>))))"

definition ff_ListInProgress :: "conv \<Rightarrow> conv_error + TaskQueue list" where
  "ff_ListInProgress s =
    (case db_ForEach (cv_ffmpeg s) of Inl e \<Rightarrow> Inl (Db e) | Inr kvs \<Rightarrow> Inr (map snd kvs))"

section \<open>Converting one file\<close>

text \<open>What the run leaves at the staging path (nothing new if \<open>None\<close>) and whether it succeeds; whether the file
  system lets the old output be removed, the staging file renamed and cleaned up.\<close>

record process_env =
  pe_run :: "mfile option \<times> bool"
  pe_removable :: bool
  pe_renamable :: bool
  pe_cleanable :: bool

text \<open>\<open>strings.EqualFold\<close> against an ASCII text whose letters have no other case variants.\<close>

definition muxer_of :: "string \<Rightarrow> string" where
  "muxer_of format = (if ToLower format = ''m4a'' then ''mp4'' else format)"

datatype process_result = ProcOk | RunFailed | InvalidOutput | ReplaceFailed

definition convert_to :: "process_env \<Rightarrow> string \<Rightarrow> string \<Rightarrow> files \<Rightarrow> process_result \<times> files" where
  "convert_to env muxer out fs =
    (let staging = StagingPath out; fs = (case fst (pe_run env) of None \<Rightarrow> fs | Some f \<Rightarrow> gm_put staging f fs) in
     if \<not> snd (pe_run env) then (RunFailed, fs)
     else if \<not> validateOutputContainer muxer (gm_get fs staging) then (InvalidOutput, fs)
     else case ReplaceFile (pe_removable env) (pe_renamable env) staging out fs of
       (True, fs) \<Rightarrow> (ProcOk, fs)
     | (False, fs) \<Rightarrow> (ReplaceFailed, fs))"

definition processTask :: "process_env \<Rightarrow> TaskQueue \<Rightarrow> files \<Rightarrow> process_result \<times> files" where
  "processTask env q fs =
    (if \<not> IsFileExists (tq_InputPath q) fs then (ProcOk, fs)
     else let muxer = muxer_of (tq_OutputFormat q); out = tq_OutputPath q in
       if IsFileExists out fs \<and> validateOutputContainer muxer (gm_get fs out) then (ProcOk, fs)
       else case convert_to env muxer out fs of
         (r, fs) \<Rightarrow> (r, if pe_cleanable env then gm_del (StagingPath out) fs else fs))"

text \<open>The goroutine of a task. The removal from the running tasks happens last, in the deferred function.\<close>

definition ff_delete :: "string \<Rightarrow> conv \<Rightarrow> conv_error option \<times> conv" where
  "ff_delete tid s =
    (case WithRetry 3 (db_Delete tid) (cv_ffmpeg s) of
       ((r, _), b) \<Rightarrow> (map_option Db r, s\<lparr>cv_ffmpeg := b\<rparr>))"

definition asyncProcessTask :: "conv_config \<Rightarrow> process_env \<Rightarrow> int \<Rightarrow> TaskQueue \<Rightarrow> conv \<Rightarrow> conv" where
  "asyncProcessTask cfg env now q s =
    (case processTask env q (cv_files s) of (r, fs) \<Rightarrow>
      let s = s\<lparr>cv_files := fs\<rparr>;
          s = (if r \<noteq> ProcOk
               then (metric cfg (TaskFailed ProviderFFmpeg) s)
                      \<lparr>cv_cooldowns := gm_put (tq_TaskID q) (now + cc_ffInterval cfg * 1000000000 * 2) (cv_cooldowns s)\<rparr>
               else case ff_delete (tq_TaskID q) (metric cfg (TaskFinished ProviderFFmpeg) s) of
                 (Some _, s) \<Rightarrow> s
               | (None, s) \<Rightarrow> Schedule q (webhookConvertSucceeded cfg q (ff_updateGaugeMetrics cfg s)))
      in ff_updateGaugeMetrics cfg
           (s\<lparr>cv_slots := cv_slots s + 1, cv_running := gm_del (tq_TaskID q) (cv_running s)\<rparr>))"

section \<open>The round of the worker\<close>

text \<open>One task of the list; \<open>None\<close> ends the round because no conversion may be added.\<close>

definition ff_visit :: "conv_config \<Rightarrow> int \<Rightarrow> TaskQueue \<Rightarrow> conv \<Rightarrow> conv option" where
  "ff_visit cfg now q s =
    (let tid = tq_TaskID q in
     if gm_get (cv_running s) tid \<noteq> None then Some s
     else
       (let cooling = (case gm_get (cv_cooldowns s) tid of None \<Rightarrow> False | Some t \<Rightarrow> now < t) in
        if cooling then Some s
        else let s = s\<lparr>cv_cooldowns := gm_del tid (cv_cooldowns s)\<rparr> in
          if \<not> IsFileExists (tq_InputPath q) (cv_files s) then
            Some (ff_updateGaugeMetrics cfg
              (case ff_delete tid s of
                 (Some _, s) \<Rightarrow> s
               | (None, s) \<Rightarrow> metric cfg (TaskCancelled ProviderFFmpeg) s))
          else if cv_slots s = 0 then None
          else Some ((ff_updateGaugeMetrics cfg
                  (s\<lparr>cv_slots := cv_slots s - 1, cv_running := gm_put tid () (cv_running s)\<rparr>))
                    \<lparr>cv_ffjobs := cv_ffjobs s @ [q]\<rparr>)))"

text \<open>A break keeps what the visit has done before it: the expired cooldown is forgotten.\<close>

fun ff_visits :: "conv_config \<Rightarrow> int \<Rightarrow> TaskQueue list \<Rightarrow> conv \<Rightarrow> conv" where
  "ff_visits cfg now [] s = s"
| "ff_visits cfg now (q # qs) s =
    (case ff_visit cfg now q s of
       None \<Rightarrow> s\<lparr>cv_cooldowns := gm_del (tq_TaskID q) (cv_cooldowns s)\<rparr>
     | Some s \<Rightarrow> ff_visits cfg now qs s)"

definition ff_tick :: "conv_config \<Rightarrow> int \<Rightarrow> int \<Rightarrow> conv \<Rightarrow> conv" where
  "ff_tick cfg now actives s =
    (let s = ff_updateGaugeMetrics cfg s in
     if actives > 0 \<and> \<not> allowConvertDuringRecording actives (cc_ffAllow cfg) (cc_ffMaxActives cfg) then s
     else case ff_ListInProgress s of
       Inl _ \<Rightarrow> s
     | Inr qs \<Rightarrow> ff_visits cfg now qs s)"

definition run_ffjob :: "conv_config \<Rightarrow> process_env \<Rightarrow> int \<Rightarrow> TaskQueue \<Rightarrow> conv \<Rightarrow> conv" where
  "run_ffjob cfg env now q s = asyncProcessTask cfg env now q (s\<lparr>cv_ffjobs := remove1 q (cv_ffjobs s)\<rparr>)"

section \<open>Lemmas\<close>

lemma ff_gauges_keep [simp]:
  "cv_files (ff_updateGaugeMetrics cfg s) = cv_files s"
  "cv_cloud (ff_updateGaugeMetrics cfg s) = cv_cloud s"
  "cv_ffmpeg (ff_updateGaugeMetrics cfg s) = cv_ffmpeg s"
  "cv_handling (ff_updateGaugeMetrics cfg s) = cv_handling s"
  "cv_jobs (ff_updateGaugeMetrics cfg s) = cv_jobs s"
  "cv_urls (ff_updateGaugeMetrics cfg s) = cv_urls s"
  "cv_running (ff_updateGaugeMetrics cfg s) = cv_running s"
  "cv_ffjobs (ff_updateGaugeMetrics cfg s) = cv_ffjobs s"
  "cv_slots (ff_updateGaugeMetrics cfg s) = cv_slots s"
  "cv_cooldowns (ff_updateGaugeMetrics cfg s) = cv_cooldowns s"
  "cv_pending (ff_updateGaugeMetrics cfg s) = cv_pending s"
  "cv_deletions (ff_updateGaugeMetrics cfg s) = cv_deletions s"
  by (simp_all add: ff_updateGaugeMetrics_def Let_def split: sum.split)

lemma ff_delete_queue:
  "ff_delete tid s = (r, s') \<Longrightarrow>
    stored_in (cv_ffmpeg s') = (if r = None then (stored_in (cv_ffmpeg s))(tid := None) else stored_in (cv_ffmpeg s))"
  using bk.delete_with_retry [of 3 tid "cv_ffmpeg s"]
  by (auto simp: ff_delete_def split: prod.splits)

lemma ff_delete_keeps [simp]:
  "cv_files (snd (ff_delete tid s)) = cv_files s"
  "cv_cloud (snd (ff_delete tid s)) = cv_cloud s"
  "cv_handling (snd (ff_delete tid s)) = cv_handling s"
  "cv_jobs (snd (ff_delete tid s)) = cv_jobs s"
  "cv_urls (snd (ff_delete tid s)) = cv_urls s"
  "cv_running (snd (ff_delete tid s)) = cv_running s"
  "cv_ffjobs (snd (ff_delete tid s)) = cv_ffjobs s"
  "cv_slots (snd (ff_delete tid s)) = cv_slots s"
  "cv_cooldowns (snd (ff_delete tid s)) = cv_cooldowns s"
  "cv_pending (snd (ff_delete tid s)) = cv_pending s"
  "cv_deletions (snd (ff_delete tid s)) = cv_deletions s"
  "cv_log (snd (ff_delete tid s)) = cv_log s"
  by (simp_all add: ff_delete_def split: prod.split)

lemma staging_differs [simp]: "StagingPath p \<noteq> p" "p \<noteq> StagingPath p"
  by (simp_all add: StagingPath_def)

lemma ReplaceFile_cases:
  assumes "ReplaceFile rm mv tmp final fs = (ok, fs')"
  obtains (replaced) f where "ok" "gm_get fs tmp = Some f" "fs' = gm_put final f (gm_del tmp (gm_del final fs))"
  | (kept) "\<not> ok" "fs' = fs" | (lost) "\<not> ok" "fs' = gm_del final fs"
proof (cases "gm_get fs final \<noteq> None \<and> \<not> rm")
  case True
  then show thesis using assms kept by (simp add: ReplaceFile_def)
next
  case False
  show thesis
  proof (cases "if mv then os_Rename tmp final (gm_del final fs) else None")
    case None
    then show thesis using assms [unfolded ReplaceFile_def Let_def] False lost by auto
  next
    case (Some fs2)
    then obtain f where "gm_get fs tmp = Some f" "fs2 = gm_put final f (gm_del tmp (gm_del final fs))"
      by (auto simp: os_Rename_def split: if_splits option.splits)
    then show thesis using assms [unfolded ReplaceFile_def Let_def] False Some replaced by auto
  qed
qed

text \<open>A conversion touches nothing but the output and its staging file. After a success the output has passed the
  check, unless there was no source; before the replacement nothing happens to the output.\<close>

lemma convert_to_spec:
  assumes "convert_to env mx out fs = (r, fs')"
  shows "(r = ProcOk \<longrightarrow> validateOutputContainer mx (gm_get fs' out)) \<and>
    (r \<noteq> ProcOk \<longrightarrow> r \<noteq> ReplaceFailed \<longrightarrow> gm_get fs' out = gm_get fs out) \<and>
    (p \<noteq> out \<longrightarrow> p \<noteq> StagingPath out \<longrightarrow> gm_get fs' p = gm_get fs p)"
proof -
  define fs1 where "fs1 = (case fst (pe_run env) of None \<Rightarrow> fs | Some f \<Rightarrow> gm_put (StagingPath out) f fs)"
  have fs1: "gm_get fs1 x = gm_get fs x" if "x \<noteq> StagingPath out" for x
    using that by (simp add: fs1_def split: option.split)
  obtain ok fs2 where rep: "ReplaceFile (pe_removable env) (pe_renamable env) (StagingPath out) out fs1 = (ok, fs2)"
    by (cases "ReplaceFile (pe_removable env) (pe_renamable env) (StagingPath out) out fs1")
  have res: "(r, fs') = (if \<not> snd (pe_run env) then (RunFailed, fs1)
     else if \<not> validateOutputContainer mx (gm_get fs1 (StagingPath out)) then (InvalidOutput, fs1)
     else if ok then (ProcOk, fs2) else (ReplaceFailed, fs2))"
    using assms [unfolded convert_to_def Let_def, folded fs1_def, unfolded rep] by (cases ok) (auto split: if_splits)
  from rep show ?thesis
  proof (cases rule: ReplaceFile_cases)
    case (replaced f)
    then show ?thesis using res fs1 [of out] fs1 [of p] by (auto split: if_splits)
  next
    case kept
    then show ?thesis using res fs1 [of out] fs1 [of p] by (auto split: if_splits)
  next
    case lost
    then show ?thesis using res fs1 [of out] fs1 [of p] by (auto split: if_splits)
  qed
qed

lemma processTask_spec:
  assumes "processTask env q fs = (r, fs')"
  shows "r = ProcOk \<Longrightarrow> IsFileExists (tq_InputPath q) fs \<Longrightarrow>
      validateOutputContainer (muxer_of (tq_OutputFormat q)) (gm_get fs' (tq_OutputPath q))"
    and "r \<noteq> ProcOk \<Longrightarrow> r \<noteq> ReplaceFailed \<Longrightarrow> gm_get fs' (tq_OutputPath q) = gm_get fs (tq_OutputPath q)"
    and "p \<noteq> tq_OutputPath q \<Longrightarrow> p \<noteq> StagingPath (tq_OutputPath q) \<Longrightarrow> gm_get fs' p = gm_get fs p"
proof -
  obtain r2 fs2 where run: "convert_to env (muxer_of (tq_OutputFormat q)) (tq_OutputPath q) fs = (r2, fs2)"
    by (cases "convert_to env (muxer_of (tq_OutputFormat q)) (tq_OutputPath q) fs")
  note spec = assms [unfolded processTask_def Let_def run prod.case]
  show "r = ProcOk \<Longrightarrow> IsFileExists (tq_InputPath q) fs \<Longrightarrow>
      validateOutputContainer (muxer_of (tq_OutputFormat q)) (gm_get fs' (tq_OutputPath q))"
    using spec convert_to_spec [OF run] by (auto split: if_splits)
  show "r \<noteq> ProcOk \<Longrightarrow> r \<noteq> ReplaceFailed \<Longrightarrow> gm_get fs' (tq_OutputPath q) = gm_get fs (tq_OutputPath q)"
    using spec convert_to_spec [OF run] by (auto split: if_splits)
  show "p \<noteq> tq_OutputPath q \<Longrightarrow> p \<noteq> StagingPath (tq_OutputPath q) \<Longrightarrow> gm_get fs' p = gm_get fs p"
    using spec convert_to_spec [OF run, of p] by (auto split: if_splits)
qed

text \<open>What the goroutine of a task does to the queue, the deletions and the cooldowns.\<close>

lemma async_result:
  assumes "processTask env q (cv_files s) = (r, fs)"
  obtains (again) "r \<noteq> ProcOk" "stored_in (cv_ffmpeg (asyncProcessTask cfg env now q s)) = stored_in (cv_ffmpeg s)"
      "cv_deletions (asyncProcessTask cfg env now q s) = cv_deletions s"
      "gm_get (cv_cooldowns (asyncProcessTask cfg env now q s)) (tq_TaskID q) = Some (now + cc_ffInterval cfg * 1000000000 * 2)"
  | (stuck) "r = ProcOk" "stored_in (cv_ffmpeg (asyncProcessTask cfg env now q s)) = stored_in (cv_ffmpeg s)"
      "cv_deletions (asyncProcessTask cfg env now q s) = cv_deletions s"
  | (finished) s2 where "r = ProcOk"
      "stored_in (cv_ffmpeg (asyncProcessTask cfg env now q s)) = (stored_in (cv_ffmpeg s))(tq_TaskID q := None)"
      "cv_deletions (asyncProcessTask cfg env now q s) = cv_deletions (Schedule q s2)" "cv_deletions s2 = cv_deletions s"
proof (cases "r = ProcOk")
  case False
  then show thesis using assms by (intro again) (simp_all add: asyncProcessTask_def Let_def)
next
  case True
  let ?s1 = "metric cfg (TaskFinished ProviderFFmpeg) (s\<lparr>cv_files := fs\<rparr>)"
  obtain d s2 where del: "ff_delete (tq_TaskID q) ?s1 = (d, s2)" by (cases "ff_delete (tq_TaskID q) ?s1")
  note queue = ff_delete_queue [OF del]
  have keeps: "cv_deletions s2 = cv_deletions s" using ff_delete_keeps(11) [of "tq_TaskID q" ?s1] del by simp
  show thesis
  proof (cases d)
    case None
    then show thesis using assms True del queue keeps
      by (intro finished [of "webhookConvertSucceeded cfg q (ff_updateGaugeMetrics cfg s2)"]) (simp_all add: asyncProcessTask_def Let_def)
  next
    case (Some e)
    then show thesis using assms True del queue keeps by (intro stuck) (simp_all add: asyncProcessTask_def Let_def)
  qed
qed

lemma async_files: "cv_files (asyncProcessTask cfg env now q s) = snd (processTask env q (cv_files s))"
proof -
  obtain r fs where p: "processTask env q (cv_files s) = (r, fs)" by (cases "processTask env q (cv_files s)")
  let ?s1 = "metric cfg (TaskFinished ProviderFFmpeg) (s\<lparr>cv_files := fs\<rparr>)"
  obtain d s2 where del: "ff_delete (tq_TaskID q) ?s1 = (d, s2)" by (cases "ff_delete (tq_TaskID q) ?s1")
  have "cv_files s2 = fs" using ff_delete_keeps(1) [of "tq_TaskID q" ?s1] del by simp
  then show ?thesis using p del by (simp add: asyncProcessTask_def Let_def split: option.split)
qed

lemma schedule_adds:
  "p \<in> set (cv_deletions (Schedule q s)) \<Longrightarrow> p \<notin> set (cv_deletions s) \<Longrightarrow>
    p = q \<and> tq_DeleteSource q \<and> tq_InputPath q \<noteq> tq_OutputPath q"
  by (auto simp: Schedule_def split: if_splits)


definition demo_ff :: conv where
  "demo_ff = (demo_conv [])\<lparr>cv_ffmpeg := OpenBucket [(''e1'', demo_task)] [], cv_ffjobs := [demo_task]\<rparr>"

definition demo_process :: process_env where
  "demo_process = \<lparr>pe_run = (Some \<lparr>mf_size = 2900000, mf_probe = ProbeUnavailable, mf_moov = Inr True\<rparr>, True), pe_removable = True,
    pe_renamable = True, pe_cleanable = True\<rparr>"


text \<open>A valid file at the output path counts as the conversion, wherever it comes from.\<close>

lemma existing_output_counts:
  "IsFileExists (tq_InputPath q) fs \<Longrightarrow> IsFileExists (tq_OutputPath q) fs \<Longrightarrow>
    validateOutputContainer (muxer_of (tq_OutputFormat q)) (gm_get fs (tq_OutputPath q)) \<Longrightarrow> processTask env q fs = (ProcOk, fs)"
  by (simp add: processTask_def)

section \<open>A round of the worker\<close>

lemma ff_delete_only: "\<exists>b. snd (ff_delete tid s) = s\<lparr>cv_ffmpeg := b\<rparr>"
  by (auto simp: ff_delete_def split: prod.split)

lemma ff_gauges_only: "\<exists>l. ff_updateGaugeMetrics cfg s = s\<lparr>cv_log := l\<rparr>"
  by (rule exI [where x = "cv_log (ff_updateGaugeMetrics cfg s)"])
     (simp add: ff_updateGaugeMetrics_def metric_def Let_def split: sum.split)

lemma metric_only: "\<exists>l. metric cfg e s = s\<lparr>cv_log := l\<rparr>"
  by (rule exI [where x = "cv_log (metric cfg e s)"]) (simp add: metric_def)

text \<open>What a visit does.\<close>

lemma visit_cases:
  assumes "ff_visit cfg now q s = Some s'"
  obtains (skipped) "s' = s" "gm_get (cv_running s) (tq_TaskID q) \<noteq> None \<or> (\<exists>c. gm_get (cv_cooldowns s) (tq_TaskID q) = Some c \<and> now < c)"
  | (dropped) b l where "\<not> IsFileExists (tq_InputPath q) (cv_files s)" "\<nexists>c. gm_get (cv_cooldowns s) (tq_TaskID q) = Some c \<and> now < c"
      "s' = s\<lparr>cv_cooldowns := gm_del (tq_TaskID q) (cv_cooldowns s), cv_ffmpeg := b, cv_log := l\<rparr>"
  | (started) l where "cv_slots s > 0" "\<nexists>c. gm_get (cv_cooldowns s) (tq_TaskID q) = Some c \<and> now < c"
      "s' = s\<lparr>cv_cooldowns := gm_del (tq_TaskID q) (cv_cooldowns s), cv_slots := cv_slots s - 1,
        cv_running := gm_put (tq_TaskID q) () (cv_running s), cv_ffjobs := cv_ffjobs s @ [q], cv_log := l\<rparr>"
proof -
  let ?t = "tq_TaskID q"
  let ?s1 = "s\<lparr>cv_cooldowns := gm_del ?t (cv_cooldowns s)\<rparr>"
  define cooling where "cooling = (case gm_get (cv_cooldowns s) ?t of None \<Rightarrow> False | Some c \<Rightarrow> now < c)"
  have cooling: "cooling \<longleftrightarrow> (\<exists>c. gm_get (cv_cooldowns s) ?t = Some c \<and> now < c)"
    by (simp add: cooling_def split: option.split)
  note visit = assms [unfolded ff_visit_def Let_def, folded cooling_def]
  consider "gm_get (cv_running s) ?t \<noteq> None \<or> cooling" | "gm_get (cv_running s) ?t = None" "\<not> cooling" by blast
  then show thesis
  proof cases
    case 1
    then show thesis using visit skipped cooling by (auto split: if_splits)
  next
    case 2
    show thesis
    proof (cases "IsFileExists (tq_InputPath q) (cv_files s)")
      case True
      then have slots: "cv_slots s > 0" using visit 2 by (auto split: if_splits)
      obtain l where l: "ff_updateGaugeMetrics cfg (?s1\<lparr>cv_slots := cv_slots s - 1, cv_running := gm_put ?t () (cv_running s)\<rparr>) =
          ?s1\<lparr>cv_slots := cv_slots s - 1, cv_running := gm_put ?t () (cv_running s), cv_log := l\<rparr>"
        using ff_gauges_only [of cfg "?s1\<lparr>cv_slots := cv_slots s - 1, cv_running := gm_put ?t () (cv_running s)\<rparr>"] by auto
      have "s' = (?s1\<lparr>cv_slots := cv_slots s - 1, cv_running := gm_put ?t () (cv_running s), cv_log := l\<rparr>)\<lparr>cv_ffjobs := cv_ffjobs s @ [q]\<rparr>"
        using visit 2 True slots l by simp
      then show thesis using 2(2) cooling by (intro started [OF slots, of l]) simp_all
    next
      case False
      obtain r s2 where d: "ff_delete ?t ?s1 = (r, s2)" by (cases "ff_delete ?t ?s1")
      then obtain b where b: "s2 = ?s1\<lparr>cv_ffmpeg := b\<rparr>" using ff_delete_only [of ?t ?s1] by auto
      have "\<exists>l. s' = s2\<lparr>cv_log := l\<rparr>"
      proof (cases r)
        case None
        obtain m where "metric cfg (TaskCancelled ProviderFFmpeg) s2 = s2\<lparr>cv_log := m\<rparr>" using metric_only by blast
        then show ?thesis using visit 2 False d None ff_gauges_only [of cfg "s2\<lparr>cv_log := m\<rparr>"] by auto
      next
        case (Some e)
        then show ?thesis using visit 2 False d ff_gauges_only [of cfg s2] by auto
      qed
      then show thesis using b False dropped cooling 2 by auto
    qed
  qed
qed

text \<open>Where a task of the list stands once its turn has been, which later turns do not change.\<close>

definition attended :: "int \<Rightarrow> TaskQueue \<Rightarrow> conv \<Rightarrow> bool" where
  "attended now q s \<longleftrightarrow> cv_slots s = 0 \<or> gm_get (cv_running s) (tq_TaskID q) \<noteq> None
    \<or> (\<exists>c. gm_get (cv_cooldowns s) (tq_TaskID q) = Some c \<and> now < c) \<or> \<not> IsFileExists (tq_InputPath q) (cv_files s)"

lemma visit_attends:
  assumes "ff_visit cfg now q s = Some s'"
  shows "attended now q s'" and "attended now p s \<Longrightarrow> attended now p s'"
    and "cv_slots s' + length (cv_ffjobs s') = cv_slots s + length (cv_ffjobs s)" and "cv_files s' = cv_files s"
  using assms by (cases rule: visit_cases; auto simp: attended_def)+

lemma visit_none: "ff_visit cfg now q s = None \<Longrightarrow> cv_slots s = 0"
  by (auto simp: ff_visit_def Let_def split: if_splits)

lemma visits_attend:
  "(\<forall>p \<in> set qs. attended now p (ff_visits cfg now qs s)) \<and> (attended now p s \<longrightarrow> attended now p (ff_visits cfg now qs s)) \<and>
    cv_slots (ff_visits cfg now qs s) + length (cv_ffjobs (ff_visits cfg now qs s)) = cv_slots s + length (cv_ffjobs s)"
proof (induction qs arbitrary: s p)
  case (Cons q qs)
  show ?case
  proof (cases "ff_visit cfg now q s")
    case None
    then show ?thesis using visit_none [OF None] by (simp add: attended_def)
  next
    case (Some s1)
    then have eq: "ff_visits cfg now (q # qs) s = ff_visits cfg now qs s1" by simp
    show ?thesis unfolding eq
      using Cons.IH [of s1 p] Cons.IH [of s1 q] visit_attends(1,3) [OF Some] visit_attends(2) [OF Some, of p] by simp
  qed
qed simp

text \<open>After a round of the worker that is not held back by recordings, every queued task whose source exists is
  being converted or waits for the end of its cooldown, or the limit of conversions at a time is reached; and
  a round neither gains nor loses permits: those free and those held by running conversions add up to the same.\<close>

lemma worker_round_serves_queue:
  assumes "db_ForEach (cv_ffmpeg s) = Inr kvs" and "(k, q) \<in> set kvs"
    and "actives \<le> 0 \<or> cc_ffAllow cfg \<and> (cc_ffMaxActives cfg < 1 \<or> actives \<le> cc_ffMaxActives cfg)"
    and "IsFileExists (tq_InputPath q) (cv_files s)" and "s' = ff_tick cfg now actives s"
  shows "(cv_slots s' = 0 \<or> gm_get (cv_running s') (tq_TaskID q) \<noteq> None
      \<or> (\<exists>c. gm_get (cv_cooldowns s') (tq_TaskID q) = Some c \<and> now < c))
    \<and> cv_slots s' + length (cv_ffjobs s') = cv_slots s + length (cv_ffjobs s)"
proof -
  let ?s = "ff_updateGaugeMetrics cfg s"
  have s': "s' = ff_visits cfg now (map snd kvs) ?s"
    using assms(1,3,5) by (auto simp: ff_tick_def Let_def ff_ListInProgress_def allowConvertDuringRecording_def)
  have files: "cv_files (ff_visits cfg now qs u) = cv_files u" for qs u
    by (induction qs arbitrary: u) (auto split: option.split dest: visit_attends(4))
  have "q \<in> set (map snd kvs)" using assms(2) by force
  then have "attended now q s'" using visits_attend [of "map snd kvs" now cfg ?s q] s' by blast
  then show ?thesis using visits_attend [of "map snd kvs" now cfg ?s q] s' files [of "map snd kvs" ?s] assms(4) by (auto simp: attended_def)
qed

lemma worker_round_serves_queue_witness:
  "gm_get (cv_running (ff_tick demo_conv_config 0 0 (demo_ff\<lparr>cv_ffjobs := []\<rparr>))) ''e1'' \<noteq> None"
proof -
  let ?s = "demo_ff\<lparr>cv_ffjobs := []\<rparr>"
  let ?t = "ff_tick demo_conv_config 0 0 ?s"
  have "db_ForEach (cv_ffmpeg ?s) = Inr [(''e1'', demo_task)]" by code_simp
  moreover have "IsFileExists (tq_InputPath demo_task) (cv_files ?s)" by code_simp
  ultimately have "(cv_slots ?t = 0 \<or> gm_get (cv_running ?t) (tq_TaskID demo_task) \<noteq> None
      \<or> (\<exists>c. gm_get (cv_cooldowns ?t) (tq_TaskID demo_task) = Some c \<and> 0 < c))
    \<and> cv_slots ?t + length (cv_ffjobs ?t) = cv_slots ?s + length (cv_ffjobs ?s)"
    using worker_round_serves_queue [where s = ?s and q = demo_task and k = "''e1''" and cfg = demo_conv_config and now = 0 and actives = 0]
    by simp
  moreover have "length (cv_ffjobs ?t) = 1 \<and> cv_slots ?s = 1 \<and> cv_ffjobs ?s = []" by code_simp
  moreover have "gm_get (cv_running ?t) ''e1'' = Some ()" by code_simp
  ultimately show ?thesis by simp
qed

end
