(* ===== verification/ConvertService.thy ===== *)
theory ConvertService
  imports ConvertFfmpeg
begin

text \<open>
  The conversion service over its managers (\<open>internal/services/convert/convert.go\<close>, \<open>checker.go\<close>): choice of the
  manager, the check of the source, cancelling and listing across managers. The last part is the whole system as a
  step relation: requests, rounds of both workers, their goroutines and the deletions in any interleaving.
\<close>

section \<open>Operations\<close>

definition managers :: "conv_config \<Rightarrow> string list" where
  "managers cfg = (if cc_cloud cfg then [ProviderCloudConvert] else []) @ (if cc_ffmpeg cfg then [ProviderFFmpeg] else [])"

definition checkAvailableManagers :: "conv_config \<Rightarrow> conv_error option" where
  "checkAvailableManagers cfg = (if managers cfg = [] then Some ErrNoConvertManager else None)"

definition shoulduseCloudConvert :: "conv_config \<Rightarrow> int \<Rightarrow> bool" where
  "shoulduseCloudConvert cfg fileSize \<longleftrightarrow> cc_cloud cfg \<and> cc_threshold cfg \<ge> 0 \<and> fileSize \<ge> cc_threshold cfg"

text \<open>What ffprobe says of a kind of stream: \<open>None\<close> when it fails or is not installed.\<close>

definition checkOriginalFile :: "bool option \<Rightarrow> bool option \<Rightarrow> bool \<Rightarrow> bool \<times> bool" where
  "checkOriginalFile hasVideo hasAudio requireVideo =
    (let audio = (case hasAudio of None \<Rightarrow> (True, True) | Some a \<Rightarrow> if a then (True, False) else (False, True)) in
     if requireVideo then
       (case hasVideo of None \<Rightarrow> (True, True) | Some v \<Rightarrow> if v then audio else (False, True))
     else audio)"

text \<open>\<open>abs\<close> is \<open>filepath.Abs\<close>; the probe answers for video and audio and the new identifier are inputs. The
  manager that has been chosen may not exist: calling it then panics.\<close>

definition svc_Enqueue :: "conv_config \<Rightarrow> (string \<Rightarrow> string option) \<Rightarrow> bool option \<times> bool option \<Rightarrow> string option \<Rightarrow>
    string \<Rightarrow> string \<Rightarrow> bool \<Rightarrow> conv \<Rightarrow> ((conv_error + TaskQueue) \<times> conv) option" where
  "svc_Enqueue cfg absolute streams uuid p format del s =
    (case checkAvailableManagers cfg of
       Some e \<Rightarrow> Some (Inl e, s)
     | None \<Rightarrow>
        (case absolute p of
           None \<Rightarrow> Some (Inl PathError, s)
         | Some p \<Rightarrow>
            (case stat_size p (cv_files s) of
               None \<Rightarrow> Some (Inl StatError, s)
             | Some n \<Rightarrow>
                let output = ChangePathFormat p format;
                    cloud = shoulduseCloudConvert cfg n;
                    (pass, failed) = checkOriginalFile (fst streams) (snd streams) (format \<noteq> ''m4a'')
                in if failed \<and> \<not> pass \<and> cc_noConvertIfInvalid cfg then Some (Inl InvalidSource, s)
                   else if cloud then cloud_Enqueue cfg uuid p output format del s
                   else if cc_ffmpeg cfg then ff_Enqueue cfg uuid p output format del s
                   else None)))"

text \<open>The managers are asked in the order the map is iterated in.\<close>

definition manager_Cancel :: "conv_config \<Rightarrow> (string \<Rightarrow> bool) \<Rightarrow> string \<Rightarrow> string \<Rightarrow> conv \<Rightarrow> conv_error option \<times> conv" where
  "manager_Cancel cfg remote m tid s =
    (if m = ProviderCloudConvert then cloud_Cancel cfg remote tid s else ff_Cancel cfg tid s)"

fun cancel_in :: "string list \<Rightarrow> conv_config \<Rightarrow> (string \<Rightarrow> bool) \<Rightarrow> string \<Rightarrow> conv \<Rightarrow> conv_error option \<times> conv" where
  "cancel_in [] cfg remote tid s = (Some ErrTaskNotFound, s)"
| "cancel_in (m # ms) cfg remote tid s =
    (case manager_Cancel cfg remote m tid s of
       (None, s) \<Rightarrow> (None, s)
     | (Some e, s) \<Rightarrow> if e = ErrTaskNotFound then cancel_in ms cfg remote tid s else (Some e, s))"

definition svc_Cancel :: "string list \<Rightarrow> conv_config \<Rightarrow> (string \<Rightarrow> bool) \<Rightarrow> string \<Rightarrow> conv \<Rightarrow> conv_error option \<times> conv" where
  "svc_Cancel order cfg remote tid s =
    (case checkAvailableManagers cfg of
       Some e \<Rightarrow> (Some e, s)
     | None \<Rightarrow> cancel_in order cfg remote tid s)"

definition manager_list :: "string \<Rightarrow> conv \<Rightarrow> conv_error + TaskQueue list" where
  "manager_list m s = (if m = ProviderCloudConvert then cloud_ListInProgress s else ff_ListInProgress s)"

fun list_in :: "string list \<Rightarrow> conv \<Rightarrow> conv_error + TaskQueue list" where
  "list_in [] s = Inr []"
| "list_in (m # ms) s =
    (case manager_list m s of
       Inl e \<Rightarrow> Inl e
     | Inr qs \<Rightarrow> (case list_in ms s of Inl e \<Rightarrow> Inl e | Inr qs' \<Rightarrow> Inr (qs @ qs')))"

definition svc_ListInProgress :: "string list \<Rightarrow> conv_config \<Rightarrow> conv \<Rightarrow> conv_error + TaskQueue list" where
  "svc_ListInProgress order cfg s =
    (case checkAvailableManagers cfg of Some e \<Rightarrow> Inl e | None \<Rightarrow> list_in order s)"

definition IsInQueue :: "string list \<Rightarrow> conv_config \<Rightarrow> (string \<Rightarrow> string) \<Rightarrow> string \<Rightarrow> conv \<Rightarrow> conv_error + bool" where
  "IsInQueue order cfg clean p s =
    (case svc_ListInProgress order cfg s of
       Inl e \<Rightarrow> Inl e
     | Inr qs \<Rightarrow> Inr (list_ex (\<lambda>q. clean (tq_InputPath q) = clean p) qs))"

definition InProgressSize :: "conv_config \<Rightarrow> conv \<Rightarrow> nat" where
  "InProgressSize cfg s =
    (let size_of = (\<lambda>b. case db_Count b of Inl _ \<Rightarrow> 0 | Inr n \<Rightarrow> n) in
     (if cc_cloud cfg then size_of (cv_cloud s) else 0) + (if cc_ffmpeg cfg then size_of (cv_ffmpeg s) else 0))"

section \<open>The system\<close>

text \<open>Files may also change by other hands between the steps.\<close>

inductive conv_step :: "conv_config \<Rightarrow> conv \<Rightarrow> conv \<Rightarrow> bool" for cfg :: conv_config where
  enqueue: "svc_Enqueue cfg absolute streams uuid p format del s = Some (r, s') \<Longrightarrow> conv_step cfg s s'"
| cancel: "svc_Cancel order cfg remote tid s = (r, s') \<Longrightarrow> set order = set (managers cfg) \<Longrightarrow> conv_step cfg s s'"
| cloud_round: "conv_step cfg s (cloud_tick cfg env answer actives s)"
| cloud_job: "j \<in> set (cv_jobs s) \<Longrightarrow> run_job cfg fenv j s = Some s' \<Longrightarrow> conv_step cfg s s'"
| ff_round: "conv_step cfg s (ff_tick cfg now actives s)"
| ff_job: "q \<in> set (cv_ffjobs s) \<Longrightarrow> conv_step cfg s (run_ffjob cfg penv now q s)"
| deletion: "q \<in> set (cv_deletions s) \<Longrightarrow> conv_step cfg s (run_deletion mark answers q s)"
| files: "conv_step cfg s (s\<lparr>cv_files := fs\<rparr>)"
| closing: "conv_step cfg s (s\<lparr>cv_cloud := db_Close (cv_cloud s), cv_ffmpeg := db_Close (cv_ffmpeg s)\<rparr>)"

inductive_cases conv_stepE: "conv_step cfg s s'"

section \<open>Well-formed states\<close>

definition queue_ok :: "string \<Rightarrow> TaskQueue Bucket \<Rightarrow> bool" where
  "queue_ok provider b \<longleftrightarrow> gm_ok (bk_data b) \<and>
    (\<forall>k q. stored_in b k = Some q \<longrightarrow> k \<noteq> [] \<and> tq_TaskID q = k \<and> tq_Provider q = provider)"

fun job_task :: "cloud_job \<Rightarrow> TaskQueue" where
  "job_task (FinishedJob q _) = q"
| "job_task (FailedJob q) = q"

text \<open>A submitted task is handled by at most one goroutine, and is marked exactly as long.\<close>

definition cloud_jobs_ok :: "conv \<Rightarrow> bool" where
  "cloud_jobs_ok s \<longleftrightarrow> distinct (map (tq_TaskID \<circ> job_task) (cv_jobs s)) \<and>
    (\<forall>t. gm_get (cv_handling s) t \<noteq> None \<longleftrightarrow> t \<in> (tq_TaskID \<circ> job_task) ` set (cv_jobs s))"

definition ff_jobs_ok :: "nat \<Rightarrow> conv \<Rightarrow> bool" where
  "ff_jobs_ok limit s \<longleftrightarrow> cv_slots s + length (cv_ffjobs s) = limit \<and>
    (\<forall>t. gm_get (cv_running s) t \<noteq> None \<longrightarrow> t \<in> tq_TaskID ` set (cv_ffjobs s))"

definition deletions_ok :: "conv \<Rightarrow> bool" where
  "deletions_ok s \<longleftrightarrow> distinct (map tq_InputPath (cv_deletions s)) \<and>
    (\<forall>p. gm_get (cv_pending s) p \<noteq> None \<longleftrightarrow> p \<in> tq_InputPath ` set (cv_deletions s)) \<and>
    (\<forall>q \<in> set (cv_deletions s). tq_DeleteSource q \<and> tq_InputPath q \<noteq> tq_OutputPath q)"

definition conv_ok :: "nat \<Rightarrow> conv \<Rightarrow> bool" where
  "conv_ok limit s \<longleftrightarrow> queue_ok ProviderCloudConvert (cv_cloud s) \<and> queue_ok ProviderFFmpeg (cv_ffmpeg s) \<and>
    cloud_jobs_ok s \<and> ff_jobs_ok limit s \<and> deletions_ok s"

text \<open>The operations on a queue keep it well-formed.\<close>

lemma queue_ok_delete: "queue_ok P b \<Longrightarrow> queue_ok P (snd (db_Delete k b))"
proof -
  assume ok: "queue_ok P b"
  obtain r b' where d: "db_Delete k b = (r, b')" by (cases "db_Delete k b")
  have "stored_in b' = (if r = None then (stored_in b)(k := None) else stored_in b)"
    using bk.del_done [of k b b'] bk.del_failed [of k b _ b'] d by (cases r) auto
  then show ?thesis using ok bucket_ok_kept(2) [of b k] d by (auto simp: queue_ok_def split: if_splits)
qed

lemma queue_ok_put:
  "queue_ok P b \<Longrightarrow> tq_TaskID q = k \<Longrightarrow> tq_Provider q = P \<Longrightarrow> queue_ok P (snd (db_Put k q b))"
proof -
  assume ok: "queue_ok P b" "tq_TaskID q = k" "tq_Provider q = P"
  obtain r b' where d: "db_Put k q b = (r, b')" by (cases "db_Put k q b")
  have "stored_in b' = (if r = None then (stored_in b)(k \<mapsto> q) else stored_in b)"
    using bk.put_done [of k q b b'] bk.put_failed [of k q b _ b'] d by (cases r) auto
  moreover have "r = None \<Longrightarrow> k \<noteq> []"
    using d by (auto simp: db_Put_def db_Update_def bbolt_Put_def split: if_splits)
  ultimately show ?thesis using ok bucket_ok_kept(1) [of b k q] d by (auto simp: queue_ok_def split: if_splits)
qed

lemma queue_ok_retry: "queue_ok P b \<Longrightarrow> queue_ok P (snd (WithRetry n (db_Delete k) b))"
  unfolding WithRetry_def by (rule retry_keeps) (rule queue_ok_delete)

text \<open>An operation of the cloudconvert manager that leaves everything else as it is.\<close>

definition cloud_frame :: "conv \<Rightarrow> conv \<Rightarrow> bool" where
  "cloud_frame s s' \<longleftrightarrow> cv_ffmpeg s' = cv_ffmpeg s \<and> cv_handling s' = cv_handling s \<and> cv_jobs s' = cv_jobs s \<and>
    cv_running s' = cv_running s \<and> cv_ffjobs s' = cv_ffjobs s \<and> cv_slots s' = cv_slots s \<and> cv_pending s' = cv_pending s \<and>
    cv_deletions s' = cv_deletions s \<and> (queue_ok ProviderCloudConvert (cv_cloud s) \<longrightarrow> queue_ok ProviderCloudConvert (cv_cloud s'))"

lemma frame_refl [simp]: "cloud_frame s s"
  by (simp add: cloud_frame_def)

lemma frame_trans: "cloud_frame s t \<Longrightarrow> cloud_frame t u \<Longrightarrow> cloud_frame s u"
  by (auto simp: cloud_frame_def)

lemma frame_ok: "cloud_frame s s' \<Longrightarrow> conv_ok m s \<Longrightarrow> conv_ok m s'"
  by (auto simp: cloud_frame_def conv_ok_def cloud_jobs_ok_def ff_jobs_ok_def deletions_ok_def)

lemma frame_log [simp]:
  "cloud_frame s (metric cfg e t) = cloud_frame s t" "cloud_frame s (cloud_refreshGaugeMetrics cfg t) = cloud_frame s t"
  "cloud_frame s (webhookConvertSucceeded cfg q t) = cloud_frame s t"
  "cloud_frame (metric cfg e t) s = cloud_frame t s"
  "cloud_frame s (cloud_updateGaugeMetrics cfg qs t) = cloud_frame s t"
  by (simp_all add: cloud_frame_def)

lemma frame_cloud_Enqueue: "cloud_Enqueue cfg uuid i out f d s = Some (r, s') \<Longrightarrow> cloud_frame s s'"
proof -
  assume run: "cloud_Enqueue cfg uuid i out f d s = Some (r, s')"
  have put: "queue_ok ProviderCloudConvert b \<Longrightarrow> db_Put u (new_task ProviderCloudConvert u i fmt out f d fs) b = (x, b') \<Longrightarrow>
      queue_ok ProviderCloudConvert b'" for u fmt fs b x b'
    using queue_ok_put [of ProviderCloudConvert b "new_task ProviderCloudConvert u i fmt out f d fs" u] by (simp add: new_task_def)
  show ?thesis
    using run put by (auto simp: cloud_Enqueue_def Let_def cloud_frame_def split: option.splits prod.splits)
qed

lemma frame_cloud_delete: "cloud_delete tid s = (r, s') \<Longrightarrow> cloud_frame s s'"
  using queue_ok_retry [of ProviderCloudConvert "cv_cloud s" 3 tid]
  by (auto simp: cloud_delete_def cloud_frame_def split: prod.splits)

lemma frame_cloud_Cancel: "cloud_Cancel cfg remote tid s = (r, s') \<Longrightarrow> cloud_frame s s'"
  using queue_ok_delete [of ProviderCloudConvert "cv_cloud s" tid]
  by (auto simp: cloud_Cancel_def Let_def cloud_frame_def split: sum.splits option.splits if_splits prod.splits)

lemma frame_handleFailed: "handleFailed cfg remote uuid q s = Some (r, s') \<Longrightarrow> cloud_frame s s'"
proof -
  assume run: "handleFailed cfg remote uuid q s = Some (r, s')"
  show ?thesis
  proof (cases "IsFileExists (tq_InputPath q) (cv_files s)")
    case False
    then show ?thesis using run frame_cloud_delete by (auto simp: handleFailed_def)
  next
    case True
    then obtain r1 s1 where enq: "cloud_Enqueue cfg uuid (tq_InputPath q) (tq_OutputPath q) (tq_OutputFormat q) (tq_DeleteSource q) s = Some (r1, s1)"
      using run by (auto simp: handleFailed_def split: option.splits)
    obtain r2 s2 where del: "cloud_delete (tq_TaskID q) s1 = (r2, s2)" by (cases "cloud_delete (tq_TaskID q) s1")
    note f = frame_trans [OF frame_cloud_Enqueue [OF enq] frame_cloud_delete [OF del]]
    have "s' = s1 \<or> s' = s2 \<or> (\<exists>t x. cloud_Cancel cfg remote t s2 = (x, s'))"
      using run True enq del by (auto simp: handleFailed_def split: sum.splits option.splits) (metis prod.collapse)
    then show ?thesis using frame_cloud_Enqueue [OF enq] f frame_trans [OF f frame_cloud_Cancel] by blast
  qed
qed

lemma frame_submitTask: "submitTask cfg env q s = (r, s') \<Longrightarrow> tq_Provider q = ProviderCloudConvert \<Longrightarrow> cloud_frame s s'"
proof -
  assume run: "submitTask cfg env q s = (r, s')" and provider: "tq_Provider q = ProviderCloudConvert"
  obtain r1 s1 where url: "getOrCreatePresignedURL (ce_parses env) (ce_generate env) (ce_absolute env) (tq_InputPath q) s = (r1, s1)"
    by (cases "getOrCreatePresignedURL (ce_parses env) (ce_generate env) (ce_absolute env) (tq_InputPath q) s")
  have f1: "cloud_frame s s1"
    using url by (auto simp: getOrCreatePresignedURL_def cloud_frame_def split: option.splits if_splits)
  have f2: "cloud_frame t t'" if "submit_commit cfg remote q c x t = (y, t')" for remote c x t t' y
  proof -
    let ?q = "q\<lparr>tq_TaskID := x, tq_ConvertTaskID := c\<rparr>"
    obtain d b where d: "db_Update (\<lambda>m. bbolt_Put x ?q (gm_del (tq_TaskID q) m)) (cv_cloud t) = (d, b)"
      by (cases "db_Update (\<lambda>m. bbolt_Put x ?q (gm_del (tq_TaskID q) m)) (cv_cloud t)")
    have "queue_ok ProviderCloudConvert (cv_cloud t) \<longrightarrow> queue_ok ProviderCloudConvert b"
    proof
      assume ok: "queue_ok ProviderCloudConvert (cv_cloud t)"
      from d show "queue_ok ProviderCloudConvert b"
      proof (cases rule: db_Update_cases)
        case (done' m)
        then have "bk_data b = gm_put x ?q (gm_del (tq_TaskID q) (bk_data (cv_cloud t)))" "x \<noteq> []"
          by (auto simp: bbolt_Put_def split: if_splits)
        then show ?thesis using ok provider by (auto simp: queue_ok_def)
      next
        case (failed e)
        then show ?thesis using ok by (simp add: queue_ok_def)
      qed
    qed
    then show ?thesis using that d by (auto simp: submit_commit_def cloud_frame_def Let_def split: option.splits if_splits)
  qed
  show ?thesis using run url f1 frame_trans [OF f1 f2] by (auto simp: submitTask_def split: sum.splits option.splits)
qed

text \<open>Scheduling and running deletions.\<close>

lemma deletions_schedule: "deletions_ok s \<Longrightarrow> deletions_ok (Schedule q s)"
  by (auto simp: deletions_ok_def Schedule_def)

lemma remove1_image_distinct:
  "distinct (map f xs) \<Longrightarrow> x \<in> set xs \<Longrightarrow> f ` set (remove1 x xs) = f ` set xs - {f x} \<and> distinct (map f (remove1 x xs))"
proof (induction xs)
  case (Cons y ys)
  show ?case
  proof (cases "y = x")
    case True
    then show ?thesis using Cons.prems by auto
  next
    case False
    then have x: "x \<in> set ys" using Cons.prems by simp
    then have "f y \<noteq> f x" using Cons.prems(1) by (metis imageI list.map(2) distinct.simps(2) list.set_map)
    moreover have "set (remove1 x ys) \<subseteq> set ys" by (rule set_remove1_subset)
    ultimately show ?thesis using Cons.IH x Cons.prems(1) False by auto
  qed
qed simp

lemma deletions_run: "deletions_ok s \<Longrightarrow> q \<in> set (cv_deletions s) \<Longrightarrow> deletions_ok (run_deletion mark answers q s)"
  using remove1_image_distinct [of tq_InputPath "cv_deletions s" q] set_remove1_subset [of q "cv_deletions s"]
  by (auto simp: deletions_ok_def run_deletion_def simp del: set_remove1_eq)

text \<open>The steps of the cloudconvert manager.\<close>

lemma ok_cloud_visit:
  assumes ok: "conv_ok m s" and provider: "tq_Provider q = ProviderCloudConvert"
  shows "conv_ok m (cloud_visit cfg env answer actives q s)"
proof (cases "tq_ConvertTaskID q = []")
  case True
  obtain r s' where sub: "submitTask cfg env q s = (r, s')" by (cases "submitTask cfg env q s")
  have "cloud_frame s (cloud_visit cfg env answer actives q s)"
    using True sub frame_submitTask [OF sub provider] by (simp add: cloud_visit_def Let_def split: option.split)
  then show ?thesis using ok by (rule frame_ok)
next
  case False
  have marked: "gm_get (cv_handling s) t \<noteq> None \<longleftrightarrow> t \<in> (tq_TaskID \<circ> job_task) ` set (cv_jobs s)" for t
    using ok unfolding conv_ok_def cloud_jobs_ok_def by blast
  have unmark: "conv_ok m (s\<lparr>cv_handling := gm_del t (gm_put t () (cv_handling s))\<rparr>)" if "gm_get (cv_handling s) t = None" for t
  proof -
    have "\<forall>u. gm_get (gm_del t (gm_put t () (cv_handling s))) u = gm_get (cv_handling s) u" using that by simp
    then show ?thesis using ok by (simp add: conv_ok_def cloud_jobs_ok_def ff_jobs_ok_def deletions_ok_def)
  qed
  have spawn: "conv_ok m (s\<lparr>cv_handling := gm_put (tq_TaskID q) () (cv_handling s), cv_jobs := cv_jobs s @ [j]\<rparr>)"
    if "gm_get (cv_handling s) (tq_TaskID q) = None" "job_task j = q" for j
    using ok that marked [of "tq_TaskID q"] by (auto simp: conv_ok_def cloud_jobs_ok_def ff_jobs_ok_def deletions_ok_def)
  show ?thesis
  proof (cases "gm_get (cv_handling s) (tq_TaskID q)")
    case None
    show ?thesis
      using False unmark [OF None] spawn [OF None, of "FailedJob q"] spawn [OF None, of "FinishedJob q _"]
      by (auto simp: cloud_visit_def Let_def None split: task_answer.split)
  next
    case (Some u)
    then show ?thesis using False ok by (simp add: cloud_visit_def Let_def)
  qed
qed

lemma ok_cloud_tick: "conv_ok m s \<Longrightarrow> conv_ok m (cloud_tick cfg env answer actives s)"
proof (cases "cloud_ListInProgress s")
  case (Inr qs)
  assume ok: "conv_ok m s"
  have "\<forall>q \<in> set qs. tq_Provider q = ProviderCloudConvert"
    using Inr ok by (auto simp: cloud_ListInProgress_def db_ForEach_def db_View_def conv_ok_def queue_ok_def gm_ok_def gm_get_def
        split: if_splits)
  moreover have "conv_ok m (cloud_updateGaugeMetrics cfg qs s)" using ok by (rule frame_ok [rotated]) simp
  moreover have "conv_ok m (fold (cloud_visit cfg env answer actives) qs u)"
    if "\<forall>q \<in> set qs. tq_Provider q = ProviderCloudConvert" "conv_ok m u" for u qs
    using that by (induction qs arbitrary: u) (simp_all add: ok_cloud_visit)
  ultimately have "conv_ok m (fold (cloud_visit cfg env answer actives) qs (cloud_updateGaugeMetrics cfg qs s))" by blast
  then show ?thesis using Inr by (simp add: cloud_tick_def)
qed (simp add: cloud_tick_def)

lemma frame_handleFinished:
  assumes "handleFinished cfg env q files s = Some (r, s')"
  shows "cloud_frame s s'"
proof (cases "choose_file q files")
  case (Some c)
  show ?thesis
  proof (cases c)
    case (Inr f)
    obtain ok1 s1 where dl: "downloadExportedFile env (rf_URL f) (tq_OutputPath q) s = (ok1, s1)"
      by (cases "downloadExportedFile env (rf_URL f) (tq_OutputPath q) s")
    obtain ok2 s2 where val: "validateDownloadedOutputSize env q s1 = (ok2, s2)" by (cases "validateDownloadedOutputSize env q s1")
    have f1: "cloud_frame s s1"
      using dl by (auto simp: downloadExportedFile_def cloud_frame_def split: prod.splits option.splits)
    have f2: "cloud_frame s s2"
      using val f1 by (auto simp: validateDownloadedOutputSize_def cloud_frame_def split: if_splits)
    have f3: "cloud_frame s (s2\<lparr>cv_urls := u\<rparr>)" for u using f2 by (simp add: cloud_frame_def)
    show ?thesis
      using assms Some Inr dl val f1 frame_trans [OF f2 frame_handleFailed] frame_trans [OF f3 frame_cloud_delete]
      by (cases ok1; cases ok2) (auto simp: handleFinished_def)
  qed (use assms Some in \<open>simp add: handleFinished_def\<close>)
qed (use assms in \<open>simp add: handleFinished_def\<close>)

text \<open>When a goroutine ends, it and its mark go together.\<close>

lemma ok_job_ends:
  assumes ok: "conv_ok m s" and j: "j \<in> set (cv_jobs s)"
    and frame: "cloud_frame (s\<lparr>cv_jobs := remove1 j (cv_jobs s)\<rparr>) s'"
  shows "conv_ok m (s'\<lparr>cv_handling := gm_del (tq_TaskID (job_task j)) (cv_handling s')\<rparr>)"
proof -
  note r = remove1_image_distinct [of "tq_TaskID \<circ> job_task" "cv_jobs s" j]
  have jobs: "distinct (map (tq_TaskID \<circ> job_task) (cv_jobs s))"
    "\<And>t. gm_get (cv_handling s) t \<noteq> None \<longleftrightarrow> t \<in> (tq_TaskID \<circ> job_task) ` set (cv_jobs s)"
    using ok unfolding conv_ok_def cloud_jobs_ok_def by blast+
  have "cv_jobs s' = remove1 j (cv_jobs s)" "cv_handling s' = cv_handling s" using frame by (simp_all add: cloud_frame_def)
  then have "cloud_jobs_ok (s'\<lparr>cv_handling := gm_del (tq_TaskID (job_task j)) (cv_handling s')\<rparr>)"
    using r [OF jobs(1) j] jobs(2) by (simp add: cloud_jobs_ok_def) 
  then show ?thesis using ok frame by (simp add: conv_ok_def cloud_frame_def ff_jobs_ok_def deletions_ok_def)
qed

lemma ok_run_job:
  assumes ok: "conv_ok m s" and j: "j \<in> set (cv_jobs s)" and run: "run_job cfg env j s = Some s'"
  shows "conv_ok m s'"
proof (cases j)
  case (FailedJob q)
  let ?s = "s\<lparr>cv_jobs := remove1 j (cv_jobs s)\<rparr>"
  obtain r s1 where h: "handleFailed cfg (fe_remote env) (fe_uuid env) q (metric cfg (TaskFailed ProviderCloudConvert) ?s) = Some (r, s1)"
    and s': "s' = (cloud_refreshGaugeMetrics cfg s1)\<lparr>cv_handling := gm_del (tq_TaskID q) (cv_handling (cloud_refreshGaugeMetrics cfg s1))\<rparr>"
    using run FailedJob by (auto simp: asyncOnFailed_def split: option.splits)
  have "cloud_frame ?s (cloud_refreshGaugeMetrics cfg s1)" using frame_handleFailed [OF h] by simp
  from ok_job_ends [OF ok j this] show ?thesis using FailedJob s' by simp
next
  case (FinishedJob q files)
  let ?s = "s\<lparr>cv_jobs := remove1 j (cv_jobs s)\<rparr>"
  obtain r s1 where h: "handleFinished cfg env q files ?s = Some (r, s1)"
    using run FinishedJob by (auto simp: asyncOnFinished_def split: option.splits)
  note f = frame_handleFinished [OF h]
  show ?thesis
  proof (cases r)
    case (Some e)
    then show ?thesis using run FinishedJob h ok_job_ends [OF ok j, of "cloud_refreshGaugeMetrics cfg (metric cfg (TaskFailed ProviderCloudConvert) s1)"] f
      by (simp add: asyncOnFinished_def Let_def)
  next
    case None
    let ?s2 = "webhookConvertSucceeded cfg q (metric cfg (TaskFinished ProviderCloudConvert) s1)"
    have "conv_ok m (?s2\<lparr>cv_handling := gm_del (tq_TaskID q) (cv_handling ?s2)\<rparr>)"
      using ok_job_ends [OF ok j, of ?s2] f FinishedJob by simp
    then have "conv_ok m (Schedule q (?s2\<lparr>cv_handling := gm_del (tq_TaskID q) (cv_handling ?s2)\<rparr>))"
      using deletions_schedule by (simp add: conv_ok_def cloud_jobs_ok_def ff_jobs_ok_def)
    moreover have "Schedule q (?s2\<lparr>cv_handling := gm_del (tq_TaskID q) (cv_handling ?s2)\<rparr>) =
        (Schedule q ?s2)\<lparr>cv_handling := gm_del (tq_TaskID q) (cv_handling ?s2)\<rparr>"
      by (simp add: Schedule_def)
    ultimately have "conv_ok m ((Schedule q ?s2)\<lparr>cv_handling := gm_del (tq_TaskID q) (cv_handling ?s2)\<rparr>)" by simp
    moreover have "s' = (cloud_refreshGaugeMetrics cfg (Schedule q ?s2))\<lparr>cv_handling := gm_del (tq_TaskID q) (cv_handling ?s2)\<rparr>"
      using run FinishedJob h None by (simp add: asyncOnFinished_def Let_def)
    moreover have "cloud_frame (t\<lparr>cv_handling := h\<rparr>) ((cloud_refreshGaugeMetrics cfg t)\<lparr>cv_handling := h\<rparr>)" for t h
      by (simp add: cloud_frame_def)
    ultimately show ?thesis using frame_ok by blast
  qed
qed

text \<open>The steps of the local manager, and the requests.\<close>

lemma queue_ff_delete:
  "ff_delete tid s = (r, s') \<Longrightarrow> queue_ok ProviderFFmpeg (cv_ffmpeg s) \<Longrightarrow> queue_ok ProviderFFmpeg (cv_ffmpeg s')"
  using queue_ok_retry [of ProviderFFmpeg "cv_ffmpeg s" 3 tid] by (auto simp: ff_delete_def split: prod.splits)

lemma ok_ff_delete:
  assumes "conv_ok m s" and "ff_delete tid s = (r, s')"
  shows "conv_ok m s'"
proof -
  obtain b where b: "s' = s\<lparr>cv_ffmpeg := b\<rparr>" using ff_delete_only [of tid s] assms(2) by auto
  then show ?thesis using assms(1) queue_ff_delete [OF assms(2)]
    by (simp add: conv_ok_def cloud_jobs_ok_def ff_jobs_ok_def deletions_ok_def)
qed

lemma ok_log: "conv_ok m (s\<lparr>cv_log := l\<rparr>) = conv_ok m s"
  by (simp add: conv_ok_def cloud_jobs_ok_def ff_jobs_ok_def deletions_ok_def)

lemma ok_keeps [simp]:
  "conv_ok m (metric cfg e s) = conv_ok m s" "conv_ok m (ff_updateGaugeMetrics cfg s) = conv_ok m s"
  "conv_ok m (webhookConvertSucceeded cfg q s) = conv_ok m s" "conv_ok m (s\<lparr>cv_files := fs\<rparr>) = conv_ok m s"
  "conv_ok m (s\<lparr>cv_cooldowns := c\<rparr>) = conv_ok m s"
  by (simp_all add: conv_ok_def cloud_jobs_ok_def ff_jobs_ok_def deletions_ok_def)

lemma ok_schedule: "conv_ok m s \<Longrightarrow> conv_ok m (Schedule q s)"
  using deletions_schedule by (simp add: conv_ok_def cloud_jobs_ok_def ff_jobs_ok_def)

lemma ok_ff_visit: "ff_visit cfg now q s = Some s' \<Longrightarrow> conv_ok m s \<Longrightarrow> conv_ok m s'"
proof -
  assume run: "ff_visit cfg now q s = Some s'" and ok: "conv_ok m s"
  let ?s = "s\<lparr>cv_cooldowns := gm_del (tq_TaskID q) (cv_cooldowns s)\<rparr>"
  have ok1: "conv_ok m ?s" using ok by simp
  have start: "conv_ok m (?s\<lparr>cv_slots := cv_slots s - 1, cv_running := gm_put (tq_TaskID q) () (cv_running s), cv_ffjobs := cv_ffjobs s @ [q]\<rparr>)"
    if "cv_slots s \<noteq> 0"
    using ok that by (auto simp: conv_ok_def cloud_jobs_ok_def ff_jobs_ok_def deletions_ok_def)
  obtain r s2 where d: "ff_delete (tq_TaskID q) ?s = (r, s2)" by (cases "ff_delete (tq_TaskID q) ?s")
  have started: "conv_ok m ((ff_updateGaugeMetrics cfg (?s\<lparr>cv_slots := cv_slots s - 1, cv_running := gm_put (tq_TaskID q) () (cv_running s)\<rparr>))
      \<lparr>cv_ffjobs := cv_ffjobs s @ [q]\<rparr>)" if "cv_slots s \<noteq> 0"
    using start [OF that] by (simp add: conv_ok_def cloud_jobs_ok_def ff_jobs_ok_def deletions_ok_def)
  show ?thesis
    using run ok ok_ff_delete [OF ok1 d] started d
    by (auto simp: ff_visit_def Let_def split: if_splits option.splits)
qed

lemma ok_ff_tick: "conv_ok m s \<Longrightarrow> conv_ok m (ff_tick cfg now actives s)"
proof -
  assume ok: "conv_ok m s"
  have "conv_ok m (ff_visits cfg now qs u)" if "conv_ok m u" for qs u
    using that by (induction qs arbitrary: u) (auto split: option.split dest: ok_ff_visit)
  then show ?thesis using ok by (simp add: ff_tick_def Let_def split: sum.split)
qed

text \<open>The goroutine of a conversion, apart from the end of the goroutine itself.\<close>

definition async_body :: "conv_config \<Rightarrow> process_env \<Rightarrow> int \<Rightarrow> TaskQueue \<Rightarrow> conv \<Rightarrow> conv" where
  "async_body cfg env now q s =
    (case processTask env q (cv_files s) of (r, fs) \<Rightarrow>
      let s = s\<lparr>cv_files := fs\<rparr> in
      if r \<noteq> ProcOk
      then (metric cfg (TaskFailed ProviderFFmpeg) s)\<lparr>cv_cooldowns := gm_put (tq_TaskID q) (now + cc_ffInterval cfg * 1000000000 * 2) (cv_cooldowns s)\<rparr>
      else case ff_delete (tq_TaskID q) (metric cfg (TaskFinished ProviderFFmpeg) s) of
        (Some _, s) \<Rightarrow> s
      | (None, s) \<Rightarrow> Schedule q (webhookConvertSucceeded cfg q (ff_updateGaugeMetrics cfg s)))"

lemma async_split:
  "asyncProcessTask cfg env now q s = ff_updateGaugeMetrics cfg ((async_body cfg env now q s)
    \<lparr>cv_slots := cv_slots (async_body cfg env now q s) + 1, cv_running := gm_del (tq_TaskID q) (cv_running (async_body cfg env now q s))\<rparr>)"
  by (simp add: asyncProcessTask_def async_body_def Let_def split: prod.split)

lemma schedule_only: "\<exists>p d. Schedule q s = s\<lparr>cv_pending := p, cv_deletions := d\<rparr>"
  by (intro exI [where x = "cv_pending (Schedule q s)"] exI [where x = "cv_deletions (Schedule q s)"]) (simp add: Schedule_def)

lemma webhook_only: "\<exists>l. webhookConvertSucceeded cfg q s = s\<lparr>cv_log := l\<rparr>"
  by (rule exI [where x = "cv_log (webhookConvertSucceeded cfg q s)"]) (simp add: webhookConvertSucceeded_def)

lemma async_body_frame:
  "\<exists>fs l b c p d. async_body cfg env now q s = s\<lparr>cv_files := fs, cv_log := l, cv_ffmpeg := b, cv_cooldowns := c, cv_pending := p, cv_deletions := d\<rparr>
    \<and> (queue_ok ProviderFFmpeg (cv_ffmpeg s) \<longrightarrow> queue_ok ProviderFFmpeg b)
    \<and> (deletions_ok s \<longrightarrow> deletions_ok (s\<lparr>cv_pending := p, cv_deletions := d\<rparr>))"
proof -
  obtain r fs where p: "processTask env q (cv_files s) = (r, fs)" by (cases "processTask env q (cv_files s)")
  obtain l1 where m1: "metric cfg (TaskFailed ProviderFFmpeg) (s\<lparr>cv_files := fs\<rparr>) = s\<lparr>cv_files := fs, cv_log := l1\<rparr>"
    using metric_only [of cfg "TaskFailed ProviderFFmpeg" "s\<lparr>cv_files := fs\<rparr>"] by auto
  obtain l2 where m2: "metric cfg (TaskFinished ProviderFFmpeg) (s\<lparr>cv_files := fs\<rparr>) = s\<lparr>cv_files := fs, cv_log := l2\<rparr>"
    using metric_only [of cfg "TaskFinished ProviderFFmpeg" "s\<lparr>cv_files := fs\<rparr>"] by auto
  let ?s2 = "s\<lparr>cv_files := fs, cv_log := l2\<rparr>"
  obtain e s3 where d: "ff_delete (tq_TaskID q) ?s2 = (e, s3)" by (cases "ff_delete (tq_TaskID q) ?s2")
  obtain b where b: "s3 = ?s2\<lparr>cv_ffmpeg := b\<rparr>" using ff_delete_only [of "tq_TaskID q" ?s2] d by auto
  have qb: "queue_ok ProviderFFmpeg (cv_ffmpeg s) \<longrightarrow> queue_ok ProviderFFmpeg b" using queue_ff_delete [OF d] b by simp
  obtain l3 where w: "webhookConvertSucceeded cfg q (ff_updateGaugeMetrics cfg s3) = s3\<lparr>cv_log := l3\<rparr>"
  proof -
    obtain l4 where l4: "ff_updateGaugeMetrics cfg s3 = s3\<lparr>cv_log := l4\<rparr>" using ff_gauges_only by blast
    obtain l5 where "webhookConvertSucceeded cfg q (s3\<lparr>cv_log := l4\<rparr>) = s3\<lparr>cv_log := l4\<rparr>\<lparr>cv_log := l5\<rparr>" using webhook_only by blast
    then show thesis using that [of l5] l4 by simp
  qed
  obtain pd dl where sch: "Schedule q (s3\<lparr>cv_log := l3\<rparr>) = s3\<lparr>cv_log := l3, cv_pending := pd, cv_deletions := dl\<rparr>"
    using schedule_only [of q "s3\<lparr>cv_log := l3\<rparr>"] by auto
  have dok: "deletions_ok s \<longrightarrow> deletions_ok (s\<lparr>cv_pending := pd, cv_deletions := dl\<rparr>)"
  proof -
    have "deletions_ok (s3\<lparr>cv_log := l3\<rparr>) = deletions_ok s" unfolding b deletions_ok_def by simp
    moreover have "deletions_ok (s3\<lparr>cv_log := l3, cv_pending := pd, cv_deletions := dl\<rparr>) = deletions_ok (s\<lparr>cv_pending := pd, cv_deletions := dl\<rparr>)"
      unfolding deletions_ok_def by simp
    ultimately show ?thesis using deletions_schedule [of "s3\<lparr>cv_log := l3\<rparr>" q] unfolding sch by blast
  qed
  show ?thesis
  proof (cases "r = ProcOk")
    case False
    then show ?thesis using p m1
      by (intro exI [where x = fs] exI [where x = l1] exI [where x = "cv_ffmpeg s"] exI [where x = "gm_put (tq_TaskID q) (now + cc_ffInterval cfg * 1000000000 * 2) (cv_cooldowns s)"]
          exI [where x = "cv_pending s"] exI [where x = "cv_deletions s"]) (simp add: async_body_def Let_def)
  next
    case True
    show ?thesis
    proof (cases e)
      case None
      then show ?thesis using p m2 True d w sch b qb dok
        by (intro exI [where x = fs] exI [where x = l3] exI [where x = b] exI [where x = "cv_cooldowns s"]
            exI [where x = pd] exI [where x = dl]) (simp add: async_body_def Let_def)
    next
      case (Some err)
      then show ?thesis using p m2 True d b qb
        by (intro exI [where x = fs] exI [where x = l2] exI [where x = b] exI [where x = "cv_cooldowns s"]
            exI [where x = "cv_pending s"] exI [where x = "cv_deletions s"]) (simp add: async_body_def Let_def)
    qed
  qed
qed

lemma ok_ff_job:
  assumes ok: "conv_ok m s" and q: "q \<in> set (cv_ffjobs s)"
  shows "conv_ok m (run_ffjob cfg env now q s)"
proof -
  let ?s = "s\<lparr>cv_ffjobs := remove1 q (cv_ffjobs s)\<rparr>"
  obtain fs l b c p d where body: "async_body cfg env now q ?s =
      ?s\<lparr>cv_files := fs, cv_log := l, cv_ffmpeg := b, cv_cooldowns := c, cv_pending := p, cv_deletions := d\<rparr>"
    and qb: "queue_ok ProviderFFmpeg (cv_ffmpeg ?s) \<longrightarrow> queue_ok ProviderFFmpeg b"
    and dok: "deletions_ok ?s \<longrightarrow> deletions_ok (?s\<lparr>cv_pending := p, cv_deletions := d\<rparr>)"
    using async_body_frame [of cfg env now q ?s] by blast
  let ?t = "?s\<lparr>cv_files := fs, cv_log := l, cv_ffmpeg := b, cv_cooldowns := c, cv_pending := p, cv_deletions := d,
    cv_slots := cv_slots s + 1, cv_running := gm_del (tq_TaskID q) (cv_running s)\<rparr>"
  have "length (remove1 q (cv_ffjobs s)) + 1 = length (cv_ffjobs s)"
    using q length_pos_if_in_set [OF q] by (simp add: length_remove1)
  moreover have "t \<in> tq_TaskID ` set (remove1 q (cv_ffjobs s))" if "t \<in> tq_TaskID ` set (cv_ffjobs s)" "t \<noteq> tq_TaskID q" for t
    using that by (metis (no_types, lifting) image_iff in_set_remove1)
  ultimately have "ff_jobs_ok m ?t" using ok by (auto simp: conv_ok_def ff_jobs_ok_def)
  moreover have "queue_ok ProviderFFmpeg b" using ok qb by (simp add: conv_ok_def)
  moreover have "deletions_ok ?t" using ok dok by (simp add: conv_ok_def deletions_ok_def)
  ultimately have "conv_ok m ?t" using ok by (simp add: conv_ok_def cloud_jobs_ok_def)
  then show ?thesis using body by (simp add: run_ffjob_def async_split)
qed

lemma ok_ff_requests:
  "ff_Enqueue cfg uuid i out f del s = Some (r, s') \<Longrightarrow> conv_ok m s \<Longrightarrow> conv_ok m s'"
  "ff_Cancel cfg tid s = (e, s'') \<Longrightarrow> conv_ok m s \<Longrightarrow> conv_ok m s''"
proof -
  have swap: "conv_ok m (s\<lparr>cv_ffmpeg := b\<rparr>)" if "conv_ok m s" "queue_ok ProviderFFmpeg b" for b
    using that by (simp add: conv_ok_def cloud_jobs_ok_def ff_jobs_ok_def deletions_ok_def)
  have put: "queue_ok ProviderFFmpeg (cv_ffmpeg s) \<Longrightarrow> db_Put u (new_task ProviderFFmpeg u i fmt out f del fs) (cv_ffmpeg s) = (x, b) \<Longrightarrow>
      queue_ok ProviderFFmpeg b" for u fmt fs x b
    using queue_ok_put [of ProviderFFmpeg "cv_ffmpeg s" "new_task ProviderFFmpeg u i fmt out f del fs" u] by (simp add: new_task_def)
  show "ff_Enqueue cfg uuid i out f del s = Some (r, s') \<Longrightarrow> conv_ok m s \<Longrightarrow> conv_ok m s'"
  proof -
    assume run: "ff_Enqueue cfg uuid i out f del s = Some (r, s')" and ok: "conv_ok m s"
    then have "queue_ok ProviderFFmpeg (cv_ffmpeg s)" by (simp add: conv_ok_def)
    then show "conv_ok m s'" using run ok swap [OF ok] put by (auto simp: ff_Enqueue_def Let_def split: option.splits prod.splits)
  qed
  show "ff_Cancel cfg tid s = (e, s'') \<Longrightarrow> conv_ok m s \<Longrightarrow> conv_ok m s''"
  proof -
    assume run: "ff_Cancel cfg tid s = (e, s'')" and ok: "conv_ok m s"
    obtain x b where d: "db_Delete tid (cv_ffmpeg s) = (x, b)" by (cases "db_Delete tid (cv_ffmpeg s)")
    have "queue_ok ProviderFFmpeg b" using queue_ok_delete [of ProviderFFmpeg "cv_ffmpeg s" tid] ok d by (simp add: conv_ok_def)
    then have "conv_ok m (s\<lparr>cv_running := gm_del tid (cv_running s), cv_ffmpeg := b\<rparr>)"
      using ok by (auto simp: conv_ok_def cloud_jobs_ok_def ff_jobs_ok_def deletions_ok_def split: if_splits)
    then show "conv_ok m s''" using run d by (auto simp: ff_Cancel_def Let_def split: option.splits)
  qed
qed

lemma ok_cancel_in: "cancel_in ms cfg remote tid s = (r, s') \<Longrightarrow> conv_ok m s \<Longrightarrow> conv_ok m s'"
proof (induction ms arbitrary: s)
  case (Cons k ms)
  obtain e s1 where c: "manager_Cancel cfg remote k tid s = (e, s1)" by (cases "manager_Cancel cfg remote k tid s")
  have "conv_ok m s1"
    using c Cons.prems(2) frame_ok [OF frame_cloud_Cancel] ok_ff_requests(2) by (auto simp: manager_Cancel_def split: if_splits)
  then show ?case using Cons.IH [of s1] Cons.prems(1) c by (auto split: option.splits if_splits)
qed simp

lemma ok_svc_Enqueue: "svc_Enqueue cfg absolute streams uuid p format del s = Some (r, s') \<Longrightarrow> conv_ok m s \<Longrightarrow> conv_ok m s'"
  using frame_ok [OF frame_cloud_Enqueue] ok_ff_requests(1)
  by (auto simp: svc_Enqueue_def Let_def split: option.splits if_splits prod.splits)

lemma ok_step: "conv_step cfg s s' \<Longrightarrow> conv_ok m s \<Longrightarrow> conv_ok m s'"
proof (induction rule: conv_step.induct)
  case (enqueue absolute streams uuid p format del s r s')
  then show ?case by (rule ok_svc_Enqueue)
next
  case (cancel order remote tid s r s')
  then show ?case using ok_cancel_in [of order cfg remote tid s r s' m] by (auto simp: svc_Cancel_def split: option.splits)
next
  case (cloud_round s env answer actives)
  then show ?case by (rule ok_cloud_tick)
next
  case (cloud_job j s fenv s')
  then show ?case using ok_run_job by blast
next
  case (ff_round s now actives)
  then show ?case by (rule ok_ff_tick)
next
  case (ff_job q s penv now)
  then show ?case using ok_ff_job by blast
next
  case (deletion q s mark answers)
  have keep: "cv_cloud (run_deletion mark answers q s) = cv_cloud s" "cv_ffmpeg (run_deletion mark answers q s) = cv_ffmpeg s"
    "cv_handling (run_deletion mark answers q s) = cv_handling s" "cv_jobs (run_deletion mark answers q s) = cv_jobs s"
    "cv_running (run_deletion mark answers q s) = cv_running s" "cv_ffjobs (run_deletion mark answers q s) = cv_ffjobs s"
    "cv_slots (run_deletion mark answers q s) = cv_slots s" by (simp_all add: run_deletion_def)
  show ?case using deletion deletions_run [of s q mark answers]
    by (simp add: conv_ok_def cloud_jobs_ok_def ff_jobs_ok_def keep)
next
  case (closing s)
  then show ?case by (simp add: conv_ok_def cloud_jobs_ok_def ff_jobs_ok_def deletions_ok_def queue_ok_def db_Close_def)
qed simp

definition start_conv :: "files \<Rightarrow> (string, TaskQueue) gomap \<Rightarrow> (string, TaskQueue) gomap \<Rightarrow> bool list \<Rightarrow> bool list \<Rightarrow> nat \<Rightarrow> conv" where
  "start_conv fs cloud ffmpeg commits commits' limit =
    \<lparr>cv_files = fs, cv_cloud = OpenBucket cloud commits, cv_ffmpeg = OpenBucket ffmpeg commits', cv_handling = [], cv_jobs = [],
     cv_urls = [], cv_running = [], cv_ffjobs = [], cv_slots = limit, cv_cooldowns = [], cv_pending = [], cv_deletions = [], cv_log = []\<rparr>"



section \<open>Requests that go wrong\<close>

text \<open>Asked first, the local manager claims to have cancelled a task of the other one.\<close>

lemma ff_Cancel_unknown:
  assumes "\<not> bk_closed (cv_ffmpeg s)" and "bk_commits (cv_ffmpeg s) = []"
  shows "\<exists>s1. ff_Cancel cfg tid s = (None, s1) \<and> cv_cloud s1 = cv_cloud s"
  using assms by (simp add: ff_Cancel_def db_Delete_def db_Update_def Let_def)

lemma cloud_Cancel_pending:
  assumes "\<not> bk_closed (cv_cloud s)" and "bk_commits (cv_cloud s) = []"
    and "stored_in (cv_cloud s) tid = Some q" and "tq_ConvertTaskID q = []"
  shows "\<exists>s2. cloud_Cancel cfg remote tid s = (None, s2) \<and> stored_in (cv_cloud s2) tid = None"
  using assms by (simp add: cloud_Cancel_def db_Delete_def db_Update_def db_Get_def db_View_def Let_def)

lemma cancel_depends_on_order:
  assumes "cc_cloud cfg" "cc_ffmpeg cfg" and "\<not> bk_closed (cv_cloud s)" "\<not> bk_closed (cv_ffmpeg s)"
    and "bk_commits (cv_cloud s) = []" "bk_commits (cv_ffmpeg s) = []"
    and "stored_in (cv_cloud s) tid = Some q" and "tq_ConvertTaskID q = []"
  shows "\<exists>s1. svc_Cancel [ProviderFFmpeg, ProviderCloudConvert] cfg remote tid s = (None, s1) \<and> stored_in (cv_cloud s1) tid = Some q"
    and "\<exists>s2. svc_Cancel [ProviderCloudConvert, ProviderFFmpeg] cfg remote tid s = (None, s2) \<and> stored_in (cv_cloud s2) tid = None"
proof -
  have m: "managers cfg \<noteq> []" and ne: "ProviderFFmpeg \<noteq> ProviderCloudConvert"
    using assms(1) by (simp_all add: managers_def ProviderCloudConvert_def ProviderFFmpeg_def)
  show "\<exists>s1. svc_Cancel [ProviderFFmpeg, ProviderCloudConvert] cfg remote tid s = (None, s1) \<and> stored_in (cv_cloud s1) tid = Some q"
    using ff_Cancel_unknown [OF assms(4,6), of cfg tid] assms(7) m ne
    by (auto simp: svc_Cancel_def checkAvailableManagers_def manager_Cancel_def)
  show "\<exists>s2. svc_Cancel [ProviderCloudConvert, ProviderFFmpeg] cfg remote tid s = (None, s2) \<and> stored_in (cv_cloud s2) tid = None"
    using cloud_Cancel_pending [OF assms(3,5,7,8), of cfg remote] m ne
    by (auto simp: svc_Cancel_def checkAvailableManagers_def manager_Cancel_def)
qed

text \<open>A source below the threshold, or any source with a negative threshold, needs the local manager.\<close>

lemma enqueue_without_manager_panics:
  assumes "cc_cloud cfg" "\<not> cc_ffmpeg cfg" and "absolute p = Some p'" and "stat_size p' (cv_files s) = Some n"
    and "n < cc_threshold cfg \<or> cc_threshold cfg < 0" and "\<not> cc_noConvertIfInvalid cfg"
  shows "svc_Enqueue cfg absolute streams uuid p format del s = None"
  using assms by (auto simp: svc_Enqueue_def checkAvailableManagers_def managers_def shoulduseCloudConvert_def Let_def split: prod.split)

lemma list_in_member: "list_in ms s = Inr qs \<Longrightarrow> m \<in> set ms \<Longrightarrow> \<exists>qs'. manager_list m s = Inr qs' \<and> set qs' \<subseteq> set qs"
proof (induction ms arbitrary: qs)
  case (Cons k ms)
  obtain q1 q2 where q: "manager_list k s = Inr q1" "list_in ms s = Inr q2" "qs = q1 @ q2"
    using Cons.prems(1) by (auto split: sum.splits)
  show ?case
  proof (cases "m = k")
    case False
    then have "m \<in> set ms" using Cons.prems(2) by simp
    from Cons.IH [OF q(2) this] show ?thesis using q(3) by auto
  qed (use q in simp)
qed simp

lemma listed_stored: "db_ForEach b = Inr kvs \<Longrightarrow> stored_in b k = Some q \<Longrightarrow> q \<in> set (map snd kvs)"
  by (auto simp: db_ForEach_def db_View_def gm_get_def split: if_splits dest!: map_of_SomeD intro: image_eqI [where x = "(k, q)"])

text \<open>A path that is not in the queue is the source of no stored task.\<close>

lemma not_in_queue:
  assumes "IsInQueue order cfg clean p s = Inr False" and "set order = set (managers cfg)"
  shows "cc_cloud cfg \<Longrightarrow> stored_in (cv_cloud s) k = Some q \<Longrightarrow> clean (tq_InputPath q) \<noteq> clean p"
    and "cc_ffmpeg cfg \<Longrightarrow> stored_in (cv_ffmpeg s) k = Some q \<Longrightarrow> clean (tq_InputPath q) \<noteq> clean p"
proof -
  obtain qs where qs: "list_in order s = Inr qs" "\<forall>q \<in> set qs. clean (tq_InputPath q) \<noteq> clean p"
  proof (cases "svc_ListInProgress order cfg s")
    case (Inr qs)
    have listed: "list_in order s = Inr qs" using Inr by (simp add: svc_ListInProgress_def split: option.splits)
    have "\<not> list_ex (\<lambda>q. clean (tq_InputPath q) = clean p) qs" using assms(1) Inr by (simp add: IsInQueue_def)
    then have "\<forall>q \<in> set qs. clean (tq_InputPath q) \<noteq> clean p" by (simp add: list_ex_iff)
    with listed show thesis by (rule that)
  qed (use assms(1) in \<open>simp add: IsInQueue_def\<close>)
  have ne: "ProviderFFmpeg \<noteq> ProviderCloudConvert" by (simp add: ProviderFFmpeg_def ProviderCloudConvert_def)
  show "clean (tq_InputPath q) \<noteq> clean p" if "cc_cloud cfg" "stored_in (cv_cloud s) k = Some q"
  proof -
    have "ProviderCloudConvert \<in> set order" using assms(2) that(1) by (simp add: managers_def)
    from list_in_member [OF qs(1) this] obtain kvs where kvs: "db_ForEach (cv_cloud s) = Inr kvs" "set (map snd kvs) \<subseteq> set qs"
      by (auto simp: manager_list_def cloud_ListInProgress_def split: sum.splits)
    have "q \<in> set qs" using listed_stored [OF kvs(1) that(2)] kvs(2) by (rule rev_subsetD)
    then show ?thesis by (rule bspec [OF qs(2)])
  qed
  show "clean (tq_InputPath q) \<noteq> clean p" if "cc_ffmpeg cfg" "stored_in (cv_ffmpeg s) k = Some q"
  proof -
    have "ProviderFFmpeg \<in> set order" using assms(2) that(1) by (simp add: managers_def)
    from list_in_member [OF qs(1) this] obtain kvs where kvs: "db_ForEach (cv_ffmpeg s) = Inr kvs" "set (map snd kvs) \<subseteq> set qs"
      using ne by (auto simp: manager_list_def ff_ListInProgress_def split: sum.splits)
    have "q \<in> set qs" using listed_stored [OF kvs(1) that(2)] kvs(2) by (rule rev_subsetD)
    then show ?thesis by (rule bspec [OF qs(2)])
  qed
qed

end
