(* ===== verification/MediaPath.thy ===== *)
theory MediaPath
  imports GoPath GoMap StreamSelect
begin

text \<open>
  Paths below the output directory (\<open>internal/services/path/path.go\<close>): \<open>filepath.Clean\<close>, \<open>Abs\<close>, \<open>Join\<close> and \<open>Rel\<close>
  with slash as separator, the check that keeps a requested path inside the directory, and the signed links to
  media, whose tokens are signed and read by a library that is a parameter here.
\<close>

section \<open>Clean paths\<close>

text \<open>The elements of a path with \<open>.\<close> and empty ones dropped and \<open>..\<close> taking back the element before it; a
  rooted path has nothing above its root. The accumulator holds the elements kept so far, the last one first.\<close>

fun clean_elements :: "bool \<Rightarrow> string list \<Rightarrow> string list \<Rightarrow> string list" where
  "clean_elements rooted acc [] = rev acc"
| "clean_elements rooted acc (c # cs) =
    (if c = [] \<or> c = ''.'' then clean_elements rooted acc cs
     else if c = ''..'' then
       (case acc of
          [] \<Rightarrow> clean_elements rooted (if rooted then [] else [c]) cs
        | a # rest \<Rightarrow> clean_elements rooted (if a = ''..'' then c # acc else rest) cs)
     else clean_elements rooted (c # acc) cs)"

definition is_rooted :: "string \<Rightarrow> bool" where
  "is_rooted p \<longleftrightarrow> p \<noteq> [] \<and> hd p = CHR ''/''"

definition elements :: "string \<Rightarrow> string list" where
  "elements p = clean_elements (is_rooted p) [] (Split CHR ''/'' p)"

definition path_of :: "string list \<Rightarrow> string" where
  "path_of es = CHR ''/'' # JoinStrings CHR ''/'' es"

definition Clean :: "string \<Rightarrow> string" where
  "Clean p =
    (if is_rooted p then path_of (elements p)
     else if elements p = [] then ''.'' else JoinStrings CHR ''/'' (elements p))"

text \<open>\<open>filepath.Join\<close> of two elements: empty ones are ignored.\<close>

definition JoinPath :: "string \<Rightarrow> string \<Rightarrow> string" where
  "JoinPath a b = (if a = [] \<and> b = [] then [] else Clean (JoinStrings CHR ''/'' (filter (\<lambda>x. x \<noteq> []) [a, b])))"

text \<open>\<open>filepath.Abs\<close>; the working directory is \<open>None\<close> when it cannot be found out.\<close>

definition Abs :: "string option \<Rightarrow> string \<Rightarrow> string option" where
  "Abs cwd p = (if is_rooted p then Some (Clean p) else map_option (\<lambda>d. JoinPath d p) cwd)"

text \<open>\<open>filepath.Rel\<close> of two clean rooted paths.\<close>

fun strip_common :: "string list \<Rightarrow> string list \<Rightarrow> string list \<times> string list" where
  "strip_common (a # as) (b # bs) = (if a = b then strip_common as bs else (a # as, b # bs))"
| "strip_common as bs = (as, bs)"

definition Rel :: "string \<Rightarrow> string \<Rightarrow> string" where
  "Rel base target =
    (case strip_common (elements base) (elements target) of
       ([], []) \<Rightarrow> ''.''
     | (up, down) \<Rightarrow> JoinStrings CHR ''/'' (replicate (length up) ''..'' @ down))"

section \<open>The service\<close>

datatype path_error = ErrInvalidFilePath | ErrAccessDenied | ErrTokenExpired | ErrInvalidToken | AbsError | SignError

definition ValidatePath :: "string option \<Rightarrow> string \<Rightarrow> string \<Rightarrow> path_error + string" where
  "ValidatePath cwd outputDir p =
    (case Abs cwd outputDir of
       None \<Rightarrow> Inl ErrInvalidFilePath
     | Some baseAbs \<Rightarrow>
        (case Abs cwd (Clean (JoinPath baseAbs p)) of
           None \<Rightarrow> Inl ErrInvalidFilePath
         | Some full \<Rightarrow>
            if \<not> HasPrefix full (baseAbs @ ''/'') \<and> full \<noteq> baseAbs then Inl ErrAccessDenied else Inr full))"

definition GetRelativePath :: "string option \<Rightarrow> string \<Rightarrow> string \<Rightarrow> path_error + string" where
  "GetRelativePath cwd outputDir full =
    (case Abs cwd outputDir of
       None \<Rightarrow> Inl AbsError
     | Some baseAbs \<Rightarrow>
        (case Abs cwd full of
           None \<Rightarrow> Inl AbsError
         | Some fullAbs \<Rightarrow> let r = Rel baseAbs fullAbs in Inr (if r = ''.'' then [] else r)))"

text \<open>The signed token binds a relative path to a time in seconds; \<open>sign\<close> and \<open>parse\<close> belong to the library. The
  clock and durations are in nanoseconds.\<close>

definition unix :: "int \<Rightarrow> int" where
  "unix t = t div 1000000000"

record claims =
  cl_FilePath :: string
  cl_Exp :: int

definition verifyPresignedToken :: "('t \<Rightarrow> claims option) \<Rightarrow> int \<Rightarrow> 't \<Rightarrow> path_error + claims" where
  "verifyPresignedToken parse now token =
    (case parse token of
       None \<Rightarrow> Inl ErrInvalidToken
     | Some c \<Rightarrow> if unix now > cl_Exp c then Inl ErrTokenExpired else Inr c)"

definition InspectPresignedToken :: "('t \<Rightarrow> claims option) \<Rightarrow> int \<Rightarrow> 't \<Rightarrow> path_error + string \<times> int" where
  "InspectPresignedToken parse now token =
    (case verifyPresignedToken parse now token of Inl e \<Rightarrow> Inl e | Inr c \<Rightarrow> Inr (cl_FilePath c, cl_Exp c))"

text \<open>\<open>url.PathEscape\<close>: unreserved characters and \<open>$ & + = : @\<close> stay, every other byte becomes a percent sign and
  two hexadecimal digits.\<close>

definition hex_digit :: "nat \<Rightarrow> char" where
  "hex_digit d = char_of (if d < 10 then 48 + d else 55 + d)"

definition escapes :: "char \<Rightarrow> bool" where
  "escapes c \<longleftrightarrow> (let n = of_char c :: nat in
    \<not> (48 \<le> n \<and> n \<le> 57 \<or> 65 \<le> n \<and> n \<le> 90 \<or> 97 \<le> n \<and> n \<le> 122) \<and> c \<notin> set ''-_.~$&+=:@'')"

definition PathEscape :: "string \<Rightarrow> string" where
  "PathEscape s = concat (map (\<lambda>c. if escapes c
      then [CHR ''%'', hex_digit ((of_char c :: nat) div 16), hex_digit ((of_char c :: nat) mod 16)] else [c]) s)"

definition TrimRight :: "char \<Rightarrow> string \<Rightarrow> string" where
  "TrimRight c s = rev (dropWhile (\<lambda>x. x = c) (rev s))"

definition PresignedMediaURL :: "string option \<Rightarrow> string \<Rightarrow> string \<Rightarrow> (string \<Rightarrow> bool) \<Rightarrow> string \<Rightarrow> string \<Rightarrow> string \<Rightarrow>
    path_error + string" where
  "PresignedMediaURL cwd outputDir publicBaseURL absolute full route token =
    (case GetRelativePath cwd outputDir full of
       Inl e \<Rightarrow> Inl e
     | Inr rel \<Rightarrow>
        (let rp = route @ JoinStrings CHR ''/'' (map PathEscape (Split CHR ''/'' (Clean rel)));
             fallback = rp @ ''?presigned='' @ token;
             base = TrimSpace publicBaseURL
         in Inr (if base = [] then fallback
                 else if \<not> absolute base then fallback
                 else TrimRight CHR ''/'' base @ rp @ ''?presigned='' @ token)))"

definition MintPresignedMediaURL :: "string option \<Rightarrow> string \<Rightarrow> string \<Rightarrow> (string \<Rightarrow> bool) \<Rightarrow> (claims \<Rightarrow> string option) \<Rightarrow>
    int \<Rightarrow> int \<Rightarrow> string \<Rightarrow> string \<Rightarrow> path_error + string \<times> string" where
  "MintPresignedMediaURL cwd outputDir publicBaseURL absolute sign now expireAfter full route =
    (case GetRelativePath cwd outputDir full of
       Inl e \<Rightarrow> Inl e
     | Inr rel \<Rightarrow>
        (case sign \<lparr>cl_FilePath = rel, cl_Exp = unix (now + expireAfter)\<rparr> of
           None \<Rightarrow> Inl SignError
         | Some token \<Rightarrow>
            (case PresignedMediaURL cwd outputDir publicBaseURL absolute full route token of
               Inl e \<Rightarrow> Inl e
             | Inr url \<Rightarrow> Inr (url, token))))"

section \<open>Clean paths are lists of plain names\<close>

definition plain :: "string \<Rightarrow> bool" where
  "plain e \<longleftrightarrow> e \<noteq> [] \<and> e \<noteq> ''.'' \<and> e \<noteq> ''..'' \<and> CHR ''/'' \<notin> set e"

lemma Split_elements: "\<forall>e \<in> set (Split c s). c \<notin> set e"
  by (induction s) (auto split: list.splits)

lemma clean_rooted_plain:
  "list_all plain acc \<Longrightarrow> \<forall>e \<in> set cs. CHR ''/'' \<notin> set e \<Longrightarrow> list_all plain (clean_elements True acc cs)"
proof (induction cs arbitrary: acc)
  case (Cons c cs)
  then have IH: "list_all plain a \<Longrightarrow> list_all plain (clean_elements True a cs)" for a by simp
  consider "c = [] \<or> c = ''.''" | "c = ''..''" | "plain c" using Cons.prems by (auto simp: plain_def)
  then show ?case
  proof cases
    case 1
    then show ?thesis using IH Cons.prems by simp
  next
    case 2
    show ?thesis
    proof (cases acc)
      case (Cons a rest)
      then have "a \<noteq> ''..''" "list_all plain rest" using \<open>list_all plain acc\<close> by (simp_all add: plain_def)
      then show ?thesis using IH [of rest] 2 Cons by simp
    qed (use IH [of "[]"] 2 in simp)
  next
    case 3
    then have "c \<noteq> []" "c \<noteq> ''.''" "c \<noteq> ''..''" by (simp_all add: plain_def)
    then show ?thesis using IH [of "c # acc"] 3 Cons.prems by simp
  qed
qed simp

lemma elements_plain: "is_rooted p \<Longrightarrow> list_all plain (elements p)"
  using Split_elements by (simp add: elements_def clean_rooted_plain)

lemma clean_plain: "list_all plain cs \<Longrightarrow> clean_elements rooted acc (cs @ ds) = clean_elements rooted (rev cs @ acc) ds"
  by (induction cs arbitrary: acc) (auto simp: plain_def)

lemma JoinStrings_Cons: "es \<noteq> [] \<Longrightarrow> JoinStrings c (e # es) = e @ c # JoinStrings c es"
  by (cases es) simp_all

lemma rooted_path_of [simp]: "is_rooted (path_of es)"
  by (simp add: path_of_def is_rooted_def)

lemma Split_join_append:
  "ps \<noteq> [] \<Longrightarrow> \<forall>p \<in> set ps. c \<notin> set p \<Longrightarrow> Split c (JoinStrings c ps @ c # t) = ps @ Split c t"
  by (induction c ps rule: JoinStrings.induct) (simp_all add: Split_append)

lemma Split_path_of: "list_all plain es \<Longrightarrow> Split CHR ''/'' (path_of es) = (if es = [] then [[], []] else [] # es)"
  by (simp add: path_of_def Split_JoinStrings list_all_iff plain_def)

lemma Split_path_of_append:
  "list_all plain es \<Longrightarrow> Split CHR ''/'' (path_of es @ CHR ''/'' # t) = (if es = [] then [[], []] else [] # es) @ Split CHR ''/'' t"
  by (simp add: path_of_def Split_join_append list_all_iff plain_def)

lemma elements_path_of [simp]: "list_all plain es \<Longrightarrow> elements (path_of es) = es"
  using clean_plain [of es True "[]" "[]"] by (auto simp: elements_def Split_path_of)

lemma Clean_rooted: "is_rooted p \<Longrightarrow> Clean p = path_of (elements p)"
  by (simp add: Clean_def)

lemma Clean_path_of [simp]: "list_all plain es \<Longrightarrow> Clean (path_of es) = path_of es"
  by (simp add: Clean_rooted)

text \<open>What joining a request to a directory comes to.\<close>

definition below :: "string list \<Rightarrow> string \<Rightarrow> string list" where
  "below bs p = clean_elements True (rev bs) (Split CHR ''/'' p)"

lemma below_plain: "list_all plain bs \<Longrightarrow> list_all plain (below bs p)"
  using Split_elements by (simp add: below_def clean_rooted_plain)

lemma JoinPath_below: "list_all plain bs \<Longrightarrow> JoinPath (path_of bs) p = path_of (below bs p)"
proof (cases "p = []")
  case True
  assume bs: "list_all plain bs"
  have "path_of bs \<noteq> []" by (simp add: path_of_def)
  then show ?thesis using True bs by (simp add: JoinPath_def below_def)
next
  case False
  assume bs: "list_all plain bs"
  have "path_of bs \<noteq> []" by (simp add: path_of_def)
  then have eq: "JoinPath (path_of bs) p = Clean (path_of bs @ CHR ''/'' # p)" using False by (simp add: JoinPath_def)
  have "is_rooted (path_of bs @ CHR ''/'' # p)" by (simp add: is_rooted_def path_of_def)
  moreover have "elements (path_of bs @ CHR ''/'' # p) = below bs p"
    unfolding elements_def below_def
    using calculation Split_path_of_append [OF bs, of p] clean_plain [OF bs, of True "[]" "Split CHR ''/'' p"] by auto
  ultimately show ?thesis using eq by (simp add: Clean_rooted)
qed

lemma below_join: "list_all plain bs \<Longrightarrow> list_all plain es \<Longrightarrow> below bs (JoinStrings CHR ''/'' es) = bs @ es"
proof (cases "es = []")
  case False
  assume bs: "list_all plain bs" and es: "list_all plain es"
  have "Split CHR ''/'' (JoinStrings CHR ''/'' es) = es" using es False by (intro Split_JoinStrings) (auto simp: list_all_iff plain_def)
  then show ?thesis using clean_plain [OF es, of True "rev bs" "[]"] by (simp add: below_def)
qed (simp add: below_def)

lemma path_of_inject: "list_all plain as \<Longrightarrow> list_all plain bs \<Longrightarrow> path_of as = path_of bs \<longleftrightarrow> as = bs"
  using elements_path_of by metis

text \<open>The textual prefix test compares elements, except for the root directory, below which it finds nothing.\<close>

lemma prefix_elements:
  assumes "list_all plain bs" and "list_all plain fs"
  shows "HasPrefix (path_of fs) (path_of bs @ ''/'') \<or> path_of fs = path_of bs \<longleftrightarrow>
    (if bs = [] then fs = [] else \<exists>es. fs = bs @ es)"
proof (cases "bs = []")
  case True
  have "\<not> HasPrefix (path_of fs) ''//''"
  proof (cases fs)
    case (Cons f fs')
    then have "hd f \<noteq> CHR ''/''" "f \<noteq> []" using assms(2) by (auto simp: plain_def) (metis hd_in_set)
    then show ?thesis using Cons by (cases f; cases fs') (auto simp: HasPrefix_def path_of_def)
  qed (simp add: HasPrefix_def path_of_def)
  moreover have "path_of bs @ ''/'' = ''//''" using True by (simp add: path_of_def)
  ultimately show ?thesis using True path_of_inject [OF assms(2), of "[]"] by simp
next
  case False
  have "(\<exists>es. fs = bs @ es) \<longleftrightarrow> HasPrefix (path_of fs) (path_of bs @ ''/'') \<or> path_of fs = path_of bs"
  proof
    assume "\<exists>es. fs = bs @ es"
    then obtain es where es: "fs = bs @ es" by blast
    have "JoinStrings c (xs @ ys) = JoinStrings c xs @ c # JoinStrings c ys" if "xs \<noteq> []" "ys \<noteq> []" for c and xs ys :: "string list"
      using that by (induction c xs rule: JoinStrings.induct) (simp_all add: JoinStrings_Cons)
    then show "HasPrefix (path_of fs) (path_of bs @ ''/'') \<or> path_of fs = path_of bs"
      using es False by (cases "es = []") (auto simp: path_of_def HasPrefix_def)
  next
    assume "HasPrefix (path_of fs) (path_of bs @ ''/'') \<or> path_of fs = path_of bs"
    then show "\<exists>es. fs = bs @ es"
    proof
      assume "HasPrefix (path_of fs) (path_of bs @ ''/'')"
      then obtain t where t: "path_of fs = path_of bs @ CHR ''/'' # t"
        using TrimPrefix_idem [of "path_of fs" "path_of bs @ ''/''"] by (metis append.assoc append_Cons append_Nil)
      have "fs \<noteq> []" using t False by (auto simp: path_of_def)
      then have "fs = bs @ Split CHR ''/'' t"
        using Split_path_of [OF assms(2)] Split_path_of_append [OF assms(1), of t] t False by simp
      then show ?thesis by blast
    qed (use path_of_inject [OF assms(2,1)] in auto)
  qed
  then show ?thesis using False by simp
qed

section \<open>Requests stay inside the directory\<close>

lemma Abs_plain:
  assumes "Abs cwd p = Some a" and "\<And>d. cwd = Some d \<Longrightarrow> is_rooted d"
  obtains es where "a = path_of es" "list_all plain es"
proof -
  have join: "is_rooted (JoinStrings CHR ''/'' (filter (\<lambda>x. x \<noteq> []) [d, p]))" if "is_rooted d" for d
    using that by (cases d) (auto simp: is_rooted_def)
  have "is_rooted q \<Longrightarrow> Clean q = path_of (elements q) \<and> list_all plain (elements q)" for q
    by (simp add: Clean_rooted elements_plain)
  moreover have "\<exists>q. is_rooted q \<and> a = Clean q"
  proof (cases "is_rooted p")
    case False
    then obtain d where d: "cwd = Some d" "a = JoinPath d p" using assms(1) by (auto simp: Abs_def)
    then have "d \<noteq> []" using assms(2) by (auto simp: is_rooted_def)
    then show ?thesis using join [OF assms(2) [OF d(1)]] d(2) by (auto simp: JoinPath_def)
  qed (use assms(1) in \<open>auto simp: Abs_def\<close>)
  ultimately show thesis using that by blast
qed

lemma Abs_path_of [simp]: "list_all plain es \<Longrightarrow> Abs cwd (path_of es) = Some (path_of es)"
  by (simp add: Abs_def)

lemma ValidatePath_below:
  assumes "Abs cwd out = Some (path_of bs)" and "list_all plain bs"
  shows "ValidatePath cwd out p =
    (if (if bs = [] then below bs p = [] else \<exists>es. below bs p = bs @ es) then Inr (path_of (below bs p)) else Inl ErrAccessDenied)"
proof -
  note bp = below_plain [OF assms(2), of p]
  have "ValidatePath cwd out p = (if HasPrefix (path_of (below bs p)) (path_of bs @ ''/'') \<or> path_of (below bs p) = path_of bs
      then Inr (path_of (below bs p)) else Inl ErrAccessDenied)"
    using assms bp by (simp add: ValidatePath_def JoinPath_below)
  then show ?thesis unfolding prefix_elements [OF assms(2) bp] .
qed

lemma strip_common_append: "strip_common bs (bs @ es) = ([], es)"
  by (induction bs) (cases es, simp_all)

lemma GetRelativePath_below:
  assumes "Abs cwd out = Some (path_of bs)" and "list_all plain (bs @ es)"
  shows "GetRelativePath cwd out (path_of (bs @ es)) = Inr (JoinStrings CHR ''/'' es)"
proof -
  have "JoinStrings CHR ''/'' es \<noteq> ''.''" if "es \<noteq> []"
    using that assms(2) by (cases es; cases "tl es") (auto simp: plain_def append_eq_Cons_conv)
  then show ?thesis
    using assms by (cases es) (simp_all add: GetRelativePath_def Rel_def strip_common_append [of bs "[]", simplified] strip_common_append Let_def)
qed

lemma relative_form:
  assumes "ValidatePath cwd out p = Inr full" and "\<And>d. cwd = Some d \<Longrightarrow> is_rooted d"
  obtains bs es where "Abs cwd out = Some (path_of bs)" "full = path_of (bs @ es)" "list_all plain (bs @ es)"
    "GetRelativePath cwd out full = Inr (JoinStrings CHR ''/'' es)" "ValidatePath cwd out (JoinStrings CHR ''/'' es) = Inr full"
proof -
  obtain a where a: "Abs cwd out = Some a" using assms(1) by (auto simp: ValidatePath_def split: option.splits)
  obtain bs where bs: "a = path_of bs" "list_all plain bs" using Abs_plain [OF a assms(2)] by blast
  note base = a [unfolded bs(1)]
  obtain es where es: "below bs p = bs @ es" "full = path_of (bs @ es)"
    using assms(1) ValidatePath_below [OF base bs(2), of p] by (auto split: if_splits)
  have root: "bs = [] \<Longrightarrow> es = []"
    using assms(1) ValidatePath_below [OF base bs(2), of p] es(1) by (auto split: if_splits)
  have plain: "list_all plain (bs @ es)" using below_plain [OF bs(2), of p] es(1) by simp
  have "below bs (JoinStrings CHR ''/'' es) = bs @ es" using below_join [OF bs(2)] plain by simp
  then have "ValidatePath cwd out (JoinStrings CHR ''/'' es) = Inr full"
    using ValidatePath_below [OF base bs(2), of "JoinStrings CHR ''/'' es"] es(2) root by auto
  then show thesis using that base es(2) plain GetRelativePath_below [OF base plain] by blast
qed

text \<open>C29. Whatever a request asks for, a path that is accepted lies in the output directory: it consists of the
  elements of that directory followed by plain names, none of them empty, \<open>.\<close>, \<open>..\<close> or containing a slash. Its
  relative form is those names, and asking for the relative form leads to the same path again.\<close>

theorem validated_path_inside:
  assumes "ValidatePath cwd out p = Inr full" and "\<And>d. cwd = Some d \<Longrightarrow> is_rooted d"
  shows "\<exists>bs es. Abs cwd out = Some (path_of bs) \<and> full = path_of (bs @ es) \<and> list_all plain (bs @ es)
    \<and> GetRelativePath cwd out full = Inr (JoinStrings CHR ''/'' es)
    \<and> ValidatePath cwd out (JoinStrings CHR ''/'' es) = Inr full"
  using relative_form [OF assms] by metis

theorem validated_path_inside_witness:
  "\<exists>bs es. Abs (Some ''/app'') ''records'' = Some (path_of bs) \<and> ''/app/records/a-1/x.flv'' = path_of (bs @ es) \<and> list_all plain (bs @ es)
    \<and> GetRelativePath (Some ''/app'') ''records'' ''/app/records/a-1/x.flv'' = Inr (JoinStrings CHR ''/'' es)
    \<and> ValidatePath (Some ''/app'') ''records'' (JoinStrings CHR ''/'' es) = Inr ''/app/records/a-1/x.flv''"
proof (rule validated_path_inside)
  show "ValidatePath (Some ''/app'') ''records'' ''../records//./b/../a-1/x.flv'' = Inr ''/app/records/a-1/x.flv''" by code_simp
  show "\<And>d. Some ''/app'' = Some d \<Longrightarrow> is_rooted d" by (simp add: is_rooted_def)
qed

text \<open>A request that climbs out of the directory is refused.\<close>

lemma traversal_refused:
  assumes "Abs cwd out = Some (path_of bs)" and "list_all plain bs" and "bs \<noteq> []"
  shows "ValidatePath cwd out (''../'' @ p) = Inl ErrAccessDenied \<or> (\<exists>es. below (butlast bs) p = bs @ es)"
proof -
  have "below bs (''../'' @ p) = below (butlast bs) p"
    using assms(2,3) by (cases bs rule: rev_cases) (auto simp: below_def plain_def)
  then show ?thesis using ValidatePath_below [OF assms(1,2), of "''../'' @ p"] assms(3) by auto
qed

text \<open>With the root as output directory everything below it is refused.\<close>

lemma root_directory_denies:
  assumes "Abs cwd out = Some ''/''" and "below [] p \<noteq> []"
  shows "ValidatePath cwd out p = Inl ErrAccessDenied"
  using ValidatePath_below [of cwd out "[]" p] assms by (simp add: path_of_def)

section \<open>Links to media\<close>

text \<open>\<open>internal/services/media/media.go\<close>: links for playing and downloading are kept per route and path until five
  minutes before their end, links for sharing are made anew.\<close>

datatype media_error = MissingToken | PathMismatch | InvalidPurpose | Path path_error

definition renewMargin :: int where "renewMargin = 300000000000"

definition PurposeDownload :: string where "PurposeDownload = ''download''"
definition PurposePlayback :: string where "PurposePlayback = ''playback''"
definition PurposeShare :: string where "PurposeShare = ''share''"

definition routeFor :: "string \<Rightarrow> string option" where
  "routeFor purpose =
    (if purpose = PurposePlayback then Some ''/files/playback/''
     else if purpose = PurposeDownload \<or> purpose = PurposeShare then Some ''/files/download/''
     else None)"

text \<open>\<open>int64(d.Seconds())\<close> rounds towards zero.\<close>

definition whole_seconds :: "int \<Rightarrow> int" where
  "whole_seconds d = sgn d * (abs d div 1000000000)"

record link_env =
  le_cwd :: "string option"
  le_outputDir :: string
  le_publicURL :: string
  le_absolute :: "string \<Rightarrow> bool"
  le_sign :: "claims \<Rightarrow> string option"
  le_parse :: "string \<Rightarrow> claims option"

type_synonym link_pool = "(string \<times> string, string) gomap"

definition env_mint :: "link_env \<Rightarrow> int \<Rightarrow> int \<Rightarrow> string \<Rightarrow> string \<Rightarrow> path_error + string \<times> string" where
  "env_mint env = MintPresignedMediaURL (le_cwd env) (le_outputDir env) (le_publicURL env) (le_absolute env) (le_sign env)"

definition mint_pooled :: "link_env \<Rightarrow> int \<Rightarrow> int \<Rightarrow> string \<Rightarrow> string \<Rightarrow> link_pool \<Rightarrow>
    (media_error + string \<times> int) \<times> link_pool" where
  "mint_pooled env now expireAfter full route pool =
    (case env_mint env now expireAfter full route of
       Inl e \<Rightarrow> (Inl (Path e), pool)
     | Inr (url, token) \<Rightarrow> (Inr (url, whole_seconds expireAfter), gm_put (route, full) token pool))"

definition PresignedURL :: "link_env \<Rightarrow> int \<Rightarrow> string \<Rightarrow> string \<Rightarrow> int \<Rightarrow> link_pool \<Rightarrow>
    (media_error + string \<times> int) \<times> link_pool" where
  "PresignedURL env now full purpose expireAfter pool =
    (case routeFor purpose of
       None \<Rightarrow> (Inl InvalidPurpose, pool)
     | Some route \<Rightarrow>
        if purpose = PurposeShare then
          (case env_mint env now expireAfter full route of
             Inl e \<Rightarrow> (Inl (Path e), pool)
           | Inr (url, _) \<Rightarrow> (Inr (url, whole_seconds expireAfter), pool))
        else (case gm_get pool (route, full) of
           None \<Rightarrow> mint_pooled env now expireAfter full route pool
         | Some token \<Rightarrow>
            (case InspectPresignedToken (le_parse env) now token of
               Inl _ \<Rightarrow> mint_pooled env now expireAfter full route (gm_del (route, full) pool)
             | Inr (_, expiresAt) \<Rightarrow>
                let remaining = expiresAt * 1000000000 - now in
                if remaining > renewMargin then
                  (case PresignedMediaURL (le_cwd env) (le_outputDir env) (le_publicURL env) (le_absolute env) full route token of
                     Inl e \<Rightarrow> (Inl (Path e), pool)
                   | Inr url \<Rightarrow> (Inr (url, whole_seconds remaining), pool))
                else mint_pooled env now expireAfter full route (gm_del (route, full) pool))))"

definition normalizeRelPath :: "string \<Rightarrow> string" where
  "normalizeRelPath p = Clean (TrimPrefix p ''/'')"

definition AuthorizeToken :: "(string \<Rightarrow> claims option) \<Rightarrow> int \<Rightarrow> string \<Rightarrow> string \<Rightarrow> media_error option" where
  "AuthorizeToken parse now token reqPath =
    (if token = [] then Some MissingToken
     else case InspectPresignedToken parse now token of
       Inl e \<Rightarrow> Some (Path e)
     | Inr (tokenPath, _) \<Rightarrow> if normalizeRelPath tokenPath \<noteq> normalizeRelPath reqPath then Some PathMismatch else None)"

text \<open>Every pooled token stands for the file it is kept under.\<close>

definition pool_ok :: "link_env \<Rightarrow> link_pool \<Rightarrow> bool" where
  "pool_ok env pool \<longleftrightarrow> (\<forall>route full token. gm_get pool (route, full) = Some token \<longrightarrow>
    (\<exists>c rel. le_parse env token = Some c \<and> GetRelativePath (le_cwd env) (le_outputDir env) full = Inr rel \<and> cl_FilePath c = rel))"

lemma mint_claims:
  assumes "env_mint env now d full route = Inr (url, token)" and "\<And>c t. le_sign env c = Some t \<Longrightarrow> le_parse env t = Some c"
  shows "\<exists>rel. GetRelativePath (le_cwd env) (le_outputDir env) full = Inr rel \<and>
      le_parse env token = Some \<lparr>cl_FilePath = rel, cl_Exp = unix (now + d)\<rparr>"
    and "PresignedMediaURL (le_cwd env) (le_outputDir env) (le_publicURL env) (le_absolute env) full route token = Inr url"
  using assms by (auto simp: env_mint_def MintPresignedMediaURL_def split: sum.splits option.splits)

lemma pool_ok_mint:
  assumes "pool_ok env pool" and "\<And>c t. le_sign env c = Some t \<Longrightarrow> le_parse env t = Some c"
  shows "pool_ok env (snd (mint_pooled env now d full route pool))" and "pool_ok env (gm_del k pool)"
proof -
  show "pool_ok env (gm_del k pool)" using assms(1) by (cases k) (auto simp: pool_ok_def)
  show "pool_ok env (snd (mint_pooled env now d full route pool))"
  proof (cases "env_mint env now d full route")
    case (Inr ut)
    obtain url token where ut: "ut = (url, token)" by (cases ut)
    show ?thesis using assms(1) mint_claims(1) [OF Inr [unfolded ut] assms(2)] Inr ut
      by (auto simp: mint_pooled_def pool_ok_def)
  qed (use assms(1) in \<open>simp add: mint_pooled_def\<close>)
qed

text \<open>Links to a pooled file stay the same while they live long enough, and a pooled link is handed out only with
  more than the renewal margin left.\<close>

lemma pooled_link_reused:
  assumes "gm_get pool (route, full) = Some token" and "routeFor purpose = Some route" and "purpose \<noteq> PurposeShare"
    and "InspectPresignedToken (le_parse env) now token = Inr (rel, e)" and "e * 1000000000 - now > renewMargin"
  shows "snd (PresignedURL env now full purpose d pool) = pool"
    and "fst (PresignedURL env now full purpose d pool) = Inr (url, secs) \<Longrightarrow> secs \<ge> 300"
proof -
  show "snd (PresignedURL env now full purpose d pool) = pool"
    using assms by (simp add: PresignedURL_def Let_def split: sum.split)
  assume r: "fst (PresignedURL env now full purpose d pool) = Inr (url, secs)"
  define left where "left = e * 1000000000 - now"
  have "secs = whole_seconds left" using r assms by (auto simp: PresignedURL_def Let_def left_def split: sum.splits)
  moreover have "left > renewMargin" using assms(5) by (simp add: left_def)
  ultimately show "secs \<ge> 300" by (simp add: whole_seconds_def renewMargin_def)
qed

lemma share_link_leaves_pool: "snd (PresignedURL env now full PurposeShare d pool) = pool"
  by (auto simp: PresignedURL_def routeFor_def PurposeShare_def PurposePlayback_def PurposeDownload_def split: sum.split)

section \<open>A link opens its file and no other\<close>

text \<open>Cleaning a relative path first changes nothing about where it leads.\<close>

lemma clean_elements_append:
  "clean_elements r acc (xs @ ys) = clean_elements r (rev (clean_elements r acc xs)) ys"
  by (induction xs arbitrary: acc) (auto split: list.split)

lemma clean_again:
  "\<forall>a \<in> set acc. plain a \<or> a = ''..'' \<Longrightarrow> \<forall>c \<in> set cs. CHR ''/'' \<notin> set c \<Longrightarrow>
    clean_elements True base (clean_elements False acc cs) = clean_elements True base (rev acc @ cs)"
proof (induction cs arbitrary: acc)
  case (Cons c cs)
  have skip: "clean_elements True base (rev acc @ c # cs) = clean_elements True base (rev acc @ cs)" if "c = [] \<or> c = ''.''"
    using that by (simp add: clean_elements_append)
  consider "c = [] \<or> c = ''.''" | "c = ''..''" "acc = [] \<or> hd acc = ''..''" | a rest where "c = ''..''" "acc = a # rest" "a \<noteq> ''..''" | "plain c"
    using Cons.prems(2) by (cases acc) (auto simp: plain_def)
  then show ?case
  proof cases
    case 1
    then show ?thesis using Cons.IH [of acc] Cons.prems skip by auto
  next
    case 2
    then have "clean_elements False acc (c # cs) = clean_elements False (c # acc) cs" by (cases acc) auto
    then show ?thesis using Cons.IH [of "c # acc"] Cons.prems 2 by simp
  next
    case 3
    then have a: "plain a" using Cons.prems(1) by simp
    have "clean_elements True base (rev rest @ [a, ''..''] @ cs) = clean_elements True base (rev rest @ cs)"
      using a by (simp add: clean_elements_append [of True base "rev rest"] plain_def)
    then show ?thesis using Cons.IH [of rest] Cons.prems 3 by simp
  next
    case 4
    then have "clean_elements False acc (c # cs) = clean_elements False (c # acc) cs" by (simp add: plain_def)
    then show ?thesis using Cons.IH [of "c # acc"] Cons.prems 4 by simp
  qed
qed simp

lemma below_elements: "\<not> is_rooted q \<Longrightarrow> below bs q = clean_elements True (rev bs) (elements q)"
  using clean_again [of "[]" "Split CHR ''/'' q" "rev bs"] Split_elements by (simp add: below_def elements_def)

definition rel_element :: "string \<Rightarrow> bool" where
  "rel_element a \<longleftrightarrow> plain a \<or> a = ''..''"

lemma rel_elementD: "rel_element a \<Longrightarrow> CHR ''/'' \<notin> set a \<and> a \<noteq> [] \<and> a \<noteq> ''.''"
  by (auto simp: rel_element_def plain_def)

lemma relative_elements:
  "list_all rel_element acc \<Longrightarrow> \<forall>c \<in> set cs. CHR ''/'' \<notin> set c \<Longrightarrow> list_all rel_element (clean_elements r acc cs)"
proof (induction cs arbitrary: acc)
  case (Cons c cs)
  have IH: "list_all rel_element (clean_elements r a cs)" if "list_all rel_element a" for a
    using Cons.IH [OF that] Cons.prems(2) by simp
  consider "c = [] \<or> c = ''.''" | "c = ''..''" | "plain c" using Cons.prems(2) by (auto simp: plain_def)
  then show ?case
  proof cases
    case 1
    then show ?thesis using IH [OF Cons.prems(1)] by simp
  next
    case 2
    then have c: "rel_element c" by (simp add: rel_element_def)
    show ?thesis
    proof (cases acc)
      case Nil
      then show ?thesis using 2 c IH [of "if r then [] else [c]"] by (cases r) simp_all
    next
      case (Cons a rest)
      then show ?thesis using 2 c IH [of "if a = ''..'' then c # acc else rest"] Cons.prems \<open>list_all rel_element acc\<close> by (cases "a = ''..''") simp_all
    qed
  next
    case 3
    then have "c \<noteq> []" "c \<noteq> ''.''" "c \<noteq> ''..''" "rel_element c" by (simp_all add: plain_def rel_element_def)
    then show ?thesis using IH [of "c # acc"] Cons.prems(1) by simp
  qed
qed (simp add: list_all_iff)

lemma rel_elements: "list_all rel_element (elements p)"
  unfolding elements_def using Split_elements by (intro relative_elements) auto

lemma Split_relative:
  assumes "list_all rel_element es" and "es \<noteq> []"
  shows "Split CHR ''/'' (JoinStrings CHR ''/'' es) = es"
  using assms(2)
proof (rule Split_JoinStrings)
  show "\<forall>p \<in> set es. CHR ''/'' \<notin> set p" using assms(1) rel_elementD by (meson list_all_iff)
qed

lemma join_not_dot: "list_all rel_element es \<Longrightarrow> JoinStrings CHR ''/'' es \<noteq> ''.''"
proof (induction es rule: induct_list012)
  case (2 e)
  then show ?case using rel_elementD [of e] by simp
next
  case (3 e f es)
  then have "length (JoinStrings CHR ''/'' (e # f # es)) \<ge> 2" using rel_elementD [of e] by (cases e) simp_all
  moreover have "length ''.'' = 1" by simp
  ultimately show ?case by (metis Suc_1 not_less_eq_eq order_refl One_nat_def)
qed simp

lemma join_not_rooted: "list_all rel_element es \<Longrightarrow> \<not> is_rooted (JoinStrings CHR ''/'' es)"
proof (cases es)
  case (Cons e es')
  assume "list_all rel_element es"
  then have "CHR ''/'' \<notin> set e" "e \<noteq> []" using rel_elementD [of e] Cons by simp_all
  moreover have "hd (JoinStrings CHR ''/'' es) = hd e" using calculation(2) Cons by (cases es') simp_all
  ultimately show ?thesis by (metis hd_in_set is_rooted_def)
qed (simp add: is_rooted_def)

text \<open>Two relative paths with the same clean form lead to the same place.\<close>

lemma same_clean_same_place:
  assumes "Clean q = Clean r" and "\<not> is_rooted q" and "\<not> is_rooted r"
  shows "below bs q = below bs r"
proof -
  note dot = join_not_dot [OF rel_elements] join_not_dot [OF rel_elements, THEN not_sym]
  have eq: "(if elements q = [] then ''.'' else JoinStrings CHR ''/'' (elements q)) =
      (if elements r = [] then ''.'' else JoinStrings CHR ''/'' (elements r))"
    using assms by (simp only: Clean_def if_False)
  have "elements q = elements r"
  proof (cases "elements q = [] \<or> elements r = []")
    case True
    then show ?thesis using eq dot [of q] dot [of r] by (auto split: if_splits)
  next
    case False
    then have "JoinStrings CHR ''/'' (elements q) = JoinStrings CHR ''/'' (elements r)" using eq by simp
    then show ?thesis using Split_relative [OF rel_elements, of q] Split_relative [OF rel_elements, of r] False by metis
  qed
  then show ?thesis using below_elements assms(2,3) by simp
qed

lemma Clean_rooted_iff: "is_rooted (Clean p) \<longleftrightarrow> is_rooted p"
proof (cases "is_rooted p")
  case False
  have "\<not> is_rooted ''.''" by (simp add: is_rooted_def)
  then have "\<not> is_rooted (Clean p)" using False join_not_rooted [OF rel_elements, of p] by (simp only: Clean_def if_False) simp
  then show ?thesis using False by blast
qed (simp add: Clean_rooted)

lemma TrimPrefix_relative: "\<not> is_rooted p \<Longrightarrow> TrimPrefix p ''/'' = p"
  by (cases p) (simp_all add: TrimPrefix_def HasPrefix_def is_rooted_def)

lemma below_TrimPrefix: "below bs (TrimPrefix p ''/'') = below bs p"
proof (cases "is_rooted p")
  case True
  then obtain t where "p = CHR ''/'' # t" by (cases p) (auto simp: is_rooted_def)
  then show ?thesis by (simp add: TrimPrefix_def HasPrefix_def below_def)
qed (simp add: TrimPrefix_relative)

text \<open>C30. A signed link opens its file and no other: until its time is up the token minted for a file of the output
  directory is accepted for that file, a request it is accepted for leads to nothing but that file, and from
  then on it is refused. What is assumed of the signing library is that reading a token it signed gives back
  the claims, and that no token is empty.\<close>

theorem signed_link_opens_its_file:
  assumes "ValidatePath cwd out p = Inr full" and "\<And>d. cwd = Some d \<Longrightarrow> is_rooted d"
    and "MintPresignedMediaURL cwd out publicURL absolute sign now expireAfter full route = Inr (url, token)"
    and "\<And>c t. sign c = Some t \<Longrightarrow> parse t = Some c \<and> t \<noteq> []"
  shows "if unix now' \<le> unix (now + expireAfter)
    then (\<exists>rel. AuthorizeToken parse now' token rel = None \<and> ValidatePath cwd out rel = Inr full) \<and>
      (\<forall>req other. AuthorizeToken parse now' token req = None \<longrightarrow> ValidatePath cwd out req = Inr other \<longrightarrow> other = full)
    else AuthorizeToken parse now' token req = Some (Path ErrTokenExpired)"
proof -
  obtain bs es where be: "Abs cwd out = Some (path_of bs)" "full = path_of (bs @ es)" "list_all plain (bs @ es)"
    "GetRelativePath cwd out full = Inr (JoinStrings CHR ''/'' es)" "ValidatePath cwd out (JoinStrings CHR ''/'' es) = Inr full"
    using relative_form [OF assms(1,2)] by blast
  let ?rel = "JoinStrings CHR ''/'' es"
  have "sign \<lparr>cl_FilePath = ?rel, cl_Exp = unix (now + expireAfter)\<rparr> = Some token"
    using assms(3) be(4) by (auto simp: MintPresignedMediaURL_def split: option.splits sum.splits)
  from assms(4) [OF this] have token: "parse token = Some \<lparr>cl_FilePath = ?rel, cl_Exp = unix (now + expireAfter)\<rparr>" "token \<noteq> []" by auto
  have plain: "list_all plain es" "list_all plain bs" using be(3) by simp_all
  have rel: "\<not> is_rooted ?rel" "TrimPrefix ?rel ''/'' = ?rel"
  proof -
    show "\<not> is_rooted ?rel"
    proof (rule join_not_rooted)
      show "list_all rel_element es" using plain(1) by (simp add: list_all_iff rel_element_def)
    qed
    then show "TrimPrefix ?rel ''/'' = ?rel" by (rule TrimPrefix_relative)
  qed
  show ?thesis
  proof (cases "unix now' \<le> unix (now + expireAfter)")
    case True
    have "other = full" if auth: "AuthorizeToken parse now' token q = None" and valid: "ValidatePath cwd out q = Inr other" for q other
    proof -
      have norm: "Clean (TrimPrefix q ''/'') = Clean ?rel"
        using auth token True rel(2) by (simp add: AuthorizeToken_def InspectPresignedToken_def verifyPresignedToken_def normalizeRelPath_def split: if_splits)
      then have nr: "\<not> is_rooted (TrimPrefix q ''/'')" using Clean_rooted_iff rel(1) by metis
      have "below bs q = below bs (TrimPrefix q ''/'')" by (rule below_TrimPrefix [symmetric])
      also have "\<dots> = below bs ?rel" using norm nr rel(1) by (rule same_clean_same_place)
      also have "\<dots> = bs @ es" using below_join plain by simp
      finally have "below bs q = bs @ es" .
      then show "other = full" using valid ValidatePath_below [OF be(1) plain(2), of q] be(2) by (auto split: if_splits)
    qed
    moreover have "AuthorizeToken parse now' token ?rel = None"
      using token True by (simp add: AuthorizeToken_def InspectPresignedToken_def verifyPresignedToken_def)
    ultimately show ?thesis unfolding if_P [OF True] using be(5) by blast
  qed (use token in \<open>simp add: AuthorizeToken_def InspectPresignedToken_def verifyPresignedToken_def\<close>)
qed

theorem signed_link_opens_its_file_witness:
  "\<exists>rel. AuthorizeToken (\<lambda>t. if t = ''t'' then Some \<lparr>cl_FilePath = ''a-1/x.flv'', cl_Exp = 160\<rparr> else None) 120000000000 ''t'' rel = None
     \<and> ValidatePath (Some ''/app'') ''records'' rel = Inr ''/app/records/a-1/x.flv''"
proof -
  let ?sign = "\<lambda>c. if c = \<lparr>cl_FilePath = ''a-1/x.flv'', cl_Exp = 160\<rparr> then Some ''t'' else None"
  let ?parse = "\<lambda>t. if t = ''t'' then Some \<lparr>cl_FilePath = ''a-1/x.flv'', cl_Exp = 160\<rparr> else None"
  have valid: "ValidatePath (Some ''/app'') ''records'' ''a-1/x.flv'' = Inr ''/app/records/a-1/x.flv''" by code_simp
  have mint: "MintPresignedMediaURL (Some ''/app'') ''records'' [] (\<lambda>_. True) ?sign 100000000000 60000000000 ''/app/records/a-1/x.flv'' ''/files/download/''
      = Inr (''/files/download/a-1/x.flv?presigned=t'', ''t'')" by code_simp
  have root: "is_rooted d" if "Some ''/app'' = Some d" for d using that by (auto simp: is_rooted_def)
  have sign: "?parse t = Some c \<and> t \<noteq> []" if "?sign c = Some t" for c t using that by (auto split: if_splits)
  have "unix 120000000000 \<le> unix (100000000000 + 60000000000)" by (simp add: unix_def)
  note opens = signed_link_opens_its_file [OF valid root mint sign, of "120000000000", unfolded if_P [OF this]]
  show ?thesis by (rule conjunct1 [OF opens])
qed

end
