(* ===== verification/Files.thy ===== *)
theory Files
  imports MediaPath ConvertService RecorderQueries Subscribe
begin

text \<open>
  Browsing and deleting recordings (\<open>internal/services/file\<close>, \<open>internal/controllers/file/file.go\<close>,
  \<open>IsRecordingUnder\<close> of the recorder). The file system is a map from the elements of a path to a file with its
  size or a directory; a listing is read in one step. An HTTP answer is its status.
\<close>

section \<open>Directories\<close>

datatype node = FileNode int | DirNode

type_synonym tree = "(string list, node) gomap"

datatype file_error = NotExist | NotDirectory | IsDirectory | NotEmpty | UnsupportedMedia | PathErr path_error

record dir_entry =
  de_Name :: string
  de_Node :: node

definition entry_in :: "string list \<Rightarrow> string list \<times> node \<Rightarrow> dir_entry option" where
  "entry_in es e =
    (if fst e \<noteq> [] \<and> butlast (fst e) = es then Some \<lparr>de_Name = List.last (fst e), de_Node = snd e\<rparr> else None)"

definition os_ReadDir :: "tree \<Rightarrow> string list \<Rightarrow> file_error + dir_entry list" where
  "os_ReadDir t es =
    (case gm_get t es of
       Some DirNode \<Rightarrow> Inr (sort_key de_Name (List.map_filter (entry_in es) t))
     | Some (FileNode _) \<Rightarrow> Inl NotDirectory
     | None \<Rightarrow> Inl NotExist)"

definition children :: "tree \<Rightarrow> string list \<Rightarrow> bool" where
  "children t es \<longleftrightarrow> list_ex (\<lambda>e. fst e \<noteq> [] \<and> butlast (fst e) = es) t"

definition os_RemoveNode :: "string list \<Rightarrow> tree \<Rightarrow> file_error option \<times> tree" where
  "os_RemoveNode es t =
    (case gm_get t es of
       None \<Rightarrow> (Some NotExist, t)
     | Some (FileNode _) \<Rightarrow> (None, gm_del es t)
     | Some DirNode \<Rightarrow> if children t es then (Some NotEmpty, t) else (None, gm_del es t))"

definition os_RemoveAll :: "string list \<Rightarrow> tree \<Rightarrow> tree" where
  "os_RemoveAll es t = filter (\<lambda>e. take (length es) (fst e) \<noteq> es) t"

section \<open>The file service\<close>

record Tree =
  tr_Name :: string
  tr_IsDir :: bool
  tr_Path :: string
  tr_Size :: int
  tr_IsRecording :: bool

record ListOptions =
  lo_Filter :: "(string \<Rightarrow> bool) option"
  lo_Search :: string
  lo_OnlyMedia :: bool
  lo_Offset :: int
  lo_Limit :: int

definition tree_item :: "string \<Rightarrow> dir_entry \<Rightarrow> Tree" where
  "tree_item rel e =
    \<lparr>tr_Name = de_Name e, tr_IsDir = (de_Node e = DirNode), tr_Path = JoinPath rel (de_Name e),
     tr_Size = (case de_Node e of DirNode \<Rightarrow> 0 | FileNode n \<Rightarrow> n), tr_IsRecording = False\<rparr>"

definition matches :: "ListOptions \<Rightarrow> dir_entry \<Rightarrow> bool" where
  "matches opts e \<longleftrightarrow>
    (case lo_Filter opts of None \<Rightarrow> True | Some f \<Rightarrow> f (de_Name e)) \<and>
    (lo_Search opts = [] \<or> Contains (ToLower (de_Name e)) (ToLower (lo_Search opts))) \<and>
    (\<not> lo_OnlyMedia opts \<or> de_Node e = DirNode \<or> IsRecordingMediaFilename (de_Name e))"

text \<open>The page of a list; a negative offset makes the slice panic. Offsets and limits are far from overflowing:
  the requests below bound them.\<close>

definition page_of :: "int \<Rightarrow> int \<Rightarrow> 'a list \<Rightarrow> 'a list option" where
  "page_of offset limit xs =
    (let n = int (length xs); start = min offset n; end' = (if limit > 0 then min (start + limit) n else n)
     in if start < 0 then None else Some (gslice (nat start) (nat end') xs))"

definition listing :: "string option \<Rightarrow> string \<Rightarrow> tree \<Rightarrow> string \<Rightarrow> file_error + string \<times> dir_entry list" where
  "listing cwd out t p =
    (case ValidatePath cwd out p of
       Inl e \<Rightarrow> Inl (PathErr e)
     | Inr full \<Rightarrow>
        (case os_ReadDir t (elements full) of
           Inl e \<Rightarrow> Inl e
         | Inr entries \<Rightarrow>
            (case GetRelativePath cwd out full of
               Inl e \<Rightarrow> Inl (PathErr e)
             | Inr rel \<Rightarrow> Inr (rel, entries))))"

definition ListTreeWithOptions :: "string option \<Rightarrow> string \<Rightarrow> tree \<Rightarrow> string \<Rightarrow> ListOptions \<Rightarrow>
    (file_error + nat \<times> Tree list) option" where
  "ListTreeWithOptions cwd out t p opts =
    (case listing cwd out t p of
       Inl e \<Rightarrow> Some (Inl e)
     | Inr (rel, entries) \<Rightarrow>
        (let filtered = filter (matches opts) entries in
         map_option (\<lambda>page. Inr (length filtered, map (tree_item rel) page))
           (page_of (lo_Offset opts) (lo_Limit opts) filtered)))"

definition ListTreeWithFilter :: "string option \<Rightarrow> string \<Rightarrow> tree \<Rightarrow> string \<Rightarrow> (string \<Rightarrow> bool) \<Rightarrow> file_error + Tree list" where
  "ListTreeWithFilter cwd out t p f =
    (case listing cwd out t p of
       Inl e \<Rightarrow> Inl e
     | Inr (rel, entries) \<Rightarrow> Inr (map (tree_item rel) (filter (\<lambda>e. f (de_Name e)) entries)))"

definition not_tmp :: "string \<Rightarrow> bool" where "not_tmp n \<longleftrightarrow> \<not> HasSuffix n ''.tmp''"

definition ListTree :: "string option \<Rightarrow> string \<Rightarrow> tree \<Rightarrow> string \<Rightarrow> file_error + Tree list" where
  "ListTree cwd out t p = ListTreeWithFilter cwd out t p not_tmp"

definition regular_file :: "string option \<Rightarrow> string \<Rightarrow> tree \<Rightarrow> string \<Rightarrow> file_error + string" where
  "regular_file cwd out t p =
    (case ValidatePath cwd out p of
       Inl e \<Rightarrow> Inl (PathErr e)
     | Inr full \<Rightarrow>
        (case gm_get t (elements full) of
           None \<Rightarrow> Inl NotExist
         | Some DirNode \<Rightarrow> Inl IsDirectory
         | Some (FileNode _) \<Rightarrow> Inr full))"

definition inferPlaybackMIME :: "string \<Rightarrow> string option" where
  "inferPlaybackMIME p =
    (let ext = ToLower (Ext p) in
     if ext = ''.mp4'' then Some ''video/mp4'' else if ext = ''.m4a'' then Some ''audio/mp4'' else None)"

definition OpenForPlayback :: "string option \<Rightarrow> string \<Rightarrow> tree \<Rightarrow> string \<Rightarrow> file_error + string \<times> string" where
  "OpenForPlayback cwd out t p =
    (case regular_file cwd out t p of
       Inl e \<Rightarrow> Inl e
     | Inr full \<Rightarrow> (case inferPlaybackMIME full of None \<Rightarrow> Inl UnsupportedMedia | Some mime \<Rightarrow> Inr (full, mime)))"

definition DeleteDirectory :: "string option \<Rightarrow> string \<Rightarrow> string \<Rightarrow> tree \<Rightarrow> file_error option \<times> tree" where
  "DeleteDirectory cwd out p t =
    (case ValidatePath cwd out p of
       Inl e \<Rightarrow> (Some (PathErr e), t)
     | Inr full \<Rightarrow> (None, os_RemoveAll (elements full) t))"

fun remove_each :: "string list \<Rightarrow> tree \<Rightarrow> file_error option \<times> tree" where
  "remove_each [] t = (None, t)"
| "remove_each (full # rest) t =
    (case os_RemoveNode (elements full) t of
       (Some e, t) \<Rightarrow> (Some e, t)
     | (None, t) \<Rightarrow> remove_each rest t)"

text \<open>Every path is checked before the first file is removed.\<close>

definition DeleteFiles :: "string option \<Rightarrow> string \<Rightarrow> string list \<Rightarrow> tree \<Rightarrow> file_error option \<times> tree" where
  "DeleteFiles cwd out ps t =
    (case MapErr (ValidatePath cwd out) ps of
       Inl e \<Rightarrow> (Some (PathErr e), t)
     | Inr fulls \<Rightarrow> remove_each fulls t)"

section \<open>Requests\<close>

text \<open>\<open>IsRecordingUnder\<close>: the room id is what follows the last dash in the first element of the cleaned path.
  \<open>Atoi\<close> also reads a number with a plus sign.\<close>

definition IsRecordingUnder :: "Service \<Rightarrow> string \<Rightarrow> bool" where
  "IsRecordingUnder w p =
    (let segments = Split CHR ''-'' (hd (Split CHR ''/'' (Clean p))); room = List.last segments in
     if length segments < 2 then False
     else case Atoi (case room of c # cs \<Rightarrow> if c = CHR ''+'' then cs else room | [] \<Rightarrow> []) of
       None \<Rightarrow> False
     | Some r \<Rightarrow> gm_get (sv_recording w) r \<noteq> None)"

definition parseFiberError :: "file_error \<Rightarrow> nat" where
  "parseFiberError e =
    (case e of
       NotExist \<Rightarrow> 404
     | PathErr ErrAccessDenied \<Rightarrow> 403
     | PathErr ErrInvalidFilePath \<Rightarrow> 400
     | IsDirectory \<Rightarrow> 400
     | UnsupportedMedia \<Rightarrow> 415
     | _ \<Rightarrow> 500)"

text \<open>The check of one path of a batch: \<open>None\<close> when it may be deleted.\<close>

definition deletable :: "string option \<Rightarrow> string \<Rightarrow> string set \<Rightarrow> string list \<Rightarrow> conv_config \<Rightarrow> conv \<Rightarrow> string \<Rightarrow> nat option" where
  "deletable cwd out writing order cfg cs p =
    (if IsRecording writing p then Some 400
     else case ValidatePath cwd out p of
       Inl e \<Rightarrow> Some (parseFiberError (PathErr e))
     | Inr full \<Rightarrow>
        (case IsInQueue order cfg Clean full cs of
           Inl e \<Rightarrow> if e \<noteq> ErrNoConvertManager then Some 500 else None
         | Inr inQueue \<Rightarrow> if inQueue then Some 400 else None))"

fun first_refusal :: "('a \<Rightarrow> nat option) \<Rightarrow> 'a list \<Rightarrow> nat option" where
  "first_refusal f [] = None"
| "first_refusal f (p # ps) = (case f p of Some s \<Rightarrow> Some s | None \<Rightarrow> first_refusal f ps)"

definition deleteFiles :: "string option \<Rightarrow> string \<Rightarrow> string set \<Rightarrow> string list \<Rightarrow> conv_config \<Rightarrow> conv \<Rightarrow> string list option \<Rightarrow>
    tree \<Rightarrow> nat \<times> tree" where
  "deleteFiles cwd out writing order cfg cs body t =
    (case body of
       None \<Rightarrow> (400, t)
     | Some paths \<Rightarrow>
        (case first_refusal (deletable cwd out writing order cfg cs) paths of
           Some status \<Rightarrow> (status, t)
         | None \<Rightarrow>
            (case DeleteFiles cwd out paths t of
               (Some e, t) \<Rightarrow> (parseFiberError e, t)
             | (None, t) \<Rightarrow> (204, t))))"

text \<open>The path of a request is \<open>/\<close> when there is none; \<open>None\<close> is one that cannot be unescaped.\<close>

definition deleteDir :: "string option \<Rightarrow> string \<Rightarrow> Service \<Rightarrow> string option \<Rightarrow> tree \<Rightarrow> nat \<times> tree" where
  "deleteDir cwd out w p t =
    (case p of
       None \<Rightarrow> (400, t)
     | Some p \<Rightarrow>
        if IsRecordingUnder w p then (400, t)
        else (case DeleteDirectory cwd out p t of
           (Some e, t) \<Rightarrow> (parseFiberError e, t)
         | (None, t) \<Rightarrow> (204, t)))"

definition withRecordingStatus :: "string set \<Rightarrow> Tree list \<Rightarrow> Tree list" where
  "withRecordingStatus writing items =
    map (\<lambda>i. if tr_IsDir i then i else i\<lparr>tr_IsRecording := IsRecording writing (tr_Path i)\<rparr>) items"

text \<open>Numbers of the query are \<open>None\<close> when they are not numbers.\<close>

definition listFiles :: "string option \<Rightarrow> string \<Rightarrow> string set \<Rightarrow> tree \<Rightarrow> string option \<Rightarrow> int option \<Rightarrow> int option \<Rightarrow> string \<Rightarrow> bool \<Rightarrow>
    (nat + nat \<times> Tree list) option" where
  "listFiles cwd out writing t p offset limit search onlyMedia =
    (case p of
       None \<Rightarrow> Some (Inl 400)
     | Some p \<Rightarrow>
        (case offset of
           None \<Rightarrow> Some (Inl 400)
         | Some offset \<Rightarrow>
            if offset < 0 then Some (Inl 400)
            else case limit of
              None \<Rightarrow> Some (Inl 400)
            | Some limit \<Rightarrow>
               if limit < 0 \<or> limit > 200 then Some (Inl 400)
               else map_option (case_sum (\<lambda>e. Inl (parseFiberError e)) (\<lambda>(n, items). Inr (n, withRecordingStatus writing items)))
                 (ListTreeWithOptions cwd out t p \<lparr>lo_Filter = Some not_tmp, lo_Search = search, lo_OnlyMedia = onlyMedia,
                    lo_Offset = offset, lo_Limit = limit\<rparr>)))"

definition mediaTokenFiberError :: "media_error \<Rightarrow> nat" where
  "mediaTokenFiberError e =
    (case e of
       MissingToken \<Rightarrow> 401
     | Path ErrTokenExpired \<Rightarrow> 403
     | Path ErrInvalidToken \<Rightarrow> 400
     | PathMismatch \<Rightarrow> 403
     | _ \<Rightarrow> 500)"

definition downloadFile :: "string option \<Rightarrow> string \<Rightarrow> string set \<Rightarrow> (string \<Rightarrow> claims option) \<Rightarrow> int \<Rightarrow> string \<Rightarrow> string option \<Rightarrow> nat + string" where
  "downloadFile cwd out writing parse now token p =
    (case p of
       None \<Rightarrow> Inl 400
     | Some p \<Rightarrow>
        (case AuthorizeToken parse now token p of
           Some e \<Rightarrow> Inl (mediaTokenFiberError e)
         | None \<Rightarrow>
            if IsRecording writing p then Inl 400
            else case ValidatePath cwd out p of
              Inl e \<Rightarrow> Inl (parseFiberError (PathErr e))
            | Inr full \<Rightarrow> Inr full))"

definition playbackFile :: "string option \<Rightarrow> string \<Rightarrow> string set \<Rightarrow> tree \<Rightarrow> (string \<Rightarrow> claims option) \<Rightarrow> int \<Rightarrow> string \<Rightarrow> string option \<Rightarrow>
    nat + string \<times> string" where
  "playbackFile cwd out writing t parse now token p =
    (case p of
       None \<Rightarrow> Inl 400
     | Some p \<Rightarrow>
        (case AuthorizeToken parse now token p of
           Some e \<Rightarrow> Inl (mediaTokenFiberError e)
         | None \<Rightarrow>
            if IsRecording writing p then Inl 400
            else case OpenForPlayback cwd out t p of
              Inl e \<Rightarrow> Inl (parseFiberError e)
            | Inr r \<Rightarrow> Inr r))"

fun first_sidecar :: "string option \<Rightarrow> string \<Rightarrow> tree \<Rightarrow> string list \<Rightarrow> string option" where
  "first_sidecar cwd out t [] = None"
| "first_sidecar cwd out t (c # cs) =
    (case regular_file cwd out t c of Inr full \<Rightarrow> Some full | Inl _ \<Rightarrow> first_sidecar cwd out t cs)"

definition SidecarCandidates :: "string \<Rightarrow> string list" where
  "SidecarCandidates v = [PathForVideo v ''.jsonl'', PathForVideo v ''.xml'']"

definition fetchDanmaku :: "string option \<Rightarrow> string \<Rightarrow> string set \<Rightarrow> tree \<Rightarrow> string option \<Rightarrow> nat + string \<times> string" where
  "fetchDanmaku cwd out writing t p =
    (case p of
       None \<Rightarrow> Inl 400
     | Some p \<Rightarrow>
        if IsRecording writing p then Inl 400
        else (case first_sidecar cwd out t (SidecarCandidates p) of
           None \<Rightarrow> Inl 404
         | Some full \<Rightarrow> Inr (full, if ToLower (Ext full) = ''.xml'' then ''application/xml; charset=utf-8''
              else ''application/x-ndjson; charset=utf-8'')))"

text \<open>The lifetime of a link in nanoseconds, at the width of \<open>time.Duration\<close>; the number of the query is \<open>None\<close>
  when it does not fit 64 bits.\<close>

definition link_ttl :: "int option option \<Rightarrow> int option" where
  "link_ttl q =
    (case q of
       None \<Rightarrow> Some (sint (word_of_int (3600 * 1000000000) :: u64))
     | Some None \<Rightarrow> None
     | Some (Some n) \<Rightarrow> if n \<le> 0 then None else Some (sint (word_of_int (n * 1000000000) :: u64)))"

definition createPresignedURL :: "link_env \<Rightarrow> string set \<Rightarrow> int \<Rightarrow> string option \<Rightarrow> int option option \<Rightarrow> string \<Rightarrow> link_pool \<Rightarrow>
    (nat + string \<times> int) \<times> link_pool" where
  "createPresignedURL env writing now p ttl purpose pool =
    (case p of
       None \<Rightarrow> (Inl 400, pool)
     | Some p \<Rightarrow>
        if IsRecording writing p then (Inl 400, pool)
        else case ValidatePath (le_cwd env) (le_outputDir env) p of
          Inl e \<Rightarrow> (Inl (parseFiberError (PathErr e)), pool)
        | Inr full \<Rightarrow>
           (case link_ttl ttl of
              None \<Rightarrow> (Inl 400, pool)
            | Some d \<Rightarrow>
               (case PresignedURL env now full purpose d pool of
                  (Inl InvalidPurpose, pool) \<Rightarrow> (Inl 400, pool)
                | (Inl _, pool) \<Rightarrow> (Inl 500, pool)
                | (Inr r, pool) \<Rightarrow> (Inr r, pool))))"

section \<open>Listing\<close>

lemma page_chunk:
  assumes "0 < limit"
  shows "page_of (int (k * limit)) (int limit) xs = Some (take limit (drop (k * limit) xs))"
proof -
  have "gslice (min (k * limit) (length xs)) (min (min (k * limit) (length xs) + limit) (length xs)) xs = take limit (drop (k * limit) xs)"
    by (cases "k * limit \<le> length xs") (auto simp: gslice_def min_def)
  moreover have "nat (min (int (k * limit)) (int (length xs))) = min (k * limit) (length xs)"
    "nat (min (min (int (k * limit)) (int (length xs)) + int limit) (int (length xs))) = min (min (k * limit) (length xs) + limit) (length xs)"
    by linarith+
  moreover have "\<not> min (int (k * limit)) (int (length xs)) < 0" by linarith
  ultimately show ?thesis using assms by (simp add: page_of_def Let_def del: of_nat_mult)
qed

lemma page_all: "page_of 0 0 xs = Some xs"
  by (simp add: page_of_def Let_def gslice_def)

lemma chunks_concat: "concat (map (\<lambda>k. take m (drop (k * m) xs)) [0..<n]) = take (n * m) xs"
  by (induction n) (simp_all add: take_add add.commute [of m])

text \<open>Reading a directory page by page gives every entry that matches the search exactly once and in order: the
  pages of any size, put together, are the listing without a limit, and each page reports the same total.\<close>

lemma pages_cover_listing:
  assumes "0 < limit"
    and "ListTreeWithOptions cwd out t p (opts\<lparr>lo_Offset := 0, lo_Limit := 0\<rparr>) = Some (Inr (n, items))"
    and "n \<le> pages * limit"
  shows "\<exists>page. (\<forall>k. ListTreeWithOptions cwd out t p (opts\<lparr>lo_Offset := int (k * limit), lo_Limit := int limit\<rparr>) = Some (Inr (n, page k))) \<and>
    concat (map page [0..<pages]) = items"
proof -
  let ?m = "\<lambda>o' l. matches (opts\<lparr>lo_Offset := o', lo_Limit := l\<rparr>)"
  have same: "?m o' l = matches opts" for o' l by (rule ext) (simp add: matches_def)
  obtain rel entries where list: "listing cwd out t p = Inr (rel, entries)"
    using assms(2) by (auto simp: ListTreeWithOptions_def split: sum.splits)
  let ?f = "filter (matches opts) entries"
  have all: "n = length ?f" "items = map (tree_item rel) ?f"
    using assms(2) list by (simp_all add: ListTreeWithOptions_def same page_all Let_def)
  define page where "page k = map (tree_item rel) (take limit (drop (k * limit) ?f))" for k
  have "ListTreeWithOptions cwd out t p (opts\<lparr>lo_Offset := int (k * limit), lo_Limit := int limit\<rparr>) = Some (Inr (n, page k))" for k
    using list all(1) page_chunk [OF assms(1), of k ?f] by (simp add: ListTreeWithOptions_def same page_def Let_def del: of_nat_mult)
  moreover have "concat (map page [0..<pages]) = map (tree_item rel) (concat (map (\<lambda>k. take limit (drop (k * limit) ?f)) [0..<pages]))"
    by (simp add: page_def [abs_def] map_concat comp_def)
  then have "concat (map page [0..<pages]) = items" using all assms(3) by (simp only: chunks_concat) simp
  ultimately show ?thesis by blast
qed

definition demo_tree :: tree where
  "demo_tree = [([''app'', ''records''], DirNode), ([''app'', ''records'', ''u-7''], DirNode),
    ([''app'', ''records'', ''u-7'', ''b.mp4''], FileNode 20), ([''app'', ''records'', ''u-7'', ''a.mp4''], FileNode 10),
    ([''app'', ''records'', ''u-7'', ''c.mp4.tmp''], FileNode 5)]"

lemma pages_cover_listing_witness:
  "\<exists>page. (\<forall>k. ListTreeWithOptions (Some ''/app'') ''records'' demo_tree ''u-7''
        \<lparr>lo_Filter = Some not_tmp, lo_Search = [], lo_OnlyMedia = True, lo_Offset = int (k * 1), lo_Limit = int 1\<rparr> = Some (Inr (2, page k))) \<and>
    concat (map page [0..<2]) = [\<lparr>tr_Name = ''a.mp4'', tr_IsDir = False, tr_Path = ''u-7/a.mp4'', tr_Size = 10, tr_IsRecording = False\<rparr>,
      \<lparr>tr_Name = ''b.mp4'', tr_IsDir = False, tr_Path = ''u-7/b.mp4'', tr_Size = 20, tr_IsRecording = False\<rparr>]"
proof -
  let ?o = "\<lparr>lo_Filter = Some not_tmp, lo_Search = [], lo_OnlyMedia = True, lo_Offset = 0, lo_Limit = 0\<rparr>"
  have "ListTreeWithOptions (Some ''/app'') ''records'' demo_tree ''u-7'' ?o = Some (Inr (2,
      [\<lparr>tr_Name = ''a.mp4'', tr_IsDir = False, tr_Path = ''u-7/a.mp4'', tr_Size = 10, tr_IsRecording = False\<rparr>,
       \<lparr>tr_Name = ''b.mp4'', tr_IsDir = False, tr_Path = ''u-7/b.mp4'', tr_Size = 20, tr_IsRecording = False\<rparr>]))" by code_simp
  then show ?thesis using pages_cover_listing [of 1 "Some ''/app''" "''records''" demo_tree "''u-7''" ?o 2 _ 2] by simp
qed

section \<open>Deleting\<close>

text \<open>A leading slash defeats the check for recordings: the directory of a room is deleted while it is recorded,
  and with \<open>/\<close> alone so is everything.\<close>

lemma rooted_request_not_recording: "IsRecordingUnder w (CHR ''/'' # p) = False"
proof -
  have "Clean (CHR ''/'' # p) = CHR ''/'' # JoinStrings CHR ''/'' (elements (CHR ''/'' # p))"
    by (simp add: Clean_def is_rooted_def path_of_def)
  then have "hd (Split CHR ''/'' (Clean (CHR ''/'' # p))) = []" by simp
  then show ?thesis by (simp add: IsRecordingUnder_def Let_def)
qed

lemma rooted_request_same_path: "(\<And>d. cwd = Some d \<Longrightarrow> is_rooted d) \<Longrightarrow> ValidatePath cwd out (CHR ''/'' # p) = ValidatePath cwd out p"
proof (cases "Abs cwd out")
  case (Some a)
  assume "\<And>d. cwd = Some d \<Longrightarrow> is_rooted d"
  then obtain bs where bs: "a = path_of bs" "list_all plain bs" using Abs_plain [OF Some] by blast
  have below_eq: "below bs (CHR ''/'' # p) = below bs p" by (simp add: below_def)
  note v = ValidatePath_below [OF Some [unfolded bs(1)] bs(2)]
  show ?thesis unfolding v below_eq ..
qed (simp add: ValidatePath_def)

text \<open>A directory can be deleted while it is being recorded: a request path that begins with a slash, which the
  path of a request without any path does, is never taken for one with recordings, and what it names is deleted
  with everything in it, whatever is being recorded there.\<close>

lemma rooted_request_deletes_recording:
  assumes "ValidatePath cwd out p = Inr full" and "\<And>d. cwd = Some d \<Longrightarrow> is_rooted d"
  shows "deleteDir cwd out w (Some (CHR ''/'' # p)) t = (204, os_RemoveAll (elements full) t) \<and>
    deleteDir cwd out w (Some ''/'') t = (204, os_RemoveAll (elements (the (Abs cwd out))) t)"
proof
  show "deleteDir cwd out w (Some (CHR ''/'' # p)) t = (204, os_RemoveAll (elements full) t)"
    using assms rooted_request_same_path [OF assms(2), where out = out and p = p]
    by (simp add: deleteDir_def rooted_request_not_recording DeleteDirectory_def)
  obtain bs es where be: "Abs cwd out = Some (path_of bs)" "list_all plain bs"
    using relative_form [OF assms] by (metis list_all_append)
  have "ValidatePath cwd out [] = Inr (path_of bs)"
    using ValidatePath_below [OF be, of "[]"] by (simp add: below_def)
  then show "deleteDir cwd out w (Some ''/'') t = (204, os_RemoveAll (elements (the (Abs cwd out))) t)"
    using rooted_request_same_path [OF assms(2), where out = out and p = "[]"] be(1)
    by (simp add: deleteDir_def rooted_request_not_recording DeleteDirectory_def)
qed

lemma Join_joined: "xs \<noteq> [] \<Longrightarrow> JoinStrings CHR ''/'' (xs @ [e]) = Join (JoinStrings CHR ''/'' xs) e"
  by (induction "CHR ''/''" xs rule: JoinStrings.induct) (simp_all add: Join_def JoinStrings_Cons)

lemma Base_plain: "plain e \<Longrightarrow> Base e = e"
proof -
  assume e: "plain e"
  then have "List.last e \<noteq> CHR ''/''" "e \<noteq> []" by (metis last_in_set plain_def)+
  then have "dropWhile (\<lambda>c. c = CHR ''/'') (rev e) = rev e" by (cases e rule: rev_cases) simp_all
  then show ?thesis using e by (simp add: Base_def plain_def after_last_def)
qed

lemma Base_joined: "list_all plain es \<Longrightarrow> es \<noteq> [] \<Longrightarrow> Base (JoinStrings CHR ''/'' es) = List.last es \<and> Base (path_of es) = List.last es"
proof (cases es rule: rev_cases)
  case (snoc xs e)
  assume "list_all plain es"
  then have e: "plain e" "CHR ''/'' \<notin> set e" "e \<noteq> []" using snoc by (simp_all add: plain_def)
  show ?thesis
  proof (cases "xs = []")
    case True
    then have "path_of es = Join [] e" using snoc by (simp add: path_of_def Join_def)
    then show ?thesis using True snoc e Base_plain by simp
  next
    case False
    then have "path_of es = Join (path_of xs) e" using snoc by (simp add: path_of_def Join_joined Join_def)
    then show ?thesis using False snoc e by (simp add: Join_joined)
  qed
qed simp

lemma first_refusal_none: "first_refusal f ps = None \<longleftrightarrow> (\<forall>p \<in> set ps. f p = None)"
  by (induction ps) (auto split: option.split)

lemma remove_each_changes:
  "gm_get (snd (remove_each fulls t)) es \<noteq> gm_get t es \<Longrightarrow> (\<exists>full \<in> set fulls. es = elements full) \<and> gm_get (snd (remove_each fulls t)) es = None"
proof (induction fulls arbitrary: t)
  case (Cons full rest)
  obtain r t1 where rm: "os_RemoveNode (elements full) t = (r, t1)" by (cases "os_RemoveNode (elements full) t")
  have one: "gm_get t1 es = gm_get t es \<or> es = elements full \<and> gm_get t1 es = None" "r \<noteq> None \<Longrightarrow> t1 = t"
    using rm by (auto simp: os_RemoveNode_def split: option.splits node.splits if_splits)
  show ?case
  proof (cases r)
    case None
    then have eq: "remove_each (full # rest) t = remove_each rest t1" using rm by simp
    show ?thesis
    proof (cases "gm_get (snd (remove_each rest t1)) es = gm_get t1 es")
      case True
      then show ?thesis using Cons.prems one(1) unfolding eq by auto
    next
      case False
      then show ?thesis using Cons.IH [OF False] unfolding eq by auto
    qed
  next
    case (Some e)
    then show ?thesis using Cons.prems one(2) rm by simp
  qed
qed simp

lemma MapErr_member: "MapErr f xs = Inr ys \<Longrightarrow> y \<in> set ys \<Longrightarrow> \<exists>x \<in> set xs. f x = Inr y"
  by (induction xs arbitrary: ys) (auto split: sum.splits)

text \<open>Deleting a batch of files removes nothing but what the batch names, and neither a file that is being written
  nor the source of a queued conversion: each file that is gone is the accepted path of a request of the batch,
  provided the requests are plain relative paths.\<close>

lemma batch_delete_spares_active:
  assumes "deleteFiles cwd out writing order cfg cs (Some paths) t = (status, t')" and "gm_get t' es \<noteq> gm_get t es"
    and "\<And>d. cwd = Some d \<Longrightarrow> is_rooted d" and "set order = set (managers cfg)"
    and "\<And>p. p \<in> set paths \<Longrightarrow> \<exists>ns. ns \<noteq> [] \<and> list_all plain ns \<and> p = JoinStrings CHR ''/'' ns"
  shows "\<exists>p \<in> set paths. \<exists>full. ValidatePath cwd out p = Inr full \<and> es = elements full \<and> gm_get t' es = None \<and> Base full \<notin> writing
    \<and> (cc_cloud cfg \<longrightarrow> (\<forall>k q. stored_in (cv_cloud cs) k = Some q \<longrightarrow> Clean (tq_InputPath q) \<noteq> full))
    \<and> (cc_ffmpeg cfg \<longrightarrow> (\<forall>k q. stored_in (cv_ffmpeg cs) k = Some q \<longrightarrow> Clean (tq_InputPath q) \<noteq> full))"
proof -
  have none: "first_refusal (deletable cwd out writing order cfg cs) paths = None"
    using assms(1,2) by (auto simp: deleteFiles_def split: option.splits)
  obtain fulls where fulls: "MapErr (ValidatePath cwd out) paths = Inr fulls" "t' = snd (remove_each fulls t)"
    using assms(1,2) none by (auto simp: deleteFiles_def DeleteFiles_def split: sum.splits prod.splits option.splits)
  obtain full where full: "full \<in> set fulls" "es = elements full" "gm_get t' es = None"
    using remove_each_changes [of fulls t es] assms(2) fulls(2) by auto
  obtain p where p: "p \<in> set paths" "ValidatePath cwd out p = Inr full" using MapErr_member [OF fulls(1) full(1)] by blast
  have ok: "deletable cwd out writing order cfg cs p = None" using none p(1) by (simp add: first_refusal_none)
  obtain ns where ns: "ns \<noteq> []" "list_all plain ns" "p = JoinStrings CHR ''/'' ns" using assms(5) [OF p(1)] by blast
  obtain bs where bs: "Abs cwd out = Some (path_of bs)" "list_all plain bs"
    using relative_form [OF p(2) assms(3)] by (metis list_all_append)
  have eq: "full = path_of (bs @ ns)" "list_all plain (bs @ ns)"
    using p(2) ValidatePath_below [OF bs, of p] below_join [OF bs(2) ns(2)] ns bs(2) by (auto split: if_splits)
  have "Base p = Base full" using Base_joined [OF ns(2,1)] Base_joined [OF eq(2)] ns(1,3) eq(1) by simp
  moreover have "Base p \<notin> writing" using ok by (auto simp: deletable_def IsRecording_def Let_def)
  ultimately have written: "Base full \<notin> writing" by simp
  have clean: "Clean full = full" using eq by simp
  have queue: "IsInQueue order cfg Clean full cs = Inr False \<or> IsInQueue order cfg Clean full cs = Inl ErrNoConvertManager"
    using ok p(2) by (auto simp: deletable_def split: if_splits sum.splits)
  show ?thesis
  proof (cases "IsInQueue order cfg Clean full cs")
    case (Inr b)
    then have q: "IsInQueue order cfg Clean full cs = Inr False" using queue by auto
    show ?thesis using p full written not_in_queue [OF q assms(4)] clean by metis
  next
    case (Inl e)
    then have "list_in order cs = Inl ErrNoConvertManager \<or> managers cfg = []" using queue
      by (auto simp: IsInQueue_def svc_ListInProgress_def checkAvailableManagers_def split: sum.splits if_splits)
    moreover have "list_in ms cs \<noteq> Inl ErrNoConvertManager" for ms
      by (induction ms) (auto simp: manager_list_def cloud_ListInProgress_def ff_ListInProgress_def split: sum.split)
    ultimately have "managers cfg = []" by blast
    then have "\<not> cc_cloud cfg" "\<not> cc_ffmpeg cfg" by (auto simp: managers_def split: if_splits)
    then show ?thesis using p full written by blast
  qed
qed

definition no_managers :: conv_config where
  "no_managers = demo_conv_config\<lparr>cc_cloud := False, cc_ffmpeg := False\<rparr>"

lemma batch_delete_spares_active_witness:
  "\<exists>p \<in> set [''u-7/a.mp4'']. \<exists>full. ValidatePath (Some ''/app'') ''records'' p = Inr full
    \<and> [''app'', ''records'', ''u-7'', ''a.mp4''] = elements full \<and> Base full \<notin> {''b.mp4''}"
proof -
  let ?r = "deleteFiles (Some ''/app'') ''records'' {''b.mp4''} [ProviderCloudConvert, ProviderFFmpeg] demo_conv_config demo_ff (Some [''u-7/a.mp4'']) demo_tree"
  let ?es = "[''app'', ''records'', ''u-7'', ''a.mp4'']"
  have run: "?r = (204, snd ?r)" by (rule prod_eqI) (code_simp, simp)
  have changed: "gm_get (snd ?r) ?es \<noteq> gm_get demo_tree ?es" by code_simp
  have root: "is_rooted d" if "Some ''/app'' = Some d" for d using that by (auto simp: is_rooted_def)
  have order: "set [ProviderCloudConvert, ProviderFFmpeg] = set (managers demo_conv_config)" by code_simp
  have plain: "\<exists>ns. ns \<noteq> [] \<and> list_all plain ns \<and> p = JoinStrings CHR ''/'' ns" if "p \<in> set [''u-7/a.mp4'']" for p
  proof (intro exI conjI)
    show "[''u-7'', ''a.mp4''] \<noteq> []" by simp
    show "list_all plain [''u-7'', ''a.mp4'']" by code_simp
    show "p = JoinStrings CHR ''/'' [''u-7'', ''a.mp4'']" using that by simp
  qed
  show ?thesis using batch_delete_spares_active [OF run changed root order plain] by blast
qed

lemma rooted_request_deletes_recording_witness:
  "deleteDir (Some ''/app'') ''records'' \<lparr>sv_max = 3, sv_resetDuration = False, sv_recording = [(7, 0)], sv_infos = []\<rparr> (Some ''/u-7'') demo_tree = (204, [([''app'', ''records''], DirNode)])"
proof -
  have valid: "ValidatePath (Some ''/app'') ''records'' ''u-7'' = Inr ''/app/records/u-7''" by code_simp
  have root: "is_rooted d" if "Some ''/app'' = Some d" for d using that by (auto simp: is_rooted_def)
  have "os_RemoveAll (elements ''/app/records/u-7'') demo_tree = [([''app'', ''records''], DirNode)]" by code_simp
  then show ?thesis using rooted_request_deletes_recording [OF valid root] by simp
qed

text \<open>The same holds for files: the check looks at the last element of the request as it is written.\<close>

lemma dotted_request_deletes_written_file:
  "deletable (Some ''/app'') ''records'' {''a.mp4''} [] no_managers (demo_conv []) ''u-7/a.mp4'' = Some 400"
  "deletable (Some ''/app'') ''records'' {''a.mp4''} [] no_managers (demo_conv []) ''u-7/a.mp4/.'' = None"
  "ValidatePath (Some ''/app'') ''records'' ''u-7/a.mp4/.'' = Inr ''/app/records/u-7/a.mp4''"
  by code_simp+

text \<open>A lifetime beyond what a duration can hold makes a link that has already ended.\<close>

lemma long_ttl_wraps: "link_ttl (Some (Some 9223372037)) = Some (- 9223372036709551616)"
  by code_simp

end
