(* ===== verification/ServeCache.thy ===== *)
theory ServeCache
  imports GoMap
begin

text \<open>
  Releasing the page cache of served files (\<open>internal/services/file/serve_cache_release.go\<close>): while a file is
  being sent its pages stay, after the last sending and an idle time they are dropped, and once more five
  minutes later. The state is what the mutex guards, the timers with their callbacks, and the
  sendings under way; each critical section is one step, and a callback that has fired can no longer be stopped.
  The option is on and the idle time is positive.
\<close>

section \<open>State\<close>

text \<open>A callback is armed, fired but not yet in its critical section, dropping, back from the drop, or over.\<close>

datatype callback_phase = Armed | Fired | Dropping | Dropped | Over

record callback =
  cb_path :: string
  cb_session :: nat
  cb_generation :: nat
  cb_attempt :: nat
  cb_delay :: int
  cb_phase :: callback_phase

record serveCacheSession =
  ss_refCount :: nat
  ss_timer :: "nat option"
  ss_generation :: nat
  ss_attempts :: nat

text \<open>The log has an entry for each drop a callback has decided on, with the number of sendings of the file at
  that moment.\<close>

record drop_entry =
  dr_path :: string
  dr_session :: nat
  dr_generation :: nat
  dr_attempt :: nat
  dr_serving :: nat

record serve_cache =
  sc_cache :: "(string, nat) gomap"
  sc_sessions :: "serveCacheSession list"
  sc_callbacks :: "callback list"
  sc_stopped :: bool
  sc_serving :: "(string \<times> nat) list"
  sc_drops :: "drop_entry list"

definition new_serve_cache :: serve_cache where
  "new_serve_cache = \<lparr>sc_cache = gm_empty, sc_sessions = [], sc_callbacks = [], sc_stopped = False, sc_serving = [], sc_drops = []\<rparr>"

section \<open>Operations\<close>

text \<open>\<open>timer.Stop()\<close> keeps a callback from running only before it has fired.\<close>

definition stop_timer :: "nat \<Rightarrow> callback list \<Rightarrow> callback list" where
  "stop_timer i cs =
    (if i < length cs \<and> cb_phase (cs ! i) = Armed then cs[i := (cs ! i)\<lparr>cb_phase := Over\<rparr>] else cs)"

definition BeginServeCacheRelease :: "string \<Rightarrow> serve_cache \<Rightarrow> serve_cache" where
  "BeginServeCacheRelease p s =
    (if sc_stopped s then s
     else
       let (k, s) = (case gm_get (sc_cache s) p of
             Some k \<Rightarrow> (k, s)
           | None \<Rightarrow> (length (sc_sessions s),
               s\<lparr>sc_sessions := sc_sessions s @ [\<lparr>ss_refCount = 0, ss_timer = None, ss_generation = 0, ss_attempts = 0\<rparr>],
                 sc_cache := gm_put p (length (sc_sessions s)) (sc_cache s)\<rparr>));
           sess = sc_sessions s ! k
       in s\<lparr>sc_callbacks := (case ss_timer sess of None \<Rightarrow> sc_callbacks s | Some i \<Rightarrow> stop_timer i (sc_callbacks s)),
            sc_sessions := (sc_sessions s)[k := sess\<lparr>ss_timer := None, ss_generation := ss_generation sess + 1, ss_attempts := 0,
              ss_refCount := ss_refCount sess + 1\<rparr>],
            sc_serving := (p, k) # sc_serving s\<rparr>)"

definition scheduleServeCacheRelease :: "string \<Rightarrow> nat \<Rightarrow> nat \<Rightarrow> nat \<Rightarrow> int \<Rightarrow> serve_cache \<Rightarrow> serve_cache" where
  "scheduleServeCacheRelease p k gen attempt delay s =
    s\<lparr>sc_callbacks := sc_callbacks s @ [\<lparr>cb_path = p, cb_session = k, cb_generation = gen, cb_attempt = attempt, cb_delay = delay,
        cb_phase = Armed\<rparr>],
      sc_sessions := (sc_sessions s)[k := (sc_sessions s ! k)\<lparr>ss_timer := Some (length (sc_callbacks s))\<rparr>]\<rparr>"

text \<open>The function returned by the beginning, called once, for the session it has been returned for.\<close>

definition endServeCacheRelease :: "int \<Rightarrow> string \<Rightarrow> nat \<Rightarrow> serve_cache \<Rightarrow> serve_cache" where
  "endServeCacheRelease idle p k s0 =
    (let s = s0\<lparr>sc_serving := remove1 (p, k) (sc_serving s0)\<rparr> in
     if sc_stopped s \<or> gm_get (sc_cache s) p \<noteq> Some k \<or> ss_refCount (sc_sessions s ! k) = 0 then s
     else
       let sess = sc_sessions s ! k; n = ss_refCount sess - 1;
           s = s\<lparr>sc_sessions := (sc_sessions s)[k := sess\<lparr>ss_refCount := n\<rparr>]\<rparr>
       in if n > 0 then s else scheduleServeCacheRelease p k (ss_generation sess) 1 idle s)"

definition set_phase :: "nat \<Rightarrow> callback_phase \<Rightarrow> serve_cache \<Rightarrow> serve_cache" where
  "set_phase i ph s = s\<lparr>sc_callbacks := (sc_callbacks s)[i := (sc_callbacks s ! i)\<lparr>cb_phase := ph\<rparr>]\<rparr>"

text \<open>The first critical section of \<open>runServeCacheRelease\<close> decides on the drop.\<close>

definition run_decide :: "nat \<Rightarrow> serve_cache \<Rightarrow> serve_cache" where
  "run_decide i s =
    (let c = sc_callbacks s ! i; k = cb_session c; sess = sc_sessions s ! k in
     if sc_stopped s \<or> gm_get (sc_cache s) (cb_path c) \<noteq> Some k \<or> ss_generation sess \<noteq> cb_generation c
       \<or> ss_refCount sess > 0 \<or> ss_attempts sess + 1 \<noteq> cb_attempt c
     then set_phase i Over s
     else (set_phase i Dropping s)
       \<lparr>sc_sessions := (sc_sessions s)[k := sess\<lparr>ss_timer := None, ss_attempts := cb_attempt c\<rparr>],
        sc_drops := sc_drops s @ [\<lparr>dr_path = cb_path c, dr_session = k, dr_generation = cb_generation c, dr_attempt = cb_attempt c,
          dr_serving = length (filter (\<lambda>v. fst v = cb_path c) (sc_serving s))\<rparr>]\<rparr>)"

text \<open>The second one, after the drop, arranges the final release or forgets the file.\<close>

definition run_finish :: "int \<Rightarrow> nat \<Rightarrow> serve_cache \<Rightarrow> serve_cache" where
  "run_finish final i s0 =
    (let s = set_phase i Over s0; c = sc_callbacks s ! i; k = cb_session c; sess = sc_sessions s ! k in
     if sc_stopped s \<or> gm_get (sc_cache s) (cb_path c) \<noteq> Some k \<or> ss_generation sess \<noteq> cb_generation c
       \<or> ss_refCount sess > 0 \<or> ss_attempts sess \<noteq> cb_attempt c
     then s
     else if cb_attempt c = 1 then scheduleServeCacheRelease (cb_path c) k (cb_generation c) 2 final s
     else s\<lparr>sc_cache := gm_del (cb_path c) (sc_cache s)\<rparr>)"

definition stopServeCacheRelease :: "serve_cache \<Rightarrow> serve_cache" where
  "stopServeCacheRelease s =
    s\<lparr>sc_stopped := True,
      sc_callbacks := fold (\<lambda>e cs. case ss_timer (sc_sessions s ! snd e) of None \<Rightarrow> cs | Some i \<Rightarrow> stop_timer i cs) (sc_cache s) (sc_callbacks s),
      sc_cache := gm_empty\<rparr>"

section \<open>Steps\<close>

inductive sc_step :: "int \<Rightarrow> int \<Rightarrow> serve_cache \<Rightarrow> serve_cache \<Rightarrow> bool" for idle :: int and final :: int where
  begin': "sc_step idle final s (BeginServeCacheRelease p s)"
| end': "(p, k) \<in> set (sc_serving s) \<Longrightarrow> sc_step idle final s (endServeCacheRelease idle p k s)"
| fire: "i < length (sc_callbacks s) \<Longrightarrow> cb_phase (sc_callbacks s ! i) = Armed \<Longrightarrow> sc_step idle final s (set_phase i Fired s)"
| decide: "i < length (sc_callbacks s) \<Longrightarrow> cb_phase (sc_callbacks s ! i) = Fired \<Longrightarrow> sc_step idle final s (run_decide i s)"
| drop': "i < length (sc_callbacks s) \<Longrightarrow> cb_phase (sc_callbacks s ! i) = Dropping \<Longrightarrow> sc_step idle final s (set_phase i Dropped s)"
| finish: "i < length (sc_callbacks s) \<Longrightarrow> cb_phase (sc_callbacks s ! i) = Dropped \<Longrightarrow> sc_step idle final s (run_finish final i s)"
| stop: "sc_step idle final s (stopServeCacheRelease s)"

section \<open>The invariant\<close>

definition serving_of :: "string \<Rightarrow> nat \<Rightarrow> serve_cache \<Rightarrow> nat" where
  "serving_of p k s = length (filter (\<lambda>v. v = (p, k)) (sc_serving s))"

text \<open>The reference counts are the numbers of sendings, and an unstopped service knows every sending's session.\<close>

definition sc_refs :: "serve_cache \<Rightarrow> bool" where
  "sc_refs s \<longleftrightarrow>
    (\<forall>p k. gm_get (sc_cache s) p = Some k \<longrightarrow> k < length (sc_sessions s) \<and> ss_refCount (sc_sessions s ! k) = serving_of p k s) \<and>
    (\<forall>p q k. gm_get (sc_cache s) p = Some k \<longrightarrow> gm_get (sc_cache s) q = Some k \<longrightarrow> p = q) \<and>
    (\<not> sc_stopped s \<longrightarrow> (\<forall>p k. (p, k) \<in> set (sc_serving s) \<longrightarrow> gm_get (sc_cache s) p = Some k)) \<and>
    (sc_stopped s \<longrightarrow> (\<forall>p. gm_get (sc_cache s) p = None))"

text \<open>Whether a decided drop is of an earlier generation of its session than the present one, or of an attempt the session has made.\<close>

definition drop_past :: "serveCacheSession list \<Rightarrow> drop_entry \<Rightarrow> bool" where
  "drop_past ss d \<longleftrightarrow> dr_session d < length ss \<and>
    (dr_generation d < ss_generation (ss ! dr_session d)
     \<or> dr_generation d = ss_generation (ss ! dr_session d) \<and> dr_attempt d \<le> ss_attempts (ss ! dr_session d))"

definition sc_log :: "serve_cache \<Rightarrow> bool" where
  "sc_log s \<longleftrightarrow>
    (\<forall>c \<in> set (sc_callbacks s). cb_attempt c \<in> {1, 2}) \<and>
    (\<forall>d \<in> set (sc_drops s). dr_attempt d \<in> {1, 2} \<and> dr_serving d = 0 \<and> drop_past (sc_sessions s) d) \<and>
    distinct (map (\<lambda>d. (dr_session d, dr_generation d, dr_attempt d)) (sc_drops s))"

section \<open>The reference counts\<close>

lemma serving_of_cong: "sc_serving s' = sc_serving s \<Longrightarrow> serving_of p k s' = serving_of p k s"
  by (simp add: serving_of_def)

lemma sc_refsD:
  assumes "sc_refs s" "gm_get (sc_cache s) p = Some k"
  shows "k < length (sc_sessions s)" "ss_refCount (sc_sessions s ! k) = serving_of p k s"
    "gm_get (sc_cache s) q = Some k \<Longrightarrow> q = p"
  using assms by (auto simp: sc_refs_def)

lemma sc_refs_serving:
  "sc_refs s \<Longrightarrow> \<not> sc_stopped s \<Longrightarrow> (p, k) \<in> set (sc_serving s) \<Longrightarrow> gm_get (sc_cache s) p = Some k"
  by (simp add: sc_refs_def)

text \<open>A step that leaves the reference counts, the map and the sendings as they are.\<close>

lemma sc_refs_cong:
  assumes "sc_refs s" "sc_cache s' = sc_cache s" "sc_serving s' = sc_serving s" "sc_stopped s' = sc_stopped s"
    "map ss_refCount (sc_sessions s') = map ss_refCount (sc_sessions s)"
  shows "sc_refs s'"
proof -
  have l: "length (sc_sessions s') = length (sc_sessions s)" using assms(5) by (rule map_eq_imp_length_eq)
  have r: "ss_refCount (sc_sessions s' ! k) = ss_refCount (sc_sessions s ! k)" if "k < length (sc_sessions s)" for k
    using arg_cong [OF assms(5), of "\<lambda>xs. xs ! k"] that l by simp
  show ?thesis using assms(1) unfolding sc_refs_def assms(2,3,4) serving_of_def l by (metis r)
qed

lemma map_upd_same: "f y = f (xs ! k) \<Longrightarrow> map f (xs[k := y]) = map f xs"
  by (cases "k < length xs") (simp_all add: map_update list_update_same_conv list_update_beyond)

lemma sc_refs_set_phase: "sc_refs s \<Longrightarrow> sc_refs (set_phase i ph s)"
  by (erule sc_refs_cong) (simp_all add: set_phase_def)

lemma sc_refs_schedule: "sc_refs s \<Longrightarrow> sc_refs (scheduleServeCacheRelease p k gen a d s)"
  by (erule sc_refs_cong) (simp_all add: scheduleServeCacheRelease_def map_upd_same)

lemma sc_refs_decide: "sc_refs s \<Longrightarrow> sc_refs (run_decide i s)"
  by (auto simp: run_decide_def Let_def sc_refs_set_phase)
    (erule sc_refs_cong, simp_all add: set_phase_def map_upd_same)

lemma sc_refs_forget:
  assumes "sc_refs s" "gm_get (sc_cache s) p = Some k" "ss_refCount (sc_sessions s ! k) = 0"
  shows "sc_refs (s\<lparr>sc_cache := gm_del p (sc_cache s)\<rparr>)"
proof -
  have n: "(p, k') \<notin> set (sc_serving s)" if "\<not> sc_stopped s" for k'
  proof
    assume m: "(p, k') \<in> set (sc_serving s)"
    then have "k' = k" using sc_refs_serving [OF assms(1) that m] assms(2) by simp
    then show False using sc_refsD(2) [OF assms(1,2)] assms(3) m by (auto simp: serving_of_def filter_empty_conv)
  qed
  show ?thesis using assms(1) n unfolding sc_refs_def serving_of_def by auto
qed

lemma sc_refs_finish: "sc_refs s \<Longrightarrow> sc_refs (run_finish final i s)"
proof -
  assume r: "sc_refs s"
  have p: "sc_refs (set_phase i Over s)" using r by (rule sc_refs_set_phase)
  define c where "c = sc_callbacks (set_phase i Over s) ! i"
  show ?thesis
    using p sc_refs_schedule [OF p] sc_refs_forget [OF p, of "cb_path c" "cb_session c"]
    unfolding run_finish_def Let_def c_def [symmetric] by simp
qed

lemma sc_refs_stop: "sc_refs s \<Longrightarrow> sc_refs (stopServeCacheRelease s)"
  by (simp add: sc_refs_def stopServeCacheRelease_def)

lemma sc_refsI:
  assumes "\<And>p k. gm_get (sc_cache s) p = Some k \<Longrightarrow> k < length (sc_sessions s)"
    "\<And>p k. gm_get (sc_cache s) p = Some k \<Longrightarrow> ss_refCount (sc_sessions s ! k) = serving_of p k s"
    "\<And>p q k. gm_get (sc_cache s) p = Some k \<Longrightarrow> gm_get (sc_cache s) q = Some k \<Longrightarrow> p = q"
    "\<And>p k. \<not> sc_stopped s \<Longrightarrow> (p, k) \<in> set (sc_serving s) \<Longrightarrow> gm_get (sc_cache s) p = Some k"
    "\<And>p. sc_stopped s \<Longrightarrow> gm_get (sc_cache s) p = None"
  shows "sc_refs s"
  unfolding sc_refs_def using assms by blast

text \<open>A sending begins or ends on a session that the map has.\<close>

lemma sc_refs_serve:
  assumes r: "sc_refs s" and n: "\<not> sc_stopped s" and g: "gm_get (sc_cache s) p = Some k"
    and c: "ss_refCount sess = length (filter (\<lambda>v. v = (p, k)) vs)"
    and o: "\<And>v. v \<noteq> (p, k) \<Longrightarrow> filter (\<lambda>w. w = v) vs = filter (\<lambda>w. w = v) (sc_serving s)"
    and s: "set vs \<subseteq> insert (p, k) (set (sc_serving s))"
    and e: "sc_cache s' = sc_cache s" "sc_stopped s' = sc_stopped s" "sc_sessions s' = (sc_sessions s)[k := sess]" "sc_serving s' = vs"
  shows "sc_refs s'"
proof (rule sc_refsI)
  fix q j assume q: "gm_get (sc_cache s') q = Some j"
  have q': "gm_get (sc_cache s) q = Some j" using q e by simp
  show "j < length (sc_sessions s')" using sc_refsD(1) [OF r q'] e by simp
  show "ss_refCount (sc_sessions s' ! j) = serving_of q j s'"
  proof (cases "j = k")
    case True
    then have "q = p" using sc_refsD(3) [OF r g] q' by simp
    then show ?thesis using True c e sc_refsD(1) [OF r g] by (simp add: serving_of_def)
  next
    case False
    then show ?thesis using sc_refsD(2) [OF r q'] o [of "(q, j)"] e by (simp add: serving_of_def)
  qed
next
  fix q q' j assume "gm_get (sc_cache s') q = Some j" "gm_get (sc_cache s') q' = Some j"
  then show "q = q'" using sc_refsD(3) [OF r, of q' j q] e by simp
next
  fix q j assume "(q, j) \<in> set (sc_serving s')"
  then have "(q, j) = (p, k) \<or> (q, j) \<in> set (sc_serving s)" using e s by auto
  then show "gm_get (sc_cache s') q = Some j" using g sc_refs_serving [OF r n, of q j] e by auto
next
  fix q assume "sc_stopped s'"
  then show "gm_get (sc_cache s') q = None" using e n by simp
qed

lemma sc_refs_fresh:
  assumes r: "sc_refs s" and n: "\<not> sc_stopped s" and g: "gm_get (sc_cache s) p = None"
    and z: "ss_refCount z = 0"
  shows "sc_refs (s\<lparr>sc_sessions := sc_sessions s @ [z], sc_cache := gm_put p (length (sc_sessions s)) (sc_cache s)\<rparr>)" (is "sc_refs ?s")
proof (rule sc_refsI)
  have b: "k < length (sc_sessions s)" if "gm_get (sc_cache s) q = Some k" for q k
    using sc_refsD(1) [OF r that] .
  have m: "(p, k) \<notin> set (sc_serving s)" for k
    using sc_refs_serving [OF r n, of p k] g by auto
  fix q j assume q: "gm_get (sc_cache ?s) q = Some j"
  show "j < length (sc_sessions ?s)" using q b [of q j] by (simp split: if_splits)
  show "ss_refCount (sc_sessions ?s ! j) = serving_of q j ?s"
  proof (cases "q = p")
    case True
    then have "j = length (sc_sessions s)" using q by simp
    then show ?thesis using m True z by (simp add: serving_of_def filter_empty_conv) (metis)
  next
    case False
    then have q': "gm_get (sc_cache s) q = Some j" using q by simp
    then show ?thesis using sc_refsD(2) [OF r q'] b [OF q'] by (simp add: serving_of_def nth_append)
  qed
next
  fix q q' j assume a: "gm_get (sc_cache ?s) q = Some j" "gm_get (sc_cache ?s) q' = Some j"
  have b: "gm_get (sc_cache s) v \<noteq> Some (length (sc_sessions s))" for v using sc_refsD(1) [OF r, of v] by auto
  show "q = q'" using a b [of q] b [of q'] sc_refsD(3) [OF r, of q j q'] by (auto split: if_splits)
next
  fix q j assume m: "(q, j) \<in> set (sc_serving ?s)"
  then have "gm_get (sc_cache s) q = Some j" using sc_refs_serving [OF r n] by simp
  then show "gm_get (sc_cache ?s) q = Some j" using g by auto
next
  fix q assume "sc_stopped ?s"
  then show "gm_get (sc_cache ?s) q = None" using n by simp
qed

lemma sc_refs_enter:
  assumes "sc_refs s" "\<not> sc_stopped s" "gm_get (sc_cache s) p = Some k"
    "ss_refCount sess = ss_refCount (sc_sessions s ! k) + 1"
    "sc_cache s' = sc_cache s" "sc_stopped s' = sc_stopped s" "sc_sessions s' = (sc_sessions s)[k := sess]"
    "sc_serving s' = (p, k) # sc_serving s"
  shows "sc_refs s'"
  by (rule sc_refs_serve [OF assms(1-3) _ _ _ assms(5-8)])
    (use assms(4) sc_refsD(2) [OF assms(1,3)] in \<open>auto simp: serving_of_def\<close>)

lemma sc_refs_begin: "sc_refs s \<Longrightarrow> sc_refs (BeginServeCacheRelease p s)"
proof (cases "sc_stopped s")
  case False
  assume r: "sc_refs s"
  show ?thesis
  proof (cases "gm_get (sc_cache s) p")
    case None
    define z where "z = \<lparr>ss_refCount = 0, ss_timer = None, ss_generation = 0, ss_attempts = 0\<rparr>"
    have f: "sc_refs (s\<lparr>sc_sessions := sc_sessions s @ [z], sc_cache := gm_put p (length (sc_sessions s)) (sc_cache s)\<rparr>)"
      using sc_refs_fresh [OF r False None, of z] by (simp add: z_def)
    show ?thesis
      by (rule sc_refs_enter [OF f, of p "length (sc_sessions s)" "z\<lparr>ss_timer := None, ss_generation := 1, ss_refCount := 1\<rparr>"])
        (simp_all add: BeginServeCacheRelease_def None False z_def)
  next
    case (Some k)
    show ?thesis
      by (rule sc_refs_enter [OF r False Some]) (simp_all add: BeginServeCacheRelease_def Let_def Some False)
  qed
qed (simp add: BeginServeCacheRelease_def)

lemma length_filter_remove1: "x \<in> set xs \<Longrightarrow> length (filter (\<lambda>v. v = x) (remove1 x xs)) = length (filter (\<lambda>v. v = x) xs) - 1"
  by (induction xs) (auto simp: filter_empty_conv)

lemma length_filter_remove1_other: "y \<noteq> x \<Longrightarrow> filter (\<lambda>v. v = y) (remove1 x xs) = filter (\<lambda>v. v = y) xs"
  by (induction xs) auto

lemma sc_refs_leave:
  assumes "sc_refs s" "\<not> sc_stopped s" "(p, k) \<in> set (sc_serving s)" "gm_get (sc_cache s) p = Some k"
    "ss_refCount sess = ss_refCount (sc_sessions s ! k) - 1"
    "sc_cache s' = sc_cache s" "sc_stopped s' = sc_stopped s" "sc_sessions s' = (sc_sessions s)[k := sess]"
    "sc_serving s' = remove1 (p, k) (sc_serving s)"
  shows "sc_refs s'"
  by (rule sc_refs_serve [OF assms(1,2,4) _ _ _ assms(6-9)])
    (use assms(3,5) sc_refsD(2) [OF assms(1,4)] set_remove1_subset in
      \<open>auto simp: serving_of_def length_filter_remove1 length_filter_remove1_other\<close>)

lemma sc_refs_end:
  assumes "sc_refs s" "(p, k) \<in> set (sc_serving s)"
  shows "sc_refs (endServeCacheRelease idle p k s)"
proof (cases "sc_stopped s")
  case True
  then show ?thesis using assms(1) by (simp add: endServeCacheRelease_def Let_def sc_refs_def)
next
  case False
  have g: "gm_get (sc_cache s) p = Some k" using sc_refs_serving [OF assms(1) False assms(2)] .
  have "ss_refCount (sc_sessions s ! k) > 0"
    using sc_refsD(2) [OF assms(1) g] assms(2) by (auto simp: serving_of_def filter_empty_conv)
  define s' where "s' = s\<lparr>sc_serving := remove1 (p, k) (sc_serving s),
    sc_sessions := (sc_sessions s)[k := (sc_sessions s ! k)\<lparr>ss_refCount := ss_refCount (sc_sessions s ! k) - 1\<rparr>]\<rparr>"
  have "sc_refs s'" by (rule sc_refs_leave [OF assms(1) False assms(2) g]) (simp_all add: s'_def)
  have eq: "endServeCacheRelease idle p k s =
      (if ss_refCount (sc_sessions s ! k) - 1 > 0 then s' else scheduleServeCacheRelease p k (ss_generation (sc_sessions s ! k)) 1 idle s')"
    using \<open>ss_refCount (sc_sessions s ! k) > 0\<close> False g by (simp add: endServeCacheRelease_def Let_def s'_def)
  show ?thesis unfolding eq using \<open>sc_refs s'\<close> sc_refs_schedule [of s'] by simp
qed

lemma sc_refs_step: "sc_step idle final s s' \<Longrightarrow> sc_refs s \<Longrightarrow> sc_refs s'"
  by (induction rule: sc_step.induct)
    (simp_all add: sc_refs_begin sc_refs_end sc_refs_set_phase sc_refs_decide sc_refs_finish sc_refs_stop)

section \<open>The drops\<close>

text \<open>The session list only grows, and a session's generation and attempts only move on.\<close>

definition sess_le :: "serveCacheSession \<Rightarrow> serveCacheSession \<Rightarrow> bool" where
  "sess_le a b \<longleftrightarrow> ss_generation a < ss_generation b \<or> ss_generation a = ss_generation b \<and> ss_attempts a \<le> ss_attempts b"

definition sessions_le :: "serveCacheSession list \<Rightarrow> serveCacheSession list \<Rightarrow> bool" where
  "sessions_le xs ys \<longleftrightarrow> length xs \<le> length ys \<and> (\<forall>i < length xs. sess_le (xs ! i) (ys ! i))"

lemma sess_le_refl [simp]: "sess_le a a"
  by (simp add: sess_le_def)

lemma sessions_le_refl [simp]: "sessions_le xs xs"
  by (simp add: sessions_le_def)

lemma sessions_le_upd: "sessions_le xs ys \<Longrightarrow> (k < length xs \<Longrightarrow> sess_le (xs ! k) y) \<Longrightarrow> sessions_le xs (ys[k := y])"
proof -
  assume a: "sessions_le xs ys" "k < length xs \<Longrightarrow> sess_le (xs ! k) y"
  have "sess_le (xs ! i) (ys[k := y] ! i)" if "i < length xs" for i
    using a that by (cases "i = k") (auto simp: sessions_le_def)
  then show ?thesis using a(1) by (simp add: sessions_le_def)
qed

lemma sessions_le_upd_self: "sess_le (xs ! k) y \<Longrightarrow> sessions_le xs (xs[k := y])"
  by (rule sessions_le_upd) simp_all

lemma sessions_le_append [simp]: "sessions_le xs (xs @ ys)"
  by (simp add: sessions_le_def nth_append)

lemma drop_past_le: "drop_past xs d \<Longrightarrow> sessions_le xs ys \<Longrightarrow> drop_past ys d"
  by (auto simp: drop_past_def sessions_le_def sess_le_def)

text \<open>A step that decides on no drop.\<close>

lemma sc_log_cong:
  assumes "sc_log s" "sc_drops s' = sc_drops s" "sessions_le (sc_sessions s) (sc_sessions s')"
    "\<And>c. c \<in> set (sc_callbacks s') \<Longrightarrow> cb_attempt c \<in> {1, 2}"
  shows "sc_log s'"
  using assms drop_past_le unfolding sc_log_def by metis

lemma sc_log_attempt: "sc_log s \<Longrightarrow> c \<in> set (sc_callbacks s) \<Longrightarrow> cb_attempt c \<in> {1, 2}"
  by (simp add: sc_log_def)

lemma attempt_upd:
  assumes "\<And>c. c \<in> set cs \<Longrightarrow> cb_attempt c \<in> {1, 2}" "i < length cs"
  shows "c \<in> set (cs[i := (cs ! i)\<lparr>cb_phase := ph\<rparr>]) \<Longrightarrow> cb_attempt c \<in> {1, 2}"
proof -
  assume "c \<in> set (cs[i := (cs ! i)\<lparr>cb_phase := ph\<rparr>])"
  then have "c = (cs ! i)\<lparr>cb_phase := ph\<rparr> \<or> c \<in> set cs" using set_update_subset_insert by fast
  then show ?thesis using assms(1) [OF nth_mem [OF assms(2)]] assms(1) by auto
qed

lemma attempt_stop_timer:
  "(\<And>c. c \<in> set cs \<Longrightarrow> cb_attempt c \<in> {1, 2}) \<Longrightarrow> c \<in> set (stop_timer i cs) \<Longrightarrow> cb_attempt c \<in> {1, 2}"
  using attempt_upd [of cs i c Over] by (auto simp: stop_timer_def split: if_splits)

lemma attempt_set_phase:
  "sc_log s \<Longrightarrow> i < length (sc_callbacks s) \<Longrightarrow> c \<in> set (sc_callbacks (set_phase i ph s)) \<Longrightarrow> cb_attempt c \<in> {1, 2}"
  using attempt_upd [of "sc_callbacks s" i c ph] sc_log_attempt [of s] by (simp add: set_phase_def)

lemma sc_log_set_phase: "sc_log s \<Longrightarrow> i < length (sc_callbacks s) \<Longrightarrow> sc_log (set_phase i ph s)"
  by (rule sc_log_cong) (auto simp: set_phase_def dest: attempt_set_phase [unfolded set_phase_def])

lemma sc_log_schedule: "sc_log s \<Longrightarrow> a \<in> {1, 2} \<Longrightarrow> sc_log (scheduleServeCacheRelease p k gen a d s)"
  by (rule sc_log_cong)
    (auto simp: scheduleServeCacheRelease_def sess_le_def dest: sc_log_attempt intro!: sessions_le_upd_self)

lemma sc_log_cache: "sc_log s \<Longrightarrow> sc_log (s\<lparr>sc_cache := m\<rparr>)"
  by (simp add: sc_log_def)

lemma sc_log_finish: "sc_log s \<Longrightarrow> i < length (sc_callbacks s) \<Longrightarrow> sc_log (run_finish final i s)"
  using sc_log_schedule [OF sc_log_set_phase, of s i 2] sc_log_cache [OF sc_log_set_phase] sc_log_set_phase
  unfolding run_finish_def Let_def by simp

lemma sc_log_end: "sc_log s \<Longrightarrow> sc_log (endServeCacheRelease idle p k s)"
proof -
  assume l: "sc_log s"
  define s1 where "s1 = s\<lparr>sc_serving := remove1 (p, k) (sc_serving s)\<rparr>"
  define s2 where "s2 = s1\<lparr>sc_sessions := (sc_sessions s1)[k := (sc_sessions s1 ! k)\<lparr>ss_refCount := ss_refCount (sc_sessions s1 ! k) - 1\<rparr>]\<rparr>"
  have 1: "sc_log s1" using l by (simp add: s1_def sc_log_def)
  have 2: "sc_log s2"
    by (rule sc_log_cong [OF 1]) (auto simp: s2_def sess_le_def intro!: sessions_le_upd_self dest: sc_log_attempt [OF 1])
  show ?thesis
    unfolding endServeCacheRelease_def s1_def [symmetric] Let_def s2_def [symmetric]
    using 1 2 sc_log_schedule [OF 2, of 1] by simp
qed

lemma sc_log_begin: "sc_log s \<Longrightarrow> sc_log (BeginServeCacheRelease p s)"
proof (rule sc_log_cong)
  assume l: "sc_log s"
  show "sc_drops (BeginServeCacheRelease p s) = sc_drops s"
    by (simp add: BeginServeCacheRelease_def Let_def split: option.splits)
  show "sessions_le (sc_sessions s) (sc_sessions (BeginServeCacheRelease p s))"
    by (auto simp: BeginServeCacheRelease_def Let_def sess_le_def nth_append split: option.splits
        intro!: sessions_le_upd_self sessions_le_upd)
  show "cb_attempt c \<in> {1, 2}" if "c \<in> set (sc_callbacks (BeginServeCacheRelease p s))" for c
    using that attempt_stop_timer [of "sc_callbacks s" c] sc_log_attempt [OF l]
    by (auto simp: BeginServeCacheRelease_def Let_def split: option.splits if_splits)
qed

lemma attempt_fold_stop:
  "(\<And>c. c \<in> set cs \<Longrightarrow> cb_attempt c \<in> {1, 2}) \<Longrightarrow>
   c \<in> set (fold (\<lambda>e cs. case t e of None \<Rightarrow> cs | Some i \<Rightarrow> stop_timer i cs) es cs) \<Longrightarrow> cb_attempt c \<in> {1, 2}"
proof (induction es arbitrary: cs)
  case (Cons e es)
  show ?case
    by (rule Cons.IH [OF _ Cons.prems(2) [unfolded fold_simps]])
      (use Cons.prems(1) attempt_stop_timer [of cs] in \<open>auto split: option.splits\<close>)
qed simp

lemma sc_log_stop: "sc_log s \<Longrightarrow> sc_log (stopServeCacheRelease s)"
proof (rule sc_log_cong [where s = s])
  assume l: "sc_log s"
  show "cb_attempt c \<in> {1, 2}" if "c \<in> set (sc_callbacks (stopServeCacheRelease s))" for c
    using attempt_fold_stop [OF sc_log_attempt [OF l]] that unfolding stopServeCacheRelease_def by fastforce
qed (simp_all add: stopServeCacheRelease_def)

text \<open>A callback that decides finds a session with no sending, of its generation, and one attempt behind its own.\<close>

lemma decide_not_serving:
  assumes r: "sc_refs s" and n: "\<not> sc_stopped s" and g: "gm_get (sc_cache s) p = Some k" and z: "ss_refCount (sc_sessions s ! k) = 0"
  shows "filter (\<lambda>v. fst v = p) (sc_serving s) = []"
proof -
  have "(p, k') \<notin> set (sc_serving s)" for k'
  proof
    assume m: "(p, k') \<in> set (sc_serving s)"
    then have "k' = k" using sc_refs_serving [OF r n m] g by simp
    then show False using sc_refsD(2) [OF r g] z m by (auto simp: serving_of_def filter_empty_conv)
  qed
  then show ?thesis by (auto simp: filter_empty_conv)
qed

lemma sc_log_decide:
  assumes r: "sc_refs s" and l: "sc_log s" and i: "i < length (sc_callbacks s)"
  shows "sc_log (run_decide i s)"
proof -
  define c where "c = sc_callbacks s ! i"
  define k where "k = cb_session c"
  define sess where "sess = sc_sessions s ! k"
  show ?thesis
  proof (cases "sc_stopped s \<or> gm_get (sc_cache s) (cb_path c) \<noteq> Some k \<or> ss_generation sess \<noteq> cb_generation c
       \<or> ss_refCount sess > 0 \<or> ss_attempts sess + 1 \<noteq> cb_attempt c")
    case True
    then have "run_decide i s = set_phase i Over s" unfolding run_decide_def Let_def c_def k_def sess_def by simp
    then show ?thesis using sc_log_set_phase [OF l i] by simp
  next
    case False
    then have n: "\<not> sc_stopped s" and g: "gm_get (sc_cache s) (cb_path c) = Some k" and e: "ss_generation sess = cb_generation c"
      and z: "ss_refCount sess = 0" and a: "cb_attempt c = Suc (ss_attempts sess)" by simp_all
    define d where "d = \<lparr>dr_path = cb_path c, dr_session = k, dr_generation = cb_generation c, dr_attempt = cb_attempt c, dr_serving = 0\<rparr>"
    define ss where "ss = (sc_sessions s)[k := sess\<lparr>ss_timer := None, ss_attempts := cb_attempt c\<rparr>]"
    have k: "k < length (sc_sessions s)" using sc_refsD(1) [OF r g] .
    have f: "filter (\<lambda>v. fst v = cb_path c) (sc_serving s) = []"
      using decide_not_serving [OF r n g] z by (simp add: sess_def)
    have eq: "sc_drops (run_decide i s) = sc_drops s @ [d]" "sc_sessions (run_decide i s) = ss"
      "sc_callbacks (run_decide i s) = sc_callbacks (set_phase i Dropping s)"
      using False f unfolding run_decide_def Let_def c_def [symmetric] k_def [symmetric] sess_def [symmetric]
      by (simp_all add: set_phase_def d_def ss_def)
    have le: "sessions_le (sc_sessions s) ss"
      unfolding ss_def by (rule sessions_le_upd_self) (simp add: sess_le_def a sess_def)
    have new: "drop_past ss d" using k e by (simp add: drop_past_def ss_def d_def)
    have att: "dr_attempt d \<in> {1, 2}" using sc_log_attempt [OF l nth_mem [OF i]] by (simp add: d_def c_def)
    have fresh: "(dr_session d, dr_generation d, dr_attempt d) \<noteq> (dr_session d', dr_generation d', dr_attempt d')"
      if "d' \<in> set (sc_drops s)" for d'
      using l that e a by (auto simp: sc_log_def drop_past_def d_def sess_def)
    have old: "dr_attempt d' \<in> {1, 2} \<and> dr_serving d' = 0 \<and> drop_past ss d'" if "d' \<in> set (sc_drops s)" for d'
      using l that drop_past_le [OF _ le] by (auto simp: sc_log_def)
    have dist: "distinct (map (\<lambda>d. (dr_session d, dr_generation d, dr_attempt d)) (sc_drops s @ [d]))"
      using l fresh unfolding sc_log_def by (auto simp: image_iff)
    have cs: "\<forall>c \<in> set (sc_callbacks (set_phase i Dropping s)). cb_attempt c \<in> {1, 2}"
      using attempt_set_phase [OF l i] by blast
    have ds: "\<forall>d' \<in> set (sc_drops s @ [d]). dr_attempt d' \<in> {1, 2} \<and> dr_serving d' = 0 \<and> drop_past ss d'"
    proof
      fix d' assume "d' \<in> set (sc_drops s @ [d])"
      then have "d' = d \<or> d' \<in> set (sc_drops s)" by auto
      moreover have "dr_serving d = 0" by (simp add: d_def)
      ultimately show "dr_attempt d' \<in> {1, 2} \<and> dr_serving d' = 0 \<and> drop_past ss d'" using old new att by metis
    qed
    show ?thesis unfolding sc_log_def eq using cs ds dist by (intro conjI)
  qed
qed

lemma sc_log_step: "sc_step idle final s s' \<Longrightarrow> sc_refs s \<Longrightarrow> sc_log s \<Longrightarrow> sc_log s'"
  by (induction rule: sc_step.induct)
    (simp_all add: sc_log_begin sc_log_end sc_log_set_phase sc_log_decide sc_log_finish sc_log_stop)

lemma serve_cache_inv: "(sc_step idle final)\<^sup>*\<^sup>* new_serve_cache s \<Longrightarrow> sc_refs s \<and> sc_log s"
proof (induction rule: rtranclp_induct)
  case base
  show ?case by (simp add: new_serve_cache_def sc_refs_def sc_log_def)
next
  case (step s s')
  then show ?case using sc_refs_step sc_log_step by blast
qed

text \<open>Of every file the service has sent, the page cache is dropped only at moments decided on with no sending
  of the file under way, and after one period of use at most twice, as the first and as the final release:
  whatever the order in which sendings begin and end, timers fire and callbacks run.\<close>

lemma page_cache_dropped_when_idle:
  assumes "(sc_step idle final)\<^sup>*\<^sup>* new_serve_cache s"
  shows "(\<forall>d \<in> set (sc_drops s). dr_serving d = 0 \<and> dr_attempt d \<in> {1, 2}) \<and>
    distinct (map (\<lambda>d. (dr_session d, dr_generation d, dr_attempt d)) (sc_drops s))"
  using serve_cache_inv [OF assms] by (simp add: sc_log_def)

text \<open>Two overlapping sendings of one file, the release after the second, and the final one.\<close>

definition demo_serve :: serve_cache where
  "demo_serve = run_finish 300 1 (set_phase 1 Dropped (run_decide 1 (set_phase 1 Fired (run_finish 300 0 (set_phase 0 Dropped
    (run_decide 0 (set_phase 0 Fired (endServeCacheRelease 60 ''a'' 0 (endServeCacheRelease 60 ''a'' 0
      (BeginServeCacheRelease ''a'' (BeginServeCacheRelease ''a'' new_serve_cache)))))))))))"

lemma serve_cache_steps:
  "(sc_step idle final)\<^sup>*\<^sup>* a b \<Longrightarrow> sc_step idle final b c \<Longrightarrow> (sc_step idle final)\<^sup>*\<^sup>* a c"
  by (rule rtranclp.rtrancl_into_rtrancl)

lemmas serve_cache_begin = serve_cache_steps [OF _ begin']
lemmas serve_cache_end = serve_cache_steps [OF _ end']
lemmas serve_cache_fire = serve_cache_steps [OF _ fire]
lemmas serve_cache_decide = serve_cache_steps [OF _ decide]
lemmas serve_cache_drop = serve_cache_steps [OF _ drop']
lemmas serve_cache_finish = serve_cache_steps [OF _ finish]

lemma demo_serve_reachable: "(sc_step 60 300)\<^sup>*\<^sup>* new_serve_cache demo_serve"
  unfolding demo_serve_def
  by (rule serve_cache_finish serve_cache_drop serve_cache_decide serve_cache_fire serve_cache_end serve_cache_begin rtranclp.rtrancl_refl)+
    (code_simp)+

lemma demo_serve_eval: "map dr_attempt (sc_drops demo_serve) = [1, 2]" "sc_cache demo_serve = []"
  by code_simp+

lemma page_cache_dropped_when_idle_witness:
  "map dr_attempt (sc_drops demo_serve) = [1, 2] \<and> map dr_serving (sc_drops demo_serve) = [0, 0]"
  using page_cache_dropped_when_idle [OF demo_serve_reachable] demo_serve_eval(1) by (auto simp: map_eq_Cons_conv)

end
