(* ===== verification/DanmakuSession.thy ===== *)
theory DanmakuSession
  imports RecordFiles GoMap Backoff "HOL-Library.Sublist"
begin

text \<open>
  The danmaku recorder of a room (\<open>internal/services/danmaku/session.go\<close>, \<open>service.go\<close>): a connection
  goroutine queues the fragments it builds, a writer goroutine owns the sidecar files and changes file when the
  video does, and the recorder asks for rotations and for the removal of sidecars whose video has not been kept.
  Channels and the set of discards are fields of the session; each operation on them is one step, so that
  requests fall between any two steps of the writer. Of the writer pipeline the session sees whether it
  opens and whether it takes a chunk, and these answers are inputs.
\<close>

section \<open>State\<close>

text \<open>A request carries, for the statements only, how many fragments had been accepted when it was made.\<close>

record rotateRequest =
  rq_videoPath :: string
  rq_segmentStart :: int
  rq_seen :: nat

record format_encoder =
  fe_ext :: string
  fe_header :: "int \<Rightarrow> string"
  fe_footer :: string

text \<open>A segment's chunks, and how many fragments the writer had taken from the channel when it opened it.\<close>

record dm_segment =
  sg_path :: string
  sg_header :: string
  sg_frags :: "string list"
  sg_footer :: string
  sg_asked :: nat
  sg_taken :: nat

text \<open>The position of the writer goroutine: before its first file, in the select, draining the channel before a
  rotation, about to rotate, applying discards, about to stop, and at the end. Discards are applied from a snapshot
  and then again until the set is empty; what follows is the loop, one more application, or the end.\<close>

datatype resume = ToLoop | ToApply | ToEnd

datatype writer_at =
    AtOpen rotateRequest
  | AtSelect
  | AtDrain rotateRequest bool
  | AtRotate rotateRequest bool
  | AtApply "string list" resume
  | AtEnd
  | AtOver

record dm_session =
  dm_roomID :: int
  dm_encoder :: format_encoder
  dm_capacity :: nat
  dm_msgCh :: "string list"
  dm_closed :: bool
  dm_rotateCh :: "rotateRequest option"
  dm_discardCh :: bool
  dm_pendingDiscards :: "string list"
  dm_exiting :: bool
  dm_segmentStart :: int
  dm_dropped :: nat
  dm_writer :: bool
  dm_curPath :: string
  dm_at :: writer_at
  dm_received :: "string list"
  dm_taken :: nat
  dm_lost :: nat
  dm_segments :: "dm_segment list"

type_synonym dm_files = "string set"

definition newSession :: "int \<Rightarrow> format_encoder \<Rightarrow> nat \<Rightarrow> string \<Rightarrow> int \<Rightarrow> dm_session" where
  "newSession room enc cap videoPath start =
    \<lparr>dm_roomID = room, dm_encoder = enc, dm_capacity = cap, dm_msgCh = [], dm_closed = False, dm_rotateCh = None, dm_discardCh = False,
     dm_pendingDiscards = [], dm_exiting = False, dm_segmentStart = 0, dm_dropped = 0, dm_writer = False, dm_curPath = [],
     dm_at = AtOpen \<lparr>rq_videoPath = videoPath, rq_segmentStart = start, rq_seen = 0\<rparr>,
     dm_received = [], dm_taken = 0, dm_lost = 0, dm_segments = []\<rparr>"

section \<open>The connection goroutine\<close>

datatype overflow_policy = Block | Drop | OtherPolicy

text \<open>\<open>None\<close> means that the handler waits for space in the channel. An empty fragment is not queued.\<close>

definition dm_enqueue :: "overflow_policy \<Rightarrow> string \<Rightarrow> dm_session \<Rightarrow> dm_session option" where
  "dm_enqueue policy frag s =
    (if frag = [] then Some s
     else if policy = OtherPolicy then Some s
     else if length (dm_msgCh s) < dm_capacity s
     then Some (s\<lparr>dm_msgCh := dm_msgCh s @ [frag], dm_received := dm_received s @ [frag]\<rparr>)
     else if policy = Drop then Some (s\<lparr>dm_dropped := dm_dropped s + 1\<rparr>)
     else None)"

definition isDone :: "dm_session \<Rightarrow> bool" where
  "isDone s = dm_closed s"

text \<open>The delays between connections, from how long each has lasted; more than a minute starts the backoff anew.\<close>

definition reconnect_backoff :: Sequence where
  "reconnect_backoff = NewSequence [2000, 2000, 2000, 5000, 10000, 15000]"

fun supervise_delays :: "Sequence \<Rightarrow> int list \<Rightarrow> int list" where
  "supervise_delays bo [] = []"
| "supervise_delays bo (lasted # rest) =
    (case seq_Next (if lasted > 60000 then seq_Reset bo else bo) of
       None \<Rightarrow> []
     | Some (delay, bo) \<Rightarrow> delay # supervise_delays bo rest)"

definition supervise_exit :: "dm_session \<Rightarrow> dm_session" where
  "supervise_exit s = s\<lparr>dm_closed := True\<rparr>"

section \<open>The writer goroutine\<close>

definition sidecar :: "dm_session \<Rightarrow> string \<Rightarrow> string" where
  "sidecar s videoPath = PathForVideo videoPath (fe_ext (dm_encoder s))"

text \<open>\<open>opens\<close>: the directory and the file can be created; \<open>takes\<close>: the writer takes the header.\<close>

definition dm_openSegment :: "bool \<Rightarrow> bool \<Rightarrow> rotateRequest \<Rightarrow> dm_session \<times> dm_files \<Rightarrow> dm_session \<times> dm_files" where
  "dm_openSegment opens takes req = (\<lambda>(s, fs).
    if \<not> opens then (s, fs)
    else
      let p = sidecar s (rq_videoPath req); h = fe_header (dm_encoder s) (rq_segmentStart req) in
      (s\<lparr>dm_writer := True, dm_curPath := p, dm_segmentStart := rq_segmentStart req,
         dm_segments := dm_segments s @ [\<lparr>sg_path = p, sg_header = (if takes then h else []), sg_frags = [], sg_footer = [],
           sg_asked = rq_seen req, sg_taken = dm_taken s\<rparr>]\<rparr>, insert p fs))"

definition last_segment :: "(dm_segment \<Rightarrow> dm_segment) \<Rightarrow> dm_session \<Rightarrow> dm_session" where
  "last_segment f s = s\<lparr>dm_segments := butlast (dm_segments s) @ [f (List.last (dm_segments s))]\<rparr>"

definition finalizeSegment :: "bool \<Rightarrow> dm_session \<Rightarrow> dm_session" where
  "finalizeSegment takes s =
    (if \<not> dm_writer s then s
     else (last_segment (\<lambda>g. g\<lparr>sg_footer := if takes then fe_footer (dm_encoder s) else []\<rparr>) s)\<lparr>dm_writer := False\<rparr>)"

definition writeFragment :: "bool \<Rightarrow> string \<Rightarrow> dm_session \<Rightarrow> dm_session" where
  "writeFragment takes frag s =
    (if dm_writer s \<and> takes then last_segment (\<lambda>g. g\<lparr>sg_frags := sg_frags g @ [frag]\<rparr>) s
     else s\<lparr>dm_lost := dm_lost s + 1\<rparr>)"

definition take_fragment :: "bool \<Rightarrow> dm_session \<Rightarrow> dm_session" where
  "take_fragment takes s =
    writeFragment takes (hd (dm_msgCh s)) (s\<lparr>dm_msgCh := tl (dm_msgCh s), dm_taken := dm_taken s + 1\<rparr>)"

definition dm_removeSidecarFile :: "(string \<Rightarrow> bool) \<Rightarrow> string \<Rightarrow> dm_files \<Rightarrow> dm_files" where
  "dm_removeSidecarFile locked p fs = (if locked p then fs else fs - {p})"

definition abandonCurrentSidecar :: "(string \<Rightarrow> bool) \<Rightarrow> dm_session \<times> dm_files \<Rightarrow> dm_session \<times> dm_files" where
  "abandonCurrentSidecar locked = (\<lambda>(s, fs).
    if \<not> dm_writer s then (s, fs)
    else (s\<lparr>dm_writer := False, dm_curPath := []\<rparr>, dm_removeSidecarFile locked (dm_curPath s) fs))"

definition applyOneDiscard :: "(string \<Rightarrow> bool) \<Rightarrow> string \<Rightarrow> dm_session \<times> dm_files \<Rightarrow> dm_session \<times> dm_files" where
  "applyOneDiscard locked videoPath = (\<lambda>(s, fs).
    if dm_writer s \<and> sidecar s videoPath = dm_curPath s then abandonCurrentSidecar locked (s, fs)
    else (s, dm_removeSidecarFile locked (sidecar s videoPath) fs))"

definition stopWriteLoop :: "bool \<Rightarrow> dm_session \<Rightarrow> dm_session" where
  "stopWriteLoop takes s = (finalizeSegment takes s)\<lparr>dm_exiting := True, dm_at := AtApply [] ToEnd\<rparr>"

text \<open>The goroutine opens its first file; it accepts a rotation, and drains the channel for it; it accepts the
  signal of a discard, taking a rotation that waits first; it rotates.\<close>

definition first_segment :: "bool \<Rightarrow> bool \<Rightarrow> rotateRequest \<Rightarrow> dm_session \<times> dm_files \<Rightarrow> dm_session \<times> dm_files" where
  "first_segment opens takes req sf = (case dm_openSegment opens takes req sf of (s, fs) \<Rightarrow> (s\<lparr>dm_at := AtSelect\<rparr>, fs))"

definition accept_rotate :: "rotateRequest \<Rightarrow> bool \<Rightarrow> dm_session \<Rightarrow> dm_session" where
  "accept_rotate req again s = s\<lparr>dm_rotateCh := None, dm_at := AtDrain req again\<rparr>"

definition accept_discard :: "dm_session \<Rightarrow> dm_session" where
  "accept_discard s0 =
    (let s = s0\<lparr>dm_discardCh := False\<rparr> in
     case dm_rotateCh s of
       Some req \<Rightarrow> accept_rotate req True s
     | None \<Rightarrow> s\<lparr>dm_at := AtApply [] ToLoop\<rparr>)"

definition rotateSegment :: "bool \<Rightarrow> bool \<Rightarrow> bool \<Rightarrow> rotateRequest \<Rightarrow> bool \<Rightarrow> dm_session \<times> dm_files \<Rightarrow> dm_session \<times> dm_files" where
  "rotateSegment footer opens takes req again = (\<lambda>(s, fs).
    case dm_openSegment opens takes req (finalizeSegment footer s, fs) of
      (s, fs) \<Rightarrow> (s\<lparr>dm_at := AtApply [] (if again then ToApply else ToLoop)\<rparr>, fs))"

text \<open>One iteration of the applications.\<close>

definition apply_next :: "(string \<Rightarrow> bool) \<Rightarrow> string list \<Rightarrow> resume \<Rightarrow> dm_session \<times> dm_files \<Rightarrow> dm_session \<times> dm_files" where
  "apply_next locked snapshot resume = (\<lambda>(s, fs).
    case snapshot of
      [] \<Rightarrow>
        if dm_pendingDiscards s = []
        then (s\<lparr>dm_at := (case resume of ToLoop \<Rightarrow> AtSelect | ToApply \<Rightarrow> AtApply [] ToLoop | ToEnd \<Rightarrow> AtEnd)\<rparr>, fs)
        else (s\<lparr>dm_at := AtApply (dm_pendingDiscards s) resume\<rparr>, fs)
    | p # ps \<Rightarrow>
        let s1 = s\<lparr>dm_at := AtApply ps resume\<rparr> in
        if p \<in> set (dm_pendingDiscards s)
        then applyOneDiscard locked p (s1\<lparr>dm_pendingDiscards := removeAll p (dm_pendingDiscards s)\<rparr>, fs)
        else (s1, fs))"

section \<open>The service\<close>

text \<open>A discard that found a session: the path has been added, the signal sent, the exit seen, or it is over.\<close>

datatype discard_at = Added | Signaled | Removing | Ended

record discard =
  di_videoPath :: string
  di_session :: nat
  di_at :: discard_at
  di_late :: bool

record dm_service =
  dv_outputFormat :: format_encoder
  dv_capacity :: nat
  dv_sessions :: "(int, nat) gomap"
  dv_all :: "dm_session list"
  dv_files :: dm_files
  dv_discards :: "discard list"

definition new_dm_service :: "format_encoder \<Rightarrow> nat \<Rightarrow> dm_service" where
  "new_dm_service enc cap = \<lparr>dv_outputFormat = enc, dv_capacity = cap, dv_sessions = gm_empty, dv_all = [], dv_files = {}, dv_discards = []\<rparr>"

definition removeSession :: "int \<Rightarrow> nat \<Rightarrow> dm_service \<Rightarrow> dm_service" where
  "removeSession room i v =
    (if gm_get (dv_sessions v) room = Some i then v\<lparr>dv_sessions := gm_del room (dv_sessions v)\<rparr> else v)"

definition StartSession :: "int \<Rightarrow> string \<Rightarrow> int \<Rightarrow> dm_service \<Rightarrow> dm_service" where
  "StartSession room videoPath start v =
    (let store = (\<lambda>v. v\<lparr>dv_sessions := gm_put room (length (dv_all v)) (dv_sessions v),
           dv_all := dv_all v @ [newSession room (dv_outputFormat v) (dv_capacity v) videoPath start]\<rparr>)
     in case gm_get (dv_sessions v) room of
          Some i \<Rightarrow> if \<not> isDone (dv_all v ! i) then v else store (removeSession room i v)
        | None \<Rightarrow> store v)"

definition IsSessionActive :: "int \<Rightarrow> dm_service \<Rightarrow> bool" where
  "IsSessionActive room v = (case gm_get (dv_sessions v) room of None \<Rightarrow> False | Some i \<Rightarrow> \<not> isDone (dv_all v ! i))"

definition ActiveSessions :: "dm_service \<Rightarrow> nat" where
  "ActiveSessions v = gm_len (dv_sessions v)"

definition GetDropped :: "int \<Rightarrow> dm_service \<Rightarrow> nat" where
  "GetDropped room v = (case gm_get (dv_sessions v) room of None \<Rightarrow> 0 | Some i \<Rightarrow> dm_dropped (dv_all v ! i))"

definition upd_session :: "nat \<Rightarrow> (dm_session \<Rightarrow> dm_session) \<Rightarrow> dm_service \<Rightarrow> dm_service" where
  "upd_session i f v = v\<lparr>dv_all := (dv_all v)[i := f (dv_all v ! i)]\<rparr>"

text \<open>The rotations of a room come from its recorder, one after the other: the second attempt always succeeds.\<close>

definition Rotate :: "int \<Rightarrow> string \<Rightarrow> int \<Rightarrow> dm_service \<Rightarrow> dm_service" where
  "Rotate room videoPath start v =
    (case gm_get (dv_sessions v) room of
       None \<Rightarrow> v
     | Some i \<Rightarrow> upd_session i (\<lambda>s. s\<lparr>dm_rotateCh :=
         Some \<lparr>rq_videoPath = videoPath, rq_segmentStart = start, rq_seen = length (dm_received s)\<rparr>\<rparr>) v)"

text \<open>The first part of \<open>Discard\<close>: without a session the sidecar is removed at once.\<close>

definition Discard :: "(string \<Rightarrow> bool) \<Rightarrow> int \<Rightarrow> string \<Rightarrow> dm_service \<Rightarrow> dm_service" where
  "Discard locked room videoPath v =
    (if videoPath = [] then v
     else case gm_get (dv_sessions v) room of
       None \<Rightarrow> v\<lparr>dv_files := dm_removeSidecarFile locked (PathForVideo videoPath (fe_ext (dv_outputFormat v))) (dv_files v)\<rparr>
     | Some i \<Rightarrow>
         (upd_session i (\<lambda>s. s\<lparr>dm_pendingDiscards := List.insert videoPath (dm_pendingDiscards s)\<rparr>) v)
           \<lparr>dv_discards := dv_discards v @ [\<lparr>di_videoPath = videoPath, di_session = i, di_at = Added, di_late = False\<rparr>]\<rparr>)"

definition set_discard :: "nat \<Rightarrow> discard_at \<Rightarrow> dm_service \<Rightarrow> dm_service" where
  "set_discard j a v = v\<lparr>dv_discards := (dv_discards v)[j := (dv_discards v ! j)\<lparr>di_at := a\<rparr>]\<rparr>"

text \<open>Its other parts: the signal, the look at \<open>exiting\<close>, and the removal.\<close>

definition queueDiscard_signal :: "nat \<Rightarrow> dm_service \<Rightarrow> dm_service" where
  "queueDiscard_signal j v = set_discard j Signaled (upd_session (di_session (dv_discards v ! j)) (\<lambda>s. s\<lparr>dm_discardCh := True\<rparr>) v)"

definition discard_check :: "nat \<Rightarrow> dm_service \<Rightarrow> dm_service" where
  "discard_check j v = set_discard j (if dm_exiting (dv_all v ! di_session (dv_discards v ! j)) then Removing else Ended) v"

definition discard_remove :: "(string \<Rightarrow> bool) \<Rightarrow> nat \<Rightarrow> dm_service \<Rightarrow> dm_service" where
  "discard_remove locked j v = (set_discard j Ended v)\<lparr>dv_files :=
     dm_removeSidecarFile locked (PathForVideo (di_videoPath (dv_discards v ! j)) (fe_ext (dv_outputFormat v))) (dv_files v)\<rparr>"

section \<open>Steps\<close>

definition put_session :: "nat \<Rightarrow> dm_session \<times> dm_files \<Rightarrow> dm_service \<Rightarrow> dm_service" where
  "put_session i sf v = v\<lparr>dv_all := (dv_all v)[i := fst sf], dv_files := snd sf\<rparr>"

text \<open>When a session opens a sidecar, the discards of that sidecar which it has not still to apply have come too early.\<close>

definition mark_late :: "nat \<Rightarrow> string \<Rightarrow> dm_service \<Rightarrow> dm_service" where
  "mark_late i p v = v\<lparr>dv_discards := map (\<lambda>d.
     if PathForVideo (di_videoPath d) (fe_ext (dv_outputFormat v)) = p
       \<and> \<not> (di_session d = i \<and> di_videoPath d \<in> set (dm_pendingDiscards (dv_all v ! i)))
     then d\<lparr>di_late := True\<rparr> else d) (dv_discards v)\<rparr>"

definition opened_by :: "nat \<Rightarrow> rotateRequest \<Rightarrow> dm_service \<Rightarrow> dm_service" where
  "opened_by i req v = mark_late i (PathForVideo (rq_videoPath req) (fe_ext (dv_outputFormat v))) v"

inductive dm_step :: "(string \<Rightarrow> bool) \<Rightarrow> dm_service \<Rightarrow> dm_service \<Rightarrow> bool" for locked :: "string \<Rightarrow> bool" where
  start: "dm_step locked v (StartSession room videoPath t v)"
| enqueue: "i < length (dv_all v) \<Longrightarrow> \<not> dm_closed (dv_all v ! i) \<Longrightarrow> dm_enqueue policy frag (dv_all v ! i) = Some s \<Longrightarrow>
    dm_step locked v (upd_session i (\<lambda>_. s) v)"
| disconnect: "i < length (dv_all v) \<Longrightarrow> dm_step locked v (upd_session i supervise_exit v)"
| rotate: "dm_step locked v (Rotate room videoPath t v)"
| discard: "dm_step locked v (Discard locked room videoPath v)"
| signal: "j < length (dv_discards v) \<Longrightarrow> di_at (dv_discards v ! j) = Added \<Longrightarrow> dm_step locked v (queueDiscard_signal j v)"
| check: "j < length (dv_discards v) \<Longrightarrow> di_at (dv_discards v ! j) = Signaled \<Longrightarrow> dm_step locked v (discard_check j v)"
| remove: "j < length (dv_discards v) \<Longrightarrow> di_at (dv_discards v ! j) = Removing \<Longrightarrow> dm_step locked v (discard_remove locked j v)"
| open_first: "i < length (dv_all v) \<Longrightarrow> dm_at (dv_all v ! i) = AtOpen req \<Longrightarrow>
    dm_step locked v (put_session i (first_segment opens takes req (dv_all v ! i, dv_files v)) (opened_by i req v))"
| write_next: "i < length (dv_all v) \<Longrightarrow> dm_at (dv_all v ! i) = AtSelect \<Longrightarrow> dm_msgCh (dv_all v ! i) \<noteq> [] \<Longrightarrow>
    dm_step locked v (upd_session i (take_fragment takes) v)"
| stop: "i < length (dv_all v) \<Longrightarrow> dm_at (dv_all v ! i) = AtSelect \<Longrightarrow> dm_msgCh (dv_all v ! i) = [] \<Longrightarrow> dm_closed (dv_all v ! i) \<Longrightarrow>
    dm_step locked v (upd_session i (stopWriteLoop takes) v)"
| on_rotate: "i < length (dv_all v) \<Longrightarrow> dm_at (dv_all v ! i) = AtSelect \<Longrightarrow> dm_rotateCh (dv_all v ! i) = Some req \<Longrightarrow>
    dm_step locked v (upd_session i (accept_rotate req False) v)"
| on_discard: "i < length (dv_all v) \<Longrightarrow> dm_at (dv_all v ! i) = AtSelect \<Longrightarrow> dm_discardCh (dv_all v ! i) \<Longrightarrow>
    dm_step locked v (upd_session i accept_discard v)"
| drain: "i < length (dv_all v) \<Longrightarrow> dm_at (dv_all v ! i) = AtDrain req again \<Longrightarrow> dm_msgCh (dv_all v ! i) \<noteq> [] \<Longrightarrow>
    dm_step locked v (upd_session i (take_fragment takes) v)"
| drained: "i < length (dv_all v) \<Longrightarrow> dm_at (dv_all v ! i) = AtDrain req again \<Longrightarrow> dm_msgCh (dv_all v ! i) = [] \<Longrightarrow>
    \<not> dm_closed (dv_all v ! i) \<Longrightarrow> dm_step locked v (upd_session i (\<lambda>s. s\<lparr>dm_at := AtRotate req again\<rparr>) v)"
| drain_stop: "i < length (dv_all v) \<Longrightarrow> dm_at (dv_all v ! i) = AtDrain req again \<Longrightarrow> dm_msgCh (dv_all v ! i) = [] \<Longrightarrow>
    dm_closed (dv_all v ! i) \<Longrightarrow> dm_step locked v (upd_session i (stopWriteLoop takes) v)"
| rotate_segment: "i < length (dv_all v) \<Longrightarrow> dm_at (dv_all v ! i) = AtRotate req again \<Longrightarrow>
    dm_step locked v (put_session i (rotateSegment footer opens takes req again (dv_all v ! i, dv_files v)) (opened_by i req v))"
| apply_discards: "i < length (dv_all v) \<Longrightarrow> dm_at (dv_all v ! i) = AtApply ps resume \<Longrightarrow>
    dm_step locked v (put_session i (apply_next locked ps resume (dv_all v ! i, dv_files v)) v)"
| leave: "i < length (dv_all v) \<Longrightarrow> dm_at (dv_all v ! i) = AtEnd \<Longrightarrow>
    dm_step locked v (removeSession (dm_roomID (dv_all v ! i)) i (upd_session i (\<lambda>s. s\<lparr>dm_at := AtOver\<rparr>) v))"

section \<open>Fragments in order\<close>

text \<open>What a session has received is what the writer has taken and what waits; its segments have the fragments
  taken, in order, without those the writer pipeline refused; and every segment starts after what had been received
  when its rotation was asked for.\<close>

definition at_request :: "writer_at \<Rightarrow> rotateRequest option" where
  "at_request a = (case a of AtOpen r \<Rightarrow> Some r | AtRotate r _ \<Rightarrow> Some r | _ \<Rightarrow> None)"

definition segs_ok :: "string list \<Rightarrow> nat \<Rightarrow> dm_segment list \<Rightarrow> bool" where
  "segs_ok rcv n gs \<longleftrightarrow> subseq (concat (map sg_frags gs)) (take n rcv) \<and>
    (\<forall>k < length gs. sg_asked (gs ! k) \<le> sg_taken (gs ! k) \<and> sg_taken (gs ! k) \<le> n \<and>
       subseq (concat (map sg_frags (take k gs))) (take (sg_taken (gs ! k)) rcv) \<and>
       subseq (concat (map sg_frags (drop k gs))) (drop (sg_taken (gs ! k)) (take n rcv)))"

definition frags_ok :: "dm_session \<Rightarrow> bool" where
  "frags_ok s \<longleftrightarrow>
    drop (dm_taken s) (dm_received s) = dm_msgCh s \<and> dm_taken s + length (dm_msgCh s) = length (dm_received s) \<and>
    segs_ok (dm_received s) (dm_taken s) (dm_segments s) \<and>
    length (concat (map sg_frags (dm_segments s))) + dm_lost s = dm_taken s \<and>
    (dm_writer s \<longrightarrow> dm_segments s \<noteq> []) \<and>
    (\<forall>r. at_request (dm_at s) = Some r \<longrightarrow> rq_seen r \<le> dm_taken s) \<and>
    (\<forall>r a. dm_at s = AtDrain r a \<longrightarrow> rq_seen r \<le> length (dm_received s)) \<and>
    (\<forall>r. dm_rotateCh s = Some r \<longrightarrow> rq_seen r \<le> length (dm_received s))"

text \<open>The statement sees of a segment only its fragments and the two numbers.\<close>

lemma segs_ok_cong:
  assumes "map sg_frags gs' = map sg_frags gs" "map sg_asked gs' = map sg_asked gs" "map sg_taken gs' = map sg_taken gs"
  shows "segs_ok rcv n gs' = segs_ok rcv n gs"
proof -
  have l: "length gs' = length gs" using assms(1) by (rule map_eq_imp_length_eq)
  have t: "map sg_frags (take k gs') = map sg_frags (take k gs)" "map sg_frags (drop k gs') = map sg_frags (drop k gs)" for k
    using assms(1) by (simp_all add: take_map [symmetric] drop_map [symmetric])
  have a: "sg_asked (gs' ! k) = sg_asked (gs ! k)" "sg_taken (gs' ! k) = sg_taken (gs ! k)" if "k < length gs" for k
    using arg_cong [OF assms(2), of "\<lambda>xs. xs ! k"] arg_cong [OF assms(3), of "\<lambda>xs. xs ! k"] that l by simp_all
  show ?thesis unfolding segs_ok_def assms(1) l t using a by auto
qed

lemma segs_ok_received: "segs_ok rcv n gs \<Longrightarrow> n \<le> length rcv \<Longrightarrow> segs_ok (rcv @ [f]) n gs"
  unfolding segs_ok_def by auto

lemma segs_ok_next:
  assumes ok: "segs_ok rcv n gs" and n: "n < length rcv"
  shows "segs_ok rcv (Suc n) gs"
proof -
  have t: "take (Suc n) rcv = take n rcv @ [rcv ! n]" using n by (rule take_Suc_conv_app_nth)
  show ?thesis using ok n unfolding segs_ok_def t by (auto simp: drop_append intro: subseq_rev_drop_many)
qed

lemma segs_ok_write:
  assumes ok: "segs_ok rcv n gs" and n: "n < length rcv" and g: "gs \<noteq> []"
  shows "segs_ok rcv (Suc n) (butlast gs @ [(List.last gs)\<lparr>sg_frags := sg_frags (List.last gs) @ [rcv ! n]\<rparr>])" (is "segs_ok _ _ ?gs")
proof -
  define h where "h = List.last gs"
  define bs where "bs = butlast gs"
  have gs: "gs = bs @ [h]" using g by (simp add: h_def bs_def)
  have t: "take (Suc n) rcv = take n rcv @ [rcv ! n]" using n by (rule take_Suc_conv_app_nth)
  have app: "subseq (xs @ [y]) (zs @ [y])" if "subseq xs zs" for xs zs and y :: string
    using that by (rule list_emb_append_mono) simp
  have b: "sg_asked (gs ! k) \<le> sg_taken (gs ! k)" "sg_taken (gs ! k) \<le> n"
    "subseq (concat (map sg_frags (take k gs))) (take (sg_taken (gs ! k)) rcv)"
    "subseq (concat (map sg_frags (drop k gs))) (drop (sg_taken (gs ! k)) (take n rcv))" if "k < length gs" for k
    using ok that unfolding segs_ok_def by auto
  have "subseq (concat (map sg_frags ?gs)) (take (Suc n) rcv)"
    using ok app [of "concat (map sg_frags gs)" "take n rcv" "rcv ! n"] unfolding segs_ok_def t by (simp add: gs)
  moreover have "sg_asked (?gs ! k) \<le> sg_taken (?gs ! k) \<and> sg_taken (?gs ! k) \<le> Suc n \<and>
       subseq (concat (map sg_frags (take k ?gs))) (take (sg_taken (?gs ! k)) rcv) \<and>
       subseq (concat (map sg_frags (drop k ?gs))) (drop (sg_taken (?gs ! k)) (take (Suc n) rcv))" if k: "k < length ?gs" for k
  proof -
    have k': "k < length gs" and kb: "k \<le> length bs" using k by (simp_all add: gs)
    have e: "sg_asked (?gs ! k) = sg_asked (gs ! k)" "sg_taken (?gs ! k) = sg_taken (gs ! k)"
      using kb by (simp_all add: gs nth_append)
    have d: "drop (sg_taken (gs ! k)) (take (Suc n) rcv) = drop (sg_taken (gs ! k)) (take n rcv) @ [rcv ! n]"
      using b(2) [OF k'] n by (simp add: t)
    have tk: "take k ?gs = take k gs" using kb by (simp add: gs)
    have dk: "concat (map sg_frags (drop k ?gs)) = concat (map sg_frags (drop k gs)) @ [rcv ! n]"
      using kb by (simp add: gs)
    show ?thesis unfolding e d tk dk using b [OF k'] app by simp
  qed
  ultimately show ?thesis unfolding segs_ok_def by blast
qed

lemma segs_ok_open:
  assumes ok: "segs_ok rcv n gs" and f: "sg_frags g = []" "sg_asked g \<le> sg_taken g" "sg_taken g = n"
  shows "segs_ok rcv n (gs @ [g])"
  using ok f unfolding segs_ok_def by (auto simp: nth_append less_Suc_eq)

text \<open>An operation that leaves the fragments alone, and the operations of the writer.\<close>

lemma frags_ok_cong:
  assumes "frags_ok s" "dm_received s' = dm_received s" "dm_taken s' = dm_taken s" "dm_msgCh s' = dm_msgCh s" "dm_lost s' = dm_lost s"
    "dm_segments s' = dm_segments s" "dm_writer s' \<longrightarrow> dm_writer s"
    "\<And>r. at_request (dm_at s') = Some r \<Longrightarrow> rq_seen r \<le> dm_taken s"
    "\<And>r a. dm_at s' = AtDrain r a \<Longrightarrow> rq_seen r \<le> length (dm_received s)"
    "\<And>r. dm_rotateCh s' = Some r \<Longrightarrow> rq_seen r \<le> length (dm_received s)"
  shows "frags_ok s'"
  using assms unfolding frags_ok_def by auto

lemma frags_okD:
  assumes "frags_ok s"
  shows "drop (dm_taken s) (dm_received s) = dm_msgCh s" "dm_taken s + length (dm_msgCh s) = length (dm_received s)"
    "segs_ok (dm_received s) (dm_taken s) (dm_segments s)" "length (concat (map sg_frags (dm_segments s))) + dm_lost s = dm_taken s"
    "dm_writer s \<Longrightarrow> dm_segments s \<noteq> []" "at_request (dm_at s) = Some r \<Longrightarrow> rq_seen r \<le> dm_taken s"
    "dm_at s = AtDrain r a \<Longrightarrow> rq_seen r \<le> length (dm_received s)" "dm_rotateCh s = Some r \<Longrightarrow> rq_seen r \<le> length (dm_received s)"
  using assms unfolding frags_ok_def by auto

lemma frags_ok_enqueue: "frags_ok s \<Longrightarrow> dm_enqueue policy frag s = Some s' \<Longrightarrow> frags_ok s'"
proof -
  assume ok: "frags_ok s" and e: "dm_enqueue policy frag s = Some s'"
  have r: "frags_ok (s\<lparr>dm_msgCh := dm_msgCh s @ [frag], dm_received := dm_received s @ [frag]\<rparr>)"
    using frags_okD [OF ok] segs_ok_received [OF frags_okD(3) [OF ok]] unfolding frags_ok_def
    by (auto simp: le_SucI)
  have d: "frags_ok (s\<lparr>dm_dropped := dm_dropped s + 1\<rparr>)" using ok by (simp add: frags_ok_def)
  show ?thesis using e ok r d by (auto simp: dm_enqueue_def split: if_splits)
qed

lemma frags_ok_take:
  assumes ok: "frags_ok s" and m: "dm_msgCh s \<noteq> []"
  shows "frags_ok (take_fragment takes s)"
proof -
  have n: "dm_taken s < length (dm_received s)" using frags_okD(2) [OF ok] m by (cases "dm_msgCh s") simp_all
  have h: "hd (dm_msgCh s) = dm_received s ! dm_taken s" "tl (dm_msgCh s) = drop (Suc (dm_taken s)) (dm_received s)"
    using frags_okD(1) [OF ok] n by (simp_all add: hd_drop_conv_nth [symmetric] drop_Suc tl_drop flip: frags_okD(1) [OF ok])
  have le: "rq_seen r \<le> Suc (dm_taken s)" if "at_request (dm_at s) = Some r" for r
    using frags_okD(6) [OF ok that] by simp
  show ?thesis
  proof (cases "dm_writer s \<and> takes")
    case True
    then have g: "dm_segments s \<noteq> []" using frags_okD(5) [OF ok] by simp
    have len: "length (concat (map sg_frags (butlast (dm_segments s) @ [(List.last (dm_segments s))\<lparr>sg_frags := sg_frags (List.last (dm_segments s)) @ [dm_received s ! dm_taken s]\<rparr>])))
        = Suc (length (concat (map sg_frags (dm_segments s))))"
    proof -
      have "dm_segments s = butlast (dm_segments s) @ [List.last (dm_segments s)]" using g by simp
      then have "length (concat (map sg_frags (dm_segments s))) =
          length (concat (map sg_frags (butlast (dm_segments s) @ [List.last (dm_segments s)])))" by metis
      then show ?thesis by simp
    qed
    show ?thesis
      unfolding frags_ok_def take_fragment_def writeFragment_def last_segment_def h
      using True n len frags_okD [OF ok] segs_ok_write [OF frags_okD(3) [OF ok] n g] le by simp
  next
    case False
    then have e: "take_fragment takes s = s\<lparr>dm_msgCh := drop (Suc (dm_taken s)) (dm_received s), dm_taken := dm_taken s + 1, dm_lost := dm_lost s + 1\<rparr>"
      unfolding take_fragment_def writeFragment_def h by auto
    show ?thesis
      unfolding frags_ok_def e
      using n frags_okD [OF ok] segs_ok_next [OF frags_okD(3) [OF ok] n] le by simp
  qed
qed

lemma frags_ok_finalize: "frags_ok s \<Longrightarrow> frags_ok (finalizeSegment takes s)"
proof -
  assume ok: "frags_ok s"
  define gs where "gs = butlast (dm_segments s) @ [(List.last (dm_segments s))\<lparr>sg_footer := if takes then fe_footer (dm_encoder s) else []\<rparr>]"
  show ?thesis
  proof (cases "dm_writer s")
    case True
    then have e: "dm_segments s = butlast (dm_segments s) @ [List.last (dm_segments s)]" using frags_okD(5) [OF ok] by simp
    have m: "map sg_frags gs = map sg_frags (dm_segments s)" "map sg_asked gs = map sg_asked (dm_segments s)"
      "map sg_taken gs = map sg_taken (dm_segments s)"
      unfolding gs_def by (subst (3) e, simp)+
    show ?thesis
      using True frags_okD [OF ok] segs_ok_cong [OF m] m(1)
      unfolding frags_ok_def finalizeSegment_def last_segment_def gs_def [symmetric] by simp
  qed (simp add: finalizeSegment_def ok)
qed

lemma finalize_keeps:
  "dm_taken (finalizeSegment takes s) = dm_taken s" "dm_received (finalizeSegment takes s) = dm_received s"
  "dm_at (finalizeSegment takes s) = dm_at s" "dm_rotateCh (finalizeSegment takes s) = dm_rotateCh s"
  "dm_pendingDiscards (finalizeSegment takes s) = dm_pendingDiscards s" "dm_encoder (finalizeSegment takes s) = dm_encoder s"
  "dm_exiting (finalizeSegment takes s) = dm_exiting s" "dm_writer (finalizeSegment takes s) = False"
  "dm_roomID (finalizeSegment takes s) = dm_roomID s"
  by (simp_all add: finalizeSegment_def last_segment_def)

lemma frags_ok_at:
  "frags_ok s \<Longrightarrow> at_request a = None \<Longrightarrow> (\<And>r b. a \<noteq> AtDrain r b) \<Longrightarrow> frags_ok (s\<lparr>dm_at := a\<rparr>)"
  by (rule frags_ok_cong [where s = s]) (auto dest: frags_okD(8))

lemma frags_ok_exiting: "frags_ok s \<Longrightarrow> frags_ok (s\<lparr>dm_exiting := b\<rparr>)"
  by (simp add: frags_ok_def)

lemma frags_ok_stop: "frags_ok s \<Longrightarrow> frags_ok (stopWriteLoop takes s)"
  using frags_ok_at [OF frags_ok_exiting [OF frags_ok_finalize], of s "AtApply [] ToEnd"] by (simp add: stopWriteLoop_def at_request_def)

lemma frags_ok_openSegment:
  assumes ok: "frags_ok s" and r: "rq_seen req \<le> dm_taken s"
  shows "frags_ok (fst (dm_openSegment opens takes req (s, fs)))"
proof (cases opens)
  case True
  define g where "g = \<lparr>sg_path = sidecar s (rq_videoPath req), sg_header = (if takes then fe_header (dm_encoder s) (rq_segmentStart req) else []),
    sg_frags = [], sg_footer = [], sg_asked = rq_seen req, sg_taken = dm_taken s\<rparr>"
  have "segs_ok (dm_received s) (dm_taken s) (dm_segments s @ [g])"
    by (rule segs_ok_open [OF frags_okD(3) [OF ok]]) (simp_all add: g_def r)
  then show ?thesis
    using frags_okD [OF ok] True unfolding frags_ok_def dm_openSegment_def Let_def prod.case g_def [symmetric]
    by (simp add: g_def)
qed (simp add: dm_openSegment_def ok)

lemma openSegment_keeps:
  "dm_taken (fst (dm_openSegment opens takes req (s, fs))) = dm_taken s" "dm_received (fst (dm_openSegment opens takes req (s, fs))) = dm_received s"
  "dm_at (fst (dm_openSegment opens takes req (s, fs))) = dm_at s" "dm_rotateCh (fst (dm_openSegment opens takes req (s, fs))) = dm_rotateCh s"
  "dm_pendingDiscards (fst (dm_openSegment opens takes req (s, fs))) = dm_pendingDiscards s"
  "dm_encoder (fst (dm_openSegment opens takes req (s, fs))) = dm_encoder s"
  "dm_exiting (fst (dm_openSegment opens takes req (s, fs))) = dm_exiting s"
  "dm_roomID (fst (dm_openSegment opens takes req (s, fs))) = dm_roomID s"
  by (simp_all add: dm_openSegment_def Let_def)

lemma frags_ok_first:
  "frags_ok s \<Longrightarrow> rq_seen req \<le> dm_taken s \<Longrightarrow> frags_ok (fst (first_segment opens takes req (s, fs)))"
  using frags_ok_at [OF frags_ok_openSegment, of s req AtSelect opens takes fs] by (simp add: first_segment_def at_request_def case_prod_beta)

lemma frags_ok_rotate:
  assumes ok: "frags_ok s" and r: "rq_seen req \<le> dm_taken s"
  shows "frags_ok (fst (rotateSegment footer opens takes req again (s, fs)))"
proof -
  have "rq_seen req \<le> dm_taken (finalizeSegment footer s)" using r by (simp add: finalize_keeps)
  then have "frags_ok (fst (dm_openSegment opens takes req (finalizeSegment footer s, fs)))"
    by (rule frags_ok_openSegment [OF frags_ok_finalize [OF ok]])
  then show ?thesis
    using frags_ok_at [of _ "AtApply [] (if again then ToApply else ToLoop)"]
    unfolding rotateSegment_def by (simp add: at_request_def case_prod_beta)
qed

lemma frags_ok_apply_one: "frags_ok s \<Longrightarrow> frags_ok (fst (applyOneDiscard locked p (s, fs)))"
  by (simp add: applyOneDiscard_def abandonCurrentSidecar_def frags_ok_def)

lemma frags_ok_apply: "frags_ok s \<Longrightarrow> frags_ok (fst (apply_next locked ps resume (s, fs)))"
proof -
  assume ok: "frags_ok s"
  have a: "frags_ok (s\<lparr>dm_at := AtApply qs r\<rparr>)" for qs r using frags_ok_at [OF ok] by (simp add: at_request_def)
  have b: "frags_ok (s\<lparr>dm_at := (case resume of ToLoop \<Rightarrow> AtSelect | ToApply \<Rightarrow> AtApply [] ToLoop | ToEnd \<Rightarrow> AtEnd)\<rparr>)"
    using frags_ok_at [OF ok] by (cases resume) (simp_all add: at_request_def)
  have c: "frags_ok (s\<lparr>dm_at := AtApply qs r, dm_pendingDiscards := ds\<rparr>)" for qs r ds
    using a [of qs r] by (simp add: frags_ok_def)
  show ?thesis using a b frags_ok_apply_one [OF c] by (cases ps) (simp_all add: apply_next_def Let_def)
qed

lemma frags_ok_accept_rotate:
  "frags_ok s \<Longrightarrow> dm_rotateCh s = Some req \<Longrightarrow> frags_ok (accept_rotate req again s)"
  by (rule frags_ok_cong [where s = s]) (auto simp: accept_rotate_def at_request_def dest: frags_okD(8))

lemma frags_ok_accept_discard: "frags_ok s \<Longrightarrow> frags_ok (accept_discard s)"
proof -
  assume ok: "frags_ok s"
  have ok': "frags_ok (s\<lparr>dm_discardCh := False\<rparr>)" using ok by (simp add: frags_ok_def)
  show ?thesis
    using frags_ok_accept_rotate [OF ok'] frags_ok_at [OF ok', of "AtApply [] ToLoop"]
    by (simp add: accept_discard_def Let_def at_request_def split: option.split)
qed

lemma frags_ok_drained:
  assumes ok: "frags_ok s" and a: "dm_at s = AtDrain req again" and m: "dm_msgCh s = []"
  shows "frags_ok (s\<lparr>dm_at := AtRotate req again\<rparr>)"
proof (rule frags_ok_cong [OF ok])
  fix r assume "at_request (dm_at (s\<lparr>dm_at := AtRotate req again\<rparr>)) = Some r"
  then show "rq_seen r \<le> dm_taken s" using frags_okD(2) [OF ok] frags_okD(7) [OF ok a] m by (simp add: at_request_def)
qed (use frags_okD(8) [OF ok] in simp_all)

lemma frags_ok_new: "frags_ok (newSession room enc cap p t)"
  by (simp add: newSession_def frags_ok_def segs_ok_def at_request_def)

text \<open>A step of the service changes at most one session, or starts one.\<close>

lemma all_nth_upd:
  "\<forall>i < length xs. P (xs ! i) \<Longrightarrow> (k < length xs \<Longrightarrow> P (xs ! k) \<Longrightarrow> P y) \<Longrightarrow> \<forall>i < length xs. P (xs[k := y] ! i)"
proof (intro allI impI)
  fix i assume "\<forall>i < length xs. P (xs ! i)" "k < length xs \<Longrightarrow> P (xs ! k) \<Longrightarrow> P y" "i < length xs"
  then show "P (xs[k := y] ! i)" by (cases "i = k") simp_all
qed

definition all_frags_ok :: "dm_service \<Rightarrow> bool" where
  "all_frags_ok v \<longleftrightarrow> (\<forall>i < length (dv_all v). frags_ok (dv_all v ! i))"

lemma all_frags_upd:
  "all_frags_ok v \<Longrightarrow> (i < length (dv_all v) \<Longrightarrow> frags_ok (dv_all v ! i) \<Longrightarrow> frags_ok (f (dv_all v ! i))) \<Longrightarrow> all_frags_ok (upd_session i f v)"
  unfolding all_frags_ok_def upd_session_def using all_nth_upd [of "dv_all v" frags_ok i] by simp

lemma all_frags_put:
  "all_frags_ok v \<Longrightarrow> dv_all w = dv_all v \<Longrightarrow> (frags_ok (dv_all v ! i) \<Longrightarrow> frags_ok (fst sf)) \<Longrightarrow> i < length (dv_all v) \<Longrightarrow> all_frags_ok (put_session i sf w)"
  unfolding all_frags_ok_def put_session_def using all_nth_upd [of "dv_all v" frags_ok i] by simp

lemma all_frags_cong: "dv_all w = dv_all v \<Longrightarrow> all_frags_ok w = all_frags_ok v"
  by (simp add: all_frags_ok_def)

lemma removeSession_keeps [simp]:
  "dv_all (removeSession room i v) = dv_all v" "dv_files (removeSession room i v) = dv_files v"
  "dv_discards (removeSession room i v) = dv_discards v" "dv_outputFormat (removeSession room i v) = dv_outputFormat v"
  "dv_capacity (removeSession room i v) = dv_capacity v"
  by (simp_all add: removeSession_def)

lemma all_frags_start: "all_frags_ok v \<Longrightarrow> all_frags_ok (StartSession room p t v)"
  unfolding all_frags_ok_def StartSession_def Let_def
  by (auto simp: nth_append frags_ok_new less_Suc_eq split: option.split)

lemma opened_by_all [simp]: "dv_all (opened_by i req v) = dv_all v"
  by (simp add: opened_by_def mark_late_def)

lemma all_frags_step: "dm_step locked v v' \<Longrightarrow> all_frags_ok v \<Longrightarrow> all_frags_ok v'"
proof (induction rule: dm_step.induct)
  case (rotate v room p t)
  show ?case
  proof (cases "gm_get (dv_sessions v) room")
    case (Some i)
    then show ?thesis using rotate by (simp add: Rotate_def) (erule all_frags_upd, auto simp: frags_ok_def)
  qed (simp add: Rotate_def rotate)
next
  case (discard v room p)
  have c: "all_frags_ok (w\<lparr>dv_files := x\<rparr>) = all_frags_ok w" "all_frags_ok (w\<lparr>dv_discards := y\<rparr>) = all_frags_ok w" for w x y
    by (simp_all add: all_frags_ok_def)
  have "all_frags_ok (upd_session i (\<lambda>s. s\<lparr>dm_pendingDiscards := List.insert p (dm_pendingDiscards s)\<rparr>) v)" for i
    by (rule all_frags_upd [OF discard]) (simp add: frags_ok_def)
  then show ?case using discard by (simp add: Discard_def c split: option.split)
next
  case (signal j v)
  have "all_frags_ok (upd_session i (\<lambda>s. s\<lparr>dm_discardCh := True\<rparr>) v)" for i
    by (rule all_frags_upd [OF signal.prems]) (simp add: frags_ok_def)
  then show ?case by (simp add: queueDiscard_signal_def set_discard_def all_frags_ok_def)
next
  case (leave i v)
  have "all_frags_ok (upd_session i (\<lambda>s. s\<lparr>dm_at := AtOver\<rparr>) v)"
    by (rule all_frags_upd [OF leave.prems]) (rule frags_ok_at, simp_all add: at_request_def)
  then show ?case by (simp add: all_frags_ok_def)
next
  case (open_first i v req opens takes)
  show ?case
    by (rule all_frags_put [OF open_first.prems opened_by_all])
      (auto simp: open_first.hyps intro!: frags_ok_first frags_okD(6) simp: at_request_def)
next
  case (rotate_segment i v req again footer opens takes)
  show ?case
    by (rule all_frags_put [OF rotate_segment.prems opened_by_all])
      (auto simp: rotate_segment.hyps intro!: frags_ok_rotate frags_okD(6) simp: at_request_def)
next
  case (apply_discards i v ps resume)
  show ?case
    by (rule all_frags_put [OF apply_discards.prems refl]) (auto simp: apply_discards.hyps intro: frags_ok_apply)
next
  case (disconnect i v)
  show ?case by (rule all_frags_upd [OF disconnect.prems]) (simp add: supervise_exit_def frags_ok_def)
next
  case (check j v)
  then show ?case by (simp add: discard_check_def set_discard_def all_frags_ok_def)
next
  case (remove j v)
  then show ?case by (simp add: discard_remove_def set_discard_def all_frags_ok_def)
qed (auto intro!: all_frags_start all_frags_upd frags_ok_take frags_ok_stop frags_ok_accept_rotate frags_ok_accept_discard
    frags_ok_drained intro: frags_ok_enqueue)

section \<open>Discards\<close>

definition ended :: "dm_session \<Rightarrow> bool" where
  "ended s \<longleftrightarrow> dm_at s \<in> {AtEnd, AtOver}"

definition exit_ok :: "format_encoder \<Rightarrow> dm_session \<Rightarrow> bool" where
  "exit_ok enc s \<longleftrightarrow> dm_encoder s = enc \<and> (ended s \<or> (\<exists>ps. dm_at s = AtApply ps ToEnd) \<longrightarrow> dm_exiting s)"

text \<open>A discard that has not come too early is pending or done, and done once it and its session are over.\<close>

definition discard_ok :: "(string \<Rightarrow> bool) \<Rightarrow> format_encoder \<Rightarrow> dm_session list \<Rightarrow> dm_files \<Rightarrow> discard \<Rightarrow> bool" where
  "discard_ok locked enc ss fs d \<longleftrightarrow>
    (let p = PathForVideo (di_videoPath d) (fe_ext enc); s = ss ! di_session d in
     di_session d < length ss \<and>
     (\<not> di_late d \<and> \<not> locked p \<longrightarrow>
        (di_videoPath d \<in> set (dm_pendingDiscards s) \<or> p \<notin> fs) \<and> (ended s \<and> di_at d = Ended \<longrightarrow> p \<notin> fs)))"

definition discards_ok :: "(string \<Rightarrow> bool) \<Rightarrow> dm_service \<Rightarrow> bool" where
  "discards_ok locked v \<longleftrightarrow>
    (\<forall>i < length (dv_all v). exit_ok (dv_outputFormat v) (dv_all v ! i)) \<and>
    (\<forall>d \<in> set (dv_discards v). discard_ok locked (dv_outputFormat v) (dv_all v) (dv_files v) d)"

lemma discard_ok_mono:
  assumes "discard_ok locked enc ss fs d" "length ss \<le> length ss'" "fs' \<subseteq> fs"
    "set (dm_pendingDiscards (ss ! di_session d)) \<subseteq> set (dm_pendingDiscards (ss' ! di_session d))"
    "ended (ss' ! di_session d) \<Longrightarrow> ended (ss ! di_session d)"
  shows "discard_ok locked enc ss' fs' d"
  using assms unfolding discard_ok_def Let_def by auto

lemma discards_ok_upd:
  assumes ok: "discards_ok locked v"
    and e: "i < length (dv_all v) \<Longrightarrow> exit_ok (dv_outputFormat v) (dv_all v ! i) \<Longrightarrow> exit_ok (dv_outputFormat v) (f (dv_all v ! i))"
    and p: "set (dm_pendingDiscards (dv_all v ! i)) \<subseteq> set (dm_pendingDiscards (f (dv_all v ! i)))"
    and a: "ended (f (dv_all v ! i)) \<Longrightarrow> ended (dv_all v ! i)"
  shows "discards_ok locked (upd_session i f v)"
proof -
  have "discard_ok locked (dv_outputFormat v) ((dv_all v)[i := f (dv_all v ! i)]) (dv_files v) d" if d: "d \<in> set (dv_discards v)" for d
  proof (rule discard_ok_mono)
    show "discard_ok locked (dv_outputFormat v) (dv_all v) (dv_files v) d" using ok d by (simp add: discards_ok_def)
    then have l: "di_session d < length (dv_all v)" by (simp add: discard_ok_def Let_def)
    show "set (dm_pendingDiscards (dv_all v ! di_session d)) \<subseteq> set (dm_pendingDiscards ((dv_all v)[i := f (dv_all v ! i)] ! di_session d))"
      using p l by (cases "di_session d = i") simp_all
    show "ended ((dv_all v)[i := f (dv_all v ! i)] ! di_session d) \<Longrightarrow> ended (dv_all v ! di_session d)"
      using a l by (cases "di_session d = i") simp_all
  qed simp_all
  then show ?thesis
    using ok all_nth_upd [of "dv_all v" "exit_ok (dv_outputFormat v)" i] e by (simp add: discards_ok_def upd_session_def)
qed

text \<open>Applying a discard removes its sidecar, whether the writer has it open or not.\<close>

lemma applyOneDiscard_files: "snd (applyOneDiscard locked p (s, fs)) = dm_removeSidecarFile locked (sidecar s p) fs"
  by (auto simp: applyOneDiscard_def abandonCurrentSidecar_def)

lemma applyOneDiscard_keeps:
  "dm_pendingDiscards (fst (applyOneDiscard locked p (s, fs))) = dm_pendingDiscards s" "dm_at (fst (applyOneDiscard locked p (s, fs))) = dm_at s"
  "dm_exiting (fst (applyOneDiscard locked p (s, fs))) = dm_exiting s" "dm_encoder (fst (applyOneDiscard locked p (s, fs))) = dm_encoder s"
  by (simp_all add: applyOneDiscard_def abandonCurrentSidecar_def)

lemma removeSidecar_subset: "dm_removeSidecarFile locked p fs \<subseteq> fs"
  by (auto simp: dm_removeSidecarFile_def)

text \<open>Removing a file, or starting a session, keeps every discard in order.\<close>

lemma discards_ok_files: "discards_ok locked v \<Longrightarrow> fs \<subseteq> dv_files v \<Longrightarrow> discards_ok locked (v\<lparr>dv_files := fs\<rparr>)"
  by (auto simp: discards_ok_def intro: discard_ok_mono)

lemma discards_ok_start:
  assumes ok: "discards_ok locked v"
  shows "discards_ok locked (StartSession room p t v)"
proof -
  have st: "discards_ok locked (w\<lparr>dv_sessions := m, dv_all := dv_all v @ [newSession room (dv_outputFormat v) (dv_capacity v) p t]\<rparr>)"
    if "dv_all w = dv_all v" "dv_files w = dv_files v" "dv_discards w = dv_discards v" "dv_outputFormat w = dv_outputFormat v" for w m
  proof -
    have n: "exit_ok (dv_outputFormat v) (newSession room (dv_outputFormat v) (dv_capacity v) p t)"
      by (simp add: exit_ok_def newSession_def ended_def)
    have "discard_ok locked (dv_outputFormat v) (dv_all v @ [newSession room (dv_outputFormat v) (dv_capacity v) p t]) (dv_files v) d"
      if d: "d \<in> set (dv_discards v)" for d
    proof -
      have o: "discard_ok locked (dv_outputFormat v) (dv_all v) (dv_files v) d" using ok d by (simp add: discards_ok_def)
      then have "di_session d < length (dv_all v)" by (simp add: discard_ok_def Let_def)
      then show ?thesis by (intro discard_ok_mono [OF o]) (simp_all add: nth_append)
    qed
    then show ?thesis using ok n that by (simp add: discards_ok_def nth_append less_Suc_eq all_conj_distrib)
  qed
  show ?thesis unfolding StartSession_def Let_def using ok by (auto split: option.split intro!: st)
qed

lemma discards_ok_discard:
  assumes ok: "discards_ok locked v" and m: "\<And>r i. gm_get (dv_sessions v) r = Some i \<Longrightarrow> i < length (dv_all v)"
  shows "discards_ok locked (Discard locked room p v)"
proof (cases "p = []")
  case False
  show ?thesis
  proof (cases "gm_get (dv_sessions v) room")
    case None
    then show ?thesis using False by (simp add: Discard_def discards_ok_files [OF ok removeSidecar_subset])
  next
    case (Some i)
    define w where "w = upd_session i (\<lambda>s. s\<lparr>dm_pendingDiscards := List.insert p (dm_pendingDiscards s)\<rparr>) v"
    have w: "discards_ok locked w" unfolding w_def
      by (rule discards_ok_upd [OF ok]) (auto simp: exit_ok_def ended_def)
    have "discard_ok locked (dv_outputFormat w) (dv_all w) (dv_files w) \<lparr>di_videoPath = p, di_session = i, di_at = Added, di_late = False\<rparr>"
      using m [OF Some] by (simp add: discard_ok_def Let_def w_def upd_session_def)
    then have "discards_ok locked (w\<lparr>dv_discards := dv_discards v @ [\<lparr>di_videoPath = p, di_session = i, di_at = Added, di_late = False\<rparr>]\<rparr>)"
      using w by (simp add: discards_ok_def w_def upd_session_def)
    then show ?thesis using False Some by (simp add: Discard_def w_def)
  qed
qed (simp add: Discard_def ok)

text \<open>A discard's own steps.\<close>

lemma discards_ok_set:
  assumes ok: "discards_ok locked v" and j: "j < length (dv_discards v)"
    and a: "a = Ended \<Longrightarrow> \<not> ended (dv_all v ! di_session (dv_discards v ! j)) \<or>
      locked (PathForVideo (di_videoPath (dv_discards v ! j)) (fe_ext (dv_outputFormat v))) \<or>
      PathForVideo (di_videoPath (dv_discards v ! j)) (fe_ext (dv_outputFormat v)) \<notin> dv_files v"
  shows "discards_ok locked (set_discard j a v)"
proof -
  have "discard_ok locked (dv_outputFormat v) (dv_all v) (dv_files v) (dv_discards v ! j)"
    using ok j by (simp add: discards_ok_def)
  then have "discard_ok locked (dv_outputFormat v) (dv_all v) (dv_files v) ((dv_discards v ! j)\<lparr>di_at := a\<rparr>)"
    using a unfolding discard_ok_def Let_def by auto
  then show ?thesis
    using ok set_update_subset_insert [of "dv_discards v" j] by (auto simp: discards_ok_def set_discard_def)
qed

lemma discards_ok_signal:
  assumes ok: "discards_ok locked v" and j: "j < length (dv_discards v)"
  shows "discards_ok locked (queueDiscard_signal j v)"
proof -
  have "discards_ok locked (upd_session i (\<lambda>s. s\<lparr>dm_discardCh := True\<rparr>) v)" for i
    by (rule discards_ok_upd [OF ok]) (simp_all add: exit_ok_def ended_def)
  then show ?thesis unfolding queueDiscard_signal_def by (rule discards_ok_set) (simp_all add: j upd_session_def)
qed

lemma discards_ok_check:
  assumes ok: "discards_ok locked v" and j: "j < length (dv_discards v)"
  shows "discards_ok locked (discard_check j v)"
proof -
  let ?i = "di_session (dv_discards v ! j)"
  have "?i < length (dv_all v)" using ok j by (auto simp: discards_ok_def discard_ok_def Let_def)
  then have "ended (dv_all v ! ?i) \<Longrightarrow> dm_exiting (dv_all v ! ?i)" using ok by (simp add: discards_ok_def exit_ok_def)
  then show ?thesis unfolding discard_check_def by (intro discards_ok_set [OF ok j]) (auto split: if_splits)
qed

lemma discards_ok_remove:
  assumes ok: "discards_ok locked v" and j: "j < length (dv_discards v)"
  shows "discards_ok locked (discard_remove locked j v)"
proof -
  define p where "p = PathForVideo (di_videoPath (dv_discards v ! j)) (fe_ext (dv_outputFormat v))"
  define w where "w = v\<lparr>dv_files := dm_removeSidecarFile locked p (dv_files v)\<rparr>"
  have w: "discards_ok locked w" unfolding w_def by (rule discards_ok_files [OF ok removeSidecar_subset])
  have "locked p \<or> p \<notin> dv_files w" by (simp add: w_def dm_removeSidecarFile_def)
  then have "discards_ok locked (set_discard j Ended w)"
    by (intro discards_ok_set [OF w]) (simp_all add: w_def j p_def)
  then show ?thesis by (simp add: discards_ok_def discard_remove_def set_discard_def w_def p_def)
qed

text \<open>The writer opens a sidecar: a discard of it is pending in this session, or marked.\<close>

lemma discards_ok_open:
  assumes ok: "discards_ok locked v" and i: "i < length (dv_all v)"
    and e: "exit_ok (dv_outputFormat v) s'" and n: "\<not> ended s'"
    and p: "dm_pendingDiscards s' = dm_pendingDiscards (dv_all v ! i)"
    and fs: "fs' \<subseteq> insert (PathForVideo (rq_videoPath req) (fe_ext (dv_outputFormat v))) (dv_files v)"
  shows "discards_ok locked (put_session i (s', fs') (opened_by i req v))"
proof -
  define q where "q = PathForVideo (rq_videoPath req) (fe_ext (dv_outputFormat v))"
  define enc where "enc = dv_outputFormat v"
  define ss where "ss = (dv_all v)[i := s']"
  define mark :: "discard \<Rightarrow> discard" where "mark d = (if PathForVideo (di_videoPath d) (fe_ext enc) = q
       \<and> \<not> (di_session d = i \<and> di_videoPath d \<in> set (dm_pendingDiscards (dv_all v ! i))) then d\<lparr>di_late := True\<rparr> else d)" for d
  have "discard_ok locked enc ss fs' (mark d)" if d: "d \<in> set (dv_discards v)" for d
  proof -
    have o: "discard_ok locked enc (dv_all v) (dv_files v) d" using ok d by (simp add: discards_ok_def enc_def)
    have l: "di_session d < length (dv_all v)" using o by (simp add: discard_ok_def Let_def)
    have pend: "dm_pendingDiscards (ss ! di_session d) = dm_pendingDiscards (dv_all v ! di_session d)"
      using p l by (cases "di_session d = i") (simp_all add: ss_def)
    have en: "ended (ss ! di_session d) \<Longrightarrow> di_session d \<noteq> i \<and> ended (dv_all v ! di_session d)"
      using n l by (cases "di_session d = i") (simp_all add: ss_def)
    show ?thesis
    proof (cases "PathForVideo (di_videoPath d) (fe_ext enc) = q")
      case True
      show ?thesis
      proof (cases "di_session d = i \<and> di_videoPath d \<in> set (dm_pendingDiscards (dv_all v ! i))")
        case t: True
        then show ?thesis using l pend en unfolding mark_def discard_ok_def Let_def by (auto simp: ss_def)
      next
        case False
        then show ?thesis using True l by (simp add: mark_def discard_ok_def Let_def ss_def)
      qed
    next
      case False
      then have "(PathForVideo (di_videoPath d) (fe_ext enc) \<in> fs') \<Longrightarrow> PathForVideo (di_videoPath d) (fe_ext enc) \<in> dv_files v"
        using fs unfolding q_def enc_def by blast
      then show ?thesis
        using False o l pend en unfolding mark_def discard_ok_def Let_def by (auto simp: ss_def)
    qed
  qed
  then have "\<forall>d \<in> set (map mark (dv_discards v)). discard_ok locked enc ss fs' d" by auto
  moreover have "\<forall>k < length ss. exit_ok enc (ss ! k)"
    using ok all_nth_upd [of "dv_all v" "exit_ok enc" i s'] e by (simp add: discards_ok_def enc_def ss_def)
  ultimately show ?thesis
    by (simp add: discards_ok_def put_session_def opened_by_def mark_late_def mark_def enc_def q_def ss_def cong: if_cong)
qed

lemma openSegment_files: "snd (dm_openSegment opens takes req (s, fs)) \<subseteq> insert (sidecar s (rq_videoPath req)) fs"
  by (auto simp: dm_openSegment_def Let_def)

lemma discards_ok_first:
  assumes ok: "discards_ok locked v" and i: "i < length (dv_all v)"
  shows "discards_ok locked (put_session i (first_segment opens takes req (dv_all v ! i, dv_files v)) (opened_by i req v))"
proof -
  obtain s' fs' where e: "first_segment opens takes req (dv_all v ! i, dv_files v) = (s', fs')" by fastforce
  have x: "exit_ok (dv_outputFormat v) (dv_all v ! i)" using ok i by (simp add: discards_ok_def)
  have s': "s' = (fst (dm_openSegment opens takes req (dv_all v ! i, dv_files v)))\<lparr>dm_at := AtSelect\<rparr>"
    "fs' = snd (dm_openSegment opens takes req (dv_all v ! i, dv_files v))"
    using e by (simp_all add: first_segment_def case_prod_beta)
  show ?thesis unfolding e
    by (rule discards_ok_open [OF ok i])
      (use x openSegment_files [of opens takes req "dv_all v ! i" "dv_files v"] in
        \<open>simp_all add: s' exit_ok_def ended_def openSegment_keeps sidecar_def\<close>)
qed

lemma discards_ok_rotate_segment:
  assumes ok: "discards_ok locked v" and i: "i < length (dv_all v)"
  shows "discards_ok locked (put_session i (rotateSegment footer opens takes req again (dv_all v ! i, dv_files v)) (opened_by i req v))"
proof -
  obtain s' fs' where e: "rotateSegment footer opens takes req again (dv_all v ! i, dv_files v) = (s', fs')" by fastforce
  have x: "exit_ok (dv_outputFormat v) (dv_all v ! i)" using ok i by (simp add: discards_ok_def)
  let ?f = "finalizeSegment footer (dv_all v ! i)"
  have s': "s' = (fst (dm_openSegment opens takes req (?f, dv_files v)))\<lparr>dm_at := AtApply [] (if again then ToApply else ToLoop)\<rparr>"
    "fs' = snd (dm_openSegment opens takes req (?f, dv_files v))"
    using e by (simp_all add: rotateSegment_def case_prod_beta)
  show ?thesis unfolding e
    by (rule discards_ok_open [OF ok i])
      (use x openSegment_files [of opens takes req ?f "dv_files v"] in
        \<open>simp_all add: s' exit_ok_def ended_def openSegment_keeps sidecar_def finalize_keeps\<close>)
qed

text \<open>A session's step that creates no file has to be checked for its own discards.\<close>

lemma discards_ok_put:
  assumes ok: "discards_ok locked v" and e: "exit_ok (dv_outputFormat v) s'" and fs: "fs' \<subseteq> dv_files v"
    and own: "\<And>d. discard_ok locked (dv_outputFormat v) (dv_all v) (dv_files v) d \<Longrightarrow> di_session d = i \<Longrightarrow>
        discard_ok locked (dv_outputFormat v) ((dv_all v)[i := s']) fs' d"
  shows "discards_ok locked (put_session i (s', fs') v)"
proof -
  have "discard_ok locked (dv_outputFormat v) ((dv_all v)[i := s']) fs' d" if d: "d \<in> set (dv_discards v)" for d
  proof -
    have o: "discard_ok locked (dv_outputFormat v) (dv_all v) (dv_files v) d" using ok d by (simp add: discards_ok_def)
    show ?thesis
    proof (cases "di_session d = i")
      case True
      show ?thesis by (rule own [OF o True])
    next
      case False
      show ?thesis by (rule discard_ok_mono [OF o]) (use False fs in simp_all)
    qed
  qed
  then show ?thesis
    using ok e all_nth_upd [of "dv_all v" "exit_ok (dv_outputFormat v)" i s'] by (simp add: discards_ok_def put_session_def)
qed

text \<open>The application of discards: what leaves the set has lost its file.\<close>

lemma discards_ok_apply:
  assumes ok: "discards_ok locked v" and i: "i < length (dv_all v)" and at: "dm_at (dv_all v ! i) = AtApply ps resume"
  shows "discards_ok locked (put_session i (apply_next locked ps resume (dv_all v ! i, dv_files v)) v)"
proof -
  define s where "s = dv_all v ! i"
  have x: "exit_ok (dv_outputFormat v) s" using ok i by (simp add: discards_ok_def s_def)
  note put = discards_ok_put [OF ok]
  show ?thesis
  proof (cases ps)
    case Nil
    show ?thesis
    proof (cases "dm_pendingDiscards s = []")
      case True
      let ?a = "case resume of ToLoop \<Rightarrow> AtSelect | ToApply \<Rightarrow> AtApply [] ToLoop | ToEnd \<Rightarrow> AtEnd"
      have e: "apply_next locked ps resume (s, dv_files v) = (s\<lparr>dm_at := ?a\<rparr>, dv_files v)" using Nil True by (simp add: apply_next_def)
      show ?thesis unfolding s_def [symmetric] e
      proof (rule put)
        show "exit_ok (dv_outputFormat v) (s\<lparr>dm_at := ?a\<rparr>)"
          using x at by (cases resume) (simp_all add: exit_ok_def ended_def s_def)
      next
        fix d assume "discard_ok locked (dv_outputFormat v) (dv_all v) (dv_files v) d" "di_session d = i"
        then show "discard_ok locked (dv_outputFormat v) ((dv_all v)[i := s\<lparr>dm_at := ?a\<rparr>]) (dv_files v) d"
          using True i unfolding discard_ok_def Let_def by (auto simp: s_def)
      qed simp
    next
      case False
      have e: "apply_next locked ps resume (s, dv_files v) = (s\<lparr>dm_at := AtApply (dm_pendingDiscards s) resume\<rparr>, dv_files v)"
        using Nil False by (simp add: apply_next_def)
      show ?thesis unfolding s_def [symmetric] e
      proof (rule put)
        show "exit_ok (dv_outputFormat v) (s\<lparr>dm_at := AtApply (dm_pendingDiscards s) resume\<rparr>)"
          using x at by (auto simp: exit_ok_def ended_def s_def)
      next
        fix d assume o: "discard_ok locked (dv_outputFormat v) (dv_all v) (dv_files v) d" and d: "di_session d = i"
        show "discard_ok locked (dv_outputFormat v) ((dv_all v)[i := s\<lparr>dm_at := AtApply (dm_pendingDiscards s) resume\<rparr>]) (dv_files v) d"
          by (rule discard_ok_mono [OF o]) (use i d at in \<open>simp_all add: s_def ended_def\<close>)
      qed simp
    qed
  next
    case (Cons p qs)
    define s1 where "s1 = s\<lparr>dm_at := AtApply qs resume\<rparr>"
    show ?thesis
    proof (cases "p \<in> set (dm_pendingDiscards s)")
      case True
      define s2 where "s2 = s1\<lparr>dm_pendingDiscards := removeAll p (dm_pendingDiscards s)\<rparr>"
      define r where "r = applyOneDiscard locked p (s2, dv_files v)"
      have e: "apply_next locked ps resume (s, dv_files v) = (fst r, snd r)" using Cons True by (simp add: apply_next_def Let_def r_def s2_def s1_def)
      have k: "dm_pendingDiscards (fst r) = removeAll p (dm_pendingDiscards s)" "dm_at (fst r) = AtApply qs resume"
        "dm_exiting (fst r) = dm_exiting s" "dm_encoder (fst r) = dm_encoder s"
        unfolding r_def applyOneDiscard_keeps by (simp_all add: s2_def s1_def)
      have enc: "dm_encoder s = dv_outputFormat v" using x by (simp add: exit_ok_def)
      have f: "snd r = dm_removeSidecarFile locked (PathForVideo p (fe_ext (dv_outputFormat v))) (dv_files v)"
        unfolding r_def applyOneDiscard_files by (simp add: sidecar_def s2_def s1_def enc)
      show ?thesis unfolding s_def [symmetric] e
      proof (rule put)
        show "exit_ok (dv_outputFormat v) (fst r)" using x at by (auto simp: exit_ok_def ended_def k s_def)
        show "snd r \<subseteq> dv_files v" unfolding f by (rule removeSidecar_subset)
      next
        fix d assume o: "discard_ok locked (dv_outputFormat v) (dv_all v) (dv_files v) d" and d: "di_session d = i"
        have m: "discard_ok locked (dv_outputFormat v) ((dv_all v)[i := s1]) (snd r) d"
          by (rule discard_ok_mono [OF o]) (use i d removeSidecar_subset f in \<open>simp_all add: s1_def s_def ended_def\<close>)
        show "discard_ok locked (dv_outputFormat v) ((dv_all v)[i := fst r]) (snd r) d"
        proof (cases "di_videoPath d = p")
          case True
          then show ?thesis using i d k(2) by (simp add: discard_ok_def Let_def f ended_def dm_removeSidecarFile_def)
        next
          case False
          then show ?thesis using m i d k(1,2) by (simp add: discard_ok_def Let_def ended_def s1_def)
        qed
      qed
    next
      case False
      have e: "apply_next locked ps resume (s, dv_files v) = (s1, dv_files v)" using Cons False by (simp add: apply_next_def Let_def s1_def)
      show ?thesis unfolding s_def [symmetric] e
      proof (rule put)
        show "exit_ok (dv_outputFormat v) s1" using x at by (auto simp: exit_ok_def ended_def s_def s1_def)
      next
        fix d assume o: "discard_ok locked (dv_outputFormat v) (dv_all v) (dv_files v) d" and d: "di_session d = i"
        show "discard_ok locked (dv_outputFormat v) ((dv_all v)[i := s1]) (dv_files v) d"
          by (rule discard_ok_mono [OF o]) (use i d at in \<open>simp_all add: s_def s1_def ended_def\<close>)
      qed simp
    qed
  qed
qed

text \<open>The map of sessions has no other index than those of sessions.\<close>

definition sessions_ok :: "dm_service \<Rightarrow> bool" where
  "sessions_ok v \<longleftrightarrow> (\<forall>r i. gm_get (dv_sessions v) r = Some i \<longrightarrow> i < length (dv_all v))"

lemma sessions_ok_cong: "sessions_ok v \<Longrightarrow> dv_sessions w = dv_sessions v \<Longrightarrow> length (dv_all w) = length (dv_all v) \<Longrightarrow> sessions_ok w"
  by (simp add: sessions_ok_def)

lemma sessions_ok_removeSession: "sessions_ok v \<Longrightarrow> sessions_ok (removeSession room i v)"
  by (simp add: sessions_ok_def removeSession_def)

lemma sessions_ok_start: "sessions_ok v \<Longrightarrow> sessions_ok (StartSession room p t v)"
  using sessions_ok_removeSession [of v room]
  by (auto simp: StartSession_def Let_def sessions_ok_def less_Suc_eq split: option.split if_splits)

lemma sessions_ok_upd: "sessions_ok v \<Longrightarrow> sessions_ok (upd_session i f v)"
  by (erule sessions_ok_cong) (simp_all add: upd_session_def)

lemma sessions_ok_step: "dm_step locked v v' \<Longrightarrow> sessions_ok v \<Longrightarrow> sessions_ok v'"
proof (induction rule: dm_step.induct)
  case (rotate v room p t)
  then show ?case by (simp add: Rotate_def sessions_ok_upd split: option.split)
next
  case (discard v room p)
  then show ?case by (simp add: Discard_def sessions_ok_def upd_session_def split: option.split)
qed (simp_all add: sessions_ok_start sessions_ok_upd sessions_ok_removeSession,
    simp_all add: sessions_ok_def queueDiscard_signal_def discard_check_def discard_remove_def set_discard_def upd_session_def
      put_session_def opened_by_def mark_late_def)

lemma take_keeps:
  "dm_at (take_fragment takes s) = dm_at s" "dm_encoder (take_fragment takes s) = dm_encoder s"
  "dm_exiting (take_fragment takes s) = dm_exiting s" "dm_pendingDiscards (take_fragment takes s) = dm_pendingDiscards s"
  by (simp_all add: take_fragment_def writeFragment_def last_segment_def)

lemma discards_ok_step: "dm_step locked v v' \<Longrightarrow> sessions_ok v \<Longrightarrow> discards_ok locked v \<Longrightarrow> discards_ok locked v'"
proof (induction rule: dm_step.induct)
  case (start v room p t)
  then show ?case by (simp add: discards_ok_start)
next
  case (enqueue i v policy frag s)
  then have "dm_encoder s = dm_encoder (dv_all v ! i)" "dm_at s = dm_at (dv_all v ! i)" "dm_exiting s = dm_exiting (dv_all v ! i)"
    "dm_pendingDiscards s = dm_pendingDiscards (dv_all v ! i)" by (auto simp: dm_enqueue_def split: if_splits)
  then show ?case by (intro discards_ok_upd [OF enqueue.prems(2)]) (simp_all add: exit_ok_def ended_def)
next
  case (disconnect i v)
  show ?case by (rule discards_ok_upd [OF disconnect.prems(2)]) (simp_all add: supervise_exit_def exit_ok_def ended_def)
next
  case (rotate v room p t)
  show ?case
  proof (cases "gm_get (dv_sessions v) room")
    case (Some i)
    then show ?thesis unfolding Rotate_def option.case
      by simp (rule discards_ok_upd [OF rotate.prems(2)], simp_all add: exit_ok_def ended_def)
  qed (simp add: Rotate_def rotate.prems)
next
  case (discard v room p)
  show ?case by (rule discards_ok_discard [OF discard.prems(2)]) (use discard.prems(1) in \<open>simp add: sessions_ok_def\<close>)
next
  case (write_next i v takes)
  show ?case
    by (rule discards_ok_upd [OF write_next.prems(2)])
      (use write_next.hyps in \<open>simp_all add: take_keeps exit_ok_def ended_def\<close>)
next
  case (stop i v takes)
  show ?case
    by (rule discards_ok_upd [OF stop.prems(2)]) (use stop.hyps in \<open>simp_all add: stopWriteLoop_def finalize_keeps exit_ok_def ended_def\<close>)
next
  case (on_rotate i v req)
  show ?case
    by (rule discards_ok_upd [OF on_rotate.prems(2)]) (use on_rotate.hyps in \<open>simp_all add: accept_rotate_def exit_ok_def ended_def\<close>)
next
  case (on_discard i v)
  show ?case
    by (rule discards_ok_upd [OF on_discard.prems(2)])
      (use on_discard.hyps in \<open>auto simp: accept_discard_def accept_rotate_def Let_def exit_ok_def ended_def split: option.splits\<close>)
next
  case (drain i v req again takes)
  show ?case
    by (rule discards_ok_upd [OF drain.prems(2)])
      (use drain.hyps in \<open>simp_all add: take_keeps exit_ok_def ended_def\<close>)
next
  case (drained i v req again)
  show ?case
    by (rule discards_ok_upd [OF drained.prems(2)]) (use drained.hyps in \<open>simp_all add: exit_ok_def ended_def\<close>)
next
  case (drain_stop i v req again takes)
  show ?case
    by (rule discards_ok_upd [OF drain_stop.prems(2)]) (use drain_stop.hyps in \<open>simp_all add: stopWriteLoop_def finalize_keeps exit_ok_def ended_def\<close>)
next
  case (leave i v)
  have "discards_ok locked (upd_session i (\<lambda>s. s\<lparr>dm_at := AtOver\<rparr>) v)"
    by (rule discards_ok_upd [OF leave.prems(2)]) (use leave.hyps in \<open>simp_all add: exit_ok_def ended_def\<close>)
  then show ?case by (simp add: discards_ok_def)
qed (simp_all add: discards_ok_signal discards_ok_check discards_ok_remove discards_ok_first discards_ok_rotate_segment discards_ok_apply)

section \<open>What the sidecars hold\<close>

lemma dm_service_inv:
  "(dm_step locked)\<^sup>*\<^sup>* (new_dm_service enc cap) v \<Longrightarrow> all_frags_ok v \<and> sessions_ok v \<and> discards_ok locked v"
proof (induction rule: rtranclp_induct)
  case base
  show ?case by (simp add: new_dm_service_def all_frags_ok_def sessions_ok_def discards_ok_def)
next
  case (step v w)
  then show ?case using all_frags_step sessions_ok_step discards_ok_step by blast
qed

text \<open>C31. What a session has accepted is in its sidecars, in the order of arrival, up to what waits in the channel and
  the fragments the file writers refused, whose number is counted; and nothing accepted before a rotation was asked for
  is in the sidecar of that rotation or in a later one.\<close>

theorem fragments_in_order:
  assumes "(dm_step locked)\<^sup>*\<^sup>* (new_dm_service enc cap) v" and "i < length (dv_all v)" and "s = dv_all v ! i"
  shows "dm_received s = take (dm_taken s) (dm_received s) @ dm_msgCh s \<and>
    subseq (concat (map sg_frags (dm_segments s))) (take (dm_taken s) (dm_received s)) \<and>
    (dm_lost s = 0 \<longrightarrow> concat (map sg_frags (dm_segments s)) @ dm_msgCh s = dm_received s) \<and>
    (\<forall>k < length (dm_segments s).
       subseq (concat (map sg_frags (drop k (dm_segments s)))) (drop (sg_asked (dm_segments s ! k)) (dm_received s)))"
proof -
  have ok: "frags_ok s" using dm_service_inv [OF assms(1)] assms(2,3) by (simp add: all_frags_ok_def)
  note D = frags_okD [OF ok]
  have split: "dm_received s = take (dm_taken s) (dm_received s) @ dm_msgCh s" using D(1) by (metis append_take_drop_id)
  have sub: "subseq (concat (map sg_frags (dm_segments s))) (take (dm_taken s) (dm_received s))" using D(3) by (simp add: segs_ok_def)
  have "concat (map sg_frags (dm_segments s)) = take (dm_taken s) (dm_received s)" if "dm_lost s = 0"
    using subseq_same_length [OF sub] D(2,4) that by simp
  then have all: "dm_lost s = 0 \<longrightarrow> concat (map sg_frags (dm_segments s)) @ dm_msgCh s = dm_received s" using split by metis
  have "subseq (concat (map sg_frags (drop k (dm_segments s)))) (drop (sg_asked (dm_segments s ! k)) (dm_received s))"
    if k: "k < length (dm_segments s)" for k
  proof -
    let ?g = "dm_segments s ! k"
    have g: "sg_asked ?g \<le> sg_taken ?g" "subseq (concat (map sg_frags (drop k (dm_segments s)))) (drop (sg_taken ?g) (take (dm_taken s) (dm_received s)))"
      using D(3) k by (simp_all add: segs_ok_def)
    have a: "subseq (drop (sg_taken ?g) (take (dm_taken s) (dm_received s))) (drop (sg_taken ?g) (dm_received s))"
      unfolding drop_take by (metis append_take_drop_id list_emb_append2 subseq_order.refl subseq_rev_drop_many)
    have b: "drop (sg_taken ?g) (dm_received s) = drop (sg_taken ?g - sg_asked ?g) (drop (sg_asked ?g) (dm_received s))"
      using g(1) by (simp add: add.commute)
    show ?thesis using subseq_order.trans [OF g(2) a] unfolding b
      by (rule subseq_order.trans) (rule suffix_imp_subseq, rule suffix_drop)
  qed
  then show ?thesis using split sub all by blast
qed

text \<open>Once a session is over, the sidecar of a segment that has been discarded does not exist, unless it was
  opened when its discard had already been applied: whatever the moments at which the discards fall, also while the
  session is ending.\<close>

lemma discarded_sidecar_gone:
  assumes "(dm_step locked)\<^sup>*\<^sup>* (new_dm_service enc cap) v" and "d \<in> set (dv_discards v)"
    and "di_at d = Ended" and "dm_at (dv_all v ! di_session d) = AtOver" and "\<not> di_late d"
    and "\<not> locked (PathForVideo (di_videoPath d) (fe_ext (dv_outputFormat v)))"
  shows "PathForVideo (di_videoPath d) (fe_ext (dv_outputFormat v)) \<notin> dv_files v"
proof -
  have "discard_ok locked (dv_outputFormat v) (dv_all v) (dv_files v) d"
    using dm_service_inv [OF assms(1)] assms(2) by (simp add: discards_ok_def)
  then show ?thesis using assms(3-6) by (simp add: discard_ok_def Let_def ended_def)
qed

section \<open>Examples\<close>

text \<open>Runs of the steps by name, with file writers that never refuse.\<close>

datatype dm_action =
    ActStart int string int
  | ActEnqueue nat string
  | ActDisconnect nat
  | ActRotate int string int
  | ActDiscard int string
  | ActDiscardNext nat
  | ActReceive nat
  | ActOnRotate nat
  | ActOnDiscard nat
  | ActWriter nat

fun dm_do :: "dm_action \<Rightarrow> dm_service \<Rightarrow> dm_service option" where
  "dm_do (ActStart room p t) v = Some (StartSession room p t v)"
| "dm_do (ActEnqueue i frag) v =
    (if i < length (dv_all v) \<and> \<not> dm_closed (dv_all v ! i)
     then (case dm_enqueue Drop frag (dv_all v ! i) of None \<Rightarrow> None | Some s \<Rightarrow> Some (upd_session i (\<lambda>_. s) v)) else None)"
| "dm_do (ActDisconnect i) v = (if i < length (dv_all v) then Some (upd_session i supervise_exit v) else None)"
| "dm_do (ActRotate room p t) v = Some (Rotate room p t v)"
| "dm_do (ActDiscard room p) v = Some (Discard (\<lambda>_. False) room p v)"
| "dm_do (ActDiscardNext j) v =
    (if j < length (dv_discards v)
     then (case di_at (dv_discards v ! j) of
        Added \<Rightarrow> Some (queueDiscard_signal j v)
      | Signaled \<Rightarrow> Some (discard_check j v)
      | Removing \<Rightarrow> Some (discard_remove (\<lambda>_. False) j v)
      | Ended \<Rightarrow> None) else None)"
| "dm_do (ActReceive i) v =
    (if i < length (dv_all v) \<and> dm_at (dv_all v ! i) = AtSelect
     then if dm_msgCh (dv_all v ! i) \<noteq> [] then Some (upd_session i (take_fragment True) v)
       else if dm_closed (dv_all v ! i) then Some (upd_session i (stopWriteLoop True) v) else None
     else None)"
| "dm_do (ActOnRotate i) v =
    (if i < length (dv_all v) \<and> dm_at (dv_all v ! i) = AtSelect
     then (case dm_rotateCh (dv_all v ! i) of None \<Rightarrow> None | Some req \<Rightarrow> Some (upd_session i (accept_rotate req False) v)) else None)"
| "dm_do (ActOnDiscard i) v =
    (if i < length (dv_all v) \<and> dm_at (dv_all v ! i) = AtSelect \<and> dm_discardCh (dv_all v ! i)
     then Some (upd_session i accept_discard v) else None)"
| "dm_do (ActWriter i) v =
    (if i < length (dv_all v)
     then (case dm_at (dv_all v ! i) of
        AtOpen req \<Rightarrow> Some (put_session i (first_segment True True req (dv_all v ! i, dv_files v)) (opened_by i req v))
      | AtSelect \<Rightarrow> None
      | AtDrain req again \<Rightarrow>
          if dm_msgCh (dv_all v ! i) \<noteq> [] then Some (upd_session i (take_fragment True) v)
          else if dm_closed (dv_all v ! i) then Some (upd_session i (stopWriteLoop True) v)
          else Some (upd_session i (\<lambda>s. s\<lparr>dm_at := AtRotate req again\<rparr>) v)
      | AtRotate req again \<Rightarrow>
          Some (put_session i (rotateSegment True True True req again (dv_all v ! i, dv_files v)) (opened_by i req v))
      | AtApply ps resume \<Rightarrow> Some (put_session i (apply_next (\<lambda>_. False) ps resume (dv_all v ! i, dv_files v)) v)
      | AtEnd \<Rightarrow> Some (removeSession (dm_roomID (dv_all v ! i)) i (upd_session i (\<lambda>s. s\<lparr>dm_at := AtOver\<rparr>) v))
      | AtOver \<Rightarrow> None) else None)"

fun dm_run :: "dm_action list \<Rightarrow> dm_service \<Rightarrow> dm_service option" where
  "dm_run [] v = Some v"
| "dm_run (a # as) v = (case dm_do a v of None \<Rightarrow> None | Some v \<Rightarrow> dm_run as v)"

lemma dm_do_step: "dm_do a v = Some v' \<Longrightarrow> dm_step (\<lambda>_. False) v v'"
  by (cases a) (auto intro: dm_step.intros split: if_splits option.splits discard_at.splits writer_at.splits)

lemma dm_run_steps: "dm_run as v = Some v' \<Longrightarrow> (dm_step (\<lambda>_. False))\<^sup>*\<^sup>* v v'"
  by (induction as arbitrary: v) (auto split: option.splits intro: converse_rtranclp_into_rtranclp dest: dm_do_step)

definition demo_encoder :: format_encoder where
  "demo_encoder = \<lparr>fe_ext = ''.xml'', fe_header = (\<lambda>t. ''<i>''), fe_footer = ''</i>''\<rparr>"

text \<open>Two fragments in the first sidecar, a rotation, and one in the second.\<close>

definition demo_messages :: "dm_action list" where
  "demo_messages = [ActStart 7 ''a.flv'' 0, ActWriter 0, ActEnqueue 0 ''x'', ActReceive 0, ActEnqueue 0 ''y'', ActRotate 7 ''b.flv'' 9,
     ActOnRotate 0, ActWriter 0, ActWriter 0, ActWriter 0, ActWriter 0, ActEnqueue 0 ''z'', ActReceive 0]"

text \<open>The second segment is discarded while the session is ending: the writer has applied its last discards.\<close>

definition demo_ending :: "dm_action list" where
  "demo_ending = demo_messages @ [ActDisconnect 0, ActReceive 0, ActWriter 0, ActDiscard 7 ''b.flv'', ActWriter 0,
     ActDiscardNext 0, ActDiscardNext 0, ActDiscardNext 0]"

text \<open>While the writer still drains for one rotation, the next segment is announced and discarded; its discard is applied with
  that of the former, and then its rotation is taken.\<close>

definition demo_overtaken :: "dm_action list" where
  "demo_overtaken = [ActStart 7 ''a.flv'' 0, ActWriter 0, ActRotate 7 ''b.flv'' 9, ActOnRotate 0, ActWriter 0,
     ActRotate 7 ''c.flv'' 12, ActDiscard 7 ''c.flv'', ActDiscardNext 0, ActDiscardNext 0,
     ActWriter 0, ActWriter 0, ActWriter 0, ActWriter 0, ActOnRotate 0, ActWriter 0, ActWriter 0, ActWriter 0,
     ActDisconnect 0, ActReceive 0, ActWriter 0, ActWriter 0]"

definition demo_state :: "dm_action list \<Rightarrow> dm_service" where
  "demo_state as = the (dm_run as (new_dm_service demo_encoder 2))"

lemma demo_runs:
  "dm_run demo_messages (new_dm_service demo_encoder 2) \<noteq> None" "dm_run demo_ending (new_dm_service demo_encoder 2) \<noteq> None"
  "dm_run demo_overtaken (new_dm_service demo_encoder 2) \<noteq> None"
  by code_simp+

lemma demo_reachable:
  "dm_run as (new_dm_service demo_encoder 2) \<noteq> None \<Longrightarrow> (dm_step (\<lambda>_. False))\<^sup>*\<^sup>* (new_dm_service demo_encoder 2) (demo_state as)"
  by (auto simp: demo_state_def intro: dm_run_steps)

lemma demo_messages_eval:
  "length (dv_all (demo_state demo_messages)) = 1" "dm_lost (dv_all (demo_state demo_messages) ! 0) = 0"
  "map sg_frags (dm_segments (dv_all (demo_state demo_messages) ! 0)) = [[''x'', ''y''], [''z'']]"
  by code_simp+

theorem fragments_in_order_witness:
  "let s = dv_all (demo_state demo_messages) ! 0 in
     map sg_frags (dm_segments s) = [[''x'', ''y''], [''z'']] \<and> concat (map sg_frags (dm_segments s)) @ dm_msgCh s = dm_received s"
  using fragments_in_order [OF demo_reachable [OF demo_runs(1)], of 0 "dv_all (demo_state demo_messages) ! 0"] demo_messages_eval
  unfolding Let_def by simp

lemma demo_ending_eval:
  "map (\<lambda>d. (di_videoPath d, di_session d, di_at d, di_late d)) (dv_discards (demo_state demo_ending)) = [(''b.flv'', 0, Ended, False)]"
  "dm_at (dv_all (demo_state demo_ending) ! 0) = AtOver" "fe_ext (dv_outputFormat (demo_state demo_ending)) = ''.xml''"
  "PathForVideo ''b.flv'' ''.xml'' = ''b.xml''"
  by code_simp+

lemma demo_ending_discard:
  obtains d where "d \<in> set (dv_discards (demo_state demo_ending))" "di_videoPath d = ''b.flv''" "di_session d = 0" "di_at d = Ended" "\<not> di_late d"
  using demo_ending_eval(1) by (auto simp: map_eq_Cons_conv)

lemma discarded_sidecar_gone_witness: "''b.xml'' \<notin> dv_files (demo_state demo_ending)"
proof -
  obtain d where d: "d \<in> set (dv_discards (demo_state demo_ending))" "di_videoPath d = ''b.flv''" "di_session d = 0" "di_at d = Ended" "\<not> di_late d"
    by (rule demo_ending_discard)
  show ?thesis
    using discarded_sidecar_gone [OF demo_reachable [OF demo_runs(2)] d(1,4) _ d(5)] d(2,3) demo_ending_eval by simp
qed

text \<open>A discard can come to nothing: a sidecar whose discard is over still exists when the session is over, as its rotation was
  taken only after the discard had been applied together with that of an earlier rotation.\<close>

lemma discard_overtakes_rotation:
  "\<exists>v. (dm_step (\<lambda>_. False))\<^sup>*\<^sup>* (new_dm_service demo_encoder 2) v \<and> dm_at (dv_all v ! 0) = AtOver \<and>
     map (\<lambda>d. (di_videoPath d, di_session d, di_at d)) (dv_discards v) = [(''c.flv'', 0, Ended)] \<and>
     PathForVideo ''c.flv'' ''.xml'' \<in> dv_files v"
proof (intro exI conjI)
  show "(dm_step (\<lambda>_. False))\<^sup>*\<^sup>* (new_dm_service demo_encoder 2) (demo_state demo_overtaken)"
    by (rule demo_reachable [OF demo_runs(3)])
  show "dm_at (dv_all (demo_state demo_overtaken) ! 0) = AtOver" by code_simp
  show "map (\<lambda>d. (di_videoPath d, di_session d, di_at d)) (dv_discards (demo_state demo_overtaken)) = [(''c.flv'', 0, Ended)]" by code_simp
  show "PathForVideo ''c.flv'' ''.xml'' \<in> dv_files (demo_state demo_overtaken)" by code_simp
qed

text \<open>The connection goroutine never gives up, and the delays between two connections lie between two and fifteen seconds.\<close>

lemma supervise_delays_aux:
  "sq_delays bo = sq_delays reconnect_backoff \<Longrightarrow>
   length (supervise_delays bo ls) = length ls \<and> set (supervise_delays bo ls) \<subseteq> set (sq_delays reconnect_backoff)"
proof (induction ls arbitrary: bo)
  case (Cons l ls)
  define b where "b = (if l > 60000 then seq_Reset bo else bo)"
  have b: "sq_delays b = sq_delays reconnect_backoff" using Cons.prems by (simp add: b_def seq_Reset_def)
  have n: "sq_delays b \<noteq> []" using b by (simp add: reconnect_backoff_def NewSequence_def)
  have "seq_Next b \<noteq> None" using n by (simp add: seq_Next_def)
  then obtain d b' where e: "seq_Next b = Some (d, b')" by fast
  have d: "d \<in> set (sq_delays b)" using e n by (auto simp: seq_Next_def split: if_splits)
  have b': "sq_delays b' = sq_delays reconnect_backoff" using e b by (auto simp: seq_Next_def split: if_splits)
  show ?case using Cons.IH [OF b'] d b e by (simp flip: b_def)
qed simp

lemma supervise_delays_bounded:
  "length (supervise_delays reconnect_backoff ls) = length ls" "d \<in> set (supervise_delays reconnect_backoff ls) \<Longrightarrow> 2000 \<le> d \<and> d \<le> 15000"
  using supervise_delays_aux [OF refl, of ls] by (auto simp: reconnect_backoff_def NewSequence_def)

end
