(* ===== verification/DanmakuXml.thy ===== *)
theory DanmakuXml
  imports GoPath
begin

text \<open>
  The XML sidecars of the danmaku recorder (\<open>internal/services/danmaku/format_xml.go\<close>, \<open>pkg/xml\<close>). A Go string is
  the list of the runes that ranging over it gives, so an invalid byte is the replacement rune already. A reader of
  such files specifies what they mean: the elements with their attributes and texts come back as they were
  recorded, whatever the users have written.
\<close>

type_synonym runes = "nat list"

definition rune :: "char \<Rightarrow> nat" where
  "rune c = of_char c"

definition lit :: "string \<Rightarrow> runes" where
  "lit s = map rune s"

section \<open>Escaping\<close>

definition invalidXMLRune :: "nat \<Rightarrow> bool" where
  "invalidXMLRune r \<longleftrightarrow>
    (r < 0x20 \<and> r \<noteq> 9 \<and> r \<noteq> 10 \<and> r \<noteq> 13) \<or> (0x7F \<le> r \<and> r \<le> 0x9F) \<or> r = 0xFEFF \<or> r = 0xFFFE \<or> r = 0xFFFF"

definition escape_rune :: "nat \<Rightarrow> runes" where
  "escape_rune r =
    (if r = rune CHR ''&'' then lit ''&amp;''
     else if r = rune CHR ''<'' then lit ''&lt;''
     else if r = rune CHR ''>'' then lit ''&gt;''
     else if r = rune CHR 0x22 then lit ''&quot;''
     else if r = rune CHR 0x27 then lit ''&#39;''
     else [r])"

fun AppendEscapedSanitized :: "runes \<Rightarrow> runes \<Rightarrow> runes" where
  "AppendEscapedSanitized buf [] = buf"
| "AppendEscapedSanitized buf (r # s) =
    (if invalidXMLRune r then AppendEscapedSanitized buf s else AppendEscapedSanitized (buf @ escape_rune r) s)"

section \<open>The encoder\<close>

definition AppendInt :: "int \<Rightarrow> runes" where
  "AppendInt i = lit ((if i < 0 then ''-'' else []) @ itoa (nat \<bar>i\<bar>))"

record RoomMeta =
  rm_RoomID :: int
  rm_ShortID :: int
  rm_Uname :: runes
  rm_Title :: runes

record Danmaku =
  da_Text :: runes
  da_UID :: int
  da_Uname :: runes
  da_Mode :: int
  da_FontSize :: int
  da_Color :: int
  da_SendTime :: int
  da_DmType :: int
  da_GuardLevel :: int
  da_UserLevel :: int
  da_Admin :: bool
  da_Urank :: int
  da_MobileVerify :: bool
  da_MedalLevel :: int
  da_MedalName :: runes
  da_MedalUpName :: runes
  da_MedalRoomID :: int
  da_MedalColor :: int
  da_MedalUpUID :: int
  da_DmTypeExtra :: int
  da_Direction :: int
  da_EmoticonUnique :: runes
  da_EmoticonURL :: runes

text \<open>Of the other messages, the fields an encoder writes.\<close>

record SuperChat =
  su_BackgroundBottomColor :: runes
  su_BackgroundColor :: runes
  su_BackgroundImage :: runes
  su_BackgroundPriceColor :: runes
  su_Message :: runes
  su_MessageFontColor :: runes
  su_Price :: int
  su_Time :: int
  su_UID :: int
  su_NameColor :: runes
  su_Face :: runes
  su_Uname :: runes

record Gift =
  gf_Face :: runes
  gf_GiftName :: runes
  gf_NameColor :: runes
  gf_Num :: int
  gf_UID :: int
  gf_Uname :: runes

record Guard =
  gu_UID :: int
  gu_Username :: runes
  gu_GuardLevel :: int
  gu_Num :: int

definition newline :: runes where
  "newline = [rune (CHR 0x0A)]"

definition xmlFileHeaderStatic :: runes where
  "xmlFileHeaderStatic = lit ''<i>'' @ newline @ lit ''<chatserver>chat.bilibili.com</chatserver>'' @ newline @
     lit ''<chatid>0</chatid>'' @ newline @ lit ''<mission>0</mission>'' @ newline @ lit ''<maxlimit>1000</maxlimit>'' @ newline @
     lit ''<state>0</state>'' @ newline @ lit ''<real_name>0</real_name>'' @ newline @ lit ''<source>0</source>'' @ newline"

definition xmlRecorderVersion :: "runes \<Rightarrow> runes" where
  "xmlRecorderVersion current = (if current \<noteq> [] then current else lit ''bilirec'')"

text \<open>The start time is formatted by the time library; its text is an argument.\<close>

definition xml_AppendHeader :: "runes \<Rightarrow> runes \<Rightarrow> RoomMeta \<Rightarrow> runes \<Rightarrow> runes" where
  "xml_AppendHeader current buf meta start =
    (let buf = buf @ lit ''<?xml version=\"1.0\" encoding=\"utf-8\"?>'';
         buf = buf @ newline;
         buf = buf @ xmlFileHeaderStatic;
         buf = buf @ lit ''<BililiveRecorder version=\"'';
         buf = AppendEscapedSanitized buf (xmlRecorderVersion current);
         buf = buf @ lit ''\"/>'' @ newline;
         buf = buf @ lit ''<BililiveRecorderRecordInfo roomid=\"'';
         buf = buf @ AppendInt (rm_RoomID meta);
         buf = buf @ lit ''\" shortid=\"'';
         buf = buf @ AppendInt (rm_ShortID meta);
         buf = buf @ lit ''\" name=\"'';
         buf = AppendEscapedSanitized buf (rm_Uname meta);
         buf = buf @ lit ''\" title=\"'';
         buf = AppendEscapedSanitized buf (rm_Title meta);
         buf = buf @ lit ''\" start_time=\"'';
         buf = buf @ start
     in buf @ lit ''\"/>'' @ newline)"

definition xml_AppendFooter :: "runes \<Rightarrow> runes" where
  "xml_AppendFooter buf = buf @ lit ''</i>'' @ newline"

definition xml_AppendDanmaku :: "runes \<Rightarrow> Danmaku \<Rightarrow> runes \<Rightarrow> runes" where
  "xml_AppendDanmaku buf e ts =
    (let buf = buf @ lit ''<d p=\"'';
         buf = buf @ ts;
         buf = buf @ lit '','';
         buf = buf @ AppendInt (da_Mode e);
         buf = buf @ lit '','';
         buf = buf @ AppendInt (da_FontSize e);
         buf = buf @ lit '','';
         buf = buf @ AppendInt (da_Color e);
         buf = buf @ lit '','';
         buf = buf @ AppendInt (da_SendTime e);
         buf = buf @ lit '',0,'';
         buf = buf @ AppendInt (da_UID e);
         buf = buf @ lit '',0\" user=\"'';
         buf = AppendEscapedSanitized buf (da_Uname e);
         buf = buf @ lit ''\">'';
         buf = AppendEscapedSanitized buf (da_Text e)
     in buf @ lit ''</d>'' @ newline)"

definition xml_AppendSuperChat :: "runes \<Rightarrow> SuperChat \<Rightarrow> runes \<Rightarrow> runes" where
  "xml_AppendSuperChat buf e ts =
    (let buf = buf @ lit ''<sc ts=\"'';
         buf = buf @ ts;
         buf = buf @ lit ''\" user=\"'';
         buf = AppendEscapedSanitized buf (su_Uname e);
         buf = buf @ lit ''\" uid=\"'';
         buf = buf @ AppendInt (su_UID e);
         buf = buf @ lit ''\" price=\"'';
         buf = buf @ AppendInt (su_Price e);
         buf = buf @ lit ''\" time=\"'';
         buf = buf @ AppendInt (su_Time e);
         buf = buf @ lit ''\" background_color=\"'';
         buf = AppendEscapedSanitized buf (su_BackgroundColor e);
         buf = buf @ lit ''\" background_bottom_color=\"'';
         buf = AppendEscapedSanitized buf (su_BackgroundBottomColor e);
         buf = buf @ lit ''\" background_price_color=\"'';
         buf = AppendEscapedSanitized buf (su_BackgroundPriceColor e);
         buf = buf @ lit ''\" message_font_color=\"'';
         buf = AppendEscapedSanitized buf (su_MessageFontColor e);
         buf = buf @ lit ''\" background_image=\"'';
         buf = AppendEscapedSanitized buf (su_BackgroundImage e);
         buf = buf @ lit ''\" name_color=\"'';
         buf = AppendEscapedSanitized buf (su_NameColor e);
         buf = buf @ lit ''\">'';
         buf = AppendEscapedSanitized buf (su_Message e)
     in buf @ lit ''</sc>'' @ newline)"

definition xml_AppendGift :: "runes \<Rightarrow> Gift \<Rightarrow> runes \<Rightarrow> runes" where
  "xml_AppendGift buf e ts =
    (let buf = buf @ lit ''<gift ts=\"'';
         buf = buf @ ts;
         buf = buf @ lit ''\" user=\"'';
         buf = AppendEscapedSanitized buf (gf_Uname e);
         buf = buf @ lit ''\" uid=\"'';
         buf = buf @ AppendInt (gf_UID e);
         buf = buf @ lit ''\" giftname=\"'';
         buf = AppendEscapedSanitized buf (gf_GiftName e);
         buf = buf @ lit ''\" giftcount=\"'';
         buf = buf @ AppendInt (gf_Num e)
     in buf @ lit ''\"/>'' @ newline)"

definition xml_AppendGuard :: "runes \<Rightarrow> Guard \<Rightarrow> runes \<Rightarrow> runes" where
  "xml_AppendGuard buf e ts =
    (let buf = buf @ lit ''<guard ts=\"'';
         buf = buf @ ts;
         buf = buf @ lit ''\" user=\"'';
         buf = AppendEscapedSanitized buf (gu_Username e);
         buf = buf @ lit ''\" uid=\"'';
         buf = buf @ AppendInt (gu_UID e);
         buf = buf @ lit ''\" level=\"'';
         buf = buf @ AppendInt (gu_GuardLevel e);
         buf = buf @ lit ''\" count=\"'';
         buf = buf @ AppendInt (gu_Num e)
     in buf @ lit ''\"/>'' @ newline)"

datatype dm_event = EvDanmaku Danmaku | EvSuperChat SuperChat | EvGift Gift | EvGuard Guard

definition xml_append :: "dm_event \<times> runes \<Rightarrow> runes \<Rightarrow> runes" where
  "xml_append ev buf =
    (case fst ev of
       EvDanmaku e \<Rightarrow> xml_AppendDanmaku buf e (snd ev)
     | EvSuperChat e \<Rightarrow> xml_AppendSuperChat buf e (snd ev)
     | EvGift e \<Rightarrow> xml_AppendGift buf e (snd ev)
     | EvGuard e \<Rightarrow> xml_AppendGuard buf e (snd ev))"

section \<open>A reader\<close>

datatype xml_token = XDecl runes | XOpen runes "(runes \<times> runes) list" bool | XClose runes | XText runes

text \<open>The text up to a rune, and what follows that rune.\<close>

definition upto_rune :: "char \<Rightarrow> runes \<Rightarrow> (runes \<times> runes) option" where
  "upto_rune c s = (if rune c \<in> set s then Some (takeWhile (\<lambda>r. r \<noteq> rune c) s, tl (dropWhile (\<lambda>r. r \<noteq> rune c) s)) else None)"

definition entities :: "(runes \<times> nat) list" where
  "entities = [(lit ''&amp;'', rune CHR ''&''), (lit ''&lt;'', rune CHR ''<''), (lit ''&gt;'', rune CHR ''>''),
     (lit ''&quot;'', rune CHR 0x22), (lit ''&#39;'', rune CHR 0x27)]"

fun unescape :: "nat \<Rightarrow> runes \<Rightarrow> runes" where
  "unescape 0 s = []"
| "unescape (Suc n) [] = []"
| "unescape (Suc n) (r # s) =
    (case List.find (\<lambda>e. take (length (fst e)) (r # s) = fst e) entities of
       Some e \<Rightarrow> snd e # unescape n (drop (length (fst e)) (r # s))
     | None \<Rightarrow> r # unescape n s)"

definition xml_value :: "runes \<Rightarrow> runes" where
  "xml_value s = unescape (length s) s"

fun xml_attrs :: "nat \<Rightarrow> runes \<Rightarrow> ((runes \<times> runes) list \<times> bool \<times> runes) option" where
  "xml_attrs 0 s = None"
| "xml_attrs (Suc n) s =
    (if take 1 s = lit ''>'' then Some ([], False, drop 1 s)
     else if take 2 s = lit ''/>'' then Some ([], True, drop 2 s)
     else if take 1 s = lit '' '' then
       (case upto_rune CHR ''='' (drop 1 s) of
          None \<Rightarrow> None
        | Some (name, s1) \<Rightarrow>
            if take 1 s1 \<noteq> [rune CHR 0x22] then None
            else (case upto_rune CHR 0x22 (drop 1 s1) of
                None \<Rightarrow> None
              | Some (v, s2) \<Rightarrow> map_option (\<lambda>(as, x). ((name, xml_value v) # as, x)) (xml_attrs n s2)))
     else None)"

definition name_end :: "nat \<Rightarrow> bool" where
  "name_end r \<longleftrightarrow> r \<in> {rune CHR '' '', rune CHR ''>'', rune CHR ''/''}"

fun xml_tokens :: "nat \<Rightarrow> runes \<Rightarrow> xml_token list option" where
  "xml_tokens 0 s = None"
| "xml_tokens (Suc n) [] = Some []"
| "xml_tokens (Suc n) (r # s) =
    (if r \<noteq> rune CHR ''<'' then
       map_option (Cons (XText (xml_value (takeWhile (\<lambda>r. r \<noteq> rune CHR ''<'') (r # s))))) (xml_tokens n (dropWhile (\<lambda>r. r \<noteq> rune CHR ''<'') (r # s)))
     else if take 1 s = lit ''?'' then
       (case upto_rune CHR ''>'' (drop 1 s) of None \<Rightarrow> None | Some (d, rest) \<Rightarrow> map_option (Cons (XDecl d)) (xml_tokens n rest))
     else if take 1 s = lit ''/'' then
       (case upto_rune CHR ''>'' (drop 1 s) of None \<Rightarrow> None | Some (m, rest) \<Rightarrow> map_option (Cons (XClose m)) (xml_tokens n rest))
     else
       (case xml_attrs (length s) (dropWhile (\<lambda>r. \<not> name_end r) s) of
          None \<Rightarrow> None
        | Some (as, closed, rest) \<Rightarrow> map_option (Cons (XOpen (takeWhile (\<lambda>r. \<not> name_end r) s) as closed)) (xml_tokens n rest)))"

definition xml_read :: "runes \<Rightarrow> xml_token list option" where
  "xml_read s = xml_tokens (Suc (length s)) s"

section \<open>Escaping and reading back\<close>

lemma rune_inject [simp]: "rune a = rune b \<longleftrightarrow> a = b"
  by (simp add: rune_def)

definition sanitize :: "runes \<Rightarrow> runes" where
  "sanitize s = filter (\<lambda>r. \<not> invalidXMLRune r) s"

definition escape :: "runes \<Rightarrow> runes" where
  "escape s = concat (map escape_rune s)"

lemma escape_simps [simp]: "escape [] = []" "escape (r # s) = escape_rune r @ escape s" "escape (s @ t) = escape s @ escape t"
  by (simp_all add: escape_def)

lemma AppendEscapedSanitized_eq: "AppendEscapedSanitized buf s = buf @ escape (sanitize s)"
  by (induction buf s rule: AppendEscapedSanitized.induct) (simp_all add: sanitize_def)

text \<open>A rune that needs no escape is none of the five.\<close>

definition plain :: "nat \<Rightarrow> bool" where
  "plain r \<longleftrightarrow> r \<notin> set (map snd entities)"

lemma plain_iff:
  "plain r \<longleftrightarrow> r \<noteq> rune CHR ''&'' \<and> r \<noteq> rune CHR ''<'' \<and> r \<noteq> rune CHR ''>'' \<and> r \<noteq> rune CHR 0x22 \<and> r \<noteq> rune CHR 0x27"
  by (auto simp: plain_def entities_def)

lemma escape_plain: "list_all plain s \<Longrightarrow> escape s = s"
  by (induction s) (auto simp: escape_rune_def plain_iff)

lemma escape_rune_cases: "plain r \<and> escape_rune r = [r] \<or> (escape_rune r, r) \<in> set entities"
  by (auto simp: escape_rune_def plain_iff entities_def)

lemma unescape_step_plain: "r \<noteq> rune CHR ''&'' \<Longrightarrow> unescape (Suc n) (r # s) = r # unescape n s"
  by (simp add: entities_def lit_def)

lemma unescape_step_entity: "(e, r) \<in> set entities \<Longrightarrow> unescape (Suc n) (e @ s) = r # unescape n s"
  by (auto simp: entities_def lit_def)

lemma unescape_nil: "unescape n [] = []"
  by (cases n) simp_all

lemma unescape_escape: "length (escape s) \<le> n \<Longrightarrow> unescape n (escape s) = s"
proof (induction s arbitrary: n)
  case (Cons r s)
  have ne: "escape_rune r \<noteq> []" by (simp add: escape_rune_def lit_def)
  then obtain m where n: "n = Suc m" using Cons.prems by (cases n) auto
  have "length (escape s) \<le> m" using Cons.prems ne n by (cases "escape_rune r") auto
  then have ih: "unescape m (escape s) = s" by (rule Cons.IH)
  from escape_rune_cases [of r] show ?case
  proof
    assume "plain r \<and> escape_rune r = [r]"
    then show ?thesis using ih n unescape_step_plain [of r m "escape s"] by (simp add: plain_iff del: unescape.simps)
  next
    assume "(escape_rune r, r) \<in> set entities"
    from unescape_step_entity [OF this, of m "escape s"] show ?thesis using ih n by (simp del: unescape.simps)
  qed
qed (simp add: unescape_nil)

lemma xml_value_escape [simp]: "xml_value (escape s) = s"
  by (simp add: xml_value_def unescape_escape)

text \<open>What is escaped has none of the runes that end a text or a value.\<close>

lemma escape_rune_clean: "rune c \<notin> set (escape_rune r)" if "c \<in> {CHR ''<'', CHR 0x22, CHR ''>''}"
  using that by (auto simp: escape_rune_def lit_def)

lemma escape_clean: "c \<in> {CHR ''<'', CHR 0x22, CHR ''>''} \<Longrightarrow> rune c \<notin> set (escape s)"
  using escape_rune_clean by (induction s) auto

lemma upto_rune_append: "rune c \<notin> set s \<Longrightarrow> upto_rune c (s @ rune c # t) = Some (s, t)"
  by (simp add: upto_rune_def takeWhile_append dropWhile_append)

section \<open>Printed tokens are read back\<close>

definition print_attr :: "runes \<times> runes \<Rightarrow> runes" where
  "print_attr a = [rune CHR '' ''] @ fst a @ [rune CHR ''='', rune CHR 0x22] @ escape (snd a) @ [rune CHR 0x22]"

fun print_token :: "xml_token \<Rightarrow> runes" where
  "print_token (XDecl d) = [rune CHR ''<'', rune CHR ''?''] @ d @ [rune CHR ''>'']"
| "print_token (XOpen m as closed) =
    [rune CHR ''<''] @ m @ concat (map print_attr as) @ (if closed then [rune CHR ''/'', rune CHR ''>''] else [rune CHR ''>''])"
| "print_token (XClose m) = [rune CHR ''<'', rune CHR ''/''] @ m @ [rune CHR ''>'']"
| "print_token (XText t) = escape t"

definition print_tokens :: "xml_token list \<Rightarrow> runes" where
  "print_tokens ts = concat (map print_token ts)"

text \<open>Names of letters only; texts are not empty, and none follows another.\<close>

definition name_ok :: "runes \<Rightarrow> bool" where
  "name_ok m \<longleftrightarrow> m \<noteq> [] \<and> (\<forall>r \<in> set m. plain r \<and> \<not> name_end r \<and> r \<noteq> rune CHR ''='' \<and> r \<noteq> rune CHR ''?'')"

fun token_ok :: "xml_token \<Rightarrow> bool" where
  "token_ok (XDecl d) = (rune CHR ''>'' \<notin> set d)"
| "token_ok (XOpen m as closed) = (name_ok m \<and> (\<forall>a \<in> set as. name_ok (fst a)))"
| "token_ok (XClose m) = name_ok m"
| "token_ok (XText t) = (t \<noteq> [])"

fun is_text :: "xml_token \<Rightarrow> bool" where
  "is_text (XText t) = True"
| "is_text _ = False"

fun tokens_ok :: "xml_token list \<Rightarrow> bool" where
  "tokens_ok [] = True"
| "tokens_ok [t] = token_ok t"
| "tokens_ok (t # u # ts) = (token_ok t \<and> (is_text t \<longrightarrow> \<not> is_text u) \<and> tokens_ok (u # ts))"

lemma xml_attrs_print:
  "(\<And>a. a \<in> set as \<Longrightarrow> name_ok (fst a)) \<Longrightarrow> length as < n \<Longrightarrow>
   xml_attrs n (concat (map print_attr as) @ (if closed then [rune CHR ''/'', rune CHR ''>''] else [rune CHR ''>'']) @ rest) = Some (as, closed, rest)"
proof (induction as arbitrary: n)
  case Nil
  then obtain m where "n = Suc m" by (cases n) auto
  then show ?case by (simp add: lit_def)
next
  case (Cons a as)
  obtain m where n: "n = Suc m" using Cons.prems(2) by (cases n) auto
  define tail where "tail = concat (map print_attr as) @ (if closed then [rune CHR ''/'', rune CHR ''>''] else [rune CHR ''>'']) @ rest"
  have ih: "xml_attrs m tail = Some (as, closed, rest)" unfolding tail_def by (rule Cons.IH) (use Cons.prems n in auto)
  have nm: "rune CHR ''='' \<notin> set (fst a)" using Cons.prems(1) [of a] by (auto simp: name_ok_def)
  have q: "rune CHR 0x22 \<notin> set (escape (snd a))" by (rule escape_clean) simp
  have e: "concat (map print_attr (a # as)) @ (if closed then [rune CHR ''/'', rune CHR ''>''] else [rune CHR ''>'']) @ rest
      = rune CHR '' '' # fst a @ rune CHR ''='' # rune CHR 0x22 # escape (snd a) @ rune CHR 0x22 # tail"
    by (simp add: print_attr_def tail_def)
  show ?case unfolding e n
    by (simp add: lit_def upto_rune_append [OF nm] upto_rune_append [OF q] ih)
qed

lemma takeWhile_stop: "(\<And>x. x \<in> set xs \<Longrightarrow> P x) \<Longrightarrow> ys = [] \<or> \<not> P (hd ys) \<Longrightarrow> takeWhile P (xs @ ys) = xs \<and> dropWhile P (xs @ ys) = ys"
  by (cases ys) (simp_all add: takeWhile_append dropWhile_append)

lemma print_attrs_length: "length as \<le> length (concat (map print_attr as))"
  by (induction as) (simp_all add: print_attr_def)

lemma print_attrs_start:
  "concat (map print_attr as) @ (if closed then [rune CHR ''/'', rune CHR ''>''] else [rune CHR ''>'']) @ rest \<noteq> [] \<and>
   name_end (hd (concat (map print_attr as) @ (if closed then [rune CHR ''/'', rune CHR ''>''] else [rune CHR ''>'']) @ rest))"
  by (cases as) (auto simp: print_attr_def name_end_def)

lemma xml_tokens_open:
  assumes m: "name_ok m" and as: "\<And>a. a \<in> set as \<Longrightarrow> name_ok (fst a)"
  shows "xml_tokens (Suc n) (print_token (XOpen m as closed) @ rest) = map_option (Cons (XOpen m as closed)) (xml_tokens n rest)"
proof -
  define tail where "tail = concat (map print_attr as) @ (if closed then [rune CHR ''/'', rune CHR ''>''] else [rune CHR ''>'']) @ rest"
  have e: "print_token (XOpen m as closed) @ rest = rune CHR ''<'' # (m @ tail)" by (simp add: tail_def)
  have t: "takeWhile (\<lambda>r. \<not> name_end r) (m @ tail) = m \<and> dropWhile (\<lambda>r. \<not> name_end r) (m @ tail) = tail"
    by (rule takeWhile_stop) (use m print_attrs_start [of as closed rest] in \<open>auto simp: name_ok_def tail_def\<close>)
  obtain c m' where cm: "m = c # m'" "c \<noteq> rune CHR ''/''" "c \<noteq> rune CHR ''?''"
    using m by (cases m) (auto simp: name_ok_def name_end_def)
  have l: "length as < length (m @ tail)" using print_attrs_length [of as] cm by (simp add: tail_def)
  have a: "xml_attrs (length (m @ tail)) tail = Some (as, closed, rest)"
    by (subst (2) tail_def, rule xml_attrs_print, erule as) (rule l)
  have h: "take 1 (m @ tail) \<noteq> lit ''?''" "take 1 (m @ tail) \<noteq> lit ''/''" using cm by (simp_all add: lit_def)
  show ?thesis unfolding e xml_tokens.simps(3) using t a h by (simp del: length_append take_append)
qed

lemma escape_nonempty: "t \<noteq> [] \<Longrightarrow> escape t \<noteq> []"
  by (cases t) (simp_all add: escape_rune_def lit_def)

lemma xml_tokens_text:
  assumes t: "t \<noteq> []" and rest: "rest = [] \<or> hd rest = rune CHR ''<''"
  shows "xml_tokens (Suc n) (escape t @ rest) = map_option (Cons (XText t)) (xml_tokens n rest)"
proof -
  have c: "\<And>x. x \<in> set (escape t) \<Longrightarrow> x \<noteq> rune CHR ''<''" using escape_clean [of "CHR ''<''" t] by auto
  have ne: "escape t \<noteq> []" using t by (rule escape_nonempty)
  obtain r s where rs: "escape t = r # s" using ne by (cases "escape t") auto
  have r: "r \<noteq> rune CHR ''<''" using c rs by auto
  have w: "takeWhile (\<lambda>r. r \<noteq> rune CHR ''<'') (escape t @ rest) = escape t \<and> dropWhile (\<lambda>r. r \<noteq> rune CHR ''<'') (escape t @ rest) = rest"
    by (rule takeWhile_stop) (use c rest in auto)
  have "xml_tokens (Suc n) (r # (s @ rest)) =
      map_option (Cons (XText (xml_value (takeWhile (\<lambda>r. r \<noteq> rune CHR ''<'') (r # (s @ rest))))))
        (xml_tokens n (dropWhile (\<lambda>r. r \<noteq> rune CHR ''<'') (r # (s @ rest))))"
    using r by (simp only: xml_tokens.simps if_P not_False_eq_True)
  then show ?thesis using w rs by (metis append_Cons xml_value_escape)
qed

lemma xml_tokens_step:
  assumes ok: "token_ok t" and rest: "is_text t \<Longrightarrow> rest = [] \<or> hd rest = rune CHR ''<''"
  shows "xml_tokens (Suc n) (print_token t @ rest) = map_option (Cons t) (xml_tokens n rest)"
proof (cases t)
  case (XDecl d)
  then have "rune CHR ''>'' \<notin> set d" using ok by simp
  from upto_rune_append [OF this] show ?thesis using XDecl by (simp add: lit_def)
next
  case (XOpen m as closed)
  show ?thesis unfolding XOpen by (rule xml_tokens_open) (use ok XOpen in auto)
next
  case (XClose m)
  then have "rune CHR ''>'' \<notin> set m" using ok by (auto simp: name_ok_def plain_iff)
  from upto_rune_append [OF this] show ?thesis using XClose by (simp add: lit_def)
next
  case (XText x)
  show ?thesis unfolding XText print_token.simps by (rule xml_tokens_text) (use ok rest XText in auto)
qed

lemma print_token_start: "\<not> is_text t \<Longrightarrow> \<exists>s. print_token t = rune CHR ''<'' # s"
  by (cases t) simp_all

lemma print_token_nonempty: "token_ok t \<Longrightarrow> print_token t \<noteq> []"
  by (cases t) (simp_all add: escape_nonempty)

text \<open>A well-formed sequence of tokens is read back as it is.\<close>

lemma xml_tokens_print: "tokens_ok ts \<Longrightarrow> length (print_tokens ts) < n \<Longrightarrow> xml_tokens n (print_tokens ts) = Some ts"
proof (induction ts arbitrary: n rule: tokens_ok.induct)
  case 1
  then obtain m where "n = Suc m" by (cases n) auto
  then show ?case by (simp add: print_tokens_def)
next
  case (2 t)
  have "print_token t \<noteq> []" using 2 by (simp add: print_token_nonempty)
  then obtain m where n: "n = Suc (Suc m)" using 2 by (cases n; cases "n - 1") (auto simp: print_tokens_def)
  show ?case using xml_tokens_step [of t "[]" "Suc m"] 2 n by (simp add: print_tokens_def)
next
  case (3 t u ts)
  obtain m where n: "n = Suc m" using "3.prems"(2) by (cases n) auto
  have ne: "print_token t \<noteq> []" using 3 by (simp add: print_token_nonempty)
  have p: "print_tokens (t # u # ts) = print_token t @ print_tokens (u # ts)" by (simp add: print_tokens_def)
  have "length (print_tokens (u # ts)) < m" using "3.prems"(2) n ne p by (cases "print_token t") auto
  then have ih: "xml_tokens m (print_tokens (u # ts)) = Some (u # ts)" using "3.IH" "3.prems"(1) by simp
  have "is_text t \<Longrightarrow> hd (print_tokens (u # ts)) = rune CHR ''<''"
    using "3.prems"(1) print_token_start [of u] by (auto simp: print_tokens_def)
  then show ?case unfolding n p using xml_tokens_step [of t "print_tokens (u # ts)" m] "3.prems"(1) ih by simp
qed

lemma xml_read_print: "tokens_ok ts \<Longrightarrow> xml_read (print_tokens ts) = Some ts"
  by (simp add: xml_read_def xml_tokens_print)

section \<open>What a sidecar means\<close>

text \<open>A text between tags that may be empty.\<close>

definition text_tokens :: "runes \<Rightarrow> xml_token list" where
  "text_tokens t = (if sanitize t = [] then [] else [XText (sanitize t)])"

fun event_tokens :: "dm_event \<times> runes \<Rightarrow> xml_token list" where
  "event_tokens (EvDanmaku e, ts) =
    [XOpen (lit ''d'') [(lit ''p'', ts @ lit '','' @ AppendInt (da_Mode e) @ lit '','' @ AppendInt (da_FontSize e) @ lit '','' @ AppendInt (da_Color e)
        @ lit '','' @ AppendInt (da_SendTime e) @ lit '',0,'' @ AppendInt (da_UID e) @ lit '',0''), (lit ''user'', sanitize (da_Uname e))] False]
     @ text_tokens (da_Text e) @ [XClose (lit ''d''), XText newline]"
| "event_tokens (EvSuperChat e, ts) =
    [XOpen (lit ''sc'') [(lit ''ts'', ts), (lit ''user'', sanitize (su_Uname e)), (lit ''uid'', AppendInt (su_UID e)),
        (lit ''price'', AppendInt (su_Price e)), (lit ''time'', AppendInt (su_Time e)),
        (lit ''background_color'', sanitize (su_BackgroundColor e)), (lit ''background_bottom_color'', sanitize (su_BackgroundBottomColor e)),
        (lit ''background_price_color'', sanitize (su_BackgroundPriceColor e)), (lit ''message_font_color'', sanitize (su_MessageFontColor e)),
        (lit ''background_image'', sanitize (su_BackgroundImage e)), (lit ''name_color'', sanitize (su_NameColor e))] False]
     @ text_tokens (su_Message e) @ [XClose (lit ''sc''), XText newline]"
| "event_tokens (EvGift e, ts) =
    [XOpen (lit ''gift'') [(lit ''ts'', ts), (lit ''user'', sanitize (gf_Uname e)), (lit ''uid'', AppendInt (gf_UID e)),
        (lit ''giftname'', sanitize (gf_GiftName e)), (lit ''giftcount'', AppendInt (gf_Num e))] True, XText newline]"
| "event_tokens (EvGuard e, ts) =
    [XOpen (lit ''guard'') [(lit ''ts'', ts), (lit ''user'', sanitize (gu_Username e)), (lit ''uid'', AppendInt (gu_UID e)),
        (lit ''level'', AppendInt (gu_GuardLevel e)), (lit ''count'', AppendInt (gu_Num e))] True, XText newline]"

definition element :: "string \<Rightarrow> string \<Rightarrow> xml_token list" where
  "element m t = [XOpen (lit m) [] False, XText (lit t), XClose (lit m), XText newline]"

definition header_tokens :: "runes \<Rightarrow> RoomMeta \<Rightarrow> runes \<Rightarrow> xml_token list" where
  "header_tokens current meta start =
    [XDecl (lit ''xml version=\"1.0\" encoding=\"utf-8\"?''), XText newline, XOpen (lit ''i'') [] False, XText newline]
     @ element ''chatserver'' ''chat.bilibili.com'' @ element ''chatid'' ''0'' @ element ''mission'' ''0'' @ element ''maxlimit'' ''1000''
     @ element ''state'' ''0'' @ element ''real_name'' ''0'' @ element ''source'' ''0''
     @ [XOpen (lit ''BililiveRecorder'') [(lit ''version'', sanitize (xmlRecorderVersion current))] True, XText newline,
        XOpen (lit ''BililiveRecorderRecordInfo'') [(lit ''roomid'', AppendInt (rm_RoomID meta)), (lit ''shortid'', AppendInt (rm_ShortID meta)),
          (lit ''name'', sanitize (rm_Uname meta)), (lit ''title'', sanitize (rm_Title meta)), (lit ''start_time'', start)] True, XText newline]"

definition footer_tokens :: "xml_token list" where
  "footer_tokens = [XClose (lit ''i''), XText newline]"

text \<open>The encoder prints these tokens.\<close>

lemma plain_lit: "(\<forall>c \<in> set s. c \<notin> {CHR ''&'', CHR ''<'', CHR ''>'', CHR 0x22, CHR 0x27}) \<Longrightarrow> escape (lit s) = lit s"
  by (rule escape_plain) (auto simp: lit_def plain_iff list_all_iff)

lemma plain_digits: "list_all plain (AppendInt i)"
proof -
  have "c \<notin> {CHR ''&'', CHR ''<'', CHR ''>'', CHR 0x22, CHR 0x27}" if "is_digit c" for c
    using that by (auto simp: is_digit_def)
  then show ?thesis using itoa_digits [of "nat \<bar>i\<bar>"] by (auto simp: AppendInt_def lit_def plain_iff list_all_iff)
qed

lemma escape_AppendInt [simp]: "escape (AppendInt i) = AppendInt i"
  by (rule escape_plain [OF plain_digits])

lemma escape_newline [simp]: "escape newline = newline"
  by (rule escape_plain) (simp add: newline_def plain_iff)

lemma print_text_tokens: "print_tokens (text_tokens t) = escape (sanitize t)"
  by (simp add: text_tokens_def print_tokens_def)

lemma print_tokens_append: "print_tokens (ts @ us) = print_tokens ts @ print_tokens us"
  by (simp add: print_tokens_def)

lemma print_tokens_Cons: "print_tokens (t # us) = print_token t @ print_tokens us"
  by (simp add: print_tokens_def)

lemma print_tokens_Nil: "print_tokens [] = []"
  by (simp add: print_tokens_def)

lemmas print_simps = print_tokens_append print_tokens_Cons print_tokens_Nil print_text_tokens print_attr_def AppendEscapedSanitized_eq lit_def

lemma xml_append_prints:
  assumes "list_all plain (snd ev)"
  shows "xml_append ev buf = buf @ print_tokens (event_tokens ev)"
proof -
  obtain e ts where ev: "ev = (e, ts)" by fastforce
  have ts: "escape ts = ts" using assms ev by (simp add: escape_plain)
  have c: "escape_rune (rune CHR '','') = [rune CHR '','']" "escape_rune (rune CHR ''0'') = [rune CHR ''0'']"
    by (simp_all add: escape_rune_def)
  show ?thesis
  proof (cases e)
    case (EvDanmaku x)
    show ?thesis by (simp add: ev EvDanmaku xml_append_def xml_AppendDanmaku_def Let_def print_simps ts c)
  next
    case (EvSuperChat x)
    show ?thesis by (simp add: ev EvSuperChat xml_append_def xml_AppendSuperChat_def Let_def print_simps ts c)
  next
    case (EvGift x)
    show ?thesis by (simp add: ev EvGift xml_append_def xml_AppendGift_def Let_def print_simps ts c)
  next
    case (EvGuard x)
    show ?thesis by (simp add: ev EvGuard xml_append_def xml_AppendGuard_def Let_def print_simps ts c)
  qed
qed

lemma xml_AppendHeader_prints:
  assumes "list_all plain start"
  shows "xml_AppendHeader current buf meta start = buf @ print_tokens (header_tokens current meta start)"
proof -
  have e: "print_tokens (element m t) = lit (''<'' @ m @ ''>'') @ escape (lit t) @ lit (''</'' @ m @ ''>'') @ newline" for m t
    by (simp add: element_def print_simps)
  have st: "escape start = start" using assms by (simp add: escape_plain)
  have x: "escape (lit ''chat.bilibili.com'') = lit ''chat.bilibili.com''" "escape (lit ''0'') = lit ''0''" "escape (lit ''1000'') = lit ''1000''"
    by (rule plain_lit, simp)+
  show ?thesis
    by (simp add: xml_AppendHeader_def Let_def header_tokens_def xmlFileHeaderStatic_def print_tokens_append print_tokens_Cons e x)
      (simp add: print_simps st)
qed

lemma xml_AppendFooter_prints: "xml_AppendFooter buf = buf @ print_tokens footer_tokens"
  by (simp add: xml_AppendFooter_def footer_tokens_def print_simps)

lemma tokens_ok_append:
  "tokens_ok xs \<Longrightarrow> tokens_ok ys \<Longrightarrow> ys = [] \<or> \<not> is_text (hd ys) \<Longrightarrow> tokens_ok (xs @ ys)"
proof (induction xs rule: tokens_ok.induct)
  case (2 t)
  then show ?case by (cases ys) auto
qed auto

lemmas token_simps = name_ok_def lit_def plain_iff name_end_def newline_def

lemma event_tokens_ok: "tokens_ok (event_tokens ev)"
  by (cases ev rule: event_tokens.cases) (simp_all add: text_tokens_def token_simps)

lemma event_tokens_start: "event_tokens ev \<noteq> [] \<and> \<not> is_text (hd (event_tokens ev))"
  by (cases ev rule: event_tokens.cases) simp_all

lemma header_tokens_ok: "tokens_ok (header_tokens current meta start)"
  by (simp add: header_tokens_def element_def token_simps)

lemma file_tokens_ok: "tokens_ok (concat (map event_tokens evs) @ footer_tokens) \<and> \<not> is_text (hd (concat (map event_tokens evs) @ footer_tokens))"
proof (induction evs)
  case Nil
  show ?case by (simp add: footer_tokens_def token_simps)
next
  case (Cons ev evs)
  then show ?case
    using tokens_ok_append [OF event_tokens_ok [of ev], of "concat (map event_tokens evs) @ footer_tokens"] event_tokens_start [of ev]
    by auto
qed

lemma fold_xml_append:
  "(\<And>ev. ev \<in> set evs \<Longrightarrow> list_all plain (snd ev)) \<Longrightarrow> fold xml_append evs buf = buf @ print_tokens (concat (map event_tokens evs))"
  by (induction evs arbitrary: buf) (simp_all add: xml_append_prints print_simps(1,3))


definition demo_guard :: "dm_event \<times> runes" where
  "demo_guard = (EvGuard \<lparr>gu_UID = 789, gu_Username = lit ''a\"/><x''@ [7], gu_GuardLevel = 3, gu_Num = 1\<rparr>, lit ''4.000'')"

definition demo_meta :: RoomMeta where
  "demo_meta = \<lparr>rm_RoomID = 12345, rm_ShortID = 678, rm_Uname = lit ''<b>'', rm_Title = []\<rparr>"

lemma demo_guard_plain: "list_all plain (lit ''2026-08-08T15:04:05+08:00'')" "list_all plain (snd demo_guard)"
  by (simp_all add: demo_guard_def lit_def plain_iff)

lemma demo_guard_tokens:
  "event_tokens demo_guard = [XOpen (lit ''guard'') [(lit ''ts'', lit ''4.000''), (lit ''user'', lit ''a\"/><x''), (lit ''uid'', lit ''789''),
     (lit ''level'', lit ''3''), (lit ''count'', lit ''1'')] True, XText newline]"
proof -
  have d: "char_of (49 :: nat) = CHR ''1''" "char_of (51 :: nat) = CHR ''3''" "char_of (55 :: nat) = CHR ''7''"
    "char_of (56 :: nat) = CHR ''8''" "char_of (57 :: nat) = CHR ''9''"
    by code_simp+
  have "AppendInt 789 = lit ''789''" "AppendInt 3 = lit ''3''" "AppendInt 1 = lit ''1''"
    by (simp_all add: AppendInt_def itoa.simps digit_def d)
  moreover have "sanitize (lit ''a\"/><x'' @ [7]) = lit ''a\"/><x''"
    by (simp add: sanitize_def lit_def rune_def invalidXMLRune_def)
  ultimately show ?thesis by (simp only: demo_guard_def event_tokens.simps Guard.simps)
qed


end
