(* ===== verification/DanmakuJson.thy ===== *)
theory DanmakuJson
  imports DanmakuXml
begin

text \<open>
  From a live message to the fragment of a sidecar (\<open>internal/services/danmaku/parse_json.go\<close>, \<open>format_jsonl.go\<close>,
  \<open>format.go\<close> and the handlers of \<open>session.go\<close>). The JSON libraries are parameters: looking up a path, reading
  a result, decoding a message's data and encoding a line.
\<close>

section \<open>Parsing\<close>

text \<open>A path that is not in the message has no result; its text is empty and its number zero.\<close>

record 'r gjson =
  gj_get :: "runes \<Rightarrow> string \<Rightarrow> 'r option"
  gj_Get :: "'r \<Rightarrow> string \<Rightarrow> 'r option"
  gj_Int :: "'r \<Rightarrow> int"
  gj_String :: "'r \<Rightarrow> runes"
  gj_Bool :: "'r \<Rightarrow> bool"
  gj_Raw :: "'r \<Rightarrow> runes"
  gj_is_string :: "'r \<Rightarrow> bool"

definition res_string :: "'r gjson \<Rightarrow> 'r option \<Rightarrow> runes" where
  "res_string gj r = (case r of None \<Rightarrow> [] | Some v \<Rightarrow> gj_String gj v)"

definition res_int :: "'r gjson \<Rightarrow> 'r option \<Rightarrow> int" where
  "res_int gj r = (case r of None \<Rightarrow> 0 | Some v \<Rightarrow> gj_Int gj v)"

definition res_bool :: "'r gjson \<Rightarrow> 'r option \<Rightarrow> bool" where
  "res_bool gj r = (case r of None \<Rightarrow> False | Some v \<Rightarrow> gj_Bool gj v)"

definition gint :: "'r gjson \<Rightarrow> runes \<Rightarrow> string \<Rightarrow> int \<Rightarrow> int" where
  "gint gj raw path dflt = (case gj_get gj raw path of None \<Rightarrow> dflt | Some v \<Rightarrow> gj_Int gj v)"

definition parseDanmaku :: "'r gjson \<Rightarrow> runes \<Rightarrow> Danmaku option" where
  "parseDanmaku gj raw =
    (if gj_get gj raw ''info'' = None then None
     else
       let e = \<lparr>da_Text = res_string gj (gj_get gj raw ''info.1''), da_UID = gint gj raw ''info.2.0'' 0,
             da_Uname = res_string gj (gj_get gj raw ''info.2.1''), da_Mode = gint gj raw ''info.0.1'' 1,
             da_FontSize = gint gj raw ''info.0.2'' 25, da_Color = gint gj raw ''info.0.3'' 16777215,
             da_SendTime = gint gj raw ''info.0.4'' 0, da_DmType = gint gj raw ''info.0.12'' 0,
             da_GuardLevel = gint gj raw ''info.7'' 0, da_UserLevel = gint gj raw ''info.2.16.0'' 0,
             da_Admin = res_bool gj (gj_get gj raw ''info.2.2''), da_Urank = gint gj raw ''info.2.5'' 0,
             da_MobileVerify = res_bool gj (gj_get gj raw ''info.2.6''), da_MedalLevel = gint gj raw ''info.3.0'' 0,
             da_MedalName = res_string gj (gj_get gj raw ''info.3.1''), da_MedalUpName = res_string gj (gj_get gj raw ''info.3.2''),
             da_MedalRoomID = gint gj raw ''info.3.3'' 0, da_MedalColor = gint gj raw ''info.3.4'' 0,
             da_MedalUpUID = gint gj raw ''info.3.12'' 0, da_DmTypeExtra = 0, da_Direction = 0,
             da_EmoticonUnique = [], da_EmoticonURL = []\<rparr>;
           extraRaw = res_string gj (gj_get gj raw ''info.0.15.extra'');
           e = (if extraRaw = [] then e
             else e\<lparr>da_DmTypeExtra := res_int gj (gj_get gj extraRaw ''dm_type''), da_Direction := res_int gj (gj_get gj extraRaw ''direction''),
                    da_EmoticonUnique := res_string gj (gj_get gj extraRaw ''emoticon_unique'')\<rparr>)
       in Some (case gj_get gj raw ''info.0.13'' of
            None \<Rightarrow> e
          | Some emo \<Rightarrow>
              let sub = (if gj_is_string gj emo then gj_get gj (gj_String gj emo) else gj_Get gj emo);
                  e = e\<lparr>da_EmoticonURL := res_string gj (sub ''url'')\<rparr>
              in if da_EmoticonUnique e = [] then e\<lparr>da_EmoticonUnique := res_string gj (sub ''emoticon_unique'')\<rparr> else e))"

datatype parse_error = MissingData | Undecodable

definition unmarshalWSData :: "'r gjson \<Rightarrow> (runes \<Rightarrow> 'v option) \<Rightarrow> runes \<Rightarrow> parse_error + 'v" where
  "unmarshalWSData gj unmarshal raw =
    (case gj_get gj raw ''data'' of
       None \<Rightarrow> Inl MissingData
     | Some d \<Rightarrow> (case unmarshal (gj_Raw gj d) of None \<Rightarrow> Inl Undecodable | Some v \<Rightarrow> Inr v))"

section \<open>Lines of JSON\<close>

record 'ts jsonlDanmakuLine =
  jd_TS :: 'ts
  jd_User :: runes
  jd_UID :: int
  jd_Text :: runes
  jd_Mode :: int
  jd_FontSize :: int
  jd_Color :: int
  jd_SendTime :: int
  jd_DmType :: int
  jd_GuardLevel :: int
  jd_UserLevel :: int
  jd_Admin :: bool
  jd_MedalLevel :: int
  jd_MedalName :: runes
  jd_Direction :: int
  jd_EmoticonUnique :: runes
  jd_EmoticonURL :: runes

record 'ts jsonlSuperChatLine =
  js_TS :: 'ts
  js_User :: runes
  js_Message :: runes
  js_Price :: int
  js_Time :: int
  js_BackgroundColor :: runes
  js_BackgroundBottomColor :: runes
  js_BackgroundPriceColor :: runes
  js_MessageFontColor :: runes
  js_BackgroundImage :: runes
  js_NameColor :: runes
  js_Face :: runes

record 'ts jsonlGiftLine =
  jg_TS :: 'ts
  jg_User :: runes
  jg_GiftName :: runes
  jg_GiftCount :: int
  jg_Face :: runes
  jg_NameColor :: runes

record 'ts jsonlGuardLine =
  ju_TS :: 'ts
  ju_User :: runes
  ju_Level :: int
  ju_Count :: int

record jsonlMetaLine =
  jm_RoomID :: int
  jm_ShortID :: int
  jm_Name :: runes
  jm_Title :: runes
  jm_StartTime :: runes

text \<open>The type of a line is its constructor.\<close>

datatype 'ts jsonl_line =
    MetaLine jsonlMetaLine
  | DanmakuLine "'ts jsonlDanmakuLine"
  | SuperChatLine "'ts jsonlSuperChatLine"
  | GiftLine "'ts jsonlGiftLine"
  | GuardLine "'ts jsonlGuardLine"

text \<open>A line that cannot be encoded makes the result empty, whatever the buffer had.\<close>

definition appendJSONLine :: "('ts jsonl_line \<Rightarrow> runes option) \<Rightarrow> runes \<Rightarrow> 'ts jsonl_line \<Rightarrow> runes" where
  "appendJSONLine encode buf v = (case encode v of None \<Rightarrow> [] | Some j \<Rightarrow> buf @ j @ newline)"

definition jsonl_AppendHeader :: "('ts jsonl_line \<Rightarrow> runes option) \<Rightarrow> runes \<Rightarrow> RoomMeta \<Rightarrow> runes \<Rightarrow> runes" where
  "jsonl_AppendHeader encode buf meta start =
    appendJSONLine encode buf (MetaLine \<lparr>jm_RoomID = rm_RoomID meta, jm_ShortID = rm_ShortID meta, jm_Name = rm_Uname meta,
      jm_Title = rm_Title meta, jm_StartTime = start\<rparr>)"

definition jsonl_AppendFooter :: "runes \<Rightarrow> runes" where
  "jsonl_AppendFooter buf = buf"

definition danmaku_line :: "(runes \<Rightarrow> 'ts) \<Rightarrow> Danmaku \<Rightarrow> runes \<Rightarrow> 'ts jsonl_line" where
  "danmaku_line parseTS e ts =
    DanmakuLine \<lparr>jd_TS = parseTS ts, jd_User = da_Uname e, jd_UID = da_UID e, jd_Text = da_Text e,
      jd_Mode = da_Mode e, jd_FontSize = da_FontSize e, jd_Color = da_Color e, jd_SendTime = da_SendTime e,
      jd_DmType = da_DmType e, jd_GuardLevel = da_GuardLevel e, jd_UserLevel = da_UserLevel e, jd_Admin = da_Admin e,
      jd_MedalLevel = da_MedalLevel e, jd_MedalName = da_MedalName e,
      jd_Direction = da_Direction e, jd_EmoticonUnique = da_EmoticonUnique e, jd_EmoticonURL = da_EmoticonURL e\<rparr>"

definition super_chat_line :: "(runes \<Rightarrow> 'ts) \<Rightarrow> SuperChat \<Rightarrow> runes \<Rightarrow> 'ts jsonl_line" where
  "super_chat_line parseTS e ts =
    SuperChatLine \<lparr>js_TS = parseTS ts, js_User = su_Uname e, js_Message = su_Message e, js_Price = su_Price e, js_Time = su_Time e,
      js_BackgroundColor = su_BackgroundColor e, js_BackgroundBottomColor = su_BackgroundBottomColor e,
      js_BackgroundPriceColor = su_BackgroundPriceColor e, js_MessageFontColor = su_MessageFontColor e,
      js_BackgroundImage = su_BackgroundImage e, js_NameColor = su_NameColor e, js_Face = su_Face e\<rparr>"

definition gift_line :: "(runes \<Rightarrow> 'ts) \<Rightarrow> Gift \<Rightarrow> runes \<Rightarrow> 'ts jsonl_line" where
  "gift_line parseTS e ts =
    GiftLine \<lparr>jg_TS = parseTS ts, jg_User = gf_Uname e, jg_GiftName = gf_GiftName e, jg_GiftCount = gf_Num e, jg_Face = gf_Face e,
      jg_NameColor = gf_NameColor e\<rparr>"

definition guard_line :: "(runes \<Rightarrow> 'ts) \<Rightarrow> Guard \<Rightarrow> runes \<Rightarrow> 'ts jsonl_line" where
  "guard_line parseTS e ts = GuardLine \<lparr>ju_TS = parseTS ts, ju_User = gu_Username e, ju_Level = gu_GuardLevel e, ju_Count = gu_Num e\<rparr>"

section \<open>Encoders and handlers\<close>

record event_encoder =
  ee_Ext :: string
  ee_AppendHeader :: "runes \<Rightarrow> RoomMeta \<Rightarrow> runes \<Rightarrow> runes"
  ee_AppendFooter :: "runes \<Rightarrow> runes"
  ee_Append :: "dm_event \<times> runes \<Rightarrow> runes \<Rightarrow> runes"

definition jsonl_append :: "('ts jsonl_line \<Rightarrow> runes option) \<Rightarrow> (runes \<Rightarrow> 'ts) \<Rightarrow> dm_event \<times> runes \<Rightarrow> runes \<Rightarrow> runes" where
  "jsonl_append encode parseTS ev buf =
    appendJSONLine encode buf
      (case fst ev of
         EvDanmaku e \<Rightarrow> danmaku_line parseTS e (snd ev)
       | EvSuperChat e \<Rightarrow> super_chat_line parseTS e (snd ev)
       | EvGift e \<Rightarrow> gift_line parseTS e (snd ev)
       | EvGuard e \<Rightarrow> guard_line parseTS e (snd ev))"

definition NewFormatEncoder :: "runes \<Rightarrow> ('ts jsonl_line \<Rightarrow> runes option) \<Rightarrow> (runes \<Rightarrow> 'ts) \<Rightarrow> string \<Rightarrow> event_encoder option" where
  "NewFormatEncoder current encode parseTS fmt =
    (if fmt = ''jsonl'' then
       Some \<lparr>ee_Ext = ''.jsonl'', ee_AppendHeader = jsonl_AppendHeader encode, ee_AppendFooter = jsonl_AppendFooter,
         ee_Append = jsonl_append encode parseTS\<rparr>
     else if fmt = ''xml'' then
       Some \<lparr>ee_Ext = ''.xml'', ee_AppendHeader = xml_AppendHeader current, ee_AppendFooter = xml_AppendFooter, ee_Append = xml_append\<rparr>
     else None)"

text \<open>The messages a handler is registered for; a decoder for each kind of data. A handler queues one fragment for each
  event, made in an empty buffer.\<close>

datatype live_message = DANMU_MSG runes | SUPER_CHAT_MESSAGE runes | SEND_GIFT runes | SEND_GIFT_V2 runes | GUARD_BUY runes

record 'r decoders =
  de_json :: "'r gjson"
  de_superChat :: "runes \<Rightarrow> SuperChat option"
  de_gift :: "runes \<Rightarrow> Gift option"
  de_giftV2 :: "runes \<Rightarrow> Gift list option"
  de_guard :: "runes \<Rightarrow> Guard option"

definition handleDanmaku :: "'r decoders \<Rightarrow> runes \<Rightarrow> dm_event list" where
  "handleDanmaku d raw = (case parseDanmaku (de_json d) raw of None \<Rightarrow> [] | Some e \<Rightarrow> [EvDanmaku e])"

definition handleSuperChat :: "'r decoders \<Rightarrow> runes \<Rightarrow> dm_event list" where
  "handleSuperChat d raw = (case unmarshalWSData (de_json d) (de_superChat d) raw of Inl _ \<Rightarrow> [] | Inr e \<Rightarrow> [EvSuperChat e])"

definition handleGift :: "'r decoders \<Rightarrow> runes \<Rightarrow> dm_event list" where
  "handleGift d raw = (case unmarshalWSData (de_json d) (de_gift d) raw of Inl _ \<Rightarrow> [] | Inr e \<Rightarrow> [EvGift e])"

definition handleGiftV2 :: "'r decoders \<Rightarrow> runes \<Rightarrow> dm_event list" where
  "handleGiftV2 d raw = (case de_giftV2 d raw of None \<Rightarrow> [] | Some gs \<Rightarrow> map EvGift gs)"

definition handleGuard :: "'r decoders \<Rightarrow> runes \<Rightarrow> dm_event list" where
  "handleGuard d raw = (case unmarshalWSData (de_json d) (de_guard d) raw of Inl _ \<Rightarrow> [] | Inr e \<Rightarrow> [EvGuard e])"

definition handle_message :: "'r decoders \<Rightarrow> live_message \<Rightarrow> dm_event list" where
  "handle_message d m = (case m of
     DANMU_MSG raw \<Rightarrow> handleDanmaku d raw
   | SUPER_CHAT_MESSAGE raw \<Rightarrow> handleSuperChat d raw
   | SEND_GIFT raw \<Rightarrow> handleGift d raw
   | SEND_GIFT_V2 raw \<Rightarrow> handleGiftV2 d raw
   | GUARD_BUY raw \<Rightarrow> handleGuard d raw)"

text \<open>The fragments of the messages, with the times at which they come.\<close>

definition fragments :: "event_encoder \<Rightarrow> 'r decoders \<Rightarrow> (live_message \<times> runes) list \<Rightarrow> runes list" where
  "fragments enc d ms =
    filter (\<lambda>f. f \<noteq> []) (concat (map (\<lambda>(m, ts). map (\<lambda>e. ee_Append enc (e, ts) []) (handle_message d m)) ms))"

section \<open>From messages to what a sidecar means\<close>

definition timed_events :: "'r decoders \<Rightarrow> (live_message \<times> runes) list \<Rightarrow> (dm_event \<times> runes) list" where
  "timed_events d ms = concat (map (\<lambda>(m, ts). map (\<lambda>e. (e, ts)) (handle_message d m)) ms)"

lemma concat_filter_nonempty: "concat (filter (\<lambda>f. f \<noteq> []) fs) = concat fs"
  by (induction fs) auto

lemma fragments_eq: "concat (fragments enc d ms) = concat (map (\<lambda>ev. ee_Append enc ev []) (timed_events d ms))"
  unfolding fragments_def timed_events_def concat_filter_nonempty
  by (induction ms) (auto simp: o_def)

lemma timed_events_times: "ev \<in> set (timed_events d ms) \<Longrightarrow> snd ev \<in> snd ` set ms"
  by (force simp: timed_events_def)

text \<open>What the writer puts between header and footer is read back as the elements of the messages' events.\<close>

lemma xml_sidecar_of_messages:
  assumes fmt: "NewFormatEncoder current encode parseTS ''xml'' = Some enc"
    and st: "list_all plain start" and ts: "\<And>m t. (m, t) \<in> set ms \<Longrightarrow> list_all plain t"
  shows "xml_read (ee_AppendHeader enc [] meta start @ concat (fragments enc d ms) @ ee_AppendFooter enc []) =
    Some (header_tokens current meta start @ concat (map event_tokens (timed_events d ms)) @ footer_tokens)"
proof -
  have enc: "ee_AppendHeader enc = xml_AppendHeader current" "ee_AppendFooter enc = xml_AppendFooter" "ee_Append enc = xml_append"
    using fmt by (auto simp: NewFormatEncoder_def)
  have p: "list_all plain (snd ev)" if "ev \<in> set (timed_events d ms)" for ev
    using timed_events_times [OF that] ts by auto
  have c: "concat (map (\<lambda>ev. xml_append ev []) evs) = print_tokens (concat (map event_tokens evs))"
    if "\<And>ev. ev \<in> set evs \<Longrightarrow> list_all plain (snd ev)" for evs
    using that by (induction evs) (simp_all add: xml_append_prints print_simps(1,3))
  have "xml_AppendHeader current [] meta start @ concat (fragments enc d ms) @ xml_AppendFooter [] =
      print_tokens (header_tokens current meta start @ concat (map event_tokens (timed_events d ms)) @ footer_tokens)"
    unfolding fragments_eq enc using c [OF p]
    by (simp add: xml_AppendHeader_prints [OF st] xml_AppendFooter_prints print_tokens_append)
  moreover have "tokens_ok (header_tokens current meta start @ concat (map event_tokens (timed_events d ms)) @ footer_tokens)"
    using tokens_ok_append [OF header_tokens_ok] file_tokens_ok by simp
  ultimately show ?thesis unfolding enc by (simp add: xml_read_print)
qed

text \<open>A JSON sidecar has a line for each message's event that can be encoded, if an encoded line has no line break.\<close>

lemma jsonl_fragment_lines:
  assumes fmt: "NewFormatEncoder current encode parseTS ''jsonl'' = Some enc" and nl: "\<And>v j. encode v = Some j \<Longrightarrow> rune (CHR 0x0A) \<notin> set j"
    and f: "f \<in> set (fragments enc d ms)"
  shows "\<exists>j. f = j @ newline \<and> rune (CHR 0x0A) \<notin> set j"
proof -
  have enc: "ee_Append enc = jsonl_append encode parseTS" using fmt by (auto simp: NewFormatEncoder_def)
  obtain e ts where "f = ee_Append enc (e, ts) []" "f \<noteq> []" using f unfolding fragments_def by auto
  then show ?thesis using nl unfolding enc by (auto simp: jsonl_append_def appendJSONLine_def split: option.splits)
qed

end
