(* ===== verification/LiveWs.thy ===== *)
theory LiveWs
  imports Prelude
begin

text \<open>
  The packets of the live message connection (\<open>internal/modules/bilibili/livews.go\<close>): encoding, splitting a payload,
  expanding compressed packets, which hold packets again, and finding the handlers of a message. The decompressors are
  parameters: what the stream of a body yields, and whether it ends well. The splitting may recurse without end, so that
  its result is an option. The connection itself, its heartbeat and its time limits are not part of the model.
\<close>

unbundle bit_operations_syntax

section \<open>Packets\<close>

definition liveWSHeaderSize :: nat where
  "liveWSHeaderSize = 16"

definition maxDecompressedPacketSize :: nat where
  "maxDecompressedPacketSize = 16 * 2 ^ 20"

definition opMessage :: u32 where "opMessage = 5"
definition opEnterResp :: u32 where "opEnterResp = 8"
definition opHeartbeatResp :: u32 where "opHeartbeatResp = 3"
definition protoPlain :: u16 where "protoPlain = 0"
definition protoInt32 :: u16 where "protoInt32 = 1"
definition protoZlib :: u16 where "protoZlib = 2"
definition protoBrotli :: u16 where "protoBrotli = 3"

definition put16 :: "u16 \<Rightarrow> bytes" where
  "put16 v = [ucast (drop_bit 8 v), ucast v]"

definition be16 :: "bytes \<Rightarrow> u16" where
  "be16 b = (push_bit 8 (ucast (b ! 0)) OR ucast (b ! 1))"

definition encodePacket :: "u32 \<Rightarrow> u16 \<Rightarrow> bytes \<Rightarrow> bytes" where
  "encodePacket operation protover body =
    put32 (of_nat (liveWSHeaderSize + length body)) @ put16 (of_nat liveWSHeaderSize) @ put16 protover @ put32 operation @ put32 1 @ body"

section \<open>Decompression\<close>

record decompressors =
  dc_zlib :: "bytes \<Rightarrow> (bytes \<times> bool) option"
  dc_brotli :: "bytes \<Rightarrow> bytes \<times> bool"

text \<open>Reading everything through a limit: beyond it the stream is cut off, without an error.\<close>

definition read_limited :: "bytes \<times> bool \<Rightarrow> bytes option" where
  "read_limited stream =
    (if length (fst stream) \<ge> maxDecompressedPacketSize then Some (take maxDecompressedPacketSize (fst stream))
     else if snd stream then Some (fst stream)
     else None)"

definition decompressZlib :: "decompressors \<Rightarrow> bytes \<Rightarrow> bytes option" where
  "decompressZlib dc body = Option.bind (dc_zlib dc body) read_limited"

definition decompressBrotli :: "decompressors \<Rightarrow> bytes \<Rightarrow> bytes option" where
  "decompressBrotli dc body = read_limited (dc_brotli dc body)"

section \<open>Splitting\<close>

text \<open>What \<open>handlePacket\<close> does with a body: nothing, hand it to the handlers, or split what it expands to.\<close>

datatype packet_use = Ignore | Message bytes | Inner bytes

definition handlePacket :: "decompressors \<Rightarrow> u16 \<Rightarrow> u32 \<Rightarrow> bytes \<Rightarrow> packet_use" where
  "handlePacket dc protover operation body =
    (if operation = opMessage then
       if protover = protoBrotli then (case decompressBrotli dc body of None \<Rightarrow> Ignore | Some d \<Rightarrow> Inner d)
       else if protover = protoZlib then (case decompressZlib dc body of None \<Rightarrow> Ignore | Some d \<Rightarrow> Inner d)
       else Message body
     else Ignore)"

partial_function (option) dispatch :: "decompressors \<Rightarrow> bytes \<Rightarrow> bytes list option" where
  "dispatch dc payload =
    (if length payload < liveWSHeaderSize then Some []
     else
       let packLen = unat (be32 (take 4 payload)) in
       if packLen < liveWSHeaderSize \<or> packLen > length payload then Some []
       else
         Option.bind
           (case handlePacket dc (be16 (gslice 6 8 payload)) (be32 (gslice 8 12 payload)) (gslice liveWSHeaderSize packLen payload) of
              Ignore \<Rightarrow> Some []
            | Message body \<Rightarrow> Some [body]
            | Inner d \<Rightarrow> dispatch dc d)
           (\<lambda>ms. Option.bind (dispatch dc (drop packLen payload)) (\<lambda>rest. Some (ms @ rest))))"

section \<open>Handlers\<close>

definition ascii :: "string \<Rightarrow> bytes" where
  "ascii s = map of_char s"

definition cmd_prefix :: bytes where
  "cmd_prefix = [0x22, 0x63, 0x6D, 0x64, 0x22, 0x3A, 0x22]"

text \<open>The leftmost match of the pattern: the prefix, bytes other than the quote, at least one, and a quote.\<close>

fun find_cmd :: "bytes \<Rightarrow> bytes option" where
  "find_cmd [] = None"
| "find_cmd (b # s) =
    (let rest = drop (length cmd_prefix) (b # s); m = takeWhile (\<lambda>x. x \<noteq> 0x22) rest in
     if take (length cmd_prefix) (b # s) = cmd_prefix \<and> m \<noteq> [] \<and> length m < length rest then Some m else find_cmd s)"

text \<open>The handlers called, in the order of registration; one that panics does not keep the others from their turn.\<close>

definition dispatchMessage :: "(bytes \<times> 'h) list \<Rightarrow> bytes \<Rightarrow> ('h \<times> bytes) list" where
  "dispatchMessage handlers body =
    (case find_cmd body of
       None \<Rightarrow> []
     | Some m \<Rightarrow>
         let cmd = takeWhile (\<lambda>x. x \<noteq> 0x3A) m
         in map (\<lambda>h. (snd h, body)) (filter (\<lambda>h. fst h = cmd) handlers))"

section \<open>Encoding and splitting\<close>

lemma be16_put16 [simp]: "be16 (put16 v) = v"
  by (rule bit_eqI) (auto simp: be16_def put16_def bit_simps)

lemma length_put16 [simp]: "length (put16 v) = 2"
  by (simp add: put16_def)

lemma encodePacket_fields:
  assumes "liveWSHeaderSize + length body < 2 ^ 32"
  shows "unat (be32 (take 4 (encodePacket operation protover body @ rest))) = liveWSHeaderSize + length body"
    "be16 (gslice 6 8 (encodePacket operation protover body @ rest)) = protover"
    "be32 (gslice 8 12 (encodePacket operation protover body @ rest)) = operation"
    "gslice liveWSHeaderSize (liveWSHeaderSize + length body) (encodePacket operation protover body @ rest) = body"
    "drop (liveWSHeaderSize + length body) (encodePacket operation protover body @ rest) = rest"
proof -
  have "unat (of_nat (liveWSHeaderSize + length body) :: u32) = liveWSHeaderSize + length body"
    using assms by (simp only: unat_of_nat take_bit_nat_eq_self_iff unsigned_of_nat len_of_numeral_defs) (simp add: take_bit_nat_eq_self_iff)
  then show "unat (be32 (take 4 (encodePacket operation protover body @ rest))) = liveWSHeaderSize + length body"
    by (simp add: encodePacket_def)
qed (simp_all add: encodePacket_def gslice_def liveWSHeaderSize_def)

text \<open>One packet in front of a payload.\<close>

lemma dispatch_packet:
  assumes "liveWSHeaderSize + length body < 2 ^ 32"
  shows "dispatch dc (encodePacket operation protover body @ rest) =
    Option.bind
      (case handlePacket dc protover operation body of Ignore \<Rightarrow> Some [] | Message b \<Rightarrow> Some [b] | Inner d \<Rightarrow> dispatch dc d)
      (\<lambda>ms. Option.bind (dispatch dc rest) (\<lambda>r. Some (ms @ r)))"
proof -
  have l: "length (encodePacket operation protover body @ rest) = liveWSHeaderSize + length body + length rest"
    by (simp add: encodePacket_def liveWSHeaderSize_def)
  show ?thesis
    by (subst dispatch.simps) (simp only: Let_def encodePacket_fields [OF assms] l, simp)
qed

text \<open>What a server may send: a message, a packet that is no message, and compressed packets, at any depth.\<close>

datatype frame = Plain bytes | Other u32 bytes | Zlib "frame list" | Brotli "frame list"

primrec encode_frame :: "(bytes \<Rightarrow> bytes) \<Rightarrow> (bytes \<Rightarrow> bytes) \<Rightarrow> frame \<Rightarrow> bytes" where
  "encode_frame zc bc (Plain body) = encodePacket opMessage protoPlain body"
| "encode_frame zc bc (Other operation body) = encodePacket operation protoInt32 body"
| "encode_frame zc bc (Zlib fs) = encodePacket opMessage protoZlib (zc (concat (map (encode_frame zc bc) fs)))"
| "encode_frame zc bc (Brotli fs) = encodePacket opMessage protoBrotli (bc (concat (map (encode_frame zc bc) fs)))"

primrec frame_messages :: "frame \<Rightarrow> bytes list" where
  "frame_messages (Plain body) = [body]"
| "frame_messages (Other operation body) = []"
| "frame_messages (Zlib fs) = concat (map frame_messages fs)"
| "frame_messages (Brotli fs) = concat (map frame_messages fs)"

text \<open>Sizes fit their fields, compressed packets the limit, and the server's compressors are those of the client.\<close>

definition packet_fits :: "bytes \<Rightarrow> bool" where
  "packet_fits body \<longleftrightarrow> liveWSHeaderSize + length body < 2 ^ 32"

primrec frame_ok :: "decompressors \<Rightarrow> (bytes \<Rightarrow> bytes) \<Rightarrow> (bytes \<Rightarrow> bytes) \<Rightarrow> frame \<Rightarrow> bool" where
  "frame_ok dc zc bc (Plain body) = packet_fits body"
| "frame_ok dc zc bc (Other operation body) = (packet_fits body \<and> operation \<noteq> opMessage)"
| "frame_ok dc zc bc (Zlib fs) = (list_all id (map (frame_ok dc zc bc) fs) \<and>
     (let d = concat (map (encode_frame zc bc) fs) in
      packet_fits (zc d) \<and> length d \<le> maxDecompressedPacketSize \<and> dc_zlib dc (zc d) = Some (d, True)))"
| "frame_ok dc zc bc (Brotli fs) = (list_all id (map (frame_ok dc zc bc) fs) \<and>
     (let d = concat (map (encode_frame zc bc) fs) in
      packet_fits (bc d) \<and> length d \<le> maxDecompressedPacketSize \<and> dc_brotli dc (bc d) = (d, True)))"

lemma read_limited_all: "length d \<le> maxDecompressedPacketSize \<Longrightarrow> read_limited (d, True) = Some d"
  by (simp add: read_limited_def)

lemma dispatch_short: "length payload < liveWSHeaderSize \<Longrightarrow> dispatch dc payload = Some []"
  by (subst dispatch.simps) simp

lemma dispatch_frames_aux:
  assumes "\<And>f rest ms. f \<in> set fs \<Longrightarrow> frame_ok dc zc bc f \<Longrightarrow> dispatch dc rest = Some ms \<Longrightarrow>
      dispatch dc (encode_frame zc bc f @ rest) = Some (frame_messages f @ ms)"
    and "list_all (frame_ok dc zc bc) fs" and "dispatch dc rest = Some ms"
  shows "dispatch dc (concat (map (encode_frame zc bc) fs) @ rest) = Some (concat (map frame_messages fs) @ ms)"
  using assms by (induction fs) auto

lemma dispatch_frame:
  "frame_ok dc zc bc f \<Longrightarrow> dispatch dc rest = Some ms \<Longrightarrow>
   dispatch dc (encode_frame zc bc f @ rest) = Some (frame_messages f @ ms)"
proof (induction f arbitrary: rest ms)
  case (Plain body)
  then show ?case
    by (simp add: dispatch_packet packet_fits_def handlePacket_def opMessage_def protoPlain_def protoBrotli_def protoZlib_def)
next
  case (Other operation body)
  then show ?case by (simp add: dispatch_packet packet_fits_def handlePacket_def)
next
  case (Zlib fs)
  define d where "d = concat (map (encode_frame zc bc) fs)"
  have ok: "packet_fits (zc d)" "length d \<le> maxDecompressedPacketSize" "dc_zlib dc (zc d) = Some (d, True)" "list_all (frame_ok dc zc bc) fs"
    using Zlib.prems(1) by (simp_all add: d_def Let_def list.pred_map o_def)
  have h: "handlePacket dc protoZlib opMessage (zc d) = Inner d"
    using ok by (simp add: handlePacket_def decompressZlib_def read_limited_all protoZlib_def protoBrotli_def)
  have inner: "dispatch dc d = Some (concat (map frame_messages fs))"
    using dispatch_frames_aux [of fs dc zc bc "[]" "[]"] Zlib.IH ok(4) by (simp add: d_def dispatch_short liveWSHeaderSize_def)
  show ?case
    using ok(1) h inner Zlib.prems(2) by (simp add: dispatch_packet packet_fits_def flip: d_def)
next
  case (Brotli fs)
  define d where "d = concat (map (encode_frame zc bc) fs)"
  have ok: "packet_fits (bc d)" "length d \<le> maxDecompressedPacketSize" "dc_brotli dc (bc d) = (d, True)" "list_all (frame_ok dc zc bc) fs"
    using Brotli.prems(1) by (simp_all add: d_def Let_def list.pred_map o_def)
  have h: "handlePacket dc protoBrotli opMessage (bc d) = Inner d"
    using ok by (simp add: handlePacket_def decompressBrotli_def read_limited_all)
  have inner: "dispatch dc d = Some (concat (map frame_messages fs))"
    using dispatch_frames_aux [of fs dc zc bc "[]" "[]"] Brotli.IH ok(4) by (simp add: d_def dispatch_short liveWSHeaderSize_def)
  show ?case
    using ok(1) h inner Brotli.prems(2) by (simp add: dispatch_packet packet_fits_def flip: d_def)
qed

text \<open>C33. Of a payload of well-formed packets, compressed at any depth, splitting ends and hands over exactly the
  messages, in order; an incomplete rest is dropped.\<close>

theorem live_messages_roundtrip:
  assumes "list_all (frame_ok dc zc bc) fs" and "length rest < liveWSHeaderSize"
  shows "dispatch dc (concat (map (encode_frame zc bc) fs) @ rest) = Some (concat (map frame_messages fs))"
  using dispatch_frames_aux [OF dispatch_frame assms(1) dispatch_short [OF assms(2)]] by simp

text \<open>A compression that puts one byte in front.\<close>

definition demo_dc :: decompressors where
  "demo_dc = \<lparr>dc_zlib = (\<lambda>b. case b of [] \<Rightarrow> None | x # r \<Rightarrow> Some (r, x = 0x78)), dc_brotli = (\<lambda>b. (tl b, b \<noteq> []))\<rparr>"

definition demo_frames :: "frame list" where
  "demo_frames = [Plain [1], Zlib [Plain [2], Brotli [Plain [3], Plain []]], Other 3 [0, 0, 0, 1], Plain [4]]"

lemma demo_frames_ok: "list_all (frame_ok demo_dc (Cons 0x78) (Cons 0x8B)) demo_frames"
  by (simp add: demo_frames_def demo_dc_def packet_fits_def liveWSHeaderSize_def maxDecompressedPacketSize_def encodePacket_def Let_def
      opMessage_def)

theorem live_messages_roundtrip_witness:
  "dispatch demo_dc (concat (map (encode_frame (Cons 0x78) (Cons 0x8B)) demo_frames) @ [0]) = Some [[1], [2], [3], [], [4]]"
  using live_messages_roundtrip [OF demo_frames_ok, of "[0]"] by (simp add: liveWSHeaderSize_def demo_frames_def)

text \<open>A body that expands to its own packet is expanded for ever: only the size is limited, not the depth.\<close>

lemma self_expanding_packet:
  assumes z: "dc_zlib dc b = Some (encodePacket opMessage protoZlib b, True)" and fits: "packet_fits b"
    and small: "liveWSHeaderSize + length b \<le> maxDecompressedPacketSize"
  shows "dispatch dc (encodePacket opMessage protoZlib b) = None"
proof -
  define q where "q = encodePacket opMessage protoZlib b"
  have lq: "length q = liveWSHeaderSize + length b" by (simp add: q_def encodePacket_def liveWSHeaderSize_def)
  have h: "handlePacket dc protoZlib opMessage b = Inner q"
    using z small lq read_limited_all [of q] by (simp add: handlePacket_def decompressZlib_def protoZlib_def protoBrotli_def q_def)
  note f = encodePacket_fields [OF fits [unfolded packet_fits_def], of opMessage protoZlib "[]", simplified, folded q_def]
  have "\<not> (dc' = dc \<and> p = q)" if "dispatch dc' p = Some y" for dc' p y
    using that
  proof (rule dispatch.raw_induct [rotated])
    fix disp :: "decompressors \<Rightarrow> bytes \<Rightarrow> bytes list option" and dc' p y
    assume ih: "\<And>dc' p y. disp dc' p = Some y \<Longrightarrow> \<not> (dc' = dc \<and> p = q)"
    assume e: "(if length p < liveWSHeaderSize then Some []
     else
       let packLen = unat (be32 (take 4 p)) in
       if packLen < liveWSHeaderSize \<or> packLen > length p then Some []
       else
         Option.bind
           (case handlePacket dc' (be16 (gslice 6 8 p)) (be32 (gslice 8 12 p)) (gslice liveWSHeaderSize packLen p) of
              Ignore \<Rightarrow> Some []
            | Message body \<Rightarrow> Some [body]
            | Inner d \<Rightarrow> disp dc' d)
           (\<lambda>ms. Option.bind (disp dc' (drop packLen p)) (\<lambda>rest. Some (ms @ rest)))) = Some y"
    have "disp dc q = None" using ih [of dc q] by (cases "disp dc q") auto
    then show "\<not> (dc' = dc \<and> p = q)" using e lq h f by (auto simp: Let_def)
  qed
  then show ?thesis unfolding q_def [symmetric] by (cases "dispatch dc q") auto
qed

text \<open>The handlers of a message are those registered for its command, without a suffix that a colon starts.\<close>

lemma dispatchMessage_cmd:
  assumes "find_cmd body = Some m" "m = cmd @ s" "0x3A \<notin> set cmd" "s = [] \<or> hd s = 0x3A"
  shows "dispatchMessage handlers body = map (\<lambda>h. (snd h, body)) (filter (\<lambda>h. fst h = cmd) handlers)"
proof -
  have "takeWhile (\<lambda>x. x \<noteq> 0x3A) m = cmd"
    using assms(2-4) by (cases s) (auto simp: takeWhile_append takeWhile_eq_all_conv)
  then show ?thesis using assms(1) by (simp add: dispatchMessage_def)
qed

lemma find_cmd_here: "0x22 \<notin> set m \<Longrightarrow> m \<noteq> [] \<Longrightarrow> find_cmd (cmd_prefix @ m @ 0x22 # rest) = Some m"
  by (simp add: cmd_prefix_def takeWhile_append)

end
