(* ===== verification/RestAuth.thy ===== *)
theory RestAuth
  imports GoStrings
begin

text \<open>
  Who may use the REST interface (\<open>internal/modules/rest\<close>): login, the session cookie of an origin, the middleware that
  checks tokens, and the roles of routes. Hashing, signing and checking of tokens and the parsing of URLs belong to
  libraries and are parameters; a token the library accepts is one that has been signed with the server's secret and has not
  expired, which is a hypothesis where it is needed.
\<close>

section \<open>Configuration, claims and libraries\<close>

record rest_config =
  rc_Username :: string
  rc_PasswordHash :: string
  rc_ViewerUsername :: string
  rc_ViewerPasswordHash :: string
  rc_ProductionMode :: bool
  rc_FrontendURLs :: "string list"

text \<open>A claim that is missing or no text is \<open>None\<close>.\<close>

record session_claims =
  cl_name :: string
  cl_iat :: int
  cl_exp :: int
  cl_iss :: "string option"
  cl_role :: "string option"

record auth_lib =
  al_compare_hash :: "string \<Rightarrow> string \<Rightarrow> bool"
  al_sign :: "session_claims \<Rightarrow> string option"
  al_verify :: "int \<Rightarrow> string \<Rightarrow> session_claims option"
  al_hash :: "string \<Rightarrow> string"
  al_parse_url :: "string \<Rightarrow> (string \<times> string) option"

definition sessionJwtIssuer :: string where
  "sessionJwtIssuer = ''bilirec''"

definition jwtTokenKey :: string where
  "jwtTokenKey = ''jwtToken''"

definition RestAuthEnabled :: "rest_config \<Rightarrow> bool" where
  "RestAuthEnabled cfg \<longleftrightarrow> rc_Username cfg \<noteq> [] \<and> rc_PasswordHash cfg \<noteq> []"

definition ViewerEnabled :: "rest_config \<Rightarrow> bool" where
  "ViewerEnabled cfg \<longleftrightarrow> RestAuthEnabled cfg \<and> rc_ViewerUsername cfg \<noteq> [] \<and> rc_ViewerPasswordHash cfg \<noteq> []"

section \<open>Roles\<close>

definition RoleAdmin :: string where "RoleAdmin = ''admin''"
definition RoleViewer :: string where "RoleViewer = ''viewer''"

definition RetrieveRole :: "auth_lib \<Rightarrow> rest_config \<Rightarrow> string \<Rightarrow> string \<Rightarrow> string" where
  "RetrieveRole lib cfg username password =
    (if username = rc_Username cfg \<and> al_compare_hash lib (rc_PasswordHash cfg) password then RoleAdmin
     else if username = rc_ViewerUsername cfg \<and> al_compare_hash lib (rc_ViewerPasswordHash cfg) password then RoleViewer
     else [])"

text \<open>The answer of a guard: the request goes on, or a status ends it.\<close>

datatype guard_answer = Continue | Refuse nat

definition RequiredRoles :: "rest_config \<Rightarrow> string set \<Rightarrow> session_claims option \<Rightarrow> guard_answer" where
  "RequiredRoles cfg allowed cl =
    (if \<not> RestAuthEnabled cfg then Continue
     else case cl of
       None \<Rightarrow> Refuse 403
     | Some c \<Rightarrow> (case cl_role c of None \<Rightarrow> Refuse 403 | Some r \<Rightarrow> if r \<in> allowed then Continue else Refuse 403))"

definition AdminOnly :: "rest_config \<Rightarrow> session_claims option \<Rightarrow> guard_answer" where
  "AdminOnly cfg = RequiredRoles cfg {RoleAdmin}"

section \<open>Session cookies\<close>

definition normalizeBrowserOrigin :: "auth_lib \<Rightarrow> string \<Rightarrow> string" where
  "normalizeBrowserOrigin lib origin =
    (let origin = TrimSpace origin in
     if origin = [] then []
     else case al_parse_url lib origin of
       None \<Rightarrow> []
     | Some (scheme, host) \<Rightarrow>
         if scheme = [] \<or> host = [] then []
         else let scheme = ToLower scheme in
           if scheme \<noteq> ''http'' \<and> scheme \<noteq> ''https'' then [] else scheme @ ''://'' @ host)"

definition sessionCookieName :: "auth_lib \<Rightarrow> string \<Rightarrow> string" where
  "sessionCookieName lib origin =
    (let normalized = normalizeBrowserOrigin lib origin in
     if normalized = [] then jwtTokenKey else ''jwt_'' @ al_hash lib normalized)"

record cookie =
  ck_Name :: string
  ck_Value :: string
  ck_Expires :: int
  ck_HTTPOnly :: bool
  ck_Secure :: bool

definition sessionCookieAttributes :: "rest_config \<Rightarrow> int \<Rightarrow> string \<Rightarrow> string \<Rightarrow> cookie" where
  "sessionCookieAttributes cfg expires v name =
    \<lparr>ck_Name = name, ck_Value = v, ck_Expires = expires, ck_HTTPOnly = rc_ProductionMode cfg, ck_Secure = rc_ProductionMode cfg\<rparr>"

text \<open>Times are seconds. A request has the cookies of the browser.\<close>

record request =
  rq_Method :: string
  rq_Path :: string
  rq_Origin :: string
  rq_Cookies :: "string \<Rightarrow> string"

definition setSessionCookie :: "auth_lib \<Rightarrow> rest_config \<Rightarrow> string \<Rightarrow> string \<Rightarrow> int \<Rightarrow> cookie" where
  "setSessionCookie lib cfg origin token expires = sessionCookieAttributes cfg expires token (sessionCookieName lib origin)"

definition clearSessionCookie :: "auth_lib \<Rightarrow> rest_config \<Rightarrow> string \<Rightarrow> int \<Rightarrow> cookie" where
  "clearSessionCookie lib cfg origin now = sessionCookieAttributes cfg (now - 3600) [] (sessionCookieName lib origin)"

definition sessionJWTFromCookie :: "auth_lib \<Rightarrow> request \<Rightarrow> string option" where
  "sessionJWTFromCookie lib rq =
    (let token = rq_Cookies rq (sessionCookieName lib (rq_Origin rq)) in if token = [] then None else Some token)"

section \<open>Login\<close>

definition login_claims :: "string \<Rightarrow> string \<Rightarrow> int \<Rightarrow> session_claims" where
  "login_claims user role now = \<lparr>cl_name = user, cl_iat = now, cl_exp = now + 72 * 3600, cl_iss = Some sessionJwtIssuer, cl_role = Some role\<rparr>"

text \<open>A status, or the cookie that is set. A body that cannot be parsed is \<open>None\<close>.\<close>

definition loginHandler :: "auth_lib \<Rightarrow> rest_config \<Rightarrow> int \<Rightarrow> string \<Rightarrow> (string \<times> string) option \<Rightarrow> nat + cookie" where
  "loginHandler lib cfg now origin body =
    (case body of
       None \<Rightarrow> Inl 400
     | Some (user, pass) \<Rightarrow>
         let role = RetrieveRole lib cfg user pass in
         if role = [] then Inl 401
         else case al_sign lib (login_claims user role now) of
           None \<Rightarrow> Inl 500
         | Some t \<Rightarrow> Inr (setSessionCookie lib cfg origin t (now + 72 * 3600)))"

definition logoutHandler :: "auth_lib \<Rightarrow> rest_config \<Rightarrow> int \<Rightarrow> string \<Rightarrow> cookie" where
  "logoutHandler lib cfg now origin = clearSessionCookie lib cfg origin now"

section \<open>The middleware\<close>

definition exemptPaths :: "string list" where
  "exemptPaths = [''/files/playback'', ''/files/download'', ''/notify/sse'']"

definition jwt_exempt :: "request \<Rightarrow> bool" where
  "jwt_exempt rq \<longleftrightarrow> rq_Method rq = ''OPTIONS'' \<or> list_ex (HasPrefix (rq_Path rq)) exemptPaths"

text \<open>The claims that later handlers see, if any.\<close>

definition jwt_middleware :: "auth_lib \<Rightarrow> int \<Rightarrow> request \<Rightarrow> nat + session_claims option" where
  "jwt_middleware lib now rq =
    (if jwt_exempt rq then Inr None
     else case sessionJWTFromCookie lib rq of
       None \<Rightarrow> Inl 401
     | Some token \<Rightarrow>
         (case al_verify lib now token of
            None \<Rightarrow> Inl 401
          | Some c \<Rightarrow> if cl_iss c \<noteq> Some sessionJwtIssuer then Inl 401 else Inr (Some c)))"

definition rest_request :: "auth_lib \<Rightarrow> rest_config \<Rightarrow> int \<Rightarrow> request \<Rightarrow> nat + session_claims option" where
  "rest_request lib cfg now rq = (if RestAuthEnabled cfg then jwt_middleware lib now rq else Inr None)"

text \<open>A request for a route that is for administrators only.\<close>

definition admin_request :: "auth_lib \<Rightarrow> rest_config \<Rightarrow> int \<Rightarrow> request \<Rightarrow> guard_answer" where
  "admin_request lib cfg now rq =
    (case rest_request lib cfg now rq of Inl s \<Rightarrow> Refuse s | Inr cl \<Rightarrow> AdminOnly cfg cl)"

section \<open>Headers\<close>

definition fileStreamCacheControl :: string where
  "fileStreamCacheControl = ''public, max-age=86400''"

definition defaultNoCacheControl :: string where
  "defaultNoCacheControl = ''no-store, no-cache, must-revalidate''"

definition isCacheableFileContentType :: "string \<Rightarrow> bool" where
  "isCacheableFileContentType contentType =
    list_ex (HasPrefix contentType)
      [''video/'', ''audio/'', ''application/vnd.apple.mpegurl'', ''application/x-mpegurl'', ''application/dash+xml'',
       ''application/x-ndjson'', ''application/jsonl'', ''application/xml'', ''text/xml'']"

definition cache_control :: "string \<Rightarrow> string" where
  "cache_control contentType =
    (if isCacheableFileContentType (ToLower contentType) then fileStreamCacheControl else defaultNoCacheControl)"

definition restCORSOrigins :: "rest_config \<Rightarrow> string list" where
  "restCORSOrigins cfg =
    rc_FrontendURLs cfg @ (if rc_ProductionMode cfg then [] else [''http://localhost:3000'', ''http://127.0.0.1:3000''])"

section \<open>Only an administrator's login opens the routes of administrators\<close>

text \<open>The tokens the server has signed: those of logins, and those of media links, which have no issuer.\<close>

inductive signed_token :: "auth_lib \<Rightarrow> rest_config \<Rightarrow> string \<Rightarrow> session_claims \<Rightarrow> bool" for lib cfg where
  login: "loginHandler lib cfg now origin (Some (user, pass)) = Inr ck \<Longrightarrow> ck_Value ck = t \<Longrightarrow>
    c = login_claims user (RetrieveRole lib cfg user pass) now \<Longrightarrow> signed_token lib cfg t c"
| media: "cl_iss c = None \<Longrightarrow> al_sign lib c = Some t \<Longrightarrow> signed_token lib cfg t c"

definition unforgeable :: "auth_lib \<Rightarrow> rest_config \<Rightarrow> bool" where
  "unforgeable lib cfg \<longleftrightarrow> (\<forall>now t c. al_verify lib now t = Some c \<longrightarrow> signed_token lib cfg t c \<and> now < cl_exp c)"

inductive_cases signed_tokenE: "signed_token lib cfg t c"

text \<open>C34. While authentication is on, whoever reaches a route of administrators holds, in the cookie of his origin, a token
  that a login with the administrator's name and password has issued less than 72 hours ago; a viewer's token or a media link's
  does not do.\<close>

theorem admin_route_needs_admin_login:
  assumes "unforgeable lib cfg" and "RestAuthEnabled cfg" and "admin_request lib cfg now rq = Continue"
  shows "\<exists>since pass. al_compare_hash lib (rc_PasswordHash cfg) pass \<and> now < since + 72 * 3600 \<and>
    al_verify lib now (rq_Cookies rq (sessionCookieName lib (rq_Origin rq))) = Some (login_claims (rc_Username cfg) RoleAdmin since)"
proof -
  obtain c where m: "jwt_middleware lib now rq = Inr (Some c)" and r: "cl_role c = Some RoleAdmin"
    using assms(2,3)
    by (auto simp: admin_request_def rest_request_def AdminOnly_def RequiredRoles_def split: sum.splits option.splits if_splits)
  then have v: "al_verify lib now (rq_Cookies rq (sessionCookieName lib (rq_Origin rq))) = Some c" and i: "cl_iss c = Some sessionJwtIssuer"
    by (auto simp: jwt_middleware_def sessionJWTFromCookie_def Let_def split: option.splits if_splits)
  have "signed_token lib cfg (rq_Cookies rq (sessionCookieName lib (rq_Origin rq))) c" and e: "now < cl_exp c"
    using assms(1) v by (auto simp: unforgeable_def)
  then obtain since user pass where c: "c = login_claims user (RetrieveRole lib cfg user pass) since"
    using i by (auto elim!: signed_tokenE)
  then have a: "RetrieveRole lib cfg user pass = RoleAdmin" using r by (simp add: login_claims_def)
  then have "user = rc_Username cfg \<and> al_compare_hash lib (rc_PasswordHash cfg) pass"
    by (simp add: RetrieveRole_def RoleAdmin_def RoleViewer_def split: if_splits)
  then show ?thesis using v e a c by (auto simp: login_claims_def)
qed

text \<open>An administrator who has logged in reaches the routes from the same origin until the token expires, unless the path is
  exempt from the check.\<close>

lemma admin_login_opens_routes:
  assumes login: "loginHandler lib cfg since origin (Some (rc_Username cfg, pass)) = Inr ck"
    and pass: "al_compare_hash lib (rc_PasswordHash cfg) pass"
    and lib: "\<And>c t. al_sign lib c = Some t \<Longrightarrow> t \<noteq> [] \<and> (now < cl_exp c \<longrightarrow> al_verify lib now t = Some c)"
    and now: "now < since + 72 * 3600"
    and rq: "rq_Origin rq = origin" "rq_Cookies rq (ck_Name ck) = ck_Value ck" "\<not> jwt_exempt rq"
  shows "admin_request lib cfg now rq = Continue"
proof -
  have r: "RetrieveRole lib cfg (rc_Username cfg) pass = RoleAdmin" using pass by (simp add: RetrieveRole_def)
  obtain t where t: "al_sign lib (login_claims (rc_Username cfg) RoleAdmin since) = Some t"
    and ck: "ck = setSessionCookie lib cfg origin t (since + 72 * 3600)"
    using login r by (auto simp: loginHandler_def RoleAdmin_def Let_def split: option.splits)
  have v: "t \<noteq> []" "al_verify lib now t = Some (login_claims (rc_Username cfg) RoleAdmin since)"
    using lib [OF t] now by (simp_all add: login_claims_def)
  have "rq_Cookies rq (sessionCookieName lib origin) = t"
    using rq(2) by (simp add: ck setSessionCookie_def sessionCookieAttributes_def)
  then have "jwt_middleware lib now rq = Inr (Some (login_claims (rc_Username cfg) RoleAdmin since))"
    using rq v by (simp add: jwt_middleware_def sessionJWTFromCookie_def login_claims_def)
  then show ?thesis
    by (simp add: admin_request_def rest_request_def AdminOnly_def RequiredRoles_def login_claims_def)
qed

text \<open>The exemption is by prefix: nobody, whatever his cookies, can delete a directory whose name begins like one of the two
  media routes, as the handler's check of roles sees no claims.\<close>

lemma exempt_path_refused:
  assumes "RestAuthEnabled cfg" "rq_Path rq = ''/files/download'' @ x"
  shows "admin_request lib cfg now rq = Refuse 403"
proof -
  have "jwt_exempt rq" using assms(2) by (simp add: jwt_exempt_def exemptPaths_def HasPrefix_def)
  then show ?thesis
    using assms(1) by (simp add: admin_request_def rest_request_def jwt_middleware_def AdminOnly_def RequiredRoles_def)
qed

text \<open>A viewer is told apart from an administrator by the name alone when both passwords fit.\<close>

lemma viewer_not_admin:
  "RetrieveRole lib cfg user pass = RoleViewer \<Longrightarrow> user = rc_ViewerUsername cfg \<and> al_compare_hash lib (rc_ViewerPasswordHash cfg) pass"
  by (simp add: RetrieveRole_def RoleAdmin_def RoleViewer_def split: if_splits)

section \<open>An example\<close>

definition demo_rest_config :: rest_config where
  "demo_rest_config = \<lparr>rc_Username = ''root'', rc_PasswordHash = ''#pw'', rc_ViewerUsername = [], rc_ViewerPasswordHash = [],
     rc_ProductionMode = True, rc_FrontendURLs = []\<rparr>"

text \<open>A library that signs tokens of the administrator at time 0 only.\<close>

definition demo_lib :: auth_lib where
  "demo_lib = \<lparr>al_compare_hash = (\<lambda>h p. h = CHR ''#'' # p),
     al_sign = (\<lambda>c. if c = login_claims ''root'' RoleAdmin 0 then Some ''T'' else None),
     al_verify = (\<lambda>now t. if t = ''T'' \<and> now < 72 * 3600 then Some (login_claims ''root'' RoleAdmin 0) else None),
     al_hash = id, al_parse_url = (\<lambda>u. Some (''https'', drop 8 u))\<rparr>"

definition demo_request :: request where
  "demo_request = \<lparr>rq_Method = ''POST'', rq_Path = ''/record/7/start'', rq_Origin = ''https://a'',
     rq_Cookies = (\<lambda>n. if n = ''jwt_https://a'' then ''T'' else [])\<rparr>"

lemma demo_unforgeable: "unforgeable demo_lib demo_rest_config"
proof -
  have l: "loginHandler demo_lib demo_rest_config 0 ''https://a'' (Some (''root'', ''pw'')) =
      Inr \<lparr>ck_Name = ''jwt_https://a'', ck_Value = ''T'', ck_Expires = 259200, ck_HTTPOnly = True, ck_Secure = True\<rparr>"
    by code_simp
  have r: "RetrieveRole demo_lib demo_rest_config ''root'' ''pw'' = RoleAdmin" by code_simp
  have "signed_token demo_lib demo_rest_config ''T'' (login_claims ''root'' RoleAdmin 0)"
    by (rule signed_token.login [OF l]) (simp_all add: r)
  then show ?thesis by (auto simp: unforgeable_def demo_lib_def login_claims_def split: if_splits)
qed

lemma demo_admin_request: "admin_request demo_lib demo_rest_config 100 demo_request = Continue" "RestAuthEnabled demo_rest_config"
  by code_simp+

theorem admin_route_needs_admin_login_witness:
  "\<exists>since pass. al_compare_hash demo_lib ''#pw'' pass \<and> 100 < since + 72 * 3600 \<and>
    al_verify demo_lib 100 ''T'' = Some (login_claims ''root'' RoleAdmin since)"
proof -
  have "rq_Cookies demo_request (sessionCookieName demo_lib (rq_Origin demo_request)) = ''T''" by code_simp
  then show ?thesis
    using admin_route_needs_admin_login [OF demo_unforgeable demo_admin_request(2,1)] by (simp add: demo_rest_config_def)
qed

end
