(* ===== verification/Sink.thy ===== *)
theory Sink
  imports Backoff Prelude "HOL-Library.Sublist"
begin

text \<open>
  The buffered log sink (\<open>pkg/sink\<close>): writers put chunks into a channel, one goroutine gathers them into batches and hands
  these to a transport. A step is one channel operation or one turn of the goroutine; ready cases of a \<open>select\<close> are taken in
  any order, and the transport's failures are inputs. The hooks only count and are left out.
\<close>

section \<open>Options\<close>

record sink_options =
  op_BufferSize :: int
  op_BatchBytes :: int
  op_FlushInterval :: int
  op_Overflow :: string

definition OverflowDrop :: string where "OverflowDrop = ''drop''"
definition OverflowBlock :: string where "OverflowBlock = ''block''"

definition normalizeOptions :: "sink_options \<Rightarrow> sink_options" where
  "normalizeOptions opts = opts
    \<lparr>op_BufferSize := (if op_BufferSize opts \<le> 0 then 4096 else op_BufferSize opts),
     op_BatchBytes := (if op_BatchBytes opts \<le> 0 then 64 * 1024 else op_BatchBytes opts),
     op_FlushInterval := (if op_FlushInterval opts \<le> 0 then 1000000000 else op_FlushInterval opts),
     op_Overflow := (if op_Overflow opts = [] then OverflowDrop else op_Overflow opts)\<rparr>"

section \<open>State\<close>

text \<open>Why the goroutine drains the channel: for a \<open>Sync\<close> or \<open>Stop\<close> that began when so many chunks had been accepted, or for the
  ticker.\<close>

datatype drain_cause = Asked_sync nat | Ticked | Asked_stop nat

datatype run_state = Select | Drain drain_cause | Flush drain_cause | Exited

datatype stop_state = Not_stopped | Swapped nat | Closed nat | Requested

text \<open>\<open>sk_writers\<close> and \<open>sk_syncs\<close> are the calls that have passed the check of \<open>stopped\<close>. \<open>sk_accepted\<close> lists the chunks ever sent
  to the channel, \<open>sk_consumed\<close> the batches handed to the transport with its verdicts, \<open>sk_synced\<close> counts the chunks that had been
  accepted when the last \<open>Sync\<close> or \<open>Stop\<close> that has been answered began.\<close>

record sink =
  sk_ch :: "bytes list"
  sk_batch :: bytes
  sk_run :: run_state
  sk_stopped :: bool
  sk_stopCh :: bool
  sk_stopReq :: "nat option"
  sk_stop :: stop_state
  sk_writers :: "bytes list"
  sk_syncs :: "nat list"
  sk_dropped :: nat
  sk_accepted :: "bytes list"
  sk_consumed :: "(bytes \<times> bool) list"
  sk_synced :: nat

definition NewAsyncBufferedSink :: sink where
  "NewAsyncBufferedSink = \<lparr>sk_ch = [], sk_batch = [], sk_run = Select, sk_stopped = False, sk_stopCh = False, sk_stopReq = None,
     sk_stop = Not_stopped, sk_writers = [], sk_syncs = [], sk_dropped = 0, sk_accepted = [], sk_consumed = [], sk_synced = 0\<rparr>"

section \<open>The goroutine\<close>

definition sink_flush :: "bool \<Rightarrow> sink \<Rightarrow> sink" where
  "sink_flush ok s =
    (if sk_batch s = [] then s else s\<lparr>sk_batch := [], sk_consumed := sk_consumed s @ [(sk_batch s, ok)]\<rparr>)"

definition appendChunk :: "sink_options \<Rightarrow> bool \<Rightarrow> bool \<Rightarrow> bytes \<Rightarrow> sink \<Rightarrow> sink" where
  "appendChunk opts ok1 ok2 chunk s =
    (let s = if sk_batch s \<noteq> [] \<and> int (length (sk_batch s) + length chunk) > op_BatchBytes opts then sink_flush ok1 s else s;
         s = s\<lparr>sk_batch := sk_batch s @ chunk\<rparr>
     in if int (length (sk_batch s)) \<ge> op_BatchBytes opts then sink_flush ok2 s else s)"

text \<open>The answer when a flush has ended: a \<open>Sync\<close> is acknowledged, a \<open>Stop\<close> is answered after the transport is closed.\<close>

fun sink_answer :: "drain_cause \<Rightarrow> sink \<Rightarrow> sink" where
  "sink_answer (Asked_sync n) s = s\<lparr>sk_run := Select, sk_synced := max n (sk_synced s)\<rparr>"
| "sink_answer Ticked s = s\<lparr>sk_run := Select\<rparr>"
| "sink_answer (Asked_stop n) s = s\<lparr>sk_run := Exited, sk_synced := max n (sk_synced s)\<rparr>"

section \<open>The operations of callers\<close>

datatype write_begin = Nothing_to_write | Write_stopped | Write_waits sink

definition Write_begin :: "bytes \<Rightarrow> sink \<Rightarrow> write_begin" where
  "Write_begin p s =
    (if p = [] then Nothing_to_write
     else if sk_stopped s then Write_stopped
     else Write_waits (s\<lparr>sk_writers := sk_writers s @ [p]\<rparr>))"

definition drop_at :: "nat \<Rightarrow> 'a list \<Rightarrow> 'a list" where
  "drop_at i xs = take i xs @ drop (Suc i) xs"

definition Write_send :: "nat \<Rightarrow> sink \<Rightarrow> sink" where
  "Write_send i s = s\<lparr>sk_writers := drop_at i (sk_writers s), sk_ch := sk_ch s @ [sk_writers s ! i],
     sk_accepted := sk_accepted s @ [sk_writers s ! i]\<rparr>"

definition Write_refused :: "nat \<Rightarrow> sink \<Rightarrow> sink" where
  "Write_refused i s = s\<lparr>sk_writers := drop_at i (sk_writers s)\<rparr>"

definition Write_dropped :: "nat \<Rightarrow> sink \<Rightarrow> sink" where
  "Write_dropped i s = s\<lparr>sk_writers := drop_at i (sk_writers s), sk_dropped := sk_dropped s + 1\<rparr>"

definition ch_full :: "sink_options \<Rightarrow> sink \<Rightarrow> bool" where
  "ch_full opts s \<longleftrightarrow> int (length (sk_ch s)) \<ge> op_BufferSize opts"

definition Sync_begin :: "sink \<Rightarrow> sink option" where
  "Sync_begin s = (if sk_stopped s then None else Some (s\<lparr>sk_syncs := sk_syncs s @ [length (sk_accepted s)]\<rparr>))"

definition Stop_swap :: "sink \<Rightarrow> sink option" where
  "Stop_swap s =
    (if sk_stopped s then None else Some (s\<lparr>sk_stopped := True, sk_stop := Swapped (length (sk_accepted s))\<rparr>))"

section \<open>Steps\<close>

inductive sink_step :: "sink_options \<Rightarrow> sink \<Rightarrow> sink \<Rightarrow> bool" for opts where
  write_begins: "Write_begin p s = Write_waits t \<Longrightarrow> sink_step opts s t"
| write_sends: "i < length (sk_writers s) \<Longrightarrow> \<not> ch_full opts s \<Longrightarrow> sink_step opts s (Write_send i s)"
| write_refused: "i < length (sk_writers s) \<Longrightarrow> sk_stopCh s \<Longrightarrow> sink_step opts s (Write_refused i s)"
| write_dropped: "i < length (sk_writers s) \<Longrightarrow> op_Overflow opts \<noteq> OverflowBlock \<Longrightarrow> ch_full opts s \<Longrightarrow> \<not> sk_stopCh s \<Longrightarrow>
    sink_step opts s (Write_dropped i s)"
| sync_begins: "Sync_begin s = Some t \<Longrightarrow> sink_step opts s t"
| sync_taken: "sk_run s = Select \<Longrightarrow> i < length (sk_syncs s) \<Longrightarrow>
    sink_step opts s (s\<lparr>sk_run := Drain (Asked_sync (sk_syncs s ! i)), sk_syncs := drop_at i (sk_syncs s)\<rparr>)"
| sync_refused: "sk_run s = Exited \<Longrightarrow> i < length (sk_syncs s) \<Longrightarrow> sink_step opts s (s\<lparr>sk_syncs := drop_at i (sk_syncs s)\<rparr>)"
| stop_swaps: "Stop_swap s = Some t \<Longrightarrow> sink_step opts s t"
| stop_closes: "sk_stop s = Swapped n \<Longrightarrow> sink_step opts s (s\<lparr>sk_stop := Closed n, sk_stopCh := True\<rparr>)"
| stop_requests: "sk_stop s = Closed n \<Longrightarrow> sink_step opts s (s\<lparr>sk_stop := Requested, sk_stopReq := Some n\<rparr>)"
| stop_taken: "sk_run s = Select \<Longrightarrow> sk_stopReq s = Some n \<Longrightarrow>
    sink_step opts s (s\<lparr>sk_run := Drain (Asked_stop n), sk_stopReq := None\<rparr>)"
| tick: "sk_run s = Select \<Longrightarrow> sink_step opts s (s\<lparr>sk_run := Drain Ticked\<rparr>)"
| takes: "sk_run s = Select \<or> sk_run s = Drain e \<Longrightarrow> sk_ch s = chunk # rest \<Longrightarrow>
    sink_step opts s (appendChunk opts ok1 ok2 chunk (s\<lparr>sk_ch := rest\<rparr>))"
| drained: "sk_run s = Drain e \<Longrightarrow> sk_ch s = [] \<Longrightarrow> sink_step opts s (s\<lparr>sk_run := Flush e\<rparr>)"
| flushes: "sk_run s = Flush e \<Longrightarrow> sink_step opts s (sink_answer e (sink_flush ok s))"

inductive sink_reach :: "sink_options \<Rightarrow> sink \<Rightarrow> bool" for opts where
  new: "sink_reach opts NewAsyncBufferedSink"
| step: "sink_reach opts s \<Longrightarrow> sink_step opts s t \<Longrightarrow> sink_reach opts t"

section \<open>What has been accepted reaches the transport in order\<close>

definition sk_delivered :: "sink \<Rightarrow> bytes" where
  "sk_delivered s = concat (map fst (sk_consumed s))"

fun cause_mark :: "drain_cause \<Rightarrow> nat" where
  "cause_mark (Asked_sync n) = n"
| "cause_mark Ticked = 0"
| "cause_mark (Asked_stop n) = n"

fun run_mark :: "run_state \<Rightarrow> nat" where
  "run_mark (Drain e) = cause_mark e"
| "run_mark (Flush e) = cause_mark e"
| "run_mark _ = 0"

fun stop_mark :: "stop_state \<Rightarrow> nat" where
  "stop_mark (Swapped n) = n"
| "stop_mark (Closed n) = n"
| "stop_mark _ = 0"

definition payload_ok :: "sink_options \<Rightarrow> bytes list \<Rightarrow> bytes \<Rightarrow> bool" where
  "payload_ok opts chunks p \<longleftrightarrow> p \<noteq> [] \<and> (int (length p) \<le> op_BatchBytes opts \<or> p \<in> set chunks)"

definition in_order :: "sink \<Rightarrow> bool" where
  "in_order s \<longleftrightarrow>
    (\<exists>ts. sk_accepted s = ts @ sk_ch s \<and> sk_delivered s @ sk_batch s = concat ts \<and>
       (\<forall>e. sk_run s = Flush e \<longrightarrow> cause_mark e \<le> length ts))"

definition synced :: "sink \<Rightarrow> bool" where
  "synced s \<longleftrightarrow> prefix (concat (take (sk_synced s) (sk_accepted s))) (sk_delivered s)"

definition sink_marks :: "sink \<Rightarrow> nat set" where
  "sink_marks s = {run_mark (sk_run s), stop_mark (sk_stop s), sk_synced s} \<union> set (sk_syncs s) \<union> set_option (sk_stopReq s)"

definition marks_ok :: "sink \<Rightarrow> bool" where
  "marks_ok s \<longleftrightarrow> (\<forall>n \<in> sink_marks s. n \<le> length (sk_accepted s))"

definition payloads_ok :: "sink_options \<Rightarrow> sink \<Rightarrow> bool" where
  "payloads_ok opts s \<longleftrightarrow> (\<forall>p \<in> fst ` set (sk_consumed s). payload_ok opts (sk_accepted s) p) \<and>
    int (length (sk_batch s)) < op_BatchBytes opts \<and> int (length (sk_ch s)) \<le> op_BufferSize opts"

lemma sink_flush_fields [simp]:
  "sk_ch (sink_flush ok s) = sk_ch s"
  "sk_run (sink_flush ok s) = sk_run s"
  "sk_stopped (sink_flush ok s) = sk_stopped s"
  "sk_stopCh (sink_flush ok s) = sk_stopCh s"
  "sk_stopReq (sink_flush ok s) = sk_stopReq s"
  "sk_stop (sink_flush ok s) = sk_stop s"
  "sk_writers (sink_flush ok s) = sk_writers s"
  "sk_syncs (sink_flush ok s) = sk_syncs s"
  "sk_dropped (sink_flush ok s) = sk_dropped s"
  "sk_accepted (sink_flush ok s) = sk_accepted s"
  "sk_synced (sink_flush ok s) = sk_synced s"
  by (simp_all add: sink_flush_def)

lemma appendChunk_fields [simp]:
  "sk_ch (appendChunk opts ok1 ok2 c s) = sk_ch s"
  "sk_run (appendChunk opts ok1 ok2 c s) = sk_run s"
  "sk_stopped (appendChunk opts ok1 ok2 c s) = sk_stopped s"
  "sk_stopCh (appendChunk opts ok1 ok2 c s) = sk_stopCh s"
  "sk_stopReq (appendChunk opts ok1 ok2 c s) = sk_stopReq s"
  "sk_stop (appendChunk opts ok1 ok2 c s) = sk_stop s"
  "sk_writers (appendChunk opts ok1 ok2 c s) = sk_writers s"
  "sk_syncs (appendChunk opts ok1 ok2 c s) = sk_syncs s"
  "sk_dropped (appendChunk opts ok1 ok2 c s) = sk_dropped s"
  "sk_accepted (appendChunk opts ok1 ok2 c s) = sk_accepted s"
  "sk_synced (appendChunk opts ok1 ok2 c s) = sk_synced s"
  by (simp_all add: appendChunk_def Let_def)

lemma sink_answer_fields [simp]:
  "sk_ch (sink_answer e s) = sk_ch s"
  "sk_stopped (sink_answer e s) = sk_stopped s"
  "sk_stopCh (sink_answer e s) = sk_stopCh s"
  "sk_stopReq (sink_answer e s) = sk_stopReq s"
  "sk_stop (sink_answer e s) = sk_stop s"
  "sk_writers (sink_answer e s) = sk_writers s"
  "sk_syncs (sink_answer e s) = sk_syncs s"
  "sk_dropped (sink_answer e s) = sk_dropped s"
  "sk_accepted (sink_answer e s) = sk_accepted s"
  "sk_batch (sink_answer e s) = sk_batch s" "sk_consumed (sink_answer e s) = sk_consumed s" "sk_delivered (sink_answer e s) = sk_delivered s"
  "sk_synced (sink_answer e s) = max (cause_mark e) (sk_synced s)"
  by (cases e; simp add: sk_delivered_def)+

lemma sink_answer_run [simp]: "sk_run (sink_answer e s) \<noteq> Flush x" "run_mark (sk_run (sink_answer e s)) = 0"
  by (cases e; simp)+

lemma sink_flush_bytes [simp]: "sk_delivered (sink_flush ok s) = sk_delivered s @ sk_batch s" "sk_batch (sink_flush ok s) = []"
  by (simp_all add: sink_flush_def sk_delivered_def)

lemma appendChunk_bytes: "sk_delivered (appendChunk opts ok1 ok2 c s) @ sk_batch (appendChunk opts ok1 ok2 c s) = sk_delivered s @ sk_batch s @ c"
proof -
  have "sk_delivered (s\<lparr>sk_batch := b\<rparr>) = sk_delivered s" for s b by (simp add: sk_delivered_def)
  then show ?thesis by (simp add: appendChunk_def Let_def)
qed

lemma appendChunk_prefix: "prefix (sk_delivered s) (sk_delivered (appendChunk opts ok1 ok2 c s))"
proof -
  have "sk_delivered (s\<lparr>sk_batch := b\<rparr>) = sk_delivered s" for s b by (simp add: sk_delivered_def)
  then show ?thesis by (simp add: appendChunk_def Let_def)
qed

lemma appendChunk_short:
  "0 < op_BatchBytes opts \<Longrightarrow> int (length (sk_batch (appendChunk opts ok1 ok2 c s))) < op_BatchBytes opts"
  by (simp add: appendChunk_def Let_def)

text \<open>A batch is whole chunks, and longer than the limit only if it is one chunk.\<close>

lemma appendChunk_payloads:
  assumes "int (length (sk_batch s)) < op_BatchBytes opts" and "p \<in> fst ` set (sk_consumed (appendChunk opts ok1 ok2 c s))"
  shows "p \<in> fst ` set (sk_consumed s) \<or> (p \<noteq> [] \<and> (int (length p) \<le> op_BatchBytes opts \<or> p = c))"
  using assms by (auto simp: appendChunk_def sink_flush_def Let_def split: if_splits)

lemma set_drop_at: "set (drop_at i xs) \<subseteq> set xs"
  by (auto simp: drop_at_def dest: in_set_takeD in_set_dropD)

lemmas sink_ops = Write_begin_def Write_send_def Write_refused_def Write_dropped_def Sync_begin_def Stop_swap_def

lemma delivered_same: "sk_consumed t = sk_consumed s \<Longrightarrow> sk_delivered t = sk_delivered s"
  by (simp add: sk_delivered_def)

inductive_cases sink_stepE: "sink_step opts s t"

lemma in_order_appendChunk:
  assumes "in_order s" "sk_ch s = c # rest" "\<forall>e. sk_run s \<noteq> Flush e"
  shows "in_order (appendChunk opts ok1 ok2 c (s\<lparr>sk_ch := rest\<rparr>))"
proof -
  obtain ts where ts: "sk_accepted s = ts @ sk_ch s" "sk_delivered s @ sk_batch s = concat ts"
    using assms(1) by (auto simp: in_order_def)
  have "sk_delivered (s\<lparr>sk_ch := rest\<rparr>) = sk_delivered s" by (rule delivered_same) simp
  then show ?thesis
    unfolding in_order_def using ts assms(2,3) by (intro exI [of _ "ts @ [c]"]) (simp add: appendChunk_bytes flip: append_assoc)
qed

lemma in_order_step:
  assumes "sink_step opts s t" and "in_order s" and "marks_ok s"
  shows "in_order t"
  using assms(1)
proof cases
  case (takes e chunk rest ok1 ok2)
  then show ?thesis using in_order_appendChunk [OF assms(2)] by auto
next
  case (drained e)
  then have "cause_mark e \<le> length (sk_accepted s)" using assms(3) by (simp add: marks_ok_def sink_marks_def)
  then show ?thesis using assms(2) drained by (auto simp: in_order_def sk_delivered_def)
next
  case (flushes e ok)
  then show ?thesis using assms(2) by (auto simp: in_order_def)
qed (use assms(2) in \<open>auto simp: in_order_def sk_delivered_def sink_ops split: if_splits\<close>)

lemma marks_ok_step:
  assumes "sink_step opts s t" and "marks_ok s"
  shows "marks_ok t"
  using assms(1)
proof cases
  case (sync_taken i)
  then show ?thesis using assms(2) set_drop_at [of i "sk_syncs s"] by (auto simp: marks_ok_def sink_marks_def)
next
  case (sync_refused i)
  then show ?thesis using assms(2) set_drop_at [of i "sk_syncs s"] by (auto simp: marks_ok_def sink_marks_def)
next
  case (flushes e ok)
  then show ?thesis using assms(2) by (auto simp: marks_ok_def sink_marks_def)
next
  case (write_sends i)
  then show ?thesis using assms(2) by (auto simp: marks_ok_def sink_marks_def Write_send_def intro: le_SucI)
qed (use assms(2) in \<open>auto simp: marks_ok_def sink_marks_def sink_ops split: if_splits\<close>)

lemma synced_mono:
  assumes "synced s" "sk_synced s \<le> length (sk_accepted s)" "sk_synced t = sk_synced s"
    "prefix (sk_accepted s) (sk_accepted t)" "prefix (sk_delivered s) (sk_delivered t)"
  shows "synced t"
proof -
  have "take (sk_synced s) (sk_accepted t) = take (sk_synced s) (sk_accepted s)"
    using assms(2,4) by (auto simp: prefix_def)
  then show ?thesis using assms(1,3,5) by (auto simp: synced_def intro: prefix_order.trans)
qed

lemma synced_step:
  assumes "sink_step opts s t" and "synced s" and "marks_ok s" and "in_order s"
  shows "synced t"
proof -
  have m: "sk_synced s \<le> length (sk_accepted s)" using assms(3) by (simp add: marks_ok_def sink_marks_def)
  show ?thesis using assms(1)
  proof cases
    case (takes e chunk rest ok1 ok2)
    have "sk_delivered (s\<lparr>sk_ch := rest\<rparr>) = sk_delivered s" by (rule delivered_same) simp
    then show ?thesis using takes appendChunk_prefix [of "s\<lparr>sk_ch := rest\<rparr>"]
      by (intro synced_mono [OF assms(2) m]) simp_all
  next
    case (flushes e ok)
    obtain ts where ts: "sk_accepted s = ts @ sk_ch s" "sk_delivered s @ sk_batch s = concat ts" "cause_mark e \<le> length ts"
      using assms(4) flushes by (auto simp: in_order_def)
    have "prefix (concat (take (cause_mark e) (sk_accepted s))) (sk_delivered s @ sk_batch s)"
      using ts by (metis append_take_drop_id concat_append prefixI take_append diff_is_0_eq take_0 append_Nil2)
    moreover have "prefix (concat (take (sk_synced s) (sk_accepted s))) (sk_delivered s @ sk_batch s)"
      using assms(2) by (simp add: synced_def)
    ultimately show ?thesis using flushes by (simp add: synced_def max_def)
  qed (use assms(2) m in \<open>auto simp: synced_def sk_delivered_def sink_ops split: if_splits\<close>)
qed

lemma payloads_ok_step:
  assumes "sink_step opts s t" and "payloads_ok opts s" and "in_order s" and "0 < op_BatchBytes opts"
  shows "payloads_ok opts t"
  using assms(1)
proof cases
  case (write_sends i)
  then show ?thesis using assms(2) by (auto simp: payloads_ok_def payload_ok_def Write_send_def ch_full_def)
next
  case (takes e chunk rest ok1 ok2)
  have "chunk \<in> set (sk_accepted s)" using assms(3) takes by (auto simp: in_order_def)
  moreover have "int (length (sk_batch (s\<lparr>sk_ch := rest\<rparr>))) < op_BatchBytes opts" using assms(2) by (simp add: payloads_ok_def)
  note appendChunk_payloads [OF this]
  ultimately show ?thesis using takes assms(2) appendChunk_short [OF assms(4)]
    by (fastforce simp: payloads_ok_def payload_ok_def)
next
  case (flushes e ok)
  then show ?thesis using assms(2) by (auto simp: payloads_ok_def payload_ok_def sink_flush_def split: if_splits)
qed (use assms(2) in \<open>auto simp: payloads_ok_def payload_ok_def sink_ops split: if_splits\<close>)

lemma sink_reach_inv:
  assumes "sink_reach opts s" and "0 < op_BatchBytes opts" and "0 \<le> op_BufferSize opts"
  shows "in_order s \<and> marks_ok s \<and> synced s \<and> payloads_ok opts s"
  using assms(1)
proof induction
  case new
  then show ?case using assms(2,3)
    by (simp add: in_order_def marks_ok_def sink_marks_def synced_def payloads_ok_def NewAsyncBufferedSink_def sk_delivered_def)
next
  case (step s t)
  then show ?case using in_order_step marks_ok_step synced_step payloads_ok_step assms(2) by blast
qed

text \<open>C35. Whatever the order of writes, syncs, ticks and a stop, what has been handed to the transport, the current batch and the
  channel are together exactly the accepted chunks in order; a batch is never empty and is longer than the limit only if it is
  one chunk; and all that had been accepted when a \<open>Sync\<close> or \<open>Stop\<close> began has been handed over when it is answered.\<close>

theorem sink_delivers_in_order:
  assumes "sink_reach (normalizeOptions opts) s"
  shows "sk_delivered s @ sk_batch s @ concat (sk_ch s) = concat (sk_accepted s) \<and>
    prefix (concat (take (sk_synced s) (sk_accepted s))) (sk_delivered s) \<and>
    (\<forall>p \<in> fst ` set (sk_consumed s). p \<noteq> [] \<and> (int (length p) \<le> op_BatchBytes (normalizeOptions opts) \<or> p \<in> set (sk_accepted s)))"
proof -
  have "in_order s \<and> marks_ok s \<and> synced s \<and> payloads_ok (normalizeOptions opts) s"
    by (rule sink_reach_inv [OF assms]) (simp_all add: normalizeOptions_def)
  then show ?thesis by (auto simp: in_order_def synced_def payloads_ok_def payload_ok_def simp flip: append_assoc)
qed

text \<open>A write whose check of \<open>stopped\<close> came before the stop may still be accepted after the goroutine has ended. Its caller is told
  that it has been written, but it never reaches the transport.\<close>

lemma exited_delivers_nothing:
  assumes "sink_step opts s t" "sk_run s = Exited"
  shows "sk_run t = Exited \<and> sk_delivered t = sk_delivered s"
  using assms by cases (auto simp: sk_delivered_def sink_ops split: if_splits)

definition demo_opts :: sink_options where
  "demo_opts = \<lparr>op_BufferSize = 1, op_BatchBytes = 3, op_FlushInterval = 0, op_Overflow = []\<rparr>"

lemma demo_opts_norm:
  "normalizeOptions demo_opts = \<lparr>op_BufferSize = 1, op_BatchBytes = 3, op_FlushInterval = 1000000000, op_Overflow = OverflowDrop\<rparr>"
  by (simp add: demo_opts_def normalizeOptions_def)

lemmas sink_demo = sink_ops drop_at_def appendChunk_def sink_flush_def ch_full_def demo_opts_norm

lemma demo_writing:
  "sink_reach (normalizeOptions demo_opts) (NewAsyncBufferedSink\<lparr>sk_writers := [[7, 8]]\<rparr>)"
  by (rule sink_reach.step [OF sink_reach.new sink_step.write_begins [of "[7, 8]"]]) (simp add: sink_demo NewAsyncBufferedSink_def)

lemma late_write_lost:
  "\<exists>s. sink_reach (normalizeOptions demo_opts) s \<and> sk_run s = Exited \<and> sk_accepted s = [[7, 8]] \<and> sk_delivered s = []"
proof -
  let ?o = "normalizeOptions demo_opts" and ?s = "NewAsyncBufferedSink\<lparr>sk_writers := [[7, 8]], sk_stopped := True\<rparr>"
  have "sink_reach ?o (?s\<lparr>sk_stop := Swapped 0\<rparr>)"
    by (rule sink_reach.step [OF demo_writing sink_step.stop_swaps]) (simp add: sink_demo NewAsyncBufferedSink_def)
  from sink_reach.step [OF this sink_step.stop_closes [of _ 0]]
  have "sink_reach ?o (?s\<lparr>sk_stop := Closed 0, sk_stopCh := True\<rparr>)" by simp
  from sink_reach.step [OF this sink_step.stop_requests [of _ 0]]
  have "sink_reach ?o (?s\<lparr>sk_stop := Requested, sk_stopCh := True, sk_stopReq := Some 0\<rparr>)"
    by (simp add: NewAsyncBufferedSink_def)
  from sink_reach.step [OF this sink_step.stop_taken [of _ 0]]
  have "sink_reach ?o (?s\<lparr>sk_stop := Requested, sk_stopCh := True, sk_run := Drain (Asked_stop 0)\<rparr>)"
    by (simp add: NewAsyncBufferedSink_def)
  from sink_reach.step [OF this sink_step.drained [of _ "Asked_stop 0"]]
  have "sink_reach ?o (?s\<lparr>sk_stop := Requested, sk_stopCh := True, sk_run := Flush (Asked_stop 0)\<rparr>)"
    by (simp add: NewAsyncBufferedSink_def)
  from sink_reach.step [OF this sink_step.flushes [of _ "Asked_stop 0"]]
  have "sink_reach ?o (?s\<lparr>sk_stop := Requested, sk_stopCh := True, sk_run := Exited\<rparr>)"
    by (simp add: NewAsyncBufferedSink_def sink_flush_def)
  from sink_reach.step [OF this sink_step.write_sends [of 0]]
  have "sink_reach ?o (Write_send 0 (?s\<lparr>sk_stop := Requested, sk_stopCh := True, sk_run := Exited\<rparr>))"
    by (simp add: sink_demo NewAsyncBufferedSink_def)
  then show ?thesis
    by (intro exI [of _ "Write_send 0 (?s\<lparr>sk_stop := Requested, sk_stopCh := True, sk_run := Exited\<rparr>)"])
      (simp add: Write_send_def NewAsyncBufferedSink_def sk_delivered_def)
qed

theorem sink_delivers_in_order_witness:
  "\<exists>s. sink_reach (normalizeOptions demo_opts) s \<and> sk_synced s = 1 \<and> prefix [7, 8] (sk_delivered s)"
proof -
  let ?o = "normalizeOptions demo_opts" and ?s = "NewAsyncBufferedSink\<lparr>sk_accepted := [[7, 8]]\<rparr>"
  from sink_reach.step [OF demo_writing sink_step.write_sends [of 0]]
  have "sink_reach ?o (?s\<lparr>sk_ch := [[7, 8]]\<rparr>)" by (simp add: sink_demo NewAsyncBufferedSink_def)
  then have "sink_reach ?o (?s\<lparr>sk_ch := [[7, 8]], sk_syncs := [1]\<rparr>)"
    by (rule sink_reach.step [OF _ sink_step.sync_begins]) (simp add: sink_demo NewAsyncBufferedSink_def)
  from sink_reach.step [OF this sink_step.sync_taken [of _ 0]]
  have "sink_reach ?o (?s\<lparr>sk_ch := [[7, 8]], sk_run := Drain (Asked_sync 1)\<rparr>)" by (simp add: sink_demo NewAsyncBufferedSink_def)
  from sink_reach.step [OF this sink_step.takes [of _ "Asked_sync 1" "[7, 8]" "[]"]]
  have "sink_reach ?o (?s\<lparr>sk_batch := [7, 8], sk_run := Drain (Asked_sync 1)\<rparr>)" by (simp add: sink_demo NewAsyncBufferedSink_def)
  from sink_reach.step [OF this sink_step.drained [of _ "Asked_sync 1"]]
  have "sink_reach ?o (?s\<lparr>sk_batch := [7, 8], sk_run := Flush (Asked_sync 1)\<rparr>)" by (simp add: NewAsyncBufferedSink_def)
  from sink_reach.step [OF this sink_step.flushes [of _ "Asked_sync 1" _ True]]
  have r: "sink_reach ?o (?s\<lparr>sk_consumed := [([7, 8], True)], sk_synced := 1\<rparr>)"
    by (simp add: sink_flush_def NewAsyncBufferedSink_def)
  show ?thesis
    using sink_delivers_in_order [OF r] r by (intro exI [of _ "?s\<lparr>sk_consumed := [([7, 8], True)], sk_synced := 1\<rparr>"]) simp
qed

section \<open>The HTTP transport\<close>

text \<open>One attempt to post a batch: the request cannot be built, the connection fails, or a status comes back.\<close>

datatype post_outcome = Request_error | Post_error | Status nat

fun vlogs_post :: "post_outcome \<Rightarrow> bool \<times> bool" where
  "vlogs_post Request_error = (False, True)"
| "vlogs_post Post_error = (True, True)"
| "vlogs_post (Status c) = (if 200 \<le> c \<and> c < 300 then (False, False) else (c = 429 \<or> c \<ge> 500, True))"

definition vlogs_retryMax :: "int \<Rightarrow> nat" where
  "vlogs_retryMax n = (if n < 0 then 0 else nat n)"

text \<open>The loop of attempts over the outcomes that they meet: the delays slept, the number of posts, and whether it fails. The
  first argument counts the attempts that are left after this one.\<close>

fun vlogs_attempts :: "nat \<Rightarrow> Expotential \<Rightarrow> (nat \<Rightarrow> post_outcome) \<Rightarrow> int list \<times> nat \<times> bool" where
  "vlogs_attempts 0 bo out = ([], 1, snd (vlogs_post (out 0)))"
| "vlogs_attempts (Suc n) bo out =
    (let (retry, err) = vlogs_post (out 0) in
     if \<not> retry then ([], 1, err)
     else let (d, bo) = exp_Next bo; (ds, k, e) = vlogs_attempts n bo (\<lambda>i. out (Suc i)) in (d # ds, Suc k, e))"

definition vlogs_Consume :: "int \<Rightarrow> (nat \<Rightarrow> post_outcome) \<Rightarrow> bytes \<Rightarrow> int list \<times> nat \<times> bool" where
  "vlogs_Consume retryMax out batch =
    (if batch = [] then ([], 0, False)
     else vlogs_attempts (vlogs_retryMax retryMax) (NewExpotential 100000000 (\<lambda>d. 2 * d) 1000000000) out)"

text \<open>It posts at most \<open>retryMax + 1\<close> times, sleeps before each post but the first, and never after a success or a refusal that is
  not worth a retry; it fails exactly when the last post has failed.\<close>

lemma vlogs_attempts_last:
  assumes "vlogs_attempts n bo out = (ds, k, err)"
  shows "1 \<le> k \<and> k \<le> Suc n \<and> length ds = k - 1 \<and> err = snd (vlogs_post (out (k - 1))) \<and>
    (\<forall>i < k - 1. fst (vlogs_post (out i))) \<and> (k \<le> n \<longrightarrow> \<not> fst (vlogs_post (out (k - 1))))"
  using assms
proof (induction n bo out arbitrary: ds k err rule: vlogs_attempts.induct)
  case (2 n bo out)
  obtain retry e where p: "vlogs_post (out 0) = (retry, e)" by fastforce
  obtain d bo' where d: "exp_Next bo = (d, bo')" by fastforce
  show ?case
  proof (cases retry)
    case True
    obtain ds' k' e' where r: "vlogs_attempts n bo' (\<lambda>i. out (Suc i)) = (ds', k', e')" by (metis prod_cases3)
    note IH = "2.IH" [OF p [symmetric] refl _ d [symmetric] refl r]
    have "ds = d # ds'" "k = Suc k'" "err = e'" using 2(2) True p d r by simp_all
    moreover have "fst (vlogs_post (out i))" if "\<forall>i < k' - 1. fst (vlogs_post (out (Suc i)))" "i < k'" for i
      using that True p by (cases i) auto
    ultimately show ?thesis using IH True by (cases k') auto
  next
    case False
    then show ?thesis using 2(2) p by auto
  qed
qed auto

lemma vlogs_gives_up:
  assumes "batch \<noteq> []" "\<forall>i. out i = Post_error \<or> out i = Status 503"
  shows "fst (snd (vlogs_Consume retryMax out batch)) = Suc (vlogs_retryMax retryMax)"
proof -
  obtain ds k err where v: "vlogs_attempts (vlogs_retryMax retryMax) (NewExpotential 100000000 (\<lambda>d. 2 * d) 1000000000) out = (ds, k, err)"
    by (metis prod_cases3)
  have "fst (vlogs_post (out i))" for i using spec [OF assms(2), of i] by auto
  then show ?thesis using vlogs_attempts_last [OF v] v assms(1) by (auto simp: vlogs_Consume_def)
qed

end
