(* ===== verification/FallbackClient.thy ===== *)
theory FallbackClient
  imports Main
begin

text \<open>
  Requests that are repeated with the account's cookies when the anonymous client is refused (\<open>pkg/fallback\<close>), and the
  interpretation of live room answers (\<open>internal/modules/bilibili/errors.go\<close>). Calls are modelled one at a time; what each
  client answers is an input, \<open>None\<close> being an error of the transport.
\<close>

section \<open>The client\<close>

datatype fb_decision = DecisionOK | DecisionFallback | DecisionAbort

datatype fb_party = Primary | Secondary

definition degradeThreshold :: nat where "degradeThreshold = 3"
definition probeInterval :: int where "probeInterval = 300 * 1000000000"
definition probeSuccessThreshold :: nat where "probeSuccessThreshold = 2"

record fb_client =
  fb_hasFallback :: bool
  fb_preferFallback :: bool
  fb_fallbackFailStreak :: nat
  fb_lastProbeAt :: "int option"
  fb_probeSuccessStreak :: nat

definition fb_New :: "bool \<Rightarrow> fb_client" where
  "fb_New fallback = \<lparr>fb_hasFallback = fallback, fb_preferFallback = False, fb_fallbackFailStreak = 0, fb_lastProbeAt = None,
     fb_probeSuccessStreak = 0\<rparr>"

definition shouldProbe :: "int \<Rightarrow> fb_client \<Rightarrow> bool \<times> fb_client" where
  "shouldProbe now c =
    (if \<not> fb_preferFallback c then (False, c)
     else if (case fb_lastProbeAt c of None \<Rightarrow> True | Some t \<Rightarrow> now - t \<ge> probeInterval) then (True, c\<lparr>fb_lastProbeAt := Some now\<rparr>)
     else (False, c))"

definition onProbeSuccess :: "fb_client \<Rightarrow> fb_client" where
  "onProbeSuccess c =
    (let c = c\<lparr>fb_probeSuccessStreak := fb_probeSuccessStreak c + 1\<rparr> in
     if fb_probeSuccessStreak c \<ge> probeSuccessThreshold
     then c\<lparr>fb_preferFallback := False, fb_fallbackFailStreak := 0, fb_probeSuccessStreak := 0\<rparr> else c)"

definition onProbeFailure :: "fb_client \<Rightarrow> fb_client" where
  "onProbeFailure c = c\<lparr>fb_probeSuccessStreak := 0\<rparr>"

definition recordFallbackTrigger :: "fb_client \<Rightarrow> fb_client" where
  "recordFallbackTrigger c =
    (let c = c\<lparr>fb_fallbackFailStreak := fb_fallbackFailStreak c + 1\<rparr> in
     if fb_fallbackFailStreak c \<ge> degradeThreshold \<and> \<not> fb_preferFallback c
     then c\<lparr>fb_preferFallback := True, fb_probeSuccessStreak := 0\<rparr> else c)"

text \<open>The answer that is returned, the clients that have been asked in order, and the state. Every answer is passed on as it is,
  whatever the decision was; \<open>onFallbackSuccess\<close> changes nothing.\<close>

definition fb_Do :: "(fb_party \<Rightarrow> 'r option) \<Rightarrow> ('r option \<Rightarrow> fb_decision) \<Rightarrow> int \<Rightarrow> fb_client \<Rightarrow> 'r option \<times> fb_party list \<times> fb_client" where
  "fb_Do out judge now c =
    (if fb_preferFallback c \<and> fb_hasFallback c then
       (let (probe, c) = shouldProbe now c in
        if probe then
          (if judge (out Primary) = DecisionOK then (out Primary, [Primary], onProbeSuccess c)
           else (out Secondary, [Primary, Secondary], onProbeFailure c))
        else (out Secondary, [Secondary], c))
     else
       (case judge (out Primary) of
          DecisionOK \<Rightarrow> (out Primary, [Primary], c)
        | DecisionAbort \<Rightarrow> (out Primary, [Primary], c)
        | DecisionFallback \<Rightarrow>
            if \<not> fb_hasFallback c then (out Primary, [Primary], c)
            else (out Secondary, [Primary, Secondary], recordFallbackTrigger c)))"

section \<open>Interpretation of live room answers\<close>

definition isRiskControl :: "int \<Rightarrow> bool" where
  "isRiskControl code = (if code = 0 \<or> code = 1 then False else if code = 400 \<or> code = 404 \<or> code \<ge> 500 then False else True)"

text \<open>A response is the code of its envelope, \<open>None\<close> when it is no JSON.\<close>

definition liveInterpret :: "int option option \<Rightarrow> fb_decision" where
  "liveInterpret r =
    (case r of
       None \<Rightarrow> DecisionAbort
     | Some None \<Rightarrow> DecisionAbort
     | Some (Some code) \<Rightarrow> if code = 0 then DecisionOK else if isRiskControl code then DecisionFallback else DecisionAbort)"

section \<open>Degradation and recovery\<close>

text \<open>A run of requests, each at a time and with what the clients would answer.\<close>

fun fb_run :: "('r option \<Rightarrow> fb_decision) \<Rightarrow> (int \<times> (fb_party \<Rightarrow> 'r option)) list \<Rightarrow> fb_client \<Rightarrow> fb_client" where
  "fb_run judge [] c = c"
| "fb_run judge ((now, out) # rs) c = fb_run judge rs (snd (snd (fb_Do out judge now c)))"

lemmas fb_ops = fb_Do_def shouldProbe_def onProbeSuccess_def onProbeFailure_def recordFallbackTrigger_def Let_def
  degradeThreshold_def probeSuccessThreshold_def

text \<open>As long as it has not degraded, the counter counts the refusals of the anonymous client and two are in it at most.\<close>

definition fb_inv :: "fb_client \<Rightarrow> bool" where
  "fb_inv c \<longleftrightarrow> fb_probeSuccessStreak c < probeSuccessThreshold \<and> (fb_preferFallback c \<longleftrightarrow> degradeThreshold \<le> fb_fallbackFailStreak c)"

lemma fb_inv_New: "fb_inv (fb_New b)"
  by (simp add: fb_inv_def fb_New_def degradeThreshold_def probeSuccessThreshold_def)

lemma fb_inv_Do: "fb_inv c \<Longrightarrow> fb_inv (snd (snd (fb_Do out judge now c)))"
  by (auto simp: fb_inv_def fb_ops split: fb_decision.split)

lemma fb_inv_run: "fb_inv c \<Longrightarrow> fb_inv (fb_run judge rs c)"
  by (induction judge rs c rule: fb_run.induct) (simp_all add: fb_inv_Do)

text \<open>The counter is called a streak, but successes of the anonymous client in between do not reset it: the third refusal since
  the start degrades, however far apart they are.\<close>

lemma refusals_add_up:
  assumes "fb_hasFallback c" "\<not> fb_preferFallback c"
  shows "fb_fallbackFailStreak (snd (snd (fb_Do out judge now c))) =
    fb_fallbackFailStreak c + (if judge (out Primary) = DecisionFallback then 1 else 0)"
  using assms by (auto simp: fb_ops split: fb_decision.split)

lemma scattered_refusals_degrade:
  assumes "\<forall>(now, out) \<in> set rs. judge (out Primary) = DecisionOK" "fb_hasFallback c" "\<not> fb_preferFallback c"
  shows "fb_run judge rs c = c"
  using assms
proof (induction rs)
  case (Cons r rs)
  then show ?case by (cases r) (auto simp: fb_Do_def)
qed simp

text \<open>While degraded the anonymous client is asked once in five minutes at most, and two successful probes in a row end it.\<close>

lemma degraded_asks_account:
  assumes "fb_preferFallback c" "fb_hasFallback c" "fb_lastProbeAt c = Some t" "now - t < probeInterval"
  shows "fb_Do out judge now c = (out Secondary, [Secondary], c)"
  using assms by (simp add: fb_Do_def shouldProbe_def)

lemma two_probes_recover:
  assumes "fb_inv c" "fb_preferFallback c" "fb_hasFallback c"
    and "case fb_lastProbeAt c of None \<Rightarrow> True | Some t \<Rightarrow> probeInterval \<le> n1 - t" "probeInterval \<le> n2 - n1"
    and "judge (o1 Primary) = DecisionOK" "judge (o2 Primary) = DecisionOK"
  shows "\<not> fb_preferFallback (fb_run judge [(n1, o1), (n2, o2)] c)"
  using assms by (cases "fb_lastProbeAt c"; cases "fb_probeSuccessStreak c") (auto simp: fb_ops fb_inv_def)

text \<open>Refusals hours apart with successes between them: the third one sends all later requests with the account's cookies.\<close>

lemma degrade_example:
  "let ok = (\<lambda>_. Some (Some 0)); refused = (\<lambda>p. if p = Primary then Some (Some (-352)) else Some (Some 0)); h = 3600000000000 in
   fb_preferFallback (fb_run liveInterpret [(0, refused), (h, ok), (2 * h, refused), (3 * h, ok), (4 * h, refused)] (fb_New True))"
  by (simp add: fb_ops fb_New_def liveInterpret_def isRiskControl_def)

end
