(* ===== verification/RoomInfo.thy ===== *)
theory RoomInfo
  imports FallbackClient GoPath
begin

text \<open>
  Information on live rooms: decoding the API's answer (\<open>internal/modules/bilibili/live.go\<close>), the cache that serves stale values
  while it fetches fresh ones (\<open>pkg/swr\<close>) and the room service over it (\<open>internal/services/room\<close>). The items of the cache are held
  by a library that drops them after 30 minutes or when it is full: what it drops is an input wherever it matters. Background
  goroutines are work that is listed in the state and done by a step of its own.
\<close>

section \<open>The API\<close>

record room_detail =
  rd_RoomID :: int
  rd_ShortID :: int
  rd_LiveStatus :: int

text \<open>\<open>by_room_ids\<close> in the order in which a loop over the map meets it; \<open>None\<close> is a null entry.\<close>

type_synonym by_room = "(string \<times> room_detail option) list"

datatype room_error = ErrRoomNotFound | APIError int | ErrNilResponse | Bad_json | Transport_error

definition IsErrRoomNotFound :: "room_error \<Rightarrow> bool" where
  "IsErrRoomNotFound err \<longleftrightarrow> err = ErrRoomNotFound \<or> err = APIError 1"

record live_response =
  lr_Code :: int
  lr_Data :: "by_room option"

definition decodeLiveRoomInfos :: "live_response option \<Rightarrow> room_error + by_room" where
  "decodeLiveRoomInfos res =
    (case res of
       None \<Rightarrow> Inl Bad_json
     | Some resp \<Rightarrow>
         if lr_Code resp \<noteq> 0 then (if lr_Code resp = 1 then Inl ErrRoomNotFound else Inl (APIError (lr_Code resp)))
         else case lr_Data resp of
           None \<Rightarrow> Inl ErrNilResponse
         | Some d \<Rightarrow> if d = [] then Inl ErrRoomNotFound else Inr d)"

text \<open>What the client with fallback answers to a request for rooms: an error of the transport or a response.\<close>

type_synonym room_request = "int list \<Rightarrow> live_response option option"

definition GetLiveRoomInfos :: "room_request \<Rightarrow> int list \<Rightarrow> room_error + by_room" where
  "GetLiveRoomInfos request roomIDs =
    (if roomIDs = [] then Inr []
     else case request roomIDs of None \<Rightarrow> Inl Transport_error | Some res \<Rightarrow> decodeLiveRoomInfos res)"

text \<open>\<open>strconv.Itoa\<close> and \<open>fmt.Sprint\<close> of an \<open>int\<close>.\<close>

definition room_key :: "int \<Rightarrow> string" where
  "room_key i = (if i < 0 then ''-'' @ itoa (nat (- i)) else itoa (nat i))"

definition matches_room :: "int \<Rightarrow> room_detail \<Rightarrow> bool" where
  "matches_room q info \<longleftrightarrow> rd_RoomID info = q \<or> (rd_ShortID info > 0 \<and> rd_ShortID info = q)"

fun first_match :: "int \<Rightarrow> by_room \<Rightarrow> room_detail option" where
  "first_match q [] = None"
| "first_match q ((k, None) # infos) = first_match q infos"
| "first_match q ((k, Some info) # infos) = (if matches_room q info then Some info else first_match q infos)"

definition FindRoomInfo :: "by_room \<Rightarrow> int \<Rightarrow> room_detail option" where
  "FindRoomInfo infos queryID =
    (case map_of infos (room_key queryID) of
       Some (Some info) \<Rightarrow> Some info
     | _ \<Rightarrow> first_match queryID infos)"

definition client_GetLiveRoomInfo :: "room_request \<Rightarrow> int \<Rightarrow> room_error + room_detail" where
  "client_GetLiveRoomInfo request roomID =
    (case GetLiveRoomInfos request [roomID] of
       Inl err \<Rightarrow> Inl err
     | Inr infos \<Rightarrow> (case FindRoomInfo infos roomID of None \<Rightarrow> Inl ErrRoomNotFound | Some info \<Rightarrow> Inr info))"

section \<open>The cache\<close>

record 'v swr_entry =
  se_Value :: 'v
  se_FetchedAt :: int

type_synonym 'v swr_cache = "string \<Rightarrow> 'v swr_entry option"

definition swr_Set :: "int \<Rightarrow> string \<Rightarrow> 'v \<Rightarrow> 'v swr_cache \<Rightarrow> 'v swr_cache" where
  "swr_Set now key v c = c(key \<mapsto> \<lparr>se_Value = v, se_FetchedAt = now\<rparr>)"

definition swr_Get :: "int \<Rightarrow> int \<Rightarrow> string \<Rightarrow> 'v swr_cache \<Rightarrow> ('v \<times> bool) option" where
  "swr_Get softTTL now key c = map_option (\<lambda>e. (se_Value e, now - se_FetchedAt e > softTTL)) (c key)"

definition swr_Delete :: "string \<Rightarrow> 'v swr_cache \<Rightarrow> 'v swr_cache" where
  "swr_Delete key c = c(key := None)"

definition swr_Load :: "int \<Rightarrow> string \<Rightarrow> 'e + 'v \<Rightarrow> 'v swr_cache \<Rightarrow> ('e + 'v) \<times> 'v swr_cache" where
  "swr_Load now key loaded c = (case loaded of Inl err \<Rightarrow> (Inl err, c) | Inr v \<Rightarrow> (Inr v, swr_Set now key v c))"

text \<open>The library drops items whose time is over, or the oldest ones when it is full.\<close>

definition swr_lose :: "string set \<Rightarrow> 'v swr_cache \<Rightarrow> 'v swr_cache" where
  "swr_lose lost c = (\<lambda>k. if k \<in> lost then None else c k)"

section \<open>The room service\<close>

text \<open>The marker of rooms that do not exist, or a pointer, which may be nil.\<close>

datatype cached_room = NotFoundMarker | Pointer "room_detail option"

datatype revalidation = Revalidate int | Revalidate_batch "int list"

record room_svc =
  rs_cache :: "cached_room swr_cache"
  rs_pending :: "revalidation list"

definition roomInfoSoftTTL :: int where "roomInfoSoftTTL = 300 * 1000000000"

definition getFreshRoomInfo :: "room_request \<Rightarrow> int \<Rightarrow> room_error + cached_room" where
  "getFreshRoomInfo request roomID =
    (case client_GetLiveRoomInfo request roomID of
       Inl err \<Rightarrow> if IsErrRoomNotFound err then Inr NotFoundMarker else Inl err
     | Inr info \<Rightarrow> Inr (Pointer (Some info)))"

fun unmark :: "cached_room \<Rightarrow> room_error + room_detail option" where
  "unmark NotFoundMarker = Inl ErrRoomNotFound"
| "unmark (Pointer info) = Inr info"

definition GetLiveRoomInfo :: "int \<Rightarrow> room_request \<Rightarrow> int \<Rightarrow> room_svc \<Rightarrow> (room_error + room_detail option) \<times> room_svc" where
  "GetLiveRoomInfo now request roomID s =
    (let key = room_key roomID in
     case swr_Get roomInfoSoftTTL now key (rs_cache s) of
       Some (info, stale) \<Rightarrow> (unmark info, if stale then s\<lparr>rs_pending := rs_pending s @ [Revalidate roomID]\<rparr> else s)
     | None \<Rightarrow>
         let (r, c) = swr_Load now key (getFreshRoomInfo request roomID) (rs_cache s) in
         ((case r of Inl err \<Rightarrow> Inl err | Inr info \<Rightarrow> unmark info), s\<lparr>rs_cache := c\<rparr>))"

definition InvalidateRooms :: "int list \<Rightarrow> room_svc \<Rightarrow> room_svc" where
  "InvalidateRooms roomIDs s = s\<lparr>rs_cache := fold (\<lambda>i. swr_Delete (room_key i)) roomIDs (rs_cache s)\<rparr>"

text \<open>\<open>LiveStatus\<close> of a nil pointer panics: \<open>None\<close>.\<close>

definition IsRoomLive :: "int \<Rightarrow> room_request \<Rightarrow> int \<Rightarrow> room_svc \<Rightarrow> (room_error + bool) option \<times> room_svc" where
  "IsRoomLive now request roomID s =
    (let (r, s) = GetLiveRoomInfo now request roomID s in
     ((case r of Inl err \<Rightarrow> Some (Inl err) | Inr None \<Rightarrow> None | Inr (Some info) \<Rightarrow> Some (Inr (rd_LiveStatus info = 1))), s))"

fun GetBatchLiveStatus :: "int \<Rightarrow> room_request \<Rightarrow> int list \<Rightarrow> room_svc \<Rightarrow> (string \<Rightarrow> bool option) option \<times> room_svc" where
  "GetBatchLiveStatus now request [] s = (Some (\<lambda>_. None), s)"
| "GetBatchLiveStatus now request (i # ids) s =
    (let (r, s) = IsRoomLive now request i s in
     case r of
       None \<Rightarrow> (None, s)
     | Some live \<Rightarrow>
         let (m, s) = GetBatchLiveStatus now request ids s in
         (map_option (\<lambda>m k. case m k of None \<Rightarrow> if k = room_key i then Some (case live of Inl _ \<Rightarrow> False | Inr b \<Rightarrow> b) else None
           | Some b \<Rightarrow> Some b) m, s))"

text \<open>Batches of 100.\<close>

fun room_batches :: "int list \<Rightarrow> int list list" where
  "room_batches ids = (if ids = [] then [] else take 100 ids # room_batches (drop 100 ids))"

declare room_batches.simps [simp del]

definition mark_missing :: "int \<Rightarrow> by_room \<Rightarrow> int list \<Rightarrow> cached_room swr_cache \<Rightarrow> cached_room swr_cache" where
  "mark_missing now fetched = fold (\<lambda>i c. if map_of fetched (room_key i) = None then swr_Set now (room_key i) NotFoundMarker c else c)"

definition store_fetched :: "int \<Rightarrow> by_room \<Rightarrow> cached_room swr_cache \<Rightarrow> cached_room swr_cache" where
  "store_fetched now = fold (\<lambda>(k, info). swr_Set now k (Pointer info))"

fun store_batches :: "int \<Rightarrow> room_request \<Rightarrow> int list list \<Rightarrow> cached_room swr_cache \<Rightarrow> room_error option \<times> cached_room swr_cache" where
  "store_batches now request [] c = (None, c)"
| "store_batches now request (batch # bs) c =
    (case GetLiveRoomInfos request batch of
       Inl err \<Rightarrow>
         if IsErrRoomNotFound err
         then store_batches now request bs (fold (\<lambda>i. swr_Set now (room_key i) NotFoundMarker) batch c)
         else (Some err, c)
     | Inr fetched \<Rightarrow> store_batches now request bs (mark_missing now fetched batch (store_fetched now fetched c)))"

definition fetchAndStoreRoomInfos :: "int \<Rightarrow> room_request \<Rightarrow> int list \<Rightarrow> room_svc \<Rightarrow> room_error option \<times> room_svc" where
  "fetchAndStoreRoomInfos now request roomIDs s =
    (let (err, c) = store_batches now request (room_batches roomIDs) (rs_cache s) in (err, s\<lparr>rs_cache := c\<rparr>))"

text \<open>What the loops after a fetch read back from the cache.\<close>

definition read_back :: "int list \<Rightarrow> cached_room swr_cache \<Rightarrow> string \<Rightarrow> room_detail option option" where
  "read_back ids c k =
    (if k \<in> room_key ` set ids then
       (case c k of None \<Rightarrow> None | Some e \<Rightarrow> (case se_Value e of NotFoundMarker \<Rightarrow> None | Pointer info \<Rightarrow> Some info))
     else None)"

definition RefreshRoomInfos :: "int \<Rightarrow> room_request \<Rightarrow> string set \<Rightarrow> int list \<Rightarrow> room_svc \<Rightarrow>
    (room_error + (string \<Rightarrow> room_detail option option)) \<times> room_svc" where
  "RefreshRoomInfos now request lost roomIDs s =
    (if roomIDs = [] then (Inr (\<lambda>_. None), s)
     else case fetchAndStoreRoomInfos now request roomIDs s of
       (Some err, s) \<Rightarrow> (Inl err, s)
     | (None, s) \<Rightarrow> let s = s\<lparr>rs_cache := swr_lose lost (rs_cache s)\<rparr> in (Inr (read_back roomIDs (rs_cache s)), s))"

definition missed_rooms :: "cached_room swr_cache \<Rightarrow> int list \<Rightarrow> int list" where
  "missed_rooms c = filter (\<lambda>i. c (room_key i) = None)"

definition stale_rooms :: "int \<Rightarrow> cached_room swr_cache \<Rightarrow> int list \<Rightarrow> int list" where
  "stale_rooms now c = filter (\<lambda>i. case swr_Get roomInfoSoftTTL now (room_key i) c of
     None \<Rightarrow> False | Some (v, stale) \<Rightarrow> v \<noteq> NotFoundMarker \<and> stale)"

definition refreshRoomInfosInBackground :: "int list \<Rightarrow> room_svc \<Rightarrow> room_svc" where
  "refreshRoomInfosInBackground ids s = (if ids = [] then s else s\<lparr>rs_pending := rs_pending s @ [Revalidate_batch ids]\<rparr>)"

definition GetMultipleRoomInfos :: "int \<Rightarrow> room_request \<Rightarrow> string set \<Rightarrow> int list \<Rightarrow> room_svc \<Rightarrow>
    (room_error + (string \<Rightarrow> room_detail option option)) \<times> room_svc" where
  "GetMultipleRoomInfos now request lost roomIDs s =
    (let hits = read_back roomIDs (rs_cache s);
         missed = missed_rooms (rs_cache s) roomIDs;
         stale = stale_rooms now (rs_cache s) roomIDs
     in if missed = [] then (Inr hits, refreshRoomInfosInBackground stale s)
        else case fetchAndStoreRoomInfos now request missed s of
          (Some err, s) \<Rightarrow> (Inl err, s)
        | (None, s) \<Rightarrow>
            let s = s\<lparr>rs_cache := swr_lose lost (rs_cache s)\<rparr> in
            (Inr (hits ++ read_back missed (rs_cache s)), refreshRoomInfosInBackground stale s))"

text \<open>The goroutines, each when it gets to run.\<close>

definition run_revalidation :: "int \<Rightarrow> room_request \<Rightarrow> nat \<Rightarrow> room_svc \<Rightarrow> room_svc" where
  "run_revalidation now request j s =
    (if j < length (rs_pending s) then
       (let t = s\<lparr>rs_pending := take j (rs_pending s) @ drop (Suc j) (rs_pending s)\<rparr> in
        case rs_pending s ! j of
          Revalidate i \<Rightarrow> t\<lparr>rs_cache := snd (swr_Load now (room_key i) (getFreshRoomInfo request i) (rs_cache t))\<rparr>
        | Revalidate_batch ids \<Rightarrow> snd (fetchAndStoreRoomInfos now request ids t))
     else s)"

section \<open>Batches answer like one request\<close>

text \<open>An upstream that answers room by room: a request gets the entries of the rooms it names that exist, or is told that there is
  none.\<close>

definition answers_by_room :: "(string \<Rightarrow> room_detail option) \<Rightarrow> room_request \<Rightarrow> bool" where
  "answers_by_room U request \<longleftrightarrow>
    (\<forall>ids. ids \<noteq> [] \<longrightarrow>
      (case GetLiveRoomInfos request ids of
         Inl err \<Rightarrow> IsErrRoomNotFound err \<and> (\<forall>i \<in> set ids. U (room_key i) = None)
       | Inr infos \<Rightarrow> distinct (map fst infos) \<and>
           map_of infos = (\<lambda>k. if k \<in> room_key ` set ids then map_option Some (U k) else None)))"

definition fresh_entry :: "(string \<Rightarrow> room_detail option) \<Rightarrow> int \<Rightarrow> string \<Rightarrow> cached_room swr_entry" where
  "fresh_entry U now k = \<lparr>se_Value = (case U k of None \<Rightarrow> NotFoundMarker | Some d \<Rightarrow> Pointer (Some d)), se_FetchedAt = now\<rparr>"

lemma store_fetched_apply:
  "distinct (map fst infos) \<Longrightarrow>
    store_fetched now infos c k = (case map_of infos k of None \<Rightarrow> c k | Some i \<Rightarrow> Some \<lparr>se_Value = Pointer i, se_FetchedAt = now\<rparr>)"
proof (induction infos arbitrary: c)
  case (Cons p infos)
  obtain k' i where p: "p = (k', i)" by fastforce
  have "map_of infos k' = None" using Cons.prems p by (simp add: map_of_eq_None_iff)
  then show ?case using Cons by (auto simp: store_fetched_def swr_Set_def p split: option.splits)
qed (simp add: store_fetched_def)

lemma mark_missing_apply:
  "mark_missing now fetched ids c k =
    (if k \<in> room_key ` set ids \<and> map_of fetched k = None then Some \<lparr>se_Value = NotFoundMarker, se_FetchedAt = now\<rparr> else c k)"
  by (induction ids arbitrary: c) (auto simp: mark_missing_def swr_Set_def)

lemma mark_all_apply:
  "fold (\<lambda>i. swr_Set now (room_key i) NotFoundMarker) ids c k =
    (if k \<in> room_key ` set ids then Some \<lparr>se_Value = NotFoundMarker, se_FetchedAt = now\<rparr> else c k)"
  by (induction ids arbitrary: c) (auto simp: swr_Set_def)

lemma answers_refused:
  assumes "answers_by_room U request" "ids \<noteq> []" "GetLiveRoomInfos request ids = Inl err"
  shows "IsErrRoomNotFound err" and "i \<in> set ids \<Longrightarrow> U (room_key i) = None"
  using assms(1)[unfolded answers_by_room_def, rule_format, OF assms(2)] assms(3) by simp_all

lemma answers_given:
  assumes "answers_by_room U request" "ids \<noteq> []" "GetLiveRoomInfos request ids = Inr infos"
  shows "distinct (map fst infos)"
    and "map_of infos = (\<lambda>k. if k \<in> room_key ` set ids then map_option Some (U k) else None)"
  using assms(1)[unfolded answers_by_room_def, rule_format, OF assms(2)] assms(3) by simp_all

lemma store_batch_by_room:
  assumes "answers_by_room U request" "b \<noteq> []"
  shows "store_batches now request (b # bs) c =
    store_batches now request bs (\<lambda>k. if k \<in> room_key ` set b then Some (fresh_entry U now k) else c k)"
proof (cases "GetLiveRoomInfos request b")
  case (Inl err)
  note a = answers_refused [OF assms Inl]
  have "fold (\<lambda>i. swr_Set now (room_key i) NotFoundMarker) b c = (\<lambda>k. if k \<in> room_key ` set b then Some (fresh_entry U now k) else c k)"
    by (rule ext) (auto simp: mark_all_apply fresh_entry_def a(2))
  then show ?thesis by (simp add: Inl a(1))
next
  case (Inr infos)
  note a = answers_given [OF assms Inr]
  have "mark_missing now infos b (store_fetched now infos c) = (\<lambda>k. if k \<in> room_key ` set b then Some (fresh_entry U now k) else c k)"
    by (rule ext) (auto simp: mark_missing_apply store_fetched_apply [OF a(1)] a(2) fresh_entry_def split: option.split)
  then show ?thesis by (simp add: Inr)
qed

lemma store_batches_by_room:
  assumes "answers_by_room U request"
  shows "\<forall>b \<in> set bs. b \<noteq> [] \<Longrightarrow> store_batches now request bs c =
    (None, \<lambda>k. if k \<in> room_key ` set (concat bs) then Some (fresh_entry U now k) else c k)"
proof (induction bs arbitrary: c)
  case (Cons b bs)
  then have "store_batches now request (b # bs) c =
      (None, \<lambda>k. if k \<in> room_key ` set (concat bs) then Some (fresh_entry U now k)
        else if k \<in> room_key ` set b then Some (fresh_entry U now k) else c k)"
    by (simp add: store_batch_by_room [OF assms] del: store_batches.simps)
  then show ?case by (simp add: fun_eq_iff image_Un del: store_batches.simps)
qed simp

lemma room_batches_concat: "concat (room_batches ids) = ids \<and> (\<forall>b \<in> set (room_batches ids). b \<noteq> [] \<and> length b \<le> 100)"
proof (induction ids rule: room_batches.induct)
  case (1 ids)
  then show ?case by (subst (1 2) room_batches.simps) (auto simp: min_def)
qed

lemma fetchAndStore_by_room:
  assumes "answers_by_room U request"
  shows "fetchAndStoreRoomInfos now request ids s =
    (None, s\<lparr>rs_cache := (\<lambda>k. if k \<in> room_key ` set ids then Some (fresh_entry U now k) else rs_cache s k)\<rparr>)"
  using store_batches_by_room [OF assms, of "room_batches ids"] room_batches_concat [of ids]
  by (simp add: fetchAndStoreRoomInfos_def)


section \<open>Short room numbers\<close>

lemma room_key_inject: "room_key i = room_key j \<Longrightarrow> i = j"
proof -
  have d: "itoa n \<noteq> CHR ''-'' # x" for n x
    using itoa_digits [of n] by (auto simp: is_digit_def)
  show "room_key i = room_key j \<Longrightarrow> i = j" using d d [symmetric] by (auto simp: room_key_def split: if_splits)
qed

text \<open>The API files a room that is asked for by its short number under its real one. A single lookup finds it all the same; a
  refresh, which is what the checks of subscriptions use, does not return it and even records that the room does not exist, after
  which the lookup fails too.\<close>

definition answers_short :: "room_request \<Rightarrow> int \<Rightarrow> room_detail \<Rightarrow> bool" where
  "answers_short request q d \<longleftrightarrow>
    GetLiveRoomInfos request [q] = Inr [(room_key (rd_RoomID d), Some d)] \<and> rd_ShortID d = q \<and> 0 < q \<and> rd_RoomID d \<noteq> q"

lemma short_number_key: "answers_short request q d \<Longrightarrow> room_key q \<noteq> room_key (rd_RoomID d)"
  using room_key_inject by (metis answers_short_def)

lemma short_number_found:
  assumes "answers_short request q d" "rs_cache s (room_key q) = None"
  shows "fst (GetLiveRoomInfo now request q s) = Inr (Some d)"
proof -
  have "FindRoomInfo [(room_key (rd_RoomID d), Some d)] q = Some d"
    using short_number_key [OF assms(1)] assms(1) by (simp add: FindRoomInfo_def matches_room_def answers_short_def)
  then show ?thesis
    using assms by (simp add: answers_short_def GetLiveRoomInfo_def swr_Get_def getFreshRoomInfo_def client_GetLiveRoomInfo_def swr_Load_def)
qed

lemma short_number_forgotten:
  assumes "answers_short request q d"
  shows "fst (RefreshRoomInfos now request {} [q] s) = Inr (\<lambda>_. None)"
    and "fst (GetLiveRoomInfo now' request' q (snd (RefreshRoomInfos now request {} [q] s))) = Inl ErrRoomNotFound"
proof -
  have "room_batches [q] = [[q]]" by (simp add: room_batches.simps)
  then have r: "fetchAndStoreRoomInfos now request [q] s = (None, s\<lparr>rs_cache := (rs_cache s)
      (room_key (rd_RoomID d) \<mapsto> \<lparr>se_Value = Pointer (Some d), se_FetchedAt = now\<rparr>, room_key q \<mapsto> \<lparr>se_Value = NotFoundMarker, se_FetchedAt = now\<rparr>)\<rparr>)"
    using assms short_number_key [OF assms]
    by (simp add: answers_short_def fetchAndStoreRoomInfos_def store_fetched_def mark_missing_def swr_Set_def)
  show "fst (RefreshRoomInfos now request {} [q] s) = Inr (\<lambda>_. None)"
    by (simp add: RefreshRoomInfos_def r swr_lose_def read_back_def fun_eq_iff)
  show "fst (GetLiveRoomInfo now' request' q (snd (RefreshRoomInfos now request {} [q] s))) = Inl ErrRoomNotFound"
    by (simp add: RefreshRoomInfos_def r swr_lose_def GetLiveRoomInfo_def swr_Get_def Let_def)
qed

text \<open>A cached value is returned whatever its age, and fetched again behind the answer when it is older than five minutes.\<close>

lemma stale_while_revalidate:
  assumes "rs_cache s (room_key i) = Some \<lparr>se_Value = Pointer info, se_FetchedAt = t\<rparr>"
  shows "GetLiveRoomInfo now request i s =
    (Inr info, if now - t > roomInfoSoftTTL then s\<lparr>rs_pending := rs_pending s @ [Revalidate i]\<rparr> else s)"
  using assms by (simp add: GetLiveRoomInfo_def swr_Get_def)

text \<open>A null entry of the API is cached by the batch, and the check whether that room is live panics.\<close>

lemma null_entry_panics:
  assumes "rs_cache s (room_key i) = Some \<lparr>se_Value = Pointer None, se_FetchedAt = t\<rparr>"
  shows "fst (IsRoomLive now request i s) = None"
  using stale_while_revalidate [OF assms] by (simp add: IsRoomLive_def)

section \<open>Examples\<close>

definition demo_detail :: room_detail where
  "demo_detail = \<lparr>rd_RoomID = 5440, rd_ShortID = 1, rd_LiveStatus = 1\<rparr>"

text \<open>An upstream that knows one room.\<close>

definition demo_api :: room_request where
  "demo_api ids = Some (Some (if 5440 \<in> set ids then \<lparr>lr_Code = 0, lr_Data = Some [(room_key 5440, Some demo_detail)]\<rparr>
     else \<lparr>lr_Code = 1, lr_Data = None\<rparr>))"

definition short_api :: room_request where
  "short_api ids = Some (Some \<lparr>lr_Code = 0, lr_Data = Some [(room_key 5440, Some demo_detail)]\<rparr>)"

lemma demo_api_by_room: "answers_by_room [room_key 5440 \<mapsto> demo_detail] demo_api"
proof -
  have "5440 \<in> set ids \<longleftrightarrow> room_key 5440 \<in> room_key ` set ids" for ids using room_key_inject by blast
  moreover have "i \<in> set ids \<Longrightarrow> room_key i = room_key 5440 \<Longrightarrow> room_key 5440 \<in> room_key ` set ids" for ids i
    by (metis imageI)
  ultimately show ?thesis
    by (auto simp: answers_by_room_def demo_api_def GetLiveRoomInfos_def decodeLiveRoomInfos_def IsErrRoomNotFound_def fun_eq_iff)
qed


lemma short_api_short: "answers_short short_api 1 demo_detail"
  by (simp add: answers_short_def GetLiveRoomInfos_def short_api_def decodeLiveRoomInfos_def demo_detail_def)

end
