(* ===== verification/ListParams.thy ===== *)
theory ListParams
  imports RoomInfo StreamSelect
begin

text \<open>
  Lists in requests (\<open>utils/delimited_list.go\<close>, \<open>utils/room_ids_parser.go\<close>): a JSON body, or a query of values between commas.
  The JSON decoder is a library: a body is blank, no JSON, or the value it decodes to, numbers kept as their text.
\<close>

section \<open>Values\<close>

datatype json_value =
    JV_null | JV_bool bool | JV_number string | JV_string string | JV_array "json_value list" | JV_object "(string \<times> json_value) list"

datatype list_error = Not_json | Missing_content | Missing_query | Bad_value

text \<open>\<open>strconv.Atoi\<close>, and \<open>Int64\<close> of a JSON number.\<close>

definition go_Atoi :: "string \<Rightarrow> int option" where
  "go_Atoi s =
    (let (neg, ds) = (case s of [] \<Rightarrow> (False, []) | c # cs \<Rightarrow>
           if c = CHR ''-'' then (True, cs) else if c = CHR ''+'' then (False, cs) else (False, s));
         v = (if neg then - int (digits_value ds) else int (digits_value ds))
     in if ds = [] \<or> \<not> list_all is_digit ds \<or> v < - (2 ^ 63) \<or> v \<ge> 2 ^ 63 then None else Some v)"

definition SplitAndTrim :: "string \<Rightarrow> string list" where
  "SplitAndTrim s = filter (\<lambda>p. p \<noteq> []) (map TrimSpace (Split (CHR '','') s))"

definition parseIntListItem :: "json_value \<Rightarrow> list_error + int" where
  "parseIntListItem raw =
    (case raw of
       JV_number t \<Rightarrow> (case go_Atoi t of None \<Rightarrow> Inl Bad_value | Some i \<Rightarrow> Inr i)
     | JV_string t \<Rightarrow> (case go_Atoi (TrimSpace t) of None \<Rightarrow> Inl Bad_value | Some i \<Rightarrow> Inr i)
     | _ \<Rightarrow> Inl Bad_value)"

definition parseListItems :: "(json_value \<Rightarrow> list_error + 'a) \<Rightarrow> json_value list \<Rightarrow> list_error + 'a list" where
  "parseListItems parseItem values = MapErr parseItem values"

definition parseListValue :: "(json_value \<Rightarrow> list_error + 'a) \<Rightarrow> json_value \<Rightarrow> list_error + 'a list" where
  "parseListValue parseItem raw =
    (case raw of
       JV_string v \<Rightarrow>
         (let parts = SplitAndTrim v in
          if parts = [] then Inl Missing_query else MapErr parseItem (map JV_string parts))
     | JV_array vs \<Rightarrow> parseListItems parseItem vs
     | v \<Rightarrow> (case parseItem v of Inl e \<Rightarrow> Inl e | Inr x \<Rightarrow> Inr [x]))"

definition parseListFromQuery :: "(json_value \<Rightarrow> list_error + 'a) \<Rightarrow> string \<Rightarrow> list_error + 'a list" where
  "parseListFromQuery parseItem queryValue =
    (let queryValue = TrimSpace queryValue in
     if queryValue = [] then Inl Missing_query
     else case parseListValue parseItem (JV_string queryValue) of
       Inl e \<Rightarrow> Inl e
     | Inr items \<Rightarrow> if items = [] then Inl Missing_query else Inr items)"

section \<open>Bodies\<close>

definition nonempty_items :: "list_error + 'a list \<Rightarrow> list_error + 'a list" where
  "nonempty_items r = (case r of Inl e \<Rightarrow> Inl e | Inr items \<Rightarrow> if items = [] then Inl Missing_content else Inr items)"

text \<open>The first of the keys that the object has.\<close>

fun first_key :: "string list \<Rightarrow> (string \<times> json_value) list \<Rightarrow> json_value option" where
  "first_key [] obj = None"
| "first_key (k # ks) obj = (case map_of obj k of None \<Rightarrow> first_key ks obj | Some raw \<Rightarrow> Some raw)"

text \<open>\<open>None\<close> when the body does not decide: it is blank, or an object without any of the keys.\<close>

definition parseListFromBody :: "(json_value \<Rightarrow> list_error + 'a) \<Rightarrow> string list \<Rightarrow> json_value option option \<Rightarrow> (list_error + 'a list) option" where
  "parseListFromBody parseItem bodyKeys body =
    (case body of
       None \<Rightarrow> None
     | Some None \<Rightarrow> Some (Inl Not_json)
     | Some (Some payload) \<Rightarrow>
         (case payload of
            JV_array vs \<Rightarrow> Some (nonempty_items (parseListItems parseItem vs))
          | JV_object obj \<Rightarrow>
              (case first_key bodyKeys obj of None \<Rightarrow> None | Some raw \<Rightarrow> Some (nonempty_items (parseListValue parseItem raw)))
          | v \<Rightarrow> Some (nonempty_items (parseListValue parseItem v))))"

definition ParseDelimitedList :: "(json_value \<Rightarrow> list_error + 'a) \<Rightarrow> string list \<Rightarrow> string \<Rightarrow> json_value option option \<Rightarrow> list_error + 'a list" where
  "ParseDelimitedList parseItem bodyKeys queryValue body =
    (case parseListFromBody parseItem bodyKeys body of
       Some r \<Rightarrow> r
     | None \<Rightarrow> parseListFromQuery parseItem queryValue)"

definition ParseIntList :: "string list \<Rightarrow> string \<Rightarrow> json_value option option \<Rightarrow> list_error + int list" where
  "ParseIntList bodyKeys queryValue body = ParseDelimitedList parseIntListItem bodyKeys queryValue body"

definition ParseRoomIDs :: "string \<Rightarrow> json_value option option \<Rightarrow> list_error + int list" where
  "ParseRoomIDs queryValue body = ParseIntList [''roomIDs'', ''room_ids'', ''roomIds''] queryValue body"

section \<open>Whatever the form, the numbers come back\<close>

lemma room_key_chars: "c \<in> set (room_key i) \<Longrightarrow> is_digit c \<or> c = CHR ''-''"
  using itoa_digits by (auto simp: room_key_def list_all_iff split: if_splits)

lemma room_key_nonempty [simp]: "room_key i \<noteq> []"
  by (simp add: room_key_def)

lemma TrimSpace_id: "\<forall>c \<in> set s. \<not> is_space c \<Longrightarrow> TrimSpace s = s"
proof -
  assume a: "\<forall>c \<in> set s. \<not> is_space c"
  have "dropWhile is_space t = t" if "set t \<subseteq> set s" for t using a that by (cases t) auto
  then show ?thesis by (simp add: TrimSpace_def)
qed

lemma room_key_no_space: "c \<in> set (room_key i) \<Longrightarrow> \<not> is_space c"
  using room_key_chars [of c i] by (auto simp: is_space_def is_digit_def)

lemma room_key_no_comma: "CHR '','' \<notin> set (room_key i)"
  using room_key_chars [of "CHR '',''" i] by (auto simp: is_digit_def)

lemma TrimSpace_room_key [simp]: "TrimSpace (room_key i) = room_key i"
  by (rule TrimSpace_id) (blast dest: room_key_no_space)

lemma go_Atoi_room_key:
  assumes "- (2 ^ 63) \<le> i" "i < 2 ^ 63"
  shows "go_Atoi (room_key i) = Some i"
proof (cases "i < 0")
  case True
  then show ?thesis using assms itoa_digits [of "nat (- i)"] by (simp add: go_Atoi_def room_key_def Let_def)
next
  case False
  obtain c cs where c: "itoa (nat i) = c # cs" by (cases "itoa (nat i)") auto
  then have "is_digit c" using itoa_digits [of "nat i"] by simp
  then have "c \<noteq> CHR ''-''" "c \<noteq> CHR ''+''" by (auto simp: is_digit_def)
  moreover have "digits_value (c # cs) = nat i" "list_all is_digit (c # cs)"
    using itoa_digits [of "nat i"] digits_value_itoa [of "nat i"] by (simp_all add: c)
  ultimately show ?thesis using assms False c by (simp add: go_Atoi_def room_key_def Let_def)
qed

definition query_list :: "int list \<Rightarrow> string" where
  "query_list ids = JoinStrings (CHR '','') (map room_key ids)"

lemma SplitAndTrim_query_list: "ids \<noteq> [] \<Longrightarrow> SplitAndTrim (query_list ids) = map room_key ids"
  by (simp add: SplitAndTrim_def query_list_def Split_JoinStrings room_key_no_comma comp_def filter_id_conv)

lemma set_JoinStrings: "set (JoinStrings c ps) \<subseteq> insert c (\<Union> (set ` set ps))"
  by (induction c ps rule: JoinStrings.induct) auto

lemma TrimSpace_query_list: "TrimSpace (query_list ids) = query_list ids"
proof (rule TrimSpace_id, rule ballI)
  fix c assume "c \<in> set (query_list ids)"
  then have "c = CHR '','' \<or> (\<exists>i. c \<in> set (room_key i))"
    using set_JoinStrings [of "CHR '',''" "map room_key ids"] by (auto simp: query_list_def)
  then show "\<not> is_space c" by (auto simp: is_space_def dest: room_key_no_space)
qed

lemma MapErr_Inr: "\<forall>x \<in> set xs. f (g x) = Inr x \<Longrightarrow> MapErr f (map g xs) = Inr xs"
  by (induction xs) simp_all

definition int64 :: "int \<Rightarrow> bool" where
  "int64 i \<longleftrightarrow> - (2 ^ 63) \<le> i \<and> i < 2 ^ 63"

lemma parse_items_back:
  assumes "\<forall>i \<in> set ids. int64 i"
  shows "MapErr parseIntListItem (map (\<lambda>i. JV_string (room_key i)) ids) = Inr ids"
    and "MapErr parseIntListItem (map (\<lambda>i. JV_number (room_key i)) ids) = Inr ids"
  using assms by (auto intro!: MapErr_Inr simp: parseIntListItem_def int64_def go_Atoi_room_key)

lemma parseListValue_query_list:
  assumes "ids \<noteq> []" "\<forall>i \<in> set ids. int64 i"
  shows "parseListValue parseIntListItem (JV_string (query_list ids)) = Inr ids"
  using assms parse_items_back(1) [OF assms(2)] by (simp add: parseListValue_def SplitAndTrim_query_list comp_def)

lemma query_list_nonempty: "ids \<noteq> [] \<Longrightarrow> query_list ids \<noteq> []"
  by (cases ids; cases "tl ids") (simp_all add: query_list_def)

text \<open>Room numbers are understood in each of the accepted forms: a query, a JSON array, an object with an array, an object with a
  text, and any of these in a body wins over the query.\<close>

lemma room_ids_roundtrip:
  assumes "ids \<noteq> []" "\<forall>i \<in> set ids. int64 i"
  shows "ParseRoomIDs (query_list ids) None = Inr ids"
    and "ParseRoomIDs q (Some (Some (JV_array (map (\<lambda>i. JV_number (room_key i)) ids)))) = Inr ids"
    and "ParseRoomIDs q (Some (Some (JV_object [(''roomIDs'', JV_array (map (\<lambda>i. JV_number (room_key i)) ids))]))) = Inr ids"
    and "ParseRoomIDs q (Some (Some (JV_object [(''room_ids'', JV_string (query_list ids))]))) = Inr ids"
    and "ParseRoomIDs (query_list ids) (Some (Some (JV_object []))) = Inr ids"
  using assms parse_items_back [OF assms(2)] parseListValue_query_list [OF assms] query_list_nonempty [OF assms(1)]
  by (simp_all add: ParseRoomIDs_def ParseIntList_def ParseDelimitedList_def parseListFromBody_def parseListFromQuery_def
      TrimSpace_query_list parseListItems_def parseListValue_def nonempty_items_def Let_def)

text \<open>An accepted list is never empty, and every number in it fits the machine's integers.\<close>

lemma parsed_ints_fit:
  "MapErr parseIntListItem vs = Inr ids \<Longrightarrow> \<forall>i \<in> set ids. int64 i"
proof (induction vs arbitrary: ids)
  case (Cons v vs)
  then obtain i js where "parseIntListItem v = Inr i" "MapErr parseIntListItem vs = Inr js" "ids = i # js"
    by (auto split: sum.splits)
  moreover from this(1) have "int64 i"
    by (auto simp: parseIntListItem_def go_Atoi_def int64_def Let_def split: json_value.splits option.splits if_splits prod.splits)
  ultimately show ?case using Cons.IH by simp
qed simp

lemma parsed_list_nonempty: "ParseRoomIDs q body = Inr ids \<Longrightarrow> ids \<noteq> []"
  by (auto simp: ParseRoomIDs_def ParseIntList_def ParseDelimitedList_def parseListFromBody_def parseListFromQuery_def nonempty_items_def
      Let_def split: option.splits json_value.splits sum.splits if_splits)

end
