(* ===== verification/RoomRequests.thy ===== *)
theory RoomRequests
  imports ListParams RecorderQueries Subscribe
begin

text \<open>
  The requests on recordings and rooms (\<open>internal/controllers/record\<close>, \<open>internal/controllers/room\<close>): how the parameters of a start
  become options of the recorder (\<open>start_options.go\<close>), and which status answers which outcome. Parsing of bodies and of typed
  query values belongs to the framework; a body that cannot be parsed is \<open>None\<close>.
\<close>

section \<open>Options of a start\<close>

text \<open>\<open>time.Duration(m) * time.Minute\<close> in 64 bits.\<close>

definition minutes_duration :: "int \<Rightarrow> int" where
  "minutes_duration m = sint (word_of_int (m * 60000000000) :: 64 word)"

record RecordStartOptions =
  ro_hasDuration :: bool
  ro_duration :: int
  ro_streamOptions :: "GetStreamURLsOption list"
  ro_recordDanmaku :: bool
  ro_deleteOldestOnLowDisk :: bool

definition newRecordStartOptions :: RecordStartOptions where
  "newRecordStartOptions = \<lparr>ro_hasDuration = False, ro_duration = 0, ro_streamOptions = [], ro_recordDanmaku = False,
     ro_deleteOldestOnLowDisk = False\<rparr>"

datatype RecordStartOption =
    WithDuration int | WithStreamOptions "GetStreamURLsOption list" | WithRecordDanmaku bool | WithDeleteOldestOnLowDisk bool

fun apply_start_option :: "RecordStartOption \<Rightarrow> RecordStartOptions \<Rightarrow> RecordStartOptions" where
  "apply_start_option (WithDuration d) r = r\<lparr>ro_hasDuration := True, ro_duration := d\<rparr>"
| "apply_start_option (WithStreamOptions opts) r = r\<lparr>ro_streamOptions := opts\<rparr>"
| "apply_start_option (WithRecordDanmaku b) r = r\<lparr>ro_recordDanmaku := b\<rparr>"
| "apply_start_option (WithDeleteOldestOnLowDisk b) r = r\<lparr>ro_deleteOldestOnLowDisk := b\<rparr>"

definition start_options :: "RecordStartOption list \<Rightarrow> RecordStartOptions" where
  "start_options options = fold apply_start_option options newRecordStartOptions"

section \<open>Parameters of a start\<close>

record resolvedStartParams =
  rp_durationMinutes :: int
  rp_hasStreamProfile :: bool
  rp_streamProfileRaw :: string
  rp_streamProfilesFromJSON :: "string list option"
  rp_qn :: "int option"
  rp_onlyAudio :: bool
  rp_recordDanmaku :: bool
  rp_deleteOldestOnLowDisk :: bool

definition no_start_params :: resolvedStartParams where
  "no_start_params = \<lparr>rp_durationMinutes = 0, rp_hasStreamProfile = False, rp_streamProfileRaw = [], rp_streamProfilesFromJSON = None,
     rp_qn = None, rp_onlyAudio = False, rp_recordDanmaku = False, rp_deleteOldestOnLowDisk = False\<rparr>"

text \<open>The query: the minutes as the framework reads them, \<open>None\<close> when missing or no number; the others as text, \<open>None\<close> when missing.\<close>

record start_query =
  sq_duration_minutes :: "int option"
  sq_stream_profile :: "string option"
  sq_qn :: "string option"
  sq_only_audio :: "string option"
  sq_record_danmaku :: "string option"
  sq_delete_oldest :: "string option"

text \<open>\<open>strconv.ParseBool\<close>, whose error the callers ignore.\<close>

definition ParseBool :: "string \<Rightarrow> bool" where
  "ParseBool s \<longleftrightarrow> s \<in> {''1'', ''t'', ''T'', ''TRUE'', ''true'', ''True''}"

definition query_bool :: "string option \<Rightarrow> bool" where
  "query_bool v = ParseBool (TrimSpace (ToLower (case v of None \<Rightarrow> ''false'' | Some x \<Rightarrow> x)))"

definition query_text :: "string option \<Rightarrow> string" where
  "query_text v = (case v of None \<Rightarrow> [] | Some x \<Rightarrow> TrimSpace x)"

definition resolvedFromStartRecordingQuery :: "start_query \<Rightarrow> nat + resolvedStartParams" where
  "resolvedFromStartRecordingQuery q =
    (let raw = query_text (sq_stream_profile q);
         p = no_start_params\<lparr>rp_durationMinutes := (case sq_duration_minutes q of None \<Rightarrow> 0 | Some m \<Rightarrow> m),
               rp_streamProfileRaw := raw, rp_hasStreamProfile := raw \<noteq> []\<rparr>;
         qnRaw = query_text (sq_qn q);
         flags = (\<lambda>p. p\<lparr>rp_onlyAudio := query_bool (sq_only_audio q), rp_recordDanmaku := query_bool (sq_record_danmaku q),
               rp_deleteOldestOnLowDisk := query_bool (sq_delete_oldest q)\<rparr>)
     in if qnRaw \<noteq> [] then
          (case go_Atoi qnRaw of None \<Rightarrow> Inl 400 | Some qn \<Rightarrow> Inr (flags (p\<lparr>rp_qn := Some qn\<rparr>)))
        else Inr (flags p))"

record StartRecordingRequest =
  sr_DurationMinutes :: "int option"
  sr_Qn :: "int option"
  sr_OnlyAudio :: "bool option"
  sr_RecordDanmaku :: "bool option"
  sr_StreamProfiles :: "string list option"
  sr_StreamProfile :: "string option"
  sr_DeleteOldestOnLowDisk :: "bool option"

definition resolvedFromStartRecordingRequest :: "StartRecordingRequest \<Rightarrow> resolvedStartParams" where
  "resolvedFromStartRecordingRequest req =
    (let p = \<lparr>rp_durationMinutes = (case sr_DurationMinutes req of None \<Rightarrow> 0 | Some m \<Rightarrow> m), rp_hasStreamProfile = False,
           rp_streamProfileRaw = [], rp_streamProfilesFromJSON = None, rp_qn = sr_Qn req,
           rp_onlyAudio = (sr_OnlyAudio req = Some True), rp_recordDanmaku = (sr_RecordDanmaku req = Some True),
           rp_deleteOldestOnLowDisk = (sr_DeleteOldestOnLowDisk req = Some True)\<rparr>
     in case sr_StreamProfiles req of
          Some ps \<Rightarrow> p\<lparr>rp_hasStreamProfile := True, rp_streamProfilesFromJSON := Some ps\<rparr>
        | None \<Rightarrow>
            (case sr_StreamProfile req of
               Some raw \<Rightarrow> p\<lparr>rp_hasStreamProfile := True, rp_streamProfileRaw := TrimSpace raw\<rparr>
             | None \<Rightarrow> p))"

text \<open>A request has a body, parsed or not, or a query, never both.\<close>

definition parseStartRecordingParams :: "StartRecordingRequest option option \<Rightarrow> start_query \<Rightarrow> nat + resolvedStartParams" where
  "parseStartRecordingParams body q =
    (case body of
       None \<Rightarrow> resolvedFromStartRecordingQuery q
     | Some None \<Rightarrow> Inl 400
     | Some (Some req) \<Rightarrow> Inr (resolvedFromStartRecordingRequest req))"

definition resolved_profiles :: "resolvedStartParams \<Rightarrow> stream_error + string list" where
  "resolved_profiles p =
    (if \<not> rp_hasStreamProfile p then Inr []
     else case rp_streamProfilesFromJSON p of
       Some raw \<Rightarrow> NormalizeStreamProfiles raw
     | None \<Rightarrow> if rp_streamProfileRaw p \<noteq> [] then ParseStreamProfiles (rp_streamProfileRaw p) else Inr [])"

definition recordStartOptionsFromResolved :: "resolvedStartParams \<Rightarrow> nat + RecordStartOption list" where
  "recordStartOptionsFromResolved p =
    (let m = rp_durationMinutes p;
         duration = (if m = -1 then [WithDuration 0] else if m > 0 then [WithDuration (minutes_duration m)] else [])
     in case resolved_profiles p of
          Inl e \<Rightarrow> Inl 400
        | Inr profiles \<Rightarrow>
            Inr (duration @
              [WithStreamOptions ((if profiles \<noteq> [] then [WithProfiles profiles] else []) @
                 (case rp_qn p of None \<Rightarrow> [] | Some qn \<Rightarrow> [WithQn qn]) @ (if rp_onlyAudio p then [WithOnlyAudio True] else []))] @
              (if rp_recordDanmaku p then [WithRecordDanmaku True] else []) @
              (if rp_deleteOldestOnLowDisk p then [WithDeleteOldestOnLowDisk True] else [])))"

section \<open>Starting, stopping\<close>

text \<open>The status for the outcome of \<open>Start\<close>. The cases for errors of the package \<open>bilibili\<close> are never met, as \<open>internalStart\<close>
  wraps these errors in \<open>ErrLiveAPI\<close>; the second case for \<open>ErrEmptyStreamURLs\<close> is behind the first.\<close>

definition start_status :: "rec_error option \<Rightarrow> nat" where
  "start_status err =
    (case err of
       None \<Rightarrow> 200
     | Some e \<Rightarrow>
        (if e \<in> {ErrRoomBanned, ErrRoomEncrypted, ErrEmptyStreamURLs, ErrStreamNotLive, ErrRecordingStarted, ErrRecordRecovering} then 400
         else if e = ErrRecordingPending then 409
         else if e = ErrMaxConcurrentRecordingsReached then 429
         else if e = ErrInsufficientDiskSpace then 507
         else if e = ErrStreamURLsUnreachable then 410
         else 500))"

definition startRecording ::
  "(int \<Rightarrow> RecordStartOptions \<Rightarrow> rec_error option) \<Rightarrow> string \<Rightarrow> StartRecordingRequest option option \<Rightarrow> start_query \<Rightarrow> nat" where
  "startRecording start param body q =
    (case go_Atoi param of
       None \<Rightarrow> 400
     | Some roomId \<Rightarrow>
        (case parseStartRecordingParams body q of
           Inl st \<Rightarrow> st
         | Inr resolved \<Rightarrow>
            (case recordStartOptionsFromResolved resolved of
               Inl st \<Rightarrow> st
             | Inr startArgs \<Rightarrow> start_status (start roomId (start_options startArgs)))))"

text \<open>No negative room is ever recorded.\<close>

definition stopRecording :: "string \<Rightarrow> Service \<Rightarrow> (nat + int \<times> bool) \<times> Service" where
  "stopRecording param w =
    (case go_Atoi param of
       None \<Rightarrow> (Inl 400, w)
     | Some roomId \<Rightarrow>
        if roomId < 0 then (Inr (roomId, False), w)
        else let (stopped, w) = rec_Stop (nat roomId) w in (Inr (roomId, stopped), w))"

definition room_status :: "Service \<Rightarrow> int \<Rightarrow> RecordStatus" where
  "room_status w i = (if i < 0 then Idle else GetStatus w (nat i))"

definition getRecordingStatuses :: "string \<Rightarrow> json_value option option \<Rightarrow> Service \<Rightarrow> nat + (string \<Rightarrow> RecordStatus option)" where
  "getRecordingStatuses queryValue body w =
    (case ParseRoomIDs queryValue body of
       Inl e \<Rightarrow> Inl 400
     | Inr ids \<Rightarrow> Inr (fold (\<lambda>i m. m(room_key i \<mapsto> room_status w i)) ids (\<lambda>_. None)))"

section \<open>Rooms\<close>

text \<open>A nil pointer panics, which the framework answers with 500.\<close>

datatype 'a reply = Body 'a | Failed nat | Panicked

definition lookup_status :: "room_error \<Rightarrow> nat" where
  "lookup_status err = (if IsErrRoomNotFound err then 404 else 500)"

definition getRoomInfo :: "int \<Rightarrow> room_request \<Rightarrow> string \<Rightarrow> room_svc \<Rightarrow> room_detail option reply \<times> room_svc" where
  "getRoomInfo now request param s =
    (case go_Atoi param of
       None \<Rightarrow> (Failed 400, s)
     | Some roomId \<Rightarrow>
        (case GetLiveRoomInfo now request roomId s of
           (Inl err, s) \<Rightarrow> (Failed (lookup_status err), s)
         | (Inr info, s) \<Rightarrow> (Body info, s)))"

definition resolveRoomID :: "int \<Rightarrow> room_request \<Rightarrow> string \<Rightarrow> room_svc \<Rightarrow> (int \<times> int \<times> int) reply \<times> room_svc" where
  "resolveRoomID now request param s =
    (case go_Atoi param of
       None \<Rightarrow> (Failed 400, s)
     | Some roomId \<Rightarrow>
        (case GetLiveRoomInfo now request roomId s of
           (Inl err, s) \<Rightarrow> (Failed (lookup_status err), s)
         | (Inr None, s) \<Rightarrow> (Panicked, s)
         | (Inr (Some info), s) \<Rightarrow> (Body (roomId, rd_RoomID info, rd_ShortID info), s)))"

definition getRoomInfos :: "int \<Rightarrow> room_request \<Rightarrow> string set \<Rightarrow> string \<Rightarrow> json_value option option \<Rightarrow> room_svc \<Rightarrow>
    (string \<Rightarrow> room_detail option option) reply \<times> room_svc" where
  "getRoomInfos now request lost queryValue body s =
    (case ParseRoomIDs queryValue body of
       Inl e \<Rightarrow> (Failed 400, s)
     | Inr ids \<Rightarrow>
        (case GetMultipleRoomInfos now request lost ids s of
           (Inl err, s) \<Rightarrow> (Failed 500, s)
         | (Inr infos, s) \<Rightarrow> (Body infos, s)))"

definition getLiveStatus :: "int \<Rightarrow> room_request \<Rightarrow> string \<Rightarrow> room_svc \<Rightarrow> (int \<times> bool) reply \<times> room_svc" where
  "getLiveStatus now request param s =
    (case go_Atoi param of
       None \<Rightarrow> (Failed 400, s)
     | Some roomId \<Rightarrow>
        (case IsRoomLive now request roomId s of
           (None, s) \<Rightarrow> (Panicked, s)
         | (Some (Inl err), s) \<Rightarrow> (Failed (lookup_status err), s)
         | (Some (Inr isLive), s) \<Rightarrow> (Body (roomId, isLive), s)))"

definition getLiveStatuses :: "int \<Rightarrow> room_request \<Rightarrow> string \<Rightarrow> json_value option option \<Rightarrow> room_svc \<Rightarrow>
    (string \<Rightarrow> bool option) reply \<times> room_svc" where
  "getLiveStatuses now request queryValue body s =
    (case ParseRoomIDs queryValue body of
       Inl e \<Rightarrow> (Failed 400, s)
     | Inr ids \<Rightarrow>
        (case GetBatchLiveStatus now request ids s of
           (None, s) \<Rightarrow> (Panicked, s)
         | (Some m, s) \<Rightarrow> (Body m, s)))"

section \<open>Subscriptions\<close>

text \<open>The subscriptions are modelled for rooms that are natural numbers; the framework's route gives the number.\<close>

definition subscribeRoom :: "int \<Rightarrow> room_request \<Rightarrow> (RoomConfig \<Rightarrow> bytes) \<Rightarrow> bool \<Rightarrow> nat \<Rightarrow> room_svc \<Rightarrow> Subscriptions \<Rightarrow>
    nat \<times> room_svc \<times> Subscriptions" where
  "subscribeRoom now request ser commits roomId rs sb =
    (case GetLiveRoomInfo now request (int roomId) rs of
       (Inl err, rs) \<Rightarrow> (lookup_status err, rs, sb)
     | (Inr info, rs) \<Rightarrow>
        (case sub_Subscribe ser True commits roomId sb of
           (None, sb) \<Rightarrow> (200, rs, sb)
         | (Some e, sb) \<Rightarrow> (if e = ErrRoomAlreadySubscribed then 409 else 500, rs, sb)))"

definition unsubscribeRoom :: "bool \<Rightarrow> nat \<Rightarrow> Subscriptions \<Rightarrow> nat \<times> Subscriptions" where
  "unsubscribeRoom commits roomId sb =
    (case sub_Unsubscribe commits roomId sb of
       (None, sb) \<Rightarrow> (200, sb)
     | (Some e, sb) \<Rightarrow> (if e = ErrRoomNotSubscribed then 404 else 500, sb))"

definition getRoomConfig :: "nat \<Rightarrow> Subscriptions \<Rightarrow> (nat \<times> RoomConfig) reply" where
  "getRoomConfig roomId sb =
    (case sub_GetConfig roomId sb of
       Inl e \<Rightarrow> Failed (if e = ErrRoomNotSubscribed then 404 else 500)
     | Inr cfg \<Rightarrow> Body (roomId, cfg))"

definition updateRoomConfig :: "(RoomConfig \<Rightarrow> bytes option) \<Rightarrow> bool \<Rightarrow> nat \<Rightarrow> RoomConfig option \<Rightarrow> Subscriptions \<Rightarrow>
    (nat \<times> RoomConfig) reply \<times> Subscriptions" where
  "updateRoomConfig ser commits roomId body sb =
    (case body of
       None \<Rightarrow> (Failed 400, sb)
     | Some req \<Rightarrow>
        (case NormalizeStreamProfiles (rc_StreamProfiles req) of
           Inl e \<Rightarrow> (Failed 400, sb)
         | Inr profiles \<Rightarrow>
            let cfg = req\<lparr>rc_StreamProfiles := profiles\<rparr> in
            (case UpdateConfig ser commits roomId (Some cfg) sb of
               (None, sb) \<Rightarrow> (Body (roomId, cfg), sb)
             | (Some e, sb) \<Rightarrow> (Failed (if e = ErrRoomNotSubscribed then 404 else 500), sb))))"

section \<open>What a start means\<close>

text \<open>Within the range that fits, minutes are minutes; beyond it they wrap around, and some numbers become 0, which the recorder
  takes for no limit.\<close>

lemma sint_int64: "- (2 ^ 63) \<le> x \<Longrightarrow> x < 2 ^ 63 \<Longrightarrow> sint (word_of_int x :: 64 word) = x"
  by (subst int_word_sint) (simp add: mod_pos_pos_trivial)

lemma minutes_duration_exact: "0 \<le> m \<Longrightarrow> m \<le> 153722867 \<Longrightarrow> minutes_duration m = m * 60000000000"
  unfolding minutes_duration_def by (rule sint_int64) simp_all

lemma minutes_duration_wraps: "minutes_duration (2 ^ 53) = 0" "minutes_duration 153722868 < 0"
  unfolding minutes_duration_def by (subst int_word_sint; simp)+

text \<open>A start whose API requests fail, because the room does not exist, say, is answered with 500: the error is wrapped.\<close>

lemma api_failure_is_500:
  assumes "sa_cancelled a = False" "sa_disk a" "sa_room a = Inl e"
  shows "\<exists>err. start_connect a = Inl err \<and> start_status (Some err) = 500"
  using assms by (simp add: start_connect_def api_error_def start_status_def)

lemma start_never_404: "start_status err \<noteq> 404"
  by (auto simp: start_status_def split: option.split)

text \<open>What a start asks for is what the recorder gets: -1 minutes is no limit, none or any other number that is not positive
  the default, and up to 153722867 minutes their exact length; the stream options applied to the defaults select the named
  formats, or all of them, the quality and sound only; and the switches are on exactly when asked for.\<close>

lemma start_gets_what_is_asked:
  assumes "recordStartOptionsFromResolved p = Inr args" and "rp_durationMinutes p \<le> 153722867"
  shows "duration_limit (ro_hasDuration (start_options args)) (ro_duration (start_options args)) maxHours =
      (if rp_durationMinutes p = -1 then 0 else if rp_durationMinutes p > 0 then rp_durationMinutes p * 60000000000
       else maxHours * 3600000000000) \<and>
    (\<exists>profiles. resolved_profiles p = Inr profiles \<and>
       fold apply_option (ro_streamOptions (start_options args)) defaultGetStreamURLsOptions =
         \<lparr>so_profiles = (if profiles = [] then so_profiles defaultGetStreamURLsOptions else profiles),
          so_codecs = so_codecs defaultGetStreamURLsOptions,
          so_qn = (case rp_qn p of None \<Rightarrow> so_qn defaultGetStreamURLsOptions | Some qn \<Rightarrow> qn), so_onlyAudio = rp_onlyAudio p\<rparr>) \<and>
    ro_recordDanmaku (start_options args) = rp_recordDanmaku p \<and>
    ro_deleteOldestOnLowDisk (start_options args) = rp_deleteOldestOnLowDisk p"
proof -
  obtain profiles where r: "resolved_profiles p = Inr profiles"
    using assms(1) by (auto simp: recordStartOptionsFromResolved_def Let_def split: sum.splits)
  let ?so = "(if profiles \<noteq> [] then [WithProfiles profiles] else []) @
    (case rp_qn p of None \<Rightarrow> [] | Some qn \<Rightarrow> [WithQn qn]) @ (if rp_onlyAudio p then [WithOnlyAudio True] else [])"
  have o: "start_options args =
      \<lparr>ro_hasDuration = rp_durationMinutes p = -1 \<or> rp_durationMinutes p > 0,
       ro_duration = (if rp_durationMinutes p > 0 then minutes_duration (rp_durationMinutes p) else 0), ro_streamOptions = ?so,
       ro_recordDanmaku = rp_recordDanmaku p, ro_deleteOldestOnLowDisk = rp_deleteOldestOnLowDisk p\<rparr>"
    using assms(1) r by (auto simp: recordStartOptionsFromResolved_def Let_def start_options_def newRecordStartOptions_def)
  have "fold apply_option ?so defaultGetStreamURLsOptions =
      \<lparr>so_profiles = (if profiles = [] then so_profiles defaultGetStreamURLsOptions else profiles),
       so_codecs = so_codecs defaultGetStreamURLsOptions,
       so_qn = (case rp_qn p of None \<Rightarrow> so_qn defaultGetStreamURLsOptions | Some qn \<Rightarrow> qn), so_onlyAudio = rp_onlyAudio p\<rparr>"
    by (auto simp: apply_option_def defaultGetStreamURLsOptions_def split: option.split)
  then show ?thesis using r assms(2) by (simp add: o duration_limit_def minutes_duration_exact)
qed

definition demo_start_params :: resolvedStartParams where
  "demo_start_params = no_start_params\<lparr>rp_durationMinutes := 45, rp_hasStreamProfile := True, rp_streamProfileRaw := ''hls-ts'',
     rp_qn := Some 400\<rparr>"

lemma demo_start_args: "recordStartOptionsFromResolved demo_start_params =
  Inr [WithDuration 2700000000000, WithStreamOptions [WithProfiles [''hls-ts''], WithQn 400]]"
  by code_simp

lemma start_gets_what_is_asked_witness:
  "\<exists>args. recordStartOptionsFromResolved demo_start_params = Inr args \<and>
    duration_limit (ro_hasDuration (start_options args)) (ro_duration (start_options args)) 5 = 2700000000000"
  using start_gets_what_is_asked [OF demo_start_args, of 5] demo_start_args by (auto simp: demo_start_params_def)

section \<open>Settings\<close>

text \<open>Settings that have been accepted are read back with the formats normalised.\<close>

lemma settings_read_back:
  assumes "updateRoomConfig ser commits roomId body sb = (Body (i, cfg), sb')"
  shows "getRoomConfig roomId sb' = Body (roomId, cfg) \<and>
    (\<exists>req. body = Some req \<and> NormalizeStreamProfiles (rc_StreamProfiles req) = Inr (rc_StreamProfiles cfg))"
  using assms
  by (auto simp: updateRoomConfig_def UpdateConfig_def getRoomConfig_def sub_GetConfig_def cloneRoomConfig_def Let_def
      split: option.splits sum.splits if_splits)

text \<open>A room that the API files under another number than the one asked for can be subscribed to by its short number; the
  refresh that the checks of subscriptions start with never returns it, so that it is never announced nor recorded, and records
  that it does not exist, so that lookups fail from then on.\<close>

lemma short_subscription_never_checked:
  assumes "answers_short request (int q) d" and "rs_cache rs (room_key (int q)) = None" and "gm_get (sb_bucket sb) (itoa q) = None"
  shows "\<exists>rs' sb'. subscribeRoom now request ser True q rs sb = (200, rs', sb') \<and> IsSubscribed q sb' \<and>
    fst (RefreshRoomInfos now' request {} [int q] rs') = Inr (\<lambda>_. None) \<and>
    fst (GetLiveRoomInfo now'' request' (int q) (snd (RefreshRoomInfos now' request {} [int q] rs'))) = Inl room_error.ErrRoomNotFound"
proof -
  obtain rs' where "GetLiveRoomInfo now request (int q) rs = (Inr (Some d), rs')"
    using short_number_found [OF assms(1,2), of now] by (cases "GetLiveRoomInfo now request (int q) rs") simp
  then show ?thesis
    using short_number_forgotten [OF assms(1)] assms(3) by (simp add: subscribeRoom_def sub_Subscribe_def IsSubscribed_def)
qed

lemma short_subscription_never_checked_witness:
  "\<exists>rs' sb'. subscribeRoom 9 short_api demo_ser True 1 \<lparr>rs_cache = (\<lambda>_. None), rs_pending = []\<rparr> no_subscriptions = (200, rs', sb') \<and>
    fst (RefreshRoomInfos 10 short_api {} [1] rs') = Inr (\<lambda>_. None)"
proof -
  have "answers_short short_api (int 1) demo_detail" using short_api_short by simp
  moreover have "gm_get (sb_bucket no_subscriptions) (itoa 1) = None" by (simp add: no_subscriptions_def)
  ultimately have "\<exists>rs' sb'. subscribeRoom 9 short_api demo_ser True 1 \<lparr>rs_cache = (\<lambda>_. None), rs_pending = []\<rparr> no_subscriptions = (200, rs', sb') \<and>
      IsSubscribed 1 sb' \<and> fst (RefreshRoomInfos 10 short_api {} [int 1] rs') = Inr (\<lambda>_. None) \<and>
      fst (GetLiveRoomInfo 11 short_api (int 1) (snd (RefreshRoomInfos 10 short_api {} [int 1] rs'))) = Inl room_error.ErrRoomNotFound"
    by (intro short_subscription_never_checked) simp_all
  then show ?thesis by (auto simp only: of_nat_1)
qed

end
