(* ===== verification/Pools.thy ===== *)
theory Pools
  imports "HOL-Library.Word" "HOL-Library.Multiset"
begin

text \<open>
  Pools of buffers (\<open>pkg/pool\<close>): the sizes of buckets, slots that are bounded queues or \<open>sync.Pool\<close>s, the bucketed pool over them,
  and the pair of pools that are created on demand and dropped when idle. A buffer is its identity and capacity; its contents are
  whatever the last user has left. Operations on channels and sections under a mutex are steps, in any order.
\<close>

section \<open>Sizes of buckets\<close>

definition wrap64 :: "int \<Rightarrow> int" where
  "wrap64 x = sint (word_of_int x :: 64 word)"

definition minBucketSize :: int where "minBucketSize = 64 * 1024"
definition maxBucketSize :: int where "maxBucketSize = 4 * 1024 * 1024"
definition bucketAlignBytes :: int where "bucketAlignBytes = 4 * 1024"
definition defaultBucketBase :: int where "defaultBucketBase = 512 * 1024"

definition pool_clamp :: "int \<Rightarrow> int \<Rightarrow> int \<Rightarrow> int" where
  "pool_clamp v minV maxV = (if v < minV then minV else if v > maxV then maxV else v)"

definition pool_align :: "int \<Rightarrow> int \<Rightarrow> int" where
  "pool_align v alignment = (if alignment \<le> 0 then v else if v mod alignment = 0 then v else (v div alignment + 1) * alignment)"

definition computeBucketSizes :: "int \<Rightarrow> int list" where
  "computeBucketSizes base =
    (let base = (if base \<le> 0 then defaultBucketBase else base);
         candidates = [base div 4, base div 2, base, wrap64 (base * 2), wrap64 (base * 4)]
     in sort (remdups (map (\<lambda>c. pool_align (pool_clamp c minBucketSize maxBucketSize) bucketAlignBytes) candidates)))"

fun findBucketIndex :: "int list \<Rightarrow> int \<Rightarrow> nat option" where
  "findBucketIndex [] size' = None"
| "findBucketIndex (b # bs) size' = (if size' \<le> b then Some 0 else map_option Suc (findBucketIndex bs size'))"

lemma align_4096:
  assumes "65536 \<le> v" "v \<le> 4194304" "v mod 4096 \<noteq> (0 :: int)"
  shows "65536 \<le> (v div 4096 + 1) * 4096 \<and> (v div 4096 + 1) * 4096 \<le> 4194304"
proof -
  have v: "v div 4096 * 4096 + v mod 4096 = v" "0 \<le> v mod 4096" "v mod 4096 < 4096" by simp_all
  then have "v div 4096 * 4096 < 1024 * 4096" using assms by linarith
  then have "v div 4096 < 1024" by simp
  moreover have "15 * 4096 < v div 4096 * 4096" using v assms by linarith
  then have "15 < v div 4096" by simp
  ultimately show ?thesis by simp
qed

lemma pool_align_clamp:
  "minBucketSize \<le> pool_align (pool_clamp c minBucketSize maxBucketSize) bucketAlignBytes \<and>
   pool_align (pool_clamp c minBucketSize maxBucketSize) bucketAlignBytes \<le> maxBucketSize \<and>
   pool_align (pool_clamp c minBucketSize maxBucketSize) bucketAlignBytes mod bucketAlignBytes = 0"
proof -
  define v where "v = pool_clamp c minBucketSize maxBucketSize"
  have "65536 \<le> v" "v \<le> 4194304" by (simp_all add: v_def pool_clamp_def minBucketSize_def maxBucketSize_def)
  then show ?thesis
    using align_4096 [of v] unfolding v_def [symmetric]
    by (simp add: pool_align_def bucketAlignBytes_def minBucketSize_def maxBucketSize_def)
qed

lemma bucket_sizes:
  "sorted (computeBucketSizes base) \<and> distinct (computeBucketSizes base) \<and> computeBucketSizes base \<noteq> [] \<and>
    (\<forall>b \<in> set (computeBucketSizes base). minBucketSize \<le> b \<and> b \<le> maxBucketSize \<and> b mod bucketAlignBytes = 0)"
proof -
  have "\<exists>xs. computeBucketSizes base = sort (remdups (map (\<lambda>c. pool_align (pool_clamp c minBucketSize maxBucketSize) bucketAlignBytes) xs)) \<and> xs \<noteq> []"
    unfolding computeBucketSizes_def Let_def by blast
  then obtain xs where x: "computeBucketSizes base = sort (remdups (map (\<lambda>c. pool_align (pool_clamp c minBucketSize maxBucketSize) bucketAlignBytes) xs))" "xs \<noteq> []"
    by blast
  have "sort (remdups ys) \<noteq> []" if "ys \<noteq> []" for ys :: "int list"
    using that by (metis set_empty set_remdups set_sort)
  then show ?thesis using x(2) pool_align_clamp unfolding x(1) by auto
qed

lemma findBucketIndex_smallest:
  "sorted bs \<Longrightarrow> findBucketIndex bs n = Some i \<Longrightarrow> i < length bs \<and> n \<le> bs ! i \<and> (\<forall>j < i. bs ! j < n)"
proof (induction bs arbitrary: i)
  case (Cons b bs)
  show ?case
  proof (cases "n \<le> b")
    case False
    then obtain j where "findBucketIndex bs n = Some j" "i = Suc j" using Cons.prems(2) by auto
    then show ?thesis using Cons False by (auto simp: less_Suc_eq_0_disj)
  qed (use Cons.prems in auto)
qed simp

lemma findBucketIndex_none: "findBucketIndex bs n = None \<longleftrightarrow> (\<forall>b \<in> set bs. b < n)"
  by (induction bs) auto

section \<open>Slots\<close>

record buffer =
  bu_id :: nat
  bu_cap :: int

record pool_slot =
  ps_bounded :: bool
  ps_capacity :: nat
  ps_items :: "buffer list"

definition boundableCapacity :: "int \<Rightarrow> nat" where
  "boundableCapacity capacity = (if capacity \<le> 0 then 4 else nat capacity)"

text \<open>A bounded slot gives its oldest item. A soft one gives any item or a new one, and may lose items at any time.\<close>

definition slot_take :: "nat option \<Rightarrow> pool_slot \<Rightarrow> (buffer option \<times> pool_slot)" where
  "slot_take pick s =
    (if ps_bounded s then
       (case ps_items s of [] \<Rightarrow> (None, s) | b # bs \<Rightarrow> (Some b, s\<lparr>ps_items := bs\<rparr>))
     else case pick of
       None \<Rightarrow> (None, s)
     | Some i \<Rightarrow>
         if i < length (ps_items s)
         then (Some (ps_items s ! i), s\<lparr>ps_items := take i (ps_items s) @ drop (Suc i) (ps_items s)\<rparr>)
         else (None, s))"

definition slot_put :: "buffer \<Rightarrow> pool_slot \<Rightarrow> pool_slot" where
  "slot_put b s =
    (if ps_bounded s \<and> length (ps_items s) \<ge> ps_capacity s then s else s\<lparr>ps_items := ps_items s @ [b]\<rparr>)"

definition slot_queued :: "pool_slot \<Rightarrow> nat" where
  "slot_queued s = (if ps_bounded s then length (ps_items s) else 0)"

section \<open>The bucketed pool\<close>

text \<open>\<open>bp_leased\<close> are the buffers that users hold, \<open>bp_putting\<close> those whose \<open>Put\<close> has passed the check of retained bytes and not
  yet queued them. Buffers for sizes above the largest bucket are allocated and never come back.\<close>

record bucket_pool =
  bp_sizes :: "int list"
  bp_slots :: "pool_slot list"
  bp_maxRetained :: int
  bp_next :: nat
  bp_leased :: "buffer list"
  bp_putting :: "(nat \<times> buffer) list"
  bp_hits :: nat
  bp_misses :: nat
  bp_oversized :: nat

definition NewBucketedBytesPool :: "int \<Rightarrow> bool \<Rightarrow> int \<Rightarrow> int \<Rightarrow> bucket_pool" where
  "NewBucketedBytesPool base bounded capacity maxRetained =
    (let sizes = computeBucketSizes base in
     \<lparr>bp_sizes = sizes,
      bp_slots = map (\<lambda>_. \<lparr>ps_bounded = bounded, ps_capacity = boundableCapacity capacity, ps_items = []\<rparr>) sizes,
      bp_maxRetained = maxRetained, bp_next = 0, bp_leased = [], bp_putting = [], bp_hits = 0, bp_misses = 0, bp_oversized = 0\<rparr>)"

definition retainedBytes :: "bucket_pool \<Rightarrow> int" where
  "retainedBytes p = sum_list (map2 (\<lambda>s b. int (slot_queued s) * b) (bp_slots p) (bp_sizes p))"

text \<open>The length of the slice that is given, with its buffer unless the slice is empty.\<close>

definition bucket_GetSized :: "nat option \<Rightarrow> int \<Rightarrow> bucket_pool \<Rightarrow> (int \<times> buffer option) \<times> bucket_pool" where
  "bucket_GetSized pick n p =
    (if n \<le> 0 then ((0, None), p)
     else case findBucketIndex (bp_sizes p) n of
       None \<Rightarrow>
         (let b = \<lparr>bu_id = bp_next p, bu_cap = n\<rparr> in
          ((n, Some b), p\<lparr>bp_oversized := bp_oversized p + 1, bp_next := bp_next p + 1, bp_leased := bp_leased p @ [b]\<rparr>))
     | Some i \<Rightarrow>
         (let p = p\<lparr>bp_hits := bp_hits p + 1\<rparr> in
          case slot_take pick (bp_slots p ! i) of
            (Some b, s) \<Rightarrow> ((n, Some b), p\<lparr>bp_slots := (bp_slots p)[i := s], bp_leased := bp_leased p @ [b]\<rparr>)
          | (None, s) \<Rightarrow>
              (let b = \<lparr>bu_id = bp_next p, bu_cap = bp_sizes p ! i\<rparr> in
               ((n, Some b), p\<lparr>bp_slots := (bp_slots p)[i := s], bp_next := bp_next p + 1, bp_leased := bp_leased p @ [b]\<rparr>))))"

fun bucket_of :: "int list \<Rightarrow> int \<Rightarrow> nat option" where
  "bucket_of [] c = None"
| "bucket_of (b # bs) c = (if c = b then Some 0 else map_option Suc (bucket_of bs c))"

text \<open>\<open>Put\<close> of the \<open>j\<close>th leased buffer: first the check, then the queue.\<close>

definition bucket_Put_check :: "nat \<Rightarrow> bucket_pool \<Rightarrow> bucket_pool" where
  "bucket_Put_check j p =
    (let b = bp_leased p ! j; p = p\<lparr>bp_leased := take j (bp_leased p) @ drop (Suc j) (bp_leased p)\<rparr> in
     case bucket_of (bp_sizes p) (bu_cap b) of
       None \<Rightarrow> p\<lparr>bp_misses := bp_misses p + 1\<rparr>
     | Some i \<Rightarrow>
         if bp_maxRetained p > 0 \<and> retainedBytes p + bp_sizes p ! i > bp_maxRetained p then p\<lparr>bp_misses := bp_misses p + 1\<rparr>
         else p\<lparr>bp_putting := bp_putting p @ [(i, b)]\<rparr>)"

definition bucket_Put_queue :: "nat \<Rightarrow> bucket_pool \<Rightarrow> bucket_pool" where
  "bucket_Put_queue k p =
    (let (i, b) = bp_putting p ! k in
     p\<lparr>bp_putting := take k (bp_putting p) @ drop (Suc k) (bp_putting p), bp_slots := (bp_slots p)[i := slot_put b (bp_slots p ! i)]\<rparr>)"

inductive bucket_step :: "bucket_pool \<Rightarrow> bucket_pool \<Rightarrow> bool" where
  gets: "bucket_step p (snd (bucket_GetSized pick n p))"
| checks: "j < length (bp_leased p) \<Longrightarrow> bucket_step p (bucket_Put_check j p)"
| queues: "k < length (bp_putting p) \<Longrightarrow> bucket_step p (bucket_Put_queue k p)"

inductive bucket_reach :: "bucket_pool \<Rightarrow> bool" where
  new: "bucket_reach (NewBucketedBytesPool base bounded capacity maxRetained)"
| step: "bucket_reach p \<Longrightarrow> bucket_step p q \<Longrightarrow> bucket_reach q"

section \<open>No buffer has two holders\<close>

definition slot_ids :: "pool_slot list \<Rightarrow> nat multiset" where
  "slot_ids ss = mset (map bu_id (concat (map ps_items ss)))"

definition pool_held :: "bucket_pool \<Rightarrow> nat multiset" where
  "pool_held p = slot_ids (bp_slots p) + mset (map bu_id (bp_leased p)) + mset (map (bu_id \<circ> snd) (bp_putting p))"

definition ids_inv :: "bucket_pool \<Rightarrow> bool" where
  "ids_inv p \<longleftrightarrow> (\<forall>x. count (pool_held p) x \<le> 1) \<and> (\<forall>x \<ge> bp_next p. count (pool_held p) x = 0)"

definition putting_ok :: "int list \<Rightarrow> (nat \<times> buffer) list \<Rightarrow> bool" where
  "putting_ok sizes ps \<longleftrightarrow> (\<forall>x \<in> set ps. fst x < length sizes \<and> bu_cap (snd x) = sizes ! fst x)"

definition caps_inv :: "bucket_pool \<Rightarrow> bool" where
  "caps_inv p \<longleftrightarrow> length (bp_slots p) = length (bp_sizes p) \<and> sorted (bp_sizes p) \<and>
    (\<forall>i < length (bp_sizes p). \<forall>b \<in> set (ps_items (bp_slots p ! i)). bu_cap b = bp_sizes p ! i) \<and>
    putting_ok (bp_sizes p) (bp_putting p)"

lemma slot_ids_update:
  "i < length ss \<Longrightarrow> slot_ids (ss[i := s]) + mset (map bu_id (ps_items (ss ! i))) = slot_ids ss + mset (map bu_id (ps_items s))"
proof (induction ss arbitrary: i)
  case (Cons t ss)
  then show ?case by (cases i) (simp_all add: slot_ids_def)
qed simp

lemma mset_drop_nth: "i < length xs \<Longrightarrow> add_mset (f (xs ! i)) (mset (map f (take i xs @ drop (Suc i) xs))) = mset (map f xs)"
proof -
  assume "i < length xs"
  then have "xs = take i xs @ xs ! i # drop (Suc i) xs" by (rule id_take_nth_drop)
  then have "mset (map f xs) = mset (map f (take i xs @ xs ! i # drop (Suc i) xs))" by simp
  then show ?thesis by simp
qed

lemma slot_take_ids:
  "slot_take pick s = (r, t) \<Longrightarrow>
    mset (map bu_id (ps_items s)) = mset (map bu_id (ps_items t)) + (case r of None \<Rightarrow> {#} | Some b \<Rightarrow> {#bu_id b#})"
  using mset_drop_nth [of _ "ps_items s" bu_id] by (auto simp: slot_take_def split: if_splits list.splits option.splits)

lemma slot_take_items:
  "slot_take pick s = (r, t) \<Longrightarrow> set (ps_items t) \<subseteq> set (ps_items s) \<and> (\<forall>b. r = Some b \<longrightarrow> b \<in> set (ps_items s))"
  by (auto simp: slot_take_def dest: in_set_takeD in_set_dropD split: if_splits list.splits option.splits)

lemma bucket_of_nth: "bucket_of bs c = Some i \<Longrightarrow> i < length bs \<and> bs ! i = c"
  by (induction bs arbitrary: i) (auto split: if_splits)

lemma bucket_GetSized_shape:
  assumes "bucket_GetSized pick n p = ((m, r), q)" "caps_inv p" "0 < n"
  shows "m = n \<and> (\<exists>b. r = Some b \<and> n \<le> bu_cap b \<and> bp_leased q = bp_leased p @ [b] \<and>
      bu_cap b = (case findBucketIndex (bp_sizes p) n of None \<Rightarrow> n | Some i \<Rightarrow> bp_sizes p ! i) \<and>
      bp_putting q = bp_putting p \<and> bp_sizes q = bp_sizes p \<and>
      ((bu_id b = bp_next p \<and> bp_next q = bp_next p + 1 \<and> slot_ids (bp_slots q) = slot_ids (bp_slots p)) \<or>
       (bp_next q = bp_next p \<and> slot_ids (bp_slots p) = add_mset (bu_id b) (slot_ids (bp_slots q))))) \<and> caps_inv q"
proof (cases "findBucketIndex (bp_sizes p) n")
  case None
  then show ?thesis using assms by (auto simp: bucket_GetSized_def caps_inv_def Let_def)
next
  case (Some i)
  note f = findBucketIndex_smallest [OF _ Some]
  have i: "i < length (bp_slots p)" "n \<le> bp_sizes p ! i" using f assms(2) by (simp_all add: caps_inv_def)
  obtain r' s where t: "slot_take pick (bp_slots p ! i) = (r', s)" by fastforce
  note ids = slot_ids_update [OF i(1), of s] slot_take_ids [OF t] and items = slot_take_items [OF t]
  have caps: "\<forall>j < length (bp_slots p). \<forall>b \<in> set (ps_items ((bp_slots p)[i := s] ! j)). bu_cap b = bp_sizes p ! j"
    using assms(2) items i(1) by (auto simp: caps_inv_def nth_list_update)
  show ?thesis
  proof (cases r')
    case None
    then have "slot_ids ((bp_slots p)[i := s]) = slot_ids (bp_slots p)" using ids by simp
    then show ?thesis using assms Some t None caps i by (auto simp: bucket_GetSized_def caps_inv_def Let_def)
  next
    case (Some b)
    then have "slot_ids (bp_slots p) = add_mset (bu_id b) (slot_ids ((bp_slots p)[i := s]))" using ids by simp
    moreover have "bu_cap b = bp_sizes p ! i" using items Some assms(2) i(1) by (auto simp: caps_inv_def)
    ultimately show ?thesis
      using assms \<open>findBucketIndex (bp_sizes p) n = Some i\<close> t Some caps i by (auto simp: bucket_GetSized_def caps_inv_def Let_def)
  qed
qed

lemma bucket_inv_gets:
  assumes "caps_inv p" "ids_inv p"
  shows "caps_inv (snd (bucket_GetSized pick n p)) \<and> ids_inv (snd (bucket_GetSized pick n p))"
proof (cases "0 < n")
  case True
  obtain m r q where g: "bucket_GetSized pick n p = ((m, r), q)" by (metis prod.exhaust)
  note s = bucket_GetSized_shape [OF g assms(1) True]
  then obtain b where b: "bp_leased q = bp_leased p @ [b]" "bp_putting q = bp_putting p"
    and d: "(bu_id b = bp_next p \<and> bp_next q = bp_next p + 1 \<and> slot_ids (bp_slots q) = slot_ids (bp_slots p)) \<or>
       (bp_next q = bp_next p \<and> slot_ids (bp_slots p) = add_mset (bu_id b) (slot_ids (bp_slots q)))" by blast
  from d have "ids_inv q"
  proof
    assume a: "bu_id b = bp_next p \<and> bp_next q = bp_next p + 1 \<and> slot_ids (bp_slots q) = slot_ids (bp_slots p)"
    then have "pool_held q = add_mset (bp_next p) (pool_held p)" by (simp add: pool_held_def b)
    moreover have "count (pool_held p) (bp_next p) = 0" using assms(2) by (simp add: ids_inv_def)
    ultimately show ?thesis using assms(2) a by (simp add: ids_inv_def)
  next
    assume a: "bp_next q = bp_next p \<and> slot_ids (bp_slots p) = add_mset (bu_id b) (slot_ids (bp_slots q))"
    then have "pool_held q = pool_held p" by (simp add: pool_held_def b)
    then show ?thesis using assms(2) a by (simp add: ids_inv_def)
  qed
  then show ?thesis using s g by simp
next
  case False
  then show ?thesis using assms by (simp add: bucket_GetSized_def)
qed

lemma ids_inv_less: "ids_inv p \<Longrightarrow> pool_held q \<subseteq># pool_held p \<Longrightarrow> bp_next q = bp_next p \<Longrightarrow> ids_inv q"
  unfolding ids_inv_def subseteq_mset_def by (metis le_zero_eq order_trans)

lemma caps_inv_putting: "caps_inv p \<Longrightarrow> set ps \<subseteq> set (bp_putting p) \<Longrightarrow> caps_inv (p\<lparr>bp_putting := ps\<rparr>)"
  by (simp add: caps_inv_def putting_ok_def subset_eq)

lemma caps_inv_slot:
  "caps_inv p \<Longrightarrow> i < length (bp_slots p) \<Longrightarrow> \<forall>b \<in> set (ps_items s). bu_cap b = bp_sizes p ! i \<Longrightarrow>
    caps_inv (p\<lparr>bp_slots := (bp_slots p)[i := s]\<rparr>)"
  by (simp add: caps_inv_def nth_list_update)

lemma bucket_inv_checks:
  assumes "caps_inv p" "ids_inv p" "j < length (bp_leased p)"
  shows "caps_inv (bucket_Put_check j p) \<and> ids_inv (bucket_Put_check j p)"
proof -
  note m = mset_drop_nth [OF assms(3), of bu_id]
  have "caps_inv (bucket_Put_check j p)"
    using assms(1) by (auto simp: bucket_Put_check_def caps_inv_def putting_ok_def Let_def dest!: bucket_of_nth split: option.split)
  moreover have "pool_held (bucket_Put_check j p) \<subseteq># pool_held p" "bp_next (bucket_Put_check j p) = bp_next p"
    using m [symmetric] by (auto simp: bucket_Put_check_def pool_held_def Let_def split: option.split)
  ultimately show ?thesis using ids_inv_less [OF assms(2)] by blast
qed

lemma bucket_inv_queues:
  assumes "caps_inv p" "ids_inv p" "k < length (bp_putting p)"
  shows "caps_inv (bucket_Put_queue k p) \<and> ids_inv (bucket_Put_queue k p)"
proof -
  obtain i b where k: "bp_putting p ! k = (i, b)" by fastforce
  then have i: "i < length (bp_slots p)" "bu_cap b = bp_sizes p ! i"
    using assms(1) nth_mem [OF assms(3)] by (auto simp: caps_inv_def putting_ok_def)
  note m = mset_drop_nth [OF assms(3), of "bu_id \<circ> snd"] and u = slot_ids_update [OF i(1), of "slot_put b (bp_slots p ! i)"]
  have "set (take k (bp_putting p) @ drop (Suc k) (bp_putting p)) \<subseteq> set (bp_putting p)"
    by (auto dest: in_set_takeD in_set_dropD)
  note c = caps_inv_putting [OF assms(1) this]
  have "\<forall>x \<in> set (ps_items (slot_put b (bp_slots p ! i))). bu_cap x = bp_sizes p ! i"
    using assms(1) i by (auto simp: caps_inv_def slot_put_def)
  then have "caps_inv (bucket_Put_queue k p)"
    using caps_inv_slot [OF c, of i "slot_put b (bp_slots p ! i)"] i(1) by (simp add: bucket_Put_queue_def k)
  moreover have "slot_ids ((bp_slots p)[i := slot_put b (bp_slots p ! i)]) \<subseteq># add_mset (bu_id b) (slot_ids (bp_slots p))"
    using u by (auto simp: slot_put_def split: if_splits)
  then have "pool_held (bucket_Put_queue k p) \<subseteq># pool_held p"
    using m [symmetric] k by (simp add: bucket_Put_queue_def pool_held_def)
  moreover have "bp_next (bucket_Put_queue k p) = bp_next p" by (simp add: bucket_Put_queue_def k)
  ultimately show ?thesis using ids_inv_less [OF assms(2)] by blast
qed

lemma concat_map_nil: "concat (map (\<lambda>_. []) xs) = []"
  by (induction xs) simp_all

lemma bucket_reach_inv: "bucket_reach p \<Longrightarrow> caps_inv p \<and> ids_inv p"
proof (induction rule: bucket_reach.induct)
  case (new base bounded capacity maxRetained)
  show ?case using bucket_sizes [of base]
    by (simp add: concat_map_nil caps_inv_def putting_ok_def ids_inv_def pool_held_def slot_ids_def NewBucketedBytesPool_def Let_def comp_def)
next
  case (step p q)
  from step(2) show ?case using step.IH bucket_inv_gets bucket_inv_checks bucket_inv_queues by cases auto
qed


lemma default_bucket_sizes: "computeBucketSizes 0 = [131072, 262144, 524288, 1048576, 2097152]"
  by code_simp


section \<open>Pools on demand\<close>

text \<open>A tier holds a pool, named by the generation that made it, counts its leases, and may have a timer.\<close>

record pool_tier =
  pt_pool :: "nat option"
  pt_ref :: nat
  pt_lastUsed :: "int option"
  pt_timer :: "int option"

definition empty_tier :: pool_tier where
  "empty_tier = \<lparr>pt_pool = None, pt_ref = 0, pt_lastUsed = None, pt_timer = None\<rparr>"

definition ensureTier :: "nat \<Rightarrow> pool_tier \<Rightarrow> pool_tier" where
  "ensureTier g t = (case pt_pool t of None \<Rightarrow> t\<lparr>pt_pool := Some g\<rparr> | Some p \<Rightarrow> t)"

definition stopCleanupTimer :: "pool_tier \<Rightarrow> pool_tier" where
  "stopCleanupTimer t = t\<lparr>pt_timer := None\<rparr>"

definition scheduleCleanup :: "int \<Rightarrow> int \<Rightarrow> pool_tier \<Rightarrow> pool_tier" where
  "scheduleCleanup now delay t = (stopCleanupTimer t)\<lparr>pt_timer := Some (now + (if delay < 0 then 0 else delay))\<rparr>"

definition tier_acquire :: "nat \<Rightarrow> int \<Rightarrow> pool_tier \<Rightarrow> pool_tier" where
  "tier_acquire g now t =
    (let t = ensureTier g t in stopCleanupTimer (t\<lparr>pt_ref := pt_ref t + 1, pt_lastUsed := Some now\<rparr>))"

definition tier_release :: "int \<Rightarrow> int \<Rightarrow> pool_tier \<Rightarrow> pool_tier" where
  "tier_release ttl now t =
    (let t = (if pt_ref t > 0 then t\<lparr>pt_ref := pt_ref t - 1\<rparr> else t); t = t\<lparr>pt_lastUsed := Some now\<rparr>
     in if pt_ref t = 0 then scheduleCleanup now ttl t else t)"

definition tryCleanupTier :: "int \<Rightarrow> int \<Rightarrow> pool_tier \<Rightarrow> pool_tier" where
  "tryCleanupTier ttl now t =
    (case pt_lastUsed t of
       None \<Rightarrow> t
     | Some u \<Rightarrow>
         if pt_pool t = None \<or> pt_ref t > 0 then t
         else if now - u < ttl then scheduleCleanup now (ttl - (now - u)) t
         else (stopCleanupTimer t)\<lparr>pt_pool := None\<rparr>)"

text \<open>A tier with its users: \<open>tr_leases\<close> lists the pools that are out on lease, \<open>tr_stale\<close> are callbacks of timers that were stopped too late
  and still wait for the mutex. Every lease is released once.\<close>

record tier_run =
  tr_tier :: pool_tier
  tr_leases :: "nat list"
  tr_gen :: nat
  tr_now :: int

inductive tier_step :: "int \<Rightarrow> tier_run \<Rightarrow> tier_run \<Rightarrow> bool" for ttl where
  time: "tr_now r \<le> n \<Longrightarrow> tier_step ttl r (r\<lparr>tr_now := n\<rparr>)"
| acquire: "t = tier_acquire (tr_gen r) (tr_now r) (tr_tier r) \<Longrightarrow>
    tier_step ttl r (r\<lparr>tr_tier := t, tr_leases := tr_leases r @ [the (pt_pool t)], tr_gen := tr_gen r + 1\<rparr>)"
| release: "i < length (tr_leases r) \<Longrightarrow>
    tier_step ttl r (r\<lparr>tr_tier := tier_release ttl (tr_now r) (tr_tier r), tr_leases := take i (tr_leases r) @ drop (Suc i) (tr_leases r)\<rparr>)"
| fires: "tier_step ttl r (r\<lparr>tr_tier := tryCleanupTier ttl (tr_now r) (tr_tier r)\<rparr>)"

inductive tier_reach :: "int \<Rightarrow> tier_run \<Rightarrow> bool" for ttl where
  new: "tier_reach ttl \<lparr>tr_tier = empty_tier, tr_leases = [], tr_gen = 0, tr_now = n\<rparr>"
| step: "tier_reach ttl r \<Longrightarrow> tier_step ttl r s \<Longrightarrow> tier_reach ttl s"

text \<open>All leases are of the pool that the tier holds, which therefore stays while one is out; and an idle tier has a timer that
  drops its pool one idle period after its last use.\<close>

definition tier_inv :: "int \<Rightarrow> tier_run \<Rightarrow> bool" where
  "tier_inv ttl r \<longleftrightarrow>
    pt_ref (tr_tier r) = length (tr_leases r) \<and> (\<forall>p \<in> set (tr_leases r). pt_pool (tr_tier r) = Some p) \<and>
    (pt_pool (tr_tier r) \<noteq> None \<longrightarrow> pt_lastUsed (tr_tier r) \<noteq> None) \<and>
    (case pt_lastUsed (tr_tier r) of None \<Rightarrow> True | Some u \<Rightarrow>
       u \<le> tr_now r \<and> (pt_pool (tr_tier r) \<noteq> None \<longrightarrow> tr_leases r = [] \<longrightarrow> pt_timer (tr_tier r) = Some (u + ttl)))"

lemmas tier_defs = tier_acquire_def tier_release_def tryCleanupTier_def scheduleCleanup_def stopCleanupTimer_def ensureTier_def Let_def

lemma tier_inv_step:
  assumes "tier_step ttl r s" "tier_inv ttl r" "0 \<le> ttl"
  shows "tier_inv ttl s"
  using assms(1)
proof cases
  case (release i)
  then have "set (take i (tr_leases r) @ drop (Suc i) (tr_leases r)) \<subseteq> set (tr_leases r)"
    by (auto dest: in_set_takeD in_set_dropD)
  moreover have "length (take i (tr_leases r) @ drop (Suc i) (tr_leases r)) = length (tr_leases r) - 1" using release by simp
  ultimately show ?thesis using assms(2,3) release
    by (auto simp: tier_inv_def tier_defs split: option.splits simp del: length_append)
next
  case fires
  moreover have "tr_leases r \<noteq> [] \<Longrightarrow> pt_pool (tr_tier r) \<noteq> None"
    using assms(2) by (cases "tr_leases r") (auto simp: tier_inv_def)
  ultimately show ?thesis using assms(2,3) by (auto simp: tier_inv_def tier_defs split: option.splits)
qed (use assms(2,3) in \<open>auto simp: tier_inv_def tier_defs split: option.splits\<close>)

lemma tier_reach_inv: "tier_reach ttl r \<Longrightarrow> 0 \<le> ttl \<Longrightarrow> tier_inv ttl r"
proof (induction rule: tier_reach.induct)
  case (new n)
  then show ?case by (simp add: tier_inv_def empty_tier_def)
qed (use tier_inv_step in blast)

lemma leased_pool_stays:
  assumes "tier_reach ttl r" "0 \<le> ttl" "p \<in> set (tr_leases r)"
  shows "pt_pool (tryCleanupTier ttl now (tr_tier r)) = Some p"
proof -
  have "pt_pool (tr_tier r) = Some p" "pt_ref (tr_tier r) > 0"
    using tier_reach_inv [OF assms(1,2)] assms(3) by (auto simp: tier_inv_def)
  then show ?thesis by (simp add: tryCleanupTier_def split: option.split)
qed

lemma idle_pool_dropped:
  assumes "tier_reach ttl r" "0 \<le> ttl" "tr_leases r = []" "pt_timer (tr_tier r) = Some d" "d \<le> now" "pt_pool (tr_tier r) \<noteq> None"
  shows "pt_pool (tryCleanupTier ttl now (tr_tier r)) = None"
  using tier_reach_inv [OF assms(1,2)] assms(3-6) by (auto simp: tier_inv_def tier_defs split: option.splits)

text \<open>A tier whose pool only \<open>Default\<close> has made, without a lease, is never dropped.\<close>

lemma default_tier_stays: "tryCleanupTier ttl now (ensureTier g empty_tier) = ensureTier g empty_tier"
  by (simp add: tryCleanupTier_def ensureTier_def empty_tier_def)

end
