(* ===== verification/Settings.thy ===== *)
theory Settings
  imports ListParams RestAuth
begin

text \<open>
  The configuration (\<open>internal/modules/config\<close>): what the environment variables mean, the values that other parts read, and the
  validation at the start. Hashing of passwords, parsing of URLs and of durations, and the token that the build injects are
  parameters; an unset variable is the empty text, as for \<open>os.Getenv\<close>. A number that cannot be parsed panics.
\<close>

section \<open>Environment\<close>

type_synonym env = "string \<Rightarrow> string"

text \<open>\<open>gl_parse_url\<close> gives scheme and host.\<close>

record config_lib =
  gl_hash_password :: "string \<Rightarrow> string option"
  gl_parse_url :: "string \<Rightarrow> (string \<times> string) option"
  gl_parse_duration :: "string \<Rightarrow> int option"
  gl_frpTokenInjected :: string

definition env_int :: "env \<Rightarrow> string \<Rightarrow> string \<Rightarrow> int" where
  "env_int e key d = (case go_Atoi (EmptyOrElse (e key) d) of None \<Rightarrow> 0 | Some n \<Rightarrow> n)"

definition parseUsernameAndPassword :: "config_lib \<Rightarrow> env \<Rightarrow> string \<Rightarrow> string \<Rightarrow> (string \<times> string) option" where
  "parseUsernameAndPassword lib e usernameKey passwordKey =
    (let username = e usernameKey; password = e passwordKey in
     if username = [] \<or> password = [] then Some ([], [])
     else map_option (\<lambda>h. (username, h)) (gl_hash_password lib password))"

definition parseDurationOrDefault :: "config_lib \<Rightarrow> string \<Rightarrow> int \<Rightarrow> int" where
  "parseDurationOrDefault lib raw fallback =
    (let raw = TrimSpace raw in
     if raw = [] then fallback else case gl_parse_duration lib raw of None \<Rightarrow> fallback | Some d \<Rightarrow> d)"

definition parseLocalLogsOverflow :: "string \<Rightarrow> string" where
  "parseLocalLogsOverflow raw = (if ToLower (TrimSpace raw) = ''block'' then ''block'' else ''drop'')"

definition parseCommaSeparatedValues :: "string \<Rightarrow> string list" where
  "parseCommaSeparatedValues raw =
    (if TrimSpace raw = [] then [] else filter (\<lambda>v. v \<noteq> []) (map TrimSpace (Split (CHR '','') raw)))"

definition defaultFrontendOrigin :: string where
  "defaultFrontendOrigin = ''https://app.bilirec.org''"

definition IsValidAbsoluteHTTPURL :: "config_lib \<Rightarrow> string \<Rightarrow> bool" where
  "IsValidAbsoluteHTTPURL lib raw =
    (case gl_parse_url lib raw of
       None \<Rightarrow> False
     | Some (scheme, host) \<Rightarrow> host \<noteq> [] \<and> (scheme = ''http'' \<or> scheme = ''https''))"

definition url_origin :: "config_lib \<Rightarrow> string \<Rightarrow> string" where
  "url_origin lib raw = (case gl_parse_url lib raw of None \<Rightarrow> [] | Some (scheme, host) \<Rightarrow> scheme @ ''://'' @ host)"

definition parseFrontendURLs :: "config_lib \<Rightarrow> env \<Rightarrow> string list option" where
  "parseFrontendURLs lib e =
    (let raw = EmptyOrElse (EmptyOrElse (TrimSpace (e ''FRONTEND_URLS'')) (TrimSpace (e ''FRONTEND_URL''))) defaultFrontendOrigin;
         parts = SplitAndTrim raw
     in if parts = [] \<or> \<not> list_all (IsValidAbsoluteHTTPURL lib) parts then None
        else Some (Unique (map (url_origin lib) parts)))"

definition officialFRPServer :: string where "officialFRPServer = ''tunnel.bilirec.org:7000''"
definition officialFRPDomain :: string where "officialFRPDomain = ''tunnel.bilirec.org''"

definition frp_server :: "env \<Rightarrow> string" where
  "frp_server e = EmptyOrElse (e ''FRP_SERVER'') officialFRPServer"

definition frp_domain :: "env \<Rightarrow> string" where
  "frp_domain e = EmptyOrElse (e ''FRP_BASE_DOMAIN'') officialFRPDomain"

definition resolveFRPToken :: "config_lib \<Rightarrow> env \<Rightarrow> string \<Rightarrow> string \<Rightarrow> string" where
  "resolveFRPToken lib e server baseDomain =
    (if e ''FRP_TOKEN'' \<noteq> [] then e ''FRP_TOKEN''
     else if server = officialFRPServer \<and> baseDomain = officialFRPDomain then gl_frpTokenInjected lib
     else [])"

section \<open>Groups of settings\<close>

text \<open>The login mode, the addresses and the metrics server.\<close>

record server_config =
  sv_BilibiliLoginMode :: string
  sv_Host :: string
  sv_Port :: string
  sv_TrustedProxies :: "string list"
  sv_MetricsEnabled :: bool
  sv_MetricsHost :: string
  sv_MetricsPort :: string

definition load_server :: "env \<Rightarrow> server_config" where
  "load_server e = \<lparr>
    sv_BilibiliLoginMode = ToLower (TrimSpace (EmptyOrElse (e ''BILIBILI_LOGIN_MODE'') ''controller'')),
    sv_Host = TrimSpace (e ''HOST''),
    sv_Port = EmptyOrElse (e ''PORT'') ''8080'',
    sv_TrustedProxies = parseCommaSeparatedValues (EmptyOrElse (e ''TRUSTED_PROXIES'') ''161.33.159.26''),
    sv_MetricsEnabled = (e ''METRICS_ENABLED'' = ''true''),
    sv_MetricsHost = TrimSpace (e ''METRICS_HOST''),
    sv_MetricsPort = EmptyOrElse (e ''METRICS_PORT'') ''9090''\<rparr>"

text \<open>Logs sent to VictoriaLogs.\<close>

record victoria_config =
  vl_VictoriaLogsEnabled :: bool
  vl_VictoriaLogsURL :: string
  vl_VictoriaLogsStreamFields :: string
  vl_VictoriaLogsAccountID :: string
  vl_VictoriaLogsProjectID :: string
  vl_VictoriaLogsTimeout :: int
  vl_VictoriaLogsRetryMax :: int

definition load_victoria :: "config_lib \<Rightarrow> env \<Rightarrow> victoria_config" where
  "load_victoria lib e = \<lparr>
    vl_VictoriaLogsEnabled = (e ''VICTORIALOGS_ENABLED'' = ''true''),
    vl_VictoriaLogsURL = TrimSpace (e ''VICTORIALOGS_URL''),
    vl_VictoriaLogsStreamFields = EmptyOrElse (TrimSpace (e ''VICTORIALOGS_STREAM_FIELDS'')) ''app,logger'',
    vl_VictoriaLogsAccountID = TrimSpace (e ''VICTORIALOGS_ACCOUNT_ID''),
    vl_VictoriaLogsProjectID = TrimSpace (e ''VICTORIALOGS_PROJECT_ID''),
    vl_VictoriaLogsTimeout = parseDurationOrDefault lib (e ''VICTORIALOGS_TIMEOUT'') 10000000000,
    vl_VictoriaLogsRetryMax = env_int e ''VICTORIALOGS_RETRY_MAX'' ''2''\<rparr>"

text \<open>Logs in files.\<close>

record locallogs_config =
  ll_LocalLogsEnabled :: bool
  ll_LocalLogsPath :: string
  ll_LocalLogsFormat :: string
  ll_LocalLogsMaxSizeMB :: int
  ll_LocalLogsMaxAgeDays :: int
  ll_LocalLogsMaxBackups :: int
  ll_LocalLogsCompress :: bool
  ll_LocalLogsBatchBytes :: int
  ll_LocalLogsFlushInterval :: int
  ll_LocalLogsBufferSize :: int
  ll_LocalLogsOverflow :: string

definition load_locallogs :: "config_lib \<Rightarrow> env \<Rightarrow> locallogs_config" where
  "load_locallogs lib e = \<lparr>
    ll_LocalLogsEnabled = (e ''LOCAL_LOGS_ENABLED'' = ''true''),
    ll_LocalLogsPath = TrimSpace (e ''LOCAL_LOGS_PATH''),
    ll_LocalLogsFormat = ToLower (TrimSpace (EmptyOrElse (e ''LOCAL_LOGS_FORMAT'') ''pretty'')),
    ll_LocalLogsMaxSizeMB = env_int e ''LOCAL_LOGS_MAX_SIZE_MB'' ''20'',
    ll_LocalLogsMaxAgeDays = env_int e ''LOCAL_LOGS_MAX_AGE_DAYS'' ''7'',
    ll_LocalLogsMaxBackups = env_int e ''LOCAL_LOGS_MAX_BACKUPS'' ''3'',
    ll_LocalLogsCompress = (e ''LOCAL_LOGS_COMPRESS'' = ''true''),
    ll_LocalLogsBatchBytes = env_int e ''LOCAL_LOGS_BATCH_BYTES'' ''65536'',
    ll_LocalLogsFlushInterval = parseDurationOrDefault lib (e ''LOCAL_LOGS_FLUSH_INTERVAL'') 1000000000,
    ll_LocalLogsBufferSize = env_int e ''LOCAL_LOGS_BUFFER_SIZE'' ''4096'',
    ll_LocalLogsOverflow = parseLocalLogsOverflow (e ''LOCAL_LOGS_OVERFLOW'')\<rparr>"

text \<open>The tunnel.\<close>

record frp_config =
  fr_FRPEnabled :: bool
  fr_FRPServer :: string
  fr_FRPToken :: string
  fr_FRPBaseDomain :: string
  fr_FRPHttps :: bool
  fr_FRPSchemeHttps :: bool

definition load_frp :: "config_lib \<Rightarrow> env \<Rightarrow> frp_config" where
  "load_frp lib e = \<lparr>
    fr_FRPEnabled = (e ''FRP_ENABLED'' = ''true''),
    fr_FRPServer = frp_server e,
    fr_FRPToken = resolveFRPToken lib e (frp_server e) (frp_domain e),
    fr_FRPBaseDomain = frp_domain e,
    fr_FRPHttps = (e ''FRP_HTTPS'' = ''true''),
    fr_FRPSchemeHttps = (EmptyOrElse (e ''FRP_SCHEME_HTTPS'') ''true'' = ''true'')\<rparr>"

text \<open>Recordings and directories.\<close>

record recording_config =
  rg_MaxConcurrentRecordings :: int
  rg_MaxRecordingHours :: int
  rg_MaxRecoveryAttempts :: int
  rg_MaxRetryMinutes :: int
  rg_RecordingRecoveryDuration :: string
  rg_OutputDir :: string
  rg_SecretDir :: string
  rg_DatabaseDir :: string

definition load_recording :: "env \<Rightarrow> recording_config" where
  "load_recording e = \<lparr>
    rg_MaxConcurrentRecordings = env_int e ''MAX_CONCURRENT_RECORDINGS'' ''3'',
    rg_MaxRecordingHours = env_int e ''MAX_RECORDING_HOURS'' ''5'',
    rg_MaxRecoveryAttempts = env_int e ''MAX_RECOVERY_ATTEMPTS'' ''15'',
    rg_MaxRetryMinutes = env_int e ''MAX_RETRY_MINUTES'' ''10'',
    rg_RecordingRecoveryDuration = ToLower (TrimSpace (EmptyOrElse (e ''RECORDING_RECOVERY_DURATION'') ''preserve'')),
    rg_OutputDir = EmptyOrElse (e ''OUTPUT_DIR'') ''records'',
    rg_SecretDir = EmptyOrElse (e ''SECRET_DIR'') ''secrets'',
    rg_DatabaseDir = EmptyOrElse (e ''DATABASE_DIR'') ''database''\<rparr>"

text \<open>Conversion and danmaku formats.\<close>

record conversion_config =
  cn_CloudConvertThreshold :: int
  cn_CloudConvertApiKey :: string
  cn_ConvertToMp4 :: bool
  cn_NoConvertIfInvalid :: bool
  cn_DeleteSourceAfterConvert :: bool
  cn_DanmakuOutputFormat :: string
  cn_DanmakuOverflowPolicy :: string

definition load_conversion :: "env \<Rightarrow> conversion_config" where
  "load_conversion e = \<lparr>
    cn_CloudConvertThreshold = env_int e ''CLOUDCONVERT_THRESHOLD'' ''1073741824'',
    cn_CloudConvertApiKey = e ''CLOUDCONVERT_API_KEY'',
    cn_ConvertToMp4 = (e ''CONVERT_TO_MP4'' = ''true''),
    cn_NoConvertIfInvalid = (e ''NO_CONVERT_IF_INVALID'' = ''true''),
    cn_DeleteSourceAfterConvert = (e ''DELETE_SOURCE_AFTER_CONVERT'' = ''true''),
    cn_DanmakuOutputFormat = ToLower (TrimSpace (EmptyOrElse (e ''DANMAKU_OUTPUT_FORMAT'') ''jsonl'')),
    cn_DanmakuOverflowPolicy = ToLower (TrimSpace (EmptyOrElse (e ''DANMAKU_OVERFLOW_POLICY'') ''drop''))\<rparr>"

text \<open>Links, notifications, logins and certificates.\<close>

record access_config =
  ac_FrontendURLs :: "string list"
  ac_PublicBaseUrl :: string
  ac_WebPushSubscriber :: string
  ac_NotifySSEToken :: string
  ac_WebhookURLs :: string
  ac_Username :: string
  ac_PasswordHash :: string
  ac_ViewerUsername :: string
  ac_ViewerPasswordHash :: string
  ac_JwtSecret :: string
  ac_ServerCrt :: string
  ac_ServerKey :: string
  ac_Debug :: bool
  ac_ProductionMode :: bool
  ac_SilentAccessLog :: bool

definition load_access :: "string list \<Rightarrow> string \<times> string \<Rightarrow> string \<times> string \<Rightarrow> env \<Rightarrow> access_config" where
  "load_access frontendURLs user viewer e = \<lparr>
    ac_FrontendURLs = frontendURLs,
    ac_PublicBaseUrl = TrimSpace (e ''PUBLIC_BASE_URL''),
    ac_WebPushSubscriber = EmptyOrElse (e ''WEBPUSH_SUBSCRIBER'') ''mailto:webpush@example.com'',
    ac_NotifySSEToken = TrimSpace (e ''NOTIFY_SSE_TOKEN''),
    ac_WebhookURLs = e ''WEBHOOK_URLS'',
    ac_Username = fst user,
    ac_PasswordHash = snd user,
    ac_ViewerUsername = fst viewer,
    ac_ViewerPasswordHash = snd viewer,
    ac_JwtSecret = EmptyOrElse (e ''JWT_SECRET'') ''bilirec_secret'',
    ac_ServerCrt = e ''SERVER_CRT'',
    ac_ServerKey = e ''SERVER_KEY'',
    ac_Debug = (e ''DEBUG'' = ''true''),
    ac_ProductionMode = (e ''PRODUCTION_MODE'' = ''true''),
    ac_SilentAccessLog = (e ''SILENT_ACCESS_LOG'' = ''true'')\<rparr>"

text \<open>Free space and the workers of the conversion.\<close>

record checks_config =
  ch_MinDiskSpaceBytes :: int
  ch_CloudConvertCheckIntervalSecs :: int
  ch_CloudConvertMaxConcurrentDownloads :: int
  ch_CloudConvertAllowDuringRecording :: bool
  ch_CloudConvertAllowDuringRecordingMaxActiveRecordings :: int
  ch_FFmpegCheckIntervalSecs :: int
  ch_FFmpegMaxConcurrentTasks :: int
  ch_FFmpegAllowDuringRecording :: bool
  ch_FFmpegAllowDuringRecordingMaxActiveRecordings :: int

definition load_checks :: "env \<Rightarrow> checks_config" where
  "load_checks e = \<lparr>
    ch_MinDiskSpaceBytes = env_int e ''MIN_DISK_SPACE_BYTES'' ''5368709120'',
    ch_CloudConvertCheckIntervalSecs = env_int e ''CLOUDCONVERT_CHECK_INTERVAL_SECS'' ''180'',
    ch_CloudConvertMaxConcurrentDownloads = env_int e ''CLOUDCONVERT_MAX_CONCURRENT_DOWNLOADS'' ''1'',
    ch_CloudConvertAllowDuringRecording = (e ''CLOUDCONVERT_ALLOW_DURING_RECORDING'' = ''true''),
    ch_CloudConvertAllowDuringRecordingMaxActiveRecordings = env_int e ''CLOUDCONVERT_ALLOW_DURING_RECORDING_MAX_ACTIVE_RECORDINGS'' ''1'',
    ch_FFmpegCheckIntervalSecs = env_int e ''FFMPEG_CHECK_INTERVAL_SECS'' ''60'',
    ch_FFmpegMaxConcurrentTasks = env_int e ''FFMPEG_MAX_CONCURRENT_TASKS'' ''1'',
    ch_FFmpegAllowDuringRecording = (e ''FFMPEG_ALLOW_DURING_RECORDING'' = ''true''),
    ch_FFmpegAllowDuringRecordingMaxActiveRecordings = env_int e ''FFMPEG_ALLOW_DURING_RECORDING_MAX_ACTIVE_RECORDINGS'' ''1''\<rparr>"

text \<open>The checks of subscriptions.\<close>

record subcheck_config =
  sb_SubcheckRoomsPerShard :: int
  sb_SubcheckTickSecs :: int
  sb_SubcheckMinIntervalSecs :: int
  sb_SubcheckMaxIntervalSecs :: int
  sb_SubcheckMaxShards :: int
  sb_SubcheckJitterSecs :: int
  sb_StreamIdleTimeoutSecs :: int

definition load_subcheck :: "env \<Rightarrow> subcheck_config" where
  "load_subcheck e = \<lparr>
    sb_SubcheckRoomsPerShard = env_int e ''SUBCHECK_ROOMS_PER_SHARD'' ''50'',
    sb_SubcheckTickSecs = env_int e ''SUBCHECK_TICK_SECS'' ''10'',
    sb_SubcheckMinIntervalSecs = env_int e ''SUBCHECK_MIN_INTERVAL_SECS'' ''60'',
    sb_SubcheckMaxIntervalSecs = env_int e ''SUBCHECK_MAX_INTERVAL_SECS'' ''300'',
    sb_SubcheckMaxShards = env_int e ''SUBCHECK_MAX_SHARDS'' ''32'',
    sb_SubcheckJitterSecs = env_int e ''SUBCHECK_JITTER_SECS'' ''2'',
    sb_StreamIdleTimeoutSecs = env_int e ''STREAM_IDLE_TIMEOUT'' ''20''\<rparr>"

text \<open>Buffers of streams.\<close>

record reading_config =
  rd_ReadStreamBytesPoolSize :: int
  rd_ReadStreamChanBufferSize :: int
  rd_readStreamBytesPoolSizeHigh :: int
  rd_readStreamChanBufferSizeHigh :: int

definition load_reading :: "env \<Rightarrow> reading_config" where
  "load_reading e = \<lparr>
    rd_ReadStreamBytesPoolSize = env_int e ''READ_STREAM_BYTES_POOL_SIZE'' ''524288'',
    rd_ReadStreamChanBufferSize = env_int e ''READ_STREAM_CHAN_BUFFER_SIZE'' ''16'',
    rd_readStreamBytesPoolSizeHigh = env_int e ''READ_STREAM_BYTES_POOL_SIZE_HIGH'' ''1048576'',
    rd_readStreamChanBufferSizeHigh = env_int e ''READ_STREAM_CHAN_BUFFER_SIZE_HIGH'' ''48''\<rparr>"

text \<open>Buffers of transfers and of the writer.\<close>

record writing_config =
  wr_uploadBufferSize :: int
  wr_downloadBufferSize :: int
  wr_streamWriterBufferSize :: int
  wr_liveStreamWriterBufferSize :: int
  wr_liveStreamWriterSyncPeriod :: int
  wr_liveStreamWriterColdCacheReleasePeriod :: int
  wr_liveStreamWriterFlushPeriod :: int
  wr_liveStreamWriterChanBufferSize :: int
  wr_liveStreamWriterBytesPoolSize :: int
  wr_liveStreamWriterBytesPoolSizeHigh :: int
  wr_skipSmallFlushThreshold :: int
  wr_skipSmallFlush :: bool
  wr_sequentialWrite :: bool
  wr_dropFilePageCache :: bool

definition load_writing :: "env \<Rightarrow> writing_config" where
  "load_writing e = \<lparr>
    wr_uploadBufferSize = env_int e ''UPLOAD_BUFFER_SIZE'' ''5242880'',
    wr_downloadBufferSize = env_int e ''DOWNLOAD_BUFFER_SIZE'' ''5242880'',
    wr_streamWriterBufferSize = env_int e ''STREAM_WRITER_BUFFER_SIZE'' ''1048576'',
    wr_liveStreamWriterBufferSize = env_int e ''LIVE_STREAM_WRITER_BUFFER_SIZE'' ''8388608'',
    wr_liveStreamWriterSyncPeriod = env_int e ''LIVE_STREAM_WRITER_SYNC_PERIOD_SECS'' ''0'',
    wr_liveStreamWriterColdCacheReleasePeriod = env_int e ''LIVE_STREAM_WRITER_COLD_CACHE_RELEASE_SECS'' ''60'',
    wr_liveStreamWriterFlushPeriod = env_int e ''LIVE_STREAM_WRITER_FLUSH_PERIOD_SECS'' ''15'',
    wr_liveStreamWriterChanBufferSize = env_int e ''LIVE_STREAM_WRITER_CHAN_BUFFER_SIZE'' ''64'',
    wr_liveStreamWriterBytesPoolSize = env_int e ''LIVE_STREAM_WRITER_BYTES_POOL_SIZE'' ''524288'',
    wr_liveStreamWriterBytesPoolSizeHigh = env_int e ''LIVE_STREAM_WRITER_BYTES_POOL_SIZE_HIGH'' ''1048576'',
    wr_skipSmallFlushThreshold = env_int e ''SKIP_SMALL_FLUSH_THRESHOLD'' ''1048576'',
    wr_skipSmallFlush = (e ''SKIP_SMALL_FLUSH'' \<noteq> ''false''),
    wr_sequentialWrite = (e ''SEQUENTIAL_WRITE'' \<noteq> ''false''),
    wr_dropFilePageCache = (e ''DROP_FILE_PAGE_CACHE'' \<noteq> ''false'')\<rparr>"

text \<open>Buffers of danmaku.\<close>

record danmaku_config =
  dk_danmakuWriterBufferSize :: int
  dk_danmakuWriterMinPeriodicFlushBytes :: int
  dk_danmakuWriterFlushPeriod :: int
  dk_danmakuWriterSyncPeriod :: int
  dk_danmakuChanBufferSize :: int
  dk_danmakuBytesPoolSize :: int

definition load_danmaku :: "env \<Rightarrow> danmaku_config" where
  "load_danmaku e = \<lparr>
    dk_danmakuWriterBufferSize = env_int e ''DANMAKU_WRITER_BUFFER_SIZE'' ''262144'',
    dk_danmakuWriterMinPeriodicFlushBytes = env_int e ''DANMAKU_WRITER_MIN_PERIODIC_FLUSH_BYTES'' ''16384'',
    dk_danmakuWriterFlushPeriod = env_int e ''DANMAKU_WRITER_FLUSH_PERIOD_SECS'' ''15'',
    dk_danmakuWriterSyncPeriod = env_int e ''DANMAKU_WRITER_SYNC_PERIOD_SECS'' ''0'',
    dk_danmakuChanBufferSize = env_int e ''DANMAKU_CHAN_BUFFER_SIZE'' ''256'',
    dk_danmakuBytesPoolSize = env_int e ''DANMAKU_BYTES_POOL_SIZE'' ''4096''\<rparr>"

definition config_ints :: "(string \<times> string) list" where
  "config_ints = [
    (''VICTORIALOGS_RETRY_MAX'', ''2''),
    (''LOCAL_LOGS_MAX_SIZE_MB'', ''20''),
    (''LOCAL_LOGS_MAX_AGE_DAYS'', ''7''),
    (''LOCAL_LOGS_MAX_BACKUPS'', ''3''),
    (''LOCAL_LOGS_BATCH_BYTES'', ''65536''),
    (''LOCAL_LOGS_BUFFER_SIZE'', ''4096''),
    (''MAX_CONCURRENT_RECORDINGS'', ''3''),
    (''MAX_RECORDING_HOURS'', ''5''),
    (''MAX_RECOVERY_ATTEMPTS'', ''15''),
    (''MAX_RETRY_MINUTES'', ''10''),
    (''CLOUDCONVERT_THRESHOLD'', ''1073741824''),
    (''MIN_DISK_SPACE_BYTES'', ''5368709120''),
    (''CLOUDCONVERT_CHECK_INTERVAL_SECS'', ''180''),
    (''CLOUDCONVERT_MAX_CONCURRENT_DOWNLOADS'', ''1''),
    (''CLOUDCONVERT_ALLOW_DURING_RECORDING_MAX_ACTIVE_RECORDINGS'', ''1''),
    (''FFMPEG_CHECK_INTERVAL_SECS'', ''60''),
    (''FFMPEG_MAX_CONCURRENT_TASKS'', ''1''),
    (''FFMPEG_ALLOW_DURING_RECORDING_MAX_ACTIVE_RECORDINGS'', ''1''),
    (''SUBCHECK_ROOMS_PER_SHARD'', ''50''),
    (''SUBCHECK_TICK_SECS'', ''10''),
    (''SUBCHECK_MIN_INTERVAL_SECS'', ''60''),
    (''SUBCHECK_MAX_INTERVAL_SECS'', ''300''),
    (''SUBCHECK_MAX_SHARDS'', ''32''),
    (''SUBCHECK_JITTER_SECS'', ''2''),
    (''STREAM_IDLE_TIMEOUT'', ''20''),
    (''READ_STREAM_BYTES_POOL_SIZE'', ''524288''),
    (''READ_STREAM_CHAN_BUFFER_SIZE'', ''16''),
    (''READ_STREAM_BYTES_POOL_SIZE_HIGH'', ''1048576''),
    (''READ_STREAM_CHAN_BUFFER_SIZE_HIGH'', ''48''),
    (''UPLOAD_BUFFER_SIZE'', ''5242880''),
    (''DOWNLOAD_BUFFER_SIZE'', ''5242880''),
    (''STREAM_WRITER_BUFFER_SIZE'', ''1048576''),
    (''LIVE_STREAM_WRITER_BUFFER_SIZE'', ''8388608''),
    (''LIVE_STREAM_WRITER_SYNC_PERIOD_SECS'', ''0''),
    (''LIVE_STREAM_WRITER_COLD_CACHE_RELEASE_SECS'', ''60''),
    (''LIVE_STREAM_WRITER_FLUSH_PERIOD_SECS'', ''15''),
    (''LIVE_STREAM_WRITER_CHAN_BUFFER_SIZE'', ''64''),
    (''LIVE_STREAM_WRITER_BYTES_POOL_SIZE'', ''524288''),
    (''LIVE_STREAM_WRITER_BYTES_POOL_SIZE_HIGH'', ''1048576''),
    (''SKIP_SMALL_FLUSH_THRESHOLD'', ''1048576''),
    (''DANMAKU_WRITER_BUFFER_SIZE'', ''262144''),
    (''DANMAKU_WRITER_MIN_PERIODIC_FLUSH_BYTES'', ''16384''),
    (''DANMAKU_WRITER_FLUSH_PERIOD_SECS'', ''15''),
    (''DANMAKU_WRITER_SYNC_PERIOD_SECS'', ''0''),
    (''DANMAKU_CHAN_BUFFER_SIZE'', ''256''),
    (''DANMAKU_BYTES_POOL_SIZE'', ''4096'')]"

record config =
  cf_server :: server_config
  cf_victoria :: victoria_config
  cf_locallogs :: locallogs_config
  cf_frp :: frp_config
  cf_recording :: recording_config
  cf_conversion :: conversion_config
  cf_access :: access_config
  cf_checks :: checks_config
  cf_subcheck :: subcheck_config
  cf_reading :: reading_config
  cf_writing :: writing_config
  cf_danmaku :: danmaku_config

datatype load_result = Loaded config | Load_failed | Load_panics

definition config_provider :: "config_lib \<Rightarrow> env \<Rightarrow> load_result" where
  "config_provider lib e =
    (case parseUsernameAndPassword lib e ''USERNAME'' ''PASSWORD'' of
       None \<Rightarrow> Load_failed
     | Some user \<Rightarrow>
        (case parseUsernameAndPassword lib e ''VIEWER_USERNAME'' ''VIEWER_PASSWORD'' of
           None \<Rightarrow> Load_failed
         | Some viewer \<Rightarrow>
            (case parseFrontendURLs lib e of
               None \<Rightarrow> Load_failed
             | Some frontendURLs \<Rightarrow>
                if list_ex (\<lambda>(key, d). go_Atoi (EmptyOrElse (e key) d) = None) config_ints then Load_panics
                else Loaded
                  \<lparr>cf_server = load_server e, cf_victoria = load_victoria lib e, cf_locallogs = load_locallogs lib e,
                   cf_frp = load_frp lib e, cf_recording = load_recording e, cf_conversion = load_conversion e,
                   cf_access = load_access frontendURLs user viewer e, cf_checks = load_checks e, cf_subcheck = load_subcheck e,
                   cf_reading = load_reading e, cf_writing = load_writing e, cf_danmaku = load_danmaku e\<rparr>)))"

section \<open>What other parts read\<close>

definition UploadBufferSize :: "config \<Rightarrow> int" where
  "UploadBufferSize c = wr_uploadBufferSize (cf_writing c)"

definition DownloadBufferSize :: "config \<Rightarrow> int" where
  "DownloadBufferSize c = wr_downloadBufferSize (cf_writing c)"

definition DownloadWriterBufferSize :: "config \<Rightarrow> int" where
  "DownloadWriterBufferSize c = wr_streamWriterBufferSize (cf_writing c)"

definition LiveStreamWriterBufferSize :: "config \<Rightarrow> int" where
  "LiveStreamWriterBufferSize c = wr_liveStreamWriterBufferSize (cf_writing c)"

definition LiveStreamWriterSyncPeriodSecs :: "config \<Rightarrow> int" where
  "LiveStreamWriterSyncPeriodSecs c = (if wr_liveStreamWriterSyncPeriod (cf_writing c) < 0 then 0 else wr_liveStreamWriterSyncPeriod (cf_writing c))"

definition LiveStreamWriterColdCacheReleaseSecs :: "config \<Rightarrow> int" where
  "LiveStreamWriterColdCacheReleaseSecs c = (if wr_liveStreamWriterColdCacheReleasePeriod (cf_writing c) < 0 then 0 else wr_liveStreamWriterColdCacheReleasePeriod (cf_writing c))"

definition LiveStreamWriterFlushPeriodSecs :: "config \<Rightarrow> int" where
  "LiveStreamWriterFlushPeriodSecs c = (if wr_liveStreamWriterFlushPeriod (cf_writing c) \<le> 0 then 15 else wr_liveStreamWriterFlushPeriod (cf_writing c))"

definition LiveStreamWriterChanBufferSize :: "config \<Rightarrow> int" where
  "LiveStreamWriterChanBufferSize c = (if wr_liveStreamWriterChanBufferSize (cf_writing c) \<le> 0 then 64 else wr_liveStreamWriterChanBufferSize (cf_writing c))"

definition LiveStreamWriterBytesPoolSize :: "config \<Rightarrow> int" where
  "LiveStreamWriterBytesPoolSize c = (if wr_liveStreamWriterBytesPoolSize (cf_writing c) \<le> 0 then 524288 else wr_liveStreamWriterBytesPoolSize (cf_writing c))"

definition ReadStreamBytesPoolSizeOf :: "config \<Rightarrow> int" where
  "ReadStreamBytesPoolSizeOf c = (if rd_ReadStreamBytesPoolSize (cf_reading c) \<le> 0 then 524288 else rd_ReadStreamBytesPoolSize (cf_reading c))"

definition ReadStreamBytesPoolSizeHigh :: "config \<Rightarrow> int" where
  "ReadStreamBytesPoolSizeHigh c = (if rd_readStreamBytesPoolSizeHigh (cf_reading c) \<le> 0 then 1048576 else rd_readStreamBytesPoolSizeHigh (cf_reading c))"

definition ReadStreamChanBufferSizeHigh :: "config \<Rightarrow> int" where
  "ReadStreamChanBufferSizeHigh c = (if rd_readStreamChanBufferSizeHigh (cf_reading c) \<le> 0 then 48 else rd_readStreamChanBufferSizeHigh (cf_reading c))"

definition LiveStreamWriterBytesPoolSizeHigh :: "config \<Rightarrow> int" where
  "LiveStreamWriterBytesPoolSizeHigh c = (if wr_liveStreamWriterBytesPoolSizeHigh (cf_writing c) \<le> 0 then 1048576 else wr_liveStreamWriterBytesPoolSizeHigh (cf_writing c))"

definition DanmakuWriterBufferSize :: "config \<Rightarrow> int" where
  "DanmakuWriterBufferSize c = (if dk_danmakuWriterBufferSize (cf_danmaku c) \<le> 0 then 262144 else dk_danmakuWriterBufferSize (cf_danmaku c))"

definition DanmakuWriterMinPeriodicFlushBytes :: "config \<Rightarrow> int" where
  "DanmakuWriterMinPeriodicFlushBytes c = (if dk_danmakuWriterMinPeriodicFlushBytes (cf_danmaku c) \<le> 0 then 16384 else dk_danmakuWriterMinPeriodicFlushBytes (cf_danmaku c))"

definition DanmakuWriterFlushPeriodSecs :: "config \<Rightarrow> int" where
  "DanmakuWriterFlushPeriodSecs c = (if dk_danmakuWriterFlushPeriod (cf_danmaku c) \<le> 0 then 15 else dk_danmakuWriterFlushPeriod (cf_danmaku c))"

definition DanmakuWriterSyncPeriodSecs :: "config \<Rightarrow> int" where
  "DanmakuWriterSyncPeriodSecs c = (if dk_danmakuWriterSyncPeriod (cf_danmaku c) < 0 then 0 else dk_danmakuWriterSyncPeriod (cf_danmaku c))"

definition DanmakuChanBufferSize :: "config \<Rightarrow> int" where
  "DanmakuChanBufferSize c = (if dk_danmakuChanBufferSize (cf_danmaku c) \<le> 0 then 256 else dk_danmakuChanBufferSize (cf_danmaku c))"

definition DanmakuBytesPoolSize :: "config \<Rightarrow> int" where
  "DanmakuBytesPoolSize c = (if dk_danmakuBytesPoolSize (cf_danmaku c) \<le> 0 then 4096 else dk_danmakuBytesPoolSize (cf_danmaku c))"

definition CloudConvertCheckIntervalSecs :: "config \<Rightarrow> int" where
  "CloudConvertCheckIntervalSecs c = (if ch_CloudConvertCheckIntervalSecs (cf_checks c) \<le> 0 then 180 else ch_CloudConvertCheckIntervalSecs (cf_checks c))"

definition CloudConvertMaxConcurrentDownloads :: "config \<Rightarrow> int" where
  "CloudConvertMaxConcurrentDownloads c = (if ch_CloudConvertMaxConcurrentDownloads (cf_checks c) \<le> 0 then 1 else ch_CloudConvertMaxConcurrentDownloads (cf_checks c))"

definition FFmpegCheckIntervalSecs :: "config \<Rightarrow> int" where
  "FFmpegCheckIntervalSecs c = (if ch_FFmpegCheckIntervalSecs (cf_checks c) \<le> 0 then 60 else ch_FFmpegCheckIntervalSecs (cf_checks c))"

definition FFmpegMaxConcurrentTasks :: "config \<Rightarrow> int" where
  "FFmpegMaxConcurrentTasks c = (if ch_FFmpegMaxConcurrentTasks (cf_checks c) \<le> 0 then 1 else ch_FFmpegMaxConcurrentTasks (cf_checks c))"

definition ServeCacheIdleReleaseSecs :: "config \<Rightarrow> int" where
  "ServeCacheIdleReleaseSecs c =
    (if LiveStreamWriterColdCacheReleaseSecs c \<le> 0 then 60 else LiveStreamWriterColdCacheReleaseSecs c)"

definition SkipSmallFlushThreshold :: "config \<Rightarrow> int" where
  "SkipSmallFlushThreshold c =
    (if \<not> wr_skipSmallFlush (cf_writing c) then 1024
     else let t = wr_skipSmallFlushThreshold (cf_writing c) in if t \<le> 0 then 1048576 else max t 1024)"

definition DanmakuOverflowPolicyOf :: "config \<Rightarrow> string" where
  "DanmakuOverflowPolicyOf c = (if cn_DanmakuOverflowPolicy (cf_conversion c) = ''block'' then ''block'' else ''drop'')"

text \<open>What \<open>RestAuth\<close> reads.\<close>

definition rest_settings :: "config \<Rightarrow> rest_config" where
  "rest_settings c =
    (let a = cf_access c in
     \<lparr>rc_Username = ac_Username a, rc_PasswordHash = ac_PasswordHash a, rc_ViewerUsername = ac_ViewerUsername a,
      rc_ViewerPasswordHash = ac_ViewerPasswordHash a, rc_ProductionMode = ac_ProductionMode a, rc_FrontendURLs = ac_FrontendURLs a\<rparr>)"

definition IsHighQualityQn :: "int \<Rightarrow> bool" where
  "IsHighQualityQn qn \<longleftrightarrow> qn \<ge> 20000"

definition ReadStreamBytesPoolSizeForQn :: "config \<Rightarrow> int \<Rightarrow> int" where
  "ReadStreamBytesPoolSizeForQn c qn = (if IsHighQualityQn qn then ReadStreamBytesPoolSizeHigh c else ReadStreamBytesPoolSizeOf c)"

definition clampInt :: "int \<Rightarrow> int \<Rightarrow> int \<Rightarrow> int" where
  "clampInt v minV maxV = (if v < minV then minV else if v > maxV then maxV else v)"

definition ReadStreamBytesPoolBoundedCapacity :: "int \<Rightarrow> int" where
  "ReadStreamBytesPoolBoundedCapacity n = clampInt ((if n \<le> 0 then 16 else n) div 4) 2 16"

definition LiveStreamWriterBytesPoolBoundedCapacityPerBucket :: "int \<Rightarrow> int" where
  "LiveStreamWriterBytesPoolBoundedCapacityPerBucket n = clampInt ((if n \<le> 0 then 64 else n) div 8) 2 8"

definition ParseWebhookURLs :: "string \<Rightarrow> string list" where
  "ParseWebhookURLs raw =
    (let raw = TrimSpace raw in
     if raw = [] then [] else filter (\<lambda>l. l \<noteq> []) (map TrimSpace (Split (CHR 0x0A) raw)))"

definition WebhookConfigured :: "config \<Rightarrow> bool" where
  "WebhookConfigured c \<longleftrightarrow> length (ParseWebhookURLs (ac_WebhookURLs (cf_access c))) > 0"

section \<open>Validation\<close>

datatype config_error = Bad_login_mode | Bad_recovery_duration | Bad_danmaku_format | Bad_overflow_policy | Http_tunnel_to_https | Https_tunnel_to_http

definition Validate :: "config \<Rightarrow> config_error option" where
  "Validate c =
    (let ac = cf_access c; fr = cf_frp c; cn = cf_conversion c in
     if sv_BilibiliLoginMode (cf_server c) \<notin> {''startup'', ''controller'', ''anonymous''} then Some Bad_login_mode
     else if rg_RecordingRecoveryDuration (cf_recording c) \<notin> {''preserve'', ''reset''} then Some Bad_recovery_duration
     else if cn_DanmakuOutputFormat cn \<notin> {''jsonl'', ''xml''} then Some Bad_danmaku_format
     else if cn_DanmakuOverflowPolicy cn \<notin> {[], ''drop'', ''block''} then Some Bad_overflow_policy
     else if ac_ServerCrt ac \<noteq> [] \<and> ac_ServerKey ac \<noteq> [] \<and> fr_FRPEnabled fr \<and> \<not> fr_FRPHttps fr then Some Http_tunnel_to_https
     else if fr_FRPEnabled fr \<and> fr_FRPHttps fr \<and> (ac_ServerCrt ac = [] \<or> ac_ServerKey ac = []) then Some Https_tunnel_to_http
     else None)"

text \<open>The server speaks HTTPS when it has both a certificate and a key (\<open>internal/modules/rest\<close>).\<close>

definition server_https :: "config \<Rightarrow> bool" where
  "server_https c \<longleftrightarrow> ac_ServerCrt (cf_access c) \<noteq> [] \<and> ac_ServerKey (cf_access c) \<noteq> []"

section \<open>A validated configuration can be run with\<close>

lemmas config_sizes = LiveStreamWriterFlushPeriodSecs_def LiveStreamWriterChanBufferSize_def LiveStreamWriterBytesPoolSize_def
  ReadStreamBytesPoolSizeOf_def ReadStreamBytesPoolSizeHigh_def ReadStreamChanBufferSizeHigh_def LiveStreamWriterBytesPoolSizeHigh_def
  DanmakuWriterBufferSize_def DanmakuWriterMinPeriodicFlushBytes_def DanmakuWriterFlushPeriodSecs_def DanmakuChanBufferSize_def
  DanmakuBytesPoolSize_def CloudConvertCheckIntervalSecs_def CloudConvertMaxConcurrentDownloads_def FFmpegCheckIntervalSecs_def
  FFmpegMaxConcurrentTasks_def ServeCacheIdleReleaseSecs_def

text \<open>Whatever has been configured, the periods, sizes and numbers of tasks that the other parts read are positive.\<close>

lemma sizes_positive:
  "0 < LiveStreamWriterFlushPeriodSecs c" "0 < LiveStreamWriterChanBufferSize c" "0 < LiveStreamWriterBytesPoolSize c"
  "0 < ReadStreamBytesPoolSizeForQn c qn" "0 < ReadStreamChanBufferSizeHigh c" "0 < LiveStreamWriterBytesPoolSizeHigh c"
  "0 < DanmakuWriterBufferSize c" "0 < DanmakuWriterMinPeriodicFlushBytes c" "0 < DanmakuWriterFlushPeriodSecs c"
  "0 < DanmakuChanBufferSize c" "0 < DanmakuBytesPoolSize c" "0 < CloudConvertCheckIntervalSecs c"
  "0 < CloudConvertMaxConcurrentDownloads c" "0 < FFmpegCheckIntervalSecs c" "0 < FFmpegMaxConcurrentTasks c"
  "0 < ServeCacheIdleReleaseSecs c" "1024 \<le> SkipSmallFlushThreshold c"
  by (simp_all add: config_sizes ReadStreamBytesPoolSizeForQn_def SkipSmallFlushThreshold_def Let_def)

lemma pool_capacities:
  "2 \<le> ReadStreamBytesPoolBoundedCapacity n" "ReadStreamBytesPoolBoundedCapacity n \<le> 16"
  "2 \<le> LiveStreamWriterBytesPoolBoundedCapacityPerBucket n" "LiveStreamWriterBytesPoolBoundedCapacityPerBucket n \<le> 8"
  by (simp_all add: ReadStreamBytesPoolBoundedCapacity_def LiveStreamWriterBytesPoolBoundedCapacityPerBucket_def clampInt_def)

lemma webhook_urls_nonempty: "u \<in> set (ParseWebhookURLs raw) \<Longrightarrow> u \<noteq> []"
  by (auto simp: ParseWebhookURLs_def Let_def split: if_splits)

text \<open>A configuration that passes the validation names modes that the code knows, and a tunnel speaks the protocol that the server
  behind it speaks.\<close>

lemma validated_tunnel:
  assumes "Validate c = None"
  shows "fr_FRPEnabled (cf_frp c) \<longrightarrow> fr_FRPHttps (cf_frp c) = server_https c"
  using assms by (auto simp: Validate_def server_https_def Let_def split: if_splits)

text \<open>Logins are required exactly when both variables are set.\<close>

lemma auth_enabled_by_environment:
  assumes "config_provider lib e = Loaded c" "\<And>p h. gl_hash_password lib p = Some h \<Longrightarrow> h \<noteq> []"
  shows "RestAuthEnabled (rest_settings c) \<longleftrightarrow> e ''USERNAME'' \<noteq> [] \<and> e ''PASSWORD'' \<noteq> []"
proof -
  obtain user viewer urls where "parseUsernameAndPassword lib e ''USERNAME'' ''PASSWORD'' = Some user"
    "cf_access c = load_access urls user viewer e"
    using assms(1) by (auto simp: config_provider_def split: option.splits if_splits)
  then show ?thesis using assms(2)
    by (auto simp: RestAuthEnabled_def rest_settings_def load_access_def parseUsernameAndPassword_def Let_def split: if_splits)
qed

lemma digits_value_bound: "list_all is_digit s \<Longrightarrow> digits_value s < 10 ^ length s"
proof (induction s rule: rev_induct)
  case (snoc c s)
  then have "(of_char c :: nat) \<le> 57" by (simp add: is_digit_def)
  then have "of_char c - 48 \<le> (9 :: nat)" by simp
  then show ?case using snoc by (simp add: digits_value_def)
qed (simp add: digits_value_def)

lemma go_Atoi_digits:
  assumes "s \<noteq> []" "list_all is_digit s" "length s \<le> 18"
  shows "go_Atoi s = Some (int (digits_value s))"
proof -
  obtain c cs where c: "s = c # cs" using assms(1) by (cases s) auto
  then have "c \<noteq> CHR ''-''" "c \<noteq> CHR ''+''" using assms(2) by (auto simp: is_digit_def)
  moreover have "digits_value s < 2 ^ 63"
  proof -
    have "(10 :: nat) ^ length s \<le> 10 ^ 18" using assms(3) by (intro power_increasing) simp_all
    then show ?thesis using digits_value_bound [OF assms(2)] by simp
  qed
  ultimately show ?thesis using assms(2) by (simp add: go_Atoi_def c Let_def)
qed

lemma default_ints: "list_all (\<lambda>(key, d). d \<noteq> [] \<and> list_all is_digit d \<and> length d \<le> 18) config_ints"
  by code_simp

text \<open>With nothing set, and an address of the frontend that parses, the configuration loads and is valid; no login is required,
  and the key that signs tokens is a constant of the source.\<close>

lemma empty_environment_valid:
  assumes "gl_parse_url lib defaultFrontendOrigin = Some (''https'', ''app.bilirec.org'')"
  shows "\<exists>c. config_provider lib (\<lambda>_. []) = Loaded c \<and> Validate c = None \<and> \<not> RestAuthEnabled (rest_settings c) \<and>
    rc_FrontendURLs (rest_settings c) = [defaultFrontendOrigin] \<and> ac_JwtSecret (cf_access c) = ''bilirec_secret''"
proof -
  have "\<not> list_ex (\<lambda>(key, d). go_Atoi (EmptyOrElse [] d) = None) config_ints"
  proof -
    have "go_Atoi d \<noteq> None" if "(key, d) \<in> set config_ints" for key d
      using that default_ints go_Atoi_digits [of d] by (fastforce simp: list_all_iff [of _ config_ints])
    then show ?thesis by (auto simp: list_ex_iff EmptyOrElse_def)
  qed
  moreover have "SplitAndTrim defaultFrontendOrigin = [defaultFrontendOrigin]" "TrimSpace [] = []" by code_simp+
  moreover have "defaultFrontendOrigin = ''https://app.bilirec.org''" by (rule defaultFrontendOrigin_def)
  then have "parseFrontendURLs lib (\<lambda>_. []) = Some [defaultFrontendOrigin]"
    using assms calculation(2,3)
    by (simp add: parseFrontendURLs_def EmptyOrElse_def IsValidAbsoluteHTTPURL_def url_origin_def Unique_def)
  moreover have "parseUsernameAndPassword lib (\<lambda>_. []) k1 k2 = Some ([], [])" for k1 k2
    by (simp add: parseUsernameAndPassword_def)
  moreover have modes: "ToLower (TrimSpace ''controller'') = ''controller''" "ToLower (TrimSpace ''preserve'') = ''preserve''"
    "ToLower (TrimSpace ''jsonl'') = ''jsonl''" "ToLower (TrimSpace ''drop'') = ''drop''" by code_simp+
  ultimately show ?thesis
    by (simp add: config_provider_def Validate_def rest_settings_def RestAuthEnabled_def load_server_def load_frp_def load_recording_def
        load_conversion_def load_access_def EmptyOrElse_def Let_def)
qed

lemma empty_environment_valid_witness:
  "\<exists>c. config_provider \<lparr>gl_hash_password = Some, gl_parse_url = (\<lambda>_. Some (''https'', ''app.bilirec.org'')), gl_parse_duration = (\<lambda>_. None),
      gl_frpTokenInjected = []\<rparr> (\<lambda>_. []) = Loaded c \<and> Validate c = None"
  using empty_environment_valid [of "\<lparr>gl_hash_password = Some, gl_parse_url = (\<lambda>_. Some (''https'', ''app.bilirec.org'')),
      gl_parse_duration = (\<lambda>_. None), gl_frpTokenInjected = []\<rparr>"] by auto

end
