(* ===== verification/StreamRead.thy ===== *)
theory StreamRead
  imports Pools Settings Prelude
begin

text \<open>
  Reading of network bodies: the reader with an idle timeout (\<open>pkg/rw/idle_timeout_reader.go\<close>), the loop that reads an FLV
  stream into pooled chunks (\<open>internal/services/stream\<close>), and the reader of HLS segments (\<open>pkg/hls/segment_body_pool.go\<close>).
  What a body's \<open>Read\<close> returns is an input: some bytes, which fit the buffer, and perhaps an error, possibly with bytes.
\<close>

section \<open>The idle timeout\<close>

datatype read_error = EOF | Read_failed | Idle_timeout read_error | No_body

type_synonym read_result = "bytes \<times> read_error option"

text \<open>Where the caller of \<open>Read\<close> is: it has none running, is in the body's \<open>Read\<close>, has its result and not yet stopped the timer,
  or has stopped it. \<open>ir_firing\<close> are the expired timers whose function has not run, \<open>ir_closing\<close> those that have claimed the
  timeout and not yet closed the body.\<close>

datatype read_pc = No_read | In_read | Has_result read_result | Timer_stopped read_result

record idle_reader =
  ir_pc :: read_pc
  ir_timer :: bool
  ir_fired :: bool
  ir_firing :: nat
  ir_closing :: nat
  ir_closed :: bool
  ir_expired :: nat
  ir_results :: "(read_result \<times> read_result) list"

definition new_idle_reader :: idle_reader where
  "new_idle_reader = \<lparr>ir_pc = No_read, ir_timer = False, ir_fired = False, ir_firing = 0, ir_closing = 0, ir_closed = False,
     ir_expired = 0, ir_results = []\<rparr>"

definition NewIdleTimeoutReadCloser :: "int \<Rightarrow> idle_reader option" where
  "NewIdleTimeoutReadCloser timeout = (if timeout \<le> 0 then None else Some new_idle_reader)"

definition fire_claims :: "idle_reader \<Rightarrow> idle_reader" where
  "fire_claims r =
    (let r = r\<lparr>ir_firing := ir_firing r - 1\<rparr> in
     if ir_fired r then r else r\<lparr>ir_fired := True, ir_closing := ir_closing r + 1\<rparr>)"

definition fire_closes :: "idle_reader \<Rightarrow> idle_reader" where
  "fire_closes r = r\<lparr>ir_closing := ir_closing r - 1, ir_closed := True\<rparr>"

text \<open>\<open>Stop\<close> of the timer fails when it has expired, whether or not its function has run.\<close>

definition readWithTimeout_stop :: "read_result \<Rightarrow> idle_reader \<Rightarrow> idle_reader" where
  "readWithTimeout_stop x r =
    (if ir_timer r then r\<lparr>ir_timer := False, ir_pc := Timer_stopped x\<rparr> else r\<lparr>ir_fired := True, ir_pc := Timer_stopped x\<rparr>)"

definition idle_result :: "bool \<Rightarrow> read_result \<Rightarrow> read_result" where
  "idle_result fired x = (case x of (b, Some e) \<Rightarrow> if fired then (b, Some (Idle_timeout e)) else x | _ \<Rightarrow> x)"

definition idle_Read_end :: "read_result \<Rightarrow> idle_reader \<Rightarrow> idle_reader" where
  "idle_Read_end x r = r\<lparr>ir_pc := No_read, ir_results := ir_results r @ [(x, idle_result (ir_fired r) x)]\<rparr>"

inductive idle_step :: "idle_reader \<Rightarrow> idle_reader \<Rightarrow> bool" where
  begins: "ir_pc r = No_read \<Longrightarrow> idle_step r (r\<lparr>ir_pc := In_read, ir_timer := True\<rparr>)"
| returns: "ir_pc r = In_read \<Longrightarrow> idle_step r (r\<lparr>ir_pc := Has_result x\<rparr>)"
| expires: "ir_timer r \<Longrightarrow> idle_step r (r\<lparr>ir_timer := False, ir_firing := ir_firing r + 1, ir_expired := ir_expired r + 1\<rparr>)"
| claims: "0 < ir_firing r \<Longrightarrow> idle_step r (fire_claims r)"
| closes: "0 < ir_closing r \<Longrightarrow> idle_step r (fire_closes r)"
| stops: "ir_pc r = Has_result x \<Longrightarrow> idle_step r (readWithTimeout_stop x r)"
| ends: "ir_pc r = Timer_stopped x \<Longrightarrow> idle_step r (idle_Read_end x r)"

inductive idle_reach :: "idle_reader \<Rightarrow> bool" where
  new: "idle_reach new_idle_reader"
| step: "idle_reach r \<Longrightarrow> idle_step r q \<Longrightarrow> idle_reach q"

definition idle_inv :: "idle_reader \<Rightarrow> bool" where
  "idle_inv r \<longleftrightarrow>
    (ir_fired r \<longrightarrow> 0 < ir_expired r) \<and> (0 < ir_firing r \<longrightarrow> 0 < ir_expired r) \<and>
    (0 < ir_closing r \<or> ir_closed r \<longrightarrow> ir_fired r) \<and>
    (case ir_pc r of In_read \<Rightarrow> ir_timer r \<or> 0 < ir_expired r | Has_result x \<Rightarrow> ir_timer r \<or> 0 < ir_expired r | _ \<Rightarrow> \<not> ir_timer r) \<and>
    (ir_expired r = 0 \<longrightarrow> (\<forall>p \<in> set (ir_results r). snd p = fst p)) \<and>
    (\<forall>p \<in> set (ir_results r). fst (snd p) = fst (fst p) \<and> (snd (snd p) = None \<longleftrightarrow> snd (fst p) = None))"

lemma idle_result_simps [simp]:
  "fst (idle_result f x) = fst x" "snd (idle_result f x) = None \<longleftrightarrow> snd x = None" "idle_result False x = x"
  by (cases x; simp add: idle_result_def split: option.split)+

lemma idle_reach_inv: "idle_reach r \<Longrightarrow> idle_inv r"
proof (induction rule: idle_reach.induct)
  case new
  show ?case by (simp add: idle_inv_def new_idle_reader_def)
next
  case (step r q)
  from step(2) step.IH show ?case
  proof cases
    case (ends x)
    then show ?thesis using step.IH by (cases "ir_fired r") (auto simp: idle_inv_def idle_Read_end_def)
  next
    case (stops x)
    then show ?thesis using step.IH by (auto simp: idle_inv_def readWithTimeout_stop_def)
  qed (auto simp: idle_inv_def fire_claims_def fire_closes_def Let_def split: read_pc.splits)
qed

text \<open>Without an expired timer the reader is the body's: every \<open>Read\<close> returns what the body returned, and the body stays open.
  In any case the bytes are the body's, and an error stays an error.\<close>

lemma idle_reader_transparent:
  assumes "idle_reach r"
  shows "(ir_expired r = 0 \<longrightarrow> \<not> ir_closed r \<and> (\<forall>p \<in> set (ir_results r). snd p = fst p)) \<and>
    (\<forall>p \<in> set (ir_results r). fst (snd p) = fst (fst p) \<and> (snd (snd p) = None \<longleftrightarrow> snd (fst p) = None))"
  using idle_reach_inv [OF assms] by (auto simp: idle_inv_def)

text \<open>A timer that expires for the first time while the body's \<open>Read\<close> is blocked gets to close the body.\<close>

lemma blocked_read_is_closed:
  assumes "ir_pc r = In_read" "0 < ir_firing r" "\<not> ir_fired r"
  shows "idle_step r (fire_claims r) \<and> idle_step (fire_claims r) (fire_closes (fire_claims r)) \<and>
    ir_closed (fire_closes (fire_claims r)) \<and> ir_pc (fire_closes (fire_claims r)) = In_read"
  using assms idle_step.claims [of r] idle_step.closes [of "fire_claims r"] by (simp add: fire_claims_def fire_closes_def Let_def)

text \<open>When a timer expires just after a \<open>Read\<close> has returned and its function runs after the caller has noticed, nobody closes the
  body, and from then on no timer ever does: a blocked \<open>Read\<close> then waits without limit.\<close>

definition idle_dead :: "idle_reader \<Rightarrow> bool" where
  "idle_dead r \<longleftrightarrow> ir_fired r \<and> \<not> ir_closed r \<and> ir_closing r = 0"

lemma idle_dead_step: "idle_step r q \<Longrightarrow> idle_dead r \<Longrightarrow> idle_dead q"
  by (induction rule: idle_step.induct)
    (auto simp: idle_dead_def fire_claims_def fire_closes_def readWithTimeout_stop_def idle_Read_end_def Let_def)

definition dead_trace :: "idle_reader list" where
  "dead_trace =
    (let r1 = new_idle_reader\<lparr>ir_pc := In_read, ir_timer := True\<rparr>;
         r2 = r1\<lparr>ir_pc := Has_result ([1], None)\<rparr>;
         r3 = r2\<lparr>ir_timer := False, ir_firing := 1, ir_expired := 1\<rparr>;
         r4 = readWithTimeout_stop ([1], None) r3;
         r5 = fire_claims r4;
         r6 = idle_Read_end ([1], None) r5;
         r7 = r6\<lparr>ir_pc := In_read, ir_timer := True\<rparr>
     in [r1, r2, r3, r4, r5, r6, r7])"

lemma idle_timeout_can_be_lost: "\<exists>r. idle_reach r \<and> ir_pc r = In_read \<and> ir_firing r = 0 \<and> (\<forall>q. idle_step\<^sup>*\<^sup>* r q \<longrightarrow> \<not> ir_closed q)"
proof -
  define r where "r = dead_trace ! 6"
  have steps: "idle_step new_idle_reader (dead_trace ! 0)" "idle_step (dead_trace ! 0) (dead_trace ! 1)"
    "idle_step (dead_trace ! 1) (dead_trace ! 2)" "idle_step (dead_trace ! 2) (dead_trace ! 3)" "idle_step (dead_trace ! 3) (dead_trace ! 4)"
    "idle_step (dead_trace ! 4) (dead_trace ! 5)" "idle_step (dead_trace ! 5) (dead_trace ! 6)"
    by (simp_all add: dead_trace_def Let_def idle_step.simps new_idle_reader_def readWithTimeout_stop_def fire_claims_def idle_Read_end_def)
      (rule exI [of _ "([1], None)"], simp)?
  then have reach: "idle_reach r" unfolding r_def by (meson idle_reach.intros)
  have dead: "idle_dead r" "ir_pc r = In_read" "ir_firing r = 0"
    by (simp_all add: r_def dead_trace_def Let_def idle_dead_def new_idle_reader_def readWithTimeout_stop_def fire_claims_def idle_Read_end_def)
  have "idle_dead q" if "idle_step\<^sup>*\<^sup>* r q" for q
    using that by (induction rule: rtranclp_induct) (auto intro: dead(1) idle_dead_step)
  then show ?thesis using reach dead by (auto simp: idle_dead_def)
qed

section \<open>Reading an FLV stream\<close>

text \<open>One turn of the loop: whether the context has ended, what \<open>Read\<close> returns, and whether the context ends the sending of the
  chunk. A buffer is known by the number of its loan from the pool.\<close>

record read_turn =
  rt_ctx_done :: bool
  rt_read :: read_result
  rt_send_cancelled :: bool

datatype read_cleanup = Pool_released | Channel_closed | Stream_closed

record flv_reader =
  fr_loans :: nat
  fr_put :: "nat list"
  fr_sent :: "(nat \<times> bytes) list"
  fr_cleanup :: "read_cleanup list"

definition new_flv_reader :: flv_reader where
  "new_flv_reader = \<lparr>fr_loans = 0, fr_put = [], fr_sent = [], fr_cleanup = []\<rparr>"

definition reader_return :: "flv_reader \<Rightarrow> flv_reader" where
  "reader_return r = r\<lparr>fr_cleanup := fr_cleanup r @ [Pool_released, Channel_closed, Stream_closed]\<rparr>"

definition take_loan :: "flv_reader \<Rightarrow> nat \<times> flv_reader" where
  "take_loan r = (fr_loans r, r\<lparr>fr_loans := fr_loans r + 1\<rparr>)"

definition put_loan :: "nat \<Rightarrow> flv_reader \<Rightarrow> flv_reader" where
  "put_loan b r = r\<lparr>fr_put := fr_put r @ [b]\<rparr>"

fun readFlv :: "read_turn list \<Rightarrow> flv_reader \<Rightarrow> flv_reader" where
  "readFlv [] r = r"
| "readFlv (t # ts) r =
    (if rt_ctx_done t then reader_return r
     else let (buf, r) = take_loan r in
       case rt_read t of
         (_, Some _) \<Rightarrow> reader_return (put_loan buf r)
       | (data, None) \<Rightarrow>
           if data \<noteq> [] then
             (if rt_send_cancelled t then reader_return (put_loan buf r)
              else readFlv ts (r\<lparr>fr_sent := fr_sent r @ [(buf, data)]\<rparr>))
           else readFlv ts (put_loan buf r))"

definition turn_goes_on :: "read_turn \<Rightarrow> bool" where
  "turn_goes_on t \<longleftrightarrow> \<not> rt_ctx_done t \<and> snd (rt_read t) = None \<and> (fst (rt_read t) = [] \<or> \<not> rt_send_cancelled t)"

definition loans_settled :: "flv_reader \<Rightarrow> bool" where
  "loans_settled r \<longleftrightarrow> mset (fr_put r @ map fst (fr_sent r)) = mset [0..<fr_loans r]"

lemmas reader_defs = reader_return_def take_loan_def put_loan_def

lemma readFlv_sent:
  "map snd (fr_sent (readFlv ts r)) = map snd (fr_sent r) @ filter (\<lambda>d. d \<noteq> []) (map (fst \<circ> rt_read) (takeWhile turn_goes_on ts))"
  by (induction ts r rule: readFlv.induct) (auto simp: reader_defs turn_goes_on_def split: prod.split option.split)

lemma mset_upt_Suc [simp]: "mset_set {0..<Suc n} = add_mset n (mset_set {0..<n})"
  by (simp add: atLeastLessThanSuc)

lemma readFlv_loans: "loans_settled r \<Longrightarrow> loans_settled (readFlv ts r)"
  by (induction ts r rule: readFlv.induct) (auto simp: reader_defs loans_settled_def split: prod.split option.split)

lemma readFlv_cleanup:
  "fr_cleanup (readFlv ts r) = fr_cleanup r @ (if \<forall>t \<in> set ts. turn_goes_on t then [] else [Pool_released, Channel_closed, Stream_closed])"
  by (induction ts r rule: readFlv.induct) (auto simp: reader_defs turn_goes_on_def split: prod.split option.split)

lemma loans_settled_new: "loans_settled new_flv_reader"
  by (simp add: loans_settled_def new_flv_reader_def)

lemma flv_chunks:
  "concat (map snd (fr_sent (readFlv ts new_flv_reader))) = concat (map (fst \<circ> rt_read) (takeWhile turn_goes_on ts))"
proof -
  have "concat (filter (\<lambda>d. d \<noteq> []) xs) = concat xs" for xs :: "bytes list" by (induction xs) auto
  then show ?thesis by (simp add: readFlv_sent new_flv_reader_def)
qed


definition demo_turn :: "bytes \<Rightarrow> read_error option \<Rightarrow> read_turn" where
  "demo_turn b e = \<lparr>rt_ctx_done = False, rt_read = (b, e), rt_send_cancelled = False\<rparr>"

definition demo_turns :: "read_turn list" where
  "demo_turns = [demo_turn [1, 2] None, demo_turn [] None, demo_turn [3] None, demo_turn [4] (Some EOF)]"


text \<open>Bytes that \<open>Read\<close> returns together with an error, the end of the stream included, are dropped.\<close>

lemma bytes_with_error_dropped:
  "turn_goes_on t \<Longrightarrow> \<not> rt_ctx_done u \<Longrightarrow> rt_read u = (d, Some EOF) \<Longrightarrow>
    map snd (fr_sent (readFlv [t, u] new_flv_reader)) = filter (\<lambda>d. d \<noteq> []) [fst (rt_read t)]"
  unfolding readFlv_sent by (simp del: readFlv.simps add: turn_goes_on_def new_flv_reader_def)

section \<open>The stream service\<close>

definition newChunkBytesPool :: "int \<Rightarrow> int \<Rightarrow> bucket_pool" where
  "newChunkBytesPool baseSize boundedCap =
    (let baseSize = (if baseSize \<le> 0 then 512 * 1024 else baseSize) in NewBucketedBytesPool baseSize True boundedCap (boundedCap * baseSize))"

record stream_svc =
  ss_chunkPool :: bucket_pool
  ss_highPool :: bucket_pool
  ss_chanBufferSize :: int
  ss_highChanBufferSize :: int
  ss_streamIdleTimeout :: int

definition stream_NewService :: "config \<Rightarrow> stream_svc" where
  "stream_NewService cfg =
    (let n = rd_ReadStreamChanBufferSize (cf_reading cfg); high = ReadStreamChanBufferSizeHigh cfg in
     \<lparr>ss_chunkPool = newChunkBytesPool (rd_ReadStreamBytesPoolSize (cf_reading cfg)) (ReadStreamBytesPoolBoundedCapacity n),
      ss_highPool = newChunkBytesPool (ReadStreamBytesPoolSizeHigh cfg) (ReadStreamBytesPoolBoundedCapacity high),
      ss_chanBufferSize = n, ss_highChanBufferSize = high,
      ss_streamIdleTimeout = wrap64 (sb_StreamIdleTimeoutSecs (cf_subcheck cfg) * 1000000000)\<rparr>)"

definition chanBufferSizeForQn :: "stream_svc \<Rightarrow> int \<Rightarrow> int" where
  "chanBufferSizeForQn s qn = (if IsHighQualityQn qn then ss_highChanBufferSize s else ss_chanBufferSize s)"

definition readBufSizeForQn :: "config \<Rightarrow> int \<Rightarrow> int" where
  "readBufSizeForQn cfg qn = ReadStreamBytesPoolSizeForQn cfg qn"

text \<open>\<open>make\<close> of a channel with a negative size panics.\<close>

definition ReadFlvStream :: "stream_svc \<Rightarrow> int \<Rightarrow> read_turn list \<Rightarrow> flv_reader option" where
  "ReadFlvStream s qn turns = (if chanBufferSizeForQn s qn < 0 then None else Some (readFlv turns new_flv_reader))"

text \<open>The size of the channel for high qualities has a default when it is not positive; the other is used as it is configured.\<close>

lemma ReadFlvStream_panics:
  "ReadFlvStream (stream_NewService cfg) qn turns = None \<longleftrightarrow> \<not> IsHighQualityQn qn \<and> rd_ReadStreamChanBufferSize (cf_reading cfg) < 0"
  using sizes_positive(5) [of cfg] by (simp add: ReadFlvStream_def chanBufferSizeForQn_def stream_NewService_def Let_def)

section \<open>Reading a segment\<close>

definition segmentBodyPoolInitialWant :: int where
  "segmentBodyPoolInitialWant = 256 * 1024"

text \<open>The capacity of a buffer that the pool gives (see \<open>buffers_have_one_holder\<close>).\<close>

definition sized_cap :: "int list \<Rightarrow> int \<Rightarrow> int" where
  "sized_cap sizes n = (if n \<le> 0 then 0 else case findBucketIndex sizes n of None \<Rightarrow> n | Some i \<Rightarrow> sizes ! i)"

record segment_buffer =
  sg_loan :: nat
  sg_cap :: int
  sg_bytes :: bytes
  sg_put :: "nat list"

definition segment_grow :: "int list \<Rightarrow> segment_buffer \<Rightarrow> segment_buffer" where
  "segment_grow sizes g =
    (if int (length (sg_bytes g)) \<ge> sg_cap g
     then g\<lparr>sg_loan := sg_loan g + 1, sg_cap := sized_cap sizes (sg_cap g * 2), sg_put := sg_put g @ [sg_loan g]\<rparr> else g)"

text \<open>The bytes with the loan that holds them, or the error; and the loans that were put back. \<open>None\<close> while \<open>Read\<close> has not returned.\<close>

fun segment_read :: "int list \<Rightarrow> read_result list \<Rightarrow> segment_buffer \<Rightarrow> ((read_error + nat \<times> bytes) \<times> nat list) option" where
  "segment_read sizes [] g = None"
| "segment_read sizes ((d, e) # rs) g =
    (let g = segment_grow sizes g; g = g\<lparr>sg_bytes := sg_bytes g @ d\<rparr> in
     case e of
       Some EOF \<Rightarrow> Some (Inr (sg_loan g, sg_bytes g), sg_put g)
     | Some err \<Rightarrow> Some (Inl err, sg_put g @ [sg_loan g])
     | None \<Rightarrow> segment_read sizes rs g)"

definition ReadSegmentBodyFromPool ::
  "int list \<Rightarrow> int \<Rightarrow> read_result list option \<Rightarrow> ((read_error + nat \<times> bytes) \<times> nat list) option" where
  "ReadSegmentBodyFromPool sizes contentLength body =
    (case body of None \<Rightarrow> Some (Inl No_body, []) | Some rs \<Rightarrow>
     let want = (if contentLength > 0 then contentLength else segmentBodyPoolInitialWant) in
     segment_read sizes rs \<lparr>sg_loan = 0, sg_cap = sized_cap sizes want, sg_bytes = [], sg_put = []\<rparr>)"

lemma sized_cap_ge: "0 < n \<Longrightarrow> sorted sizes \<Longrightarrow> n \<le> sized_cap sizes n"
  using findBucketIndex_smallest [of sizes n] by (auto simp: sized_cap_def split: option.split)

text \<open>Before every \<open>Read\<close> there is room for at least one more byte, so that each can make progress.\<close>

lemma segment_grow_room:
  assumes "sorted sizes" "0 < sg_cap g" "int (length (sg_bytes g)) \<le> sg_cap g"
  shows "int (length (sg_bytes (segment_grow sizes g))) < sg_cap (segment_grow sizes g) \<and> 0 < sg_cap (segment_grow sizes g)"
proof -
  have "sg_cap g * 2 \<le> sized_cap sizes (sg_cap g * 2)" using sized_cap_ge assms(1,2) by simp
  then have "int (length (sg_bytes g)) < sized_cap sizes (sg_cap g * 2)" "0 < sized_cap sizes (sg_cap g * 2)"
    using assms(2,3) by linarith+
  then show ?thesis using assms(2) by (simp add: segment_grow_def)
qed

lemma segment_grow_keeps [simp]: "sg_bytes (segment_grow sizes g) = sg_bytes g"
  by (simp add: segment_grow_def)

lemma segment_grow_loans: "sg_put g = [0..<sg_loan g] \<Longrightarrow> sg_put (segment_grow sizes g) = [0..<sg_loan (segment_grow sizes g)]"
  by (simp add: segment_grow_def)

definition before_error :: "read_result list \<Rightarrow> read_result list" where
  "before_error rs = takeWhile (\<lambda>r. snd r = None) rs"

definition first_error :: "read_result list \<Rightarrow> read_result option" where
  "first_error rs = (case dropWhile (\<lambda>r. snd r = None) rs of [] \<Rightarrow> None | r # _ \<Rightarrow> Some r)"

lemma segment_read_result:
  "sg_put g = [0..<sg_loan g] \<Longrightarrow> first_error rs = Some (d, Some e) \<Longrightarrow>
    \<exists>n \<ge> sg_loan g. segment_read sizes rs g =
      Some (if e = EOF then (Inr (n, sg_bytes g @ concat (map fst (before_error rs)) @ d), [0..<n]) else (Inl e, [0..<Suc n]))"
proof (induction rs arbitrary: g)
  case (Cons r rs)
  obtain b x where r: "r = (b, x)" by fastforce
  let ?g = "segment_grow sizes g"
  have loan: "sg_loan g \<le> sg_loan ?g" by (simp add: segment_grow_def)
  note put = segment_grow_loans [OF Cons.prems(1), of sizes]
  show ?case
  proof (cases x)
    case None
    then obtain n where "n \<ge> sg_loan ?g" "segment_read sizes rs (?g\<lparr>sg_bytes := sg_bytes ?g @ b\<rparr>) =
      Some (if e = EOF then (Inr (n, (sg_bytes g @ b) @ concat (map fst (before_error rs)) @ d), [0..<n]) else (Inl e, [0..<Suc n]))"
      using Cons.IH [of "?g\<lparr>sg_bytes := sg_bytes ?g @ b\<rparr>"] put Cons.prems(2) by (auto simp: r first_error_def)
    then show ?thesis using loan None by (intro exI [of _ n]) (simp add: r Let_def before_error_def)
  next
    case (Some y)
    then have "y = e" "b = d" using Cons.prems(2) by (simp_all add: r first_error_def)
    then show ?thesis using loan put Some
      by (intro exI [of _ "sg_loan ?g"]) (cases e; simp add: r Let_def before_error_def)
  qed
qed (simp add: first_error_def)

text \<open>The body of a segment is read whole: at its end the result is all bytes, those that came with the end included, in the one
  buffer that was not put back; after an error every buffer has been put back.\<close>

lemma segment_body_complete:
  assumes "first_error rs = Some (d, Some e)"
  shows "\<exists>n. ReadSegmentBodyFromPool sizes contentLength (Some rs) =
    Some (if e = EOF then (Inr (n, concat (map fst (before_error rs)) @ d), [0..<n]) else (Inl e, [0..<Suc n]))"
  using segment_read_result [OF _ assms, of "\<lparr>sg_loan = 0, sg_cap = sized_cap sizes (if contentLength > 0 then contentLength else segmentBodyPoolInitialWant), sg_bytes = [], sg_put = []\<rparr>" sizes]
  by (auto simp: ReadSegmentBodyFromPool_def Let_def)

text \<open>Of the same body, the FLV reader and the reader of segments keep the same bytes but those that come with the end.\<close>

lemma readers_differ_in_last_bytes:
  assumes "first_error rs = Some (d, Some EOF)"
  defines "chunks \<equiv> map snd (fr_sent (readFlv (map (\<lambda>r. demo_turn (fst r) (snd r)) rs) new_flv_reader))"
  shows "\<exists>n. ReadSegmentBodyFromPool sizes contentLength (Some rs) = Some (Inr (n, concat chunks @ d), [0..<n])"
proof -
  have "turn_goes_on \<circ> (\<lambda>r. demo_turn (fst r) (snd r)) = (\<lambda>r. snd r = None)"
    by (simp add: fun_eq_iff turn_goes_on_def demo_turn_def)
  then have "concat chunks = concat (map fst (before_error rs))"
    using flv_chunks [of "map (\<lambda>r. demo_turn (fst r) (snd r)) rs"]
    by (simp add: chunks_def takeWhile_map before_error_def comp_def demo_turn_def)
  then show ?thesis using segment_body_complete [OF assms(1)] by simp
qed

end
