(* ===== verification/QrLogin.thy ===== *)
theory QrLogin
  imports Prelude
begin

text \<open>
  Login to the account by QR code (\<open>internal/modules/bilibili/auth.go\<close>, \<open>session.go\<close>, \<open>internal/controllers/auth\<close>). Requests
  to begin a login overlap with each other and with the goroutine that waits for the scan; each load, compare-and-swap or call
  of the API is a step. What the API answers is an input.
\<close>

section \<open>The session\<close>

datatype auth_state = StateIdle | StatePreloaded | StateAwaitingQR | StateAuthenticated | StateFailed | StateQRExpired

datatype qr_error = ErrNotControllerMode | ErrQRCodeLoginInProgress | Qrcode_failed | Login_failed | Login_refused int | Account_failed

text \<open>\<open>as_cancel\<close> is the context of the goroutine that refreshes the cookies.\<close>

record auth_session =
  as_State :: auth_state
  as_QrcodeURL :: string
  as_Account :: "string option"
  as_Error :: "qr_error option"
  as_cancel :: "nat option"

definition idle_session :: auth_session where
  "idle_session = \<lparr>as_State = StateIdle, as_QrcodeURL = [], as_Account = None, as_Error = None, as_cancel = None\<rparr>"

text \<open>\<open>GetSession\<close> copies the stored session; \<open>updateSession\<close> retries until nobody has stored another one meanwhile, so that its
  function is applied to the session that it replaces.\<close>

definition GetSession :: "auth_session option \<Rightarrow> auth_session" where
  "GetSession stored = (case stored of None \<Rightarrow> idle_session | Some s \<Rightarrow> s)"

definition updateSession :: "(auth_session \<Rightarrow> auth_session) \<Rightarrow> auth_session option \<Rightarrow> auth_session option" where
  "updateSession f stored = Some (f (GetSession stored))"

section \<open>Requests and the login goroutine\<close>

text \<open>Where a call of \<open>InitQRLogin\<close> is: it has its copy of the session; holds the flag; has a QR code with its key; has failed to
  get one; has recorded the failure; has cancelled the refreshing of cookies; has announced the code; or has returned.\<close>

datatype init_pc =
    Snapped auth_session | Holding auth_session | Got_qrcode auth_session string string | No_qrcode | Failure_recorded
  | Refresh_cancelled string string | Announced string string | Answered "qr_error + string"

text \<open>Where a \<open>performQRLogin\<close> is: it waits for the scan; the scan has given a token; the session is authenticated and the
  credentials are to be saved; or only the flag is to be released.\<close>

datatype login_pc = Polling string | Logged_in string | Saving string nat | Releasing

record qr_client =
  qc_session :: "auth_session option"
  qc_holding :: bool
  qc_next :: nat
  qc_cancelled :: "nat list"
  qc_refreshers :: "nat list"
  qc_inits :: "init_pc list"
  qc_logins :: "login_pc list"

text \<open>\<open>cancelAutoRefreshCookies\<close>.\<close>

definition cancelAutoRefreshCookies :: "auth_session \<Rightarrow> qr_client \<Rightarrow> qr_client" where
  "cancelAutoRefreshCookies s c = (case as_cancel s of None \<Rightarrow> c | Some x \<Rightarrow> c\<lparr>qc_cancelled := x # qc_cancelled c\<rparr>)"

definition init_begin :: "string \<Rightarrow> qr_client \<Rightarrow> init_pc" where
  "init_begin mode c =
    (if mode \<noteq> ''controller'' then Answered (Inl ErrNotControllerMode)
     else let session = GetSession (qc_session c) in
       if as_State session = StateAwaitingQR \<and> as_QrcodeURL session \<noteq> [] then Answered (Inr (as_QrcodeURL session))
       else Snapped session)"

definition failed_with :: "auth_state \<Rightarrow> qr_error \<Rightarrow> auth_session \<Rightarrow> auth_session" where
  "failed_with state err s = s\<lparr>as_State := state, as_QrcodeURL := [], as_Error := Some err\<rparr>"

text \<open>The next step of a call of \<open>InitQRLogin\<close>; \<open>code\<close> is what \<open>GetQRCode\<close> returns, a URL with a key.\<close>

fun InitQRLogin :: "(string \<times> string) option \<Rightarrow> init_pc \<Rightarrow> qr_client \<Rightarrow> init_pc \<times> qr_client" where
  "InitQRLogin code (Snapped s) c =
    (if qc_holding c then (Answered (Inl ErrQRCodeLoginInProgress), c) else (Holding s, c\<lparr>qc_holding := True\<rparr>))"
| "InitQRLogin code (Holding s) c = (case code of None \<Rightarrow> (No_qrcode, c) | Some (url, key) \<Rightarrow> (Got_qrcode s url key, c))"
| "InitQRLogin code No_qrcode c =
    (Failure_recorded, c\<lparr>qc_session := updateSession (\<lambda>s. s\<lparr>as_State := StateFailed, as_Error := Some Qrcode_failed\<rparr>) (qc_session c)\<rparr>)"
| "InitQRLogin code Failure_recorded c = (Answered (Inl Qrcode_failed), c\<lparr>qc_holding := False\<rparr>)"
| "InitQRLogin code (Got_qrcode s url key) c = (Refresh_cancelled url key, cancelAutoRefreshCookies s c)"
| "InitQRLogin code (Refresh_cancelled url key) c =
    (Announced url key, c\<lparr>qc_session := updateSession
       (\<lambda>s. s\<lparr>as_State := StateAwaitingQR, as_QrcodeURL := url, as_Error := None, as_cancel := None\<rparr>) (qc_session c)\<rparr>)"
| "InitQRLogin code (Announced url key) c = (Answered (Inr url), c\<lparr>qc_logins := Polling key # qc_logins c\<rparr>)"
| "InitQRLogin code (Answered r) c = (Answered r, c)"

text \<open>What \<open>LoginWithQRCode\<close> returns: an error, or a code with the refresh token.\<close>

type_synonym login_result = "(int \<times> string) option"

text \<open>The next step of \<open>performQRLogin\<close>; \<open>account\<close> is what \<open>GetAccountInformation\<close> returns. Failures to write the credentials are only
  logged.\<close>

fun performQRLogin :: "login_result \<Rightarrow> string option \<Rightarrow> login_pc \<Rightarrow> qr_client \<Rightarrow> login_pc option \<times> qr_client" where
  "performQRLogin result account (Polling key) c =
    (case result of
       None \<Rightarrow> (Some Releasing, c\<lparr>qc_session := updateSession (failed_with StateFailed Login_failed) (qc_session c)\<rparr>)
     | Some (code, token) \<Rightarrow>
         if code = 86038 then
           (Some Releasing, c\<lparr>qc_session := updateSession (failed_with StateQRExpired (Login_refused code)) (qc_session c)\<rparr>)
         else if code = 0 then (Some (Logged_in token), c)
         else (Some Releasing, c\<lparr>qc_session := updateSession (failed_with StateFailed (Login_refused code)) (qc_session c)\<rparr>))"
| "performQRLogin result account (Logged_in token) c =
    (case account of
       Some acc \<Rightarrow>
         (Some (Saving token (qc_next c)), c\<lparr>qc_next := qc_next c + 1, qc_session := updateSession
            (\<lambda>s. s\<lparr>as_State := StateAuthenticated, as_QrcodeURL := [], as_Account := Some acc, as_Error := None,
               as_cancel := Some (qc_next c)\<rparr>) (qc_session c)\<rparr>)
     | None \<Rightarrow> (Some Releasing, c\<lparr>qc_session := updateSession (failed_with StateFailed Account_failed) (qc_session c)\<rparr>))"
| "performQRLogin result account (Saving token ctx) c = (Some Releasing, c\<lparr>qc_refreshers := ctx # qc_refreshers c\<rparr>)"
| "performQRLogin result account Releasing c = (None, c\<lparr>qc_holding := False\<rparr>)"

definition login_turn :: "login_result \<Rightarrow> string option \<Rightarrow> nat \<Rightarrow> qr_client \<Rightarrow> qr_client" where
  "login_turn result account i c =
    (let (pc, c) = performQRLogin result account (qc_logins c ! i) c in
     c\<lparr>qc_logins := take i (qc_logins c) @ (case pc of None \<Rightarrow> [] | Some p \<Rightarrow> [p]) @ drop (Suc i) (qc_logins c)\<rparr>)"

definition init_turn :: "(string \<times> string) option \<Rightarrow> nat \<Rightarrow> qr_client \<Rightarrow> qr_client" where
  "init_turn code i c = (let (pc, c) = InitQRLogin code (qc_inits c ! i) c in c\<lparr>qc_inits := (qc_inits c)[i := pc]\<rparr>)"

inductive qr_step :: "string \<Rightarrow> qr_client \<Rightarrow> qr_client \<Rightarrow> bool" for mode where
  request: "qr_step mode c (c\<lparr>qc_inits := qc_inits c @ [init_begin mode c]\<rparr>)"
| init: "i < length (qc_inits c) \<Longrightarrow> qr_step mode c (init_turn code i c)"
| login: "i < length (qc_logins c) \<Longrightarrow> qr_step mode c (login_turn result account i c)"

text \<open>At the start \<open>preloadCookies\<close> may have found credentials (the context 0 refreshes them).\<close>

definition qr_start :: "string option \<Rightarrow> qr_client" where
  "qr_start preloaded =
    \<lparr>qc_session = (case preloaded of
        None \<Rightarrow> None
      | Some acc \<Rightarrow> Some (idle_session\<lparr>as_State := StatePreloaded, as_Account := Some acc, as_cancel := Some 0\<rparr>)),
     qc_holding = False, qc_next = 1, qc_cancelled = [], qc_refreshers = (if preloaded = None then [] else [0]), qc_inits = [], qc_logins = []\<rparr>"

inductive qr_reach :: "string \<Rightarrow> qr_client \<Rightarrow> bool" for mode where
  start: "qr_reach mode (qr_start preloaded)"
| step: "qr_reach mode c \<Longrightarrow> qr_step mode c d \<Longrightarrow> qr_reach mode d"

section \<open>Invariant\<close>

fun holds_flag :: "init_pc \<Rightarrow> bool" where
  "holds_flag (Snapped s) \<longleftrightarrow> False"
| "holds_flag (Answered r) \<longleftrightarrow> False"
| "holds_flag pc \<longleftrightarrow> True"

definition qr_holders :: "qr_client \<Rightarrow> nat" where
  "qr_holders c = length (filter holds_flag (qc_inits c)) + length (qc_logins c)"

definition qr_now :: "qr_client \<Rightarrow> auth_session" where
  "qr_now c = GetSession (qc_session c)"

definition refreshed :: "qr_client \<Rightarrow> bool" where
  "refreshed c \<longleftrightarrow> (\<exists>x. as_cancel (qr_now c) = Some x \<and> x \<in> set (qc_refreshers c) \<and> x \<notin> set (qc_cancelled c))"

definition logged_state :: "auth_state \<Rightarrow> bool" where
  "logged_state s \<longleftrightarrow> s = StateAuthenticated \<or> s = StatePreloaded"

fun pc_contexts :: "init_pc \<Rightarrow> nat set" where
  "pc_contexts (Snapped s) = set_option (as_cancel s)"
| "pc_contexts (Holding s) = set_option (as_cancel s)"
| "pc_contexts (Got_qrcode s url key) = set_option (as_cancel s)"
| "pc_contexts pc = {}"

definition qr_contexts :: "qr_client \<Rightarrow> nat set" where
  "qr_contexts c = set (qc_cancelled c) \<union> set_option (as_cancel (qr_now c)) \<union> \<Union> (pc_contexts ` set (qc_inits c))"

definition contexts_old :: "qr_client \<Rightarrow> bool" where
  "contexts_old c \<longleftrightarrow> (\<forall>x \<in> qr_contexts c. x < qc_next c)"

definition session_ok :: "auth_session \<Rightarrow> bool" where
  "session_ok s \<longleftrightarrow> (as_QrcodeURL s \<noteq> [] \<longrightarrow> as_State s = StateAwaitingQR) \<and>
    (as_Error s \<noteq> None \<longleftrightarrow> as_State s = StateFailed \<or> as_State s = StateQRExpired) \<and> (logged_state (as_State s) \<longrightarrow> as_Account s \<noteq> None)"

text \<open>What the one holder of the flag stands for.\<close>

fun init_phase :: "qr_client \<Rightarrow> init_pc \<Rightarrow> bool" where
  "init_phase c (Refresh_cancelled url key) \<longleftrightarrow> as_State (qr_now c) \<noteq> StateAwaitingQR"
| "init_phase c (Announced url key) \<longleftrightarrow> as_State (qr_now c) = StateAwaitingQR"
| "init_phase c pc \<longleftrightarrow> as_State (qr_now c) \<noteq> StateAwaitingQR \<and> (logged_state (as_State (qr_now c)) \<longrightarrow> refreshed c)"

fun login_phase :: "qr_client \<Rightarrow> login_pc \<Rightarrow> bool" where
  "login_phase c (Polling key) \<longleftrightarrow> as_State (qr_now c) = StateAwaitingQR"
| "login_phase c (Logged_in token) \<longleftrightarrow> as_State (qr_now c) = StateAwaitingQR"
| "login_phase c (Saving token x) \<longleftrightarrow> as_State (qr_now c) = StateAuthenticated \<and> as_cancel (qr_now c) = Some x \<and> x \<notin> set (qc_cancelled c)"
| "login_phase c Releasing \<longleftrightarrow> as_State (qr_now c) \<noteq> StateAwaitingQR \<and> (logged_state (as_State (qr_now c)) \<longrightarrow> refreshed c)"

definition qr_phase :: "qr_client \<Rightarrow> bool" where
  "qr_phase c \<longleftrightarrow>
    (if qc_holding c
     then (\<exists>pc. filter holds_flag (qc_inits c) = [pc] \<and> qc_logins c = [] \<and> init_phase c pc) \<or>
          (\<exists>pc. filter holds_flag (qc_inits c) = [] \<and> qc_logins c = [pc] \<and> login_phase c pc)
     else filter holds_flag (qc_inits c) = [] \<and> qc_logins c = [] \<and> as_State (qr_now c) \<noteq> StateAwaitingQR \<and>
          (logged_state (as_State (qr_now c)) \<longrightarrow> refreshed c))"

definition qr_inv :: "qr_client \<Rightarrow> bool" where
  "qr_inv c \<longleftrightarrow> contexts_old c \<and> session_ok (qr_now c) \<and> qr_phase c"

lemma GetSession_updateSession [simp]: "GetSession (updateSession f s) = f (GetSession s)"
  by (simp add: updateSession_def GetSession_def)

lemma filter_update:
  assumes "i < length xs"
  shows "P (xs ! i) \<Longrightarrow> filter P xs = [x] \<Longrightarrow> x = xs ! i \<and> filter P (xs[i := y]) = (if P y then [y] else [])"
    and "\<not> P (xs ! i) \<Longrightarrow> \<not> P y \<Longrightarrow> filter P (xs[i := y]) = filter P xs"
    and "\<not> P (xs ! i) \<Longrightarrow> P y \<Longrightarrow> filter P xs = [] \<Longrightarrow> filter P (xs[i := y]) = [y]"
    and "filter P xs = [] \<Longrightarrow> \<not> P (xs ! i)"
proof -
  have x: "xs = take i xs @ xs ! i # drop (Suc i) xs" by (rule id_take_nth_drop [OF assms])
  have f: "filter P xs = filter P (take i xs) @ (if P (xs ! i) then [xs ! i] else []) @ filter P (drop (Suc i) xs)"
    by (subst x, subst filter_append) simp
  have u: "filter P (xs[i := y]) = filter P (take i xs) @ (if P y then [y] else []) @ filter P (drop (Suc i) xs)"
    by (simp add: upd_conv_take_nth_drop [OF assms])
  show "P (xs ! i) \<Longrightarrow> filter P xs = [x] \<Longrightarrow> x = xs ! i \<and> filter P (xs[i := y]) = (if P y then [y] else [])"
    unfolding f u by (auto simp: append_eq_Cons_conv)
  show "\<not> P (xs ! i) \<Longrightarrow> \<not> P y \<Longrightarrow> filter P (xs[i := y]) = filter P xs" unfolding f u by simp
  show "\<not> P (xs ! i) \<Longrightarrow> P y \<Longrightarrow> filter P xs = [] \<Longrightarrow> filter P (xs[i := y]) = [y]" unfolding f u by simp
  show "filter P xs = [] \<Longrightarrow> \<not> P (xs ! i)" unfolding f by (auto split: if_splits)
qed

lemma qr_now_simps [simp]:
  "qr_now (c\<lparr>qc_session := updateSession f x\<rparr>) = f (GetSession x)" "qr_now (c\<lparr>qc_holding := b\<rparr>) = qr_now c"
  "qr_now (c\<lparr>qc_logins := ls\<rparr>) = qr_now c" "qr_now (c\<lparr>qc_cancelled := xs\<rparr>) = qr_now c"
  "qr_now (c\<lparr>qc_refreshers := xs\<rparr>) = qr_now c" "qr_now (c\<lparr>qc_next := n\<rparr>) = qr_now c" "qr_now (c\<lparr>qc_inits := is\<rparr>) = qr_now c"
  "GetSession (qc_session c) = qr_now c"
  by (simp_all add: qr_now_def)

lemma session_ok_awaiting:
  "session_ok (s\<lparr>as_State := StateAwaitingQR, as_QrcodeURL := url, as_Error := None, as_cancel := None\<rparr>)"
  by (simp add: session_ok_def logged_state_def)

lemma session_ok_failed:
  "state = StateFailed \<or> state = StateQRExpired \<Longrightarrow> session_ok (failed_with state err s)"
  by (auto simp: session_ok_def logged_state_def failed_with_def)

lemma session_ok_no_qrcode:
  "session_ok s \<Longrightarrow> as_State s \<noteq> StateAwaitingQR \<Longrightarrow> session_ok (s\<lparr>as_State := StateFailed, as_Error := Some err\<rparr>)"
  by (simp add: session_ok_def logged_state_def)

text \<open>A step of a request that does not hold the flag only reads, or claims it.\<close>

lemma qr_phase_holder:
  assumes "qr_phase c" "i < length (qc_inits c)" "holds_flag (qc_inits c ! i)"
  shows "qc_holding c \<and> filter holds_flag (qc_inits c) = [qc_inits c ! i] \<and> qc_logins c = [] \<and> init_phase c (qc_inits c ! i)"
  using assms filter_update(1,4) [OF assms(2), of holds_flag] unfolding qr_phase_def by (auto split: if_splits)

lemma qr_phase_login:
  assumes "qr_phase c" "i < length (qc_logins c)"
  shows "qc_holding c \<and> filter holds_flag (qc_inits c) = [] \<and> qc_logins c = [qc_logins c ! i] \<and> i = 0 \<and> login_phase c (qc_logins c ! i)"
  using assms unfolding qr_phase_def by (auto split: if_splits)

lemma phase_inits [simp]:
  "refreshed (c\<lparr>qc_inits := xs\<rparr>) = refreshed c" "init_phase (c\<lparr>qc_inits := xs\<rparr>) pc = init_phase c pc" "login_phase (c\<lparr>qc_inits := xs\<rparr>) l = login_phase c l"
  by (cases pc; cases l; simp add: refreshed_def)+

lemma contexts_old_init:
  assumes "contexts_old c"
    "as_cancel (qr_now d) = as_cancel (qr_now c) \<or> as_cancel (qr_now d) = None" "pc_contexts q \<subseteq> pc_contexts (qc_inits c ! i)"
    "i < length (qc_inits c)" "set (qc_cancelled d) \<subseteq> set (qc_cancelled c) \<union> pc_contexts (qc_inits c ! i)" "qc_next d = qc_next c"
    "qc_inits d = qc_inits c"
  shows "contexts_old (d\<lparr>qc_inits := (qc_inits c)[i := q]\<rparr>)"
proof -
  have "pc_contexts (qc_inits c ! i) \<subseteq> \<Union> (pc_contexts ` set (qc_inits c))" using nth_mem [OF assms(4)] by blast
  moreover have "\<Union> (pc_contexts ` set ((qc_inits c)[i := q])) \<subseteq> pc_contexts q \<union> \<Union> (pc_contexts ` set (qc_inits c))"
    using set_update_subset_insert [of "qc_inits c" i q] by auto
  ultimately have "qr_contexts (d\<lparr>qc_inits := (qc_inits c)[i := q]\<rparr>) \<subseteq> qr_contexts c"
    using assms(2,3,5) by (fastforce simp: qr_contexts_def)
  then show ?thesis using assms(1,6) by (auto simp: contexts_old_def)
qed

lemma InitQRLogin_inits: "InitQRLogin code pc c = (q, d) \<Longrightarrow> qc_inits d = qc_inits c"
  by (cases pc) (auto simp: cancelAutoRefreshCookies_def split: if_splits option.splits)

lemma qr_inv_init:
  assumes "qr_inv c" "i < length (qc_inits c)"
  shows "qr_inv (init_turn code i c)"
proof -
  have o: "contexts_old c" and s: "session_ok (qr_now c)" and p: "qr_phase c" using assms(1) by (simp_all add: qr_inv_def)
  obtain q d where t: "InitQRLogin code (qc_inits c ! i) c = (q, d)" by fastforce
  have inits: "qc_inits d = qc_inits c" by (rule InitQRLogin_inits [OF t])
  then have turn: "init_turn code i c = d\<lparr>qc_inits := (qc_inits c)[i := q]\<rparr>" by (simp add: init_turn_def t)
  have "as_cancel (qr_now d) = as_cancel (qr_now c) \<or> as_cancel (qr_now d) = None"
    using t by (cases "qc_inits c ! i") (auto simp: cancelAutoRefreshCookies_def split: if_splits option.splits)
  moreover have "pc_contexts q \<subseteq> pc_contexts (qc_inits c ! i)"
    using t by (cases "qc_inits c ! i") (auto split: if_splits option.splits)
  moreover have "set (qc_cancelled d) \<subseteq> set (qc_cancelled c) \<union> pc_contexts (qc_inits c ! i)" "qc_next d = qc_next c"
    using t by (cases "qc_inits c ! i"; auto simp: cancelAutoRefreshCookies_def split: if_splits option.splits)+
  ultimately have "contexts_old (d\<lparr>qc_inits := (qc_inits c)[i := q]\<rparr>)" by (rule contexts_old_init [OF o _ _ assms(2) _ _ inits])
  moreover have "session_ok (qr_now d) \<and> qr_phase (d\<lparr>qc_inits := (qc_inits c)[i := q]\<rparr>)"
  proof (cases "holds_flag (qc_inits c ! i)")
    case True
    note h = qr_phase_holder [OF p assms(2) True]
    have f: "filter holds_flag ((qc_inits c)[i := q]) = (if holds_flag q then [q] else [])"
      using filter_update(1) [OF assms(2), of holds_flag] h True by metis
    show ?thesis
    proof (cases "qc_inits c ! i")
      case (Holding x)
      then show ?thesis using t h s f by (cases code) (auto simp: qr_phase_def)
    next
      case (Got_qrcode x url key)
      then show ?thesis using t h s f by (cases "as_cancel x") (auto simp: cancelAutoRefreshCookies_def qr_phase_def)
    next
      case No_qrcode
      then show ?thesis using t h f session_ok_no_qrcode [OF s] by (auto simp: qr_phase_def logged_state_def)
    next
      case Failure_recorded
      then show ?thesis using t h f s by (auto simp: qr_phase_def refreshed_def)
    next
      case (Refresh_cancelled url key)
      then show ?thesis using t h f by (auto simp: qr_phase_def session_ok_awaiting)
    next
      case (Announced url key)
      then show ?thesis using t h f s by (auto simp: qr_phase_def)
    qed (use True in simp_all)
  next
    case False
    note keep = filter_update(2) [OF assms(2), of holds_flag q, OF False]
      and claim = filter_update(3) [OF assms(2), of holds_flag q, OF False]
    show ?thesis
    proof (cases "qc_inits c ! i")
      case (Snapped x)
      then show ?thesis using t p s keep claim by (cases "qc_holding c") (auto simp: qr_phase_def refreshed_def)
    next
      case (Answered r)
      then show ?thesis using t p s keep by (auto simp: qr_phase_def)
    qed (use False in simp_all)
  qed
  ultimately show ?thesis by (simp add: qr_inv_def turn)
qed

lemma qr_inv_login:
  assumes "qr_inv c" "i < length (qc_logins c)"
  shows "qr_inv (login_turn result account i c)"
proof -
  have o: "contexts_old c" and s: "session_ok (qr_now c)" and p: "qr_phase c" using assms(1) by (simp_all add: qr_inv_def)
  obtain l where l: "qc_logins c = [l]" "i = 0" "login_phase c l" "qc_holding c" "filter holds_flag (qc_inits c) = []"
    using qr_phase_login [OF p assms(2)] by blast
  have fresh: "qc_next c \<notin> set (qc_cancelled c)" using o by (auto simp: contexts_old_def qr_contexts_def)
  have old: "contexts_old (c\<lparr>qc_logins := ls\<rparr>)" for ls using o by (simp add: contexts_old_def qr_contexts_def)
  show ?thesis
  proof (cases l)
    case (Polling key)
    have fail: "qr_inv (c\<lparr>qc_session := updateSession (failed_with state err) (qc_session c), qc_logins := [Releasing]\<rparr>)"
      if "state = StateFailed \<or> state = StateQRExpired" for state err
      using o l that session_ok_failed [OF that]
      by (auto simp: qr_inv_def contexts_old_def qr_contexts_def qr_phase_def failed_with_def logged_state_def)
    show ?thesis
    proof (cases result)
      case None
      then show ?thesis using fail l Polling by (simp add: login_turn_def)
    next
      case (Some r)
      then show ?thesis using fail l Polling o s p
        by (cases r) (simp add: login_turn_def qr_inv_def old qr_phase_def)
    qed
  next
    case (Logged_in token)
    show ?thesis
    proof (cases account)
      case None
      then show ?thesis using o l Logged_in session_ok_failed [of StateFailed Account_failed "qr_now c"]
        by (auto simp: login_turn_def qr_inv_def contexts_old_def qr_contexts_def qr_phase_def failed_with_def logged_state_def)
    next
      case (Some acc)
      let ?d = "login_turn result account i c"
      have "\<forall>x \<in> qr_contexts ?d. x = qc_next c \<or> x \<in> qr_contexts c" "qc_next ?d = Suc (qc_next c)"
        using l Logged_in Some by (auto simp: login_turn_def qr_contexts_def)
      then have "contexts_old ?d" using o by (metis contexts_old_def less_Suc_eq)
      moreover have "session_ok (qr_now ?d)" "qr_phase ?d"
        using l Logged_in Some fresh by (simp_all add: login_turn_def session_ok_def qr_phase_def logged_state_def)
      ultimately show ?thesis by (simp add: qr_inv_def)
    qed
  next
    case (Saving token x)
    then show ?thesis using o s l
      by (auto simp: login_turn_def qr_inv_def contexts_old_def qr_contexts_def qr_phase_def refreshed_def)
  next
    case Releasing
    then show ?thesis using o s l
      by (auto simp: login_turn_def qr_inv_def contexts_old_def qr_contexts_def qr_phase_def refreshed_def)
  qed
qed

lemma qr_inv_request: "qr_inv c \<Longrightarrow> qr_inv (c\<lparr>qc_inits := qc_inits c @ [init_begin mode c]\<rparr>)"
proof -
  assume a: "qr_inv c"
  have "pc_contexts (init_begin mode c) \<subseteq> set_option (as_cancel (qr_now c))" "\<not> holds_flag (init_begin mode c)"
    by (simp_all add: init_begin_def Let_def)
  then show ?thesis using a by (auto simp: qr_inv_def contexts_old_def qr_contexts_def qr_phase_def)
qed

lemma qr_reach_inv: "qr_reach mode c \<Longrightarrow> qr_inv c"
proof (induction rule: qr_reach.induct)
  case (start preloaded)
  show ?case
    by (cases preloaded) (auto simp: qr_inv_def qr_start_def contexts_old_def qr_contexts_def session_ok_def qr_phase_def refreshed_def
        logged_state_def qr_now_def GetSession_def idle_session_def)
next
  case (step c d)
  from step(2) show ?case using step.IH qr_inv_request qr_inv_init qr_inv_login by cases auto
qed

section \<open>One login at a time, and each comes to its end\<close>

text \<open>However requests overlap, at most one login is under way; the session awaits a scan only while one is; otherwise it
  shows an error exactly when the last login failed or expired; and when it shows an account as logged in, that is the account it
  names and a goroutine refreshes its cookies.\<close>

lemma qr_session_tells_the_truth:
  assumes "qr_reach mode c"
  shows "qr_holders c \<le> 1 \<and> (as_State (qr_now c) = StateAwaitingQR \<longrightarrow> qr_holders c = 1) \<and>
    (as_Error (qr_now c) \<noteq> None \<longleftrightarrow> as_State (qr_now c) \<in> {StateFailed, StateQRExpired}) \<and>
    (as_State (qr_now c) \<in> {StateAuthenticated, StatePreloaded} \<and> \<not> qc_holding c \<longrightarrow> as_Account (qr_now c) \<noteq> None \<and> refreshed c)"
  using qr_reach_inv [OF assms]
  by (auto simp: qr_inv_def qr_phase_def qr_holders_def session_ok_def logged_state_def split: if_splits)

text \<open>The next step of the holder of the flag, for any answers of the API.\<close>

definition holder_index :: "qr_client \<Rightarrow> nat" where
  "holder_index c = length (takeWhile (\<lambda>pc. \<not> holds_flag pc) (qc_inits c))"

definition holder_turn :: "(string \<times> string) option \<times> login_result \<times> string option \<Rightarrow> qr_client \<Rightarrow> qr_client" where
  "holder_turn x c =
    (case x of (code, result, account) \<Rightarrow>
       if \<not> qc_holding c then c
       else if qc_logins c \<noteq> [] then login_turn result account 0 c
       else init_turn code (holder_index c) c)"

fun init_rank :: "init_pc \<Rightarrow> nat" where
  "init_rank (Holding s) = 10"
| "init_rank (Got_qrcode s url key) = 9"
| "init_rank (Refresh_cancelled url key) = 8"
| "init_rank (Announced url key) = 7"
| "init_rank No_qrcode = 2"
| "init_rank Failure_recorded = 1"
| "init_rank pc = 0"

fun login_rank :: "login_pc \<Rightarrow> nat" where
  "login_rank (Polling key) = 6"
| "login_rank (Logged_in token) = 5"
| "login_rank (Saving token x) = 3"
| "login_rank Releasing = 1"

definition qr_rank :: "qr_client \<Rightarrow> nat" where
  "qr_rank c = sum_list (map init_rank (filter holds_flag (qc_inits c))) + sum_list (map login_rank (qc_logins c))"

lemma rank_nonzero: "holds_flag pc \<Longrightarrow> 0 < init_rank pc" "login_rank l \<noteq> 0"
  by (cases pc; simp) (cases l; simp)

lemma init_rank_decreases:
  "InitQRLogin code pc c = (q, d) \<Longrightarrow> holds_flag pc \<Longrightarrow> qc_logins c = [] \<Longrightarrow>
    sum_list (map init_rank (if holds_flag q then [q] else [])) + sum_list (map login_rank (qc_logins d)) < init_rank pc"
  by (cases pc) (auto simp: cancelAutoRefreshCookies_def split: option.splits)

lemma takeWhile_stops: "\<exists>x \<in> set xs. \<not> P x \<Longrightarrow> length (takeWhile P xs) < length xs"
  by (induction xs) auto

lemma holder_index_holds:
  assumes "filter holds_flag (qc_inits c) = [pc]"
  shows "holder_index c < length (qc_inits c) \<and> holds_flag (qc_inits c ! holder_index c)"
proof -
  have "\<exists>p \<in> set (qc_inits c). holds_flag p" using assms by (metis filter_False list.distinct(1))
  then have "holder_index c < length (qc_inits c)"
    unfolding holder_index_def by (intro takeWhile_stops) simp
  then show ?thesis using nth_length_takeWhile [of "\<lambda>pc. \<not> holds_flag pc" "qc_inits c"] by (simp add: holder_index_def)
qed

lemma holder_turn_step:
  assumes "qr_inv c" "qc_holding c"
  shows "qr_step mode c (holder_turn x c)" and "qr_inv (holder_turn x c)" and "qr_rank (holder_turn x c) < qr_rank c"
proof -
  obtain code result account where x: "x = (code, result, account)" by (cases x)
  have p: "qr_phase c" using assms(1) by (simp add: qr_inv_def)
  have "qr_step mode c (holder_turn x c) \<and> qr_inv (holder_turn x c) \<and> qr_rank (holder_turn x c) < qr_rank c"
  proof (cases "qc_logins c")
    case Nil
    then obtain pc where pc: "filter holds_flag (qc_inits c) = [pc]" using p assms(2) by (auto simp: qr_phase_def)
    note i = holder_index_holds [OF pc]
    obtain q d where t: "InitQRLogin code (qc_inits c ! holder_index c) c = (q, d)" by fastforce
    have f: "pc = qc_inits c ! holder_index c \<and>
        filter holds_flag ((qc_inits c)[holder_index c := q]) = (if holds_flag q then [q] else [])"
      using filter_update(1) [of "holder_index c" "qc_inits c" holds_flag pc q] i pc by blast
    have r: "qr_rank (init_turn code (holder_index c) c) =
        sum_list (map init_rank (if holds_flag q then [q] else [])) + sum_list (map login_rank (qc_logins d))"
    proof -
      have "filter holds_flag (qc_inits (init_turn code (holder_index c) c)) = (if holds_flag q then [q] else [])"
        "qc_logins (init_turn code (holder_index c) c) = qc_logins d"
        using f by (simp_all add: init_turn_def t InitQRLogin_inits [OF t])
      then show ?thesis by (simp only: qr_rank_def)
    qed
    have "qr_rank (init_turn code (holder_index c) c) < init_rank pc"
      using init_rank_decreases [OF t] f Nil i unfolding r by simp
    moreover have "qr_rank c = init_rank pc" by (simp add: qr_rank_def pc Nil)
    ultimately show ?thesis using i qr_inv_init [OF assms(1)] assms(2) Nil by (simp add: holder_turn_def x qr_step.init)
  next
    case (Cons l ls)
    then have l: "qc_logins c = [l]" "filter holds_flag (qc_inits c) = []"
      using qr_phase_login [OF p, of 0] by auto
    have "qr_rank (login_turn result account 0 c) < qr_rank c"
      by (cases l) (auto simp: qr_rank_def l login_turn_def split: option.splits prod.splits)
    then show ?thesis using l qr_inv_login [OF assms(1), of 0] assms(2) by (simp add: holder_turn_def x qr_step.login)
  qed
  then show "qr_step mode c (holder_turn x c)" "qr_inv (holder_turn x c)" "qr_rank (holder_turn x c) < qr_rank c" by simp_all
qed

lemma holder_turns:
  "qr_inv c \<Longrightarrow> qr_rank c \<le> length xs \<Longrightarrow>
    (qr_step mode)\<^sup>*\<^sup>* c (fold holder_turn xs c) \<and> qr_inv (fold holder_turn xs c) \<and> \<not> qc_holding (fold holder_turn xs c)"
proof (induction xs arbitrary: c)
  case Nil
  have "0 < qr_rank c" if "qc_holding c"
    using Nil(1) that unfolding qr_inv_def qr_phase_def qr_rank_def by (auto simp: rank_nonzero filter_eq_Cons_iff)
  then show ?case using Nil by auto
next
  case (Cons x xs)
  show ?case
  proof (cases "qc_holding c")
    case True
    note h = holder_turn_step [where x = x, OF Cons.prems(1) True]
    have "qr_rank (holder_turn x c) \<le> length xs" using h(3) Cons.prems(2) by simp
    then show ?thesis using Cons.IH [OF h(2)] h(1) by (auto intro: converse_rtranclp_into_rtranclp)
  next
    case False
    then have "qr_rank c = 0" using Cons.prems(1) by (auto simp: qr_inv_def qr_phase_def qr_rank_def)
    then show ?thesis using Cons.IH [OF Cons.prems(1)] False by (simp add: holder_turn_def)
  qed
qed

lemma qr_rank_bound: "qr_inv c \<Longrightarrow> qr_rank c \<le> 10"
proof -
  assume "qr_inv c"
  moreover have "init_rank pc \<le> 10" "login_rank l \<le> 10" for pc l by (cases pc; simp) (cases l; simp)
  ultimately show ?thesis by (auto simp: qr_inv_def qr_phase_def qr_rank_def split: if_splits)
qed

text \<open>C39. A login that has been begun comes to its end, whatever the API answers: after at most ten steps of its own the flag is
  released and the session no longer awaits a scan, so that a new login can be begun.\<close>

theorem qr_login_ends:
  assumes "qr_reach mode c" "10 \<le> length answers"
  shows "(qr_step mode)\<^sup>*\<^sup>* c (fold holder_turn answers c) \<and> \<not> qc_holding (fold holder_turn answers c) \<and>
    as_State (qr_now (fold holder_turn answers c)) \<noteq> StateAwaitingQR"
  using holder_turns [where mode = mode and xs = answers, OF qr_reach_inv [OF assms(1)]] qr_rank_bound [OF qr_reach_inv [OF assms(1)]] assms(2)
  by (auto simp: qr_inv_def qr_phase_def)

definition qr_demo_answers :: "((string \<times> string) option \<times> login_result \<times> string option) list" where
  "qr_demo_answers = replicate 10 (Some (''https://qr'', ''key''), Some (0, ''token''), Some ''someone'')"

definition qr_demo :: qr_client where
  "qr_demo = init_turn None 0 ((qr_start None)\<lparr>qc_inits := [init_begin ''controller'' (qr_start None)]\<rparr>)"

lemma qr_demo_reach: "qr_reach ''controller'' qr_demo"
proof -
  let ?c = "(qr_start None)\<lparr>qc_inits := [init_begin ''controller'' (qr_start None)]\<rparr>"
  have "qr_step ''controller'' (qr_start None) ?c"
    using qr_step.request [of "''controller''" "qr_start None"] by (simp add: qr_start_def)
  then have "qr_reach ''controller'' ?c" by (rule qr_reach.step [OF qr_reach.start])
  moreover have "qr_step ''controller'' ?c qr_demo" unfolding qr_demo_def by (rule qr_step.init) simp
  ultimately show ?thesis by (rule qr_reach.step)
qed

theorem qr_login_ends_witness:
  "qc_holding qr_demo \<and> \<not> qc_holding (fold holder_turn qr_demo_answers qr_demo)"
proof -
  have "qc_holding qr_demo" by code_simp
  then show ?thesis using qr_login_ends [OF qr_demo_reach, of qr_demo_answers] by (simp add: qr_demo_answers_def)
qed

lemma qr_session_tells_the_truth_witness:
  "qr_holders qr_demo \<le> 1 \<and> as_State (qr_now qr_demo) = StateIdle"
proof -
  have "as_State (qr_now qr_demo) = StateIdle" by code_simp
  then show ?thesis using qr_session_tells_the_truth [OF qr_demo_reach] by simp
qed

lemma qr_demo_end:
  "qc_session (fold holder_turn qr_demo_answers qr_demo) =
    Some \<lparr>as_State = StateAuthenticated, as_QrcodeURL = [], as_Account = Some ''someone'', as_Error = None, as_cancel = Some 1\<rparr>"
  by code_simp

section \<open>Refreshing that is lost or doubled\<close>

text \<open>Beginning a login cancels the refreshing of the account that is logged in. When that login then fails or expires, the account
  stays in use and nothing refreshes its cookies any more.\<close>

definition switch_failed :: qr_client where
  "switch_failed =
    (let c = qr_start (Some ''first''); c = init_turn None 0 (c\<lparr>qc_inits := [init_begin ''controller'' c]\<rparr>)
     in fold holder_turn (replicate 10 (Some (''https://qr'', ''key''), Some (86038, []), None)) c)"

lemma failed_switch_stops_refreshing:
  "as_Account (qr_now switch_failed) = Some ''first'' \<and> as_State (qr_now switch_failed) = StateQRExpired \<and> \<not> qc_holding switch_failed \<and>
    qc_refreshers switch_failed = [0] \<and> qc_cancelled switch_failed = [0]"
  by code_simp

text \<open>A request that copied the session before another one logged in cancels the refreshing named in its copy and drops the new
  one: after its own login two goroutines refresh the cookies, of which one can no longer be cancelled.\<close>

definition overlapping_logins :: qr_client where
  "overlapping_logins =
    (let c = qr_start None; c = c\<lparr>qc_inits := [init_begin ''controller'' c, init_begin ''controller'' c]\<rparr>;
         log_in = fold holder_turn qr_demo_answers
     in log_in (init_turn None 1 (log_in (init_turn None 0 c))))"

lemma overlapping_logins_refresh_twice:
  "qc_refreshers overlapping_logins = [2, 1] \<and> qc_cancelled overlapping_logins = [] \<and> as_cancel (qr_now overlapping_logins) = Some 2"
  by code_simp

end
