(* ===== verification/Credentials.thy ===== *)
theory Credentials
  imports QrLogin
begin

text \<open>
  Credentials of the account (\<open>internal/modules/bilibili/auth.go\<close>, \<open>bilibili.go\<close>): the two files they are kept in, loading them at the
  start, refreshing the cookies, and copying cookies to the clients that fetch streams; and the answers of
  \<open>internal/controllers/auth\<close>. What the API answers and whether files can be read or written are inputs; the API library's
  printing and reading of cookies are parameters.
\<close>

section \<open>Cookies\<close>

type_synonym cookie = "string \<times> string"

fun put_cookie :: "cookie \<Rightarrow> cookie list \<Rightarrow> cookie list" where
  "put_cookie m [] = [m]"
| "put_cookie m (c # cs) = (if fst m = fst c then m # cs else c # put_cookie m cs)"

definition syncCookieToClient :: "cookie list \<Rightarrow> cookie list \<Rightarrow> cookie list" where
  "syncCookieToClient main client = fold put_cookie main client"

definition ensureBuvid3Cookie :: "string option \<Rightarrow> cookie list \<Rightarrow> cookie list" where
  "ensureBuvid3Cookie uuid cs =
    (if \<exists>c \<in> set cs. fst c = ''buvid3'' \<and> snd c \<noteq> [] then cs
     else case uuid of None \<Rightarrow> cs | Some u \<Rightarrow> cs @ [(''buvid3'', u @ ''infoc'')])"

lemma map_of_put_cookie: "map_of (put_cookie m cs) = (map_of cs)(fst m \<mapsto> snd m)"
  by (induction cs) (auto simp: fun_eq_iff)

lemma distinct_put_cookie: "distinct (map fst cs) \<Longrightarrow> distinct (map fst (put_cookie m cs))"
proof (induction cs)
  case (Cons c cs)
  have "fst ` set (put_cookie m cs) = insert (fst m) (fst ` set cs)"
    using map_of_put_cookie [of m cs] by (metis dom_fun_upd dom_map_of_conv_image_fst option.distinct(1))
  then show ?case using Cons by auto
qed simp

text \<open>After the copy a client has the account's cookies under their names, and keeps those under other names; a cookie is never
  twice under a name.\<close>

lemma syncCookieToClient_map: "map_of (syncCookieToClient main client) = map_of client ++ map_of (rev main)"
  unfolding syncCookieToClient_def
proof (induction main arbitrary: client)
  case (Cons m main)
  obtain n v where "m = (n, v)" by fastforce
  then show ?case by (simp add: Cons map_of_put_cookie map_add_upd fun_upd_def fun_eq_iff map_add_def split: option.split)
qed simp

lemma syncCookieToClient_distinct: "distinct (map fst client) \<Longrightarrow> distinct (map fst (syncCookieToClient main client))"
  unfolding syncCookieToClient_def by (induction main arbitrary: client) (simp_all add: distinct_put_cookie)

lemma syncCookieToClient_same: "map_of (syncCookieToClient main (syncCookieToClient main client)) = map_of (syncCookieToClient main client)"
  by (simp add: syncCookieToClient_map fun_eq_iff map_add_def split: option.split)

section \<open>The files\<close>

datatype cred_file = Missing | Unreadable | Content string

datatype cred_error = Not_exist | Read_cookie_failed | Read_token_failed | Write_token_failed | Write_cookie_failed
  | Refresh_info_failed | Csrf_failed | Refresh_failed | Load_failed | Get_qrcode_failed | Scan_failed | Scan_refused int | No_account

record bili_client =
  bc_loginMode :: string
  bc_cookies :: "cookie list"
  bc_refreshToken :: string
  bc_cookieFile :: cred_file
  bc_tokenFile :: cred_file
  bc_live :: "cookie list"
  bc_stream :: "cookie list"
  bc_session :: "auth_session option"
  bc_refreshing :: bool

record cookie_lib =
  ck_print :: "cookie list \<Rightarrow> string"
  ck_set :: "string \<Rightarrow> cookie list \<Rightarrow> cookie list"

text \<open>The second read stores its outcome in the error that the first one has set.\<close>

definition loadOfflineCredentials :: "bili_client \<Rightarrow> string \<times> string \<times> cred_error option" where
  "loadOfflineCredentials c =
    (let cookie = (case bc_cookieFile c of Content s \<Rightarrow> s | _ \<Rightarrow> []) in
     case bc_tokenFile c of
       Missing \<Rightarrow> (cookie, [], Some Not_exist)
     | Unreadable \<Rightarrow> (cookie, [], Some Read_token_failed)
     | Content token \<Rightarrow> (cookie, token, None))"

definition write_file :: "bool \<Rightarrow> string \<Rightarrow> cred_file \<Rightarrow> cred_file \<times> bool" where
  "write_file ok s f = (if ok then (Content s, True) else (f, False))"

definition writeRefreshTokenToFile :: "bool \<Rightarrow> string \<Rightarrow> bili_client \<Rightarrow> cred_error option \<times> bili_client" where
  "writeRefreshTokenToFile ok token c =
    (let c = c\<lparr>bc_refreshToken := token\<rparr>; (f, done') = write_file ok token (bc_tokenFile c) in
     (if done' then None else Some Write_token_failed, c\<lparr>bc_tokenFile := f\<rparr>))"

definition writerCookiesToFile :: "cookie_lib \<Rightarrow> bool \<Rightarrow> bili_client \<Rightarrow> cred_error option \<times> bili_client" where
  "writerCookiesToFile lib ok c =
    (let (f, done') = write_file ok (ck_print lib (bc_cookies c)) (bc_cookieFile c) in
     (if done' then None else Some Write_cookie_failed, c\<lparr>bc_cookieFile := f\<rparr>))"

definition syncCookies :: "bili_client \<Rightarrow> bili_client" where
  "syncCookies c = c\<lparr>bc_live := syncCookieToClient (bc_cookies c) (bc_live c), bc_stream := syncCookieToClient (bc_cookies c) (bc_stream c)\<rparr>"

section \<open>Refreshing\<close>

text \<open>The answers of the API and the outcomes of the writes: whether a refresh is due, whether the CSRF token was given, and the
  new token with the cookies that the refresh has set.\<close>

record refresh_answers =
  ra_due :: "bool option"
  ra_csrf :: bool
  ra_refreshed :: "(string \<times> cookie list) option"
  ra_token_written :: bool
  ra_cookies_written :: bool

definition refreshCookiesIfRequired :: "cookie_lib \<Rightarrow> refresh_answers \<Rightarrow> bili_client \<Rightarrow> cred_error option \<times> bili_client" where
  "refreshCookiesIfRequired lib a c =
    (case ra_due a of
       None \<Rightarrow> (Some Refresh_info_failed, c)
     | Some False \<Rightarrow> (None, c)
     | Some True \<Rightarrow>
         if \<not> ra_csrf a then (Some Csrf_failed, c)
         else case ra_refreshed a of
           None \<Rightarrow> (Some Refresh_failed, c)
         | Some (token, cookies) \<Rightarrow>
             (let c = syncCookies (c\<lparr>bc_cookies := cookies\<rparr>) in
              case writeRefreshTokenToFile (ra_token_written a) token c of
                (Some err, c) \<Rightarrow> (Some err, c)
              | (None, c) \<Rightarrow> writerCookiesToFile lib (ra_cookies_written a) c))"

section \<open>Loading at the start\<close>

definition load_credentials :: "cookie_lib \<Rightarrow> string \<Rightarrow> string \<Rightarrow> bili_client \<Rightarrow> bili_client" where
  "load_credentials lib cookie token c = c\<lparr>bc_cookies := ck_set lib cookie (bc_cookies c), bc_refreshToken := token\<rparr>"

definition set_session :: "(auth_session \<Rightarrow> auth_session) \<Rightarrow> bili_client \<Rightarrow> bili_client" where
  "set_session f c = c\<lparr>bc_session := updateSession f (bc_session c)\<rparr>"

definition preloadCookies :: "cookie_lib \<Rightarrow> string option \<Rightarrow> refresh_answers \<Rightarrow> bili_client \<Rightarrow> bili_client" where
  "preloadCookies lib account a c =
    (if bc_loginMode c \<noteq> ''controller'' then c
     else case loadOfflineCredentials c of
       (cookie, token, Some err) \<Rightarrow> c
     | (cookie, token, None) \<Rightarrow>
         (let c = load_credentials lib cookie token c in
          case account of
            None \<Rightarrow> syncCookies c
          | Some acc \<Rightarrow>
              (let c = set_session (\<lambda>s. s\<lparr>as_State := StatePreloaded, as_Account := Some acc, as_Error := None, as_cancel := Some 0\<rparr>) c;
                   c = snd (refreshCookiesIfRequired lib a c)
               in syncCookies (c\<lparr>bc_refreshing := True\<rparr>))))"

record login_answers =
  la_loaded_account :: "string option"
  la_refresh :: refresh_answers
  la_qrcode :: bool
  la_login :: "(int \<times> string \<times> cookie list) option"
  la_account :: "string option"
  la_token_written :: bool
  la_cookies_written :: bool

definition login_at_start :: "cookie_lib \<Rightarrow> login_answers \<Rightarrow> bili_client \<Rightarrow> cred_error option \<times> bili_client" where
  "login_at_start lib a c =
    (if \<not> la_qrcode a then (Some Get_qrcode_failed, c)
     else case la_login a of
       None \<Rightarrow> (Some Scan_failed, c)
     | Some (code, token, cookies) \<Rightarrow>
         if code \<noteq> 0 then (Some (Scan_refused code), c)
         else (let c = c\<lparr>bc_cookies := cookies\<rparr> in
           case la_account a of
             None \<Rightarrow> (Some No_account, c)
           | Some acc \<Rightarrow>
               (let c = set_session (\<lambda>s. s\<lparr>as_State := StateAuthenticated, as_Account := Some acc, as_Error := None\<rparr>) c;
                    c = snd (writeRefreshTokenToFile (la_token_written a) token c);
                    c = snd (writerCookiesToFile lib (la_cookies_written a) c)
                in (None, c\<lparr>bc_refreshing := True\<rparr>))))"

definition loadCookiesOrLogin :: "cookie_lib \<Rightarrow> login_answers \<Rightarrow> bili_client \<Rightarrow> cred_error option \<times> bili_client" where
  "loadCookiesOrLogin lib a c =
    (let (err, c) =
       (case loadOfflineCredentials c of
          (cookie, token, None) \<Rightarrow>
            (let c = load_credentials lib cookie token c in
             case la_loaded_account a of
               Some acc \<Rightarrow>
                 (let c = set_session (\<lambda>s. s\<lparr>as_State := StatePreloaded, as_Account := Some acc, as_Error := None\<rparr>) c;
                      c = snd (refreshCookiesIfRequired lib (la_refresh a) c)
                  in (None, c\<lparr>bc_refreshing := True\<rparr>))
             | None \<Rightarrow> login_at_start lib a c)
        | (cookie, token, Some Not_exist) \<Rightarrow> login_at_start lib a c
        | (cookie, token, Some err) \<Rightarrow> (Some Load_failed, c))
     in (err, syncCookies c))"

lemmas cred_defs = loadOfflineCredentials_def writeRefreshTokenToFile_def writerCookiesToFile_def write_file_def syncCookies_def
  load_credentials_def set_session_def

section \<open>Credentials outlive a restart\<close>

definition starts_with_files :: "bili_client \<Rightarrow> bili_client \<Rightarrow> bool" where
  "starts_with_files old new \<longleftrightarrow> bc_cookieFile new = bc_cookieFile old \<and> bc_tokenFile new = bc_tokenFile old \<and> bc_cookies new = []"

text \<open>After a refresh, or a login at the start, that reports no failure to write, a later start has the same cookies and the
  same refresh token again, and is logged in without a scan if the API still knows the account.\<close>

lemma credentials_survive_restart:
  assumes "refreshCookiesIfRequired lib a c = (None, d)" "ra_due a = Some True"
    and "ck_set lib (ck_print lib (bc_cookies d)) [] = bc_cookies d"
    and "starts_with_files d e" "la_loaded_account b = Some acc" "ra_due (la_refresh b) \<noteq> Some True"
  shows "\<exists>f. loadCookiesOrLogin lib b e = (None, f) \<and> bc_cookies f = bc_cookies d \<and> bc_refreshToken f = bc_refreshToken d \<and>
    as_State (GetSession (bc_session f)) = StatePreloaded \<and> as_Account (GetSession (bc_session f)) = Some acc"
proof -
  have files: "bc_cookieFile d = Content (ck_print lib (bc_cookies d)) \<and> bc_tokenFile d = Content (bc_refreshToken d)"
    using assms(1,2) by (auto simp: refreshCookiesIfRequired_def cred_defs Let_def split: if_splits option.splits prod.splits)
  have quiet: "snd (refreshCookiesIfRequired lib (la_refresh b) x) = x" for x
    using assms(6) by (auto simp: refreshCookiesIfRequired_def split: option.split bool.split)
  show ?thesis
    using files assms(3,4,5) by (simp add: loadCookiesOrLogin_def starts_with_files_def quiet cred_defs Let_def)
qed

text \<open>When the refresh succeeds and the token cannot be written, the cookies are not written either; when only the cookies cannot be
  written, the files hold the new token with the old cookies.\<close>

lemma refresh_half_written:
  assumes "ra_due a = Some True" "ra_csrf a" "ra_refreshed a = Some (token, cookies)" "\<not> ra_token_written a \<or> \<not> ra_cookies_written a"
  shows "bc_cookieFile (snd (refreshCookiesIfRequired lib a c)) = bc_cookieFile c \<and>
    bc_tokenFile (snd (refreshCookiesIfRequired lib a c)) = (if ra_token_written a then Content token else bc_tokenFile c)"
  using assms by (auto simp: refreshCookiesIfRequired_def cred_defs Let_def)

text \<open>An unreadable file of cookies goes unnoticed when the token can be read.\<close>

lemma unreadable_cookies_unnoticed:
  "bc_cookieFile c = Unreadable \<Longrightarrow> bc_tokenFile c = Content token \<Longrightarrow> loadOfflineCredentials c = ([], token, None)"
  by (simp add: loadOfflineCredentials_def)

text \<open>A start that fails leaves both files as they were.\<close>

lemma failed_start_keeps_files:
  assumes "loadCookiesOrLogin lib a c = (Some err, d)"
  shows "bc_cookieFile d = bc_cookieFile c \<and> bc_tokenFile d = bc_tokenFile c"
  using assms
  by (auto simp: loadCookiesOrLogin_def login_at_start_def cred_defs Let_def
      split: if_splits option.splits prod.splits cred_file.splits)

definition demo_cookie_lib :: cookie_lib where
  "demo_cookie_lib = \<lparr>ck_print = (\<lambda>cs. concat (map (\<lambda>c. fst c @ ''='' @ snd c) cs)), ck_set = (\<lambda>s cs. [(''k'', drop 2 s)])\<rparr>"

definition demo_bili :: bili_client where
  "demo_bili = \<lparr>bc_loginMode = ''startup'', bc_cookies = [(''k'', ''old'')], bc_refreshToken = ''t1'', bc_cookieFile = Missing,
     bc_tokenFile = Missing, bc_live = [], bc_stream = [], bc_session = None, bc_refreshing = True\<rparr>"

definition demo_refresh :: refresh_answers where
  "demo_refresh = \<lparr>ra_due = Some True, ra_csrf = True, ra_refreshed = Some (''t2'', [(''k'', ''new'')]), ra_token_written = True,
     ra_cookies_written = True\<rparr>"

definition demo_login :: login_answers where
  "demo_login = \<lparr>la_loaded_account = Some ''someone'', la_refresh = demo_refresh\<lparr>ra_due := Some False\<rparr>, la_qrcode = False,
     la_login = None, la_account = None, la_token_written = True, la_cookies_written = True\<rparr>"

definition demo_refreshed :: bili_client where
  "demo_refreshed = snd (refreshCookiesIfRequired demo_cookie_lib demo_refresh demo_bili)"

lemma demo_refreshed:
  "refreshCookiesIfRequired demo_cookie_lib demo_refresh demo_bili = (None, demo_refreshed)"
  "ra_due demo_refresh = Some True" "bc_cookies demo_refreshed = [(''k'', ''new'')]"
  "ck_set demo_cookie_lib (ck_print demo_cookie_lib [(''k'', ''new'')]) [] = [(''k'', ''new'')]"
  "starts_with_files demo_refreshed (demo_refreshed\<lparr>bc_cookies := [], bc_refreshToken := []\<rparr>)"
  "la_loaded_account demo_login = Some ''someone''" "ra_due (la_refresh demo_login) \<noteq> Some True"
  by code_simp+

lemma credentials_survive_restart_witness:
  "\<exists>f. loadCookiesOrLogin demo_cookie_lib demo_login (demo_refreshed\<lparr>bc_cookies := [], bc_refreshToken := []\<rparr>) = (None, f) \<and>
    bc_cookies f = [(''k'', ''new'')]"
  using credentials_survive_restart [OF demo_refreshed(1,2) _ demo_refreshed(5,6,7)] demo_refreshed(3,4) by auto

section \<open>Requests\<close>

record status_response =
  sr_Authenticated :: bool
  sr_State :: auth_state
  sr_Account :: "string option"
  sr_QR :: "string option"
  sr_LastError :: "qr_error option"

definition getStatus :: "auth_session \<Rightarrow> status_response" where
  "getStatus s = \<lparr>sr_Authenticated = (as_Account s \<noteq> None), sr_State = as_State s, sr_Account = as_Account s,
     sr_QR = (if as_QrcodeURL s \<noteq> [] then Some (as_QrcodeURL s) else None), sr_LastError = as_Error s\<rparr>"

definition initLogin_status :: "qr_error + string \<Rightarrow> nat" where
  "initLogin_status r =
    (case r of
       Inl ErrNotControllerMode \<Rightarrow> 400
     | Inl ErrQRCodeLoginInProgress \<Rightarrow> 409
     | Inl _ \<Rightarrow> 500
     | Inr _ \<Rightarrow> 201)"

text \<open>A code is shown only while a scan is awaited.\<close>

lemma status_shows_pending_code:
  "qr_reach mode c \<Longrightarrow> sr_QR (getStatus (qr_now c)) \<noteq> None \<Longrightarrow> sr_State (getStatus (qr_now c)) = StateAwaitingQR \<and> qc_holding c"
  using qr_reach_inv [of mode c]
  by (auto simp: getStatus_def qr_inv_def session_ok_def qr_phase_def split: if_splits)

end
