(* ===== verification/Notify.thy ===== *)
theory Notify
  imports SubCheck Db "HOL-Library.Multiset"
begin

text \<open>
  Notifications (\<open>internal/services/notify\<close>, \<open>internal/controllers/notify\<close>): the event streams of browsers, the subscriptions of
  web push, and the answers to requests. Publishing starts goroutines; each lock, send, close or receive is a step. The
  push service's answers and the generated keys are inputs.
\<close>

section \<open>Event streams\<close>

datatype sse_error = ErrSSEDisabled | ErrSSETokenMissing | ErrSSETokenInvalid

definition sse_check :: "string \<Rightarrow> string \<Rightarrow> sse_error option" where
  "sse_check sseToken token =
    (if TrimSpace sseToken = [] then Some ErrSSEDisabled
     else if TrimSpace token = [] then Some ErrSSETokenMissing
     else if TrimSpace token \<noteq> sseToken then Some ErrSSETokenInvalid
     else None)"

text \<open>The channel of a client: what is buffered, whether it is closed, and what has been received or dropped.\<close>

record 'p sse_chan =
  sn_buf :: "'p list"
  sn_closed :: bool
  sn_got :: "'p list"
  sn_dropped :: "'p list"

definition new_sse_chan :: "'p sse_chan" where
  "new_sse_chan = \<lparr>sn_buf = [], sn_closed = False, sn_got = [], sn_dropped = []\<rparr>"

text \<open>\<open>se_adding\<close> are the clients that have their number and are not yet in the map \<open>se_clients\<close>; \<open>se_pending\<close> the payloads whose
  goroutines have not begun; \<open>se_sending\<close> the goroutines that hold the read lock, with the clients they have not visited yet;
  \<open>se_closing\<close> the clients out of the map whose channels are to be closed. \<open>se_panic\<close> says that a closed channel was used.\<close>

record 'p sse_state =
  se_seq :: nat
  se_adding :: "nat list"
  se_clients :: "nat list"
  se_chan :: "nat \<Rightarrow> 'p sse_chan"
  se_pending :: "'p list"
  se_sending :: "('p \<times> nat list) list"
  se_closing :: "nat list"
  se_published :: "'p list"
  se_panic :: bool

definition new_sse_state :: "'p sse_state" where
  "new_sse_state = \<lparr>se_seq = 0, se_adding = [], se_clients = [], se_chan = (\<lambda>_. new_sse_chan), se_pending = [], se_sending = [],
     se_closing = [], se_published = [], se_panic = False\<rparr>"

definition SubscribeSSE_begin :: "string \<Rightarrow> string \<Rightarrow> 'p sse_state \<Rightarrow> sse_error option \<times> 'p sse_state" where
  "SubscribeSSE_begin sseToken token s =
    (case sse_check sseToken token of
       Some e \<Rightarrow> (Some e, s)
     | None \<Rightarrow> (None, s\<lparr>se_seq := se_seq s + 1, se_adding := (se_seq s + 1) # se_adding s\<rparr>))"

definition SubscribeSSE_add :: "nat \<Rightarrow> 'p sse_state \<Rightarrow> 'p sse_state" where
  "SubscribeSSE_add c s = s\<lparr>se_adding := remove1 c (se_adding s), se_clients := c # se_clients s\<rparr>"

definition UnsubscribeSSE_delete :: "nat \<Rightarrow> 'p sse_state \<Rightarrow> 'p sse_state" where
  "UnsubscribeSSE_delete c s =
    (if c \<in> set (se_clients s) then s\<lparr>se_clients := remove1 c (se_clients s), se_closing := c # se_closing s\<rparr> else s)"

definition UnsubscribeSSE_close :: "nat \<Rightarrow> 'p sse_state \<Rightarrow> 'p sse_state" where
  "UnsubscribeSSE_close c s =
    s\<lparr>se_closing := remove1 c (se_closing s), se_chan := (se_chan s)(c := (se_chan s c)\<lparr>sn_closed := True\<rparr>),
      se_panic := se_panic s \<or> sn_closed (se_chan s c)\<rparr>"

definition publish_start :: "'p \<Rightarrow> 'p sse_state \<Rightarrow> 'p sse_state" where
  "publish_start p s = s\<lparr>se_pending := se_pending s @ [p], se_published := se_published s @ [p]\<rparr>"

definition publish_lock :: "nat \<Rightarrow> 'p sse_state \<Rightarrow> 'p sse_state" where
  "publish_lock i s = s\<lparr>se_pending := take i (se_pending s) @ drop (Suc i) (se_pending s),
     se_sending := (se_pending s ! i, se_clients s) # se_sending s\<rparr>"

text \<open>A send that does not block: a full buffer drops the payload.\<close>

definition sse_offer :: "'p \<Rightarrow> 'p sse_chan \<Rightarrow> 'p sse_chan" where
  "sse_offer p c = (if length (sn_buf c) < 16 then c\<lparr>sn_buf := sn_buf c @ [p]\<rparr> else c\<lparr>sn_dropped := sn_dropped c @ [p]\<rparr>)"

definition publishSSEPayload_send :: "nat \<Rightarrow> nat \<Rightarrow> 'p sse_state \<Rightarrow> 'p sse_state" where
  "publishSSEPayload_send j c s =
    (let (p, todo) = se_sending s ! j in
     s\<lparr>se_sending := (se_sending s)[j := (p, remove1 c todo)], se_chan := (se_chan s)(c := sse_offer p (se_chan s c)),
       se_panic := se_panic s \<or> sn_closed (se_chan s c)\<rparr>)"

definition publish_unlock :: "nat \<Rightarrow> 'p sse_state \<Rightarrow> 'p sse_state" where
  "publish_unlock j s = s\<lparr>se_sending := take j (se_sending s) @ drop (Suc j) (se_sending s)\<rparr>"

definition sse_receive :: "nat \<Rightarrow> 'p sse_state \<Rightarrow> 'p sse_state" where
  "sse_receive c s = s\<lparr>se_chan := (se_chan s)(c := (case sn_buf (se_chan s c) of
     [] \<Rightarrow> se_chan s c
   | p # ps \<Rightarrow> (se_chan s c)\<lparr>sn_buf := ps, sn_got := sn_got (se_chan s c) @ [p]\<rparr>))\<rparr>"

text \<open>The write lock is not given while a goroutine has the read lock.\<close>

inductive sse_step :: "string \<Rightarrow> 'p sse_state \<Rightarrow> 'p sse_state \<Rightarrow> bool" for sseToken where
  subscribes: "SubscribeSSE_begin sseToken token s = (r, t) \<Longrightarrow> sse_step sseToken s t"
| added: "c \<in> set (se_adding s) \<Longrightarrow> se_sending s = [] \<Longrightarrow> sse_step sseToken s (SubscribeSSE_add c s)"
| deletes: "se_sending s = [] \<Longrightarrow> sse_step sseToken s (UnsubscribeSSE_delete c s)"
| closes: "c \<in> set (se_closing s) \<Longrightarrow> sse_step sseToken s (UnsubscribeSSE_close c s)"
| publishes: "sse_step sseToken s (publish_start p s)"
| locks: "i < length (se_pending s) \<Longrightarrow> sse_step sseToken s (publish_lock i s)"
| sends: "j < length (se_sending s) \<Longrightarrow> c \<in> set (snd (se_sending s ! j)) \<Longrightarrow> sse_step sseToken s (publishSSEPayload_send j c s)"
| unlocks: "j < length (se_sending s) \<Longrightarrow> snd (se_sending s ! j) = [] \<Longrightarrow> sse_step sseToken s (publish_unlock j s)"
| receives: "sse_step sseToken s (sse_receive c s)"

inductive sse_reach :: "string \<Rightarrow> 'p sse_state \<Rightarrow> bool" for sseToken where
  start: "sse_reach sseToken new_sse_state"
| step: "sse_reach sseToken s \<Longrightarrow> sse_step sseToken s t \<Longrightarrow> sse_reach sseToken t"

text \<open>A client is in one place only, its channel is open while it can be in the map, and goroutines visit clients in the map.\<close>

definition sse_places :: "'p sse_state \<Rightarrow> nat list" where
  "sse_places s = se_adding s @ se_clients s @ se_closing s"

definition visiting :: "nat list \<Rightarrow> ('p \<times> nat list) list \<Rightarrow> bool" where
  "visiting cs js \<longleftrightarrow> (\<forall>j < length js. set (snd (js ! j)) \<subseteq> set cs \<and> distinct (snd (js ! j)))"

definition sse_safe :: "'p sse_state \<Rightarrow> bool" where
  "sse_safe s \<longleftrightarrow> distinct (sse_places s) \<and> (\<forall>c \<in> set (sse_places s). c \<le> se_seq s \<and> \<not> sn_closed (se_chan s c)) \<and>
    (\<forall>c > se_seq s. \<not> sn_closed (se_chan s c)) \<and> visiting (se_clients s) (se_sending s) \<and> \<not> se_panic s"

lemma visiting_nil [simp]: "visiting cs []"
  by (simp add: visiting_def)

lemma visiting_cons: "distinct cs \<Longrightarrow> visiting cs js \<Longrightarrow> visiting cs ((p, cs) # js)"
  by (auto simp: visiting_def nth_Cons split: nat.split)

lemma visiting_update:
  "visiting cs js \<Longrightarrow> j < length js \<Longrightarrow> js ! j = (p, todo) \<Longrightarrow> visiting cs (js[j := (p, remove1 c todo)])"
proof -
  assume a: "visiting cs js" "j < length js" "js ! j = (p, todo)"
  then have "set todo \<subseteq> set cs" "distinct todo" unfolding visiting_def by (metis snd_conv)+
  then have "set (remove1 c todo) \<subseteq> set cs" "distinct (remove1 c todo)" using set_remove1_subset [of c todo] by auto
  then show ?thesis using a by (auto simp: visiting_def nth_list_update)
qed

lemma visiting_drop: "visiting cs js \<Longrightarrow> visiting cs (take j js @ drop (Suc j) js)"
  unfolding visiting_def by (auto simp: nth_append min_def)

lemma sse_places_seq: "sse_safe s \<Longrightarrow> Suc (se_seq s) \<notin> set (sse_places s)"
  unfolding sse_safe_def by (metis Suc_n_not_le_n)

lemma sse_offer_closed [simp]: "sn_closed (sse_offer p c) = sn_closed c"
  by (simp add: sse_offer_def)

lemma sse_safe_step: "sse_step sseToken s t \<Longrightarrow> sse_safe s \<Longrightarrow> sse_safe t"
proof (induction rule: sse_step.induct)
  case (subscribes token s r t)
  then show ?case using sse_places_seq [of s]
    by (auto simp: SubscribeSSE_begin_def sse_safe_def sse_places_def le_Suc_eq split: option.splits)
next
  case (added c s)
  then show ?case by (auto simp: SubscribeSSE_add_def sse_safe_def sse_places_def)
next
  case (deletes s c)
  then show ?case by (auto simp: UnsubscribeSSE_delete_def sse_safe_def sse_places_def)
next
  case (closes c s)
  then show ?case by (auto simp: UnsubscribeSSE_close_def sse_safe_def sse_places_def) (metis UnI2 leD)
next
  case (publishes s p)
  then show ?case by (simp add: publish_start_def sse_safe_def sse_places_def)
next
  case (locks i s)
  then show ?case by (simp add: publish_lock_def sse_safe_def sse_places_def visiting_cons)
next
  case (sends j s c)
  obtain p todo where j: "se_sending s ! j = (p, todo)" by fastforce
  have "set todo \<subseteq> set (se_clients s)"
    using sends j unfolding sse_safe_def visiting_def by (metis snd_conv)
  then have "c \<in> set (sse_places s)" using sends j by (auto simp: sse_places_def)
  then show ?case using sends j visiting_update [of "se_clients s" "se_sending s" j p todo c]
    by (simp add: publishSSEPayload_send_def sse_safe_def sse_places_def)
next
  case (unlocks j s)
  then show ?case by (simp add: publish_unlock_def sse_safe_def sse_places_def visiting_drop)
next
  case (receives s c)
  then show ?case by (auto simp: sse_receive_def sse_safe_def sse_places_def split: list.split)
qed

text \<open>Where the payloads are: of each payload, a client's channel with what is still to be sent to it holds no more than have been
  published.\<close>

definition chan_payloads :: "'p sse_chan \<Rightarrow> 'p multiset" where
  "chan_payloads c = mset (sn_got c) + mset (sn_buf c) + mset (sn_dropped c)"

definition in_flight :: "nat \<Rightarrow> 'p sse_state \<Rightarrow> 'p multiset" where
  "in_flight c s = mset (se_pending s) + mset (map fst (filter (\<lambda>x. c \<in> set (snd x)) (se_sending s)))"

definition sse_counts :: "'p sse_state \<Rightarrow> bool" where
  "sse_counts s \<longleftrightarrow> (\<forall>c. chan_payloads (se_chan s c) + in_flight c s \<subseteq># mset (se_published s))"

lemma mset_drop_at: "i < length xs \<Longrightarrow> mset xs = add_mset (xs ! i) (mset (take i xs @ drop (Suc i) xs))"
  by (subst id_take_nth_drop [of i xs]) simp_all

lemma filter_visited:
  assumes "j < length js" "js ! j = (p, todo)" "c \<in> set todo" "distinct todo"
  shows "mset (map fst (filter (\<lambda>x. d \<in> set (snd x)) js)) =
    mset (map fst (filter (\<lambda>x. d \<in> set (snd x)) (js[j := (p, remove1 c todo)]))) + (if d = c then {#p#} else {#})"
proof -
  have js: "js = take j js @ (p, todo) # drop (Suc j) js" using id_take_nth_drop [OF assms(1)] assms(2) by simp
  have u: "js[j := (p, remove1 c todo)] = take j js @ (p, remove1 c todo) # drop (Suc j) js" by (rule upd_conv_take_nth_drop [OF assms(1)])
  have "d \<in> set (remove1 c todo) \<longleftrightarrow> d \<in> set todo \<and> d \<noteq> c" using assms(4) by auto
  then show ?thesis unfolding u using assms(3) by (subst js) auto
qed

lemma sse_counts_step:
  assumes "sse_step sseToken s t" "sse_safe s" "sse_counts s"
  shows "sse_counts t"
proof -
  have "chan_payloads (se_chan t d) + in_flight d t \<subseteq># mset (se_published t)" for d
  proof -
    have now: "chan_payloads (se_chan s d) + in_flight d s \<subseteq># mset (se_published s)" using assms(3) by (simp add: sse_counts_def)
    from assms(1) show ?thesis
    proof cases
      case (subscribes token r)
      then have "se_chan t = se_chan s" "in_flight d t = in_flight d s" "se_published t = se_published s"
        by (auto simp: SubscribeSSE_begin_def in_flight_def split: option.splits)
      then show ?thesis using now by simp
    next
      case (publishes p)
      have "chan_payloads (se_chan s d) + in_flight d s + {#p#} \<subseteq># mset (se_published s) + {#p#}"
        using now by (simp only: subset_mset.add_le_cancel_right)
      then show ?thesis unfolding publishes by (simp add: publish_start_def in_flight_def)
    next
      case (locks i)
      have "in_flight d t \<subseteq># in_flight d s"
        unfolding in_flight_def locks publish_lock_def by (simp add: mset_drop_at [OF locks(2)])
      then show ?thesis using now locks(1)
        by (simp add: publish_lock_def) (meson mset_subset_eq_mono_add subset_mset.order_refl subset_mset.order_trans)
    next
      case (sends j c)
      obtain p todo where j: "se_sending s ! j = (p, todo)" by fastforce
      have "distinct todo" "c \<in> set todo" using assms(2) sends j by (auto simp: sse_safe_def visiting_def)
      note f = filter_visited [OF sends(2) j this(2,1), of d]
      have "chan_payloads (sse_offer p x) = chan_payloads x + {#p#}" for x
        by (simp add: sse_offer_def chan_payloads_def)
      then have "chan_payloads (se_chan t d) + in_flight d t = chan_payloads (se_chan s d) + in_flight d s"
        using f by (auto simp: sends(1) publishSSEPayload_send_def j in_flight_def)
      then show ?thesis using now by (simp add: sends(1) publishSSEPayload_send_def j)
    next
      case (unlocks j)
      have "in_flight d t \<subseteq># in_flight d s"
        unfolding in_flight_def unlocks publish_unlock_def
        by (subst (3) id_take_nth_drop [OF unlocks(2)]) simp
      then show ?thesis using now unlocks(1)
        by (simp add: publish_unlock_def) (meson mset_subset_eq_mono_add subset_mset.order_refl subset_mset.order_trans)
    next
      case (receives c)
      have "chan_payloads (se_chan t d) = chan_payloads (se_chan s d)"
        by (auto simp: receives sse_receive_def chan_payloads_def split: list.split)
      then show ?thesis using now by (simp add: receives sse_receive_def in_flight_def)
    qed (use now in \<open>auto simp: SubscribeSSE_add_def UnsubscribeSSE_delete_def UnsubscribeSSE_close_def chan_payloads_def in_flight_def\<close>)
  qed
  then show ?thesis by (simp add: sse_counts_def)
qed

definition sse_bounded :: "'p sse_state \<Rightarrow> bool" where
  "sse_bounded s \<longleftrightarrow> (\<forall>c. length (sn_buf (se_chan s c)) \<le> 16)"

lemma sse_receive_buf: "length (sn_buf (se_chan (sse_receive c s) d)) \<le> length (sn_buf (se_chan s d))"
  by (auto simp: sse_receive_def split: list.split)

lemma sse_bounded_step: "sse_step sseToken s t \<Longrightarrow> sse_bounded s \<Longrightarrow> sse_bounded t"
proof (induction rule: sse_step.induct)
  case (receives s c)
  then show ?case unfolding sse_bounded_def by (meson sse_receive_buf order_trans)
qed (auto simp: sse_bounded_def SubscribeSSE_begin_def SubscribeSSE_add_def UnsubscribeSSE_delete_def UnsubscribeSSE_close_def
      publish_start_def publish_lock_def publishSSEPayload_send_def publish_unlock_def sse_offer_def
      split: option.splits prod.splits)

lemma sse_reach_inv: "sse_reach sseToken s \<Longrightarrow> sse_safe s \<and> sse_counts s \<and> sse_bounded s"
proof (induction rule: sse_reach.induct)
  case start
  show ?case by (simp add: new_sse_state_def sse_safe_def sse_places_def sse_counts_def sse_bounded_def chan_payloads_def in_flight_def new_sse_chan_def)
next
  case (step s t)
  then show ?case using sse_safe_step sse_counts_step sse_bounded_step by blast
qed

text \<open>C40. Whatever the order in which browsers come and go while notifications are published, no goroutine sends on a closed
  channel or closes one twice (either would end the program), no client holds more than sixteen notifications, and none gets a
  notification more often than it was published.\<close>

theorem sse_clients_safe:
  assumes "sse_reach sseToken s"
  shows "\<not> se_panic s \<and> (\<forall>c. length (sn_buf (se_chan s c)) \<le> 16) \<and>
    (\<forall>c. mset (sn_got (se_chan s c)) + mset (sn_buf (se_chan s c)) + mset (sn_dropped (se_chan s c)) \<subseteq># mset (se_published s))"
proof -
  note inv = sse_reach_inv [OF assms]
  then have "chan_payloads (se_chan s c) \<subseteq># mset (se_published s)" for c
    unfolding sse_counts_def by (meson mset_subset_eq_add_left subset_mset.order_trans)
  then show ?thesis using inv by (simp add: sse_safe_def sse_bounded_def chan_payloads_def)
qed

text \<open>A payload published after another may reach a client before it: each has a goroutine of its own.\<close>

definition reordered :: "nat sse_state" where
  "reordered =
    (let s = SubscribeSSE_add 1 (snd (SubscribeSSE_begin ''t'' ''t'' new_sse_state));
         s = publish_start 2 (publish_start 1 s);
         s = publish_lock 0 (publish_unlock 0 (publishSSEPayload_send 0 1 (publish_lock 1 s)))
     in publish_unlock 0 (publishSSEPayload_send 0 1 s))"

lemma reordered_reach: "sse_reach ''t'' reordered"
proof -
  let ?s1 = "snd (SubscribeSSE_begin ''t'' ''t'' (new_sse_state :: nat sse_state))"
  let ?s2 = "SubscribeSSE_add 1 ?s1"
  let ?s4 = "publish_start 2 (publish_start 1 ?s2)"
  let ?s5 = "publish_lock 1 ?s4"
  let ?s6 = "publishSSEPayload_send 0 1 ?s5"
  let ?s7 = "publish_unlock 0 ?s6"
  let ?s8 = "publish_lock 0 ?s7"
  let ?s9 = "publishSSEPayload_send 0 1 ?s8"
  note eval = SubscribeSSE_begin_def SubscribeSSE_add_def publish_start_def publish_lock_def publishSSEPayload_send_def publish_unlock_def
    new_sse_state_def sse_check_def TrimSpace_def is_space_def
  have "sse_reach ''t'' ?s1"
    by (rule sse_reach.step [OF sse_reach.start sse_step.subscribes [of _ "''t''"]]) (simp add: prod_eq_iff)
  then have "sse_reach ''t'' ?s2" by (rule sse_reach.step) (rule sse_step.added; simp add: eval)
  then have "sse_reach ''t'' ?s4" by (meson sse_reach.step sse_step.publishes)
  then have "sse_reach ''t'' ?s5" by (rule sse_reach.step) (rule sse_step.locks; simp add: eval)
  then have "sse_reach ''t'' ?s6" by (rule sse_reach.step) (rule sse_step.sends; simp add: eval)
  then have "sse_reach ''t'' ?s7" by (rule sse_reach.step) (rule sse_step.unlocks; simp add: eval)
  then have "sse_reach ''t'' ?s8" by (rule sse_reach.step) (rule sse_step.locks; simp add: eval)
  then have "sse_reach ''t'' ?s9" by (rule sse_reach.step) (rule sse_step.sends; simp add: eval)
  then have "sse_reach ''t'' (publish_unlock 0 ?s9)" by (rule sse_reach.step) (rule sse_step.unlocks; simp add: eval)
  then show ?thesis by (simp add: reordered_def Let_def)
qed

lemma notifications_can_be_reordered: "se_published reordered = [1, 2] \<and> sn_buf (se_chan reordered 1) = [2, 1]"
  by code_simp

theorem sse_clients_safe_witness: "\<not> se_panic reordered \<and> mset (sn_buf (se_chan reordered 1)) \<subseteq># {#1, 2#}"
proof -
  have e: "se_published reordered = [1, 2]" "sn_buf (se_chan reordered 1) = [2, 1]" "sn_got (se_chan reordered 1) = []"
    "sn_dropped (se_chan reordered 1) = []" by code_simp+
  then show ?thesis using sse_clients_safe [OF reordered_reach] by (metis empty_neutral(1,2) mset.simps(1,2))
qed

section \<open>Messages\<close>

text \<open>The messages in English for the code's: live, live and recording, recording again, recording failed, ended, stopped.\<close>

datatype live_message = Msg_live | Msg_live_recording | Msg_retry_started | Msg_start_failed | Msg_ended | Msg_stopped

fun live_state_message :: "LiveState \<Rightarrow> live_message" where
  "live_state_message LiveStateLiveDetected = Msg_live"
| "live_state_message LiveStateAutoRecordStarted = Msg_live_recording"
| "live_state_message LiveStateAutoRecordRetryStarted = Msg_retry_started"
| "live_state_message LiveStateAutoRecordFailed = Msg_start_failed"
| "live_state_message LiveStateLiveEnded = Msg_ended"
| "live_state_message LiveStateRecordStopped = Msg_stopped"

section \<open>Web push\<close>

record push_sub =
  wp_Endpoint :: string
  wp_Auth :: string
  wp_P256dh :: string

definition push_sub_valid :: "push_sub \<Rightarrow> bool" where
  "push_sub_valid s \<longleftrightarrow> wp_Endpoint s \<noteq> [] \<and> wp_Auth s \<noteq> [] \<and> wp_P256dh s \<noteq> []"

datatype push_error = Invalid_subscription | Invalid_endpoint | Push_db db_error

text \<open>A stored entry is the subscription that its JSON decodes to, or \<open>None\<close> for one that does not decode.\<close>

definition AddWebPushSubscription :: "push_sub \<Rightarrow> push_sub option Bucket \<Rightarrow> push_error option \<times> push_sub option Bucket" where
  "AddWebPushSubscription s b =
    (if \<not> push_sub_valid s then (Some Invalid_subscription, b)
     else apfst (map_option Push_db) (db_Put (wp_Endpoint s) (Some s) b))"

definition RemoveWebPushSubscription :: "string \<Rightarrow> push_sub option Bucket \<Rightarrow> push_error option \<times> push_sub option Bucket" where
  "RemoveWebPushSubscription endpoint b =
    (if endpoint = [] then (Some Invalid_endpoint, b) else apfst (map_option Push_db) (db_Delete endpoint b))"

text \<open>\<open>answer\<close> is the status of the push service, \<open>None\<close> when there was no response.\<close>

definition stale_entry :: "(push_sub \<Rightarrow> nat option) \<Rightarrow> string \<times> push_sub option \<Rightarrow> string option" where
  "stale_entry answer e =
    (case e of
       (k, None) \<Rightarrow> Some k
     | (k, Some s) \<Rightarrow>
         if \<not> push_sub_valid s then Some k
         else if answer s = Some 410 \<or> answer s = Some 404 then Some (wp_Endpoint s)
         else None)"

definition pushed_to :: "string \<times> push_sub option \<Rightarrow> push_sub option" where
  "pushed_to e = (case snd e of Some s \<Rightarrow> if push_sub_valid s then Some s else None | None \<Rightarrow> None)"

definition stale_endpoints :: "(push_sub \<Rightarrow> nat option) \<Rightarrow> push_sub option Bucket \<Rightarrow> string list" where
  "stale_endpoints answer b = (case db_ForEach b of Inl _ \<Rightarrow> [] | Inr es \<Rightarrow> List.map_filter (stale_entry answer) es)"

definition delete_stale :: "string list \<Rightarrow> push_sub option Bucket \<Rightarrow> push_sub option Bucket" where
  "delete_stale ks b = fold (\<lambda>k b. snd (db_Delete k b)) ks b"

definition publishWebPushPayload :: "bool \<Rightarrow> (push_sub \<Rightarrow> nat option) \<Rightarrow> push_sub option Bucket \<Rightarrow> push_sub list \<times> push_sub option Bucket" where
  "publishWebPushPayload enabled answer b =
    (if \<not> enabled then ([], b)
     else (case db_ForEach b of Inl _ \<Rightarrow> [] | Inr es \<Rightarrow> List.map_filter pushed_to es, delete_stale (stale_endpoints answer b) b))"

definition keyed_by_endpoint :: "push_sub option Bucket \<Rightarrow> bool" where
  "keyed_by_endpoint b \<longleftrightarrow> (\<forall>k s. stored_in b k = Some (Some s) \<longrightarrow> wp_Endpoint s = k)"

lemma keyed_by_endpoint_kept:
  assumes "keyed_by_endpoint b"
  shows "keyed_by_endpoint (snd (AddWebPushSubscription s b))" "keyed_by_endpoint (snd (RemoveWebPushSubscription k b))"
proof -
  obtain r b' where p: "db_Put (wp_Endpoint s) (Some s) b = (r, b')" by fastforce
  have "stored_in b' = (if r = None then (stored_in b)(wp_Endpoint s \<mapsto> Some s) else stored_in b)"
    using p bk.put_done bk.put_failed by (cases r) auto
  then show "keyed_by_endpoint (snd (AddWebPushSubscription s b))"
    using assms p by (auto simp: AddWebPushSubscription_def keyed_by_endpoint_def split: if_splits)
  obtain q b'' where d: "db_Delete k b = (q, b'')" by fastforce
  have "stored_in b'' = (if q = None then (stored_in b)(k := None) else stored_in b)"
    using d bk.del_done bk.del_failed by (cases q) auto
  then show "keyed_by_endpoint (snd (RemoveWebPushSubscription k b))"
    using assms d by (auto simp: RemoveWebPushSubscription_def keyed_by_endpoint_def split: if_splits)
qed

lemma delete_stale_only: "k \<notin> set ks \<Longrightarrow> stored_in (delete_stale ks b) k = stored_in b k"
  unfolding delete_stale_def
proof (induction ks arbitrary: b)
  case (Cons x ks)
  obtain r b' where d: "db_Delete x b = (r, b')" by fastforce
  have "stored_in b' k = stored_in b k"
    using d bk.del_done [of x b b'] bk.del_failed [of x b _ b'] Cons.prems by (cases r) auto
  then show ?case using Cons d by simp
qed simp

lemma delete_stale_all:
  "bk_commits b = [] \<Longrightarrow> \<not> bk_closed b \<Longrightarrow> stored_in (delete_stale ks b) k = (if k \<in> set ks then None else stored_in b k)"
  unfolding delete_stale_def
proof (induction ks arbitrary: b)
  case (Cons x ks)
  let ?b = "b\<lparr>bk_data := gm_del x (bk_data b)\<rparr>"
  have d: "db_Delete x b = (None, ?b)" using Cons.prems by (simp add: db_Delete_def db_Update_def)
  have "stored_in (fold (\<lambda>k b. snd (db_Delete k b)) ks ?b) k = (if k \<in> set ks then None else stored_in ?b k)"
    by (rule Cons.IH) (use Cons.prems in simp_all)
  then show ?case by (simp add: d)
qed simp

lemma map_filter_set: "set (List.map_filter f xs) = {y. \<exists>x \<in> set xs. f x = Some y}"
  by (force simp: List.map_filter_def)

lemma stored_entries:
  assumes "gm_ok (bk_data b)" "\<not> bk_closed b"
  shows "\<exists>es. db_ForEach b = Inr es \<and> (\<forall>k v. (k, v) \<in> set es \<longleftrightarrow> stored_in b k = Some v)"
  using assms by (simp add: db_ForEach_def db_View_def gm_ok_def gm_get_def)

definition still_wanted :: "(push_sub \<Rightarrow> nat option) \<Rightarrow> push_sub option \<Rightarrow> bool" where
  "still_wanted answer v \<longleftrightarrow> (\<exists>s. v = Some s \<and> push_sub_valid s \<and> answer s \<noteq> Some 410 \<and> answer s \<noteq> Some 404)"

text \<open>A publication is pushed to every valid subscription, and then exactly those entries are gone that do not decode, that are
  not valid, or whose endpoint the push service says is gone.\<close>

lemma push_prunes_gone_endpoints:
  assumes "gm_ok (bk_data b)" "\<not> bk_closed b" "bk_commits b = []" "keyed_by_endpoint b"
  shows "set (fst (publishWebPushPayload True answer b)) = {s. push_sub_valid s \<and> (\<exists>k. stored_in b k = Some (Some s))} \<and>
    (\<forall>k. stored_in (snd (publishWebPushPayload True answer b)) k =
      (case stored_in b k of Some v \<Rightarrow> if still_wanted answer v then Some v else None | None \<Rightarrow> None))"
proof -
  obtain es where es: "db_ForEach b = Inr es" "\<And>k v. (k, v) \<in> set es \<longleftrightarrow> stored_in b k = Some v"
    using stored_entries [OF assms(1,2)] by blast
  have endpoint: "stored_in b k = Some (Some s) \<Longrightarrow> wp_Endpoint s = k" for k s
    using assms(4) by (simp add: keyed_by_endpoint_def)
  have stale_key: "stale_entry answer (k, v) = (if still_wanted answer v then None else Some k)" if "stored_in b k = Some v" for k v
    using that endpoint by (auto simp: stale_entry_def still_wanted_def split: option.split)
  have stale: "k \<in> set (stale_endpoints answer b) \<longleftrightarrow> (\<exists>v. stored_in b k = Some v \<and> \<not> still_wanted answer v)" for k
  proof -
    have "k \<in> set (stale_endpoints answer b) \<longleftrightarrow> (\<exists>j v. stored_in b j = Some v \<and> stale_entry answer (j, v) = Some k)"
      by (auto simp: stale_endpoints_def es(1) map_filter_set es(2) Bex_def)
    then show ?thesis using stale_key by (metis option.distinct(1) option.inject)
  qed
  have "set (fst (publishWebPushPayload True answer b)) = {s. push_sub_valid s \<and> (\<exists>k. stored_in b k = Some (Some s))}"
    by (auto simp: publishWebPushPayload_def es(1) map_filter_set pushed_to_def Bex_def es(2) split: option.splits if_splits)
  moreover have "stored_in (snd (publishWebPushPayload True answer b)) k =
      (case stored_in b k of Some v \<Rightarrow> if still_wanted answer v then Some v else None | None \<Rightarrow> None)" for k
    using stale [of k] by (auto simp: publishWebPushPayload_def delete_stale_all [OF assms(3,2)] split: option.split)
  ultimately show ?thesis by blast
qed

text \<open>The subscriptions are read before any is pushed to and deleted after all have been: one that is renewed in between is deleted.\<close>

lemma renewed_subscription_lost:
  assumes "bk_commits b = []" "\<not> bk_closed b" "push_sub_valid s" "wp_Endpoint s \<in> set (stale_endpoints answer b)"
  shows "stored_in (delete_stale (stale_endpoints answer b) (snd (AddWebPushSubscription s b))) (wp_Endpoint s) = None"
proof -
  have "wp_Endpoint s \<noteq> []" using assms(3) by (simp add: push_sub_valid_def)
  then have "bk_commits (snd (AddWebPushSubscription s b)) = []" "\<not> bk_closed (snd (AddWebPushSubscription s b))"
    using assms(1,2,3) by (simp_all add: AddWebPushSubscription_def db_Put_def db_Update_def bbolt_Put_def)
  then show ?thesis using assms(4) by (simp add: delete_stale_all)
qed

definition demo_sub :: "string \<Rightarrow> push_sub" where
  "demo_sub e = \<lparr>wp_Endpoint = e, wp_Auth = ''a'', wp_P256dh = ''p''\<rparr>"

definition demo_push :: "push_sub option Bucket" where
  "demo_push = OpenBucket [(''e1'', Some (demo_sub ''e1'')), (''e2'', Some (demo_sub ''e2'')), (''e3'', None)] []"

definition demo_answer :: "push_sub \<Rightarrow> nat option" where
  "demo_answer s = (if wp_Endpoint s = ''e1'' then Some 410 else Some 201)"

lemma push_prunes_gone_endpoints_witness:
  "stored_in (snd (publishWebPushPayload True demo_answer demo_push)) ''e1'' = None \<and>
    stored_in (snd (publishWebPushPayload True demo_answer demo_push)) ''e2'' = Some (Some (demo_sub ''e2''))"
proof -
  have d: "gm_ok (bk_data demo_push)" "\<not> bk_closed demo_push" "bk_commits demo_push = []" "keyed_by_endpoint demo_push"
    by (auto simp: demo_push_def OpenBucket_def gm_ok_def keyed_by_endpoint_def gm_get_def demo_sub_def split: if_splits)
  have "stored_in demo_push ''e1'' = Some (Some (demo_sub ''e1''))" "stored_in demo_push ''e2'' = Some (Some (demo_sub ''e2''))"
    "\<not> still_wanted demo_answer (Some (demo_sub ''e1''))" "still_wanted demo_answer (Some (demo_sub ''e2''))"
    by (simp_all add: demo_push_def OpenBucket_def gm_get_def still_wanted_def demo_answer_def demo_sub_def push_sub_valid_def)
  then show ?thesis using push_prunes_gone_endpoints [OF d, of demo_answer] by simp
qed

section \<open>Keys\<close>

text \<open>A key file is its content, or \<open>None\<close> when it cannot be read.\<close>

record vapid_files =
  vf_public :: "string option"
  vf_private :: "string option"

definition loadOrCreateVAPIDKeys ::
  "(string \<times> string) option \<Rightarrow> bool \<Rightarrow> bool \<Rightarrow> vapid_files \<Rightarrow> (string \<times> string) option \<times> vapid_files" where
  "loadOrCreateVAPIDKeys generated ok1 ok2 f =
    (let publicKey = (case vf_public f of None \<Rightarrow> [] | Some s \<Rightarrow> TrimSpace s);
         privateKey = (case vf_private f of None \<Rightarrow> [] | Some s \<Rightarrow> TrimSpace s) in
     if vf_public f \<noteq> None \<and> vf_private f \<noteq> None \<and> publicKey \<noteq> [] \<and> privateKey \<noteq> [] then (Some (publicKey, privateKey), f)
     else case generated of
       None \<Rightarrow> (None, f)
     | Some (newPrivate, newPublic) \<Rightarrow>
         if \<not> ok1 then (None, f)
         else (let f = f\<lparr>vf_public := Some newPublic\<rparr> in
           if \<not> ok2 then (None, f) else (Some (newPublic, newPrivate), f\<lparr>vf_private := Some newPrivate\<rparr>)))"

text \<open>The keys stay the same over restarts, so that browsers stay subscribed.\<close>

lemma vapid_keys_stable:
  assumes "loadOrCreateVAPIDKeys (Some (priv, pub)) ok1 ok2 f = (Some keys, g)"
    and "TrimSpace priv = priv" "TrimSpace pub = pub" "priv \<noteq> []" "pub \<noteq> []"
  shows "loadOrCreateVAPIDKeys generated' ok1' ok2' g = (Some keys, g)"
  using assms by (auto simp: loadOrCreateVAPIDKeys_def Let_def split: if_splits option.splits)

section \<open>Requests\<close>

record push_state =
  pu_Enabled :: bool
  pu_PublicKey :: string

definition webPushPublicKey :: "push_state \<Rightarrow> bool \<times> string option" where
  "webPushPublicKey st = (if \<not> pu_Enabled st then (False, None) else (True, Some (pu_PublicKey st)))"

text \<open>\<open>body\<close> is what the framework binds the body to.\<close>

definition webPushSubscribe :: "push_state \<Rightarrow> push_sub option \<Rightarrow> push_sub option Bucket \<Rightarrow> nat \<times> push_sub option Bucket" where
  "webPushSubscribe st body b =
    (if \<not> pu_Enabled st then (503, b)
     else case body of
       None \<Rightarrow> (400, b)
     | Some s \<Rightarrow> (case AddWebPushSubscription s b of (Some err, b) \<Rightarrow> (400, b) | (None, b) \<Rightarrow> (201, b)))"

definition webPushUnsubscribe :: "string \<Rightarrow> string option \<Rightarrow> push_sub option Bucket \<Rightarrow> nat \<times> push_sub option Bucket" where
  "webPushUnsubscribe query body b =
    (let endpoint = TrimSpace query;
         found = (if endpoint \<noteq> [] then Some endpoint else map_option TrimSpace body) in
     case found of
       None \<Rightarrow> (400, b)
     | Some e \<Rightarrow>
         if e = [] then (400, b)
         else (case RemoveWebPushSubscription e b of (Some err, b) \<Rightarrow> (404, b) | (None, b) \<Rightarrow> (204, b)))"

definition mapSSEError :: "sse_error \<Rightarrow> nat" where
  "mapSSEError e = (case e of ErrSSEDisabled \<Rightarrow> 503 | ErrSSETokenMissing \<Rightarrow> 401 | ErrSSETokenInvalid \<Rightarrow> 401)"

text \<open>An endpoint with white space around it can be subscribed and is then not found under its trimmed form: the request to
  unsubscribe succeeds and the subscription stays.\<close>

lemma untrimmed_endpoint_stays:
  assumes "wp_Endpoint s = '' '' @ e" "TrimSpace (wp_Endpoint s) = e" "e \<noteq> []" "stored_in b (wp_Endpoint s) = Some v"
    "bk_commits b = []" "\<not> bk_closed b"
  shows "fst (webPushUnsubscribe (wp_Endpoint s) body b) = 204 \<and> stored_in (snd (webPushUnsubscribe (wp_Endpoint s) body b)) (wp_Endpoint s) = Some v"
  using assms by (simp add: webPushUnsubscribe_def RemoveWebPushSubscription_def db_Delete_def db_Update_def)

text \<open>A stream is opened only with the configured token, which must be set.\<close>

lemma sse_needs_token: "sse_check sseToken token = None \<longleftrightarrow> TrimSpace sseToken \<noteq> [] \<and> TrimSpace token \<noteq> [] \<and> TrimSpace token = sseToken"
  by (simp add: sse_check_def)

end
