(* ===== verification/Upkeep.thy ===== *)
theory Upkeep
  imports ListParams
begin

text \<open>
  Smaller parts that keep the program going: the janitor that frees memory while nothing is recorded
  (\<open>internal/services/janitor\<close>), the check for a newer release (\<open>pkg/updatecheck\<close>, \<open>internal/modules/rest/version.go\<close>), the
  address of the tunnel and its supervision (\<open>internal/services/expose\<close>), and the writing of downloads
  (\<open>pkg/pool/file_writer.go\<close>). The clock, the release API, the tunnel's client and failures of the file system are inputs.
\<close>

section \<open>The janitor\<close>

text \<open>Times are in nanoseconds.\<close>

definition janitorCheckInterval :: int where "janitorCheckInterval = 30 * 1000000000"
definition janitorIdleGrace :: int where "janitorIdleGrace = 2 * 60 * 1000000000"

record janitor =
  ja_idleStart :: "int option"
  ja_hasCleaned :: bool

definition new_janitor :: janitor where
  "new_janitor = \<lparr>ja_idleStart = None, ja_hasCleaned = True\<rparr>"

text \<open>What a tick sees: the numbers of recordings and conversions, and the time.\<close>

record janitor_tick =
  jt_recorders :: nat
  jt_converts :: nat
  jt_now :: int

definition tick_busy :: "janitor_tick \<Rightarrow> bool" where
  "tick_busy t \<longleftrightarrow> jt_recorders t > 0 \<or> jt_converts t > 0"

definition janitor_step :: "janitor_tick \<Rightarrow> janitor \<Rightarrow> bool \<times> janitor" where
  "janitor_step t j =
    (if tick_busy t then (False, j\<lparr>ja_idleStart := None, ja_hasCleaned := False\<rparr>)
     else if ja_hasCleaned j then (False, j)
     else case ja_idleStart j of
       None \<Rightarrow> (False, j\<lparr>ja_idleStart := Some (jt_now t)\<rparr>)
     | Some since \<Rightarrow> if jt_now t - since \<ge> janitorIdleGrace then (True, j\<lparr>ja_hasCleaned := True\<rparr>) else (False, j))"

fun janitor_run :: "janitor_tick list \<Rightarrow> janitor \<Rightarrow> (janitor_tick \<times> bool) list \<times> janitor" where
  "janitor_run [] j = ([], j)"
| "janitor_run (t # ts) j =
    (let (clean, j) = janitor_step t j; (rs, j) = janitor_run ts j in ((t, clean) # rs, j))"

text \<open>Among the ticks so far with what was done at them: one was busy since the last cleaning; and all were idle since a tick at the
  given time.\<close>

definition busy_since_cleaning :: "(janitor_tick \<times> bool) list \<Rightarrow> bool" where
  "busy_since_cleaning rs \<longleftrightarrow> (\<exists>a x b. rs = a @ x # b \<and> tick_busy (fst x) \<and> list_all (\<lambda>y. \<not> snd y) (x # b))"

definition idle_since :: "(janitor_tick \<times> bool) list \<Rightarrow> int \<Rightarrow> bool" where
  "idle_since rs since \<longleftrightarrow> (\<exists>a x b. rs = a @ x # b \<and> jt_now (fst x) = since \<and> list_all (\<lambda>y. \<not> tick_busy (fst y)) (x # b))"

definition quiet_before :: "(janitor_tick \<times> bool) list \<Rightarrow> janitor \<Rightarrow> bool" where
  "quiet_before rs j \<longleftrightarrow> ja_hasCleaned j \<or>
    busy_since_cleaning rs \<and> (case ja_idleStart j of None \<Rightarrow> True | Some since \<Rightarrow> idle_since rs since)"

definition cleaning_due :: "(janitor_tick \<times> bool) list \<Rightarrow> janitor_tick \<Rightarrow> bool" where
  "cleaning_due rs t \<longleftrightarrow> \<not> tick_busy t \<and> busy_since_cleaning rs \<and>
    (\<exists>since. idle_since rs since \<and> since + janitorIdleGrace \<le> jt_now t)"

lemma busy_since_cleaning_snoc: "tick_busy t \<or> busy_since_cleaning rs \<Longrightarrow> busy_since_cleaning (rs @ [(t, False)])"
proof (elim disjE)
  assume "tick_busy t"
  then show ?thesis unfolding busy_since_cleaning_def by (intro exI [of _ rs] exI [of _ "(t, False)"] exI [of _ "[]"]) simp
next
  assume "busy_since_cleaning rs"
  then obtain a x b where "rs = a @ x # b" "tick_busy (fst x)" "list_all (\<lambda>y. \<not> snd y) (x # b)" by (auto simp: busy_since_cleaning_def)
  then show ?thesis unfolding busy_since_cleaning_def by (intro exI [of _ a] exI [of _ x] exI [of _ "b @ [(t, False)]"]) simp
qed

lemma idle_since_snoc: "\<not> tick_busy t \<Longrightarrow> jt_now t = since \<or> idle_since rs since \<Longrightarrow> idle_since (rs @ [(t, c)]) since"
proof (elim disjE)
  assume "\<not> tick_busy t" "jt_now t = since"
  then show ?thesis unfolding idle_since_def by (intro exI [of _ rs] exI [of _ "(t, c)"] exI [of _ "[]"]) simp
next
  assume t: "\<not> tick_busy t" and "idle_since rs since"
  then obtain a x b where "rs = a @ x # b" "jt_now (fst x) = since" "list_all (\<lambda>y. \<not> tick_busy (fst y)) (x # b)"
    by (auto simp: idle_since_def)
  then show ?thesis using t unfolding idle_since_def by (intro exI [of _ a] exI [of _ x] exI [of _ "b @ [(t, c)]"]) simp
qed

lemma quiet_before_step:
  assumes "quiet_before rs j" "janitor_step t j = (clean, k)"
  shows "quiet_before (rs @ [(t, clean)]) k" and "clean \<Longrightarrow> cleaning_due rs t"
proof -
  have "quiet_before (rs @ [(t, clean)]) k \<and> (clean \<longrightarrow> cleaning_due rs t)"
    using assms busy_since_cleaning_snoc [of t rs] idle_since_snoc [of t _ rs False]
    by (auto simp: janitor_step_def quiet_before_def cleaning_due_def split: if_splits option.splits)
  then show "quiet_before (rs @ [(t, clean)]) k" and "clean \<Longrightarrow> cleaning_due rs t" by simp_all
qed

lemma janitor_run_due:
  "quiet_before rs j \<Longrightarrow> janitor_run ts j = (out, k) \<Longrightarrow> out = a @ (t, True) # b \<Longrightarrow> cleaning_due (rs @ a) t"
proof (induction ts arbitrary: rs j out a)
  case (Cons u ts)
  obtain clean j' where s: "janitor_step u j = (clean, j')" by fastforce
  obtain out' where o: "janitor_run ts j' = (out', k)" "out = (u, clean) # out'" using Cons.prems(2) s by (auto split: prod.splits)
  show ?case
  proof (cases a)
    case Nil
    then show ?thesis using quiet_before_step(2) [OF Cons.prems(1) s] Cons.prems(3) o by simp
  next
    case (Cons x a')
    then have "out' = a' @ (t, True) # b" "x = (u, clean)" using Cons.prems(3) o by simp_all
    then show ?thesis using Cons.IH [OF quiet_before_step(1) [OF Cons.prems(1) s] o(1)] Cons by simp
  qed
qed simp

text \<open>Memory is freed only while nothing is recorded or converted, after at least two minutes of ticks without work, and once per
  idle window: something was busy since the last time.\<close>

lemma janitor_cleans_when_idle:
  assumes "fst (janitor_run ts new_janitor) = a @ (t, True) # b"
  shows "cleaning_due a t"
proof -
  obtain out k where r: "janitor_run ts new_janitor = (out, k)" by fastforce
  have "quiet_before [] new_janitor" by (simp add: quiet_before_def new_janitor_def)
  from janitor_run_due [OF this r, of a t b] show ?thesis using assms r by simp
qed

definition demo_tick :: "nat \<Rightarrow> int \<Rightarrow> janitor_tick" where
  "demo_tick n secs = \<lparr>jt_recorders = n, jt_converts = 0, jt_now = secs * 1000000000\<rparr>"

lemma janitor_example:
  "map snd (fst (janitor_run (map (\<lambda>(n, s). demo_tick n s) [(0, 30), (1, 60), (0, 90), (0, 120), (0, 210), (0, 240)]) new_janitor)) =
    [False, False, False, False, True, False]"
  by code_simp

section \<open>Writing a download\<close>

text \<open>Files by name. The copy ends with the whole body, with an error after some bytes, or because the context has ended; the flags
  say whether the other calls succeed. \<open>tmp\<close> is the new name that \<open>CreateTemp\<close> gives.\<close>

type_synonym dl_files = "string \<Rightarrow> bytes option"

datatype copy_outcome = Copied bytes | Copy_failed bytes | Copy_cancelled bytes

record dl_calls =
  dl_created :: bool
  dl_copy :: copy_outcome
  dl_synced :: bool
  dl_closed :: bool
  dl_renamed :: bool
  dl_target_removed :: bool
  dl_tmp_removed :: bool

datatype dl_error = Create_failed | Copy_error | Sync_failed | Context_done | Close_failed | Rename_failed

definition dl_cleanup :: "dl_calls \<Rightarrow> string \<Rightarrow> dl_files \<Rightarrow> dl_files" where
  "dl_cleanup e tmp fs = (if dl_tmp_removed e then fs(tmp := None) else fs)"

definition WriteToFile :: "dl_calls \<Rightarrow> string \<Rightarrow> string \<Rightarrow> dl_files \<Rightarrow> dl_error option \<times> dl_files" where
  "WriteToFile e tmp outPath fs =
    (if \<not> dl_created e then (Some Create_failed, fs)
     else case dl_copy e of
       Copy_cancelled b \<Rightarrow> (Some Context_done, dl_cleanup e tmp (fs(tmp \<mapsto> b)))
     | Copy_failed b \<Rightarrow> (Some Copy_error, dl_cleanup e tmp (fs(tmp \<mapsto> b)))
     | Copied b \<Rightarrow>
         (let fs = fs(tmp \<mapsto> b) in
          if \<not> dl_synced e then (Some Sync_failed, dl_cleanup e tmp fs)
          else if \<not> dl_closed e then (Some Close_failed, dl_cleanup e tmp fs)
          else (let fs = (if dl_target_removed e then fs(outPath := None) else fs) in
            if \<not> dl_renamed e then (Some Rename_failed, dl_cleanup e tmp fs)
            else (None, fs(outPath \<mapsto> b, tmp := None)))))"

text \<open>A download that succeeds leaves the whole body at the target and no other trace; one that fails before the renaming leaves the
  target as it was.\<close>

lemma download_done:
  assumes "WriteToFile e tmp outPath fs = (None, fs')"
  shows "\<exists>b. dl_copy e = Copied b \<and> fs' = fs(outPath \<mapsto> b, tmp := None)"
proof -
  obtain b where b: "dl_copy e = Copied b"
    "fs' = (if dl_target_removed e then fs(tmp \<mapsto> b, outPath := None) else fs(tmp \<mapsto> b))(outPath \<mapsto> b, tmp := None)"
    using assms by (auto simp: WriteToFile_def Let_def split: if_splits copy_outcome.splits)
  have "fs' = fs(outPath \<mapsto> b, tmp := None)" unfolding b(2) by (rule ext) simp
  then show ?thesis using b(1) by blast
qed

lemma download_failed:
  assumes "WriteToFile e tmp outPath fs = (Some err, fs')" "fs tmp = None" "tmp \<noteq> outPath" "err \<noteq> Rename_failed"
  shows "fs' outPath = fs outPath \<and> (dl_tmp_removed e \<longrightarrow> fs' = fs)"
proof -
  have "fs' = fs \<or> (\<exists>b. fs' = dl_cleanup e tmp (fs(tmp \<mapsto> b)))"
    using assms(1,4) by (auto simp: WriteToFile_def Let_def split: if_splits copy_outcome.splits)
  then show ?thesis using assms(2,3) by (auto simp: dl_cleanup_def fun_eq_iff)
qed

text \<open>When the renaming fails, the old target has been removed already.\<close>

lemma failed_rename_loses_target:
  assumes "dl_created e" "dl_copy e = Copied b" "dl_synced e" "dl_closed e" "\<not> dl_renamed e" "dl_target_removed e" "dl_tmp_removed e"
    "tmp \<noteq> outPath"
  shows "WriteToFile e tmp outPath fs = (Some Rename_failed, fs(tmp := None, outPath := None))"
  using assms by (auto simp: WriteToFile_def dl_cleanup_def)

section \<open>The tunnel\<close>

datatype split_error = Missing_port | Too_many_colons | Missing_bracket | Unexpected_bracket

fun last_index :: "char \<Rightarrow> string \<Rightarrow> nat option" where
  "last_index c [] = None"
| "last_index c (x # xs) =
    (case last_index c xs of Some i \<Rightarrow> Some (Suc i) | None \<Rightarrow> if x = c then Some 0 else None)"

fun first_index :: "char \<Rightarrow> string \<Rightarrow> nat option" where
  "first_index c [] = None"
| "first_index c (x # xs) = (if x = c then Some 0 else map_option Suc (first_index c xs))"

text \<open>\<open>net.SplitHostPort\<close>.\<close>

definition SplitHostPort :: "string \<Rightarrow> split_error + string \<times> string" where
  "SplitHostPort hp =
    (case last_index CHR '':'' hp of
       None \<Rightarrow> Inl Missing_port
     | Some i \<Rightarrow>
         if hp ! 0 = CHR ''['' then
           (case first_index CHR '']'' hp of
              None \<Rightarrow> Inl Missing_bracket
            | Some e \<Rightarrow>
                if e + 1 = length hp then Inl Missing_port
                else if e + 1 \<noteq> i then (if hp ! (e + 1) = CHR '':'' then Inl Too_many_colons else Inl Missing_port)
                else if first_index CHR ''['' (drop 1 hp) \<noteq> None \<or> first_index CHR '']'' (drop (e + 1) hp) \<noteq> None
                     then Inl Unexpected_bracket
                else Inr (drop 1 (take e hp), drop (i + 1) hp))
         else if first_index CHR '':'' (take i hp) \<noteq> None then Inl Too_many_colons
         else if first_index CHR ''['' hp \<noteq> None \<or> first_index CHR '']'' hp \<noteq> None then Inl Unexpected_bracket
         else Inr (take i hp, drop (i + 1) hp))"

datatype addr_error = Empty_server | Bad_server | Bad_port

definition defaultFRPServerPort :: int where "defaultFRPServerPort = 7000"

definition shouldFallbackToDefaultPort :: "(string \<Rightarrow> bool) \<Rightarrow> string \<Rightarrow> split_error \<Rightarrow> bool" where
  "shouldFallbackToDefaultPort is_ip addr err =
    (if Contains addr ''://'' \<or> Contains addr ''['' \<or> Contains addr '']'' \<or> Contains addr ''%'' then False
     else if CHR '':'' \<notin> set addr then True
     else if is_ip addr then True
     else err = Missing_port)"

text \<open>\<open>is_ip\<close> stands for \<open>net.ParseIP\<close>.\<close>

definition parseServerAddr :: "(string \<Rightarrow> bool) \<Rightarrow> string \<Rightarrow> addr_error + string \<times> int" where
  "parseServerAddr is_ip addr =
    (if addr = [] then Inl Empty_server
     else case SplitHostPort addr of
       Inr (host, portStr) \<Rightarrow>
         if host = [] then Inl Bad_server
         else (case go_Atoi portStr of None \<Rightarrow> Inl Bad_port | Some port \<Rightarrow> Inr (host, port))
     | Inl err \<Rightarrow> if shouldFallbackToDefaultPort is_ip addr err then Inr (addr, defaultFRPServerPort) else Inl Bad_server)"

lemma last_index_none: "last_index c xs = None \<longleftrightarrow> c \<notin> set xs"
  by (induction xs) (auto split: option.splits)

lemma last_index_append: "c \<notin> set ys \<Longrightarrow> last_index c (xs @ c # ys) = Some (length xs)"
  using last_index_none [of c ys] by (induction xs) simp_all

lemma first_index_none [simp]: "first_index c xs = None \<longleftrightarrow> c \<notin> set xs"
  by (induction xs) auto

text \<open>A host name with a port is taken apart, one without gets the default port.\<close>

lemma parseServerAddr_host_port:
  assumes "host \<noteq> []" "{CHR '':'', CHR ''['', CHR '']''} \<inter> set host = {}" "{CHR '':'', CHR ''['', CHR '']''} \<inter> set port = {}"
  shows "parseServerAddr is_ip (host @ '':'' @ port) = (case go_Atoi port of None \<Rightarrow> Inl Bad_port | Some p \<Rightarrow> Inr (host, p))"
proof -
  have "(host @ CHR '':'' # port) ! 0 \<noteq> CHR ''[''" using assms(1,2) by (cases host) auto
  then have "SplitHostPort (host @ CHR '':'' # port) = Inr (host, port)"
    using assms by (simp add: SplitHostPort_def last_index_append)
  then show ?thesis using assms(1) by (simp add: parseServerAddr_def)
qed

lemma Contains_char: "Contains s [c] \<longleftrightarrow> c \<in> set s"
  by (induction s) (auto simp: HasPrefix_def)

lemma parseServerAddr_host:
  assumes "host \<noteq> []" "{CHR '':'', CHR ''['', CHR '']'', CHR ''%''} \<inter> set host = {}" "\<not> Contains host ''://''"
  shows "parseServerAddr is_ip host = Inr (host, defaultFRPServerPort)"
  using assms by (simp add: parseServerAddr_def SplitHostPort_def last_index_none [THEN iffD2] shouldFallbackToDefaultPort_def Contains_char)

lemma parseServerAddr_examples:
  "parseServerAddr (\<lambda>_. False) ''tunnel.bilirec.org:7000'' = Inr (''tunnel.bilirec.org'', 7000)"
  "parseServerAddr (\<lambda>s. s = ''::1'') ''::1'' = Inr (''::1'', 7000)"
  "parseServerAddr (\<lambda>_. False) ''[::1]:7001'' = Inr (''::1'', 7001)"
  "parseServerAddr (\<lambda>_. False) ''http://a:1'' = Inl Bad_server"
  by code_simp+

text \<open>What the supervision of the tunnel sees at a wake-up.\<close>

datatype proxy_phase = Running | Start_err | Check_failed | Other_phase

datatype tunnel_event = Shut_down | Timed_out | Polled "proxy_phase option"

datatype tunnel_end = Left | Gave_up | Printed | Failed

fun waitAndPrintTunnelBox :: "tunnel_event list \<Rightarrow> tunnel_end option" where
  "waitAndPrintTunnelBox [] = None"
| "waitAndPrintTunnelBox (Shut_down # es) = Some Left"
| "waitAndPrintTunnelBox (Timed_out # es) = Some Gave_up"
| "waitAndPrintTunnelBox (Polled (Some Running) # es) = Some Printed"
| "waitAndPrintTunnelBox (Polled (Some Start_err) # es) = Some Failed"
| "waitAndPrintTunnelBox (Polled (Some Check_failed) # es) = Some Failed"
| "waitAndPrintTunnelBox (Polled _ # es) = waitAndPrintTunnelBox es"

text \<open>The address is printed only for a tunnel that has been seen running, before any failure.\<close>

lemma tunnel_printed_when_running:
  "waitAndPrintTunnelBox es = Some Printed \<Longrightarrow>
    \<exists>a b. es = a @ Polled (Some Running) # b \<and> list_all (\<lambda>e. e = Polled None \<or> e = Polled (Some Other_phase)) a"
proof (induction es)
  case (Cons e es)
  show ?case
  proof (cases "e = Polled (Some Running)")
    case True
    then show ?thesis by (intro exI [of _ "[]"] exI [of _ es]) simp
  next
    case False
    then have e: "(e = Polled None \<or> e = Polled (Some Other_phase)) \<and> waitAndPrintTunnelBox es = Some Printed"
      using Cons.prems by (cases "e # es" rule: waitAndPrintTunnelBox.cases) auto
    then obtain a b where "es = a @ Polled (Some Running) # b" "list_all (\<lambda>e. e = Polled None \<or> e = Polled (Some Other_phase)) a"
      using Cons.IH by blast
    then show ?thesis using e by (intro exI [of _ "e # a"] exI [of _ b]) auto
  qed
qed simp

section \<open>Newer releases\<close>

record version_result =
  vr_Current :: string
  vr_Latest :: string
  vr_Outdated :: bool
  vr_Checked :: bool
  vr_Error :: "string option"
  vr_RetryAfterSecs :: int

definition no_result :: "string \<Rightarrow> version_result" where
  "no_result current = \<lparr>vr_Current = current, vr_Latest = [], vr_Outdated = False, vr_Checked = False, vr_Error = None, vr_RetryAfterSecs = 0\<rparr>"

definition NormalizeGitHubAPIBaseURL :: "string \<Rightarrow> string" where
  "NormalizeGitHubAPIBaseURL raw =
    (let s = TrimSpace raw in if s = [] then [] else if drop (length s - 1) s \<noteq> ''/'' then s @ ''/'' else s)"

definition defaultGitHubAPIBase :: string where "defaultGitHubAPIBase = ''https://api.github.com/''"

definition githubAPIBaseURL :: "string option \<Rightarrow> string" where
  "githubAPIBaseURL env =
    (case env of None \<Rightarrow> [] | Some v \<Rightarrow>
       (let n = NormalizeGitHubAPIBaseURL v in if n = [] \<or> ToLower n = ToLower defaultGitHubAPIBase then [] else n))"

lemma NormalizeGitHubAPIBaseURL_idem:
  assumes "TrimSpace (NormalizeGitHubAPIBaseURL raw) = NormalizeGitHubAPIBaseURL raw"
  shows "NormalizeGitHubAPIBaseURL (NormalizeGitHubAPIBaseURL raw) = NormalizeGitHubAPIBaseURL raw"
proof -
  have "\<exists>t. NormalizeGitHubAPIBaseURL raw = [] \<or> NormalizeGitHubAPIBaseURL raw = t @ ''/''"
    unfolding NormalizeGitHubAPIBaseURL_def Let_def by (metis append_take_drop_id)
  then show ?thesis using assms by (auto simp: NormalizeGitHubAPIBaseURL_def Let_def)
qed

text \<open>A number followed by a letter, in either case.\<close>

definition number_unit :: "char \<Rightarrow> string \<Rightarrow> (string \<times> string) option" where
  "number_unit u s =
    (let ds = takeWhile is_digit s; rest = dropWhile is_digit s in
     case rest of
       c # rest' \<Rightarrow> if ds \<noteq> [] \<and> lower_char c = u then Some (ds, rest') else None
     | [] \<Rightarrow> None)"

text \<open>The pattern \<open>rate reset in (?:(\d+)h)?(?:(\d+)m)?(\d+)s\<close> at the beginning of a text, then anywhere.\<close>

definition reset_here :: "string \<Rightarrow> (string \<times> string \<times> string) option" where
  "reset_here s =
    (if ToLower (take 14 s) \<noteq> ''rate reset in '' then None
     else let r = drop 14 s;
              (h, r) = (case number_unit CHR ''h'' r of Some (d, r) \<Rightarrow> (d, r) | None \<Rightarrow> ([], r));
              (m, r) = (case number_unit CHR ''m'' r of Some (d, r) \<Rightarrow> (d, r) | None \<Rightarrow> ([], r))
          in case number_unit CHR ''s'' r of Some (d, r) \<Rightarrow> Some (h, m, d) | None \<Rightarrow> None)"

fun find_reset :: "string \<Rightarrow> (string \<times> string \<times> string) option" where
  "find_reset [] = None"
| "find_reset (c # cs) = (case reset_here (c # cs) of Some x \<Rightarrow> Some x | None \<Rightarrow> find_reset cs)"

text \<open>\<open>Atoi\<close> of digits; beyond 64 bits it returns the largest number with an error that is not looked at.\<close>

definition atoi_or_zero :: "string \<Rightarrow> int" where
  "atoi_or_zero ds = (if ds = [] then 0 else case go_Atoi ds of Some v \<Rightarrow> v | None \<Rightarrow> 2 ^ 63 - 1)"

definition parseRateResetSeconds :: "string \<Rightarrow> int" where
  "parseRateResetSeconds raw =
    (case find_reset raw of
       None \<Rightarrow> 0
     | Some (h, m, s) \<Rightarrow> sint (word_of_int (atoi_or_zero h * 3600 + atoi_or_zero m * 60 + atoi_or_zero s) :: 64 word))"

definition rate_minutes :: "int \<Rightarrow> int option" where
  "rate_minutes retryAfterSecs =
    (if retryAfterSecs \<le> 0 then None else Some (let m = (retryAfterSecs + 59) div 60 in if m < 1 then 1 else m))"

text \<open>The waiting time that is told covers the one asked for, by less than a minute.\<close>

lemma rate_minutes_covers: "rate_minutes s = Some m \<Longrightarrow> s \<le> m * 60 \<and> m * 60 < s + 60"
  by (auto simp: rate_minutes_def Let_def split: if_splits)

definition isRateLimitError :: "string \<Rightarrow> bool" where
  "isRateLimitError lower \<longleftrightarrow> Contains lower ''rate limit'' \<or> (Contains lower ''403'' \<and> Contains lower ''api.github.com'')"

definition unreachableHints :: "string list" where
  "unreachableHints = [''connection refused'', ''connection reset'', ''no such host'', ''i/o timeout'', ''timeout'',
     ''tls handshake timeout'', ''network is unreachable'', ''dial tcp'', ''eof'']"

text \<open>An error: its text, and whether it is one of the codes or a timeout that count as unreachable.\<close>

record check_error =
  ce_text :: string
  ce_unreachable :: bool

definition isUnreachableError :: "check_error \<Rightarrow> bool" where
  "isUnreachableError e \<longleftrightarrow> ce_unreachable e \<or> (\<exists>h \<in> set unreachableHints. Contains (ToLower (ce_text e)) h)"

definition formatCheckError :: "check_error \<Rightarrow> string \<times> int" where
  "formatCheckError e =
    (if isRateLimitError (ToLower (ce_text e)) then (''github_rate_limit'', parseRateResetSeconds (ce_text e))
     else if isUnreachableError e then (''github_unreachable'', 0)
     else (''github_error'', 0))"

definition failureResult :: "string \<Rightarrow> check_error \<Rightarrow> version_result" where
  "failureResult current e =
    (no_result current)\<lparr>vr_Error := Some (fst (formatCheckError e)), vr_RetryAfterSecs := snd (formatCheckError e)\<rparr>"

text \<open>\<open>query\<close> asks the API about the version without its prefix: the latest tag and whether it is newer.\<close>

definition update_Check :: "(string \<Rightarrow> check_error + string \<times> bool) \<Rightarrow> string \<Rightarrow> check_error option \<times> version_result" where
  "update_Check query current =
    (if current = [] then (None, no_result [])
     else case query (TrimPrefix (TrimSpace current) ''v'') of
       Inl e \<Rightarrow> (Some e, failureResult current e)
     | Inr (latest, outdated) \<Rightarrow>
         (let tag = (if latest \<noteq> [] \<and> \<not> HasPrefix latest ''v'' then ''v'' @ latest else latest) in
          (None, (no_result current)\<lparr>vr_Latest := tag, vr_Outdated := outdated, vr_Checked := True\<rparr>)))"

definition snapshotLocked :: "string \<Rightarrow> version_result \<Rightarrow> version_result" where
  "snapshotLocked current cached = (if vr_Checked cached \<or> vr_Error cached \<noteq> None then cached else no_result current)"

definition checkUpdateEnabled :: "bool \<Rightarrow> string option \<Rightarrow> bool" where
  "checkUpdateEnabled android env = (case env of None \<Rightarrow> \<not> android | Some v \<Rightarrow> v = ''true'')"

definition shouldCheck :: "bool \<Rightarrow> string option \<Rightarrow> string \<Rightarrow> bool" where
  "shouldCheck android env current \<longleftrightarrow> current \<noteq> [] \<and> checkUpdateEnabled android env"

text \<open>The status of a request to check, with the result.\<close>

definition postVersionCheck :: "(string \<Rightarrow> check_error + string \<times> bool) \<Rightarrow> string \<Rightarrow> nat \<times> version_result" where
  "postVersionCheck query current =
    (if current = [] then (400, (no_result [])\<lparr>vr_Error := Some ''no_embedded_version''\<rparr>)
     else case update_Check query current of (Some e, r) \<Rightarrow> (502, r) | (None, r) \<Rightarrow> (200, r))"

text \<open>What a check has found is what is shown until the next one.\<close>

lemma check_is_shown: "current \<noteq> [] \<Longrightarrow> snapshotLocked current (snd (update_Check query current)) = snd (update_Check query current)"
  by (auto simp: snapshotLocked_def update_Check_def failureResult_def Let_def split: sum.splits)

lemma parseRateResetSeconds_examples:
  "parseRateResetSeconds ''403 API rate limit exceeded [Rate reset in 1h2m3s]'' = 3723"
  "parseRateResetSeconds ''rate reset in 59s'' = 59" "parseRateResetSeconds ''rate reset in 5m'' = 0"
  by code_simp+

end
