(* ===== verification/LogEncode.thy ===== *)
theory LogEncode
  imports DanmakuXml
begin

text \<open>
  The human-readable log lines (\<open>pkg/logger/encoder.go\<close>): levels, fields as \<open>key=value\<close> with names of nested objects before their keys,
  quoting, and whole entries. Numbers, times and JSON are texts that libraries print. A reader of the fields specifies what
  they mean. A string is the list of its runes, as in \<open>DanmakuXml\<close>.
\<close>

section \<open>Quoting\<close>

definition needsQuote :: "runes \<Rightarrow> bool" where
  "needsQuote s \<longleftrightarrow> s = [] \<or> (\<exists>c \<in> set s. c \<le> rune CHR '' '' \<or> c = rune CHR ''='' \<or> c = rune CHR 0x22 \<or> c = rune CHR 0x5C)"

definition hex_lower :: "nat \<Rightarrow> nat" where
  "hex_lower d = (if d < 10 then 48 + d else 87 + d)"

fun hex_print :: "nat \<Rightarrow> nat \<Rightarrow> runes" where
  "hex_print 0 n = []"
| "hex_print (Suc k) n = hex_print k (n div 16) @ [hex_lower (n mod 16)]"

definition valid_rune :: "nat \<Rightarrow> bool" where
  "valid_rune r \<longleftrightarrow> r < 0xD800 \<or> (0xDFFF < r \<and> r \<le> 0x10FFFF)"

text \<open>\<open>strconv.Quote\<close>; \<open>is_print\<close> is \<open>strconv.IsPrint\<close>.\<close>

definition quote_rune :: "(nat \<Rightarrow> bool) \<Rightarrow> nat \<Rightarrow> runes" where
  "quote_rune is_print r =
    (let bs = rune CHR 0x5C in
     if r = rune CHR 0x22 \<or> r = bs then [bs, r]
     else if is_print r then [r]
     else if r = 7 then [bs, rune CHR ''a'']
     else if r = 8 then [bs, rune CHR ''b'']
     else if r = 12 then [bs, rune CHR ''f'']
     else if r = 10 then [bs, rune CHR ''n'']
     else if r = 13 then [bs, rune CHR ''r'']
     else if r = 9 then [bs, rune CHR ''t'']
     else if r = 11 then [bs, rune CHR ''v'']
     else if r < 32 \<or> r = 127 then bs # rune CHR ''x'' # hex_print 2 r
     else if \<not> valid_rune r then bs # rune CHR ''u'' # hex_print 4 0xFFFD
     else if r < 0x10000 then bs # rune CHR ''u'' # hex_print 4 r
     else bs # rune CHR ''U'' # hex_print 8 r)"

definition go_Quote :: "(nat \<Rightarrow> bool) \<Rightarrow> runes \<Rightarrow> runes" where
  "go_Quote is_print s = [rune CHR 0x22] @ concat (map (quote_rune is_print) s) @ [rune CHR 0x22]"

definition appendQuoted :: "(nat \<Rightarrow> bool) \<Rightarrow> runes \<Rightarrow> runes" where
  "appendQuoted is_print s = (if needsQuote s then go_Quote is_print s else s)"

section \<open>Fields\<close>

text \<open>A value: a string (also durations and times), a text that is written as it is (numbers, truth values, complex numbers, JSON),
  an array, or an object. A field has a key, or opens a namespace for those after it.\<close>

datatype log_value =
    Lv_string runes | Lv_raw runes | Lv_array "log_value list" | Lv_object "log_field list"
and log_field = Log_field runes log_value | Log_namespace runes

definition pk :: "runes \<Rightarrow> runes \<Rightarrow> runes" where
  "pk ns key = (if ns = [] then key else ns @ key)"

definition beginKV :: "runes \<Rightarrow> runes \<Rightarrow> runes" where
  "beginKV ns key = [rune CHR '' ''] @ pk ns key @ [rune CHR ''='']"

definition opened :: "runes \<Rightarrow> runes \<Rightarrow> runes" where
  "opened ns key = pk ns key @ [rune CHR ''.'']"

fun write_value :: "(nat \<Rightarrow> bool) \<Rightarrow> log_value \<Rightarrow> runes"
  and write_elems :: "(nat \<Rightarrow> bool) \<Rightarrow> bool \<Rightarrow> log_value list \<Rightarrow> runes"
  and write_field :: "(nat \<Rightarrow> bool) \<Rightarrow> runes \<Rightarrow> log_field \<Rightarrow> runes"
  and write_fields :: "(nat \<Rightarrow> bool) \<Rightarrow> runes \<Rightarrow> log_field list \<Rightarrow> runes" where
  "write_value pr (Lv_string s) = appendQuoted pr s"
| "write_value pr (Lv_raw s) = s"
| "write_value pr (Lv_array vs) = [rune CHR ''[''] @ write_elems pr False vs @ [rune CHR '']'']"
| "write_value pr (Lv_object fs) = [rune CHR ''{''] @ write_fields pr [] fs @ [rune CHR ''}'']"
| "write_elems pr sep [] = []"
| "write_elems pr sep (v # vs) = (if sep then [rune CHR '','' ] else []) @ write_value pr v @ write_elems pr True vs"
| "write_field pr ns (Log_namespace key) = []"
| "write_field pr ns (Log_field key v) =
    (case v of
       Lv_object fs \<Rightarrow> write_fields pr (opened ns key) fs
     | _ \<Rightarrow> beginKV ns key @ write_value pr v)"
| "write_fields pr ns [] = []"
| "write_fields pr ns (f # fs) =
    write_field pr ns f @ write_fields pr (case f of Log_namespace key \<Rightarrow> opened ns key | _ \<Rightarrow> ns) fs"

section \<open>Levels and entries\<close>

definition levelName :: "int \<Rightarrow> string" where
  "levelName l =
    (if l = -2 then ''TRACE'' else if l = -1 then ''DEBUG'' else if l = 0 then ''INFO'' else if l = 1 then ''WARN''
     else if l = 2 then ''ERROR'' else if l = 3 then ''DPANIC'' else if l = 4 then ''PANIC'' else if l = 5 then ''FATAL''
     else ''LEVEL('' @ (if l < 0 then ''-'' else []) @ itoa (nat \<bar>l\<bar>) @ '')'')"

definition levelColor :: "int \<Rightarrow> nat" where
  "levelColor l =
    (if l = -2 then 90 else if l < 0 then 36 else if l < 1 then 32 else if l < 2 then 33 else if l < 3 then 31 else 35)"

definition ansi :: "nat \<Rightarrow> runes" where
  "ansi n = [27] @ lit (''['' @ itoa n @ ''m'')"

definition appendLevel :: "int \<Rightarrow> bool \<Rightarrow> runes" where
  "appendLevel l color =
    (let name = lit (levelName l); pad = replicate (5 - length name) (rune CHR '' '') in
     if color then ansi (levelColor l) @ name @ ansi 0 @ pad else name @ pad)"

record log_entry =
  le_Time :: runes
  le_Level :: int
  le_LoggerName :: runes
  le_Message :: runes
  le_Stack :: runes

text \<open>\<open>buf\<close> are the fields written before, with the namespace \<open>ns\<close> that they have opened.\<close>

definition EncodeEntry :: "(nat \<Rightarrow> bool) \<Rightarrow> bool \<Rightarrow> runes \<Rightarrow> runes \<Rightarrow> log_entry \<Rightarrow> log_field list \<Rightarrow> runes" where
  "EncodeEntry pr color ns buf e fs =
    le_Time e @ lit ''  '' @ appendLevel (le_Level e) color @ lit ''  '' @
    (if le_LoggerName e \<noteq> [] then le_LoggerName e @ lit ''  '' else []) @ le_Message e @ buf @ write_fields pr ns fs @
    (if le_Stack e \<noteq> [] then [10] @ le_Stack e else []) @ [10]"

section \<open>Reading the fields back\<close>

definition hex_value :: "runes \<Rightarrow> nat" where
  "hex_value ds = foldl (\<lambda>a d. a * 16 + (if d < 58 then d - 48 else d - 87)) 0 ds"

definition read_hex :: "nat \<Rightarrow> runes \<Rightarrow> (nat \<times> runes) option" where
  "read_hex k s = (if length s < k then None else Some (hex_value (take k s), drop k s))"

definition read_escape :: "nat \<Rightarrow> runes \<Rightarrow> (nat \<times> runes) option" where
  "read_escape c s =
    (if c = rune CHR 0x22 \<or> c = rune CHR 0x5C then Some (c, s)
     else if c = rune CHR ''a'' then Some (7, s)
     else if c = rune CHR ''b'' then Some (8, s)
     else if c = rune CHR ''f'' then Some (12, s)
     else if c = rune CHR ''n'' then Some (10, s)
     else if c = rune CHR ''r'' then Some (13, s)
     else if c = rune CHR ''t'' then Some (9, s)
     else if c = rune CHR ''v'' then Some (11, s)
     else if c = rune CHR ''x'' then read_hex 2 s
     else if c = rune CHR ''u'' then read_hex 4 s
     else if c = rune CHR ''U'' then read_hex 8 s
     else None)"

definition read_rune :: "runes \<Rightarrow> (nat \<times> runes) option" where
  "read_rune s =
    (case s of
       [] \<Rightarrow> None
     | c # t \<Rightarrow> if c \<noteq> rune CHR 0x5C then Some (c, t) else (case t of [] \<Rightarrow> None | d # u \<Rightarrow> read_escape d u))"

text \<open>The text up to the closing quotation mark, with what follows it. The number is fuel; the length of the text suffices.\<close>

fun unquote :: "nat \<Rightarrow> runes \<Rightarrow> (runes \<times> runes) option" where
  "unquote 0 s = None"
| "unquote (Suc n) s =
    (if s \<noteq> [] \<and> hd s = rune CHR 0x22 then Some ([], tl s)
     else case read_rune s of
       None \<Rightarrow> None
     | Some (r, t) \<Rightarrow> map_option (apfst (Cons r)) (unquote n t))"

definition read_value :: "runes \<Rightarrow> (runes \<times> runes) option" where
  "read_value s =
    (if s \<noteq> [] \<and> hd s = rune CHR 0x22 then unquote (length s) (tl s)
     else Some (takeWhile (\<lambda>c. c \<noteq> rune CHR '' '') s, dropWhile (\<lambda>c. c \<noteq> rune CHR '' '') s))"

fun read_pairs :: "nat \<Rightarrow> runes \<Rightarrow> (runes \<times> runes) list option" where
  "read_pairs 0 s = (if s = [] then Some [] else None)"
| "read_pairs (Suc n) s =
    (if s = [] then Some []
     else if hd s \<noteq> rune CHR '' '' then None
     else let key = takeWhile (\<lambda>c. c \<noteq> rune CHR ''='') (tl s) in
       case read_value (drop (Suc (length key)) (tl s)) of
         None \<Rightarrow> None
       | Some (v, rest) \<Rightarrow> map_option (Cons (key, v)) (read_pairs n rest))"

lemma hex_digit_value: "d < 16 \<Longrightarrow> (if hex_lower d < 58 then hex_lower d - 48 else hex_lower d - 87) = d"
  by (auto simp: hex_lower_def)

lemma hex_print_length [simp]: "length (hex_print k n) = k"
  by (induction k n rule: hex_print.induct) simp_all

lemma hex_value_print: "n < 16 ^ k \<Longrightarrow> hex_value (hex_print k n) = n"
proof (induction k n rule: hex_print.induct)
  case (2 k n)
  then have "n div 16 < 16 ^ k" by (simp add: less_mult_imp_div_less mult.commute)
  then have "hex_value (hex_print k (n div 16)) = n div 16" by (rule 2)
  then show ?case using hex_digit_value [of "n mod 16"] by (simp add: hex_value_def)
qed (simp add: hex_value_def)

lemma read_hex_print: "n < 16 ^ k \<Longrightarrow> read_hex k (hex_print k n @ s) = Some (n, s)"
  by (simp add: read_hex_def hex_value_print)

lemma rune_codes: "rune CHR 0x22 = 34" "rune CHR 0x5C = 92" "rune CHR ''a'' = 97" "rune CHR ''b'' = 98" "rune CHR ''f'' = 102"
  "rune CHR ''n'' = 110" "rune CHR ''r'' = 114" "rune CHR ''t'' = 116" "rune CHR ''v'' = 118" "rune CHR ''x'' = 120"
  "rune CHR ''u'' = 117" "rune CHR ''U'' = 85" "rune CHR '' '' = 32" "rune CHR ''='' = 61" "rune CHR ''.'' = 46"
  by (simp_all add: rune_def)

lemma read_rune_quote: "valid_rune r \<Longrightarrow> read_rune (quote_rune pr r @ s) = Some (r, s)"
  using read_hex_print [of r 2 s] read_hex_print [of r 4 s] read_hex_print [of r 8 s]
  by (auto simp: quote_rune_def read_rune_def read_escape_def rune_codes valid_rune_def Let_def)

lemma quote_rune_shape: "quote_rune pr r \<noteq> [] \<and> hd (quote_rune pr r) \<noteq> 34"
  by (auto simp: quote_rune_def rune_codes Let_def)

lemma unquote_quote:
  "\<forall>r \<in> set s. valid_rune r \<Longrightarrow> length s < n \<Longrightarrow> unquote n (concat (map (quote_rune pr) s) @ 34 # t) = Some (s, t)"
proof (induction s arbitrary: n)
  case Nil
  then show ?case by (cases n) (simp_all add: rune_codes)
next
  case (Cons r s)
  then obtain m where n: "n = Suc m" "length s < m" by (cases n) auto
  have h: "hd (quote_rune pr r @ x) \<noteq> 34" "quote_rune pr r @ x \<noteq> []" for x using quote_rune_shape [of pr r] by (simp_all add: hd_append)
  show ?case using Cons h n by (simp add: read_rune_quote rune_codes)
qed

lemma length_quoted: "length s \<le> length (concat (map (quote_rune pr) s))"
proof (induction s)
  case (Cons r s)
  have "1 \<le> length (quote_rune pr r)" using quote_rune_shape [of pr r] by (simp add: Suc_le_eq)
  then show ?case using Cons by simp
qed simp

lemma read_value_quoted:
  assumes "\<forall>r \<in> set s. valid_rune r" "t = [] \<or> hd t = 32"
  shows "read_value (appendQuoted pr s @ t) = Some (s, t)"
proof (cases "needsQuote s")
  case True
  then show ?thesis using unquote_quote [OF assms(1), of "length (go_Quote pr s @ t)" pr t] length_quoted [of s pr]
    by (simp add: appendQuoted_def go_Quote_def read_value_def rune_codes)
next
  case False
  then have s: "s \<noteq> []" "\<forall>c \<in> set s. c \<noteq> 32 \<and> c \<noteq> 34" by (auto simp: needsQuote_def rune_codes)
  then have "hd (s @ t) \<noteq> 34" by (cases s) auto
  moreover have "takeWhile (\<lambda>c. c \<noteq> 32) (s @ t) = s" "dropWhile (\<lambda>c. c \<noteq> 32) (s @ t) = t"
    using s(2) assms(2) by (auto simp: takeWhile_append2 dropWhile_append2) (cases t; simp)+
  ultimately show ?thesis using False by (simp add: appendQuoted_def read_value_def rune_codes)
qed

text \<open>The pairs that fields stand for: nested objects and namespaces put their names before the keys.\<close>

fun field_pairs :: "runes \<Rightarrow> log_field \<Rightarrow> (runes \<times> runes) list"
  and fields_pairs :: "runes \<Rightarrow> log_field list \<Rightarrow> (runes \<times> runes) list" where
  "field_pairs ns (Log_namespace key) = []"
| "field_pairs ns (Log_field key v) =
    (case v of
       Lv_object fs \<Rightarrow> fields_pairs (opened ns key) fs
     | Lv_string s \<Rightarrow> [(pk ns key, s)]
     | Lv_raw s \<Rightarrow> [(pk ns key, s)]
     | Lv_array vs \<Rightarrow> [])"
| "fields_pairs ns [] = []"
| "fields_pairs ns (f # fs) = field_pairs ns f @ fields_pairs (case f of Log_namespace key \<Rightarrow> opened ns key | _ \<Rightarrow> ns) fs"

definition plain_key :: "runes \<Rightarrow> bool" where
  "plain_key key \<longleftrightarrow> rune CHR ''='' \<notin> set key"

text \<open>Fields whose keys have no equals sign, whose strings are valid, whose printed texts need no quotes, and that hold no array.\<close>

fun field_readable :: "log_field \<Rightarrow> bool"
  and fields_readable :: "log_field list \<Rightarrow> bool" where
  "field_readable (Log_namespace key) \<longleftrightarrow> plain_key key"
| "field_readable (Log_field key v) \<longleftrightarrow> plain_key key \<and>
    (case v of
       Lv_object fs \<Rightarrow> fields_readable fs
     | Lv_string s \<Rightarrow> (\<forall>r \<in> set s. valid_rune r)
     | Lv_raw s \<Rightarrow> \<not> needsQuote s
     | Lv_array vs \<Rightarrow> False)"
| "fields_readable [] \<longleftrightarrow> True"
| "fields_readable (f # fs) \<longleftrightarrow> field_readable f \<and> fields_readable fs"

section \<open>Fields are read back\<close>

lemma plain_key_pk: "plain_key ns \<Longrightarrow> plain_key key \<Longrightarrow> plain_key (pk ns key)"
  "plain_key ns \<Longrightarrow> plain_key key \<Longrightarrow> plain_key (opened ns key)"
  by (simp_all add: plain_key_def pk_def opened_def rune_codes)

lemma read_pairs_value:
  assumes "plain_key (pk ns key)" "read_value (w @ t) = Some (v, t)"
  shows "read_pairs (Suc n) (beginKV ns key @ w @ t) = map_option (Cons (pk ns key, v)) (read_pairs n t)"
proof -
  have k: "takeWhile (\<lambda>c. c \<noteq> 61) (pk ns key @ 61 # w @ t) = pk ns key"
  proof -
    have "\<forall>x \<in> set (pk ns key). x \<noteq> 61" using assms(1) by (auto simp: plain_key_def rune_codes)
    then show ?thesis by (simp add: takeWhile_append2)
  qed
  show ?thesis using assms(2) by (simp add: beginKV_def rune_codes k Let_def)
qed

lemma write_starts_with_space:
  "write_field pr ns f = [] \<or> hd (write_field pr ns f) = 32"
  "write_fields pr ns fs = [] \<or> hd (write_fields pr ns fs) = 32"
proof (induction ns f and ns fs rule: field_pairs_fields_pairs.induct)
  case (2 ns key v)
  then show ?case by (cases v) (simp_all add: beginKV_def rune_codes)
next
  case (4 ns f fs)
  then show ?case by (cases "write_field pr ns f = []") (auto simp: hd_append)
qed simp_all

lemma starts_with_space_append: "(s = [] \<or> hd s = 32) \<Longrightarrow> t = [] \<or> hd t = (32 :: nat) \<Longrightarrow> s @ t = [] \<or> hd (s @ t) = 32"
  by (auto simp: hd_append)

lemma read_pairs_fields:
  "field_readable f \<Longrightarrow> plain_key ns \<Longrightarrow> t = [] \<or> hd t = 32 \<Longrightarrow>
    read_pairs (length (field_pairs ns f) + m) (write_field pr ns f @ t) = map_option (append (field_pairs ns f)) (read_pairs m t)"
  "fields_readable fs \<Longrightarrow> plain_key ns \<Longrightarrow> t = [] \<or> hd t = 32 \<Longrightarrow>
    read_pairs (length (fields_pairs ns fs) + m) (write_fields pr ns fs @ t) = map_option (append (fields_pairs ns fs)) (read_pairs m t)"
proof (induction ns f and ns fs arbitrary: t m and t m rule: field_pairs_fields_pairs.induct)
  case (1 ns key)
  then show ?case by (simp add: option.map_ident)
next
  case (2 ns key v)
  note k = plain_key_pk [OF 2(3)]
  show ?case
  proof (cases v)
    case (Lv_string s)
    then have "read_value (appendQuoted pr s @ t) = Some (s, t)" using 2 read_value_quoted by simp
    then show ?thesis using Lv_string 2 read_pairs_value [OF k(1)] by simp
  next
    case (Lv_raw s)
    then have "\<not> needsQuote s" using 2 by simp
    then have "appendQuoted pr s = s" "\<forall>r \<in> set s. r \<noteq> 32 \<and> r \<noteq> 34" "s \<noteq> []" by (auto simp: appendQuoted_def needsQuote_def rune_codes)
    then have "read_value (s @ t) = Some (s, t)"
      using 2(4) by (cases s; cases t) (auto simp: read_value_def rune_codes takeWhile_append2 dropWhile_append2)
    then show ?thesis using Lv_raw 2 read_pairs_value [OF k(1)] by simp
  next
    case (Lv_object fs)
    then show ?thesis using 2 k(2) by simp
  qed (use 2 in simp)
next
  case (3 ns)
  then show ?case by (simp add: option.map_ident)
next
  case (4 ns f fs)
  let ?ns = "case f of Log_namespace key \<Rightarrow> opened ns key | _ \<Rightarrow> ns"
  have ns: "plain_key ?ns" using 4(3,4) plain_key_pk(2) by (cases f) simp_all
  have t: "write_fields pr ?ns fs @ t = [] \<or> hd (write_fields pr ?ns fs @ t) = 32"
    by (rule starts_with_space_append [OF write_starts_with_space(2) 4(5)])
  have "read_pairs (length (field_pairs ns f) + (length (fields_pairs ?ns fs) + m)) (write_field pr ns f @ write_fields pr ?ns fs @ t) =
      map_option (append (field_pairs ns f)) (read_pairs (length (fields_pairs ?ns fs) + m) (write_fields pr ?ns fs @ t))"
    by (rule 4(1) [OF _ 4(4) t]) (use 4(3) in simp)
  moreover have "read_pairs (length (fields_pairs ?ns fs) + m) (write_fields pr ?ns fs @ t) =
      map_option (append (fields_pairs ?ns fs)) (read_pairs m t)"
    by (rule 4(2) [OF _ ns 4(5)]) (use 4(3) in simp)
  ultimately show ?case by (simp add: option.map_comp comp_def add.assoc)
qed

text \<open>The fields of a log entry are read back as what was logged, whatever characters the strings hold: nested objects and namespaces
  give dotted keys, and no string can pass for another field.\<close>

lemma logged_fields_read_back:
  assumes "fields_readable fs" "plain_key ns"
  shows "read_pairs (length (fields_pairs ns fs)) (write_fields pr ns fs) = Some (fields_pairs ns fs)"
  using read_pairs_fields(2) [OF assms, of "[]" 0 pr] by simp

definition demo_fields :: "log_field list" where
  "demo_fields = [Log_field (lit ''room'') (Lv_raw (lit ''42'')), Log_field (lit ''title'') (Lv_string (lit ''a b=c'' @ [10, 34])),
     Log_namespace (lit ''n''), Log_field (lit ''o'') (Lv_object [Log_field (lit ''k'') (Lv_string (lit ''v''))])]"

lemma logged_fields_example:
  "write_fields (\<lambda>r. 32 \<le> r) [] demo_fields = lit '' room=42 title='' @ [34] @ lit ''a b=c'' @ [92, 110, 92, 34, 34] @ lit '' n.o.k=v'' \<and>
    fields_pairs [] demo_fields = [(lit ''room'', lit ''42''), (lit ''title'', lit ''a b=c'' @ [10, 34]), (lit ''n.o.k'', lit ''v'')]"
  by code_simp

text \<open>A level takes at least five columns; a message is written as it is, so that one with line breaks looks like several entries.\<close>

lemma appendLevel_width: "5 \<le> length (appendLevel l False)"
  by (simp add: appendLevel_def Let_def)

lemma message_breaks_line:
  "le_Message e = a @ [10] @ b \<Longrightarrow> \<exists>u v. EncodeEntry pr color ns buf e fs = u @ a @ [10] @ b @ v"
  by (auto simp: EncodeEntry_def intro: exI [of _ "le_Time e @ lit ''  '' @ appendLevel (le_Level e) color @ lit ''  '' @
    (if le_LoggerName e \<noteq> [] then le_LoggerName e @ lit ''  '' else [])"])

end
