(* ===== verification/Spec2Isabelle.thy ===== *)
theory Spec2Isabelle
  imports FlvSegment FlvAccumulate HlsProcessors HlsTs HlsSettle HlsStream Prefetcher StreamWriter RecorderQueries Webhook GiftPb SubCheck ConvertService Files ServeCache DanmakuSession DanmakuJson LiveWs RestAuth Sink RoomRequests StreamRead Credentials Notify Upkeep LogEncode
begin

text \<open>
  Bilirec records live rooms of Bilibili: it checks the rooms a user subscribes to, fetches their streams as FLV or
  HLS, repairs them on the way and writes segments to disk, records the chat beside them, converts finished
  segments and serves the results. The development models the logic of these parts, function by function, and
  proves what each is for. Paths below are under \<open>src/\<close>; the names of operations are those of the code.

  How the parts interact. \<open>SubCheck\<close> finds rooms that are live and calls \<open>Recorder\<close>, which chooses a stream
  (\<open>StreamSelect\<close>), and reads it through \<open>HlsStream\<close> or directly. Chunks go through a pipeline (\<open>Pipeline\<close>) of
  processors (\<open>FlvSegment\<close>, \<open>HlsProcessors\<close>), the last of which is the file writer (\<open>StreamWriter\<close> over \<open>BufWriter\<close>).
  A processor may ask for a new segment; the recorder then names and opens the next file (\<open>RecordFiles\<close>), tells the danmaku
  session to rotate (\<open>DanmakuSession\<close>), emits events (\<open>Webhook\<close>) and hands the finished file to the conversion
  (\<open>ConvertService\<close>). \<open>Files\<close> and \<open>MediaPath\<close> serve the files and ask the recorder and the conversion before deleting.

  Theories and what their lemmas show:

  \<^item> Foundations. \<open>Prelude\<close>: machine types, byte order, lemma collections. \<open>GoMap\<close>, \<open>GoStrings\<close>, \<open>GoPath\<close>, \<open>GoSort\<close>: what
    the sources use of Go's maps, \<open>strings\<close>, \<open>strconv\<close>, \<open>path/filepath\<close> and \<open>sort\<close>. The map and the sort have their
    laws in locales. \<open>Tx\<close>: \<open>pkg/tx\<close>, reservations that settle on every path. \<open>Backoff\<close>: \<open>pkg/backoff\<close> behind one locale
    for every policy. \<open>Db\<close>: \<open>pkg/db\<close>, buckets with commits that may fail. \<open>RoundRobin\<close>: \<open>pkg/coordinator\<close>.
  \<^item> FLV. \<open>FlvTag\<close>: \<open>pkg/flv\<close> tags and framing, with the reader that the file format prescribes. \<open>FlvDedup\<close>, \<open>FlvFixer\<close>:
    duplicate cache and realtime fixer; its output is a sequence of whole tags, does not depend on how the input is
    cut into chunks, and has bounded timestamp gaps. \<open>FlvAccumulate\<close>, \<open>FlvDetector\<close>: the batch fixer and
    the detector of changed headers. \<open>FlvSegment\<close>: the FLV strategy and the loop over segments; every file is valid.
  \<^item> Reading. \<open>StreamRead\<close>: the idle timeout of bodies, the loop that reads FLV chunks, and the reader of segments; every
    buffer is with the receiver or back in the pool.
  \<^item> HLS. \<open>Mp4\<close>: boxes (\<open>pkg/mp4\<close>) and rebasing of fragments. \<open>HlsTs\<close>: continuity counters. \<open>HlsSettle\<close>: the debounce of
    init segments. \<open>HlsProcessors\<close>: duplicate removal, guard, normaliser. \<open>HlsSession\<close>, \<open>HlsStream\<close>, \<open>Prefetcher\<close>: \<open>pkg/hls\<close>,
    fetching with retries, the delivery loop in order of media sequence, and prefetching goroutines whose bodies are
    all given back.
  \<^item> Writing. \<open>BufWriter\<close>, \<open>StreamWriter\<close>: every chunk that was accepted is in the file after closing, and the accounting
    of page-cache calls.
  \<^item> Recordings. \<open>RecordFiles\<close>: names, their parsing, and freeing disk space by deleting the oldest. \<open>Recorder\<close>,
    \<open>RecorderQueries\<close>: \<open>internal/services/recorder\<close> as a step relation: the limit of recordings, recovery, file names of a
    session, finishing of files. \<open>Webhook\<close>: one queue per room, delivered in order. \<open>StreamSelect\<close>: order of candidate streams.
  \<^item> Subscriptions. \<open>Subscribe\<close>: rooms and settings through a restart. \<open>SubCheck\<close>: shards, the check of a room, and
    announcements that happen once per live session.
  \<^item> Conversion. \<open>ConvertFiles\<close>, \<open>Convert\<close>, \<open>ConvertFfmpeg\<close>, \<open>ConvertService\<close>: \<open>internal/services/convert\<close> with both managers,
    deletion of sources, and the whole as a step relation with its invariant.
  \<^item> Danmaku. \<open>Protowire\<close>, \<open>GiftPb\<close>: binary gift messages. \<open>LiveWs\<close>: packets of the live connection. \<open>DanmakuJson\<close>,
    \<open>DanmakuXml\<close>: from a message to a fragment; a sidecar is read back as what was said. \<open>DanmakuSession\<close>: the
    session's goroutines as steps; fragments keep their order over rotations, and discards end with the sidecar gone,
    but for one race, which a theorem exhibits.
  \<^item> Serving. \<open>MediaPath\<close>: path checks and signed links. \<open>Files\<close>: listing and deleting. \<open>ServeCache\<close>: page cache of served
    files, under every order of timers. \<open>RestAuth\<close>: login, session cookies and roles. \<open>ListParams\<close>, \<open>RoomRequests\<close>: the
    parameters of requests on rooms and recordings and the status of every outcome. \<open>Notify\<close>: event streams and web push;
    no closed channel is used, whatever the order in which browsers come and go.
  \<^item> The API. \<open>FallbackClient\<close>: \<open>pkg/fallback\<close>, anonymous requests that fall back to the account. \<open>RoomInfo\<close>: rooms, their cache and
    its batches, which answer as one request would. \<open>QrLogin\<close>: the login by QR code as a step relation; each login comes to its
    end. \<open>Credentials\<close>: the files of cookies and tokens, which outlive a restart.
  \<^item> Infrastructure. \<open>Pools\<close>: \<open>pkg/pool\<close>; no buffer has two holders. \<open>Sink\<close>: \<open>pkg/sink\<close>, batches of log lines in order. \<open>LogEncode\<close>: the fields of a line are read back as
    they were logged, whatever characters they hold.
    \<open>Settings\<close>: \<open>internal/modules/config\<close>, the environment with its defaults, and what a validated configuration guarantees.
    \<open>Upkeep\<close>: the janitor, the tunnel's address and supervision, the check for a newer release, and the writing of downloads.

  Bounds and fuel. Machine integers are words where they wrap (timestamps, counters, sizes in headers); lengths, indices and
  identifiers are natural numbers or integers where the code's 64 bits are out of reach. Loops over data are structural or have a
  measure; fuel is used where a bound is computed beforehand (the length of the input in parsers, the number of attempts of a
  retry), and lemmas show that it suffices. \<open>LiveWs.dispatch\<close> may not end and is a partial function.

  Concurrency. Where goroutines share state, each critical section, channel operation or atomic access is one step of a
  relation, and theorems hold for every interleaving. Timers fire at any moment; durations enter only where the code computes with them.

  Parameters. The network, ffmpeg, the signing of tokens, JSON and compression libraries and the file system's failures are inputs
  or parameters with the documented behaviour as named hypotheses; the hash of duplicates is a parameter.

  Not modelled: the HTTP framework's routing, the dependency injection of \<open>internal/bootstrap\<close> and the commands under \<open>cmd\<close>,
  the set-up of loggers (\<open>internal/modules/logging\<close>), metrics (\<open>internal/modules/metrics\<close>, counters with no effect on the logic),
  the tunnel's client, the locating of ffmpeg, the client of cloudconvert's API, generated API documentation, and the test
  helpers under \<open>internal/testutil\<close>: none of them decides anything that the properties are about, and most of their lines call libraries.
\<close>

end
